(* ===== verification/RteCommon.thy ===== *)
theory RteCommon
  imports Prelude
begin

text \<open>
  The power-of-two helpers of lib/eal/include/rte_common.h by which the control plane sizes
  register arrays, meter arrays and hash tables: what \<open>rte_align32pow2\<close> returns on its whole
  domain, including the sizes for which its result wraps to zero, and the masks made from it.
\<close>

definition rte_combine32ms1b :: "u32 \<Rightarrow> u32" where
  "rte_combine32ms1b x =
     (let x = x OR drop_bit 1 x;
          x = x OR drop_bit 2 x;
          x = x OR drop_bit 4 x;
          x = x OR drop_bit 8 x;
          x = x OR drop_bit 16 x
      in x)"

definition rte_align32pow2 :: "u32 \<Rightarrow> u32" where
  "rte_align32pow2 x = (let x = x - 1; x = rte_combine32ms1b x in x + 1)"

text \<open>The 64-bit versions.\<close>

definition rte_combine64ms1b :: "u64 \<Rightarrow> u64" where
  "rte_combine64ms1b v =
     (let v = v OR drop_bit 1 v;
          v = v OR drop_bit 2 v;
          v = v OR drop_bit 4 v;
          v = v OR drop_bit 8 v;
          v = v OR drop_bit 16 v;
          v = v OR drop_bit 32 v
      in v)"

definition rte_align64pow2 :: "u64 \<Rightarrow> u64" where
  "rte_align64pow2 v = (let v = v - 1; v = rte_combine64ms1b v in v + 1)"

text \<open>One line of the cascade: it doubles the distance over which a bit is smeared.\<close>

definition smeared :: "u32 \<Rightarrow> u32 \<Rightarrow> nat \<Rightarrow> bool" where
  "smeared x y d \<longleftrightarrow> (\<forall>k. bit y k \<longleftrightarrow> (\<exists>i < d. bit x (k + i)))"

lemma smeared_start: "smeared x x 1"
  by (simp add: smeared_def)

lemma smeared_step:
  assumes "smeared x y d"
  shows "smeared x (y OR drop_bit d y) (2 * d)"
  unfolding smeared_def
proof
  fix k
  have "bit (y OR drop_bit d y) k \<longleftrightarrow> (\<exists>i < d. bit x (k + i)) \<or> (\<exists>i < d. bit x (d + k + i))"
    using assms by (simp add: bit_or_iff bit_drop_bit_eq smeared_def)
  also have "\<dots> \<longleftrightarrow> (\<exists>i < 2 * d. bit x (k + i))" (is "?L \<longleftrightarrow> ?R")
  proof
    assume ?L
    then show ?R
    proof
      assume "\<exists>i < d. bit x (k + i)"
      then obtain i where "i < d" "bit x (k + i)" by blast
      then show ?R by (intro exI [of _ i]) simp
    next
      assume "\<exists>i < d. bit x (d + k + i)"
      then obtain i where "i < d" "bit x (d + k + i)" by blast
      then show ?R by (intro exI [of _ "d + i"]) (simp add: add.assoc add.left_commute)
    qed
  next
    assume ?R
    then obtain i where i: "i < 2 * d" "bit x (k + i)" by blast
    show ?L
    proof (cases "i < d")
      case False
      then have "i - d < d" "d + k + (i - d) = k + i" using i by auto
      with i show ?L by metis
    qed (use i in auto)
  qed
  finally show "bit (y OR drop_bit d y) k \<longleftrightarrow> (\<exists>i < 2 * d. bit x (k + i))" .
qed

lemma bit_combine: "bit (rte_combine32ms1b x) k \<longleftrightarrow> (\<exists>j \<ge> k. bit x j)"
proof -
  have "smeared x (rte_combine32ms1b x) 32"
    using smeared_step [OF smeared_step [OF smeared_step [OF smeared_step [OF smeared_step [OF smeared_start [of x]]]]]]
    by (simp add: rte_combine32ms1b_def Let_def)
  then have "bit (rte_combine32ms1b x) k \<longleftrightarrow> (\<exists>i < 32. bit x (k + i))" by (simp add: smeared_def)
  also have "\<dots> \<longleftrightarrow> (\<exists>j \<ge> k. bit x j)"
  proof
    assume "\<exists>j \<ge> k. bit x j"
    then obtain j where j: "k \<le> j" "bit x j" by blast
    then have "j < 32" using bit_imp_le_length [of x j] by simp
    then have "j - k < 32" "k + (j - k) = j" using j by auto
    with j show "\<exists>i < 32. bit x (k + i)" by metis
  qed (auto intro: exI [of _ "k + _"])
  finally show ?thesis .
qed

text \<open>The combined value is a mask: one bit below the next power of two.\<close>

lemma top_bit:
  assumes "(y :: u32) \<noteq> 0"
  obtains m where "m < 32" and "bit y m" and "\<And>j. bit y j \<Longrightarrow> j \<le> m"
proof -
  let ?B = "{j. bit y j}"
  have "?B \<subseteq> {..< 32}" using bit_imp_le_length [of y] by auto
  then have fin: "finite ?B" by (rule finite_subset) simp
  moreover have "?B \<noteq> {}" using assms by (auto simp: bit_eq_iff)
  ultimately have "Max ?B \<in> ?B" by (rule Max_in)
  with fin \<open>?B \<subseteq> {..< 32}\<close> show ?thesis by (intro that [of "Max ?B"]) auto
qed

lemma combine_mask:
  assumes "bit y m" and "\<And>j. bit y j \<Longrightarrow> j \<le> m"
  shows "rte_combine32ms1b y = mask (Suc m)"
proof (rule bit_word_eqI)
  fix k assume "k < LENGTH(32)"
  then show "bit (rte_combine32ms1b y) k = bit (mask (Suc m) :: u32) k"
    using assms by (auto simp: bit_combine bit_mask_iff less_Suc_eq_le intro: order_trans)
qed

lemma top_bit_bounds:
  assumes "bit (y :: u32) m" and "\<And>j. bit y j \<Longrightarrow> j \<le> m"
  shows "2 ^ m \<le> unat y" and "unat y < 2 ^ Suc m"
proof -
  have b: "bit (unat y) j \<longleftrightarrow> bit y j" for j by (simp add: bit_unsigned_iff)
  have "take_bit (Suc m) (unat y) = unat y"
    by (rule bit_eqI) (auto simp: bit_take_bit_iff b less_Suc_eq_le dest: assms(2))
  then show "unat y < 2 ^ Suc m" by (metis take_bit_nat_less_exp)
  have "bit (unat y) m" using assms(1) b by simp
  then show "2 ^ m \<le> unat y" by (metis bit_take_bit_iff less_irrefl not_le take_bit_nat_eq_self)
qed

lemma align32pow2_mask:
  assumes "1 < unat x"
  obtains m where "m < 32" and "rte_align32pow2 x = mask (Suc m) + 1"
    and "2 ^ m < unat x" and "unat x \<le> 2 ^ Suc m"
proof -
  have "x \<noteq> 0" using assms by auto
  then have x: "unat (x - 1) = unat x - 1" by (rule unat_minus_one)
  then have "x - 1 \<noteq> 0" using assms by (auto simp: unat_eq_0 [symmetric])
  then obtain m where m: "m < 32" "bit (x - 1) m" "\<And>j. bit (x - 1) j \<Longrightarrow> j \<le> m"
    by (rule top_bit) blast
  from top_bit_bounds [OF m(2,3)] have "2 ^ m \<le> unat x - 1" "unat x - 1 < 2 ^ Suc m"
    unfolding x by blast+
  with assms have "2 ^ m < unat x" "unat x \<le> 2 ^ Suc m" by linarith+
  moreover have "rte_align32pow2 x = mask (Suc m) + 1"
    by (simp only: rte_align32pow2_def Let_def combine_mask [OF m(2,3)])
  ultimately show ?thesis using that m(1) by blast
qed

lemma mask_plus_1: "Suc m < 32 \<Longrightarrow> unat (mask (Suc m) + 1 :: u32) = 2 ^ Suc m"
proof -
  assume m: "Suc m < 32"
  have "(mask (Suc m) + 1 :: u32) = of_nat (2 ^ Suc m)" by (simp only: mask_eq_exp_minus_1) simp
  moreover have "(2 :: nat) ^ Suc m < 2 ^ 32" using m by (rule power_strict_increasing) simp
  then have "unat (of_nat (2 ^ Suc m) :: u32) = 2 ^ Suc m"
    by (simp only: unat_of_nat len_num1 len_bit0 len_num1 mult_1_right) (simp del: power_Suc)
  ultimately show ?thesis by simp
qed

lemma align32pow2_round_up:
  assumes "0 < unat x" and "unat x \<le> 2 ^ 31"
  obtains k where "k \<le> 31" and "unat (rte_align32pow2 x) = 2 ^ k" and "unat x \<le> 2 ^ k" and "2 ^ k < 2 * unat x"
proof (cases "unat x = 1")
  case True
  then have "x = 1" by (simp add: word_unat_eq_iff)
  then show ?thesis by (intro that [of 0]) (simp_all add: rte_align32pow2_def rte_combine32ms1b_def)
next
  case False
  then have "1 < unat x" using assms by simp
  then obtain m where m: "m < 32" "rte_align32pow2 x = mask (Suc m) + 1" "2 ^ m < unat x" "unat x \<le> 2 ^ Suc m"
    by (rule align32pow2_mask)
  have "(2 :: nat) ^ m < 2 ^ 31" using m(3) assms(2) by (rule order_less_le_trans)
  then have "m < 31" by (rule power_less_imp_less_exp [rotated]) simp
  then show ?thesis using m mask_plus_1 [of m] by (intro that [of "Suc m"]) simp_all
qed

lemma align32pow2_nonzero: "0 < unat x \<Longrightarrow> unat x \<le> 2 ^ 31 \<Longrightarrow> rte_align32pow2 x \<noteq> 0"
  by (metis align32pow2_round_up power_eq_0_iff unat_0 zero_neq_numeral)

text \<open>On 32-bit arguments the 64-bit versions agree with the 32-bit ones, where those do not wrap.\<close>

lemma combine64_ucast: "rte_combine64ms1b (ucast x) = ucast (rte_combine32ms1b x)"
proof -
  have dr: "drop_bit n (ucast y :: u64) = ucast (drop_bit n y)" for n and y :: u32
    by (rule bit_word_eqI) (auto simp: bit_simps dest: bit_imp_le_length)
  have hi: "drop_bit 32 (ucast y :: u64) = 0" for y :: u32
    by (rule bit_word_eqI) (auto simp: bit_simps dest: bit_imp_le_length)
  show ?thesis
    by (simp add: rte_combine64ms1b_def rte_combine32ms1b_def Let_def dr hi unsigned_or_eq [symmetric])
qed

lemma align64_ucast:
  assumes "0 < unat x" and "unat x \<le> 2 ^ 31"
  shows "rte_align64pow2 (ucast x) = ucast (rte_align32pow2 x)"
proof -
  have nz: "rte_align32pow2 x \<noteq> 0" by (rule align32pow2_nonzero [OF assms])
  have "x \<noteq> 0" using assms(1) by auto
  then have "(ucast x - 1 :: u64) = ucast (x - 1)"
    using unat_minus_one [of x] unat_minus_one [of "ucast x :: u64"] unat_ucast_u32
    by (simp add: word_unat_eq_iff)
  moreover have "(ucast y + 1 :: u64) = ucast (y + 1)" if "y + 1 \<noteq> 0" for y :: u32
  proof -
    have y: "unat (y + 1) = unat y + 1" using unat_pred_Suc [OF that] by simp
    have "unat (ucast y + 1 :: u64) = unat y + 1"
      using y unat_u32_less [of "y + 1"] by (simp add: unat_word_ariths unat_ucast_u32)
    with y show ?thesis by (simp add: word_unat_eq_iff unat_ucast_u32)
  qed
  ultimately show ?thesis
    using nz by (simp add: rte_align64pow2_def rte_align32pow2_def Let_def combine64_ucast)
qed

text \<open>
  \<open>rte_align32pow2\<close> rounds up. For every size from 1 to \<open>2 ^ 31\<close> it returns the least power of
  two that is at least the size.
\<close>

theorem align32pow2_spec:
  assumes "0 < unat x" and "unat x \<le> 2 ^ 31"
  shows "\<exists>k \<le> 31. unat (rte_align32pow2 x) = 2 ^ k \<and> unat x \<le> 2 ^ k \<and> 2 ^ k < 2 * unat x"
  using align32pow2_round_up [OF assms] by metis

lemma align32pow2_wrap:
  assumes "2 ^ 31 < unat x"
  shows "rte_align32pow2 x = 0"
proof -
  have "1 < unat x" using assms by simp
  then obtain m where m: "m < 32" "rte_align32pow2 x = mask (Suc m) + 1" "2 ^ m < unat x" "unat x \<le> 2 ^ Suc m"
    by (rule align32pow2_mask)
  have "(2 :: nat) ^ 31 < 2 ^ Suc m" using assms m(4) by (rule order_less_le_trans)
  then have "31 < Suc m" by (rule power_less_imp_less_exp [rotated]) simp
  then have "m = 31" using m(1) by simp
  then show ?thesis using m(2) by (simp add: mask_eq_exp_minus_1)
qed

text \<open>
  For a size above \<open>2 ^ 31\<close> the result of \<open>rte_align32pow2\<close> wraps to zero, so an array configured
  with such a size has no element, while the mask of its indices, size minus one, is all ones.
\<close>

theorem align32pow2_wraps:
  assumes "2 ^ 31 < unat x"
  shows "rte_align32pow2 x = 0 \<and> rte_align32pow2 x - 1 = 0xFFFFFFFF"
  using align32pow2_wrap [OF assms] by simp

lemma align32pow2_spec_witness: "\<exists>k \<le> 31. unat (rte_align32pow2 1000) = 2 ^ k \<and> 1000 \<le> (2 :: nat) ^ k \<and> 2 ^ k < (2000 :: nat)"
  using align32pow2_spec [of 1000] by simp

lemma align32pow2_wraps_witness: "rte_align32pow2 0x80000001 = 0"
  using align32pow2_wraps [of "0x80000001"] by simp

end
