(* ===== verification/TableEm.thy ===== *)
theory TableEm
  imports RteCommon
begin

text \<open>
  The exact-match table of lib/table/rte_swx_table_em.c: an extendible hash table whose
  buckets hold four signatures and key numbers, with bucket extensions linked behind the
  buckets and stacks of the free keys and extensions. Keys are the lists of 64-bit words that the
  code reads; an array is a list and an access past its end a fault, as is a walk that does not
  end. The optimised lookup is its three steps over a mailbox.
\<close>

section \<open>Keys and hashes\<close>

type_synonym key = "u64 list"

fun crc32_loop :: "nat \<Rightarrow> u64 \<Rightarrow> u64" where
  "crc32_loop 0 crc = crc"
| "crc32_loop (Suc i) crc =
     (let mask = - (crc AND 1)
      in crc32_loop i (drop_bit 1 crc XOR (0x82F63B78 AND mask)))"

definition crc32_u64 :: "u64 \<Rightarrow> u64 \<Rightarrow> u64" where
  "crc32_u64 crc v = crc32_loop 64 ((crc AND 0xFFFFFFFF) XOR v)"

text \<open>\<open>k ! i AND m ! i\<close> is the word \<open>i\<close> of the key under the mask; the result is cut to 32 bits.\<close>

definition em_hash :: "key \<Rightarrow> key \<Rightarrow> u32 \<Rightarrow> u32 \<Rightarrow> u32" where
  "em_hash k m key_size seed =
     (let w = (\<lambda>i. k ! i AND m ! i); s = ucast seed :: u64 in
      if key_size = 8 then ucast (crc32_u64 s (w 0))
      else if key_size = 16 then
        (let k0 = w 0; crc0 = crc32_u64 k0 s; crc1 = crc32_u64 (drop_bit 32 k0) (w 1)
         in ucast (crc0 XOR crc1))
      else if key_size = 32 then
        (let k0 = w 0; k2 = w 2;
             crc0 = crc32_u64 k0 s; crc1 = crc32_u64 (drop_bit 32 k0) (w 1);
             crc2 = crc32_u64 k2 (w 3); crc3 = drop_bit 32 k2;
             crc0 = crc32_u64 crc0 crc1; crc1 = crc32_u64 crc2 crc3
         in ucast (crc0 XOR crc1))
      else if key_size = 64 then
        (let k0 = w 0; k2 = w 2; k5 = w 5;
             crc0 = crc32_u64 k0 s; crc1 = crc32_u64 (drop_bit 32 k0) (w 1);
             crc2 = crc32_u64 k2 (w 3); crc3 = crc32_u64 (drop_bit 32 k2) (w 4);
             crc4 = crc32_u64 k5 (w 6); crc5 = crc32_u64 (drop_bit 32 k5) (w 7);
             crc0 = crc32_u64 crc0 (push_bit 32 crc1 XOR crc2);
             crc1 = crc32_u64 crc3 (push_bit 32 crc4 XOR crc5)
         in ucast (crc0 XOR crc1))
      else 0)"

definition keycpy :: "key \<Rightarrow> key \<Rightarrow> u32 \<Rightarrow> key" where
  "keycpy src src_mask n_bytes = map (\<lambda>i. src ! i AND src_mask ! i) [0..<unat n_bytes div 8]"

fun keycmp_loop :: "nat list \<Rightarrow> key \<Rightarrow> key \<Rightarrow> key \<Rightarrow> bool" where
  "keycmp_loop [] a b m = True"
| "keycmp_loop (i # is) a b m = (if a ! i \<noteq> (b ! i AND m ! i) then False else keycmp_loop is a b m)"

definition keycmp :: "key \<Rightarrow> key \<Rightarrow> key \<Rightarrow> u32 \<Rightarrow> bool" where
  "keycmp a b m n_bytes =
     (let x = (\<lambda>i. a ! i XOR (b ! i AND m ! i)) in
      if n_bytes = 8 then x 0 = 0
      else if n_bytes = 16 then x 0 OR x 1 = 0
      else if n_bytes = 32 then (x 0 OR x 1) OR (x 2 OR x 3) = 0
      else if n_bytes = 64 then ((x 0 OR x 1) OR (x 2 OR x 3)) OR ((x 4 OR x 5) OR (x 6 OR x 7)) = 0
      else keycmp_loop [0..<unat n_bytes div 8] a b m)"

section \<open>The table\<close>

definition KEYS_PER_BUCKET :: nat where "KEYS_PER_BUCKET = 4"

record bucket_extension =
  b_next :: "nat option"
  b_sig :: "u16 list"
  b_key_id :: "u32 list"

datatype bkt_ref = Bucket nat | Extension nat

record em_table =
  em_key_size :: u32
  em_key_offset :: u32
  em_action_data_size :: nat
  em_n_keys_max :: u32
  em_n_buckets :: u32
  em_n_buckets_ext :: u32
  key_stack_tos :: u32
  bkt_ext_stack_tos :: u32
  em_key_mask :: key
  em_buckets :: "bucket_extension list"
  em_buckets_ext :: "bucket_extension list"
  em_keys :: "key list"
  key_stack :: "u32 list"
  bkt_ext_stack :: "u32 list"
  em_data :: "(u64 \<times> bytes) list"

record em_entry =
  e_key :: "key option"
  e_action_id :: u64
  e_action_data :: "bytes option"

datatype em_fault = BktBounds | KeyBounds | StackBounds | DataBounds | ChainLoop | Overlap

definition EINVAL :: int where "EINVAL = 22"
definition ENOSPC :: int where "ENOSPC = 28"

definition get_bkt :: "em_table \<Rightarrow> bkt_ref \<Rightarrow> em_fault + bucket_extension" where
  "get_bkt t r =
     (case (case r of Bucket i \<Rightarrow> aget (em_buckets t) i | Extension i \<Rightarrow> aget (em_buckets_ext t) i) of
        None \<Rightarrow> Inl BktBounds | Some b \<Rightarrow> Inr b)"

definition put_bkt :: "em_table \<Rightarrow> bkt_ref \<Rightarrow> bucket_extension \<Rightarrow> em_table" where
  "put_bkt t r b =
     (case r of Bucket i \<Rightarrow> t\<lparr>em_buckets := (em_buckets t)[i := b]\<rparr>
      | Extension i \<Rightarrow> t\<lparr>em_buckets_ext := (em_buckets_ext t)[i := b]\<rparr>)"

definition bkt_is_empty :: "bucket_extension \<Rightarrow> bool" where
  "bkt_is_empty bkt \<longleftrightarrow> b_sig bkt ! 0 = 0 \<and> b_sig bkt ! 1 = 0 \<and> b_sig bkt ! 2 = 0 \<and> b_sig bkt ! 3 = 0"

definition bkt_key_is_empty :: "bucket_extension \<Rightarrow> nat \<Rightarrow> bool" where
  "bkt_key_is_empty bkt bkt_pos \<longleftrightarrow> b_sig bkt ! bkt_pos = 0"

definition bkt_keycmp :: "em_table \<Rightarrow> bucket_extension \<Rightarrow> key \<Rightarrow> nat \<Rightarrow> u32 \<Rightarrow> em_fault + bool" where
  "bkt_keycmp t bkt input_key bkt_pos input_sig =
     (if input_sig \<noteq> ucast (b_sig bkt ! bkt_pos) then Inr False
      else case aget (em_keys t) (unat (b_key_id bkt ! bkt_pos)) of
          None \<Rightarrow> Inl KeyBounds
        | Some bkt_key \<Rightarrow> Inr (keycmp bkt_key input_key (em_key_mask t) (em_key_size t)))"

text \<open>The data of a key: the action, and the bytes of its arguments when the caller gives any.\<close>

definition key_data_write :: "em_table \<Rightarrow> u32 \<Rightarrow> em_entry \<Rightarrow> em_fault + em_table" where
  "key_data_write t key_id e =
     (case aget (em_data t) (unat key_id) of
        None \<Rightarrow> Inl KeyBounds
      | Some (_, old) \<Rightarrow>
          bindR (case e_action_data e of
                   Some ad \<Rightarrow>
                     if em_action_data_size t = 0 then Inr old
                     else if length ad < em_action_data_size t then Inl DataBounds
                     else Inr (take (em_action_data_size t) ad @ drop (em_action_data_size t) old)
                 | None \<Rightarrow> Inr old)
            (\<lambda>bytes. Inr (t\<lparr>em_data := (em_data t)[unat key_id := (e_action_id e, bytes)]\<rparr>)))"

definition bkt_key_install ::
  "em_table \<Rightarrow> bkt_ref \<Rightarrow> em_entry \<Rightarrow> key \<Rightarrow> nat \<Rightarrow> u32 \<Rightarrow> u32 \<Rightarrow> em_fault + em_table" where
  "bkt_key_install t r e input_key bkt_pos bkt_key_id input_sig =
     bindR (get_bkt t r) (\<lambda>bkt.
       case aset (em_keys t) (unat bkt_key_id) (keycpy input_key (em_key_mask t) (em_key_size t)) of
         None \<Rightarrow> Inl KeyBounds
       | Some ks \<Rightarrow>
           key_data_write
             ((put_bkt t r (bkt\<lparr>b_sig := (b_sig bkt)[bkt_pos := ucast input_sig],
                                b_key_id := (b_key_id bkt)[bkt_pos := bkt_key_id]\<rparr>))\<lparr>em_keys := ks\<rparr>)
             bkt_key_id e)"

definition bkt_key_data_update :: "em_table \<Rightarrow> bkt_ref \<Rightarrow> em_entry \<Rightarrow> nat \<Rightarrow> em_fault + em_table" where
  "bkt_key_data_update t r e bkt_pos =
     bindR (get_bkt t r) (\<lambda>bkt. key_data_write t (b_key_id bkt ! bkt_pos) e)"

definition key_pop :: "em_table \<Rightarrow> em_fault + em_table \<times> u32" where
  "key_pop t =
     (let tos = key_stack_tos t - 1 in
      case aget (key_stack t) (unat tos) of
        None \<Rightarrow> Inl StackBounds | Some i \<Rightarrow> Inr (t\<lparr>key_stack_tos := tos\<rparr>, i))"

definition key_push :: "em_table \<Rightarrow> u32 \<Rightarrow> em_fault + em_table" where
  "key_push t i =
     (case aset (key_stack t) (unat (key_stack_tos t)) i of
        None \<Rightarrow> Inl StackBounds
      | Some st \<Rightarrow> Inr (t\<lparr>key_stack := st, key_stack_tos := key_stack_tos t + 1\<rparr>))"

definition ext_pop :: "em_table \<Rightarrow> em_fault + em_table \<times> u32" where
  "ext_pop t =
     (let tos = bkt_ext_stack_tos t - 1 in
      case aget (bkt_ext_stack t) (unat tos) of
        None \<Rightarrow> Inl StackBounds | Some i \<Rightarrow> Inr (t\<lparr>bkt_ext_stack_tos := tos\<rparr>, i))"

definition ext_push :: "em_table \<Rightarrow> u32 \<Rightarrow> em_fault + em_table" where
  "ext_push t i =
     (case aset (bkt_ext_stack t) (unat (bkt_ext_stack_tos t)) i of
        None \<Rightarrow> Inl StackBounds
      | Some st \<Rightarrow> Inr (t\<lparr>bkt_ext_stack := st, bkt_ext_stack_tos := bkt_ext_stack_tos t + 1\<rparr>))"

section \<open>The walks\<close>

text \<open>The positions of a bucket at which the key is.\<close>

fun find_pos :: "em_table \<Rightarrow> bucket_extension \<Rightarrow> key \<Rightarrow> u32 \<Rightarrow> nat list \<Rightarrow> em_fault + nat option" where
  "find_pos t bkt k sig [] = Inr None"
| "find_pos t bkt k sig (i # is) =
     bindR (bkt_keycmp t bkt k i sig) (\<lambda>eq. if eq then Inr (Some i) else find_pos t bkt k sig is)"

text \<open>
  The nested loop over a bucket and its extensions, with the bucket before (\<open>bkt_prev\<close>); the first
  argument bounds the number of buckets.
\<close>

fun find_key ::
  "nat \<Rightarrow> em_table \<Rightarrow> key \<Rightarrow> u32 \<Rightarrow> bkt_ref option \<Rightarrow> bkt_ref \<Rightarrow>
     em_fault + (bkt_ref option \<times> bkt_ref \<times> nat) option"
where
  "find_key 0 t k sig prev r = Inl ChainLoop"
| "find_key (Suc fuel) t k sig prev r =
     bindR (get_bkt t r) (\<lambda>bkt.
     bindR (find_pos t bkt k sig [0..<KEYS_PER_BUCKET]) (\<lambda>p.
       case p of
         Some i \<Rightarrow> Inr (Some (prev, r, i))
       | None \<Rightarrow>
           (case b_next bkt of
              None \<Rightarrow> Inr None
            | Some e \<Rightarrow> find_key fuel t k sig (Some r) (Extension e))))"

text \<open>The loop for an empty position: the position, or the last bucket if all are taken.\<close>

fun find_empty :: "nat \<Rightarrow> em_table \<Rightarrow> bkt_ref \<Rightarrow> em_fault + (bkt_ref \<times> nat) + bkt_ref" where
  "find_empty 0 t r = Inl ChainLoop"
| "find_empty (Suc fuel) t r =
     bindR (get_bkt t r) (\<lambda>bkt.
       case find (bkt_key_is_empty bkt) [0..<KEYS_PER_BUCKET] of
         Some i \<Rightarrow> Inr (Inl (r, i))
       | None \<Rightarrow>
           (case b_next bkt of
              None \<Rightarrow> Inr (Inr r)
            | Some e \<Rightarrow> find_empty fuel t (Extension e)))"

definition chain_fuel :: "em_table \<Rightarrow> nat" where
  "chain_fuel t = unat (em_n_buckets_ext t) + 1"

text \<open>The bucket and the signature of a key.\<close>

definition bkt_of :: "em_table \<Rightarrow> key \<Rightarrow> bkt_ref" where
  "bkt_of t k = Bucket (unat (em_hash k (em_key_mask t) (em_key_size t) 0 AND (em_n_buckets t - 1)))"

definition sig_of :: "em_table \<Rightarrow> key \<Rightarrow> u32" where
  "sig_of t k = drop_bit 16 (em_hash k (em_key_mask t) (em_key_size t) 0) OR 1"

section \<open>The operations\<close>

definition zeroed_bucket :: bucket_extension where
  "zeroed_bucket = \<lparr>b_next = None, b_sig = replicate 4 0, b_key_id = replicate 4 0\<rparr>"

definition table_add :: "em_table \<Rightarrow> em_entry option \<Rightarrow> em_fault + em_table \<times> int" where
  "table_add t entry =
     (case entry of
        None \<Rightarrow> Inr (t, - EINVAL)
      | Some e \<Rightarrow>
     (case e_key e of
        None \<Rightarrow> Inr (t, - EINVAL)
      | Some k \<Rightarrow>
          (let input_sig = sig_of t k; bkt0 = bkt_of t k in
           bindR (find_key (chain_fuel t) t k input_sig None bkt0) (\<lambda>found.
           case found of
             Some (_, bkt, i) \<Rightarrow> bindR (bkt_key_data_update t bkt e i) (\<lambda>t. Inr (t, 0))
           | None \<Rightarrow>
           bindR (find_empty (chain_fuel t) t bkt0) (\<lambda>free.
           case free of
             Inl (bkt, i) \<Rightarrow>
               (if key_stack_tos t = 0 then Inr (t, - ENOSPC)
                else bindR (key_pop t) (\<lambda>(t, new_bkt_key_id).
                     bindR (bkt_key_install t bkt e k i new_bkt_key_id input_sig) (\<lambda>t. Inr (t, 0))))
           | Inr bkt_prev \<Rightarrow>
               (if bkt_ext_stack_tos t \<noteq> 0 \<and> key_stack_tos t \<noteq> 0 then
                  bindR (ext_pop t) (\<lambda>(t, new_bkt_id).
                  let new_bkt = Extension (unat new_bkt_id) in
                  bindR (get_bkt t new_bkt) (\<lambda>_.
                  let t = put_bkt t new_bkt zeroed_bucket in
                  bindR (get_bkt t bkt_prev) (\<lambda>prev.
                  let t = put_bkt t bkt_prev (prev\<lparr>b_next := Some (unat new_bkt_id)\<rparr>) in
                  bindR (key_pop t) (\<lambda>(t, new_bkt_key_id).
                  bindR (bkt_key_install t new_bkt e k 0 new_bkt_key_id input_sig) (\<lambda>t. Inr (t, 0))))))
                else Inr (t, - ENOSPC)))))))"

definition table_del :: "em_table \<Rightarrow> em_entry option \<Rightarrow> em_fault + em_table \<times> int" where
  "table_del t entry =
     (case entry of
        None \<Rightarrow> Inr (t, - EINVAL)
      | Some e \<Rightarrow>
     (case e_key e of
        None \<Rightarrow> Inr (t, - EINVAL)
      | Some k \<Rightarrow>
          bindR (find_key (chain_fuel t) t k (sig_of t k) None (bkt_of t k)) (\<lambda>found.
          case found of
            None \<Rightarrow> Inr (t, 0)
          | Some (bkt_prev, r, i) \<Rightarrow>
              bindR (get_bkt t r) (\<lambda>bkt.
              let bkt = bkt\<lparr>b_sig := (b_sig bkt)[i := 0]\<rparr>; t = put_bkt t r bkt in
              bindR (key_push t (b_key_id bkt ! i)) (\<lambda>t.
              case bkt_prev of
                None \<Rightarrow> Inr (t, 0)
              | Some prev \<Rightarrow>
                  (if bkt_is_empty bkt then
                     bindR (get_bkt t prev) (\<lambda>p.
                     let t = put_bkt t prev (p\<lparr>b_next := b_next bkt\<rparr>) in
                     case r of
                       Extension bkt_id \<Rightarrow> bindR (ext_push t (of_nat bkt_id)) (\<lambda>t. Inr (t, 0))
                     | Bucket _ \<Rightarrow> Inl BktBounds)
                   else Inr (t, 0)))))))"

text \<open>The result of a lookup: the action and its data on a hit.\<close>

definition table_lookup_unoptimized :: "em_table \<Rightarrow> key \<Rightarrow> em_fault + (u64 \<times> bytes) option" where
  "table_lookup_unoptimized t k =
     bindR (find_key (chain_fuel t) t k (sig_of t k) None (bkt_of t k)) (\<lambda>found.
       case found of
         None \<Rightarrow> Inr None
       | Some (_, r, i) \<Rightarrow>
           bindR (get_bkt t r) (\<lambda>bkt.
             case aget (em_data t) (unat (b_key_id bkt ! i)) of
               None \<Rightarrow> Inl KeyBounds | Some d \<Rightarrow> Inr (Some d)))"

section \<open>The lookup in three steps\<close>

record mailbox =
  m_bkt :: bkt_ref
  m_input_sig :: u32
  m_bkt_key_id :: u32
  m_sig_match :: u32
  m_sig_match_many :: u32
  m_state :: int

definition LUT_MATCH :: u32 where "LUT_MATCH = 0xFFFE"
definition LUT_MATCH_MANY :: u32 where "LUT_MATCH_MANY = 0xFEE8"
definition LUT_MATCH_POS :: u32 where "LUT_MATCH_POS = 0x12131210"

text \<open>
  The answer of a step: \<open>None\<close> when the lookup is not complete, and otherwise hit and
  the action with its data, which the code writes on a miss as well.
\<close>

definition lookup_step0 :: "em_table \<Rightarrow> mailbox \<Rightarrow> key \<Rightarrow> mailbox" where
  "lookup_step0 t m k = m\<lparr>m_bkt := bkt_of t k, m_input_sig := sig_of t k, m_state := m_state m + 1\<rparr>"

definition lookup_step1 :: "em_table \<Rightarrow> mailbox \<Rightarrow> em_fault + mailbox" where
  "lookup_step1 t m =
     bindR (get_bkt t (m_bkt m)) (\<lambda>bkt.
       let msk = (\<lambda>i. if m_input_sig m XOR ucast (b_sig bkt ! i) = 0 then push_bit i 1 else 0 :: u32);
           mask_all = (msk 0 OR msk 1) OR (msk 2 OR msk 3);
           sig_match = drop_bit (unat mask_all) LUT_MATCH AND 1;
           sig_match_many = drop_bit (unat mask_all) LUT_MATCH_MANY AND 1;
           sig_match_pos = drop_bit (unat (push_bit 1 mask_all)) LUT_MATCH_POS AND 3
       in Inr (m\<lparr>m_bkt_key_id := b_key_id bkt ! unat sig_match_pos, m_sig_match := sig_match,
                 m_sig_match_many := sig_match_many, m_state := m_state m + 1\<rparr>))"

definition lookup_step2 :: "em_table \<Rightarrow> mailbox \<Rightarrow> key \<Rightarrow> em_fault + mailbox \<times> bool \<times> u64 \<times> bytes" where
  "lookup_step2 t m k =
     bindR (get_bkt t (m_bkt m)) (\<lambda>bkt.
     case (aget (em_keys t) (unat (m_bkt_key_id m)), aget (em_data t) (unat (m_bkt_key_id m))) of
       (Some bkt_key, Some bkt_data) \<Rightarrow>
         (let lkp_hit = (if keycmp bkt_key k (em_key_mask t) (em_key_size t) then 1 else 0) AND m_sig_match m;
              m = m\<lparr>m_state := 0\<rparr>
          in if lkp_hit = 0 \<and> (m_sig_match_many m \<noteq> 0 \<or> b_next bkt \<noteq> None) then
               bindR (table_lookup_unoptimized t k) (\<lambda>res.
                 case res of Some d \<Rightarrow> Inr (m, True, d) | None \<Rightarrow> Inr (m, False, bkt_data))
             else Inr (m, lkp_hit \<noteq> 0, bkt_data))
     | _ \<Rightarrow> Inl KeyBounds)"

definition table_lookup :: "em_table \<Rightarrow> mailbox \<Rightarrow> key \<Rightarrow> em_fault + mailbox \<times> (bool \<times> u64 \<times> bytes) option" where
  "table_lookup t m k =
     (if m_state m = 0 then Inr (lookup_step0 t m k, None)
      else if m_state m = 1 then bindR (lookup_step1 t m) (\<lambda>m. Inr (m, None))
      else if m_state m = 2 then bindR (lookup_step2 t m k) (\<lambda>(m, r). Inr (m, Some r))
      else Inr (m, None))"

text \<open>A lookup as its caller runs it: step by step, at most \<open>n\<close> of them, until it is complete.\<close>

fun lookup_run :: "nat \<Rightarrow> em_table \<Rightarrow> mailbox \<Rightarrow> key \<Rightarrow> em_fault + mailbox \<times> (bool \<times> u64 \<times> bytes) option" where
  "lookup_run 0 t m k = Inr (m, None)"
| "lookup_run (Suc n) t m k =
     bindR (table_lookup t m k) (\<lambda>(m, r). case r of None \<Rightarrow> lookup_run n t m k | Some _ \<Rightarrow> Inr (m, r))"

section \<open>Creation\<close>

datatype match_type = MATCH_WILDCARD | MATCH_LPM | MATCH_EXACT

record table_params =
  p_match_type :: match_type
  p_key_size :: u32
  p_key_offset :: u32
  p_key_mask0 :: "bytes option"
  p_action_data_size :: u32
  p_n_keys_max :: u32

text \<open>The word that the code reads from eight bytes.\<close>

definition le64 :: "bytes \<Rightarrow> u64" where
  "le64 bs = foldr (\<lambda>b a. ucast b OR push_bit 8 a) bs 0"

definition key_words :: "nat \<Rightarrow> bytes \<Rightarrow> key" where
  "key_words n bs = map (\<lambda>i. le64 (take 8 (drop (8 * i) bs))) [0..<n]"

text \<open>
  \<open>__table_create\<close>: the arrays are sized by 32-bit products, so a table whose keys or data need 4 GB
  gets arrays that overlap (fault \<open>Overlap\<close>); the memory itself is taken to be available.
\<close>

definition table_create_internal :: "table_params \<Rightarrow> em_fault + em_table + int" where
  "table_create_internal params =
     (if p_match_type params \<noteq> MATCH_EXACT \<or> p_key_size params = 0 \<or> p_key_size params > 64 \<or> p_n_keys_max params = 0
      then Inr (Inr (- EINVAL))
      else
        (let key_size = rte_align64pow2 (ucast (p_key_size params));
             key_size = (ucast (if key_size < 8 then 8 else key_size) :: u32);
             key_data_size = (ucast (rte_align64pow2 (ucast (p_action_data_size params + 8))) :: u32);
             n_keys_max = p_n_keys_max params;
             n_buckets = n_keys_max div of_nat KEYS_PER_BUCKET;
             n_buckets_ext = n_keys_max div of_nat KEYS_PER_BUCKET;
             mask_bytes = (case p_key_mask0 params of None \<Rightarrow> replicate (unat (p_key_size params)) 0xFF
                           | Some bs \<Rightarrow> take (unat (p_key_size params)) bs);
             key_mask = key_words (unat key_size div 8)
               (mask_bytes @ replicate (unat key_size - unat (p_key_size params)) 0);
             n = unat n_keys_max
         in if unat (p_action_data_size params) + 8 > unat key_data_size \<or>
               n * unat key_size \<ge> 2 ^ 32 \<or> n * unat key_data_size \<ge> 2 ^ 32
            then Inl Overlap
            else Inr (Inl \<lparr>em_key_size = key_size, em_key_offset = p_key_offset params,
                     em_action_data_size = unat (p_action_data_size params), em_n_keys_max = n_keys_max,
                     em_n_buckets = n_buckets, em_n_buckets_ext = n_buckets_ext,
                     key_stack_tos = n_keys_max, bkt_ext_stack_tos = n_buckets_ext,
                     em_key_mask = key_mask,
                     em_buckets = replicate (unat n_buckets) zeroed_bucket,
                     em_buckets_ext = replicate (unat n_buckets_ext) zeroed_bucket,
                     em_keys = replicate n (replicate (unat key_size div 8) 0),
                     key_stack = map (\<lambda>i. n_keys_max - 1 - of_nat i) [0..<n],
                     bkt_ext_stack = map (\<lambda>i. n_buckets_ext - 1 - of_nat i) [0..<unat n_buckets_ext],
                     em_data = replicate n (0, replicate (unat key_data_size - 8) 0)\<rparr>)))"

text \<open>\<open>table_create\<close> with its entries: \<open>None\<close> is the null pointer.\<close>

fun table_add_all :: "em_entry list \<Rightarrow> em_table \<Rightarrow> em_fault + em_table option" where
  "table_add_all [] t = Inr (Some t)"
| "table_add_all (e # es) t =
     bindR (table_add t (Some e)) (\<lambda>(t, status). if status \<noteq> 0 then Inr None else table_add_all es t)"

definition table_create :: "table_params \<Rightarrow> em_entry list \<Rightarrow> em_fault + em_table option" where
  "table_create params entries =
     bindR (table_create_internal params) (\<lambda>r.
       case r of Inr status \<Rightarrow> Inr None | Inl t \<Rightarrow> table_add_all entries t)"

end
