(* ===== verification/TableEmMap.thy ===== *)
theory TableEmMap
  imports TableEm
begin

text \<open>
  The exact-match table as a map: a representation invariant over the buckets' chains, the
  slots in use and the stacks of free keys and extensions, the effect of every
  operation on the map it represents, the lookup in steps, and creation.
\<close>

section \<open>Keys under the mask\<close>

definition em_size_ok :: "u32 \<Rightarrow> bool" where
  "em_size_ok n \<longleftrightarrow> n = 8 \<or> n = 16 \<or> n = 32 \<or> n = 64"

definition masked :: "em_table \<Rightarrow> key \<Rightarrow> key" where
  "masked t k = keycpy k (em_key_mask t) (em_key_size t)"

lemma keycmp_loop_iff: "keycmp_loop is a b m \<longleftrightarrow> (\<forall>i\<in>set is. a ! i = (b ! i AND m ! i))"
  by (induction "is") auto

lemma keycmp_iff: "keycmp a b m n \<longleftrightarrow> (\<forall>i < unat n div 8. a ! i = (b ! i AND m ! i))"
proof -
  have xor0: "x XOR y = 0 \<longleftrightarrow> x = y" for x y :: u64 by (auto simp: bit_eq_iff [where 'a = u64] bit_xor_iff)
  have or0: "x OR y = 0 \<longleftrightarrow> x = 0 \<and> y = 0" for x y :: u64 by (auto simp: bit_eq_iff [where 'a = u64] bit_or_iff)
  have all: "(\<forall>i < 1. P i) \<longleftrightarrow> P 0" "(\<forall>i < 2. P i) \<longleftrightarrow> P 0 \<and> P 1" "(\<forall>i < 4. P i) \<longleftrightarrow> P 0 \<and> P 1 \<and> P 2 \<and> P 3"
    "(\<forall>i < 8. P i) \<longleftrightarrow> P 0 \<and> P 1 \<and> P 2 \<and> P 3 \<and> P 4 \<and> P 5 \<and> P 6 \<and> P 7" for P :: "nat \<Rightarrow> bool"
    by (simp_all add: numeral_eq_Suc All_less_Suc conj_ac)
  consider "n = 8" | "n = 16" | "n = 32" | "n = 64" | "n \<noteq> 8" "n \<noteq> 16" "n \<noteq> 32" "n \<noteq> 64" by blast
  then show ?thesis
  proof cases
    case 5
    then show ?thesis by (simp add: keycmp_def keycmp_loop_iff Ball_def)
  qed (simp_all add: keycmp_def Let_def xor0 or0 all conj_ac)
qed

lemma length_keycpy [simp]: "length (keycpy k m n) = unat n div 8"
  by (simp add: keycpy_def)

lemma keycmp_keycpy: "length a = unat n div 8 \<Longrightarrow> keycmp a b m n \<longleftrightarrow> a = keycpy b m n"
  by (auto simp: keycmp_iff keycpy_def list_eq_iff_nth_eq)

lemma keycpy_nth: "i < unat n div 8 \<Longrightarrow> keycpy k m n ! i = k ! i AND m ! i"
  by (simp add: keycpy_def)

lemma keycpy_idem [simp]: "keycpy (keycpy k m n) m n = keycpy k m n"
  by (auto simp: list_eq_iff_nth_eq keycpy_nth and.assoc)

lemma em_hash_keycpy [simp]: "em_hash (keycpy k m n) m n s = em_hash k m n s"
  by (auto simp: em_hash_def keycpy_nth and.assoc Let_def)

lemma masked_idem [simp]: "masked t (masked t k) = masked t k"
  by (simp add: masked_def)

lemma masked_bkt_sig [simp]: "bkt_of t (masked t k) = bkt_of t k" "sig_of t (masked t k) = sig_of t k"
  by (simp_all add: bkt_of_def sig_of_def masked_def)

lemma sig_of_u16: "(ucast (ucast (sig_of t k) :: u16) :: u32) = sig_of t k"
  by (rule bit_word_eqI) (auto simp: sig_of_def bit_simps bit_1_iff dest: bit_imp_le_length)

lemma sig_of_nonzero: "(ucast (sig_of t k) :: u16) \<noteq> 0"
proof
  assume "(ucast (sig_of t k) :: u16) = 0"
  then have "\<not> bit (ucast (sig_of t k) :: u16) 0" by simp
  then show False by (simp add: sig_of_def bit_simps)
qed

section \<open>Slots, keys and values\<close>

text \<open>
  What a set of used slots, each with a key number, means as a map: \<open>ka\<close> and \<open>da\<close> are the key and
  the value at a number, \<open>free\<close> the numbers not in use, below \<open>nk\<close>.
\<close>

definition core ::
  "'s set \<Rightarrow> ('s \<Rightarrow> nat) \<Rightarrow> (nat \<Rightarrow> 'k) \<Rightarrow> (nat \<Rightarrow> 'v) \<Rightarrow> nat list \<Rightarrow> nat \<Rightarrow> ('s \<Rightarrow> 'k \<Rightarrow> bool) \<Rightarrow> ('k \<rightharpoonup> 'v) \<Rightarrow> bool"
where
  "core S kid ka da free nk good m \<longleftrightarrow>
     distinct free \<and> set free \<subseteq> {..<nk} \<and> inj_on kid S \<and> kid ` S \<subseteq> {..<nk} - set free \<and>
     (\<forall>s\<in>S. good s (ka (kid s))) \<and> inj_on (\<lambda>s. ka (kid s)) S \<and>
     (\<forall>K v. m K = Some v \<longleftrightarrow> (\<exists>s\<in>S. ka (kid s) = K \<and> da (kid s) = v))"

lemma core_cong:
  assumes "core S kid ka da free nk good m"
    and "\<And>s. s \<in> S \<Longrightarrow> kid' s = kid s \<and> ka' (kid s) = ka (kid s) \<and> da' (kid s) = da (kid s) \<and>
           (good s (ka (kid s)) \<longrightarrow> good' s (ka (kid s)))"
  shows "core S kid' ka' da' free nk good' m"
proof -
  have img: "kid' ` S = kid ` S" using assms(2) by (auto simp: image_iff)
  have inj: "inj_on kid' S = inj_on kid S" "inj_on (\<lambda>s. ka' (kid' s)) S = inj_on (\<lambda>s. ka (kid s)) S"
    by (rule inj_on_cong, simp add: assms(2))+
  have "(\<exists>s\<in>S. ka' (kid' s) = K \<and> da' (kid' s) = v) \<longleftrightarrow> (\<exists>s\<in>S. ka (kid s) = K \<and> da (kid s) = v)" for K v
    by (rule bex_cong) (simp_all add: assms(2))
  with assms img inj show ?thesis unfolding core_def by (simp add: assms(2))
qed

lemma core_insert:
  assumes "core S kid ka da (free @ [i]) nk good m" and "s \<notin> S" and "m K = None" and "good s K"
  shows "core (insert s S) (kid(s := i)) (ka(i := K)) (da(i := v)) free nk good (m(K \<mapsto> v))"
proof -
  have no: "kid x \<noteq> i" "ka (kid x) \<noteq> K" "x \<noteq> s" if "x \<in> S" for x
  proof -
    show "kid x \<noteq> i" "x \<noteq> s" using assms(1,2) that by (auto simp: core_def)
    have "m (ka (kid x)) = Some (da (kid x))" using assms(1) that unfolding core_def by blast
    with assms(3) show "ka (kid x) \<noteq> K" by auto
  qed
  have inj1: "inj_on (kid(s := i)) (insert s S)"
    using assms(1,2) no by (auto simp: core_def inj_on_def)
  have inj2: "inj_on (\<lambda>x. (ka(i := K)) ((kid(s := i)) x)) (insert s S)"
    using assms(1,2) no by (auto simp: core_def inj_on_def)
  have img: "kid(s := i) ` insert s S \<subseteq> {..<nk} - set free" "distinct free" "set free \<subseteq> {..<nk}"
    using assms(1) no by (auto simp: core_def)
  have gd: "\<forall>x\<in>insert s S. good x ((ka(i := K)) ((kid(s := i)) x))"
    using assms(1,4) no by (auto simp: core_def)
  have "(m(K \<mapsto> v)) K' = Some v' \<longleftrightarrow>
      (\<exists>x\<in>insert s S. (ka(i := K)) ((kid(s := i)) x) = K' \<and> (da(i := v)) ((kid(s := i)) x) = v')" for K' v'
  proof -
    have "m K' = Some v' \<longleftrightarrow> (\<exists>x\<in>S. ka (kid x) = K' \<and> da (kid x) = v')" using assms(1) unfolding core_def by blast
    moreover have "(\<exists>x\<in>S. (ka(i := K)) ((kid(s := i)) x) = K' \<and> (da(i := v)) ((kid(s := i)) x) = v') \<longleftrightarrow>
        (\<exists>x\<in>S. ka (kid x) = K' \<and> da (kid x) = v')"
      by (rule bex_cong) (auto simp: no)
    ultimately show ?thesis using assms(3) by auto
  qed
  with inj1 inj2 img gd show ?thesis unfolding core_def by blast
qed

lemma core_lookup:
  assumes "core S kid ka da free nk good m" and "s \<in> S"
  shows "m (ka (kid s)) = Some (da (kid s))"
  using assms unfolding core_def by blast

lemma core_None:
  assumes "core S kid ka da free nk good m"
  shows "m K = None \<longleftrightarrow> (\<forall>s\<in>S. ka (kid s) \<noteq> K)"
  using assms unfolding core_def by (metis not_None_eq)

lemma core_update:
  assumes c: "core S kid ka da free nk good m" and s: "s \<in> S"
  shows "core S kid ka (da(kid s := v)) free nk good (m(ka (kid s) \<mapsto> v))"
proof -
  have eq: "kid x = kid s \<longleftrightarrow> x = s" "ka (kid x) = ka (kid s) \<longleftrightarrow> x = s" if "x \<in> S" for x
    using c s that by (auto simp: core_def inj_on_def)
  have "(m(ka (kid s) \<mapsto> v)) K = Some w \<longleftrightarrow> (\<exists>x\<in>S. ka (kid x) = K \<and> (da(kid s := v)) (kid x) = w)" for K w
  proof (cases "K = ka (kid s)")
    case True
    then show ?thesis using s by (auto simp: eq)
  next
    case False
    then have "(\<exists>x\<in>S. ka (kid x) = K \<and> (da(kid s := v)) (kid x) = w) \<longleftrightarrow> (\<exists>x\<in>S. ka (kid x) = K \<and> da (kid x) = w)"
      by (intro bex_cong) (auto simp: eq)
    with False c show ?thesis unfolding core_def by simp
  qed
  with c show ?thesis unfolding core_def by blast
qed

lemma core_delete:
  assumes c: "core S kid ka da free nk good m" and s: "s \<in> S"
  shows "core (S - {s}) kid ka da (free @ [kid s]) nk good (m(ka (kid s) := None))"
proof -
  have eq: "kid x = kid s \<longleftrightarrow> x = s" "ka (kid x) = ka (kid s) \<longleftrightarrow> x = s" if "x \<in> S" for x
    using c s that by (auto simp: core_def inj_on_def)
  have "(m(ka (kid s) := None)) K = Some w \<longleftrightarrow> (\<exists>x\<in>S - {s}. ka (kid x) = K \<and> da (kid x) = w)" for K w
  proof (cases "K = ka (kid s)")
    case True
    then show ?thesis by (auto simp: eq)
  next
    case False
    then have "(\<exists>x\<in>S - {s}. ka (kid x) = K \<and> da (kid x) = w) \<longleftrightarrow> (\<exists>x\<in>S. ka (kid x) = K \<and> da (kid x) = w)" by blast
    with False c show ?thesis unfolding core_def by simp
  qed
  moreover have "distinct (free @ [kid s])" "set (free @ [kid s]) \<subseteq> {..<nk}" "inj_on kid (S - {s})"
      "kid ` (S - {s}) \<subseteq> {..<nk} - set (free @ [kid s])" "inj_on (\<lambda>s. ka (kid s)) (S - {s})"
    using c s by (auto simp: core_def eq intro: inj_on_diff)
  ultimately show ?thesis using c unfolding core_def by blast
qed

text \<open>The free numbers and one in use are distinct numbers below \<open>nk\<close>: there is room to push it.\<close>

lemma core_room:
  assumes c: "core S kid ka da free nk good m" and s: "s \<in> S"
  shows "length free < nk"
proof -
  have "distinct (kid s # free)" "set (kid s # free) \<subseteq> {..<nk}" using c s by (auto simp: core_def)
  then have "length (kid s # free) \<le> card {..<nk}" by (metis card_mono distinct_card finite_lessThan)
  then show ?thesis by simp
qed

section \<open>The representation\<close>

definition bk :: "em_table \<Rightarrow> bkt_ref \<Rightarrow> bucket_extension" where
  "bk t r = (case r of Bucket i \<Rightarrow> em_buckets t ! i | Extension i \<Rightarrow> em_buckets_ext t ! i)"

definition ref_ok :: "em_table \<Rightarrow> bkt_ref \<Rightarrow> bool" where
  "ref_ok t r \<longleftrightarrow> (case r of Bucket i \<Rightarrow> i < length (em_buckets t) | Extension i \<Rightarrow> i < length (em_buckets_ext t))"

lemma get_bkt_ok: "ref_ok t r \<Longrightarrow> get_bkt t r = Inr (bk t r)"
  by (simp add: get_bkt_def ref_ok_def bk_def split: bkt_ref.splits)

lemma bk_put [simp]: "ref_ok t r \<Longrightarrow> bk (put_bkt t r b) r' = (if r' = r then b else bk t r')"
  by (auto simp: bk_def put_bkt_def ref_ok_def nth_list_update split: bkt_ref.splits)

lemma ref_ok_put [simp]: "ref_ok (put_bkt t r b) r' = ref_ok t r'"
  by (simp add: ref_ok_def put_bkt_def split: bkt_ref.splits)

lemma put_bkt_fields [simp]:
  "em_key_size (put_bkt t r b) = em_key_size t" "em_action_data_size (put_bkt t r b) = em_action_data_size t"
  "em_n_keys_max (put_bkt t r b) = em_n_keys_max t" "em_n_buckets (put_bkt t r b) = em_n_buckets t"
  "em_n_buckets_ext (put_bkt t r b) = em_n_buckets_ext t" "key_stack_tos (put_bkt t r b) = key_stack_tos t"
  "bkt_ext_stack_tos (put_bkt t r b) = bkt_ext_stack_tos t" "em_key_mask (put_bkt t r b) = em_key_mask t"
  "em_keys (put_bkt t r b) = em_keys t" "key_stack (put_bkt t r b) = key_stack t"
  "bkt_ext_stack (put_bkt t r b) = bkt_ext_stack t" "em_data (put_bkt t r b) = em_data t"
  "em_key_offset (put_bkt t r b) = em_key_offset t"
  "length (em_buckets (put_bkt t r b)) = length (em_buckets t)"
  "length (em_buckets_ext (put_bkt t r b)) = length (em_buckets_ext t)"
  by (simp_all add: put_bkt_def split: bkt_ref.splits)

type_synonym slot = "bkt_ref \<times> nat"

definition ssig :: "em_table \<Rightarrow> slot \<Rightarrow> u16" where
  "ssig t s = b_sig (bk t (fst s)) ! snd s"

definition skid :: "em_table \<Rightarrow> slot \<Rightarrow> nat" where
  "skid t s = unat (b_key_id (bk t (fst s)) ! snd s)"

text \<open>The chain of a bucket: the extensions \<open>es\<close> linked behind \<open>r\<close>.\<close>

fun linked :: "em_table \<Rightarrow> bkt_ref \<Rightarrow> nat list \<Rightarrow> bool" where
  "linked t r [] \<longleftrightarrow> b_next (bk t r) = None"
| "linked t r (e # es) \<longleftrightarrow> b_next (bk t r) = Some e \<and> linked t (Extension e) es"

definition refs :: "(nat \<Rightarrow> nat list) \<Rightarrow> nat \<Rightarrow> bkt_ref list" where
  "refs ch b = Bucket b # map Extension (ch b)"

definition free_keys :: "em_table \<Rightarrow> nat list" where
  "free_keys t = map unat (take (unat (key_stack_tos t)) (key_stack t))"

definition free_exts :: "em_table \<Rightarrow> nat list" where
  "free_exts t = map unat (take (unat (bkt_ext_stack_tos t)) (bkt_ext_stack t))"

text \<open>Signatures and key numbers of a bucket; those of an empty position are numbers of keys too.\<close>

definition bucket_ok :: "u32 \<Rightarrow> bucket_extension \<Rightarrow> bool" where
  "bucket_ok n b \<longleftrightarrow> length (b_sig b) = 4 \<and> length (b_key_id b) = 4 \<and> (\<forall>i\<in>set (b_key_id b). unat i < unat n)"

definition em_shape :: "em_table \<Rightarrow> bool" where
  "em_shape t \<longleftrightarrow> em_size_ok (em_key_size t) \<and> em_n_buckets t \<noteq> 0 \<and>
     length (em_buckets t) = unat (em_n_buckets t) \<and> length (em_buckets_ext t) = unat (em_n_buckets_ext t) \<and>
     length (em_keys t) = unat (em_n_keys_max t) \<and> length (em_data t) = unat (em_n_keys_max t) \<and>
     length (key_stack t) = unat (em_n_keys_max t) \<and> length (bkt_ext_stack t) = unat (em_n_buckets_ext t) \<and>
     unat (key_stack_tos t) \<le> unat (em_n_keys_max t) \<and> unat (bkt_ext_stack_tos t) \<le> unat (em_n_buckets_ext t) \<and>
     (\<forall>r. ref_ok t r \<longrightarrow> bucket_ok (em_n_keys_max t) (bk t r)) \<and> em_n_keys_max t \<noteq> 0 \<and>
     (\<forall>d\<in>set (em_data t). em_action_data_size t \<le> length (snd d)) \<and>
     (\<forall>k\<in>set (em_keys t). length k = unat (em_key_size t) div 8)"

text \<open>The extensions in the chains of \<open>nb\<close> buckets and the free ones are different numbers below \<open>n\<close>.\<close>

definition chain_sets :: "nat \<Rightarrow> nat \<Rightarrow> (nat \<Rightarrow> nat list) \<Rightarrow> nat list \<Rightarrow> bool" where
  "chain_sets nb n ch free \<longleftrightarrow>
     (\<forall>b. \<not> b < nb \<longrightarrow> ch b = []) \<and>
     (\<forall>b. distinct (ch b) \<and> set (ch b) \<inter> set free = {}) \<and>
     (\<forall>b c. b \<noteq> c \<longrightarrow> set (ch b) \<inter> set (ch c) = {}) \<and>
     distinct free \<and> (\<forall>e\<in>set free \<union> (\<Union>b. set (ch b)). e < n)"

lemma chain_sets_extend:
  "chain_sets nb n ch (free @ [e]) \<Longrightarrow> b < nb \<Longrightarrow> chain_sets nb n (ch(b := ch b @ [e])) free"
  unfolding chain_sets_def by (auto split: if_splits)

lemma chain_sets_shrink:
  assumes "chain_sets nb n ch free" and ch: "ch b = xs @ e # ys"
  shows "chain_sets nb n (ch(b := xs @ ys)) (free @ [e])"
proof -
  have d: "distinct (xs @ e # ys)" "set (xs @ e # ys) \<inter> set free = {}" "e < n" "b < nb"
    using assms(1) ch unfolding chain_sets_def by (metis, metis, metis UN_iff UnI2 UNIV_I in_set_conv_decomp, metis append_is_Nil_conv list.distinct(1))
  have other: "set (ch c) \<inter> set (xs @ e # ys) = {}" if "c \<noteq> b" for c
    using assms(1) ch that unfolding chain_sets_def by metis
  have sub: "set ((ch(b := xs @ ys)) c) \<subseteq> set (ch c)" for c using ch by auto
  show ?thesis
    unfolding chain_sets_def
  proof (intro conjI allI impI ballI)
    fix c assume "\<not> c < nb" then show "(ch(b := xs @ ys)) c = []" using assms(1) d(4) by (auto simp: chain_sets_def)
  next
    fix c show "distinct ((ch(b := xs @ ys)) c)" using assms(1) d(1) by (auto simp: chain_sets_def)
    show "set ((ch(b := xs @ ys)) c) \<inter> set (free @ [e]) = {}"
      using assms(1) d other [of c] by (cases "c = b") (auto simp: chain_sets_def)
  next
    fix c c' :: nat assume "c \<noteq> c'"
    then have "set (ch c) \<inter> set (ch c') = {}" using assms(1) by (simp add: chain_sets_def)
    with sub [of c] sub [of c'] show "set ((ch(b := xs @ ys)) c) \<inter> set ((ch(b := xs @ ys)) c') = {}" by blast
  next
    show "distinct (free @ [e])" using assms(1) d(2) by (auto simp: chain_sets_def)
    fix x assume "x \<in> set (free @ [e]) \<union> (\<Union>c. set ((ch(b := xs @ ys)) c))"
    then have "x \<in> set free \<union> (\<Union>c. set (ch c)) \<or> x = e" using sub by fastforce
    with assms(1) d(3) show "x < n" by (auto simp: chain_sets_def)
  qed
qed

definition chains_ok :: "em_table \<Rightarrow> (nat \<Rightarrow> nat list) \<Rightarrow> bool" where
  "chains_ok t ch \<longleftrightarrow> (\<forall>b < unat (em_n_buckets t). linked t (Bucket b) (ch b)) \<and>
     chain_sets (unat (em_n_buckets t)) (unat (em_n_buckets_ext t)) ch (free_exts t)"

definition home :: "em_table \<Rightarrow> key \<Rightarrow> nat" where
  "home t k = unat (em_hash k (em_key_mask t) (em_key_size t) 0 AND (em_n_buckets t - 1))"

definition used_slots :: "em_table \<Rightarrow> (nat \<Rightarrow> nat list) \<Rightarrow> slot set" where
  "used_slots t ch = {s. (\<exists>b < unat (em_n_buckets t). fst s \<in> set (refs ch b)) \<and> snd s < 4 \<and> ssig t s \<noteq> 0}"

definition good_slot :: "em_table \<Rightarrow> (nat \<Rightarrow> nat list) \<Rightarrow> slot \<Rightarrow> key \<Rightarrow> bool" where
  "good_slot t ch s K \<longleftrightarrow> masked t K = K \<and> ssig t s = ucast (sig_of t K) \<and> fst s \<in> set (refs ch (home t K))"

definition dval :: "em_table \<Rightarrow> u64 \<times> bytes \<Rightarrow> u64 \<times> bytes" where
  "dval t d = (fst d, take (em_action_data_size t) (snd d))"

definition em_core :: "em_table \<Rightarrow> (nat \<Rightarrow> nat list) \<Rightarrow> (key \<rightharpoonup> u64 \<times> bytes) \<Rightarrow> bool" where
  "em_core t ch m \<longleftrightarrow> core (used_slots t ch) (skid t) (\<lambda>i. em_keys t ! i) (\<lambda>i. dval t (em_data t ! i))
     (free_keys t) (unat (em_n_keys_max t)) (good_slot t ch) m"

text \<open>The table \<open>t\<close> represents the map \<open>m\<close> from keys under the mask to actions with their data.\<close>

definition em_rep :: "em_table \<Rightarrow> (key \<rightharpoonup> u64 \<times> bytes) \<Rightarrow> bool" where
  "em_rep t m \<longleftrightarrow> em_shape t \<and> (\<exists>ch. chains_ok t ch \<and> em_core t ch m)"

section \<open>Facts about the representation\<close>

lemma home_bkt_of: "bkt_of t k = Bucket (home t k)"
  by (simp add: bkt_of_def home_def)

lemma home_masked [simp]: "home t (masked t k) = home t k"
  by (simp add: home_def masked_def)

lemma home_less: "em_n_buckets t \<noteq> 0 \<Longrightarrow> home t k < unat (em_n_buckets t)"
proof -
  assume nz: "em_n_buckets t \<noteq> 0"
  have "em_hash k (em_key_mask t) (em_key_size t) 0 AND (em_n_buckets t - 1) \<le> em_n_buckets t - 1"
    by (rule word_and_le1)
  then have "home t k \<le> unat (em_n_buckets t - 1)" by (simp add: home_def word_le_nat_alt)
  with nz show ?thesis using unat_pred [OF nz] by (simp add: unat_gt_0) (metis Suc_pred le_imp_less_Suc unat_gt_0)
qed

lemma refs_ok:
  assumes "em_shape t" and "chains_ok t ch" and "b < unat (em_n_buckets t)" and "r \<in> set (refs ch b)"
  shows "ref_ok t r"
  using assms by (auto simp: refs_def ref_ok_def em_shape_def chains_ok_def chain_sets_def)

lemma linked_cong: "(\<And>r'. r' = r \<or> r' \<in> Extension ` set es \<Longrightarrow> b_next (bk t' r') = b_next (bk t r')) \<Longrightarrow>
    linked t' r es = linked t r es"
  by (induction es arbitrary: r) auto

lemma chain_length:
  assumes "chains_ok t ch" shows "length (ch b) \<le> unat (em_n_buckets_ext t)"
proof -
  have "set (ch b) \<subseteq> {..<unat (em_n_buckets_ext t)}" "distinct (ch b)"
    using assms unfolding chains_ok_def chain_sets_def by blast+
  then show ?thesis by (metis card_lessThan card_mono distinct_card finite_lessThan)
qed

lemma refs_disjoint:
  assumes "chains_ok t ch" and "r \<in> set (refs ch b)" and "r \<in> set (refs ch c)"
  shows "b = c"
  using assms unfolding refs_def chains_ok_def chain_sets_def by (cases r) (auto; blast)+

text \<open>A position of the chain matches a key exactly if it is a used slot with the masked key.\<close>

definition matches :: "em_table \<Rightarrow> key \<Rightarrow> slot \<Rightarrow> bool" where
  "matches t k s \<longleftrightarrow> sig_of t k = ucast (ssig t s) \<and> keycmp (em_keys t ! skid t s) k (em_key_mask t) (em_key_size t)"

lemma matches_iff:
  assumes sh: "em_shape t" and core: "em_core t ch m" and b: "b < unat (em_n_buckets t)"
    and r: "fst s \<in> set (refs ch b)" "snd s < 4"
  shows "matches t k s \<longleftrightarrow> s \<in> used_slots t ch \<and> em_keys t ! skid t s = masked t k"
proof (cases "ssig t s = 0")
  case True
  have "sig_of t k \<noteq> 0" using sig_of_nonzero [of t k] by auto
  with True show ?thesis by (auto simp: matches_def used_slots_def)
next
  case False
  with b r have u: "s \<in> used_slots t ch" by (auto simp: used_slots_def)
  then have gs: "good_slot t ch s (em_keys t ! skid t s)" and kid: "skid t s < unat (em_n_keys_max t)"
    using core unfolding em_core_def core_def by auto
  have "length (em_keys t ! skid t s) = unat (em_key_size t) div 8"
    using sh kid by (auto simp: em_shape_def)
  then have "keycmp (em_keys t ! skid t s) k (em_key_mask t) (em_key_size t) \<longleftrightarrow> em_keys t ! skid t s = masked t k"
    by (simp add: keycmp_keycpy masked_def)
  moreover have "ssig t s = ucast (sig_of t (em_keys t ! skid t s))" using gs by (simp add: good_slot_def)
  ultimately show ?thesis using u by (auto simp: matches_def sig_of_u16)
qed

lemma bkt_keycmp_ok:
  assumes sh: "em_shape t" and core: "em_core t ch m" and b: "b < unat (em_n_buckets t)"
    and r: "r \<in> set (refs ch b)" "i < 4"
  shows "bkt_keycmp t (bk t r) k i (sig_of t k) = Inr (matches t k (r, i))"
proof (cases "sig_of t k = ucast (ssig t (r, i))")
  case True
  then have "ssig t (r, i) \<noteq> 0" using sig_of_nonzero [of t k] by auto
  with b r have "(r, i) \<in> used_slots t ch" by (auto simp: used_slots_def)
  then have "skid t (r, i) < length (em_keys t)" using core sh unfolding em_core_def core_def em_shape_def by auto
  with True show ?thesis by (simp add: bkt_keycmp_def matches_def ssig_def skid_def)
qed (simp add: bkt_keycmp_def matches_def ssig_def)

lemma find_pos_ok:
  assumes "em_shape t" "em_core t ch m" "b < unat (em_n_buckets t)" "r \<in> set (refs ch b)" and "\<forall>i\<in>set is. i < 4"
  shows "find_pos t (bk t r) k (sig_of t k) is = Inr (find (\<lambda>i. matches t k (r, i)) is)"
  using assms(5) by (induction "is") (simp_all add: bkt_keycmp_ok [OF assms(1-4)])

text \<open>The walk finds a matching position and the bucket before it, or there is none.\<close>

lemma find_key_ok:
  assumes sh: "em_shape t" "chains_ok t ch" "em_core t ch m" "b < unat (em_n_buckets t)"
    and "linked t r es" and "length es < fuel" and "set (r # map Extension es) \<subseteq> set (refs ch b)"
  shows "\<exists>res. find_key fuel t k (sig_of t k) prev r = Inr res \<and>
    (case res of
       None \<Rightarrow> \<forall>r'\<in>set (r # map Extension es). \<forall>i<4. \<not> matches t k (r', i)
     | Some (p, r', i) \<Rightarrow> i < 4 \<and> matches t k (r', i) \<and>
         (\<exists>xs ys. r # map Extension es = xs @ r' # ys \<and> p = (if xs = [] then prev else Some (last xs))))"
  using assms(5-7)
proof (induction fuel arbitrary: r es prev)
  case 0
  then show ?case by simp
next
  case (Suc fuel)
  have r: "r \<in> set (refs ch b)" using Suc.prems(3) by simp
  have g: "get_bkt t r = Inr (bk t r)" by (rule get_bkt_ok [OF refs_ok [OF sh(1,2,4) r]])
  have fp: "find_pos t (bk t r) k (sig_of t k) [0..<4] = Inr (find (\<lambda>i. matches t k (r, i)) [0..<4])"
    by (rule find_pos_ok [OF sh(1,3,4) r]) simp
  show ?case
  proof (cases "find (\<lambda>i. matches t k (r, i)) [0..<4]")
    case (Some i)
    then have "i < 4" "matches t k (r, i)" by (auto simp: find_Some_iff)
    with Some g fp show ?thesis
      by (auto simp: KEYS_PER_BUCKET_def intro!: exI [of _ "[]"])
  next
    case None
    then have no: "\<forall>i<4. \<not> matches t k (r, i)" by (auto simp: find_None_iff)
    show ?thesis
    proof (cases es)
      case Nil
      with Suc.prems(1) None no g fp show ?thesis by (simp add: KEYS_PER_BUCKET_def)
    next
      case (Cons e es')
      then have "linked t (Extension e) es'" "length es' < fuel" "set (Extension e # map Extension es') \<subseteq> set (refs ch b)"
        using Suc.prems by auto
      from Suc.IH [OF this, of "Some r"] obtain res where res:
        "find_key fuel t k (sig_of t k) (Some r) (Extension e) = Inr res"
        "case res of
          None \<Rightarrow> \<forall>r'\<in>set (Extension e # map Extension es'). \<forall>i<4. \<not> matches t k (r', i)
        | Some (p, r', i) \<Rightarrow> i < 4 \<and> matches t k (r', i) \<and>
           (\<exists>xs ys. Extension e # map Extension es' = xs @ r' # ys \<and> p = (if xs = [] then Some r else Some (last xs)))"
        by blast
      have eq: "find_key (Suc fuel) t k (sig_of t k) prev r = Inr res"
        using Suc.prems(1) Cons None g fp res(1) by (simp add: KEYS_PER_BUCKET_def)
      show ?thesis
      proof (cases res)
        case None
        with res(2) no Cons eq show ?thesis by auto
      next
        case (Some x)
        obtain p r' i where x: "x = (p, r', i)" by (cases x)
        with Some res(2) obtain xs ys where "i < 4" "matches t k (r', i)"
          "Extension e # map Extension es' = xs @ r' # ys" "p = (if xs = [] then Some r else Some (last xs))"
          by auto
        then have "\<exists>xs ys. r # map Extension es = xs @ r' # ys \<and> p = (if xs = [] then prev else Some (last xs))"
          using Cons by (intro exI [of _ "r # xs"] exI [of _ ys]) auto
        with \<open>i < 4\<close> \<open>matches t k (r', i)\<close> show ?thesis
          by (intro exI [of _ res]) (simp only: eq Some x option.case prod.case simp_thms)
      qed
    qed
  qed
qed

lemma find_empty_ok:
  assumes sh: "em_shape t" "chains_ok t ch" "b < unat (em_n_buckets t)"
    and "linked t r es" and "length es < fuel" and "set (r # map Extension es) \<subseteq> set (refs ch b)"
  shows "\<exists>res. find_empty fuel t r = Inr res \<and>
    (case res of
       Inl (r', i) \<Rightarrow> r' \<in> set (r # map Extension es) \<and> i < 4 \<and> ssig t (r', i) = 0
     | Inr l \<Rightarrow> l = last (r # map Extension es) \<and>
         (\<forall>r'\<in>set (r # map Extension es). \<forall>i<4. ssig t (r', i) \<noteq> 0))"
  using assms(4-6)
proof (induction fuel arbitrary: r es)
  case 0
  then show ?case by simp
next
  case (Suc fuel)
  have r: "r \<in> set (refs ch b)" using Suc.prems(3) by simp
  have g: "get_bkt t r = Inr (bk t r)" by (rule get_bkt_ok [OF refs_ok [OF sh r]])
  show ?case
  proof (cases "find (bkt_key_is_empty (bk t r)) [0..<4]")
    case (Some i)
    then have "i < 4" "ssig t (r, i) = 0" by (auto simp: find_Some_iff bkt_key_is_empty_def ssig_def)
    with Some g show ?thesis by (simp add: KEYS_PER_BUCKET_def)
  next
    case None
    then have no: "\<forall>i<4. ssig t (r, i) \<noteq> 0" by (auto simp: find_None_iff bkt_key_is_empty_def ssig_def)
    show ?thesis
    proof (cases es)
      case Nil
      with Suc.prems(1) None no g show ?thesis by (simp add: KEYS_PER_BUCKET_def)
    next
      case (Cons e es')
      then have "linked t (Extension e) es'" "length es' < fuel" "set (Extension e # map Extension es') \<subseteq> set (refs ch b)"
        using Suc.prems by auto
      from Suc.IH [OF this] obtain res where res: "find_empty fuel t (Extension e) = Inr res"
        "case res of
          Inl (r', i) \<Rightarrow> r' \<in> set (Extension e # map Extension es') \<and> i < 4 \<and> ssig t (r', i) = 0
        | Inr l \<Rightarrow> l = last (Extension e # map Extension es') \<and>
            (\<forall>r'\<in>set (Extension e # map Extension es'). \<forall>i<4. ssig t (r', i) \<noteq> 0)"
        by blast
      have "find_empty (Suc fuel) t r = Inr res"
        using Suc.prems(1) Cons None g res(1) by (simp add: KEYS_PER_BUCKET_def)
      with res(2) no Cons show ?thesis by (auto split: sum.splits prod.splits)
    qed
  qed
qed

section \<open>Updates and the representation\<close>

lemma bk_updates [simp]:
  "bk (em_data_update f t) = bk t" "bk (em_keys_update f1 t) = bk t" "bk (key_stack_update f2 t) = bk t"
  "bk (key_stack_tos_update f3 t) = bk t" "bk (bkt_ext_stack_update f2 t) = bk t"
  "bk (bkt_ext_stack_tos_update f3 t) = bk t"
  by (simp_all add: bk_def fun_eq_iff split: bkt_ref.split)

lemma ref_ok_updates [simp]:
  "ref_ok (em_data_update f t) = ref_ok t" "ref_ok (em_keys_update f1 t) = ref_ok t" "ref_ok (key_stack_update f2 t) = ref_ok t"
  "ref_ok (key_stack_tos_update f3 t) = ref_ok t" "ref_ok (bkt_ext_stack_update f2 t) = ref_ok t"
  "ref_ok (bkt_ext_stack_tos_update f3 t) = ref_ok t"
  by (simp_all add: ref_ok_def fun_eq_iff split: bkt_ref.split)

text \<open>What depends only on the key mask and on sizes.\<close>

definition same_sizes :: "em_table \<Rightarrow> em_table \<Rightarrow> bool" where
  "same_sizes t t' \<longleftrightarrow> em_key_size t' = em_key_size t \<and> em_key_mask t' = em_key_mask t \<and>
     em_n_buckets t' = em_n_buckets t \<and> em_n_buckets_ext t' = em_n_buckets_ext t \<and>
     em_action_data_size t' = em_action_data_size t \<and> em_n_keys_max t' = em_n_keys_max t"

lemma same_sizesD:
  assumes "same_sizes t t'"
  shows "masked t' = masked t" "sig_of t' = sig_of t" "home t' = home t" "dval t' = dval t" "bkt_of t' = bkt_of t"
  using assms by (simp_all add: same_sizes_def masked_def sig_of_def home_def dval_def bkt_of_def fun_eq_iff)

lemma same_sizes_trans: "same_sizes t t' \<Longrightarrow> same_sizes t' t'' \<Longrightarrow> same_sizes t t''"
  by (simp add: same_sizes_def)

lemma same_sizes_updates [simp]:
  "same_sizes t (em_data_update f t)" "same_sizes t (em_keys_update f1 t)" "same_sizes t (key_stack_update f2 t)"
  "same_sizes t (key_stack_tos_update f3 t)" "same_sizes t (bkt_ext_stack_update f2 t)"
  "same_sizes t (bkt_ext_stack_tos_update f3 t)" "same_sizes t (put_bkt t r b)"
  by (simp_all add: same_sizes_def)

text \<open>A change of buckets that leaves the links, and does not touch the stack of extensions, keeps the chains.\<close>

lemma chains_ok_cong:
  assumes "chains_ok t ch" and "same_sizes t t'" and "\<And>r. b_next (bk t' r) = b_next (bk t r)"
    and "free_exts t' = free_exts t"
  shows "chains_ok t' ch"
proof -
  have "linked t' r es = linked t r es" for r es by (rule linked_cong) (simp add: assms(3))
  with assms show ?thesis by (simp add: chains_ok_def chain_sets_def same_sizes_def)
qed

lemma used_slots_cong:
  assumes "same_sizes t t'" and "\<And>s. snd s < 4 \<Longrightarrow> (\<exists>b < unat (em_n_buckets t). fst s \<in> set (refs ch b)) \<Longrightarrow> ssig t' s = ssig t s"
  shows "used_slots t' ch = used_slots t ch"
proof -
  have "s \<in> used_slots t' ch \<longleftrightarrow> s \<in> used_slots t ch" for s
    using assms(1) assms(2) [of s]
    by (cases "\<exists>b < unat (em_n_buckets t). fst s \<in> set (refs ch b)") (auto simp: used_slots_def same_sizes_def)
  then show ?thesis by blast
qed

text \<open>Writing the data of a key.\<close>

definition entry_ok :: "em_table \<Rightarrow> em_entry \<Rightarrow> bool" where
  "entry_ok t e \<longleftrightarrow> em_action_data_size t = 0 \<or>
     (\<exists>ad. e_action_data e = Some ad \<and> em_action_data_size t \<le> length ad)"

definition entry_val :: "em_table \<Rightarrow> em_entry \<Rightarrow> u64 \<times> bytes" where
  "entry_val t e = (e_action_id e, case e_action_data e of None \<Rightarrow> [] | Some ad \<Rightarrow> take (em_action_data_size t) ad)"

lemma same_sizes_entry:
  assumes "same_sizes t t'"
  shows "entry_val t' = entry_val t" "entry_ok t' = entry_ok t"
  using assms by (simp_all add: same_sizes_def entry_val_def entry_ok_def fun_eq_iff split: option.split)

lemma key_data_write_ok:
  assumes "em_shape t" and "entry_ok t e" and "unat i < unat (em_n_keys_max t)"
  obtains d' where "key_data_write t i e = Inr (t\<lparr>em_data := (em_data t)[unat i := d']\<rparr>)"
    and "dval t d' = entry_val t e" and "em_action_data_size t \<le> length (snd d')"
proof -
  obtain a old where d: "em_data t ! unat i = (a, old)" by (cases "em_data t ! unat i")
  have i: "unat i < length (em_data t)" using assms(1,3) by (simp add: em_shape_def)
  then have len: "em_action_data_size t \<le> length old"
    using assms(1) d nth_mem [OF i] unfolding em_shape_def by fastforce
  let ?bytes = "case e_action_data e of None \<Rightarrow> old
    | Some ad \<Rightarrow> if em_action_data_size t = 0 then old
                 else take (em_action_data_size t) ad @ drop (em_action_data_size t) old"
  show thesis
  proof (rule that [of "(e_action_id e, ?bytes)"])
    show "key_data_write t i e = Inr (t\<lparr>em_data := (em_data t)[unat i := (e_action_id e, ?bytes)]\<rparr>)"
      using i d assms(2) by (auto simp: key_data_write_def entry_ok_def split: option.split)
    show "dval t (e_action_id e, ?bytes) = entry_val t e"
      using assms(2) by (auto simp: dval_def entry_val_def entry_ok_def split: option.split)
    show "em_action_data_size t \<le> length (snd (e_action_id e, ?bytes))"
      using len assms(2) by (auto simp: entry_ok_def split: option.split)
  qed
qed

lemma em_shape_data:
  assumes "em_shape t" and "em_action_data_size t \<le> length (snd d')"
  shows "em_shape (t\<lparr>em_data := (em_data t)[i := d']\<rparr>)"
  using assms by (auto simp: em_shape_def dest!: set_update_subset_insert [THEN subsetD])

text \<open>The data of a key that is in the table.\<close>

lemma em_core_update:
  assumes sh: "em_shape t" and ch: "chains_ok t ch" and core: "em_core t ch m"
    and s: "s \<in> used_slots t ch" and d: "em_action_data_size t \<le> length (snd d')"
  shows "em_shape (t\<lparr>em_data := (em_data t)[skid t s := d']\<rparr>) \<and> chains_ok (t\<lparr>em_data := (em_data t)[skid t s := d']\<rparr>) ch \<and>
    em_core (t\<lparr>em_data := (em_data t)[skid t s := d']\<rparr>) ch (m(em_keys t ! skid t s \<mapsto> dval t d'))"
proof -
  let ?t = "t\<lparr>em_data := (em_data t)[skid t s := d']\<rparr>"
  have sz: "same_sizes t ?t" by simp
  note szd = same_sizesD [OF sz]
  have us: "used_slots ?t ch = used_slots t ch" by (rule used_slots_cong [OF sz]) (simp add: ssig_def)
  have kid: "skid t s < length (em_data t)" using core s sh by (auto simp: em_core_def core_def em_shape_def)
  have v: "skid ?t = skid t" "ssig ?t = ssig t" by (simp_all add: fun_eq_iff skid_def ssig_def)
  have "core (used_slots t ch) (skid t) (\<lambda>i. em_keys t ! i) ((\<lambda>i. dval t (em_data t ! i))(skid t s := dval t d'))
      (free_keys t) (unat (em_n_keys_max t)) (good_slot t ch) (m(em_keys t ! skid t s \<mapsto> dval t d'))"
    using core_update [OF core [unfolded em_core_def] s, of "dval t d'"] by simp
  then have "em_core ?t ch (m(em_keys t ! skid t s \<mapsto> dval t d'))"
    unfolding em_core_def us
    by (simp add: free_keys_def v szd, elim core_cong) (use kid in \<open>auto simp: good_slot_def szd v nth_list_update\<close>)
  moreover have "chains_ok ?t ch" by (rule chains_ok_cong [OF ch sz]) (simp_all add: free_exts_def)
  ultimately show ?thesis using em_shape_data [OF sh d] by simp
qed

text \<open>Taking a free key number.\<close>

lemma key_pop_ok:
  assumes "em_shape t" and "key_stack_tos t \<noteq> 0"
  obtains i where "key_pop t = Inr (t\<lparr>key_stack_tos := key_stack_tos t - 1\<rparr>, i)"
    and "free_keys t = free_keys (t\<lparr>key_stack_tos := key_stack_tos t - 1\<rparr>) @ [unat i]"
proof -
  let ?n = "unat (key_stack_tos t)" and ?n' = "unat (key_stack_tos t - 1)"
  have n: "?n = Suc ?n'" using unat_pred [OF assms(2)] assms(2) by (simp add: unat_gt_0)
  have len: "?n' < length (key_stack t)" using assms(1) n by (simp add: em_shape_def)
  show thesis
  proof (rule that [of "key_stack t ! ?n'"])
    show "key_pop t = Inr (t\<lparr>key_stack_tos := key_stack_tos t - 1\<rparr>, key_stack t ! ?n')"
      using len by (simp add: key_pop_def Let_def)
    show "free_keys t = free_keys (t\<lparr>key_stack_tos := key_stack_tos t - 1\<rparr>) @ [unat (key_stack t ! ?n')]"
      using len by (simp add: free_keys_def n take_Suc_conv_app_nth)
  qed
qed

text \<open>A new key at an empty position of its chain.\<close>

lemma install_ok:
  assumes sh: "em_shape t" and ch: "chains_ok t ch" and core: "em_core t ch m"
    and r: "r \<in> set (refs ch (home t k))" and i: "i < 4" "ssig t (r, i) = 0"
    and tos: "key_stack_tos t \<noteq> 0" and new: "m (masked t k) = None" and e: "entry_ok t e"
  shows "\<exists>t1 id t'. key_pop t = Inr (t1, id) \<and> bkt_key_install t1 r e k i id (sig_of t k) = Inr t' \<and>
    em_shape t' \<and> chains_ok t' ch \<and> em_core t' ch (m(masked t k \<mapsto> entry_val t e)) \<and> same_sizes t t'"
proof -
  let ?K = "masked t k" and ?b = "home t k"
  let ?t1 = "t\<lparr>key_stack_tos := key_stack_tos t - 1\<rparr>"
  obtain id where pop: "key_pop t = Inr (?t1, id)" and fk: "free_keys t = free_keys ?t1 @ [unat id]"
    by (rule key_pop_ok [OF sh tos])
  have b: "?b < unat (em_n_buckets t)" using sh by (simp add: em_shape_def home_less)
  have ok: "ref_ok t r" by (rule refs_ok [OF sh ch b r])
  have id: "unat id < unat (em_n_keys_max t)" using core fk by (auto simp: em_core_def core_def)
  let ?bkt = "(bk t r)\<lparr>b_sig := (b_sig (bk t r))[i := ucast (sig_of t k)], b_key_id := (b_key_id (bk t r))[i := id]\<rparr>"
  let ?t2 = "(put_bkt ?t1 r ?bkt)\<lparr>em_keys := (em_keys t)[unat id := ?K]\<rparr>"
  have bok: "bucket_ok (em_n_keys_max t) (bk t r)" using sh ok by (simp add: em_shape_def)
  have pred: "unat (key_stack_tos t - 1) \<le> unat (em_n_keys_max t)"
    using sh unat_pred [OF tos] by (auto simp: em_shape_def intro: le_trans [OF diff_le_self])
  have bk2: "bk ?t2 r' = (if r' = r then ?bkt else bk t r')" for r' using ok by simp
  have "length ?K = unat (em_key_size t) div 8" by (simp add: masked_def)
  then have sh2: "em_shape ?t2"
    using sh ok bok pred id unfolding em_shape_def
    by (auto simp: bucket_ok_def dest!: set_update_subset_insert [THEN subsetD])
  have sz2: "same_sizes t ?t2" by (simp add: same_sizes_def)
  obtain d' where wr: "key_data_write ?t2 id e = Inr (?t2\<lparr>em_data := (em_data ?t2)[unat id := d']\<rparr>)"
    and dv: "dval ?t2 d' = entry_val ?t2 e" and dl: "em_action_data_size ?t2 \<le> length (snd d')"
    by (rule key_data_write_ok [OF sh2]) (use e id in \<open>simp_all add: entry_ok_def\<close>)
  let ?t3 = "?t2\<lparr>em_data := (em_data t)[unat id := d']\<rparr>"
  have inst: "bkt_key_install ?t1 r e k i id (sig_of t k) = Inr ?t3"
  proof -
    have "get_bkt ?t1 r = Inr (bk t r)" using get_bkt_ok [of ?t1 r] ok by simp
    moreover have "unat id < length (em_keys ?t1)" using sh id by (simp add: em_shape_def)
    ultimately show ?thesis using wr by (simp add: bkt_key_install_def masked_def)
  qed
  have sz3: "same_sizes t ?t3" by (simp add: same_sizes_def)
  note szd = same_sizesD [OF sz3]
  have bk3: "bk ?t3 r' = (if r' = r then ?bkt else bk t r')" for r' using ok by simp
  have len: "i < length (b_sig (bk t r))" "i < length (b_key_id (bk t r))" using bok i(1) by (simp_all add: bucket_ok_def)
  have sg: "ssig ?t3 s = (if s = (r, i) then ucast (sig_of t k) else ssig t s)"
    "skid ?t3 s = (if s = (r, i) then unat id else skid t s)" for s
  proof -
    obtain r' j where s: "s = (r', j)" by (cases s)
    show "ssig ?t3 s = (if s = (r, i) then ucast (sig_of t k) else ssig t s)"
      using len(1) unfolding s ssig_def fst_conv snd_conv bk3 by (cases "r' = r") (simp_all add: nth_list_update eq_commute)
    show "skid ?t3 s = (if s = (r, i) then unat id else skid t s)"
      using len(2) unfolding s skid_def fst_conv snd_conv bk3 by (cases "r' = r") (simp_all add: nth_list_update eq_commute)
  qed
  have us: "used_slots ?t3 ch = insert (r, i) (used_slots t ch)"
  proof (intro set_eqI)
    fix s
    show "s \<in> used_slots ?t3 ch \<longleftrightarrow> s \<in> insert (r, i) (used_slots t ch)"
      using b r i(1) sig_of_nonzero [of t k] sz3 unfolding same_sizes_def
      by (cases "s = (r, i)") (auto simp: used_slots_def sg)
  qed
  have gs: "good_slot ?t3 ch (r, i) ?K" using r i(1) by (simp add: good_slot_def szd sg)
  have ns: "(r, i) \<notin> used_slots t ch" using i(2) by (simp add: used_slots_def)
  have old: "core (used_slots t ch) (skid t) (\<lambda>i. em_keys t ! i) (\<lambda>i. dval t (em_data t ! i))
      (free_keys ?t1 @ [unat id]) (unat (em_n_keys_max t)) (good_slot ?t3 ch) m"
  proof (rule core_cong [OF core [unfolded em_core_def fk]], intro conjI impI)
    fix s assume s: "s \<in> used_slots t ch" "good_slot t ch s (em_keys t ! skid t s)"
    then have "s \<noteq> (r, i)" "snd s < 4" using i(2) by (auto simp: used_slots_def)
    with s(2) show "good_slot ?t3 ch s (em_keys t ! skid t s)" by (simp add: good_slot_def szd sg)
  qed simp_all
  have "core (insert (r, i) (used_slots t ch)) ((skid t)((r, i) := unat id)) ((\<lambda>i. em_keys t ! i)(unat id := ?K))
      ((\<lambda>i. dval t (em_data t ! i))(unat id := entry_val t e)) (free_keys ?t1) (unat (em_n_keys_max t)) (good_slot ?t3 ch)
      (m(?K \<mapsto> entry_val t e))"
    by (rule core_insert [where m = m, OF old ns new gs])
  then have "core (used_slots ?t3 ch) (skid ?t3) (\<lambda>i. em_keys ?t3 ! i) (\<lambda>i. dval t (em_data ?t3 ! i)) (free_keys ?t1)
      (unat (em_n_keys_max t)) (good_slot ?t3 ch) (m(?K \<mapsto> entry_val t e))"
    unfolding us
  proof (rule core_cong, intro conjI impI)
    fix s assume s: "s \<in> insert (r, i) (used_slots t ch)"
    then have "snd s < 4" using i(1) by (auto simp: used_slots_def)
    then show "skid ?t3 s = ((skid t)((r, i) := unat id)) s" by (simp add: sg)
    have "unat id < length (em_keys t)" "unat id < length (em_data t)" using sh id by (simp_all add: em_shape_def)
    then show "em_keys ?t3 ! ((skid t)((r, i) := unat id)) s = ((\<lambda>i. em_keys t ! i)(unat id := ?K)) (((skid t)((r, i) := unat id)) s)"
      "dval t (em_data ?t3 ! ((skid t)((r, i) := unat id)) s) =
       ((\<lambda>i. dval t (em_data t ! i))(unat id := entry_val t e)) (((skid t)((r, i) := unat id)) s)"
      using dv by (simp_all add: nth_list_update same_sizesD(4) [OF sz2] same_sizes_entry [OF sz2])
  qed
  then have "em_core ?t3 ch (m(?K \<mapsto> entry_val t e))"
    unfolding em_core_def szd by (simp add: free_keys_def)
  moreover have "b_next (bk ?t3 r') = b_next (bk t r')" for r' unfolding bk3 by simp
  then have "chains_ok ?t3 ch" by (rule chains_ok_cong [OF ch sz3]) (simp add: free_exts_def)
  moreover have "em_shape ?t3" using em_shape_data [OF sh2 dl, of "unat id"] by simp
  ultimately show ?thesis using pop inst sz3 by blast
qed

section \<open>Extending and shortening a chain\<close>

text \<open>The keys and values stay when the used slots, their signatures and numbers do.\<close>

lemma em_core_cong:
  assumes "em_core t ch m" and sz: "same_sizes t t'"
    and "em_keys t' = em_keys t" "em_data t' = em_data t" "free_keys t' = free_keys t"
    and us: "used_slots t' ch' = used_slots t ch"
    and s: "\<And>s. s \<in> used_slots t ch \<Longrightarrow> ssig t' s = ssig t s \<and> skid t' s = skid t s \<and>
      (\<forall>b. fst s \<in> set (refs ch b) \<longrightarrow> fst s \<in> set (refs ch' b))"
  shows "em_core t' ch' m"
proof -
  note szd = same_sizesD [OF sz]
  have "core (used_slots t ch) (skid t') (\<lambda>i. em_keys t ! i) (\<lambda>i. dval t (em_data t ! i)) (free_keys t)
      (unat (em_n_keys_max t)) (good_slot t' ch') m"
    by (rule core_cong [OF assms(1) [unfolded em_core_def]]) (auto simp: s good_slot_def szd)
  with assms(3-6) sz show ?thesis by (simp add: em_core_def szd same_sizes_def)
qed

lemma linked_snoc:
  "linked t r es \<Longrightarrow> (\<And>r'. r' \<in> set (butlast (r # map Extension es)) \<Longrightarrow> b_next (bk t' r') = b_next (bk t r')) \<Longrightarrow>
   b_next (bk t' (last (r # map Extension es))) = Some e \<Longrightarrow> b_next (bk t' (Extension e)) = None \<Longrightarrow>
   linked t' r (es @ [e])"
proof (induction es arbitrary: r)
  case (Cons x es)
  then have "b_next (bk t' r) = b_next (bk t r)" by simp
  moreover have "linked t' (Extension x) (es @ [e])"
    using Cons.prems by (intro Cons.IH) (auto split: if_splits)
  ultimately show ?case using Cons.prems(1) by simp
qed simp

lemma linked_remove:
  "linked t r (xs @ e # ys) \<Longrightarrow>
   b_next (bk t' (last (r # map Extension xs))) = b_next (bk t (Extension e)) \<Longrightarrow>
   (\<And>r'. r' \<in> set (butlast (r # map Extension xs)) \<union> Extension ` set ys \<Longrightarrow> b_next (bk t' r') = b_next (bk t r')) \<Longrightarrow>
   linked t' r (xs @ ys)"
proof (induction xs arbitrary: r)
  case Nil
  then show ?case
    by (cases ys) (auto simp: linked_cong [where t = t and t' = t'])
next
  case (Cons x xs)
  then have "b_next (bk t' r) = b_next (bk t r)" by simp
  moreover have "linked t' (Extension x) (xs @ ys)"
    using Cons.prems by (intro Cons.IH) (auto split: if_splits)
  ultimately show ?case using Cons.prems(1) by simp
qed

lemma distinct_refs: "chains_ok t ch \<Longrightarrow> distinct (refs ch b)"
  by (auto simp: refs_def chains_ok_def chain_sets_def distinct_map inj_on_def)

lemma butlast_not_last: "distinct xs \<Longrightarrow> x \<in> set (butlast xs) \<Longrightarrow> x \<noteq> last xs"
  by (induction xs) (auto split: if_splits)

lemma linked_other_chains:
  assumes "chains_ok t ch" and "c \<noteq> b" and "linked t (Bucket c) (ch c)"
    and "\<And>r'. r' \<notin> set (refs ch b) \<union> N \<Longrightarrow> b_next (bk t' r') = b_next (bk t r')"
    and "N \<inter> set (refs ch c) = {}"
  shows "linked t' (Bucket c) (ch c)"
proof -
  have "b_next (bk t' r') = b_next (bk t r')" if "r' \<in> set (refs ch c)" for r'
    using assms(2,4,5) that refs_disjoint [OF assms(1) that] by blast
  then have "linked t' (Bucket c) (ch c) = linked t (Bucket c) (ch c)"
    by (intro linked_cong) (auto simp: refs_def)
  with assms(3) show ?thesis by simp
qed

lemma ext_pop_ok:
  assumes "em_shape t" and "bkt_ext_stack_tos t \<noteq> 0"
  obtains i where "ext_pop t = Inr (t\<lparr>bkt_ext_stack_tos := bkt_ext_stack_tos t - 1\<rparr>, i)"
    and "free_exts t = free_exts (t\<lparr>bkt_ext_stack_tos := bkt_ext_stack_tos t - 1\<rparr>) @ [unat i]"
proof -
  let ?n = "unat (bkt_ext_stack_tos t)" and ?n' = "unat (bkt_ext_stack_tos t - 1)"
  have n: "?n = Suc ?n'" using unat_pred [OF assms(2)] assms(2) by (simp add: unat_gt_0)
  have len: "?n' < length (bkt_ext_stack t)" using assms(1) n by (simp add: em_shape_def)
  show thesis
  proof (rule that [of "bkt_ext_stack t ! ?n'"])
    show "ext_pop t = Inr (t\<lparr>bkt_ext_stack_tos := bkt_ext_stack_tos t - 1\<rparr>, bkt_ext_stack t ! ?n')"
      using len by (simp add: ext_pop_def Let_def)
    show "free_exts t = free_exts (t\<lparr>bkt_ext_stack_tos := bkt_ext_stack_tos t - 1\<rparr>) @ [unat (bkt_ext_stack t ! ?n')]"
      using len by (simp add: free_exts_def n take_Suc_conv_app_nth)
  qed
qed

lemma extend_ok:
  assumes sh: "em_shape t" and ch: "chains_ok t ch" and core: "em_core t ch m"
    and b: "b < unat (em_n_buckets t)" and tos: "bkt_ext_stack_tos t \<noteq> 0"
  shows "\<exists>t1 id x y t3 ch'. ext_pop t = Inr (t1, id) \<and> get_bkt t1 (Extension (unat id)) = Inr x \<and>
    get_bkt (put_bkt t1 (Extension (unat id)) zeroed_bucket) (last (refs ch b)) = Inr y \<and>
    t3 = put_bkt (put_bkt t1 (Extension (unat id)) zeroed_bucket) (last (refs ch b)) (y\<lparr>b_next := Some (unat id)\<rparr>) \<and>
    em_shape t3 \<and> chains_ok t3 ch' \<and> em_core t3 ch' m \<and> same_sizes t t3 \<and>
    key_stack_tos t3 = key_stack_tos t \<and> Extension (unat id) \<in> set (refs ch' b) \<and>
    ssig t3 (Extension (unat id), 0) = 0"
proof -
  let ?t1 = "t\<lparr>bkt_ext_stack_tos := bkt_ext_stack_tos t - 1\<rparr>"
  obtain id where pop: "ext_pop t = Inr (?t1, id)" and fe: "free_exts t = free_exts ?t1 @ [unat id]"
    by (rule ext_pop_ok [OF sh tos])
  let ?n = "unat id" and ?new = "Extension (unat id)" and ?l = "last (refs ch b)"
  let ?t2 = "put_bkt ?t1 ?new zeroed_bucket"
  let ?t3 = "put_bkt ?t2 ?l ((bk ?t2 ?l)\<lparr>b_next := Some ?n\<rparr>)"
  let ?ch = "ch(b := ch b @ [?n])"
  have nlt: "?n < unat (em_n_buckets_ext t)" and nfree: "\<And>c. ?n \<notin> set (ch c)" "?n \<notin> set (free_exts ?t1)" "distinct (free_exts ?t1)"
    using ch fe unfolding chains_ok_def chain_sets_def by auto
  have l: "?l \<in> set (refs ch b)" by (rule last_in_set) (simp add: refs_def)
  have lok: "ref_ok t ?l" by (rule refs_ok [OF sh ch b l])
  have newok: "ref_ok t ?new" using nlt sh by (simp add: ref_ok_def em_shape_def)
  have newnot: "?new \<notin> set (refs ch c)" for c using nfree(1) by (auto simp: refs_def)
  then have ln: "?l \<noteq> ?new" using l by metis
  have bk3: "bk ?t3 r = (if r = ?l then (bk t ?l)\<lparr>b_next := Some ?n\<rparr> else if r = ?new then zeroed_bucket else bk t r)" for r
    using lok newok ln by simp
  have sz: "same_sizes t ?t3" by (simp add: same_sizes_def)
  have pred: "unat (bkt_ext_stack_tos t - 1) \<le> unat (em_n_buckets_ext t)"
    using sh unat_pred [OF tos] by (auto simp: em_shape_def intro: le_trans [OF diff_le_self])
  have "bucket_ok (em_n_keys_max t) (bk ?t3 r)" if "ref_ok t r" for r
    using sh that lok unfolding bk3 em_shape_def by (auto simp: bucket_ok_def zeroed_bucket_def unat_gt_0)
  then have sh3: "em_shape ?t3" using sh pred unfolding em_shape_def by simp
  have "linked ?t3 (Bucket b) (ch b @ [?n])"
  proof (rule linked_snoc)
    show "linked t (Bucket b) (ch b)" using ch b by (simp add: chains_ok_def chain_sets_def)
    show "b_next (bk ?t3 (last (Bucket b # map Extension (ch b)))) = Some ?n"
      unfolding bk3 by (simp add: refs_def)
    show "b_next (bk ?t3 ?new) = None" unfolding bk3 using ln by (simp add: zeroed_bucket_def)
    fix r' assume r': "r' \<in> set (butlast (Bucket b # map Extension (ch b)))"
    then have "r' \<in> set (butlast (refs ch b))" by (simp add: refs_def)
    then have "r' \<noteq> ?l" "r' \<in> set (refs ch b)"
      using butlast_not_last [OF distinct_refs [OF ch]] by (auto dest: in_set_butlastD)
    then show "b_next (bk ?t3 r') = b_next (bk t r')" unfolding bk3 using newnot by auto
  qed
  moreover have "linked ?t3 (Bucket c) (ch c)" if "c < unat (em_n_buckets t)" "c \<noteq> b" for c
  proof (rule linked_other_chains [OF ch that(2), where N = "{?new}"])
    show "linked t (Bucket c) (ch c)" using ch that by (simp add: chains_ok_def chain_sets_def)
    show "{?new} \<inter> set (refs ch c) = {}" using newnot by simp
    fix r' assume "r' \<notin> set (refs ch b) \<union> {?new}"
    then show "b_next (bk ?t3 r') = b_next (bk t r')" unfolding bk3 using l by auto
  qed
  moreover have "chain_sets (unat (em_n_buckets t)) (unat (em_n_buckets_ext t)) ?ch (free_exts ?t3)"
    using ch fe b by (auto simp: chains_ok_def free_exts_def intro: chain_sets_extend)
  ultimately have ch3: "chains_ok ?t3 ?ch" by (auto simp: chains_ok_def)
  have sg: "ssig ?t3 s = (if fst s = ?new then b_sig zeroed_bucket ! snd s else ssig t s)"
    "fst s \<noteq> ?new \<Longrightarrow> skid ?t3 s = skid t s" for s
    using ln unfolding ssig_def skid_def bk3 by auto
  have z: "b_sig zeroed_bucket ! i = 0" if "i < 4" for i using that by (simp add: zeroed_bucket_def)
  have us: "used_slots ?t3 ?ch = used_slots t ch"
  proof (intro set_eqI)
    fix s :: slot
    have "fst s \<in> set (refs ?ch c) \<longleftrightarrow> fst s \<in> set (refs ch c) \<or> c = b \<and> fst s = ?new" for c
      by (auto simp: refs_def)
    then show "s \<in> used_slots ?t3 ?ch \<longleftrightarrow> s \<in> used_slots t ch"
      using sz newnot by (cases "fst s = ?new") (auto simp: used_slots_def sg z same_sizes_def)
  qed
  have "em_core ?t3 ?ch m"
  proof (rule em_core_cong [OF core sz _ _ _ us])
    fix s assume "s \<in> used_slots t ch"
    then have "fst s \<noteq> ?new" using newnot by (auto simp: used_slots_def)
    moreover have "\<forall>c. fst s \<in> set (refs ch c) \<longrightarrow> fst s \<in> set (refs ?ch c)" by (auto simp: refs_def)
    ultimately show "ssig ?t3 s = ssig t s \<and> skid ?t3 s = skid t s \<and>
        (\<forall>c. fst s \<in> set (refs ch c) \<longrightarrow> fst s \<in> set (refs ?ch c))"
      using sg [of s] by simp
  qed (simp_all add: free_keys_def)
  moreover have "get_bkt ?t1 ?new = Inr (bk ?t1 ?new)" "get_bkt ?t2 ?l = Inr (bk ?t2 ?l)"
    using newok lok by (simp_all add: get_bkt_ok)
  moreover have "?new \<in> set (refs ?ch b)" by (simp add: refs_def)
  moreover have "ssig ?t3 (?new, 0) = 0" using z [of 0] sg(1) [of "(?new, 0)"] by simp
  moreover have "key_stack_tos ?t3 = key_stack_tos t" by simp
  ultimately show ?thesis using pop sh3 ch3 sz
    by (intro exI [of _ ?t1] exI [of _ id] exI [of _ "bk ?t1 ?new"] exI [of _ "bk ?t2 ?l"] exI [of _ ?t3] exI [of _ ?ch])
      (simp only: simp_thms)
qed

section \<open>Emptying a slot and releasing an extension\<close>

lemma key_push_ok:
  assumes "em_shape t" and "unat (key_stack_tos t) < unat (em_n_keys_max t)"
  shows "\<exists>t'. key_push t i = Inr t' \<and> t' = t\<lparr>key_stack := (key_stack t)[unat (key_stack_tos t) := i], key_stack_tos := key_stack_tos t + 1\<rparr> \<and>
    free_keys t' = free_keys t @ [unat i] \<and> unat (key_stack_tos t') \<le> unat (em_n_keys_max t)"
proof -
  have len: "unat (key_stack_tos t) < length (key_stack t)" using assms by (simp add: em_shape_def)
  have "unat (key_stack_tos t + 1) = Suc (unat (key_stack_tos t))"
    using assms(2) unat_u32_less [of "em_n_keys_max t"] u32_plus_no_wrap [of "key_stack_tos t" 1] by simp
  with len assms(2) show ?thesis
    by (simp add: key_push_def free_keys_def take_Suc_conv_app_nth)
qed

lemma ext_push_ok:
  assumes "em_shape t" and "unat (bkt_ext_stack_tos t) < unat (em_n_buckets_ext t)"
  shows "\<exists>t'. ext_push t i = Inr t' \<and> t' = t\<lparr>bkt_ext_stack := (bkt_ext_stack t)[unat (bkt_ext_stack_tos t) := i], bkt_ext_stack_tos := bkt_ext_stack_tos t + 1\<rparr> \<and>
    free_exts t' = free_exts t @ [unat i] \<and> unat (bkt_ext_stack_tos t') \<le> unat (em_n_buckets_ext t)"
proof -
  have len: "unat (bkt_ext_stack_tos t) < length (bkt_ext_stack t)" using assms by (simp add: em_shape_def)
  have "unat (bkt_ext_stack_tos t + 1) = Suc (unat (bkt_ext_stack_tos t))"
    using assms(2) unat_u32_less [of "em_n_buckets_ext t"] u32_plus_no_wrap [of "bkt_ext_stack_tos t" 1] by simp
  with len assms(2) show ?thesis
    by (simp add: ext_push_def free_exts_def take_Suc_conv_app_nth)
qed

lemma free_keys_length: "em_shape t \<Longrightarrow> length (free_keys t) = unat (key_stack_tos t)"
  by (simp add: free_keys_def em_shape_def)

lemma free_exts_length: "em_shape t \<Longrightarrow> length (free_exts t) = unat (bkt_ext_stack_tos t)"
  by (simp add: free_exts_def em_shape_def)

lemma delete_slot_ok:
  assumes sh: "em_shape t" and ch: "chains_ok t ch" and core: "em_core t ch m"
    and s: "(r, i) \<in> used_slots t ch"
  shows "\<exists>t'. key_push (put_bkt t r ((bk t r)\<lparr>b_sig := (b_sig (bk t r))[i := 0]\<rparr>)) (b_key_id (bk t r) ! i) = Inr t' \<and>
    em_shape t' \<and> chains_ok t' ch \<and> em_core t' ch (m(em_keys t ! skid t (r, i) := None)) \<and> same_sizes t t' \<and>
    (\<forall>r'. bk t' r' = (if r' = r then (bk t r)\<lparr>b_sig := (b_sig (bk t r))[i := 0]\<rparr> else bk t r')) \<and>
    (\<forall>r'. ref_ok t' r' = ref_ok t r')"
proof -
  let ?bkt = "(bk t r)\<lparr>b_sig := (b_sig (bk t r))[i := 0]\<rparr>"
  let ?t1 = "put_bkt t r ?bkt"
  have rc: "\<exists>b < unat (em_n_buckets t). r \<in> set (refs ch b)" and i: "i < 4" using s by (auto simp: used_slots_def)
  then have ok: "ref_ok t r" using refs_ok [OF sh ch] by blast
  have bok: "bucket_ok (em_n_keys_max t) (bk t r)" using sh ok by (simp add: em_shape_def)
  have sh1: "em_shape ?t1" using sh ok bok by (auto simp: em_shape_def bucket_ok_def)
  have "length (free_keys t) < unat (em_n_keys_max t)" using core_room [OF core [unfolded em_core_def] s] .
  then have tos: "unat (key_stack_tos ?t1) < unat (em_n_keys_max ?t1)" using free_keys_length [OF sh] by simp
  from key_push_ok [OF sh1 tos, of "b_key_id (bk t r) ! i"] obtain t' where
    push: "key_push ?t1 (b_key_id (bk t r) ! i) = Inr t'"
    and t': "t' = ?t1\<lparr>key_stack := (key_stack ?t1)[unat (key_stack_tos ?t1) := b_key_id (bk t r) ! i],
                     key_stack_tos := key_stack_tos ?t1 + 1\<rparr>"
    and fk: "free_keys t' = free_keys ?t1 @ [unat (b_key_id (bk t r) ! i)]"
    and le: "unat (key_stack_tos t') \<le> unat (em_n_keys_max ?t1)"
    by blast
  have fk': "free_keys t' = free_keys t @ [skid t (r, i)]" using fk by (simp add: free_keys_def skid_def)
  have bk': "bk t' r' = (if r' = r then ?bkt else bk t r')" for r' using ok by (simp add: t')
  have sz: "same_sizes t t'" by (simp add: t' same_sizes_def)
  note szd = same_sizesD [OF sz]
  have sh': "em_shape t'" using sh1 le by (simp add: t' em_shape_def)
  have len: "i < length (b_sig (bk t r))" using bok i by (simp add: bucket_ok_def)
  have sg: "ssig t' s' = (if s' = (r, i) then 0 else ssig t s')" "skid t' s' = skid t s'" for s'
    using len by (cases s'; cases "fst s' = r"; auto simp: ssig_def skid_def bk' nth_list_update)+
  have us: "used_slots t' ch = used_slots t ch - {(r, i)}"
    using sz by (auto simp: used_slots_def sg same_sizes_def)
  have "core (used_slots t ch - {(r, i)}) (skid t') (\<lambda>i. em_keys t' ! i) (\<lambda>i. dval t (em_data t' ! i)) (free_keys t')
      (unat (em_n_keys_max t)) (good_slot t' ch) (m(em_keys t ! skid t (r, i) := None))"
    unfolding fk'
  proof (rule core_cong [OF core_delete [OF core [unfolded em_core_def] s]])
    fix s' assume "s' \<in> used_slots t ch - {(r, i)}"
    then show "skid t' s' = skid t s' \<and> em_keys t' ! skid t s' = em_keys t ! skid t s' \<and>
        dval t (em_data t' ! skid t s') = dval t (em_data t ! skid t s') \<and>
        (good_slot t ch s' (em_keys t ! skid t s') \<longrightarrow> good_slot t' ch s' (em_keys t ! skid t s'))"
      by (auto simp: sg good_slot_def szd) (simp_all add: t')
  qed
  then have "em_core t' ch (m(em_keys t ! skid t (r, i) := None))"
    using sz by (simp add: em_core_def us szd same_sizes_def)
  moreover have "chains_ok t' ch"
    by (rule chains_ok_cong [OF ch sz]) (simp_all add: bk', simp add: t' free_exts_def)
  moreover have "ref_ok t' r' = ref_ok t r'" for r' by (simp add: t')
  ultimately show ?thesis using push sh' sz bk' by blast
qed

text \<open>An extension without keys, behind the bucket \<open>p\<close>.\<close>

lemma unlink_ok:
  assumes sh: "em_shape t" and ch: "chains_ok t ch" and core: "em_core t ch m"
    and b: "b < unat (em_n_buckets t)" and r: "refs ch b = xs @ r # ys" "xs \<noteq> []"
    and empty: "\<forall>i<4. ssig t (r, i) = 0"
  shows "\<exists>e t' ch'. r = Extension e \<and>
    ext_push (put_bkt t (last xs) ((bk t (last xs))\<lparr>b_next := b_next (bk t r)\<rparr>)) (of_nat e) = Inr t' \<and>
    em_shape t' \<and> chains_ok t' ch' \<and> em_core t' ch' m \<and> same_sizes t t'"
proof -
  let ?p = "last xs"
  obtain es where xs: "xs = Bucket b # map Extension es" and chb: "\<exists>e zs. r = Extension e \<and> ch b = es @ e # zs \<and> ys = map Extension zs"
  proof -
    from r obtain xs' where xs': "xs = Bucket b # xs'" "map Extension (ch b) = xs' @ r # ys"
      by (cases xs) (auto simp: refs_def)
    then obtain es e zs where "ch b = es @ e # zs" "xs' = map Extension es" "r = Extension e" "ys = map Extension zs"
      by (auto simp: map_eq_append_conv map_eq_Cons_conv)
    with xs' that show thesis by blast
  qed
  then obtain e zs where e: "r = Extension e" "ch b = es @ e # zs" "ys = map Extension zs" by blast
  let ?t1 = "put_bkt t ?p ((bk t ?p)\<lparr>b_next := b_next (bk t r)\<rparr>)"
  let ?ch = "ch(b := es @ zs)"
  have dist: "distinct (xs @ r # ys)" using distinct_refs [OF ch, of b] r(1) by simp
  have p: "?p \<in> set (refs ch b)" "?p \<noteq> r" using r dist by auto
  have pok: "ref_ok t ?p" by (rule refs_ok [OF sh ch b p(1)])
  have bk1: "bk ?t1 r' = (if r' = ?p then (bk t ?p)\<lparr>b_next := b_next (bk t r)\<rparr> else bk t r')" for r' using pok by simp
  have sh1: "em_shape ?t1" using sh pok by (auto simp: em_shape_def bucket_ok_def)
  have cs: "chain_sets (unat (em_n_buckets t)) (unat (em_n_buckets_ext t)) ch (free_exts t)" using ch by (simp add: chains_ok_def)
  have en: "e < unat (em_n_buckets_ext t)" "e \<notin> set (free_exts t)" "distinct (free_exts t)"
    "set (free_exts t) \<subseteq> {..<unat (em_n_buckets_ext t)}"
    using cs e(2) unfolding chain_sets_def by (metis UN_iff UnI2 UNIV_I in_set_conv_decomp, metis Int_iff empty_iff in_set_conv_decomp, auto)
  have "length (e # free_exts t) \<le> unat (em_n_buckets_ext t)"
    using en by (metis card_lessThan card_mono distinct.simps(2) distinct_card finite_lessThan insert_subset lessThan_iff list.simps(15))
  then have tos: "unat (bkt_ext_stack_tos ?t1) < unat (em_n_buckets_ext ?t1)" using free_exts_length [OF sh] by simp
  from ext_push_ok [OF sh1 tos, of "of_nat e"] obtain t' where
    push: "ext_push ?t1 (of_nat e) = Inr t'"
    and t': "t' = ?t1\<lparr>bkt_ext_stack := (bkt_ext_stack ?t1)[unat (bkt_ext_stack_tos ?t1) := of_nat e],
                     bkt_ext_stack_tos := bkt_ext_stack_tos ?t1 + 1\<rparr>"
    and fe: "free_exts t' = free_exts ?t1 @ [unat (of_nat e :: u32)]"
    and le: "unat (bkt_ext_stack_tos t') \<le> unat (em_n_buckets_ext ?t1)"
    by blast
  have ue: "unat (of_nat e :: u32) = e" using en(1) unat_u32_less [of "em_n_buckets_ext t"] by (simp add: unat_of_nat)
  have fe': "free_exts t' = free_exts t @ [e]" using fe by (simp add: free_exts_def ue)
  have bk': "bk t' r' = (if r' = ?p then (bk t ?p)\<lparr>b_next := b_next (bk t r)\<rparr> else bk t r')" for r'
    using bk1 by (simp add: t')
  have sz: "same_sizes t t'" by (simp add: t' same_sizes_def)
  have sh': "em_shape t'" using sh1 le by (simp add: t' em_shape_def)
  have "linked t' (Bucket b) (es @ zs)"
  proof (rule linked_remove)
    show "linked t (Bucket b) (es @ e # zs)" using ch b e(2) by (auto simp: chains_ok_def)
    show "b_next (bk t' (last (Bucket b # map Extension es))) = b_next (bk t (Extension e))"
      unfolding xs [symmetric] bk' by (simp add: e(1))
    fix r' assume "r' \<in> set (butlast (Bucket b # map Extension es)) \<union> Extension ` set zs"
    then have "r' \<in> set (butlast xs) \<or> r' \<in> set ys" by (simp add: xs e(3))
    moreover have "?p \<in> set xs" using r(2) by simp
    ultimately have "r' \<noteq> ?p" using dist butlast_not_last [of xs r'] by auto
    then show "b_next (bk t' r') = b_next (bk t r')" by (simp add: bk')
  qed
  moreover have "linked t' (Bucket c) (ch c)" if "c < unat (em_n_buckets t)" "c \<noteq> b" for c
  proof (rule linked_other_chains [OF ch that(2), where N = "{}"])
    show "linked t (Bucket c) (ch c)" using ch that by (simp add: chains_ok_def)
    fix r' assume "r' \<notin> set (refs ch b) \<union> {}"
    then have "r' \<noteq> ?p" using p(1) by auto
    then show "b_next (bk t' r') = b_next (bk t r')" by (simp add: bk')
  qed simp
  moreover have "chain_sets (unat (em_n_buckets t)) (unat (em_n_buckets_ext t)) ?ch (free_exts t')"
    unfolding fe' by (rule chain_sets_shrink [OF cs e(2)])
  ultimately have ch': "chains_ok t' ?ch" using sz by (auto simp: chains_ok_def same_sizes_def)
  have sg: "ssig t' s = ssig t s" "skid t' s = skid t s" for s by (auto simp: ssig_def skid_def bk')
  have mem: "r' \<in> set (refs ?ch c) \<longleftrightarrow> r' \<in> set (refs ch c) \<and> r' \<noteq> r" for r' c
  proof (cases "c = b")
    case True
    then show ?thesis using dist by (auto simp: refs_def e(1,2,3) xs)
  next
    case False
    have "r \<in> set (refs ch b)" using r(1) by simp
    with False show ?thesis using refs_disjoint [OF ch, of r b c] by (auto simp: refs_def)
  qed
  have us: "used_slots t' ?ch = used_slots t ch"
  proof (intro set_eqI)
    fix s :: slot
    show "s \<in> used_slots t' ?ch \<longleftrightarrow> s \<in> used_slots t ch"
      using sz empty by (cases s; cases "fst s = r") (auto simp: used_slots_def sg mem same_sizes_def)
  qed
  have "em_core t' ?ch m"
  proof (rule em_core_cong [OF core sz _ _ _ us])
    fix s assume s: "s \<in> used_slots t ch"
    then have "fst s \<noteq> r" using empty by (cases s) (auto simp: used_slots_def)
    then show "ssig t' s = ssig t s \<and> skid t' s = skid t s \<and>
        (\<forall>c. fst s \<in> set (refs ch c) \<longrightarrow> fst s \<in> set (refs ?ch c))"
      by (simp add: sg mem)
  qed (simp_all add: t' free_keys_def)
  with push sh' ch' sz e(1) show ?thesis by blast
qed

section \<open>The operations on the represented map\<close>

text \<open>The search of an operation, over the representation.\<close>

lemma search_ok:
  assumes sh: "em_shape t" and ch: "chains_ok t ch" and core: "em_core t ch m"
  shows "\<exists>res. find_key (chain_fuel t) t k (sig_of t k) None (bkt_of t k) = Inr res \<and>
    (case res of
       None \<Rightarrow> m (masked t k) = None
     | Some (p, r, i) \<Rightarrow> (r, i) \<in> used_slots t ch \<and> em_keys t ! skid t (r, i) = masked t k \<and>
         (\<exists>xs ys. refs ch (home t k) = xs @ r # ys \<and> p = (if xs = [] then None else Some (last xs))))"
proof -
  let ?b = "home t k"
  have b: "?b < unat (em_n_buckets t)" using sh by (simp add: em_shape_def home_less)
  have ln: "linked t (Bucket ?b) (ch ?b)" using ch b by (simp add: chains_ok_def)
  have fuel: "length (ch ?b) < chain_fuel t" using chain_length [OF ch, of ?b] by (simp add: chain_fuel_def)
  have sub: "set (Bucket ?b # map Extension (ch ?b)) \<subseteq> set (refs ch ?b)" by (simp add: refs_def)
  obtain res where res: "find_key (chain_fuel t) t k (sig_of t k) None (Bucket ?b) = Inr res"
    "case res of
       None \<Rightarrow> \<forall>r'\<in>set (refs ch ?b). \<forall>i<4. \<not> matches t k (r', i)
     | Some (p, r', i) \<Rightarrow> i < 4 \<and> matches t k (r', i) \<and>
         (\<exists>xs ys. refs ch ?b = xs @ r' # ys \<and> p = (if xs = [] then None else Some (last xs)))"
    using find_key_ok [OF sh ch core b ln fuel sub, of k None] unfolding refs_def by blast
  have mi: "matches t k s \<longleftrightarrow> s \<in> used_slots t ch \<and> em_keys t ! skid t s = masked t k"
    if "fst s \<in> set (refs ch ?b)" "snd s < 4" for s
    by (rule matches_iff [OF sh core b that])
  have "case res of
       None \<Rightarrow> m (masked t k) = None
     | Some (p, r, i) \<Rightarrow> (r, i) \<in> used_slots t ch \<and> em_keys t ! skid t (r, i) = masked t k \<and>
         (\<exists>xs ys. refs ch ?b = xs @ r # ys \<and> p = (if xs = [] then None else Some (last xs)))"
  proof (cases res)
    case None
    have "em_keys t ! skid t s \<noteq> masked t k" if s: "s \<in> used_slots t ch" for s
    proof
      assume eq: "em_keys t ! skid t s = masked t k"
      have "good_slot t ch s (em_keys t ! skid t s)" using core s unfolding em_core_def core_def by blast
      then have r: "fst s \<in> set (refs ch ?b)" "snd s < 4" using s by (auto simp: good_slot_def eq used_slots_def)
      with res(2) None s eq mi [OF r] show False by (cases s) auto
    qed
    then show ?thesis using core_None [OF core [unfolded em_core_def]] None by simp
  next
    case (Some x)
    obtain p r i where x: "x = (p, r, i)" by (cases x)
    with Some res(2) obtain xs ys where f: "i < 4" "matches t k (r, i)" "refs ch ?b = xs @ r # ys"
      "p = (if xs = [] then None else Some (last xs))" by auto
    then have "fst (r, i) \<in> set (refs ch ?b)" "snd (r, i) < 4" by simp_all
    from mi [OF this] f show ?thesis by (simp add: Some x) blast
  qed
  with res(1) show ?thesis by (simp add: home_bkt_of)
qed

lemma table_lookup_rep:
  assumes "em_rep t m"
  shows "\<exists>res. table_lookup_unoptimized t k = Inr res \<and> map_option (dval t) res = m (masked t k)"
proof -
  from assms obtain ch where r: "em_shape t" "chains_ok t ch" "em_core t ch m" by (auto simp: em_rep_def)
  obtain res where res: "find_key (chain_fuel t) t k (sig_of t k) None (bkt_of t k) = Inr res"
    "case res of None \<Rightarrow> m (masked t k) = None
     | Some (p, r, i) \<Rightarrow> (r, i) \<in> used_slots t ch \<and> em_keys t ! skid t (r, i) = masked t k \<and>
         (\<exists>xs ys. refs ch (home t k) = xs @ r # ys \<and> p = (if xs = [] then None else Some (last xs)))"
    using search_ok [OF r] by blast
  show ?thesis
  proof (cases res)
    case None
    with res show ?thesis by (simp add: table_lookup_unoptimized_def)
  next
    case (Some x)
    obtain p r' i where x: "x = (p, r', i)" by (cases x)
    with Some res(2) have s: "(r', i) \<in> used_slots t ch" "em_keys t ! skid t (r', i) = masked t k" by auto
    have "get_bkt t r' = Inr (bk t r')" using s(1) refs_ok [OF r(1,2)] by (auto simp: used_slots_def get_bkt_ok)
    moreover have "skid t (r', i) < length (em_data t)"
      using s(1) r(1,3) by (auto simp: em_core_def core_def em_shape_def)
    moreover have "m (masked t k) = Some (dval t (em_data t ! skid t (r', i)))"
      using core_lookup [OF r(3) [unfolded em_core_def] s(1)] by (simp add: s(2))
    moreover obtain a v where "em_data t ! skid t (r', i) = (a, v)" by (cases "em_data t ! skid t (r', i)")
    ultimately show ?thesis using res(1) Some x by (simp add: table_lookup_unoptimized_def skid_def)
  qed
qed

lemma table_add_rep:
  assumes rep: "em_rep t m" and k: "e_key e = Some k" and e: "entry_ok t e"
  shows "\<exists>t' rc. table_add t (Some e) = Inr (t', rc) \<and> same_sizes t t' \<and>
    (rc = 0 \<and> em_rep t' (m(masked t k \<mapsto> entry_val t e)) \<or>
     rc = - ENOSPC \<and> t' = t \<and> m (masked t k) = None \<and> (key_stack_tos t = 0 \<or> bkt_ext_stack_tos t = 0))"
proof -
  from rep obtain ch where r: "em_shape t" "chains_ok t ch" "em_core t ch m" by (auto simp: em_rep_def)
  let ?b = "home t k"
  have b: "?b < unat (em_n_buckets t)" using r(1) by (simp add: em_shape_def home_less)
  obtain res where res: "find_key (chain_fuel t) t k (sig_of t k) None (bkt_of t k) = Inr res"
    "case res of None \<Rightarrow> m (masked t k) = None
     | Some (p, r, i) \<Rightarrow> (r, i) \<in> used_slots t ch \<and> em_keys t ! skid t (r, i) = masked t k \<and>
         (\<exists>xs ys. refs ch (home t k) = xs @ r # ys \<and> p = (if xs = [] then None else Some (last xs)))"
    using search_ok [OF r] by blast
  show ?thesis
  proof (cases res)
    case (Some x)
    obtain p r' i where x: "x = (p, r', i)" by (cases x)
    with Some res(2) have s: "(r', i) \<in> used_slots t ch" "em_keys t ! skid t (r', i) = masked t k" by auto
    have g: "get_bkt t r' = Inr (bk t r')" using s(1) refs_ok [OF r(1,2)] by (auto simp: used_slots_def get_bkt_ok)
    have kid: "skid t (r', i) < unat (em_n_keys_max t)" using s(1) r(3) by (auto simp: em_core_def core_def)
    obtain d' where d': "key_data_write t (b_key_id (bk t r') ! i) e = Inr (t\<lparr>em_data := (em_data t)[skid t (r', i) := d']\<rparr>)"
      "dval t d' = entry_val t e" "em_action_data_size t \<le> length (snd d')"
      using key_data_write_ok [OF r(1) e, of "b_key_id (bk t r') ! i"] kid by (auto simp: skid_def)
    have "em_rep (t\<lparr>em_data := (em_data t)[skid t (r', i) := d']\<rparr>) (m(masked t k \<mapsto> entry_val t e))"
      using em_core_update [OF r s(1) d'(3)] d'(2) s(2) by (auto simp: em_rep_def)
    then show ?thesis
      using k res(1) Some x g d'(1) by (simp add: table_add_def bkt_key_data_update_def)
  next
    case None
    with res(2) have new: "m (masked t k) = None" by simp
    have ln: "linked t (Bucket ?b) (ch ?b)" using r(2) b by (simp add: chains_ok_def)
    have fuel: "length (ch ?b) < chain_fuel t" using chain_length [OF r(2), of ?b] by (simp add: chain_fuel_def)
    have sub: "set (Bucket ?b # map Extension (ch ?b)) \<subseteq> set (refs ch ?b)" by (simp add: refs_def)
    obtain free where free: "find_empty (chain_fuel t) t (Bucket ?b) = Inr free"
      "case free of Inl (r', i) \<Rightarrow> r' \<in> set (refs ch ?b) \<and> i < 4 \<and> ssig t (r', i) = 0
       | Inr l \<Rightarrow> l = last (refs ch ?b) \<and> (\<forall>r'\<in>set (refs ch ?b). \<forall>i<4. ssig t (r', i) \<noteq> 0)"
      using find_empty_ok [OF r(1,2) b ln fuel sub] unfolding refs_def by blast
    have start: "table_add t (Some e) =
        (case free of
           Inl (bkt, i) \<Rightarrow>
             (if key_stack_tos t = 0 then Inr (t, - ENOSPC)
              else bindR (key_pop t) (\<lambda>(t', new_bkt_key_id).
                   bindR (bkt_key_install t' bkt e k i new_bkt_key_id (sig_of t k)) (\<lambda>t. Inr (t, 0))))
         | Inr bkt_prev \<Rightarrow>
             (if bkt_ext_stack_tos t \<noteq> 0 \<and> key_stack_tos t \<noteq> 0 then
                bindR (ext_pop t) (\<lambda>(t, new_bkt_id).
                let new_bkt = Extension (unat new_bkt_id) in
                bindR (get_bkt t new_bkt) (\<lambda>_.
                let t = put_bkt t new_bkt zeroed_bucket in
                bindR (get_bkt t bkt_prev) (\<lambda>prev.
                let t' = put_bkt t bkt_prev (prev\<lparr>b_next := Some (unat new_bkt_id)\<rparr>) in
                bindR (key_pop t') (\<lambda>(t'', new_bkt_key_id).
                bindR (bkt_key_install t'' new_bkt e k 0 new_bkt_key_id (sig_of t' k)) (\<lambda>t. Inr (t, 0))))))
              else Inr (t, - ENOSPC)))"
      using k res(1) None free(1)
      by (simp add: table_add_def home_bkt_of Let_def same_sizesD(2) [of t] split: sum.split) (simp add: bindR_def sig_of_def ext_pop_def Let_def split: option.split sum.split)
    show ?thesis
    proof (cases free)
      case (Inl y)
      obtain r' i where y: "y = (r', i)" by (cases y)
      with Inl free(2) have f: "r' \<in> set (refs ch ?b)" "i < 4" "ssig t (r', i) = 0" by auto
      show ?thesis
      proof (cases "key_stack_tos t = 0")
        case True
        with start Inl y new show ?thesis by (simp add: same_sizes_def)
      next
        case False
        from install_ok [OF r f(1) f(2,3) False new e] obtain t1 id t' where
          "key_pop t = Inr (t1, id)" "bkt_key_install t1 r' e k i id (sig_of t k) = Inr t'" "em_shape t'"
          "chains_ok t' ch" "em_core t' ch (m(masked t k \<mapsto> entry_val t e))" "same_sizes t t'" by blast
        with start Inl y False show ?thesis by (auto simp: em_rep_def)
      qed
    next
      case (Inr l)
      with free(2) have l: "l = last (refs ch ?b)" by simp
      show ?thesis
      proof (cases "bkt_ext_stack_tos t \<noteq> 0 \<and> key_stack_tos t \<noteq> 0")
        case False
        with start Inr new show ?thesis by (auto simp: same_sizes_def)
      next
        case True
        from extend_ok [OF r b conjunct1 [OF True]] obtain t1 id x y t3 ch' where
          ex: "ext_pop t = Inr (t1, id)" "get_bkt t1 (Extension (unat id)) = Inr x"
          "get_bkt (put_bkt t1 (Extension (unat id)) zeroed_bucket) l = Inr y"
          "t3 = put_bkt (put_bkt t1 (Extension (unat id)) zeroed_bucket) l (y\<lparr>b_next := Some (unat id)\<rparr>)"
          and r3: "em_shape t3" "chains_ok t3 ch'" "em_core t3 ch' m" and sz3: "same_sizes t t3"
          and tos3: "key_stack_tos t3 = key_stack_tos t"
          and new3: "Extension (unat id) \<in> set (refs ch' ?b)" "ssig t3 (Extension (unat id), 0) = 0"
          unfolding l [symmetric] by blast
        note szd = same_sizesD [OF sz3] same_sizes_entry [OF sz3]
        have "Extension (unat id) \<in> set (refs ch' (home t3 k))" "key_stack_tos t3 \<noteq> 0" "m (masked t3 k) = None" "entry_ok t3 e"
          using new3(1) True tos3 new e by (simp_all add: szd)
        from install_ok [OF r3 this(1) _ new3(2) this(2-4)] obtain t4 kid t' where
          t4: "key_pop t3 = Inr (t4, kid)" "bkt_key_install t4 (Extension (unat id)) e k 0 kid (sig_of t3 k) = Inr t'"
          and t': "em_shape t'" "chains_ok t' ch'" "em_core t' ch' (m(masked t3 k \<mapsto> entry_val t3 e))" "same_sizes t3 t'" by auto
        have "em_rep t' (m(masked t k \<mapsto> entry_val t e))" "same_sizes t t'"
          using t' same_sizes_trans [OF sz3] by (auto simp: em_rep_def szd)
        then show ?thesis using start Inr True ex t4 by (auto simp: Let_def)
      qed
    qed
  qed
qed

lemma table_del_rep:
  assumes rep: "em_rep t m" and k: "e_key e = Some k"
  shows "\<exists>t'. table_del t (Some e) = Inr (t', 0) \<and> same_sizes t t' \<and> em_rep t' (m(masked t k := None))"
proof -
  from rep obtain ch where r: "em_shape t" "chains_ok t ch" "em_core t ch m" by (auto simp: em_rep_def)
  let ?b = "home t k"
  have b: "?b < unat (em_n_buckets t)" using r(1) by (simp add: em_shape_def home_less)
  obtain res where res: "find_key (chain_fuel t) t k (sig_of t k) None (bkt_of t k) = Inr res"
    "case res of None \<Rightarrow> m (masked t k) = None
     | Some (p, r, i) \<Rightarrow> (r, i) \<in> used_slots t ch \<and> em_keys t ! skid t (r, i) = masked t k \<and>
         (\<exists>xs ys. refs ch (home t k) = xs @ r # ys \<and> p = (if xs = [] then None else Some (last xs)))"
    using search_ok [OF r] by blast
  show ?thesis
  proof (cases res)
    case None
    then have "m(masked t k := None) = m" using res(2) by (simp add: fun_upd_idem)
    with None k res(1) rep show ?thesis by (simp add: table_del_def same_sizes_def)
  next
    case (Some x)
    obtain p r' i where x: "x = (p, r', i)" by (cases x)
    with Some res(2) obtain xs ys where s: "(r', i) \<in> used_slots t ch" "em_keys t ! skid t (r', i) = masked t k"
      and ref: "refs ch ?b = xs @ r' # ys" and p: "p = (if xs = [] then None else Some (last xs))" by auto
    have ok: "ref_ok t r'" using s(1) refs_ok [OF r(1,2)] by (auto simp: used_slots_def)
    then have g: "get_bkt t r' = Inr (bk t r')" by (rule get_bkt_ok)
    let ?bkt = "(bk t r')\<lparr>b_sig := (b_sig (bk t r'))[i := 0]\<rparr>"
    obtain t1 where push: "key_push (put_bkt t r' ?bkt) (b_key_id (bk t r') ! i) = Inr t1"
      and r1: "em_shape t1" "chains_ok t1 ch" "em_core t1 ch (m(masked t k := None))" and sz1: "same_sizes t t1"
      and bk1: "\<forall>q. bk t1 q = (if q = r' then ?bkt else bk t q)" and ok1: "\<forall>q. ref_ok t1 q = ref_ok t q"
      using delete_slot_ok [OF r s(1)] s(2) by auto
    have rep1: "em_rep t1 (m(masked t k := None))" using r1 by (auto simp: em_rep_def)
    show ?thesis
    proof (cases "xs = [] \<or> \<not> bkt_is_empty ?bkt")
      case True
      with k res(1) Some x g push p rep1 sz1 show ?thesis
        by (auto simp: table_del_def Let_def)
    next
      case False
      then have xs: "xs \<noteq> []" "p = Some (last xs)" and em: "bkt_is_empty ?bkt" using p by auto
      have "\<forall>j<4. ssig t1 (r', j) = 0"
        using em bk1 by (auto simp: ssig_def bkt_is_empty_def less_Suc_eq numeral_eq_Suc)
      moreover have "?b < unat (em_n_buckets t1)" using b sz1 by (simp add: same_sizes_def)
      ultimately obtain e' t2 ch2 where u: "r' = Extension e'"
        "ext_push (put_bkt t1 (last xs) ((bk t1 (last xs))\<lparr>b_next := b_next (bk t1 r')\<rparr>)) (of_nat e') = Inr t2"
        "em_shape t2" "chains_ok t2 ch2" "em_core t2 ch2 (m(masked t k := None))" "same_sizes t1 t2"
        using unlink_ok [OF r1 _ ref xs(1)] by blast
      have "ref_ok t1 (last xs)" using refs_ok [OF r(1,2) b, of "last xs"] ref xs(1) ok1 by auto
      then have g2: "get_bkt t1 (last xs) = Inr (bk t1 (last xs))" by (rule get_bkt_ok)
      have "em_rep t2 (m(masked t k := None))" "same_sizes t t2"
        using u same_sizes_trans [OF sz1] by (auto simp: em_rep_def)
      then show ?thesis
        using k res(1) Some x g push xs(2) em g2 u(1,2) bk1 by (simp add: table_del_def Let_def)
    qed
  qed
qed

section \<open>The lookup in steps\<close>

text \<open>The four possible matches of a signature, as the lookup tables encode them.\<close>

lemma lut_match:
  fixes b0 b1 b2 b3 :: bool
  defines "x \<equiv> (if b0 then push_bit 0 1 else 0 :: u32)" and "y \<equiv> (if b1 then push_bit 1 1 else 0 :: u32)"
    and "z \<equiv> (if b2 then push_bit 2 1 else 0 :: u32)" and "w \<equiv> (if b3 then push_bit 3 1 else 0 :: u32)"
  shows "drop_bit (unat ((x OR y) OR (z OR w))) LUT_MATCH AND 1 = of_bool (b0 \<or> b1 \<or> b2 \<or> b3)"
    and "drop_bit (unat ((x OR y) OR (z OR w))) LUT_MATCH_MANY AND 1 =
      of_bool ((1 :: nat) < of_bool b0 + of_bool b1 + of_bool b2 + of_bool b3)"
    and "unat (drop_bit (unat (push_bit 1 ((x OR y) OR (z OR w)))) LUT_MATCH_POS AND 3) =
      (if b0 then 0 else if b1 then 1 else if b2 then 2 else if b3 then 3 else 0)"
  unfolding x_def y_def z_def w_def LUT_MATCH_def LUT_MATCH_MANY_def LUT_MATCH_POS_def
  by (cases b0; cases b1; cases b2; cases b3; simp add: push_bit_eq_mult drop_bit_eq_div)+

text \<open>The three steps give the answer of the unoptimised lookup.\<close>

lemma lookup_run_rep:
  assumes rep: "em_rep t m" and st: "m_state mb = 0"
  shows "\<exists>mb' d. lookup_run 3 t mb k = Inr (mb', Some (m (masked t k) \<noteq> None, d)) \<and> m_state mb' = 0 \<and>
    (\<forall>v. m (masked t k) = Some v \<longrightarrow> dval t d = v)"
proof -
  from rep obtain ch where r: "em_shape t" "chains_ok t ch" "em_core t ch m" by (auto simp: em_rep_def)
  let ?b = "home t k" and ?r = "Bucket (home t k)"
  let ?bk = "bk t ?r"
  have b: "?b < unat (em_n_buckets t)" using r(1) by (simp add: em_shape_def home_less)
  have ref: "?r \<in> set (refs ch ?b)" by (simp add: refs_def)
  have ok: "ref_ok t ?r" by (rule refs_ok [OF r(1,2) b ref])
  have g: "get_bkt t ?r = Inr ?bk" by (rule get_bkt_ok [OF ok])
  define hit where "hit i \<longleftrightarrow> sig_of t k = ucast (b_sig ?bk ! i)" for i
  have xor0: "sig_of t k XOR x = 0 \<longleftrightarrow> sig_of t k = x" for x by (auto simp: bit_eq_iff [where 'a = u32] bit_xor_iff)
  define pos :: nat where "pos = (if hit 0 then 0 else if hit 1 then 1 else if hit 2 then 2 else if hit 3 then 3 else 0)"
  define many where "many \<longleftrightarrow> (1 :: nat) < of_bool (hit 0) + of_bool (hit 1) + of_bool (hit 2) + of_bool (hit 3)"
  have pos4: "pos < 4" by (simp add: pos_def)
  let ?id = "b_key_id ?bk ! pos"
  have idb: "unat ?id < unat (em_n_keys_max t)"
    using r(1) ok pos4 by (auto simp: em_shape_def bucket_ok_def)
  then have kb: "unat ?id < length (em_keys t)" "unat ?id < length (em_data t)" using r(1) by (simp_all add: em_shape_def)
  define m0 where "m0 = lookup_step0 t mb k"
  define m1 where "m1 = m0\<lparr>m_bkt_key_id := ?id, m_sig_match := of_bool (hit 0 \<or> hit 1 \<or> hit 2 \<or> hit 3),
    m_sig_match_many := of_bool many, m_state := 2\<rparr>"
  have m0: "m_bkt m0 = ?r" "m_input_sig m0 = sig_of t k" "m_state m0 = 1"
    using st by (simp_all add: m0_def lookup_step0_def home_bkt_of)
  have s1: "lookup_step1 t m0 = Inr m1"
    unfolding lookup_step1_def m0 g bindR_Inr Let_def xor0 m1_def pos_def many_def
    using lut_match [of "hit 0" "hit 1" "hit 2" "hit 3"] by (simp add: hit_def)
  have step: "lookup_run 3 t mb k =
      bindR (bindR (lookup_step2 t m1 k) (\<lambda>(m, r). Inr (m, Some r)))
        (\<lambda>(m, r). case r of None \<Rightarrow> lookup_run 0 t m k | Some _ \<Rightarrow> Inr (m, r))"
  proof -
    have "m_state m1 = 2" by (simp add: m1_def)
    then show ?thesis
      using st m0(3) s1 by (simp add: numeral_3_eq_3 table_lookup_def m0_def [symmetric])
  qed
  have mt: "matches t k (?r, i) \<longleftrightarrow> (?r, i) \<in> used_slots t ch \<and> em_keys t ! skid t (?r, i) = masked t k" if "i < 4" for i
    by (rule matches_iff [OF r(1,3) b]) (use ref that in simp_all)
  let ?eq = "keycmp (em_keys t ! unat ?id) k (em_key_mask t) (em_key_size t)"
  let ?any = "hit 0 \<or> hit 1 \<or> hit 2 \<or> hit 3"
  have hp: "?any \<Longrightarrow> hit pos" by (auto simp: pos_def)
  have mpos: "matches t k (?r, pos) \<longleftrightarrow> hit pos \<and> ?eq" by (simp add: matches_def hit_def ssig_def skid_def)
  obtain res where un: "table_lookup_unoptimized t k = Inr res" "map_option (dval t) res = m (masked t k)"
    using table_lookup_rep [OF rep] by blast
  have m1f: "m_bkt m1 = ?r" "m_bkt_key_id m1 = ?id" "m_sig_match m1 = of_bool ?any" "m_sig_match_many m1 = of_bool many"
    by (simp_all add: m1_def m0(1))
  show ?thesis
  proof (cases "?eq \<and> ?any")
    case True
    then have s: "(?r, pos) \<in> used_slots t ch" "em_keys t ! skid t (?r, pos) = masked t k"
      using mpos mt [OF pos4] hp by auto
    have "m (masked t k) = Some (dval t (em_data t ! unat ?id))"
      using core_lookup [OF r(3) [unfolded em_core_def] s(1)] s(2) by (simp add: skid_def)
    moreover have "lookup_step2 t m1 k = Inr (m1\<lparr>m_state := 0\<rparr>, True, em_data t ! unat ?id)"
      using True kb unfolding lookup_step2_def m1f g by (simp add: Let_def m1f)
    ultimately show ?thesis by (simp add: step)
  next
    case False
    then have lk: "(if ?eq then 1 else 0) AND (of_bool ?any :: u32) = 0" by auto
    show ?thesis
    proof (cases "many \<or> b_next ?bk \<noteq> None")
      case True
      then have "lookup_step2 t m1 k = (case res of Some d \<Rightarrow> Inr (m1\<lparr>m_state := 0\<rparr>, True, d)
          | None \<Rightarrow> Inr (m1\<lparr>m_state := 0\<rparr>, False, em_data t ! unat ?id))"
        using kb lk unfolding lookup_step2_def m1f g by (auto simp: Let_def un(1) m1f)
      then show ?thesis by (cases res) (auto simp: step un(2) [symmetric])
    next
      case no: False
      have "em_keys t ! skid t s \<noteq> masked t k" if s: "s \<in> used_slots t ch" for s
      proof
        assume eq: "em_keys t ! skid t s = masked t k"
        have "good_slot t ch s (em_keys t ! skid t s)" using r(3) s unfolding em_core_def core_def by blast
        then have fs: "fst s \<in> set (refs ch ?b)" "snd s < 4" using s by (auto simp: good_slot_def eq used_slots_def)
        have "ch ?b = []" using r(2) b no by (cases "ch ?b") (force simp: chains_ok_def)+
        then have "fst s = ?r" using fs(1) by (simp add: refs_def)
        then have ms: "matches t k (?r, snd s)" using matches_iff [OF r(1,3) b fs] s eq by (cases s) simp
        then have h: "hit (snd s)" by (simp add: matches_def hit_def ssig_def)
        have "pos = snd s"
          using no h fs(2) unfolding many_def pos_def by (auto simp: less_Suc_eq numeral_eq_Suc)
        with ms mpos False hp h fs(2) show False by (auto simp: less_Suc_eq numeral_eq_Suc)
      qed
      then have "m (masked t k) = None" using core_None [OF r(3) [unfolded em_core_def]] by blast
      moreover have "lookup_step2 t m1 k = Inr (m1\<lparr>m_state := 0\<rparr>, False, em_data t ! unat ?id)"
        using no kb lk unfolding lookup_step2_def m1f g by (auto simp: Let_def m1f)
      ultimately show ?thesis by (simp add: step)
    qed
  qed
qed

section \<open>Creation\<close>

lemma key_size_rounded:
  assumes "p \<noteq> 0" and "\<not> p > (64 :: u32)"
  shows "em_size_ok (ucast (if rte_align64pow2 (ucast p) < 8 then 8 else rte_align64pow2 (ucast p)) :: u32) \<and>
    unat p \<le> unat (ucast (if rte_align64pow2 (ucast p) < 8 then 8 else rte_align64pow2 (ucast p)) :: u32)"
proof -
  have p: "0 < unat p" "unat p \<le> 64" using assms by (simp_all add: unat_gt_0 word_less_nat_alt not_less)
  then have "unat p \<le> 2 ^ 31" by simp
  from align32pow2_round_up [OF p(1) this] obtain k where
    k: "unat (rte_align32pow2 p) = 2 ^ k" "unat p \<le> 2 ^ k" "2 ^ k < 2 * unat p" by blast
  have "(2 :: nat) ^ k < 2 ^ 7" using k(3) p(2) by simp
  then have "k < 7" by (rule power_less_imp_less_exp [rotated]) simp
  then have "k = 0 \<or> k = 1 \<or> k = 2 \<or> k = 3 \<or> k = 4 \<or> k = 5 \<or> k = 6" by auto
  moreover have "rte_align64pow2 (ucast p) = ucast (rte_align32pow2 p)" by (rule align64_ucast [OF p(1) \<open>unat p \<le> 2 ^ 31\<close>])
  moreover have "rte_align32pow2 p = of_nat (2 ^ k)" using k(1) by (metis of_nat_unat ucast_id)
  ultimately show ?thesis using k(2)
    by (elim disjE) (simp_all add: em_size_ok_def)
qed

lemma key_stack_numbers:
  assumes "i < unat (n :: u32)" shows "unat (n - 1 - of_nat i) = unat n - 1 - i"
proof -
  have "i < 2 ^ 32" using assms unat_u32_less [of n] by simp
  then have "unat (of_nat i :: u32) = i" by (simp add: unat_of_nat)
  moreover have "n \<noteq> 0" using assms by auto
  then have "unat (n - 1) = unat n - 1" by (rule unat_pred)
  ultimately show ?thesis using assms by (simp add: u32_minus)
qed

lemma numbered_stack: "map unat (take (unat n) (map (\<lambda>i. n - 1 - of_nat i) [0..<unat n])) = rev [0..<unat (n :: u32)]"
  by (rule nth_equalityI) (simp_all add: key_stack_numbers rev_nth)

lemma table_create_rep:
  assumes "table_create_internal params = Inr (Inl t)" and "4 \<le> unat (p_n_keys_max params)"
  shows "em_rep t Map.empty"
proof -
  let ?n = "p_n_keys_max params"
  let ?ks = "ucast (if rte_align64pow2 (ucast (p_key_size params)) < 8 then 8 else rte_align64pow2 (ucast (p_key_size params))) :: u32"
  from assms(1) have chk: "p_key_size params \<noteq> 0" "\<not> p_key_size params > 64" "?n \<noteq> 0"
    "unat (p_action_data_size params) + 8 \<le> unat (ucast (rte_align64pow2 (ucast (p_action_data_size params + 8))) :: u32)"
    and t: "em_key_size t = ?ks" "em_action_data_size t = unat (p_action_data_size params)" "em_n_keys_max t = ?n"
      "em_n_buckets t = ?n div 4" "em_n_buckets_ext t = ?n div 4" "key_stack_tos t = ?n" "bkt_ext_stack_tos t = ?n div 4"
      "em_buckets t = replicate (unat (?n div 4)) zeroed_bucket" "em_buckets_ext t = replicate (unat (?n div 4)) zeroed_bucket"
      "em_keys t = replicate (unat ?n) (replicate (unat ?ks div 8) 0)"
      "key_stack t = map (\<lambda>i. ?n - 1 - of_nat i) [0..<unat ?n]"
      "bkt_ext_stack t = map (\<lambda>i. ?n div 4 - 1 - of_nat i) [0..<unat (?n div 4)]"
      "em_data t = replicate (unat ?n) (0, replicate (unat (ucast (rte_align64pow2 (ucast (p_action_data_size params + 8))) :: u32) - 8) 0)"
    by (auto simp: table_create_internal_def Let_def KEYS_PER_BUCKET_def not_less split: if_splits)
  have nb: "unat (?n div 4) = unat ?n div 4" by (simp add: unat_div)
  have nb0: "?n div 4 \<noteq> 0" using assms(2) nb by (auto simp: word_unat_eq_iff)
  have size: "em_size_ok ?ks" using key_size_rounded [OF chk(1,2)] by simp
  have zb: "bucket_ok ?n zeroed_bucket" using chk(3) by (auto simp: bucket_ok_def zeroed_bucket_def unat_gt_0)
  have bk0: "ref_ok t r \<Longrightarrow> bk t r = zeroed_bucket" for r
    by (auto simp: ref_ok_def bk_def t split: bkt_ref.splits)
  have "unat (p_action_data_size params) \<le>
      unat (ucast (rte_align64pow2 (ucast (p_action_data_size params + 8))) :: u32) - 8"
    using chk(4) by linarith
  with size nb0 zb bk0 chk(3) have sh: "em_shape t" by (simp add: em_shape_def t)
  have fk: "free_keys t = rev [0..<unat ?n]" and fe: "free_exts t = rev [0..<unat (?n div 4)]"
    unfolding free_keys_def free_exts_def t by (rule numbered_stack)+
  have "linked t (Bucket b) []" if "b < unat (?n div 4)" for b
    using bk0 [of "Bucket b"] that by (simp add: ref_ok_def t zeroed_bucket_def)
  then have ch: "chains_ok t (\<lambda>_. [])"
    by (simp add: chains_ok_def chain_sets_def fe t(4,5))
  have "ssig t (r, i) = 0" if "ref_ok t r" "i < 4" for r i
    using bk0 [OF that(1)] that(2) by (simp add: ssig_def zeroed_bucket_def)
  then have "used_slots t (\<lambda>_. []) = {}"
    by (auto simp: used_slots_def refs_def ref_ok_def t)
  then have "em_core t (\<lambda>_. []) Map.empty"
    by (auto simp: em_core_def core_def fk t(3))
  with sh ch show ?thesis by (auto simp: em_rep_def)
qed

section \<open>The interface of a table\<close>

text \<open>Insertions and deletions; an operation ends in a fault or with a state and a return code.\<close>

datatype ('k, 'v) table_op = Insert 'k 'v | Delete 'k

text \<open>
  What a user of a table relies on: on a state that represents a map no operation faults; an insertion returns zero and
  updates the map at every key that is the same to the table, or is refused with the state as it was, and then the key is
  not there and the table is full; a deletion returns zero and removes; a lookup reads.
\<close>

locale table_map =
  fixes rep :: "'s \<Rightarrow> ('k \<rightharpoonup> 'v) \<Rightarrow> bool"
    and same :: "'s \<Rightarrow> 'k \<Rightarrow> 'k \<Rightarrow> bool"
    and okay :: "'s \<Rightarrow> 'v \<Rightarrow> bool"
    and full :: "'s \<Rightarrow> bool"
    and ins :: "'k \<Rightarrow> 'v \<Rightarrow> 's \<Rightarrow> 'e + 's \<times> int"
    and del :: "'k \<Rightarrow> 's \<Rightarrow> 'e + 's \<times> int"
    and get :: "'k \<Rightarrow> 's \<Rightarrow> 'e + 'v option"
  assumes ins_outcome: "rep s m \<Longrightarrow> okay s v \<Longrightarrow> \<exists>s' rc. ins k v s = Inr (s', rc) \<and> same s' = same s \<and> okay s' = okay s \<and>
      (rc = 0 \<and> rep s' (\<lambda>k'. if same s k' k then Some v else m k') \<or> rc = - ENOSPC \<and> s' = s \<and> m k = None \<and> full s)"
    and del_outcome: "rep s m \<Longrightarrow> \<exists>s'. del k s = Inr (s', 0) \<and> same s' = same s \<and> okay s' = okay s \<and>
      rep s' (\<lambda>k'. if same s k' k then None else m k')"
    and get_map: "rep s m \<Longrightarrow> get k s = Inr (m k)"

text \<open>A sequence of operations up to the first fault, with their return codes; and what it means for a map when those
  that returned zero take effect.\<close>

fun run_op :: "('k \<Rightarrow> 'v \<Rightarrow> 's \<Rightarrow> 'e + 's \<times> int) \<Rightarrow> ('k \<Rightarrow> 's \<Rightarrow> 'e + 's \<times> int) \<Rightarrow> ('k, 'v) table_op \<Rightarrow> 's \<Rightarrow> 'e + 's \<times> int"
where
  "run_op ins del (Insert k v) s = ins k v s"
| "run_op ins del (Delete k) s = del k s"

fun run_ops ::
  "('k \<Rightarrow> 'v \<Rightarrow> 's \<Rightarrow> 'e + 's \<times> int) \<Rightarrow> ('k \<Rightarrow> 's \<Rightarrow> 'e + 's \<times> int) \<Rightarrow> ('k, 'v) table_op list \<Rightarrow> 's \<Rightarrow> 'e + 's \<times> int list"
where
  "run_ops ins del [] s = Inr (s, [])"
| "run_ops ins del (op # os) s =
     (case run_op ins del op s of
        Inl e \<Rightarrow> Inl e
      | Inr (s', rc) \<Rightarrow> (case run_ops ins del os s' of Inl e \<Rightarrow> Inl e | Inr (t, rcs) \<Rightarrow> Inr (t, rc # rcs)))"

fun map_op :: "('k \<Rightarrow> 'k \<Rightarrow> bool) \<Rightarrow> ('k, 'v) table_op \<Rightarrow> ('k \<rightharpoonup> 'v) \<Rightarrow> ('k \<rightharpoonup> 'v)" where
  "map_op same (Insert k v) m = (\<lambda>k'. if same k' k then Some v else m k')"
| "map_op same (Delete k) m = (\<lambda>k'. if same k' k then None else m k')"

fun map_ops :: "('k \<Rightarrow> 'k \<Rightarrow> bool) \<Rightarrow> (('k, 'v) table_op \<times> int) list \<Rightarrow> ('k \<rightharpoonup> 'v) \<Rightarrow> ('k \<rightharpoonup> 'v)" where
  "map_ops same [] m = m"
| "map_ops same ((op, rc) # os) m = map_ops same os (if rc = 0 then map_op same op m else m)"

fun op_okay :: "('v \<Rightarrow> bool) \<Rightarrow> ('k, 'v) table_op \<Rightarrow> bool" where
  "op_okay okay (Insert k v) = okay v"
| "op_okay okay (Delete k) = True"

text \<open>The return codes of an operation.\<close>

fun op_rc :: "('k, 'v) table_op \<Rightarrow> int \<Rightarrow> bool" where
  "op_rc (Insert k v) rc = (rc = 0 \<or> rc = - ENOSPC)"
| "op_rc (Delete k) rc = (rc = 0)"

context table_map begin

lemma run_op_outcome:
  assumes "rep s m" and "op_okay (okay s) op"
  shows "\<exists>s' rc. run_op ins del op s = Inr (s', rc) \<and> same s' = same s \<and> okay s' = okay s \<and> op_rc op rc \<and>
    rep s' (if rc = 0 then map_op (same s) op m else m)"
proof (cases op)
  case (Insert k v)
  have "ENOSPC \<noteq> 0" by (simp add: ENOSPC_def)
  moreover obtain s' rc where "ins k v s = Inr (s', rc)" "same s' = same s" "okay s' = okay s"
    "rc = 0 \<and> rep s' (\<lambda>k'. if same s k' k then Some v else m k') \<or> rc = - ENOSPC \<and> s' = s"
    using ins_outcome [OF assms(1), of v k] assms(2) Insert by auto
  ultimately show ?thesis using Insert assms(1) by (intro exI [of _ s'] exI [of _ rc]) auto
next
  case (Delete k)
  with del_outcome [OF assms(1), of k] show ?thesis by auto
qed

lemma run_ops_outcome:
  "rep s m \<Longrightarrow> list_all (op_okay (okay s)) os \<Longrightarrow>
   \<exists>t rcs. run_ops ins del os s = Inr (t, rcs) \<and> same t = same s \<and> okay t = okay s \<and> list_all2 op_rc os rcs \<and>
     rep t (map_ops (same s) (zip os rcs) m)"
proof (induction os arbitrary: s m)
  case (Cons op os)
  then obtain s' rc where s': "run_op ins del op s = Inr (s', rc)" "same s' = same s" "okay s' = okay s" "op_rc op rc"
    "rep s' (if rc = 0 then map_op (same s) op m else m)" using run_op_outcome [of s m op] by auto
  from Cons.IH [OF s'(5)] Cons.prems(2) s' show ?case by fastforce
qed simp

end

text \<open>The exact-match table provides the interface, keys being the same when they are equal under the mask.\<close>

definition em_repr :: "em_table \<Rightarrow> (key \<rightharpoonup> u64 \<times> bytes) \<Rightarrow> bool" where
  "em_repr t m \<longleftrightarrow> (\<exists>m'. em_rep t m' \<and> m = (\<lambda>k. m' (masked t k)))"

definition em_same :: "em_table \<Rightarrow> key \<Rightarrow> key \<Rightarrow> bool" where
  "em_same t k k' \<longleftrightarrow> masked t k = masked t k'"

definition em_okay :: "em_table \<Rightarrow> u64 \<times> bytes \<Rightarrow> bool" where
  "em_okay t v \<longleftrightarrow> length (snd v) = em_action_data_size t"

definition em_full :: "em_table \<Rightarrow> bool" where
  "em_full t \<longleftrightarrow> key_stack_tos t = 0 \<or> bkt_ext_stack_tos t = 0"

text \<open>The calls, with faults and return codes as the table gives them.\<close>

definition em_ins :: "key \<Rightarrow> u64 \<times> bytes \<Rightarrow> em_table \<Rightarrow> em_fault + em_table \<times> int" where
  "em_ins k v t = table_add t (Some \<lparr>e_key = Some k, e_action_id = fst v, e_action_data = Some (snd v)\<rparr>)"

definition em_del :: "key \<Rightarrow> em_table \<Rightarrow> em_fault + em_table \<times> int" where
  "em_del k t = table_del t (Some \<lparr>e_key = Some k, e_action_id = 0, e_action_data = None\<rparr>)"

definition em_get :: "key \<Rightarrow> em_table \<Rightarrow> em_fault + (u64 \<times> bytes) option" where
  "em_get k t = (case table_lookup_unoptimized t k of Inl e \<Rightarrow> Inl e | Inr r \<Rightarrow> Inr (map_option (dval t) r))"

lemma em_same_sizes: "same_sizes t t' \<Longrightarrow> em_same t' = em_same t \<and> em_okay t' = em_okay t"
  using same_sizesD(1) [of t t'] by (simp add: em_same_def em_okay_def fun_eq_iff same_sizes_def)

lemma em_ins_rep:
  assumes "em_rep t m'" and "em_okay t v"
  shows "\<exists>t' rc. em_ins k v t = Inr (t', rc) \<and> same_sizes t t' \<and>
    (rc = 0 \<and> em_rep t' (m'(masked t k \<mapsto> v)) \<or> rc = - ENOSPC \<and> t' = t \<and> m' (masked t k) = None \<and> em_full t)"
proof -
  let ?e = "\<lparr>e_key = Some k, e_action_id = fst v, e_action_data = Some (snd v)\<rparr>"
  have e: "entry_ok t ?e" "entry_val t ?e = v" using assms(2) by (simp_all add: entry_ok_def entry_val_def em_okay_def)
  from table_add_rep [OF assms(1), of ?e k] e show ?thesis by (auto simp: em_ins_def em_full_def)
qed

lemma em_del_rep: "em_rep t m' \<Longrightarrow> \<exists>t'. em_del k t = Inr (t', 0) \<and> em_rep t' (m'(masked t k := None)) \<and> same_sizes t t'"
  using table_del_rep [of t m' "\<lparr>e_key = Some k, e_action_id = 0, e_action_data = None\<rparr>" k] by (auto simp: em_del_def)

lemma em_get_rep: "em_rep t m' \<Longrightarrow> em_get k t = Inr (m' (masked t k))"
  using table_lookup_rep [of t m' k] by (auto simp: em_get_def)

lemma em_repr_upd:
  assumes "em_rep t' (m'(masked t k := x))" and "same_sizes t t'"
  shows "em_repr t' (\<lambda>k'. if em_same t k' k then x else m' (masked t k'))"
  unfolding em_repr_def using assms same_sizesD(1) [OF assms(2)]
  by (intro exI [of _ "m'(masked t k := x)"]) (auto simp: em_same_def)

interpretation em: table_map em_repr em_same em_okay em_full em_ins em_del em_get
proof
  fix t :: em_table and m k v
  assume r: "em_repr t m"
  then obtain m' where m': "em_rep t m'" "m = (\<lambda>k. m' (masked t k))" by (auto simp: em_repr_def)
  show "em_get k t = Inr (m k)" using em_get_rep [OF m'(1)] m'(2) by simp
  obtain d where d: "em_del k t = Inr (d, 0)" "em_rep d (m'(masked t k := None))" "same_sizes t d"
    using em_del_rep [OF m'(1)] by blast
  show "\<exists>t'. em_del k t = Inr (t', 0) \<and> em_same t' = em_same t \<and> em_okay t' = em_okay t \<and>
      em_repr t' (\<lambda>k'. if em_same t k' k then None else m k')"
    using d(1) em_same_sizes [OF d(3)] em_repr_upd [OF d(2,3)] m'(2) by auto
  assume "em_okay t v"
  then obtain a rc where a: "em_ins k v t = Inr (a, rc)" "same_sizes t a"
    "rc = 0 \<and> em_rep a (m'(masked t k \<mapsto> v)) \<or> rc = - ENOSPC \<and> a = t \<and> m' (masked t k) = None \<and> em_full t"
    using em_ins_rep [OF m'(1), of v k] by blast
  then have "rc = 0 \<and> em_repr a (\<lambda>k'. if em_same t k' k then Some v else m k') \<or>
      rc = - ENOSPC \<and> a = t \<and> m k = None \<and> em_full t"
    using em_repr_upd [OF _ a(2), of m' k "Some v"] m'(2) by auto
  then show "\<exists>t' rc. em_ins k v t = Inr (t', rc) \<and> em_same t' = em_same t \<and> em_okay t' = em_okay t \<and>
      (rc = 0 \<and> em_repr t' (\<lambda>k'. if em_same t k' k then Some v else m k') \<or>
       rc = - ENOSPC \<and> t' = t \<and> m k = None \<and> em_full t)"
    using a(1) em_same_sizes [OF a(2)] by blast
qed

end
