(* ===== verification/TableEmProps.thy ===== *)
theory TableEmProps
  imports TableEmMap
begin

text \<open>
  The properties of the exact-match table: refinement of a map by every sequence of operations, the
  outcome of an insertion, the lookup in steps against the plain lookup, and the tables too small to
  have a bucket.
\<close>

text \<open>A table of 16 keys of four bytes, for the witnesses.\<close>

definition ex_params :: table_params where
  "ex_params = \<lparr>p_match_type = MATCH_EXACT, p_key_size = 4, p_key_offset = 0, p_key_mask0 = None,
     p_action_data_size = 8, p_n_keys_max = 16\<rparr>"

lemma ex_params_create: "\<exists>t. table_create_internal ex_params = Inr (Inl t) \<and> em_action_data_size t = 8 \<and>
    em_key_size t = 8 \<and> em_key_mask t = [0xFFFFFFFF] \<and> key_stack_tos t = 16 \<and> bkt_ext_stack_tos t = 4"
proof -
  have "rte_align64pow2 4 = 4" "rte_align64pow2 16 = 16"
    by (simp_all add: rte_align64pow2_def rte_combine64ms1b_def Let_def drop_bit_eq_div)
  moreover have r4: "replicate 4 x = [x, x, x, x]" for x :: u8 by (simp add: numeral_eq_Suc)
  then have "key_words 1 (replicate 4 0xFF @ replicate 4 0) = [0xFFFFFFFF]"
    by (simp add: key_words_def le64_def push_bit_eq_mult)
  ultimately show ?thesis
    by (simp add: table_create_internal_def ex_params_def Let_def KEYS_PER_BUCKET_def)
qed

text \<open>
  C15: a created exact-match table of at least four keys behaves as a map. Every
  sequence of insertions and deletions, with keys of any content and data of the table's size, runs without a fault; each deletion
  returns zero and each insertion zero or \<open>-ENOSPC\<close>. In the table after any such sequence, a lookup of any key gives what
  the map says after the operations that returned zero, keys being identified when they agree under the key mask; a further insertion
  is refused only for lack of space: with \<open>-ENOSPC\<close>, the table unchanged, its key not in it, and no free key or no free
  bucket extension left; and a further deletion succeeds.
\<close>

theorem em_table_refines_map:
  assumes "table_create_internal params = Inr (Inl t0)" and "4 \<le> unat (p_n_keys_max params)"
    and "list_all (op_okay (em_okay t0)) os"
  shows "\<exists>t rcs. run_ops em_ins em_del os t0 = Inr (t, rcs) \<and> list_all2 op_rc os rcs \<and>
    (\<forall>k. em_get k t = Inr (map_ops (\<lambda>k' k''. masked t0 k' = masked t0 k'') (zip os rcs) Map.empty k)) \<and>
    (\<forall>k v. em_okay t0 v \<longrightarrow> (\<exists>t' rc. em_ins k v t = Inr (t', rc) \<and>
       (rc = 0 \<or> rc = - ENOSPC \<and> t' = t \<and> em_get k t = Inr None \<and> (key_stack_tos t = 0 \<or> bkt_ext_stack_tos t = 0)))) \<and>
    (\<forall>k. \<exists>t'. em_del k t = Inr (t', 0))"
proof -
  have "em_repr t0 Map.empty" using table_create_rep [OF assms(1,2)] by (auto simp: em_repr_def)
  from em.run_ops_outcome [OF this assms(3)] obtain t rcs where
    run: "run_ops em_ins em_del os t0 = Inr (t, rcs)" "list_all2 op_rc os rcs" and ok: "em_okay t = em_okay t0"
    and rep: "em_repr t (map_ops (em_same t0) (zip os rcs) Map.empty)" by blast
  have "em_get k t = Inr (map_ops (\<lambda>k' k''. masked t0 k' = masked t0 k'') (zip os rcs) Map.empty k)" for k
    using em.get_map [OF rep] by (simp add: em_same_def [abs_def])
  moreover have "\<exists>t' rc. em_ins k v t = Inr (t', rc) \<and>
      (rc = 0 \<or> rc = - ENOSPC \<and> t' = t \<and> em_get k t = Inr None \<and> (key_stack_tos t = 0 \<or> bkt_ext_stack_tos t = 0))"
    if "em_okay t0 v" for k v
    using em.ins_outcome [OF rep, of v k] em.get_map [OF rep, of k] that ok by (auto simp: em_full_def)
  moreover have "\<exists>t'. em_del k t = Inr (t', 0)" for k using em.del_outcome [OF rep, of k] by blast
  ultimately show ?thesis using run by blast
qed

text \<open>
  An insertion into the empty table is accepted, and the lookup with a key that differs from it only outside the mask finds the data.
\<close>

theorem em_table_refines_map_witness:
  "\<exists>t0 t. table_create_internal ex_params = Inr (Inl t0) \<and>
     run_ops em_ins em_del [Insert [5] (1, replicate 8 7), Delete [6]] t0 = Inr (t, [0, 0]) \<and>
     em_get [0x100000005] t = Inr (Some (1, replicate 8 7)) \<and> em_get [6] t = Inr None"
proof -
  let ?v = "(1 :: u64, replicate 8 7 :: bytes)"
  let ?os = "[Insert [5 :: u64] ?v, Delete [6]]"
  obtain t0 where t0: "table_create_internal ex_params = Inr (Inl t0)" and sz: "em_action_data_size t0 = 8"
    and mk: "em_key_size t0 = 8" "em_key_mask t0 = [0xFFFFFFFF]" and tos: "key_stack_tos t0 = 16" "bkt_ext_stack_tos t0 = 4"
    using ex_params_create by blast
  have four: "4 \<le> unat (p_n_keys_max ex_params)" by (simp add: ex_params_def)
  have v: "em_okay t0 ?v" by (simp add: em_okay_def sz)
  note refines = em_table_refines_map [OF t0 four]
  from refines [of "[]"] v tos obtain t1 where t1: "em_ins [5] ?v t0 = Inr (t1, 0)" by fastforce
  obtain t rcs where t: "run_ops em_ins em_del ?os t0 = Inr (t, rcs)" "list_all2 op_rc ?os rcs"
    "\<And>k. em_get k t = Inr (map_ops (\<lambda>k' k''. masked t0 k' = masked t0 k'') (zip ?os rcs) Map.empty k)"
    using refines [of ?os] v by auto
  have "rcs = [0, 0]" using t(1,2) t1 by (auto simp: list_all2_Cons1 split: sum.splits)
  moreover have "masked t0 [0x100000005] = masked t0 [5]" "masked t0 [5] \<noteq> masked t0 [6]" "masked t0 [0x100000005] \<noteq> masked t0 [6]"
    by (simp_all add: masked_def mk keycpy_def)
  ultimately show ?thesis using t0 t(1) t(3) by (intro exI [of _ t0] exI [of _ t]) simp
qed

text \<open>
  An insertion into a table that represents a map ends without fault. It returns zero and
  the table then represents the map updated at the key under the mask, or it returns
  \<open>-ENOSPC\<close> with the table unchanged, and then the key was not in the table and there is no free key or no free
  bucket extension.
\<close>

theorem table_add_outcome:
  assumes "em_rep t m" and "e_key e = Some k" and "entry_ok t e"
  shows "\<exists>t' rc. table_add t (Some e) = Inr (t', rc) \<and>
    (rc = 0 \<and> em_rep t' (m(masked t k \<mapsto> entry_val t e)) \<or>
     rc = - ENOSPC \<and> t' = t \<and> m (masked t k) = None \<and> (key_stack_tos t = 0 \<or> bkt_ext_stack_tos t = 0))"
  using table_add_rep [OF assms] by blast

theorem table_add_outcome_witness:
  "\<exists>t t' rc. table_create_internal ex_params = Inr (Inl t) \<and>
     table_add t (Some \<lparr>e_key = Some [5], e_action_id = 1, e_action_data = Some (replicate 8 7)\<rparr>) = Inr (t', rc) \<and>
     (rc = 0 \<or> rc = - ENOSPC)"
proof -
  obtain t where t: "table_create_internal ex_params = Inr (Inl t)" "em_action_data_size t = 8"
    using ex_params_create by blast
  have "4 \<le> unat (p_n_keys_max ex_params)" by (simp add: ex_params_def)
  then have "em_rep t Map.empty" by (rule table_create_rep [OF t(1)])
  from table_add_outcome [OF this, of "\<lparr>e_key = Some [5], e_action_id = 1, e_action_data = Some (replicate 8 7)\<rparr>" "[5]"]
  show ?thesis using t by (fastforce simp: entry_ok_def)
qed

text \<open>
  The deletion of a key from a table that represents a map returns zero and removes exactly
  that key, whether it was there or not; a bucket extension that it leaves without
  keys goes back to the free ones.
\<close>

theorem table_del_removes:
  assumes "em_rep t m" and "e_key e = Some k"
  shows "\<exists>t'. table_del t (Some e) = Inr (t', 0) \<and> em_rep t' (m(masked t k := None))"
  using table_del_rep [OF assms] by blast

theorem table_del_removes_witness:
  "\<exists>t t'. table_create_internal ex_params = Inr (Inl t) \<and>
     table_del t (Some \<lparr>e_key = Some [5], e_action_id = 0, e_action_data = None\<rparr>) = Inr (t', 0) \<and> em_rep t' Map.empty"
proof -
  obtain t where t: "table_create_internal ex_params = Inr (Inl t)" using ex_params_create by blast
  have "4 \<le> unat (p_n_keys_max ex_params)" by (simp add: ex_params_def)
  then have "em_rep t Map.empty" by (rule table_create_rep [OF t(1)])
  from table_del_removes [OF this, of "\<lparr>e_key = Some [5], e_action_id = 0, e_action_data = None\<rparr>" "[5]"]
  show ?thesis using t by auto
qed

text \<open>
  C20: the lookup of the data plane, three steps over a mailbox that compare signatures by
  lookup tables and fetch one key, is complete after its third step, gives exactly the hit or miss of the plain
  lookup and on a hit the same action and data, and leaves the mailbox ready for the next key.
\<close>

theorem table_lookup_equals_unoptimized:
  assumes "em_rep t m" and "m_state mb = 0"
  shows "\<exists>mb' hit d res. lookup_run 3 t mb k = Inr (mb', Some (hit, d)) \<and> m_state mb' = 0 \<and>
    table_lookup_unoptimized t k = Inr res \<and> hit = (res \<noteq> None) \<and>
    (hit \<longrightarrow> map_option (dval t) res = Some (dval t d))"
proof -
  obtain mb' d where a: "lookup_run 3 t mb k = Inr (mb', Some (m (masked t k) \<noteq> None, d))" "m_state mb' = 0"
    "\<forall>v. m (masked t k) = Some v \<longrightarrow> dval t d = v" using lookup_run_rep [OF assms, of k] by blast
  obtain res where un: "table_lookup_unoptimized t k = Inr res" "map_option (dval t) res = m (masked t k)"
    using table_lookup_rep [OF assms(1)] by blast
  show ?thesis using a un(1) by (cases res) (auto simp: un(2) [symmetric])
qed

definition ex_mailbox :: mailbox where
  "ex_mailbox = \<lparr>m_bkt = Bucket 0, m_input_sig = 0, m_bkt_key_id = 0, m_sig_match = 0, m_sig_match_many = 0, m_state = 0\<rparr>"

theorem table_lookup_equals_unoptimized_witness:
  "\<exists>t mb'. table_create_internal ex_params = Inr (Inl t) \<and>
     (\<exists>d. lookup_run 3 t ex_mailbox [5] = Inr (mb', Some (False, d)))"
proof -
  obtain t where t: "table_create_internal ex_params = Inr (Inl t)" using ex_params_create by blast
  have "4 \<le> unat (p_n_keys_max ex_params)" by (simp add: ex_params_def)
  then have r: "em_rep t Map.empty" by (rule table_create_rep [OF t(1)])
  have "m_state ex_mailbox = 0" by (simp add: ex_mailbox_def)
  from table_lookup_equals_unoptimized [OF r this, of "[5]"] table_lookup_rep [OF r, of "[5]"] t
  show ?thesis by auto
qed

text \<open>
  A table for fewer than four keys is created without complaint but has no bucket: the
  number of buckets is zero, the mask of bucket numbers is all ones, and every insertion and every lookup reads a
  bucket outside the table.
\<close>

theorem tiny_table_has_no_bucket:
  assumes "table_create_internal params = Inr (Inl t)" and "unat (p_n_keys_max params) < 4"
  shows "table_lookup_unoptimized t k = Inl BktBounds \<and>
    (e_key e = Some k \<longrightarrow> table_add t (Some e) = Inl BktBounds)"
proof -
  have t: "em_buckets t = replicate (unat (p_n_keys_max params div 4)) zeroed_bucket"
    using assms(1) by (auto simp: table_create_internal_def Let_def KEYS_PER_BUCKET_def split: if_splits)
  have "unat (p_n_keys_max params div 4) = 0" using assms(2) by (simp add: unat_div)
  then have "get_bkt t (Bucket i) = Inl BktBounds" for i by (simp add: get_bkt_def t aget_def)
  then have "find_key (chain_fuel t) t k (sig_of t k) None (bkt_of t k) = Inl BktBounds"
    by (simp add: chain_fuel_def bkt_of_def)
  then show ?thesis by (simp add: table_lookup_unoptimized_def table_add_def Let_def)
qed

theorem tiny_table_has_no_bucket_witness:
  "\<exists>t. table_create_internal (ex_params\<lparr>p_n_keys_max := 3\<rparr>) = Inr (Inl t) \<and> table_lookup_unoptimized t [5] = Inl BktBounds"
proof -
  have a: "rte_align64pow2 4 = 4" "rte_align64pow2 16 = 16"
    by (simp_all add: rte_align64pow2_def rte_combine64ms1b_def Let_def drop_bit_eq_div)
  then obtain t where t: "table_create_internal (ex_params\<lparr>p_n_keys_max := 3\<rparr>) = Inr (Inl t)"
    by (simp add: table_create_internal_def ex_params_def Let_def KEYS_PER_BUCKET_def)
  have "unat (p_n_keys_max (ex_params\<lparr>p_n_keys_max := 3\<rparr>)) < 4" by simp
  with tiny_table_has_no_bucket [OF t this, of "[5]"] t show ?thesis by blast
qed

end
