(* ===== verification/TokenFiles.thy ===== *)
theory TokenFiles
  imports Prelude
begin

text \<open>
  The text files through which the NIC driver (drivers/net/ixgbe/ixgbe_rxtx_vec_sse.c)
  and the worker process (worker/worker.c) share the free space of the three priority
  queues: the files' contents, the decimal conversion of \<open>fscanf\<close> and \<open>fprintf\<close>,
  the choice of the queue from the QoS value, and the two programs' accesses.
\<close>

section \<open>Decimal text\<close>

definition digit_char :: "nat \<Rightarrow> char" where
  "digit_char d = char_of (48 + d)"

fun show_nat :: "nat \<Rightarrow> string" where
  "show_nat n = (if n < 10 then [digit_char n] else show_nat (n div 10) @ [digit_char (n mod 10)])"

declare show_nat.simps [simp del]

text \<open>\<open>fprintf(f, "%d", n)\<close>\<close>

definition fprintf_d :: "int \<Rightarrow> string" where
  "fprintf_d n = (if n < 0 then CHR ''-'' # show_nat (nat (- n)) else show_nat (nat n))"

text \<open>
  \<open>fscanf(f, "%d", &x)\<close>: white space is skipped, a sign is optional, the digits are taken
  greedily. An input that ends before a conversion gives EOF, a first character that
  cannot start a number gives a matching failure; in both cases \<open>x\<close> is not written.
\<close>

datatype scan = ScanEOF | ScanMismatch | ScanInt int

definition is_digit :: "char \<Rightarrow> bool" where
  "is_digit c \<longleftrightarrow> 48 \<le> (of_char c :: nat) \<and> (of_char c :: nat) \<le> 57"

definition is_space :: "char \<Rightarrow> bool" where
  "is_space c \<longleftrightarrow> (of_char c :: nat) = 32 \<or> (9 \<le> (of_char c :: nat) \<and> (of_char c :: nat) \<le> 13)"

fun scan_digits :: "nat \<Rightarrow> string \<Rightarrow> nat" where
  "scan_digits acc [] = acc"
| "scan_digits acc (c # cs) =
     (if is_digit c then scan_digits (10 * acc + (of_char c - 48)) cs else acc)"

definition scan_unsigned :: "string \<Rightarrow> nat option" where
  "scan_unsigned s =
     (case s of [] \<Rightarrow> None | c # _ \<Rightarrow> if is_digit c then Some (scan_digits 0 s) else None)"

definition scan_number :: "string \<Rightarrow> scan" where
  "scan_number s =
     (case s of
        [] \<Rightarrow> ScanEOF
      | c # cs \<Rightarrow>
          (if c = CHR ''-''
           then (case scan_unsigned cs of None \<Rightarrow> ScanMismatch | Some n \<Rightarrow> ScanInt (- int n))
           else if c = CHR ''+''
           then (case scan_unsigned cs of None \<Rightarrow> ScanMismatch | Some n \<Rightarrow> ScanInt (int n))
           else (case scan_unsigned s of None \<Rightarrow> ScanMismatch | Some n \<Rightarrow> ScanInt (int n))))"

definition fscanf_d :: "string \<Rightarrow> scan" where
  "fscanf_d s = scan_number (dropWhile is_space s)"

text \<open>The variable after \<open>fscanf\<close>: unchanged unless a number was converted.\<close>

definition scan_into :: "int \<Rightarrow> string \<Rightarrow> int" where
  "scan_into old s = (case fscanf_d s of ScanInt n \<Rightarrow> n | _ \<Rightarrow> old)"

lemma of_char_digit: "d < 10 \<Longrightarrow> (of_char (digit_char d) :: nat) = 48 + d"
  by (simp add: digit_char_def)

lemma digit_char_props:
  assumes "d < 10"
  shows "is_digit (digit_char d)" and "\<not> is_space (digit_char d)"
  using assms by (simp_all add: is_digit_def is_space_def of_char_digit)

lemma digit_not_sign:
  assumes "d < 10"
  shows "digit_char d \<noteq> CHR ''-''" and "digit_char d \<noteq> CHR ''+''"
proof -
  have "(of_char (digit_char d) :: nat) \<noteq> of_char (CHR ''-'')"
    and "(of_char (digit_char d) :: nat) \<noteq> of_char (CHR ''+'')"
    using of_char_digit [OF assms] by simp_all
  then show "digit_char d \<noteq> CHR ''-''" "digit_char d \<noteq> CHR ''+''" by metis+
qed

lemma show_nat_all_digits: "c \<in> set (show_nat n) \<Longrightarrow> is_digit c"
proof (induction n rule: show_nat.induct)
  case (1 n)
  then show ?case
    by (subst (asm) (2) show_nat.simps) (auto simp: digit_char_props split: if_splits)
qed

lemma show_nat_not_Nil [simp]: "show_nat n \<noteq> []"
  by (subst show_nat.simps) simp

lemma hd_show_nat: "\<exists>d cs. d < 10 \<and> show_nat n = digit_char d # cs"
proof (induction n rule: show_nat.induct)
  case (1 n)
  show ?case
  proof (cases "n < 10")
    case True
    then show ?thesis by (subst show_nat.simps) auto
  next
    case False
    with "1.IH" obtain d cs where "d < 10" "show_nat (n div 10) = digit_char d # cs" by blast
    with False show ?thesis by (subst show_nat.simps) auto
  qed
qed

lemma scan_digits_append:
  "(\<And>c. c \<in> set xs \<Longrightarrow> is_digit c) \<Longrightarrow>
   scan_digits acc (xs @ ys) = scan_digits (scan_digits acc xs) ys"
  by (induction xs arbitrary: acc) auto

lemma scan_digits_show_nat: "scan_digits 0 (show_nat n) = n"
proof (induction n rule: show_nat.induct)
  case (1 n)
  show ?case
  proof (cases "n < 10")
    case True
    then show ?thesis
      by (subst show_nat.simps) (simp add: digit_char_props of_char_digit)
  next
    case False
    then have "n mod 10 < 10" by simp
    with False "1.IH" show ?thesis
      by (subst show_nat.simps)
        (simp add: scan_digits_append show_nat_all_digits digit_char_props of_char_digit)
  qed
qed

lemma fscanf_show_nat: "fscanf_d (show_nat n) = ScanInt (int n)"
proof -
  obtain d cs where d: "d < 10" "show_nat n = digit_char d # cs" using hd_show_nat by blast
  then have "scan_unsigned (show_nat n) = Some n"
    using scan_digits_show_nat [of n] by (simp add: scan_unsigned_def digit_char_props)
  with d show ?thesis
    by (simp add: fscanf_d_def scan_number_def digit_char_props digit_not_sign)
qed

lemma fscanf_fprintf: "fscanf_d (fprintf_d n) = ScanInt n"
proof (cases "n < 0")
  case True
  obtain d cs where d: "d < 10" "show_nat (nat (- n)) = digit_char d # cs"
    using hd_show_nat by blast
  then have "scan_unsigned (show_nat (nat (- n))) = Some (nat (- n))"
    using scan_digits_show_nat [of "nat (- n)"] by (simp add: scan_unsigned_def digit_char_props)
  moreover have "\<not> is_space (CHR ''-'')" by (simp add: is_space_def)
  ultimately show ?thesis
    using True by (simp add: fscanf_d_def fprintf_d_def scan_number_def)
next
  case False
  then show ?thesis by (simp add: fprintf_d_def fscanf_show_nat)
qed

lemma scan_into_fprintf [simp]: "scan_into old (fprintf_d n) = n"
  by (simp add: scan_into_def fscanf_fprintf)

lemma fscanf_empty [simp]: "fscanf_d [] = ScanEOF"
  by (simp add: fscanf_d_def scan_number_def)

lemma scan_into_empty [simp]: "scan_into old [] = old"
  by (simp add: scan_into_def)

lemma fprintf_d_inject [simp]: "fprintf_d a = fprintf_d b \<longleftrightarrow> a = b"
  by (metis fscanf_fprintf scan.inject)

lemma fprintf_d_not_Nil [simp]: "fprintf_d n \<noteq> []"
  by (simp add: fprintf_d_def)

end
