(* ===== verification/TokenQueue.thy ===== *)
theory TokenQueue
  imports TokenFiles
begin

text \<open>
  The token accounting of the three priority queues. \<open>take_token\<close> is the file part of
  the driver's per-packet routine \<open>davidis_vtx1\<close>; \<open>worker_iteration\<close> is one pass of the
  loop of worker/worker.c. Both are first taken as uninterrupted operations, and a locale
  \<open>token_counter\<close> carries the accounting lemma. Their interleaving is in TokenRace.
\<close>

section \<open>The files\<close>

datatype qfile = RRLower20 | Range_20_80 | Bigger_80 | BufferEmulator

text \<open>The directory: the text of each file, \<open>None\<close> for a file that does not exist.\<close>

type_synonym filesys = "qfile \<Rightarrow> string option"

definition QUEUE_SIZE :: int where "QUEUE_SIZE = 33"
definition NUM_OF_QUEUES :: nat where "NUM_OF_QUEUES = 3"

text \<open>
  The chain of tests by which the driver picks the file; \<open>None\<close> would leave the file
  pointer uninitialised.
\<close>

definition queue_of :: "int \<Rightarrow> qfile option" where
  "queue_of current_QoS =
     (if current_QoS \<le> 20 then Some RRLower20
      else if current_QoS < 80 \<and> current_QoS > 20 then Some Range_20_80
      else if current_QoS \<ge> 80 then Some Bigger_80
      else None)"

lemma queue_of_total: "\<exists>f. queue_of q = Some f \<and> f \<noteq> BufferEmulator"
  by (auto simp: queue_of_def)

lemma queue_of_class:
  "queue_of q = Some f \<Longrightarrow>
     (f = RRLower20 \<longleftrightarrow> q \<le> 20) \<and> (f = Range_20_80 \<longleftrightarrow> 20 < q \<and> q < 80) \<and>
     (f = Bigger_80 \<longleftrightarrow> 80 \<le> q)"
  by (auto simp: queue_of_def split: if_splits)

section \<open>The driver's access\<close>

text \<open>
  The free space is read, the packet is refused when there is none, and otherwise the
  space less one is written back. \<open>None\<close>: \<open>fopen\<close> gave NULL and \<open>fscanf\<close> crashes.
\<close>

definition take_token :: "filesys \<Rightarrow> int \<Rightarrow> (filesys \<times> bool) option" where
  "take_token fs current_QoS =
     (case queue_of current_QoS of
        None \<Rightarrow> None
      | Some f \<Rightarrow>
          (case fs f of
             None \<Rightarrow> None
           | Some s \<Rightarrow>
               (let FIFO_SIZE = scan_into 0 s
                in if FIFO_SIZE \<le> 0 then Some (fs, False)
                   else Some (fs(f \<mapsto> fprintf_d (FIFO_SIZE - 1)), True))))"

section \<open>The worker\<close>

record worker =
  w_fs :: filesys
  w_turn :: nat
  w_fifo :: int

definition worker_filename :: "qfile list" where
  "worker_filename = [RRLower20, Range_20_80, Bigger_80]"

text \<open>The variable \<open>FIFO_SIZE\<close> of the worker keeps its value when nothing is converted.\<close>

definition worker_iteration :: "worker \<Rightarrow> worker option" where
  "worker_iteration w =
     (case aget worker_filename (w_turn w) of
        None \<Rightarrow> None
      | Some f \<Rightarrow>
          (case w_fs w f of
             None \<Rightarrow> None
           | Some s \<Rightarrow>
               (let FIFO_SIZE = scan_into (w_fifo w) s;
                    turn' = (w_turn w + 1) mod NUM_OF_QUEUES
                in if FIFO_SIZE < QUEUE_SIZE
                   then Some \<lparr>w_fs = (w_fs w)(f \<mapsto> fprintf_d (FIFO_SIZE + 1)),
                              w_turn = turn', w_fifo = FIFO_SIZE + 1\<rparr>
                   else Some \<lparr>w_fs = w_fs w, w_turn = turn', w_fifo = FIFO_SIZE\<rparr>)))"

fun worker_run :: "nat \<Rightarrow> worker \<Rightarrow> worker option" where
  "worker_run 0 w = Some w"
| "worker_run (Suc n) w = (case worker_iteration w of None \<Rightarrow> None | Some w' \<Rightarrow> worker_run n w')"

section \<open>The accounting interface\<close>

text \<open>A store of counters: what a program that only reads and writes counters relies on.\<close>

locale token_counter =
  fixes level :: "'s \<Rightarrow> 'q \<Rightarrow> int option"
    and put :: "'s \<Rightarrow> 'q \<Rightarrow> int \<Rightarrow> 's"
  assumes level_put_same: "level (put s q n) q = Some n"
    and level_put_other: "q \<noteq> r \<Longrightarrow> level (put s q n) r = level s r"
begin

lemma level_put: "level (put s q n) r = (if q = r then Some n else level s r)"
  by (simp add: level_put_same level_put_other)

lemma level_preserved: "level s r \<noteq> None \<Longrightarrow> level (put s q n) r \<noteq> None"
  by (simp add: level_put)

lemma adjust_balance:
  assumes "\<And>q. q \<in> fst ` set evs \<Longrightarrow> level s q \<noteq> None" and "level s r = Some n"
  shows "level (fold (\<lambda>(q, d) s. put s q (the (level s q) + d)) evs s) r =
         Some (n + sum_list (map snd (filter (\<lambda>e. fst e = r) evs)))"
  using assms
proof (induction evs arbitrary: s n)
  case Nil
  then show ?case by simp
next
  case (Cons e evs)
  obtain q d where e: "e = (q, d)" by (cases e)
  let ?s = "put s q (the (level s q) + d)"
  have defined: "\<And>p. p \<in> fst ` set evs \<Longrightarrow> level ?s p \<noteq> None"
    using Cons.prems(1) by (auto simp: level_put)
  have "level ?s r = Some (n + (if q = r then d else 0))"
    using Cons.prems(2) by (simp add: level_put)
  from Cons.IH [OF defined this] show ?case by (simp add: e add.assoc)
qed

end

definition file_level :: "filesys \<Rightarrow> qfile \<Rightarrow> int option" where
  "file_level fs f =
     (case fs f of None \<Rightarrow> None
      | Some s \<Rightarrow> (case fscanf_d s of ScanInt n \<Rightarrow> Some n | _ \<Rightarrow> None))"

definition file_put :: "filesys \<Rightarrow> qfile \<Rightarrow> int \<Rightarrow> filesys" where
  "file_put fs f n = fs(f \<mapsto> fprintf_d n)"

interpretation tok: token_counter file_level file_put
  by unfold_locales (auto simp: file_level_def file_put_def fscanf_fprintf)

lemma file_level_SomeD:
  "file_level fs f = Some n \<Longrightarrow> \<exists>s. fs f = Some s \<and> (\<forall>old. scan_into old s = n)"
  by (auto simp: file_level_def scan_into_def split: option.splits scan.splits)

lemma file_put_changes:
  assumes "file_level fs f = Some n" and "m \<noteq> n"
  shows "file_put fs f m f \<noteq> fs f"
proof
  assume "file_put fs f m f = fs f"
  then have "file_level fs f = file_level (file_put fs f m) f" by (simp add: file_level_def)
  with assms show False by (simp add: tok.level_put)
qed

lemma take_token_level:
  assumes "queue_of q = Some f" and "file_level fs f = Some n"
  shows "take_token fs q = Some (if 0 < n then (file_put fs f (n - 1), True) else (fs, False))"
proof -
  obtain s where "fs f = Some s" "scan_into 0 s = n"
    using file_level_SomeD [OF assms(2)] by auto
  with assms(1) show ?thesis by (simp add: take_token_def file_put_def)
qed

lemma worker_iteration_level:
  assumes "w_turn w < NUM_OF_QUEUES"
    and "file_level (w_fs w) (worker_filename ! w_turn w) = Some n"
  shows "worker_iteration w =
    Some \<lparr>w_fs = (if n < QUEUE_SIZE then file_put (w_fs w) (worker_filename ! w_turn w) (n + 1)
                  else w_fs w),
          w_turn = (w_turn w + 1) mod NUM_OF_QUEUES,
          w_fifo = (if n < QUEUE_SIZE then n + 1 else n)\<rparr>"
proof -
  obtain s where s: "w_fs w (worker_filename ! w_turn w) = Some s" "\<And>old. scan_into old s = n"
    using file_level_SomeD [OF assms(2)] by auto
  from assms(1) have "aget worker_filename (w_turn w) = Some (worker_filename ! w_turn w)"
    by (simp add: NUM_OF_QUEUES_def worker_filename_def)
  with s show ?thesis by (simp add: worker_iteration_def file_put_def Let_def)
qed

section \<open>Runs of the two programs without overlap\<close>

datatype tok_event = Send int | Serve

record tok_run =
  r_worker :: worker
  r_sent :: "qfile \<Rightarrow> int"
  r_served :: "qfile \<Rightarrow> int"
  r_dropped :: nat

text \<open>
  One event: the driver handles a packet of some QoS, or the worker makes one iteration.
  The counts are what the packets and jobs of each queue add up to.
\<close>

fun tok_step :: "tok_event \<Rightarrow> tok_run \<Rightarrow> tok_run option" where
  "tok_step (Send q) r =
     (case (queue_of q, take_token (w_fs (r_worker r)) q) of
        (Some f, Some (fs', True)) \<Rightarrow>
          Some (r\<lparr>r_worker := (r_worker r)\<lparr>w_fs := fs'\<rparr>, r_sent := (r_sent r)(f := r_sent r f + 1)\<rparr>)
      | (Some f, Some (fs', False)) \<Rightarrow> Some (r\<lparr>r_dropped := Suc (r_dropped r)\<rparr>)
      | _ \<Rightarrow> None)"
| "tok_step Serve r =
     (case worker_iteration (r_worker r) of
        None \<Rightarrow> None
      | Some w \<Rightarrow>
          (let f = worker_filename ! w_turn (r_worker r)
           in Some (r\<lparr>r_worker := w,
                      r_served := (r_served r)(f := r_served r f +
                        (if w_fs w f = w_fs (r_worker r) f then 0 else 1))\<rparr>)))"

fun tok_steps :: "tok_event list \<Rightarrow> tok_run \<Rightarrow> tok_run option" where
  "tok_steps [] r = Some r"
| "tok_steps (e # es) r = (case tok_step e r of None \<Rightarrow> None | Some r' \<Rightarrow> tok_steps es r')"

definition tok_inv :: "tok_run \<Rightarrow> bool" where
  "tok_inv r \<longleftrightarrow> w_turn (r_worker r) < NUM_OF_QUEUES \<and>
     (\<forall>f. f \<noteq> BufferEmulator \<longrightarrow>
        (\<exists>n. file_level (w_fs (r_worker r)) f = Some n \<and> 0 \<le> n \<and> n \<le> QUEUE_SIZE))"

definition tok_balance :: "tok_run \<Rightarrow> qfile \<Rightarrow> int" where
  "tok_balance r f = the (file_level (w_fs (r_worker r)) f) + r_sent r f - r_served r f"

lemma worker_filename_not_emulator:
  "i < NUM_OF_QUEUES \<Longrightarrow> worker_filename ! i \<noteq> BufferEmulator"
  by (auto simp: worker_filename_def NUM_OF_QUEUES_def less_Suc_eq numeral_eq_Suc)

lemma tok_step_Send:
  assumes "tok_inv r"
  shows "\<exists>r'. tok_step (Send q) r = Some r' \<and> tok_inv r' \<and>
          (\<forall>f. f \<noteq> BufferEmulator \<longrightarrow> tok_balance r' f = tok_balance r f)"
proof -
  obtain f where f: "queue_of q = Some f" "f \<noteq> BufferEmulator" using queue_of_total by blast
  with assms obtain n where n: "file_level (w_fs (r_worker r)) f = Some n" "0 \<le> n" "n \<le> QUEUE_SIZE"
    by (auto simp: tok_inv_def)
  show ?thesis
  proof (cases "0 < n")
    case True
    with f n assms show ?thesis
      by (auto simp: take_token_level tok_inv_def tok_balance_def tok.level_put)
  next
    case False
    with f n assms show ?thesis
      by (auto simp: take_token_level tok_inv_def tok_balance_def)
  qed
qed

lemma tok_step_Serve:
  assumes "tok_inv r"
  shows "\<exists>r'. tok_step Serve r = Some r' \<and> tok_inv r' \<and>
          (\<forall>f. f \<noteq> BufferEmulator \<longrightarrow> tok_balance r' f = tok_balance r f)"
proof -
  let ?w = "r_worker r"
  let ?f = "worker_filename ! w_turn ?w"
  from assms have turn: "w_turn ?w < NUM_OF_QUEUES" by (simp add: tok_inv_def)
  then have nf: "?f \<noteq> BufferEmulator" by (rule worker_filename_not_emulator)
  with assms obtain n where n: "file_level (w_fs ?w) ?f = Some n" "0 \<le> n" "n \<le> QUEUE_SIZE"
    by (auto simp: tok_inv_def)
  have turn': "(w_turn ?w + 1) mod NUM_OF_QUEUES < NUM_OF_QUEUES"
    by (simp add: NUM_OF_QUEUES_def)
  note it = worker_iteration_level [OF turn n(1)]
  show ?thesis
  proof (cases "n < QUEUE_SIZE")
    case True
    have "file_put (w_fs ?w) ?f (n + 1) ?f \<noteq> w_fs ?w ?f"
      by (rule file_put_changes [OF n(1)]) simp
    with True it n turn' assms show ?thesis
      by (auto simp: tok_inv_def tok_balance_def tok.level_put Let_def)
  next
    case False
    with it n turn' assms show ?thesis
      by (auto simp: tok_inv_def tok_balance_def Let_def)
  qed
qed

lemma tok_step_ok:
  "tok_inv r \<Longrightarrow> \<exists>r'. tok_step e r = Some r' \<and> tok_inv r' \<and>
     (\<forall>f. f \<noteq> BufferEmulator \<longrightarrow> tok_balance r' f = tok_balance r f)"
  by (cases e) (simp_all only: tok_step_Send tok_step_Serve)

lemma tok_steps_ok:
  "tok_inv r \<Longrightarrow> \<exists>r'. tok_steps es r = Some r' \<and> tok_inv r' \<and>
     (\<forall>f. f \<noteq> BufferEmulator \<longrightarrow> tok_balance r' f = tok_balance r f)"
proof (induction es arbitrary: r)
  case Nil
  then show ?case by simp
next
  case (Cons e es)
  obtain r1 where r1: "tok_step e r = Some r1" "tok_inv r1"
    "\<forall>f. f \<noteq> BufferEmulator \<longrightarrow> tok_balance r1 f = tok_balance r f"
    using tok_step_ok [OF Cons.prems] by blast
  obtain r2 where "tok_steps es r1 = Some r2" "tok_inv r2"
    "\<forall>f. f \<noteq> BufferEmulator \<longrightarrow> tok_balance r2 f = tok_balance r1 f"
    using Cons.IH [OF r1(2)] by blast
  with r1 show ?case by auto
qed

section \<open>The worker alone fills the queues\<close>

lemma worker_run_append:
  "worker_run (m + n) w = (case worker_run m w of None \<Rightarrow> None | Some w' \<Rightarrow> worker_run n w')"
  by (induction m arbitrary: w) (auto split: option.splits)

text \<open>The levels of the three queues, in the order of the worker's array.\<close>

definition levels_are :: "filesys \<Rightarrow> int \<Rightarrow> int \<Rightarrow> int \<Rightarrow> bool" where
  "levels_are fs a b c \<longleftrightarrow> file_level fs RRLower20 = Some a \<and>
     file_level fs Range_20_80 = Some b \<and> file_level fs Bigger_80 = Some c"

lemma worker_iteration_min:
  assumes "w_turn w < NUM_OF_QUEUES"
    and "file_level (w_fs w) (worker_filename ! w_turn w) = Some n" and "n \<le> QUEUE_SIZE"
  obtains w' where "worker_iteration w = Some w'" and "w_turn w' = (w_turn w + 1) mod NUM_OF_QUEUES"
    and "\<And>g. file_level (w_fs w') g =
      (if g = worker_filename ! w_turn w then Some (min QUEUE_SIZE (n + 1)) else file_level (w_fs w) g)"
proof (rule that)
  show "worker_iteration w = Some \<lparr>w_fs = (if n < QUEUE_SIZE then file_put (w_fs w) (worker_filename ! w_turn w) (n + 1)
                  else w_fs w),
          w_turn = (w_turn w + 1) mod NUM_OF_QUEUES,
          w_fifo = (if n < QUEUE_SIZE then n + 1 else n)\<rparr>"
    by (rule worker_iteration_level [OF assms(1,2)])
qed (use assms in \<open>auto simp: tok.level_put\<close>)

lemma worker_round:
  assumes "w_turn w = 0" and lv: "levels_are (w_fs w) a b c"
    and "a \<le> QUEUE_SIZE" "b \<le> QUEUE_SIZE" "c \<le> QUEUE_SIZE"
  shows "\<exists>w'. worker_run 3 w = Some w' \<and> w_turn w' = 0 \<and>
    levels_are (w_fs w') (min QUEUE_SIZE (a + 1)) (min QUEUE_SIZE (b + 1)) (min QUEUE_SIZE (c + 1))"
proof -
  note nq = NUM_OF_QUEUES_def worker_filename_def levels_are_def
  obtain w1 where w1: "worker_iteration w = Some w1" "w_turn w1 = 1"
    "\<And>g. file_level (w_fs w1) g =
      (if g = RRLower20 then Some (min QUEUE_SIZE (a + 1)) else file_level (w_fs w) g)"
    using worker_iteration_min [of w a] assms by (auto simp: nq)
  obtain w2 where w2: "worker_iteration w1 = Some w2" "w_turn w2 = Suc (Suc 0)"
    "\<And>g. file_level (w_fs w2) g =
      (if g = Range_20_80 then Some (min QUEUE_SIZE (b + 1)) else file_level (w_fs w1) g)"
    using worker_iteration_min [of w1 b] w1 assms by (auto simp: nq)
  obtain w3 where w3: "worker_iteration w2 = Some w3" "w_turn w3 = 0"
    "\<And>g. file_level (w_fs w3) g =
      (if g = Bigger_80 then Some (min QUEUE_SIZE (c + 1)) else file_level (w_fs w2) g)"
    using worker_iteration_min [of w2 c] w1 w2 assms by (auto simp: nq)
  have "worker_run 3 w = Some w3" using w1(1) w2(1) w3(1) by (simp add: numeral_3_eq_3)
  with w1 w2 w3 lv show ?thesis by (auto simp: levels_are_def)
qed

lemma worker_rounds:
  assumes "w_turn w = 0" and "levels_are (w_fs w) a b c"
    and "a \<le> QUEUE_SIZE" "b \<le> QUEUE_SIZE" "c \<le> QUEUE_SIZE"
  shows "\<exists>w'. worker_run (3 * k) w = Some w' \<and> w_turn w' = 0 \<and>
    levels_are (w_fs w') (min QUEUE_SIZE (a + int k)) (min QUEUE_SIZE (b + int k))
      (min QUEUE_SIZE (c + int k))"
  using assms
proof (induction k arbitrary: w a b c)
  case 0
  then show ?case by (auto simp: min_def)
next
  case (Suc k)
  obtain w1 where w1: "worker_run 3 w = Some w1" "w_turn w1 = 0"
    "levels_are (w_fs w1) (min QUEUE_SIZE (a + 1)) (min QUEUE_SIZE (b + 1)) (min QUEUE_SIZE (c + 1))"
    using worker_round [OF Suc.prems] by blast
  have min_add: "min QUEUE_SIZE (min QUEUE_SIZE (x + 1) + int k) = min QUEUE_SIZE (x + int (Suc k))" for x
    by (simp add: min_def)
  have "3 * Suc k = 3 + 3 * k" by simp
  with w1 Suc.IH [OF w1(2,3)] show ?case
    by (simp add: worker_run_append min_add del: mult_Suc_right)
qed

section \<open>Properties\<close>

text \<open>
  \<open>fscanf\<close> of \<open>%d\<close> reads back exactly the number that \<open>fprintf\<close> of \<open>%d\<close> wrote, for
  every integer, so a token count survives its passage through a file.
\<close>

theorem fprintf_fscanf_roundtrip: "fscanf_d (fprintf_d n) = ScanInt n"
  by (rule fscanf_fprintf)

text \<open>
  C14: as long as the driver's and the worker's accesses do not overlap, every sequence of
  packets and worker iterations runs without a crash, keeps each queue's free space
  between 0 and the queue size, and conserves tokens: free space plus packets sent less
  jobs served does not change for any queue.
\<close>

theorem tokens_conserved:
  assumes "tok_inv r"
  shows "\<exists>r'. tok_steps es r = Some r' \<and> tok_inv r' \<and>
    (\<forall>f. f \<noteq> BufferEmulator \<longrightarrow>
       the (file_level (w_fs (r_worker r')) f) + r_sent r' f - r_served r' f =
       the (file_level (w_fs (r_worker r)) f) + r_sent r f - r_served r f)"
  using tok_steps_ok [OF assms] by (simp add: tok_balance_def)

definition start33 :: tok_run where
  "start33 = \<lparr>r_worker = \<lparr>w_fs = (\<lambda>_. Some (fprintf_d 33)), w_turn = 0, w_fifo = 0\<rparr>,
     r_sent = (\<lambda>_. 0), r_served = (\<lambda>_. 0), r_dropped = 0\<rparr>"

theorem tokens_conserved_witness:
  "tok_inv start33 \<and> (\<exists>r'. tok_steps [Send 10, Send 90, Serve] start33 = Some r' \<and> tok_inv r' \<and>
    (\<forall>f. f \<noteq> BufferEmulator \<longrightarrow>
       the (file_level (w_fs (r_worker r')) f) + r_sent r' f - r_served r' f = 33))"
proof -
  have "tok_inv start33"
    by (simp add: tok_inv_def start33_def file_level_def fscanf_fprintf NUM_OF_QUEUES_def QUEUE_SIZE_def)
  with tokens_conserved [OF this, of "[Send 10, Send 90, Serve]"] show ?thesis
    by (simp add: start33_def file_level_def fscanf_fprintf)
qed

text \<open>
  Left alone, the worker fills the queues: from any free space between 0 and the queue
  size, 99 iterations (33 rounds over the three queues) end with every queue's free space
  equal to the queue size, and the worker back at the first queue.
\<close>

theorem worker_fills_queues:
  assumes "w_turn w = 0" and "levels_are (w_fs w) a b c"
    and "0 \<le> a" "0 \<le> b" "0 \<le> c" "a \<le> QUEUE_SIZE" "b \<le> QUEUE_SIZE" "c \<le> QUEUE_SIZE"
  shows "\<exists>w'. worker_run 99 w = Some w' \<and> w_turn w' = 0 \<and>
    levels_are (w_fs w') QUEUE_SIZE QUEUE_SIZE QUEUE_SIZE"
  using worker_rounds [OF assms(1,2,6,7,8), of 33] assms(3,4,5) by (simp add: QUEUE_SIZE_def)

theorem worker_fills_queues_witness:
  "\<exists>w'. worker_run 99 \<lparr>w_fs = (\<lambda>_. Some (fprintf_d 7)), w_turn = 0, w_fifo = 5\<rparr> = Some w' \<and>
    w_turn w' = 0 \<and> levels_are (w_fs w') QUEUE_SIZE QUEUE_SIZE QUEUE_SIZE"
  by (rule worker_fills_queues [where a = 7 and b = 7 and c = 7])
    (simp_all add: levels_are_def file_level_def fscanf_fprintf QUEUE_SIZE_def)

end
