(* ===== verification/IxgbeTx.thy ===== *)
theory IxgbeTx
  imports TokenQueue "HOL-Library.Multiset"
begin

text \<open>
  The transmit queue of the modified ixgbe driver
  (drivers/net/ixgbe/ixgbe_rxtx_vec_sse.c, ixgbe_rxtx_vec_common.h, lib/mbuf/rte_mbuf.h):
  packet buffers with reference counts and their pools, the descriptor ring and its software
  ring, the per-packet decision that takes a token of the packet's queue, the burst
  function, the release of sent buffers, and reset. Rings and the array of the
  caller's packets are lists; an access out of their bounds, a null buffer and a missing file
  are faults. Buffers attached to another buffer are not modelled (fault \<open>Indirect\<close>). A memory
  pool is the list of the buffers put into it (its per-core cache and its ring are not
  modelled), the counters of the log are unbounded integers, and of a queue's fields those of the
  offload contexts other than \<open>ctx_curr\<close> are left out. The log's text is not modelled, but how often the
  log file is left open is.
\<close>

section \<open>Buffers and pools\<close>

record mbuf =
  mb_buf_iova :: u64
  mb_data_off :: u16
  mb_data_len :: u16
  mb_pkt_len :: u32
  mb_refcnt :: u16
  mb_next :: "nat option"
  mb_nb_segs :: u16
  mb_pool :: nat
  mb_direct :: bool
  mb_payload :: "nat \<Rightarrow> u8"

text \<open>The first and second quadword of an advanced transmit descriptor.\<close>

record tx_desc =
  td_lo :: u64
  td_hi :: u64

record tx_queue =
  q_ring :: "tx_desc list"
  q_sw_ring :: "nat option list"
  q_tdt :: u16
  nb_tx_desc :: u16
  tx_tail :: u16
  tx_free_thresh :: u16
  tx_rs_thresh :: u16
  nb_tx_used :: u16
  last_desc_cleaned :: u16
  nb_tx_free :: u16
  tx_next_dd :: u16
  tx_next_rs :: u16
  ctx_curr :: u32

record driver =
  d_fs :: filesys
  d_mbufs :: "nat \<Rightarrow> mbuf"
  d_pools :: "nat \<Rightarrow> nat list"
  d_txq :: tx_queue
  d_skipped :: int
  d_sum_QoS :: int
  d_packets_sent :: int
  d_open_logs :: nat

datatype tx_fault = NoFile | RingBounds | PktBounds | NullMbuf | Indirect | LongChain | FreeBounds | Endless

definition mempool_put :: "nat \<Rightarrow> nat \<Rightarrow> driver \<Rightarrow> driver" where
  "mempool_put pool m d = d\<lparr>d_pools := (d_pools d)(pool := m # d_pools d pool)\<rparr>"

definition mempool_put_bulk :: "nat \<Rightarrow> nat list \<Rightarrow> driver \<Rightarrow> driver" where
  "mempool_put_bulk pool ms d = d\<lparr>d_pools := (d_pools d)(pool := ms @ d_pools d pool)\<rparr>"

text \<open>\<open>True\<close>: the last reference, the buffer can go back to its pool (the code returns the buffer, else NULL).\<close>

definition rte_pktmbuf_prefree_seg :: "nat option \<Rightarrow> driver \<Rightarrow> tx_fault + driver \<times> bool" where
  "rte_pktmbuf_prefree_seg mp d =
     (case mp of
        None \<Rightarrow> Inl NullMbuf
      | Some i \<Rightarrow>
          (let m = d_mbufs d i;
               put = (\<lambda>m. d\<lparr>d_mbufs := (d_mbufs d)(i := m)\<rparr>)
           in if mb_refcnt m = 1 then
                if \<not> mb_direct m then Inl Indirect
                else Inr (put (m\<lparr>mb_next := None, mb_nb_segs := 1\<rparr>), True)
              else
                (let m = m\<lparr>mb_refcnt := mb_refcnt m - 1\<rparr>
                 in if mb_refcnt m = 0 then
                      if \<not> mb_direct m then Inl Indirect
                      else Inr (put (m\<lparr>mb_next := None, mb_nb_segs := 1, mb_refcnt := 1\<rparr>), True)
                    else Inr (put m, False))))"

definition rte_pktmbuf_free_seg :: "nat option \<Rightarrow> driver \<Rightarrow> tx_fault + driver" where
  "rte_pktmbuf_free_seg mp d =
     bindR (rte_pktmbuf_prefree_seg mp d) (\<lambda>(d, last_ref).
       case mp of
         Some i \<Rightarrow> Inr (if last_ref then mempool_put (mb_pool (d_mbufs d i)) i d else d)
       | None \<Rightarrow> Inl NullMbuf)"

text \<open>The loop over the segments of a packet; its first argument bounds the number of segments.\<close>

fun pktmbuf_free_loop :: "nat \<Rightarrow> nat option \<Rightarrow> driver \<Rightarrow> tx_fault + driver" where
  "pktmbuf_free_loop fuel None d = Inr d"
| "pktmbuf_free_loop 0 (Some i) d = Inl LongChain"
| "pktmbuf_free_loop (Suc fuel) (Some i) d =
     (let m_next = mb_next (d_mbufs d i)
      in bindR (rte_pktmbuf_free_seg (Some i) d) (pktmbuf_free_loop fuel m_next))"

definition rte_pktmbuf_free :: "nat option \<Rightarrow> driver \<Rightarrow> tx_fault + driver" where
  "rte_pktmbuf_free mp d = pktmbuf_free_loop 65536 mp d"

section \<open>The decision per packet\<close>

definition CoS_OFFSET :: nat where
  "CoS_OFFSET = 29"

definition packet_QoS :: "mbuf \<Rightarrow> int" where
  "packet_QoS m = uint (mb_payload m CoS_OFFSET)"

text \<open>
  The threshold decision: \<open>1/(abs(FIFO_SIZE-1)+1)\<close> is a division of integers, and the threshold does
  not enter the result. The functions return the class of service, and the decision.
\<close>

definition bufferManagementInverseLinear :: "filesys \<Rightarrow> mbuf \<Rightarrow> int \<Rightarrow> (int \<times> int \<times> bool) option" where
  "bufferManagementInverseLinear fs m uninit =
     (case fs BufferEmulator of
        None \<Rightarrow> None
      | Some s \<Rightarrow>
          (let current_QoS = packet_QoS m;
               FIFO_SIZE = scan_into uninit s;
               qos_threshold = 1000 * (1 div (\<bar>FIFO_SIZE - 1\<bar> + 1));
               qos_threshold = (if qos_threshold > 150 then 120 else qos_threshold)
           in Some (current_QoS, qos_threshold, current_QoS > 0)))"

text \<open>
  The descriptor of a packet: address and lengths, with the command flags. The decision of
  \<open>bufferManagementProbability\<close>, which needs the file of the buffer emulator to exist, is replaced by
  \<open>true\<close> in the code, so only the token of the packet's queue decides.
\<close>

definition tx_descriptor :: "mbuf \<Rightarrow> u64 \<Rightarrow> tx_desc" where
  "tx_descriptor m flags =
     \<lparr>td_lo = mb_buf_iova m + ucast (mb_data_off m),
      td_hi = push_bit 46 (ucast (mb_pkt_len m)) OR flags OR ucast (mb_data_len m)\<rparr>"

definition davidis_vtx1 :: "nat \<Rightarrow> nat option \<Rightarrow> u64 \<Rightarrow> driver \<Rightarrow> tx_fault + driver \<times> u64" where
  "davidis_vtx1 txdp pkt flags d =
     (case pkt of
        None \<Rightarrow> Inl NullMbuf
      | Some i \<Rightarrow>
          (let m = d_mbufs d i; current_QoS = packet_QoS m
           in if d_fs d BufferEmulator = None then Inl NoFile
              else case take_token (d_fs d) current_QoS of
                  None \<Rightarrow> Inl NoFile
                | Some (fs, False) \<Rightarrow>
                    bindR (rte_pktmbuf_free (Some i) (d\<lparr>d_fs := fs, d_skipped := d_skipped d + 1\<rparr>))
                      (\<lambda>d. Inr (d, 0))
                | Some (fs, True) \<Rightarrow>
                    (case aset (q_ring (d_txq d)) txdp (tx_descriptor m flags) of
                       None \<Rightarrow> Inl RingBounds
                     | Some ring \<Rightarrow>
                         Inr (d\<lparr>d_fs := fs, d_sum_QoS := d_sum_QoS d + current_QoS,
                                d_packets_sent := d_packets_sent d + 1,
                                d_txq := (d_txq d)\<lparr>q_ring := ring\<rparr>\<rparr>, 1))))"

section \<open>The burst\<close>

definition IXGBE_ADVTXD_DTYP_DATA :: u64 where "IXGBE_ADVTXD_DTYP_DATA = 0x00300000"
definition IXGBE_ADVTXD_DCMD_EOP :: u64 where "IXGBE_ADVTXD_DCMD_EOP = 0x01000000"
definition IXGBE_ADVTXD_DCMD_IFCS :: u64 where "IXGBE_ADVTXD_DCMD_IFCS = 0x02000000"
definition IXGBE_ADVTXD_DCMD_RS :: u64 where "IXGBE_ADVTXD_DCMD_RS = 0x08000000"
definition IXGBE_ADVTXD_DCMD_DEXT :: u64 where "IXGBE_ADVTXD_DCMD_DEXT = 0x20000000"
definition IXGBE_ADVTXD_STAT_DD :: u32 where "IXGBE_ADVTXD_STAT_DD = 1"

definition DCMD_DTYP_FLAGS :: u64 where
  "DCMD_DTYP_FLAGS = IXGBE_ADVTXD_DTYP_DATA OR IXGBE_ADVTXD_DCMD_IFCS OR
     IXGBE_ADVTXD_DCMD_DEXT OR IXGBE_ADVTXD_DCMD_EOP"

text \<open>
  The loop of \<open>vtx\<close> over \<open>nb_pkts\<close> packets. Its variable \<open>ret\<close> has no initial value in the code (an
  argument here) and is accumulated over the packets; packets are read from the array \<open>tx_pkts\<close>
  at the offset \<open>pkt\<close>.
\<close>

fun vtx_loop ::
  "nat \<Rightarrow> nat \<Rightarrow> nat option list \<Rightarrow> nat \<Rightarrow> u64 \<Rightarrow> 32 word \<Rightarrow> u64 \<Rightarrow> driver \<Rightarrow> tx_fault + driver \<times> u64"
where
  "vtx_loop 0 txdp tx_pkts pkt flags ret num_pkt_sent d = Inr (d, num_pkt_sent)"
| "vtx_loop (Suc n) txdp tx_pkts pkt flags ret num_pkt_sent d =
     (case aget tx_pkts pkt of
        None \<Rightarrow> Inl PktBounds
      | Some p \<Rightarrow>
          bindR (davidis_vtx1 txdp p flags d) (\<lambda>(d, r).
            let ret = ret + ucast r
            in vtx_loop n (txdp + 1) tx_pkts (pkt + 1) flags ret (num_pkt_sent + scast ret) d))"

definition vtx ::
  "nat \<Rightarrow> nat option list \<Rightarrow> nat \<Rightarrow> u16 \<Rightarrow> u64 \<Rightarrow> 32 word \<Rightarrow> driver \<Rightarrow> tx_fault + driver \<times> u64" where
  "vtx txdp tx_pkts pkt nb_pkts flags ret d = vtx_loop (unat nb_pkts) txdp tx_pkts pkt flags ret 0 d"

text \<open>The software ring entries from \<open>txep\<close> on, and the packets from \<open>pkt\<close> on.\<close>

fun tx_backlog_loop :: "nat \<Rightarrow> nat \<Rightarrow> nat option list \<Rightarrow> nat \<Rightarrow> nat option list \<Rightarrow> tx_fault + nat option list" where
  "tx_backlog_loop 0 txep tx_pkts pkt sw = Inr sw"
| "tx_backlog_loop (Suc n) txep tx_pkts pkt sw =
     (case aget tx_pkts pkt of
        None \<Rightarrow> Inl PktBounds
      | Some p \<Rightarrow>
          (case aset sw txep p of
             None \<Rightarrow> Inl RingBounds
           | Some sw \<Rightarrow> tx_backlog_loop n (txep + 1) tx_pkts (pkt + 1) sw))"

definition tx_backlog_entry :: "nat \<Rightarrow> nat option list \<Rightarrow> nat \<Rightarrow> u16 \<Rightarrow> driver \<Rightarrow> tx_fault + driver" where
  "tx_backlog_entry txep tx_pkts pkt nb_pkts d =
     bindR (tx_backlog_loop (unat nb_pkts) txep tx_pkts pkt (q_sw_ring (d_txq d)))
       (\<lambda>sw. Inr (d\<lparr>d_txq := (d_txq d)\<lparr>q_sw_ring := sw\<rparr>\<rparr>))"

text \<open>The first loop of the burst: the packets up to the end of the ring, without the last.\<close>

fun burst_loop ::
  "nat \<Rightarrow> nat \<Rightarrow> nat option list \<Rightarrow> nat \<Rightarrow> u64 \<Rightarrow> u64 \<Rightarrow> driver \<Rightarrow> tx_fault + driver \<times> u64"
where
  "burst_loop 0 txdp tx_pkts pkt flags num_pkt_sent d = Inr (d, num_pkt_sent)"
| "burst_loop (Suc n) txdp tx_pkts pkt flags num_pkt_sent d =
     (case aget tx_pkts pkt of
        None \<Rightarrow> Inl PktBounds
      | Some p \<Rightarrow>
          bindR (davidis_vtx1 txdp p flags d) (\<lambda>(d, r).
            burst_loop n (txdp + 1) tx_pkts (pkt + 1) flags (num_pkt_sent + r) d))"

section \<open>Releasing sent buffers\<close>

text \<open>
  The rounds of \<open>ixgbe_tx_free_bufs\<close> after the first buffer: \<open>free\<close> holds the buffers to put back
  in one call, newest last, all of one pool; it is an array of \<open>RTE_IXGBE_TX_MAX_FREE_BUF_SZ\<close> entries.
\<close>

definition RTE_IXGBE_TX_MAX_FREE_BUF_SZ :: nat where
  "RTE_IXGBE_TX_MAX_FREE_BUF_SZ = 64"

fun free_bulk_loop :: "nat option list \<Rightarrow> nat list \<Rightarrow> driver \<Rightarrow> tx_fault + nat list \<times> driver" where
  "free_bulk_loop [] free d = Inr (free, d)"
| "free_bulk_loop (e # es) free d =
     bindR (rte_pktmbuf_prefree_seg e d) (\<lambda>(d, last_ref).
       if last_ref then
         (let m = the e in
          if mb_pool (d_mbufs d m) = mb_pool (d_mbufs d (hd free)) then
            (if length free < RTE_IXGBE_TX_MAX_FREE_BUF_SZ then free_bulk_loop es (free @ [m]) d
             else Inl FreeBounds)
          else free_bulk_loop es [m] (mempool_put_bulk (mb_pool (d_mbufs d (hd free))) free d))
       else free_bulk_loop es free d)"

fun free_each_loop :: "nat option list \<Rightarrow> driver \<Rightarrow> tx_fault + driver" where
  "free_each_loop [] d = Inr d"
| "free_each_loop (e # es) d =
     bindR (rte_pktmbuf_prefree_seg e d) (\<lambda>(d, last_ref).
       free_each_loop es (if last_ref then mempool_put (mb_pool (d_mbufs d (the e))) (the e) d else d))"

text \<open>The buffers of the threshold's descriptors, in the order in which they are released.\<close>

definition done_bufs :: "tx_queue \<Rightarrow> nat option list" where
  "done_bufs q = take (unat (tx_rs_thresh q))
     (drop (unat (tx_next_dd q) + 1 - unat (tx_rs_thresh q)) (q_sw_ring q))"

definition ixgbe_tx_free_bufs :: "driver \<Rightarrow> tx_fault + driver \<times> u16" where
  "ixgbe_tx_free_bufs d =
     (let q = d_txq d in
      case aget (q_ring q) (unat (tx_next_dd q)) of
        None \<Rightarrow> Inl RingBounds
      | Some desc \<Rightarrow>
          (let status = (ucast (drop_bit 32 (td_hi desc)) :: u32) in
           if status AND IXGBE_ADVTXD_STAT_DD = 0 then Inr (d, 0)
           else
             (let n = unat (tx_rs_thresh q);
                  es = done_bufs q in
              if unat (tx_next_dd q) + 1 < n \<or> length es < n \<or> n = 0 then Inl RingBounds
              else
                bindR (bindR (rte_pktmbuf_prefree_seg (hd es) d) (\<lambda>(d, last_ref).
                    if last_ref then
                      bindR (free_bulk_loop (tl es) [the (hd es)] d) (\<lambda>(free, d).
                        Inr (mempool_put_bulk (mb_pool (d_mbufs d (hd free))) free d))
                    else free_each_loop (tl es) d))
                  (\<lambda>d.
                    let q = d_txq d;
                        q = q\<lparr>nb_tx_free := nb_tx_free q + tx_rs_thresh q,
                              tx_next_dd := tx_next_dd q + tx_rs_thresh q\<rparr>;
                        q = (if tx_next_dd q \<ge> nb_tx_desc q then q\<lparr>tx_next_dd := tx_rs_thresh q - 1\<rparr> else q)
                    in Inr (d\<lparr>d_txq := q\<rparr>, tx_rs_thresh q)))))"

text \<open>
  The part of the burst up to the end of the ring, when the packets reach it. The result
  holds the ring index, the offset in the caller's array, and the packets left, as the code
  computes them: the count of packets sent, not \<open>n\<close>, is subtracted from \<open>nb_commit\<close>.
\<close>

definition burst_wrap ::
  "nat option list \<Rightarrow> u16 \<Rightarrow> driver \<Rightarrow> tx_fault + driver \<times> u16 \<times> nat \<times> u16 \<times> u64" where
  "burst_wrap tx_pkts nb_commit d =
     (let q = d_txq d;
          tx_id = tx_tail q;
          n = nb_tx_desc q - tx_id
      in if n \<le> nb_commit then
           bindR (tx_backlog_entry (unat tx_id) tx_pkts 0 n d) (\<lambda>d.
           bindR (burst_loop (unat n - 1) (unat tx_id) tx_pkts 0 DCMD_DTYP_FLAGS 0 d) (\<lambda>(d, num_pkt_sent).
           case aget tx_pkts (unat n - 1) of
             None \<Rightarrow> Inl PktBounds
           | Some p \<Rightarrow>
           bindR (davidis_vtx1 (unat tx_id + (unat n - 1)) p (IXGBE_ADVTXD_DCMD_RS OR DCMD_DTYP_FLAGS) d) (\<lambda>(d, r).
             let num_pkt_sent = num_pkt_sent + r;
                 d = d\<lparr>d_txq := (d_txq d)\<lparr>tx_next_rs := tx_rs_thresh (d_txq d) - 1\<rparr>\<rparr>
             in Inr (d, 0, unat n - 1 + 1, nb_commit - ucast num_pkt_sent, num_pkt_sent))))
         else Inr (d, tx_id, 0, nb_commit, 0))"

text \<open>The end of the burst: the report-status bit, the free count, the tail and its register.\<close>

definition burst_finish :: "u16 \<Rightarrow> u64 \<Rightarrow> driver \<Rightarrow> tx_fault + driver" where
  "burst_finish tx_id num_pkt_sent d =
     (let q = d_txq d in
      bindR (if tx_next_rs q < tx_id then
               (case aget (q_ring q) (unat (tx_next_rs q)) of
                  None \<Rightarrow> Inl RingBounds
                | Some desc \<Rightarrow>
                    Inr (q\<lparr>q_ring := (q_ring q)[unat (tx_next_rs q) :=
                                 desc\<lparr>td_hi := td_hi desc OR IXGBE_ADVTXD_DCMD_RS\<rparr>],
                           tx_next_rs := tx_next_rs q + tx_rs_thresh q\<rparr>))
             else Inr q)
        (\<lambda>q. Inr (d\<lparr>d_txq := q\<lparr>nb_tx_free := nb_tx_free q - ucast num_pkt_sent,
                                 tx_tail := tx_id, q_tdt := tx_id\<rparr>\<rparr>)))"

text \<open>The burst once the number of packets is settled.\<close>

definition burst_packets :: "32 word \<Rightarrow> nat option list \<Rightarrow> u16 \<Rightarrow> driver \<Rightarrow> tx_fault + driver" where
  "burst_packets ret tx_pkts nb_pkts d =
     bindR (burst_wrap tx_pkts nb_pkts d) (\<lambda>(d, tx_id, pkt, nb_commit, num_pkt_sent).
     bindR (tx_backlog_entry (unat tx_id) tx_pkts pkt nb_commit d) (\<lambda>d.
     bindR (vtx (unat tx_id) tx_pkts pkt nb_commit DCMD_DTYP_FLAGS ret d) (\<lambda>(d, sent).
     let num_pkt_sent = num_pkt_sent + sent
     in burst_finish (tx_id + ucast num_pkt_sent) num_pkt_sent d)))"

text \<open>
  The burst. The first \<open>fopen\<close> of the log is counted, and its \<open>fclose\<close> at the end; \<open>ret\<close> is the
  indeterminate value that the variable of \<open>vtx\<close> starts with.
\<close>

definition ixgbe_xmit_fixed_burst_vec ::
  "32 word \<Rightarrow> nat option list \<Rightarrow> u16 \<Rightarrow> driver \<Rightarrow> tx_fault + driver \<times> u16" where
  "ixgbe_xmit_fixed_burst_vec ret tx_pkts nb_pkts d =
     (let d = d\<lparr>d_open_logs := Suc (d_open_logs d)\<rparr>;
          nb_pkts = min nb_pkts (tx_rs_thresh (d_txq d))
      in bindR (if nb_tx_free (d_txq d) < tx_free_thresh (d_txq d) then ixgbe_tx_free_bufs d else Inr (d, 0))
           (\<lambda>(d, _).
         let nb_pkts = min (nb_tx_free (d_txq d)) nb_pkts
         in if nb_pkts = 0 then Inr (d, 0)
            else bindR (burst_packets ret tx_pkts nb_pkts d)
                   (\<lambda>d. Inr (d\<lparr>d_open_logs := d_open_logs d - 1\<rparr>, nb_pkts))))"

section \<open>Closing and resetting a queue\<close>


definition clear_sw_ring :: "u16 \<Rightarrow> nat option list \<Rightarrow> nat option list" where
  "clear_sw_ring n sw = replicate (unat n) None @ drop (unat n) sw"


definition zeroed_desc :: tx_desc where
  "zeroed_desc = \<lparr>td_lo = 0, td_hi = 0\<rparr>"

text \<open>The write-back status is the upper half of the second quadword; \<open>IXGBE_TXD_STAT_DD\<close> is bit 0 of it.\<close>

definition IXGBE_TXD_STAT_DD :: u32 where "IXGBE_TXD_STAT_DD = 1"

definition ixgbe_reset_tx_queue_vec :: "tx_queue \<Rightarrow> tx_fault + tx_queue" where
  "ixgbe_reset_tx_queue_vec q =
     (let n = unat (nb_tx_desc q) in
      if length (q_ring q) < n \<or> length (q_sw_ring q) < n then Inl RingBounds
      else Inr (q\<lparr>q_ring := replicate n (zeroed_desc\<lparr>td_hi := push_bit 32 (ucast IXGBE_TXD_STAT_DD)\<rparr>)
                            @ drop n (q_ring q),
                  q_sw_ring := clear_sw_ring (nb_tx_desc q) (q_sw_ring q),
                  tx_next_dd := tx_rs_thresh q - 1,
                  tx_next_rs := tx_rs_thresh q - 1,
                  tx_tail := 0,
                  nb_tx_used := 0,
                  last_desc_cleaned := nb_tx_desc q - 1,
                  nb_tx_free := nb_tx_desc q - 1,
                  ctx_curr := 0\<rparr>))"

section \<open>Buffers\<close>

text \<open>What the release of buffers leaves alone: everything but the buffers and the pools.\<close>

definition only_buffers :: "driver \<Rightarrow> driver \<Rightarrow> bool" where
  "only_buffers d d' \<longleftrightarrow> d' = d\<lparr>d_mbufs := d_mbufs d', d_pools := d_pools d'\<rparr>"

lemma only_buffers_refl [simp]: "only_buffers d d"
  by (simp add: only_buffers_def)

lemma only_buffers_trans [trans]: "only_buffers d d' \<Longrightarrow> only_buffers d' d'' \<Longrightarrow> only_buffers d d''"
  unfolding only_buffers_def by (cases d; cases d'; cases d'') auto

lemma only_buffersD:
  assumes "only_buffers d d'"
  shows "d_fs d' = d_fs d" "d_txq d' = d_txq d" "d_skipped d' = d_skipped d"
    "d_sum_QoS d' = d_sum_QoS d" "d_packets_sent d' = d_packets_sent d" "d_open_logs d' = d_open_logs d"
  using assms unfolding only_buffers_def by (cases d; cases d'; auto)+

lemma only_buffers_put [simp]:
  "only_buffers d (d\<lparr>d_mbufs := m\<rparr>)" "only_buffers d (mempool_put p i d)"
  "only_buffers d (mempool_put_bulk p is d)"
  by (cases d; simp add: only_buffers_def mempool_put_def mempool_put_bulk_def)+

lemma prefree_seg_only_buffers:
  "rte_pktmbuf_prefree_seg mp d = Inr (d', b) \<Longrightarrow> only_buffers d d'"
  by (auto simp: rte_pktmbuf_prefree_seg_def Let_def split: option.splits if_splits)

lemma free_seg_only_buffers:
  assumes "rte_pktmbuf_free_seg mp d = Inr d'" shows "only_buffers d d'"
proof -
  from assms obtain d1 b i where d1: "rte_pktmbuf_prefree_seg mp d = Inr (d1, b)" "mp = Some i"
    and d': "d' = (if b then mempool_put (mb_pool (d_mbufs d1 i)) i d1 else d1)"
    by (cases mp) (auto simp: rte_pktmbuf_free_seg_def bindR_eq_Inr)
  have "only_buffers d1 d'" by (simp add: d')
  with prefree_seg_only_buffers [OF d1(1)] show ?thesis by (rule only_buffers_trans)
qed

lemma pktmbuf_free_loop_only_buffers: "pktmbuf_free_loop n mp d = Inr d' \<Longrightarrow> only_buffers d d'"
proof (induction n mp d rule: pktmbuf_free_loop.induct)
  case (3 fuel i d)
  then obtain d1 where d1: "rte_pktmbuf_free_seg (Some i) d = Inr d1"
    "pktmbuf_free_loop fuel (mb_next (d_mbufs d i)) d1 = Inr d'"
    by (auto simp: Let_def bindR_eq_Inr)
  have "only_buffers d1 d'" by (rule "3.IH" [OF refl d1(2)])
  with free_seg_only_buffers [OF d1(1)] show ?case by (rule only_buffers_trans)
qed simp_all

lemma pktmbuf_free_only_buffers: "rte_pktmbuf_free mp d = Inr d' \<Longrightarrow> only_buffers d d'"
  by (simp add: rte_pktmbuf_free_def pktmbuf_free_loop_only_buffers)

text \<open>A direct buffer with one reference, and nothing behind it.\<close>

definition sole :: "driver \<Rightarrow> nat \<Rightarrow> bool" where
  "sole d i \<longleftrightarrow> mb_refcnt (d_mbufs d i) = 1 \<and> mb_direct (d_mbufs d i)"

definition cut :: "nat \<Rightarrow> driver \<Rightarrow> driver" where
  "cut i d = d\<lparr>d_mbufs := (d_mbufs d)(i := (d_mbufs d i)\<lparr>mb_next := None, mb_nb_segs := 1\<rparr>)\<rparr>"

lemma prefree_sole: "sole d i \<Longrightarrow> rte_pktmbuf_prefree_seg (Some i) d = Inr (cut i d, True)"
  by (simp add: rte_pktmbuf_prefree_seg_def sole_def cut_def Let_def)

lemma sole_cut [simp]: "sole (cut i d) j = sole d j"
  by (simp add: sole_def cut_def)

lemma cut_pool [simp]: "mb_pool (d_mbufs (cut i d) j) = mb_pool (d_mbufs d j)"
  by (simp add: cut_def)

lemma cut_same [simp]:
  "d_pools (cut i d) = d_pools d" "d_txq (cut i d) = d_txq d" "d_fs (cut i d) = d_fs d"
  by (simp_all add: cut_def)

lemma free_one_segment:
  assumes "sole d i" and "mb_next (d_mbufs d i) = None"
  shows "rte_pktmbuf_free (Some i) d = Inr (mempool_put (mb_pool (d_mbufs d i)) i (cut i d))"
proof -
  have "rte_pktmbuf_free_seg (Some i) d = Inr (mempool_put (mb_pool (d_mbufs d i)) i (cut i d))"
    using assms by (simp add: rte_pktmbuf_free_seg_def prefree_sole)
  moreover have "(65536 :: nat) = Suc 65535" by simp
  ultimately show ?thesis
    using assms(2) unfolding rte_pktmbuf_free_def by (simp only: pktmbuf_free_loop.simps Let_def bindR_Inr)
qed

section \<open>Accounting of a run\<close>

definition files_ok :: "filesys \<Rightarrow> bool" where
  "files_ok fs \<longleftrightarrow> fs BufferEmulator \<noteq> None \<and> (\<forall>f. f \<noteq> BufferEmulator \<longrightarrow> file_level fs f \<noteq> None)"

definition total_tokens :: "filesys \<Rightarrow> int" where
  "total_tokens fs = the (file_level fs RRLower20) + the (file_level fs Range_20_80) +
     the (file_level fs Bigger_80)"

lemma file_put_other: "f \<noteq> g \<Longrightarrow> file_put fs f n g = fs g"
  by (simp add: file_put_def)

lemma files_ok_put: "f \<noteq> BufferEmulator \<Longrightarrow> files_ok fs \<Longrightarrow> files_ok (file_put fs f n)"
  by (auto simp: files_ok_def tok.level_put file_put_other)

lemma total_tokens_put:
  assumes "f \<noteq> BufferEmulator" and "file_level fs f = Some n"
  shows "total_tokens (file_put fs f m) = total_tokens fs + m - n"
  using assms by (cases f) (simp_all add: total_tokens_def tok.level_put)

text \<open>
  Between two states of the driver \<open>n\<close> packets were handled and \<open>s\<close> of them sent. The rings keep
  their lengths, and of the queue's counters none changes.
\<close>

definition handled :: "driver \<Rightarrow> driver \<Rightarrow> int \<Rightarrow> int \<Rightarrow> bool" where
  "handled d d' n s \<longleftrightarrow>
     d_packets_sent d' = d_packets_sent d + s \<and> d_skipped d' = d_skipped d + (n - s) \<and>
     0 \<le> s \<and> s \<le> n \<and>
     (files_ok (d_fs d) \<longrightarrow> files_ok (d_fs d') \<and> total_tokens (d_fs d') = total_tokens (d_fs d) - s) \<and>
     length (q_ring (d_txq d')) = length (q_ring (d_txq d)) \<and>
     length (q_sw_ring (d_txq d')) = length (q_sw_ring (d_txq d)) \<and>
     d_txq d' = (d_txq d)\<lparr>q_ring := q_ring (d_txq d'), q_sw_ring := q_sw_ring (d_txq d')\<rparr> \<and>
     d_open_logs d' = d_open_logs d"

lemma handled_trans:
  assumes "handled d d1 n1 s1" and "handled d1 d2 n2 s2"
  shows "handled d d2 (n1 + n2) (s1 + s2)"
proof -
  have "d_txq d2 = (d_txq d)\<lparr>q_ring := q_ring (d_txq d2), q_sw_ring := q_sw_ring (d_txq d2)\<rparr>"
    using assms unfolding handled_def by (cases "d_txq d"; cases "d_txq d1"; cases "d_txq d2") auto
  with assms show ?thesis by (auto simp: handled_def)
qed

lemma handled_refl: "handled d d 0 0"
  by (simp add: handled_def)

lemma handled_only_buffers:
  assumes "only_buffers d d'" shows "handled d d' 0 0"
  using only_buffersD [OF assms] by (simp add: handled_def)

lemma take_token_cases:
  assumes "take_token fs q = Some (fs', b)" and "files_ok fs"
  shows "files_ok fs' \<and> total_tokens fs' = total_tokens fs - of_bool b"
proof -
  obtain f where f: "queue_of q = Some f" "f \<noteq> BufferEmulator" using queue_of_total by blast
  with assms(2) obtain n where n: "file_level fs f = Some n" by (auto simp: files_ok_def)
  from assms(1) take_token_level [OF f(1) n] assms(2) f(2) show ?thesis
    by (auto simp: files_ok_put total_tokens_put [OF f(2) n] split: if_splits)
qed

lemma davidis_vtx1_handled:
  assumes "davidis_vtx1 t p fl d = Inr (d', r)"
  shows "(r = 0 \<or> r = 1) \<and> handled d d' 1 (of_bool (r = 1))"
proof -
  from assms obtain i where i: "p = Some i" and be: "d_fs d BufferEmulator \<noteq> None"
    by (auto simp: davidis_vtx1_def Let_def split: option.splits if_splits)
  from assms i be obtain fs b where tt: "take_token (d_fs d) (packet_QoS (d_mbufs d i)) = Some (fs, b)"
    by (auto simp: davidis_vtx1_def Let_def split: option.splits if_splits)
  show ?thesis
  proof (cases b)
    case True
    with assms i be tt have "r = 1" and d': "d' = d\<lparr>d_fs := fs,
          d_sum_QoS := d_sum_QoS d + packet_QoS (d_mbufs d i), d_packets_sent := d_packets_sent d + 1,
          d_txq := (d_txq d)\<lparr>q_ring := (q_ring (d_txq d))[t := tx_descriptor (d_mbufs d i) fl]\<rparr>\<rparr>"
      by (auto simp: davidis_vtx1_def Let_def aset_Some_iff split: option.splits)
    with take_token_cases [OF tt] True show ?thesis by (auto simp: handled_def)
  next
    case False
    define d0 where "d0 = d\<lparr>d_fs := fs, d_skipped := d_skipped d + 1\<rparr>"
    from assms i be tt False have "r = 0" and fr: "rte_pktmbuf_free (Some i) d0 = Inr d'"
      by (auto simp: davidis_vtx1_def Let_def bindR_eq_Inr d0_def)
    have "handled d d0 1 0" using take_token_cases [OF tt] False by (auto simp: handled_def d0_def)
    from handled_trans [OF this handled_only_buffers [OF pktmbuf_free_only_buffers [OF fr]]] \<open>r = 0\<close>
    show ?thesis by simp
  qed
qed

lemma burst_loop_handled:
  "burst_loop n t ps k fl num d = Inr (d', out) \<Longrightarrow>
   \<exists>s. handled d d' (int n) (int s) \<and> s \<le> n \<and> out = num + of_nat s"
proof (induction n t ps k fl num d rule: burst_loop.induct)
  case (1 t ps k fl num d)
  then show ?case by (auto simp: handled_refl)
next
  case (2 n t ps k fl num d)
  then obtain p d1 r where p: "aget ps k = Some p" and d1: "davidis_vtx1 t p fl d = Inr (d1, r)"
    and rest: "burst_loop n (t + 1) ps (k + 1) fl (num + r) d1 = Inr (d', out)"
    by (auto simp: bindR_eq_Inr split: option.splits)
  obtain s where s: "handled d1 d' (int n) (int s)" "s \<le> n" "out = num + r + of_nat s"
    using "2.IH" [OF p rest] by auto
  note one = davidis_vtx1_handled [OF d1]
  from handled_trans [OF conjunct2 [OF one] s(1)] one s(2,3) show ?case
    by (intro exI [of _ "s + of_bool (r = 1)"]) (auto simp: add.commute)
qed

text \<open>What \<open>vtx\<close> adds up when the packets are sent (\<open>True\<close>) or dropped as listed.\<close>

fun overcount :: "32 word \<Rightarrow> bool list \<Rightarrow> u64" where
  "overcount ret [] = 0"
| "overcount ret (b # bs) = scast (ret + of_bool b) + overcount (ret + of_bool b) bs"

lemma vtx_loop_handled:
  "vtx_loop n t ps k fl ret num d = Inr (d', out) \<Longrightarrow>
   \<exists>bs. length bs = n \<and> handled d d' (int n) (int (count_list bs True)) \<and> out = num + overcount ret bs"
proof (induction n t ps k fl ret num d rule: vtx_loop.induct)
  case (1 t ps k fl ret num d)
  then show ?case by (auto simp: handled_refl)
next
  case (2 n t ps k fl ret num d)
  then obtain p d1 r where p: "aget ps k = Some p" and d1: "davidis_vtx1 t p fl d = Inr (d1, r)"
    and rest: "vtx_loop n (t + 1) ps (k + 1) fl (ret + ucast r) (num + scast (ret + ucast r)) d1 = Inr (d', out)"
    by (auto simp: bindR_eq_Inr Let_def split: option.splits)
  note one = davidis_vtx1_handled [OF d1]
  obtain bs where bs: "length bs = n" "handled d1 d' (int n) (int (count_list bs True))"
      "out = num + scast (ret + ucast r) + overcount (ret + ucast r) bs"
    using "2.IH" [OF p refl rest] by auto
  from one have r: "(ucast r :: 32 word) = of_bool (r = 1)" by auto
  from handled_trans [OF conjunct2 [OF one] bs(2)] bs(1,3) show ?case
    by (intro exI [of _ "(r = 1) # bs"]) (auto simp: r add.commute split: if_splits)
qed

lemma all_sent_list: "count_list bs True = length bs \<Longrightarrow> bs = replicate (length bs) True"
proof (induction bs)
  case (Cons b bs)
  have "count_list bs True \<le> length bs" by (rule count_le_length)
  with Cons show ?case by (cases b) auto
qed simp

section \<open>A part of an array\<close>

definition splice_at :: "nat \<Rightarrow> 'a list \<Rightarrow> 'a list \<Rightarrow> 'a list" where
  "splice_at t xs ys = take t ys @ xs @ drop (t + length xs) ys"

lemma splice_at_Nil [simp]: "splice_at t [] ys = ys"
  by (simp add: splice_at_def)

lemma splice_at_Cons: "t < length ys \<Longrightarrow> splice_at (t + 1) xs (ys[t := x]) = splice_at t (x # xs) ys"
  by (simp add: splice_at_def take_Suc_conv_app_nth take_update_swap upd_conv_take_nth_drop add.commute)

lemma length_splice_at [simp]: "t + length xs \<le> length ys \<Longrightarrow> length (splice_at t xs ys) = length ys"
  by (simp add: splice_at_def)


lemma nth_splice_at_inside: "j < length xs \<Longrightarrow> t + length xs \<le> length ys \<Longrightarrow> splice_at t xs ys ! (t + j) = xs ! j"
  by (simp add: splice_at_def nth_append)

lemma tx_backlog_loop_splice:
  "k + n \<le> length ps \<Longrightarrow> t + n \<le> length sw \<Longrightarrow>
   tx_backlog_loop n t ps k sw = Inr (splice_at t (take n (drop k ps)) sw)"
proof (induction n arbitrary: t k sw)
  case 0
  then show ?case by simp
next
  case (Suc n)
  have "take (Suc n) (drop k ps) = ps ! k # take n (drop (k + 1) ps)"
    using Suc.prems(1) by (simp add: Cons_nth_drop_Suc [symmetric])
  with Suc.prems Suc.IH [of "k + 1" "t + 1" "sw[t := ps ! k]"] show ?case
    by (simp add: splice_at_Cons [symmetric])
qed

section \<open>Packets for which there are tokens\<close>

definition enough :: "nat \<Rightarrow> filesys \<Rightarrow> bool" where
  "enough k fs \<longleftrightarrow> fs BufferEmulator \<noteq> None \<and>
     (\<forall>f. f \<noteq> BufferEmulator \<longrightarrow> (\<exists>n. file_level fs f = Some n \<and> int k \<le> n))"

lemma davidis_vtx1_sends:
  assumes "enough (Suc k) (d_fs d)" and "t < length (q_ring (d_txq d))"
  obtains d' where "davidis_vtx1 t (Some i) fl d = Inr (d', 1)" and "enough k (d_fs d')"
    and "d_mbufs d' = d_mbufs d" and "d_pools d' = d_pools d"
    and "d_txq d' = (d_txq d)\<lparr>q_ring := (q_ring (d_txq d))[t := tx_descriptor (d_mbufs d i) fl]\<rparr>"
proof -
  let ?q = "packet_QoS (d_mbufs d i)"
  obtain f where f: "queue_of ?q = Some f" "f \<noteq> BufferEmulator" using queue_of_total by blast
  with assms(1) obtain n where n: "file_level (d_fs d) f = Some n" "int (Suc k) \<le> n"
    by (auto simp: enough_def)
  have tt: "take_token (d_fs d) ?q = Some (file_put (d_fs d) f (n - 1), True)"
    using take_token_level [OF f(1) n(1)] n(2) by simp
  have en: "enough k (file_put (d_fs d) f (n - 1))"
    unfolding enough_def
  proof (intro conjI allI impI)
    show "file_put (d_fs d) f (n - 1) BufferEmulator \<noteq> None"
      using assms(1) f(2) by (simp add: enough_def file_put_other)
    fix g assume "g \<noteq> BufferEmulator"
    with assms(1) obtain l where "file_level (d_fs d) g = Some l" "int (Suc k) \<le> l"
      by (auto simp: enough_def)
    with n(2) show "\<exists>l. file_level (file_put (d_fs d) f (n - 1)) g = Some l \<and> int k \<le> l"
      by (auto simp: tok.level_put)
  qed
  show thesis
  proof (rule that)
    show "davidis_vtx1 t (Some i) fl d = Inr (d\<lparr>d_fs := file_put (d_fs d) f (n - 1),
        d_sum_QoS := d_sum_QoS d + ?q, d_packets_sent := d_packets_sent d + 1,
        d_txq := (d_txq d)\<lparr>q_ring := (q_ring (d_txq d))[t := tx_descriptor (d_mbufs d i) fl]\<rparr>\<rparr>, 1)"
      using assms tt by (auto simp: davidis_vtx1_def Let_def enough_def)
  qed (simp_all add: en)
qed

lemma vtx_loop_sends:
  assumes "enough n (d_fs d)" and "t + n \<le> length (q_ring (d_txq d))" and "k + n \<le> length ms"
  shows "\<exists>d'. vtx_loop n t (map Some ms) k fl ret num d = Inr (d', num + overcount ret (replicate n True)) \<and>
    handled d d' (int n) (int n) \<and> d_mbufs d' = d_mbufs d \<and> d_pools d' = d_pools d \<and>
    d_txq d' = (d_txq d)\<lparr>q_ring :=
      splice_at t (map (\<lambda>i. tx_descriptor (d_mbufs d i) fl) (take n (drop k ms))) (q_ring (d_txq d))\<rparr>"
  using assms
proof (induction n arbitrary: t k ret num d)
  case 0
  then show ?case by (simp add: handled_refl)
next
  case (Suc n)
  let ?i = "ms ! k"
  let ?x = "tx_descriptor (d_mbufs d ?i) fl"
  have t: "t < length (q_ring (d_txq d))" using Suc.prems(2) by simp
  obtain d1 where d1: "davidis_vtx1 t (Some ?i) fl d = Inr (d1, 1)" "enough n (d_fs d1)"
    "d_mbufs d1 = d_mbufs d" "d_pools d1 = d_pools d"
    "d_txq d1 = (d_txq d)\<lparr>q_ring := (q_ring (d_txq d))[t := ?x]\<rparr>"
    by (rule davidis_vtx1_sends [OF Suc.prems(1) t])
  have "t + 1 + n \<le> length (q_ring (d_txq d1))" "k + 1 + n \<le> length ms"
    using Suc.prems d1(5) by simp_all
  from Suc.IH [OF d1(2) this, of "ret + 1" "num + scast (ret + 1)"]
  obtain d' where d': "vtx_loop n (t + 1) (map Some ms) (k + 1) fl (ret + 1) (num + scast (ret + 1)) d1 =
      Inr (d', num + scast (ret + 1) + overcount (ret + 1) (replicate n True))"
    "handled d1 d' (int n) (int n)" "d_mbufs d' = d_mbufs d1" "d_pools d' = d_pools d1"
    "d_txq d' = (d_txq d1)\<lparr>q_ring :=
      splice_at (t + 1) (map (\<lambda>i. tx_descriptor (d_mbufs d1 i) fl) (take n (drop (k + 1) ms))) (q_ring (d_txq d1))\<rparr>"
    by blast
  have "handled d d1 1 1" using davidis_vtx1_handled [OF d1(1)] by simp
  from handled_trans [OF this d'(2)] have "handled d d' (int (Suc n)) (int (Suc n))" by simp
  moreover have "take (Suc n) (drop k ms) = ?i # take n (drop (k + 1) ms)"
    using Suc.prems(3) by (simp add: Cons_nth_drop_Suc [symmetric])
  ultimately show ?case
    using d' d1 Suc.prems by (simp add: splice_at_Cons [symmetric] add.assoc Let_def)
qed

section \<open>A burst within the ring\<close>

lemma burst_wrap_none:
  assumes "nb_commit < nb_tx_desc (d_txq d) - tx_tail (d_txq d)"
  shows "burst_wrap ps nb_commit d = Inr (d, tx_tail (d_txq d), 0, nb_commit, 0)"
proof -
  have "\<not> nb_tx_desc (d_txq d) - tx_tail (d_txq d) \<le> nb_commit" using assms by (simp only: not_le)
  then show ?thesis by (simp add: burst_wrap_def Let_def)
qed

text \<open>The queue has room for \<open>k\<close> packets before its end, and does not need to free buffers first.\<close>

definition room_for :: "tx_queue \<Rightarrow> nat \<Rightarrow> bool" where
  "room_for q k \<longleftrightarrow> tx_free_thresh q \<le> nb_tx_free q \<and> k \<le> unat (nb_tx_free q) \<and>
     k \<le> unat (tx_rs_thresh q) \<and> unat (tx_tail q) + k < unat (nb_tx_desc q) \<and>
     length (q_ring q) = unat (nb_tx_desc q) \<and> length (q_sw_ring q) = unat (nb_tx_desc q)"

text \<open>The descriptor ring after the report-status bit is set, if the tail passes the threshold.\<close>

definition mark_rs :: "u16 \<Rightarrow> tx_queue \<Rightarrow> tx_queue" where
  "mark_rs tail q =
     (if tx_next_rs q < tail then
        q\<lparr>q_ring := (q_ring q)[unat (tx_next_rs q) :=
             (q_ring q ! unat (tx_next_rs q))\<lparr>td_hi := td_hi (q_ring q ! unat (tx_next_rs q)) OR IXGBE_ADVTXD_DCMD_RS\<rparr>],
          tx_next_rs := tx_next_rs q + tx_rs_thresh q\<rparr>
      else q)"

lemma burst_finish_ok:
  assumes "unat (tx_next_rs (d_txq d)) < length (q_ring (d_txq d))"
  shows "burst_finish tx_id n d = Inr (d\<lparr>d_txq := (mark_rs tx_id (d_txq d))
    \<lparr>nb_tx_free := nb_tx_free (d_txq d) - ucast n, tx_tail := tx_id, q_tdt := tx_id\<rparr>\<rparr>)"
  using assms by (simp add: burst_finish_def mark_rs_def Let_def)

lemma room_for_sizes:
  assumes "room_for q k" and "0 < k"
  shows "of_nat k < nb_tx_desc q - tx_tail q" "unat (of_nat k :: u16) = k"
    "min (of_nat k) (tx_rs_thresh q) = of_nat k" "min (nb_tx_free q) (of_nat k) = of_nat k"
    "(of_nat k :: u16) \<noteq> 0" "k \<le> 65535"
proof -
  from assms dst16_less [of "nb_tx_free q"] show k: "k \<le> 65535" by (simp add: room_for_def)
  then show u: "unat (of_nat k :: u16) = k" by (simp add: unat_of_nat)
  with assms show "(of_nat k :: u16) \<noteq> 0" by (metis less_numeral_extra(3) unat_0)
  have "unat (nb_tx_desc q - tx_tail q) = unat (nb_tx_desc q) - unat (tx_tail q)"
    using assms by (intro unat_sub) (simp add: room_for_def word_le_nat_alt)
  moreover have "unat (tx_tail q) + k < unat (nb_tx_desc q)" using assms by (simp add: room_for_def)
  ultimately show "of_nat k < nb_tx_desc q - tx_tail q" using u by (simp only: word_less_nat_alt)
  have "of_nat k \<le> tx_rs_thresh q" "of_nat k \<le> nb_tx_free q"
    using assms(1) u by (simp_all add: room_for_def word_le_nat_alt)
  then show "min (of_nat k) (tx_rs_thresh q) = of_nat k" "min (nb_tx_free q) (of_nat k) = of_nat k"
    by (simp_all add: min_absorb1 min_absorb2)
qed

text \<open>Such a burst runs \<open>vtx\<close> once, after it has recorded the packets in the software ring.\<close>

lemma burst_within_ring:
  assumes "room_for (d_txq d) k" and "0 < k" and "k \<le> length ps"
    and next_rs: "unat (tx_next_rs (d_txq d)) < unat (nb_tx_desc (d_txq d))"
    and v: "vtx_loop k (unat (tx_tail (d_txq d))) ps 0 DCMD_DTYP_FLAGS ret 0
          (d\<lparr>d_open_logs := Suc (d_open_logs d),
             d_txq := (d_txq d)\<lparr>q_sw_ring := splice_at (unat (tx_tail (d_txq d))) (take k ps) (q_sw_ring (d_txq d))\<rparr>\<rparr>) =
        Inr (d1, sent)"
  shows "ixgbe_xmit_fixed_burst_vec ret ps (of_nat k) d =
    Inr (d1\<lparr>d_open_logs := d_open_logs d,
            d_txq := (mark_rs (tx_tail (d_txq d) + ucast sent) (d_txq d1))
              \<lparr>nb_tx_free := nb_tx_free (d_txq d) - ucast sent,
               tx_tail := tx_tail (d_txq d) + ucast sent, q_tdt := tx_tail (d_txq d) + ucast sent\<rparr>\<rparr>, of_nat k)"
proof -
  let ?d0 = "d\<lparr>d_open_logs := Suc (d_open_logs d)\<rparr>"
  let ?db = "?d0\<lparr>d_txq := (d_txq d)\<lparr>q_sw_ring := splice_at (unat (tx_tail (d_txq d))) (take k ps) (q_sw_ring (d_txq d))\<rparr>\<rparr>"
  note sizes = room_for_sizes [OF assms(1,2)]
  have bl: "tx_backlog_entry (unat (tx_tail (d_txq d))) ps 0 (of_nat k) ?d0 = Inr ?db"
    using tx_backlog_loop_splice [of 0 k ps "unat (tx_tail (d_txq d))" "q_sw_ring (d_txq d)"] assms(1,3)
    by (simp add: tx_backlog_entry_def sizes(2) room_for_def)
  have vt: "vtx (unat (tx_tail (d_txq d))) ps 0 (of_nat k) DCMD_DTYP_FLAGS ret ?db = Inr (d1, sent)"
    using v by (simp add: vtx_def sizes(2))
  obtain s where h: "handled ?db d1 (int k) s" using vtx_loop_handled [OF v] by blast
  then have q1: "nb_tx_free (d_txq d1) = nb_tx_free (d_txq d)"
      "tx_next_rs (d_txq d1) = tx_next_rs (d_txq d)"
      "length (q_ring (d_txq d1)) = length (q_ring (d_txq d))" "d_open_logs d1 = Suc (d_open_logs d)"
    unfolding handled_def by (cases "d_txq d1"; simp)+
  have "unat (tx_next_rs (d_txq d1)) < length (q_ring (d_txq d1))"
    using q1 next_rs assms(1) by (simp add: room_for_def)
  note fin = burst_finish_ok [OF this, of "tx_tail (d_txq d) + ucast sent" sent]
  have "\<not> nb_tx_free (d_txq d) < tx_free_thresh (d_txq d)" using assms(1) by (simp add: room_for_def not_less)
  then show ?thesis
    using sizes(3,4,5)
    by (simp add: ixgbe_xmit_fixed_burst_vec_def burst_packets_def Let_def burst_wrap_none sizes(1) bl vt fin q1)
qed

text \<open>
  In 16 bits, what \<open>vtx\<close> adds up for \<open>n\<close> packets sent: \<open>n\<close> times the value its variable happens to start with, and
  the numbers from 1 to \<open>n\<close>.
\<close>

lemma take_bit_sum: "k \<le> n \<Longrightarrow> take_bit k (take_bit n a + take_bit n b) = take_bit k (a + b :: int)"
  using take_bit_add [of k "take_bit n a" "take_bit n b"] take_bit_add [of k a b] by (simp add: min_def)

lemma ucast_u16_simps [simp]:
  "(ucast (a + b :: u64) :: u16) = ucast a + ucast b" "(ucast (r + c :: 32 word) :: u16) = ucast r + ucast c"
  "(ucast (scast (r :: 32 word) :: u64) :: u16) = ucast r"
proof -
  show "(ucast (a + b :: u64) :: u16) = ucast a + ucast b" "(ucast (r + c :: 32 word) :: u16) = ucast r + ucast c"
    by (transfer, simp add: take_bit_sum)+
  show "(ucast (scast (r :: 32 word) :: u64) :: u16) = ucast r"
    by (rule bit_word_eqI) (simp add: bit_simps)
qed

lemma overcount_u16: "(ucast (overcount ret (replicate n True)) :: u16) = of_nat n * ucast ret + of_nat (n * (n + 1) div 2)"
proof (induction n arbitrary: ret)
  case (Suc n)
  have "Suc n * (Suc n + 1) = n * (n + 1) + 2 * Suc n" by simp
  then have h: "Suc n * (Suc n + 1) div 2 = n * (n + 1) div 2 + Suc n" by simp
  show ?case unfolding h by (simp add: Suc.IH algebra_simps)
qed simp

lemma ucast_of_nat_u16 [simp]: "(ucast (of_nat n :: u64) :: u16) = of_nat n"
  by (rule bit_word_eqI) (simp add: bit_simps)

lemma burst_enough:
  assumes "room_for (d_txq d) k" and "0 < k" and "k \<le> length ms" and "enough k (d_fs d)"
    and "unat (tx_next_rs (d_txq d)) < unat (nb_tx_desc (d_txq d))"
  shows "\<exists>d'. ixgbe_xmit_fixed_burst_vec ret (map Some ms) (of_nat k) d = Inr (d', of_nat k) \<and>
    d_packets_sent d' = d_packets_sent d + int k \<and> d_skipped d' = d_skipped d \<and>
    total_tokens (d_fs d') = total_tokens (d_fs d) - int k \<and>
    d_mbufs d' = d_mbufs d \<and> d_pools d' = d_pools d \<and> d_open_logs d' = d_open_logs d \<and>
    d_txq d' = (let q = d_txq d; e = of_nat k * ucast ret + of_nat (k * (k + 1) div 2); t = unat (tx_tail q) in
      (mark_rs (tx_tail q + e) (q\<lparr>
         q_sw_ring := splice_at t (map Some (take k ms)) (q_sw_ring q),
         q_ring := splice_at t (map (\<lambda>i. tx_descriptor (d_mbufs d i) DCMD_DTYP_FLAGS) (take k ms)) (q_ring q)\<rparr>))
      \<lparr>nb_tx_free := nb_tx_free q - e, tx_tail := tx_tail q + e, q_tdt := tx_tail q + e\<rparr>)"
proof -
  let ?q = "d_txq d" and ?t = "unat (tx_tail (d_txq d))"
  let ?sw = "splice_at ?t (take k (map Some ms)) (q_sw_ring ?q)"
  let ?db = "d\<lparr>d_open_logs := Suc (d_open_logs d), d_txq := ?q\<lparr>q_sw_ring := ?sw\<rparr>\<rparr>"
  let ?out = "overcount ret (replicate k True)"
  have "enough k (d_fs ?db)" "?t + k \<le> length (q_ring (d_txq ?db))" "0 + k \<le> length ms"
    using assms by (simp_all add: room_for_def)
  from vtx_loop_sends [OF this, of DCMD_DTYP_FLAGS ret 0]
  obtain d1 where hd: "handled ?db d1 (int k) (int k)" and d1: "vtx_loop k ?t (map Some ms) 0 DCMD_DTYP_FLAGS ret 0 ?db = Inr (d1, ?out)"
    "d_mbufs d1 = d_mbufs d" "d_pools d1 = d_pools d"
    "d_txq d1 = ?q\<lparr>q_sw_ring := ?sw,
       q_ring := splice_at ?t (map (\<lambda>i. tx_descriptor (d_mbufs d i) DCMD_DTYP_FLAGS) (take k ms)) (q_ring ?q)\<rparr>"
    by auto
  have "files_ok (d_fs d)" using assms(4) by (fastforce simp: enough_def files_ok_def)
  with hd have h: "d_packets_sent d1 = d_packets_sent d + int k" "d_skipped d1 = d_skipped d"
    "total_tokens (d_fs d1) = total_tokens (d_fs d) - int k"
    by (simp_all add: handled_def)
  have len: "k \<le> length (map Some ms)" using assms(3) by simp
  have "ixgbe_xmit_fixed_burst_vec ret (map Some ms) (of_nat k) d =
    Inr (d1\<lparr>d_open_logs := d_open_logs d,
            d_txq := (mark_rs (tx_tail ?q + ucast ?out) (d_txq d1))
              \<lparr>nb_tx_free := nb_tx_free ?q - ucast ?out,
               tx_tail := tx_tail ?q + ucast ?out, q_tdt := tx_tail ?q + ucast ?out\<rparr>\<rparr>, of_nat k)"
    by (rule burst_within_ring [OF assms(1,2) len assms(5) d1(1)])
  then show ?thesis by (simp only: overcount_u16) (simp add: h d1 Let_def take_map)
qed

section \<open>A dropped packet in a burst\<close>

lemma davidis_vtx1_drops:
  assumes "d_fs d BufferEmulator \<noteq> None" and "queue_of (packet_QoS (d_mbufs d a)) = Some f"
    and "file_level (d_fs d) f = Some n" and "n \<le> 0" and "sole d a" and "mb_next (d_mbufs d a) = None"
  shows "davidis_vtx1 t (Some a) fl d =
    Inr (mempool_put (mb_pool (d_mbufs d a)) a (cut a (d\<lparr>d_skipped := d_skipped d + 1\<rparr>)), 0)"
proof -
  let ?d = "d\<lparr>d_skipped := d_skipped d + 1\<rparr>"
  have tt: "take_token (d_fs d) (packet_QoS (d_mbufs d a)) = Some (d_fs d, False)"
    using take_token_level [OF assms(2,3)] assms(4) by simp
  have "rte_pktmbuf_free (Some a) ?d = Inr (mempool_put (mb_pool (d_mbufs d a)) a (cut a ?d))"
    using free_one_segment [of ?d a] assms(5,6) by (simp add: sole_def)
  moreover have "d\<lparr>d_fs := d_fs d, d_skipped := d_skipped d + 1\<rparr> = ?d" by simp
  ultimately show ?thesis using assms(1) tt by (auto simp: davidis_vtx1_def Let_def)
qed

lemma davidis_vtx1_sends_one:
  assumes "d_fs d BufferEmulator \<noteq> None" and "queue_of (packet_QoS (d_mbufs d b)) = Some f"
    and "file_level (d_fs d) f = Some n" and "0 < n" and "t < length (q_ring (d_txq d))"
  shows "davidis_vtx1 t (Some b) fl d =
    Inr (d\<lparr>d_fs := file_put (d_fs d) f (n - 1), d_sum_QoS := d_sum_QoS d + packet_QoS (d_mbufs d b),
           d_packets_sent := d_packets_sent d + 1,
           d_txq := (d_txq d)\<lparr>q_ring := (q_ring (d_txq d))[t := tx_descriptor (d_mbufs d b) fl]\<rparr>\<rparr>, 1)"
  using assms take_token_level [OF assms(2,3)] by (auto simp: davidis_vtx1_def Let_def)

lemma cut_fields [simp]:
  "mb_refcnt (d_mbufs (cut i d) j) = mb_refcnt (d_mbufs d j)"
  "mb_direct (d_mbufs (cut i d) j) = mb_direct (d_mbufs d j)"
  "packet_QoS (d_mbufs (cut i d) j) = packet_QoS (d_mbufs d j)"
  "tx_descriptor (d_mbufs (cut i d) j) fl = tx_descriptor (d_mbufs d j) fl"
  "d_skipped (cut i d) = d_skipped d" "d_packets_sent (cut i d) = d_packets_sent d"
  "d_sum_QoS (cut i d) = d_sum_QoS d" "d_open_logs (cut i d) = d_open_logs d"
  by (simp_all add: cut_def packet_QoS_def tx_descriptor_def)

lemma mempool_put_fields [simp]:
  "d_mbufs (mempool_put p i d) = d_mbufs d" "d_fs (mempool_put p i d) = d_fs d"
  "d_txq (mempool_put p i d) = d_txq d" "d_skipped (mempool_put p i d) = d_skipped d"
  "d_packets_sent (mempool_put p i d) = d_packets_sent d" "d_sum_QoS (mempool_put p i d) = d_sum_QoS d"
  "d_open_logs (mempool_put p i d) = d_open_logs d"
  "d_pools (mempool_put p i d) = (d_pools d)(p := i # d_pools d p)"
  by (simp_all add: mempool_put_def)

text \<open>Two packets, the first without a token and the second with one.\<close>

lemma burst_drop_send:
  assumes "room_for (d_txq d) 2" and "unat (tx_next_rs (d_txq d)) < unat (nb_tx_desc (d_txq d))"
    and "d_fs d BufferEmulator \<noteq> None"
    and "queue_of (packet_QoS (d_mbufs d a)) = Some f" and "file_level (d_fs d) f = Some m" and "m \<le> 0"
    and "queue_of (packet_QoS (d_mbufs d b)) = Some g" and "file_level (d_fs d) g = Some n" and "0 < n"
    and "sole d a" and "mb_next (d_mbufs d a) = None"
  shows "\<exists>d'. ixgbe_xmit_fixed_burst_vec ret [Some a, Some b] 2 d = Inr (d', 2) \<and>
    d_packets_sent d' = d_packets_sent d + 1 \<and> d_skipped d' = d_skipped d + 1 \<and>
    d_pools d' = (d_pools d)(mb_pool (d_mbufs d a) := a # d_pools d (mb_pool (d_mbufs d a))) \<and>
    d_mbufs d' = d_mbufs (cut a d) \<and>
    d_txq d' = (let q = d_txq d; e = 2 * ucast ret + 1; t = unat (tx_tail q) in
      (mark_rs (tx_tail q + e) (q\<lparr>
         q_sw_ring := splice_at t [Some a, Some b] (q_sw_ring q),
         q_ring := (q_ring q)[t + 1 := tx_descriptor (d_mbufs d b) DCMD_DTYP_FLAGS]\<rparr>))
      \<lparr>nb_tx_free := nb_tx_free q - e, tx_tail := tx_tail q + e, q_tdt := tx_tail q + e\<rparr>)"
proof -
  let ?q = "d_txq d" and ?t = "unat (tx_tail (d_txq d))"
  let ?sw = "splice_at ?t (take 2 [Some a, Some b]) (q_sw_ring ?q)"
  let ?db = "d\<lparr>d_open_logs := Suc (d_open_logs d), d_txq := ?q\<lparr>q_sw_ring := ?sw\<rparr>\<rparr>"
  let ?da = "mempool_put (mb_pool (d_mbufs d a)) a (cut a (?db\<lparr>d_skipped := d_skipped d + 1\<rparr>))"
  let ?d1 = "?da\<lparr>d_fs := file_put (d_fs d) g (n - 1), d_sum_QoS := d_sum_QoS d + packet_QoS (d_mbufs d b),
      d_packets_sent := d_packets_sent d + 1,
      d_txq := ?q\<lparr>q_sw_ring := ?sw, q_ring := (q_ring ?q)[?t + 1 := tx_descriptor (d_mbufs d b) DCMD_DTYP_FLAGS]\<rparr>\<rparr>"
  have "sole ?db a" using assms(10) by (simp add: sole_def)
  then have "davidis_vtx1 ?t (Some a) DCMD_DTYP_FLAGS ?db = Inr (?da, 0)"
    using davidis_vtx1_drops [of ?db a f m ?t DCMD_DTYP_FLAGS] assms by simp
  moreover have "?t + 1 < length (q_ring (d_txq ?da))" using assms(1) by (simp add: room_for_def)
  then have "davidis_vtx1 (?t + 1) (Some b) DCMD_DTYP_FLAGS ?da = Inr (?d1, 1)"
    using davidis_vtx1_sends_one [of ?da b g n "?t + 1" DCMD_DTYP_FLAGS] assms by simp
  ultimately have v: "vtx_loop 2 ?t [Some a, Some b] 0 DCMD_DTYP_FLAGS ret 0 ?db = Inr (?d1, scast ret + scast (ret + 1))"
    by (simp add: numeral_2_eq_2 Let_def)
  have two: "2 * ucast ret + 1 = (ucast (scast ret + scast (ret + 1) :: u64) :: u16)" by simp
  from burst_within_ring [OF assms(1) _ _ assms(2) v]
  have "ixgbe_xmit_fixed_burst_vec ret [Some a, Some b] 2 d =
    Inr (?d1\<lparr>d_open_logs := d_open_logs d,
            d_txq := (mark_rs (tx_tail ?q + (2 * ucast ret + 1)) (d_txq ?d1))
              \<lparr>nb_tx_free := nb_tx_free ?q - (2 * ucast ret + 1), tx_tail := tx_tail ?q + (2 * ucast ret + 1),
               q_tdt := tx_tail ?q + (2 * ucast ret + 1)\<rparr>\<rparr>, 2)"
    unfolding two by simp
  then show ?thesis by (simp add: Let_def cut_def)
qed

section \<open>Buffers released in bulk\<close>

text \<open>
  The reference: each buffer is released on its own. The bulk version has the same buffers,
  and its pools lack the buffers it has collected.
\<close>

definition same_but_pools :: "driver \<Rightarrow> driver \<Rightarrow> bool" where
  "same_but_pools d r \<longleftrightarrow> d = r\<lparr>d_pools := d_pools d\<rparr>"

lemma same_but_poolsD:
  assumes "same_but_pools d r"
  shows "d_mbufs d = d_mbufs r" "d_txq d = d_txq r"
  using assms unfolding same_but_pools_def by (cases d; cases r; simp)+

lemma same_but_pools_puts [simp]:
  "same_but_pools d (mempool_put p m r) = same_but_pools d r"
  "same_but_pools (mempool_put_bulk p ms d) r = same_but_pools d r"
  "same_but_pools (r\<lparr>d_pools := po\<rparr>) r" "same_but_pools r r"
  unfolding same_but_pools_def by (cases d; cases r; simp add: mempool_put_def mempool_put_bulk_def)+

definition bulk_of :: "nat list \<Rightarrow> driver \<Rightarrow> driver \<Rightarrow> bool" where
  "bulk_of free d r \<longleftrightarrow> same_but_pools d r \<and>
     (\<lambda>m. mb_pool (d_mbufs d m)) ` set free \<subseteq> {mb_pool (d_mbufs d (hd free))} \<and>
     (\<forall>p. mset (d_pools r p) = mset (d_pools d p) +
            (if p = mb_pool (d_mbufs d (hd free)) then mset free else {#}))"

lemma prefree_pools:
  assumes "d = r\<lparr>d_pools := po\<rparr>"
  shows "rte_pktmbuf_prefree_seg e d =
    (case rte_pktmbuf_prefree_seg e r of Inl f \<Rightarrow> Inl f | Inr (r', b) \<Rightarrow> Inr (r'\<lparr>d_pools := po\<rparr>, b))"
  unfolding assms by (cases r) (auto simp: rte_pktmbuf_prefree_seg_def Let_def split: option.split)

lemma prefree_keeps:
  "rte_pktmbuf_prefree_seg e d = Inr (d', b) \<Longrightarrow>
   d_pools d' = d_pools d \<and> (\<forall>m. mb_pool (d_mbufs d' m) = mb_pool (d_mbufs d m)) \<and> e \<noteq> None"
  by (auto simp: rte_pktmbuf_prefree_seg_def Let_def split: option.splits if_splits)

lemma bulk_of_prefree:
  assumes "bulk_of free d r" and "rte_pktmbuf_prefree_seg e r = Inr (r1, b)"
  shows "rte_pktmbuf_prefree_seg e d = Inr (r1\<lparr>d_pools := d_pools d\<rparr>, b)"
    and "bulk_of free (r1\<lparr>d_pools := d_pools d\<rparr>) r1"
proof -
  have "d = r\<lparr>d_pools := d_pools d\<rparr>" using assms(1) by (simp add: bulk_of_def same_but_pools_def)
  from prefree_pools [OF this] assms(2)
  show "rte_pktmbuf_prefree_seg e d = Inr (r1\<lparr>d_pools := d_pools d\<rparr>, b)" by simp
  have "d_mbufs d = d_mbufs r" using assms(1) by (simp add: bulk_of_def same_but_poolsD)
  with assms(1) prefree_keeps [OF assms(2)] show "bulk_of free (r1\<lparr>d_pools := d_pools d\<rparr>) r1"
    by (simp add: bulk_of_def)
qed

lemma mempool_put_bulk_fields [simp]:
  "d_mbufs (mempool_put_bulk p is d) = d_mbufs d" "d_txq (mempool_put_bulk p is d) = d_txq d"
  "d_pools (mempool_put_bulk p is d) = (d_pools d)(p := is @ d_pools d p)"
  "(mempool_put_bulk p is d)\<lparr>d_pools := x\<rparr> = d\<lparr>d_pools := x\<rparr>"
  by (simp_all add: mempool_put_bulk_def)

lemma pools_upd_self [simp]: "d\<lparr>d_pools := d_pools d\<rparr> = d"
  by simp

text \<open>The reference puts the last buffer at once; the bulk version collects it, or starts anew with it.\<close>

lemma bulk_of_collect:
  assumes "bulk_of free d r" and "free \<noteq> []" and "mb_pool (d_mbufs d m) = mb_pool (d_mbufs d (hd free))"
  shows "bulk_of (free @ [m]) d (mempool_put (mb_pool (d_mbufs r m)) m r)"
proof -
  have mb: "d_mbufs d = d_mbufs r" using assms(1) by (simp add: bulk_of_def same_but_poolsD)
  with assms show ?thesis by (auto simp: bulk_of_def mb)
qed

lemma bulk_of_flush:
  assumes "bulk_of free d r"
  shows "bulk_of [] (mempool_put_bulk (mb_pool (d_mbufs d (hd free))) free d) r"
  using assms by (auto simp: bulk_of_def add.commute)

lemma free_seg_ref:
  "rte_pktmbuf_free_seg e r = Inr r' \<longleftrightarrow>
   (\<exists>r1 b. rte_pktmbuf_prefree_seg e r = Inr (r1, b) \<and>
      r' = (if b then mempool_put (mb_pool (d_mbufs r1 (the e))) (the e) r1 else r1))"
  by (cases e) (auto simp: rte_pktmbuf_free_seg_def bindR_eq_Inr rte_pktmbuf_prefree_seg_def [of None])

lemma free_bulk_loop_ref:
  assumes "bulk_of free d r" and "free \<noteq> []" and "length free + length es \<le> RTE_IXGBE_TX_MAX_FREE_BUF_SZ"
    and "foldR rte_pktmbuf_free_seg es r = Inr r'"
  shows "\<exists>free' d'. free_bulk_loop es free d = Inr (free', d') \<and> free' \<noteq> [] \<and> bulk_of free' d' r'"
  using assms
proof (induction es arbitrary: free d r)
  case Nil
  then show ?case by simp
next
  case (Cons e es)
  from Cons.prems(4) obtain r1 b where pre: "rte_pktmbuf_prefree_seg e r = Inr (r1, b)"
    and rest: "foldR rte_pktmbuf_free_seg es (if b then mempool_put (mb_pool (d_mbufs r1 (the e))) (the e) r1 else r1) = Inr r'"
    by (auto simp: bindR_eq_Inr free_seg_ref)
  let ?d1 = "r1\<lparr>d_pools := d_pools d\<rparr>" and ?m = "the e"
  note pd = bulk_of_prefree [OF Cons.prems(1) pre]
  consider "\<not> b" | "b" "mb_pool (d_mbufs ?d1 ?m) = mb_pool (d_mbufs ?d1 (hd free))"
    | "b" "mb_pool (d_mbufs ?d1 ?m) \<noteq> mb_pool (d_mbufs ?d1 (hd free))" by blast
  then show ?case
  proof cases
    case 1
    with rest Cons.IH [OF pd(2) Cons.prems(2), of] Cons.prems(3) pd(1) show ?thesis by simp
  next
    case 2
    have b: "bulk_of (free @ [?m]) ?d1 (mempool_put (mb_pool (d_mbufs r1 ?m)) ?m r1)"
      by (rule bulk_of_collect [OF pd(2) Cons.prems(2) 2(2)])
    have "length (free @ [?m]) + length es \<le> RTE_IXGBE_TX_MAX_FREE_BUF_SZ" using Cons.prems(3) by simp
    with rest 2 Cons.IH [OF b _ this] pd(1) Cons.prems(3) show ?thesis by (auto simp: Let_def)
  next
    case 3
    let ?p = "mb_pool (d_mbufs ?d1 (hd free))"
    let ?r = "mempool_put (mb_pool (d_mbufs r1 ?m)) ?m r1"
    have "bulk_of [] (mempool_put_bulk ?p free ?d1) r1" by (rule bulk_of_flush [OF pd(2)])
    then have b: "bulk_of [?m] (mempool_put_bulk ?p free ?d1) ?r"
      using same_but_poolsD(1) by (auto simp: bulk_of_def)
    have "length [?m] + length es \<le> RTE_IXGBE_TX_MAX_FREE_BUF_SZ" using Cons.prems(2,3) by (cases free) simp_all
    with rest 3 Cons.IH [OF b _ this] pd(1) show ?thesis by (auto simp: Let_def)
  qed
qed

lemma free_each_loop_ref: "free_each_loop es d = foldR rte_pktmbuf_free_seg es d"
proof (induction es arbitrary: d)
  case (Cons e es)
  show ?case
    by (cases e) (auto simp: Cons.IH rte_pktmbuf_free_seg_def bindR_def rte_pktmbuf_prefree_seg_def [of None] split: sum.split)
qed simp

text \<open>The threshold's descriptor is in the ring, and its packets are in the software ring.\<close>

definition threshold_ok :: "tx_queue \<Rightarrow> bool" where
  "threshold_ok q \<longleftrightarrow> 0 < unat (tx_rs_thresh q) \<and> unat (tx_rs_thresh q) \<le> RTE_IXGBE_TX_MAX_FREE_BUF_SZ \<and>
     unat (tx_rs_thresh q) \<le> unat (tx_next_dd q) + 1 \<and> unat (tx_next_dd q) < length (q_ring q) \<and>
     length (q_sw_ring q) = length (q_ring q)"

definition descriptor_done :: "tx_queue \<Rightarrow> bool" where
  "descriptor_done q \<longleftrightarrow>
     (ucast (drop_bit 32 (td_hi (q_ring q ! unat (tx_next_dd q)))) :: u32) AND IXGBE_ADVTXD_STAT_DD \<noteq> 0"

definition threshold_passed :: "tx_queue \<Rightarrow> tx_queue" where
  "threshold_passed q = q\<lparr>nb_tx_free := nb_tx_free q + tx_rs_thresh q,
     tx_next_dd := (if nb_tx_desc q \<le> tx_next_dd q + tx_rs_thresh q then tx_rs_thresh q - 1
                    else tx_next_dd q + tx_rs_thresh q)\<rparr>"

lemma foldR_free_seg_only_buffers: "foldR rte_pktmbuf_free_seg es d = Inr d' \<Longrightarrow> only_buffers d d'"
  by (rule foldR_invariant [where P = "only_buffers d"]) (auto dest: free_seg_only_buffers intro: only_buffers_trans)

lemma tx_free_bufs_ref:
  assumes "threshold_ok (d_txq d)" and "descriptor_done (d_txq d)"
    and "foldR rte_pktmbuf_free_seg (done_bufs (d_txq d)) d = Inr r"
  shows "\<exists>d'. ixgbe_tx_free_bufs d = Inr (d', tx_rs_thresh (d_txq d)) \<and>
    d_mbufs d' = d_mbufs r \<and> (\<forall>p. mset (d_pools d' p) = mset (d_pools r p)) \<and>
    d_txq d' = threshold_passed (d_txq d) \<and> only_buffers (d\<lparr>d_txq := threshold_passed (d_txq d)\<rparr>) d'"
proof -
  let ?q = "d_txq d" and ?es = "done_bufs (d_txq d)"
  have len: "length ?es = unat (tx_rs_thresh ?q)"
    using assms(1) unfolding threshold_ok_def done_bufs_def length_take length_drop by linarith
  then obtain e es where es: "?es = e # es" using assms(1) by (cases ?es) (auto simp: threshold_ok_def)
  from assms(3) es obtain r1 b where pre: "rte_pktmbuf_prefree_seg e d = Inr (r1, b)"
    and rest: "foldR rte_pktmbuf_free_seg es (if b then mempool_put (mb_pool (d_mbufs r1 (the e))) (the e) r1 else r1) = Inr r"
    by (auto simp: bindR_eq_Inr free_seg_ref)
  let ?m = "the e"
  let ?body = "if b then bindR (free_bulk_loop es [?m] r1) (\<lambda>(free, d).
      Inr (mempool_put_bulk (mb_pool (d_mbufs d (hd free))) free d)) else free_each_loop es r1"
  have "\<exists>d1. ?body = Inr d1 \<and> bulk_of [] d1 r"
  proof (cases b)
    case True
    have "bulk_of [?m] r1 (mempool_put (mb_pool (d_mbufs r1 ?m)) ?m r1)"
      by (auto simp: bulk_of_def same_but_pools_def)
    moreover have "length [?m] + length es \<le> RTE_IXGBE_TX_MAX_FREE_BUF_SZ"
      using len es assms(1) by (simp add: threshold_ok_def)
    ultimately obtain free' d' where "free_bulk_loop es [?m] r1 = Inr (free', d')" "bulk_of free' d' r"
      using free_bulk_loop_ref [of "[?m]"] rest True by fastforce
    with True bulk_of_flush show ?thesis by auto
  next
    case False
    then show ?thesis using rest by (simp add: free_each_loop_ref bulk_of_def)
  qed
  then obtain d1 where d1: "?body = Inr d1" "bulk_of [] d1 r" by blast
  have ob: "only_buffers d r" by (rule foldR_free_seg_only_buffers [OF assms(3)])
  have same: "same_but_pools d1 r" using d1(2) by (simp add: bulk_of_def)
  have mb: "d_mbufs d1 = d_mbufs r" and tq: "d_txq d1 = ?q"
    using same_but_poolsD [OF same] only_buffersD(2) [OF ob] by simp_all
  have "ixgbe_tx_free_bufs d = Inr (d1\<lparr>d_txq := threshold_passed ?q\<rparr>, tx_rs_thresh ?q)"
  proof -
    have "unat (tx_next_dd ?q) < length (q_ring ?q)" "\<not> unat (tx_next_dd ?q) + 1 < unat (tx_rs_thresh ?q)"
      "unat (tx_rs_thresh ?q) \<noteq> 0"
      using assms(1) by (auto simp: threshold_ok_def)
    moreover have "\<not> length (e # es) < unat (tx_rs_thresh ?q)" using len es by simp
    ultimately show ?thesis
      using assms(2) d1(1) pre es tq unfolding ixgbe_tx_free_bufs_def descriptor_done_def
      by (cases b) (simp_all add: Let_def threshold_passed_def)
  qed
  moreover have "only_buffers (d\<lparr>d_txq := threshold_passed ?q\<rparr>) (d1\<lparr>d_txq := threshold_passed ?q\<rparr>)"
    using ob same unfolding only_buffers_def same_but_pools_def by (cases d; cases r; cases d1; simp)
  ultimately show ?thesis using d1(2) mb by (auto simp: bulk_of_def)
qed

section \<open>Every burst\<close>

text \<open>Between two states tokens and packets sent balance, if the files can be read in the first.\<close>

definition balanced :: "driver \<Rightarrow> driver \<Rightarrow> bool" where
  "balanced d d' \<longleftrightarrow> (files_ok (d_fs d) \<longrightarrow> files_ok (d_fs d') \<and>
     total_tokens (d_fs d') + d_packets_sent d' = total_tokens (d_fs d) + d_packets_sent d)"

lemma balanced_trans [trans]: "balanced d d' \<Longrightarrow> balanced d' d'' \<Longrightarrow> balanced d d''"
  by (simp add: balanced_def)

lemma handled_balanced: "handled d d' n s \<Longrightarrow> balanced d d' \<and> d_open_logs d' = d_open_logs d"
  by (simp add: handled_def balanced_def)

lemma balanced_txq [simp]:
  "balanced d (d\<lparr>d_txq := q\<rparr>)" "balanced d (d\<lparr>d_open_logs := n\<rparr>)" "balanced d d"
  by (simp_all add: balanced_def)

lemma free_bulk_loop_only_buffers: "free_bulk_loop es free d = Inr (f, d') \<Longrightarrow> only_buffers d d'"
proof (induction es free d rule: free_bulk_loop.induct)
  case (2 e es free d)
  then obtain d1 b where d1: "rte_pktmbuf_prefree_seg e d = Inr (d1, b)" by (auto simp: bindR_eq_Inr)
  have flush: "only_buffers (mempool_put_bulk p free d1) d' \<Longrightarrow> only_buffers d1 d'" for p
    by (rule only_buffers_trans [OF only_buffers_put(3)])
  have "only_buffers d1 d'"
  proof (cases "b \<and> mb_pool (d_mbufs d1 (the e)) \<noteq> mb_pool (d_mbufs d1 (hd free))")
    case True
    then show ?thesis by (intro flush [of "mb_pool (d_mbufs d1 (hd free))"]) (use 2 d1 in \<open>auto simp: Let_def\<close>)
  next
    case False
    then show ?thesis using 2 d1 by (auto simp: Let_def split: if_splits)
  qed
  with prefree_seg_only_buffers [OF d1] show ?case by (rule only_buffers_trans)
qed simp

lemma tx_free_bufs_frame:
  assumes "ixgbe_tx_free_bufs d = Inr (d', n)"
  shows "d_fs d' = d_fs d \<and> d_packets_sent d' = d_packets_sent d \<and> d_skipped d' = d_skipped d \<and> d_open_logs d' = d_open_logs d"
proof -
  have put: "only_buffers d d1 \<Longrightarrow> only_buffers d (mempool_put_bulk p ms d1)" for d1 p ms
    by (rule only_buffers_trans [OF _ only_buffers_put(3)])
  have "d' = d \<or> (\<exists>d1 q. only_buffers d d1 \<and> d' = d1\<lparr>d_txq := q\<rparr>)"
    using assms
    by (auto simp: ixgbe_tx_free_bufs_def Let_def bindR_eq_Inr free_each_loop_ref split: option.splits if_splits
        dest!: free_bulk_loop_only_buffers foldR_free_seg_only_buffers prefree_seg_only_buffers
        intro!: put exI intro: only_buffers_trans)
  then show ?thesis by (auto simp: only_buffersD)
qed

lemma tx_backlog_entry_handled:
  assumes "tx_backlog_entry t ps k n d = Inr d'"
  shows "handled d d' 0 0" and "0 < unat n \<Longrightarrow> k + unat n \<le> length ps"
proof -
  have len: "tx_backlog_loop m t ps k sw = Inr sw' \<Longrightarrow> length sw' = length sw \<and> (0 < m \<longrightarrow> k + m \<le> length ps)"
    for m t k and sw sw' :: "nat option list"
  proof (induction m arbitrary: t k sw)
    case (Suc m)
    then show ?case by (fastforce simp: aget_Some_iff aset_Some_iff split: option.splits)
  qed simp
  from assms show "handled d d' 0 0" "0 < unat n \<Longrightarrow> k + unat n \<le> length ps"
    using len by (auto simp: tx_backlog_entry_def bindR_eq_Inr handled_def)
qed

lemma burst_finish_balanced: "burst_finish t n d = Inr d' \<Longrightarrow> balanced d d' \<and> d_open_logs d' = d_open_logs d"
  by (auto simp: burst_finish_def Let_def bindR_eq_Inr)

text \<open>The part up to the end of the ring: \<open>n\<close> packets, of which \<open>s\<close> are sent.\<close>

lemma burst_wrap_full:
  assumes "burst_wrap ps nb d = Inr (d', t, k, nb', sent)" and "nb_tx_desc (d_txq d) - tx_tail (d_txq d) \<le> nb"
    and "tx_tail (d_txq d) < nb_tx_desc (d_txq d)"
  obtains s d1 where "handled d d1 (int (unat (nb_tx_desc (d_txq d) - tx_tail (d_txq d)))) (int s)"
    and "d' = d1\<lparr>d_txq := (d_txq d1)\<lparr>tx_next_rs := tx_rs_thresh (d_txq d1) - 1\<rparr>\<rparr>"
    and "s \<le> unat (nb_tx_desc (d_txq d) - tx_tail (d_txq d))"
    and "k = unat (nb_tx_desc (d_txq d) - tx_tail (d_txq d))" and "t = 0" and "sent = of_nat s" and "nb' = nb - of_nat s"
proof -
  let ?n = "nb_tx_desc (d_txq d) - tx_tail (d_txq d)"
  have n: "0 < unat ?n" using assms(3) by (simp add: unat_gt_0)
  from assms obtain d0 da db out r p where
    d0: "tx_backlog_entry (unat (tx_tail (d_txq d))) ps 0 ?n d = Inr d0"
    and da: "burst_loop (unat ?n - 1) (unat (tx_tail (d_txq d))) ps 0 DCMD_DTYP_FLAGS 0 d0 = Inr (da, out)"
    and db: "davidis_vtx1 (unat (tx_tail (d_txq d)) + (unat ?n - 1)) p (IXGBE_ADVTXD_DCMD_RS OR DCMD_DTYP_FLAGS) da = Inr (db, r)"
    and res: "d' = db\<lparr>d_txq := (d_txq db)\<lparr>tx_next_rs := tx_rs_thresh (d_txq db) - 1\<rparr>\<rparr>" "t = 0"
      "k = unat ?n - 1 + 1" "nb' = nb - ucast (out + r)" "sent = out + r"
    by (auto simp: burst_wrap_def Let_def bindR_eq_Inr split: option.splits if_splits)
  obtain s where s: "handled d0 da (int (unat ?n - 1)) (int s)" "s \<le> unat ?n - 1" "out = of_nat s"
    using burst_loop_handled [OF da] by auto
  note one = davidis_vtx1_handled [OF db]
  have "handled d db (int (unat ?n)) (int (s + of_bool (r = 1)))"
    using handled_trans [OF handled_trans [OF tx_backlog_entry_handled(1) [OF d0] s(1)] conjunct2 [OF one]] n
    by (simp add: of_nat_diff)
  moreover have r: "r = of_nat (of_bool (r = 1))" using one by auto
  then have "sent = of_nat (s + of_bool (r = 1))" using res(5) s(3) by simp
  moreover from this have "nb' = nb - of_nat (s + of_bool (r = 1))" using res(4,5) by (metis ucast_of_nat_u16)
  moreover have "s + of_bool (r = 1) \<le> unat ?n" using s(2) n by auto
  ultimately show thesis using res n by (intro that) auto
qed

lemma burst_wrap_balanced:
  assumes "burst_wrap ps nb d = Inr (d', t, k, nb', sent)"
  shows "balanced d d' \<and> d_open_logs d' = d_open_logs d"
proof -
  let ?n = "nb_tx_desc (d_txq d) - tx_tail (d_txq d)"
  have "d' = d \<or> (\<exists>d0 da t1 out t2 p fl db r q. tx_backlog_entry (unat (tx_tail (d_txq d))) ps 0 ?n d = Inr d0 \<and>
      burst_loop (unat ?n - 1) t1 ps 0 DCMD_DTYP_FLAGS 0 d0 = Inr (da, out) \<and>
      davidis_vtx1 t2 p fl da = Inr (db, r) \<and> d' = db\<lparr>d_txq := q\<rparr>)"
    using assms by (fastforce simp: burst_wrap_def Let_def bindR_eq_Inr split: option.splits if_splits)
  then show ?thesis
  proof (elim disjE exE conjE)
    fix d0 da t1 out t2 p fl db r q
    assume d0: "tx_backlog_entry (unat (tx_tail (d_txq d))) ps 0 ?n d = Inr d0"
      and da: "burst_loop (unat ?n - 1) t1 ps 0 DCMD_DTYP_FLAGS 0 d0 = Inr (da, out)"
      and db: "davidis_vtx1 t2 p fl da = Inr (db, r)" and d': "d' = db\<lparr>d_txq := q\<rparr>"
    obtain s where "handled d0 da (int (unat ?n - 1)) (int s)" using burst_loop_handled [OF da] by blast
    from handled_balanced [OF this] handled_balanced [OF tx_backlog_entry_handled(1) [OF d0]]
      handled_balanced [OF conjunct2 [OF davidis_vtx1_handled [OF db]]]
    show ?thesis by (auto simp: d' balanced_def)
  qed simp
qed

lemma burst_packets_balanced:
  assumes "burst_packets ret ps nb d = Inr d'"
  shows "balanced d d' \<and> d_open_logs d' = d_open_logs d"
proof -
  from assms obtain d2 t k nb' s d3 d4 s4 where
      d2: "burst_wrap ps nb d = Inr (d2, t, k, nb', s)"
      and d3: "tx_backlog_entry (unat t) ps k nb' d2 = Inr d3"
      and d4: "vtx (unat t) ps k nb' DCMD_DTYP_FLAGS ret d3 = Inr (d4, s4)"
      and d5: "burst_finish (t + ucast (s + s4)) (s + s4) d4 = Inr d'"
    by (auto simp: burst_packets_def Let_def bindR_eq_Inr)
  obtain bs where "handled d3 d4 (int (unat nb')) (int (count_list bs True))"
    using vtx_loop_handled d4 unfolding vtx_def by blast
  from handled_balanced [OF this] handled_balanced [OF tx_backlog_entry_handled(1) [OF d3]]
    burst_wrap_balanced [OF d2] burst_finish_balanced [OF d5]
  show ?thesis by (auto simp: balanced_def)
qed

lemma burst_balanced:
  assumes "ixgbe_xmit_fixed_burst_vec ret ps n d = Inr (d', r)"
  shows "balanced d d' \<and> d_open_logs d' = d_open_logs d + of_bool (r = 0)"
proof -
  let ?d0 = "d\<lparr>d_open_logs := Suc (d_open_logs d)\<rparr>"
  from assms obtain d1 m where
    d1: "(if nb_tx_free (d_txq d) < tx_free_thresh (d_txq d) then ixgbe_tx_free_bufs ?d0 else Inr (?d0, 0)) = Inr (d1, m)"
    and rest: "(let nb_pkts = min (nb_tx_free (d_txq d1)) (min n (tx_rs_thresh (d_txq d))) in
        if nb_pkts = 0 then Inr (d1, 0)
        else bindR (burst_packets ret ps nb_pkts d1) (\<lambda>d. Inr (d\<lparr>d_open_logs := d_open_logs d - 1\<rparr>, nb_pkts))) = Inr (d', r)"
    by (cases "nb_tx_free (d_txq d) < tx_free_thresh (d_txq d)")
      (auto simp: ixgbe_xmit_fixed_burst_vec_def Let_def bindR_eq_Inr split: if_splits)
  have b1: "balanced d d1 \<and> d_open_logs d1 = Suc (d_open_logs d)"
    using d1 tx_free_bufs_frame [of ?d0 d1 m] by (auto simp: balanced_def split: if_splits)
  with rest show ?thesis
    by (auto simp: Let_def bindR_eq_Inr balanced_def dest!: burst_packets_balanced split: if_splits)
qed

lemma burst_at_ring_end:
  assumes "burst_packets ret ps nb d = Inr d'" and "length ps = unat nb"
    and "nb_tx_desc (d_txq d) - tx_tail (d_txq d) \<le> nb" and "tx_tail (d_txq d) < nb_tx_desc (d_txq d)"
  shows "d_skipped d' - d_skipped d \<le> int (unat nb) - int (unat (nb_tx_desc (d_txq d) - tx_tail (d_txq d)))"
proof -
  let ?n = "unat (nb_tx_desc (d_txq d) - tx_tail (d_txq d))"
  from assms(1) obtain d2 t k nb' sent d3 d4 s4 where
      d2: "burst_wrap ps nb d = Inr (d2, t, k, nb', sent)"
      and d3: "tx_backlog_entry (unat t) ps k nb' d2 = Inr d3"
      and d4: "vtx (unat t) ps k nb' DCMD_DTYP_FLAGS ret d3 = Inr (d4, s4)"
      and d5: "burst_finish (t + ucast (sent + s4)) (sent + s4) d4 = Inr d'"
    by (auto simp: burst_packets_def Let_def bindR_eq_Inr)
  obtain s d1 where s: "handled d d1 (int ?n) (int s)" "d_skipped d2 = d_skipped d1"
      "s \<le> ?n" "k = ?n" "nb' = nb - of_nat s"
    by (rule burst_wrap_full [OF d2 assms(3,4)]) simp
  have n: "?n \<le> unat nb" using assms(3) by (simp add: word_le_nat_alt)
  have "unat nb' = unat nb - s"
  proof -
    have "s < 65536" using s(3) dst16_less [of "nb_tx_desc (d_txq d) - tx_tail (d_txq d)"] by linarith
    then have "unat (of_nat s :: u16) = s" by (simp add: unat_of_nat)
    with s(3,5) n show ?thesis by (simp add: unat_sub word_le_nat_alt)
  qed
  with tx_backlog_entry_handled(2) [OF d3] assms(2) s(3,4) n have sn: "s = ?n" by fastforce
  obtain bs where "handled d3 d4 (int (unat nb')) (int (count_list bs True))"
    using vtx_loop_handled d4 unfolding vtx_def by blast
  moreover have "d_skipped d' = d_skipped d4" using d5 by (auto simp: burst_finish_def Let_def bindR_eq_Inr)
  moreover have "d_skipped d3 = d_skipped d2" using tx_backlog_entry_handled(1) [OF d3] by (simp add: handled_def)
  ultimately show ?thesis
    using s(1,2) sn n \<open>unat nb' = unat nb - s\<close> by (simp add: handled_def of_nat_diff)
qed

section \<open>The walk over the buffers in use\<close>

text \<open>The number of steps from index \<open>i\<close> to \<open>j\<close> of a ring of \<open>n\<close> entries, and the entries passed.\<close>

definition ring_distance :: "nat \<Rightarrow> nat \<Rightarrow> nat \<Rightarrow> nat" where
  "ring_distance n i j = (if i \<le> j then j - i else n - i + j)"

definition ring_walk :: "nat \<Rightarrow> nat \<Rightarrow> nat \<Rightarrow> nat list" where
  "ring_walk n i j = map (\<lambda>m. (i + m) mod n) [0..<ring_distance n i j]"


lemma length_ring_walk [simp]: "length (ring_walk n i j) = ring_distance n i j"
  by (simp add: ring_walk_def)





lemma splice_at_one: "t < length ys \<Longrightarrow> splice_at t [x] ys = ys[t := x]"
  by (simp add: splice_at_def upd_conv_take_nth_drop)

lemma mark_rs_fields [simp]:
  "q_sw_ring (mark_rs t q) = q_sw_ring q" "length (q_ring (mark_rs t q)) = length (q_ring q)"
  "td_lo (q_ring (mark_rs t q) ! i) = td_lo (q_ring q ! i)"
  by (cases "unat (tx_next_rs q) < length (q_ring q)";
      simp add: mark_rs_def nth_list_update not_less list_update_beyond)+

lemma mark_rs_other: "i \<noteq> unat (tx_next_rs q) \<Longrightarrow> q_ring (mark_rs t q) ! i = q_ring q ! i"
  by (simp add: mark_rs_def)

section \<open>Properties\<close>

text \<open>
  A burst of one packet whose queue has a token, with room in the ring and with \<open>ret\<close> starting at
  zero, does what the function means to do: the descriptor at the tail is the packet's (its
  report-status bit apart, which is set when the tail passes the threshold), the software ring
  holds the packet there, tail and register move by one, one descriptor less is free, one token
  is spent, and no buffer is released.
\<close>

theorem burst_sends_one_packet:
  assumes "room_for (d_txq d) 1" and "enough 1 (d_fs d)"
    and "unat (tx_next_rs (d_txq d)) < unat (nb_tx_desc (d_txq d))"
  shows "\<exists>d'. ixgbe_xmit_fixed_burst_vec 0 [Some m] 1 d = Inr (d', 1) \<and>
    d_packets_sent d' = d_packets_sent d + 1 \<and> d_skipped d' = d_skipped d \<and>
    total_tokens (d_fs d') = total_tokens (d_fs d) - 1 \<and> d_pools d' = d_pools d \<and>
    (let q = d_txq d; q' = d_txq d'; t = unat (tx_tail q) in
       td_lo (q_ring q' ! t) = mb_buf_iova (d_mbufs d m) + ucast (mb_data_off (d_mbufs d m)) \<and>
       (t \<noteq> unat (tx_next_rs q) \<longrightarrow> q_ring q' ! t = tx_descriptor (d_mbufs d m) DCMD_DTYP_FLAGS) \<and>
       q_sw_ring q' ! t = Some m \<and> tx_tail q' = tx_tail q + 1 \<and> q_tdt q' = tx_tail q' \<and>
       nb_tx_free q' = nb_tx_free q - 1)"
proof -
  have t: "unat (tx_tail (d_txq d)) < length (q_ring (d_txq d))"
    "unat (tx_tail (d_txq d)) < length (q_sw_ring (d_txq d))"
    using assms(1) by (simp_all add: room_for_def)
  have "(1 :: nat) * (1 + 1) div 2 = 1" by simp
  with burst_enough [of d 1 "[m]" 0] assms t show ?thesis
    by (auto simp: Let_def splice_at_one mark_rs_other tx_descriptor_def)
qed

text \<open>A queue of 64 descriptors after reset, with full token files, for the witnesses.\<close>

definition ex_mbuf :: "nat \<Rightarrow> mbuf" where
  "ex_mbuf i = \<lparr>mb_buf_iova = 0x1000 * of_nat i, mb_data_off = 128, mb_data_len = 60, mb_pkt_len = 60,
     mb_refcnt = 1, mb_next = None, mb_nb_segs = 1, mb_pool = 0, mb_direct = True,
     mb_payload = (\<lambda>_. if i = 7 then 90 else 10)\<rparr>"

definition ex_txq :: tx_queue where
  "ex_txq = \<lparr>q_ring = replicate 64 (zeroed_desc\<lparr>td_hi := 0x100000000\<rparr>), q_sw_ring = replicate 64 None,
     q_tdt = 0, nb_tx_desc = 64, tx_tail = 0, tx_free_thresh = 32, tx_rs_thresh = 32,
     nb_tx_used = 0, last_desc_cleaned = 63, nb_tx_free = 63, tx_next_dd = 31, tx_next_rs = 31, ctx_curr = 0\<rparr>"

definition ex_driver :: "int \<Rightarrow> driver" where
  "ex_driver high = \<lparr>d_fs = (\<lambda>f. Some (fprintf_d (if f = Bigger_80 then high else 33))), d_mbufs = ex_mbuf,
     d_pools = (\<lambda>_. []), d_txq = ex_txq, d_skipped = 0, d_sum_QoS = 0, d_packets_sent = 0, d_open_logs = 0\<rparr>"

lemma ex_driver_room: "k \<le> 32 \<Longrightarrow> room_for (d_txq (ex_driver n)) k"
  by (simp add: room_for_def ex_driver_def ex_txq_def)

lemma ex_driver_enough: "k \<le> 33 \<Longrightarrow> enough k (d_fs (ex_driver 33))"
  by (auto simp: enough_def ex_driver_def file_level_def fscanf_fprintf)

theorem burst_sends_one_packet_witness:
  "\<exists>d'. ixgbe_xmit_fixed_burst_vec 0 [Some 7] 1 (ex_driver 33) = Inr (d', 1) \<and> tx_tail (d_txq d') = 1 \<and>
     q_sw_ring (d_txq d') ! 0 = Some 7 \<and> td_lo (q_ring (d_txq d') ! 0) = 0x7080"
proof -
  have "unat (tx_next_rs (d_txq (ex_driver 33))) < unat (nb_tx_desc (d_txq (ex_driver 33)))"
    by (simp add: ex_driver_def ex_txq_def)
  from burst_sends_one_packet [OF ex_driver_room ex_driver_enough this, of 7]
  show ?thesis by (auto simp: Let_def ex_driver_def ex_txq_def ex_mbuf_def)
qed




definition ex_txq2 :: tx_queue where
  "ex_txq2 = ex_txq\<lparr>tx_rs_thresh := 2, tx_next_dd := 1, tx_next_rs := 1\<rparr>"

definition ex_driver2 :: driver where
  "ex_driver2 = (ex_driver 0)\<lparr>d_txq := ex_txq2\<rparr>"

lemmas ex_driver2_defs = ex_driver2_def ex_driver_def ex_txq2_def ex_txq_def ex_mbuf_def

lemma ex_driver2_facts:
  "room_for (d_txq ex_driver2) 2" "unat (tx_next_rs (d_txq ex_driver2)) < unat (nb_tx_desc (d_txq ex_driver2))"
  "d_fs ex_driver2 BufferEmulator \<noteq> None"
  "queue_of (packet_QoS (d_mbufs ex_driver2 7)) = Some Bigger_80" "file_level (d_fs ex_driver2) Bigger_80 = Some 0"
  "queue_of (packet_QoS (d_mbufs ex_driver2 1)) = Some RRLower20" "file_level (d_fs ex_driver2) RRLower20 = Some 33"
  "sole ex_driver2 7" "mb_next (d_mbufs ex_driver2 7) = None"
  by (simp_all add: ex_driver2_defs room_for_def packet_QoS_def queue_of_def file_level_def fscanf_fprintf sole_def)


text \<open>A buffer with one reference that is in the list goes to its pool, however often it was put there.\<close>

lemma foldR_free_seg_puts:
  assumes "foldR rte_pktmbuf_free_seg es d = Inr r" and "sole d a"
  shows "sole r a \<and> mb_pool (d_mbufs r a) = mb_pool (d_mbufs d a) \<and>
    count (mset (d_pools d (mb_pool (d_mbufs d a)))) a + (if Some a \<in> set es then 1 else 0)
      \<le> count (mset (d_pools r (mb_pool (d_mbufs d a)))) a"
  using assms
proof (induction es arbitrary: d)
  case Nil
  then show ?case by simp
next
  case (Cons e es)
  then obtain d1 where d1: "rte_pktmbuf_free_seg e d = Inr d1" "foldR rte_pktmbuf_free_seg es d1 = Inr r"
    by (auto simp: bindR_eq_Inr)
  have "sole d1 a \<and> mb_pool (d_mbufs d1 a) = mb_pool (d_mbufs d a) \<and>
      count (mset (d_pools d (mb_pool (d_mbufs d a)))) a + (if e = Some a then 1 else 0)
        \<le> count (mset (d_pools d1 (mb_pool (d_mbufs d a)))) a"
    using d1(1) Cons.prems(2)
    by (cases "e = Some a")
      (auto simp: free_seg_ref prefree_sole, auto simp: rte_pktmbuf_prefree_seg_def sole_def Let_def split: option.splits if_splits)
  with Cons.IH [OF d1(2)] show ?case by (auto split: if_splits)
qed

text \<open>
  C30: after such a burst, whatever the start value of \<open>ret\<close>, the dropped buffer is released a second time. Whatever the device
  writes back to the ring, once the threshold descriptor that covers the old tail is done and the
  releases of the threshold's buffers succeed, the pool holds the dropped buffer
  at least twice, so two owners can be given it.
\<close>

theorem dropped_buffer_is_freed_twice:
  assumes "room_for (d_txq d) 2" and "unat (tx_next_rs (d_txq d)) < unat (nb_tx_desc (d_txq d))"
    and "d_fs d BufferEmulator \<noteq> None"
    and "queue_of (packet_QoS (d_mbufs d a)) = Some f" and "file_level (d_fs d) f = Some m" and "m \<le> 0"
    and "queue_of (packet_QoS (d_mbufs d b)) = Some g" and "file_level (d_fs d) g = Some n" and "0 < n"
    and "sole d a" and "mb_next (d_mbufs d a) = None"
    and "ixgbe_xmit_fixed_burst_vec ret [Some a, Some b] 2 d = Inr (d1, r1)"
    and "d2 = d1\<lparr>d_txq := (d_txq d1)\<lparr>q_ring := ring\<rparr>\<rparr>"
    and "threshold_ok (d_txq d2)" and "descriptor_done (d_txq d2)"
    and "foldR rte_pktmbuf_free_seg (done_bufs (d_txq d2)) d2 = Inr r"
    and "unat (tx_next_dd (d_txq d)) + 1 - unat (tx_rs_thresh (d_txq d)) \<le> unat (tx_tail (d_txq d))"
    and "unat (tx_tail (d_txq d)) \<le> unat (tx_next_dd (d_txq d))"
  shows "\<exists>d3. ixgbe_tx_free_bufs d2 = Inr (d3, tx_rs_thresh (d_txq d)) \<and>
    2 \<le> count (mset (d_pools d3 (mb_pool (d_mbufs d a)))) a"
proof -
  let ?q = "d_txq d" and ?t = "unat (tx_tail (d_txq d))" and ?p = "mb_pool (d_mbufs d a)"
  have d1: "d_pools d1 ?p = a # d_pools d ?p" "d_mbufs d1 = d_mbufs (cut a d)"
    "q_sw_ring (d_txq d1) = splice_at ?t [Some a, Some b] (q_sw_ring ?q)"
    "tx_next_dd (d_txq d1) = tx_next_dd ?q" "tx_rs_thresh (d_txq d1) = tx_rs_thresh ?q"
    using burst_drop_send [OF assms(1-11), of ret] assms(12) by (auto simp: Let_def mark_rs_def)
  let ?s = "unat (tx_next_dd ?q) + 1 - unat (tx_rs_thresh ?q)"
  have len: "?t + 2 \<le> length (q_sw_ring ?q)" using assms(1) by (simp add: room_for_def)
  have "q_sw_ring (d_txq d2) ! ?t = Some a"
    using nth_splice_at_inside [of 0 "[Some a, Some b]" ?t "q_sw_ring ?q"] len d1(3) assms(13) by simp
  moreover have "?t - ?s < unat (tx_rs_thresh ?q)" "?s + (?t - ?s) = ?t"
    using assms(14,17,18) d1(4,5) assms(13) by (auto simp: threshold_ok_def)
  moreover have "?t < length (q_sw_ring (d_txq d2))" using len d1(3) assms(13) by simp
  ultimately have "done_bufs (d_txq d2) ! (?t - ?s) = Some a \<and> ?t - ?s < length (done_bufs (d_txq d2))"
    using d1(4,5) assms(13) by (simp add: done_bufs_def)
  then have "Some a \<in> set (done_bufs (d_txq d2))" by (metis nth_mem)
  moreover have "sole d2 a" "mb_pool (d_mbufs d2 a) = ?p" "d_pools d2 ?p = a # d_pools d ?p"
    using assms(10,13) d1(1,2) by (simp_all add: sole_def cut_def)
  ultimately have "2 \<le> count (mset (d_pools r ?p)) a"
    using foldR_free_seg_puts [OF assms(16), of a] by simp
  with tx_free_bufs_ref [OF assms(14,15,16)] show ?thesis
    using d1(5) assms(13) by auto
qed

theorem dropped_buffer_is_freed_twice_witness:
  "\<exists>d1 d3. ixgbe_xmit_fixed_burst_vec 0 [Some 7, Some 1] 2 ex_driver2 = Inr (d1, 2) \<and>
     ixgbe_tx_free_bufs (d1\<lparr>d_txq := (d_txq d1)\<lparr>q_ring := q_ring ex_txq\<rparr>\<rparr>) = Inr (d3, 2) \<and>
     2 \<le> count (mset (d_pools d3 0)) 7"
proof -
  let ?d = ex_driver2
  obtain d1 where d1: "ixgbe_xmit_fixed_burst_vec 0 [Some 7, Some 1] 2 ?d = Inr (d1, 2)"
    and mb: "d_mbufs d1 = d_mbufs (cut 7 ?d)" and q: "d_txq d1 = (let q = d_txq ?d; t = unat (tx_tail q) in
      (mark_rs (tx_tail q + 1) (q\<lparr>
         q_sw_ring := splice_at t [Some 7, Some 1] (q_sw_ring q),
         q_ring := (q_ring q)[t + 1 := tx_descriptor (d_mbufs ?d 1) DCMD_DTYP_FLAGS]\<rparr>))
      \<lparr>nb_tx_free := nb_tx_free q - 1, tx_tail := tx_tail q + 1, q_tdt := tx_tail q + 1\<rparr>)"
    using burst_drop_send [OF ex_driver2_facts(1,2,3,4,5) _ ex_driver2_facts(6,7) _ ex_driver2_facts(8,9), of 0] by auto
  define d2 where "d2 = d1\<lparr>d_txq := (d_txq d1)\<lparr>q_ring := q_ring ex_txq\<rparr>\<rparr>"
  have q2: "q_sw_ring (d_txq d2) = Some 7 # Some 1 # replicate 62 None" "tx_next_dd (d_txq d2) = 1"
    "tx_rs_thresh (d_txq d2) = 2" "q_ring (d_txq d2) = q_ring ex_txq"
    by (simp_all add: d2_def q Let_def ex_driver2_defs splice_at_def mark_rs_def numeral_eq_Suc)
  have ok: "threshold_ok (d_txq d2)" "descriptor_done (d_txq d2)"
    by (simp_all add: threshold_ok_def descriptor_done_def q2 RTE_IXGBE_TX_MAX_FREE_BUF_SZ_def
        ex_txq_def IXGBE_ADVTXD_STAT_DD_def drop_bit_eq_div)
  have es: "done_bufs (d_txq d2) = [Some 7, Some 1]"
    by (simp add: done_bufs_def q2)
  have so: "sole d2 7" "sole d2 1" by (simp_all add: d2_def mb sole_def ex_driver2_defs)
  obtain r where r: "foldR rte_pktmbuf_free_seg (done_bufs (d_txq d2)) d2 = Inr r"
    using so by (simp add: es rte_pktmbuf_free_seg_def prefree_sole sole_def)
  have "unat (tx_next_dd (d_txq ?d)) + 1 - unat (tx_rs_thresh (d_txq ?d)) \<le> unat (tx_tail (d_txq ?d))"
    "unat (tx_tail (d_txq ?d)) \<le> unat (tx_next_dd (d_txq ?d))"
    by (simp_all add: ex_driver2_defs)
  from dropped_buffer_is_freed_twice [OF ex_driver2_facts(1,2,3,4,5) _ ex_driver2_facts(6,7) _
      ex_driver2_facts(8,9) d1 d2_def ok r this] d1
  show ?thesis by (auto simp: d2_def ex_driver2_defs)
qed

text \<open>
  The release of a threshold's buffers, which gathers buffers of one pool and returns
  them in bulk, is the release of each buffer on its own: the same buffers end with the same
  counts, every pool holds the same buffers as a multiset, and the queue has a threshold more free
  descriptors and its next threshold.
\<close>

theorem tx_free_bufs_is_free_seg:
  assumes "threshold_ok (d_txq d)" and "descriptor_done (d_txq d)"
    and "foldR rte_pktmbuf_free_seg (done_bufs (d_txq d)) d = Inr r"
  shows "\<exists>d'. ixgbe_tx_free_bufs d = Inr (d', tx_rs_thresh (d_txq d)) \<and>
    d_mbufs d' = d_mbufs r \<and> (\<forall>p. mset (d_pools d' p) = mset (d_pools r p)) \<and>
    nb_tx_free (d_txq d') = nb_tx_free (d_txq d) + tx_rs_thresh (d_txq d) \<and>
    tx_next_dd (d_txq d') =
      (if nb_tx_desc (d_txq d) \<le> tx_next_dd (d_txq d) + tx_rs_thresh (d_txq d) then tx_rs_thresh (d_txq d) - 1
       else tx_next_dd (d_txq d) + tx_rs_thresh (d_txq d))"
  using tx_free_bufs_ref [OF assms] by (auto simp: threshold_passed_def)

definition ex_driver3 :: driver where
  "ex_driver3 = (ex_driver 0)\<lparr>d_txq := ex_txq2\<lparr>q_sw_ring := [Some 3, Some 4] @ replicate 62 None\<rparr>\<rparr>"

theorem tx_free_bufs_is_free_seg_witness:
  "\<exists>d'. ixgbe_tx_free_bufs ex_driver3 = Inr (d', 2) \<and> mset (d_pools d' 0) = {#3, 4#} \<and>
     nb_tx_free (d_txq d') = 65 \<and> tx_next_dd (d_txq d') = 3"
proof -
  let ?q = "d_txq ex_driver3"
  note defs = ex_driver3_def ex_driver2_defs
  have ok: "threshold_ok ?q" "descriptor_done ?q"
    by (simp_all add: threshold_ok_def descriptor_done_def defs RTE_IXGBE_TX_MAX_FREE_BUF_SZ_def
        IXGBE_ADVTXD_STAT_DD_def drop_bit_eq_div)
  have es: "done_bufs ?q = [Some 3, Some 4]" by (simp add: done_bufs_def defs)
  have so: "sole ex_driver3 3" "sole ex_driver3 4" by (simp_all add: sole_def defs)
  have empty: "mb_pool (d_mbufs ex_driver3 i) = 0" "d_pools ex_driver3 p = []" for i p by (simp_all add: defs)
  obtain r where r: "foldR rte_pktmbuf_free_seg (done_bufs ?q) ex_driver3 = Inr r" "mset (d_pools r 0) = {#3, 4#}"
    using so by (simp add: es rte_pktmbuf_free_seg_def prefree_sole sole_def empty)
  from tx_free_bufs_is_free_seg [OF ok r(1)] r(2) show ?thesis by (auto simp: defs)
qed

text \<open>
  C31: every burst that runs to its end, of any packets, with any start value of \<open>ret\<close>, over
  the end of the ring or not, conserves tokens: the free space of the three queues falls by exactly
  the number of packets counted as sent. It closes the log it opened, except that a burst
  with no descriptor free returns early and leaves one open.
\<close>

theorem burst_conserves_tokens:
  assumes "ixgbe_xmit_fixed_burst_vec ret ps n d = Inr (d', r)" and "files_ok (d_fs d)"
  shows "files_ok (d_fs d') \<and>
    total_tokens (d_fs d') + d_packets_sent d' = total_tokens (d_fs d) + d_packets_sent d \<and>
    d_open_logs d' = d_open_logs d + (if r = 0 then 1 else 0)"
  using burst_balanced [OF assms(1)] assms(2) by (simp add: balanced_def)

theorem burst_conserves_tokens_witness:
  "\<exists>d'. ixgbe_xmit_fixed_burst_vec 0 [Some 7, Some 1] 2 ex_driver2 = Inr (d', 2) \<and>
     total_tokens (d_fs d') + d_packets_sent d' = 66 \<and> d_open_logs d' = 0"
proof -
  obtain d' where d': "ixgbe_xmit_fixed_burst_vec 0 [Some 7, Some 1] 2 ex_driver2 = Inr (d', 2)"
    using burst_drop_send [OF ex_driver2_facts(1,2,3,4,5) _ ex_driver2_facts(6,7) _ ex_driver2_facts(8,9), of 0] by auto
  have "files_ok (d_fs ex_driver2)" "total_tokens (d_fs ex_driver2) = 66"
    by (simp_all add: files_ok_def total_tokens_def ex_driver2_defs file_level_def fscanf_fprintf)
  with burst_conserves_tokens [OF d'] d' show ?thesis by (auto simp: ex_driver2_defs)
qed

text \<open>
  At the end of the ring the code subtracts the packets sent, not the packets handled, from the
  count of packets left. So a burst of an array of exactly \<open>n\<close> packets that reaches the end of the
  ring and runs to its end within the array has dropped none of the packets before the ring's end: each
  such drop makes the code read past the array.
\<close>

theorem burst_at_ring_end_no_drop:
  assumes "burst_packets ret ps n d = Inr d'" and "length ps = unat n"
    and "nb_tx_desc (d_txq d) - tx_tail (d_txq d) \<le> n" and "tx_tail (d_txq d) < nb_tx_desc (d_txq d)"
  shows "d_skipped d' - d_skipped d \<le> int (unat n) - int (unat (nb_tx_desc (d_txq d) - tx_tail (d_txq d)))"
  by (rule burst_at_ring_end [OF assms])

definition ex_driver4 :: driver where
  "ex_driver4 = (ex_driver 33)\<lparr>d_txq := ex_txq\<lparr>nb_tx_desc := 1, q_ring := [zeroed_desc], q_sw_ring := [None],
     tx_next_rs := 0, tx_rs_thresh := 1\<rparr>\<rparr>"

theorem burst_at_ring_end_no_drop_witness:
  "\<exists>d'. burst_packets 0 [Some 1] 1 ex_driver4 = Inr d' \<and> d_skipped d' \<le> 0"
proof -
  note defs = ex_driver4_def ex_driver_def ex_txq_def ex_mbuf_def
  have lv: "file_level (\<lambda>f. Some (fprintf_d 33)) RRLower20 = Some 33" by (simp add: file_level_def fscanf_fprintf)
  have tt: "take_token (\<lambda>f. Some (fprintf_d 33)) 10 = Some (file_put (\<lambda>f. Some (fprintf_d 33)) RRLower20 32, True)"
    using take_token_level [OF _ lv, of 10] by (simp add: queue_of_def)
  obtain d' where d': "burst_packets 0 [Some 1] 1 ex_driver4 = Inr d'"
    by (simp add: burst_packets_def burst_wrap_def tx_backlog_entry_def defs Let_def davidis_vtx1_def packet_QoS_def
        tt vtx_def burst_finish_def)
  from burst_at_ring_end_no_drop [OF this] d' show ?thesis by (simp add: defs)
qed




text \<open>
  A reset leaves a queue that is ready: the tail at the start, all descriptors but one
  free and marked done, no buffer recorded, both thresholds on the last descriptor of the first
  group, and room for a burst of any size up to the threshold that the free thresholds allow.
\<close>

theorem reset_makes_ready:
  assumes "length (q_ring q) = unat (nb_tx_desc q)" and "length (q_sw_ring q) = unat (nb_tx_desc q)"
    and "0 < unat (tx_rs_thresh q)" and "unat (tx_rs_thresh q) \<le> RTE_IXGBE_TX_MAX_FREE_BUF_SZ"
    and "unat (tx_rs_thresh q) < unat (nb_tx_desc q)" and "tx_free_thresh q \<le> nb_tx_desc q - 1"
  shows "\<exists>q'. ixgbe_reset_tx_queue_vec q = Inr q' \<and> tx_tail q' = 0 \<and> nb_tx_free q' = nb_tx_desc q - 1 \<and>
    q_sw_ring q' = replicate (unat (nb_tx_desc q)) None \<and> threshold_ok q' \<and> descriptor_done q' \<and>
    (\<forall>k \<le> unat (tx_rs_thresh q). room_for q' k)"
proof -
  let ?n = "unat (nb_tx_desc q)" and ?t = "unat (tx_rs_thresh q)"
  have pred: "unat (w - 1) = unat w - 1" if "0 < unat w" for w :: u16
    using that unat_minus_one [of w] by (metis less_numeral_extra(3) unat_0)
  have dd: "(ucast (drop_bit 32 (push_bit 32 (ucast IXGBE_TXD_STAT_DD) :: u64)) :: u32) AND IXGBE_ADVTXD_STAT_DD \<noteq> 0"
    by (simp add: IXGBE_TXD_STAT_DD_def IXGBE_ADVTXD_STAT_DD_def push_bit_eq_mult drop_bit_eq_div)
  have rep: "replicate ?n x ! (?t - 1) = x" for x :: tx_desc using assms(3,5) by simp
  from assms dd rep show ?thesis
    by (auto simp: ixgbe_reset_tx_queue_vec_def Let_def clear_sw_ring_def threshold_ok_def descriptor_done_def
        room_for_def pred)
qed

theorem reset_makes_ready_witness:
  "\<exists>q'. ixgbe_reset_tx_queue_vec ex_txq2 = Inr q' \<and> tx_tail q' = 0 \<and> nb_tx_free q' = 63 \<and> room_for q' 2"
proof -
  have len: "length (q_ring ex_txq2) = unat (nb_tx_desc ex_txq2)" "length (q_sw_ring ex_txq2) = unat (nb_tx_desc ex_txq2)"
    "0 < unat (tx_rs_thresh ex_txq2)" "unat (tx_rs_thresh ex_txq2) \<le> RTE_IXGBE_TX_MAX_FREE_BUF_SZ"
    "unat (tx_rs_thresh ex_txq2) < unat (nb_tx_desc ex_txq2)" "tx_free_thresh ex_txq2 \<le> nb_tx_desc ex_txq2 - 1"
    by (simp_all add: ex_driver2_defs RTE_IXGBE_TX_MAX_FREE_BUF_SZ_def)
  from reset_makes_ready [OF this] show ?thesis by (auto simp: ex_driver2_defs)
qed

text \<open>
  C32: without the file of the buffer emulator, whose content decides nothing, the routine of
  a packet crashes; with it and the queues' files present and readable it handles every packet that
  is one direct segment with one reference: it is sent if its queue has a token and dropped if not.
\<close>

theorem davidis_vtx1_decides_by_token:
  assumes "sole d a" and "mb_next (d_mbufs d a) = None" and "t < length (q_ring (d_txq d))"
    and "queue_of (packet_QoS (d_mbufs d a)) = Some f" and "file_level (d_fs d) f = Some n"
  shows "if d_fs d BufferEmulator = None then davidis_vtx1 t (Some a) fl d = Inl NoFile
    else \<exists>d'. davidis_vtx1 t (Some a) fl d = Inr (d', of_bool (0 < n)) \<and>
      file_level (d_fs d') f = Some (if 0 < n then n - 1 else n) \<and>
      q_ring (d_txq d') = (if 0 < n then (q_ring (d_txq d))[t := tx_descriptor (d_mbufs d a) fl] else q_ring (d_txq d)) \<and>
      d_pools d' = (if 0 < n then d_pools d
        else (d_pools d)(mb_pool (d_mbufs d a) := a # d_pools d (mb_pool (d_mbufs d a))))"
proof (cases "d_fs d BufferEmulator = None")
  case True
  then show ?thesis by (simp add: davidis_vtx1_def)
next
  case False
  then show ?thesis
    using davidis_vtx1_sends_one [OF False assms(4,5) _ assms(3), of fl]
      davidis_vtx1_drops [OF False assms(4,5) _ assms(1,2), of t fl] assms(5)
    by (cases "0 < n") (auto simp: tok.level_put)
qed

theorem davidis_vtx1_decides_by_token_witness:
  "\<exists>d'. davidis_vtx1 0 (Some 7) DCMD_DTYP_FLAGS ex_driver2 = Inr (d', 0) \<and> d_pools d' 0 = [7]"
proof -
  have "0 < length (q_ring (d_txq ex_driver2))" by (simp add: ex_driver2_defs)
  from davidis_vtx1_decides_by_token [OF ex_driver2_facts(8,9) this ex_driver2_facts(4,5), of DCMD_DTYP_FLAGS] ex_driver2_facts(3)
  show ?thesis by (auto simp: ex_driver2_defs)
qed

text \<open>The threshold of the inverse-linear variant is 120 if the emulated queue holds one packet, and 0 for any other size.\<close>

lemma inverse_linear_threshold:
  assumes "fs BufferEmulator = Some s"
  shows "bufferManagementInverseLinear fs m u =
    Some (packet_QoS m, if scan_into u s = 1 then 120 else 0, packet_QoS m > 0)"
proof (cases "scan_into u s = 1")
  case False
  then have "1 div (\<bar>scan_into u s - 1\<bar> + 1) = (0 :: int)" by (intro div_pos_pos_trivial) auto
  with False assms show ?thesis by (simp add: bufferManagementInverseLinear_def Let_def)
qed (use assms in \<open>simp add: bufferManagementInverseLinear_def Let_def\<close>)

end
