(* ===== verification/TokenRace.thy ===== *)
theory TokenRace
  imports TokenQueue
begin

text \<open>
  The driver and the worker as two processes over the same files. The calls
  \<open>flock(BUFFER, ...)\<close> pass a \<open>FILE *\<close> where the system call expects a file
  descriptor, so they take no lock, and every system call on a file is a step of its
  own: the read, the truncation by \<open>fopen(.., "w")\<close>, and the write at offset 0 when
  the stream is flushed at \<open>fclose\<close>.
\<close>

section \<open>States and steps\<close>

datatype drv_pc = DIdle | DHave qfile int | DTrunc qfile int
datatype wrk_pc = WIdle | WHave qfile int | WTrunc qfile int

record tsys =
  t_fs :: filesys
  d_pc :: drv_pc
  wk_pc :: wrk_pc
  t_turn :: nat
  t_wfifo :: int
  t_sent :: "qfile \<Rightarrow> nat"
  t_served :: "qfile \<Rightarrow> nat"

text \<open>A write at offset 0 of a file replaces as many characters as it has.\<close>

definition write_at0 :: "string \<Rightarrow> string \<Rightarrow> string" where
  "write_at0 s old = s @ drop (length s) old"

text \<open>The content that \<open>echo "33" >\<close> leaves in each file.\<close>

definition echo33 :: string where
  "echo33 = [CHR ''3'', CHR ''3'', CHR 0x0A]"

definition init_tsys :: tsys where
  "init_tsys = \<lparr>t_fs = (\<lambda>_. Some echo33), d_pc = DIdle, wk_pc = WIdle, t_turn = 0, t_wfifo = 0,
                t_sent = (\<lambda>_. 0), t_served = (\<lambda>_. 0)\<rparr>"

text \<open>
  The steps of the driver for a packet of class \<open>q\<close>; the label is the end of the packet's handling:
  \<open>Some sent\<close> when the step completes it, \<open>None\<close> when it is still under way.
\<close>

inductive drv_step :: "int \<Rightarrow> bool option \<Rightarrow> tsys \<Rightarrow> tsys \<Rightarrow> bool" where
  drv_refuse: "d_pc s = DIdle \<Longrightarrow> queue_of q = Some f \<Longrightarrow> t_fs s f = Some con \<Longrightarrow>
     scan_into 0 con \<le> 0 \<Longrightarrow> drv_step q (Some False) s s"
| drv_read: "d_pc s = DIdle \<Longrightarrow> queue_of q = Some f \<Longrightarrow> t_fs s f = Some con \<Longrightarrow>
     0 < scan_into 0 con \<Longrightarrow> drv_step q None s (s\<lparr>d_pc := DHave f (scan_into 0 con - 1)\<rparr>)"
| drv_trunc: "d_pc s = DHave f n \<Longrightarrow>
     drv_step q None s (s\<lparr>d_pc := DTrunc f n, t_fs := (t_fs s)(f \<mapsto> [])\<rparr>)"
| drv_write: "d_pc s = DTrunc f n \<Longrightarrow> t_fs s f = Some old \<Longrightarrow>
     drv_step q (Some True) s (s\<lparr>d_pc := DIdle, t_fs := (t_fs s)(f \<mapsto> write_at0 (fprintf_d n) old),
                   t_sent := (t_sent s)(f := Suc (t_sent s f))\<rparr>)"

inductive wrk_step :: "tsys \<Rightarrow> tsys \<Rightarrow> bool" where
  wrk_skip: "wk_pc s = WIdle \<Longrightarrow> aget worker_filename (t_turn s) = Some f \<Longrightarrow>
     t_fs s f = Some con \<Longrightarrow> n = scan_into (t_wfifo s) con \<Longrightarrow> \<not> n < QUEUE_SIZE \<Longrightarrow>
     wrk_step s (s\<lparr>t_wfifo := n, t_turn := (t_turn s + 1) mod NUM_OF_QUEUES\<rparr>)"
| wrk_read: "wk_pc s = WIdle \<Longrightarrow> aget worker_filename (t_turn s) = Some f \<Longrightarrow>
     t_fs s f = Some con \<Longrightarrow> n = scan_into (t_wfifo s) con \<Longrightarrow> n < QUEUE_SIZE \<Longrightarrow>
     wrk_step s (s\<lparr>t_wfifo := n + 1, wk_pc := WHave f (n + 1)\<rparr>)"
| wrk_trunc: "wk_pc s = WHave f n \<Longrightarrow>
     wrk_step s (s\<lparr>wk_pc := WTrunc f n, t_fs := (t_fs s)(f \<mapsto> [])\<rparr>)"
| wrk_write: "wk_pc s = WTrunc f n \<Longrightarrow> t_fs s f = Some old \<Longrightarrow>
     wrk_step s (s\<lparr>wk_pc := WIdle, t_fs := (t_fs s)(f \<mapsto> write_at0 (fprintf_d n) old),
                   t_turn := (t_turn s + 1) mod NUM_OF_QUEUES,
                   t_served := (t_served s)(f := Suc (t_served s f))\<rparr>)"

inductive reach :: "tsys \<Rightarrow> bool" where
  reach_init: "reach init_tsys"
| reach_drv: "reach s \<Longrightarrow> drv_step q r s t \<Longrightarrow> reach t"
| reach_wrk: "reach s \<Longrightarrow> wrk_step s t \<Longrightarrow> reach t"

text \<open>The handling of one packet with no step of the worker in between: steps under way, then the last one.\<close>

definition drv_handles :: "int \<Rightarrow> tsys \<Rightarrow> bool \<Rightarrow> tsys \<Rightarrow> bool" where
  "drv_handles q s sent t \<longleftrightarrow> (\<exists>u. (drv_step q None)\<^sup>*\<^sup>* s u \<and> drv_step q (Some sent) u t)"

inductive_cases drv_stepE: "drv_step q r s t"
inductive_simps drv_underway_iff: "drv_step q None s t"
inductive_simps drv_end_iff: "drv_step q (Some sent) s t"
inductive_cases wrk_stepE: "wrk_step s t"

section \<open>What the files can hold\<close>

text \<open>A file holds nothing, the line of \<open>echo\<close>, or one or two digits.\<close>

definition short_text :: "string \<Rightarrow> bool" where
  "short_text con \<longleftrightarrow> con = echo33 \<or> (length con \<le> 2 \<and> (\<forall>c \<in> set con. is_digit c))"

definition files_ok :: "filesys \<Rightarrow> bool" where
  "files_ok fs \<longleftrightarrow> (\<forall>f. \<exists>con. fs f = Some con \<and> short_text con)"

definition drv_ok :: "filesys \<Rightarrow> drv_pc \<Rightarrow> bool" where
  "drv_ok fs pc = (case pc of DIdle \<Rightarrow> True
      | DHave f n \<Rightarrow> 0 \<le> n \<and> n \<le> 98
      | DTrunc f n \<Rightarrow> 0 \<le> n \<and> n \<le> 98 \<and> fs f \<noteq> Some echo33)"

definition wrk_ok :: "filesys \<Rightarrow> wrk_pc \<Rightarrow> bool" where
  "wrk_ok fs pc = (case pc of WIdle \<Rightarrow> True
      | WHave f n \<Rightarrow> 0 \<le> n \<and> n \<le> QUEUE_SIZE
      | WTrunc f n \<Rightarrow> 0 \<le> n \<and> n \<le> QUEUE_SIZE \<and> fs f \<noteq> Some echo33)"

definition race_inv :: "tsys \<Rightarrow> bool" where
  "race_inv s \<longleftrightarrow> files_ok (t_fs s) \<and> drv_ok (t_fs s) (d_pc s) \<and> wrk_ok (t_fs s) (wk_pc s) \<and>
     t_turn s < NUM_OF_QUEUES \<and> 0 \<le> t_wfifo s \<and> t_wfifo s \<le> 99"

lemma files_ok_upd: "files_ok fs \<Longrightarrow> short_text con \<Longrightarrow> files_ok (fs(f \<mapsto> con))"
  by (simp add: files_ok_def)

lemma files_okD: "files_ok fs \<Longrightarrow> fs f = Some con \<Longrightarrow> short_text con"
  unfolding files_ok_def by (metis option.inject)

lemma drv_ok_upd: "drv_ok fs pc \<Longrightarrow> con \<noteq> echo33 \<Longrightarrow> drv_ok (fs(f \<mapsto> con)) pc"
  by (auto simp: drv_ok_def split: drv_pc.splits)

lemma wrk_ok_upd: "wrk_ok fs pc \<Longrightarrow> con \<noteq> echo33 \<Longrightarrow> wrk_ok (fs(f \<mapsto> con)) pc"
  by (auto simp: wrk_ok_def split: wrk_pc.splits)

lemma pc_ok_simps [simp]:
  "drv_ok fs DIdle" "wrk_ok fs WIdle"
  "drv_ok fs (DHave f n) \<longleftrightarrow> 0 \<le> n \<and> n \<le> 98"
  "drv_ok fs (DTrunc f n) \<longleftrightarrow> 0 \<le> n \<and> n \<le> 98 \<and> fs f \<noteq> Some echo33"
  "wrk_ok fs (WHave f n) \<longleftrightarrow> 0 \<le> n \<and> n \<le> QUEUE_SIZE"
  "wrk_ok fs (WTrunc f n) \<longleftrightarrow> 0 \<le> n \<and> n \<le> QUEUE_SIZE \<and> fs f \<noteq> Some echo33"
  by (simp_all add: drv_ok_def wrk_ok_def)

lemmas race_upds = files_ok_upd drv_ok_upd wrk_ok_upd

lemma fscanf_echo33 [simp]: "fscanf_d echo33 = ScanInt 33"
  by (simp add: fscanf_d_def echo33_def scan_number_def scan_unsigned_def is_digit_def is_space_def)

lemma is_digit_not_special:
  assumes "is_digit c"
  shows "\<not> is_space c" and "c \<noteq> CHR ''-''" and "c \<noteq> CHR ''+''" and "c \<noteq> CHR 0x0A"
proof -
  show "\<not> is_space c" using assms by (auto simp: is_digit_def is_space_def)
  show "c \<noteq> CHR ''-''" "c \<noteq> CHR ''+''" "c \<noteq> CHR 0x0A" using assms by (auto simp: is_digit_def)
qed

lemma digit_value: "is_digit c \<Longrightarrow> (of_char c :: nat) - 48 \<le> 9"
  unfolding is_digit_def by linarith

lemma digits_of_length_2:
  assumes "length con \<le> 2" and "\<forall>c \<in> set con. is_digit c"
  shows "con = [] \<or> (\<exists>n. fscanf_d con = ScanInt n \<and> 0 \<le> n \<and> n \<le> 99)"
proof -
  consider "con = []" | a where "con = [a]" | a b where "con = [a, b]"
    using assms(1) by (cases con; cases "tl con") (auto simp: Suc_le_eq)
  then show ?thesis
  proof cases
    case 2
    with assms digit_value [of a] show ?thesis
      by (auto simp: fscanf_d_def scan_number_def scan_unsigned_def is_digit_not_special)
  next
    case 3
    with assms digit_value [of a] digit_value [of b] show ?thesis
      by (auto simp: fscanf_d_def scan_number_def scan_unsigned_def is_digit_not_special)
  qed simp
qed

lemma short_text_scan:
  assumes "short_text con" and "0 \<le> old" and "old \<le> 99"
  shows "0 \<le> scan_into old con" and "scan_into old con \<le> 99"
proof -
  have "con = [] \<or> (\<exists>n. fscanf_d con = ScanInt n \<and> 0 \<le> n \<and> n \<le> 99)"
    using assms(1) digits_of_length_2 by (auto simp: short_text_def)
  then show "0 \<le> scan_into old con" "scan_into old con \<le> 99"
    using assms(2,3) by (auto simp: scan_into_def fscanf_d_def scan_number_def)
qed

lemma show_nat_small:
  "n < 10 \<Longrightarrow> show_nat n = [digit_char n]"
  "10 \<le> n \<Longrightarrow> n < 100 \<Longrightarrow> show_nat n = [digit_char (n div 10), digit_char (n mod 10)]"
  by (simp_all add: show_nat.simps [of n] show_nat.simps [of "n div 10"])

lemma fprintf_small:
  assumes "0 \<le> n" and "n \<le> 99"
  shows "length (fprintf_d n) \<le> 2" and "\<forall>c \<in> set (fprintf_d n). is_digit c"
proof -
  show "length (fprintf_d n) \<le> 2"
    using assms by (cases "n < 10") (simp_all add: fprintf_d_def show_nat_small)
  show "\<forall>c \<in> set (fprintf_d n). is_digit c"
    using assms by (auto simp: fprintf_d_def show_nat_all_digits)
qed

lemma short_text_Nil [simp]: "short_text []"
  by (simp add: short_text_def)

lemma echo33_not_Nil [simp]: "echo33 \<noteq> []" "[] \<noteq> echo33"
  by (simp_all add: echo33_def)

lemma write_at0_short:
  assumes "short_text old" and "old \<noteq> echo33" and "0 \<le> n" and "n \<le> 99"
  shows "short_text (write_at0 (fprintf_d n) old)" and "write_at0 (fprintf_d n) old \<noteq> echo33"
proof -
  have d: "\<forall>c \<in> set (write_at0 (fprintf_d n) old). is_digit c"
    using assms fprintf_small [of n] by (auto simp: write_at0_def short_text_def dest: in_set_dropD)
  have "length (write_at0 (fprintf_d n) old) \<le> 2"
    using assms fprintf_small(1) [of n] by (auto simp: write_at0_def short_text_def)
  with d show "short_text (write_at0 (fprintf_d n) old)" by (simp add: short_text_def)
  have "\<not> is_digit (CHR 0x0A)" by (simp add: is_digit_def)
  moreover have "CHR 0x0A \<in> set echo33" by (simp add: echo33_def)
  ultimately show "write_at0 (fprintf_d n) old \<noteq> echo33" using d by metis
qed

lemma race_inv_init: "race_inv init_tsys"
  by (simp add: race_inv_def init_tsys_def short_text_def NUM_OF_QUEUES_def files_ok_def)

lemma race_inv_drv: "drv_step q r s t \<Longrightarrow> race_inv s \<Longrightarrow> race_inv t"
proof (induction rule: drv_step.induct)
  case (drv_read s q f con)
  then have "short_text con" using files_okD by (auto simp: race_inv_def)
  from short_text_scan [OF this, of 0] drv_read show ?case by (simp add: race_inv_def)
next
  case (drv_trunc s f n q)
  then show ?case by (auto simp: race_inv_def intro: race_upds)
next
  case (drv_write s f n old q)
  then have "short_text old" "old \<noteq> echo33" "0 \<le> n" "n \<le> 98"
    using files_okD by (auto simp: race_inv_def)
  with write_at0_short [of old n] drv_write show ?case by (auto simp: race_inv_def intro: race_upds)
qed simp

lemma race_inv_wrk: "wrk_step s t \<Longrightarrow> race_inv s \<Longrightarrow> race_inv t"
proof (induction rule: wrk_step.induct)
  case (wrk_skip s f con n)
  then have "short_text con" "0 \<le> t_wfifo s" "t_wfifo s \<le> 99"
    using files_okD by (auto simp: race_inv_def)
  from short_text_scan [OF this] wrk_skip show ?case by (simp add: race_inv_def NUM_OF_QUEUES_def)
next
  case (wrk_read s f con n)
  then have "short_text con" "0 \<le> t_wfifo s" "t_wfifo s \<le> 99"
    using files_okD by (auto simp: race_inv_def)
  from short_text_scan [OF this] wrk_read show ?case by (simp add: race_inv_def QUEUE_SIZE_def)
next
  case (wrk_trunc s f n)
  then show ?case by (auto simp: race_inv_def intro: race_upds)
next
  case (wrk_write s f n old)
  then have "short_text old" "old \<noteq> echo33" "0 \<le> n" "n \<le> 99"
    using files_okD by (auto simp: race_inv_def QUEUE_SIZE_def)
  with write_at0_short [of old n] wrk_write show ?case
    by (auto simp: race_inv_def NUM_OF_QUEUES_def intro: race_upds)
qed

lemma reach_race_inv: "reach s \<Longrightarrow> race_inv s"
  by (induction rule: reach.induct) (auto intro: race_inv_init race_inv_drv race_inv_wrk)

section \<open>Uninterrupted runs are the operations\<close>

lemma write_at0_Nil [simp]: "write_at0 con [] = con"
  by (simp add: write_at0_def)

text \<open>The states of one handling that began in \<open>s\<close> with the content \<open>con\<close> in the file.\<close>

definition underway :: "tsys \<Rightarrow> qfile \<Rightarrow> string \<Rightarrow> tsys \<Rightarrow> bool" where
  "underway s f con u \<longleftrightarrow> u = s \<or> (0 < scan_into 0 con \<and>
     (u = s\<lparr>d_pc := DHave f (scan_into 0 con - 1)\<rparr> \<or>
      u = s\<lparr>d_pc := DTrunc f (scan_into 0 con - 1), t_fs := (t_fs s)(f \<mapsto> [])\<rparr>))"

abbreviation sent_state :: "tsys \<Rightarrow> qfile \<Rightarrow> filesys \<Rightarrow> tsys" where
  "sent_state s f fs' \<equiv> s\<lparr>t_fs := fs', t_sent := (t_sent s)(f := Suc (t_sent s f))\<rparr>"

lemma idle_state [simp]: "d_pc s = DIdle \<Longrightarrow> s\<lparr>d_pc := DIdle\<rparr> = s"
  by (cases s) simp

lemma drv_underway:
  assumes "d_pc s = DIdle" and "queue_of q = Some f" and "t_fs s f = Some con" and "(drv_step q None)\<^sup>*\<^sup>* s u"
  shows "underway s f con u"
  using assms(4)
proof (induction rule: rtranclp_induct)
  case (step u v)
  from step(3,2) assms(1-3) show ?case unfolding underway_def drv_underway_iff by (elim disjE) auto
qed (simp add: underway_def)

lemma drv_ends:
  assumes "d_pc s = DIdle" and "queue_of q = Some f" and "t_fs s f = Some con" and "underway s f con u"
    and "drv_step q (Some sent) u t"
  shows "if sent then 0 < scan_into 0 con \<and> t = sent_state s f ((t_fs s)(f \<mapsto> fprintf_d (scan_into 0 con - 1)))
    else scan_into 0 con \<le> 0 \<and> t = s"
  using assms(4,5,1-3) unfolding underway_def drv_end_iff by (elim disjE) auto

lemma drv_handles_sent:
  assumes "d_pc s = DIdle" and "queue_of q = Some f" and "t_fs s f = Some con" and "0 < scan_into 0 con"
  shows "drv_handles q s True (sent_state s f ((t_fs s)(f \<mapsto> fprintf_d (scan_into 0 con - 1))))"
proof -
  let ?n = "scan_into 0 con - 1"
  let ?s1 = "s\<lparr>d_pc := DHave f ?n\<rparr>"
  let ?s2 = "?s1\<lparr>d_pc := DTrunc f ?n, t_fs := (t_fs ?s1)(f \<mapsto> [])\<rparr>"
  have "drv_step q None s ?s1" by (rule drv_read [OF assms])
  moreover have "drv_step q None ?s1 ?s2" by (rule drv_trunc) simp
  ultimately have "(drv_step q None)\<^sup>*\<^sup>* s ?s2" by (blast intro: converse_rtranclp_into_rtranclp)
  moreover have "drv_step q (Some True) ?s2 (?s2\<lparr>d_pc := DIdle, t_fs := (t_fs ?s2)(f \<mapsto> write_at0 (fprintf_d ?n) []),
      t_sent := (t_sent ?s2)(f := Suc (t_sent ?s2 f))\<rparr>)"
    by (rule drv_write) simp_all
  ultimately show ?thesis using assms(1) unfolding drv_handles_def by (intro exI [of _ ?s2]) simp
qed

lemma drv_handles_refused:
  assumes "d_pc s = DIdle" and "queue_of q = Some f" and "t_fs s f = Some con" and "scan_into 0 con \<le> 0"
  shows "drv_handles q s False s"
  using drv_refuse [OF assms] unfolding drv_handles_def by blast

lemma drv_missing_file:
  assumes "d_pc s = DIdle" and "queue_of q = Some f" and "t_fs s f = None"
  shows "\<not> drv_handles q s sent t"
proof -
  have "u = s" if "(drv_step q None)\<^sup>*\<^sup>* s u" for u
    using that by (induction rule: rtranclp_induct) (use assms in \<open>auto simp: drv_underway_iff\<close>)
  moreover have "\<not> drv_step q (Some sent) s t" using assms by (auto simp: drv_end_iff)
  ultimately show ?thesis by (auto simp: drv_handles_def)
qed

lemma reach_drv_handles: "drv_handles q s sent t \<Longrightarrow> reach s \<Longrightarrow> reach t"
proof -
  have "reach u" if "(drv_step q None)\<^sup>*\<^sup>* s u" "reach s" for u
    using that by (induction rule: rtranclp_induct) (auto intro: reach_drv)
  then show "drv_handles q s sent t \<Longrightarrow> reach s \<Longrightarrow> reach t" by (auto simp: drv_handles_def intro: reach_drv)
qed

text \<open>What is the same in every state in which only packets of one queue were sent.\<close>

definition idle_at :: "int \<Rightarrow> nat \<Rightarrow> tsys \<Rightarrow> bool" where
  "idle_at n k s \<longleftrightarrow> d_pc s = DIdle \<and> wk_pc s = WIdle \<and> t_turn s = 0 \<and>
     (\<exists>con. t_fs s RRLower20 = Some con \<and> (\<forall>old. scan_into old con = n)) \<and>
     t_sent s RRLower20 = k \<and> t_served s RRLower20 = 0"

lemma reach_drain:
  assumes "k \<le> 33"
  shows "\<exists>s. reach s \<and> idle_at (33 - int k) k s"
  using assms
proof (induction k)
  case 0
  have "idle_at 33 0 init_tsys" by (simp add: idle_at_def init_tsys_def scan_into_def)
  then show ?case using reach_init by auto
next
  case (Suc k)
  then obtain s con where s: "reach s" "idle_at (33 - int k) k s"
    "t_fs s RRLower20 = Some con" "scan_into 0 con = 33 - int k"
    by (auto simp: idle_at_def)
  let ?t = "s\<lparr>t_fs := (t_fs s)(RRLower20 \<mapsto> fprintf_d (scan_into 0 con - 1)),
              t_sent := (t_sent s)(RRLower20 := Suc (t_sent s RRLower20))\<rparr>"
  have "drv_handles 0 s True ?t"
    by (rule drv_handles_sent)
      (use s Suc.prems in \<open>auto simp: idle_at_def queue_of_def\<close>)
  then have "reach ?t" using s(1) by (rule reach_drv_handles)
  moreover have "idle_at (33 - int (Suc k)) (Suc k) ?t" using s by (auto simp: idle_at_def)
  ultimately show ?case by blast
qed

section \<open>Properties\<close>

text \<open>
  C11: in every state that the driver and the worker can reach from the initial files,
  however their accesses to the token files interleave, each file exists and holds the
  initial line, nothing (between a truncation and a write), or at most two digits; so a
  reader never crashes and never reads a number below 0 or above 99.
\<close>

theorem token_files_bounded:
  assumes "reach s"
  shows "\<exists>con. t_fs s f = Some con \<and>
    (con = [] \<or> (\<exists>n. fscanf_d con = ScanInt n \<and> 0 \<le> n \<and> n \<le> 99))"
proof -
  from reach_race_inv [OF assms] obtain con where "t_fs s f = Some con" "short_text con"
    by (auto simp: race_inv_def files_ok_def)
  then show ?thesis using digits_of_length_2 by (auto simp: short_text_def)
qed

theorem token_files_bounded_witness:
  "reach init_tsys \<and> (\<exists>con. t_fs init_tsys Bigger_80 = Some con \<and>
    (con = [] \<or> (\<exists>n. fscanf_d con = ScanInt n \<and> 0 \<le> n \<and> n \<le> 99)))"
  using token_files_bounded [OF reach_init] reach_init by simp

text \<open>
  C12: the queue size bounds neither the files nor the sum of the accounts when the two
  programs overlap: with 24 packets sent and one job served the free space of the first
  queue should be 10, and a reachable idle state holds 91 (the driver's one digit was
  written over the first of the worker's two).
\<close>

theorem token_race_corrupts:
  "\<exists>s. reach s \<and> d_pc s = DIdle \<and> wk_pc s = WIdle \<and> t_sent s RRLower20 = 24 \<and>
       t_served s RRLower20 = 1 \<and> file_level (t_fs s) RRLower20 = Some 91 \<and> QUEUE_SIZE < 91"
proof -
  obtain s con where s: "reach s" "idle_at 10 23 s" "t_fs s RRLower20 = Some con"
    "\<And>old. scan_into old con = 10"
    using reach_drain [of 23] by (auto simp: idle_at_def)
  let ?s1 = "s\<lparr>d_pc := DHave RRLower20 9\<rparr>"
  let ?s2 = "?s1\<lparr>t_wfifo := 11, wk_pc := WHave RRLower20 11\<rparr>"
  let ?s3 = "?s2\<lparr>d_pc := DTrunc RRLower20 9, t_fs := (t_fs ?s2)(RRLower20 \<mapsto> [])\<rparr>"
  let ?s4 = "?s3\<lparr>wk_pc := WTrunc RRLower20 11, t_fs := (t_fs ?s3)(RRLower20 \<mapsto> [])\<rparr>"
  let ?s5 = "?s4\<lparr>wk_pc := WIdle, t_fs := (t_fs ?s4)(RRLower20 \<mapsto> write_at0 (fprintf_d 11) []),
     t_turn := (t_turn ?s4 + 1) mod NUM_OF_QUEUES,
     t_served := (t_served ?s4)(RRLower20 := Suc (t_served ?s4 RRLower20))\<rparr>"
  let ?s6 = "?s5\<lparr>d_pc := DIdle,
     t_fs := (t_fs ?s5)(RRLower20 \<mapsto> write_at0 (fprintf_d 9) (fprintf_d 11)),
     t_sent := (t_sent ?s5)(RRLower20 := Suc (t_sent ?s5 RRLower20))\<rparr>"
  have "drv_step 0 None s ?s1"
    using drv_read [of s 0 RRLower20 con] s by (simp add: idle_at_def queue_of_def)
  then have "reach ?s1" using s(1) by (rule reach_drv [rotated])
  moreover have "wrk_step ?s1 ?s2"
    using wrk_read [of ?s1 RRLower20 con 10] s
    by (simp add: idle_at_def worker_filename_def QUEUE_SIZE_def)
  ultimately have "reach ?s2" by (rule reach_wrk)
  moreover have "drv_step 0 None ?s2 ?s3" by (rule drv_trunc) simp
  ultimately have "reach ?s3" by (rule reach_drv)
  moreover have "wrk_step ?s3 ?s4" by (rule wrk_trunc) simp
  ultimately have "reach ?s4" by (rule reach_wrk)
  moreover have "wrk_step ?s4 ?s5" by (rule wrk_write) simp_all
  ultimately have "reach ?s5" by (rule reach_wrk)
  moreover have "drv_step 0 (Some True) ?s5 ?s6" by (rule drv_write) simp_all
  ultimately have r: "reach ?s6" by (rule reach_drv)
  have "write_at0 (fprintf_d 9) (fprintf_d 11) = fprintf_d 91"
    by (simp add: write_at0_def fprintf_d_def show_nat_small digit_char_def)
  with r s show ?thesis
    by (intro exI [of _ ?s6])
      (simp add: idle_at_def file_level_def fscanf_fprintf QUEUE_SIZE_def)
qed

text \<open>
  C13: when no access of the worker falls between them, the driver's steps for a packet of any class are
  exactly the operation \<open>take_token\<close> on its file. They can end with the packet sent only when \<open>take_token\<close> accepts it,
  with the new free space in the file and one more packet counted; they can end with a refusal only when it refuses,
  and then nothing has changed; and one of the two ends is reached whenever \<open>take_token\<close> returns. When it crashes
  on a missing file they come to no end.
\<close>

theorem drv_steps_refine_take_token:
  assumes "d_pc s = DIdle" and "queue_of q = Some f"
  shows "drv_handles q s sent t \<longleftrightarrow>
    (\<exists>fs'. take_token (t_fs s) q = Some (fs', sent) \<and>
       t = (if sent then s\<lparr>t_fs := fs', t_sent := (t_sent s)(f := Suc (t_sent s f))\<rparr> else s) \<and> (\<not> sent \<longrightarrow> fs' = t_fs s))"
proof (cases "t_fs s f")
  case None
  then show ?thesis using drv_missing_file [OF assms] assms(2) by (simp add: take_token_def)
next
  case (Some con)
  have "drv_handles q s sent t \<longleftrightarrow>
    (if sent then 0 < scan_into 0 con \<and> t = sent_state s f ((t_fs s)(f \<mapsto> fprintf_d (scan_into 0 con - 1)))
     else scan_into 0 con \<le> 0 \<and> t = s)" (is "?l = ?r")
  proof
    show "?l \<Longrightarrow> ?r"
      unfolding drv_handles_def by (elim exE conjE) (rule drv_ends [OF assms Some drv_underway [OF assms Some]])
    show "?r \<Longrightarrow> ?l"
      using drv_handles_sent [OF assms Some] drv_handles_refused [OF assms Some] by (cases sent) simp_all
  qed
  moreover have "take_token (t_fs s) q = Some (if 0 < scan_into 0 con
      then ((t_fs s)(f \<mapsto> fprintf_d (scan_into 0 con - 1)), True) else (t_fs s, False))"
    using assms(2) Some by (simp add: take_token_def)
  ultimately show ?thesis by (cases sent; cases "0 < scan_into 0 con") simp_all
qed

text \<open>A packet that is sent, and one that is refused on an empty queue.\<close>

theorem drv_steps_refine_take_token_witness:
  "drv_handles 50 init_tsys True (init_tsys\<lparr>t_fs := (t_fs init_tsys)(Range_20_80 \<mapsto> fprintf_d 32),
     t_sent := (t_sent init_tsys)(Range_20_80 := Suc (t_sent init_tsys Range_20_80))\<rparr>) \<and>
   \<not> drv_handles 50 init_tsys False init_tsys \<and>
   drv_handles 50 (init_tsys\<lparr>t_fs := (t_fs init_tsys)(Range_20_80 \<mapsto> ''0'')\<rparr>) False
     (init_tsys\<lparr>t_fs := (t_fs init_tsys)(Range_20_80 \<mapsto> ''0'')\<rparr>)"
proof -
  let ?s = "init_tsys\<lparr>t_fs := (t_fs init_tsys)(Range_20_80 \<mapsto> ''0'')\<rparr>"
  have "fscanf_d ''0'' = ScanInt 0"
    by (simp add: fscanf_d_def scan_number_def scan_unsigned_def is_digit_def is_space_def)
  then have t0: "take_token (t_fs ?s) 50 = Some (t_fs ?s, False)"
    by (simp add: take_token_def queue_of_def scan_into_def)
  have t33: "take_token (t_fs init_tsys) 50 = Some ((t_fs init_tsys)(Range_20_80 \<mapsto> fprintf_d 32), True)"
    by (simp add: init_tsys_def take_token_def queue_of_def scan_into_def)
  have d: "d_pc init_tsys = DIdle" "d_pc ?s = DIdle" "queue_of 50 = Some Range_20_80"
    by (simp_all add: init_tsys_def queue_of_def)
  note a = drv_steps_refine_take_token [OF d(1,3), unfolded t33 option.inject prod.inject]
    and b = drv_steps_refine_take_token [OF d(2,3), unfolded t0 option.inject prod.inject]
  show ?thesis unfolding a b by simp
qed

end
