(* ===== verification/SwxField.thy ===== *)
theory SwxField
  imports Prelude
begin

text \<open>
  Fields of packet headers and meta-data in byte-addressed memory
  (lib/pipeline/rte_swx_pipeline_internal.h, little-endian build): the 64-bit loads and
  stores by which the data plane reads and writes a field, host and network byte order,
  and the laws of these accesses that the instructions of SwxAlu rely on.
\<close>

section \<open>Memory\<close>

type_synonym mem = "addr \<Rightarrow> u8"

definition load64 :: "mem \<Rightarrow> addr \<Rightarrow> u64" where
  "load64 m a =
     ucast (m a) OR push_bit 8 (ucast (m (a + 1))) OR push_bit 16 (ucast (m (a + 2))) OR
     push_bit 24 (ucast (m (a + 3))) OR push_bit 32 (ucast (m (a + 4))) OR
     push_bit 40 (ucast (m (a + 5))) OR push_bit 48 (ucast (m (a + 6))) OR
     push_bit 56 (ucast (m (a + 7)))"

definition byte_of :: "u64 \<Rightarrow> nat \<Rightarrow> u8" where
  "byte_of w i = ucast (drop_bit (8 * i) w)"

definition store64 :: "mem \<Rightarrow> addr \<Rightarrow> u64 \<Rightarrow> mem" where
  "store64 m a w = (\<lambda>x. if a \<le> x \<and> x < a + 8 then byte_of w (x - a) else m x)"

definition bswap64 :: "u64 \<Rightarrow> u64" where
  "bswap64 w = load64 (\<lambda>i. byte_of w (7 - i)) 0"

text \<open>The environment macros of the little-endian build.\<close>

abbreviation ntoh64 :: "u64 \<Rightarrow> u64" where "ntoh64 \<equiv> bswap64"
abbreviation hton64 :: "u64 \<Rightarrow> u64" where "hton64 \<equiv> bswap64"

lemma less_8_cases:
  "(i :: nat) < 8 \<Longrightarrow> i = 0 \<or> i = 1 \<or> i = 2 \<or> i = 3 \<or> i = 4 \<or> i = 5 \<or> i = 6 \<or> i = 7"
  by auto

lemma bit_u8_bound: "bit (b :: u8) k \<Longrightarrow> k < 8"
  using bit_imp_le_length [of b k] by simp

lemma bit_load64: "bit (load64 m a) k \<longleftrightarrow> k < 64 \<and> bit (m (a + k div 8)) (k mod 8)"
proof (cases "k < 64")
  case True
  define q r where "q = k div 8" and "r = k mod 8"
  have k: "k = 8 * q + r" and r: "r < 8" and q: "q < 8"
    using True by (auto simp: q_def r_def)
  have big: "\<not> bit (m x) n" if "8 \<le> n" for x n
    using that bit_u8_bound by (metis not_less)
  from q consider "q = 0" | "q = 1" | "q = 2" | "q = 3" | "q = 4" | "q = 5" | "q = 6" | "q = 7"
    using less_8_cases by blast
  then have "bit (load64 m a) (8 * q + r) \<longleftrightarrow> bit (m (a + q)) r"
    by cases (use r in \<open>simp_all add: load64_def bit_or_iff bit_push_bit_iff bit_ucast_iff big\<close>)
  then show ?thesis using k r q True by (simp add: q_def [symmetric] r_def [symmetric])
next
  case False
  then show ?thesis using bit_imp_le_length [of "load64 m a" k] by auto
qed

lemma bit_byte_of: "bit (byte_of w i) k \<longleftrightarrow> k < 8 \<and> bit w (8 * i + k)"
  by (auto simp: byte_of_def bit_ucast_iff bit_drop_bit_eq add.commute)

lemma bit_bswap64: "bit (bswap64 w) k \<longleftrightarrow> k < 64 \<and> bit w (8 * (7 - k div 8) + k mod 8)"
  by (simp add: bswap64_def bit_load64 bit_byte_of)

lemma load64_store64 [simp]: "load64 (store64 m a w) a = w"
  by (rule bit_word_eqI) (auto simp: bit_load64 store64_def bit_byte_of)

lemma store64_out: "x < a \<or> a + 8 \<le> x \<Longrightarrow> store64 m a w x = m x"
  by (auto simp: store64_def)

lemma bswap64_bswap64 [simp]: "bswap64 (bswap64 w) = w"
proof (rule bit_word_eqI)
  fix k assume "k < LENGTH(64)"
  then have k: "k < 64" by simp
  have "(8 * (7 - k div 8) + k mod 8) div 8 = 7 - k div 8" by simp
  moreover have "(8 * (7 - k div 8) + k mod 8) mod 8 = k mod 8" by simp
  moreover have "7 - (7 - k div 8) = k div 8" using k by auto
  moreover have "8 * (7 - k div 8) + k mod 8 < 64" using k by linarith
  ultimately show "bit (bswap64 (bswap64 w)) k = bit w k"
    using k by (simp add: bit_bswap64)
qed

lemma bswap64_inject [simp]: "bswap64 u = bswap64 v \<longleftrightarrow> u = v"
  by (metis bswap64_bswap64)

section \<open>Masks and byte orders\<close>

text \<open>\<open>UINT64_MAX >> (64 - n_bits)\<close>\<close>

definition mask64 :: "nat \<Rightarrow> u64" where
  "mask64 n_bits = drop_bit (64 - n_bits) (- 1)"

text \<open>The value of a field of \<open>n_bits\<close> bits in the 64 bits loaded at its address.\<close>

definition hbo_val :: "u64 \<Rightarrow> nat \<Rightarrow> u64" where
  "hbo_val x64 n_bits = x64 AND mask64 n_bits"

definition nbo_val :: "u64 \<Rightarrow> nat \<Rightarrow> u64" where
  "nbo_val x64 n_bits = drop_bit (64 - n_bits) (ntoh64 x64)"

text \<open>The bits that stand for a value in a header field, in its two forms in the code.\<close>

definition nbo_bits :: "u64 \<Rightarrow> nat \<Rightarrow> u64" where
  "nbo_bits v n_bits = drop_bit (64 - n_bits) (hton64 v)"

lemma bit_mask64: "bit (mask64 n) k \<longleftrightarrow> k < n \<and> k < 64" if "n \<le> 64"
proof -
  have "64 - n + k < 64 \<longleftrightarrow> k < n" using that by arith
  then show ?thesis using that by (auto simp: mask64_def bit_drop_bit_eq bit_minus_1_iff bit_mask_iff)
qed

lemma hbo_val_take_bit: "n \<le> 64 \<Longrightarrow> hbo_val x n = take_bit n x"
  by (rule bit_word_eqI) (auto simp: hbo_val_def bit_mask64 bit_and_iff bit_take_bit_iff)

lemma and_mask64_take_bit: "n \<le> 64 \<Longrightarrow> x AND mask64 n = take_bit n x"
  using hbo_val_take_bit by (simp add: hbo_val_def)

text \<open>A field of whole bytes: the laws that hold for the header fields.\<close>

definition byte_sized :: "nat \<Rightarrow> bool" where
  "byte_sized n \<longleftrightarrow> 0 < n \<and> n \<le> 64 \<and> n mod 8 = 0"

lemma byte_sizedE:
  assumes "byte_sized n"
  obtains j where "n = 8 * j" and "0 < j" and "j \<le> 8"
  using assms by (auto simp: byte_sized_def elim!: dvdE [OF mod_0_imp_dvd])

lemma byte_sized_le: "byte_sized n \<Longrightarrow> n \<le> 64"
  by (simp add: byte_sized_def)

lemma bit_nbo_val:
  assumes "j \<le> 8"
  shows "bit (nbo_val x (8 * j)) k \<longleftrightarrow> k < 8 * j \<and> bit x (8 * (j - 1 - k div 8) + k mod 8)"
proof (cases "k < 8 * j")
  case True
  then have kj: "k div 8 < j" by auto
  have e: "64 - 8 * j + k = 8 * (8 - j) + k" using assms by arith
  have d: "(64 - 8 * j + k) div 8 = 8 - j + k div 8" "(64 - 8 * j + k) mod 8 = k mod 8"
    unfolding e by simp_all
  have "7 - (8 - j + k div 8) = j - 1 - k div 8" using assms kj by arith
  moreover have "64 - 8 * j + k < 64" using True assms by arith
  ultimately show ?thesis
    using True unfolding nbo_val_def bit_drop_bit_eq bit_bswap64 o_def d by (simp del: diff_diff_left Nat.add_diff_assoc2)
next
  case False
  then have "\<not> 64 - 8 * j + k < 64" using assms by arith
  then show ?thesis using False unfolding nbo_val_def bit_drop_bit_eq bit_bswap64 o_def by simp
qed

lemma nbo_bits_eq_nbo_val: "nbo_bits = nbo_val"
  by (intro ext) (simp add: nbo_bits_def nbo_val_def)

lemma nbo_flip_index:
  fixes j k :: nat
  assumes "k < 8 * j"
  shows "8 * (j - 1 - k div 8) + k mod 8 < 8 * j"
    and "8 * (j - 1 - (8 * (j - 1 - k div 8) + k mod 8) div 8)
         + (8 * (j - 1 - k div 8) + k mod 8) mod 8 = k"
proof -
  have kj: "k div 8 < j" using assms by auto
  have "8 * (j - 1 - k div 8) + k mod 8 < 8 * (j - 1 - k div 8) + 8" by simp
  also have "\<dots> \<le> 8 * j" using kj by arith
  finally show "8 * (j - 1 - k div 8) + k mod 8 < 8 * j" .
  have "j - 1 - (j - 1 - k div 8) = k div 8" using kj by arith
  then show "8 * (j - 1 - (8 * (j - 1 - k div 8) + k mod 8) div 8)
         + (8 * (j - 1 - k div 8) + k mod 8) mod 8 = k" by simp
qed

text \<open>Reading back a value written in network byte order.\<close>

lemma nbo_val_nbo_bits:
  assumes "byte_sized n"
  shows "nbo_val (nbo_bits v n) n = take_bit n v"
proof -
  obtain j where j: "n = 8 * j" "0 < j" "j \<le> 8" using assms by (rule byte_sizedE)
  show ?thesis unfolding j(1)
    by (rule bit_word_eqI)
      (use j nbo_flip_index in \<open>auto simp: nbo_bits_eq_nbo_val bit_nbo_val bit_take_bit_iff\<close>)
qed

lemma nbo_val_take_bit:
  assumes "byte_sized n"
  shows "nbo_val (take_bit n x) n = nbo_val x n"
proof -
  obtain j where j: "n = 8 * j" "0 < j" "j \<le> 8" using assms by (rule byte_sizedE)
  show ?thesis unfolding j(1)
    by (rule bit_word_eqI)
      (use j nbo_flip_index in \<open>auto simp: bit_nbo_val bit_take_bit_iff\<close>)
qed

lemma take_bit_nbo_val:
  assumes "byte_sized n"
  shows "take_bit n (nbo_val x n) = nbo_val x n"
proof -
  obtain j where j: "n = 8 * j" "0 < j" "j \<le> 8" using assms by (rule byte_sizedE)
  show ?thesis unfolding j(1) by (rule bit_word_eqI) (use j in \<open>auto simp: bit_nbo_val bit_take_bit_iff\<close>)
qed

lemma nbo_bits_take_bit: "byte_sized n \<Longrightarrow> nbo_bits (take_bit n v) n = nbo_bits v n"
  by (simp add: nbo_bits_eq_nbo_val nbo_val_take_bit)

lemma nbo_bits_nbo_val: "byte_sized n \<Longrightarrow> nbo_bits (nbo_val x n) n = take_bit n x"
  using nbo_val_nbo_bits by (simp add: nbo_bits_eq_nbo_val)

text \<open>\<open>hton64(result << (64 - n_bits))\<close>, the form of the ALU macros.\<close>

lemma hton64_push_bit:
  assumes "byte_sized n"
  shows "hton64 (push_bit (64 - n) v) = nbo_bits v n"
proof -
  obtain j where j: "n = 8 * j" "0 < j" "j \<le> 8" using assms by (rule byte_sizedE)
  show ?thesis unfolding j(1)
  proof (rule bit_word_eqI)
    fix k assume "k < LENGTH(64)"
    then have k: "k < 64" by simp
    let ?i = "8 * (7 - k div 8) + k mod 8"
    show "bit (hton64 (push_bit (64 - 8 * j) v)) k = bit (nbo_bits v (8 * j)) k"
    proof (cases "k < 8 * j")
      case True
      then have "k div 8 < j" using j by auto
      then have "64 - 8 * j \<le> ?i" "?i - (64 - 8 * j) = 8 * (j - 1 - k div 8) + k mod 8" "?i < 64"
        using j by auto
      with True k j show ?thesis
        unfolding nbo_bits_eq_nbo_val bit_nbo_val [OF j(3)] bit_bswap64 bit_push_bit_iff
        by simp
    next
      case False
      then have "j \<le> k div 8" using j by auto
      then have "?i < 64 - 8 * j" using j k by auto
      with False k j show ?thesis
        by (simp add: bit_bswap64 bit_push_bit_iff nbo_bits_eq_nbo_val bit_nbo_val)
    qed
  qed
qed

section \<open>Reading and writing a field\<close>

definition fld_hbo :: "mem \<Rightarrow> addr \<Rightarrow> nat \<Rightarrow> u64" where
  "fld_hbo m a n = hbo_val (load64 m a) n"

definition fld_nbo :: "mem \<Rightarrow> addr \<Rightarrow> nat \<Rightarrow> u64" where
  "fld_nbo m a n = nbo_val (load64 m a) n"

text \<open>The read-modify-write that every instruction ends with.\<close>

definition fld_put :: "mem \<Rightarrow> addr \<Rightarrow> nat \<Rightarrow> u64 \<Rightarrow> mem" where
  "fld_put m a n bits = store64 m a ((load64 m a AND NOT (mask64 n)) OR bits)"

lemma take_bit_merge:
  assumes "n \<le> 64" and "take_bit n bits = bits"
  shows "take_bit n ((x AND NOT (mask64 n)) OR bits) = bits"
proof (rule bit_word_eqI)
  fix k
  have "bit bits k \<longleftrightarrow> k < n \<and> bit bits k"
    using bit_take_bit_iff [of n bits k] assms(2) by simp
  then show "bit (take_bit n ((x AND NOT (mask64 n)) OR bits)) k = bit bits k"
    using assms(1) by (auto simp: bit_take_bit_iff bit_or_iff bit_and_iff bit_not_iff bit_mask64
        simp del: take_bit_or take_bit_and)
qed

lemma fld_hbo_put:
  assumes "n \<le> 64" and "take_bit n bits = bits"
  shows "fld_hbo (fld_put m a n bits) a n = bits"
  by (simp only: fld_hbo_def fld_put_def load64_store64 hbo_val_take_bit [OF assms(1)] take_bit_merge [OF assms])

lemma fld_nbo_put:
  assumes "byte_sized n" and "take_bit n bits = bits"
  shows "fld_nbo (fld_put m a n bits) a n = nbo_val bits n"
  using arg_cong [OF take_bit_merge [OF byte_sized_le [OF assms(1)] assms(2), of "load64 m a"],
      of "\<lambda>w. nbo_val w n"]
  by (simp only: fld_nbo_def fld_put_def load64_store64 nbo_val_take_bit [OF assms(1)])

text \<open>A write to a field of whole bytes touches the field's bytes only.\<close>

lemma fld_put_frame:
  assumes "byte_sized n" and "take_bit n bits = bits" and "x < a \<or> a + n div 8 \<le> x"
  shows "fld_put m a n bits x = m x"
proof (cases "x < a \<or> a + 8 \<le> x")
  case True
  then show ?thesis by (simp add: fld_put_def store64_out)
next
  case False
  obtain j where j: "n = 8 * j" "0 < j" "j \<le> 8" using assms(1) by (rule byte_sizedE)
  define i where "i = x - a"
  with False assms(3) j have i: "x = a + i" "i < 8" "j \<le> i" by auto
  have high: "\<not> bit bits (8 * i + k)" for k
    using bit_take_bit_iff [of n bits "8 * i + k"] assms(2) i(3) j(1) by simp
  have "byte_of ((load64 m a AND NOT (mask64 n)) OR bits) i = m (a + i)"
  proof (rule bit_word_eqI)
    fix k assume "k < LENGTH(8)"
    then have k: "k < 8" by simp
    then have "(8 * i + k) div 8 = i" "(8 * i + k) mod 8 = k" "8 * i + k < 64" "\<not> 8 * i + k < n"
      using i j by auto
    with k high [of k] j show "bit (byte_of ((load64 m a AND NOT (mask64 n)) OR bits) i) k = bit (m (a + i)) k"
      by (simp add: bit_byte_of bit_or_iff bit_and_iff bit_not_iff bit_mask64 bit_load64)
  qed
  with i show ?thesis by (simp add: fld_put_def store64_def)
qed

lemma take_bit_and_mask64: "n \<le> 64 \<Longrightarrow> take_bit n (x AND mask64 n) = x AND mask64 n"
  by (simp add: and_mask64_take_bit)

lemma take_bit_nbo_bits: "byte_sized n \<Longrightarrow> take_bit n (nbo_bits v n) = nbo_bits v n"
  by (simp add: nbo_bits_eq_nbo_val take_bit_nbo_val)

lemmas field_simps_swx = fld_hbo_put fld_nbo_put nbo_val_nbo_bits take_bit_and_mask64
  take_bit_nbo_bits and_mask64_take_bit byte_sized_le

end
