(* ===== verification/SwxThread.thy ===== *)
theory SwxThread
  imports SwxField
begin

text \<open>
  The state of one data plane thread and the operands of its instructions
  (struct thread, struct instr_* of lib/pipeline/rte_swx_pipeline_internal.h). Pointers
  are addresses of the memory \<open>t_mem\<close>, so that a header that points into the packet
  and the packet itself share their bytes as they do in the code. The arrays of the
  thread that the build step sizes (structs, headers, slots) are functions of the index.
\<close>

record instr_operand =
  op_struct_id :: nat
  op_n_bits :: nat
  op_offset :: nat

record instr_dst_src =
  ds_dst :: instr_operand
  ds_src :: instr_operand
  ds_src_val :: u64

record header_runtime =
  hr_ptr0 :: addr
  hr_n_bytes :: u32

record header_out_runtime =
  ho_ptr0 :: addr
  ho_ptr :: addr
  ho_n_bytes :: u32

record swx_pkt =
  pkt_pkt :: addr
  pkt_offset :: u32
  pkt_length :: u32

record thread =
  t_mem :: mem
  t_pkt :: swx_pkt
  t_ptr :: addr
  mirroring_slots :: "nat \<Rightarrow> u32"
  mirroring_slots_mask :: u64
  recirculate :: bool
  recirc_pass_id :: u32
  structs :: "nat \<Rightarrow> addr"
  headers :: "nat \<Rightarrow> header_runtime"
  headers_out :: "nat \<Rightarrow> header_out_runtime"
  header_out_storage :: addr
  valid_headers :: u64
  n_headers_out :: u32
  metadata :: addr
  t_action_id :: u64
  t_hit :: bool
  t_learner_id :: u32
  t_time :: u64
  t_ip :: nat
  t_ret :: nat

section \<open>Bit masks of header identifiers\<close>

definition MASK64_BIT_GET :: "u64 \<Rightarrow> nat \<Rightarrow> u64" where
  "MASK64_BIT_GET msk pos = msk AND push_bit pos 1"

definition MASK64_BIT_SET :: "u64 \<Rightarrow> nat \<Rightarrow> u64" where
  "MASK64_BIT_SET msk pos = msk OR push_bit pos 1"

definition MASK64_BIT_CLR :: "u64 \<Rightarrow> nat \<Rightarrow> u64" where
  "MASK64_BIT_CLR msk pos = msk AND NOT (push_bit pos 1)"

definition HEADER_VALID :: "thread \<Rightarrow> nat \<Rightarrow> bool" where
  "HEADER_VALID t header_id \<longleftrightarrow> MASK64_BIT_GET (valid_headers t) header_id \<noteq> 0"

lemma MASK64_BIT_GET_iff: "pos < 64 \<Longrightarrow> MASK64_BIT_GET msk pos \<noteq> 0 \<longleftrightarrow> bit msk pos"
  by (simp add: MASK64_BIT_GET_def push_bit_eq_mult bit_iff_and_push_bit_not_eq_0)

lemma bit_MASK64_BIT_SET:
  "bit (MASK64_BIT_SET msk pos) k \<longleftrightarrow> bit msk k \<or> (k = pos \<and> pos < 64)"
  by (auto simp: MASK64_BIT_SET_def bit_or_iff bit_push_bit_iff bit_1_iff bit_exp_iff)

lemma bit_MASK64_BIT_CLR:
  "bit (MASK64_BIT_CLR msk pos) k \<longleftrightarrow> bit msk k \<and> k \<noteq> pos"
proof -
  have "bit msk k \<Longrightarrow> k < 64" using bit_imp_le_length [of msk k] by simp
  then show ?thesis
    by (auto simp: MASK64_BIT_CLR_def bit_and_iff bit_not_iff bit_push_bit_iff bit_1_iff bit_exp_iff)
qed

section \<open>Operand accesses\<close>

definition op_addr :: "thread \<Rightarrow> instr_operand \<Rightarrow> addr" where
  "op_addr t x = structs t (op_struct_id x) + op_offset x"

definition instr_operand_hbo :: "thread \<Rightarrow> instr_operand \<Rightarrow> u64" where
  "instr_operand_hbo t x =
     (let x64 = load64 (t_mem t) (op_addr t x);
          x64_mask = mask64 (op_n_bits x)
      in x64 AND x64_mask)"

definition instr_operand_nbo :: "thread \<Rightarrow> instr_operand \<Rightarrow> u64" where
  "instr_operand_nbo t x =
     (let x64 = load64 (t_mem t) (op_addr t x)
      in drop_bit (64 - op_n_bits x) (ntoh64 x64))"

lemma instr_operand_hbo_fld: "instr_operand_hbo t x = fld_hbo (t_mem t) (op_addr t x) (op_n_bits x)"
  by (simp add: instr_operand_hbo_def fld_hbo_def hbo_val_def)

lemma instr_operand_nbo_fld: "instr_operand_nbo t x = fld_nbo (t_mem t) (op_addr t x) (op_n_bits x)"
  by (simp add: instr_operand_nbo_def fld_nbo_def nbo_val_def)

definition METADATA_READ :: "thread \<Rightarrow> nat \<Rightarrow> nat \<Rightarrow> u64" where
  "METADATA_READ t offset n_bits =
     (let m64 = load64 (t_mem t) (metadata t + offset);
          m64_mask = mask64 n_bits
      in m64 AND m64_mask)"

definition METADATA_WRITE :: "thread \<Rightarrow> nat \<Rightarrow> nat \<Rightarrow> u64 \<Rightarrow> thread" where
  "METADATA_WRITE t offset n_bits value =
     (let a = metadata t + offset;
          m64 = load64 (t_mem t) a;
          m64_mask = mask64 n_bits
      in t\<lparr>t_mem := store64 (t_mem t) a ((m64 AND NOT m64_mask) OR (value AND m64_mask))\<rparr>)"

lemma METADATA_READ_fld: "METADATA_READ t off n = fld_hbo (t_mem t) (metadata t + off) n"
  by (simp add: METADATA_READ_def fld_hbo_def hbo_val_def)

lemma METADATA_WRITE_fld:
  "METADATA_WRITE t off n v = t\<lparr>t_mem := fld_put (t_mem t) (metadata t + off) n (v AND mask64 n)\<rparr>"
  by (simp add: METADATA_WRITE_def fld_put_def Let_def)

section \<open>Instruction pointer\<close>

definition thread_ip_set :: "thread \<Rightarrow> nat \<Rightarrow> thread" where
  "thread_ip_set t ip = t\<lparr>t_ip := ip\<rparr>"

definition thread_ip_inc :: "thread \<Rightarrow> thread" where
  "thread_ip_inc t = t\<lparr>t_ip := t_ip t + 1\<rparr>"

definition thread_ip_inc_cond :: "thread \<Rightarrow> bool \<Rightarrow> thread" where
  "thread_ip_inc_cond t cond = t\<lparr>t_ip := t_ip t + (if cond then 1 else 0)\<rparr>"

definition thread_ip_action_call :: "(nat \<Rightarrow> nat) \<Rightarrow> thread \<Rightarrow> nat \<Rightarrow> thread" where
  "thread_ip_action_call action_instructions t action_id =
     t\<lparr>t_ret := t_ip t + 1, t_ip := action_instructions action_id\<rparr>"

section \<open>A concrete thread\<close>

text \<open>
  A thread in the state after the build step, for the concrete runs that accompany the
  properties: byte \<open>a\<close> of its memory holds \<open>a mod 256\<close>, its structs lie at 0, 128, 256, ...
\<close>

definition ex_thread :: thread where
  "ex_thread =
     \<lparr>t_mem = word_of_nat, t_pkt = \<lparr>pkt_pkt = 1024, pkt_offset = 128, pkt_length = 64\<rparr>,
      t_ptr = 1152, mirroring_slots = (\<lambda>_. 0), mirroring_slots_mask = 0, recirculate = False,
      recirc_pass_id = 0, structs = (\<lambda>i. 128 * i),
      headers = (\<lambda>i. \<lparr>hr_ptr0 = 4096 + 128 * i, hr_n_bytes = 20\<rparr>),
      headers_out = (\<lambda>_. \<lparr>ho_ptr0 = 0, ho_ptr = 0, ho_n_bytes = 0\<rparr>),
      header_out_storage = 8192, valid_headers = 0, n_headers_out = 0, metadata = 16384,
      t_action_id = 0, t_hit = False, t_learner_id = 0, t_time = 0, t_ip = 0, t_ret = 0\<rparr>"

end
