(* ===== verification/SwxAlu.thy ===== *)
theory SwxAlu
  imports SwxThread
begin

text \<open>
  The arithmetic, logic, move and compare instructions of the data plane: the macros
  \<open>ALU_*\<close>, \<open>MOV_*\<close>, \<open>JMP_CMP_*\<close> and the instruction bodies \<open>__instr_mov_*_exec\<close> and
  \<open>__instr_alu_*_exec\<close> made of them. The suffixes give the byte order of destination and
  source: M (or none) for meta-data in host order, H for header fields in network order,
  I for an immediate value.
\<close>

section \<open>The ALU macros\<close>

definition ALU :: "thread \<Rightarrow> instr_dst_src \<Rightarrow> (u64 \<Rightarrow> u64 \<Rightarrow> u64) \<Rightarrow> thread" where
  "ALU t ip opr =
     (let dst64_ptr = op_addr t (ds_dst ip);
          dst64 = load64 (t_mem t) dst64_ptr;
          dst64_mask = mask64 (op_n_bits (ds_dst ip));
          dst = dst64 AND dst64_mask;
          src64 = load64 (t_mem t) (op_addr t (ds_src ip));
          src64_mask = mask64 (op_n_bits (ds_src ip));
          src = src64 AND src64_mask;
          result = opr dst src
      in t\<lparr>t_mem := store64 (t_mem t) dst64_ptr
             ((dst64 AND NOT dst64_mask) OR (result AND dst64_mask))\<rparr>)"

definition ALU_MH :: "thread \<Rightarrow> instr_dst_src \<Rightarrow> (u64 \<Rightarrow> u64 \<Rightarrow> u64) \<Rightarrow> thread" where
  "ALU_MH t ip opr =
     (let dst64_ptr = op_addr t (ds_dst ip);
          dst64 = load64 (t_mem t) dst64_ptr;
          dst64_mask = mask64 (op_n_bits (ds_dst ip));
          dst = dst64 AND dst64_mask;
          src64 = load64 (t_mem t) (op_addr t (ds_src ip));
          src = drop_bit (64 - op_n_bits (ds_src ip)) (ntoh64 src64);
          result = opr dst src
      in t\<lparr>t_mem := store64 (t_mem t) dst64_ptr
             ((dst64 AND NOT dst64_mask) OR (result AND dst64_mask))\<rparr>)"

definition ALU_HM :: "thread \<Rightarrow> instr_dst_src \<Rightarrow> (u64 \<Rightarrow> u64 \<Rightarrow> u64) \<Rightarrow> thread" where
  "ALU_HM t ip opr =
     (let dst64_ptr = op_addr t (ds_dst ip);
          dst64 = load64 (t_mem t) dst64_ptr;
          dst64_mask = mask64 (op_n_bits (ds_dst ip));
          dst = drop_bit (64 - op_n_bits (ds_dst ip)) (ntoh64 dst64);
          src64 = load64 (t_mem t) (op_addr t (ds_src ip));
          src64_mask = mask64 (op_n_bits (ds_src ip));
          src = src64 AND src64_mask;
          result = opr dst src;
          result = hton64 (push_bit (64 - op_n_bits (ds_dst ip)) result)
      in t\<lparr>t_mem := store64 (t_mem t) dst64_ptr ((dst64 AND NOT dst64_mask) OR result)\<rparr>)"

definition ALU_HM_FAST :: "thread \<Rightarrow> instr_dst_src \<Rightarrow> (u64 \<Rightarrow> u64 \<Rightarrow> u64) \<Rightarrow> thread" where
  "ALU_HM_FAST t ip opr =
     (let dst64_ptr = op_addr t (ds_dst ip);
          dst64 = load64 (t_mem t) dst64_ptr;
          dst64_mask = mask64 (op_n_bits (ds_dst ip));
          dst = dst64 AND dst64_mask;
          src64 = load64 (t_mem t) (op_addr t (ds_src ip));
          src64_mask = mask64 (op_n_bits (ds_src ip));
          src = drop_bit (64 - op_n_bits (ds_dst ip)) (hton64 (src64 AND src64_mask));
          result = opr dst src
      in t\<lparr>t_mem := store64 (t_mem t) dst64_ptr ((dst64 AND NOT dst64_mask) OR result)\<rparr>)"

definition ALU_HH :: "thread \<Rightarrow> instr_dst_src \<Rightarrow> (u64 \<Rightarrow> u64 \<Rightarrow> u64) \<Rightarrow> thread" where
  "ALU_HH t ip opr =
     (let dst64_ptr = op_addr t (ds_dst ip);
          dst64 = load64 (t_mem t) dst64_ptr;
          dst64_mask = mask64 (op_n_bits (ds_dst ip));
          dst = drop_bit (64 - op_n_bits (ds_dst ip)) (ntoh64 dst64);
          src64 = load64 (t_mem t) (op_addr t (ds_src ip));
          src = drop_bit (64 - op_n_bits (ds_src ip)) (ntoh64 src64);
          result = opr dst src;
          result = hton64 (push_bit (64 - op_n_bits (ds_dst ip)) result)
      in t\<lparr>t_mem := store64 (t_mem t) dst64_ptr ((dst64 AND NOT dst64_mask) OR result)\<rparr>)"

definition ALU_HH_FAST :: "thread \<Rightarrow> instr_dst_src \<Rightarrow> (u64 \<Rightarrow> u64 \<Rightarrow> u64) \<Rightarrow> thread" where
  "ALU_HH_FAST t ip opr =
     (let dst64_ptr = op_addr t (ds_dst ip);
          dst64 = load64 (t_mem t) dst64_ptr;
          dst64_mask = mask64 (op_n_bits (ds_dst ip));
          dst = dst64 AND dst64_mask;
          src64 = load64 (t_mem t) (op_addr t (ds_src ip));
          src = drop_bit (64 - op_n_bits (ds_dst ip)) (push_bit (64 - op_n_bits (ds_src ip)) src64);
          result = opr dst src
      in t\<lparr>t_mem := store64 (t_mem t) dst64_ptr ((dst64 AND NOT dst64_mask) OR result)\<rparr>)"

definition ALU_I :: "thread \<Rightarrow> instr_dst_src \<Rightarrow> (u64 \<Rightarrow> u64 \<Rightarrow> u64) \<Rightarrow> thread" where
  "ALU_I t ip opr =
     (let dst64_ptr = op_addr t (ds_dst ip);
          dst64 = load64 (t_mem t) dst64_ptr;
          dst64_mask = mask64 (op_n_bits (ds_dst ip));
          dst = dst64 AND dst64_mask;
          src = ds_src_val ip;
          result = opr dst src
      in t\<lparr>t_mem := store64 (t_mem t) dst64_ptr
             ((dst64 AND NOT dst64_mask) OR (result AND dst64_mask))\<rparr>)"

abbreviation ALU_MI :: "thread \<Rightarrow> instr_dst_src \<Rightarrow> (u64 \<Rightarrow> u64 \<Rightarrow> u64) \<Rightarrow> thread" where
  "ALU_MI \<equiv> ALU_I"

definition ALU_HI :: "thread \<Rightarrow> instr_dst_src \<Rightarrow> (u64 \<Rightarrow> u64 \<Rightarrow> u64) \<Rightarrow> thread" where
  "ALU_HI t ip opr =
     (let dst64_ptr = op_addr t (ds_dst ip);
          dst64 = load64 (t_mem t) dst64_ptr;
          dst64_mask = mask64 (op_n_bits (ds_dst ip));
          dst = drop_bit (64 - op_n_bits (ds_dst ip)) (ntoh64 dst64);
          src = ds_src_val ip;
          result = opr dst src;
          result = hton64 (push_bit (64 - op_n_bits (ds_dst ip)) result)
      in t\<lparr>t_mem := store64 (t_mem t) dst64_ptr ((dst64 AND NOT dst64_mask) OR result)\<rparr>)"

section \<open>The MOV macros\<close>

definition MOV :: "thread \<Rightarrow> instr_dst_src \<Rightarrow> thread" where
  "MOV t ip =
     (let dst64_ptr = op_addr t (ds_dst ip);
          dst64 = load64 (t_mem t) dst64_ptr;
          dst64_mask = mask64 (op_n_bits (ds_dst ip));
          src64 = load64 (t_mem t) (op_addr t (ds_src ip));
          src64_mask = mask64 (op_n_bits (ds_src ip));
          src = src64 AND src64_mask
      in t\<lparr>t_mem := store64 (t_mem t) dst64_ptr
             ((dst64 AND NOT dst64_mask) OR (src AND dst64_mask))\<rparr>)"

definition MOV_MH :: "thread \<Rightarrow> instr_dst_src \<Rightarrow> thread" where
  "MOV_MH t ip =
     (let dst64_ptr = op_addr t (ds_dst ip);
          dst64 = load64 (t_mem t) dst64_ptr;
          dst64_mask = mask64 (op_n_bits (ds_dst ip));
          src64 = load64 (t_mem t) (op_addr t (ds_src ip));
          src = drop_bit (64 - op_n_bits (ds_src ip)) (ntoh64 src64)
      in t\<lparr>t_mem := store64 (t_mem t) dst64_ptr
             ((dst64 AND NOT dst64_mask) OR (src AND dst64_mask))\<rparr>)"

definition MOV_HM :: "thread \<Rightarrow> instr_dst_src \<Rightarrow> thread" where
  "MOV_HM t ip =
     (let dst64_ptr = op_addr t (ds_dst ip);
          dst64 = load64 (t_mem t) dst64_ptr;
          dst64_mask = mask64 (op_n_bits (ds_dst ip));
          src64 = load64 (t_mem t) (op_addr t (ds_src ip));
          src64_mask = mask64 (op_n_bits (ds_src ip));
          src = src64 AND src64_mask;
          src = drop_bit (64 - op_n_bits (ds_dst ip)) (hton64 src)
      in t\<lparr>t_mem := store64 (t_mem t) dst64_ptr ((dst64 AND NOT dst64_mask) OR src)\<rparr>)"

definition MOV_HH :: "thread \<Rightarrow> instr_dst_src \<Rightarrow> thread" where
  "MOV_HH t ip =
     (let dst64_ptr = op_addr t (ds_dst ip);
          dst64 = load64 (t_mem t) dst64_ptr;
          dst64_mask = mask64 (op_n_bits (ds_dst ip));
          src64 = load64 (t_mem t) (op_addr t (ds_src ip));
          src = push_bit (64 - op_n_bits (ds_src ip)) src64;
          src = drop_bit (64 - op_n_bits (ds_dst ip)) src
      in t\<lparr>t_mem := store64 (t_mem t) dst64_ptr ((dst64 AND NOT dst64_mask) OR src)\<rparr>)"

definition MOV_I :: "thread \<Rightarrow> instr_dst_src \<Rightarrow> thread" where
  "MOV_I t ip =
     (let dst64_ptr = op_addr t (ds_dst ip);
          dst64 = load64 (t_mem t) dst64_ptr;
          dst64_mask = mask64 (op_n_bits (ds_dst ip));
          src = ds_src_val ip
      in t\<lparr>t_mem := store64 (t_mem t) dst64_ptr
             ((dst64 AND NOT dst64_mask) OR (src AND dst64_mask))\<rparr>)"

section \<open>The compare and jump macros\<close>

record instr_jmp =
  jmp_ip :: nat
  jmp_a :: instr_operand
  jmp_header_id :: nat
  jmp_action_id :: nat
  jmp_b :: instr_operand
  jmp_b_val :: u64

definition JMP_CMP :: "thread \<Rightarrow> instr_jmp \<Rightarrow> (u64 \<Rightarrow> u64 \<Rightarrow> bool) \<Rightarrow> thread" where
  "JMP_CMP t ip opr =
     (let a64 = load64 (t_mem t) (op_addr t (jmp_a ip));
          a = a64 AND mask64 (op_n_bits (jmp_a ip));
          b64 = load64 (t_mem t) (op_addr t (jmp_b ip));
          b = b64 AND mask64 (op_n_bits (jmp_b ip))
      in t\<lparr>t_ip := (if opr a b then jmp_ip ip else t_ip t + 1)\<rparr>)"

definition JMP_CMP_MH :: "thread \<Rightarrow> instr_jmp \<Rightarrow> (u64 \<Rightarrow> u64 \<Rightarrow> bool) \<Rightarrow> thread" where
  "JMP_CMP_MH t ip opr =
     (let a64 = load64 (t_mem t) (op_addr t (jmp_a ip));
          a = a64 AND mask64 (op_n_bits (jmp_a ip));
          b64 = load64 (t_mem t) (op_addr t (jmp_b ip));
          b = drop_bit (64 - op_n_bits (jmp_b ip)) (ntoh64 b64)
      in t\<lparr>t_ip := (if opr a b then jmp_ip ip else t_ip t + 1)\<rparr>)"

definition JMP_CMP_HM :: "thread \<Rightarrow> instr_jmp \<Rightarrow> (u64 \<Rightarrow> u64 \<Rightarrow> bool) \<Rightarrow> thread" where
  "JMP_CMP_HM t ip opr =
     (let a64 = load64 (t_mem t) (op_addr t (jmp_a ip));
          a = drop_bit (64 - op_n_bits (jmp_a ip)) (ntoh64 a64);
          b64 = load64 (t_mem t) (op_addr t (jmp_b ip));
          b = b64 AND mask64 (op_n_bits (jmp_b ip))
      in t\<lparr>t_ip := (if opr a b then jmp_ip ip else t_ip t + 1)\<rparr>)"

definition JMP_CMP_HH :: "thread \<Rightarrow> instr_jmp \<Rightarrow> (u64 \<Rightarrow> u64 \<Rightarrow> bool) \<Rightarrow> thread" where
  "JMP_CMP_HH t ip opr =
     (let a64 = load64 (t_mem t) (op_addr t (jmp_a ip));
          a = drop_bit (64 - op_n_bits (jmp_a ip)) (ntoh64 a64);
          b64 = load64 (t_mem t) (op_addr t (jmp_b ip));
          b = drop_bit (64 - op_n_bits (jmp_b ip)) (ntoh64 b64)
      in t\<lparr>t_ip := (if opr a b then jmp_ip ip else t_ip t + 1)\<rparr>)"

definition JMP_CMP_HH_FAST :: "thread \<Rightarrow> instr_jmp \<Rightarrow> (u64 \<Rightarrow> u64 \<Rightarrow> bool) \<Rightarrow> thread" where
  "JMP_CMP_HH_FAST t ip opr =
     (let a64 = load64 (t_mem t) (op_addr t (jmp_a ip));
          a = push_bit (64 - op_n_bits (jmp_a ip)) a64;
          b64 = load64 (t_mem t) (op_addr t (jmp_b ip));
          b = push_bit (64 - op_n_bits (jmp_b ip)) b64
      in t\<lparr>t_ip := (if opr a b then jmp_ip ip else t_ip t + 1)\<rparr>)"

definition JMP_CMP_I :: "thread \<Rightarrow> instr_jmp \<Rightarrow> (u64 \<Rightarrow> u64 \<Rightarrow> bool) \<Rightarrow> thread" where
  "JMP_CMP_I t ip opr =
     (let a64 = load64 (t_mem t) (op_addr t (jmp_a ip));
          a = a64 AND mask64 (op_n_bits (jmp_a ip));
          b = jmp_b_val ip
      in t\<lparr>t_ip := (if opr a b then jmp_ip ip else t_ip t + 1)\<rparr>)"

abbreviation JMP_CMP_MI :: "thread \<Rightarrow> instr_jmp \<Rightarrow> (u64 \<Rightarrow> u64 \<Rightarrow> bool) \<Rightarrow> thread" where
  "JMP_CMP_MI \<equiv> JMP_CMP_I"

definition JMP_CMP_HI :: "thread \<Rightarrow> instr_jmp \<Rightarrow> (u64 \<Rightarrow> u64 \<Rightarrow> bool) \<Rightarrow> thread" where
  "JMP_CMP_HI t ip opr =
     (let a64 = load64 (t_mem t) (op_addr t (jmp_a ip));
          a = drop_bit (64 - op_n_bits (jmp_a ip)) (ntoh64 a64);
          b = jmp_b_val ip
      in t\<lparr>t_ip := (if opr a b then jmp_ip ip else t_ip t + 1)\<rparr>)"

section \<open>The instruction bodies\<close>

text \<open>The C shifts of a 64-bit value by a variable, as the x86-64 instructions compute them.\<close>

definition c_shl :: "u64 \<Rightarrow> u64 \<Rightarrow> u64" where
  "c_shl x s = push_bit (unat (s AND 63)) x"

definition c_shr :: "u64 \<Rightarrow> u64 \<Rightarrow> u64" where
  "c_shr x s = drop_bit (unat (s AND 63)) x"

definition instr_mov_exec :: "thread \<Rightarrow> instr_dst_src \<Rightarrow> thread" where
  "instr_mov_exec t ip = MOV t ip"

definition instr_mov_mh_exec :: "thread \<Rightarrow> instr_dst_src \<Rightarrow> thread" where
  "instr_mov_mh_exec t ip = MOV_MH t ip"

definition instr_mov_hm_exec :: "thread \<Rightarrow> instr_dst_src \<Rightarrow> thread" where
  "instr_mov_hm_exec t ip = MOV_HM t ip"

definition instr_mov_hh_exec :: "thread \<Rightarrow> instr_dst_src \<Rightarrow> thread" where
  "instr_mov_hh_exec t ip = MOV_HH t ip"

definition instr_mov_i_exec :: "thread \<Rightarrow> instr_dst_src \<Rightarrow> thread" where
  "instr_mov_i_exec t ip = MOV_I t ip"

definition instr_alu_add_exec :: "thread \<Rightarrow> instr_dst_src \<Rightarrow> thread" where
  "instr_alu_add_exec t ip = ALU t ip (+)"

definition instr_alu_add_mh_exec :: "thread \<Rightarrow> instr_dst_src \<Rightarrow> thread" where
  "instr_alu_add_mh_exec t ip = ALU_MH t ip (+)"

definition instr_alu_add_hm_exec :: "thread \<Rightarrow> instr_dst_src \<Rightarrow> thread" where
  "instr_alu_add_hm_exec t ip = ALU_HM t ip (+)"

definition instr_alu_add_hh_exec :: "thread \<Rightarrow> instr_dst_src \<Rightarrow> thread" where
  "instr_alu_add_hh_exec t ip = ALU_HH t ip (+)"

definition instr_alu_add_mi_exec :: "thread \<Rightarrow> instr_dst_src \<Rightarrow> thread" where
  "instr_alu_add_mi_exec t ip = ALU_MI t ip (+)"

definition instr_alu_add_hi_exec :: "thread \<Rightarrow> instr_dst_src \<Rightarrow> thread" where
  "instr_alu_add_hi_exec t ip = ALU_HI t ip (+)"

definition instr_alu_sub_exec :: "thread \<Rightarrow> instr_dst_src \<Rightarrow> thread" where
  "instr_alu_sub_exec t ip = ALU t ip (-)"

definition instr_alu_sub_mh_exec :: "thread \<Rightarrow> instr_dst_src \<Rightarrow> thread" where
  "instr_alu_sub_mh_exec t ip = ALU_MH t ip (-)"

definition instr_alu_sub_hm_exec :: "thread \<Rightarrow> instr_dst_src \<Rightarrow> thread" where
  "instr_alu_sub_hm_exec t ip = ALU_HM t ip (-)"

definition instr_alu_sub_hh_exec :: "thread \<Rightarrow> instr_dst_src \<Rightarrow> thread" where
  "instr_alu_sub_hh_exec t ip = ALU_HH t ip (-)"

definition instr_alu_sub_mi_exec :: "thread \<Rightarrow> instr_dst_src \<Rightarrow> thread" where
  "instr_alu_sub_mi_exec t ip = ALU_MI t ip (-)"

definition instr_alu_sub_hi_exec :: "thread \<Rightarrow> instr_dst_src \<Rightarrow> thread" where
  "instr_alu_sub_hi_exec t ip = ALU_HI t ip (-)"

definition instr_alu_shl_exec :: "thread \<Rightarrow> instr_dst_src \<Rightarrow> thread" where
  "instr_alu_shl_exec t ip = ALU t ip c_shl"

definition instr_alu_shl_mh_exec :: "thread \<Rightarrow> instr_dst_src \<Rightarrow> thread" where
  "instr_alu_shl_mh_exec t ip = ALU_MH t ip c_shl"

definition instr_alu_shl_hm_exec :: "thread \<Rightarrow> instr_dst_src \<Rightarrow> thread" where
  "instr_alu_shl_hm_exec t ip = ALU_HM t ip c_shl"

definition instr_alu_shl_hh_exec :: "thread \<Rightarrow> instr_dst_src \<Rightarrow> thread" where
  "instr_alu_shl_hh_exec t ip = ALU_HH t ip c_shl"

definition instr_alu_shl_mi_exec :: "thread \<Rightarrow> instr_dst_src \<Rightarrow> thread" where
  "instr_alu_shl_mi_exec t ip = ALU_MI t ip c_shl"

definition instr_alu_shl_hi_exec :: "thread \<Rightarrow> instr_dst_src \<Rightarrow> thread" where
  "instr_alu_shl_hi_exec t ip = ALU_HI t ip c_shl"

definition instr_alu_shr_exec :: "thread \<Rightarrow> instr_dst_src \<Rightarrow> thread" where
  "instr_alu_shr_exec t ip = ALU t ip c_shr"

definition instr_alu_shr_mh_exec :: "thread \<Rightarrow> instr_dst_src \<Rightarrow> thread" where
  "instr_alu_shr_mh_exec t ip = ALU_MH t ip c_shr"

definition instr_alu_shr_hm_exec :: "thread \<Rightarrow> instr_dst_src \<Rightarrow> thread" where
  "instr_alu_shr_hm_exec t ip = ALU_HM t ip c_shr"

definition instr_alu_shr_hh_exec :: "thread \<Rightarrow> instr_dst_src \<Rightarrow> thread" where
  "instr_alu_shr_hh_exec t ip = ALU_HH t ip c_shr"

definition instr_alu_shr_mi_exec :: "thread \<Rightarrow> instr_dst_src \<Rightarrow> thread" where
  "instr_alu_shr_mi_exec t ip = ALU_MI t ip c_shr"

definition instr_alu_shr_hi_exec :: "thread \<Rightarrow> instr_dst_src \<Rightarrow> thread" where
  "instr_alu_shr_hi_exec t ip = ALU_HI t ip c_shr"

definition instr_alu_and_exec :: "thread \<Rightarrow> instr_dst_src \<Rightarrow> thread" where
  "instr_alu_and_exec t ip = ALU t ip (AND)"

definition instr_alu_and_mh_exec :: "thread \<Rightarrow> instr_dst_src \<Rightarrow> thread" where
  "instr_alu_and_mh_exec t ip = ALU_MH t ip (AND)"

definition instr_alu_and_hm_exec :: "thread \<Rightarrow> instr_dst_src \<Rightarrow> thread" where
  "instr_alu_and_hm_exec t ip = ALU_HM_FAST t ip (AND)"

definition instr_alu_and_hh_exec :: "thread \<Rightarrow> instr_dst_src \<Rightarrow> thread" where
  "instr_alu_and_hh_exec t ip = ALU_HH_FAST t ip (AND)"

definition instr_alu_and_i_exec :: "thread \<Rightarrow> instr_dst_src \<Rightarrow> thread" where
  "instr_alu_and_i_exec t ip = ALU_I t ip (AND)"

definition instr_alu_or_exec :: "thread \<Rightarrow> instr_dst_src \<Rightarrow> thread" where
  "instr_alu_or_exec t ip = ALU t ip (OR)"

definition instr_alu_or_mh_exec :: "thread \<Rightarrow> instr_dst_src \<Rightarrow> thread" where
  "instr_alu_or_mh_exec t ip = ALU_MH t ip (OR)"

definition instr_alu_or_hm_exec :: "thread \<Rightarrow> instr_dst_src \<Rightarrow> thread" where
  "instr_alu_or_hm_exec t ip = ALU_HM_FAST t ip (OR)"

definition instr_alu_or_hh_exec :: "thread \<Rightarrow> instr_dst_src \<Rightarrow> thread" where
  "instr_alu_or_hh_exec t ip = ALU_HH_FAST t ip (OR)"

definition instr_alu_or_i_exec :: "thread \<Rightarrow> instr_dst_src \<Rightarrow> thread" where
  "instr_alu_or_i_exec t ip = ALU_I t ip (OR)"

definition instr_alu_xor_exec :: "thread \<Rightarrow> instr_dst_src \<Rightarrow> thread" where
  "instr_alu_xor_exec t ip = ALU t ip (XOR)"

definition instr_alu_xor_mh_exec :: "thread \<Rightarrow> instr_dst_src \<Rightarrow> thread" where
  "instr_alu_xor_mh_exec t ip = ALU_MH t ip (XOR)"

definition instr_alu_xor_hm_exec :: "thread \<Rightarrow> instr_dst_src \<Rightarrow> thread" where
  "instr_alu_xor_hm_exec t ip = ALU_HM_FAST t ip (XOR)"

definition instr_alu_xor_hh_exec :: "thread \<Rightarrow> instr_dst_src \<Rightarrow> thread" where
  "instr_alu_xor_hh_exec t ip = ALU_HH_FAST t ip (XOR)"

definition instr_alu_xor_i_exec :: "thread \<Rightarrow> instr_dst_src \<Rightarrow> thread" where
  "instr_alu_xor_i_exec t ip = ALU_I t ip (XOR)"

section \<open>Reference semantics\<close>

text \<open>
  What an instruction means: the value of an operand is a number, and a result is stored
  modulo two to the width of the destination, in the byte order of the destination.
\<close>

definition put_hbo :: "thread \<Rightarrow> instr_operand \<Rightarrow> u64 \<Rightarrow> thread" where
  "put_hbo t x v = t\<lparr>t_mem := fld_put (t_mem t) (op_addr t x) (op_n_bits x) (v AND mask64 (op_n_bits x))\<rparr>"

definition put_nbo :: "thread \<Rightarrow> instr_operand \<Rightarrow> u64 \<Rightarrow> thread" where
  "put_nbo t x v = t\<lparr>t_mem := fld_put (t_mem t) (op_addr t x) (op_n_bits x) (nbo_bits v (op_n_bits x))\<rparr>"

abbreviation op_sized :: "instr_operand \<Rightarrow> bool" where
  "op_sized x \<equiv> byte_sized (op_n_bits x)"

lemma op_addr_t_mem [simp]: "op_addr (t\<lparr>t_mem := m\<rparr>) x = op_addr t x"
  by (simp add: op_addr_def)

lemma op_addr_put [simp]: "op_addr (put_hbo t x v) y = op_addr t y" "op_addr (put_nbo t x v) y = op_addr t y"
  by (simp_all add: put_hbo_def put_nbo_def)

lemma hbo_put_hbo: "op_n_bits x \<le> 64 \<Longrightarrow> instr_operand_hbo (put_hbo t x v) x = take_bit (op_n_bits x) v"
  by (simp add: instr_operand_hbo_fld put_hbo_def fld_hbo_put and_mask64_take_bit)

lemma nbo_put_nbo: "op_sized x \<Longrightarrow> instr_operand_nbo (put_nbo t x v) x = take_bit (op_n_bits x) v"
  by (simp add: instr_operand_nbo_fld put_nbo_def fld_nbo_put take_bit_nbo_bits nbo_val_nbo_bits)

lemma put_hbo_frame:
  "op_sized x \<Longrightarrow> y < op_addr t x \<or> op_addr t x + op_n_bits x div 8 \<le> y \<Longrightarrow>
   t_mem (put_hbo t x v) y = t_mem t y"
  unfolding put_hbo_def
  by simp (rule fld_put_frame, simp_all only: take_bit_and_mask64 byte_sized_le)

lemma put_nbo_frame:
  "op_sized x \<Longrightarrow> y < op_addr t x \<or> op_addr t x + op_n_bits x div 8 \<le> y \<Longrightarrow>
   t_mem (put_nbo t x v) y = t_mem t y"
  unfolding put_nbo_def by simp (rule fld_put_frame, simp_all add: take_bit_nbo_bits)

section \<open>The macros against the reference\<close>

lemmas macro_defs = ALU_def ALU_MH_def ALU_HM_def ALU_HH_def ALU_I_def ALU_HI_def
  MOV_def MOV_MH_def MOV_HM_def MOV_I_def ALU_HM_FAST_def ALU_HH_FAST_def MOV_HH_def
  instr_operand_hbo_def instr_operand_nbo_def put_hbo_def put_nbo_def fld_put_def Let_def

lemma ALU_ref: "ALU t ip f = put_hbo t (ds_dst ip)
    (f (instr_operand_hbo t (ds_dst ip)) (instr_operand_hbo t (ds_src ip)))"
  by (simp add: macro_defs)

lemma ALU_MH_ref: "ALU_MH t ip f = put_hbo t (ds_dst ip)
    (f (instr_operand_hbo t (ds_dst ip)) (instr_operand_nbo t (ds_src ip)))"
  by (simp add: macro_defs)

lemma ALU_I_ref: "ALU_I t ip f = put_hbo t (ds_dst ip)
    (f (instr_operand_hbo t (ds_dst ip)) (ds_src_val ip))"
  by (simp add: macro_defs)

lemma ALU_HM_ref: "op_sized (ds_dst ip) \<Longrightarrow> ALU_HM t ip f = put_nbo t (ds_dst ip)
    (f (instr_operand_nbo t (ds_dst ip)) (instr_operand_hbo t (ds_src ip)))"
  by (simp add: macro_defs hton64_push_bit)

lemma ALU_HH_ref: "op_sized (ds_dst ip) \<Longrightarrow> ALU_HH t ip f = put_nbo t (ds_dst ip)
    (f (instr_operand_nbo t (ds_dst ip)) (instr_operand_nbo t (ds_src ip)))"
  by (simp add: macro_defs hton64_push_bit)

lemma ALU_HI_ref: "op_sized (ds_dst ip) \<Longrightarrow> ALU_HI t ip f = put_nbo t (ds_dst ip)
    (f (instr_operand_nbo t (ds_dst ip)) (ds_src_val ip))"
  by (simp add: macro_defs hton64_push_bit)

lemma MOV_ref: "MOV t ip = put_hbo t (ds_dst ip) (instr_operand_hbo t (ds_src ip))"
  by (simp add: macro_defs)

lemma MOV_MH_ref: "MOV_MH t ip = put_hbo t (ds_dst ip) (instr_operand_nbo t (ds_src ip))"
  by (simp add: macro_defs)

lemma MOV_HM_ref: "MOV_HM t ip = put_nbo t (ds_dst ip) (instr_operand_hbo t (ds_src ip))"
  by (simp add: macro_defs nbo_bits_def)

lemma MOV_I_ref: "MOV_I t ip = put_hbo t (ds_dst ip) (ds_src_val ip)"
  by (simp add: macro_defs)

text \<open>The shift pairs of the fast variants convert between two network order fields.\<close>

lemma shift_pair_nbo:
  assumes "byte_sized ns" and "byte_sized nd"
  shows "drop_bit (64 - nd) (push_bit (64 - ns) x) = nbo_bits (nbo_val x ns) nd"
proof -
  obtain js where js: "ns = 8 * js" "0 < js" "js \<le> 8" using assms(1) by (rule byte_sizedE)
  obtain jd where jd: "nd = 8 * jd" "0 < jd" "jd \<le> 8" using assms(2) by (rule byte_sizedE)
  show ?thesis unfolding js(1) jd(1)
  proof (rule bit_word_eqI)
    fix k assume "k < LENGTH(64)"
    let ?i = "8 * (jd - 1 - k div 8) + k mod 8"
    have L: "bit (drop_bit (64 - 8 * jd) (push_bit (64 - 8 * js) x)) k \<longleftrightarrow>
      k < 8 * jd \<and> 8 * jd \<le> k + 8 * js \<and> bit x (k + 8 * js - 8 * jd)"
    proof -
      have "64 - 8 * jd + k - (64 - 8 * js) = k + 8 * js - 8 * jd" using js jd by arith
      moreover have "64 - 8 * js \<le> 64 - 8 * jd + k \<longleftrightarrow> 8 * jd \<le> k + 8 * js" using js jd by arith
      moreover have "64 - 8 * jd + k < 64 \<longleftrightarrow> k < 8 * jd" using jd by arith
      ultimately show ?thesis
        unfolding bit_drop_bit_eq o_def bit_push_bit_iff by auto
    qed
    have R: "bit (nbo_bits (nbo_val x (8 * js)) (8 * jd)) k \<longleftrightarrow>
      k < 8 * jd \<and> ?i < 8 * js \<and> bit x (8 * (js - 1 - (jd - 1 - k div 8)) + k mod 8)"
      using js jd by (simp add: nbo_bits_eq_nbo_val bit_nbo_val)
    show "bit (drop_bit (64 - 8 * jd) (push_bit (64 - 8 * js) x)) k =
      bit (nbo_bits (nbo_val x (8 * js)) (8 * jd)) k"
    proof (cases "k < 8 * jd")
      case True
      define q r where "q = k div 8" and "r = k mod 8"
      have k: "k = 8 * q + r" "r < 8" "q < jd" using True by (auto simp: q_def r_def)
      then obtain d where d: "jd = q + 1 + d" using less_iff_Suc_add by auto
      have c: "8 * d + r < 8 * js \<longleftrightarrow> 8 * jd \<le> 8 * q + r + 8 * js"
      proof (cases "d < js")
        case True
        then show ?thesis using k(2) d by auto
      next
        case False
        then have "8 * js \<le> 8 * d" by simp
        then show ?thesis using k(2) d by auto
      qed
      have e: "8 * (js - 1 - d) + r = 8 * q + r + 8 * js - 8 * jd" if "d < js"
        using that k(2) d by (simp add: algebra_simps)
      have i: "jd - 1 - k div 8 = d" "k mod 8 = r" using d by (simp_all add: q_def r_def)
      show ?thesis
      proof (cases "d < js")
        case True
        with c k(2) have "8 * jd \<le> 8 * q + r + 8 * js" "8 * d + r < 8 * js" by linarith+
        with \<open>k < 8 * jd\<close> show ?thesis unfolding L R i by (simp only: e [OF True] k(1))
      next
        case False
        then have "\<not> 8 * d + r < 8 * js" by simp
        with c show ?thesis unfolding L R i by (simp only: k(1)) simp
      qed
    qed (simp add: L R)
  qed
qed

lemma MOV_HH_ref:
  "op_sized (ds_dst ip) \<Longrightarrow> op_sized (ds_src ip) \<Longrightarrow>
   MOV_HH t ip = put_nbo t (ds_dst ip) (instr_operand_nbo t (ds_src ip))"
  by (simp add: macro_defs shift_pair_nbo nbo_val_def)

definition bitwise :: "(u64 \<Rightarrow> u64 \<Rightarrow> u64) \<Rightarrow> bool" where
  "bitwise f \<longleftrightarrow> (\<exists>b. \<not> b False False \<and> (\<forall>x y k. bit (f x y) k \<longleftrightarrow> b (bit x k) (bit y k)))"

lemma bitwise_ops: "bitwise (AND)" "bitwise (OR)" "bitwise (XOR)"
  unfolding bitwise_def
  by (rule exI [of _ "(\<and>)"], simp add: bit_and_iff)
     (rule exI [of _ "(\<or>)"], simp add: bit_or_iff, rule exI [of _ "(\<noteq>)"], simp add: bit_xor_iff)

lemma bitwise_nbo_bits:
  assumes "bitwise f" and "byte_sized n"
  shows "nbo_bits (f x y) n = f (nbo_bits x n) (nbo_bits y n)"
proof -
  obtain j where j: "n = 8 * j" "0 < j" "j \<le> 8" using assms(2) by (rule byte_sizedE)
  from assms(1) obtain b where b: "\<not> b False False" "\<And>x y k. bit (f x y) k \<longleftrightarrow> b (bit x k) (bit y k)"
    by (auto simp: bitwise_def)
  show ?thesis unfolding j(1) nbo_bits_eq_nbo_val
  proof (rule bit_word_eqI)
    fix k
    show "bit (nbo_val (f x y) (8 * j)) k = bit (f (nbo_val x (8 * j)) (nbo_val y (8 * j))) k"
      by (cases "k < 8 * j") (simp_all add: b bit_nbo_val j)
  qed
qed

lemma ALU_HM_FAST_ref:
  assumes "bitwise f" and "op_sized (ds_dst ip)"
  shows "ALU_HM_FAST t ip f = put_nbo t (ds_dst ip)
    (f (instr_operand_nbo t (ds_dst ip)) (instr_operand_hbo t (ds_src ip)))"
proof -
  have "nbo_bits (drop_bit (64 - op_n_bits (ds_dst ip)) (ntoh64 x)) (op_n_bits (ds_dst ip)) =
      x AND mask64 (op_n_bits (ds_dst ip))" for x
    using nbo_bits_nbo_val [OF assms(2), of x] assms(2)
    by (simp add: and_mask64_take_bit byte_sized_le nbo_val_def)
  then show ?thesis
    using assms by (simp add: macro_defs bitwise_nbo_bits) (simp add: nbo_bits_def)
qed

lemma ALU_HH_FAST_ref:
  assumes "bitwise f" and "op_sized (ds_dst ip)" and "op_sized (ds_src ip)"
  shows "ALU_HH_FAST t ip f = put_nbo t (ds_dst ip)
    (f (instr_operand_nbo t (ds_dst ip)) (instr_operand_nbo t (ds_src ip)))"
proof -
  have "nbo_bits (drop_bit (64 - op_n_bits (ds_dst ip)) (ntoh64 x)) (op_n_bits (ds_dst ip)) =
      x AND mask64 (op_n_bits (ds_dst ip))" for x
    using nbo_bits_nbo_val [OF assms(2), of x] assms(2)
    by (simp add: and_mask64_take_bit byte_sized_le nbo_val_def)
  then show ?thesis
    using assms by (simp add: macro_defs bitwise_nbo_bits shift_pair_nbo nbo_val_def)
qed

lemma JMP_CMP_HH_FAST_eq:
  assumes "op_sized (jmp_a ip)" and "op_sized (jmp_b ip)"
  shows "JMP_CMP_HH_FAST t ip (=) = JMP_CMP_HH t ip (=)"
    and "JMP_CMP_HH_FAST t ip (\<noteq>) = JMP_CMP_HH t ip (\<noteq>)"
proof -
  have full: "byte_sized 64" by (simp add: byte_sized_def)
  have sh: "push_bit (64 - n) x = nbo_bits (nbo_val x n) 64" if "byte_sized n" for n x
    using shift_pair_nbo [OF that full, of x] by simp
  have inj: "nbo_bits u 64 = nbo_bits v 64 \<longleftrightarrow> u = v" for u v
    by (simp add: nbo_bits_def)
  have "(push_bit (64 - op_n_bits (jmp_a ip)) x = push_bit (64 - op_n_bits (jmp_b ip)) y) \<longleftrightarrow>
    (nbo_val x (op_n_bits (jmp_a ip)) = nbo_val y (op_n_bits (jmp_b ip)))" for x y
    using assms by (simp only: sh inj)
  then show "JMP_CMP_HH_FAST t ip (=) = JMP_CMP_HH t ip (=)"
    and "JMP_CMP_HH_FAST t ip (\<noteq>) = JMP_CMP_HH t ip (\<noteq>)"
    by (simp_all add: JMP_CMP_HH_FAST_def JMP_CMP_HH_def nbo_val_def)
qed

section \<open>What the instructions compute\<close>

lemma op_addr_ref [simp]:
  "op_addr (MOV t ip) x = op_addr t x" "op_addr (MOV_HH t ip) x = op_addr t x"
  "op_addr (ALU_HM t ip f) x = op_addr t x" "op_addr (ALU_HH t ip f) x = op_addr t x"
  "op_addr (ALU_HI t ip f) x = op_addr t x" "op_addr (ALU t ip f) x = op_addr t x"
  by (simp_all add: MOV_def MOV_HH_def ALU_HM_def ALU_HH_def ALU_HI_def ALU_def Let_def)

lemmas alu_exec_defs =
  instr_alu_add_exec_def instr_alu_add_mh_exec_def instr_alu_add_hm_exec_def
  instr_alu_add_hh_exec_def instr_alu_add_mi_exec_def instr_alu_add_hi_exec_def
  instr_alu_sub_exec_def instr_alu_sub_mh_exec_def instr_alu_sub_hm_exec_def
  instr_alu_sub_hh_exec_def instr_alu_sub_mi_exec_def instr_alu_sub_hi_exec_def
  instr_alu_shl_hh_exec_def instr_alu_shr_hh_exec_def

text \<open>An instruction descriptor with a 16-bit header destination, for the concrete runs below.\<close>

definition ex_ip :: "nat \<Rightarrow> nat \<Rightarrow> instr_dst_src" where
  "ex_ip n_dst n_src =
     \<lparr>ds_dst = \<lparr>op_struct_id = 0, op_n_bits = n_dst, op_offset = 0\<rparr>,
      ds_src = \<lparr>op_struct_id = 0, op_n_bits = n_src, op_offset = 8\<rparr>, ds_src_val = 1\<rparr>"

lemma ex_ip_sel [simp]:
  "ds_dst (ex_ip a b) = \<lparr>op_struct_id = 0, op_n_bits = a, op_offset = 0\<rparr>"
  "ds_src (ex_ip a b) = \<lparr>op_struct_id = 0, op_n_bits = b, op_offset = 8\<rparr>"
  "ds_src_val (ex_ip a b) = 1"
  by (simp_all add: ex_ip_def)

lemma byte_sized_examples [simp]: "byte_sized 8" "byte_sized 16" "byte_sized 32" "byte_sized 48"
  by (simp_all add: byte_sized_def)

text \<open>
  The add and subtract instructions whose destination is a header field store, in network
  order, the sum or difference of the operands modulo two to the width of the field, whatever
  the byte order of the source; widths of source and destination may differ.
\<close>

theorem alu_header_arith:
  assumes "op_sized (ds_dst ip)"
  shows "instr_operand_nbo (instr_alu_add_hm_exec t ip) (ds_dst ip) =
       take_bit (op_n_bits (ds_dst ip)) (instr_operand_nbo t (ds_dst ip) + instr_operand_hbo t (ds_src ip)) \<and>
     instr_operand_nbo (instr_alu_add_hh_exec t ip) (ds_dst ip) =
       take_bit (op_n_bits (ds_dst ip)) (instr_operand_nbo t (ds_dst ip) + instr_operand_nbo t (ds_src ip)) \<and>
     instr_operand_nbo (instr_alu_add_hi_exec t ip) (ds_dst ip) =
       take_bit (op_n_bits (ds_dst ip)) (instr_operand_nbo t (ds_dst ip) + ds_src_val ip) \<and>
     instr_operand_nbo (instr_alu_sub_hm_exec t ip) (ds_dst ip) =
       take_bit (op_n_bits (ds_dst ip)) (instr_operand_nbo t (ds_dst ip) - instr_operand_hbo t (ds_src ip)) \<and>
     instr_operand_nbo (instr_alu_sub_hh_exec t ip) (ds_dst ip) =
       take_bit (op_n_bits (ds_dst ip)) (instr_operand_nbo t (ds_dst ip) - instr_operand_nbo t (ds_src ip)) \<and>
     instr_operand_nbo (instr_alu_sub_hi_exec t ip) (ds_dst ip) =
       take_bit (op_n_bits (ds_dst ip)) (instr_operand_nbo t (ds_dst ip) - ds_src_val ip)"
  using assms by (simp_all add: alu_exec_defs ALU_HM_ref ALU_HH_ref ALU_HI_ref nbo_put_nbo)

lemma alu_header_arith_witness:
  "instr_operand_nbo (instr_alu_sub_hi_exec ex_thread (ex_ip 8 8)) \<lparr>op_struct_id = 0, op_n_bits = 8, op_offset = 0\<rparr> =
   take_bit 8 (instr_operand_nbo ex_thread \<lparr>op_struct_id = 0, op_n_bits = 8, op_offset = 0\<rparr> - 1)"
  using alu_header_arith [of "ex_ip 8 8" ex_thread] by simp

text \<open>
  A header write is confined to the bytes of the destination field. An add, subtract, shift or
  move with a header destination changes no other byte of memory, although each of them stores
  a full 64-bit word at the address of the field.
\<close>

theorem alu_header_frame:
  assumes "op_sized (ds_dst ip)" and "op_sized (ds_src ip)"
    and "y < op_addr t (ds_dst ip) \<or> op_addr t (ds_dst ip) + op_n_bits (ds_dst ip) div 8 \<le> y"
  shows "t_mem (instr_alu_add_hh_exec t ip) y = t_mem t y \<and>
     t_mem (instr_alu_sub_hh_exec t ip) y = t_mem t y \<and>
     t_mem (instr_alu_shl_hh_exec t ip) y = t_mem t y \<and>
     t_mem (instr_alu_shr_hh_exec t ip) y = t_mem t y \<and>
     t_mem (instr_mov_hh_exec t ip) y = t_mem t y \<and>
     t_mem (instr_mov_hm_exec t ip) y = t_mem t y"
  using assms
  by (simp_all add: alu_exec_defs instr_mov_hh_exec_def instr_mov_hm_exec_def ALU_HH_ref MOV_HH_ref
      MOV_HM_ref put_nbo_frame)

lemma alu_header_frame_witness:
  "t_mem (instr_alu_add_hh_exec ex_thread (ex_ip 16 32)) 2 = t_mem ex_thread 2"
  using alu_header_frame [of "ex_ip 16 32" 2 ex_thread] by (simp add: op_addr_def ex_thread_def)

text \<open>
  The optimised forms of the logic instructions on header fields, which compute on the raw
  network order bits and align the source by a pair of shifts, store exactly what the general
  forms \<open>ALU_HH\<close> and \<open>ALU_HM\<close> with their byte swaps would, also between fields of different widths.
\<close>

theorem alu_fast_equivalence:
  assumes "op_sized (ds_dst ip)" and "op_sized (ds_src ip)"
  shows "instr_alu_and_hh_exec t ip = ALU_HH t ip (AND) \<and>
     instr_alu_or_hh_exec t ip = ALU_HH t ip (OR) \<and>
     instr_alu_xor_hh_exec t ip = ALU_HH t ip (XOR) \<and>
     instr_alu_and_hm_exec t ip = ALU_HM t ip (AND) \<and>
     instr_alu_or_hm_exec t ip = ALU_HM t ip (OR) \<and>
     instr_alu_xor_hm_exec t ip = ALU_HM t ip (XOR)"
  using assms bitwise_ops
  by (simp_all add: instr_alu_and_hh_exec_def instr_alu_or_hh_exec_def instr_alu_xor_hh_exec_def
      instr_alu_and_hm_exec_def instr_alu_or_hm_exec_def instr_alu_xor_hm_exec_def
      ALU_HH_FAST_ref ALU_HM_FAST_ref ALU_HH_ref ALU_HM_ref)

lemma alu_fast_equivalence_witness:
  "instr_alu_xor_hh_exec ex_thread (ex_ip 16 48) = ALU_HH ex_thread (ex_ip 16 48) (XOR)"
  using alu_fast_equivalence [of "ex_ip 16 48" ex_thread] by simp

text \<open>
  A move between two header fields transfers the number: the destination reads back the source
  modulo two to the width of the destination, zero-extended when the destination is wider, and a
  move out of and back into network order (\<open>MOV_MH\<close>, \<open>MOV_HM\<close>) agrees with it.
\<close>

theorem mov_header_value:
  assumes "op_sized (ds_dst ip)" and "op_sized (ds_src ip)"
  shows "instr_operand_nbo (instr_mov_hh_exec t ip) (ds_dst ip) = take_bit (op_n_bits (ds_dst ip)) (instr_operand_nbo t (ds_src ip)) \<and>
     instr_operand_nbo (instr_mov_hm_exec t ip) (ds_dst ip) = take_bit (op_n_bits (ds_dst ip)) (instr_operand_hbo t (ds_src ip)) \<and>
     instr_operand_hbo (instr_mov_mh_exec t ip) (ds_dst ip) = take_bit (op_n_bits (ds_dst ip)) (instr_operand_nbo t (ds_src ip))"
  using assms
  by (simp_all add: instr_mov_hh_exec_def instr_mov_hm_exec_def instr_mov_mh_exec_def MOV_HH_ref
      MOV_HM_ref MOV_MH_ref nbo_put_nbo hbo_put_hbo byte_sized_le)

lemma mov_header_value_witness:
  "instr_operand_nbo (instr_mov_hh_exec ex_thread (ex_ip 32 16)) (ds_dst (ex_ip 32 16)) =
   take_bit 32 (instr_operand_nbo ex_thread (ds_src (ex_ip 32 16)))"
  using mov_header_value [of "ex_ip 32 16" ex_thread] by simp

end
