(* ===== verification/SwxCksum.thy ===== *)
theory SwxCksum
  imports SwxThread
begin

text \<open>
  The checksum instructions of the data plane (\<open>__instr_alu_ck*_exec\<close> of
  lib/pipeline/rte_swx_pipeline_internal.h): one's complement sums computed with two's
  complement additions on 64-bit words and three folds. Shown here: no fold leaves a carry,
  the stored value is the one's complement result (a congruence modulo 0xFFFF) and is never
  zero, subtraction undoes addition, the variant for 20 bytes equals the loop, and a header
  whose checksum was computed with the loop sums to zero.
\<close>

section \<open>16-bit and 32-bit accesses\<close>

definition load16 :: "mem \<Rightarrow> addr \<Rightarrow> u16" where
  "load16 m a = ucast (m a) OR push_bit 8 (ucast (m (a + 1)))"

definition store16 :: "mem \<Rightarrow> addr \<Rightarrow> u16 \<Rightarrow> mem" where
  "store16 m a w = m(a := ucast w, a + 1 := ucast (drop_bit 8 w))"

definition load32 :: "mem \<Rightarrow> addr \<Rightarrow> u32" where
  "load32 m a = ucast (m a) OR push_bit 8 (ucast (m (a + 1))) OR
     push_bit 16 (ucast (m (a + 2))) OR push_bit 24 (ucast (m (a + 3)))"

section \<open>The instructions\<close>

definition instr_alu_ckadd_field_exec :: "thread \<Rightarrow> instr_dst_src \<Rightarrow> thread" where
  "instr_alu_ckadd_field_exec t ip =
     (let dst16_ptr = op_addr t (ds_dst ip);
          dst = load16 (t_mem t) dst16_ptr;
          src64 = load64 (t_mem t) (op_addr t (ds_src ip));
          src64_mask = mask64 (op_n_bits (ds_src ip));
          src = src64 AND src64_mask;
          r = (ucast dst :: u64);
          r = NOT r AND 0xFFFF;
          r = r + (drop_bit 32 src + (src AND 0xFFFFFFFF));
          r = (r AND 0xFFFF) + drop_bit 16 r;
          r = (r AND 0xFFFF) + drop_bit 16 r;
          r = (r AND 0xFFFF) + drop_bit 16 r;
          r = NOT r AND 0xFFFF;
          r = (if r \<noteq> 0 then r else 0xFFFF)
      in t\<lparr>t_mem := store16 (t_mem t) dst16_ptr (ucast r)\<rparr>)"

definition instr_alu_cksub_field_exec :: "thread \<Rightarrow> instr_dst_src \<Rightarrow> thread" where
  "instr_alu_cksub_field_exec t ip =
     (let dst16_ptr = op_addr t (ds_dst ip);
          dst = load16 (t_mem t) dst16_ptr;
          src64 = load64 (t_mem t) (op_addr t (ds_src ip));
          src64_mask = mask64 (op_n_bits (ds_src ip));
          src = src64 AND src64_mask;
          r = (ucast dst :: u64);
          r = NOT r AND 0xFFFF;
          r = r + 0xFFFF00000;
          r = r - (drop_bit 32 src + (src AND 0xFFFFFFFF));
          r = (r AND 0xFFFF) + drop_bit 16 r;
          r = (r AND 0xFFFF) + drop_bit 16 r;
          r = (r AND 0xFFFF) + drop_bit 16 r;
          r = NOT r AND 0xFFFF;
          r = (if r \<noteq> 0 then r else 0xFFFF)
      in t\<lparr>t_mem := store16 (t_mem t) dst16_ptr (ucast r)\<rparr>)"

definition instr_alu_ckadd_struct20_exec :: "thread \<Rightarrow> instr_dst_src \<Rightarrow> thread" where
  "instr_alu_ckadd_struct20_exec t ip =
     (let dst16_ptr = op_addr t (ds_dst ip);
          dst = load16 (t_mem t) dst16_ptr;
          src_struct = structs t (op_struct_id (ds_src ip));
          src32 = (\<lambda>i. ucast (load32 (t_mem t) (src_struct + 4 * i)) :: u64);
          r0 = (ucast dst :: u64);
          r0 = NOT r0 AND 0xFFFF;
          r0 = r0 + src32 0;
          r1 = src32 1;
          r0 = r0 + src32 2;
          r1 = r1 + src32 3;
          r0 = r0 + (r1 + src32 4);
          r0 = (r0 AND 0xFFFF) + drop_bit 16 r0;
          r0 = (r0 AND 0xFFFF) + drop_bit 16 r0;
          r0 = (r0 AND 0xFFFF) + drop_bit 16 r0;
          r0 = NOT r0 AND 0xFFFF;
          r0 = (if r0 \<noteq> 0 then r0 else 0xFFFF)
      in t\<lparr>t_mem := store16 (t_mem t) dst16_ptr (ucast r0)\<rparr>)"

text \<open>The loop over the 32-bit words: \<open>src32_ptr\<close> advances with every round.\<close>

fun ckadd_loop :: "mem \<Rightarrow> addr \<Rightarrow> nat \<Rightarrow> u64 \<Rightarrow> u64" where
  "ckadd_loop m src32_ptr 0 r = r"
| "ckadd_loop m src32_ptr (Suc n) r =
     ckadd_loop m (src32_ptr + 4) n (r + ucast (load32 m src32_ptr))"

text \<open>The source operand's \<open>n_bits\<close> holds the header identifier.\<close>

definition instr_alu_ckadd_struct_exec :: "thread \<Rightarrow> instr_dst_src \<Rightarrow> thread" where
  "instr_alu_ckadd_struct_exec t ip =
     (let src_header_id = op_n_bits (ds_src ip);
          n_src_header_bytes = unat (hr_n_bytes (headers t src_header_id))
      in if n_src_header_bytes = 20 then instr_alu_ckadd_struct20_exec t ip
         else
           (let dst16_ptr = op_addr t (ds_dst ip);
                dst = load16 (t_mem t) dst16_ptr;
                src_struct = structs t (op_struct_id (ds_src ip));
                r = (ucast dst :: u64);
                r = NOT r AND 0xFFFF;
                r = ckadd_loop (t_mem t) src_struct (n_src_header_bytes div 4) r;
                r = (r AND 0xFFFF) + drop_bit 16 r;
                r = (r AND 0xFFFF) + drop_bit 16 r;
                r = (r AND 0xFFFF) + drop_bit 16 r;
                r = NOT r AND 0xFFFF;
                r = (if r \<noteq> 0 then r else 0xFFFF)
            in t\<lparr>t_mem := store16 (t_mem t) dst16_ptr (ucast r)\<rparr>))"

section \<open>Accesses as numbers\<close>

lemma bit_load16: "bit (load16 m a) k \<longleftrightarrow> k < 16 \<and> bit (m (a + k div 8)) (k mod 8)"
proof (cases "k < 8")
  case True
  then show ?thesis by (auto simp: load16_def bit_or_iff bit_push_bit_iff bit_ucast_iff)
next
  case False
  then obtain r where r: "k = 8 + r" by (metis le_iff_add not_less)
  have big: "\<not> bit (m x) (8 + n)" for x n using bit_u8_bound [of "m x" "8 + n"] by auto
  show ?thesis
  proof (cases "r < 8")
    case True
    then have "(8 + r) div 8 = 1" "(8 + r) mod 8 = r" by auto
    with True show ?thesis
      by (auto simp: r load16_def bit_or_iff bit_push_bit_iff bit_ucast_iff big)
  next
    case False
    then have "\<not> bit (m x) r" for x using bit_u8_bound by blast
    with False show ?thesis
      by (auto simp: r load16_def bit_or_iff bit_push_bit_iff bit_ucast_iff big dest: bit_imp_le_length)
  qed
qed

lemma load16_store16 [simp]: "load16 (store16 m a w) a = w"
proof (rule bit_word_eqI)
  fix k assume "k < LENGTH(16)"
  then have k: "k < 16" by simp
  show "bit (load16 (store16 m a w) a) k = bit w k"
  proof (cases "k < 8")
    case True
    then show ?thesis by (simp add: bit_load16 store16_def bit_ucast_iff)
  next
    case False
    then obtain r where r: "k = 8 + r" by (metis le_iff_add not_less)
    with k have "k div 8 = 1" "8 + k mod 8 = k" by auto
    moreover have "k mod 8 < LENGTH(8)" by simp
    ultimately show ?thesis using k
      by (simp add: bit_load16 store16_def bit_ucast_iff bit_drop_bit_eq)
  qed
qed

lemma store16_other: "x \<noteq> a \<Longrightarrow> x \<noteq> a + 1 \<Longrightarrow> store16 m a w x = m x"
  by (simp add: store16_def)

text \<open>Loads as sums of bytes.\<close>

lemma or_push_bit_nat: "x < 2 ^ n \<Longrightarrow> x OR push_bit n y = x + 2 ^ n * (y :: nat)"
proof -
  assume x: "x < 2 ^ n"
  have "bit x k \<Longrightarrow> k < n" for k
    using x by (metis bit_take_bit_iff take_bit_nat_eq_self)
  then have "x AND push_bit n y = 0"
    by (intro bit_eqI) (auto simp: bit_and_iff bit_push_bit_iff not_le [symmetric])
  then show ?thesis
    by (simp add: disjunctive_add_eq_or [symmetric] push_bit_eq_mult mult.commute)
qed

lemma unat_ucast_u8: "8 \<le> LENGTH('a) \<Longrightarrow> unat (ucast (b :: u8) :: 'a :: len word) = unat b"
  using unat_u8_less [of b] power_increasing [of 8 "LENGTH('a)" "2 :: nat"]
  by (simp add: unsigned_ucast_eq take_bit_nat_eq_self)

lemma unat_push_ucast:
  assumes "2 ^ n * 256 \<le> (2 :: nat) ^ LENGTH('a)" and "8 \<le> LENGTH('a)"
  shows "unat (push_bit n (ucast (b :: u8) :: 'a :: len word)) = push_bit n (unat b)"
proof -
  have "2 ^ n * unat b < (2 :: nat) ^ n * 256" using unat_u8_less [of b] by simp
  with assms(1) have "2 ^ n * unat b < (2 :: nat) ^ LENGTH('a)" by (rule order_less_le_trans [rotated])
  then have "take_bit LENGTH('a) (push_bit n (unat b)) = push_bit n (unat b)"
    by (intro take_bit_nat_eq_self) (simp add: push_bit_eq_mult mult.commute)
  then show ?thesis using assms(2)
    by (simp only: unsigned_push_bit_eq unat_ucast_u8)
qed

lemma unat_load16: "unat (load16 m a) = unat (m a) + 256 * unat (m (a + 1))"
proof -
  have "unat (load16 m a) = unat (m a) OR push_bit 8 (unat (m (a + 1)))"
    using unat_u8_less [of "m a"] unat_u8_less [of "m (a + 1)"]
    by (simp add: load16_def unsigned_or_eq unat_push_ucast unat_ucast_u8)
  then show ?thesis
    using or_push_bit_nat [of "unat (m a)" 8] unat_u8_less [of "m a"] by simp
qed

lemma unat_load32:
  "unat (load32 m a) = unat (m a) + 256 * unat (m (a + 1)) + 65536 * unat (m (a + 2)) +
     16777216 * unat (m (a + 3))"
proof -
  note b = unat_u8_less [of "m a"] unat_u8_less [of "m (a + 1)"]
    unat_u8_less [of "m (a + 2)"] unat_u8_less [of "m (a + 3)"]
  have "unat (load32 m a) = ((unat (m a) OR push_bit 8 (unat (m (a + 1))))
     OR push_bit 16 (unat (m (a + 2)))) OR push_bit 24 (unat (m (a + 3)))"
    using b by (simp add: load32_def unsigned_or_eq unat_push_ucast unat_ucast_u8 or.assoc)
  also have "\<dots> = unat (m a) + 256 * unat (m (a + 1)) + 65536 * unat (m (a + 2)) +
     16777216 * unat (m (a + 3))"
    using b or_push_bit_nat [of "unat (m a)" 8 "unat (m (a + 1))"]
      or_push_bit_nat [of "unat (m a) + 256 * unat (m (a + 1))" 16 "unat (m (a + 2))"]
      or_push_bit_nat [of "unat (m a) + 256 * unat (m (a + 1)) + 65536 * unat (m (a + 2))" 24
        "unat (m (a + 3))"]
    by simp
  finally show ?thesis .
qed

lemma load32_load16: "unat (load32 m a) = unat (load16 m a) + 65536 * unat (load16 m (a + 2))"
  by (simp add: unat_load32 unat_load16 add.assoc numeral_3_eq_3)

section \<open>One's complement arithmetic\<close>

text \<open>One fold, on numbers and on the 64-bit words of the code.\<close>

definition fold16 :: "nat \<Rightarrow> nat" where
  "fold16 n = n mod 65536 + n div 65536"

lemma fold16_mod: "fold16 n mod 65535 = n mod 65535"
proof -
  have "n = n mod 65536 + n div 65536 + 65535 * (n div 65536)"
    using div_mult_mod_eq [of n 65536] by simp
  then have "n mod 65535 = (fold16 n + 65535 * (n div 65536)) mod 65535"
    unfolding fold16_def by simp
  then show ?thesis by simp
qed

lemma fold16_le: "fold16 n \<le> n"
  using div_mult_mod_eq [of n 65536] by (simp add: fold16_def)

lemma fold16_less: "n < 65536 * k \<Longrightarrow> fold16 n < 65536 + k"
proof -
  assume "n < 65536 * k"
  then have "n div 65536 < k" by (simp add: less_mult_imp_div_less mult.commute)
  moreover have "n mod 65536 < 65536" by simp
  ultimately show ?thesis unfolding fold16_def by linarith
qed

lemma and_FFFF: "(r :: u64) AND 0xFFFF = take_bit 16 r"
  by (simp add: take_bit_eq_mask mask_eq_exp_minus_1)

lemma and_FFFFFFFF: "(r :: u64) AND 0xFFFFFFFF = take_bit 32 r"
  by (simp add: take_bit_eq_mask mask_eq_exp_minus_1)

lemma unat_fold: "unat ((r AND 0xFFFF) + drop_bit 16 r :: u64) = fold16 (unat r)"
proof -
  have "unat (r AND 0xFFFF) = unat r mod 65536"
    by (simp add: and_FFFF unsigned_take_bit_eq) (simp add: take_bit_eq_mod)
  moreover have "unat (drop_bit 16 r) = unat r div 65536"
    by (simp add: drop_bit_eq_div unat_div)
  moreover have "fold16 (unat r) < 2 ^ 64"
    by (rule order_le_less_trans [OF fold16_le]) (rule order_less_le_trans [OF unsigned_less], simp)
  ultimately show ?thesis
    by (simp add: fold16_def unat_word_ariths)
qed

lemma unat_compl16: "unat (NOT r AND 0xFFFF :: u64) = 65535 - unat r mod 65536"
proof -
  have "(NOT r AND 0xFFFF) AND (r AND 0xFFFF) = 0"
    by (rule bit_word_eqI) (auto simp: bit_and_iff bit_not_iff)
  then have "(NOT r AND 0xFFFF) + (r AND 0xFFFF) = (NOT r AND 0xFFFF) OR (r AND 0xFFFF)"
    by (simp only: disjunctive_add_eq_or)
  also have "\<dots> = 0xFFFF"
    by (metis and.commute and.right_neutral bit.conj_disj_distrib bit.disj_cancel_left)
  finally have e: "NOT r AND 0xFFFF = 0xFFFF - (r AND 0xFFFF)" by (simp add: eq_diff_eq)
  have u: "unat (r AND 0xFFFF) = unat r mod 65536"
    by (simp add: and_FFFF unsigned_take_bit_eq) (simp add: take_bit_eq_mod)
  then have "r AND 0xFFFF \<le> 0xFFFF" by (simp add: word_le_nat_alt)
  then show ?thesis unfolding e by (simp add: unat_sub u)
qed

section \<open>The end of every checksum instruction\<close>

definition ck_result :: "u64 \<Rightarrow> u16" where
  "ck_result r =
     (let r = (r AND 0xFFFF) + drop_bit 16 r;
          r = (r AND 0xFFFF) + drop_bit 16 r;
          r = (r AND 0xFFFF) + drop_bit 16 r;
          r = NOT r AND 0xFFFF;
          r = (if r \<noteq> 0 then r else 0xFFFF)
      in ucast r)"

text \<open>
  The number from 1 to 0xFFFF that is congruent modulo 0xFFFF: a stored checksum is never
  zero, the value 0xFFFF stands for it.
\<close>

definition ck_norm :: "int \<Rightarrow> nat" where
  "ck_norm i = (if i mod 65535 = 0 then 65535 else nat (i mod 65535))"

lemma ck_norm_range: "0 < ck_norm i \<and> ck_norm i \<le> 65535"
proof -
  have "0 \<le> i mod 65535" "i mod 65535 < 65535" by simp_all
  then show ?thesis by (auto simp: ck_norm_def)
qed

lemma ck_norm_cong: "i mod 65535 = j mod 65535 \<Longrightarrow> ck_norm i = ck_norm j"
  by (simp add: ck_norm_def)

lemma ck_norm_mod: "int (ck_norm i) mod 65535 = i mod 65535"
  by (simp add: ck_norm_def)

lemma ck_norm_self: "0 < n \<Longrightarrow> n \<le> 65535 \<Longrightarrow> ck_norm (int n) = n"
  by (cases "n = 65535") (auto simp: ck_norm_def nat_mod_as_int)

lemma fold16_third: "n < 65536 + 65536 \<Longrightarrow> fold16 n \<le> 65535 + (if n < 131071 then 0 else 1)"
  by (cases "n < 65536") (auto simp: fold16_def le_mod_geq le_div_geq)

text \<open>The comments on carries: after three folds the sum is a 16-bit number.\<close>

lemma fold16_bound:
  assumes "n < 2 ^ 46 + 2 ^ 17"
  shows "fold16 (fold16 (fold16 n)) \<le> 65535"
proof -
  have "fold16 n < 65536 + (2 ^ 30 + 2)" by (rule fold16_less) (use assms in simp)
  then have "fold16 n < 65536 * 16386" by simp
  then have "fold16 (fold16 n) < 65536 + 16386" by (rule fold16_less)
  then show ?thesis using fold16_third [of "fold16 (fold16 n)"] by (simp split: if_splits)
qed

lemma ck_result_norm:
  assumes "unat r < 2 ^ 46 + 2 ^ 17"
  shows "unat (ck_result r) = ck_norm (- int (unat r))"
proof -
  define q where "q = fold16 (fold16 (fold16 (unat r)))"
  have q: "q \<le> 65535" and qr: "q mod 65535 = unat r mod 65535"
    using fold16_bound [OF assms] by (simp_all add: q_def fold16_mod)
  define r3 where "r3 = (let r = (r AND 0xFFFF) + drop_bit 16 r; r = (r AND 0xFFFF) + drop_bit 16 r
    in (r AND 0xFFFF) + drop_bit 16 r)"
  have r3: "unat r3 = q" by (simp only: r3_def Let_def unat_fold q_def)
  then have c: "unat (NOT r3 AND 0xFFFF) = 65535 - q" using q by (simp add: unat_compl16)
  then have z: "NOT r3 AND 0xFFFF = 0 \<longleftrightarrow> q = 65535" using q by (auto simp: unat_eq_0 [symmetric])
  have v: "ck_result r = ucast (if NOT r3 AND 0xFFFF \<noteq> 0 then NOT r3 AND 0xFFFF else 0xFFFF)"
    by (simp only: ck_result_def r3_def Let_def)
  have "unat (ck_result r) = (if q = 65535 then 65535 else 65535 - q)"
    unfolding v by (simp add: z unsigned_ucast_eq c take_bit_nat_eq_self)
  moreover have "ck_norm (- int q) = (if q = 65535 then 65535 else 65535 - q)"
  proof (cases "q = 65535 \<or> q = 0")
    case True
    then show ?thesis by (auto simp: ck_norm_def)
  next
    case False
    then have "(- int q) mod 65535 = 65535 - int q"
      using q by (simp add: zmod_zminus1_eq_if)
    with False q show ?thesis by (auto simp: ck_norm_def)
  qed
  moreover have "ck_norm (- int q) = ck_norm (- int (unat r))"
  proof -
    have "int q mod 65535 = int (unat r) mod 65535"
      using arg_cong [OF qr, of int] by (simp add: zmod_int)
    then have "(- int q) mod 65535 = (- int (unat r)) mod 65535"
      using mod_minus_eq [of "int q" 65535] mod_minus_eq [of "int (unat r)" 65535] by simp
    then show ?thesis by (rule ck_norm_cong)
  qed
  ultimately show ?thesis by simp
qed

section \<open>The instructions against the arithmetic\<close>

definition dst16 :: "thread \<Rightarrow> instr_operand \<Rightarrow> nat" where
  "dst16 t x = unat (load16 (t_mem t) (op_addr t x))"

definition src_num :: "thread \<Rightarrow> instr_operand \<Rightarrow> nat" where
  "src_num t x = unat (load64 (t_mem t) (op_addr t x) AND mask64 (op_n_bits x))"

lemma unat_init: "unat (NOT (ucast (d :: u16)) AND 0xFFFF :: u64) = 65535 - unat d"
  using dst16_less [of d] by (simp add: unat_compl16 unsigned_ucast_eq take_bit_nat_eq_self)

lemma unat_halves: "unat (drop_bit 32 src + (src AND 0xFFFFFFFF) :: u64) =
    unat src div 4294967296 + unat src mod 4294967296"
proof -
  have "unat (src AND 0xFFFFFFFF) = unat src mod 4294967296"
    by (simp add: and_FFFFFFFF unsigned_take_bit_eq) (simp add: take_bit_eq_mod)
  moreover have "unat (drop_bit 32 src) = unat src div 4294967296"
    by (simp add: drop_bit_eq_div unat_div)
  moreover have "unat src div 4294967296 < 4294967296"
    using unat_u64_less [of src] by (simp add: less_mult_imp_div_less)
  moreover have "unat src mod 4294967296 < 4294967296" by simp
  ultimately show ?thesis by (simp add: unat_word_ariths)
qed

lemma halves_mod: "int (n div 4294967296 + n mod 4294967296) mod 65535 = int n mod 65535"
proof -
  have "n = n div 4294967296 + n mod 4294967296 + 65535 * (65537 * (n div 4294967296))"
    using div_mult_mod_eq [of n 4294967296] by simp
  then have "int n = int (n div 4294967296 + n mod 4294967296) + 65535 * int (65537 * (n div 4294967296))"
    by linarith
  then show ?thesis by (metis mod_mult_self2)
qed

lemma ckadd_field_ref:
  "instr_alu_ckadd_field_exec t ip = t\<lparr>t_mem := store16 (t_mem t) (op_addr t (ds_dst ip))
     (ck_result ((NOT (ucast (load16 (t_mem t) (op_addr t (ds_dst ip)))) AND 0xFFFF) +
        (drop_bit 32 (load64 (t_mem t) (op_addr t (ds_src ip)) AND mask64 (op_n_bits (ds_src ip))) +
         ((load64 (t_mem t) (op_addr t (ds_src ip)) AND mask64 (op_n_bits (ds_src ip))) AND 0xFFFFFFFF))))\<rparr>"
  by (simp only: instr_alu_ckadd_field_exec_def ck_result_def Let_def)

lemma cksub_field_ref:
  "instr_alu_cksub_field_exec t ip = t\<lparr>t_mem := store16 (t_mem t) (op_addr t (ds_dst ip))
     (ck_result ((NOT (ucast (load16 (t_mem t) (op_addr t (ds_dst ip)))) AND 0xFFFF) + 0xFFFF00000 -
        (drop_bit 32 (load64 (t_mem t) (op_addr t (ds_src ip)) AND mask64 (op_n_bits (ds_src ip))) +
         ((load64 (t_mem t) (op_addr t (ds_src ip)) AND mask64 (op_n_bits (ds_src ip))) AND 0xFFFFFFFF))))\<rparr>"
  by (simp only: instr_alu_cksub_field_exec_def ck_result_def Let_def)

lemma op_addr_mem [simp]: "op_addr (t\<lparr>t_mem := m\<rparr>) x = op_addr t x"
  by (simp add: op_addr_def)

lemma t_mem_upd: "t_mem (t\<lparr>t_mem := m\<rparr>) = m"
  by simp

lemma half_bounds: "unat (s :: u64) div 4294967296 + unat s mod 4294967296 < 8589934592"
proof -
  have "unat s div 4294967296 < 4294967296"
    using unat_u64_less [of s] by (simp add: less_mult_imp_div_less)
  moreover have "unat s mod 4294967296 < 4294967296" by simp
  ultimately show ?thesis by linarith
qed

lemma ckadd_field_num:
  "dst16 (instr_alu_ckadd_field_exec t ip) (ds_dst ip) =
   ck_norm (int (dst16 t (ds_dst ip)) - int (src_num t (ds_src ip)))"
proof -
  define d where "d = load16 (t_mem t) (op_addr t (ds_dst ip))"
  define s where "s = load64 (t_mem t) (op_addr t (ds_src ip)) AND mask64 (op_n_bits (ds_src ip))"
  define h where "h = unat s div 4294967296 + unat s mod 4294967296"
  define r where "r = (NOT (ucast d) AND 0xFFFF) + (drop_bit 32 s + (s AND 0xFFFFFFFF))"
  have h: "h < 8589934592" unfolding h_def by (rule half_bounds)
  have r: "unat r = 65535 - unat d + h"
    unfolding r_def unat_word_ariths(1) [of "_ AND _"] unat_init unat_halves h_def [symmetric]
    using h by simp
  have d: "int (65535 - unat d) = 65535 - int (unat d)" using dst16_less [of d] by simp
  have "(- int (unat r)) mod 65535 = (int (unat d) - int (unat s)) mod 65535"
  proof -
    have "(- int (unat r)) mod 65535 = (int (unat d) - int h - 65535) mod 65535"
      by (rule arg_cong [of _ _ "\<lambda>x. x mod 65535"]) (simp add: r d)
    also have "\<dots> = (int (unat d) - int h) mod 65535"
      using mod_diff_right_eq [of "int (unat d) - int h" 65535 65535] by simp
    also have "\<dots> = (int (unat d) - int (unat s)) mod 65535"
      by (rule mod_diff_cong) (simp_all only: h_def halves_mod)
    finally show ?thesis .
  qed
  moreover have "unat r < 2 ^ 46 + 2 ^ 17" using h by (simp add: r)
  ultimately have "unat (ck_result r) = ck_norm (int (unat d) - int (unat s))"
    by (simp only: ck_result_norm) (rule ck_norm_cong)
  then show ?thesis
    by (simp only: ckadd_field_ref dst16_def src_num_def op_addr_mem t_mem_upd load16_store16
        d_def s_def r_def)
qed

lemma cksub_field_num:
  "dst16 (instr_alu_cksub_field_exec t ip) (ds_dst ip) =
   ck_norm (int (dst16 t (ds_dst ip)) + int (src_num t (ds_src ip)))"
proof -
  define d where "d = load16 (t_mem t) (op_addr t (ds_dst ip))"
  define s where "s = load64 (t_mem t) (op_addr t (ds_src ip)) AND mask64 (op_n_bits (ds_src ip))"
  define h where "h = unat s div 4294967296 + unat s mod 4294967296"
  define r where "r = (NOT (ucast d) AND 0xFFFF) + 0xFFFF00000 - (drop_bit 32 s + (s AND 0xFFFFFFFF))"
  have h: "h < 8589934592" unfolding h_def by (rule half_bounds)
  have r1: "unat ((NOT (ucast d) AND 0xFFFF :: u64) + 0xFFFF00000) = 65535 - unat d + 68718428160"
    by (simp add: unat_word_ariths unat_init)
  have r: "unat r = 65535 - unat d + 68718428160 - h"
    unfolding r_def by (subst unat_sub) (use h in \<open>simp_all add: word_le_nat_alt r1 unat_halves h_def [symmetric]\<close>)
  have d: "int (65535 - unat d + 68718428160 - h) = 65535 * 1048577 - int (unat d) - int h"
    using dst16_less [of d] h by (simp add: of_nat_diff)
  have "(- int (unat r)) mod 65535 = (int (unat d) + int (unat s)) mod 65535"
  proof -
    have "(- int (unat r)) mod 65535 = (int (unat d) + int h - 65535 * 1048577) mod 65535"
      by (rule arg_cong [of _ _ "\<lambda>x. x mod 65535"]) (use d in \<open>simp add: r\<close>)
    also have "\<dots> = (int (unat d) + int h) mod 65535"
      using mod_diff_right_eq [of "int (unat d) + int h" "65535 * 1048577" 65535] by simp
    also have "\<dots> = (int (unat d) + int (unat s)) mod 65535"
      by (rule mod_add_cong) (simp_all only: h_def halves_mod)
    finally show ?thesis .
  qed
  moreover have "unat r < 2 ^ 46 + 2 ^ 17" using h by (simp add: r)
  ultimately have "unat (ck_result r) = ck_norm (int (unat d) + int (unat s))"
    by (simp only: ck_result_norm) (rule ck_norm_cong)
  then show ?thesis
    by (simp only: cksub_field_ref dst16_def src_num_def op_addr_mem t_mem_upd load16_store16
        d_def s_def r_def)
qed

text \<open>The sum of the words of a header, and what the loop over them computes.\<close>

fun sum32 :: "mem \<Rightarrow> addr \<Rightarrow> nat \<Rightarrow> nat" where
  "sum32 m a 0 = 0"
| "sum32 m a (Suc n) = unat (load32 m a) + sum32 m (a + 4) n"

lemma sum32_bound: "sum32 m a n \<le> n * 4294967295"
proof (induction n arbitrary: a)
  case (Suc n)
  show ?case using Suc.IH [of "a + 4"] unat_u32_less [of "load32 m a"] by simp
qed simp

lemma ckadd_loop_num:
  "unat r + n * 4294967295 < 18446744073709551616 \<Longrightarrow>
   unat (ckadd_loop m a n r) = unat r + sum32 m a n"
proof (induction n arbitrary: a r)
  case (Suc n)
  have w: "unat (ucast (load32 m a) :: u64) \<le> 4294967295"
    using unat_u32_less [of "load32 m a"] by (simp add: unat_ucast_u32)
  have "unat (r + ucast (load32 m a)) = unat r + unat (load32 m a)"
    unfolding unat_word_ariths(1) using Suc.prems w by (simp add: unat_ucast_u32)
  moreover from this have "unat (r + ucast (load32 m a)) + n * 4294967295 < 18446744073709551616"
    using Suc.prems w by (simp add: unat_ucast_u32)
  ultimately show ?case using Suc.IH [of "r + ucast (load32 m a)" "a + 4"] by simp
qed simp

lemma ckadd_struct20_ref:
  "instr_alu_ckadd_struct20_exec t ip = t\<lparr>t_mem := store16 (t_mem t) (op_addr t (ds_dst ip))
     (ck_result (ckadd_loop (t_mem t) (structs t (op_struct_id (ds_src ip))) 5
        (NOT (ucast (load16 (t_mem t) (op_addr t (ds_dst ip)))) AND 0xFFFF)))\<rparr>"
proof -
  define L where "L = (\<lambda>i. ucast (load32 (t_mem t) (structs t (op_struct_id (ds_src ip)) + 4 * i)) :: u64)"
  have loop: "ckadd_loop (t_mem t) (structs t (op_struct_id (ds_src ip))) 5 x =
    x + L 0 + L 2 + (L 1 + L 3 + L 4)" for x
    by (simp add: numeral_eq_Suc L_def algebra_simps)
  show ?thesis
    unfolding loop by (simp only: instr_alu_ckadd_struct20_exec_def ck_result_def Let_def L_def)
qed

text \<open>\<open>struct20\<close> is the loop with the five rounds unrolled.\<close>

lemma ckadd_struct_ref:
  "instr_alu_ckadd_struct_exec t ip = t\<lparr>t_mem := store16 (t_mem t) (op_addr t (ds_dst ip))
     (ck_result (ckadd_loop (t_mem t) (structs t (op_struct_id (ds_src ip)))
        (unat (hr_n_bytes (headers t (op_n_bits (ds_src ip)))) div 4)
        (NOT (ucast (load16 (t_mem t) (op_addr t (ds_dst ip)))) AND 0xFFFF)))\<rparr>"
proof (cases "unat (hr_n_bytes (headers t (op_n_bits (ds_src ip)))) = 20")
  case True
  then show ?thesis
    by (simp only: instr_alu_ckadd_struct_exec_def Let_def if_True ckadd_struct20_ref)
      (simp only: div_mult_self1_is_m refl, simp)
next
  case False
  then show ?thesis by (simp only: instr_alu_ckadd_struct_exec_def Let_def if_False ck_result_def)
qed

lemma ckadd_struct_num:
  assumes "unat (hr_n_bytes (headers t (op_n_bits (ds_src ip)))) \<le> 65535"
  shows "dst16 (instr_alu_ckadd_struct_exec t ip) (ds_dst ip) =
     ck_norm (int (dst16 t (ds_dst ip)) -
       int (sum32 (t_mem t) (structs t (op_struct_id (ds_src ip)))
         (unat (hr_n_bytes (headers t (op_n_bits (ds_src ip)))) div 4)))"
proof -
  define n where "n = unat (hr_n_bytes (headers t (op_n_bits (ds_src ip)))) div 4"
  define d where "d = load16 (t_mem t) (op_addr t (ds_dst ip))"
  define S where "S = sum32 (t_mem t) (structs t (op_struct_id (ds_src ip))) n"
  define r where "r = ckadd_loop (t_mem t) (structs t (op_struct_id (ds_src ip))) n
    (NOT (ucast d) AND 0xFFFF)"
  have n: "n < 16384" using assms by (simp add: n_def)
  have "unat (NOT (ucast d) AND 0xFFFF :: u64) + n * 4294967295 < 18446744073709551616"
    unfolding unat_init using n by simp
  then have r: "unat r = 65535 - unat d + S"
    unfolding r_def S_def by (simp only: ckadd_loop_num unat_init)
  have "S \<le> 16383 * 4294967295"
    unfolding S_def by (rule order_trans [OF sum32_bound]) (use n in simp)
  then have b: "unat r < 2 ^ 46 + 2 ^ 17" by (simp add: r)
  have "(- int (unat r)) mod 65535 = (int (unat d) - int S - 65535) mod 65535"
    by (rule arg_cong [of _ _ "\<lambda>x. x mod 65535"])
      (use dst16_less [of d] in \<open>simp add: r of_nat_diff\<close>)
  also have "\<dots> = (int (unat d) - int S) mod 65535"
    using mod_diff_right_eq [of "int (unat d) - int S" 65535 65535] by simp
  finally have "unat (ck_result r) = ck_norm (int (unat d) - int S)"
    by (simp only: ck_result_norm [OF b]) (rule ck_norm_cong)
  then show ?thesis
    by (simp only: ckadd_struct_ref dst16_def op_addr_mem t_mem_upd load16_store16 d_def r_def S_def n_def)
qed

section \<open>Properties\<close>

lemma load64_cong: "(\<And>i. i < 8 \<Longrightarrow> m' (x + i) = m (x + i)) \<Longrightarrow> load64 m' x = load64 m x"
proof -
  assume e: "\<And>i. i < 8 \<Longrightarrow> m' (x + i) = m (x + i)"
  from e [of 0] e [of 1] e [of 2] e [of 3] e [of 4] e [of 5] e [of 6] e [of 7]
  show ?thesis by (simp add: load64_def)
qed

lemma load32_cong: "(\<And>i. i < 4 \<Longrightarrow> m' (x + i) = m (x + i)) \<Longrightarrow> load32 m' x = load32 m x"
proof -
  assume e: "\<And>i. i < 4 \<Longrightarrow> m' (x + i) = m (x + i)"
  from e [of 0] e [of 1] e [of 2] e [of 3] show ?thesis by (simp add: load32_def)
qed

lemma load64_store16_other:
  assumes "x + 8 \<le> a \<or> a + 2 \<le> x"
  shows "load64 (store16 m a w) x = load64 m x"
  by (rule load64_cong) (use assms in \<open>auto intro: store16_other\<close>)

text \<open>
  Adding a field to a checksum computes one's complement arithmetic. The 16-bit result is the
  number between 1 and 0xFFFF congruent, modulo 0xFFFF, to the old checksum minus the field's
  value, for every field width up to 64 bits; subtracting a field computes the sum. No carry
  is lost by the three folds, and a result is never zero.
\<close>

theorem cksum_field_arith:
  "dst16 (instr_alu_ckadd_field_exec t ip) (ds_dst ip) =
     ck_norm (int (dst16 t (ds_dst ip)) - int (src_num t (ds_src ip))) \<and>
   dst16 (instr_alu_cksub_field_exec t ip) (ds_dst ip) =
     ck_norm (int (dst16 t (ds_dst ip)) + int (src_num t (ds_src ip)))"
  by (simp only: ckadd_field_num cksub_field_num)

text \<open>
  Subtracting a field undoes adding it. When the source field does not share bytes with the
  checksum and the checksum is not zero, \<open>cksub\<close> after \<open>ckadd\<close> of the same field restores the checksum.
\<close>

theorem cksub_ckadd_field:
  assumes "dst16 t (ds_dst ip) \<noteq> 0"
    and "op_addr t (ds_src ip) + 8 \<le> op_addr t (ds_dst ip) \<or> op_addr t (ds_dst ip) + 2 \<le> op_addr t (ds_src ip)"
  shows "dst16 (instr_alu_cksub_field_exec (instr_alu_ckadd_field_exec t ip) ip) (ds_dst ip) = dst16 t (ds_dst ip)"
proof -
  let ?d = "dst16 t (ds_dst ip)" and ?s = "src_num t (ds_src ip)"
  let ?t = "instr_alu_ckadd_field_exec t ip"
  have s: "src_num ?t (ds_src ip) = ?s"
    using assms(2) by (simp add: src_num_def ckadd_field_ref load64_store16_other)
  have "dst16 (instr_alu_cksub_field_exec ?t ip) (ds_dst ip) = ck_norm (int (ck_norm (int ?d - int ?s)) + int ?s)"
    by (simp only: cksub_field_num ckadd_field_num s)
  also have "\<dots> = ck_norm (int ?d)"
  proof (rule ck_norm_cong)
    have "(int (ck_norm (int ?d - int ?s)) + int ?s) mod 65535 = (int ?d - int ?s + int ?s) mod 65535"
      by (rule mod_add_cong [OF ck_norm_mod refl])
    then show "(int (ck_norm (int ?d - int ?s)) + int ?s) mod 65535 = int ?d mod 65535" by simp
  qed
  also have "\<dots> = ?d"
    using assms(1) dst16_less [of "load16 (t_mem t) (op_addr t (ds_dst ip))"]
    by (intro ck_norm_self) (auto simp: dst16_def)
  finally show ?thesis .
qed

definition ex_ck :: instr_dst_src where
  "ex_ck = \<lparr>ds_dst = \<lparr>op_struct_id = 1, op_n_bits = 16, op_offset = 10\<rparr>,
     ds_src = \<lparr>op_struct_id = 2, op_n_bits = 32, op_offset = 4\<rparr>, ds_src_val = 0\<rparr>"

lemma cksub_ckadd_field_witness:
  "dst16 (instr_alu_cksub_field_exec (instr_alu_ckadd_field_exec ex_thread ex_ck) ex_ck) (ds_dst ex_ck) = 35722"
  using cksub_ckadd_field [of ex_thread ex_ck]
  by (simp add: ex_thread_def ex_ck_def dst16_def op_addr_def unat_load16 unat_of_nat)

text \<open>
  The shortcut of \<open>ckadd struct\<close> for headers of 20 bytes, with its unrolled sum and two
  accumulators, does not change the result: for every header size the instruction stores the
  checksum of the loop over the header's 32-bit words.
\<close>

theorem ckadd_struct_equivalence:
  "instr_alu_ckadd_struct_exec t ip = t\<lparr>t_mem := store16 (t_mem t) (op_addr t (ds_dst ip))
     (ck_result (ckadd_loop (t_mem t) (structs t (op_struct_id (ds_src ip)))
        (unat (hr_n_bytes (headers t (op_n_bits (ds_src ip)))) div 4)
        (NOT (ucast (load16 (t_mem t) (op_addr t (ds_dst ip)))) AND 0xFFFF)))\<rparr>"
  by (rule ckadd_struct_ref)

section \<open>The checksum of a header over itself\<close>

text \<open>Writing 16 bits at an even offset of a header whose bytes there were zero.\<close>

lemma load32_store16_low: "load16 m a = 0 \<Longrightarrow> unat (load32 (store16 m a w) a) = unat (load32 m a) + unat w"
proof -
  assume z: "load16 m a = 0"
  have "unat (load16 (store16 m a w) (a + 2)) = unat (load16 m (a + 2))"
    by (simp add: unat_load16 store16_def)
  then show ?thesis by (simp only: load32_load16 load16_store16) (simp add: z)
qed

lemma load32_store16_high:
  assumes "load16 m (a + 2) = 0"
  shows "unat (load32 (store16 m (a + 2) w) a) = unat (load32 m a) + 65536 * unat w"
proof -
  have "unat (load16 (store16 m (a + 2) w) a) = unat (load16 m a)"
    by (simp add: unat_load16 store16_def)
  then show ?thesis by (simp only: load32_load16 load16_store16 assms) simp
qed

lemma load32_store16_other:
  "x + 4 \<le> a \<or> a + 2 \<le> x \<Longrightarrow> load32 (store16 m a w) x = load32 m x"
  by (rule load32_cong) (auto intro: store16_other)

lemma sum32_store16_before: "p + 2 \<le> a \<Longrightarrow> sum32 (store16 m p w) a n = sum32 m a n"
  by (induction n arbitrary: a) (simp_all add: load32_store16_other)

lemma sum32_store16:
  assumes "2 * k < 4 * n" and "load16 m (a + 2 * k) = 0"
  shows "sum32 (store16 m (a + 2 * k) w) a n mod 65535 = (sum32 m a n + unat w) mod 65535"
  using assms
proof (induction n arbitrary: a k)
  case (Suc n)
  consider "k = 0" | "k = 1" | k' where "k = k' + 2"
    by (metis One_nat_def Suc_1 add.commute add_2_eq_Suc' not0_implies_Suc)
  then show ?case
  proof cases
    case 1
    with Suc.prems show ?thesis
      by (simp add: load32_store16_low sum32_store16_before ac_simps)
  next
    case 2
    have "sum32 (store16 m (a + 2) w) a (Suc n) =
      unat (load32 m a) + sum32 m (a + 4) n + unat w + 65535 * unat w"
      using Suc.prems 2 load32_store16_high [of m a w] by (simp add: sum32_store16_before)
    also have "\<dots> mod 65535 = (sum32 m a (Suc n) + unat w) mod 65535"
      by (simp only: mod_mult_self2 sum32.simps)
    finally show ?thesis by (simp add: 2)
  next
    case 3
    then have e: "a + 2 * k = a + 4 + 2 * k'" by simp
    have "sum32 (store16 m (a + 4 + 2 * k') w) (a + 4) n mod 65535 = (sum32 m (a + 4) n + unat w) mod 65535"
      using Suc.prems(1) 3 Suc.prems(2) [unfolded e] by (intro Suc.IH) simp_all
    then have "(unat (load32 m a) + sum32 (store16 m (a + 4 + 2 * k') w) (a + 4) n) mod 65535 =
      (unat (load32 m a) + (sum32 m (a + 4) n + unat w)) mod 65535"
      by (rule mod_add_cong [OF refl])
    then show ?thesis by (simp add: e load32_store16_other add.assoc)
  qed
qed simp

text \<open>
  C39: a header checksummed over itself verifies. When the checksum field lies at an even offset of
  the header and is zero, as after \<open>mov h.ipv4.hdr_checksum 0\<close>, the one's complement sum of all
  the header's words after \<open>ckadd\<close> of the header is zero modulo 0xFFFF, for every header of up to
  64 KB; this is the test that the receiver of an IPv4 packet makes.
\<close>

theorem header_checksum_verifies:
  assumes "unat (hr_n_bytes (headers t (op_n_bits (ds_src ip)))) \<le> 65535"
    and "op_addr t (ds_dst ip) = structs t (op_struct_id (ds_src ip)) + 2 * k"
    and "2 * k < 4 * (unat (hr_n_bytes (headers t (op_n_bits (ds_src ip)))) div 4)"
    and "dst16 t (ds_dst ip) = 0"
  shows "sum32 (t_mem (instr_alu_ckadd_struct_exec t ip)) (structs t (op_struct_id (ds_src ip)))
     (unat (hr_n_bytes (headers t (op_n_bits (ds_src ip)))) div 4) mod 65535 = 0"
proof -
  let ?hdr = "structs t (op_struct_id (ds_src ip))"
  let ?n = "unat (hr_n_bytes (headers t (op_n_bits (ds_src ip)))) div 4"
  let ?S = "sum32 (t_mem t) ?hdr ?n"
  obtain w where w: "t_mem (instr_alu_ckadd_struct_exec t ip) = store16 (t_mem t) (?hdr + 2 * k) w"
    by (simp add: ckadd_struct_ref assms(2))
  have z: "load16 (t_mem t) (?hdr + 2 * k) = 0"
    using assms(2,4) by (simp add: dst16_def unat_eq_0)
  have "unat w = dst16 (instr_alu_ckadd_struct_exec t ip) (ds_dst ip)"
    by (simp add: dst16_def w) (simp add: ckadd_struct_ref assms(2))
  also have "\<dots> = ck_norm (int 0 - int ?S)"
    by (simp only: ckadd_struct_num [OF assms(1)] assms(4))
  also have "\<dots> = ck_norm (- int ?S)" by simp
  finally have "int (?S + unat w) mod 65535 = (int ?S + - int ?S) mod 65535"
    by (simp only: of_nat_add) (rule mod_add_cong [OF refl ck_norm_mod])
  then have "int ((?S + unat w) mod 65535) = 0" by (simp only: zmod_int of_nat_numeral) simp
  then have "(?S + unat w) mod 65535 = 0" by (simp only: of_nat_eq_0_iff)
  then show ?thesis
    by (simp only: w sum32_store16 [OF assms(3) z])
qed

definition ex_ck_hdr :: instr_dst_src where
  "ex_ck_hdr = \<lparr>ds_dst = \<lparr>op_struct_id = 1, op_n_bits = 16, op_offset = 10\<rparr>,
     ds_src = \<lparr>op_struct_id = 1, op_n_bits = 1, op_offset = 0\<rparr>, ds_src_val = 0\<rparr>"

definition ex_ck_thread :: thread where
  "ex_ck_thread = ex_thread\<lparr>t_mem := (\<lambda>a. if a = 138 \<or> a = 139 then 0 else word_of_nat a)\<rparr>"

lemma header_checksum_verifies_witness:
  "sum32 (t_mem (instr_alu_ckadd_struct_exec ex_ck_thread ex_ck_hdr)) 128 5 mod 65535 = 0"
  using header_checksum_verifies [of ex_ck_thread ex_ck_hdr 5]
  by (simp add: ex_ck_thread_def ex_thread_def ex_ck_hdr_def dst16_def op_addr_def unat_load16)

end
