(* ===== verification/SwxPacket.thy ===== *)
theory SwxPacket
  imports SwxThread
begin

text \<open>
  Packets in the data plane: reception with recirculation, header extraction and lookahead,
  header emission, the emit handler that puts the emitted headers in front of the payload,
  mirroring, transmission, drop, header validity and the copy of action data into headers
  (lib/pipeline/rte_swx_pipeline_internal.h). Input ports are queues of packets with their
  bytes, output ports are the log of what was handed to them; instructions are their operands.
\<close>

section \<open>Blocks of memory\<close>

definition mem_bytes :: "mem \<Rightarrow> addr \<Rightarrow> nat \<Rightarrow> bytes" where
  "mem_bytes m a n = map m [a ..< a + n]"

definition memcpy :: "mem \<Rightarrow> addr \<Rightarrow> addr \<Rightarrow> nat \<Rightarrow> mem" where
  "memcpy m dst src n = (\<lambda>x. if dst \<le> x \<and> x < dst + n then m (src + (x - dst)) else m x)"

definition mem_write :: "mem \<Rightarrow> addr \<Rightarrow> bytes \<Rightarrow> mem" where
  "mem_write m a bs = (\<lambda>x. if a \<le> x \<and> x < a + length bs then bs ! (x - a) else m x)"

definition disjoint_blocks :: "addr \<Rightarrow> nat \<Rightarrow> addr \<Rightarrow> nat \<Rightarrow> bool" where
  "disjoint_blocks a n b k \<longleftrightarrow> a + n \<le> b \<or> b + k \<le> a"

lemma length_mem_bytes [simp]: "length (mem_bytes m a n) = n"
  by (simp add: mem_bytes_def)

lemma nth_mem_bytes [simp]: "i < n \<Longrightarrow> mem_bytes m a n ! i = m (a + i)"
  by (simp add: mem_bytes_def)

lemma mem_bytes_0 [simp]: "mem_bytes m a 0 = []"
  by (simp add: mem_bytes_def)

lemma mem_bytes_cong: "(\<And>i. i < n \<Longrightarrow> m (a + i) = m' (b + i)) \<Longrightarrow> mem_bytes m a n = mem_bytes m' b n"
  by (rule nth_equalityI) simp_all

lemma mem_bytes_append: "mem_bytes m a (n + k) = mem_bytes m a n @ mem_bytes m (a + n) k"
  by (rule nth_equalityI) (auto simp: nth_append)

lemma mem_bytes_memcpy [simp]: "mem_bytes (memcpy m dst src n) dst n = mem_bytes m src n"
  by (rule mem_bytes_cong) (simp add: memcpy_def)

lemma mem_bytes_memcpy_other:
  "disjoint_blocks dst n a k \<Longrightarrow> mem_bytes (memcpy m dst src n) a k = mem_bytes m a k"
  by (rule mem_bytes_cong) (auto simp: memcpy_def disjoint_blocks_def)

lemma mem_bytes_write [simp]: "mem_bytes (mem_write m a bs) a (length bs) = bs"
  by (rule nth_equalityI) (simp_all add: mem_write_def)

section \<open>The pipeline\<close>

record mirroring_session =
  ms_port_id :: u32
  ms_fast_clone :: bool
  ms_truncation_length :: u32

datatype tx_event =
    PKT_TX nat swx_pkt bytes
  | PKT_FAST_CLONE_TX nat swx_pkt bytes
  | PKT_CLONE_TX nat swx_pkt bytes u32

record pipeline =
  p_in :: "nat \<Rightarrow> (swx_pkt \<times> bytes) list"
  p_out :: "tx_event list"
  mirroring_sessions :: "nat \<Rightarrow> mirroring_session"
  n_ports_in :: u32
  n_ports_out :: u32
  n_mirroring_slots :: u32
  n_mirroring_sessions :: u32
  threads :: "nat \<Rightarrow> thread"
  thread_id :: u32
  port_id :: u32

definition RTE_SWX_PIPELINE_THREADS_MAX :: u32 where
  "RTE_SWX_PIPELINE_THREADS_MAX = 16"

abbreviation tid :: "pipeline \<Rightarrow> nat" where
  "tid p \<equiv> unat (thread_id p)"

definition cur :: "pipeline \<Rightarrow> thread" where
  "cur p = threads p (tid p)"

definition set_cur :: "pipeline \<Rightarrow> thread \<Rightarrow> pipeline" where
  "set_cur p t = p\<lparr>threads := (threads p)(tid p := t)\<rparr>"

lemma cur_set_cur [simp]: "cur (set_cur p t) = t"
  by (simp add: cur_def set_cur_def)

lemma set_cur_sel [simp]:
  "thread_id (set_cur p t) = thread_id p" "p_out (set_cur p t) = p_out p"
  "p_in (set_cur p t) = p_in p" "port_id (set_cur p t) = port_id p"
  "mirroring_sessions (set_cur p t) = mirroring_sessions p"
  "set_cur (set_cur p t) u = set_cur p u"
  by (simp_all add: set_cur_def)

definition pipeline_port_inc :: "pipeline \<Rightarrow> pipeline" where
  "pipeline_port_inc p = p\<lparr>port_id := (port_id p + 1) AND (n_ports_in p - 1)\<rparr>"

definition thread_yield :: "pipeline \<Rightarrow> pipeline" where
  "thread_yield p = p\<lparr>thread_id := (thread_id p + 1) AND (RTE_SWX_PIPELINE_THREADS_MAX - 1)\<rparr>"

definition thread_yield_cond :: "pipeline \<Rightarrow> bool \<Rightarrow> pipeline" where
  "thread_yield_cond p cond =
     p\<lparr>thread_id := (thread_id p + (if cond then 1 else 0)) AND (RTE_SWX_PIPELINE_THREADS_MAX - 1)\<rparr>"

section \<open>Instruction operands\<close>

record instr_io =
  io_offset :: nat
  io_n_bits :: nat
  io_val :: u32
  hdr_header_id :: "nat \<Rightarrow> nat"
  hdr_struct_id :: "nat \<Rightarrow> nat"
  hdr_n_bytes :: "nat \<Rightarrow> u32"

record instr_hdr_validity =
  hv_header_id :: nat
  hv_struct_id :: nat

record instr_dma =
  dma_header_id :: "nat \<Rightarrow> nat"
  dma_struct_id :: "nat \<Rightarrow> nat"
  dma_offset :: "nat \<Rightarrow> nat"
  dma_n_bytes :: "nat \<Rightarrow> nat"

section \<open>Reception\<close>

text \<open>
  The address of a packet's first byte that is not consumed, \<open>&pkt->pkt[pkt->offset]\<close>, and the
  \<open>pkt_rx\<close> of a port: the next packet of its queue is put in memory, or nothing is received
  and the descriptor of the previous packet stays.
\<close>

definition pkt_at :: "swx_pkt \<Rightarrow> addr" where
  "pkt_at pkt = pkt_pkt pkt + unat (pkt_offset pkt)"

definition pkt_rx :: "pipeline \<Rightarrow> nat \<Rightarrow> pipeline \<times> bool" where
  "pkt_rx p port =
     (case p_in p port of
        [] \<Rightarrow> (p, False)
      | (pkt, bs) # rest \<Rightarrow>
          (let t = cur p;
               t = t\<lparr>t_pkt := pkt, t_mem := mem_write (t_mem t) (pkt_at pkt) bs\<rparr>
           in ((set_cur p t)\<lparr>p_in := (p_in p)(port := rest)\<rparr>, True)))"

definition instr_rx_exec_body :: "pipeline \<Rightarrow> instr_io \<Rightarrow> pipeline \<times> bool" where
  "instr_rx_exec_body p ip =
     (let t = cur p
      in if recirculate t then
           (let t = t\<lparr>t_ptr := pkt_at (t_pkt t), mirroring_slots_mask := 0, recirculate := False,
                      recirc_pass_id := recirc_pass_id t + 1, valid_headers := 0, n_headers_out := 0\<rparr>
            in (set_cur p t, True))
         else
           (let (p, pkt_received) = pkt_rx p (unat (port_id p));
                t = cur p;
                t = t\<lparr>t_ptr := pkt_at (t_pkt t), mirroring_slots_mask := 0, recirc_pass_id := 0,
                      valid_headers := 0, n_headers_out := 0\<rparr>;
                t = METADATA_WRITE t (io_offset ip) (io_n_bits ip) (ucast (port_id p));
                p = pipeline_port_inc (set_cur p t)
            in (p, pkt_received)))"

definition instr_rx_exec :: "instr_io \<Rightarrow> pipeline \<Rightarrow> pipeline" where
  "instr_rx_exec ip p =
     (let (p, pkt_received) = instr_rx_exec_body p ip
      in thread_yield (set_cur p (thread_ip_inc_cond (cur p) pkt_received)))"

section \<open>The emit handler\<close>

text \<open>The header data that the thread has emitted so far, in emission order.\<close>

fun copy_headers_out :: "thread \<Rightarrow> nat list \<Rightarrow> u32 \<Rightarrow> mem \<Rightarrow> mem \<times> u32" where
  "copy_headers_out t [] offset m = (m, offset)"
| "copy_headers_out t (i # is) offset m =
     (let h = headers_out t i;
          m = memcpy m (header_out_storage t + unat offset) (ho_ptr h) (unat (ho_n_bytes h))
      in copy_headers_out t is (offset + ho_n_bytes h) m)"

definition emit_handler :: "thread \<Rightarrow> thread" where
  "emit_handler t =
     (let h0 = headers_out t 0; h1 = headers_out t 1; pkt = t_pkt t
      in if n_headers_out t = 1 \<and> ho_ptr h0 + unat (ho_n_bytes h0) = t_ptr t then
           t\<lparr>t_pkt := pkt\<lparr>pkt_offset := pkt_offset pkt - ho_n_bytes h0,
                           pkt_length := pkt_length pkt + ho_n_bytes h0\<rparr>\<rparr>
         else if n_headers_out t = 2 \<and> ho_ptr h1 + unat (ho_n_bytes h1) = t_ptr t \<and>
                 ho_ptr h0 = ho_ptr0 h0 then
           (let offset = ho_n_bytes h0 + ho_n_bytes h1
            in t\<lparr>t_mem := memcpy (t_mem t) (t_ptr t - unat offset) (ho_ptr h0) (unat (ho_n_bytes h0)),
                 t_pkt := pkt\<lparr>pkt_offset := pkt_offset pkt - offset,
                              pkt_length := pkt_length pkt + offset\<rparr>\<rparr>)
         else
           (let (m, offset) = copy_headers_out t [0 ..< unat (n_headers_out t)] 0 (t_mem t)
            in if offset \<noteq> 0 then
                 t\<lparr>t_mem := memcpy m (t_ptr t - unat offset) (header_out_storage t) (unat offset),
                   t_pkt := pkt\<lparr>pkt_offset := pkt_offset pkt - offset,
                                pkt_length := pkt_length pkt + offset\<rparr>\<rparr>
               else t\<lparr>t_mem := m\<rparr>))"

section \<open>Mirroring, transmission and drop\<close>

definition pkt_bytes :: "thread \<Rightarrow> bytes" where
  "pkt_bytes t = mem_bytes (t_mem t) (pkt_at (t_pkt t)) (unat (pkt_length (t_pkt t)))"

definition pkt_tx :: "pipeline \<Rightarrow> nat \<Rightarrow> pipeline" where
  "pkt_tx p port = p\<lparr>p_out := p_out p @ [PKT_TX port (t_pkt (cur p)) (pkt_bytes (cur p))]\<rparr>"

definition pkt_fast_clone_tx :: "pipeline \<Rightarrow> nat \<Rightarrow> pipeline" where
  "pkt_fast_clone_tx p port =
     p\<lparr>p_out := p_out p @ [PKT_FAST_CLONE_TX port (t_pkt (cur p)) (pkt_bytes (cur p))]\<rparr>"

definition pkt_clone_tx :: "pipeline \<Rightarrow> nat \<Rightarrow> u32 \<Rightarrow> pipeline" where
  "pkt_clone_tx p port truncation_length =
     p\<lparr>p_out := p_out p @ [PKT_CLONE_TX port (t_pkt (cur p)) (pkt_bytes (cur p)) truncation_length]\<rparr>"

definition mirror_one :: "pipeline \<Rightarrow> nat \<Rightarrow> pipeline" where
  "mirror_one p slot_id =
     (let session_id = unat (mirroring_slots (cur p) slot_id);
          session = mirroring_sessions p session_id;
          port = unat (ms_port_id session)
      in if ms_fast_clone session then pkt_fast_clone_tx p port
         else pkt_clone_tx p port (ms_truncation_length session))"

text \<open>
  The loop \<open>for (slot_id = 0, slot_mask = 1; slots_mask; slot_id++, slot_mask <<= 1)\<close>; its
  first argument bounds the rounds. A 64-bit mask is exhausted after 64 of them.
\<close>

fun mirroring_loop :: "nat \<Rightarrow> nat \<Rightarrow> u64 \<Rightarrow> u64 \<Rightarrow> pipeline \<Rightarrow> pipeline option" where
  "mirroring_loop 0 slot_id slot_mask slots_mask p = (if slots_mask = 0 then Some p else None)"
| "mirroring_loop (Suc fuel) slot_id slot_mask slots_mask p =
     (if slots_mask = 0 then Some p
      else if slot_mask AND slots_mask \<noteq> 0 then
        mirroring_loop fuel (slot_id + 1) (push_bit 1 slot_mask) (slots_mask AND NOT slot_mask)
          (mirror_one p slot_id)
      else mirroring_loop fuel (slot_id + 1) (push_bit 1 slot_mask) slots_mask p)"

definition mirroring_handler :: "pipeline \<Rightarrow> pipeline" where
  "mirroring_handler p =
     (case mirroring_loop 64 0 1 (mirroring_slots_mask (cur p)) p of Some p' \<Rightarrow> p' | None \<Rightarrow> p)"

definition instr_tx_exec_body :: "pipeline \<Rightarrow> instr_io \<Rightarrow> pipeline" where
  "instr_tx_exec_body p ip =
     (let port = unat (METADATA_READ (cur p) (io_offset ip) (io_n_bits ip))
      in if recirculate (cur p) then
           (let p = set_cur p (emit_handler (cur p))
            in mirroring_handler p)
         else
           (let p = set_cur p (emit_handler (cur p));
                p = mirroring_handler p
            in pkt_tx p port))"

definition instr_tx_i_exec_body :: "pipeline \<Rightarrow> instr_io \<Rightarrow> pipeline" where
  "instr_tx_i_exec_body p ip =
     (let port = unat (io_val ip)
      in if recirculate (cur p) then
           (let p = set_cur p (emit_handler (cur p))
            in mirroring_handler p)
         else
           (let p = set_cur p (emit_handler (cur p));
                p = mirroring_handler p
            in pkt_tx p port))"

definition instr_drop_exec_body :: "pipeline \<Rightarrow> pipeline" where
  "instr_drop_exec_body p =
     (let port = unat (n_ports_out p - 1);
          p = set_cur p (emit_handler (cur p));
          p = mirroring_handler p
      in pkt_tx p port)"

definition instr_mirror_exec_body :: "pipeline \<Rightarrow> instr_operand \<Rightarrow> instr_operand \<Rightarrow> pipeline" where
  "instr_mirror_exec_body p dst src =
     (let t = cur p;
          slot_id = instr_operand_hbo t dst;
          session_id = instr_operand_hbo t src;
          slot_id = slot_id AND ucast (n_mirroring_slots p - 1);
          session_id = session_id AND ucast (n_mirroring_sessions p - 1)
      in set_cur p (t\<lparr>mirroring_slots := (mirroring_slots t)(unat slot_id := ucast session_id),
                      mirroring_slots_mask := mirroring_slots_mask t OR push_bit (unat slot_id) 1\<rparr>))"

definition instr_recirculate_exec_body :: "thread \<Rightarrow> thread" where
  "instr_recirculate_exec_body t = t\<lparr>recirculate := True\<rparr>"

definition instr_recircid_exec_body :: "thread \<Rightarrow> instr_io \<Rightarrow> thread" where
  "instr_recircid_exec_body t ip =
     METADATA_WRITE t (io_offset ip) (io_n_bits ip) (ucast (recirc_pass_id t))"

section \<open>Header extraction\<close>

text \<open>
  One round of the extraction loop, on the locals \<open>valid_headers\<close>, \<open>ptr\<close>, \<open>offset\<close> and \<open>length\<close>
  and the \<open>structs\<close> array of the thread.
\<close>

fun extract_loop ::
  "instr_io \<Rightarrow> nat list \<Rightarrow> (nat \<Rightarrow> addr) \<times> u64 \<times> addr \<times> u32 \<times> u32 \<Rightarrow> (nat \<Rightarrow> addr) \<times> u64 \<times> addr \<times> u32 \<times> u32"
where
  "extract_loop ip [] st = st"
| "extract_loop ip (i # is) (sts, valid, ptr, offset, len) =
     (let header_id = hdr_header_id ip i;
          struct_id = hdr_struct_id ip i;
          n_bytes = hdr_n_bytes ip i
      in extract_loop ip is
           (sts(struct_id := ptr), MASK64_BIT_SET valid header_id, ptr + unat n_bytes,
            offset + n_bytes, len - n_bytes))"

definition instr_hdr_extract_many_exec :: "thread \<Rightarrow> instr_io \<Rightarrow> nat \<Rightarrow> thread" where
  "instr_hdr_extract_many_exec t ip n_extract =
     (let (sts, valid, ptr, offset, len) =
            extract_loop ip [0 ..< n_extract]
              (structs t, valid_headers t, t_ptr t, pkt_offset (t_pkt t), pkt_length (t_pkt t))
      in t\<lparr>structs := sts, valid_headers := valid,
           t_pkt := (t_pkt t)\<lparr>pkt_offset := offset, pkt_length := len\<rparr>, t_ptr := ptr\<rparr>)"

definition instr_hdr_extract_exec_body :: "thread \<Rightarrow> instr_io \<Rightarrow> thread" where
  "instr_hdr_extract_exec_body t ip = instr_hdr_extract_many_exec t ip 1"

definition instr_hdr_extract2_exec_body :: "thread \<Rightarrow> instr_io \<Rightarrow> thread" where
  "instr_hdr_extract2_exec_body t ip = instr_hdr_extract_many_exec t ip 2"

definition instr_hdr_extract3_exec_body :: "thread \<Rightarrow> instr_io \<Rightarrow> thread" where
  "instr_hdr_extract3_exec_body t ip = instr_hdr_extract_many_exec t ip 3"

definition instr_hdr_extract4_exec_body :: "thread \<Rightarrow> instr_io \<Rightarrow> thread" where
  "instr_hdr_extract4_exec_body t ip = instr_hdr_extract_many_exec t ip 4"

definition instr_hdr_extract5_exec_body :: "thread \<Rightarrow> instr_io \<Rightarrow> thread" where
  "instr_hdr_extract5_exec_body t ip = instr_hdr_extract_many_exec t ip 5"

definition instr_hdr_extract6_exec_body :: "thread \<Rightarrow> instr_io \<Rightarrow> thread" where
  "instr_hdr_extract6_exec_body t ip = instr_hdr_extract_many_exec t ip 6"

definition instr_hdr_extract7_exec_body :: "thread \<Rightarrow> instr_io \<Rightarrow> thread" where
  "instr_hdr_extract7_exec_body t ip = instr_hdr_extract_many_exec t ip 7"

definition instr_hdr_extract8_exec_body :: "thread \<Rightarrow> instr_io \<Rightarrow> thread" where
  "instr_hdr_extract8_exec_body t ip = instr_hdr_extract_many_exec t ip 8"

definition instr_hdr_extract_m_exec_body :: "thread \<Rightarrow> instr_io \<Rightarrow> thread" where
  "instr_hdr_extract_m_exec_body t ip =
     (let n_bytes_last = (ucast (METADATA_READ t (io_offset ip) (io_n_bits ip)) :: u32);
          header_id = hdr_header_id ip 0;
          struct_id = hdr_struct_id ip 0;
          n_bytes = hdr_n_bytes ip 0 + n_bytes_last;
          h = headers t header_id
      in t\<lparr>structs := (structs t)(struct_id := t_ptr t),
           valid_headers := MASK64_BIT_SET (valid_headers t) header_id,
           headers := (headers t)(header_id := h\<lparr>hr_n_bytes := n_bytes\<rparr>),
           t_pkt := (t_pkt t)\<lparr>pkt_offset := pkt_offset (t_pkt t) + n_bytes,
                              pkt_length := pkt_length (t_pkt t) - n_bytes\<rparr>,
           t_ptr := t_ptr t + unat n_bytes\<rparr>)"

definition instr_hdr_lookahead_exec_body :: "thread \<Rightarrow> instr_io \<Rightarrow> thread" where
  "instr_hdr_lookahead_exec_body t ip =
     (let header_id = hdr_header_id ip 0; struct_id = hdr_struct_id ip 0
      in t\<lparr>structs := (structs t)(struct_id := t_ptr t),
           valid_headers := MASK64_BIT_SET (valid_headers t) header_id\<rparr>)"

section \<open>Header emission\<close>

text \<open>
  The locals of the emission loop: the current output header (an index of \<open>headers_out\<close>, none
  before the first valid header), its pointer and size, which the loop keeps out of the
  array until it moves on or ends, and the number of output headers.
\<close>

record emit_locals =
  e_ho :: "nat option"
  e_ho_ptr :: addr
  e_ho_nbytes :: u32
  e_n_headers_out :: u32
  e_headers_out :: "nat \<Rightarrow> header_out_runtime"

definition emit_round :: "thread \<Rightarrow> instr_io \<Rightarrow> emit_locals \<Rightarrow> nat \<Rightarrow> emit_locals" where
  "emit_round t ip e i =
     (let header_id = hdr_header_id ip i;
          struct_id = hdr_struct_id ip i;
          hi = headers t header_id;
          hi_ptr0 = hr_ptr0 hi;
          n_bytes = hr_n_bytes hi;
          hi_ptr = structs t struct_id;
          coalesce = (\<lambda>e ho.
            if e_ho_ptr e + unat (e_ho_nbytes e) = hi_ptr then
              e\<lparr>e_ho := Some ho, e_ho_nbytes := e_ho_nbytes e + n_bytes\<rparr>
            else
              e\<lparr>e_ho := Some (ho + 1), e_ho_ptr := hi_ptr, e_ho_nbytes := n_bytes,
                e_n_headers_out := e_n_headers_out e + 1,
                e_headers_out := (e_headers_out e)
                  (ho := (e_headers_out e ho)\<lparr>ho_n_bytes := e_ho_nbytes e\<rparr>,
                   ho + 1 := (e_headers_out e (ho + 1))\<lparr>ho_ptr0 := hi_ptr0, ho_ptr := hi_ptr\<rparr>)\<rparr>)
      in if MASK64_BIT_GET (valid_headers t) header_id = 0 then e
         else case e_ho e of
             None \<Rightarrow>
               if e_n_headers_out e = 0 then
                 e\<lparr>e_ho := Some 0, e_ho_ptr := hi_ptr, e_ho_nbytes := n_bytes, e_n_headers_out := 1,
                   e_headers_out := (e_headers_out e)
                     (0 := (e_headers_out e 0)\<lparr>ho_ptr0 := hi_ptr0, ho_ptr := hi_ptr\<rparr>)\<rparr>
               else
                 (let ho = unat (e_n_headers_out e - 1);
                      e = e\<lparr>e_ho_ptr := ho_ptr (e_headers_out e ho),
                            e_ho_nbytes := ho_n_bytes (e_headers_out e ho)\<rparr>
                  in coalesce e ho)
           | Some ho \<Rightarrow> coalesce e ho)"

definition emit_finish :: "thread \<Rightarrow> emit_locals \<Rightarrow> thread" where
  "emit_finish t e =
     t\<lparr>headers_out := (case e_ho e of
           None \<Rightarrow> e_headers_out e
         | Some ho \<Rightarrow> (e_headers_out e)(ho := (e_headers_out e ho)\<lparr>ho_n_bytes := e_ho_nbytes e\<rparr>)),
       n_headers_out := e_n_headers_out e\<rparr>"

definition emit_start :: "thread \<Rightarrow> emit_locals" where
  "emit_start t = \<lparr>e_ho = None, e_ho_ptr = 0, e_ho_nbytes = 0,
     e_n_headers_out = n_headers_out t, e_headers_out = headers_out t\<rparr>"

definition instr_hdr_emit_many_exec :: "thread \<Rightarrow> instr_io \<Rightarrow> nat \<Rightarrow> thread" where
  "instr_hdr_emit_many_exec t ip n_emit =
     emit_finish t (foldl (emit_round t ip) (emit_start t) [0 ..< n_emit])"

definition instr_hdr_emit_exec_body :: "thread \<Rightarrow> instr_io \<Rightarrow> thread" where
  "instr_hdr_emit_exec_body t ip = instr_hdr_emit_many_exec t ip 1"

text \<open>The fused \<open>emit ... tx\<close> instructions, for one to eight headers.\<close>

definition emit_many_tx :: "pipeline \<Rightarrow> instr_io \<Rightarrow> nat \<Rightarrow> pipeline" where
  "emit_many_tx p ip n = instr_tx_exec_body (set_cur p (instr_hdr_emit_many_exec (cur p) ip n)) ip"

definition instr_hdr_emit_tx_exec_body :: "pipeline \<Rightarrow> instr_io \<Rightarrow> pipeline" where
  "instr_hdr_emit_tx_exec_body p ip = emit_many_tx p ip 1"

definition instr_hdr_emit2_tx_exec_body :: "pipeline \<Rightarrow> instr_io \<Rightarrow> pipeline" where
  "instr_hdr_emit2_tx_exec_body p ip = emit_many_tx p ip 2"

definition instr_hdr_emit3_tx_exec_body :: "pipeline \<Rightarrow> instr_io \<Rightarrow> pipeline" where
  "instr_hdr_emit3_tx_exec_body p ip = emit_many_tx p ip 3"

definition instr_hdr_emit4_tx_exec_body :: "pipeline \<Rightarrow> instr_io \<Rightarrow> pipeline" where
  "instr_hdr_emit4_tx_exec_body p ip = emit_many_tx p ip 4"

definition instr_hdr_emit5_tx_exec_body :: "pipeline \<Rightarrow> instr_io \<Rightarrow> pipeline" where
  "instr_hdr_emit5_tx_exec_body p ip = emit_many_tx p ip 5"

definition instr_hdr_emit6_tx_exec_body :: "pipeline \<Rightarrow> instr_io \<Rightarrow> pipeline" where
  "instr_hdr_emit6_tx_exec_body p ip = emit_many_tx p ip 6"

definition instr_hdr_emit7_tx_exec_body :: "pipeline \<Rightarrow> instr_io \<Rightarrow> pipeline" where
  "instr_hdr_emit7_tx_exec_body p ip = emit_many_tx p ip 7"

definition instr_hdr_emit8_tx_exec_body :: "pipeline \<Rightarrow> instr_io \<Rightarrow> pipeline" where
  "instr_hdr_emit8_tx_exec_body p ip = emit_many_tx p ip 8"

section \<open>Header validity and action data\<close>

definition instr_hdr_validate_exec_body :: "thread \<Rightarrow> instr_hdr_validity \<Rightarrow> thread" where
  "instr_hdr_validate_exec_body t ip =
     (let header_id = hv_header_id ip; struct_id = hv_struct_id ip; h = headers t header_id
      in if MASK64_BIT_GET (valid_headers t) header_id \<noteq> 0 then t
         else t\<lparr>structs := (structs t)(struct_id := hr_ptr0 h),
                valid_headers := MASK64_BIT_SET (valid_headers t) header_id\<rparr>)"

definition instr_hdr_invalidate_exec_body :: "thread \<Rightarrow> instr_hdr_validity \<Rightarrow> thread" where
  "instr_hdr_invalidate_exec_body t ip =
     t\<lparr>valid_headers := MASK64_BIT_CLR (valid_headers t) (hv_header_id ip)\<rparr>"

text \<open>The loop of \<open>dma\<close>; the action data pointer is read before the first round.\<close>

fun dma_loop :: "addr \<Rightarrow> instr_dma \<Rightarrow> nat list \<Rightarrow> u64 \<Rightarrow> thread \<Rightarrow> u64 \<times> thread" where
  "dma_loop action_data ip [] valid t = (valid, t)"
| "dma_loop action_data ip (i # is) valid t =
     (let header_id = dma_header_id ip i;
          struct_id = dma_struct_id ip i;
          offset = dma_offset ip i;
          n_bytes = dma_n_bytes ip i;
          h_ptr0 = hr_ptr0 (headers t header_id);
          h_ptr = structs t struct_id;
          dst = (if MASK64_BIT_GET valid header_id \<noteq> 0 then h_ptr else h_ptr0);
          t = t\<lparr>t_mem := memcpy (t_mem t) dst (action_data + offset) n_bytes,
                structs := (structs t)(struct_id := dst)\<rparr>
      in dma_loop action_data ip is (MASK64_BIT_SET valid header_id) t)"

definition instr_dma_ht_many_exec :: "thread \<Rightarrow> instr_dma \<Rightarrow> nat \<Rightarrow> thread" where
  "instr_dma_ht_many_exec t ip n_dma =
     (let (valid, t) = dma_loop (structs t 0) ip [0 ..< n_dma] (valid_headers t) t
      in t\<lparr>valid_headers := valid\<rparr>)"

definition instr_dma_ht_exec_body :: "thread \<Rightarrow> instr_dma \<Rightarrow> thread" where
  "instr_dma_ht_exec_body t ip = instr_dma_ht_many_exec t ip 1"

definition instr_dma_ht2_exec_body :: "thread \<Rightarrow> instr_dma \<Rightarrow> thread" where
  "instr_dma_ht2_exec_body t ip = instr_dma_ht_many_exec t ip 2"

definition instr_dma_ht3_exec_body :: "thread \<Rightarrow> instr_dma \<Rightarrow> thread" where
  "instr_dma_ht3_exec_body t ip = instr_dma_ht_many_exec t ip 3"

definition instr_dma_ht4_exec_body :: "thread \<Rightarrow> instr_dma \<Rightarrow> thread" where
  "instr_dma_ht4_exec_body t ip = instr_dma_ht_many_exec t ip 4"

definition instr_dma_ht5_exec_body :: "thread \<Rightarrow> instr_dma \<Rightarrow> thread" where
  "instr_dma_ht5_exec_body t ip = instr_dma_ht_many_exec t ip 5"

definition instr_dma_ht6_exec_body :: "thread \<Rightarrow> instr_dma \<Rightarrow> thread" where
  "instr_dma_ht6_exec_body t ip = instr_dma_ht_many_exec t ip 6"

definition instr_dma_ht7_exec_body :: "thread \<Rightarrow> instr_dma \<Rightarrow> thread" where
  "instr_dma_ht7_exec_body t ip = instr_dma_ht_many_exec t ip 7"

definition instr_dma_ht8_exec_body :: "thread \<Rightarrow> instr_dma \<Rightarrow> thread" where
  "instr_dma_ht8_exec_body t ip = instr_dma_ht_many_exec t ip 8"

section \<open>Mirroring\<close>

lemma cur_mirror_one [simp]: "cur (mirror_one p i) = cur p"
  by (simp add: mirror_one_def pkt_fast_clone_tx_def pkt_clone_tx_def cur_def Let_def)

lemma mirroring_loop_Some:
  assumes "k \<le> 64" and "\<And>i. bit msk i \<Longrightarrow> k \<le> i"
  shows "mirroring_loop (64 - k) k (push_bit k 1) msk p =
         Some (foldl mirror_one p (filter (bit msk) [k ..< 64]))"
  using assms
proof (induction "64 - k" arbitrary: k msk p)
  case 0
  have "msk = 0"
  proof (rule bit_word_eqI)
    fix i assume "i < LENGTH(64)"
    then show "bit msk i = bit 0 i" using 0(1,2) 0(3) [of i] by auto
  qed
  with 0 show ?case by simp
next
  case (Suc f)
  then have k: "k < 64" and f: "64 - k = Suc f" "f = 64 - (k + 1)" by auto
  have up: "[k ..< 64] = k # [k + 1 ..< 64]" using k by (simp add: upt_conv_Cons)
  have test: "push_bit k 1 AND msk \<noteq> 0 \<longleftrightarrow> bit msk k"
    using MASK64_BIT_GET_iff [OF k, of msk] by (simp add: MASK64_BIT_GET_def and.commute)
  have sh: "push_bit 1 (push_bit k 1 :: u64) = push_bit (k + 1) 1" by (simp add: push_bit_push_bit)
  show ?case
  proof (cases "msk = 0")
    case True
    then show ?thesis by (simp add: f(1))
  next
    case False
    show ?thesis
    proof (cases "bit msk k")
      case True
      let ?m = "msk AND NOT (push_bit k 1)"
      have b: "bit ?m i \<longleftrightarrow> bit msk i \<and> i \<noteq> k" for i
        using bit_MASK64_BIT_CLR [of msk k i] by (simp add: MASK64_BIT_CLR_def)
      have "k + 1 \<le> i" if "bit ?m i" for i
      proof -
        from that have "k \<le> i" "i \<noteq> k" using b Suc.prems(2) by auto
        then show ?thesis by simp
      qed
      then have "mirroring_loop (64 - (k + 1)) (k + 1) (push_bit (k + 1) 1) ?m (mirror_one p k) =
        Some (foldl mirror_one (mirror_one p k) (filter (bit ?m) [k + 1 ..< 64]))"
        using Suc.hyps(1) [of "k + 1" ?m "mirror_one p k"] k f(2) by simp
      moreover have "filter (bit ?m) [k + 1 ..< 64] = filter (bit msk) [k + 1 ..< 64]"
        by (rule filter_cong [OF refl]) (subst b, auto)
      moreover have "mirroring_loop (Suc f) k (push_bit k 1) msk p =
        mirroring_loop f (k + 1) (push_bit (k + 1) 1) ?m (mirror_one p k)"
        using False True test by (simp only: mirroring_loop.simps sh) simp
      ultimately show ?thesis using True by (simp only: f(1) up f(2) filter.simps if_True foldl.simps)
    next
      case F: False
      have "k + 1 \<le> i" if "bit msk i" for i
      proof -
        from that have "k \<le> i" "i \<noteq> k" using F Suc.prems(2) by auto
        then show ?thesis by simp
      qed
      then have "mirroring_loop (64 - (k + 1)) (k + 1) (push_bit (k + 1) 1) msk p =
        Some (foldl mirror_one p (filter (bit msk) [k + 1 ..< 64]))"
        using Suc.hyps(1) [of "k + 1" msk p] k f(2) by simp
      moreover have "mirroring_loop (Suc f) k (push_bit k 1) msk p =
        mirroring_loop f (k + 1) (push_bit (k + 1) 1) msk p"
        using False F test by (simp only: mirroring_loop.simps sh) simp
      ultimately show ?thesis using F by (simp only: f(1) up f(2) filter.simps if_False)
    qed
  qed
qed

lemma mirroring_handler_foldl:
  "mirroring_handler p = foldl mirror_one p (filter (bit (mirroring_slots_mask (cur p))) [0 ..< 64])"
  using mirroring_loop_Some [of 0 "mirroring_slots_mask (cur p)" p]
  by (simp add: mirroring_handler_def)

definition clone_event :: "pipeline \<Rightarrow> nat \<Rightarrow> tx_event" where
  "clone_event p slot_id =
     (let t = cur p; session = mirroring_sessions p (unat (mirroring_slots t slot_id));
          port = unat (ms_port_id session)
      in if ms_fast_clone session then PKT_FAST_CLONE_TX port (t_pkt t) (pkt_bytes t)
         else PKT_CLONE_TX port (t_pkt t) (pkt_bytes t) (ms_truncation_length session))"

lemma mirror_one_event: "mirror_one p i = p\<lparr>p_out := p_out p @ [clone_event p i]\<rparr>"
  by (simp add: mirror_one_def clone_event_def pkt_fast_clone_tx_def pkt_clone_tx_def Let_def)

lemma clone_event_out [simp]: "clone_event (p\<lparr>p_out := o'\<rparr>) i = clone_event p i"
  by (simp add: clone_event_def cur_def)

lemma foldl_mirror_one: "foldl mirror_one p is = p\<lparr>p_out := p_out p @ map (clone_event p) is\<rparr>"
  by (induction "is" arbitrary: p) (simp_all add: mirror_one_event)

lemma mirroring_handler_out:
  "mirroring_handler p = p\<lparr>p_out := p_out p @
     map (clone_event p) (filter (bit (mirroring_slots_mask (cur p))) [0 ..< 64])\<rparr>"
  by (simp add: mirroring_handler_foldl foldl_mirror_one)

lemma cur_out [simp]: "cur (p\<lparr>p_out := o'\<rparr>) = cur p"
  by (simp add: cur_def)

text \<open>
  C36: transmission with mirroring. For a packet that is not recirculated, \<open>tx\<close> first sends one
  clone per requested mirroring slot, in slot order, to the port of the slot's session and as a
  fast clone or truncated copy as the session says, and then the packet itself to the port
  read from meta-data; the clones carry the packet with its emitted headers. A recirculated
  packet is mirrored but not sent. The loop over the 64-bit slot mask always ends.
\<close>

theorem tx_mirrors_then_sends:
  "p_out (instr_tx_exec_body p ip) = p_out p @
     map (clone_event (set_cur p (emit_handler (cur p)))) (filter (bit (mirroring_slots_mask (emit_handler (cur p)))) [0 ..< 64]) @
     (if recirculate (cur p) then []
      else [PKT_TX (unat (METADATA_READ (cur p) (io_offset ip) (io_n_bits ip)))
              (t_pkt (emit_handler (cur p))) (pkt_bytes (emit_handler (cur p)))])"
  by (simp add: instr_tx_exec_body_def Let_def mirroring_handler_out pkt_tx_def)

section \<open>Extraction\<close>

lemma emit_handler_slots [simp]: "mirroring_slots_mask (emit_handler t) = mirroring_slots_mask t"
  by (simp add: emit_handler_def Let_def split: prod.splits)

text \<open>The instruction operand that starts at the \<open>i\<close>-th header of a fused instruction.\<close>

definition hdr_at :: "instr_io \<Rightarrow> nat \<Rightarrow> instr_io" where
  "hdr_at ip i = ip\<lparr>hdr_header_id := (\<lambda>_. hdr_header_id ip i), hdr_struct_id := (\<lambda>_. hdr_struct_id ip i),
     hdr_n_bytes := (\<lambda>_. hdr_n_bytes ip i)\<rparr>"

lemma extract_loop_append:
  "extract_loop ip (xs @ ys) st = extract_loop ip ys (extract_loop ip xs st)"
  by (induction ip xs st rule: extract_loop.induct) (simp_all add: Let_def)

text \<open>The state of the loop as a thread, and one round as an extraction of its own.\<close>

lemma extract_many_Suc:
  "instr_hdr_extract_many_exec t ip (Suc n) =
   instr_hdr_extract_exec_body (instr_hdr_extract_many_exec t ip n) (hdr_at ip n)"
  by (simp add: instr_hdr_extract_many_exec_def instr_hdr_extract_exec_body_def extract_loop_append
      hdr_at_def Let_def split: prod.splits)

lemma extract_many_0: "instr_hdr_extract_many_exec t ip 0 = t"
  by (simp add: instr_hdr_extract_many_exec_def)

lemma extract_many_foldl:
  "instr_hdr_extract_many_exec t ip n =
   foldl (\<lambda>t i. instr_hdr_extract_exec_body t (hdr_at ip i)) t [0 ..< n]"
  by (induction n) (simp_all add: extract_many_0 extract_many_Suc)

text \<open>
  Fused extraction. The instruction that extracts \<open>n\<close> headers at once, keeping the packet
  pointer, offset and length in locals, leaves the thread in the state that \<open>n\<close> single
  \<open>extract\<close> instructions in sequence leave; \<open>extract2\<close> to \<open>extract8\<close> are its instances.
\<close>

theorem extract_fusion:
  "instr_hdr_extract_many_exec t ip n =
     foldl (\<lambda>t i. instr_hdr_extract_exec_body t (hdr_at ip i)) t [0 ..< n] \<and>
   instr_hdr_extract8_exec_body t ip =
     foldl (\<lambda>t i. instr_hdr_extract_exec_body t (hdr_at ip i)) t [0, 1, 2, 3, 4, 5, 6, 7]"
proof -
  have "[0 ..< 8] = [0 :: nat, 1, 2, 3, 4, 5, 6, 7]" by (simp add: upt_rec)
  then show ?thesis by (simp only: extract_many_foldl instr_hdr_extract8_exec_body_def simp_thms)
qed

section \<open>The packet pointer\<close>

text \<open>The invariant that ties the thread's pointer to the descriptor of its packet.\<close>

definition ptr_ok :: "thread \<Rightarrow> bool" where
  "ptr_ok t \<longleftrightarrow> t_ptr t = pkt_at (t_pkt t)"

lemma ptr_ok_rx [inv_intros]: "ptr_ok (cur (fst (instr_rx_exec_body p ip)))"
  by (auto simp: instr_rx_exec_body_def Let_def ptr_ok_def METADATA_WRITE_def pkt_rx_def
      pipeline_port_inc_def cur_def set_cur_def split: list.split prod.splits)

lemma ptr_ok_extract [inv_intros]:
  "ptr_ok t \<Longrightarrow> unat (pkt_offset (t_pkt t)) + unat (hdr_n_bytes ip 0) < 4294967296 \<Longrightarrow>
   ptr_ok (instr_hdr_extract_exec_body t ip)"
  by (simp add: ptr_ok_def instr_hdr_extract_exec_body_def instr_hdr_extract_many_exec_def Let_def
      pkt_at_def u32_plus_no_wrap)

section \<open>Emission\<close>

lemma emit_round_hdr_at: "emit_round t (hdr_at ip i) e 0 = emit_round t ip e i"
  by (simp add: emit_round_def hdr_at_def)

text \<open>What a round reads and writes of the thread: the emitted headers only.\<close>

lemma emit_round_emit_finish: "emit_round (emit_finish t e) ip e' i = emit_round t ip e' i"
  by (simp add: emit_round_def emit_finish_def)

lemma emit_finish_emit_finish: "emit_finish (emit_finish t e) e' = emit_finish t e'"
  by (simp add: emit_finish_def)

text \<open>The locals mirror the array: what holds between two rounds.\<close>

definition emit_inv :: "emit_locals \<Rightarrow> bool" where
  "emit_inv e \<longleftrightarrow> (case e_ho e of None \<Rightarrow> True
     | Some ho \<Rightarrow> e_n_headers_out e \<noteq> 0 \<and> ho = unat (e_n_headers_out e - 1) \<and>
                  ho_ptr (e_headers_out e ho) = e_ho_ptr e)"

text \<open>Ending the loop and starting it again is as good as going on.\<close>

lemma emit_inv_round:
  assumes "emit_inv e" and "e_n_headers_out e + 1 \<noteq> 0"
  shows "emit_inv (emit_round t ip e i)"
  using assms unat_Suc_pred [of "e_n_headers_out e"]
  by (auto simp: emit_inv_def emit_round_def Let_def split: option.splits if_splits)

lemma emit_round_restart:
  assumes "emit_inv e"
  shows "emit_finish t (emit_round t ip (emit_start (emit_finish t e)) i) =
         emit_finish t (emit_round t ip e i)"
proof (cases "MASK64_BIT_GET (valid_headers t) (hdr_header_id ip i) = 0")
  case True
  then show ?thesis
    by (cases "e_ho e") (simp_all add: emit_round_def emit_start_def emit_finish_def)
next
  case valid: False
  show ?thesis
  proof (cases "e_ho e")
    case None
    with valid show ?thesis by (simp add: emit_round_def emit_start_def emit_finish_def Let_def)
  next
    case (Some ho)
    with assms have n: "e_n_headers_out e \<noteq> 0" and ho: "unat (e_n_headers_out e - 1) = ho"
      and ptr: "ho_ptr (e_headers_out e ho) = e_ho_ptr e"
      unfolding emit_inv_def Some by auto
    have st: "emit_start (emit_finish t e) = e\<lparr>e_ho := None, e_ho_ptr := 0, e_ho_nbytes := 0,
        e_headers_out := (e_headers_out e)(ho := (e_headers_out e ho)\<lparr>ho_n_bytes := e_ho_nbytes e\<rparr>)\<rparr>"
      by (simp add: emit_start_def emit_finish_def Some)
    show ?thesis unfolding st
      by (cases "e_ho_ptr e + unat (e_ho_nbytes e) = structs t (hdr_struct_id ip i)")
        (simp_all add: emit_round_def Let_def valid Some n ho ptr emit_finish_def)
  qed
qed

lemma emit_round_count: "unat (e_n_headers_out (emit_round t ip e i)) \<le> unat (e_n_headers_out e) + 1"
proof -
  have "unat (n + 1) \<le> unat n + 1" for n :: u32 by (simp add: unat_word_ariths)
  then show ?thesis by (simp add: emit_round_def Let_def split: option.splits)
qed

lemma emit_many_foldl:
  assumes "unat (n_headers_out t) + n < 4294967296"
  shows "instr_hdr_emit_many_exec t ip n =
           foldl (\<lambda>t i. instr_hdr_emit_exec_body t (hdr_at ip i)) t [0 ..< n] \<and>
         emit_inv (foldl (emit_round t ip) (emit_start t) [0 ..< n]) \<and>
         unat (e_n_headers_out (foldl (emit_round t ip) (emit_start t) [0 ..< n])) \<le> unat (n_headers_out t) + n"
  using assms
proof (induction n)
  case 0
  then show ?case
    by (simp add: instr_hdr_emit_many_exec_def emit_finish_def emit_start_def emit_inv_def)
next
  case (Suc n)
  let ?e = "foldl (emit_round t ip) (emit_start t) [0 ..< n]"
  from Suc have IH: "instr_hdr_emit_many_exec t ip n =
      foldl (\<lambda>t i. instr_hdr_emit_exec_body t (hdr_at ip i)) t [0 ..< n]"
    and inv: "emit_inv ?e" and cnt: "unat (e_n_headers_out ?e) \<le> unat (n_headers_out t) + n"
    by simp_all
  have "instr_hdr_emit_exec_body (emit_finish t ?e) (hdr_at ip n) =
      emit_finish t (emit_round t ip ?e n)"
    by (simp add: instr_hdr_emit_exec_body_def instr_hdr_emit_many_exec_def emit_round_hdr_at
        emit_round_emit_finish emit_finish_emit_finish emit_round_restart [OF inv])
  moreover have "emit_inv (emit_round t ip ?e n)"
    using inv cnt Suc.prems by (intro emit_inv_round u32_Suc_nz) simp_all
  moreover have "unat (e_n_headers_out (emit_round t ip ?e n)) \<le> unat (n_headers_out t) + Suc n"
    using emit_round_count [of t ip ?e n] cnt by simp
  ultimately show ?case
    using IH by (simp add: instr_hdr_emit_many_exec_def)
qed

text \<open>
  Fused emission. The instruction that emits \<open>n\<close> headers at once, which keeps the current
  output header in locals and writes its size back when it moves on or ends, leaves the thread
  as \<open>n\<close> single \<open>emit\<close> instructions in sequence do, whatever headers were emitted before and
  whichever of them are valid.
\<close>

theorem emit_fusion:
  assumes "unat (n_headers_out t) + n < 4294967296"
  shows "instr_hdr_emit_many_exec t ip n =
     foldl (\<lambda>t i. instr_hdr_emit_exec_body t (hdr_at ip i)) t [0 ..< n]"
  using emit_many_foldl [OF assms] by simp

definition ex_io :: instr_io where
  "ex_io = \<lparr>io_offset = 0, io_n_bits = 32, io_val = 0, hdr_header_id = (\<lambda>i. i),
     hdr_struct_id = (\<lambda>i. i), hdr_n_bytes = (\<lambda>_. 20)\<rparr>"

lemma emit_fusion_witness:
  "instr_hdr_emit_many_exec ex_thread ex_io 8 =
   foldl (\<lambda>t i. instr_hdr_emit_exec_body t (hdr_at ex_io i)) ex_thread [0 ..< 8]"
  using emit_fusion [of ex_thread 8 ex_io] by (simp add: ex_thread_def)

section \<open>What is emitted\<close>

definition ho_bytes :: "mem \<Rightarrow> header_out_runtime \<Rightarrow> bytes" where
  "ho_bytes m h = mem_bytes m (ho_ptr h) (unat (ho_n_bytes h))"

text \<open>The bytes of the output headers, in the order of their emission.\<close>

definition out_bytes :: "thread \<Rightarrow> bytes" where
  "out_bytes t = concat (map (\<lambda>i. ho_bytes (t_mem t) (headers_out t i)) [0 ..< unat (n_headers_out t)])"

definition out_len :: "thread \<Rightarrow> nat" where
  "out_len t = sum_list (map (\<lambda>i. unat (ho_n_bytes (headers_out t i))) [0 ..< unat (n_headers_out t)])"

lemma length_out_bytes: "length (out_bytes t) = out_len t"
  by (simp add: out_bytes_def out_len_def length_concat ho_bytes_def comp_def)

lemma last_len_le_out_len:
  "n_headers_out t \<noteq> 0 \<Longrightarrow> unat (ho_n_bytes (headers_out t (unat (n_headers_out t) - 1))) \<le> out_len t"
  unfolding out_len_def by (rule member_le_sum_list) (auto simp: unat_gt_0 image_iff intro!: bexI)

lemma ho_all_fields [simp]:
  "(h :: header_out_runtime)\<lparr>ho_ptr0 := a, ho_ptr := b, ho_n_bytes := c\<rparr> =
   \<lparr>ho_ptr0 = a, ho_ptr = b, ho_n_bytes = c\<rparr>"
  by (cases h) simp

lemma emit_exec_valid:
  assumes "MASK64_BIT_GET (valid_headers t) (hdr_header_id ip 0) \<noteq> 0"
    and "unat (n_headers_out t) + 1 < 4294967296"
    and "out_len t + unat (hr_n_bytes (headers t (hdr_header_id ip 0))) < 4294967296"
  shows "out_bytes (instr_hdr_emit_exec_body t ip) = out_bytes t @
     mem_bytes (t_mem t) (structs t (hdr_struct_id ip 0)) (unat (hr_n_bytes (headers t (hdr_header_id ip 0))))"
proof -
  let ?n = "unat (n_headers_out t)" and ?nb = "hr_n_bytes (headers t (hdr_header_id ip 0))"
    and ?hp = "structs t (hdr_struct_id ip 0)" and ?q0 = "hr_ptr0 (headers t (hdr_header_id ip 0))"
  have run: "instr_hdr_emit_exec_body t ip = emit_finish t (emit_round t ip (emit_start t) 0)"
    by (simp add: instr_hdr_emit_exec_body_def instr_hdr_emit_many_exec_def)
  show ?thesis
  proof (cases "n_headers_out t = 0")
    case True
    have "instr_hdr_emit_exec_body t ip = t\<lparr>headers_out := (headers_out t)
        (0 := \<lparr>ho_ptr0 = ?q0, ho_ptr = ?hp, ho_n_bytes = ?nb\<rparr>), n_headers_out := 1\<rparr>"
      unfolding run using assms(1) True by (simp add: emit_round_def emit_start_def emit_finish_def Let_def)
    then show ?thesis by (simp add: out_bytes_def True ho_bytes_def)
  next
    case False
    define k where "k = ?n - 1"
    have k: "?n = Suc k" using False by (simp add: k_def unat_gt_0)
    have pred: "unat (n_headers_out t - 1) = k" using unat_pred [OF False] by (simp add: k_def)
    have up: "[0 ..< ?n] = [0 ..< k] @ [k]" by (simp add: k)
    show ?thesis
    proof (cases "ho_ptr (headers_out t k) + unat (ho_n_bytes (headers_out t k)) = ?hp")
      case True
      have e: "instr_hdr_emit_exec_body t ip = t\<lparr>headers_out := (headers_out t)
          (k := (headers_out t k)\<lparr>ho_n_bytes := ho_n_bytes (headers_out t k) + ?nb\<rparr>)\<rparr>"
        unfolding run using assms(1) False True
        by (simp add: emit_round_def emit_start_def emit_finish_def Let_def pred)
      have "unat (ho_n_bytes (headers_out t k)) \<le> out_len t"
        using last_len_le_out_len [OF False] by (simp add: k_def)
      then have "unat (ho_n_bytes (headers_out t k) + ?nb) = unat (ho_n_bytes (headers_out t k)) + unat ?nb"
        using assms(3) by (intro u32_plus_no_wrap) simp
      then show ?thesis using True
        by (simp add: e out_bytes_def k ho_bytes_def mem_bytes_append)
          (rule arg_cong [of _ _ concat], rule map_cong, simp_all)
    next
      case F: False
      have e: "instr_hdr_emit_exec_body t ip = t\<lparr>headers_out := (headers_out t)
          (Suc k := \<lparr>ho_ptr0 = ?q0, ho_ptr = ?hp, ho_n_bytes = ?nb\<rparr>), n_headers_out := n_headers_out t + 1\<rparr>"
        unfolding run using assms(1) False F
        by (simp add: emit_round_def emit_start_def emit_finish_def Let_def pred)
      have "unat (n_headers_out t + 1) = Suc (Suc k)"
        using u32_plus_no_wrap [of "n_headers_out t" 1] assms(2) k by simp
      then show ?thesis
        by (simp add: e out_bytes_def k ho_bytes_def)
          (rule arg_cong [of _ _ concat], rule map_cong, simp_all)
    qed
  qed
qed

lemma emit_exec_invalid:
  "MASK64_BIT_GET (valid_headers t) (hdr_header_id ip 0) = 0 \<Longrightarrow> instr_hdr_emit_exec_body t ip = t"
  by (simp add: instr_hdr_emit_exec_body_def instr_hdr_emit_many_exec_def emit_round_def
      emit_finish_def emit_start_def)

text \<open>
  Emission appends. An \<open>emit\<close> of a valid header appends the header's current bytes to the
  output headers of the thread, whether it is merged with the previous output header because the
  two are adjacent in memory or starts a new one; an \<open>emit\<close> of an invalid header does nothing.
\<close>

theorem emit_appends:
  assumes "unat (n_headers_out t) + 1 < 4294967296"
    and "out_len t + unat (hr_n_bytes (headers t (hdr_header_id ip 0))) < 4294967296"
  shows "out_bytes (instr_hdr_emit_exec_body t ip) = out_bytes t @
     (if HEADER_VALID t (hdr_header_id ip 0)
      then mem_bytes (t_mem t) (structs t (hdr_struct_id ip 0)) (unat (hr_n_bytes (headers t (hdr_header_id ip 0))))
      else [])"
  using emit_exec_valid [OF _ assms] emit_exec_invalid [of t ip]
  by (cases "HEADER_VALID t (hdr_header_id ip 0)") (simp_all add: HEADER_VALID_def)

lemma emit_appends_witness:
  "out_bytes (instr_hdr_emit_exec_body (ex_thread\<lparr>valid_headers := 1\<rparr>) ex_io) = mem_bytes word_of_nat 0 20"
  using emit_appends [of "ex_thread\<lparr>valid_headers := 1\<rparr>" ex_io]
  by (simp add: ex_thread_def ex_io_def out_len_def out_bytes_def HEADER_VALID_def MASK64_BIT_GET_def)

section \<open>The emit handler\<close>

lemma copy_headers_out_spec:
  assumes "unat off + sum_list (map (\<lambda>i. unat (ho_n_bytes (headers_out t i))) is) < 4294967296"
    and "\<And>i. i \<in> set is \<Longrightarrow> disjoint_blocks (header_out_storage t)
       (unat off + sum_list (map (\<lambda>i. unat (ho_n_bytes (headers_out t i))) is))
       (ho_ptr (headers_out t i)) (unat (ho_n_bytes (headers_out t i)))"
    and "copy_headers_out t is off m = (m', off')"
  shows "unat off' = unat off + sum_list (map (\<lambda>i. unat (ho_n_bytes (headers_out t i))) is) \<and>
    mem_bytes m' (header_out_storage t) (unat off') =
      mem_bytes m (header_out_storage t) (unat off) @ concat (map (\<lambda>i. ho_bytes m (headers_out t i)) is) \<and>
    (\<forall>x. x < header_out_storage t \<or> header_out_storage t + unat off' \<le> x \<longrightarrow> m' x = m x)"
  using assms
proof (induction "is" arbitrary: off m)
  case Nil
  then show ?case by simp
next
  case (Cons i "is")
  let ?S = "header_out_storage t" and ?n = "ho_n_bytes (headers_out t i)" and ?p = "ho_ptr (headers_out t i)"
  let ?sum = "\<lambda>is. sum_list (map (\<lambda>i. unat (ho_n_bytes (headers_out t i))) is)"
  let ?m = "memcpy m (?S + unat off) ?p (unat ?n)"
  have off: "unat (off + ?n) = unat off + unat ?n"
    using Cons.prems(1) by (intro u32_plus_no_wrap) simp
  have run: "copy_headers_out t is (off + ?n) ?m = (m', off')"
    using Cons.prems(3) by (simp add: Let_def)
  have "unat off' = unat (off + ?n) + ?sum is \<and>
      mem_bytes m' ?S (unat off') = mem_bytes ?m ?S (unat (off + ?n)) @ concat (map (\<lambda>i. ho_bytes ?m (headers_out t i)) is) \<and>
      (\<forall>x. x < ?S \<or> ?S + unat off' \<le> x \<longrightarrow> m' x = ?m x)"
    by (rule Cons.IH [OF _ _ run]) (use Cons.prems off in \<open>auto simp: add.assoc\<close>)
  then have len: "unat off' = unat off + unat ?n + ?sum is"
    and copied: "mem_bytes m' ?S (unat off') = mem_bytes ?m ?S (unat off + unat ?n) @ concat (map (\<lambda>i. ho_bytes ?m (headers_out t i)) is)"
    and frame: "\<And>x. x < ?S \<or> ?S + unat off' \<le> x \<Longrightarrow> m' x = ?m x"
    unfolding off by blast+
  have first: "mem_bytes ?m ?S (unat off + unat ?n) = mem_bytes m ?S (unat off) @ ho_bytes m (headers_out t i)"
    by (simp add: mem_bytes_append mem_bytes_memcpy_other disjoint_blocks_def ho_bytes_def)
  have rest: "map (\<lambda>i. ho_bytes ?m (headers_out t i)) is = map (\<lambda>i. ho_bytes m (headers_out t i)) is"
  proof (rule map_cong [OF refl])
    fix j assume "j \<in> set is"
    then have "disjoint_blocks ?S (unat off + ?sum (i # is)) (ho_ptr (headers_out t j)) (unat (ho_n_bytes (headers_out t j)))"
      using Cons.prems(2) by (meson list.set_intros(2))
    then have "disjoint_blocks (?S + unat off) (unat ?n) (ho_ptr (headers_out t j)) (unat (ho_n_bytes (headers_out t j)))"
      by (auto simp: disjoint_blocks_def)
    then show "ho_bytes ?m (headers_out t j) = ho_bytes m (headers_out t j)"
      by (simp add: ho_bytes_def mem_bytes_memcpy_other)
  qed
  have out: "?m x = m x" if "x < ?S \<or> ?S + unat off' \<le> x" for x
    using that len by (auto simp: memcpy_def)
  have "mem_bytes m' ?S (unat off') =
      mem_bytes m ?S (unat off) @ concat (map (\<lambda>i. ho_bytes m (headers_out t i)) (i # is))"
    unfolding copied first rest by simp
  moreover have "unat off' = unat off + ?sum (i # is)" using len by simp
  moreover have "m' x = m x" if "x < ?S \<or> ?S + unat off' \<le> x" for x
    using frame [OF that] out [OF that] by simp
  ultimately show ?case by (intro conjI allI impI)
qed

text \<open>
  The layout that the build step and the drivers give: room for the headers in front of the
  payload (the head room of the packet buffer), the staging area apart from the packet and from
  the headers, and default header storage apart from the packet.
\<close>

definition emit_layout :: "thread \<Rightarrow> bool" where
  "emit_layout t \<longleftrightarrow>
     (let T = out_len t; ptr = t_ptr t; len = unat (pkt_length (t_pkt t)) in
      T \<le> unat (pkt_offset (t_pkt t)) \<and> len + T < 4294967296 \<and>
      disjoint_blocks (header_out_storage t) T (ptr - T) (T + len) \<and>
      (\<forall>i < unat (n_headers_out t).
         disjoint_blocks (header_out_storage t) T (ho_ptr (headers_out t i)) (unat (ho_n_bytes (headers_out t i)))) \<and>
      (\<forall>i < unat (n_headers_out t). ho_ptr (headers_out t i) = ho_ptr0 (headers_out t i) \<longrightarrow>
         disjoint_blocks (ptr - T) (T + len) (ho_ptr (headers_out t i)) (unat (ho_n_bytes (headers_out t i)))))"

lemma two_headers: "unat (n_headers_out t) = 2 \<Longrightarrow>
    out_len t = unat (ho_n_bytes (headers_out t 0)) + unat (ho_n_bytes (headers_out t 1)) \<and>
    out_bytes t = ho_bytes (t_mem t) (headers_out t 0) @ ho_bytes (t_mem t) (headers_out t 1)"
  by (simp add: out_len_def out_bytes_def numeral_2_eq_2)

lemma pkt_bytes_after:
  assumes "ptr_ok t" and "T \<le> unat (pkt_offset (t_pkt t))" and "unat (pkt_length (t_pkt t)) + T < 4294967296"
    and "unat off = T"
  shows "pkt_bytes (t\<lparr>t_mem := m, t_pkt := (t_pkt t)\<lparr>pkt_offset := pkt_offset (t_pkt t) - off,
           pkt_length := pkt_length (t_pkt t) + off\<rparr>\<rparr>) =
         mem_bytes m (t_ptr t - T) T @ mem_bytes m (t_ptr t) (unat (pkt_length (t_pkt t)))"
proof -
  have "unat (pkt_offset (t_pkt t) - off) = unat (pkt_offset (t_pkt t)) - T"
    using assms by (simp add: u32_minus)
  moreover have "unat (pkt_length (t_pkt t) + off) = T + unat (pkt_length (t_pkt t))"
    using assms u32_plus_no_wrap [of "pkt_length (t_pkt t)" off] by simp
  moreover have "T \<le> t_ptr t" using assms(1,2) by (simp add: ptr_ok_def pkt_at_def)
  ultimately show ?thesis
    using assms by (simp add: pkt_bytes_def pkt_at_def ptr_ok_def mem_bytes_append)
qed

lemma emit_handler_complex:
  assumes "ptr_ok t" and "emit_layout t"
    and "copy_headers_out t [0 ..< unat (n_headers_out t)] 0 (t_mem t) = (m, off)"
  shows "unat off = out_len t"
    and "mem_bytes (memcpy m (t_ptr t - unat off) (header_out_storage t) (unat off)) (t_ptr t - out_len t) (out_len t) = out_bytes t"
    and "mem_bytes (memcpy m (t_ptr t - unat off) (header_out_storage t) (unat off)) (t_ptr t) (unat (pkt_length (t_pkt t))) = pkt_bytes t"
    and "mem_bytes m (t_ptr t) (unat (pkt_length (t_pkt t))) = pkt_bytes t"
proof -
  let ?T = "out_len t" and ?S = "header_out_storage t" and ?len = "unat (pkt_length (t_pkt t))"
  have lay: "?T \<le> unat (pkt_offset (t_pkt t))" "?len + ?T < 4294967296"
      "disjoint_blocks ?S ?T (t_ptr t - ?T) (?T + ?len)"
    and src: "\<And>i. i < unat (n_headers_out t) \<Longrightarrow>
      disjoint_blocks ?S ?T (ho_ptr (headers_out t i)) (unat (ho_n_bytes (headers_out t i)))"
    using assms(2) by (simp_all add: emit_layout_def Let_def)
  have spec: "unat off = ?T \<and> mem_bytes m ?S (unat off) = out_bytes t \<and>
      (\<forall>x. x < ?S \<or> ?S + unat off \<le> x \<longrightarrow> m x = t_mem t x)"
    using copy_headers_out_spec [OF _ _ assms(3)] lay(2) src
    unfolding out_len_def [symmetric] by (auto simp: out_bytes_def)
  then have off: "unat off = ?T" and cp: "mem_bytes m ?S (unat off) = out_bytes t"
    and fr: "\<And>x. x < ?S \<or> ?S + unat off \<le> x \<Longrightarrow> m x = t_mem t x"
    by blast+
  show "unat off = ?T" by (rule off)
  have T: "?T \<le> t_ptr t" using assms(1) lay(1) by (simp add: ptr_ok_def pkt_at_def)
  show "mem_bytes (memcpy m (t_ptr t - unat off) ?S (unat off)) (t_ptr t - ?T) ?T = out_bytes t"
    using cp by (simp add: off)
  show pay: "mem_bytes m (t_ptr t) ?len = pkt_bytes t"
  proof -
    have "m (t_ptr t + i) = t_mem t (t_ptr t + i)" if "i < ?len" for i
      by (rule fr) (use lay(3) that T off in \<open>auto simp: disjoint_blocks_def\<close>)
    then have "mem_bytes m (t_ptr t) ?len = mem_bytes (t_mem t) (t_ptr t) ?len"
      by (intro mem_bytes_cong) simp
    then show ?thesis using assms(1) by (simp add: pkt_bytes_def ptr_ok_def)
  qed
  have "disjoint_blocks (t_ptr t - ?T) ?T (t_ptr t) ?len" using T by (simp add: disjoint_blocks_def)
  then show "mem_bytes (memcpy m (t_ptr t - unat off) ?S (unat off)) (t_ptr t) ?len = pkt_bytes t"
    unfolding off pay [symmetric] by (rule mem_bytes_memcpy_other)
qed

lemma emit_handler_pkt_bytes:
  assumes "ptr_ok t" and "emit_layout t"
  shows "pkt_bytes (emit_handler t) = out_bytes t @ pkt_bytes t"
proof -
  let ?T = "out_len t" and ?len = "unat (pkt_length (t_pkt t))"
  let ?h0 = "headers_out t 0" and ?h1 = "headers_out t 1"
  have lay: "?T \<le> unat (pkt_offset (t_pkt t))" "?len + ?T < 4294967296"
    using assms(2) by (simp_all add: emit_layout_def Let_def)
  have T: "?T \<le> t_ptr t" using assms(1) lay(1) by (simp add: ptr_ok_def pkt_at_def)
  have pay: "mem_bytes (t_mem t) (t_ptr t) ?len = pkt_bytes t"
    using assms(1) by (simp add: pkt_bytes_def ptr_ok_def)
  consider (decap) "n_headers_out t = 1" "ho_ptr ?h0 + unat (ho_n_bytes ?h0) = t_ptr t"
    | (encap) "n_headers_out t = 2" "ho_ptr ?h1 + unat (ho_n_bytes ?h1) = t_ptr t" "ho_ptr ?h0 = ho_ptr0 ?h0"
    | (complex) "\<not> (n_headers_out t = 1 \<and> ho_ptr ?h0 + unat (ho_n_bytes ?h0) = t_ptr t)"
        "\<not> (n_headers_out t = 2 \<and> ho_ptr ?h1 + unat (ho_n_bytes ?h1) = t_ptr t \<and> ho_ptr ?h0 = ho_ptr0 ?h0)"
    by blast
  then show ?thesis
  proof cases
    case decap
    have len: "?T = unat (ho_n_bytes ?h0)" and out: "out_bytes t = ho_bytes (t_mem t) ?h0"
      using decap(1) by (simp_all add: out_len_def out_bytes_def)
    have run: "emit_handler t = t\<lparr>t_mem := t_mem t,
        t_pkt := (t_pkt t)\<lparr>pkt_offset := pkt_offset (t_pkt t) - ho_n_bytes ?h0,
                           pkt_length := pkt_length (t_pkt t) + ho_n_bytes ?h0\<rparr>\<rparr>"
      using decap by (simp add: emit_handler_def Let_def)
    have "t_ptr t - ?T = ho_ptr ?h0" using decap(2) len by simp
    then show ?thesis
      unfolding run by (simp only: pkt_bytes_after [OF assms(1) lay len [symmetric]] pay out ho_bytes_def len)
  next
    case encap
    let ?off = "ho_n_bytes ?h0 + ho_n_bytes ?h1"
    have n: "unat (n_headers_out t) = 2" using encap(1) by simp
    note two = two_headers [OF n]
    have off: "unat ?off = ?T"
      using two lay u32_plus_no_wrap [of "ho_n_bytes ?h0" "ho_n_bytes ?h1"] by simp
    let ?m = "memcpy (t_mem t) (t_ptr t - unat ?off) (ho_ptr ?h0) (unat (ho_n_bytes ?h0))"
    have run: "emit_handler t = t\<lparr>t_mem := ?m,
        t_pkt := (t_pkt t)\<lparr>pkt_offset := pkt_offset (t_pkt t) - ?off, pkt_length := pkt_length (t_pkt t) + ?off\<rparr>\<rparr>"
      using encap by (simp add: emit_handler_def Let_def)
    have h1: "t_ptr t - ?T + unat (ho_n_bytes ?h0) = ho_ptr ?h1" using encap(2) two T by simp
    have "mem_bytes ?m (t_ptr t - ?T) ?T =
        mem_bytes ?m (t_ptr t - ?T) (unat (ho_n_bytes ?h0)) @ mem_bytes ?m (ho_ptr ?h1) (unat (ho_n_bytes ?h1))"
      using mem_bytes_append [of ?m "t_ptr t - ?T" "unat (ho_n_bytes ?h0)" "unat (ho_n_bytes ?h1)"] two h1 by simp
    also have "mem_bytes ?m (t_ptr t - ?T) (unat (ho_n_bytes ?h0)) = ho_bytes (t_mem t) ?h0"
      by (simp only: off mem_bytes_memcpy ho_bytes_def)
    also have "mem_bytes ?m (ho_ptr ?h1) (unat (ho_n_bytes ?h1)) = ho_bytes (t_mem t) ?h1"
      unfolding ho_bytes_def off using h1 by (intro mem_bytes_memcpy_other) (simp add: disjoint_blocks_def)
    finally have hdrs: "mem_bytes ?m (t_ptr t - ?T) ?T = out_bytes t" using two by simp
    have "mem_bytes ?m (t_ptr t) ?len = pkt_bytes t"
      unfolding pay [symmetric] off using two T by (intro mem_bytes_memcpy_other) (simp add: disjoint_blocks_def)
    then show ?thesis
      unfolding run by (simp only: pkt_bytes_after [OF assms(1) lay off] hdrs)
  next
    case complex
    obtain m off where c: "copy_headers_out t [0 ..< unat (n_headers_out t)] 0 (t_mem t) = (m, off)"
      by (cases "copy_headers_out t [0 ..< unat (n_headers_out t)] 0 (t_mem t)")
    note cx = emit_handler_complex [OF assms c]
    show ?thesis
    proof (cases "off = 0")
      case True
      have "out_bytes t = []" using cx(1) True length_out_bytes [of t] by simp
      moreover have "emit_handler t = t\<lparr>t_mem := m\<rparr>"
        unfolding emit_handler_def Let_def if_not_P [OF complex(1)] if_not_P [OF complex(2)] c
        by (simp add: True)
      moreover have "pkt_bytes (t\<lparr>t_mem := m\<rparr>) = pkt_bytes t"
        using cx(4) assms(1) by (simp add: pkt_bytes_def ptr_ok_def)
      ultimately show ?thesis by simp
    next
      case False
      have run: "emit_handler t = t\<lparr>t_mem := memcpy m (t_ptr t - unat off) (header_out_storage t) (unat off),
          t_pkt := (t_pkt t)\<lparr>pkt_offset := pkt_offset (t_pkt t) - off, pkt_length := pkt_length (t_pkt t) + off\<rparr>\<rparr>"
        unfolding emit_handler_def Let_def if_not_P [OF complex(1)] if_not_P [OF complex(2)] c
        by (simp add: False)
      show ?thesis
        unfolding run by (simp only: pkt_bytes_after [OF assms(1) lay cx(1)] cx(2,3))
    qed
  qed
qed

text \<open>
  C34: the emit handler. Whichever of its three branches runs (headers left in place, one header
  put in front, or all headers staged and copied), the packet that leaves the pipeline consists of
  the emitted headers in emission order followed by the payload behind the parsed headers, and
  offset and length are moved by the size of the headers.
\<close>

theorem emit_handler_correct:
  assumes "ptr_ok t" and "emit_layout t"
  shows "pkt_bytes (emit_handler t) = out_bytes t @ pkt_bytes t"
  using assms by (rule emit_handler_pkt_bytes)

definition ex_encap :: thread where
  "ex_encap = ex_thread\<lparr>n_headers_out := 1,
     headers_out := (\<lambda>_. \<lparr>ho_ptr0 = 4096, ho_ptr = 4096, ho_n_bytes = 20\<rparr>)\<rparr>"

lemma emit_handler_correct_witness:
  "pkt_bytes (emit_handler ex_encap) = mem_bytes word_of_nat 4096 20 @ mem_bytes word_of_nat 1152 64"
  using emit_handler_correct [of ex_encap]
  by (simp add: ex_encap_def ex_thread_def ptr_ok_def pkt_at_def emit_layout_def out_len_def
      out_bytes_def ho_bytes_def pkt_bytes_def disjoint_blocks_def)

section \<open>Headers that are extracted and emitted unchanged\<close>

definition hdr_sum :: "instr_io \<Rightarrow> nat \<Rightarrow> nat" where
  "hdr_sum ip n = sum_list (map (\<lambda>i. unat (hdr_n_bytes ip i)) [0 ..< n])"

definition hdr_wsum :: "instr_io \<Rightarrow> nat \<Rightarrow> u32" where
  "hdr_wsum ip n = sum_list (map (hdr_n_bytes ip) [0 ..< n])"

lemma hdr_sum_Suc [simp]: "hdr_sum ip 0 = 0" "hdr_sum ip (Suc n) = hdr_sum ip n + unat (hdr_n_bytes ip n)"
  by (simp_all add: hdr_sum_def)

lemma hdr_wsum_Suc [simp]: "hdr_wsum ip 0 = 0" "hdr_wsum ip (Suc n) = hdr_wsum ip n + hdr_n_bytes ip n"
  by (simp_all add: hdr_wsum_def)

lemma unat_hdr_wsum: "hdr_sum ip n < 4294967296 \<Longrightarrow> unat (hdr_wsum ip n) = hdr_sum ip n"
  by (induction n) (simp_all add: u32_plus_no_wrap)

lemma hdr_sum_mono: "k \<le> n \<Longrightarrow> hdr_sum ip k \<le> hdr_sum ip n"
  by (induction n) (auto simp: le_Suc_eq)

text \<open>The thread after the extraction of \<open>n\<close> headers.\<close>

lemma extract_one:
  "instr_hdr_extract_exec_body t (hdr_at ip i) =
   t\<lparr>structs := (structs t)(hdr_struct_id ip i := t_ptr t),
     valid_headers := MASK64_BIT_SET (valid_headers t) (hdr_header_id ip i),
     t_pkt := (t_pkt t)\<lparr>pkt_offset := pkt_offset (t_pkt t) + hdr_n_bytes ip i,
                        pkt_length := pkt_length (t_pkt t) - hdr_n_bytes ip i\<rparr>,
     t_ptr := t_ptr t + unat (hdr_n_bytes ip i)\<rparr>"
  by (simp add: instr_hdr_extract_exec_body_def instr_hdr_extract_many_exec_def hdr_at_def Let_def)

lemma extract_many_frame:
  "t_mem (instr_hdr_extract_many_exec t ip n) = t_mem t \<and>
   headers (instr_hdr_extract_many_exec t ip n) = headers t \<and>
   headers_out (instr_hdr_extract_many_exec t ip n) = headers_out t \<and>
   n_headers_out (instr_hdr_extract_many_exec t ip n) = n_headers_out t \<and>
   t_ptr (instr_hdr_extract_many_exec t ip n) = t_ptr t + hdr_sum ip n \<and>
   t_pkt (instr_hdr_extract_many_exec t ip n) =
     (t_pkt t)\<lparr>pkt_offset := pkt_offset (t_pkt t) + hdr_wsum ip n,
               pkt_length := pkt_length (t_pkt t) - hdr_wsum ip n\<rparr>"
  by (induction n) (simp_all add: extract_many_0 extract_many_Suc extract_one)

lemma extract_many_valid:
  "i < n \<Longrightarrow> hdr_header_id ip i < 64 \<Longrightarrow>
   MASK64_BIT_GET (valid_headers (instr_hdr_extract_many_exec t ip n)) (hdr_header_id ip i) \<noteq> 0"
  by (induction n)
    (auto simp: extract_many_Suc extract_one MASK64_BIT_GET_iff bit_MASK64_BIT_SET less_Suc_eq)

lemma extract_many_structs:
  assumes "inj_on (hdr_struct_id ip) {..< n}" and "i < n"
  shows "structs (instr_hdr_extract_many_exec t ip n) (hdr_struct_id ip i) = t_ptr t + hdr_sum ip i"
  using assms
proof (induction n)
  case (Suc n)
  show ?case
  proof (cases "i = n")
    case True
    then show ?thesis by (simp add: extract_many_Suc extract_one extract_many_frame)
  next
    case False
    then have "hdr_struct_id ip i \<noteq> hdr_struct_id ip n"
      using Suc.prems by (auto dest: inj_onD)
    moreover have "inj_on (hdr_struct_id ip) {..< n}"
      using Suc.prems(1) by (rule inj_on_subset) auto
    ultimately show ?thesis
      using Suc False by (simp add: extract_many_Suc extract_one)
  qed
qed simp

lemma emit_rounds_in_place:
  assumes "n_headers_out t = 0" and "k < n" and "hdr_sum ip n < 4294967296"
    and "\<And>i. i < n \<Longrightarrow> MASK64_BIT_GET (valid_headers t) (hdr_header_id ip i) \<noteq> 0"
    and "\<And>i. i < n \<Longrightarrow> structs t (hdr_struct_id ip i) = a + hdr_sum ip i"
    and "\<And>i. i < n \<Longrightarrow> hr_n_bytes (headers t (hdr_header_id ip i)) = hdr_n_bytes ip i"
  shows "foldl (emit_round t ip) (emit_start t) [0 ..< Suc k] =
    \<lparr>e_ho = Some 0, e_ho_ptr = a, e_ho_nbytes = hdr_wsum ip (Suc k), e_n_headers_out = 1,
     e_headers_out = (headers_out t)(0 := (headers_out t 0)
       \<lparr>ho_ptr0 := hr_ptr0 (headers t (hdr_header_id ip 0)), ho_ptr := a\<rparr>)\<rparr>"
  using assms(2)
proof (induction k)
  case 0
  then show ?case using assms(1,4,5,6) by (simp add: emit_round_def emit_start_def Let_def fun_upd_def)
next
  case (Suc k)
  have "hdr_sum ip (Suc k) < 4294967296"
    using hdr_sum_mono [of "Suc k" n ip] Suc.prems assms(3) by simp
  then have "unat (hdr_wsum ip (Suc k)) = hdr_sum ip (Suc k)" by (rule unat_hdr_wsum)
  moreover have "foldl (emit_round t ip) (emit_start t) [0 ..< Suc (Suc k)] =
    emit_round t ip (foldl (emit_round t ip) (emit_start t) [0 ..< Suc k]) (Suc k)" by simp
  ultimately show ?case
    using Suc.IH Suc.prems assms(4,5,6) [of "Suc k"]
    by (simp del: upt_Suc) (simp add: emit_round_def Let_def)
qed

text \<open>
  C35: unchanged headers. A thread that extracts the first \<open>n\<close> headers of its packet and emits the
  same headers in the same order sends the packet as it came: the emit handler finds one
  output header that ends at the payload, copies nothing, and restores offset and length.
\<close>

theorem extract_emit_identity:
  assumes "n_headers_out t = 0" and "0 < n" and "hdr_sum ip n < 4294967296"
    and "inj_on (hdr_struct_id ip) {..< n}" and "\<forall>i < n. hdr_header_id ip i < 64"
    and "\<forall>i < n. hr_n_bytes (headers t (hdr_header_id ip i)) = hdr_n_bytes ip i"
  shows "t_pkt (emit_handler (instr_hdr_emit_many_exec (instr_hdr_extract_many_exec t ip n) ip n)) = t_pkt t \<and>
    t_mem (emit_handler (instr_hdr_emit_many_exec (instr_hdr_extract_many_exec t ip n) ip n)) = t_mem t"
proof -
  let ?t = "instr_hdr_extract_many_exec t ip n"
  obtain k where k: "n = Suc k" using assms(2) gr0_conv_Suc by auto
  have fold: "foldl (emit_round ?t ip) (emit_start ?t) [0 ..< Suc k] =
    \<lparr>e_ho = Some 0, e_ho_ptr = t_ptr t, e_ho_nbytes = hdr_wsum ip (Suc k), e_n_headers_out = 1,
     e_headers_out = (headers_out ?t)(0 := (headers_out ?t 0)
       \<lparr>ho_ptr0 := hr_ptr0 (headers ?t (hdr_header_id ip 0)), ho_ptr := t_ptr t\<rparr>)\<rparr>"
    by (rule emit_rounds_in_place [where n = n])
      (use assms k extract_many_valid extract_many_structs in \<open>auto simp: extract_many_frame\<close>)
  have sum: "unat (hdr_wsum ip n) = hdr_sum ip n" using assms(3) by (rule unat_hdr_wsum)
  have "instr_hdr_emit_many_exec ?t ip n = emit_finish ?t (foldl (emit_round ?t ip) (emit_start ?t) [0 ..< Suc k])"
    by (simp only: instr_hdr_emit_many_exec_def k)
  then show ?thesis
    unfolding fold using sum by (simp add: emit_finish_def emit_handler_def extract_many_frame k Let_def)
qed

lemma extract_emit_identity_witness:
  "t_pkt (emit_handler (instr_hdr_emit_many_exec (instr_hdr_extract_many_exec ex_thread ex_io 3) ex_io 3)) =
   \<lparr>pkt_pkt = 1024, pkt_offset = 128, pkt_length = 64\<rparr>"
  using extract_emit_identity [of ex_thread 3 ex_io]
  by (simp add: ex_thread_def ex_io_def hdr_sum_def numeral_3_eq_3 inj_on_def)

end
