(* ===== verification/SwxReg.thy ===== *)
theory SwxReg
  imports SwxThread RteCommon
begin

text \<open>
  Register arrays: configuration, build and control plane access
  (lib/pipeline/rte_swx_pipeline.c) and the \<open>regrd\<close>, \<open>regwr\<close> and \<open>regadd\<close> instructions
  (lib/pipeline/rte_swx_pipeline_internal.h). The suffixes name the byte order of index and
  operand: h for a header field, m for meta-data, i for an immediate value. An access out of
  the array's bounds is \<open>None\<close>; that it does not occur after a successful build is shown here.
\<close>

section \<open>An indexed store\<close>

text \<open>
  The contract between an array of cells and the instructions that use it: what a read
  returns after a write, and which accesses succeed.
\<close>

locale indexed_store =
  fixes get :: "'s \<Rightarrow> 'i \<Rightarrow> 'v option"
    and put :: "'s \<Rightarrow> 'i \<Rightarrow> 'v \<Rightarrow> 's option"
  assumes put_defined: "(\<exists>s'. put s i v = Some s') \<longleftrightarrow> (\<exists>w. get s i = Some w)"
    and get_put_same: "put s i v = Some s' \<Longrightarrow> get s' i = Some v"
    and get_put_other: "put s i v = Some s' \<Longrightarrow> j \<noteq> i \<Longrightarrow> get s' j = get s j"
begin

definition modify :: "('v \<Rightarrow> 'v) \<Rightarrow> 's \<Rightarrow> 'i \<Rightarrow> 's option" where
  "modify f s i = (case get s i of None \<Rightarrow> None | Some v \<Rightarrow> put s i (f v))"

lemma modify_get:
  assumes "modify f s i = Some s'"
  shows "get s' j = (if j = i then map_option f (get s i) else get s j)"
proof -
  from assms obtain v where v: "get s i = Some v" "put s i (f v) = Some s'"
    by (auto simp: modify_def split: option.splits)
  then show ?thesis using get_put_same get_put_other by simp
qed

lemma modify_defined: "(\<exists>s'. modify f s i = Some s') \<longleftrightarrow> (\<exists>w. get s i = Some w)"
proof (cases "get s i")
  case None
  then show ?thesis by (simp add: modify_def)
next
  case (Some v)
  then show ?thesis using put_defined [of s i "f v"] by (simp add: modify_def)
qed

fun modify_all :: "('i \<times> ('v \<Rightarrow> 'v)) list \<Rightarrow> 's \<Rightarrow> 's option" where
  "modify_all [] s = Some s"
| "modify_all ((i, f) # us) s = (case modify f s i of None \<Rightarrow> None | Some s' \<Rightarrow> modify_all us s')"

text \<open>A cell sees the updates addressed to it, in their order, and no others.\<close>

lemma modify_all_get:
  "modify_all us s = Some s' \<Longrightarrow>
   get s' j = map_option (\<lambda>v. foldl (\<lambda>v (i, f). if i = j then f v else v) v us) (get s j)"
proof (induction us arbitrary: s)
  case Nil
  then show ?case by (simp add: option.map_ident)
next
  case (Cons u us)
  obtain i f where u: "u = (i, f)" by (cases u)
  with Cons.prems obtain s1 where s1: "modify f s i = Some s1" "modify_all us s1 = Some s'"
    by (auto split: option.splits)
  from Cons.IH [OF s1(2)] modify_get [OF s1(1), of j] show ?case
    by (auto simp: u option.map_comp comp_def)
qed

end

section \<open>Configuration, build and control plane access\<close>

record regarray_cfg =
  rc_name :: string
  rc_size :: u32
  rc_init_val :: u64

record regarray_runtime =
  regarray :: "u64 list"
  ra_size_mask :: u32

datatype errno = EINVAL | EEXIST

definition RTE_SWX_NAME_SIZE :: nat where
  "RTE_SWX_NAME_SIZE = 64"

text \<open>\<open>CHECK_NAME\<close>: a name is not empty and fits its buffer with the final zero.\<close>

definition check_name :: "string \<Rightarrow> bool" where
  "check_name name \<longleftrightarrow> name \<noteq> [] \<and> length name < RTE_SWX_NAME_SIZE"

text \<open>The index of an element of the list is its identifier; lookups go by name.\<close>

fun regarray_find :: "regarray_cfg list \<Rightarrow> string \<Rightarrow> (nat \<times> regarray_cfg) option" where
  "regarray_find [] name = None"
| "regarray_find (r # rs) name =
     (if rc_name r = name then Some (0, r)
      else map_option (\<lambda>(i, r). (i + 1, r)) (regarray_find rs name))"

definition regarray_config ::
  "regarray_cfg list \<Rightarrow> string \<Rightarrow> u32 \<Rightarrow> u64 \<Rightarrow> errno + regarray_cfg list" where
  "regarray_config rs name sz init_val =
     (if \<not> check_name name then Inl EINVAL
      else if regarray_find rs name \<noteq> None then Inl EEXIST
      else if sz = 0 then Inl EINVAL
      else Inr (rs @ [\<lparr>rc_name = name, rc_size = rte_align32pow2 sz, rc_init_val = init_val\<rparr>]))"

text \<open>The memory of a new array is zero; the initial value is written when it is not zero.\<close>

definition regarray_build_one :: "regarray_cfg \<Rightarrow> regarray_runtime" where
  "regarray_build_one r =
     \<lparr>regarray = (if rc_init_val r \<noteq> 0 then replicate (unat (rc_size r)) (rc_init_val r)
                  else replicate (unat (rc_size r)) 0),
      ra_size_mask = rc_size r - 1\<rparr>"

definition regarray_build :: "regarray_cfg list \<Rightarrow> regarray_runtime list" where
  "regarray_build rs = map regarray_build_one rs"

definition ctl_regarray_read ::
  "regarray_cfg list \<Rightarrow> regarray_runtime list \<Rightarrow> string \<Rightarrow> u32 \<Rightarrow> errno + u64" where
  "ctl_regarray_read rs rt name index =
     (case regarray_find rs name of
        None \<Rightarrow> Inl EINVAL
      | Some (i, r) \<Rightarrow>
          if rc_size r \<le> index then Inl EINVAL else Inr (regarray (rt ! i) ! unat index))"

definition ctl_regarray_write ::
  "regarray_cfg list \<Rightarrow> regarray_runtime list \<Rightarrow> string \<Rightarrow> u32 \<Rightarrow> u64 \<Rightarrow> errno + regarray_runtime list" where
  "ctl_regarray_write rs rt name index value =
     (case regarray_find rs name of
        None \<Rightarrow> Inl EINVAL
      | Some (i, r) \<Rightarrow>
          if rc_size r \<le> index then Inl EINVAL
          else Inr (rt[i := (rt ! i)\<lparr>regarray := (regarray (rt ! i))[unat index := value]\<rparr>]))"

section \<open>Operands of the instructions\<close>

record instr_regarray =
  ra_regarray_id :: nat
  ra_idx :: instr_operand
  ra_idx_val :: u32
  ra_dstsrc :: instr_operand
  ra_dstsrc_val :: u64

type_synonym regs = "regarray_runtime list"

definition instr_regarray_idx_hbo :: "regs \<Rightarrow> thread \<Rightarrow> instr_regarray \<Rightarrow> u64" where
  "instr_regarray_idx_hbo p t ip =
     (let r = p ! ra_regarray_id ip;
          idx64 = load64 (t_mem t) (op_addr t (ra_idx ip));
          idx64_mask = mask64 (op_n_bits (ra_idx ip))
      in idx64 AND idx64_mask AND ucast (ra_size_mask r))"

definition instr_regarray_idx_nbo :: "regs \<Rightarrow> thread \<Rightarrow> instr_regarray \<Rightarrow> u64" where
  "instr_regarray_idx_nbo p t ip =
     (let r = p ! ra_regarray_id ip;
          idx64 = load64 (t_mem t) (op_addr t (ra_idx ip))
      in drop_bit (64 - op_n_bits (ra_idx ip)) (ntoh64 idx64) AND ucast (ra_size_mask r))"

definition instr_regarray_idx_imm :: "regs \<Rightarrow> instr_regarray \<Rightarrow> u64" where
  "instr_regarray_idx_imm p ip =
     (let r = p ! ra_regarray_id ip in ucast (ra_idx_val ip AND ra_size_mask r))"

definition instr_regarray_src_hbo :: "thread \<Rightarrow> instr_regarray \<Rightarrow> u64" where
  "instr_regarray_src_hbo t ip =
     (let src64 = load64 (t_mem t) (op_addr t (ra_dstsrc ip));
          src64_mask = mask64 (op_n_bits (ra_dstsrc ip))
      in src64 AND src64_mask)"

definition instr_regarray_src_nbo :: "thread \<Rightarrow> instr_regarray \<Rightarrow> u64" where
  "instr_regarray_src_nbo t ip =
     (let src64 = load64 (t_mem t) (op_addr t (ra_dstsrc ip))
      in drop_bit (64 - op_n_bits (ra_dstsrc ip)) (ntoh64 src64))"

definition instr_regarray_dst_hbo_src_hbo_set :: "thread \<Rightarrow> instr_regarray \<Rightarrow> u64 \<Rightarrow> thread" where
  "instr_regarray_dst_hbo_src_hbo_set t ip src =
     (let dst64_ptr = op_addr t (ra_dstsrc ip);
          dst64 = load64 (t_mem t) dst64_ptr;
          dst64_mask = mask64 (op_n_bits (ra_dstsrc ip))
      in t\<lparr>t_mem := store64 (t_mem t) dst64_ptr ((dst64 AND NOT dst64_mask) OR (src AND dst64_mask))\<rparr>)"

definition instr_regarray_dst_nbo_src_hbo_set :: "thread \<Rightarrow> instr_regarray \<Rightarrow> u64 \<Rightarrow> thread" where
  "instr_regarray_dst_nbo_src_hbo_set t ip src =
     (let dst64_ptr = op_addr t (ra_dstsrc ip);
          dst64 = load64 (t_mem t) dst64_ptr;
          dst64_mask = mask64 (op_n_bits (ra_dstsrc ip));
          src = drop_bit (64 - op_n_bits (ra_dstsrc ip)) (hton64 src)
      in t\<lparr>t_mem := store64 (t_mem t) dst64_ptr ((dst64 AND NOT dst64_mask) OR (src AND dst64_mask))\<rparr>)"

section \<open>Array accesses\<close>

text \<open>\<open>regarray[idx]\<close> as an expression and as the target of an assignment.\<close>

definition reg_load :: "regs \<Rightarrow> nat \<times> nat \<Rightarrow> u64 option" where
  "reg_load p a = (case aget p (fst a) of None \<Rightarrow> None | Some r \<Rightarrow> aget (regarray r) (snd a))"

definition reg_store :: "regs \<Rightarrow> nat \<times> nat \<Rightarrow> u64 \<Rightarrow> regs option" where
  "reg_store p a v =
     (case aget p (fst a) of
        None \<Rightarrow> None
      | Some r \<Rightarrow>
          (case aset (regarray r) (snd a) v of
             None \<Rightarrow> None
           | Some xs \<Rightarrow> aset p (fst a) (r\<lparr>regarray := xs\<rparr>)))"

interpretation reg: indexed_store reg_load reg_store
  by unfold_locales
    (auto simp: reg_load_def reg_store_def aget_def aset_def nth_list_update prod_eq_iff split: if_splits)

definition reg_add :: "regs \<Rightarrow> nat \<times> nat \<Rightarrow> u64 \<Rightarrow> regs option" where
  "reg_add p a src = (case reg_load p a of None \<Rightarrow> None | Some v \<Rightarrow> reg_store p a (v + src))"

lemma reg_add_modify: "reg_add p a src = reg.modify (\<lambda>v. v + src) p a"
  by (simp add: reg_add_def reg.modify_def)

section \<open>The instructions\<close>

definition instr_regrd_hrh_exec :: "regs \<Rightarrow> thread \<Rightarrow> instr_regarray \<Rightarrow> thread option" where
  "instr_regrd_hrh_exec p t ip =
     (let idx = instr_regarray_idx_nbo p t ip
      in map_option (\<lambda>v. instr_regarray_dst_nbo_src_hbo_set t ip v) (reg_load p (ra_regarray_id ip, unat idx)))"

definition instr_regrd_hrm_exec :: "regs \<Rightarrow> thread \<Rightarrow> instr_regarray \<Rightarrow> thread option" where
  "instr_regrd_hrm_exec p t ip =
     (let idx = instr_regarray_idx_hbo p t ip
      in map_option (\<lambda>v. instr_regarray_dst_nbo_src_hbo_set t ip v) (reg_load p (ra_regarray_id ip, unat idx)))"

definition instr_regrd_hri_exec :: "regs \<Rightarrow> thread \<Rightarrow> instr_regarray \<Rightarrow> thread option" where
  "instr_regrd_hri_exec p t ip =
     (let idx = instr_regarray_idx_imm p ip
      in map_option (\<lambda>v. instr_regarray_dst_nbo_src_hbo_set t ip v) (reg_load p (ra_regarray_id ip, unat idx)))"

definition instr_regrd_mrh_exec :: "regs \<Rightarrow> thread \<Rightarrow> instr_regarray \<Rightarrow> thread option" where
  "instr_regrd_mrh_exec p t ip =
     (let idx = instr_regarray_idx_nbo p t ip
      in map_option (\<lambda>v. instr_regarray_dst_hbo_src_hbo_set t ip v) (reg_load p (ra_regarray_id ip, unat idx)))"

definition instr_regrd_mrm_exec :: "regs \<Rightarrow> thread \<Rightarrow> instr_regarray \<Rightarrow> thread option" where
  "instr_regrd_mrm_exec p t ip =
     (let idx = instr_regarray_idx_hbo p t ip
      in map_option (\<lambda>v. instr_regarray_dst_hbo_src_hbo_set t ip v) (reg_load p (ra_regarray_id ip, unat idx)))"

definition instr_regrd_mri_exec :: "regs \<Rightarrow> thread \<Rightarrow> instr_regarray \<Rightarrow> thread option" where
  "instr_regrd_mri_exec p t ip =
     (let idx = instr_regarray_idx_imm p ip
      in map_option (\<lambda>v. instr_regarray_dst_hbo_src_hbo_set t ip v) (reg_load p (ra_regarray_id ip, unat idx)))"

definition instr_regwr_rhh_exec :: "regs \<Rightarrow> thread \<Rightarrow> instr_regarray \<Rightarrow> regs option" where
  "instr_regwr_rhh_exec p t ip =
     (let idx = instr_regarray_idx_nbo p t ip;
          src = instr_regarray_src_nbo t ip
      in reg_store p (ra_regarray_id ip, unat idx) src)"

definition instr_regwr_rhm_exec :: "regs \<Rightarrow> thread \<Rightarrow> instr_regarray \<Rightarrow> regs option" where
  "instr_regwr_rhm_exec p t ip =
     (let idx = instr_regarray_idx_nbo p t ip;
          src = instr_regarray_src_hbo t ip
      in reg_store p (ra_regarray_id ip, unat idx) src)"

definition instr_regwr_rhi_exec :: "regs \<Rightarrow> thread \<Rightarrow> instr_regarray \<Rightarrow> regs option" where
  "instr_regwr_rhi_exec p t ip =
     (let idx = instr_regarray_idx_nbo p t ip;
          src = ra_dstsrc_val ip
      in reg_store p (ra_regarray_id ip, unat idx) src)"

definition instr_regwr_rmh_exec :: "regs \<Rightarrow> thread \<Rightarrow> instr_regarray \<Rightarrow> regs option" where
  "instr_regwr_rmh_exec p t ip =
     (let idx = instr_regarray_idx_hbo p t ip;
          src = instr_regarray_src_nbo t ip
      in reg_store p (ra_regarray_id ip, unat idx) src)"

definition instr_regwr_rmm_exec :: "regs \<Rightarrow> thread \<Rightarrow> instr_regarray \<Rightarrow> regs option" where
  "instr_regwr_rmm_exec p t ip =
     (let idx = instr_regarray_idx_hbo p t ip;
          src = instr_regarray_src_hbo t ip
      in reg_store p (ra_regarray_id ip, unat idx) src)"

definition instr_regwr_rmi_exec :: "regs \<Rightarrow> thread \<Rightarrow> instr_regarray \<Rightarrow> regs option" where
  "instr_regwr_rmi_exec p t ip =
     (let idx = instr_regarray_idx_hbo p t ip;
          src = ra_dstsrc_val ip
      in reg_store p (ra_regarray_id ip, unat idx) src)"

definition instr_regwr_rih_exec :: "regs \<Rightarrow> thread \<Rightarrow> instr_regarray \<Rightarrow> regs option" where
  "instr_regwr_rih_exec p t ip =
     (let idx = instr_regarray_idx_imm p ip;
          src = instr_regarray_src_nbo t ip
      in reg_store p (ra_regarray_id ip, unat idx) src)"

definition instr_regwr_rim_exec :: "regs \<Rightarrow> thread \<Rightarrow> instr_regarray \<Rightarrow> regs option" where
  "instr_regwr_rim_exec p t ip =
     (let idx = instr_regarray_idx_imm p ip;
          src = instr_regarray_src_hbo t ip
      in reg_store p (ra_regarray_id ip, unat idx) src)"

definition instr_regwr_rii_exec :: "regs \<Rightarrow> thread \<Rightarrow> instr_regarray \<Rightarrow> regs option" where
  "instr_regwr_rii_exec p t ip =
     (let idx = instr_regarray_idx_imm p ip;
          src = ra_dstsrc_val ip
      in reg_store p (ra_regarray_id ip, unat idx) src)"

definition instr_regadd_rhh_exec :: "regs \<Rightarrow> thread \<Rightarrow> instr_regarray \<Rightarrow> regs option" where
  "instr_regadd_rhh_exec p t ip =
     (let idx = instr_regarray_idx_nbo p t ip;
          src = instr_regarray_src_nbo t ip
      in reg_add p (ra_regarray_id ip, unat idx) src)"

definition instr_regadd_rhm_exec :: "regs \<Rightarrow> thread \<Rightarrow> instr_regarray \<Rightarrow> regs option" where
  "instr_regadd_rhm_exec p t ip =
     (let idx = instr_regarray_idx_nbo p t ip;
          src = instr_regarray_src_hbo t ip
      in reg_add p (ra_regarray_id ip, unat idx) src)"

definition instr_regadd_rhi_exec :: "regs \<Rightarrow> thread \<Rightarrow> instr_regarray \<Rightarrow> regs option" where
  "instr_regadd_rhi_exec p t ip =
     (let idx = instr_regarray_idx_nbo p t ip;
          src = ra_dstsrc_val ip
      in reg_add p (ra_regarray_id ip, unat idx) src)"

definition instr_regadd_rmh_exec :: "regs \<Rightarrow> thread \<Rightarrow> instr_regarray \<Rightarrow> regs option" where
  "instr_regadd_rmh_exec p t ip =
     (let idx = instr_regarray_idx_hbo p t ip;
          src = instr_regarray_src_nbo t ip
      in reg_add p (ra_regarray_id ip, unat idx) src)"

definition instr_regadd_rmm_exec :: "regs \<Rightarrow> thread \<Rightarrow> instr_regarray \<Rightarrow> regs option" where
  "instr_regadd_rmm_exec p t ip =
     (let idx = instr_regarray_idx_hbo p t ip;
          src = instr_regarray_src_hbo t ip
      in reg_add p (ra_regarray_id ip, unat idx) src)"

definition instr_regadd_rmi_exec :: "regs \<Rightarrow> thread \<Rightarrow> instr_regarray \<Rightarrow> regs option" where
  "instr_regadd_rmi_exec p t ip =
     (let idx = instr_regarray_idx_hbo p t ip;
          src = ra_dstsrc_val ip
      in reg_add p (ra_regarray_id ip, unat idx) src)"

definition instr_regadd_rih_exec :: "regs \<Rightarrow> thread \<Rightarrow> instr_regarray \<Rightarrow> regs option" where
  "instr_regadd_rih_exec p t ip =
     (let idx = instr_regarray_idx_imm p ip;
          src = instr_regarray_src_nbo t ip
      in reg_add p (ra_regarray_id ip, unat idx) src)"

definition instr_regadd_rim_exec :: "regs \<Rightarrow> thread \<Rightarrow> instr_regarray \<Rightarrow> regs option" where
  "instr_regadd_rim_exec p t ip =
     (let idx = instr_regarray_idx_imm p ip;
          src = instr_regarray_src_hbo t ip
      in reg_add p (ra_regarray_id ip, unat idx) src)"

definition instr_regadd_rii_exec :: "regs \<Rightarrow> thread \<Rightarrow> instr_regarray \<Rightarrow> regs option" where
  "instr_regadd_rii_exec p t ip =
     (let idx = instr_regarray_idx_imm p ip;
          src = ra_dstsrc_val ip
      in reg_add p (ra_regarray_id ip, unat idx) src)"

section \<open>Indices stay in bounds\<close>

text \<open>What the build step establishes for every array: a power of two, and the mask of its indices.\<close>

definition regs_ok :: "regs \<Rightarrow> bool" where
  "regs_ok p \<longleftrightarrow> (\<forall>r \<in> set p. length (regarray r) = unat (ra_size_mask r) + 1)"

definition regarray_cfg_ok :: "regarray_cfg \<Rightarrow> bool" where
  "regarray_cfg_ok r \<longleftrightarrow> rc_size r \<noteq> 0"

lemma regs_ok_build: "(\<And>r. r \<in> set rs \<Longrightarrow> regarray_cfg_ok r) \<Longrightarrow> regs_ok (regarray_build rs)"
  using unat_pred_Suc by (fastforce simp: regs_ok_def regarray_build_def regarray_build_one_def regarray_cfg_ok_def)

lemma regarray_cfg_ok_config:
  assumes "regarray_config rs name sz v = Inr rs'" and "unat sz \<le> 2 ^ 31"
    and "\<And>r. r \<in> set rs \<Longrightarrow> regarray_cfg_ok r"
  shows "\<And>r. r \<in> set rs' \<Longrightarrow> regarray_cfg_ok r"
proof -
  fix r assume r: "r \<in> set rs'"
  from assms(1) have sz: "sz \<noteq> 0"
    and rs': "rs' = rs @ [\<lparr>rc_name = name, rc_size = rte_align32pow2 sz, rc_init_val = v\<rparr>]"
    by (auto simp: regarray_config_def split: if_splits)
  have "0 < unat sz" using sz by (simp add: unat_gt_0)
  then have "rte_align32pow2 sz \<noteq> 0"
    using align32pow2_nonzero assms(2) by blast
  with r rs' assms(3) show "regarray_cfg_ok r" by (auto simp: regarray_cfg_ok_def)
qed

lemma masked_less:
  fixes x :: u64 and mk :: u32
  shows "unat (x AND ucast mk) \<le> unat mk"
proof -
  have "unat (x AND ucast mk) \<le> unat (ucast mk :: u64)" by (metis and.commute word_and_le1 word_le_nat_alt)
  then show ?thesis by (simp only: unat_ucast_u32)
qed

lemma idx_bounds:
  "unat (instr_regarray_idx_hbo p t ip) \<le> unat (ra_size_mask (p ! ra_regarray_id ip))"
  "unat (instr_regarray_idx_nbo p t ip) \<le> unat (ra_size_mask (p ! ra_regarray_id ip))"
  "unat (instr_regarray_idx_imm p ip) \<le> unat (ra_size_mask (p ! ra_regarray_id ip))"
proof -
  show "unat (instr_regarray_idx_hbo p t ip) \<le> unat (ra_size_mask (p ! ra_regarray_id ip))"
    unfolding instr_regarray_idx_hbo_def Let_def and.assoc [symmetric] by (rule masked_less)
  show "unat (instr_regarray_idx_nbo p t ip) \<le> unat (ra_size_mask (p ! ra_regarray_id ip))"
    unfolding instr_regarray_idx_nbo_def Let_def by (rule masked_less)
  have "unat (a AND b) \<le> unat b" for a b :: u32
    by (metis and.commute word_and_le1 word_le_nat_alt)
  then show "unat (instr_regarray_idx_imm p ip) \<le> unat (ra_size_mask (p ! ra_regarray_id ip))"
    by (simp add: instr_regarray_idx_imm_def unat_ucast_u32)
qed

lemma reg_load_in_bounds:
  assumes "regs_ok p" and "rid < length p" and "i \<le> unat (ra_size_mask (p ! rid))"
  shows "reg_load p (rid, i) = Some (regarray (p ! rid) ! i)"
proof -
  have "length (regarray (p ! rid)) = unat (ra_size_mask (p ! rid)) + 1"
    using assms(1,2) by (simp add: regs_ok_def)
  then show ?thesis using assms(2,3) by (simp add: reg_load_def)
qed

lemma reg_store_in_bounds:
  assumes "regs_ok p" and "rid < length p" and "i \<le> unat (ra_size_mask (p ! rid))"
  obtains p' where "reg_store p (rid, i) v = Some p'" and "regs_ok p'"
proof -
  have len: "length (regarray (p ! rid)) = unat (ra_size_mask (p ! rid)) + 1"
    using assms(1,2) by (simp add: regs_ok_def)
  let ?p = "p[rid := (p ! rid)\<lparr>regarray := (regarray (p ! rid))[i := v]\<rparr>]"
  have "reg_store p (rid, i) v = Some ?p" using len assms(2,3) by (simp add: reg_store_def)
  moreover have "regs_ok ?p"
    using assms(1) len by (auto simp: regs_ok_def dest!: subsetD [OF set_update_subset_insert])
  ultimately show ?thesis using that by blast
qed

lemma reg_add_in_bounds:
  assumes "regs_ok p" and "rid < length p" and "i \<le> unat (ra_size_mask (p ! rid))"
  obtains p' where "reg_add p (rid, i) v = Some p'" and "regs_ok p'"
  using reg_store_in_bounds [OF assms] reg_load_in_bounds [OF assms] unfolding reg_add_def
  by (metis option.simps(5))

lemmas regrd_defs = instr_regrd_hrh_exec_def instr_regrd_hrm_exec_def instr_regrd_hri_exec_def instr_regrd_mrh_exec_def instr_regrd_mrm_exec_def instr_regrd_mri_exec_def
lemmas regwr_defs = instr_regwr_rhh_exec_def instr_regwr_rhm_exec_def instr_regwr_rhi_exec_def instr_regwr_rmh_exec_def instr_regwr_rmm_exec_def instr_regwr_rmi_exec_def instr_regwr_rih_exec_def instr_regwr_rim_exec_def instr_regwr_rii_exec_def
lemmas regadd_defs = instr_regadd_rhh_exec_def instr_regadd_rhm_exec_def instr_regadd_rhi_exec_def instr_regadd_rmh_exec_def instr_regadd_rmm_exec_def instr_regadd_rmi_exec_def instr_regadd_rih_exec_def instr_regadd_rim_exec_def instr_regadd_rii_exec_def

definition regwr_all :: "(regs \<Rightarrow> thread \<Rightarrow> instr_regarray \<Rightarrow> regs option) list" where
  "regwr_all = [instr_regwr_rhh_exec, instr_regwr_rhm_exec, instr_regwr_rhi_exec, instr_regwr_rmh_exec, instr_regwr_rmm_exec, instr_regwr_rmi_exec, instr_regwr_rih_exec, instr_regwr_rim_exec, instr_regwr_rii_exec, instr_regadd_rhh_exec, instr_regadd_rhm_exec, instr_regadd_rhi_exec, instr_regadd_rmh_exec, instr_regadd_rmm_exec, instr_regadd_rmi_exec, instr_regadd_rih_exec, instr_regadd_rim_exec, instr_regadd_rii_exec]"

definition regrd_all :: "(regs \<Rightarrow> thread \<Rightarrow> instr_regarray \<Rightarrow> thread option) list" where
  "regrd_all = [instr_regrd_hrh_exec, instr_regrd_hrm_exec, instr_regrd_hri_exec, instr_regrd_mrh_exec, instr_regrd_mrm_exec, instr_regrd_mri_exec]"

lemma regs_write_ok:
  assumes "regs_ok p" and "ra_regarray_id ip < length p" and "f \<in> set regwr_all"
  obtains p' where "f p t ip = Some p'" and "regs_ok p'"
proof -
  have w: "\<exists>p'. reg_store p (ra_regarray_id ip, i) v = Some p' \<and> regs_ok p'"
    if "i \<le> unat (ra_size_mask (p ! ra_regarray_id ip))" for i v
    using reg_store_in_bounds [OF assms(1,2) that] by metis
  have a: "\<exists>p'. reg_add p (ra_regarray_id ip, i) v = Some p' \<and> regs_ok p'"
    if "i \<le> unat (ra_size_mask (p ! ra_regarray_id ip))" for i v
    using reg_add_in_bounds [OF assms(1,2) that] by metis
  have "list_all (\<lambda>f. \<exists>p'. f p t ip = Some p' \<and> regs_ok p') regwr_all"
    unfolding regwr_all_def list.pred_inject regwr_defs regadd_defs Let_def
    using w [OF idx_bounds(1)] w [OF idx_bounds(2)] w [OF idx_bounds(3)]
      a [OF idx_bounds(1)] a [OF idx_bounds(2)] a [OF idx_bounds(3)]
    by simp
  with assms(3) that show ?thesis by (auto simp: list_all_iff)
qed

lemma regs_read_ok:
  assumes "regs_ok p" and "ra_regarray_id ip < length p" and "f \<in> set regrd_all"
  shows "\<exists>t'. f p t ip = Some t'"
proof -
  note r = reg_load_in_bounds [OF assms(1,2)]
  have "list_all (\<lambda>f. \<exists>t'. f p t ip = Some t') regrd_all"
    unfolding regrd_all_def list.pred_inject regrd_defs Let_def
    using r [OF idx_bounds(1)] r [OF idx_bounds(2)] r [OF idx_bounds(3)] by simp
  with assms(3) show ?thesis by (auto simp: list_all_iff)
qed

section \<open>Properties\<close>

text \<open>
  Register accesses stay in bounds. Once every array has as many cells as its index mask plus
  one, each of the 24 read, write and add instructions succeeds for every value that the index
  operand can take from a packet, and the writes keep the arrays in that state.
\<close>

theorem regarray_accesses_in_bounds:
  assumes "regs_ok p" and "ra_regarray_id ip < length p"
  shows "(\<forall>f \<in> set regrd_all. f p t ip \<noteq> None) \<and>
    (\<forall>f \<in> set regwr_all. \<exists>p'. f p t ip = Some p' \<and> regs_ok p')"
proof (intro conjI ballI)
  fix f assume "f \<in> set regrd_all"
  then show "f p t ip \<noteq> None" using regs_read_ok [OF assms] by blast
next
  fix f assume "f \<in> set regwr_all"
  then obtain p' where "f p t ip = Some p'" "regs_ok p'" by (rule regs_write_ok [OF assms])
  then show "\<exists>p'. f p t ip = Some p' \<and> regs_ok p'" by blast
qed

definition ex_regs :: regs where
  "ex_regs = regarray_build [\<lparr>rc_name = ''cnt'', rc_size = 4, rc_init_val = 7\<rparr>]"

definition ex_reg_ip :: instr_regarray where
  "ex_reg_ip = \<lparr>ra_regarray_id = 0, ra_idx = \<lparr>op_struct_id = 0, op_n_bits = 16, op_offset = 1\<rparr>,
     ra_idx_val = 9, ra_dstsrc = \<lparr>op_struct_id = 1, op_n_bits = 8, op_offset = 0\<rparr>, ra_dstsrc_val = 5\<rparr>"

lemma ex_regs_ok: "regs_ok ex_regs" "ra_regarray_id ex_reg_ip < length ex_regs"
  by (simp_all add: ex_regs_def ex_reg_ip_def regs_ok_def regarray_build_def regarray_build_one_def)

lemma regarray_accesses_in_bounds_witness:
  "instr_regrd_hrh_exec ex_regs ex_thread ex_reg_ip \<noteq> None"
  using regarray_accesses_in_bounds [OF ex_regs_ok, of ex_thread] by (simp add: regrd_all_def)

text \<open>
  Configuration and build establish the bounds. If the sizes given to the configuration calls
  are at most \<open>2 ^ 31\<close>, the build gives every array a number of cells equal to its index mask plus
  one, and the control plane reads the initial value at every index below the rounded size.
\<close>

theorem regarray_build_bounds:
  assumes "regarray_config rs name sz v = Inr rs'" and "unat sz \<le> 2 ^ 31"
    and "\<forall>r \<in> set rs. regarray_cfg_ok r"
  shows "regs_ok (regarray_build rs') \<and> (\<forall>r \<in> set rs'. regarray_cfg_ok r)"
  using regarray_cfg_ok_config [OF assms(1,2)] assms(3) regs_ok_build by metis

lemma regarray_build_bounds_witness:
  "regs_ok (regarray_build [\<lparr>rc_name = ''r'', rc_size = rte_align32pow2 1000, rc_init_val = 3\<rparr>])"
  using regarray_build_bounds [of "[]" "''r''" 1000 3]
  by (simp add: regarray_config_def check_name_def RTE_SWX_NAME_SIZE_def)

text \<open>
  An array configured with a size above \<open>2 ^ 31\<close> is accepted and built without a cell, because
  its rounded size is zero, yet its index mask lets every 32-bit index through: each access of
  the data plane is out of bounds.
\<close>

theorem regarray_size_wraps:
  assumes "check_name name" and "2 ^ 31 < unat sz"
  shows "\<exists>r. regarray_config [] name sz v = Inr [r] \<and>
    ra_size_mask (regarray_build_one r) = 0xFFFFFFFF \<and>
    (\<forall>i. reg_load (regarray_build [r]) (0, i) = None)"
proof -
  have "sz \<noteq> 0" using assms(2) by auto
  moreover have "rte_align32pow2 sz = 0" using align32pow2_wrap [OF assms(2)] .
  ultimately show ?thesis using assms(1)
    by (simp add: regarray_config_def regarray_build_one_def regarray_build_def reg_load_def aget_def)
qed

lemma regarray_size_wraps_witness:
  "\<exists>r. regarray_config [] ''big'' 0x80000001 0 = Inr [r] \<and>
    (\<forall>i. reg_load (regarray_build [r]) (0, i) = None)"
  using regarray_size_wraps [of "''big''" "0x80000001" 0] by (auto simp: check_name_def RTE_SWX_NAME_SIZE_def)

text \<open>
  A register read returns what was written. After \<open>regwr\<close> of a meta-data field at an index,
  \<open>regrd\<close> at the same index into a field of any width leaves the written number, modulo two to
  the width, in that field.
\<close>

theorem regwr_regrd_roundtrip:
  assumes "instr_regwr_rmm_exec p t ip = Some p'"
    and "ra_regarray_id ip' = ra_regarray_id ip" and "ra_idx ip' = ra_idx ip"
    and "op_n_bits (ra_dstsrc ip') \<le> 64"
    and "ra_size_mask (p' ! ra_regarray_id ip) = ra_size_mask (p ! ra_regarray_id ip)"
  shows "\<exists>t'. instr_regrd_mrm_exec p' t ip' = Some t' \<and>
    instr_operand_hbo t' (ra_dstsrc ip') =
      take_bit (op_n_bits (ra_dstsrc ip')) (instr_operand_hbo t (ra_dstsrc ip))"
proof -
  have idx: "instr_regarray_idx_hbo p' t ip' = instr_regarray_idx_hbo p t ip"
    using assms(2,3,5) by (simp add: instr_regarray_idx_hbo_def)
  have "reg_load p' (ra_regarray_id ip, unat (instr_regarray_idx_hbo p t ip)) = Some (instr_regarray_src_hbo t ip)"
    using assms(1) reg.get_put_same by (simp add: instr_regwr_rmm_exec_def Let_def)
  moreover have "instr_regarray_src_hbo t ip = instr_operand_hbo t (ra_dstsrc ip)"
    by (simp add: instr_regarray_src_hbo_def instr_operand_hbo_def)
  moreover have "instr_operand_hbo (instr_regarray_dst_hbo_src_hbo_set t ip' w) (ra_dstsrc ip') =
      take_bit (op_n_bits (ra_dstsrc ip')) w" for w
    using fld_hbo_put [OF assms(4) take_bit_and_mask64 [OF assms(4)]] assms(4)
    by (simp add: instr_regarray_dst_hbo_src_hbo_set_def instr_operand_hbo_fld fld_put_def Let_def
        op_addr_def and_mask64_take_bit)
  ultimately show ?thesis
    using assms(2) by (simp add: instr_regrd_mrm_exec_def idx)
qed

section \<open>Counters\<close>

lemma reg_store_shape:
  assumes "reg_store p (rid, i) v = Some p'"
  shows "rid < length p" and "length p' = length p" and "map ra_size_mask p' = map ra_size_mask p"
  using assms
  by (auto simp: reg_store_def aget_def aset_def map_update list_update_id nth_list_update
      intro!: nth_equalityI split: if_splits)

lemma reg_add_shape:
  assumes "reg_add p (rid, i) v = Some p'"
  shows "rid < length p" and "length p' = length p" and "map ra_size_mask p' = map ra_size_mask p"
  using assms reg_store_shape by (auto simp: reg_add_def split: option.splits)

text \<open>A run of counter updates, as the packets of a stream make them.\<close>

fun run_regadd :: "(thread \<times> instr_regarray) list \<Rightarrow> regs \<Rightarrow> regs option" where
  "run_regadd [] p = Some p"
| "run_regadd ((t, ip) # us) p =
     (case instr_regadd_rmm_exec p t ip of None \<Rightarrow> None | Some p' \<Rightarrow> run_regadd us p')"

definition reg_target :: "regs \<Rightarrow> thread \<times> instr_regarray \<Rightarrow> nat \<times> nat" where
  "reg_target p u = (case u of (t, ip) \<Rightarrow> (ra_regarray_id ip, unat (instr_regarray_idx_hbo p t ip)))"

definition reg_amount :: "thread \<times> instr_regarray \<Rightarrow> u64" where
  "reg_amount u = (case u of (t, ip) \<Rightarrow> instr_operand_hbo t (ra_dstsrc ip))"

lemma regadd_rmm_add: "instr_regadd_rmm_exec p t ip = reg_add p (reg_target p (t, ip)) (reg_amount (t, ip))"
  by (simp add: instr_regadd_rmm_exec_def reg_target_def reg_amount_def Let_def
      instr_regarray_src_hbo_def instr_operand_hbo_def)

lemma reg_target_same:
  assumes "map ra_size_mask p' = map ra_size_mask p" and "ra_regarray_id (snd u) < length p"
  shows "reg_target p' u = reg_target p u"
proof -
  have "length p' = length p" using assms(1) by (rule map_eq_imp_length_eq)
  then have "ra_size_mask (p' ! ra_regarray_id (snd u)) = ra_size_mask (p ! ra_regarray_id (snd u))"
    using assms by (metis nth_map)
  then show ?thesis by (cases u) (simp add: reg_target_def instr_regarray_idx_hbo_def)
qed

lemma run_regadd_ids: "run_regadd us p = Some p' \<Longrightarrow> u \<in> set us \<Longrightarrow> ra_regarray_id (snd u) < length p"
proof (induction us arbitrary: p)
  case (Cons v us)
  obtain t ip where v: "v = (t, ip)" by (cases v)
  with Cons.prems obtain p1 where p1: "reg_add p (reg_target p (t, ip)) (reg_amount (t, ip)) = Some p1"
      "run_regadd us p1 = Some p'"
    by (auto simp: regadd_rmm_add split: option.splits)
  note sh = reg_add_shape [OF p1(1) [unfolded reg_target_def split_conv]]
  from Cons.prems(2) show ?case
  proof (cases "u = v")
    case False
    with Cons.prems(2) have "u \<in> set us" by simp
    from Cons.IH [OF p1(2) this] sh(2) show ?thesis by simp
  qed (use sh(1) v in simp)
qed simp

text \<open>
  Counters count. After any run of \<open>regadd\<close> instructions every cell of every array holds its
  initial value plus the sum, modulo \<open>2 ^ 64\<close>, of the amounts whose index addressed it; the updates of
  other cells do not disturb it.
\<close>

theorem regadd_counts:
  assumes "run_regadd us p = Some p'"
  shows "reg_load p' a = map_option (\<lambda>v. v + (\<Sum>u \<leftarrow> us. if reg_target p u = a then reg_amount u else 0)) (reg_load p a)"
  using assms
proof (induction us arbitrary: p)
  case Nil
  then show ?case by (simp add: option.map_ident)
next
  case (Cons u us)
  obtain t ip where u: "u = (t, ip)" by (cases u)
  with Cons.prems obtain p1 where p1: "reg_add p (reg_target p u) (reg_amount u) = Some p1"
      "run_regadd us p1 = Some p'"
    by (auto simp: regadd_rmm_add split: option.splits)
  have sh: "length p1 = length p" "map ra_size_mask p1 = map ra_size_mask p"
    using reg_add_shape [of p _ _ _ p1] p1(1) by (metis surj_pair)+
  have targets: "reg_target p1 w = reg_target p w" if "w \<in> set us" for w
    using reg_target_same [OF sh(2)] run_regadd_ids [OF p1(2) that] sh(1) by simp
  have "(\<Sum>w \<leftarrow> us. if reg_target p1 w = a then reg_amount w else 0) =
        (\<Sum>w \<leftarrow> us. if reg_target p w = a then reg_amount w else 0)"
    by (rule arg_cong [of _ _ sum_list], rule map_cong) (simp_all add: targets)
  moreover have "reg_load p1 a = (if a = reg_target p u then map_option (\<lambda>v. v + reg_amount u) (reg_load p a) else reg_load p a)"
    using reg.modify_get p1(1) unfolding reg_add_modify by metis
  ultimately show ?case
    using Cons.IH [OF p1(2)] by (auto simp: option.map_comp comp_def add.assoc)
qed

lemma regadd_counts_witness:
  "map_option (\<lambda>p. reg_load p (0, 1)) (run_regadd [(ex_thread, ex_reg_ip)] ex_regs) = Some (Some 135)"
proof -
  have i: "instr_operand_hbo ex_thread (ra_dstsrc ex_reg_ip) = 128"
    by (simp add: instr_operand_hbo_def ex_thread_def ex_reg_ip_def op_addr_def load64_def mask64_def)
      (simp add: mask_eq_exp_minus_1)
  have x: "instr_regarray_idx_hbo ex_regs ex_thread ex_reg_ip = 1"
    by (simp add: instr_regarray_idx_hbo_def ex_thread_def ex_reg_ip_def op_addr_def load64_def mask64_def
        ex_regs_def regarray_build_def regarray_build_one_def)
      (simp add: mask_eq_exp_minus_1)
  have tg: "reg_target ex_regs (ex_thread, ex_reg_ip) = (0, 1)" "reg_amount (ex_thread, ex_reg_ip) = 128"
    by (simp_all add: reg_target_def x reg_amount_def i) (simp add: ex_reg_ip_def)
  have c: "reg_load ex_regs (0, 1) = Some 7"
    by (simp add: ex_regs_def regarray_build_def regarray_build_one_def reg_load_def)
  obtain p' where "instr_regadd_rmm_exec ex_regs ex_thread ex_reg_ip = Some p'"
    by (rule regs_write_ok [OF ex_regs_ok, of instr_regadd_rmm_exec]) (simp_all add: regwr_all_def)
  then have run: "run_regadd [(ex_thread, ex_reg_ip)] ex_regs = Some p'" by simp
  from regadd_counts [OF run, of "(0, 1)"] have "reg_load p' (0, 1) = Some (7 + (128 + 0))"
    by (simp only: list.map sum_list.Cons sum_list.Nil tg c option.map refl if_True)
  then show ?thesis by (simp only: run option.map) simp
qed

lemma regwr_regrd_roundtrip_witness:
  "\<exists>p'. instr_regwr_rmm_exec ex_regs ex_thread ex_reg_ip = Some p' \<and>
    (\<exists>t'. instr_regrd_mrm_exec p' ex_thread ex_reg_ip = Some t' \<and>
       instr_operand_hbo t' (ra_dstsrc ex_reg_ip) = take_bit 8 (instr_operand_hbo ex_thread (ra_dstsrc ex_reg_ip)))"
proof -
  obtain p' where p': "instr_regwr_rmm_exec ex_regs ex_thread ex_reg_ip = Some p'" "regs_ok p'"
    by (rule regs_write_ok [OF ex_regs_ok, of instr_regwr_rmm_exec]) (simp_all add: regwr_all_def)
  from p'(1) have "map ra_size_mask p' = map ra_size_mask ex_regs" "length p' = length ex_regs"
    using reg_store_shape by (auto simp: instr_regwr_rmm_exec_def Let_def)
  then have "ra_size_mask (p' ! ra_regarray_id ex_reg_ip) = ra_size_mask (ex_regs ! ra_regarray_id ex_reg_ip)"
    using ex_regs_ok(2) by (metis nth_map)
  from regwr_regrd_roundtrip [OF p'(1) refl refl _ this] p'(1) show ?thesis
    by (simp add: ex_reg_ip_def)
qed

end
