(* ===== verification/RteMeter.thy ===== *)
theory RteMeter
  imports Prelude
begin

text \<open>
  Traffic metering (lib/meter/rte_meter.h, rte_meter.c): the single rate and two rate three color
  markers and the RFC 4115 marker, colour blind and colour aware, on 64-bit words that wrap.
  Shown here: buckets never exceed their burst size, a packet never leaves with a better colour
  than it came with, the colour blind meter is the colour aware one on green packets, the bytes
  marked green in any time span are bounded by bucket and rate, and a bucket refills.
  The conversion of rates to periods uses floating point (\<open>rte_meter_get_tb_params\<close>) and is an
  argument of the configuration functions.
\<close>

section \<open>Colours\<close>

datatype rte_color = RTE_COLOR_GREEN | RTE_COLOR_YELLOW | RTE_COLOR_RED

definition color_code :: "rte_color \<Rightarrow> nat" where
  "color_code c = (case c of RTE_COLOR_GREEN \<Rightarrow> 0 | RTE_COLOR_YELLOW \<Rightarrow> 1 | RTE_COLOR_RED \<Rightarrow> 2)"

lemma color_code_simps [simp]:
  "color_code RTE_COLOR_GREEN = 0" "color_code RTE_COLOR_YELLOW = 1" "color_code RTE_COLOR_RED = 2"
  by (simp_all add: color_code_def)

lemma color_code_inject: "color_code a = color_code b \<longleftrightarrow> a = b"
  by (cases a; cases b) simp_all

text \<open>The colours in the order of the enumeration: from the best to the worst.\<close>

instantiation rte_color :: linorder
begin

definition less_eq_rte_color :: "rte_color \<Rightarrow> rte_color \<Rightarrow> bool" where
  "less_eq_rte_color a b \<longleftrightarrow> color_code a \<le> color_code b"

definition less_rte_color :: "rte_color \<Rightarrow> rte_color \<Rightarrow> bool" where
  "less_rte_color a b \<longleftrightarrow> color_code a < color_code b"

instance
  by standard (auto simp: less_eq_rte_color_def less_rte_color_def color_code_inject [symmetric])

end

lemma color_order [simp]:
  "RTE_COLOR_GREEN \<le> c" "c \<le> RTE_COLOR_RED" "RTE_COLOR_YELLOW \<le> c \<longleftrightarrow> c \<noteq> RTE_COLOR_GREEN"
  "c \<le> RTE_COLOR_GREEN \<longleftrightarrow> c = RTE_COLOR_GREEN" "c \<le> RTE_COLOR_YELLOW \<longleftrightarrow> c \<noteq> RTE_COLOR_RED"
  by (cases c; simp add: less_eq_rte_color_def)+

section \<open>The single rate marker\<close>

record srtcm_profile =
  sp_cbs :: u64
  sp_ebs :: u64
  sp_cir_period :: u64
  sp_cir_bytes_per_period :: u64

record srtcm =
  sr_time :: u64
  sr_tc :: u64
  sr_te :: u64

definition rte_meter_srtcm_color_blind_check ::
  "srtcm \<Rightarrow> srtcm_profile \<Rightarrow> u64 \<Rightarrow> u32 \<Rightarrow> rte_color \<times> srtcm" where
  "rte_meter_srtcm_color_blind_check m p time pkt_len =
     (let time_diff = time - sr_time m;
          n_periods = time_diff div sp_cir_period p;
          m = m\<lparr>sr_time := sr_time m + n_periods * sp_cir_period p\<rparr>;
          tc = sr_tc m + n_periods * sp_cir_bytes_per_period p;
          te = sr_te m;
          (tc, te) =
            (if tc > sp_cbs p then
               (let te = te + (tc - sp_cbs p);
                    te = (if te > sp_ebs p then sp_ebs p else te)
                in (sp_cbs p, te))
             else (tc, te));
          len = ucast pkt_len
      in if tc \<ge> len then (RTE_COLOR_GREEN, m\<lparr>sr_tc := tc - len, sr_te := te\<rparr>)
         else if te \<ge> len then (RTE_COLOR_YELLOW, m\<lparr>sr_tc := tc, sr_te := te - len\<rparr>)
         else (RTE_COLOR_RED, m\<lparr>sr_tc := tc, sr_te := te\<rparr>))"

definition rte_meter_srtcm_color_aware_check ::
  "srtcm \<Rightarrow> srtcm_profile \<Rightarrow> u64 \<Rightarrow> u32 \<Rightarrow> rte_color \<Rightarrow> rte_color \<times> srtcm" where
  "rte_meter_srtcm_color_aware_check m p time pkt_len pkt_color =
     (let time_diff = time - sr_time m;
          n_periods = time_diff div sp_cir_period p;
          m = m\<lparr>sr_time := sr_time m + n_periods * sp_cir_period p\<rparr>;
          tc = sr_tc m + n_periods * sp_cir_bytes_per_period p;
          te = sr_te m;
          (tc, te) =
            (if tc > sp_cbs p then
               (let te = te + (tc - sp_cbs p);
                    te = (if te > sp_ebs p then sp_ebs p else te)
                in (sp_cbs p, te))
             else (tc, te));
          len = ucast pkt_len
      in if pkt_color = RTE_COLOR_GREEN \<and> tc \<ge> len then
           (RTE_COLOR_GREEN, m\<lparr>sr_tc := tc - len, sr_te := te\<rparr>)
         else if pkt_color \<noteq> RTE_COLOR_RED \<and> te \<ge> len then
           (RTE_COLOR_YELLOW, m\<lparr>sr_tc := tc, sr_te := te - len\<rparr>)
         else (RTE_COLOR_RED, m\<lparr>sr_tc := tc, sr_te := te\<rparr>))"

section \<open>The two rate marker\<close>

record trtcm_profile =
  tp_cbs :: u64
  tp_pbs :: u64
  tp_cir_period :: u64
  tp_cir_bytes_per_period :: u64
  tp_pir_period :: u64
  tp_pir_bytes_per_period :: u64

record trtcm =
  tr_time_tc :: u64
  tr_time_tp :: u64
  tr_tc :: u64
  tr_tp :: u64

definition rte_meter_trtcm_color_blind_check ::
  "trtcm \<Rightarrow> trtcm_profile \<Rightarrow> u64 \<Rightarrow> u32 \<Rightarrow> rte_color \<times> trtcm" where
  "rte_meter_trtcm_color_blind_check m p time pkt_len =
     (let time_diff_tc = time - tr_time_tc m;
          time_diff_tp = time - tr_time_tp m;
          n_periods_tc = time_diff_tc div tp_cir_period p;
          n_periods_tp = time_diff_tp div tp_pir_period p;
          m = m\<lparr>tr_time_tc := tr_time_tc m + n_periods_tc * tp_cir_period p,
                tr_time_tp := tr_time_tp m + n_periods_tp * tp_pir_period p\<rparr>;
          tc = tr_tc m + n_periods_tc * tp_cir_bytes_per_period p;
          tc = (if tc > tp_cbs p then tp_cbs p else tc);
          tp = tr_tp m + n_periods_tp * tp_pir_bytes_per_period p;
          tp = (if tp > tp_pbs p then tp_pbs p else tp);
          len = ucast pkt_len
      in if tp < len then (RTE_COLOR_RED, m\<lparr>tr_tc := tc, tr_tp := tp\<rparr>)
         else if tc < len then (RTE_COLOR_YELLOW, m\<lparr>tr_tc := tc, tr_tp := tp - len\<rparr>)
         else (RTE_COLOR_GREEN, m\<lparr>tr_tc := tc - len, tr_tp := tp - len\<rparr>))"

definition rte_meter_trtcm_color_aware_check ::
  "trtcm \<Rightarrow> trtcm_profile \<Rightarrow> u64 \<Rightarrow> u32 \<Rightarrow> rte_color \<Rightarrow> rte_color \<times> trtcm" where
  "rte_meter_trtcm_color_aware_check m p time pkt_len pkt_color =
     (let time_diff_tc = time - tr_time_tc m;
          time_diff_tp = time - tr_time_tp m;
          n_periods_tc = time_diff_tc div tp_cir_period p;
          n_periods_tp = time_diff_tp div tp_pir_period p;
          m = m\<lparr>tr_time_tc := tr_time_tc m + n_periods_tc * tp_cir_period p,
                tr_time_tp := tr_time_tp m + n_periods_tp * tp_pir_period p\<rparr>;
          tc = tr_tc m + n_periods_tc * tp_cir_bytes_per_period p;
          tc = (if tc > tp_cbs p then tp_cbs p else tc);
          tp = tr_tp m + n_periods_tp * tp_pir_bytes_per_period p;
          tp = (if tp > tp_pbs p then tp_pbs p else tp);
          len = ucast pkt_len
      in if pkt_color = RTE_COLOR_RED \<or> tp < len then (RTE_COLOR_RED, m\<lparr>tr_tc := tc, tr_tp := tp\<rparr>)
         else if pkt_color = RTE_COLOR_YELLOW \<or> tc < len then
           (RTE_COLOR_YELLOW, m\<lparr>tr_tc := tc, tr_tp := tp - len\<rparr>)
         else (RTE_COLOR_GREEN, m\<lparr>tr_tc := tc - len, tr_tp := tp - len\<rparr>))"

section \<open>The RFC 4115 marker\<close>

record rfc4115_profile =
  rp_cbs :: u64
  rp_ebs :: u64
  rp_cir_period :: u64
  rp_cir_bytes_per_period :: u64
  rp_eir_period :: u64
  rp_eir_bytes_per_period :: u64

record rfc4115 =
  rf_time_tc :: u64
  rf_time_te :: u64
  rf_tc :: u64
  rf_te :: u64

definition rte_meter_trtcm_rfc4115_color_blind_check ::
  "rfc4115 \<Rightarrow> rfc4115_profile \<Rightarrow> u64 \<Rightarrow> u32 \<Rightarrow> rte_color \<times> rfc4115" where
  "rte_meter_trtcm_rfc4115_color_blind_check m p time pkt_len =
     (let time_diff_tc = time - rf_time_tc m;
          time_diff_te = time - rf_time_te m;
          n_periods_tc = time_diff_tc div rp_cir_period p;
          n_periods_te = time_diff_te div rp_eir_period p;
          m = m\<lparr>rf_time_tc := rf_time_tc m + n_periods_tc * rp_cir_period p,
                rf_time_te := rf_time_te m + n_periods_te * rp_eir_period p\<rparr>;
          tc = rf_tc m + n_periods_tc * rp_cir_bytes_per_period p;
          tc = (if tc > rp_cbs p then rp_cbs p else tc);
          te = rf_te m + n_periods_te * rp_eir_bytes_per_period p;
          te = (if te > rp_ebs p then rp_ebs p else te);
          len = ucast pkt_len
      in if tc \<ge> len then (RTE_COLOR_GREEN, m\<lparr>rf_tc := tc - len, rf_te := te\<rparr>)
         else if te \<ge> len then (RTE_COLOR_YELLOW, m\<lparr>rf_tc := tc, rf_te := te - len\<rparr>)
         else (RTE_COLOR_RED, m\<lparr>rf_tc := tc, rf_te := te\<rparr>))"

definition rte_meter_trtcm_rfc4115_color_aware_check ::
  "rfc4115 \<Rightarrow> rfc4115_profile \<Rightarrow> u64 \<Rightarrow> u32 \<Rightarrow> rte_color \<Rightarrow> rte_color \<times> rfc4115" where
  "rte_meter_trtcm_rfc4115_color_aware_check m p time pkt_len pkt_color =
     (let time_diff_tc = time - rf_time_tc m;
          time_diff_te = time - rf_time_te m;
          n_periods_tc = time_diff_tc div rp_cir_period p;
          n_periods_te = time_diff_te div rp_eir_period p;
          m = m\<lparr>rf_time_tc := rf_time_tc m + n_periods_tc * rp_cir_period p,
                rf_time_te := rf_time_te m + n_periods_te * rp_eir_period p\<rparr>;
          tc = rf_tc m + n_periods_tc * rp_cir_bytes_per_period p;
          tc = (if tc > rp_cbs p then rp_cbs p else tc);
          te = rf_te m + n_periods_te * rp_eir_bytes_per_period p;
          te = (if te > rp_ebs p then rp_ebs p else te);
          len = ucast pkt_len
      in if pkt_color = RTE_COLOR_GREEN \<and> tc \<ge> len then
           (RTE_COLOR_GREEN, m\<lparr>rf_tc := tc - len, rf_te := te\<rparr>)
         else if pkt_color \<noteq> RTE_COLOR_RED \<and> te \<ge> len then
           (RTE_COLOR_YELLOW, m\<lparr>rf_tc := tc, rf_te := te - len\<rparr>)
         else (RTE_COLOR_RED, m\<lparr>rf_tc := tc, rf_te := te\<rparr>))"

section \<open>Configuration\<close>

record srtcm_params =
  srp_cir :: u64
  srp_cbs :: u64
  srp_ebs :: u64

record trtcm_params =
  trp_cir :: u64
  trp_pir :: u64
  trp_cbs :: u64
  trp_pbs :: u64

record rfc4115_params =
  rfp_cir :: u64
  rfp_eir :: u64
  rfp_cbs :: u64
  rfp_ebs :: u64

text \<open>\<open>tb rate\<close> stands for the period and the bytes per period of a rate; \<open>None\<close> is \<open>-EINVAL\<close>.\<close>

definition rte_meter_srtcm_profile_config ::
  "(u64 \<Rightarrow> u64 \<times> u64) \<Rightarrow> srtcm_params \<Rightarrow> srtcm_profile option" where
  "rte_meter_srtcm_profile_config tb params =
     (if srp_cir params = 0 \<or> (srp_cbs params = 0 \<and> srp_ebs params = 0) then None
      else (let (period, bytes) = tb (srp_cir params)
            in Some \<lparr>sp_cbs = srp_cbs params, sp_ebs = srp_ebs params,
                     sp_cir_period = period, sp_cir_bytes_per_period = bytes\<rparr>))"

definition rte_meter_srtcm_config :: "u64 \<Rightarrow> srtcm_profile \<Rightarrow> srtcm" where
  "rte_meter_srtcm_config now p = \<lparr>sr_time = now, sr_tc = sp_cbs p, sr_te = sp_ebs p\<rparr>"

definition rte_meter_trtcm_profile_config ::
  "(u64 \<Rightarrow> u64 \<times> u64) \<Rightarrow> trtcm_params \<Rightarrow> trtcm_profile option" where
  "rte_meter_trtcm_profile_config tb params =
     (if trp_cir params = 0 \<or> trp_pir params = 0 \<or> trp_pir params < trp_cir params \<or>
         trp_cbs params = 0 \<or> trp_pbs params = 0 then None
      else (let (cp, cb) = tb (trp_cir params); (pp, pb) = tb (trp_pir params)
            in Some \<lparr>tp_cbs = trp_cbs params, tp_pbs = trp_pbs params,
                     tp_cir_period = cp, tp_cir_bytes_per_period = cb,
                     tp_pir_period = pp, tp_pir_bytes_per_period = pb\<rparr>))"

definition rte_meter_trtcm_config :: "u64 \<Rightarrow> trtcm_profile \<Rightarrow> trtcm" where
  "rte_meter_trtcm_config now p =
     \<lparr>tr_time_tc = now, tr_time_tp = now, tr_tc = tp_cbs p, tr_tp = tp_pbs p\<rparr>"

definition rte_meter_trtcm_rfc4115_profile_config ::
  "(u64 \<Rightarrow> u64 \<times> u64) \<Rightarrow> rfc4115_params \<Rightarrow> rfc4115_profile option" where
  "rte_meter_trtcm_rfc4115_profile_config tb params =
     (if (rfp_cir params \<noteq> 0 \<and> rfp_cbs params = 0) \<or> (rfp_eir params \<noteq> 0 \<and> rfp_ebs params = 0) then None
      else (let (cp, cb) = tb (rfp_cir params); (ep, eb) = tb (rfp_eir params)
            in Some \<lparr>rp_cbs = rfp_cbs params, rp_ebs = rfp_ebs params,
                     rp_cir_period = cp, rp_cir_bytes_per_period = cb,
                     rp_eir_period = ep, rp_eir_bytes_per_period = eb\<rparr>))"

definition rte_meter_trtcm_rfc4115_config :: "u64 \<Rightarrow> rfc4115_profile \<Rightarrow> rfc4115" where
  "rte_meter_trtcm_rfc4115_config now p =
     \<lparr>rf_time_tc = now, rf_time_te = now, rf_tc = rp_cbs p, rf_te = rp_ebs p\<rparr>"

lemmas srtcm_defs = rte_meter_srtcm_color_blind_check_def rte_meter_srtcm_color_aware_check_def
lemmas trtcm_defs = rte_meter_trtcm_color_blind_check_def rte_meter_trtcm_color_aware_check_def
lemmas rfc4115_defs = rte_meter_trtcm_rfc4115_color_blind_check_def
  rte_meter_trtcm_rfc4115_color_aware_check_def

section \<open>Colour blind and colour aware\<close>

text \<open>
  On packets that arrive green, each colour aware meter decides and updates its buckets as its
  colour blind variant does.
\<close>

theorem color_blind_is_aware_green:
  "rte_meter_srtcm_color_blind_check m1 p1 time len =
     rte_meter_srtcm_color_aware_check m1 p1 time len RTE_COLOR_GREEN \<and>
   rte_meter_trtcm_color_blind_check m2 p2 time len =
     rte_meter_trtcm_color_aware_check m2 p2 time len RTE_COLOR_GREEN \<and>
   rte_meter_trtcm_rfc4115_color_blind_check m3 p3 time len =
     rte_meter_trtcm_rfc4115_color_aware_check m3 p3 time len RTE_COLOR_GREEN"
  by (simp add: srtcm_defs trtcm_defs rfc4115_defs Let_def)

text \<open>
  Metering never improves a colour: the colour that a colour aware meter returns is at least
  as bad as the colour the packet came with.
\<close>

theorem color_never_improves:
  "c \<le> fst (rte_meter_srtcm_color_aware_check m1 p1 time len c) \<and>
   c \<le> fst (rte_meter_trtcm_color_aware_check m2 p2 time len c) \<and>
   c \<le> fst (rte_meter_trtcm_rfc4115_color_aware_check m3 p3 time len c)"
  by (cases c) (simp_all add: srtcm_defs trtcm_defs rfc4115_defs Let_def split: prod.splits)

section \<open>Bucket arithmetic\<close>

lemma unat_add_le: "unat ((a :: u64) + b) \<le> unat a + unat b"
  by (simp add: unat_word_ariths)

lemma unat_mult_le: "unat ((a :: u64) * b) \<le> unat a * unat b"
  by (simp add: unat_word_ariths)

lemma bucket_stamp:
  fixes s time period :: u64
  assumes "unat s \<le> unat time"
  shows "unat (s + ((time - s) div period) * period) = unat s + unat ((time - s) div period) * unat period"
    and "unat (s + ((time - s) div period) * period) \<le> unat time"
proof -
  let ?n = "(time - s) div period"
  have d: "unat (time - s) = unat time - unat s" using assms by (simp add: unat_sub word_le_nat_alt)
  have "unat ?n * unat period \<le> unat time - unat s"
    by (simp add: unat_div d div_times_less_eq_dividend)
  moreover have "unat time < 2 ^ 64" using unat_u64_less [of time] by simp
  ultimately have b: "unat s + unat ?n * unat period \<le> unat time" "unat ?n * unat period < 2 ^ 64"
    using assms by linarith+
  then show "unat (s + ?n * period) = unat s + unat ?n * unat period"
    using unat_u64_less [of time] by (simp add: unat_word_ariths)
  with b(1) show "unat (s + ?n * period) \<le> unat time" by simp
qed

lemma bucket_tokens:
  "unat ((if (tc :: u64) + n * b > cbs then cbs else tc + n * b)) \<le> unat tc + unat n * unat b"
proof -
  have "unat (tc + n * b) \<le> unat tc + unat n * unat b"
    using unat_add_le [of tc "n * b"] unat_mult_le [of n b] by linarith
  then show ?thesis by (auto simp: word_less_nat_alt)
qed

lemma bucket_pay: "ucast (len :: u32) \<le> (tc :: u64) \<Longrightarrow> unat (tc - ucast len) + unat len = unat tc"
  by (simp add: unat_sub word_le_nat_alt unat_ucast_u32)

section \<open>Buckets stay within the burst sizes\<close>

definition srtcm_inv :: "srtcm_profile \<Rightarrow> srtcm \<Rightarrow> bool" where
  "srtcm_inv p m \<longleftrightarrow> sr_tc m \<le> sp_cbs p \<and> sr_te m \<le> sp_ebs p"

definition trtcm_inv :: "trtcm_profile \<Rightarrow> trtcm \<Rightarrow> bool" where
  "trtcm_inv p m \<longleftrightarrow> tr_tc m \<le> tp_cbs p \<and> tr_tp m \<le> tp_pbs p"

definition rfc4115_inv :: "rfc4115_profile \<Rightarrow> rfc4115 \<Rightarrow> bool" where
  "rfc4115_inv p m \<longleftrightarrow> rf_tc m \<le> rp_cbs p \<and> rf_te m \<le> rp_ebs p"

lemma word_minus_le: "(b :: u64) \<le> a \<Longrightarrow> a - b \<le> a"
  by (simp add: word_le_nat_alt unat_sub)

lemma clamp_sub_le: "(b :: u64) \<le> a \<Longrightarrow> a \<le> c \<Longrightarrow> a - b \<le> c"
  using word_minus_le order_trans by blast

text \<open>One check of each marker: the updated buckets, then the decision and the payment.\<close>

definition cap :: "u64 \<Rightarrow> u64 \<Rightarrow> u64" where
  "cap x limit = (if x > limit then limit else x)"

lemma cap_le: "cap x limit \<le> limit"
  by (simp add: cap_def not_less)

lemma unat_cap_le: "unat (cap x limit) \<le> unat x"
  by (simp add: cap_def word_less_nat_alt)

lemma cap_tokens: "unat (cap (tc + n * b) cbs) \<le> unat tc + unat n * unat b"
  using bucket_tokens [of cbs tc n b] by (simp add: cap_def)

lemma trtcm_aware_shape:
  "rte_meter_trtcm_color_aware_check m p time len c =
   (let n = (time - tr_time_tc m) div tp_cir_period p;
        k = (time - tr_time_tp m) div tp_pir_period p;
        tc = cap (tr_tc m + n * tp_cir_bytes_per_period p) (tp_cbs p);
        tp = cap (tr_tp m + k * tp_pir_bytes_per_period p) (tp_pbs p);
        m = m\<lparr>tr_time_tc := tr_time_tc m + n * tp_cir_period p, tr_time_tp := tr_time_tp m + k * tp_pir_period p\<rparr>
    in if c = RTE_COLOR_RED \<or> tp < ucast len then (RTE_COLOR_RED, m\<lparr>tr_tc := tc, tr_tp := tp\<rparr>)
       else if c = RTE_COLOR_YELLOW \<or> tc < ucast len then (RTE_COLOR_YELLOW, m\<lparr>tr_tc := tc, tr_tp := tp - ucast len\<rparr>)
       else (RTE_COLOR_GREEN, m\<lparr>tr_tc := tc - ucast len, tr_tp := tp - ucast len\<rparr>))"
  by (simp add: rte_meter_trtcm_color_aware_check_def cap_def Let_def)

lemma rfc4115_aware_shape:
  "rte_meter_trtcm_rfc4115_color_aware_check m p time len c =
   (let n = (time - rf_time_tc m) div rp_cir_period p;
        k = (time - rf_time_te m) div rp_eir_period p;
        tc = cap (rf_tc m + n * rp_cir_bytes_per_period p) (rp_cbs p);
        te = cap (rf_te m + k * rp_eir_bytes_per_period p) (rp_ebs p);
        m = m\<lparr>rf_time_tc := rf_time_tc m + n * rp_cir_period p, rf_time_te := rf_time_te m + k * rp_eir_period p\<rparr>
    in if c = RTE_COLOR_GREEN \<and> tc \<ge> ucast len then (RTE_COLOR_GREEN, m\<lparr>rf_tc := tc - ucast len, rf_te := te\<rparr>)
       else if c \<noteq> RTE_COLOR_RED \<and> te \<ge> ucast len then (RTE_COLOR_YELLOW, m\<lparr>rf_tc := tc, rf_te := te - ucast len\<rparr>)
       else (RTE_COLOR_RED, m\<lparr>rf_tc := tc, rf_te := te\<rparr>))"
  by (simp add: rte_meter_trtcm_rfc4115_color_aware_check_def cap_def Let_def)

lemma srtcm_aware_shape:
  "rte_meter_srtcm_color_aware_check m p time len c =
   (let n = (time - sr_time m) div sp_cir_period p;
        x = sr_tc m + n * sp_cir_bytes_per_period p;
        tc = cap x (sp_cbs p);
        te = (if x > sp_cbs p then cap (sr_te m + (x - sp_cbs p)) (sp_ebs p) else sr_te m);
        m = m\<lparr>sr_time := sr_time m + n * sp_cir_period p\<rparr>
    in if c = RTE_COLOR_GREEN \<and> tc \<ge> ucast len then (RTE_COLOR_GREEN, m\<lparr>sr_tc := tc - ucast len, sr_te := te\<rparr>)
       else if c \<noteq> RTE_COLOR_RED \<and> te \<ge> ucast len then (RTE_COLOR_YELLOW, m\<lparr>sr_tc := tc, sr_te := te - ucast len\<rparr>)
       else (RTE_COLOR_RED, m\<lparr>sr_tc := tc, sr_te := te\<rparr>))"
  by (simp add: rte_meter_srtcm_color_aware_check_def cap_def Let_def)

lemma cap_sub_le: "(b :: u64) \<le> cap x limit \<Longrightarrow> cap x limit - b \<le> limit"
  using clamp_sub_le cap_le by blast

lemma trtcm_inv_check: "trtcm_inv p (snd (rte_meter_trtcm_color_aware_check m p time len c))"
  unfolding trtcm_aware_shape Let_def trtcm_inv_def
  by (simp add: cap_le cap_sub_le not_less split: if_splits)

lemma rfc4115_inv_check: "rfc4115_inv p (snd (rte_meter_trtcm_rfc4115_color_aware_check m p time len c))"
  unfolding rfc4115_aware_shape Let_def rfc4115_inv_def
  by (simp add: cap_le cap_sub_le not_less split: if_splits)

lemma srtcm_inv_check:
  assumes "srtcm_inv p m"
  shows "srtcm_inv p (snd (rte_meter_srtcm_color_aware_check m p time len c))"
proof -
  define x where "x = sr_tc m + ((time - sr_time m) div sp_cir_period p) * sp_cir_bytes_per_period p"
  define te where "te = (if x > sp_cbs p then cap (sr_te m + (x - sp_cbs p)) (sp_ebs p) else sr_te m)"
  have te: "te \<le> sp_ebs p" using assms by (simp add: te_def cap_le srtcm_inv_def)
  show ?thesis
    unfolding srtcm_aware_shape Let_def srtcm_inv_def x_def [symmetric] te_def [symmetric]
    using te by (simp add: cap_le cap_sub_le clamp_sub_le)
qed

text \<open>
  Token buckets stay within their burst sizes. From the configuration on, and after any check
  of any packet at any time, even when a time stamp or a token count wraps, no bucket of a
  meter holds more tokens than its burst size.
\<close>

theorem meter_buckets_bounded:
  "(srtcm_inv p1 (rte_meter_srtcm_config now p1) \<and> trtcm_inv p2 (rte_meter_trtcm_config now p2) \<and>
    rfc4115_inv p3 (rte_meter_trtcm_rfc4115_config now p3)) \<and>
   (srtcm_inv p1 m1 \<longrightarrow> srtcm_inv p1 (snd (rte_meter_srtcm_color_aware_check m1 p1 time len c))) \<and>
   trtcm_inv p2 (snd (rte_meter_trtcm_color_aware_check m2 p2 time len c)) \<and>
   rfc4115_inv p3 (snd (rte_meter_trtcm_rfc4115_color_aware_check m3 p3 time len c))"
proof (intro conjI impI)
  show "srtcm_inv p1 (rte_meter_srtcm_config now p1)"
    by (simp add: srtcm_inv_def rte_meter_srtcm_config_def)
  show "trtcm_inv p2 (rte_meter_trtcm_config now p2)"
    by (simp add: trtcm_inv_def rte_meter_trtcm_config_def)
  show "rfc4115_inv p3 (rte_meter_trtcm_rfc4115_config now p3)"
    by (simp add: rfc4115_inv_def rte_meter_trtcm_rfc4115_config_def)
  show "srtcm_inv p1 m1 \<Longrightarrow> srtcm_inv p1 (snd (rte_meter_srtcm_color_aware_check m1 p1 time len c))"
    by (rule srtcm_inv_check)
  show "trtcm_inv p2 (snd (rte_meter_trtcm_color_aware_check m2 p2 time len c))"
    by (rule trtcm_inv_check)
  show "rfc4115_inv p3 (snd (rte_meter_trtcm_rfc4115_color_aware_check m3 p3 time len c))"
    by (rule rfc4115_inv_check)
qed

section \<open>The committed rate\<close>

text \<open>The bytes marked green in a run of packets, and the meter after it.\<close>

fun meter_run ::
  "('m \<Rightarrow> u64 \<Rightarrow> u32 \<Rightarrow> rte_color \<Rightarrow> rte_color \<times> 'm) \<Rightarrow> (u64 \<times> u32 \<times> rte_color) list \<Rightarrow> 'm \<Rightarrow> nat \<times> 'm"
where
  "meter_run check [] m = (0, m)"
| "meter_run check ((time, len, c) # ps) m =
     (let (out, m') = check m time len c; (g, m'') = meter_run check ps m'
      in ((if out = RTE_COLOR_GREEN then unat len else 0) + g, m''))"

text \<open>
  What the three markers share: a committed bucket that earns \<open>credit\<close> tokens per \<open>period\<close> and pays
  for every byte that leaves green.
\<close>

locale committed_bucket =
  fixes check :: "'m \<Rightarrow> u64 \<Rightarrow> u32 \<Rightarrow> rte_color \<Rightarrow> rte_color \<times> 'm"
    and tokens :: "'m \<Rightarrow> nat" and stamp :: "'m \<Rightarrow> nat"
    and period :: nat and credit :: nat
  assumes spend: "check m time len c = (out, m') \<Longrightarrow> stamp m \<le> unat time \<Longrightarrow>
    \<exists>n. stamp m' = stamp m + n * period \<and> stamp m' \<le> unat time \<and>
        tokens m' + (if out = RTE_COLOR_GREEN then unat len else 0) \<le> tokens m + n * credit"
begin

lemma run_rate:
  assumes "meter_run check ps m = (g, m')" and "sorted (map (\<lambda>q. unat (fst q)) ps)"
    and "\<And>q. q \<in> set ps \<Longrightarrow> stamp m \<le> unat (fst q) \<and> unat (fst q) \<le> T" and "stamp m \<le> T"
  shows "\<exists>n. stamp m' = stamp m + n * period \<and> stamp m' \<le> T \<and> tokens m' + g \<le> tokens m + n * credit"
  using assms
proof (induction ps arbitrary: m g)
  case Nil
  then show ?case by (intro exI [of _ 0]) auto
next
  case (Cons q ps)
  obtain time len c where q: "q = (time, len, c)" by (cases q)
  obtain out m1 where m1: "check m time len c = (out, m1)" by (cases "check m time len c")
  obtain g1 where g1: "meter_run check ps m1 = (g1, m')" "g = (if out = RTE_COLOR_GREEN then unat len else 0) + g1"
    using Cons.prems(1) by (auto simp: q m1 split: prod.splits)
  from Cons.prems(3) [of q] have t: "stamp m \<le> unat time" "unat time \<le> T" by (simp_all add: q)
  obtain n where n: "stamp m1 = stamp m + n * period" "stamp m1 \<le> unat time"
      "tokens m1 + (if out = RTE_COLOR_GREEN then unat len else 0) \<le> tokens m + n * credit"
    using spend [OF m1 t(1)] by blast
  have "\<exists>k. stamp m' = stamp m1 + k * period \<and> stamp m' \<le> T \<and> tokens m' + g1 \<le> tokens m1 + k * credit"
  proof (rule Cons.IH [OF g1(1)])
    show "sorted (map (\<lambda>q. unat (fst q)) ps)" using Cons.prems(2) by simp
    show "stamp m1 \<le> unat (fst r) \<and> unat (fst r) \<le> T" if "r \<in> set ps" for r
      using Cons.prems(2,3) that n(2) by (fastforce simp: q)
    show "stamp m1 \<le> T" using n(2) t(2) by simp
  qed
  then obtain k where "stamp m' = stamp m1 + k * period" "stamp m' \<le> T"
      "tokens m' + g1 \<le> tokens m1 + k * credit" by blast
  with n g1(2) show ?case by (intro exI [of _ "n + k"]) (auto simp: algebra_simps)
qed

text \<open>The bytes marked green up to time \<open>T\<close> are paid from the bucket and the periods that passed.\<close>

lemma green_bounded:
  assumes "meter_run check ps m = (g, m')" and "sorted (map (\<lambda>q. unat (fst q)) ps)"
    and "\<And>q. q \<in> set ps \<Longrightarrow> stamp m \<le> unat (fst q) \<and> unat (fst q) \<le> T"
    and "stamp m \<le> T" and "0 < period"
  shows "g \<le> tokens m + ((T - stamp m) div period) * credit"
proof -
  from run_rate [OF assms(1-4)] obtain n where n: "stamp m + n * period \<le> T" "g \<le> tokens m + n * credit"
    by auto
  then have "n * period \<le> T - stamp m" by simp
  then have "n \<le> (T - stamp m) div period" using assms(5) by (simp add: less_eq_div_iff_mult_less_eq)
  then have "n * credit \<le> ((T - stamp m) div period) * credit" by (rule mult_le_mono1)
  with n(2) show ?thesis by linarith
qed

end

interpretation sr: committed_bucket
  "\<lambda>m time len c. rte_meter_srtcm_color_aware_check m p time len c"
  "\<lambda>m. unat (sr_tc m)" "\<lambda>m. unat (sr_time m)"
  "unat (sp_cir_period p)" "unat (sp_cir_bytes_per_period p)" for p
proof
  fix m m' :: srtcm and time len c out
  assume check: "rte_meter_srtcm_color_aware_check m p time len c = (out, m')"
    and le: "unat (sr_time m) \<le> unat time"
  let ?n = "(time - sr_time m) div sp_cir_period p"
  let ?tc = "cap (sr_tc m + ?n * sp_cir_bytes_per_period p) (sp_cbs p)"
  have "sr_time m' = sr_time m + ?n * sp_cir_period p"
    using check unfolding srtcm_aware_shape Let_def by (auto split: if_splits)
  moreover have "(out = RTE_COLOR_GREEN \<and> ucast len \<le> ?tc \<and> sr_tc m' = ?tc - ucast len) \<or> (out \<noteq> RTE_COLOR_GREEN \<and> sr_tc m' = ?tc)"
    using check unfolding srtcm_aware_shape Let_def by (auto split: if_splits)
  then have "unat (sr_tc m') + (if out = RTE_COLOR_GREEN then unat len else 0) = unat ?tc"
    using bucket_pay [of len ?tc] by auto
  ultimately show "\<exists>n. unat (sr_time m') = unat (sr_time m) + n * unat (sp_cir_period p) \<and>
      unat (sr_time m') \<le> unat time \<and>
      unat (sr_tc m') + (if out = RTE_COLOR_GREEN then unat len else 0) \<le> unat (sr_tc m) + n * unat (sp_cir_bytes_per_period p)"
    using bucket_stamp [OF le, of "sp_cir_period p"]
      cap_tokens [of "sr_tc m" ?n "sp_cir_bytes_per_period p" "sp_cbs p"]
    by (intro exI [of _ "unat ?n"]) simp
qed

interpretation tr: committed_bucket
  "\<lambda>m time len c. rte_meter_trtcm_color_aware_check m p time len c"
  "\<lambda>m. unat (tr_tc m)" "\<lambda>m. unat (tr_time_tc m)"
  "unat (tp_cir_period p)" "unat (tp_cir_bytes_per_period p)" for p
proof
  fix m m' :: trtcm and time len c out
  assume check: "rte_meter_trtcm_color_aware_check m p time len c = (out, m')"
    and le: "unat (tr_time_tc m) \<le> unat time"
  let ?n = "(time - tr_time_tc m) div tp_cir_period p"
  let ?tc = "cap (tr_tc m + ?n * tp_cir_bytes_per_period p) (tp_cbs p)"
  have "tr_time_tc m' = tr_time_tc m + ?n * tp_cir_period p"
    using check unfolding trtcm_aware_shape Let_def by (auto split: if_splits)
  moreover have "(out = RTE_COLOR_GREEN \<and> ucast len \<le> ?tc \<and> tr_tc m' = ?tc - ucast len) \<or> (out \<noteq> RTE_COLOR_GREEN \<and> tr_tc m' = ?tc)"
    using check unfolding trtcm_aware_shape Let_def by (auto simp: not_less split: if_splits)
  then have "unat (tr_tc m') + (if out = RTE_COLOR_GREEN then unat len else 0) = unat ?tc"
    using bucket_pay [of len ?tc] by auto
  ultimately show "\<exists>n. unat (tr_time_tc m') = unat (tr_time_tc m) + n * unat (tp_cir_period p) \<and>
      unat (tr_time_tc m') \<le> unat time \<and>
      unat (tr_tc m') + (if out = RTE_COLOR_GREEN then unat len else 0) \<le> unat (tr_tc m) + n * unat (tp_cir_bytes_per_period p)"
    using bucket_stamp [OF le, of "tp_cir_period p"]
      cap_tokens [of "tr_tc m" ?n "tp_cir_bytes_per_period p" "tp_cbs p"]
    by (intro exI [of _ "unat ?n"]) simp
qed

interpretation rf: committed_bucket
  "\<lambda>m time len c. rte_meter_trtcm_rfc4115_color_aware_check m p time len c"
  "\<lambda>m. unat (rf_tc m)" "\<lambda>m. unat (rf_time_tc m)"
  "unat (rp_cir_period p)" "unat (rp_cir_bytes_per_period p)" for p
proof
  fix m m' :: rfc4115 and time len c out
  assume check: "rte_meter_trtcm_rfc4115_color_aware_check m p time len c = (out, m')"
    and le: "unat (rf_time_tc m) \<le> unat time"
  let ?n = "(time - rf_time_tc m) div rp_cir_period p"
  let ?tc = "cap (rf_tc m + ?n * rp_cir_bytes_per_period p) (rp_cbs p)"
  have "rf_time_tc m' = rf_time_tc m + ?n * rp_cir_period p"
    using check unfolding rfc4115_aware_shape Let_def by (auto split: if_splits)
  moreover have "(out = RTE_COLOR_GREEN \<and> ucast len \<le> ?tc \<and> rf_tc m' = ?tc - ucast len) \<or> (out \<noteq> RTE_COLOR_GREEN \<and> rf_tc m' = ?tc)"
    using check unfolding rfc4115_aware_shape Let_def by (auto split: if_splits)
  then have "unat (rf_tc m') + (if out = RTE_COLOR_GREEN then unat len else 0) = unat ?tc"
    using bucket_pay [of len ?tc] by auto
  ultimately show "\<exists>n. unat (rf_time_tc m') = unat (rf_time_tc m) + n * unat (rp_cir_period p) \<and>
      unat (rf_time_tc m') \<le> unat time \<and>
      unat (rf_tc m') + (if out = RTE_COLOR_GREEN then unat len else 0) \<le> unat (rf_tc m) + n * unat (rp_cir_bytes_per_period p)"
    using bucket_stamp [OF le, of "rp_cir_period p"]
      cap_tokens [of "rf_tc m" ?n "rp_cir_bytes_per_period p" "rp_cbs p"]
    by (intro exI [of _ "unat ?n"]) simp
qed

text \<open>
  C38: the committed rate holds. For any packets in time order, the bytes that a meter marks green
  up to time \<open>T\<close> are at most the tokens that were in its committed bucket plus the tokens earned
  in the full periods since its time stamp; this holds for the three markers, and although token
  counts are 64-bit words that may wrap.
\<close>

theorem committed_rate_bound:
  assumes "sorted (map (\<lambda>q. unat (fst q)) ps)" and "\<forall>q \<in> set ps. unat (fst q) \<le> T"
    and "\<forall>q \<in> set ps. t0 \<le> unat (fst q)" and "t0 \<le> T"
    and "sp_cir_period p1 \<noteq> 0" and "tp_cir_period p2 \<noteq> 0" and "rp_cir_period p3 \<noteq> 0"
    and "unat (sr_time m1) = t0" and "unat (tr_time_tc m2) = t0" and "unat (rf_time_tc m3) = t0"
  shows "fst (meter_run (\<lambda>m t l c. rte_meter_srtcm_color_aware_check m p1 t l c) ps m1)
      \<le> unat (sr_tc m1) + ((T - t0) div unat (sp_cir_period p1)) * unat (sp_cir_bytes_per_period p1) \<and>
    fst (meter_run (\<lambda>m t l c. rte_meter_trtcm_color_aware_check m p2 t l c) ps m2)
      \<le> unat (tr_tc m2) + ((T - t0) div unat (tp_cir_period p2)) * unat (tp_cir_bytes_per_period p2) \<and>
    fst (meter_run (\<lambda>m t l c. rte_meter_trtcm_rfc4115_color_aware_check m p3 t l c) ps m3)
      \<le> unat (rf_tc m3) + ((T - t0) div unat (rp_cir_period p3)) * unat (rp_cir_bytes_per_period p3)"
  using sr.green_bounded [OF prod.collapse [symmetric] assms(1), of m1 T p1]
    tr.green_bounded [OF prod.collapse [symmetric] assms(1), of m2 T p2]
    rf.green_bounded [OF prod.collapse [symmetric] assms(1), of m3 T p3]
    assms by (simp add: unat_gt_0)

definition ex_sr_profile :: srtcm_profile where
  "ex_sr_profile = \<lparr>sp_cbs = 1000, sp_ebs = 500, sp_cir_period = 100, sp_cir_bytes_per_period = 10\<rparr>"

definition ex_tr_profile :: trtcm_profile where
  "ex_tr_profile = \<lparr>tp_cbs = 1000, tp_pbs = 2000, tp_cir_period = 100, tp_cir_bytes_per_period = 10,
     tp_pir_period = 50, tp_pir_bytes_per_period = 10\<rparr>"

definition ex_rf_profile :: rfc4115_profile where
  "ex_rf_profile = \<lparr>rp_cbs = 1000, rp_ebs = 500, rp_cir_period = 100, rp_cir_bytes_per_period = 10,
     rp_eir_period = 50, rp_eir_bytes_per_period = 10\<rparr>"

lemma committed_rate_bound_witness:
  "fst (meter_run (\<lambda>m t l c. rte_meter_trtcm_color_aware_check m ex_tr_profile t l c)
     [(200, 600, RTE_COLOR_GREEN), (300, 600, RTE_COLOR_GREEN)]
     (rte_meter_trtcm_config 0 ex_tr_profile)) \<le> 1030"
  using committed_rate_bound [of "[(200, 600, RTE_COLOR_GREEN), (300, 600, RTE_COLOR_GREEN)]" 300 0
      ex_sr_profile ex_tr_profile ex_rf_profile "rte_meter_srtcm_config 0 ex_sr_profile"
      "rte_meter_trtcm_config 0 ex_tr_profile" "rte_meter_trtcm_rfc4115_config 0 ex_rf_profile"]
  by (simp add: ex_sr_profile_def ex_tr_profile_def ex_rf_profile_def rte_meter_srtcm_config_def
      rte_meter_trtcm_config_def rte_meter_trtcm_rfc4115_config_def del: meter_run.simps)

text \<open>
  A bucket refills. After an idle time of enough periods for the committed burst size, as long as
  the token count does not exceed 64 bits, a two rate meter marks green every green packet that
  fits both bursts.
\<close>

theorem trtcm_refills:
  assumes "unat (tr_time_tc m) \<le> unat time" and "unat (tr_time_tp m) \<le> unat time"
    and "unat (tp_cbs p) \<le> ((unat time - unat (tr_time_tc m)) div unat (tp_cir_period p)) * unat (tp_cir_bytes_per_period p)"
    and "unat (tp_pbs p) \<le> ((unat time - unat (tr_time_tp m)) div unat (tp_pir_period p)) * unat (tp_pir_bytes_per_period p)"
    and "unat (tr_tc m) + ((unat time - unat (tr_time_tc m)) div unat (tp_cir_period p)) * unat (tp_cir_bytes_per_period p) < 2 ^ 64"
    and "unat (tr_tp m) + ((unat time - unat (tr_time_tp m)) div unat (tp_pir_period p)) * unat (tp_pir_bytes_per_period p) < 2 ^ 64"
    and "unat len \<le> unat (tp_cbs p)" and "unat len \<le> unat (tp_pbs p)"
  shows "fst (rte_meter_trtcm_color_aware_check m p time len RTE_COLOR_GREEN) = RTE_COLOR_GREEN"
proof -
  have full: "cap (tc + ((time - s) div period) * b) limit = limit"
    if "unat s \<le> unat time" and "unat limit \<le> ((unat time - unat s) div unat period) * unat b"
      and "unat tc + ((unat time - unat s) div unat period) * unat b < 2 ^ 64"
    for tc s period b limit :: u64
  proof -
    have "unat ((time - s) div period) = (unat time - unat s) div unat period"
      using that(1) by (simp add: unat_div unat_sub word_le_nat_alt)
    then have "unat (tc + ((time - s) div period) * b) = unat tc + ((unat time - unat s) div unat period) * unat b"
      using that(3) by (simp add: unat_word_ariths)
    then have "unat limit \<le> unat (tc + ((time - s) div period) * b)" using that(2) by simp
    then show ?thesis by (auto simp: cap_def word_less_nat_alt word_unat_eq_iff)
  qed
  show ?thesis
    unfolding trtcm_aware_shape Let_def full [OF assms(1,3,5)] full [OF assms(2,4,6)]
    using assms(7,8) by (simp add: word_less_nat_alt unat_ucast_u32)
qed

lemma trtcm_refills_witness:
  "fst (rte_meter_trtcm_color_aware_check \<lparr>tr_time_tc = 0, tr_time_tp = 0, tr_tc = 0, tr_tp = 0\<rparr>
     ex_tr_profile 10000 900 RTE_COLOR_GREEN) = RTE_COLOR_GREEN"
  using trtcm_refills [of "\<lparr>tr_time_tc = 0, tr_time_tp = 0, tr_tc = 0, tr_tp = 0\<rparr>" 10000 ex_tr_profile 900]
  by (simp add: ex_tr_profile_def)

lemma meter_buckets_bounded_witness:
  "srtcm_inv ex_sr_profile (snd (rte_meter_srtcm_color_aware_check (rte_meter_srtcm_config 3 ex_sr_profile)
     ex_sr_profile 900 77 RTE_COLOR_YELLOW))"
  using meter_buckets_bounded [of ex_sr_profile 3 ex_tr_profile ex_rf_profile
      "rte_meter_srtcm_config 3 ex_sr_profile" 900 77 RTE_COLOR_YELLOW] by blast

end
