(* ===== verification/SwxMeter.thy ===== *)
theory SwxMeter
  imports SwxReg RteMeter
begin

text \<open>
  Meter arrays: profiles, configuration, build and control plane operations
  (lib/pipeline/rte_swx_pipeline.c) and the twelve \<open>meter\<close> instructions of the data plane
  (lib/pipeline/rte_swx_pipeline_internal.h). The pointer of a meter to its profile is the name
  of the profile, \<open>None\<close> for the default profile; a name that no profile has is a dangling pointer,
  and the reference counts that rule this out are shown to be right.
\<close>

section \<open>State\<close>

record meter_profile =
  mp_name :: string
  mp_params :: trtcm_params
  mp_profile :: trtcm_profile
  mp_n_users :: u32

record metarray_cfg =
  mc_name :: string
  mc_size :: u32

record meter =
  mt_m :: trtcm
  mt_profile :: "string option"
  mt_color_mask :: u32
  mt_n_pkts :: "nat \<Rightarrow> u64"
  mt_n_bytes :: "nat \<Rightarrow> u64"

record metarray_runtime =
  metarray :: "meter list"
  ma_size_mask :: u32

record meter_state =
  ms_profiles :: "meter_profile list"
  ms_default_users :: u32
  ms_cfg :: "metarray_cfg list"
  ms_rt :: "metarray_runtime list"

definition meter_profile_default :: trtcm_profile where
  "meter_profile_default =
     \<lparr>tp_cbs = 10000, tp_pbs = 10000, tp_cir_period = 1, tp_cir_bytes_per_period = 1,
      tp_pir_period = 1, tp_pir_bytes_per_period = 1\<rparr>"

datatype merrno = M_EINVAL | M_EEXIST | M_EBUSY

section \<open>Lookups\<close>

fun meter_profile_find :: "meter_profile list \<Rightarrow> string \<Rightarrow> meter_profile option" where
  "meter_profile_find [] name = None"
| "meter_profile_find (p # ps) name = (if mp_name p = name then Some p else meter_profile_find ps name)"

fun metarray_find :: "metarray_cfg list \<Rightarrow> string \<Rightarrow> (nat \<times> metarray_cfg) option" where
  "metarray_find [] name = None"
| "metarray_find (m # ms) name =
     (if mc_name m = name then Some (0, m)
      else map_option (\<lambda>(i, m). (i + 1, m)) (metarray_find ms name))"

text \<open>Following the profile pointer of a meter.\<close>

definition profile_of :: "meter_state \<Rightarrow> meter \<Rightarrow> trtcm_profile option" where
  "profile_of st m =
     (case mt_profile m of
        None \<Rightarrow> Some meter_profile_default
      | Some name \<Rightarrow> map_option mp_profile (meter_profile_find (ms_profiles st) name))"

definition users_add :: "string option \<Rightarrow> u32 \<Rightarrow> meter_state \<Rightarrow> meter_state" where
  "users_add ptr d st =
     (case ptr of
        None \<Rightarrow> st\<lparr>ms_default_users := ms_default_users st + d\<rparr>
      | Some name \<Rightarrow> st\<lparr>ms_profiles :=
          map (\<lambda>p. if mp_name p = name then p\<lparr>mp_n_users := mp_n_users p + d\<rparr> else p) (ms_profiles st)\<rparr>)"

definition set_meter :: "meter_state \<Rightarrow> nat \<Rightarrow> nat \<Rightarrow> meter \<Rightarrow> meter_state" where
  "set_meter st a i m =
     st\<lparr>ms_rt := (ms_rt st)[a := (ms_rt st ! a)\<lparr>metarray := (metarray (ms_rt st ! a))[i := m]\<rparr>]\<rparr>"

section \<open>Configuration and build\<close>

definition metarray_config :: "metarray_cfg list \<Rightarrow> string \<Rightarrow> u32 \<Rightarrow> merrno + metarray_cfg list" where
  "metarray_config ms name sz =
     (if \<not> check_name name then Inl M_EINVAL
      else if metarray_find ms name \<noteq> None then Inl M_EEXIST
      else if sz = 0 then Inl M_EINVAL
      else Inr (ms @ [\<lparr>mc_name = name, mc_size = rte_align32pow2 sz\<rparr>]))"

text \<open>The meter that \<open>meter_init\<close> leaves, at time \<open>now\<close>; the caller counts the user of the default profile.\<close>

definition meter_init :: "u64 \<Rightarrow> meter" where
  "meter_init now =
     \<lparr>mt_m = rte_meter_trtcm_config now meter_profile_default, mt_profile = None,
      mt_color_mask = of_nat (color_code RTE_COLOR_GREEN), mt_n_pkts = (\<lambda>_. 0), mt_n_bytes = (\<lambda>_. 0)\<rparr>"

definition metarray_build :: "u64 \<Rightarrow> meter_state \<Rightarrow> meter_state" where
  "metarray_build now st =
     st\<lparr>ms_rt := map (\<lambda>m. \<lparr>metarray = replicate (unat (mc_size m)) (meter_init now), ma_size_mask = mc_size m - 1\<rparr>) (ms_cfg st),
       ms_default_users := ms_default_users st + sum_list (map mc_size (ms_cfg st))\<rparr>"

section \<open>Control plane operations\<close>

definition ctl_meter_profile_add ::
  "(u64 \<Rightarrow> u64 \<times> u64) \<Rightarrow> meter_state \<Rightarrow> string \<Rightarrow> trtcm_params \<Rightarrow> merrno + meter_state" where
  "ctl_meter_profile_add tb st name params =
     (if \<not> check_name name then Inl M_EINVAL
      else if meter_profile_find (ms_profiles st) name \<noteq> None then Inl M_EEXIST
      else case rte_meter_trtcm_profile_config tb params of
          None \<Rightarrow> Inl M_EINVAL
        | Some profile \<Rightarrow>
            Inr (st\<lparr>ms_profiles := ms_profiles st @
              [\<lparr>mp_name = name, mp_params = params, mp_profile = profile, mp_n_users = 0\<rparr>]\<rparr>))"

definition ctl_meter_profile_delete :: "meter_state \<Rightarrow> string \<Rightarrow> merrno + meter_state" where
  "ctl_meter_profile_delete st name =
     (if \<not> check_name name then Inl M_EINVAL
      else case meter_profile_find (ms_profiles st) name of
          None \<Rightarrow> Inl M_EINVAL
        | Some mp \<Rightarrow>
            if mp_n_users mp \<noteq> 0 then Inl M_EBUSY
            else Inr (st\<lparr>ms_profiles := filter (\<lambda>p. mp_name p \<noteq> name) (ms_profiles st)\<rparr>))"

definition ctl_meter_reset :: "u64 \<Rightarrow> meter_state \<Rightarrow> string \<Rightarrow> u32 \<Rightarrow> merrno + meter_state" where
  "ctl_meter_reset now st name index =
     (if \<not> check_name name then Inl M_EINVAL
      else case metarray_find (ms_cfg st) name of
          None \<Rightarrow> Inl M_EINVAL
        | Some (a, cfg) \<Rightarrow>
            if \<not> index < mc_size cfg then Inl M_EINVAL
            else (let m = metarray (ms_rt st ! a) ! unat index;
                      mp_old = mt_profile m;
                      st = set_meter st a (unat index) (meter_init now);
                      st = users_add None 1 st
                  in Inr (users_add mp_old (- 1) st)))"

definition ctl_meter_set :: "u64 \<Rightarrow> meter_state \<Rightarrow> string \<Rightarrow> u32 \<Rightarrow> string \<Rightarrow> merrno + meter_state" where
  "ctl_meter_set now st name index profile_name =
     (if \<not> check_name name then Inl M_EINVAL
      else case metarray_find (ms_cfg st) name of
          None \<Rightarrow> Inl M_EINVAL
        | Some (a, cfg) \<Rightarrow>
            if \<not> index < mc_size cfg then Inl M_EINVAL
            else case meter_profile_find (ms_profiles st) profile_name of
                None \<Rightarrow> Inl M_EINVAL
              | Some mp \<Rightarrow>
                  (let m = metarray (ms_rt st ! a) ! unat index;
                       mp_old = mt_profile m;
                       m = \<lparr>mt_m = rte_meter_trtcm_config now (mp_profile mp), mt_profile = Some (mp_name mp),
                            mt_color_mask = 3, mt_n_pkts = (\<lambda>_. 0), mt_n_bytes = (\<lambda>_. 0)\<rparr>;
                       st = set_meter st a (unat index) m;
                       st = users_add (Some (mp_name mp)) 1 st
                   in Inr (users_add mp_old (- 1) st)))"

definition ctl_meter_stats_read ::
  "meter_state \<Rightarrow> string \<Rightarrow> u32 \<Rightarrow> merrno + ((nat \<Rightarrow> u64) \<times> (nat \<Rightarrow> u64))" where
  "ctl_meter_stats_read st name index =
     (if \<not> check_name name then Inl M_EINVAL
      else case metarray_find (ms_cfg st) name of
          None \<Rightarrow> Inl M_EINVAL
        | Some (a, cfg) \<Rightarrow>
            if \<not> index < mc_size cfg then Inl M_EINVAL
            else (let m = metarray (ms_rt st ! a) ! unat index in Inr (mt_n_pkts m, mt_n_bytes m)))"

section \<open>Operands of the instructions\<close>

record instr_meter =
  im_metarray_id :: nat
  im_idx :: instr_operand
  im_idx_val :: u32
  im_length :: instr_operand
  im_color_in :: instr_operand
  im_color_in_val :: u32
  im_color_out :: instr_operand

definition instr_meter_idx_hbo :: "meter_state \<Rightarrow> thread \<Rightarrow> instr_meter \<Rightarrow> u64" where
  "instr_meter_idx_hbo p t ip =
     (let r = ms_rt p ! im_metarray_id ip;
          idx64 = load64 (t_mem t) (op_addr t (im_idx ip));
          idx64_mask = mask64 (op_n_bits (im_idx ip))
      in idx64 AND idx64_mask AND ucast (ma_size_mask r))"

definition instr_meter_idx_nbo :: "meter_state \<Rightarrow> thread \<Rightarrow> instr_meter \<Rightarrow> u64" where
  "instr_meter_idx_nbo p t ip =
     (let r = ms_rt p ! im_metarray_id ip;
          idx64 = load64 (t_mem t) (op_addr t (im_idx ip))
      in drop_bit (64 - op_n_bits (im_idx ip)) (ntoh64 idx64) AND ucast (ma_size_mask r))"

definition instr_meter_idx_imm :: "meter_state \<Rightarrow> instr_meter \<Rightarrow> u64" where
  "instr_meter_idx_imm p ip =
     (let r = ms_rt p ! im_metarray_id ip in ucast (im_idx_val ip AND ma_size_mask r))"

definition instr_meter_length_hbo :: "thread \<Rightarrow> instr_meter \<Rightarrow> u32" where
  "instr_meter_length_hbo t ip =
     (let src64 = load64 (t_mem t) (op_addr t (im_length ip));
          src64_mask = mask64 (op_n_bits (im_length ip))
      in ucast (src64 AND src64_mask))"

definition instr_meter_length_nbo :: "thread \<Rightarrow> instr_meter \<Rightarrow> u32" where
  "instr_meter_length_nbo t ip =
     (let src64 = load64 (t_mem t) (op_addr t (im_length ip))
      in ucast (drop_bit (64 - op_n_bits (im_length ip)) (ntoh64 src64)))"

text \<open>The cast to the enumeration: a value that is no colour fails both tests of the meter, as green does.\<close>

definition color_of_enum :: "u32 \<Rightarrow> rte_color" where
  "color_of_enum c = (if c = 1 then RTE_COLOR_YELLOW else if c = 2 then RTE_COLOR_RED else RTE_COLOR_GREEN)"

definition instr_meter_color_in_hbo :: "thread \<Rightarrow> instr_meter \<Rightarrow> rte_color" where
  "instr_meter_color_in_hbo t ip =
     (let src64 = load64 (t_mem t) (op_addr t (im_color_in ip));
          src64_mask = mask64 (op_n_bits (im_color_in ip))
      in color_of_enum (ucast (src64 AND src64_mask)))"

definition instr_meter_color_out_hbo_set :: "thread \<Rightarrow> instr_meter \<Rightarrow> u32 \<Rightarrow> thread" where
  "instr_meter_color_out_hbo_set t ip color_out =
     (let dst64_ptr = op_addr t (im_color_out ip);
          dst64 = load64 (t_mem t) dst64_ptr;
          dst64_mask = mask64 (op_n_bits (im_color_out ip));
          src = ucast color_out
      in t\<lparr>t_mem := store64 (t_mem t) dst64_ptr ((dst64 AND NOT dst64_mask) OR (src AND dst64_mask))\<rparr>)"

section \<open>The instructions\<close>

text \<open>
  What the instructions do once index, length and input colour are read, at time \<open>time\<close>: the
  check, the colour mask, the output colour and the statistics of that colour. \<open>None\<close> is an index
  out of bounds or a dangling profile pointer.
\<close>

definition meter_exec ::
  "meter_state \<Rightarrow> thread \<Rightarrow> instr_meter \<Rightarrow> u64 \<Rightarrow> u64 \<Rightarrow> u32 \<Rightarrow> rte_color \<Rightarrow> (meter_state \<times> thread) option" where
  "meter_exec p t ip idx time len color_in =
     (case aget (ms_rt p) (im_metarray_id ip) of
        None \<Rightarrow> None
      | Some r \<Rightarrow>
        (case aget (metarray r) (unat idx) of
           None \<Rightarrow> None
         | Some m \<Rightarrow>
           (case profile_of p m of
              None \<Rightarrow> None
            | Some profile \<Rightarrow>
                (let (color, tr) = rte_meter_trtcm_color_aware_check (mt_m m) profile time len color_in;
                     color_out = of_nat (color_code color) AND mt_color_mask m;
                     c = unat color_out;
                     n_pkts = mt_n_pkts m c;
                     n_bytes = mt_n_bytes m c;
                     t = instr_meter_color_out_hbo_set t ip color_out;
                     m = m\<lparr>mt_m := tr, mt_n_pkts := (mt_n_pkts m)(c := n_pkts + 1),
                           mt_n_bytes := (mt_n_bytes m)(c := n_bytes + ucast len)\<rparr>
                 in Some (set_meter p (im_metarray_id ip) (unat idx) m, t)))))"

definition instr_meter_hhm_exec ::
  "u64 \<Rightarrow> meter_state \<Rightarrow> thread \<Rightarrow> instr_meter \<Rightarrow> (meter_state \<times> thread) option" where
  "instr_meter_hhm_exec time p t ip =
     (let idx = instr_meter_idx_nbo p t ip;
          len = instr_meter_length_nbo t ip;
          color_in = instr_meter_color_in_hbo t ip
      in meter_exec p t ip idx time len color_in)"

definition instr_meter_hhi_exec ::
  "u64 \<Rightarrow> meter_state \<Rightarrow> thread \<Rightarrow> instr_meter \<Rightarrow> (meter_state \<times> thread) option" where
  "instr_meter_hhi_exec time p t ip =
     (let idx = instr_meter_idx_nbo p t ip;
          len = instr_meter_length_nbo t ip;
          color_in = color_of_enum (im_color_in_val ip)
      in meter_exec p t ip idx time len color_in)"

definition instr_meter_hmm_exec ::
  "u64 \<Rightarrow> meter_state \<Rightarrow> thread \<Rightarrow> instr_meter \<Rightarrow> (meter_state \<times> thread) option" where
  "instr_meter_hmm_exec time p t ip =
     (let idx = instr_meter_idx_nbo p t ip;
          len = instr_meter_length_hbo t ip;
          color_in = instr_meter_color_in_hbo t ip
      in meter_exec p t ip idx time len color_in)"

definition instr_meter_hmi_exec ::
  "u64 \<Rightarrow> meter_state \<Rightarrow> thread \<Rightarrow> instr_meter \<Rightarrow> (meter_state \<times> thread) option" where
  "instr_meter_hmi_exec time p t ip =
     (let idx = instr_meter_idx_nbo p t ip;
          len = instr_meter_length_hbo t ip;
          color_in = color_of_enum (im_color_in_val ip)
      in meter_exec p t ip idx time len color_in)"

definition instr_meter_mhm_exec ::
  "u64 \<Rightarrow> meter_state \<Rightarrow> thread \<Rightarrow> instr_meter \<Rightarrow> (meter_state \<times> thread) option" where
  "instr_meter_mhm_exec time p t ip =
     (let idx = instr_meter_idx_hbo p t ip;
          len = instr_meter_length_nbo t ip;
          color_in = instr_meter_color_in_hbo t ip
      in meter_exec p t ip idx time len color_in)"

definition instr_meter_mhi_exec ::
  "u64 \<Rightarrow> meter_state \<Rightarrow> thread \<Rightarrow> instr_meter \<Rightarrow> (meter_state \<times> thread) option" where
  "instr_meter_mhi_exec time p t ip =
     (let idx = instr_meter_idx_hbo p t ip;
          len = instr_meter_length_nbo t ip;
          color_in = color_of_enum (im_color_in_val ip)
      in meter_exec p t ip idx time len color_in)"

definition instr_meter_mmm_exec ::
  "u64 \<Rightarrow> meter_state \<Rightarrow> thread \<Rightarrow> instr_meter \<Rightarrow> (meter_state \<times> thread) option" where
  "instr_meter_mmm_exec time p t ip =
     (let idx = instr_meter_idx_hbo p t ip;
          len = instr_meter_length_hbo t ip;
          color_in = instr_meter_color_in_hbo t ip
      in meter_exec p t ip idx time len color_in)"

definition instr_meter_mmi_exec ::
  "u64 \<Rightarrow> meter_state \<Rightarrow> thread \<Rightarrow> instr_meter \<Rightarrow> (meter_state \<times> thread) option" where
  "instr_meter_mmi_exec time p t ip =
     (let idx = instr_meter_idx_hbo p t ip;
          len = instr_meter_length_hbo t ip;
          color_in = color_of_enum (im_color_in_val ip)
      in meter_exec p t ip idx time len color_in)"

definition instr_meter_ihm_exec ::
  "u64 \<Rightarrow> meter_state \<Rightarrow> thread \<Rightarrow> instr_meter \<Rightarrow> (meter_state \<times> thread) option" where
  "instr_meter_ihm_exec time p t ip =
     (let idx = instr_meter_idx_imm p ip;
          len = instr_meter_length_nbo t ip;
          color_in = instr_meter_color_in_hbo t ip
      in meter_exec p t ip idx time len color_in)"

definition instr_meter_ihi_exec ::
  "u64 \<Rightarrow> meter_state \<Rightarrow> thread \<Rightarrow> instr_meter \<Rightarrow> (meter_state \<times> thread) option" where
  "instr_meter_ihi_exec time p t ip =
     (let idx = instr_meter_idx_imm p ip;
          len = instr_meter_length_nbo t ip;
          color_in = color_of_enum (im_color_in_val ip)
      in meter_exec p t ip idx time len color_in)"

definition instr_meter_imm_exec ::
  "u64 \<Rightarrow> meter_state \<Rightarrow> thread \<Rightarrow> instr_meter \<Rightarrow> (meter_state \<times> thread) option" where
  "instr_meter_imm_exec time p t ip =
     (let idx = instr_meter_idx_imm p ip;
          len = instr_meter_length_hbo t ip;
          color_in = instr_meter_color_in_hbo t ip
      in meter_exec p t ip idx time len color_in)"

definition instr_meter_imi_exec ::
  "u64 \<Rightarrow> meter_state \<Rightarrow> thread \<Rightarrow> instr_meter \<Rightarrow> (meter_state \<times> thread) option" where
  "instr_meter_imi_exec time p t ip =
     (let idx = instr_meter_idx_imm p ip;
          len = instr_meter_length_hbo t ip;
          color_in = color_of_enum (im_color_in_val ip)
      in meter_exec p t ip idx time len color_in)"

definition meter_all :: "(u64 \<Rightarrow> meter_state \<Rightarrow> thread \<Rightarrow> instr_meter \<Rightarrow> (meter_state \<times> thread) option) list" where
  "meter_all = [instr_meter_hhm_exec, instr_meter_hhi_exec, instr_meter_hmm_exec, instr_meter_hmi_exec, instr_meter_mhm_exec, instr_meter_mhi_exec, instr_meter_mmm_exec, instr_meter_mmi_exec, instr_meter_ihm_exec, instr_meter_ihi_exec, instr_meter_imm_exec, instr_meter_imi_exec]"

lemmas meter_exec_defs = instr_meter_hhm_exec_def instr_meter_hhi_exec_def instr_meter_hmm_exec_def instr_meter_hmi_exec_def instr_meter_mhm_exec_def instr_meter_mhi_exec_def instr_meter_mmm_exec_def instr_meter_mmi_exec_def instr_meter_ihm_exec_def instr_meter_ihi_exec_def instr_meter_imm_exec_def instr_meter_imi_exec_def

section \<open>Reference counts\<close>

text \<open>The meters that point to a profile.\<close>

definition n_refs :: "meter_state \<Rightarrow> string option \<Rightarrow> nat" where
  "n_refs st ptr = sum_list (map (\<lambda>r. count_list (map mt_profile (metarray r)) ptr) (ms_rt st))"

definition n_meters :: "meter_state \<Rightarrow> nat" where
  "n_meters st = sum_list (map (\<lambda>r. length (metarray r)) (ms_rt st))"

text \<open>
  The invariant of the control plane: the runtime arrays have the configured sizes, profile names
  are unique, every meter points to a profile that exists, and a profile's count is the number
  of its meters.
\<close>

definition meters_inv :: "meter_state \<Rightarrow> bool" where
  "meters_inv st \<longleftrightarrow>
     length (ms_rt st) = length (ms_cfg st) \<and>
     (\<forall>a < length (ms_cfg st). length (metarray (ms_rt st ! a)) = unat (mc_size (ms_cfg st ! a)) \<and>
        ma_size_mask (ms_rt st ! a) = mc_size (ms_cfg st ! a) - 1 \<and> mc_size (ms_cfg st ! a) \<noteq> 0) \<and>
     distinct (map mp_name (ms_profiles st)) \<and>
     (\<forall>r \<in> set (ms_rt st). \<forall>m \<in> set (metarray r). \<forall>n. mt_profile m = Some n \<longrightarrow> n \<in> mp_name ` set (ms_profiles st)) \<and>
     (\<forall>p \<in> set (ms_profiles st). unat (mp_n_users p) = n_refs st (Some (mp_name p))) \<and>
     n_meters st < 2 ^ 32"

lemma sum_list_update_nat:
  "i < length xs \<Longrightarrow> sum_list (xs[i := (y :: nat)]) + xs ! i = sum_list xs + y"
  by (induction xs arbitrary: i) (auto split: nat.splits)

lemma count_list_update:
  "i < length xs \<Longrightarrow>
   count_list (xs[i := y]) x + (if xs ! i = x then 1 else 0) = count_list xs x + (if y = x then 1 else 0)"
proof (induction xs arbitrary: i)
  case (Cons z xs)
  show ?case
  proof (cases i)
    case (Suc j)
    then show ?thesis using Cons.IH [of j] Cons.prems by (auto split: if_splits)
  qed auto
qed simp

lemma n_refs_set_meter:
  assumes "a < length (ms_rt st)" and "i < length (metarray (ms_rt st ! a))"
  shows "n_refs (set_meter st a i m) x + (if mt_profile (metarray (ms_rt st ! a) ! i) = x then 1 else 0) =
         n_refs st x + (if mt_profile m = x then 1 else 0)"
proof -
  let ?f = "\<lambda>r. count_list (map mt_profile (metarray r)) x"
  let ?r = "(ms_rt st ! a)\<lparr>metarray := (metarray (ms_rt st ! a))[i := m]\<rparr>"
  have "n_refs (set_meter st a i m) x + ?f (ms_rt st ! a) = n_refs st x + ?f ?r"
    using sum_list_update_nat [of a "map ?f (ms_rt st)" "?f ?r"] assms(1)
    by (simp add: n_refs_def set_meter_def map_update)
  moreover have "?f ?r + (if mt_profile (metarray (ms_rt st ! a) ! i) = x then 1 else 0) =
      ?f (ms_rt st ! a) + (if mt_profile m = x then 1 else 0)"
    using count_list_update [of i "map mt_profile (metarray (ms_rt st ! a))" "mt_profile m" x] assms(2)
    by (simp add: map_update)
  ultimately show ?thesis by linarith
qed

lemma n_refs_users_add [simp]: "n_refs (users_add p d st) x = n_refs st x"
  by (simp add: n_refs_def users_add_def split: option.split)

lemma users_add_sel [simp]:
  "ms_rt (users_add p d st) = ms_rt st" "ms_cfg (users_add p d st) = ms_cfg st"
  "n_meters (users_add p d st) = n_meters st"
  by (simp_all add: users_add_def n_meters_def split: option.split)

lemma count_le_length: "count_list xs x \<le> length xs"
  by (induction xs) auto

lemma n_refs_le: "n_refs st x \<le> n_meters st"
  unfolding n_refs_def n_meters_def
  by (rule sum_list_mono) (metis count_le_length length_map)

lemma names_users_add [simp]: "map mp_name (ms_profiles (users_add p d st)) = map mp_name (ms_profiles st)"
  by (simp add: users_add_def comp_def if_distrib split: option.split cong: if_cong)

lemma set_meter_sel [simp]:
  "ms_profiles (set_meter st a i m) = ms_profiles st" "ms_cfg (set_meter st a i m) = ms_cfg st"
  by (simp_all add: set_meter_def)

lemma n_meters_set_meter [simp]: "n_meters (set_meter st a i m) = n_meters st"
proof (cases "a < length (ms_rt st)")
  case True
  let ?r = "(ms_rt st ! a)\<lparr>metarray := (metarray (ms_rt st ! a))[i := m]\<rparr>"
  show ?thesis
    using sum_list_update_nat [of a "map (\<lambda>r. length (metarray r)) (ms_rt st)" "length (metarray ?r)"] True
    by (simp add: n_meters_def set_meter_def map_update)
qed (simp add: n_meters_def set_meter_def list_update_beyond not_less)

lemma find_profile_SomeD:
  "meter_profile_find ps n = Some p \<Longrightarrow> p \<in> set ps \<and> mp_name p = n"
  by (induction ps) (auto split: if_splits)

lemma find_profile_None: "meter_profile_find ps n = None \<longleftrightarrow> n \<notin> mp_name ` set ps"
  by (induction ps) auto

lemma metarray_find_SomeD:
  "metarray_find ms n = Some (a, c) \<Longrightarrow> a < length ms \<and> ms ! a = c"
  by (induction ms arbitrary: a) (auto split: if_splits)

text \<open>Replacing the profile pointer of one meter and moving one user from the old to the new profile.\<close>

lemma meters_inv_move:
  assumes "meters_inv st" and "a < length (ms_cfg st)" and "i < unat (mc_size (ms_cfg st ! a))"
    and "\<And>n. mt_profile m = Some n \<Longrightarrow> n \<in> mp_name ` set (ms_profiles st)"
  defines "old \<equiv> mt_profile (metarray (ms_rt st ! a) ! i)"
  shows "meters_inv (users_add old (- 1) (users_add (mt_profile m) 1 (set_meter st a i m)))"
proof -
  let ?s = "set_meter st a i m" and ?s' = "users_add old (- 1) (users_add (mt_profile m) 1 (set_meter st a i m))"
  have len: "a < length (ms_rt st)" "i < length (metarray (ms_rt st ! a))"
    using assms(1-3) by (simp_all add: meters_inv_def)
  have rt: "ms_rt ?s = (ms_rt st)[a := (ms_rt st ! a)\<lparr>metarray := (metarray (ms_rt st ! a))[i := m]\<rparr>]"
    by (simp add: set_meter_def)
  have shape: "length (ms_rt ?s') = length (ms_cfg ?s')"
    "\<forall>b < length (ms_cfg ?s'). length (metarray (ms_rt ?s' ! b)) = unat (mc_size (ms_cfg ?s' ! b)) \<and>
        ma_size_mask (ms_rt ?s' ! b) = mc_size (ms_cfg ?s' ! b) - 1 \<and> mc_size (ms_cfg ?s' ! b) \<noteq> 0"
    using assms(1) len by (auto simp: rt meters_inv_def nth_list_update)
  have names: "mp_name ` set (ms_profiles ?s') = mp_name ` set (ms_profiles st)"
    using names_users_add by (metis list.set_map set_meter_sel(1))
  have "\<forall>r \<in> set (ms_rt ?s'). \<forall>m' \<in> set (metarray r). \<forall>n. mt_profile m' = Some n \<longrightarrow> n \<in> mp_name ` set (ms_profiles st)"
  proof (intro ballI allI impI)
    fix r m' n assume r: "r \<in> set (ms_rt ?s')" "m' \<in> set (metarray r)" "mt_profile m' = Some n"
    from r(1) have "r \<in> set (ms_rt st) \<or> r = (ms_rt st ! a)\<lparr>metarray := (metarray (ms_rt st ! a))[i := m]\<rparr>"
      by (auto simp: rt dest!: subsetD [OF set_update_subset_insert])
    then have "m' = m \<or> (\<exists>q \<in> set (ms_rt st). m' \<in> set (metarray q))"
      using r(2) len(1) by (auto dest!: subsetD [OF set_update_subset_insert])
    then show "n \<in> mp_name ` set (ms_profiles st)"
      using r(3) assms(4) assms(1) by (auto simp: meters_inv_def)
  qed
  moreover have "unat (mp_n_users p) = n_refs ?s' (Some (mp_name p))" if p: "p \<in> set (ms_profiles ?s')" for p
  proof -
    let ?up = "\<lambda>ptr d p. if Some (mp_name p) = ptr then p\<lparr>mp_n_users := mp_n_users p + d\<rparr> else p"
    have up: "ms_profiles (users_add ptr d s) = map (?up ptr d) (ms_profiles s)" for ptr d s
      by (auto simp: users_add_def comp_def split: option.split intro!: map_cong [OF refl] map_idI [symmetric])
    from p obtain q where q: "q \<in> set (ms_profiles st)" "p = ?up old (- 1) (?up (mt_profile m) 1 q)"
      by (auto simp: up)
    have old_cnt: "unat (mp_n_users q) = n_refs st (Some (mp_name q))"
      using assms(1) q(1) by (auto simp: meters_inv_def)
    have mv: "n_refs ?s (Some (mp_name q)) + (if old = Some (mp_name q) then 1 else 0) =
        n_refs st (Some (mp_name q)) + (if mt_profile m = Some (mp_name q) then 1 else 0)"
      unfolding old_def by (rule n_refs_set_meter [OF len])
    have small: "n_refs ?s (Some (mp_name q)) < 2 ^ 32" "n_refs st (Some (mp_name q)) < 2 ^ 32"
      using n_refs_le [of ?s] n_refs_le [of st] assms(1) by (auto simp: meters_inv_def intro: le_less_trans)
    have w: "mp_n_users q = of_nat (n_refs st (Some (mp_name q)))"
      by (simp flip: old_cnt)
    have "mp_n_users p = of_nat (n_refs ?s (Some (mp_name q)))"
    proof (cases "old = Some (mp_name q)"; cases "mt_profile m = Some (mp_name q)")
      assume c: "old = Some (mp_name q)" "mt_profile m \<noteq> Some (mp_name q)"
      then have "n_refs st (Some (mp_name q)) = n_refs ?s (Some (mp_name q)) + 1" using mv by simp
      then show ?thesis using c q(2) w by auto
    qed (use mv q(2) w in auto)
    moreover have "mp_name p = mp_name q" using q(2) by simp
    ultimately show ?thesis using small(1) by (simp add: unat_of_nat take_bit_nat_eq_self)
  qed
  ultimately show ?thesis
    using assms(1) shape names unfolding meters_inv_def by simp
qed

lemma n_refs_init: "n_refs (metarray_build now st) (Some n) = 0"
proof -
  have "count_list (map mt_profile (replicate k (meter_init now))) (Some n) = 0" for k
    by (induction k) (simp_all add: meter_init_def)
  then show ?thesis by (simp add: n_refs_def metarray_build_def comp_def)
qed

lemma meters_inv_build:
  assumes "\<forall>c \<in> set (ms_cfg st). mc_size c \<noteq> 0" and "distinct (map mp_name (ms_profiles st))"
    and "\<forall>p \<in> set (ms_profiles st). mp_n_users p = 0"
    and "sum_list (map (\<lambda>c. unat (mc_size c)) (ms_cfg st)) < 2 ^ 32"
  shows "meters_inv (metarray_build now st)"
proof -
  have "n_meters (metarray_build now st) < 2 ^ 32"
    using assms(4) by (simp add: n_meters_def metarray_build_def comp_def)
  then show ?thesis
    using assms(1-3) unfolding meters_inv_def n_refs_init
    by (auto simp: metarray_build_def meter_init_def)
qed

lemma meters_inv_add:
  assumes "meters_inv st" and "ctl_meter_profile_add tb st name params = Inr st'"
  shows "meters_inv st'"
proof -
  from assms(2) obtain prof where new: "name \<notin> mp_name ` set (ms_profiles st)"
    and st': "st' = st\<lparr>ms_profiles := ms_profiles st @
      [\<lparr>mp_name = name, mp_params = params, mp_profile = prof, mp_n_users = 0\<rparr>]\<rparr>"
    by (auto simp: ctl_meter_profile_add_def find_profile_None split: if_splits option.splits)
  have "n_refs st (Some name) = 0"
  proof -
    have "count_list (map mt_profile (metarray r)) (Some name) = 0" if "r \<in> set (ms_rt st)" for r
      using assms(1) new that by (auto simp: meters_inv_def count_list_0_iff)
    then show ?thesis by (simp add: n_refs_def)
  qed
  moreover have "n_refs st' x = n_refs st x" "n_meters st' = n_meters st" for x
    by (simp_all add: n_refs_def n_meters_def st')
  ultimately show ?thesis using assms(1) new unfolding meters_inv_def by (auto simp: st')
qed

lemma meters_inv_delete:
  assumes "meters_inv st" and "ctl_meter_profile_delete st name = Inr st'"
  shows "meters_inv st'"
proof -
  from assms(2) obtain mp where mp: "meter_profile_find (ms_profiles st) name = Some mp" "mp_n_users mp = 0"
    and st': "st' = st\<lparr>ms_profiles := filter (\<lambda>p. mp_name p \<noteq> name) (ms_profiles st)\<rparr>"
    by (auto simp: ctl_meter_profile_delete_def split: if_splits option.splits)
  have "n_refs st (Some name) = 0"
    using assms(1) mp find_profile_SomeD [OF mp(1)] by (auto simp: meters_inv_def)
  then have none: "Some name \<notin> mt_profile ` set (metarray r)" if "r \<in> set (ms_rt st)" for r
    using that by (auto simp: n_refs_def count_list_0_iff)
  have same: "n_refs st' x = n_refs st x" "n_meters st' = n_meters st" for x
    by (simp_all add: n_refs_def n_meters_def st')
  have "n \<in> mp_name ` set (ms_profiles st')"
    if "r \<in> set (ms_rt st)" "m \<in> set (metarray r)" "mt_profile m = Some n" for r m n
  proof -
    have "n \<noteq> name" using none [OF that(1)] that(2,3) by (metis imageI)
    moreover have "n \<in> mp_name ` set (ms_profiles st)" using assms(1) that unfolding meters_inv_def by blast
    ultimately show ?thesis by (auto simp: st')
  qed
  moreover have "distinct (map mp_name (ms_profiles st'))"
    using assms(1) by (simp add: st' meters_inv_def distinct_map_filter)
  ultimately show ?thesis using assms(1) same unfolding meters_inv_def by (simp add: st')
qed

lemma meters_inv_set:
  assumes "meters_inv st" and "ctl_meter_set now st name i profile = Inr st'"
  shows "meters_inv st'"
proof -
  from assms(2) obtain a cfg mp where f: "metarray_find (ms_cfg st) name = Some (a, cfg)" "i < mc_size cfg"
      "meter_profile_find (ms_profiles st) profile = Some mp"
    and st': "st' = users_add (mt_profile (metarray (ms_rt st ! a) ! unat i)) (- 1)
      (users_add (Some (mp_name mp)) 1 (set_meter st a (unat i)
        \<lparr>mt_m = rte_meter_trtcm_config now (mp_profile mp), mt_profile = Some (mp_name mp),
         mt_color_mask = 3, mt_n_pkts = (\<lambda>_. 0), mt_n_bytes = (\<lambda>_. 0)\<rparr>))"
    by (auto simp: ctl_meter_set_def Let_def split: if_splits option.splits)
  note a = metarray_find_SomeD [OF f(1)]
  show ?thesis
    unfolding st'
    by (rule meters_inv_move [OF assms(1), of a "unat i" "\<lparr>mt_m = rte_meter_trtcm_config now (mp_profile mp),
        mt_profile = Some (mp_name mp), mt_color_mask = 3, mt_n_pkts = (\<lambda>_. 0), mt_n_bytes = (\<lambda>_. 0)\<rparr>", simplified])
      (use a f(2) find_profile_SomeD [OF f(3)] in \<open>auto simp: word_less_nat_alt\<close>)
qed

lemma meters_inv_reset:
  assumes "meters_inv st" and "ctl_meter_reset now st name i = Inr st'"
  shows "meters_inv st'"
proof -
  from assms(2) obtain a cfg where f: "metarray_find (ms_cfg st) name = Some (a, cfg)" "i < mc_size cfg"
    and st': "st' = users_add (mt_profile (metarray (ms_rt st ! a) ! unat i)) (- 1)
      (users_add None 1 (set_meter st a (unat i) (meter_init now)))"
    by (auto simp: ctl_meter_reset_def Let_def split: if_splits option.splits)
  note a = metarray_find_SomeD [OF f(1)]
  have p: "mt_profile (meter_init now) = None" by (simp add: meter_init_def)
  show ?thesis
    unfolding st' using meters_inv_move [OF assms(1), of a "unat i" "meter_init now"] a f(2)
    by (simp add: p word_less_nat_alt)
qed

lemmas meters_inv_ctl [inv_intros] = meters_inv_add meters_inv_delete meters_inv_set meters_inv_reset

text \<open>Under the invariant every pointer leads to a profile.\<close>

lemma profile_of_defined:
  assumes "meters_inv st" and "r \<in> set (ms_rt st)" and "m \<in> set (metarray r)"
  shows "profile_of st m \<noteq> None"
proof (cases "mt_profile m")
  case (Some n)
  with assms have "n \<in> mp_name ` set (ms_profiles st)" unfolding meters_inv_def by blast
  then have "meter_profile_find (ms_profiles st) n \<noteq> None" using find_profile_None by blast
  then show ?thesis by (auto simp: profile_of_def Some)
qed (simp add: profile_of_def)

section \<open>Running a meter\<close>

lemma meter_idx_bounds:
  "unat (instr_meter_idx_hbo p t ip) \<le> unat (ma_size_mask (ms_rt p ! im_metarray_id ip))"
  "unat (instr_meter_idx_nbo p t ip) \<le> unat (ma_size_mask (ms_rt p ! im_metarray_id ip))"
  "unat (instr_meter_idx_imm p ip) \<le> unat (ma_size_mask (ms_rt p ! im_metarray_id ip))"
proof -
  show "unat (instr_meter_idx_hbo p t ip) \<le> unat (ma_size_mask (ms_rt p ! im_metarray_id ip))"
    unfolding instr_meter_idx_hbo_def Let_def and.assoc [symmetric] by (rule masked_less)
  show "unat (instr_meter_idx_nbo p t ip) \<le> unat (ma_size_mask (ms_rt p ! im_metarray_id ip))"
    unfolding instr_meter_idx_nbo_def Let_def by (rule masked_less)
  have "unat (a AND b) \<le> unat b" for a b :: u32
    by (metis and.commute word_and_le1 word_le_nat_alt)
  then show "unat (instr_meter_idx_imm p ip) \<le> unat (ma_size_mask (ms_rt p ! im_metarray_id ip))"
    by (simp add: instr_meter_idx_imm_def unat_ucast_u32)
qed

lemma meter_at:
  assumes "meters_inv p" and "a < length (ms_rt p)" and "i \<le> unat (ma_size_mask (ms_rt p ! a))"
  shows "i < length (metarray (ms_rt p ! a))" and "profile_of p (metarray (ms_rt p ! a) ! i) \<noteq> None"
proof -
  have "length (metarray (ms_rt p ! a)) = unat (mc_size (ms_cfg p ! a))"
    "ma_size_mask (ms_rt p ! a) = mc_size (ms_cfg p ! a) - 1" "mc_size (ms_cfg p ! a) \<noteq> 0"
    using assms(1,2) by (simp_all add: meters_inv_def)
  then show i: "i < length (metarray (ms_rt p ! a))"
    using assms(3) unat_pred_Suc [of "mc_size (ms_cfg p ! a)"] by simp
  show "profile_of p (metarray (ms_rt p ! a) ! i) \<noteq> None"
    using profile_of_defined [OF assms(1) nth_mem [OF assms(2)] nth_mem [OF i]] .
qed

lemma meter_exec_runs:
  assumes "meters_inv p" and "im_metarray_id ip < length (ms_rt p)"
    and "unat idx \<le> unat (ma_size_mask (ms_rt p ! im_metarray_id ip))"
  shows "\<exists>r. meter_exec p t ip idx time len c = Some r"
  using meter_at [OF assms] assms(2)
  by (auto simp: meter_exec_def Let_def split: prod.splits)

lemma meter_exec_inv:
  assumes "meters_inv p" and "meter_exec p t ip idx time len c = Some (p', t')"
  shows "meters_inv p'"
proof -
  from assms(2) obtain m where a: "im_metarray_id ip < length (ms_rt p)"
      "unat idx < length (metarray (ms_rt p ! im_metarray_id ip))"
    and p': "p' = set_meter p (im_metarray_id ip) (unat idx) m"
    and m: "mt_profile m = mt_profile (metarray (ms_rt p ! im_metarray_id ip) ! unat idx)"
    by (auto simp: meter_exec_def aget_def Let_def split: if_splits option.splits prod.splits)
  have c: "im_metarray_id ip < length (ms_cfg p)"
    "unat idx < unat (mc_size (ms_cfg p ! im_metarray_id ip))"
    using assms(1) a by (auto simp: meters_inv_def)
  have old: "mt_profile m = Some n \<Longrightarrow> n \<in> mp_name ` set (ms_profiles p)" for n
    using assms(1) nth_mem [OF a(1)] nth_mem [OF a(2)] m unfolding meters_inv_def by metis
  have "meters_inv (users_add (mt_profile (metarray (ms_rt p ! im_metarray_id ip) ! unat idx)) (- 1)
      (users_add (mt_profile m) 1 (set_meter p (im_metarray_id ip) (unat idx) m)))"
    by (rule meters_inv_move [OF assms(1) c old])
  then have "meters_inv (users_add (mt_profile m) (- 1) (users_add (mt_profile m) 1 p'))"
    by (simp only: p' m)
  moreover have "users_add q (- 1) (users_add q 1 s) = s" for q s
  proof (cases q)
    case (Some n)
    have "map (\<lambda>p. if mp_name p = n then p\<lparr>mp_n_users := mp_n_users p + - 1\<rparr> else p)
        (map (\<lambda>p. if mp_name p = n then p\<lparr>mp_n_users := mp_n_users p + 1\<rparr> else p) ps) = ps" for ps
      by (induction ps) auto
    from this [of "ms_profiles s"] show ?thesis
      by (simp only: Some users_add_def option.case) (simp del: map_map)
  qed (simp add: users_add_def)
  ultimately show ?thesis by simp
qed

section \<open>Properties\<close>

text \<open>
  C37: reference counts of meter profiles. Building the meter arrays and every successful control
  plane operation (adding and deleting a profile, setting and resetting a meter) keeps the
  invariant that a profile's user count is the number of meters that point to it and that every
  meter points to an existing profile; so does every meter instruction.
\<close>

theorem meter_profile_refcounts:
  assumes "meters_inv st"
  shows "(ctl_meter_profile_add tb st name params = Inr st' \<longrightarrow> meters_inv st') \<and>
    (ctl_meter_profile_delete st name = Inr st' \<longrightarrow> meters_inv st') \<and>
    (ctl_meter_set now st name i profile = Inr st' \<longrightarrow> meters_inv st') \<and>
    (ctl_meter_reset now st name i = Inr st' \<longrightarrow> meters_inv st') \<and>
    (\<forall>f \<in> set meter_all. f time st t ip = Some (st', t') \<longrightarrow> meters_inv st')"
proof -
  have "list_all (\<lambda>f. f time st t ip = Some (st', t') \<longrightarrow> meters_inv st') meter_all"
    unfolding meter_all_def list.pred_inject meter_exec_defs Let_def
    by (intro conjI impI list.pred_inject(1); erule meter_exec_inv [OF assms])
  then have "\<forall>f \<in> set meter_all. f time st t ip = Some (st', t') \<longrightarrow> meters_inv st'"
    by (simp only: list_all_iff)
  then show ?thesis
    by (intro conjI impI) (erule meters_inv_ctl [OF assms] | assumption)+
qed

text \<open>
  A profile in use cannot be deleted: with the invariant, deleting a profile that some meter
  points to fails with \<open>EBUSY\<close>, so no meter is left with a dangling profile.
\<close>

theorem meter_profile_delete_busy:
  assumes "meters_inv st" and "check_name name" and "r \<in> set (ms_rt st)" and "m \<in> set (metarray r)"
    and "mt_profile m = Some name"
  shows "ctl_meter_profile_delete st name = Inl M_EBUSY"
proof -
  have "name \<in> mp_name ` set (ms_profiles st)" using assms unfolding meters_inv_def by blast
  then obtain mp where mp: "meter_profile_find (ms_profiles st) name = Some mp"
    using find_profile_None [of "ms_profiles st" name] by (cases "meter_profile_find (ms_profiles st) name") auto
  have "Some name \<in> set (map mt_profile (metarray r))"
    using assms(4,5) by (metis image_eqI list.set_map)
  then have "0 < count_list (map mt_profile (metarray r)) (Some name)"
    by (metis count_list_0_iff gr0I)
  then have "0 < n_refs st (Some name)"
    unfolding n_refs_def by (rule order_less_le_trans) (rule member_le_sum_list, use assms(3) in auto)
  then have "mp_n_users mp \<noteq> 0"
    using assms(1) find_profile_SomeD [OF mp] by (auto simp: meters_inv_def unat_eq_0)
  then show ?thesis using assms(2) mp by (simp add: ctl_meter_profile_delete_def)
qed

text \<open>
  Metering is total and counts every packet. With the invariant, each of the twelve meter
  instructions runs for every index that its operand can take, and adds one packet and the
  packet's length to the statistics of exactly one colour of the addressed meter.
\<close>

theorem meter_runs_and_counts:
  assumes "meters_inv p" and "im_metarray_id ip < length (ms_rt p)" and "f \<in> set meter_all"
  shows "\<exists>p' t' i c len. f time p t ip = Some (p', t') \<and>
    i < length (metarray (ms_rt p ! im_metarray_id ip)) \<and>
    mt_n_pkts (metarray (ms_rt p' ! im_metarray_id ip) ! i) =
      (mt_n_pkts (metarray (ms_rt p ! im_metarray_id ip) ! i))(c := mt_n_pkts (metarray (ms_rt p ! im_metarray_id ip) ! i) c + 1) \<and>
    mt_n_bytes (metarray (ms_rt p' ! im_metarray_id ip) ! i) =
      (mt_n_bytes (metarray (ms_rt p ! im_metarray_id ip) ! i))(c := mt_n_bytes (metarray (ms_rt p ! im_metarray_id ip) ! i) c + ucast (len :: u32))"
proof -
  have run: "\<exists>p' t' i c len'. meter_exec p t ip idx time len col = Some (p', t') \<and>
      i < length (metarray (ms_rt p ! im_metarray_id ip)) \<and>
      mt_n_pkts (metarray (ms_rt p' ! im_metarray_id ip) ! i) =
        (mt_n_pkts (metarray (ms_rt p ! im_metarray_id ip) ! i))(c := mt_n_pkts (metarray (ms_rt p ! im_metarray_id ip) ! i) c + 1) \<and>
      mt_n_bytes (metarray (ms_rt p' ! im_metarray_id ip) ! i) =
        (mt_n_bytes (metarray (ms_rt p ! im_metarray_id ip) ! i))(c := mt_n_bytes (metarray (ms_rt p ! im_metarray_id ip) ! i) c + ucast (len' :: u32))"
    if "unat idx \<le> unat (ma_size_mask (ms_rt p ! im_metarray_id ip))" for idx len col
  proof -
    note at = meter_at [OF assms(1,2) that]
    let ?m = "metarray (ms_rt p ! im_metarray_id ip) ! unat idx"
    obtain prof where prof: "profile_of p ?m = Some prof" using at(2) by blast
    obtain cl tr where chk: "rte_meter_trtcm_color_aware_check (mt_m ?m) prof time len col = (cl, tr)"
      by (cases "rte_meter_trtcm_color_aware_check (mt_m ?m) prof time len col")
    show ?thesis
      using at(1) assms(2) prof chk
      by (intro exI [of _ "fst (the (meter_exec p t ip idx time len col))"] exI [of _ "snd (the (meter_exec p t ip idx time len col))"]
          exI [of _ "unat idx"] exI [of _ "unat (of_nat (color_code cl) AND mt_color_mask ?m)"] exI [of _ len])
        (simp add: meter_exec_def Let_def set_meter_def)
  qed
  have "list_all (\<lambda>f. \<exists>p' t' i c len. f time p t ip = Some (p', t') \<and>
      i < length (metarray (ms_rt p ! im_metarray_id ip)) \<and>
      mt_n_pkts (metarray (ms_rt p' ! im_metarray_id ip) ! i) =
        (mt_n_pkts (metarray (ms_rt p ! im_metarray_id ip) ! i))(c := mt_n_pkts (metarray (ms_rt p ! im_metarray_id ip) ! i) c + 1) \<and>
      mt_n_bytes (metarray (ms_rt p' ! im_metarray_id ip) ! i) =
        (mt_n_bytes (metarray (ms_rt p ! im_metarray_id ip) ! i))(c := mt_n_bytes (metarray (ms_rt p ! im_metarray_id ip) ! i) c + ucast (len :: u32))) meter_all"
    unfolding meter_all_def list.pred_inject meter_exec_defs Let_def
    by (intro conjI run meter_idx_bounds list.pred_inject(1))
  with assms(3) show ?thesis by (simp only: list_all_iff)
qed

text \<open>
  A meter without a profile of its own lets everything through: after \<open>meter_init\<close> its colour
  mask turns every decision, also on a packet that came in red, into green.
\<close>

theorem default_meter_is_green:
  assumes "im_metarray_id ip < length (ms_rt p)" and "unat idx < length (metarray (ms_rt p ! im_metarray_id ip))"
    and "metarray (ms_rt p ! im_metarray_id ip) ! unat idx = meter_init now"
    and "op_n_bits (im_color_out ip) \<le> 64"
  shows "\<exists>p' t'. meter_exec p t ip idx time len c = Some (p', t') \<and> instr_operand_hbo t' (im_color_out ip) = 0"
proof -
  have out: "instr_operand_hbo (instr_meter_color_out_hbo_set t ip 0) (im_color_out ip) = 0"
    using fld_hbo_put [OF assms(4), of 0 "t_mem t" "op_addr t (im_color_out ip)"]
    by (simp add: instr_meter_color_out_hbo_set_def instr_operand_hbo_fld fld_put_def Let_def op_addr_def)
  then show ?thesis
    using assms(1,2)
    by (simp add: meter_exec_def Let_def assms(3) profile_of_def meter_init_def split: prod.split)
qed

section \<open>A concrete meter array\<close>

definition ex_meters :: meter_state where
  "ex_meters = metarray_build 0
     \<lparr>ms_profiles = [\<lparr>mp_name = ''gold'', mp_params = \<lparr>trp_cir = 1, trp_pir = 2, trp_cbs = 1000, trp_pbs = 2000\<rparr>,
                       mp_profile = ex_tr_profile, mp_n_users = 0\<rparr>],
      ms_default_users = 0, ms_cfg = [\<lparr>mc_name = ''m'', mc_size = 1\<rparr>], ms_rt = []\<rparr>"

definition ex_meter_ip :: instr_meter where
  "ex_meter_ip = \<lparr>im_metarray_id = 0, im_idx = \<lparr>op_struct_id = 0, op_n_bits = 16, op_offset = 1\<rparr>, im_idx_val = 0,
     im_length = \<lparr>op_struct_id = 1, op_n_bits = 16, op_offset = 0\<rparr>,
     im_color_in = \<lparr>op_struct_id = 1, op_n_bits = 8, op_offset = 2\<rparr>, im_color_in_val = 2,
     im_color_out = \<lparr>op_struct_id = 1, op_n_bits = 32, op_offset = 4\<rparr>\<rparr>"

lemma ex_meters_inv: "meters_inv ex_meters"
  unfolding ex_meters_def by (rule meters_inv_build) simp_all

lemma ex_meters_rt: "ms_rt ex_meters = [\<lparr>metarray = [meter_init 0], ma_size_mask = 0\<rparr>]"
  by (simp add: ex_meters_def metarray_build_def)

lemma meter_profile_refcounts_witness:
  "\<exists>st'. ctl_meter_set 5 ex_meters ''m'' 0 ''gold'' = Inr st' \<and> meters_inv st'"
proof -
  obtain st' where st': "ctl_meter_set 5 ex_meters ''m'' 0 ''gold'' = Inr st'"
    by (simp add: ctl_meter_set_def check_name_def RTE_SWX_NAME_SIZE_def ex_meters_def metarray_build_def Let_def)
  then show ?thesis
    using meter_profile_refcounts [OF ex_meters_inv, where st' = st' and now = 5 and name = "''m''" and i = 0 and profile = "''gold''"]
    by blast
qed

lemma meter_profile_delete_busy_witness:
  "\<exists>st'. ctl_meter_set 5 ex_meters ''m'' 0 ''gold'' = Inr st' \<and>
     ctl_meter_profile_delete st' ''gold'' = Inl M_EBUSY"
proof -
  obtain st' m where st': "ctl_meter_set 5 ex_meters ''m'' 0 ''gold'' = Inr st'"
    and rt: "ms_rt st' = [\<lparr>metarray = [m], ma_size_mask = 0\<rparr>]" "mt_profile m = Some ''gold''"
    by (simp add: ctl_meter_set_def check_name_def RTE_SWX_NAME_SIZE_def ex_meters_def metarray_build_def Let_def
        set_meter_def)
  from meter_profile_delete_busy [of st' "''gold''" "\<lparr>metarray = [m], ma_size_mask = 0\<rparr>" m]
    meters_inv_set [OF ex_meters_inv st'] st' rt
  show ?thesis by (simp add: check_name_def RTE_SWX_NAME_SIZE_def)
qed

lemma meter_runs_and_counts_witness:
  "\<exists>p' t'. instr_meter_hhm_exec 7 ex_meters ex_thread ex_meter_ip = Some (p', t')"
  using meter_runs_and_counts [OF ex_meters_inv, of ex_meter_ip instr_meter_hhm_exec 7 ex_thread]
  by (auto simp: meter_all_def ex_meters_rt ex_meter_ip_def)

lemma default_meter_is_green_witness:
  "\<exists>p' t'. meter_exec ex_meters ex_thread ex_meter_ip 0 9 100 RTE_COLOR_RED = Some (p', t') \<and>
     instr_operand_hbo t' \<lparr>op_struct_id = 1, op_n_bits = 32, op_offset = 4\<rparr> = 0"
  using default_meter_is_green [of ex_meter_ip ex_meters 0 0 ex_thread 9 100 RTE_COLOR_RED]
  by (simp add: ex_meters_rt ex_meter_ip_def)

end
