(* ===== verification/SwxInstr.thy ===== *)
theory SwxInstr
  imports SwxAlu SwxCksum SwxPacket SwxReg SwxMeter
begin

text \<open>
  The instructions of the pipeline (enum instruction_type and struct instruction of
  lib/pipeline/rte_swx_pipeline_internal.h) and what each type does to the thread that executes it.
  As in the C union, an instruction is a member of the union with its operands, and the types
  that use this member.
\<close>

section \<open>The instruction types\<close>

datatype io_type =
    INSTR_RX | INSTR_TX | INSTR_TX_I | INSTR_RECIRCID | INSTR_HDR_EXTRACT | INSTR_HDR_EXTRACT2
  | INSTR_HDR_EXTRACT3 | INSTR_HDR_EXTRACT4 | INSTR_HDR_EXTRACT5 | INSTR_HDR_EXTRACT6
  | INSTR_HDR_EXTRACT7 | INSTR_HDR_EXTRACT8 | INSTR_HDR_EXTRACT_M | INSTR_HDR_LOOKAHEAD
  | INSTR_HDR_EMIT | INSTR_HDR_EMIT_TX | INSTR_HDR_EMIT2_TX | INSTR_HDR_EMIT3_TX
  | INSTR_HDR_EMIT4_TX | INSTR_HDR_EMIT5_TX | INSTR_HDR_EMIT6_TX | INSTR_HDR_EMIT7_TX
  | INSTR_HDR_EMIT8_TX

datatype plain_type =
    INSTR_DROP | INSTR_RECIRCULATE | INSTR_RETURN

datatype valid_type =
    INSTR_HDR_VALIDATE | INSTR_HDR_INVALIDATE

datatype mov_type =
    INSTR_MOV | INSTR_MOV_MH | INSTR_MOV_HM | INSTR_MOV_HH | INSTR_MOV_I

datatype dma_type =
    INSTR_DMA_HT | INSTR_DMA_HT2 | INSTR_DMA_HT3 | INSTR_DMA_HT4 | INSTR_DMA_HT5 | INSTR_DMA_HT6
  | INSTR_DMA_HT7 | INSTR_DMA_HT8

datatype alu_type =
    INSTR_ALU_ADD | INSTR_ALU_ADD_MH | INSTR_ALU_ADD_HM | INSTR_ALU_ADD_HH | INSTR_ALU_ADD_MI
  | INSTR_ALU_ADD_HI | INSTR_ALU_SUB | INSTR_ALU_SUB_MH | INSTR_ALU_SUB_HM | INSTR_ALU_SUB_HH
  | INSTR_ALU_SUB_MI | INSTR_ALU_SUB_HI | INSTR_ALU_CKADD_FIELD | INSTR_ALU_CKADD_STRUCT20
  | INSTR_ALU_CKADD_STRUCT | INSTR_ALU_CKSUB_FIELD | INSTR_ALU_AND | INSTR_ALU_AND_MH
  | INSTR_ALU_AND_HM | INSTR_ALU_AND_HH | INSTR_ALU_AND_I | INSTR_ALU_OR | INSTR_ALU_OR_MH
  | INSTR_ALU_OR_HM | INSTR_ALU_OR_HH | INSTR_ALU_OR_I | INSTR_ALU_XOR | INSTR_ALU_XOR_MH
  | INSTR_ALU_XOR_HM | INSTR_ALU_XOR_HH | INSTR_ALU_XOR_I | INSTR_ALU_SHL | INSTR_ALU_SHL_MH
  | INSTR_ALU_SHL_HM | INSTR_ALU_SHL_HH | INSTR_ALU_SHL_MI | INSTR_ALU_SHL_HI | INSTR_ALU_SHR
  | INSTR_ALU_SHR_MH | INSTR_ALU_SHR_HM | INSTR_ALU_SHR_HH | INSTR_ALU_SHR_MI | INSTR_ALU_SHR_HI

datatype regarray_type =
    INSTR_REGPREFETCH_RH | INSTR_REGPREFETCH_RM | INSTR_REGPREFETCH_RI | INSTR_REGRD_HRH
  | INSTR_REGRD_HRM | INSTR_REGRD_HRI | INSTR_REGRD_MRH | INSTR_REGRD_MRM | INSTR_REGRD_MRI
  | INSTR_REGWR_RHH | INSTR_REGWR_RHM | INSTR_REGWR_RHI | INSTR_REGWR_RMH | INSTR_REGWR_RMM
  | INSTR_REGWR_RMI | INSTR_REGWR_RIH | INSTR_REGWR_RIM | INSTR_REGWR_RII | INSTR_REGADD_RHH
  | INSTR_REGADD_RHM | INSTR_REGADD_RHI | INSTR_REGADD_RMH | INSTR_REGADD_RMM | INSTR_REGADD_RMI
  | INSTR_REGADD_RIH | INSTR_REGADD_RIM | INSTR_REGADD_RII

datatype meter_type =
    INSTR_METPREFETCH_H | INSTR_METPREFETCH_M | INSTR_METPREFETCH_I | INSTR_METER_HHM
  | INSTR_METER_HHI | INSTR_METER_HMM | INSTR_METER_HMI | INSTR_METER_MHM | INSTR_METER_MHI
  | INSTR_METER_MMM | INSTR_METER_MMI | INSTR_METER_IHM | INSTR_METER_IHI | INSTR_METER_IMM
  | INSTR_METER_IMI

datatype jmp_type =
    INSTR_JMP | INSTR_JMP_VALID | INSTR_JMP_INVALID | INSTR_JMP_HIT | INSTR_JMP_MISS
  | INSTR_JMP_ACTION_HIT | INSTR_JMP_ACTION_MISS | INSTR_JMP_EQ | INSTR_JMP_EQ_MH | INSTR_JMP_EQ_HM
  | INSTR_JMP_EQ_HH | INSTR_JMP_EQ_I | INSTR_JMP_NEQ | INSTR_JMP_NEQ_MH | INSTR_JMP_NEQ_HM
  | INSTR_JMP_NEQ_HH | INSTR_JMP_NEQ_I | INSTR_JMP_LT | INSTR_JMP_LT_MH | INSTR_JMP_LT_HM
  | INSTR_JMP_LT_HH | INSTR_JMP_LT_MI | INSTR_JMP_LT_HI | INSTR_JMP_GT | INSTR_JMP_GT_MH
  | INSTR_JMP_GT_HM | INSTR_JMP_GT_HH | INSTR_JMP_GT_MI | INSTR_JMP_GT_HI

record instr_hash_func =
  hf_hash_func_id :: nat
  hf_dst_offset :: nat
  hf_dst_n_bits :: nat
  hf_src_struct_id :: nat
  hf_src_offset :: nat
  hf_src_n_bytes :: nat

datatype instruction =
    Io io_type instr_io
  | Plain plain_type
  | Mirror instr_operand instr_operand
  | Valid valid_type instr_hdr_validity
  | Mov mov_type instr_dst_src
  | Dma dma_type instr_dma
  | Alu alu_type instr_dst_src
  | Regarray regarray_type instr_regarray
  | Meter meter_type instr_meter
  | Table nat
  | HashFunc instr_hash_func
  | Jmp jmp_type instr_jmp

section \<open>What kind of instruction it is\<close>

definition instruction_is_tx :: "instruction \<Rightarrow> bool" where
  "instruction_is_tx i =
     (case i of Io ty _ \<Rightarrow> ty = INSTR_TX \<or> ty = INSTR_TX_I | Plain ty \<Rightarrow> ty = INSTR_DROP | _ \<Rightarrow> False)"

definition instruction_does_tx :: "instruction \<Rightarrow> bool" where
  "instruction_does_tx i =
     (case i of
        Io ty _ \<Rightarrow> ty \<in> {INSTR_TX, INSTR_TX_I, INSTR_HDR_EMIT_TX, INSTR_HDR_EMIT2_TX, INSTR_HDR_EMIT3_TX,
          INSTR_HDR_EMIT4_TX, INSTR_HDR_EMIT5_TX, INSTR_HDR_EMIT6_TX, INSTR_HDR_EMIT7_TX, INSTR_HDR_EMIT8_TX}
      | Plain ty \<Rightarrow> ty = INSTR_DROP
      | _ \<Rightarrow> False)"

definition instruction_is_jmp :: "instruction \<Rightarrow> bool" where
  "instruction_is_jmp i = (case i of Jmp _ _ \<Rightarrow> True | _ \<Rightarrow> False)"

definition instruction_does_thread_yield :: "instruction \<Rightarrow> bool" where
  "instruction_does_thread_yield i = (case i of Io ty _ \<Rightarrow> ty = INSTR_RX | Table _ \<Rightarrow> True | _ \<Rightarrow> False)"

text \<open>\<open>instr.type++\<close> on the types that the optimiser fuses.\<close>

fun io_type_inc :: "io_type \<Rightarrow> io_type" where
  "io_type_inc INSTR_HDR_EXTRACT = INSTR_HDR_EXTRACT2"
| "io_type_inc INSTR_HDR_EXTRACT2 = INSTR_HDR_EXTRACT3"
| "io_type_inc INSTR_HDR_EXTRACT3 = INSTR_HDR_EXTRACT4"
| "io_type_inc INSTR_HDR_EXTRACT4 = INSTR_HDR_EXTRACT5"
| "io_type_inc INSTR_HDR_EXTRACT5 = INSTR_HDR_EXTRACT6"
| "io_type_inc INSTR_HDR_EXTRACT6 = INSTR_HDR_EXTRACT7"
| "io_type_inc INSTR_HDR_EXTRACT7 = INSTR_HDR_EXTRACT8"
| "io_type_inc INSTR_HDR_EMIT = INSTR_HDR_EMIT_TX"
| "io_type_inc INSTR_HDR_EMIT_TX = INSTR_HDR_EMIT2_TX"
| "io_type_inc INSTR_HDR_EMIT2_TX = INSTR_HDR_EMIT3_TX"
| "io_type_inc INSTR_HDR_EMIT3_TX = INSTR_HDR_EMIT4_TX"
| "io_type_inc INSTR_HDR_EMIT4_TX = INSTR_HDR_EMIT5_TX"
| "io_type_inc INSTR_HDR_EMIT5_TX = INSTR_HDR_EMIT6_TX"
| "io_type_inc INSTR_HDR_EMIT6_TX = INSTR_HDR_EMIT7_TX"
| "io_type_inc INSTR_HDR_EMIT7_TX = INSTR_HDR_EMIT8_TX"
| "io_type_inc ty = ty"

primrec dma_type_inc :: "dma_type \<Rightarrow> dma_type" where
  "dma_type_inc INSTR_DMA_HT = INSTR_DMA_HT2"
| "dma_type_inc INSTR_DMA_HT2 = INSTR_DMA_HT3"
| "dma_type_inc INSTR_DMA_HT3 = INSTR_DMA_HT4"
| "dma_type_inc INSTR_DMA_HT4 = INSTR_DMA_HT5"
| "dma_type_inc INSTR_DMA_HT5 = INSTR_DMA_HT6"
| "dma_type_inc INSTR_DMA_HT6 = INSTR_DMA_HT7"
| "dma_type_inc INSTR_DMA_HT7 = INSTR_DMA_HT8"
| "dma_type_inc INSTR_DMA_HT8 = INSTR_DMA_HT8"

section \<open>The bodies\<close>

text \<open>The jumps.\<close>

definition instr_jmp_exec :: "thread \<Rightarrow> instr_jmp \<Rightarrow> thread" where
  "instr_jmp_exec t ip = thread_ip_set t (jmp_ip ip)"

definition instr_jmp_valid_exec :: "thread \<Rightarrow> instr_jmp \<Rightarrow> thread" where
  "instr_jmp_valid_exec t ip = t\<lparr>t_ip := if HEADER_VALID t (jmp_header_id ip) then jmp_ip ip else t_ip t + 1\<rparr>"

definition instr_jmp_invalid_exec :: "thread \<Rightarrow> instr_jmp \<Rightarrow> thread" where
  "instr_jmp_invalid_exec t ip = t\<lparr>t_ip := if HEADER_VALID t (jmp_header_id ip) then t_ip t + 1 else jmp_ip ip\<rparr>"

definition instr_jmp_hit_exec :: "thread \<Rightarrow> instr_jmp \<Rightarrow> thread" where
  "instr_jmp_hit_exec t ip = t\<lparr>t_ip := if t_hit t then jmp_ip ip else t_ip t + 1\<rparr>"

definition instr_jmp_miss_exec :: "thread \<Rightarrow> instr_jmp \<Rightarrow> thread" where
  "instr_jmp_miss_exec t ip = t\<lparr>t_ip := if t_hit t then t_ip t + 1 else jmp_ip ip\<rparr>"

definition instr_jmp_action_hit_exec :: "thread \<Rightarrow> instr_jmp \<Rightarrow> thread" where
  "instr_jmp_action_hit_exec t ip = t\<lparr>t_ip := if of_nat (jmp_action_id ip) = t_action_id t then jmp_ip ip else t_ip t + 1\<rparr>"

definition instr_jmp_action_miss_exec :: "thread \<Rightarrow> instr_jmp \<Rightarrow> thread" where
  "instr_jmp_action_miss_exec t ip = t\<lparr>t_ip := if of_nat (jmp_action_id ip) = t_action_id t then t_ip t + 1 else jmp_ip ip\<rparr>"

definition instr_jmp_eq_exec :: "thread \<Rightarrow> instr_jmp \<Rightarrow> thread" where
  "instr_jmp_eq_exec t ip = JMP_CMP t ip (=)"

definition instr_jmp_eq_mh_exec :: "thread \<Rightarrow> instr_jmp \<Rightarrow> thread" where
  "instr_jmp_eq_mh_exec t ip = JMP_CMP_MH t ip (=)"

definition instr_jmp_eq_hm_exec :: "thread \<Rightarrow> instr_jmp \<Rightarrow> thread" where
  "instr_jmp_eq_hm_exec t ip = JMP_CMP_HM t ip (=)"

definition instr_jmp_eq_hh_exec :: "thread \<Rightarrow> instr_jmp \<Rightarrow> thread" where
  "instr_jmp_eq_hh_exec t ip = JMP_CMP_HH_FAST t ip (=)"

definition instr_jmp_eq_i_exec :: "thread \<Rightarrow> instr_jmp \<Rightarrow> thread" where
  "instr_jmp_eq_i_exec t ip = JMP_CMP_I t ip (=)"

definition instr_jmp_neq_exec :: "thread \<Rightarrow> instr_jmp \<Rightarrow> thread" where
  "instr_jmp_neq_exec t ip = JMP_CMP t ip (\<noteq>)"

definition instr_jmp_neq_mh_exec :: "thread \<Rightarrow> instr_jmp \<Rightarrow> thread" where
  "instr_jmp_neq_mh_exec t ip = JMP_CMP_MH t ip (\<noteq>)"

definition instr_jmp_neq_hm_exec :: "thread \<Rightarrow> instr_jmp \<Rightarrow> thread" where
  "instr_jmp_neq_hm_exec t ip = JMP_CMP_HM t ip (\<noteq>)"

definition instr_jmp_neq_hh_exec :: "thread \<Rightarrow> instr_jmp \<Rightarrow> thread" where
  "instr_jmp_neq_hh_exec t ip = JMP_CMP_HH_FAST t ip (\<noteq>)"

definition instr_jmp_neq_i_exec :: "thread \<Rightarrow> instr_jmp \<Rightarrow> thread" where
  "instr_jmp_neq_i_exec t ip = JMP_CMP_I t ip (\<noteq>)"

definition instr_jmp_lt_exec :: "thread \<Rightarrow> instr_jmp \<Rightarrow> thread" where
  "instr_jmp_lt_exec t ip = JMP_CMP t ip (<)"

definition instr_jmp_lt_mh_exec :: "thread \<Rightarrow> instr_jmp \<Rightarrow> thread" where
  "instr_jmp_lt_mh_exec t ip = JMP_CMP_MH t ip (<)"

definition instr_jmp_lt_hm_exec :: "thread \<Rightarrow> instr_jmp \<Rightarrow> thread" where
  "instr_jmp_lt_hm_exec t ip = JMP_CMP_HM t ip (<)"

definition instr_jmp_lt_hh_exec :: "thread \<Rightarrow> instr_jmp \<Rightarrow> thread" where
  "instr_jmp_lt_hh_exec t ip = JMP_CMP_HH t ip (<)"

definition instr_jmp_lt_mi_exec :: "thread \<Rightarrow> instr_jmp \<Rightarrow> thread" where
  "instr_jmp_lt_mi_exec t ip = JMP_CMP_MI t ip (<)"

definition instr_jmp_lt_hi_exec :: "thread \<Rightarrow> instr_jmp \<Rightarrow> thread" where
  "instr_jmp_lt_hi_exec t ip = JMP_CMP_HI t ip (<)"

definition instr_jmp_gt_exec :: "thread \<Rightarrow> instr_jmp \<Rightarrow> thread" where
  "instr_jmp_gt_exec t ip = JMP_CMP t ip (>)"

definition instr_jmp_gt_mh_exec :: "thread \<Rightarrow> instr_jmp \<Rightarrow> thread" where
  "instr_jmp_gt_mh_exec t ip = JMP_CMP_MH t ip (>)"

definition instr_jmp_gt_hm_exec :: "thread \<Rightarrow> instr_jmp \<Rightarrow> thread" where
  "instr_jmp_gt_hm_exec t ip = JMP_CMP_HM t ip (>)"

definition instr_jmp_gt_hh_exec :: "thread \<Rightarrow> instr_jmp \<Rightarrow> thread" where
  "instr_jmp_gt_hh_exec t ip = JMP_CMP_HH t ip (>)"

definition instr_jmp_gt_mi_exec :: "thread \<Rightarrow> instr_jmp \<Rightarrow> thread" where
  "instr_jmp_gt_mi_exec t ip = JMP_CMP_MI t ip (>)"

definition instr_jmp_gt_hi_exec :: "thread \<Rightarrow> instr_jmp \<Rightarrow> thread" where
  "instr_jmp_gt_hi_exec t ip = JMP_CMP_HI t ip (>)"

text \<open>The dispatch (\<open>instruction_table\<close>) within every member of the union.\<close>

primrec jmp_exec :: "jmp_type \<Rightarrow> thread \<Rightarrow> instr_jmp \<Rightarrow> thread" where
  "jmp_exec INSTR_JMP = instr_jmp_exec"
| "jmp_exec INSTR_JMP_VALID = instr_jmp_valid_exec"
| "jmp_exec INSTR_JMP_INVALID = instr_jmp_invalid_exec"
| "jmp_exec INSTR_JMP_HIT = instr_jmp_hit_exec"
| "jmp_exec INSTR_JMP_MISS = instr_jmp_miss_exec"
| "jmp_exec INSTR_JMP_ACTION_HIT = instr_jmp_action_hit_exec"
| "jmp_exec INSTR_JMP_ACTION_MISS = instr_jmp_action_miss_exec"
| "jmp_exec INSTR_JMP_EQ = instr_jmp_eq_exec"
| "jmp_exec INSTR_JMP_EQ_MH = instr_jmp_eq_mh_exec"
| "jmp_exec INSTR_JMP_EQ_HM = instr_jmp_eq_hm_exec"
| "jmp_exec INSTR_JMP_EQ_HH = instr_jmp_eq_hh_exec"
| "jmp_exec INSTR_JMP_EQ_I = instr_jmp_eq_i_exec"
| "jmp_exec INSTR_JMP_NEQ = instr_jmp_neq_exec"
| "jmp_exec INSTR_JMP_NEQ_MH = instr_jmp_neq_mh_exec"
| "jmp_exec INSTR_JMP_NEQ_HM = instr_jmp_neq_hm_exec"
| "jmp_exec INSTR_JMP_NEQ_HH = instr_jmp_neq_hh_exec"
| "jmp_exec INSTR_JMP_NEQ_I = instr_jmp_neq_i_exec"
| "jmp_exec INSTR_JMP_LT = instr_jmp_lt_exec"
| "jmp_exec INSTR_JMP_LT_MH = instr_jmp_lt_mh_exec"
| "jmp_exec INSTR_JMP_LT_HM = instr_jmp_lt_hm_exec"
| "jmp_exec INSTR_JMP_LT_HH = instr_jmp_lt_hh_exec"
| "jmp_exec INSTR_JMP_LT_MI = instr_jmp_lt_mi_exec"
| "jmp_exec INSTR_JMP_LT_HI = instr_jmp_lt_hi_exec"
| "jmp_exec INSTR_JMP_GT = instr_jmp_gt_exec"
| "jmp_exec INSTR_JMP_GT_MH = instr_jmp_gt_mh_exec"
| "jmp_exec INSTR_JMP_GT_HM = instr_jmp_gt_hm_exec"
| "jmp_exec INSTR_JMP_GT_HH = instr_jmp_gt_hh_exec"
| "jmp_exec INSTR_JMP_GT_MI = instr_jmp_gt_mi_exec"
| "jmp_exec INSTR_JMP_GT_HI = instr_jmp_gt_hi_exec"

primrec mov_exec :: "mov_type \<Rightarrow> thread \<Rightarrow> instr_dst_src \<Rightarrow> thread" where
  "mov_exec INSTR_MOV = instr_mov_exec"
| "mov_exec INSTR_MOV_MH = instr_mov_mh_exec"
| "mov_exec INSTR_MOV_HM = instr_mov_hm_exec"
| "mov_exec INSTR_MOV_HH = instr_mov_hh_exec"
| "mov_exec INSTR_MOV_I = instr_mov_i_exec"

primrec alu_exec :: "alu_type \<Rightarrow> thread \<Rightarrow> instr_dst_src \<Rightarrow> thread" where
  "alu_exec INSTR_ALU_ADD = instr_alu_add_exec"
| "alu_exec INSTR_ALU_ADD_MH = instr_alu_add_mh_exec"
| "alu_exec INSTR_ALU_ADD_HM = instr_alu_add_hm_exec"
| "alu_exec INSTR_ALU_ADD_HH = instr_alu_add_hh_exec"
| "alu_exec INSTR_ALU_ADD_MI = instr_alu_add_mi_exec"
| "alu_exec INSTR_ALU_ADD_HI = instr_alu_add_hi_exec"
| "alu_exec INSTR_ALU_SUB = instr_alu_sub_exec"
| "alu_exec INSTR_ALU_SUB_MH = instr_alu_sub_mh_exec"
| "alu_exec INSTR_ALU_SUB_HM = instr_alu_sub_hm_exec"
| "alu_exec INSTR_ALU_SUB_HH = instr_alu_sub_hh_exec"
| "alu_exec INSTR_ALU_SUB_MI = instr_alu_sub_mi_exec"
| "alu_exec INSTR_ALU_SUB_HI = instr_alu_sub_hi_exec"
| "alu_exec INSTR_ALU_CKADD_FIELD = instr_alu_ckadd_field_exec"
| "alu_exec INSTR_ALU_CKADD_STRUCT20 = instr_alu_ckadd_struct20_exec"
| "alu_exec INSTR_ALU_CKADD_STRUCT = instr_alu_ckadd_struct_exec"
| "alu_exec INSTR_ALU_CKSUB_FIELD = instr_alu_cksub_field_exec"
| "alu_exec INSTR_ALU_AND = instr_alu_and_exec"
| "alu_exec INSTR_ALU_AND_MH = instr_alu_and_mh_exec"
| "alu_exec INSTR_ALU_AND_HM = instr_alu_and_hm_exec"
| "alu_exec INSTR_ALU_AND_HH = instr_alu_and_hh_exec"
| "alu_exec INSTR_ALU_AND_I = instr_alu_and_i_exec"
| "alu_exec INSTR_ALU_OR = instr_alu_or_exec"
| "alu_exec INSTR_ALU_OR_MH = instr_alu_or_mh_exec"
| "alu_exec INSTR_ALU_OR_HM = instr_alu_or_hm_exec"
| "alu_exec INSTR_ALU_OR_HH = instr_alu_or_hh_exec"
| "alu_exec INSTR_ALU_OR_I = instr_alu_or_i_exec"
| "alu_exec INSTR_ALU_XOR = instr_alu_xor_exec"
| "alu_exec INSTR_ALU_XOR_MH = instr_alu_xor_mh_exec"
| "alu_exec INSTR_ALU_XOR_HM = instr_alu_xor_hm_exec"
| "alu_exec INSTR_ALU_XOR_HH = instr_alu_xor_hh_exec"
| "alu_exec INSTR_ALU_XOR_I = instr_alu_xor_i_exec"
| "alu_exec INSTR_ALU_SHL = instr_alu_shl_exec"
| "alu_exec INSTR_ALU_SHL_MH = instr_alu_shl_mh_exec"
| "alu_exec INSTR_ALU_SHL_HM = instr_alu_shl_hm_exec"
| "alu_exec INSTR_ALU_SHL_HH = instr_alu_shl_hh_exec"
| "alu_exec INSTR_ALU_SHL_MI = instr_alu_shl_mi_exec"
| "alu_exec INSTR_ALU_SHL_HI = instr_alu_shl_hi_exec"
| "alu_exec INSTR_ALU_SHR = instr_alu_shr_exec"
| "alu_exec INSTR_ALU_SHR_MH = instr_alu_shr_mh_exec"
| "alu_exec INSTR_ALU_SHR_HM = instr_alu_shr_hm_exec"
| "alu_exec INSTR_ALU_SHR_HH = instr_alu_shr_hh_exec"
| "alu_exec INSTR_ALU_SHR_MI = instr_alu_shr_mi_exec"
| "alu_exec INSTR_ALU_SHR_HI = instr_alu_shr_hi_exec"

primrec dma_exec :: "dma_type \<Rightarrow> thread \<Rightarrow> instr_dma \<Rightarrow> thread" where
  "dma_exec INSTR_DMA_HT = instr_dma_ht_exec_body"
| "dma_exec INSTR_DMA_HT2 = instr_dma_ht2_exec_body"
| "dma_exec INSTR_DMA_HT3 = instr_dma_ht3_exec_body"
| "dma_exec INSTR_DMA_HT4 = instr_dma_ht4_exec_body"
| "dma_exec INSTR_DMA_HT5 = instr_dma_ht5_exec_body"
| "dma_exec INSTR_DMA_HT6 = instr_dma_ht6_exec_body"
| "dma_exec INSTR_DMA_HT7 = instr_dma_ht7_exec_body"
| "dma_exec INSTR_DMA_HT8 = instr_dma_ht8_exec_body"

primrec valid_exec :: "valid_type \<Rightarrow> thread \<Rightarrow> instr_hdr_validity \<Rightarrow> thread" where
  "valid_exec INSTR_HDR_VALIDATE = instr_hdr_validate_exec_body"
| "valid_exec INSTR_HDR_INVALIDATE = instr_hdr_invalidate_exec_body"

primrec regarray_exec :: "regarray_type \<Rightarrow> regs \<Rightarrow> thread \<Rightarrow> instr_regarray \<Rightarrow> (regs \<times> thread) option" where
  "regarray_exec INSTR_REGPREFETCH_RH p t ip = Some (p, t)"
| "regarray_exec INSTR_REGPREFETCH_RM p t ip = Some (p, t)"
| "regarray_exec INSTR_REGPREFETCH_RI p t ip = Some (p, t)"
| "regarray_exec INSTR_REGRD_HRH p t ip = map_option (\<lambda>t. (p, t)) (instr_regrd_hrh_exec p t ip)"
| "regarray_exec INSTR_REGRD_HRM p t ip = map_option (\<lambda>t. (p, t)) (instr_regrd_hrm_exec p t ip)"
| "regarray_exec INSTR_REGRD_HRI p t ip = map_option (\<lambda>t. (p, t)) (instr_regrd_hri_exec p t ip)"
| "regarray_exec INSTR_REGRD_MRH p t ip = map_option (\<lambda>t. (p, t)) (instr_regrd_mrh_exec p t ip)"
| "regarray_exec INSTR_REGRD_MRM p t ip = map_option (\<lambda>t. (p, t)) (instr_regrd_mrm_exec p t ip)"
| "regarray_exec INSTR_REGRD_MRI p t ip = map_option (\<lambda>t. (p, t)) (instr_regrd_mri_exec p t ip)"
| "regarray_exec INSTR_REGWR_RHH p t ip = map_option (\<lambda>p. (p, t)) (instr_regwr_rhh_exec p t ip)"
| "regarray_exec INSTR_REGWR_RHM p t ip = map_option (\<lambda>p. (p, t)) (instr_regwr_rhm_exec p t ip)"
| "regarray_exec INSTR_REGWR_RHI p t ip = map_option (\<lambda>p. (p, t)) (instr_regwr_rhi_exec p t ip)"
| "regarray_exec INSTR_REGWR_RMH p t ip = map_option (\<lambda>p. (p, t)) (instr_regwr_rmh_exec p t ip)"
| "regarray_exec INSTR_REGWR_RMM p t ip = map_option (\<lambda>p. (p, t)) (instr_regwr_rmm_exec p t ip)"
| "regarray_exec INSTR_REGWR_RMI p t ip = map_option (\<lambda>p. (p, t)) (instr_regwr_rmi_exec p t ip)"
| "regarray_exec INSTR_REGWR_RIH p t ip = map_option (\<lambda>p. (p, t)) (instr_regwr_rih_exec p t ip)"
| "regarray_exec INSTR_REGWR_RIM p t ip = map_option (\<lambda>p. (p, t)) (instr_regwr_rim_exec p t ip)"
| "regarray_exec INSTR_REGWR_RII p t ip = map_option (\<lambda>p. (p, t)) (instr_regwr_rii_exec p t ip)"
| "regarray_exec INSTR_REGADD_RHH p t ip = map_option (\<lambda>p. (p, t)) (instr_regadd_rhh_exec p t ip)"
| "regarray_exec INSTR_REGADD_RHM p t ip = map_option (\<lambda>p. (p, t)) (instr_regadd_rhm_exec p t ip)"
| "regarray_exec INSTR_REGADD_RHI p t ip = map_option (\<lambda>p. (p, t)) (instr_regadd_rhi_exec p t ip)"
| "regarray_exec INSTR_REGADD_RMH p t ip = map_option (\<lambda>p. (p, t)) (instr_regadd_rmh_exec p t ip)"
| "regarray_exec INSTR_REGADD_RMM p t ip = map_option (\<lambda>p. (p, t)) (instr_regadd_rmm_exec p t ip)"
| "regarray_exec INSTR_REGADD_RMI p t ip = map_option (\<lambda>p. (p, t)) (instr_regadd_rmi_exec p t ip)"
| "regarray_exec INSTR_REGADD_RIH p t ip = map_option (\<lambda>p. (p, t)) (instr_regadd_rih_exec p t ip)"
| "regarray_exec INSTR_REGADD_RIM p t ip = map_option (\<lambda>p. (p, t)) (instr_regadd_rim_exec p t ip)"
| "regarray_exec INSTR_REGADD_RII p t ip = map_option (\<lambda>p. (p, t)) (instr_regadd_rii_exec p t ip)"

primrec met_exec :: "meter_type \<Rightarrow> u64 \<Rightarrow> meter_state \<Rightarrow> thread \<Rightarrow> instr_meter \<Rightarrow> (meter_state \<times> thread) option" where
  "met_exec INSTR_METPREFETCH_H time p t ip = Some (p, t)"
| "met_exec INSTR_METPREFETCH_M time p t ip = Some (p, t)"
| "met_exec INSTR_METPREFETCH_I time p t ip = Some (p, t)"
| "met_exec INSTR_METER_HHM time p t ip = instr_meter_hhm_exec time p t ip"
| "met_exec INSTR_METER_HHI time p t ip = instr_meter_hhi_exec time p t ip"
| "met_exec INSTR_METER_HMM time p t ip = instr_meter_hmm_exec time p t ip"
| "met_exec INSTR_METER_HMI time p t ip = instr_meter_hmi_exec time p t ip"
| "met_exec INSTR_METER_MHM time p t ip = instr_meter_mhm_exec time p t ip"
| "met_exec INSTR_METER_MHI time p t ip = instr_meter_mhi_exec time p t ip"
| "met_exec INSTR_METER_MMM time p t ip = instr_meter_mmm_exec time p t ip"
| "met_exec INSTR_METER_MMI time p t ip = instr_meter_mmi_exec time p t ip"
| "met_exec INSTR_METER_IHM time p t ip = instr_meter_ihm_exec time p t ip"
| "met_exec INSTR_METER_IHI time p t ip = instr_meter_ihi_exec time p t ip"
| "met_exec INSTR_METER_IMM time p t ip = instr_meter_imm_exec time p t ip"
| "met_exec INSTR_METER_IMI time p t ip = instr_meter_imi_exec time p t ip"

text \<open>
  The instructions with an \<open>instr_io\<close> operand that stay with their packet; those that end its processing
  hand it to an output port.
\<close>

fun io_exec :: "io_type \<Rightarrow> thread \<Rightarrow> instr_io \<Rightarrow> thread" where
  "io_exec INSTR_RECIRCID = instr_recircid_exec_body"
| "io_exec INSTR_HDR_EXTRACT = instr_hdr_extract_exec_body"
| "io_exec INSTR_HDR_EXTRACT2 = instr_hdr_extract2_exec_body"
| "io_exec INSTR_HDR_EXTRACT3 = instr_hdr_extract3_exec_body"
| "io_exec INSTR_HDR_EXTRACT4 = instr_hdr_extract4_exec_body"
| "io_exec INSTR_HDR_EXTRACT5 = instr_hdr_extract5_exec_body"
| "io_exec INSTR_HDR_EXTRACT6 = instr_hdr_extract6_exec_body"
| "io_exec INSTR_HDR_EXTRACT7 = instr_hdr_extract7_exec_body"
| "io_exec INSTR_HDR_EXTRACT8 = instr_hdr_extract8_exec_body"
| "io_exec INSTR_HDR_EXTRACT_M = instr_hdr_extract_m_exec_body"
| "io_exec INSTR_HDR_LOOKAHEAD = instr_hdr_lookahead_exec_body"
| "io_exec INSTR_HDR_EMIT = instr_hdr_emit_exec_body"
| "io_exec _ = (\<lambda>t ip. t)"

fun tx_exec :: "io_type \<Rightarrow> pipeline \<Rightarrow> instr_io \<Rightarrow> pipeline" where
  "tx_exec INSTR_TX = instr_tx_exec_body"
| "tx_exec INSTR_TX_I = instr_tx_i_exec_body"
| "tx_exec INSTR_HDR_EMIT_TX = instr_hdr_emit_tx_exec_body"
| "tx_exec INSTR_HDR_EMIT2_TX = instr_hdr_emit2_tx_exec_body"
| "tx_exec INSTR_HDR_EMIT3_TX = instr_hdr_emit3_tx_exec_body"
| "tx_exec INSTR_HDR_EMIT4_TX = instr_hdr_emit4_tx_exec_body"
| "tx_exec INSTR_HDR_EMIT5_TX = instr_hdr_emit5_tx_exec_body"
| "tx_exec INSTR_HDR_EMIT6_TX = instr_hdr_emit6_tx_exec_body"
| "tx_exec INSTR_HDR_EMIT7_TX = instr_hdr_emit7_tx_exec_body"
| "tx_exec INSTR_HDR_EMIT8_TX = instr_hdr_emit8_tx_exec_body"
| "tx_exec _ = (\<lambda>p ip. p)"

text \<open>The hash functions that the application registers are an argument.\<close>

definition instr_hash_func_exec_body :: "(bytes \<Rightarrow> u32 \<Rightarrow> u32) list \<Rightarrow> thread \<Rightarrow> instr_hash_func \<Rightarrow> thread option" where
  "instr_hash_func_exec_body funcs t ip =
     (case aget funcs (hf_hash_func_id ip) of
        None \<Rightarrow> None
      | Some func \<Rightarrow>
          (let src_ptr = structs t (hf_src_struct_id ip);
               result = func (mem_bytes (t_mem t) (src_ptr + hf_src_offset ip) (hf_src_n_bytes ip)) 0
           in Some (METADATA_WRITE t (hf_dst_offset ip) (hf_dst_n_bits ip) (ucast result))))"

end
