(* ===== verification/SwxExec.thy ===== *)
theory SwxExec
  imports SwxInstr TableEm
begin

text \<open>
  The interpreter of the pipeline (lib/pipeline/rte_swx_pipeline.c): its state, the table
  instruction, and one instruction of the current thread as the entries of \<open>instruction_table\<close> run it.
  The instruction arrays of the pipeline and of its actions lie in one address space, with
  \<open>p->instructions\<close> at address 0, so that an instruction pointer is an address.
\<close>

section \<open>The state\<close>

record table_state =
  ts_obj :: "em_table option"
  ts_default_action_id :: u64
  ts_default_action_data :: bytes

text \<open>The lookup functions of a table: exact match in its two forms, and the one of a table without key.\<close>

datatype table_func = TABLE_EM | TABLE_EM_UNOPTIMIZED | TABLE_STUB

record table_runtime =
  tr_func :: table_func
  tr_mailbox :: mailbox
  tr_key_struct_id :: nat

record table_statistics =
  st_n_pkts_miss :: u64
  st_n_pkts_hit :: u64
  st_n_pkts_action :: "u64 list"

text \<open>
  The pipeline with its tables. \<open>sw_states\<close> are the arrays of table states in memory,
  \<open>sw_table_state\<close> and \<open>sw_t_state\<close> the pointers \<open>p->table_state\<close> and \<open>t->table_state\<close> to one of
  them. \<open>sw_tsc\<close> is the clock, \<open>sw_action_data\<close> the address at which a thread sees the action
  data of a table entry.
\<close>

record swx =
  sw_pipe :: pipeline
  sw_tables :: "nat \<Rightarrow> table_runtime list"
  sw_states :: "table_state list list"
  sw_table_state :: nat
  sw_t_state :: "nat \<Rightarrow> nat"
  sw_stats :: "table_statistics list"
  sw_regs :: regs
  sw_meters :: meter_state
  sw_hash_funcs :: "(bytes \<Rightarrow> u32 \<Rightarrow> u32) list"
  sw_code :: "nat \<Rightarrow> instruction option"
  sw_action_instructions :: "nat list"
  sw_tsc :: "nat \<Rightarrow> u64"
  sw_tsc_reads :: nat
  sw_action_data :: addr

text \<open>
  What can go wrong: an instruction pointer outside the program, an action, table or hash function that
  does not exist, a fault of the table, a register or meter access out of bounds.
\<close>

datatype swx_fault = BadIp | BadAction | BadTable | TableFault em_fault | RegFault | MeterFault | BadHash

abbreviation sw_cur :: "swx \<Rightarrow> thread" where
  "sw_cur s \<equiv> cur (sw_pipe s)"

definition sw_set_cur :: "swx \<Rightarrow> thread \<Rightarrow> swx" where
  "sw_set_cur s t = s\<lparr>sw_pipe := set_cur (sw_pipe s) t\<rparr>"

section \<open>Reception and the end of a packet\<close>

text \<open>\<open>instr_rx_exec\<close>, by which a thread also takes over the current table state.\<close>

definition rx_exec :: "instr_io \<Rightarrow> swx \<Rightarrow> swx" where
  "rx_exec ip s =
     s\<lparr>sw_pipe := instr_rx_exec ip (sw_pipe s),
       sw_t_state := (sw_t_state s)(tid (sw_pipe s) := sw_table_state s)\<rparr>"

text \<open>
  \<open>instr_tx_exec\<close> and its kin: after the body the instruction pointer is reset and the first
  instruction is run as the reception that it is.
\<close>

definition end_packet :: "(pipeline \<Rightarrow> pipeline) \<Rightarrow> swx \<Rightarrow> swx_fault + swx" where
  "end_packet body s =
     (let p = body (sw_pipe s);
          p = set_cur p (thread_ip_set (cur p) 0)
      in case sw_code s 0 of
           Some (Io INSTR_RX ip) \<Rightarrow> Inr (rx_exec ip (s\<lparr>sw_pipe := p\<rparr>))
         | _ \<Rightarrow> Inl BadIp)"

section \<open>Tables\<close>

text \<open>The key of a table: the words at its offset in the header or the meta-data.\<close>

definition table_key :: "em_table \<Rightarrow> thread \<Rightarrow> nat \<Rightarrow> key" where
  "table_key tb t struct_id =
     map (\<lambda>i. load64 (t_mem t) (structs t struct_id + unat (em_key_offset tb) + 8 * i)) [0 ..< unat (em_key_size tb) div 8]"

definition table_func_exec ::
  "table_state \<Rightarrow> table_runtime \<Rightarrow> thread \<Rightarrow> swx_fault + table_runtime \<times> (bool \<times> u64 \<times> bytes) option" where
  "table_func_exec ts table t =
     (case tr_func table of
        TABLE_STUB \<Rightarrow> Inr (table, Some (False, 0, []))
      | TABLE_EM \<Rightarrow>
          (case ts_obj ts of
             None \<Rightarrow> Inl BadTable
           | Some tb \<Rightarrow>
               (case table_lookup tb (tr_mailbox table) (table_key tb t (tr_key_struct_id table)) of
                  Inl e \<Rightarrow> Inl (TableFault e)
                | Inr (m, r) \<Rightarrow> Inr (table\<lparr>tr_mailbox := m\<rparr>, r)))
      | TABLE_EM_UNOPTIMIZED \<Rightarrow>
          (case ts_obj ts of
             None \<Rightarrow> Inl BadTable
           | Some tb \<Rightarrow>
               (case table_lookup_unoptimized tb (table_key tb t (tr_key_struct_id table)) of
                  Inl e \<Rightarrow> Inl (TableFault e)
                | Inr None \<Rightarrow> Inr (table, Some (False, 0, []))
                | Inr (Some d) \<Rightarrow> Inr (table, Some (True, d)))))"

definition stats_inc :: "table_statistics \<Rightarrow> bool \<Rightarrow> nat \<Rightarrow> table_statistics option" where
  "stats_inc st hit action_id =
     (case aget (st_n_pkts_action st) action_id of
        None \<Rightarrow> None
      | Some n_pkts_action \<Rightarrow>
          Some (st\<lparr>st_n_pkts_miss := st_n_pkts_miss st + (if hit then 0 else 1),
                  st_n_pkts_hit := st_n_pkts_hit st + (if hit then 1 else 0),
                  st_n_pkts_action := (st_n_pkts_action st)[action_id := n_pkts_action + 1]\<rparr>))"

definition getR :: "'e \<Rightarrow> 'a option \<Rightarrow> 'e + 'a" where
  "getR e r = (case r of None \<Rightarrow> Inl e | Some x \<Rightarrow> Inr x)"

definition instr_table_exec :: "nat \<Rightarrow> swx \<Rightarrow> swx_fault + swx" where
  "instr_table_exec table_id s =
     (let i = tid (sw_pipe s); t = sw_cur s in
      bindR (getR BadTable (aget (sw_states s) (sw_t_state s i))) (\<lambda>states.
      bindR (getR BadTable (aget states table_id)) (\<lambda>ts.
      bindR (getR BadTable (aget (sw_tables s i) table_id)) (\<lambda>table.
      bindR (getR BadTable (aget (sw_stats s) table_id)) (\<lambda>stats.
      bindR (table_func_exec ts table t) (\<lambda>(table, r).
      let s = s\<lparr>sw_tables := (sw_tables s)(i := (sw_tables s i)[table_id := table])\<rparr> in
      case r of
        None \<Rightarrow> Inr (s\<lparr>sw_pipe := thread_yield (sw_pipe s)\<rparr>)
      | Some (hit, action_id, action_data) \<Rightarrow>
          (let action_id = (if hit then action_id else ts_default_action_id ts);
               action_data = (if hit then action_data else ts_default_action_data ts) in
           bindR (getR BadAction (stats_inc stats hit (unat action_id))) (\<lambda>stats.
           bindR (getR BadAction (aget (sw_action_instructions s) (unat (ucast action_id :: u32)))) (\<lambda>target.
             let t = t\<lparr>t_action_id := action_id,
                       structs := (structs t)(0 := sw_action_data s),
                       t_mem := mem_write (t_mem t) (sw_action_data s) action_data,
                       t_hit := hit\<rparr>;
                 t = thread_ip_action_call (\<lambda>_. target) t (unat action_id)
             in Inr (sw_set_cur (s\<lparr>sw_stats := (sw_stats s)[table_id := stats]\<rparr>) t))))))))))"

section \<open>One instruction\<close>

text \<open>Instructions that only work on the thread and go on to the next one.\<close>

definition thread_exec :: "(thread \<Rightarrow> thread) \<Rightarrow> swx \<Rightarrow> swx_fault + swx" where
  "thread_exec body s = Inr (sw_set_cur s (thread_ip_inc (body (sw_cur s))))"

definition mirror_exec :: "instr_operand \<Rightarrow> instr_operand \<Rightarrow> swx \<Rightarrow> swx_fault + swx" where
  "mirror_exec dst src s =
     (let p = instr_mirror_exec_body (sw_pipe s) dst src
      in Inr (s\<lparr>sw_pipe := set_cur p (thread_ip_inc (cur p))\<rparr>))"

definition reg_exec :: "regarray_type \<Rightarrow> instr_regarray \<Rightarrow> swx \<Rightarrow> swx_fault + swx" where
  "reg_exec ty ip s =
     (case regarray_exec ty (sw_regs s) (sw_cur s) ip of
        None \<Rightarrow> Inl RegFault
      | Some (regs, t) \<Rightarrow> Inr (sw_set_cur (s\<lparr>sw_regs := regs\<rparr>) (thread_ip_inc t)))"

text \<open>The clock is read once by every meter instruction.\<close>

definition sw_meter_exec :: "meter_type \<Rightarrow> instr_meter \<Rightarrow> swx \<Rightarrow> swx_fault + swx" where
  "sw_meter_exec ty ip s =
     (case met_exec ty (sw_tsc s (sw_tsc_reads s)) (sw_meters s) (sw_cur s) ip of
        None \<Rightarrow> Inl MeterFault
      | Some (meters, t) \<Rightarrow>
          Inr (sw_set_cur (s\<lparr>sw_meters := meters, sw_tsc_reads := sw_tsc_reads s + 1\<rparr>) (thread_ip_inc t)))"

definition hash_exec :: "instr_hash_func \<Rightarrow> swx \<Rightarrow> swx_fault + swx" where
  "hash_exec ip s =
     (case instr_hash_func_exec_body (sw_hash_funcs s) (sw_cur s) ip of
        None \<Rightarrow> Inl BadHash
      | Some t \<Rightarrow> Inr (sw_set_cur s (thread_ip_inc t)))"

definition instr_return_exec :: "thread \<Rightarrow> thread" where
  "instr_return_exec t = t\<lparr>t_ip := t_ret t\<rparr>"

definition exec_instruction :: "instruction \<Rightarrow> swx \<Rightarrow> swx_fault + swx" where
  "exec_instruction i s =
     (case i of
        Io ty ip \<Rightarrow>
          (if ty = INSTR_RX then Inr (rx_exec ip s)
           else if instruction_does_tx i then end_packet (\<lambda>p. tx_exec ty p ip) s
           else thread_exec (\<lambda>t. io_exec ty t ip) s)
      | Plain INSTR_DROP \<Rightarrow> end_packet instr_drop_exec_body s
      | Plain INSTR_RECIRCULATE \<Rightarrow> thread_exec instr_recirculate_exec_body s
      | Plain INSTR_RETURN \<Rightarrow> Inr (sw_set_cur s (instr_return_exec (sw_cur s)))
      | Mirror dst src \<Rightarrow> mirror_exec dst src s
      | Valid ty ip \<Rightarrow> thread_exec (\<lambda>t. valid_exec ty t ip) s
      | Mov ty ip \<Rightarrow> thread_exec (\<lambda>t. mov_exec ty t ip) s
      | Dma ty ip \<Rightarrow> thread_exec (\<lambda>t. dma_exec ty t ip) s
      | Alu ty ip \<Rightarrow> thread_exec (\<lambda>t. alu_exec ty t ip) s
      | Regarray ty ip \<Rightarrow> reg_exec ty ip s
      | Meter ty ip \<Rightarrow> sw_meter_exec ty ip s
      | Table table_id \<Rightarrow> instr_table_exec table_id s
      | HashFunc ip \<Rightarrow> hash_exec ip s
      | Jmp ty ip \<Rightarrow> Inr (sw_set_cur s (jmp_exec ty (sw_cur s) ip)))"

definition instr_exec :: "swx \<Rightarrow> swx_fault + swx" where
  "instr_exec s =
     (case sw_code s (t_ip (sw_cur s)) of
        None \<Rightarrow> Inl BadIp
      | Some i \<Rightarrow> exec_instruction i s)"

fun rte_swx_pipeline_run :: "nat \<Rightarrow> swx \<Rightarrow> swx_fault + swx" where
  "rte_swx_pipeline_run 0 s = Inr s"
| "rte_swx_pipeline_run (Suc n) s = bindR (instr_exec s) (rte_swx_pipeline_run n)"

end
