(* ===== verification/SwxIp.thy ===== *)
theory SwxIp
  imports SwxExec
begin

text \<open>
  The bodies of the instructions neither read nor write the instruction pointers of the threads: they
  commute with any change of them. The jumps, which do, commute with a relocation of the program.
\<close>

section \<open>Bodies on a thread\<close>

definition set_ips :: "nat \<Rightarrow> nat \<Rightarrow> thread \<Rightarrow> thread" where
  "set_ips a r t = t\<lparr>t_ip := a, t_ret := r\<rparr>"

definition ip_free :: "(thread \<Rightarrow> thread) \<Rightarrow> bool" where
  "ip_free f \<longleftrightarrow> (\<forall>a r t. f (set_ips a r t) = set_ips a r (f t))"

lemma set_ips_sel [simp]:
  "t_mem (set_ips a r t) = t_mem t" "t_pkt (set_ips a r t) = t_pkt t" "t_ptr (set_ips a r t) = t_ptr t"
  "mirroring_slots (set_ips a r t) = mirroring_slots t"
  "mirroring_slots_mask (set_ips a r t) = mirroring_slots_mask t" "recirculate (set_ips a r t) = recirculate t"
  "recirc_pass_id (set_ips a r t) = recirc_pass_id t" "structs (set_ips a r t) = structs t"
  "headers (set_ips a r t) = headers t" "headers_out (set_ips a r t) = headers_out t"
  "header_out_storage (set_ips a r t) = header_out_storage t" "valid_headers (set_ips a r t) = valid_headers t"
  "n_headers_out (set_ips a r t) = n_headers_out t" "metadata (set_ips a r t) = metadata t"
  "t_action_id (set_ips a r t) = t_action_id t" "t_hit (set_ips a r t) = t_hit t"
  "t_ip (set_ips a r t) = a" "t_ret (set_ips a r t) = r"
  by (simp_all add: set_ips_def)

lemma set_ips_id [simp]: "set_ips (t_ip t) (t_ret t) t = t"
  by (simp add: set_ips_def)

lemma set_ips_set_ips [simp]: "set_ips a r (set_ips b q t) = set_ips a r t"
  by (simp add: set_ips_def)

lemma op_addr_set_ips [simp]: "op_addr (set_ips a r t) x = op_addr t x"
  by (simp add: op_addr_def)

lemma set_ips_upd [simp]:
  "(set_ips a r t)\<lparr>t_mem := m\<rparr> = set_ips a r (t\<lparr>t_mem := m\<rparr>)"
  "(set_ips a r t)\<lparr>t_pkt := k\<rparr> = set_ips a r (t\<lparr>t_pkt := k\<rparr>)"
  "(set_ips a r t)\<lparr>t_ptr := x\<rparr> = set_ips a r (t\<lparr>t_ptr := x\<rparr>)"
  "(set_ips a r t)\<lparr>structs := ss\<rparr> = set_ips a r (t\<lparr>structs := ss\<rparr>)"
  "(set_ips a r t)\<lparr>headers := hs\<rparr> = set_ips a r (t\<lparr>headers := hs\<rparr>)"
  "(set_ips a r t)\<lparr>headers_out := ho\<rparr> = set_ips a r (t\<lparr>headers_out := ho\<rparr>)"
  "(set_ips a r t)\<lparr>n_headers_out := n\<rparr> = set_ips a r (t\<lparr>n_headers_out := n\<rparr>)"
  "(set_ips a r t)\<lparr>valid_headers := v\<rparr> = set_ips a r (t\<lparr>valid_headers := v\<rparr>)"
  "(set_ips a r t)\<lparr>recirculate := b\<rparr> = set_ips a r (t\<lparr>recirculate := b\<rparr>)"
  "(set_ips a r t)\<lparr>recirc_pass_id := n\<rparr> = set_ips a r (t\<lparr>recirc_pass_id := n\<rparr>)"
  "(set_ips a r t)\<lparr>mirroring_slots := sl\<rparr> = set_ips a r (t\<lparr>mirroring_slots := sl\<rparr>)"
  "(set_ips a r t)\<lparr>mirroring_slots_mask := v\<rparr> = set_ips a r (t\<lparr>mirroring_slots_mask := v\<rparr>)"
  "(set_ips a r t)\<lparr>t_action_id := v\<rparr> = set_ips a r (t\<lparr>t_action_id := v\<rparr>)"
  "(set_ips a r t)\<lparr>t_hit := b\<rparr> = set_ips a r (t\<lparr>t_hit := b\<rparr>)"
  by (simp_all add: set_ips_def)

lemma ip_freeD: "ip_free f \<Longrightarrow> f (set_ips a r t) = set_ips a r (f t)"
  by (simp add: ip_free_def)

lemma ip_free_keeps:
  assumes "ip_free f"
  shows "t_ip (f t) = t_ip t" and "t_ret (f t) = t_ret t"
  using ip_freeD [OF assms, of "t_ip t" "t_ret t" t] by (simp_all, (metis set_ips_sel)+)

lemma METADATA_set_ips [simp]:
  "METADATA_READ (set_ips a r t) off n = METADATA_READ t off n"
  "METADATA_WRITE (set_ips a r t) off n v = set_ips a r (METADATA_WRITE t off n v)"
  by (simp_all add: METADATA_READ_def METADATA_WRITE_def Let_def)

lemma ip_free_mov [intro!, simp]: "ip_free (\<lambda>t. mov_exec ty t ip)"
  by (cases ty) (simp_all add: ip_free_def Let_def instr_mov_exec_def instr_mov_mh_exec_def instr_mov_hm_exec_def
      instr_mov_hh_exec_def instr_mov_i_exec_def MOV_def MOV_MH_def MOV_HM_def MOV_HH_def MOV_I_def)

lemma ALU_set_ips [simp]:
  "ALU (set_ips a r t) ip f = set_ips a r (ALU t ip f)"
  "ALU_MH (set_ips a r t) ip f = set_ips a r (ALU_MH t ip f)"
  "ALU_HM (set_ips a r t) ip f = set_ips a r (ALU_HM t ip f)"
  "ALU_HH (set_ips a r t) ip f = set_ips a r (ALU_HH t ip f)"
  "ALU_HM_FAST (set_ips a r t) ip f = set_ips a r (ALU_HM_FAST t ip f)"
  "ALU_HH_FAST (set_ips a r t) ip f = set_ips a r (ALU_HH_FAST t ip f)"
  "ALU_I (set_ips a r t) ip f = set_ips a r (ALU_I t ip f)"
  "ALU_HI (set_ips a r t) ip f = set_ips a r (ALU_HI t ip f)"
  by (simp_all add: ALU_def ALU_MH_def ALU_HM_def ALU_HH_def ALU_HM_FAST_def ALU_HH_FAST_def ALU_I_def ALU_HI_def Let_def)

lemma ck_set_ips [simp]:
  "instr_alu_ckadd_field_exec (set_ips a r t) ip = set_ips a r (instr_alu_ckadd_field_exec t ip)"
  "instr_alu_cksub_field_exec (set_ips a r t) ip = set_ips a r (instr_alu_cksub_field_exec t ip)"
  "instr_alu_ckadd_struct_exec (set_ips a r t) ip = set_ips a r (instr_alu_ckadd_struct_exec t ip)"
  "instr_alu_ckadd_struct20_exec (set_ips a r t) ip = set_ips a r (instr_alu_ckadd_struct20_exec t ip)"
  by (simp_all add: instr_alu_ckadd_field_exec_def instr_alu_cksub_field_exec_def instr_alu_ckadd_struct_exec_def
      instr_alu_ckadd_struct20_exec_def Let_def)

lemmas alu_body_defs =
  instr_alu_add_exec_def instr_alu_add_mh_exec_def instr_alu_add_hm_exec_def instr_alu_add_hh_exec_def
  instr_alu_add_mi_exec_def instr_alu_add_hi_exec_def instr_alu_sub_exec_def instr_alu_sub_mh_exec_def
  instr_alu_sub_hm_exec_def instr_alu_sub_hh_exec_def instr_alu_sub_mi_exec_def instr_alu_sub_hi_exec_def
  instr_alu_shl_exec_def instr_alu_shl_mh_exec_def instr_alu_shl_hm_exec_def instr_alu_shl_hh_exec_def
  instr_alu_shl_mi_exec_def instr_alu_shl_hi_exec_def instr_alu_shr_exec_def instr_alu_shr_mh_exec_def
  instr_alu_shr_hm_exec_def instr_alu_shr_hh_exec_def instr_alu_shr_mi_exec_def instr_alu_shr_hi_exec_def
  instr_alu_and_exec_def instr_alu_and_mh_exec_def instr_alu_and_hm_exec_def instr_alu_and_hh_exec_def
  instr_alu_and_i_exec_def instr_alu_or_exec_def instr_alu_or_mh_exec_def instr_alu_or_hm_exec_def
  instr_alu_or_hh_exec_def instr_alu_or_i_exec_def instr_alu_xor_exec_def instr_alu_xor_mh_exec_def
  instr_alu_xor_hm_exec_def instr_alu_xor_hh_exec_def instr_alu_xor_i_exec_def

lemma ip_free_alu [intro!, simp]: "ip_free (\<lambda>t. alu_exec ty t ip)"
  by (cases ty) (simp_all add: ip_free_def alu_body_defs)

lemma extract_set_ips [simp]:
  "instr_hdr_extract_many_exec (set_ips a r t) ip n = set_ips a r (instr_hdr_extract_many_exec t ip n)"
  by (simp add: instr_hdr_extract_many_exec_def Let_def split: prod.split)

lemma emit_round_set_ips [simp]: "emit_round (set_ips a r t) ip = emit_round t ip"
  by (intro ext) (simp add: emit_round_def Let_def)

lemma emit_set_ips [simp]:
  "instr_hdr_emit_many_exec (set_ips a r t) ip n = set_ips a r (instr_hdr_emit_many_exec t ip n)"
  by (simp add: instr_hdr_emit_many_exec_def emit_finish_def emit_start_def)

lemma ip_free_io [intro!, simp]: "ip_free (\<lambda>t. io_exec ty t ip)"
  by (cases ty) (simp_all add: ip_free_def Let_def instr_recircid_exec_body_def instr_hdr_extract_exec_body_def
      instr_hdr_extract2_exec_body_def instr_hdr_extract3_exec_body_def instr_hdr_extract4_exec_body_def
      instr_hdr_extract5_exec_body_def instr_hdr_extract6_exec_body_def instr_hdr_extract7_exec_body_def
      instr_hdr_extract8_exec_body_def instr_hdr_extract_m_exec_body_def instr_hdr_lookahead_exec_body_def
      instr_hdr_emit_exec_body_def)

lemma ip_free_valid [intro!, simp]: "ip_free (\<lambda>t. valid_exec ty t ip)"
  by (cases ty) (simp_all add: ip_free_def Let_def instr_hdr_validate_exec_body_def instr_hdr_invalidate_exec_body_def)

lemma dma_loop_set_ips [simp]:
  "dma_loop a ip is v (set_ips x y t) = map_prod id (set_ips x y) (dma_loop a ip is v t)"
  by (induction "is" arbitrary: v t) (simp_all add: Let_def)

lemma dma_set_ips [simp]:
  "instr_dma_ht_many_exec (set_ips a r t) ip n = set_ips a r (instr_dma_ht_many_exec t ip n)"
  by (simp add: instr_dma_ht_many_exec_def split_beta)

lemma ip_free_dma [intro!, simp]: "ip_free (\<lambda>t. dma_exec ty t ip)"
  by (cases ty) (simp_all add: ip_free_def instr_dma_ht_exec_body_def instr_dma_ht2_exec_body_def
      instr_dma_ht3_exec_body_def instr_dma_ht4_exec_body_def instr_dma_ht5_exec_body_def instr_dma_ht6_exec_body_def
      instr_dma_ht7_exec_body_def instr_dma_ht8_exec_body_def)

lemma ip_free_recirculate [intro!, simp]: "ip_free instr_recirculate_exec_body"
  by (simp add: ip_free_def instr_recirculate_exec_body_def)

lemma ip_free_emit_handler [intro!, simp]: "ip_free emit_handler"
proof -
  have "copy_headers_out (set_ips a r t) is off m = copy_headers_out t is off m" for a r t "is" off m
    by (induction "is" arbitrary: off m) (simp_all add: Let_def)
  then show ?thesis
    unfolding ip_free_def emit_handler_def Let_def
    by (intro allI) (simp only: set_ips_sel set_ips_upd split_beta if_distrib [of "set_ips _ _"])
qed

section \<open>Registers, meters and hash functions\<close>

lemma reg_operands_set_ips [simp]:
  "instr_regarray_idx_hbo p (set_ips a r t) ip = instr_regarray_idx_hbo p t ip"
  "instr_regarray_idx_nbo p (set_ips a r t) ip = instr_regarray_idx_nbo p t ip"
  "instr_regarray_src_hbo (set_ips a r t) ip = instr_regarray_src_hbo t ip"
  "instr_regarray_src_nbo (set_ips a r t) ip = instr_regarray_src_nbo t ip"
  "instr_regarray_dst_hbo_src_hbo_set (set_ips a r t) ip v = set_ips a r (instr_regarray_dst_hbo_src_hbo_set t ip v)"
  "instr_regarray_dst_nbo_src_hbo_set (set_ips a r t) ip v = set_ips a r (instr_regarray_dst_nbo_src_hbo_set t ip v)"
  by (simp_all add: instr_regarray_idx_hbo_def instr_regarray_idx_nbo_def instr_regarray_src_hbo_def
      instr_regarray_src_nbo_def instr_regarray_dst_hbo_src_hbo_set_def instr_regarray_dst_nbo_src_hbo_set_def Let_def)

lemma regarray_exec_set_ips [simp]:
  "regarray_exec ty p (set_ips a r t) ip = map_option (map_prod id (set_ips a r)) (regarray_exec ty p t ip)"
  by (cases ty) (simp_all add: regrd_defs regwr_defs regadd_defs Let_def option.map_comp comp_def)

lemma meter_operands_set_ips [simp]:
  "instr_meter_idx_hbo p (set_ips a r t) ip = instr_meter_idx_hbo p t ip"
  "instr_meter_idx_nbo p (set_ips a r t) ip = instr_meter_idx_nbo p t ip"
  "instr_meter_length_hbo (set_ips a r t) ip = instr_meter_length_hbo t ip"
  "instr_meter_length_nbo (set_ips a r t) ip = instr_meter_length_nbo t ip"
  "instr_meter_color_in_hbo (set_ips a r t) ip = instr_meter_color_in_hbo t ip"
  "instr_meter_color_out_hbo_set (set_ips a r t) ip c = set_ips a r (instr_meter_color_out_hbo_set t ip c)"
  by (simp_all add: instr_meter_idx_hbo_def instr_meter_idx_nbo_def instr_meter_length_hbo_def
      instr_meter_length_nbo_def instr_meter_color_in_hbo_def instr_meter_color_out_hbo_set_def Let_def)

lemma meter_exec_set_ips [simp]:
  "meter_exec p (set_ips a r t) ip idx time len c = map_option (map_prod id (set_ips a r)) (meter_exec p t ip idx time len c)"
  by (simp add: meter_exec_def Let_def split: option.split prod.split)

lemma met_exec_set_ips [simp]:
  "met_exec ty time p (set_ips a r t) ip = map_option (map_prod id (set_ips a r)) (met_exec ty time p t ip)"
  by (cases ty) (simp_all add: meter_exec_defs Let_def)

lemma hash_set_ips [simp]:
  "instr_hash_func_exec_body fs (set_ips a r t) ip = map_option (set_ips a r) (instr_hash_func_exec_body fs t ip)"
  by (simp add: instr_hash_func_exec_body_def Let_def split: option.split)

section \<open>Relocation of the program\<close>

definition ip_map :: "(nat \<Rightarrow> nat) \<Rightarrow> thread \<Rightarrow> thread" where
  "ip_map h t = set_ips (h (t_ip t)) (h (t_ret t)) t"

definition pipe_map :: "(nat \<Rightarrow> nat) \<Rightarrow> pipeline \<Rightarrow> pipeline" where
  "pipe_map h p = p\<lparr>threads := \<lambda>j. ip_map h (threads p j)\<rparr>"

definition reloc :: "(nat \<Rightarrow> nat) \<Rightarrow> (nat \<Rightarrow> instruction option) \<Rightarrow> swx \<Rightarrow> swx" where
  "reloc h code s = s\<lparr>sw_pipe := pipe_map h (sw_pipe s), sw_code := code\<rparr>"

definition reloc_instr :: "(nat \<Rightarrow> nat) \<Rightarrow> instruction \<Rightarrow> instruction" where
  "reloc_instr h i = (case i of Jmp ty ip \<Rightarrow> Jmp ty (ip\<lparr>jmp_ip := h (jmp_ip ip)\<rparr>) | _ \<Rightarrow> i)"

lemma ip_map_free: "ip_free f \<Longrightarrow> f (ip_map h t) = ip_map h (f t)"
  by (simp add: ip_map_def ip_freeD ip_free_keeps)

lemma ip_map_sel [simp]:
  "t_mem (ip_map h t) = t_mem t" "t_pkt (ip_map h t) = t_pkt t" "t_ptr (ip_map h t) = t_ptr t"
  "recirculate (ip_map h t) = recirculate t" "structs (ip_map h t) = structs t"
  "mirroring_slots (ip_map h t) = mirroring_slots t" "mirroring_slots_mask (ip_map h t) = mirroring_slots_mask t"
  "valid_headers (ip_map h t) = valid_headers t" "t_hit (ip_map h t) = t_hit t" "t_action_id (ip_map h t) = t_action_id t"
  "recirc_pass_id (ip_map h t) = recirc_pass_id t"
  "t_ip (ip_map h t) = h (t_ip t)" "t_ret (ip_map h t) = h (t_ret t)"
  "op_addr (ip_map h t) x = op_addr t x"
  "METADATA_READ (ip_map h t) off n = METADATA_READ t off n" "pkt_bytes (ip_map h t) = pkt_bytes t"
  by (simp_all add: ip_map_def pkt_bytes_def)

lemma pipe_map_sel [simp]:
  "thread_id (pipe_map h p) = thread_id p" "p_out (pipe_map h p) = p_out p" "p_in (pipe_map h p) = p_in p"
  "port_id (pipe_map h p) = port_id p" "n_ports_in (pipe_map h p) = n_ports_in p" "n_ports_out (pipe_map h p) = n_ports_out p"
  "mirroring_sessions (pipe_map h p) = mirroring_sessions p" "n_mirroring_slots (pipe_map h p) = n_mirroring_slots p"
  "n_mirroring_sessions (pipe_map h p) = n_mirroring_sessions p" "cur (pipe_map h p) = ip_map h (cur p)"
  by (simp_all add: pipe_map_def cur_def)

lemma pipe_map_set_cur [simp]: "set_cur (pipe_map h p) (ip_map h t) = pipe_map h (set_cur p t)"
  by (simp add: pipe_map_def set_cur_def fun_eq_iff)

lemma pipe_map_upd [simp]:
  "(pipe_map h p)\<lparr>p_out := x\<rparr> = pipe_map h (p\<lparr>p_out := x\<rparr>)" "(pipe_map h p)\<lparr>p_in := y\<rparr> = pipe_map h (p\<lparr>p_in := y\<rparr>)"
  "(pipe_map h p)\<lparr>port_id := z\<rparr> = pipe_map h (p\<lparr>port_id := z\<rparr>)" "(pipe_map h p)\<lparr>thread_id := w\<rparr> = pipe_map h (p\<lparr>thread_id := w\<rparr>)"
  by (simp_all add: pipe_map_def)

lemma yield_pipe_map [simp]:
  "thread_yield (pipe_map h p) = pipe_map h (thread_yield p)" "pipeline_port_inc (pipe_map h p) = pipe_map h (pipeline_port_inc p)"
  by (simp_all add: thread_yield_def pipeline_port_inc_def)

lemma mirror_one_pipe_map [simp]: "mirror_one (pipe_map h p) i = pipe_map h (mirror_one p i)"
  by (simp add: mirror_one_def pkt_fast_clone_tx_def pkt_clone_tx_def Let_def)

lemma mirroring_loop_pipe_map [simp]:
  "mirroring_loop n i a b (pipe_map h p) = map_option (pipe_map h) (mirroring_loop n i a b p)"
  by (induction n i a b p rule: mirroring_loop.induct) simp_all

lemma mirroring_handler_pipe_map [simp]: "mirroring_handler (pipe_map h p) = pipe_map h (mirroring_handler p)"
  by (simp add: mirroring_handler_def split: option.split)

lemma emit_handler_ip_map [simp]: "emit_handler (ip_map h t) = ip_map h (emit_handler t)"
  by (simp add: ip_map_free)

lemma emit_many_ip_map [simp]: "instr_hdr_emit_many_exec (ip_map h t) ip n = ip_map h (instr_hdr_emit_many_exec t ip n)"
  by (rule ip_map_free) (simp add: ip_free_def)

lemma tx_body_pipe_map [simp]:
  "instr_tx_exec_body (pipe_map h p) ip = pipe_map h (instr_tx_exec_body p ip)"
  "instr_tx_i_exec_body (pipe_map h p) ip = pipe_map h (instr_tx_i_exec_body p ip)"
  "instr_drop_exec_body (pipe_map h p) = pipe_map h (instr_drop_exec_body p)"
  by (simp_all add: instr_tx_exec_body_def instr_tx_i_exec_body_def instr_drop_exec_body_def pkt_tx_def Let_def)

lemma tx_exec_pipe_map [simp]: "tx_exec ty (pipe_map h p) ip = pipe_map h (tx_exec ty p ip)"
  by (cases ty) (simp_all add: emit_many_tx_def instr_hdr_emit_tx_exec_body_def instr_hdr_emit2_tx_exec_body_def
      instr_hdr_emit3_tx_exec_body_def instr_hdr_emit4_tx_exec_body_def instr_hdr_emit5_tx_exec_body_def
      instr_hdr_emit6_tx_exec_body_def instr_hdr_emit7_tx_exec_body_def instr_hdr_emit8_tx_exec_body_def)

lemma mirror_body_pipe_map [simp]:
  "instr_mirror_exec_body (pipe_map h p) dst src = pipe_map h (instr_mirror_exec_body p dst src)"
proof -
  have f: "(ip_map h t)\<lparr>mirroring_slots := a, mirroring_slots_mask := b\<rparr> =
      ip_map h (t\<lparr>mirroring_slots := a, mirroring_slots_mask := b\<rparr>)" for a b t
    by (rule ip_map_free) (simp add: ip_free_def)
  have o: "instr_operand_hbo (ip_map h t) x = instr_operand_hbo t x" for t x
    by (simp add: instr_operand_hbo_def)
  show ?thesis by (simp add: instr_mirror_exec_body_def Let_def f o)
qed

lemma ip_map_upd:
  "(ip_map h t)\<lparr>t_mem := m\<rparr> = ip_map h (t\<lparr>t_mem := m\<rparr>)"
  "(ip_map h t)\<lparr>t_pkt := k\<rparr> = ip_map h (t\<lparr>t_pkt := k\<rparr>)"
  "(ip_map h t)\<lparr>t_ptr := x\<rparr> = ip_map h (t\<lparr>t_ptr := x\<rparr>)"
  "(ip_map h t)\<lparr>structs := ss\<rparr> = ip_map h (t\<lparr>structs := ss\<rparr>)"
  "(ip_map h t)\<lparr>n_headers_out := n\<rparr> = ip_map h (t\<lparr>n_headers_out := n\<rparr>)"
  "(ip_map h t)\<lparr>valid_headers := v\<rparr> = ip_map h (t\<lparr>valid_headers := v\<rparr>)"
  "(ip_map h t)\<lparr>recirculate := b\<rparr> = ip_map h (t\<lparr>recirculate := b\<rparr>)"
  "(ip_map h t)\<lparr>recirc_pass_id := n\<rparr> = ip_map h (t\<lparr>recirc_pass_id := n\<rparr>)"
  "(ip_map h t)\<lparr>mirroring_slots_mask := v\<rparr> = ip_map h (t\<lparr>mirroring_slots_mask := v\<rparr>)"
  "(ip_map h t)\<lparr>t_action_id := w\<rparr> = ip_map h (t\<lparr>t_action_id := w\<rparr>)"
  "(ip_map h t)\<lparr>t_hit := b\<rparr> = ip_map h (t\<lparr>t_hit := b\<rparr>)"
  "METADATA_WRITE (ip_map h t) off nb v = ip_map h (METADATA_WRITE t off nb v)"
  by (simp_all add: ip_map_def METADATA_WRITE_def Let_def)

lemma ip_map_ip:
  "(ip_map h t)\<lparr>t_ip := h a\<rparr> = ip_map h (t\<lparr>t_ip := a\<rparr>)"
  by (simp add: ip_map_def set_ips_def)

lemma pkt_rx_pipe_map: "pkt_rx (pipe_map h p) port = map_prod (pipe_map h) id (pkt_rx p port)"
  by (simp add: pkt_rx_def Let_def ip_map_upd split: list.split prod.split)

lemma rx_body_pipe_map:
  "instr_rx_exec_body (pipe_map h p) ip = map_prod (pipe_map h) id (instr_rx_exec_body p ip)"
proof (cases "recirculate (cur p)")
  case True
  then show ?thesis by (simp add: instr_rx_exec_body_def Let_def ip_map_upd)
next
  case False
  obtain p1 b where p1: "pkt_rx p (unat (port_id p)) = (p1, b)" by fastforce
  have "pkt_rx (pipe_map h p) (unat (port_id p)) = (pipe_map h p1, b)" by (simp add: pkt_rx_pipe_map p1)
  with False show ?thesis by (simp add: instr_rx_exec_body_def Let_def ip_map_upd p1)
qed

lemma rx_keeps_ip:
  assumes "instr_rx_exec_body p ip = (p', b)"
  shows "t_ip (cur p') = t_ip (cur p)" and "t_ret (cur p') = t_ret (cur p)" and "thread_id p' = thread_id p"
proof -
  have w: "t_ip (METADATA_WRITE t x y v) = t_ip t" "t_ret (METADATA_WRITE t x y v) = t_ret t" for t x y v
    by (simp_all add: METADATA_WRITE_def Let_def)
  have "t_ip (cur p') = t_ip (cur p) \<and> t_ret (cur p') = t_ret (cur p) \<and> thread_id p' = thread_id p"
    using assms
    by (auto simp: instr_rx_exec_body_def pkt_rx_def Let_def w cur_def set_cur_def pipeline_port_inc_def
        split: if_splits list.splits prod.splits)
  then show "t_ip (cur p') = t_ip (cur p)" "t_ret (cur p') = t_ret (cur p)" "thread_id p' = thread_id p"
    by simp_all
qed

lemma rx_exec_pipe_map:
  assumes "h (t_ip (cur p) + 1) = h (t_ip (cur p)) + 1"
  shows "instr_rx_exec ip (pipe_map h p) = pipe_map h (instr_rx_exec ip p)"
proof -
  obtain p1 b where p1: "instr_rx_exec_body p ip = (p1, b)" by fastforce
  have "instr_rx_exec_body (pipe_map h p) ip = (pipe_map h p1, b)" by (simp add: rx_body_pipe_map p1)
  moreover have "thread_ip_inc_cond (ip_map h (cur p1)) b = ip_map h (thread_ip_inc_cond (cur p1) b)"
    using assms rx_keeps_ip [OF p1] by (simp add: thread_ip_inc_cond_def ip_map_def set_ips_def)
  ultimately show ?thesis by (simp add: instr_rx_exec_def p1)
qed

section \<open>An instruction after relocation\<close>

lemma reloc_sel [simp]:
  "sw_pipe (reloc h code s) = pipe_map h (sw_pipe s)" "sw_tables (reloc h code s) = sw_tables s"
  "sw_states (reloc h code s) = sw_states s" "sw_table_state (reloc h code s) = sw_table_state s"
  "sw_t_state (reloc h code s) = sw_t_state s" "sw_stats (reloc h code s) = sw_stats s"
  "sw_regs (reloc h code s) = sw_regs s" "sw_meters (reloc h code s) = sw_meters s"
  "sw_hash_funcs (reloc h code s) = sw_hash_funcs s" "sw_code (reloc h code s) = code"
  "sw_action_instructions (reloc h code s) = sw_action_instructions s" "sw_tsc (reloc h code s) = sw_tsc s"
  "sw_tsc_reads (reloc h code s) = sw_tsc_reads s" "sw_action_data (reloc h code s) = sw_action_data s"
  by (simp_all add: reloc_def)

lemma reloc_upd [simp]:
  "(reloc h code s)\<lparr>sw_pipe := pipe_map h p\<rparr> = reloc h code (s\<lparr>sw_pipe := p\<rparr>)"
  "(reloc h code s)\<lparr>sw_regs := r\<rparr> = reloc h code (s\<lparr>sw_regs := r\<rparr>)"
  "(reloc h code s)\<lparr>sw_meters := m\<rparr> = reloc h code (s\<lparr>sw_meters := m\<rparr>)"
  "(reloc h code s)\<lparr>sw_tsc_reads := n\<rparr> = reloc h code (s\<lparr>sw_tsc_reads := n\<rparr>)"
  "(reloc h code s)\<lparr>sw_stats := st\<rparr> = reloc h code (s\<lparr>sw_stats := st\<rparr>)"
  "(reloc h code s)\<lparr>sw_tables := tb\<rparr> = reloc h code (s\<lparr>sw_tables := tb\<rparr>)"
  "(reloc h code s)\<lparr>sw_t_state := ts\<rparr> = reloc h code (s\<lparr>sw_t_state := ts\<rparr>)"
  "sw_set_cur (reloc h code s) (ip_map h t) = reloc h code (sw_set_cur s t)"
  by (simp_all add: reloc_def sw_set_cur_def)

lemma ip_inc_map:
  assumes "h (t_ip t + 1) = h (t_ip t) + 1"
  shows "thread_ip_inc (ip_map h t) = ip_map h (thread_ip_inc t)"
  using assms by (simp add: thread_ip_inc_def ip_map_def set_ips_def)

lemma thread_exec_reloc:
  assumes "ip_free f" and "h (t_ip (sw_cur s) + 1) = h (t_ip (sw_cur s)) + 1"
  shows "thread_exec f (reloc h code s) = map_sum id (reloc h code) (thread_exec f s)"
  using assms ip_free_keeps(1) [OF assms(1), of "sw_cur s"]
  by (simp add: thread_exec_def ip_map_free ip_inc_map)

lemmas jmp_body_defs =
  instr_jmp_exec_def instr_jmp_valid_exec_def instr_jmp_invalid_exec_def instr_jmp_hit_exec_def
  instr_jmp_miss_exec_def instr_jmp_action_hit_exec_def instr_jmp_action_miss_exec_def
  instr_jmp_eq_exec_def instr_jmp_eq_mh_exec_def instr_jmp_eq_hm_exec_def instr_jmp_eq_hh_exec_def
  instr_jmp_eq_i_exec_def instr_jmp_neq_exec_def instr_jmp_neq_mh_exec_def instr_jmp_neq_hm_exec_def
  instr_jmp_neq_hh_exec_def instr_jmp_neq_i_exec_def instr_jmp_lt_exec_def instr_jmp_lt_mh_exec_def
  instr_jmp_lt_hm_exec_def instr_jmp_lt_hh_exec_def instr_jmp_lt_mi_exec_def instr_jmp_lt_hi_exec_def
  instr_jmp_gt_exec_def instr_jmp_gt_mh_exec_def instr_jmp_gt_hm_exec_def instr_jmp_gt_hh_exec_def
  instr_jmp_gt_mi_exec_def instr_jmp_gt_hi_exec_def

lemmas jmp_macro_defs =
  JMP_CMP_def JMP_CMP_MH_def JMP_CMP_HM_def JMP_CMP_HH_def JMP_CMP_HH_FAST_def JMP_CMP_I_def JMP_CMP_HI_def

lemma jmp_exec_reloc:
  assumes "h (t_ip t + 1) = h (t_ip t) + 1"
  shows "jmp_exec ty (ip_map h t) (ip\<lparr>jmp_ip := h (jmp_ip ip)\<rparr>) = ip_map h (jmp_exec ty t ip)"
  using assms
  by (cases ty) (simp_all add: jmp_body_defs jmp_macro_defs thread_ip_set_def Let_def HEADER_VALID_def ip_map_def
      set_ips_def op_addr_def)

lemma end_packet_reloc:
  assumes "\<And>p. body (pipe_map h p) = pipe_map h (body p)" and "h 0 = 0" and "h (Suc 0) = Suc 0"
    and "\<And>io. code 0 = Some (Io INSTR_RX io) \<longleftrightarrow> sw_code s 0 = Some (Io INSTR_RX io)"
  shows "end_packet body (reloc h code s) = map_sum id (reloc h code) (end_packet body s)"
proof (cases "\<exists>io. sw_code s 0 = Some (Io INSTR_RX io)")
  case True
  then obtain io where io: "sw_code s 0 = Some (Io INSTR_RX io)" "code 0 = Some (Io INSTR_RX io)" using assms(4) by blast
  let ?p = "set_cur (body (sw_pipe s)) (thread_ip_set (cur (body (sw_pipe s))) 0)"
  have z: "thread_ip_set (ip_map h t) 0 = ip_map h (thread_ip_set t 0)" for t
    using assms(2) by (simp add: thread_ip_set_def ip_map_def set_ips_def)
  have "t_ip (cur ?p) = 0" by (simp add: thread_ip_set_def)
  then have "instr_rx_exec io (pipe_map h ?p) = pipe_map h (instr_rx_exec io ?p)"
    by (intro rx_exec_pipe_map) (simp add: assms(2,3))
  then show ?thesis by (simp add: end_packet_def io Let_def assms(1) z rx_exec_def)
next
  case False
  then have "end_packet body s = Inl BadIp"
    by (auto simp: end_packet_def Let_def split: option.split instruction.split io_type.split)
  moreover have "end_packet body (reloc h code s) = Inl BadIp"
    using False assms(4) by (auto simp: end_packet_def Let_def split: option.split instruction.split io_type.split)
  ultimately show ?thesis by simp
qed

lemma table_key_reloc [simp]: "table_key tb (ip_map h t) = table_key tb t"
  by (intro ext) (simp add: table_key_def)

lemma table_func_reloc [simp]: "table_func_exec ts tb (ip_map h t) = table_func_exec ts tb t"
  by (simp add: table_func_exec_def split: table_func.split option.split)

lemma map_bindR: "map_sum id F (bindR r f) = bindR r (\<lambda>x. map_sum id F (f x))"
  by (cases r) simp_all

lemma bindR_congI: "r = r' \<Longrightarrow> (\<And>x. r = Inr x \<Longrightarrow> f x = g x) \<Longrightarrow> bindR r f = bindR r' g"
  by (cases r') auto

lemma getR_eq_Inr [simp]: "getR e r = Inr x \<longleftrightarrow> r = Some x"
  by (simp add: getR_def split: option.split)

lemma ip_map_ret:
  "h x = x \<Longrightarrow> h (Suc a) = Suc (h a) \<Longrightarrow>
   (ip_map h t)\<lparr>t_ret := Suc (h a), t_ip := x\<rparr> = ip_map h (t\<lparr>t_ret := Suc a, t_ip := x\<rparr>)"
  by (simp add: ip_map_def set_ips_def)

lemma instr_table_exec_reloc:
  assumes "h (t_ip (sw_cur s) + 1) = h (t_ip (sw_cur s)) + 1"
    and "\<And>a. a \<in> set (sw_action_instructions s) \<Longrightarrow> h a = a"
  shows "instr_table_exec tb (reloc h code s) = map_sum id (reloc h code) (instr_table_exec tb s)"
proof -
  have tgt: "h x = x" if "aget (sw_action_instructions s) i = Some x" for i x
    using that by (intro assms(2)) (auto simp: aget_Some_iff)
  show ?thesis
    unfolding instr_table_exec_def Let_def map_bindR
    by (intro bindR_congI)
      (use assms(1) in \<open>auto simp: ip_map_upd ip_map_ret map_bindR thread_ip_action_call_def
        split: prod.split option.split intro!: bindR_congI dest!: tgt\<close>)
qed

lemma opt_ip_free:
  assumes f: "\<And>a r t. f (set_ips a r t) = map_option (map_prod id (set_ips a r)) (f t)"
  shows opt_ip_keeps: "f t = Some (x, t') \<Longrightarrow> t_ip t' = t_ip t \<and> t_ret t' = t_ret t"
    and opt_ip_map: "f (ip_map h t) = map_option (map_prod id (ip_map h)) (f t)"
proof -
  have keep: "t_ip t' = t_ip t \<and> t_ret t' = t_ret t" if e: "f t = Some (x, t')" for x t'
  proof -
    have "t' = set_ips (t_ip t) (t_ret t) t'" using f [of "t_ip t" "t_ret t" t] e by simp
    then show ?thesis by (metis set_ips_sel(17,18))
  qed
  then show "f t = Some (x, t') \<Longrightarrow> t_ip t' = t_ip t \<and> t_ret t' = t_ret t" by blast
  show "f (ip_map h t) = map_option (map_prod id (ip_map h)) (f t)"
    using keep by (cases "f t") (auto simp: ip_map_def f)
qed

lemma reg_exec_reloc:
  assumes "h (t_ip (sw_cur s) + 1) = h (t_ip (sw_cur s)) + 1"
  shows "reg_exec ty ip (reloc h code s) = map_sum id (reloc h code) (reg_exec ty ip s)"
proof -
  note f = opt_ip_free [of "\<lambda>t. regarray_exec ty (sw_regs s) t ip", OF regarray_exec_set_ips]
  show ?thesis using assms
    by (auto simp: reg_exec_def f(2) ip_inc_map split: option.split dest!: f(1))
qed

lemma meter_exec_reloc:
  assumes "h (t_ip (sw_cur s) + 1) = h (t_ip (sw_cur s)) + 1"
  shows "sw_meter_exec ty ip (reloc h code s) = map_sum id (reloc h code) (sw_meter_exec ty ip s)"
proof -
  note f = opt_ip_free [of "\<lambda>t. met_exec ty (sw_tsc s (sw_tsc_reads s)) (sw_meters s) t ip", OF met_exec_set_ips]
  show ?thesis using assms
    by (auto simp: sw_meter_exec_def f(2) ip_inc_map split: option.split dest!: f(1))
qed

lemma hash_exec_reloc:
  assumes "h (t_ip (sw_cur s) + 1) = h (t_ip (sw_cur s)) + 1"
  shows "hash_exec ip (reloc h code s) = map_sum id (reloc h code) (hash_exec ip s)"
proof -
  have "map_option (Pair ()) (instr_hash_func_exec_body fs (set_ips a r t) ip) =
      map_option (map_prod id (set_ips a r)) (map_option (Pair ()) (instr_hash_func_exec_body fs t ip))" for fs a r t
    by (simp add: option.map_comp comp_def)
  note f = opt_ip_free [of "\<lambda>t. map_option (Pair ()) (instr_hash_func_exec_body (sw_hash_funcs s) t ip)", OF this]
  show ?thesis
  proof (cases "instr_hash_func_exec_body (sw_hash_funcs s) (sw_cur s) ip")
    case None
    then have "instr_hash_func_exec_body (sw_hash_funcs s) (ip_map h (sw_cur s)) ip = None" using f(2) [of h "sw_cur s"] by simp
    with None show ?thesis by (simp add: hash_exec_def)
  next
    case (Some t)
    then have "instr_hash_func_exec_body (sw_hash_funcs s) (ip_map h (sw_cur s)) ip = Some (ip_map h t)"
      using f(2) [of h "sw_cur s"] by auto
    with Some assms show ?thesis using f(1) [of "sw_cur s" "()" t] by (simp add: hash_exec_def ip_inc_map)
  qed
qed

text \<open>
  One instruction after relocation: if \<open>h\<close> maps the address behind the instruction to the address behind
  its image, leaves the starts of the actions and of the pipeline where they are, and jumps are
  redirected, the relocated instruction does on the relocated state what the instruction does.
\<close>

lemma exec_instruction_reloc:
  assumes nxt: "h (t_ip (sw_cur s) + 1) = h (t_ip (sw_cur s)) + 1"
    and act: "\<And>a. a \<in> set (sw_action_instructions s) \<Longrightarrow> h a = a"
    and h0: "h 0 = 0" "h (Suc 0) = Suc 0"
    and rx: "\<And>io. code 0 = Some (Io INSTR_RX io) \<longleftrightarrow> sw_code s 0 = Some (Io INSTR_RX io)"
  shows "exec_instruction (reloc_instr h i) (reloc h code s) = map_sum id (reloc h code) (exec_instruction i s)"
proof (cases i)
  case (Io ty ip)
  show ?thesis
  proof (cases "ty = INSTR_RX")
    case True
    then show ?thesis using nxt
      by (simp add: Io exec_instruction_def reloc_instr_def rx_exec_def rx_exec_pipe_map)
  next
    case False
    then show ?thesis using nxt h0 rx
      by (simp add: Io exec_instruction_def reloc_instr_def end_packet_reloc thread_exec_reloc)
  qed
next
  case (Plain ty)
  then show ?thesis using nxt h0 rx
    by (cases ty) (simp_all add: exec_instruction_def reloc_instr_def end_packet_reloc thread_exec_reloc
        instr_return_exec_def ip_map_ip)
next
  case (Mirror dst src)
  have "t_ip (cur (instr_mirror_exec_body (sw_pipe s) dst src)) = t_ip (sw_cur s)"
    by (simp add: instr_mirror_exec_body_def Let_def)
  then show ?thesis using nxt
    by (simp add: Mirror exec_instruction_def reloc_instr_def mirror_exec_def Let_def ip_inc_map)
next
  case (Table n)
  then show ?thesis using nxt act by (simp add: exec_instruction_def reloc_instr_def instr_table_exec_reloc)
next
  case (Jmp ty ip)
  then show ?thesis using nxt
    by (simp add: exec_instruction_def reloc_instr_def jmp_exec_reloc)
qed (use nxt in \<open>simp_all add: exec_instruction_def reloc_instr_def thread_exec_reloc
    reg_exec_reloc meter_exec_reloc hash_exec_reloc\<close>)

end
