(* ===== verification/SwxSound.thy ===== *)
theory SwxSound
  imports SwxIp TableEmMap
begin

text \<open>
  The interpreter is safe: on a pipeline whose program is closed under control flow and whose
  identifiers are in range, no instruction faults, whatever the packets, the table entries, the clock and the
  points in time at which the control plane commits new tables.
\<close>

section \<open>A lookup in progress\<close>

text \<open>What a mailbox holds between the steps of a lookup: a bucket, and then the number of a key.\<close>

definition mailbox_ok :: "em_table \<Rightarrow> mailbox \<Rightarrow> bool" where
  "mailbox_ok t m \<longleftrightarrow>
     m_state m = 0 \<or> m_state m = 1 \<and> ref_ok t (m_bkt m) \<or>
     m_state m = 2 \<and> ref_ok t (m_bkt m) \<and> unat (m_bkt_key_id m) < length (em_keys t)"

lemma and_3_less: "unat (x AND 3 :: u32) < 4"
proof -
  have "x AND 3 \<le> 3" by (rule word_and_le1)
  then show ?thesis by (simp add: word_le_nat_alt)
qed

lemma lookup_unoptimized_data:
  assumes "table_lookup_unoptimized t k = Inr (Some d)"
  shows "d \<in> set (em_data t)"
  using assms
  by (auto simp: table_lookup_unoptimized_def bindR_eq_Inr aget_Some_iff split: option.splits)

lemma table_lookup_safe:
  assumes rep: "em_rep t f" and m: "mailbox_ok t m"
  shows "\<exists>m' r. table_lookup t m k = Inr (m', r) \<and> mailbox_ok t m' \<and> (r \<noteq> None \<longrightarrow> m_state m' = 0) \<and>
    (\<forall>d. r = Some (True, d) \<longrightarrow> d \<in> set (em_data t))"
proof -
  from rep have sh: "em_shape t" by (auto simp: em_rep_def)
  have bkt: "length (b_key_id (bk t r)) = 4" "\<forall>i \<in> set (b_key_id (bk t r)). unat i < length (em_keys t)" if "ref_ok t r" for r
    using sh that by (auto simp: em_shape_def bucket_ok_def)
  have len: "length (em_data t) = length (em_keys t)" using sh by (simp add: em_shape_def)
  consider "m_state m = 0" | "m_state m = 1" "ref_ok t (m_bkt m)"
    | "m_state m = 2" "ref_ok t (m_bkt m)" "unat (m_bkt_key_id m) < length (em_keys t)"
    using m by (auto simp: mailbox_ok_def)
  then show ?thesis
  proof cases
    case 1
    have "ref_ok t (bkt_of t k)"
      using sh home_less [of t k] by (simp add: home_bkt_of ref_ok_def em_shape_def)
    then show ?thesis using 1 by (simp add: table_lookup_def lookup_step0_def mailbox_ok_def)
  next
    case 2
    note b = bkt [OF 2(2)]
    have "unat (b_key_id (bk t (m_bkt m)) ! unat (x AND 3 :: u32)) < length (em_keys t)" for x
      using b(2) nth_mem [of "unat (x AND 3 :: u32)" "b_key_id (bk t (m_bkt m))"] and_3_less [of x] b(1) by simp
    then show ?thesis using 2 by (simp add: table_lookup_def lookup_step1_def get_bkt_ok mailbox_ok_def Let_def)
  next
    case 3
    obtain res where un: "table_lookup_unoptimized t k = Inr res" using table_lookup_rep [OF rep] by blast
    have k: "aget (em_keys t) (unat (m_bkt_key_id m)) = Some (em_keys t ! unat (m_bkt_key_id m))"
      "aget (em_data t) (unat (m_bkt_key_id m)) = Some (em_data t ! unat (m_bkt_key_id m))"
      "em_data t ! unat (m_bkt_key_id m) \<in> set (em_data t)"
      using 3(3) len by simp_all
    show ?thesis
    proof (cases res)
      case None
      then show ?thesis using 3 k un by (auto simp: table_lookup_def lookup_step2_def get_bkt_ok Let_def mailbox_ok_def)
    next
      case (Some d)
      then have "d \<in> set (em_data t)" using lookup_unoptimized_data un by blast
      then show ?thesis using 3 k un Some by (auto simp: table_lookup_def lookup_step2_def get_bkt_ok Let_def mailbox_ok_def)
    qed
  qed
qed

section \<open>Closed programs\<close>

text \<open>Where the instruction pointer can go from an instruction at \<open>a\<close>, other than to the start, to an action or back from it.\<close>

definition next_ips :: "nat \<Rightarrow> instruction \<Rightarrow> nat set" where
  "next_ips a i =
     (case i of
        Io ty _ \<Rightarrow> if instruction_does_tx i then {} else {a + 1}
      | Plain ty \<Rightarrow> if ty = INSTR_RECIRCULATE then {a + 1} else {}
      | Jmp ty ip \<Rightarrow> if ty = INSTR_JMP then {jmp_ip ip} else {jmp_ip ip, a + 1}
      | _ \<Rightarrow> {a + 1})"

text \<open>The addresses \<open>A\<close> hold instructions and are not left.\<close>

definition code_closed :: "nat set \<Rightarrow> (nat \<Rightarrow> instruction option) \<Rightarrow> bool" where
  "code_closed A code \<longleftrightarrow>
     0 \<in> A \<and> (\<exists>io. code 0 = Some (Io INSTR_RX io)) \<and> (\<forall>a \<in> A. \<exists>i. code a = Some i \<and> next_ips a i \<subseteq> A)"

text \<open>Tables, arrays and functions that an instruction names exist.\<close>

definition ids_ok :: "swx \<Rightarrow> instruction \<Rightarrow> bool" where
  "ids_ok s i =
     (case i of
        Regarray _ ip \<Rightarrow> ra_regarray_id ip < length (sw_regs s)
      | Meter _ ip \<Rightarrow> im_metarray_id ip < length (ms_rt (sw_meters s))
      | Table k \<Rightarrow> k < length (sw_stats s)
      | HashFunc ip \<Rightarrow> hf_hash_func_id ip < length (sw_hash_funcs s)
      | _ \<Rightarrow> True)"

definition n_actions :: "swx \<Rightarrow> nat" where
  "n_actions s = length (sw_action_instructions s)"

text \<open>A table whose entries and whose default name actions that exist.\<close>

definition table_ok :: "nat \<Rightarrow> table_runtime \<Rightarrow> table_state \<Rightarrow> bool" where
  "table_ok n tr ts \<longleftrightarrow>
     unat (ts_default_action_id ts) < n \<and>
     (tr_func tr \<noteq> TABLE_STUB \<longrightarrow> (\<exists>t f. ts_obj ts = Some t \<and> em_rep t f \<and> (\<forall>d \<in> set (em_data t). unat (fst d) < n)))"

definition tables_fit :: "swx \<Rightarrow> table_state list \<Rightarrow> bool" where
  "tables_fit s states \<longleftrightarrow>
     length states = length (sw_stats s) \<and>
     (\<forall>j < 16. \<forall>k < length (sw_stats s). table_ok (n_actions s) (sw_tables s j ! k) (states ! k))"

text \<open>
  A thread that is in the middle of a lookup is at the table instruction, and its mailbox fits the table
  that it sees.
\<close>

definition busy_ok :: "swx \<Rightarrow> nat \<Rightarrow> nat \<Rightarrow> bool" where
  "busy_ok s j k \<longleftrightarrow>
     (let tr = sw_tables s j ! k in
      m_state (tr_mailbox tr) \<noteq> 0 \<longrightarrow>
        tr_func tr = TABLE_EM \<and> sw_code s (t_ip (threads (sw_pipe s) j)) = Some (Table k) \<and>
        (\<exists>t. ts_obj (sw_states s ! sw_t_state s j ! k) = Some t \<and> mailbox_ok t (tr_mailbox tr)))"

definition swx_ok :: "nat set \<Rightarrow> swx \<Rightarrow> bool" where
  "swx_ok A s \<longleftrightarrow>
     code_closed A (sw_code s) \<and> (\<forall>a \<in> A. \<forall>i. sw_code s a = Some i \<longrightarrow> ids_ok s i) \<and> set (sw_action_instructions s) \<subseteq> A \<and>
     tid (sw_pipe s) < 16 \<and>
     (\<forall>j < 16. t_ip (threads (sw_pipe s) j) \<in> A \<and> t_ret (threads (sw_pipe s) j) \<in> A) \<and>
     sw_table_state s < length (sw_states s) \<and> (\<forall>states \<in> set (sw_states s). tables_fit s states) \<and>
     (\<forall>j < 16. sw_t_state s j < length (sw_states s) \<and> length (sw_tables s j) = length (sw_stats s) \<and>
        (\<forall>k < length (sw_stats s). busy_ok s j k)) \<and>
     (\<forall>st \<in> set (sw_stats s). length (st_n_pkts_action st) = n_actions s) \<and>
     regs_ok (sw_regs s) \<and> meters_inv (sw_meters s)"

section \<open>Steps that only move threads\<close>

text \<open>The pipeline after a step: only the thread that ran has changed, and it is at an address of the program.\<close>

definition thread_step :: "nat set \<Rightarrow> swx \<Rightarrow> pipeline \<Rightarrow> bool" where
  "thread_step A s p \<longleftrightarrow>
     tid p < 16 \<and> (\<forall>j. j \<noteq> tid (sw_pipe s) \<longrightarrow> t_ip (threads p j) = t_ip (threads (sw_pipe s) j) \<and> t_ret (threads p j) = t_ret (threads (sw_pipe s) j)) \<and>
     t_ip (threads p (tid (sw_pipe s))) \<in> A \<and> t_ret (threads p (tid (sw_pipe s))) \<in> A"

definition idle :: "swx \<Rightarrow> nat \<Rightarrow> bool" where
  "idle s j \<longleftrightarrow> (\<forall>k < length (sw_stats s). m_state (tr_mailbox (sw_tables s j ! k)) = 0)"

lemma idle_unless_table:
  assumes "swx_ok A s" and "j < 16" and "sw_code s (t_ip (threads (sw_pipe s) j)) = Some i" and "\<forall>k. i \<noteq> Table k"
  shows "idle s j"
  using assms by (fastforce simp: swx_ok_def busy_ok_def idle_def Let_def)

lemma swx_ok_pipe:
  assumes s: "swx_ok A s" and p: "thread_step A s p" and id: "idle s (tid (sw_pipe s))"
  shows "swx_ok A (s\<lparr>sw_pipe := p\<rparr>)"
proof -
  have busy: "busy_ok (s\<lparr>sw_pipe := p\<rparr>) j k" if "j < 16" "k < length (sw_stats s)" for j k
  proof (cases "j = tid (sw_pipe s)")
    case True
    then show ?thesis using id that(2) by (simp add: busy_ok_def idle_def Let_def)
  next
    case False
    then have "t_ip (threads p j) = t_ip (threads (sw_pipe s) j)" using p by (simp add: thread_step_def)
    moreover have "busy_ok s j k" using s that by (simp add: swx_ok_def)
    ultimately show ?thesis by (simp add: busy_ok_def Let_def)
  qed
  have ips: "t_ip (threads p j) \<in> A \<and> t_ret (threads p j) \<in> A" if "j < 16" for j
    using s p that by (cases "j = tid (sw_pipe s)") (simp_all add: swx_ok_def thread_step_def)
  have "ids_ok (s\<lparr>sw_pipe := p\<rparr>) i = ids_ok s i" for i by (cases i) (simp_all add: ids_ok_def)
  moreover have "tables_fit (s\<lparr>sw_pipe := p\<rparr>) st = tables_fit s st" for st by (simp add: tables_fit_def n_actions_def)
  moreover have "tid p < 16" using p by (simp add: thread_step_def)
  ultimately show ?thesis using s busy ips unfolding swx_ok_def by (simp add: n_actions_def)
qed

lemma thread_step_set_cur:
  assumes "swx_ok A s" and "t_ip t \<in> A" and "t_ret t \<in> A"
  shows "thread_step A s (set_cur (sw_pipe s) t)"
  using assms by (simp add: thread_step_def set_cur_def swx_ok_def)


text \<open>What keeps the state well-formed beside a step of a thread: registers, meters, counters and the clock.\<close>

lemma ids_ok_cong:
  "length (sw_regs s') = length (sw_regs s) \<Longrightarrow> length (ms_rt (sw_meters s')) = length (ms_rt (sw_meters s)) \<Longrightarrow>
   length (sw_stats s') = length (sw_stats s) \<Longrightarrow> sw_hash_funcs s' = sw_hash_funcs s \<Longrightarrow> ids_ok s' i = ids_ok s i"
  by (cases i) (simp_all add: ids_ok_def)

lemma swx_ok_regs:
  assumes "swx_ok A s" and "regs_ok r" and "length r = length (sw_regs s)"
  shows "swx_ok A (s\<lparr>sw_regs := r\<rparr>)"
proof -
  have "ids_ok (s\<lparr>sw_regs := r\<rparr>) i = ids_ok s i" for i using assms(3) by (intro ids_ok_cong) simp_all
  moreover have "tables_fit (s\<lparr>sw_regs := r\<rparr>) st = tables_fit s st" for st by (simp add: tables_fit_def n_actions_def)
  moreover have "busy_ok (s\<lparr>sw_regs := r\<rparr>) j k = busy_ok s j k" for j k by (simp add: busy_ok_def)
  ultimately show ?thesis using assms unfolding swx_ok_def by (simp add: n_actions_def)
qed

lemma swx_ok_meters:
  assumes "swx_ok A s" and "meters_inv m" and "length (ms_rt m) = length (ms_rt (sw_meters s))"
  shows "swx_ok A (s\<lparr>sw_meters := m, sw_tsc_reads := c\<rparr>)"
proof -
  let ?s = "s\<lparr>sw_meters := m, sw_tsc_reads := c\<rparr>"
  have "ids_ok ?s i = ids_ok s i" for i using assms(3) by (intro ids_ok_cong) simp_all
  moreover have "tables_fit ?s st = tables_fit s st" for st by (simp add: tables_fit_def n_actions_def)
  moreover have "busy_ok ?s j k = busy_ok s j k" for j k by (simp add: busy_ok_def)
  ultimately show ?thesis using assms unfolding swx_ok_def by (simp add: n_actions_def)
qed

lemma swx_ok_stats:
  assumes "swx_ok A s" and "length st = length (sw_stats s)" and "\<forall>x \<in> set st. length (st_n_pkts_action x) = n_actions s"
  shows "swx_ok A (s\<lparr>sw_stats := st\<rparr>)"
proof -
  let ?s = "s\<lparr>sw_stats := st\<rparr>"
  have "ids_ok ?s i = ids_ok s i" for i using assms(2) by (intro ids_ok_cong) simp_all
  moreover have "tables_fit ?s x = tables_fit s x" for x using assms(2) by (simp add: tables_fit_def n_actions_def)
  moreover have "busy_ok ?s j k = busy_ok s j k" for j k by (simp add: busy_ok_def)
  ultimately show ?thesis using assms unfolding swx_ok_def by (simp add: n_actions_def)
qed

text \<open>A thread that is in no lookup can take over the current tables.\<close>

lemma swx_ok_take_state:
  assumes "swx_ok A s" and "idle s j"
  shows "swx_ok A (s\<lparr>sw_t_state := (sw_t_state s)(j := sw_table_state s)\<rparr>)"
proof -
  let ?s = "s\<lparr>sw_t_state := (sw_t_state s)(j := sw_table_state s)\<rparr>"
  have "ids_ok ?s i = ids_ok s i" for i by (intro ids_ok_cong) simp_all
  moreover have "tables_fit ?s x = tables_fit s x" for x by (simp add: tables_fit_def n_actions_def)
  moreover have "busy_ok s i k \<Longrightarrow> k < length (sw_stats s) \<Longrightarrow> busy_ok ?s i k" for i k
    using assms(2) by (cases "i = j") (simp_all add: busy_ok_def idle_def Let_def)
  ultimately show ?thesis using assms unfolding swx_ok_def by (simp add: n_actions_def)
qed

lemma swx_ok_set_cur:
  assumes "swx_ok A s" and "idle s (tid (sw_pipe s))" and "t_ip t \<in> A" and "t_ret t \<in> A"
  shows "swx_ok A (sw_set_cur s t)"
  unfolding sw_set_cur_def by (rule swx_ok_pipe [OF assms(1) thread_step_set_cur [OF assms(1,3,4)] assms(2)])

lemma yield_tid: "tid (thread_yield p) < 16"
proof -
  have "(thread_id p + 1) AND 15 \<le> 15" by (rule word_and_le1)
  then show ?thesis by (simp add: thread_yield_def RTE_SWX_PIPELINE_THREADS_MAX_def word_le_nat_alt)
qed

section \<open>The ends of a packet\<close>

text \<open>The bodies of the transmissions leave the other threads and the return address alone.\<close>

definition body_ok :: "(pipeline \<Rightarrow> pipeline) \<Rightarrow> bool" where
  "body_ok body \<longleftrightarrow>
     (\<forall>p. thread_id (body p) = thread_id p \<and> t_ret (cur (body p)) = t_ret (cur p) \<and>
        (\<forall>j. j \<noteq> tid p \<longrightarrow> threads (body p) j = threads p j))"

lemma set_cur_threads: "threads (set_cur p t) = (threads p)(tid p := t)"
  by (simp add: set_cur_def)

lemma cur_threads: "threads p (tid p) = cur p"
  by (simp add: cur_def)

lemmas body_simps = body_ok_def mirroring_handler_out pkt_tx_def Let_def set_cur_threads
  ip_free_keeps [OF ip_free_emit_handler]

lemma body_ok_tx:
  "body_ok (\<lambda>p. instr_tx_exec_body p ip)" "body_ok (\<lambda>p. instr_tx_i_exec_body p ip)" "body_ok instr_drop_exec_body"
  by (simp_all add: body_simps instr_tx_exec_body_def instr_tx_i_exec_body_def instr_drop_exec_body_def)

lemma body_ok_emit_many_tx: "body_ok (\<lambda>p. emit_many_tx p ip n)"
proof -
  have "ip_free (\<lambda>t. instr_hdr_emit_many_exec t ip n)" by (simp add: ip_free_def)
  from ip_free_keeps(2) [OF this] body_ok_tx(1) [of ip] show ?thesis
    by (simp add: body_ok_def emit_many_tx_def set_cur_threads)
qed

lemma body_ok_tx_exec: "body_ok (\<lambda>p. tx_exec ty p ip)"
  using body_ok_tx(1,2) [of ip] body_ok_emit_many_tx [of ip]
  by (cases ty) (simp_all add: body_ok_def instr_hdr_emit_tx_exec_body_def instr_hdr_emit2_tx_exec_body_def
      instr_hdr_emit3_tx_exec_body_def instr_hdr_emit4_tx_exec_body_def instr_hdr_emit5_tx_exec_body_def
      instr_hdr_emit6_tx_exec_body_def instr_hdr_emit7_tx_exec_body_def instr_hdr_emit8_tx_exec_body_def)

text \<open>Reception, at address 0: the thread stays there or goes on to address 1.\<close>

lemma rx_threads:
  assumes "instr_rx_exec_body p ip = (p', b)" and "j \<noteq> tid p"
  shows "threads p' j = threads p j"
  using assms
  by (auto simp: instr_rx_exec_body_def pkt_rx_def Let_def set_cur_def pipeline_port_inc_def
      split: if_splits list.splits prod.splits)

lemma rx_thread_step:
  assumes "swx_ok A s" and "t_ip (cur p) \<in> A" and "t_ip (cur p) + 1 \<in> A" and "t_ret (cur p) \<in> A"
    and "thread_id p = thread_id (sw_pipe s)" and "\<And>j. j \<noteq> tid p \<Longrightarrow> threads p j = threads (sw_pipe s) j"
  shows "thread_step A s (instr_rx_exec ip p)"
proof -
  obtain p1 b where p1: "instr_rx_exec_body p ip = (p1, b)" by fastforce
  note k = rx_keeps_ip [OF p1]
  have "threads p1 j = threads (sw_pipe s) j" if "j \<noteq> tid (sw_pipe s)" for j
    using rx_threads [OF p1, of j] assms(5,6) that by metis
  with k assms(1-5) yield_tid [of "set_cur p1 (thread_ip_inc_cond (cur p1) b)"] show ?thesis
    by (auto simp: thread_step_def instr_rx_exec_def p1 set_cur_def thread_yield_def thread_ip_inc_cond_def)
qed

lemma start_closed:
  assumes "code_closed A code"
  shows "0 \<in> A" and "1 \<in> A" and "\<exists>io. code 0 = Some (Io INSTR_RX io)"
  using assms by (fastforce simp: code_closed_def next_ips_def instruction_does_tx_def)+

lemma take_state_swap:
  "swx_ok A (s\<lparr>sw_pipe := p\<rparr>) \<Longrightarrow> idle s j \<Longrightarrow>
   swx_ok A (s\<lparr>sw_pipe := p, sw_t_state := (sw_t_state s)(j := sw_table_state s)\<rparr>)"
  using swx_ok_take_state [of A "s\<lparr>sw_pipe := p\<rparr>" j] by (simp add: idle_def)

lemma end_packet_safe:
  assumes s: "swx_ok A s" and id: "idle s (tid (sw_pipe s))" and b: "body_ok body"
  shows "\<exists>s'. end_packet body s = Inr s' \<and> swx_ok A s'"
proof -
  have cl: "code_closed A (sw_code s)" using s by (simp add: swx_ok_def)
  obtain io where io: "sw_code s 0 = Some (Io INSTR_RX io)" using start_closed(3) [OF cl] by blast
  let ?p = "body (sw_pipe s)"
  let ?q = "set_cur ?p (thread_ip_set (cur ?p) 0)"
  have "t_ret (cur ?p) = t_ret (cur (sw_pipe s))" using b by (simp add: body_ok_def)
  then have ret: "t_ret (cur ?p) \<in> A" using s by (simp add: swx_ok_def cur_def)
  have step: "thread_step A s (instr_rx_exec io ?q)"
  proof (rule rx_thread_step [OF s])
    show "t_ip (cur ?q) \<in> A" "t_ip (cur ?q) + 1 \<in> A" "t_ret (cur ?q) \<in> A"
      using start_closed(1,2) [OF cl] ret by (simp_all add: thread_ip_set_def)
    show "thread_id ?q = thread_id (sw_pipe s)" using b by (simp add: body_ok_def)
    show "\<And>j. j \<noteq> tid ?q \<Longrightarrow> threads ?q j = threads (sw_pipe s) j" using b by (simp add: body_ok_def set_cur_threads)
  qed
  have "tid ?q = tid (sw_pipe s)" using b by (simp add: body_ok_def)
  then show ?thesis using take_state_swap [OF swx_ok_pipe [OF s step id] id]
    by (simp add: end_packet_def Let_def io rx_exec_def)
qed


section \<open>One instruction\<close>

lemma cur_ips:
  assumes "swx_ok A s"
  shows "t_ip (sw_cur s) \<in> A" and "t_ret (sw_cur s) \<in> A" and "tid (sw_pipe s) < 16"
  using assms by (simp_all add: swx_ok_def cur_def)

lemma next_closed:
  assumes "swx_ok A s" and "sw_code s (t_ip (sw_cur s)) = Some i"
  shows "next_ips (t_ip (sw_cur s)) i \<subseteq> A" and "ids_ok s i"
proof -
  have "code_closed A (sw_code s)" "\<forall>a \<in> A. \<forall>i. sw_code s a = Some i \<longrightarrow> ids_ok s i"
    using assms(1) unfolding swx_ok_def by blast+
  then show "next_ips (t_ip (sw_cur s)) i \<subseteq> A" "ids_ok s i"
    using assms(2) cur_ips(1) [OF assms(1)] by (auto simp: code_closed_def dest!: bspec [of A _ "t_ip (sw_cur s)"])
qed

lemma idle_cur:
  assumes "swx_ok A s" and "sw_code s (t_ip (sw_cur s)) = Some i" and "\<forall>k. i \<noteq> Table k"
  shows "idle s (tid (sw_pipe s))"
  using idle_unless_table [OF assms(1) cur_ips(3) [OF assms(1)] _ assms(3)] assms(2) by (simp add: cur_def)

lemma thread_exec_safe:
  assumes "swx_ok A s" and "idle s (tid (sw_pipe s))" and "t_ip (sw_cur s) + 1 \<in> A" and "ip_free f"
  shows "\<exists>s'. thread_exec f s = Inr s' \<and> swx_ok A s'"
  using swx_ok_set_cur [OF assms(1,2)] assms(3) cur_ips(2) [OF assms(1)] ip_free_keeps [OF assms(4)]
  by (simp add: thread_exec_def thread_ip_inc_def)

lemma rx_safe:
  assumes s: "swx_ok A s" and id: "idle s (tid (sw_pipe s))" and n: "t_ip (sw_cur s) + 1 \<in> A"
  shows "swx_ok A (rx_exec ip s)"
proof -
  have "thread_step A s (instr_rx_exec ip (sw_pipe s))"
    by (rule rx_thread_step [OF s]) (use cur_ips [OF s] n in simp_all)
  from take_state_swap [OF swx_ok_pipe [OF s this id] id] show ?thesis by (simp add: rx_exec_def)
qed

lemma mirror_safe:
  assumes s: "swx_ok A s" and id: "idle s (tid (sw_pipe s))" and n: "t_ip (sw_cur s) + 1 \<in> A"
  shows "\<exists>s'. mirror_exec dst src s = Inr s' \<and> swx_ok A s'"
proof -
  obtain t where t: "instr_mirror_exec_body (sw_pipe s) dst src = set_cur (sw_pipe s) t"
      "t_ip t = t_ip (sw_cur s)" "t_ret t = t_ret (sw_cur s)"
    by (simp add: instr_mirror_exec_body_def Let_def)
  have "swx_ok A (sw_set_cur s (thread_ip_inc t))"
    by (rule swx_ok_set_cur [OF s id]) (use t n cur_ips [OF s] in \<open>simp_all add: thread_ip_inc_def\<close>)
  then show ?thesis by (simp add: mirror_exec_def t(1) sw_set_cur_def)
qed

lemma regarray_exec_length: "regarray_exec ty p t ip = Some (p', t') \<Longrightarrow> length p' = length p"
  by (cases ty) (auto simp: regwr_defs regadd_defs regrd_defs Let_def dest: reg_store_shape(2) reg_add_shape(2))

lemma regarray_exec_ok:
  assumes "regs_ok p" and "ra_regarray_id ip < length p"
  shows "\<exists>p' t'. regarray_exec ty p t ip = Some (p', t') \<and> regs_ok p'"
proof -
  have w: "\<exists>p'. f p t ip = Some p' \<and> regs_ok p'" if "f \<in> set regwr_all" for f
    using regs_write_ok [OF assms that] by metis
  have r: "\<exists>t'. f p t ip = Some t'" if "f \<in> set regrd_all" for f
    using regs_read_ok [OF assms that] .
  have "list_all (\<lambda>f. \<exists>p'. f p t ip = Some p' \<and> regs_ok p') regwr_all" "list_all (\<lambda>f. \<exists>t'. f p t ip = Some t') regrd_all"
    using w r by (simp_all add: list_all_iff)
  then show ?thesis using assms(1) unfolding regwr_all_def regrd_all_def list.pred_inject
    by (cases ty) auto
qed

lemma idle_upd [simp]:
  "idle (s\<lparr>sw_regs := r\<rparr>) j = idle s j" "idle (s\<lparr>sw_meters := m, sw_tsc_reads := c\<rparr>) j = idle s j"
  by (simp_all add: idle_def)

lemma reg_safe:
  assumes s: "swx_ok A s" and id: "idle s (tid (sw_pipe s))" and n: "t_ip (sw_cur s) + 1 \<in> A"
    and r: "ra_regarray_id ip < length (sw_regs s)"
  shows "\<exists>s'. reg_exec ty ip s = Inr s' \<and> swx_ok A s'"
proof -
  have "regs_ok (sw_regs s)" using s by (simp add: swx_ok_def)
  from regarray_exec_ok [OF this r] obtain p' t' where x: "regarray_exec ty (sw_regs s) (sw_cur s) ip = Some (p', t')"
      and p': "regs_ok p'" by blast
  have k: "t_ip t' = t_ip (sw_cur s) \<and> t_ret t' = t_ret (sw_cur s)"
    using opt_ip_free(1) [of "\<lambda>t. regarray_exec ty (sw_regs s) t ip", OF regarray_exec_set_ips x] .
  have "swx_ok A (s\<lparr>sw_regs := p'\<rparr>)" by (rule swx_ok_regs [OF s p' regarray_exec_length [OF x]])
  from swx_ok_set_cur [OF this] have "swx_ok A (sw_set_cur (s\<lparr>sw_regs := p'\<rparr>) (thread_ip_inc t'))"
    using id n k cur_ips(2) [OF s] by (simp add: thread_ip_inc_def)
  then show ?thesis by (simp add: reg_exec_def x)
qed

lemma met_exec_length: "met_exec ty time p t ip = Some (p', t') \<Longrightarrow> length (ms_rt p') = length (ms_rt p)"
  by (cases ty)
    (auto simp: meter_exec_defs meter_exec_def Let_def set_meter_def split: option.splits prod.splits)

lemma met_exec_ok:
  assumes "meters_inv p" and "im_metarray_id ip < length (ms_rt p)"
  shows "\<exists>p' t'. met_exec ty time p t ip = Some (p', t') \<and> meters_inv p'"
proof -
  have "\<exists>p' t'. meter_exec p t ip idx time len c = Some (p', t') \<and> meters_inv p'"
    if "unat idx \<le> unat (ma_size_mask (ms_rt p ! im_metarray_id ip))" for idx len c
    using meter_exec_runs [OF assms that] meter_exec_inv [OF assms(1)] by fast
  note r = this [OF meter_idx_bounds(1)] this [OF meter_idx_bounds(2)] this [OF meter_idx_bounds(3)]
  show ?thesis using assms(1) r by (cases ty) (simp_all add: meter_exec_defs Let_def)
qed

lemma meter_safe:
  assumes s: "swx_ok A s" and id: "idle s (tid (sw_pipe s))" and n: "t_ip (sw_cur s) + 1 \<in> A"
    and r: "im_metarray_id ip < length (ms_rt (sw_meters s))"
  shows "\<exists>s'. sw_meter_exec ty ip s = Inr s' \<and> swx_ok A s'"
proof -
  have "meters_inv (sw_meters s)" using s by (simp add: swx_ok_def)
  from met_exec_ok [OF this r] obtain p' t' where
      x: "met_exec ty (sw_tsc s (sw_tsc_reads s)) (sw_meters s) (sw_cur s) ip = Some (p', t')" and p': "meters_inv p'"
    by blast
  have k: "t_ip t' = t_ip (sw_cur s) \<and> t_ret t' = t_ret (sw_cur s)"
    using opt_ip_free(1) [of "\<lambda>t. met_exec ty (sw_tsc s (sw_tsc_reads s)) (sw_meters s) t ip", OF met_exec_set_ips x] .
  let ?s = "s\<lparr>sw_meters := p', sw_tsc_reads := sw_tsc_reads s + 1\<rparr>"
  have "swx_ok A ?s" by (rule swx_ok_meters [OF s p' met_exec_length [OF x]])
  from swx_ok_set_cur [OF this] have "swx_ok A (sw_set_cur ?s (thread_ip_inc t'))"
    using id n k cur_ips(2) [OF s] by (simp add: thread_ip_inc_def)
  then show ?thesis by (simp add: sw_meter_exec_def x)
qed

lemma hash_safe:
  assumes s: "swx_ok A s" and id: "idle s (tid (sw_pipe s))" and n: "t_ip (sw_cur s) + 1 \<in> A"
    and r: "hf_hash_func_id ip < length (sw_hash_funcs s)"
  shows "\<exists>s'. hash_exec ip s = Inr s' \<and> swx_ok A s'"
proof -
  obtain t' where x: "instr_hash_func_exec_body (sw_hash_funcs s) (sw_cur s) ip = Some t'"
      "t_ip t' = t_ip (sw_cur s)" "t_ret t' = t_ret (sw_cur s)"
    using r by (simp add: instr_hash_func_exec_body_def Let_def METADATA_WRITE_def)
  have "swx_ok A (sw_set_cur s (thread_ip_inc t'))"
    by (rule swx_ok_set_cur [OF s id]) (use x n cur_ips [OF s] in \<open>simp_all add: thread_ip_inc_def\<close>)
  then show ?thesis by (simp add: hash_exec_def x(1))
qed

lemma jmp_exec_ips:
  "t_ret (jmp_exec ty t ip) = t_ret t"
  "t_ip (jmp_exec ty t ip) = jmp_ip ip \<or> ty \<noteq> INSTR_JMP \<and> t_ip (jmp_exec ty t ip) = t_ip t + 1"
  by (cases ty; simp add: jmp_body_defs jmp_macro_defs thread_ip_set_def Let_def)+

lemma jmp_safe:
  assumes s: "swx_ok A s" and id: "idle s (tid (sw_pipe s))" and n: "next_ips (t_ip (sw_cur s)) (Jmp ty ip) \<subseteq> A"
  shows "swx_ok A (sw_set_cur s (jmp_exec ty (sw_cur s) ip))"
  by (rule swx_ok_set_cur [OF s id])
    (use jmp_exec_ips [of ty "sw_cur s" ip] n cur_ips(2) [OF s] in \<open>auto simp: next_ips_def split: if_splits\<close>)


section \<open>The table instruction\<close>

definition mid_lookup :: "table_state \<Rightarrow> table_runtime \<Rightarrow> bool" where
  "mid_lookup ts tr \<longleftrightarrow>
     m_state (tr_mailbox tr) \<noteq> 0 \<longrightarrow> tr_func tr = TABLE_EM \<and> (\<exists>t. ts_obj ts = Some t \<and> mailbox_ok t (tr_mailbox tr))"

lemma table_func_exec_safe:
  assumes t: "table_ok n tr ts" and m: "mid_lookup ts tr"
  shows "\<exists>tr' r. table_func_exec ts tr t = Inr (tr', r) \<and> tr_func tr' = tr_func tr \<and> mid_lookup ts tr' \<and>
    (r \<noteq> None \<longrightarrow> m_state (tr_mailbox tr') = 0) \<and> (\<forall>a d. r = Some (True, a, d) \<longrightarrow> unat a < n)"
proof (cases "tr_func tr")
  case TABLE_STUB
  then show ?thesis using m by (auto simp: table_func_exec_def mid_lookup_def)
next
  case TABLE_EM
  then obtain tb f where tb: "ts_obj ts = Some tb" "em_rep tb f" "\<forall>d \<in> set (em_data tb). unat (fst d) < n"
    using t by (auto simp: table_ok_def)
  have "mailbox_ok tb (tr_mailbox tr)" using m tb(1) by (auto simp: mid_lookup_def mailbox_ok_def)
  from table_lookup_safe [OF tb(2) this, of "table_key tb t (tr_key_struct_id tr)"]
  obtain m' r where l: "table_lookup tb (tr_mailbox tr) (table_key tb t (tr_key_struct_id tr)) = Inr (m', r)" "mailbox_ok tb m'"
      "r \<noteq> None \<longrightarrow> m_state m' = 0" "\<forall>d. r = Some (True, d) \<longrightarrow> d \<in> set (em_data tb)" by blast
  moreover have "unat a < n" if "(a, d) \<in> set (em_data tb)" for a d using tb(3) that by fastforce
  ultimately show ?thesis using TABLE_EM tb(1) by (auto simp: table_func_exec_def mid_lookup_def)
next
  case TABLE_EM_UNOPTIMIZED
  then obtain tb f where tb: "ts_obj ts = Some tb" "em_rep tb f" "\<forall>d \<in> set (em_data tb). unat (fst d) < n"
    using t by (auto simp: table_ok_def)
  obtain res where un: "table_lookup_unoptimized tb (table_key tb t (tr_key_struct_id tr)) = Inr res"
    using table_lookup_rep [OF tb(2)] by blast
  have "m_state (tr_mailbox tr) = 0" using m TABLE_EM_UNOPTIMIZED by (auto simp: mid_lookup_def)
  moreover have "unat a < n" if "(a, d) \<in> set (em_data tb)" for a d using tb(3) that by fastforce
  ultimately show ?thesis using TABLE_EM_UNOPTIMIZED tb(1) un lookup_unoptimized_data [of tb "table_key tb t (tr_key_struct_id tr)"]
    by (cases res) (auto simp: table_func_exec_def mid_lookup_def)
qed

lemma busy_ok_mid:
  "busy_ok s j k \<longleftrightarrow> mid_lookup (sw_states s ! sw_t_state s j ! k) (sw_tables s j ! k) \<and>
     (m_state (tr_mailbox (sw_tables s j ! k)) \<noteq> 0 \<longrightarrow> sw_code s (t_ip (threads (sw_pipe s) j)) = Some (Table k))"
  by (auto simp: busy_ok_def mid_lookup_def Let_def)

text \<open>A step of a lookup changes the mailbox of the table for the thread that runs.\<close>

lemma swx_ok_table:
  assumes s: "swx_ok A s" and tr: "tr_func tr = tr_func (sw_tables s (tid (sw_pipe s)) ! k)" "k < length (sw_stats s)"
    and mid: "mid_lookup (sw_states s ! sw_t_state s (tid (sw_pipe s)) ! k) tr"
    and c: "sw_code s (t_ip (sw_cur s)) = Some (Table k)"
  shows "swx_ok A (s\<lparr>sw_tables := (sw_tables s)(tid (sw_pipe s) := (sw_tables s (tid (sw_pipe s)))[k := tr])\<rparr>)"
proof -
  let ?i = "tid (sw_pipe s)"
  let ?s = "s\<lparr>sw_tables := (sw_tables s)(?i := (sw_tables s ?i)[k := tr])\<rparr>"
  have i: "?i < 16" using cur_ips(3) [OF s] .
  have len: "length (sw_tables s ?i) = length (sw_stats s)" using s i by (simp add: swx_ok_def)
  have "ids_ok ?s i = ids_ok s i" for i by (intro ids_ok_cong) simp_all
  moreover have "tables_fit ?s x = tables_fit s x" for x
    using tr len by (auto simp: tables_fit_def n_actions_def table_ok_def nth_list_update)
  moreover have "busy_ok ?s j l" if "busy_ok s j l" "l < length (sw_stats s)" for j l
    using that mid c tr len by (auto simp: busy_ok_mid nth_list_update cur_def)
  ultimately show ?thesis using s tr(2) len unfolding swx_ok_def by (simp add: n_actions_def)
qed

lemma stats_inc_ok:
  assumes "a < length (st_n_pkts_action st)"
  shows "\<exists>st'. stats_inc st hit a = Some st' \<and> length (st_n_pkts_action st') = length (st_n_pkts_action st)"
  using assms by (simp add: stats_inc_def)

lemma swx_ok_yield:
  assumes "swx_ok A s"
  shows "swx_ok A (s\<lparr>sw_pipe := thread_yield (sw_pipe s)\<rparr>)"
proof -
  let ?s = "s\<lparr>sw_pipe := thread_yield (sw_pipe s)\<rparr>"
  have "threads (thread_yield (sw_pipe s)) = threads (sw_pipe s)" by (simp add: thread_yield_def)
  moreover have "ids_ok ?s i = ids_ok s i" for i by (intro ids_ok_cong) simp_all
  moreover have "tables_fit ?s x = tables_fit s x" for x by (simp add: tables_fit_def n_actions_def)
  ultimately show ?thesis using assms yield_tid [of "sw_pipe s"] unfolding swx_ok_def by (simp add: n_actions_def busy_ok_def)
qed

lemma table_safe:
  assumes s: "swx_ok A s" and c: "sw_code s (t_ip (sw_cur s)) = Some (Table k)"
  shows "\<exists>s'. instr_table_exec k s = Inr s' \<and> swx_ok A s'"
proof -
  let ?i = "tid (sw_pipe s)"
  let ?ts = "sw_states s ! sw_t_state s ?i ! k"
  let ?tr = "sw_tables s ?i ! k"
  let ?st = "sw_stats s ! k"
  have i: "?i < 16" using cur_ips(3) [OF s] .
  have k: "k < length (sw_stats s)" using next_closed(2) [OF s c] by (simp add: ids_ok_def)
  have nxt: "t_ip (sw_cur s) + 1 \<in> A" using next_closed(1) [OF s c] by (simp add: next_ips_def)
  have t: "sw_t_state s ?i < length (sw_states s)" "length (sw_tables s ?i) = length (sw_stats s)" "busy_ok s ?i k"
    using s i k by (simp_all add: swx_ok_def)
  have "tables_fit s (sw_states s ! sw_t_state s ?i)" using s t(1) by (simp add: swx_ok_def)
  then have fit: "length (sw_states s ! sw_t_state s ?i) = length (sw_stats s)" "table_ok (n_actions s) ?tr ?ts"
    using i k by (simp_all add: tables_fit_def)
  have st: "length (st_n_pkts_action ?st) = n_actions s" using s k by (simp add: swx_ok_def)
  have mid: "mid_lookup ?ts ?tr" using t(3) by (simp add: busy_ok_mid)
  from table_func_exec_safe [OF fit(2) mid, of "sw_cur s"] obtain tr r where
      x: "table_func_exec ?ts ?tr (sw_cur s) = Inr (tr, r)" "tr_func tr = tr_func ?tr" "mid_lookup ?ts tr"
        "r \<noteq> None \<longrightarrow> m_state (tr_mailbox tr) = 0" "\<forall>a d. r = Some (True, a, d) \<longrightarrow> unat a < n_actions s"
    by blast
  let ?s = "s\<lparr>sw_tables := (sw_tables s)(?i := (sw_tables s ?i)[k := tr])\<rparr>"
  have ok: "swx_ok A ?s" by (rule swx_ok_table [OF s x(2) k x(3) c])
  have g: "aget (sw_states s) (sw_t_state s ?i) = Some (sw_states s ! sw_t_state s ?i)"
    "aget (sw_states s ! sw_t_state s ?i) k = Some ?ts" "aget (sw_tables s ?i) k = Some ?tr" "aget (sw_stats s) k = Some ?st"
    using t(1,2) fit(1) k by simp_all
  show ?thesis
  proof (cases r)
    case None
    then show ?thesis using swx_ok_yield [OF ok] by (simp add: instr_table_exec_def Let_def g x(1) getR_def)
  next
    case (Some h)
    obtain hit a d where h: "h = (hit, a, d)" by (cases h)
    let ?a = "if hit then a else ts_default_action_id ?ts"
    let ?d = "if hit then d else ts_default_action_data ?ts"
    have a: "unat ?a < n_actions s" using x(5) Some h fit(2) by (simp add: table_ok_def)
    from stats_inc_ok [of "unat ?a" ?st hit] a st obtain st' where
        st': "stats_inc ?st hit (unat ?a) = Some st'" "length (st_n_pkts_action st') = n_actions s" by auto
    have "unat (ucast ?a :: u32) \<le> unat ?a" by (simp add: unsigned_ucast_eq unsigned_take_bit_eq take_bit_eq_mod)
    then have tgt: "aget (sw_action_instructions s) (unat (ucast ?a :: u32)) = Some (sw_action_instructions s ! unat (ucast ?a :: u32))"
        "sw_action_instructions s ! unat (ucast ?a :: u32) \<in> A"
      using a s by (auto simp: n_actions_def swx_ok_def)
    let ?s' = "?s\<lparr>sw_stats := (sw_stats s)[k := st']\<rparr>"
    have ok': "swx_ok A ?s'"
      by (rule swx_ok_stats [OF ok]) (use st' s in \<open>auto simp: n_actions_def swx_ok_def dest!: set_update_subset_insert [THEN subsetD]\<close>)
    have id: "idle ?s' ?i"
    proof -
      have "m_state (tr_mailbox (sw_tables s ?i ! l)) = 0" if "l < length (sw_stats s)" "l \<noteq> k" for l
      proof -
        have "busy_ok s ?i l" using s i that(1) by (simp add: swx_ok_def)
        then show ?thesis using that(2) c by (auto simp: busy_ok_mid cur_def)
      qed
      then show ?thesis using x(4) Some t(2) k by (auto simp: idle_def nth_list_update)
    qed
    show ?thesis
      using swx_ok_set_cur [OF ok'] id nxt tgt(2)
      by (simp add: instr_table_exec_def Let_def g x(1) getR_def Some h st'(1) tgt(1) thread_ip_action_call_def)
  qed
qed

section \<open>Every step\<close>

lemma exec_instruction_safe:
  assumes s: "swx_ok A s" and c: "sw_code s (t_ip (sw_cur s)) = Some i"
  shows "\<exists>s'. exec_instruction i s = Inr s' \<and> swx_ok A s'"
proof (cases "\<exists>k. i = Table k")
  case True
  then show ?thesis using table_safe [OF s] c by (auto simp: exec_instruction_def)
next
  case False
  then have id: "idle s (tid (sw_pipe s))" by (intro idle_cur [OF s c]) simp
  note n = next_closed [OF s c]
  note te = thread_exec_safe [OF s id]
  show ?thesis
  proof (cases i)
    case (Io ty ip)
    show ?thesis
      using n(1) rx_safe [OF s id, of ip] end_packet_safe [OF s id body_ok_tx_exec, of ty ip] te [OF _ ip_free_io, of ty ip]
      by (cases "instruction_does_tx i")
        (auto simp: Io exec_instruction_def next_ips_def instruction_does_tx_def)
  next
    case (Plain ty)
    show ?thesis
      using n(1) te [OF _ ip_free_recirculate] end_packet_safe [OF s id body_ok_tx(3)]
        swx_ok_set_cur [OF s id, of "instr_return_exec (sw_cur s)"] cur_ips(2) [OF s]
      by (cases ty) (simp_all add: Plain exec_instruction_def next_ips_def instr_return_exec_def)
  next
    case (Jmp ty ip)
    then show ?thesis using jmp_safe [OF s id] n(1) by (simp add: exec_instruction_def)
  next
    case (Table k)
    then show ?thesis using False by simp
  next
    case (Mirror a b)
    then show ?thesis using n(1) mirror_safe [OF s id] by (simp add: exec_instruction_def next_ips_def)
  next
    case (Valid ty ip)
    then show ?thesis using n(1) te [OF _ ip_free_valid] by (simp add: exec_instruction_def next_ips_def)
  next
    case (Mov ty ip)
    then show ?thesis using n(1) te [OF _ ip_free_mov] by (simp add: exec_instruction_def next_ips_def)
  next
    case (Dma ty ip)
    then show ?thesis using n(1) te [OF _ ip_free_dma] by (simp add: exec_instruction_def next_ips_def)
  next
    case (Alu ty ip)
    then show ?thesis using n(1) te [OF _ ip_free_alu] by (simp add: exec_instruction_def next_ips_def)
  next
    case (Regarray ty ip)
    then show ?thesis using n reg_safe [OF s id] by (simp add: exec_instruction_def next_ips_def ids_ok_def)
  next
    case (Meter ty ip)
    then show ?thesis using n meter_safe [OF s id] by (simp add: exec_instruction_def next_ips_def ids_ok_def)
  next
    case (HashFunc ip)
    then show ?thesis using n hash_safe [OF s id] by (simp add: exec_instruction_def next_ips_def ids_ok_def)
  qed
qed

lemma instr_exec_safe:
  assumes s: "swx_ok A s"
  shows "\<exists>s'. instr_exec s = Inr s' \<and> swx_ok A s'"
proof -
  have "code_closed A (sw_code s)" using s by (simp add: swx_ok_def)
  then obtain i where "sw_code s (t_ip (sw_cur s)) = Some i"
    using cur_ips(1) [OF s] by (auto simp: code_closed_def)
  then show ?thesis using exec_instruction_safe [OF s] by (simp add: instr_exec_def)
qed


section \<open>The pipeline and its control plane\<close>

text \<open>
  \<open>rte_swx_pipeline_table_state_set\<close>: the data plane is pointed to another array of table states; the
  threads take it over when they receive their next packet.
\<close>

definition rte_swx_pipeline_table_state_set :: "nat \<Rightarrow> swx \<Rightarrow> swx" where
  "rte_swx_pipeline_table_state_set states s = s\<lparr>sw_table_state := states\<rparr>"

text \<open>
  One step of the system: an instruction of the current thread, or a call of the control plane
  between two instructions. The configured register arrays and the floating-point part of the profile
  configuration are arguments.
\<close>

inductive sw_step :: "regarray_cfg list \<Rightarrow> (u64 \<Rightarrow> u64 \<times> u64) \<Rightarrow> swx \<Rightarrow> swx \<Rightarrow> bool"
  for rs :: "regarray_cfg list" and tb :: "u64 \<Rightarrow> u64 \<times> u64" where
  exec: "instr_exec s = Inr s' \<Longrightarrow> sw_step rs tb s s'"
| commit: "states < length (sw_states s) \<Longrightarrow> sw_step rs tb s (rte_swx_pipeline_table_state_set states s)"
| regarray_write: "ctl_regarray_write rs (sw_regs s) name i v = Inr r \<Longrightarrow> sw_step rs tb s (s\<lparr>sw_regs := r\<rparr>)"
| profile_add: "ctl_meter_profile_add tb (sw_meters s) name params = Inr m \<Longrightarrow> sw_step rs tb s (s\<lparr>sw_meters := m\<rparr>)"
| profile_delete: "ctl_meter_profile_delete (sw_meters s) name = Inr m \<Longrightarrow> sw_step rs tb s (s\<lparr>sw_meters := m\<rparr>)"
| meter_set: "ctl_meter_set now (sw_meters s) name i profile = Inr m \<Longrightarrow> sw_step rs tb s (s\<lparr>sw_meters := m\<rparr>)"
| meter_reset: "ctl_meter_reset now (sw_meters s) name i = Inr m \<Longrightarrow> sw_step rs tb s (s\<lparr>sw_meters := m\<rparr>)"

lemma swx_ok_commit:
  assumes "swx_ok A s" and "states < length (sw_states s)"
  shows "swx_ok A (rte_swx_pipeline_table_state_set states s)"
proof -
  let ?s = "s\<lparr>sw_table_state := states\<rparr>"
  have "ids_ok ?s i = ids_ok s i" for i by (intro ids_ok_cong) simp_all
  moreover have "tables_fit ?s x = tables_fit s x" for x by (simp add: tables_fit_def n_actions_def)
  moreover have "busy_ok ?s j k = busy_ok s j k" for j k by (simp add: busy_ok_def)
  ultimately show ?thesis
    using assms unfolding rte_swx_pipeline_table_state_set_def swx_ok_def by (simp add: n_actions_def)
qed

lemma ctl_regarray_write_ok:
  assumes "regs_ok rt" and "ctl_regarray_write rs rt name i v = Inr rt'"
  shows "regs_ok rt' \<and> length rt' = length rt"
proof -
  from assms(2) obtain k where "rt' = rt[k := (rt ! k)\<lparr>regarray := (regarray (rt ! k))[unat i := v]\<rparr>]"
    by (auto simp: ctl_regarray_write_def split: option.splits if_splits)
  then show ?thesis using assms(1)
    by (cases "k < length rt") (auto simp: regs_ok_def all_set_conv_all_nth nth_list_update list_update_beyond)
qed

lemma ctl_meter_length:
  "ctl_meter_profile_add tb st name params = Inr st' \<Longrightarrow> length (ms_rt st') = length (ms_rt st)"
  "ctl_meter_profile_delete st name = Inr st' \<Longrightarrow> length (ms_rt st') = length (ms_rt st)"
  "ctl_meter_set now st name i profile = Inr st' \<Longrightarrow> length (ms_rt st') = length (ms_rt st)"
  "ctl_meter_reset now st name i = Inr st' \<Longrightarrow> length (ms_rt st') = length (ms_rt st)"
  by (auto simp: ctl_meter_profile_add_def ctl_meter_profile_delete_def ctl_meter_set_def ctl_meter_reset_def
      Let_def set_meter_def split: if_splits option.splits)

lemma sw_step_ok:
  assumes "sw_step rs tb s s'" and s: "swx_ok A s"
  shows "swx_ok A s'"
proof -
  have m: "meters_inv (sw_meters s)" and r: "regs_ok (sw_regs s)" using s by (simp_all add: swx_ok_def)
  have met: "swx_ok A (s\<lparr>sw_meters := m'\<rparr>)"
    if "meters_inv m'" "length (ms_rt m') = length (ms_rt (sw_meters s))" for m'
    using swx_ok_meters [OF s that, of "sw_tsc_reads s"] by simp
  show ?thesis using assms(1)
  proof cases
    case exec
    then show ?thesis using instr_exec_safe [OF s] by auto
  next
    case (commit states)
    then show ?thesis using swx_ok_commit [OF s] by simp
  next
    case (regarray_write name i v r')
    then show ?thesis using swx_ok_regs [OF s] ctl_regarray_write_ok [OF r] by simp
  next
    case (profile_add name params m')
    then show ?thesis using met [OF meters_inv_add [OF m] ctl_meter_length(1)] by simp
  next
    case (profile_delete name m')
    then show ?thesis using met [OF meters_inv_delete [OF m] ctl_meter_length(2)] by simp
  next
    case (meter_set now name i profile m')
    then show ?thesis using met [OF meters_inv_set [OF m] ctl_meter_length(3)] by simp
  next
    case (meter_reset now name i m')
    then show ?thesis using met [OF meters_inv_reset [OF m] ctl_meter_length(4)] by simp
  qed
qed

lemma sw_steps_ok: "(sw_step rs tb)\<^sup>*\<^sup>* s s' \<Longrightarrow> swx_ok A s \<Longrightarrow> swx_ok A s'"
  by (induction rule: rtranclp_induct) (auto intro: sw_step_ok)

lemma run_safe: "swx_ok A s \<Longrightarrow> \<exists>s'. rte_swx_pipeline_run n s = Inr s' \<and> swx_ok A s'"
proof (induction n arbitrary: s)
  case (Suc n)
  then obtain s1 where "instr_exec s = Inr s1" "swx_ok A s1" using instr_exec_safe by blast
  with Suc.IH [of s1] show ?case by simp
qed simp

text \<open>
  C1: the pipeline never faults. Let every instruction of the program be followed only by instructions
  of the program and name arrays, tables and hash functions that exist, let the entries of the tables name
  actions that exist, and let the tables, registers and meters satisfy their invariants. Then, after any
  interleaving of instructions of the sixteen threads with control plane calls (table commits, register writes,
  changes of meters and of their profiles), the next instruction runs without a fault: no instruction
  pointer leaves the program, no lookup reads outside its table, no register or meter access is out of bounds,
  no action is missing.
\<close>

theorem pipeline_never_faults:
  assumes "swx_ok A s" and "(sw_step rs tb)\<^sup>*\<^sup>* s s'"
  shows "\<exists>s''. instr_exec s' = Inr s''"
  using instr_exec_safe [OF sw_steps_ok [OF assms(2,1)]] by blast

end
