(* ===== verification/SwxSpec.thy ===== *)
theory SwxSpec
  imports SwxInstr
begin

text \<open>
  The specification of a pipeline before it is built (lib/pipeline/rte_swx_pipeline.c): struct types,
  headers, meta-data, actions and the names of its tables, register and meter arrays and hash functions,
  with the registration of types, headers and meta-data and the look-up of names. Extern objects and
  functions, selectors and learners are not registered, so that the look-up of their names finds nothing.
\<close>

section \<open>Struct types\<close>

record field_type =
  f_name :: string
  f_n_bits :: nat
  f_offset :: nat
  f_var_size :: bool

record struct_type =
  s_name :: string
  s_fields :: "field_type list"
  s_n_bits :: nat
  s_n_bits_min :: nat
  s_var_size :: bool

record header_type =
  h_name :: string
  h_st :: struct_type
  h_struct_id :: nat
  h_id :: nat

record action_type =
  ac_name :: string
  ac_st :: "struct_type option"
  ac_args_endianness :: "bool list"
  ac_instructions :: "instruction list"
  ac_id :: nat

record pspec =
  ps_struct_types :: "struct_type list"
  ps_headers :: "header_type list"
  ps_metadata_st :: "struct_type option"
  ps_metadata_struct_id :: nat
  ps_n_structs :: nat
  ps_actions :: "action_type list"
  ps_tables :: "string list"
  ps_regarrays :: "string list"
  ps_metarrays :: "string list"
  ps_hash_funcs :: "string list"

datatype spec_errno = SP_EINVAL | SP_EEXIST | SP_ENOSPC

text \<open>\<open>CHECK\<close>, and the look-up whose failure is the same error.\<close>

definition CHECK :: "'e \<Rightarrow> bool \<Rightarrow> 'e + 'a \<Rightarrow> 'e + 'a" where
  "CHECK err c k = (if c then k else Inl err)"

definition FOUND :: "'e \<Rightarrow> 'b option \<Rightarrow> ('b \<Rightarrow> 'e + 'a) \<Rightarrow> 'e + 'a" where
  "FOUND err r k = (case r of None \<Rightarrow> Inl err | Some x \<Rightarrow> k x)"

lemma CHECK_simps [simp]: "CHECK e True k = k" "CHECK e False k = Inl e"
  by (simp_all add: CHECK_def)

lemma FOUND_simps [simp]: "FOUND e None f = Inl e" "FOUND e (Some x) f = f x"
  by (simp_all add: FOUND_def)

lemma CHECK_eq_Inr: "CHECK e c k = Inr y \<longleftrightarrow> c \<and> k = Inr y"
  by (simp add: CHECK_def)

lemma FOUND_eq_Inr: "FOUND e r f = Inr y \<longleftrightarrow> (\<exists>x. r = Some x \<and> f x = Inr y)"
  by (cases r) simp_all

definition struct_type_find :: "pspec \<Rightarrow> string \<Rightarrow> struct_type option" where
  "struct_type_find p name = find (\<lambda>st. s_name st = name) (ps_struct_types p)"

definition struct_type_field_find :: "struct_type \<Rightarrow> string \<Rightarrow> field_type option" where
  "struct_type_field_find st name = find (\<lambda>f. f_name f = name) (s_fields st)"

text \<open>The fields one after the other from a bit offset; only the last one can have a variable size.\<close>

fun layout_fields :: "bool \<Rightarrow> nat \<Rightarrow> (string \<times> nat) list \<Rightarrow> field_type list" where
  "layout_fields var off [] = []"
| "layout_fields var off ((name, n_bits) # fs) =
     \<lparr>f_name = name, f_n_bits = n_bits, f_offset = off, f_var_size = (fs = [] \<and> var)\<rparr>
     # layout_fields var (off + n_bits) fs"

fun field_params_ok :: "bool \<Rightarrow> string list \<Rightarrow> (string \<times> nat) list \<Rightarrow> bool" where
  "field_params_ok var seen [] = True"
| "field_params_ok var seen ((name, n_bits) # fs) =
     (check_name name \<and> n_bits \<noteq> 0 \<and> (n_bits \<le> 64 \<or> (fs = [] \<and> var)) \<and> n_bits mod 8 = 0 \<and> name \<notin> set seen \<and>
      field_params_ok var (name # seen) fs)"

definition struct_type_of :: "string \<Rightarrow> (string \<times> nat) list \<Rightarrow> bool \<Rightarrow> struct_type" where
  "struct_type_of name fps var =
     (let fs = layout_fields var 0 fps in
      \<lparr>s_name = name, s_fields = fs, s_n_bits = sum_list (map f_n_bits fs),
       s_n_bits_min = sum_list (map (\<lambda>f. if f_var_size f then 0 else f_n_bits f) fs), s_var_size = var\<rparr>)"

definition rte_swx_pipeline_struct_type_register ::
  "pspec \<Rightarrow> string \<Rightarrow> (string \<times> nat) list \<Rightarrow> bool \<Rightarrow> spec_errno + pspec" where
  "rte_swx_pipeline_struct_type_register p name fps last_field_has_variable_size =
     CHECK SP_EINVAL (check_name name) (
     CHECK SP_EINVAL (fps \<noteq> []) (
     CHECK SP_EINVAL (field_params_ok last_field_has_variable_size [] fps) (
     CHECK SP_EEXIST (struct_type_find p name = None) (
       Inr (p\<lparr>ps_struct_types := ps_struct_types p @ [struct_type_of name fps last_field_has_variable_size]\<rparr>)))))"

section \<open>Headers and meta-data\<close>

definition header_find :: "pspec \<Rightarrow> string \<Rightarrow> header_type option" where
  "header_find p name = find (\<lambda>h. h_name h = name) (ps_headers p)"

definition header_find_by_struct_id :: "header_type list \<Rightarrow> nat \<Rightarrow> header_type option" where
  "header_find_by_struct_id hs struct_id = find (\<lambda>h. h_struct_id h = struct_id) hs"

definition n_headers_max :: nat where
  "n_headers_max = 64"

definition rte_swx_pipeline_packet_header_register :: "pspec \<Rightarrow> string \<Rightarrow> string \<Rightarrow> spec_errno + pspec" where
  "rte_swx_pipeline_packet_header_register p name struct_type_name =
     CHECK SP_EINVAL (check_name name) (
     CHECK SP_EINVAL (check_name struct_type_name) (
     CHECK SP_EEXIST (header_find p name = None) (
     FOUND SP_EINVAL (struct_type_find p struct_type_name) (\<lambda>st.
     CHECK SP_ENOSPC (length (ps_headers p) < n_headers_max) (
       Inr (p\<lparr>ps_headers := ps_headers p @
                [\<lparr>h_name = name, h_st = st, h_struct_id = ps_n_structs p, h_id = length (ps_headers p)\<rparr>],
              ps_n_structs := ps_n_structs p + 1\<rparr>))))))"

definition rte_swx_pipeline_packet_metadata_register :: "pspec \<Rightarrow> string \<Rightarrow> spec_errno + pspec" where
  "rte_swx_pipeline_packet_metadata_register p struct_type_name =
     CHECK SP_EINVAL (check_name struct_type_name) (
     FOUND SP_EINVAL (struct_type_find p struct_type_name) (\<lambda>st.
     CHECK SP_EINVAL (\<not> s_var_size st) (
     CHECK SP_EINVAL (ps_metadata_st p = None) (
       Inr (p\<lparr>ps_metadata_st := Some st, ps_metadata_struct_id := ps_n_structs p, ps_n_structs := ps_n_structs p + 1\<rparr>)))))"

text \<open>\<open>rte_swx_pipeline_config\<close>: struct 0 is reserved for the action data.\<close>

definition pspec_init :: pspec where
  "pspec_init = \<lparr>ps_struct_types = [], ps_headers = [], ps_metadata_st = None, ps_metadata_struct_id = 0, ps_n_structs = 1,
     ps_actions = [], ps_tables = [], ps_regarrays = [], ps_metarrays = [], ps_hash_funcs = []\<rparr>"

section \<open>Names in instructions\<close>

text \<open>The rest of a name after a letter and a dot.\<close>

definition prefixed :: "char \<Rightarrow> string \<Rightarrow> string option" where
  "prefixed c name = (case name of a # b # rest \<Rightarrow> if a = c \<and> b = CHR ''.'' then Some rest else None | _ \<Rightarrow> None)"

definition header_parse :: "pspec \<Rightarrow> string \<Rightarrow> header_type option" where
  "header_parse p name = Option.bind (prefixed CHR ''h'' name) (header_find p)"

definition header_field_parse :: "pspec \<Rightarrow> string \<Rightarrow> (field_type \<times> header_type) option" where
  "header_field_parse p name =
     Option.bind (prefixed CHR ''h'' name) (\<lambda>rest.
     let header_name = takeWhile (\<lambda>c. c \<noteq> CHR ''.'') rest in
     case dropWhile (\<lambda>c. c \<noteq> CHR ''.'') rest of
       [] \<Rightarrow> None
     | _ # field_name \<Rightarrow>
         Option.bind (header_find p header_name) (\<lambda>h.
         map_option (\<lambda>f. (f, h)) (struct_type_field_find (h_st h) field_name)))"

definition metadata_field_parse :: "pspec \<Rightarrow> string \<Rightarrow> field_type option" where
  "metadata_field_parse p name =
     Option.bind (ps_metadata_st p) (\<lambda>st.
     Option.bind (prefixed CHR ''m'' name) (struct_type_field_find st))"

definition action_field_parse :: "action_type \<Rightarrow> string \<Rightarrow> field_type option" where
  "action_field_parse a name =
     Option.bind (prefixed CHR ''t'' name) (\<lambda>field. Option.bind (ac_st a) (\<lambda>st. struct_type_field_find st field))"

text \<open>A field with the identifier of its struct.\<close>

definition struct_field_parse :: "pspec \<Rightarrow> action_type option \<Rightarrow> string \<Rightarrow> (field_type \<times> nat) option" where
  "struct_field_parse p action name =
     (if name = [] then None
      else if hd name = CHR ''h'' then map_option (\<lambda>(f, h). (f, h_struct_id h)) (header_field_parse p name)
      else if hd name = CHR ''m'' then map_option (\<lambda>f. (f, ps_metadata_struct_id p)) (metadata_field_parse p name)
      else if hd name = CHR ''t'' then
        Option.bind action (\<lambda>a. map_option (\<lambda>f. (f, 0)) (action_field_parse a name))
      else None)"

text \<open>The identifier of a table, array or function is its place in the list of its kind.\<close>

fun name_index :: "string list \<Rightarrow> string \<Rightarrow> nat option" where
  "name_index [] name = None"
| "name_index (n # ns) name = (if n = name then Some 0 else map_option Suc (name_index ns name))"

lemma name_index_less: "name_index ns name = Some i \<Longrightarrow> i < length ns"
  by (induction ns arbitrary: i) (auto split: if_splits)

definition action_find :: "pspec \<Rightarrow> string \<Rightarrow> action_type option" where
  "action_find p name = find (\<lambda>a. ac_name a = name) (ps_actions p)"

section \<open>Well-formed specifications\<close>

definition field_ok :: "struct_type \<Rightarrow> field_type \<Rightarrow> bool" where
  "field_ok st f \<longleftrightarrow> 0 < f_n_bits f \<and> f_n_bits f mod 8 = 0 \<and> f_offset f mod 8 = 0 \<and> f_offset f + f_n_bits f \<le> s_n_bits st \<and>
     (f_n_bits f \<le> 64 \<or> f_var_size f) \<and> (f_var_size f \<longrightarrow> s_var_size st)"

definition struct_ok :: "struct_type \<Rightarrow> bool" where
  "struct_ok st \<longleftrightarrow> s_fields st \<noteq> [] \<and> (\<forall>f \<in> set (s_fields st). field_ok st f) \<and> s_n_bits st mod 8 = 0 \<and>
     distinct (map f_name (s_fields st))"

text \<open>Every struct identifier below the number of structs belongs to one header or to the meta-data.\<close>

definition pspec_ok :: "pspec \<Rightarrow> bool" where
  "pspec_ok p \<longleftrightarrow>
     (\<forall>st \<in> set (ps_struct_types p). struct_ok st) \<and> distinct (map s_name (ps_struct_types p)) \<and>
     (\<forall>h \<in> set (ps_headers p). struct_ok (h_st h) \<and> 0 < h_struct_id h \<and> h_struct_id h < ps_n_structs p) \<and>
     length (ps_headers p) \<le> n_headers_max \<and> map h_id (ps_headers p) = [0 ..< length (ps_headers p)] \<and>
     distinct (map h_name (ps_headers p)) \<and> distinct (map h_struct_id (ps_headers p)) \<and>
     (\<forall>st. ps_metadata_st p = Some st \<longrightarrow> struct_ok st \<and> \<not> s_var_size st \<and> 0 < ps_metadata_struct_id p \<and>
        ps_metadata_struct_id p < ps_n_structs p \<and> ps_metadata_struct_id p \<notin> h_struct_id ` set (ps_headers p)) \<and>
     ps_n_structs p = 1 + length (ps_headers p) + (if ps_metadata_st p = None then 0 else 1) \<and>
     (\<forall>a \<in> set (ps_actions p). \<forall>st. ac_st a = Some st \<longrightarrow> struct_ok st \<and> \<not> s_var_size st) \<and>
     map ac_id (ps_actions p) = [0 ..< length (ps_actions p)]"

lemma layout_bounds:
  assumes "field_params_ok var seen fps" and "off mod 8 = 0" and "f \<in> set (layout_fields var off fps)"
  shows "0 < f_n_bits f" and "f_n_bits f mod 8 = 0" and "f_offset f mod 8 = 0" and "off \<le> f_offset f"
    and "f_offset f + f_n_bits f \<le> off + sum_list (map f_n_bits (layout_fields var off fps))"
    and "f_n_bits f \<le> 64 \<or> f_var_size f" and "f_var_size f \<Longrightarrow> var"
proof -
  have "0 < f_n_bits f \<and> f_n_bits f mod 8 = 0 \<and> f_offset f mod 8 = 0 \<and> off \<le> f_offset f \<and>
    f_offset f + f_n_bits f \<le> off + sum_list (map f_n_bits (layout_fields var off fps)) \<and>
    (f_n_bits f \<le> 64 \<or> f_var_size f) \<and> (f_var_size f \<longrightarrow> var)"
    using assms
  proof (induction fps arbitrary: seen off)
    case (Cons x fps)
    obtain name n where x: "x = (name, n)" by fastforce
    have next_off: "(off + n) mod 8 = 0" using Cons.prems(1,2) by (auto simp: x mod_add_eq [symmetric])
    show ?case
    proof (cases "f \<in> set (layout_fields var (off + n) fps)")
      case True
      then show ?thesis using Cons.IH [OF _ next_off] Cons.prems(1) by (fastforce simp: x)
    next
      case False
      then show ?thesis using Cons.prems by (auto simp: x)
    qed
  qed simp
  then show "0 < f_n_bits f" "f_n_bits f mod 8 = 0" "f_offset f mod 8 = 0" "off \<le> f_offset f"
    "f_offset f + f_n_bits f \<le> off + sum_list (map f_n_bits (layout_fields var off fps))"
    "f_n_bits f \<le> 64 \<or> f_var_size f" "f_var_size f \<Longrightarrow> var" by blast+
qed

lemma layout_names: "map f_name (layout_fields var off fps) = map fst fps"
  by (induction fps arbitrary: off) auto

lemma params_distinct:
  "field_params_ok var seen fps \<Longrightarrow> distinct (map fst fps) \<and> set (map fst fps) \<inter> set seen = {}"
proof (induction fps arbitrary: seen)
  case (Cons x fps)
  then show ?case using Cons.IH [of "fst x # seen"] by (cases x) auto
qed simp

lemma sum_mod_8: "\<forall>f \<in> set fs. f_n_bits f mod 8 = 0 \<Longrightarrow> sum_list (map f_n_bits fs) mod (8 :: nat) = 0"
  by (induction fs) (auto simp: mod_eq_0_iff_dvd)

lemma struct_type_of_ok:
  assumes "field_params_ok var [] fps" and "fps \<noteq> []"
  shows "struct_ok (struct_type_of name fps var)"
proof -
  note l = layout_bounds [OF assms(1), of 0]
  have "s_n_bits (struct_type_of name fps var) mod 8 = 0"
    using sum_mod_8 [of "layout_fields var 0 fps"] l(2) by (simp add: struct_type_of_def Let_def)
  moreover have "layout_fields var 0 fps \<noteq> []" using assms(2) by (cases fps) auto
  ultimately show ?thesis
    using l params_distinct [OF assms(1)]
    by (auto simp: struct_ok_def field_ok_def struct_type_of_def Let_def layout_names)
qed

lemma find_None_notin: "find (\<lambda>x. g x = y) xs = None \<longleftrightarrow> y \<notin> g ` set xs"
  by (auto simp: find_None_iff)

lemma find_SomeD: "find P xs = Some x \<Longrightarrow> x \<in> set xs \<and> P x"
  by (auto simp: find_Some_iff)

text \<open>
  Registration keeps a specification well-formed.
\<close>

lemma struct_type_find_ok: "pspec_ok p \<Longrightarrow> struct_type_find p name = Some st \<Longrightarrow> struct_ok st"
  by (auto simp: pspec_ok_def struct_type_find_def dest!: find_SomeD)

lemma pspec_init_ok: "pspec_ok pspec_init"
  by (simp add: pspec_ok_def pspec_init_def)

lemma struct_type_register_ok:
  assumes "pspec_ok p" and "rte_swx_pipeline_struct_type_register p name fps var = Inr p'"
  shows "pspec_ok p'"
proof -
  from assms(2) have "field_params_ok var [] fps" "fps \<noteq> []" "struct_type_find p name = None"
    and p': "p' = p\<lparr>ps_struct_types := ps_struct_types p @ [struct_type_of name fps var]\<rparr>"
    by (auto simp: rte_swx_pipeline_struct_type_register_def CHECK_eq_Inr)
  then have "struct_ok (struct_type_of name fps var)" "name \<notin> s_name ` set (ps_struct_types p)"
    by (auto simp: struct_type_of_ok struct_type_find_def find_None_notin)
  moreover have "s_name (struct_type_of name fps var) = name" by (simp add: struct_type_of_def Let_def)
  ultimately show ?thesis using assms(1) by (auto simp: pspec_ok_def p')
qed

lemma header_register_ok:
  assumes "pspec_ok p" and "rte_swx_pipeline_packet_header_register p name st_name = Inr p'"
  shows "pspec_ok p'"
proof -
  from assms(2) obtain st where "struct_type_find p st_name = Some st" and fresh: "header_find p name = None"
    and max: "length (ps_headers p) < n_headers_max"
    and p': "p' = p\<lparr>ps_headers := ps_headers p @ [\<lparr>h_name = name, h_st = st, h_struct_id = ps_n_structs p, h_id = length (ps_headers p)\<rparr>],
       ps_n_structs := ps_n_structs p + 1\<rparr>"
    by (auto simp: rte_swx_pipeline_packet_header_register_def CHECK_eq_Inr FOUND_eq_Inr)
  then have "struct_ok st" "name \<notin> h_name ` set (ps_headers p)"
    using struct_type_find_ok [OF assms(1)] by (auto simp: header_find_def find_None_notin)
  moreover have "ps_n_structs p \<notin> h_struct_id ` set (ps_headers p)" using assms(1) by (auto simp: pspec_ok_def)
  ultimately show ?thesis using assms(1) max by (auto simp: pspec_ok_def p' n_headers_max_def less_Suc_eq)
qed

lemma metadata_register_ok:
  assumes "pspec_ok p" and "rte_swx_pipeline_packet_metadata_register p st_name = Inr p'"
  shows "pspec_ok p'"
proof -
  from assms(2) obtain st where "struct_type_find p st_name = Some st" and none: "ps_metadata_st p = None" and var: "\<not> s_var_size st"
    and p': "p' = p\<lparr>ps_metadata_st := Some st, ps_metadata_struct_id := ps_n_structs p, ps_n_structs := ps_n_structs p + 1\<rparr>"
    by (auto simp: rte_swx_pipeline_packet_metadata_register_def CHECK_eq_Inr FOUND_eq_Inr)
  then have "struct_ok st" using struct_type_find_ok [OF assms(1)] by simp
  moreover have "ps_n_structs p \<notin> h_struct_id ` set (ps_headers p)" using assms(1) by (auto simp: pspec_ok_def)
  ultimately show ?thesis using assms(1) none var by (auto simp: pspec_ok_def p' less_Suc_eq)
qed

section \<open>What the look-ups find\<close>

lemma field_find_ok:
  assumes "struct_ok st" and "struct_type_field_find st name = Some f"
  shows "field_ok st f"
  using assms by (auto simp: struct_ok_def struct_type_field_find_def dest!: find_SomeD)

lemma header_find_in: "header_find p name = Some h \<Longrightarrow> h \<in> set (ps_headers p)"
  by (auto simp: header_find_def dest!: find_SomeD)

lemma header_field_parse_in:
  assumes "header_field_parse p name = Some (f, h)"
  shows "h \<in> set (ps_headers p)" and "\<exists>n. struct_type_field_find (h_st h) n = Some f"
proof -
  from assms obtain rest where r: "(case dropWhile (\<lambda>c. c \<noteq> CHR ''.'') rest of
       [] \<Rightarrow> None
     | _ # field_name \<Rightarrow>
         Option.bind (header_find p (takeWhile (\<lambda>c. c \<noteq> CHR ''.'') rest)) (\<lambda>h.
         map_option (\<lambda>f. (f, h)) (struct_type_field_find (h_st h) field_name))) = Some (f, h)"
    by (auto simp: header_field_parse_def bind_eq_Some_conv Let_def)
  then obtain c n where "dropWhile (\<lambda>c. c \<noteq> CHR ''.'') rest = c # n" by (cases "dropWhile (\<lambda>c. c \<noteq> CHR ''.'') rest") auto
  with r have "header_find p (takeWhile (\<lambda>c. c \<noteq> CHR ''.'') rest) = Some h" "struct_type_field_find (h_st h) n = Some f"
    by (auto simp: bind_eq_Some_conv)
  then show "h \<in> set (ps_headers p)" "\<exists>n. struct_type_field_find (h_st h) n = Some f" using header_find_in by blast+
qed

lemma header_id_less:
  assumes "pspec_ok p" and "h \<in> set (ps_headers p)"
  shows "h_id h < length (ps_headers p)"
proof -
  have "h_id h \<in> set (map h_id (ps_headers p))" using assms(2) by simp
  moreover have "map h_id (ps_headers p) = [0 ..< length (ps_headers p)]" using assms(1) by (simp add: pspec_ok_def)
  ultimately show ?thesis by (metis atLeastLessThan_iff set_upt)
qed

text \<open>The struct with an identifier: the action data, a header or the meta-data.\<close>

definition struct_of_id :: "pspec \<Rightarrow> action_type option \<Rightarrow> nat \<Rightarrow> struct_type option" where
  "struct_of_id p action i =
     (if i = 0 then Option.bind action ac_st
      else if i = ps_metadata_struct_id p \<and> ps_metadata_st p \<noteq> None then ps_metadata_st p
      else map_option h_st (header_find_by_struct_id (ps_headers p) i))"

lemma struct_of_header:
  assumes "pspec_ok p" and "h \<in> set (ps_headers p)"
  shows "struct_of_id p action (h_struct_id h) = Some (h_st h)"
proof -
  have "ps_metadata_struct_id p \<notin> h_struct_id ` set (ps_headers p)" if "ps_metadata_st p = Some st" for st
    using assms(1) that by (simp add: pspec_ok_def)
  then have nm: "\<not> (h_struct_id h = ps_metadata_struct_id p \<and> ps_metadata_st p \<noteq> None)"
    using assms(2) by (metis image_eqI not_None_eq)
  have n0: "h_struct_id h \<noteq> 0" using assms by (auto simp: pspec_ok_def)
  have "inj_on h_struct_id (set (ps_headers p))" using assms(1) by (simp add: pspec_ok_def distinct_map)
  then have "find (\<lambda>x. h_struct_id x = h_struct_id h) (ps_headers p) = Some h"
    using assms(2) by (cases "find (\<lambda>x. h_struct_id x = h_struct_id h) (ps_headers p)")
      (auto simp: find_None_iff dest!: find_SomeD dest: inj_onD)
  with n0 nm show ?thesis unfolding struct_of_id_def header_find_by_struct_id_def by (simp only: if_False simp_thms option.map)
qed

lemma struct_field_parse_ok:
  assumes p: "pspec_ok p" and a: "\<forall>a st. action = Some a \<longrightarrow> ac_st a = Some st \<longrightarrow> struct_ok st \<and> \<not> s_var_size st"
    and f: "struct_field_parse p action name = Some (f, sid)"
  shows "\<exists>st. struct_of_id p action sid = Some st \<and> field_ok st f" and "sid < ps_n_structs p"
proof -
  have "(\<exists>st. struct_of_id p action sid = Some st \<and> field_ok st f) \<and> sid < ps_n_structs p"
  proof -
    consider (h) h where "header_field_parse p name = Some (f, h)" "sid = h_struct_id h"
      | (m) "metadata_field_parse p name = Some f" "sid = ps_metadata_struct_id p"
      | (t) a where "action = Some a" "action_field_parse a name = Some f" "sid = 0"
      using f by (auto simp: struct_field_parse_def bind_eq_Some_conv split: if_splits)
    then show ?thesis
    proof cases
      case h
      then have "h \<in> set (ps_headers p)" "\<exists>n. struct_type_field_find (h_st h) n = Some f"
        using header_field_parse_in by blast+
      moreover from this have "struct_ok (h_st h)" "h_struct_id h < ps_n_structs p" using p by (auto simp: pspec_ok_def)
      ultimately show ?thesis using struct_of_header [OF p] field_find_ok h(2) by blast
    next
      case m
      then obtain st n where "ps_metadata_st p = Some st" "struct_type_field_find st n = Some f"
        by (auto simp: metadata_field_parse_def bind_eq_Some_conv)
      moreover from this have "struct_ok st" "0 < sid" "sid < ps_n_structs p" using p m(2) by (auto simp: pspec_ok_def)
      ultimately show ?thesis using m(2) field_find_ok by (auto simp: struct_of_id_def)
    next
      case t
      then obtain st n where "ac_st a = Some st" "struct_type_field_find st n = Some f"
        by (auto simp: action_field_parse_def bind_eq_Some_conv)
      moreover from this have "struct_ok st" using a t(1) by blast
      moreover have "0 < ps_n_structs p" using p by (simp add: pspec_ok_def)
      ultimately show ?thesis using t field_find_ok by (auto simp: struct_of_id_def)
    qed
  qed
  then show "\<exists>st. struct_of_id p action sid = Some st \<and> field_ok st f" "sid < ps_n_structs p" by blast+
qed

lemma metadata_field_parse_ok:
  assumes "pspec_ok p" and "metadata_field_parse p name = Some f"
  shows "\<exists>st. ps_metadata_st p = Some st \<and> struct_of_id p action (ps_metadata_struct_id p) = Some st \<and> field_ok st f \<and> f_n_bits f \<le> 64"
proof -
  from assms(2) obtain st n where st: "ps_metadata_st p = Some st" "struct_type_field_find st n = Some f"
    by (auto simp: metadata_field_parse_def bind_eq_Some_conv)
  moreover from st(1) have ok: "struct_ok st" "\<not> s_var_size st" "0 < ps_metadata_struct_id p" using assms(1) by (auto simp: pspec_ok_def)
  moreover have "field_ok st f" using field_find_ok st(2) ok(1) by blast
  ultimately show ?thesis by (auto simp: struct_of_id_def field_ok_def)
qed

lemma header_field_parse_ok:
  assumes "pspec_ok p" and "header_field_parse p name = Some (f, h)"
  shows "h \<in> set (ps_headers p)" and "field_ok (h_st h) f"
proof -
  note h = header_field_parse_in(1) [OF assms(2)] and n = header_field_parse_in(2) [OF assms(2)]
  show "h \<in> set (ps_headers p)" by (rule h)
  have "struct_ok (h_st h)" using assms(1) h by (auto simp: pspec_ok_def)
  then show "field_ok (h_st h) f" using n field_find_ok by blast
qed

end
