(* ===== verification/SwxConfig.thy ===== *)
theory SwxConfig
  imports SwxSpec
begin

text \<open>
  The configuration of an instruction list (\<open>instruction_config\<close> of lib/pipeline/rte_swx_pipeline.c) after
  its lines are translated: the check of the labels, the verification, the optimiser that fuses
  instructions, and the resolution of the jumps. \<open>None\<close> as a result is the error \<open>EINVAL\<close>. A line is
  an instruction with its \<open>struct instruction_data\<close>.
\<close>

record instruction_data =
  id_label :: string
  id_jmp_label :: string
  id_n_users :: nat
  id_invalid :: bool

type_synonym line = "instruction \<times> instruction_data"

section \<open>Labels\<close>

text \<open>The index of the line with a label.\<close>

fun label_find :: "instruction_data list \<Rightarrow> string \<Rightarrow> nat option" where
  "label_find [] lb = None"
| "label_find (d # ds) lb = (if lb = id_label d then Some 0 else map_option Suc (label_find ds lb))"

definition label_is_used :: "instruction_data list \<Rightarrow> string \<Rightarrow> nat" where
  "label_is_used ds lb = (if lb = [] then 0 else length (filter (\<lambda>d. lb = id_jmp_label d) ds))"

fun labels_unique :: "instruction_data list \<Rightarrow> bool" where
  "labels_unique [] = True"
| "labels_unique (d # ds) =
     ((id_label d = [] \<or> (\<forall>e \<in> set ds. id_label d \<noteq> id_label e)) \<and> labels_unique ds)"

definition instr_label_check :: "line list \<Rightarrow> line list option" where
  "instr_label_check ls =
     (let ds = map snd ls
      in if \<not> labels_unique ds then None
         else if \<exists>d \<in> set ds. id_label d \<noteq> [] \<and> id_jmp_label d \<noteq> [] \<and> id_label d = id_jmp_label d then None
         else Some (map (\<lambda>(i, d). (i, d\<lparr>id_n_users := label_is_used ds (id_label d)\<rparr>)) ls))"

text \<open>The jump target of a label, in an array that starts at address \<open>base\<close>.\<close>

definition resolve_line :: "nat \<Rightarrow> instruction_data list \<Rightarrow> line \<Rightarrow> instruction option" where
  "resolve_line base ds l =
     (case l of
        (Jmp ty ip, d) \<Rightarrow>
          (case label_find ds (id_jmp_label d) of
             None \<Rightarrow> None
           | Some j \<Rightarrow> Some (Jmp ty (ip\<lparr>jmp_ip := base + j\<rparr>)))
      | (i, d) \<Rightarrow> Some i)"

fun resolve_loop :: "nat \<Rightarrow> instruction_data list \<Rightarrow> line list \<Rightarrow> instruction list option" where
  "resolve_loop base ds [] = Some []"
| "resolve_loop base ds (l # ls) =
     (case resolve_line base ds l of
        None \<Rightarrow> None
      | Some i \<Rightarrow> map_option ((#) i) (resolve_loop base ds ls))"

definition instr_jmp_resolve :: "nat \<Rightarrow> line list \<Rightarrow> instruction list option" where
  "instr_jmp_resolve base ls = resolve_loop base (map snd ls) ls"

section \<open>Verification\<close>

definition is_rx :: "instruction \<Rightarrow> bool" where
  "is_rx i = (case i of Io ty _ \<Rightarrow> ty = INSTR_RX | _ \<Rightarrow> False)"

definition is_jmp_uncond :: "instruction \<Rightarrow> bool" where
  "is_jmp_uncond i = (case i of Jmp ty _ \<Rightarrow> ty = INSTR_JMP | _ \<Rightarrow> False)"

definition is_return :: "instruction \<Rightarrow> bool" where
  "is_return i = (case i of Plain ty \<Rightarrow> ty = INSTR_RETURN | _ \<Rightarrow> False)"

text \<open>\<open>instr_verify\<close> for the instructions of an action or of the pipeline itself.\<close>

definition instr_verify :: "bool \<Rightarrow> instruction list \<Rightarrow> bool" where
  "instr_verify action is =
     (if action then list_ex (\<lambda>i. is_return i \<or> instruction_is_tx i) is
      else is_rx (hd is) \<and> list_ex instruction_is_tx is \<and>
           (instruction_is_tx (last is) \<or> is_jmp_uncond (last is)))"

section \<open>Fusion of header instructions\<close>

definition instr_compact :: "line list \<Rightarrow> line list" where
  "instr_compact ls = filter (\<lambda>(i, d). \<not> id_invalid d) ls"

definition is_extract :: "instruction \<Rightarrow> bool" where
  "is_extract i = (case i of Io ty _ \<Rightarrow> ty = INSTR_HDR_EXTRACT | _ \<Rightarrow> False)"

definition is_emit :: "instruction \<Rightarrow> bool" where
  "is_emit i = (case i of Io ty _ \<Rightarrow> ty = INSTR_HDR_EMIT | _ \<Rightarrow> False)"

definition is_tx :: "instruction \<Rightarrow> bool" where
  "is_tx i = (case i of Io ty _ \<Rightarrow> ty = INSTR_TX | _ \<Rightarrow> False)"

definition is_dma :: "instruction \<Rightarrow> bool" where
  "is_dma i = (case i of Dma ty _ \<Rightarrow> ty = INSTR_DMA_HT | _ \<Rightarrow> False)"

text \<open>
  The search loop of the three patterns: how many lines from here are of the kind, at most eight, of
  which only the first may be the target of a jump.
\<close>

fun many_len :: "(instruction \<Rightarrow> bool) \<Rightarrow> nat \<Rightarrow> line list \<Rightarrow> nat" where
  "many_len kind i [] = i"
| "many_len kind i ((ins, d) # ls) =
     (if id_invalid d then i
      else if \<not> kind ins then i
      else if i = 8 then i
      else if i \<noteq> 0 \<and> id_n_users d \<noteq> 0 then i
      else many_len kind (i + 1) ls)"

definition extract_many_search :: "line list \<Rightarrow> nat option" where
  "extract_many_search ls = (let i = many_len is_extract 0 ls in if i < 2 then None else Some i)"

definition invalidate_line :: "line \<Rightarrow> line" where
  "invalidate_line l = (case l of (i, d) \<Rightarrow> (i, d\<lparr>id_invalid := True\<rparr>))"

text \<open>One round of the replacement: the type is incremented and the header of line \<open>i\<close> added.\<close>

definition io_merge :: "nat \<Rightarrow> instruction \<Rightarrow> instruction \<Rightarrow> instruction" where
  "io_merge i x y =
     (case (x, y) of
        (Io ty a, Io _ b) \<Rightarrow>
          Io (io_type_inc ty)
            (a\<lparr>hdr_header_id := (hdr_header_id a)(i := hdr_header_id b 0),
               hdr_struct_id := (hdr_struct_id a)(i := hdr_struct_id b 0),
               hdr_n_bytes := (hdr_n_bytes a)(i := hdr_n_bytes b 0)\<rparr>)
      | _ \<Rightarrow> x)"

fun merge_all :: "(nat \<Rightarrow> instruction \<Rightarrow> instruction \<Rightarrow> instruction) \<Rightarrow> nat \<Rightarrow> instruction \<Rightarrow> instruction list \<Rightarrow> instruction" where
  "merge_all merge i x [] = x"
| "merge_all merge i x (y # ys) = merge_all merge (i + 1) (merge i x y) ys"

definition extract_many_replace :: "line list \<Rightarrow> line list" where
  "extract_many_replace ls =
     (case ls of
        [] \<Rightarrow> []
      | (i, d) # rest \<Rightarrow> (merge_all io_merge 1 i (map fst rest), d) # map invalidate_line rest)"

function extract_many_loop :: "line list \<Rightarrow> line list" where
  "extract_many_loop [] = []"
| "extract_many_loop (l # ls) =
     (case extract_many_search (l # ls) of
        Some n \<Rightarrow> extract_many_replace (take n (l # ls)) @ extract_many_loop (drop n (l # ls))
      | None \<Rightarrow> l # extract_many_loop ls)"
  by pat_completeness auto
termination
  by (relation "measure length") (auto simp: extract_many_search_def Let_def split: if_splits)

definition extract_many_optimize :: "line list \<Rightarrow> line list" where
  "extract_many_optimize ls = instr_compact (extract_many_loop ls)"

text \<open>
  Emissions up to a transmission. The code reads the line behind the emissions without asking whether
  there is one: \<open>None\<close> is the read past the end of the array.
\<close>

definition emit_many_tx_search :: "line list \<Rightarrow> nat option option" where
  "emit_many_tx_search ls =
     (let i = many_len is_emit 0 ls
      in if i = 0 then Some None
         else case aget ls i of
             None \<Rightarrow> None
           | Some (ins, d) \<Rightarrow> if \<not> is_tx ins then Some None else if id_n_users d \<noteq> 0 then Some None else Some (Some (i + 1)))"

definition tx_merge :: "instruction \<Rightarrow> instruction \<Rightarrow> instruction" where
  "tx_merge x y =
     (case (x, y) of
        (Io ty a, Io _ b) \<Rightarrow> Io (io_type_inc ty) (a\<lparr>io_offset := io_offset b, io_n_bits := io_n_bits b\<rparr>)
      | _ \<Rightarrow> x)"

definition emit_many_tx_replace :: "line list \<Rightarrow> line list" where
  "emit_many_tx_replace ls =
     (case ls of
        [] \<Rightarrow> []
      | (i, d) # rest \<Rightarrow>
          (tx_merge (merge_all io_merge 1 i (map fst (butlast rest))) (fst (last rest)), d)
          # map invalidate_line rest)"

function emit_many_tx_loop :: "line list \<Rightarrow> line list option" where
  "emit_many_tx_loop [] = Some []"
| "emit_many_tx_loop (l # ls) =
     (case emit_many_tx_search (l # ls) of
        None \<Rightarrow> None
      | Some (Some n) \<Rightarrow>
          map_option ((@) (emit_many_tx_replace (take n (l # ls)))) (emit_many_tx_loop (drop n (l # ls)))
      | Some None \<Rightarrow> map_option ((#) l) (emit_many_tx_loop ls))"
  by pat_completeness auto
termination
  by (relation "measure length") (auto simp: emit_many_tx_search_def Let_def split: if_splits option.splits)

definition emit_many_tx_optimize :: "line list \<Rightarrow> line list option" where
  "emit_many_tx_optimize ls = map_option instr_compact (emit_many_tx_loop ls)"

definition dma_many_search :: "line list \<Rightarrow> nat option" where
  "dma_many_search ls = (let i = many_len is_dma 0 ls in if i < 2 then None else Some i)"

definition dma_merge :: "nat \<Rightarrow> instruction \<Rightarrow> instruction \<Rightarrow> instruction" where
  "dma_merge i x y =
     (case (x, y) of
        (Dma ty a, Dma _ b) \<Rightarrow>
          Dma (dma_type_inc ty)
            (a\<lparr>dma_header_id := (dma_header_id a)(i := dma_header_id b 0),
               dma_struct_id := (dma_struct_id a)(i := dma_struct_id b 0),
               dma_offset := (dma_offset a)(i := dma_offset b 0),
               dma_n_bytes := (dma_n_bytes a)(i := dma_n_bytes b 0)\<rparr>)
      | _ \<Rightarrow> x)"

definition dma_many_replace :: "line list \<Rightarrow> line list" where
  "dma_many_replace ls =
     (case ls of
        [] \<Rightarrow> []
      | (i, d) # rest \<Rightarrow> (merge_all dma_merge 1 i (map fst rest), d) # map invalidate_line rest)"

function dma_many_loop :: "line list \<Rightarrow> line list" where
  "dma_many_loop [] = []"
| "dma_many_loop (l # ls) =
     (case dma_many_search (l # ls) of
        Some n \<Rightarrow> dma_many_replace (take n (l # ls)) @ dma_many_loop (drop n (l # ls))
      | None \<Rightarrow> l # dma_many_loop ls)"
  by pat_completeness auto
termination
  by (relation "measure length") (auto simp: dma_many_search_def Let_def split: if_splits)

definition dma_many_optimize :: "line list \<Rightarrow> line list" where
  "dma_many_optimize ls = instr_compact (dma_many_loop ls)"

section \<open>Validation and moves of all fields\<close>

record action_args =
  a_st :: struct_type
  a_args_endianness :: "bool list"

text \<open>The first field at a byte offset, or the number of fields.\<close>

definition field_at :: "struct_type \<Rightarrow> nat \<Rightarrow> nat" where
  "field_at st off = length (takeWhile (\<lambda>f. off \<noteq> f_offset f div 8) (s_fields st))"

definition action_arg_src_mov_count :: "struct_type \<Rightarrow> nat \<Rightarrow> line list \<Rightarrow> nat" where
  "action_arg_src_mov_count st arg_id ls =
     (if arg_id \<ge> length (s_fields st) then 0
      else
        (let off = f_offset (s_fields st ! arg_id) div 8
         in length (filter (\<lambda>(i, d). \<not> id_invalid d \<and>
              (case i of
                 Mov ty ip \<Rightarrow> (ty = INSTR_MOV \<or> ty = INSTR_MOV_HM) \<and> op_struct_id (ds_src ip) = 0 \<and>
                              op_offset (ds_src ip) = off
               | _ \<Rightarrow> False)) ls)))"

definition mov_matches :: "header_type \<Rightarrow> struct_type \<Rightarrow> nat \<Rightarrow> nat \<Rightarrow> line \<Rightarrow> bool" where
  "mov_matches h st src_field_id i l =
     (case l of
        (Mov ty ip, d) \<Rightarrow>
          \<not> id_invalid d \<and> id_n_users d = 0 \<and> ty = INSTR_MOV_HM \<and>
          op_struct_id (ds_dst ip) = h_struct_id h \<and>
          op_offset (ds_dst ip) = f_offset (s_fields (h_st h) ! i) div 8 \<and>
          op_n_bits (ds_dst ip) = f_n_bits (s_fields (h_st h) ! i) \<and>
          op_struct_id (ds_src ip) = 0 \<and>
          op_offset (ds_src ip) = f_offset (s_fields st ! (src_field_id + i)) div 8 \<and>
          op_n_bits (ds_src ip) = f_n_bits (s_fields st ! (src_field_id + i)) \<and>
          op_n_bits (ds_dst ip) = op_n_bits (ds_src ip)
      | _ \<Rightarrow> False)"

text \<open>The search at line \<open>k\<close> of the whole list \<open>ls\<close>, for an action with arguments.\<close>

definition validate_mov_all_search :: "header_type list \<Rightarrow> struct_type \<Rightarrow> nat \<Rightarrow> line list \<Rightarrow> nat option" where
  "validate_mov_all_search hs st k ls =
     (case drop k ls of
        (Valid vty v, d0) # (Mov mty mv, d1) # _ \<Rightarrow>
          if id_invalid d0 \<or> vty \<noteq> INSTR_HDR_VALIDATE \<or> id_invalid d1 \<or> mty \<noteq> INSTR_MOV_HM \<or> op_struct_id (ds_src mv) \<noteq> 0
          then None
          else (case header_find_by_struct_id hs (hv_struct_id v) of
             None \<Rightarrow> None
           | Some h \<Rightarrow>
               (let n = length (s_fields (h_st h)); src_field_id = field_at st (op_offset (ds_src mv)) in
                if s_var_size (h_st h) \<or> length ls - k < 1 + n then None
                else if src_field_id + n > length (s_fields st) then None
                else if \<not> list_all (\<lambda>i. mov_matches h st src_field_id i (ls ! (k + 1 + i))) [0 ..< n] then None
                else if list_ex (\<lambda>j. action_arg_src_mov_count st j ls > 1) [src_field_id ..< src_field_id + n] then None
                else Some (1 + n)))
      | _ \<Rightarrow> None)"

definition validate_mov_all_replace ::
  "header_type list \<Rightarrow> action_args \<Rightarrow> nat \<Rightarrow> nat \<Rightarrow> line list \<Rightarrow> line list \<times> action_args" where
  "validate_mov_all_replace hs a k n ls =
     (case ls ! (k + 1) of
        (Mov mty mv, d1) \<Rightarrow>
          (case header_find_by_struct_id hs (op_struct_id (ds_dst mv)) of
             None \<Rightarrow> (ls, a)
           | Some h \<Rightarrow>
               (let src_offset = op_offset (ds_src mv);
                    src_field_id = field_at (a_st a) src_offset;
                    n_fields = length (s_fields (h_st h));
                    ins = Dma INSTR_DMA_HT
                      \<lparr>dma_header_id = (\<lambda>_. 0)(0 := h_id h), dma_struct_id = (\<lambda>_. 0)(0 := h_struct_id h),
                       dma_offset = (\<lambda>_. 0)(0 := src_offset), dma_n_bytes = (\<lambda>_. 0)(0 := s_n_bits (h_st h) div 8)\<rparr>
                in (take k ls @ (ins, snd (ls ! k)) # map invalidate_line (take (n - 1) (drop (k + 1) ls)) @ drop (k + n) ls,
                    a\<lparr>a_args_endianness := map (\<lambda>i. if src_field_id \<le> i \<and> i < src_field_id + n_fields then True
                        else a_args_endianness a ! i) [0 ..< length (a_args_endianness a)]\<rparr>)))
      | _ \<Rightarrow> (ls, a))"

text \<open>The loop over the lines; the first argument bounds its rounds by the number of lines.\<close>

fun validate_mov_all_loop :: "nat \<Rightarrow> header_type list \<Rightarrow> action_args \<Rightarrow> nat \<Rightarrow> line list \<Rightarrow> line list \<times> action_args" where
  "validate_mov_all_loop 0 hs a k ls = (ls, a)"
| "validate_mov_all_loop (Suc fuel) hs a k ls =
     (if length ls \<le> k then (ls, a)
      else case validate_mov_all_search hs (a_st a) k ls of
          Some n \<Rightarrow> (let (ls, a) = validate_mov_all_replace hs a k n ls in validate_mov_all_loop fuel hs a (k + n) ls)
        | None \<Rightarrow> validate_mov_all_loop fuel hs a (k + 1) ls)"

definition validate_mov_all_optimize ::
  "header_type list \<Rightarrow> action_args option \<Rightarrow> line list \<Rightarrow> line list \<times> action_args option" where
  "validate_mov_all_optimize hs a ls =
     (case a of
        None \<Rightarrow> (ls, None)
      | Some args \<Rightarrow>
          (let (ls, args) = validate_mov_all_loop (length ls) hs args 0 ls in (instr_compact ls, Some args)))"

section \<open>The optimiser and the configuration\<close>

definition instr_optimize ::
  "header_type list \<Rightarrow> action_args option \<Rightarrow> line list \<Rightarrow> (line list \<times> action_args option) option" where
  "instr_optimize hs a ls =
     (case emit_many_tx_optimize (extract_many_optimize ls) of
        None \<Rightarrow> None
      | Some ls \<Rightarrow>
          (let (ls, a) = validate_mov_all_optimize hs a ls in Some (dma_many_optimize ls, a)))"

text \<open>
  \<open>instruction_config\<close> from the translated lines: the instructions as they are put at \<open>base\<close>, and the
  argument endianness of the action; or the error \<open>EINVAL\<close>, or the read past the array.
\<close>

datatype cfg_error = CFG_EINVAL | CFG_OVERREAD

definition instruction_config ::
  "bool \<Rightarrow> header_type list \<Rightarrow> action_args option \<Rightarrow> nat \<Rightarrow> line list \<Rightarrow> cfg_error + instruction list \<times> action_args option" where
  "instruction_config action hs a base ls =
     (if ls = [] then Inl CFG_EINVAL
      else case instr_label_check ls of
        None \<Rightarrow> Inl CFG_EINVAL
      | Some ls \<Rightarrow>
          if \<not> instr_verify action (map fst ls) then Inl CFG_EINVAL
          else case instr_optimize hs a ls of
              None \<Rightarrow> Inl CFG_OVERREAD
            | Some (ls, a) \<Rightarrow>
                (case instr_jmp_resolve base ls of
                   None \<Rightarrow> Inl CFG_EINVAL
                 | Some is \<Rightarrow> Inr (is, a)))"

end
