(* ===== verification/SwxTranslate.thy ===== *)
theory SwxTranslate
  imports SwxConfig
begin

text \<open>
  The translation of instruction text (\<open>instr_translate\<close> of lib/pipeline/rte_swx_pipeline.c): a line is
  cut into tokens, the name of the instruction selects a function, and this looks up the names of its
  operands and picks the instruction type by where they lie.
\<close>

section \<open>Tokens and numbers\<close>

text \<open>\<open>strtok_r\<close> with the separators blank, tab and vertical tab.\<close>

definition is_sep :: "char \<Rightarrow> bool" where
  "is_sep c \<longleftrightarrow> c = CHR '' '' \<or> c = CHR 0x09 \<or> c = CHR 0x0B"

function tokenize :: "string \<Rightarrow> string list" where
  "tokenize s =
     (case dropWhile is_sep s of
        [] \<Rightarrow> []
      | c # cs \<Rightarrow> takeWhile (\<lambda>c. \<not> is_sep c) (c # cs) # tokenize (dropWhile (\<lambda>c. \<not> is_sep c) (c # cs)))"
  by pat_completeness auto

lemma dropWhile_shorter: "length (dropWhile P xs) \<le> length xs"
  by (induction xs) auto

lemma dropWhile_hd: "dropWhile P xs = c # cs \<Longrightarrow> \<not> P c"
  by (induction xs) (auto split: if_splits)

termination tokenize
proof (relation "measure length", goal_cases)
  case (2 s c cs)
  then have "length cs < length s" using dropWhile_shorter [of is_sep s] by simp
  then show ?case using dropWhile_hd [OF 2] dropWhile_shorter [of "\<lambda>c. \<not> is_sep c" cs] by simp
qed simp

declare tokenize.simps [simp del]

text \<open>
  \<open>strtoull\<close> with base 0, as the C standard has it: space, a sign, a prefix that says the base, and
  the longest run of digits; a value that does not fit is \<open>ULLONG_MAX\<close>. The second component is the text
  behind the number, the whole text when there is none.
\<close>

definition is_space :: "char \<Rightarrow> bool" where
  "is_space c \<longleftrightarrow> c = CHR '' '' \<or> c \<in> {CHR 0x09, CHR 0x0A, CHR 0x0B, CHR 0x0C, CHR 0x0D}"

definition digit_val :: "nat \<Rightarrow> char \<Rightarrow> nat option" where
  "digit_val base c =
     (let n = (of_char c :: nat);
          v = (if 48 \<le> n \<and> n \<le> 57 then n - 48
               else if 97 \<le> n \<and> n \<le> 122 then n - 87
               else if 65 \<le> n \<and> n \<le> 90 then n - 55 else 36)
      in if v < base then Some v else None)"

fun read_digits :: "nat \<Rightarrow> nat \<Rightarrow> string \<Rightarrow> nat \<times> string" where
  "read_digits base acc [] = (acc, [])"
| "read_digits base acc (c # cs) =
     (case digit_val base c of None \<Rightarrow> (acc, c # cs) | Some v \<Rightarrow> read_digits base (base * acc + v) cs)"

definition strtoull0 :: "string \<Rightarrow> u64 \<times> string" where
  "strtoull0 text =
     (let s = dropWhile is_space text;
          (neg, s) = (case s of c # cs \<Rightarrow> if c = CHR ''-'' then (True, cs) else if c = CHR ''+'' then (False, cs) else (False, s)
                      | [] \<Rightarrow> (False, s));
          (base, s) = (case s of
              z # x # d # cs \<Rightarrow>
                if z = CHR ''0'' \<and> (x = CHR ''x'' \<or> x = CHR ''X'') \<and> digit_val 16 d \<noteq> None then (16, d # cs)
                else if z = CHR ''0'' then (8, s) else (10, s)
            | z # _ \<Rightarrow> if z = CHR ''0'' then (8, s) else (10, s)
            | [] \<Rightarrow> (10, s))
      in case s of
           [] \<Rightarrow> (0, text)
         | c # _ \<Rightarrow>
             if digit_val base c = None then (0, text)
             else (let (n, rest) = read_digits base 0 s;
                       v = (if n < 2 ^ 64 then (if neg then - word_of_nat n else word_of_nat n) else -1)
                   in (v, rest)))"

text \<open>The value of a token that is a number from its first to its last character.\<close>

definition number :: "string \<Rightarrow> u64 option" where
  "number s = (let (v, rest) = strtoull0 s in if rest = [] then Some v else None)"

text \<open>\<open>strtoul\<close>, kept in 32 bits.\<close>

definition number32 :: "string \<Rightarrow> u32 option" where
  "number32 s = map_option ucast (number s)"

section \<open>Operands\<close>

text \<open>An instruction that is not part of the model is \<open>TR_OTHER\<close>.\<close>

datatype tr_error = TR_EINVAL | TR_OTHER

type_synonym 'a tr = "tr_error + 'a"

abbreviation check :: "bool \<Rightarrow> 'a tr \<Rightarrow> 'a tr" where
  "check \<equiv> CHECK TR_EINVAL"

abbreviation found :: "'b option \<Rightarrow> ('b \<Rightarrow> 'a tr) \<Rightarrow> 'a tr" where
  "found \<equiv> FOUND TR_EINVAL"

definition is_h :: "string \<Rightarrow> bool" where
  "is_h name \<longleftrightarrow> name \<noteq> [] \<and> hd name = CHR ''h''"

text \<open>The operand of a field; its three members have eight bits.\<close>

definition operand_of :: "field_type \<times> nat \<Rightarrow> instr_operand" where
  "operand_of fs = (case fs of (f, struct_id) \<Rightarrow>
     \<lparr>op_struct_id = struct_id mod 256, op_n_bits = f_n_bits f mod 256, op_offset = (f_offset f div 8) mod 256\<rparr>)"

definition no_operand :: instr_operand where
  "no_operand = \<lparr>op_struct_id = 0, op_n_bits = 0, op_offset = 0\<rparr>"

definition fixed :: "field_type \<times> nat \<Rightarrow> bool" where
  "fixed fs \<longleftrightarrow> \<not> f_var_size (fst fs)"

text \<open>An immediate operand in the byte order of a destination of \<open>n_bits\<close>.\<close>

definition imm_for :: "string \<Rightarrow> nat \<Rightarrow> u64 \<Rightarrow> u64" where
  "imm_for name n_bits v = (if is_h name then drop_bit (64 - n_bits) (hton64 v) else v)"

text \<open>The choice of a type by the places of two operands.\<close>

definition by_place :: "string \<Rightarrow> string \<Rightarrow> 'a \<Rightarrow> 'a \<Rightarrow> 'a \<Rightarrow> 'a \<Rightarrow> 'a" where
  "by_place a b mm mh hm hh = (if is_h a then (if is_h b then hh else hm) else (if is_h b then mh else mm))"

section \<open>Reception, transmission and headers\<close>

definition io_zero :: instr_io where
  "io_zero = \<lparr>io_offset = 0, io_n_bits = 0, io_val = 0, hdr_header_id = (\<lambda>_. 0), hdr_struct_id = (\<lambda>_. 0), hdr_n_bytes = (\<lambda>_. 0)\<rparr>"

definition io_field :: "field_type \<Rightarrow> instr_io" where
  "io_field f = io_zero\<lparr>io_offset := (f_offset f div 8) mod 256, io_n_bits := f_n_bits f mod 256\<rparr>"

definition io_header :: "header_type \<Rightarrow> nat \<Rightarrow> instr_io" where
  "io_header h n_bytes = io_zero\<lparr>hdr_header_id := (\<lambda>_. 0)(0 := h_id h mod 256), hdr_struct_id := (\<lambda>_. 0)(0 := h_struct_id h mod 256),
     hdr_n_bytes := (\<lambda>_. 0)(0 := word_of_nat (n_bytes mod 256))\<rparr>"

definition instr_rx_translate :: "pspec \<Rightarrow> action_type option \<Rightarrow> string list \<Rightarrow> instruction tr" where
  "instr_rx_translate p action tokens =
     check (action = None) (case tokens of
       [_, name] \<Rightarrow> found (metadata_field_parse p name) (\<lambda>f. Inr (Io INSTR_RX (io_field f)))
     | _ \<Rightarrow> Inl TR_EINVAL)"

definition instr_tx_translate :: "pspec \<Rightarrow> string list \<Rightarrow> instruction tr" where
  "instr_tx_translate p tokens =
     (case tokens of
        [_, port] \<Rightarrow>
          (case metadata_field_parse p port of
             Some f \<Rightarrow> Inr (Io INSTR_TX (io_field f))
           | None \<Rightarrow> found (number32 port) (\<lambda>port_val. Inr (Io INSTR_TX_I (io_zero\<lparr>io_val := port_val\<rparr>))))
      | _ \<Rightarrow> Inl TR_EINVAL)"

definition instr_drop_translate :: "string list \<Rightarrow> instruction tr" where
  "instr_drop_translate tokens = check (length tokens = 1) (Inr (Plain INSTR_DROP))"

definition instr_mirror_translate :: "pspec \<Rightarrow> action_type option \<Rightarrow> string list \<Rightarrow> instruction tr" where
  "instr_mirror_translate p action tokens =
     (case tokens of
        [_, dst, src] \<Rightarrow>
          found (struct_field_parse p action dst) (\<lambda>fdst. check (\<not> is_h dst) (check (fixed fdst) (
          found (struct_field_parse p action src) (\<lambda>fsrc. check (\<not> is_h src) (check (fixed fsrc) (
            Inr (Mirror (operand_of fdst) (operand_of fsrc))))))))
      | _ \<Rightarrow> Inl TR_EINVAL)"

definition instr_recirculate_translate :: "string list \<Rightarrow> instruction tr" where
  "instr_recirculate_translate tokens = check (length tokens = 1) (Inr (Plain INSTR_RECIRCULATE))"

definition instr_recircid_translate :: "pspec \<Rightarrow> string list \<Rightarrow> instruction tr" where
  "instr_recircid_translate p tokens =
     (case tokens of
        [_, name] \<Rightarrow> found (metadata_field_parse p name) (\<lambda>f. Inr (Io INSTR_RECIRCID (io_field f)))
      | _ \<Rightarrow> Inl TR_EINVAL)"

definition instr_hdr_extract_translate :: "pspec \<Rightarrow> action_type option \<Rightarrow> string list \<Rightarrow> instruction tr" where
  "instr_hdr_extract_translate p action tokens =
     check (action = None) (case tokens of
       [_, name] \<Rightarrow>
         found (header_parse p name) (\<lambda>h. check (\<not> s_var_size (h_st h)) (
           Inr (Io INSTR_HDR_EXTRACT (io_header h (s_n_bits (h_st h) div 8)))))
     | [_, name, len] \<Rightarrow>
         found (header_parse p name) (\<lambda>h. check (s_var_size (h_st h)) (
         found (metadata_field_parse p len) (\<lambda>mf. check (\<not> f_var_size mf) (
           Inr (Io INSTR_HDR_EXTRACT_M ((io_header h (s_n_bits_min (h_st h) div 8))
             \<lparr>io_offset := (f_offset mf div 8) mod 256, io_n_bits := f_n_bits mf mod 256\<rparr>))))))
     | _ \<Rightarrow> Inl TR_EINVAL)"

definition instr_hdr_lookahead_translate :: "pspec \<Rightarrow> action_type option \<Rightarrow> string list \<Rightarrow> instruction tr" where
  "instr_hdr_lookahead_translate p action tokens =
     check (action = None) (case tokens of
       [_, name] \<Rightarrow>
         found (header_parse p name) (\<lambda>h. check (\<not> s_var_size (h_st h)) (Inr (Io INSTR_HDR_LOOKAHEAD (io_header h 0))))
     | _ \<Rightarrow> Inl TR_EINVAL)"

definition instr_hdr_emit_translate :: "pspec \<Rightarrow> string list \<Rightarrow> instruction tr" where
  "instr_hdr_emit_translate p tokens =
     (case tokens of
        [_, name] \<Rightarrow> found (header_parse p name) (\<lambda>h. Inr (Io INSTR_HDR_EMIT (io_header h (s_n_bits (h_st h) div 8))))
      | _ \<Rightarrow> Inl TR_EINVAL)"

definition instr_hdr_validate_translate :: "pspec \<Rightarrow> string list \<Rightarrow> instruction tr" where
  "instr_hdr_validate_translate p tokens =
     (case tokens of
        [_, name] \<Rightarrow>
          found (header_parse p name) (\<lambda>h.
            Inr (Valid INSTR_HDR_VALIDATE \<lparr>hv_header_id = h_id h mod 256, hv_struct_id = h_struct_id h mod 256\<rparr>))
      | _ \<Rightarrow> Inl TR_EINVAL)"

definition instr_hdr_invalidate_translate :: "pspec \<Rightarrow> string list \<Rightarrow> instruction tr" where
  "instr_hdr_invalidate_translate p tokens =
     (case tokens of
        [_, name] \<Rightarrow>
          found (header_parse p name) (\<lambda>h. Inr (Valid INSTR_HDR_INVALIDATE \<lparr>hv_header_id = h_id h mod 256, hv_struct_id = 0\<rparr>))
      | _ \<Rightarrow> Inl TR_EINVAL)"

definition instr_table_translate :: "pspec \<Rightarrow> action_type option \<Rightarrow> string list \<Rightarrow> instruction tr" where
  "instr_table_translate p action tokens =
     check (action = None) (case tokens of
       [_, name] \<Rightarrow> found (name_index (ps_tables p) name) (\<lambda>i. Inr (Table (i mod 256)))
     | _ \<Rightarrow> Inl TR_EINVAL)"

text \<open>The casts bind tighter than the divisions, so that bit offsets and not byte offsets are cut.\<close>

definition instr_hash_translate :: "pspec \<Rightarrow> action_type option \<Rightarrow> string list \<Rightarrow> instruction tr" where
  "instr_hash_translate p action tokens =
     (case tokens of
        [_, name, dst, src_first, src_last] \<Rightarrow>
          found (name_index (ps_hash_funcs p) name) (\<lambda>i.
          found (metadata_field_parse p dst) (\<lambda>fdst.
          found (struct_field_parse p action src_first) (\<lambda>(first, first_id).
          found (struct_field_parse p action src_last) (\<lambda>(last, last_id).
          check (first_id = last_id) (
            Inr (HashFunc
              \<lparr>hf_hash_func_id = i mod 256, hf_dst_offset = (f_offset fdst mod 256) div 8, hf_dst_n_bits = f_n_bits fdst mod 256,
               hf_src_struct_id = first_id mod 256, hf_src_offset = (f_offset first mod 65536) div 8,
               hf_src_n_bytes = nat ((int (f_offset last) + int (f_n_bits last) - int (f_offset first)) mod 4294967296) div 8 mod 65536\<rparr>))))))
      | _ \<Rightarrow> Inl TR_EINVAL)"

section \<open>Moves and arithmetic\<close>

text \<open>
  The form that moves and arithmetic share: a destination that is not an argument of the action, a source
  that is a field or a number; \<open>with_field\<close> and \<open>with_number\<close> make the instruction.
\<close>

definition dst_src_translate ::
  "pspec \<Rightarrow> action_type option \<Rightarrow> string list \<Rightarrow> (string \<Rightarrow> string \<Rightarrow> instr_dst_src \<Rightarrow> instruction) \<Rightarrow>
   (string \<Rightarrow> instr_dst_src \<Rightarrow> instruction) \<Rightarrow> bool \<Rightarrow> instruction tr" where
  "dst_src_translate p action tokens with_field with_number swap =
     (case tokens of
        [_, dst, src] \<Rightarrow>
          found (struct_field_parse p None dst) (\<lambda>fdst. check (fixed fdst) (
          case struct_field_parse p action src of
            Some fsrc \<Rightarrow>
              check (fixed fsrc) (Inr (with_field dst src \<lparr>ds_dst = operand_of fdst, ds_src = operand_of fsrc, ds_src_val = 0\<rparr>))
          | None \<Rightarrow>
              found (number src) (\<lambda>src_val.
                Inr (with_number dst \<lparr>ds_dst = operand_of fdst, ds_src = no_operand,
                  ds_src_val = (if swap then imm_for dst (f_n_bits (fst fdst)) src_val else src_val)\<rparr>))))
      | _ \<Rightarrow> Inl TR_EINVAL)"

definition instr_mov_translate :: "pspec \<Rightarrow> action_type option \<Rightarrow> string list \<Rightarrow> instruction tr" where
  "instr_mov_translate p action tokens =
     dst_src_translate p action tokens
       (\<lambda>dst src. Mov (by_place dst src INSTR_MOV INSTR_MOV_MH INSTR_MOV_HM INSTR_MOV_HH)) (\<lambda>dst. Mov INSTR_MOV_I) True"

definition instr_alu_add_translate :: "pspec \<Rightarrow> action_type option \<Rightarrow> string list \<Rightarrow> instruction tr" where
  "instr_alu_add_translate p action tokens =
     dst_src_translate p action tokens
       (\<lambda>dst src. Alu (by_place dst src INSTR_ALU_ADD INSTR_ALU_ADD_MH INSTR_ALU_ADD_HM INSTR_ALU_ADD_HH))
       (\<lambda>dst. Alu (if is_h dst then INSTR_ALU_ADD_HI else INSTR_ALU_ADD_MI)) False"

definition instr_alu_sub_translate :: "pspec \<Rightarrow> action_type option \<Rightarrow> string list \<Rightarrow> instruction tr" where
  "instr_alu_sub_translate p action tokens =
     dst_src_translate p action tokens
       (\<lambda>dst src. Alu (by_place dst src INSTR_ALU_SUB INSTR_ALU_SUB_MH INSTR_ALU_SUB_HM INSTR_ALU_SUB_HH))
       (\<lambda>dst. Alu (if is_h dst then INSTR_ALU_SUB_HI else INSTR_ALU_SUB_MI)) False"

definition instr_alu_shl_translate :: "pspec \<Rightarrow> action_type option \<Rightarrow> string list \<Rightarrow> instruction tr" where
  "instr_alu_shl_translate p action tokens =
     dst_src_translate p action tokens
       (\<lambda>dst src. Alu (by_place dst src INSTR_ALU_SHL INSTR_ALU_SHL_MH INSTR_ALU_SHL_HM INSTR_ALU_SHL_HH))
       (\<lambda>dst. Alu (if is_h dst then INSTR_ALU_SHL_HI else INSTR_ALU_SHL_MI)) False"

definition instr_alu_shr_translate :: "pspec \<Rightarrow> action_type option \<Rightarrow> string list \<Rightarrow> instruction tr" where
  "instr_alu_shr_translate p action tokens =
     dst_src_translate p action tokens
       (\<lambda>dst src. Alu (by_place dst src INSTR_ALU_SHR INSTR_ALU_SHR_MH INSTR_ALU_SHR_HM INSTR_ALU_SHR_HH))
       (\<lambda>dst. Alu (if is_h dst then INSTR_ALU_SHR_HI else INSTR_ALU_SHR_MI)) False"

definition instr_alu_and_translate :: "pspec \<Rightarrow> action_type option \<Rightarrow> string list \<Rightarrow> instruction tr" where
  "instr_alu_and_translate p action tokens =
     dst_src_translate p action tokens
       (\<lambda>dst src. Alu (by_place dst src INSTR_ALU_AND INSTR_ALU_AND_MH INSTR_ALU_AND_HM INSTR_ALU_AND_HH))
       (\<lambda>dst. Alu INSTR_ALU_AND_I) True"

definition instr_alu_or_translate :: "pspec \<Rightarrow> action_type option \<Rightarrow> string list \<Rightarrow> instruction tr" where
  "instr_alu_or_translate p action tokens =
     dst_src_translate p action tokens
       (\<lambda>dst src. Alu (by_place dst src INSTR_ALU_OR INSTR_ALU_OR_MH INSTR_ALU_OR_HM INSTR_ALU_OR_HH))
       (\<lambda>dst. Alu INSTR_ALU_OR_I) True"

definition instr_alu_xor_translate :: "pspec \<Rightarrow> action_type option \<Rightarrow> string list \<Rightarrow> instruction tr" where
  "instr_alu_xor_translate p action tokens =
     dst_src_translate p action tokens
       (\<lambda>dst src. Alu (by_place dst src INSTR_ALU_XOR INSTR_ALU_XOR_MH INSTR_ALU_XOR_HM INSTR_ALU_XOR_HH))
       (\<lambda>dst. Alu INSTR_ALU_XOR_I) True"

definition instr_alu_ckadd_translate :: "pspec \<Rightarrow> string list \<Rightarrow> instruction tr" where
  "instr_alu_ckadd_translate p tokens =
     (case tokens of
        [_, dst, src] \<Rightarrow>
          found (header_field_parse p dst) (\<lambda>(fdst, hdst). check (\<not> f_var_size fdst \<and> f_n_bits fdst = 16) (
          case header_field_parse p src of
            Some (fsrc, hsrc) \<Rightarrow>
              check (\<not> f_var_size fsrc) (Inr (Alu INSTR_ALU_CKADD_FIELD
                \<lparr>ds_dst = operand_of (fdst, h_struct_id hdst), ds_src = operand_of (fsrc, h_struct_id hsrc), ds_src_val = 0\<rparr>))
          | None \<Rightarrow>
              found (header_parse p src) (\<lambda>hsrc.
                Inr (Alu (if \<not> s_var_size (h_st hsrc) \<and> s_n_bits (h_st hsrc) div 8 = 20 then INSTR_ALU_CKADD_STRUCT20 else INSTR_ALU_CKADD_STRUCT)
                  \<lparr>ds_dst = operand_of (fdst, h_struct_id hdst),
                   ds_src = \<lparr>op_struct_id = h_struct_id hsrc mod 256, op_n_bits = h_id hsrc mod 256, op_offset = 0\<rparr>,
                   ds_src_val = 0\<rparr>))))
      | _ \<Rightarrow> Inl TR_EINVAL)"

definition instr_alu_cksub_translate :: "pspec \<Rightarrow> string list \<Rightarrow> instruction tr" where
  "instr_alu_cksub_translate p tokens =
     (case tokens of
        [_, dst, src] \<Rightarrow>
          found (header_field_parse p dst) (\<lambda>(fdst, hdst). check (\<not> f_var_size fdst \<and> f_n_bits fdst = 16) (
          found (header_field_parse p src) (\<lambda>(fsrc, hsrc). check (\<not> f_var_size fsrc) (
            Inr (Alu INSTR_ALU_CKSUB_FIELD
              \<lparr>ds_dst = operand_of (fdst, h_struct_id hdst), ds_src = operand_of (fsrc, h_struct_id hsrc), ds_src_val = 0\<rparr>)))))
      | _ \<Rightarrow> Inl TR_EINVAL)"

section \<open>Register and meter arrays\<close>

definition ra_zero :: instr_regarray where
  "ra_zero = \<lparr>ra_regarray_id = 0, ra_idx = no_operand, ra_idx_val = 0, ra_dstsrc = no_operand, ra_dstsrc_val = 0\<rparr>"

definition instr_regprefetch_translate :: "pspec \<Rightarrow> action_type option \<Rightarrow> string list \<Rightarrow> instruction tr" where
  "instr_regprefetch_translate p action tokens =
     (case tokens of
        [_, arr, idx] \<Rightarrow>
          found (name_index (ps_regarrays p) arr) (\<lambda>r.
          case struct_field_parse p action idx of
            Some fidx \<Rightarrow>
              check (fixed fidx) (Inr (Regarray (if is_h idx then INSTR_REGPREFETCH_RH else INSTR_REGPREFETCH_RM)
                (ra_zero\<lparr>ra_regarray_id := r mod 256, ra_idx := operand_of fidx\<rparr>)))
          | None \<Rightarrow>
              found (number32 idx) (\<lambda>idx_val.
                Inr (Regarray INSTR_REGPREFETCH_RI (ra_zero\<lparr>ra_regarray_id := r mod 256, ra_idx_val := idx_val\<rparr>))))
      | _ \<Rightarrow> Inl TR_EINVAL)"

definition instr_regrd_translate :: "pspec \<Rightarrow> action_type option \<Rightarrow> string list \<Rightarrow> instruction tr" where
  "instr_regrd_translate p action tokens =
     (case tokens of
        [_, dst, arr, idx] \<Rightarrow>
          found (name_index (ps_regarrays p) arr) (\<lambda>r.
          found (struct_field_parse p None dst) (\<lambda>fdst. check (fixed fdst) (
          case struct_field_parse p action idx of
            Some fidx \<Rightarrow>
              check (fixed fidx) (Inr (Regarray (by_place dst idx INSTR_REGRD_MRM INSTR_REGRD_MRH INSTR_REGRD_HRM INSTR_REGRD_HRH)
                (ra_zero\<lparr>ra_regarray_id := r mod 256, ra_idx := operand_of fidx, ra_dstsrc := operand_of fdst\<rparr>)))
          | None \<Rightarrow>
              found (number32 idx) (\<lambda>idx_val.
                Inr (Regarray (if is_h dst then INSTR_REGRD_HRI else INSTR_REGRD_MRI)
                  (ra_zero\<lparr>ra_regarray_id := r mod 256, ra_idx_val := idx_val, ra_dstsrc := operand_of fdst\<rparr>))))))
      | _ \<Rightarrow> Inl TR_EINVAL)"

text \<open>Writes and additions; with two numbers the identifier of the array is not filled in.\<close>

definition reg_src_translate ::
  "pspec \<Rightarrow> action_type option \<Rightarrow> string list \<Rightarrow> regarray_type \<times> regarray_type \<times> regarray_type \<times> regarray_type \<Rightarrow>
   regarray_type \<times> regarray_type \<Rightarrow> regarray_type \<times> regarray_type \<Rightarrow> regarray_type \<Rightarrow> instruction tr" where
  "reg_src_translate p action tokens both only_idx only_src neither =
     (case tokens of
        [_, arr, idx, src] \<Rightarrow>
          found (name_index (ps_regarrays p) arr) (\<lambda>r.
          case (struct_field_parse p action idx, struct_field_parse p action src) of
            (Some fidx, Some fsrc) \<Rightarrow>
              check (fixed fidx) (check (fixed fsrc) (
                case both of (mm, mh, hm, hh) \<Rightarrow>
                Inr (Regarray (by_place idx src mm mh hm hh)
                  (ra_zero\<lparr>ra_regarray_id := r mod 256, ra_idx := operand_of fidx, ra_dstsrc := operand_of fsrc\<rparr>))))
          | (Some fidx, None) \<Rightarrow>
              check (fixed fidx) (found (number src) (\<lambda>src_val.
                Inr (Regarray (if is_h idx then fst only_idx else snd only_idx)
                  (ra_zero\<lparr>ra_regarray_id := r mod 256, ra_idx := operand_of fidx, ra_dstsrc_val := src_val\<rparr>))))
          | (None, Some fsrc) \<Rightarrow>
              found (number32 idx) (\<lambda>idx_val. check (fixed fsrc) (
                Inr (Regarray (if is_h src then fst only_src else snd only_src)
                  (ra_zero\<lparr>ra_regarray_id := r mod 256, ra_idx_val := idx_val, ra_dstsrc := operand_of fsrc\<rparr>))))
          | (None, None) \<Rightarrow>
              found (number src) (\<lambda>src_val. found (number32 idx) (\<lambda>idx_val.
                Inr (Regarray neither (ra_zero\<lparr>ra_idx_val := idx_val, ra_dstsrc_val := src_val\<rparr>)))))
      | _ \<Rightarrow> Inl TR_EINVAL)"

definition instr_regwr_translate :: "pspec \<Rightarrow> action_type option \<Rightarrow> string list \<Rightarrow> instruction tr" where
  "instr_regwr_translate p action tokens =
     reg_src_translate p action tokens (INSTR_REGWR_RMM, INSTR_REGWR_RMH, INSTR_REGWR_RHM, INSTR_REGWR_RHH)
       (INSTR_REGWR_RHI, INSTR_REGWR_RMI) (INSTR_REGWR_RIH, INSTR_REGWR_RIM) INSTR_REGWR_RII"

definition instr_regadd_translate :: "pspec \<Rightarrow> action_type option \<Rightarrow> string list \<Rightarrow> instruction tr" where
  "instr_regadd_translate p action tokens =
     reg_src_translate p action tokens (INSTR_REGADD_RMM, INSTR_REGADD_RMH, INSTR_REGADD_RHM, INSTR_REGADD_RHH)
       (INSTR_REGADD_RHI, INSTR_REGADD_RMI) (INSTR_REGADD_RIH, INSTR_REGADD_RIM) INSTR_REGADD_RII"

definition im_zero :: instr_meter where
  "im_zero = \<lparr>im_metarray_id = 0, im_idx = no_operand, im_idx_val = 0, im_length = no_operand, im_color_in = no_operand,
     im_color_in_val = 0, im_color_out = no_operand\<rparr>"

definition instr_metprefetch_translate :: "pspec \<Rightarrow> action_type option \<Rightarrow> string list \<Rightarrow> instruction tr" where
  "instr_metprefetch_translate p action tokens =
     (case tokens of
        [_, arr, idx] \<Rightarrow>
          found (name_index (ps_metarrays p) arr) (\<lambda>m.
          case struct_field_parse p action idx of
            Some fidx \<Rightarrow>
              check (fixed fidx) (Inr (Meter (if is_h idx then INSTR_METPREFETCH_H else INSTR_METPREFETCH_M)
                (im_zero\<lparr>im_metarray_id := m mod 256, im_idx := operand_of fidx\<rparr>)))
          | None \<Rightarrow>
              found (number32 idx) (\<lambda>idx_val.
                Inr (Meter INSTR_METPREFETCH_I (im_zero\<lparr>im_metarray_id := m mod 256, im_idx_val := idx_val\<rparr>))))
      | _ \<Rightarrow> Inl TR_EINVAL)"

definition instr_meter_translate :: "pspec \<Rightarrow> action_type option \<Rightarrow> string list \<Rightarrow> instruction tr" where
  "instr_meter_translate p action tokens =
     (case tokens of
        [_, arr, idx, len, color_in, color_out] \<Rightarrow>
          found (name_index (ps_metarrays p) arr) (\<lambda>m.
          found (struct_field_parse p action len) (\<lambda>flength. check (fixed flength) (
          found (struct_field_parse p None color_out) (\<lambda>fcout. check (fixed fcout) (
          let im = im_zero\<lparr>im_metarray_id := m mod 256, im_length := operand_of flength, im_color_out := operand_of fcout\<rparr> in
          case (struct_field_parse p action idx, struct_field_parse p action color_in) of
            (Some fidx, Some fcin) \<Rightarrow>
              check (fixed fidx) (check (fixed fcin) (
                Inr (Meter (by_place idx len INSTR_METER_MMM INSTR_METER_MHM INSTR_METER_HMM INSTR_METER_HHM)
                  (im\<lparr>im_idx := operand_of fidx, im_color_in := operand_of fcin\<rparr>))))
          | (Some fidx, None) \<Rightarrow>
              check (fixed fidx) (found (number32 color_in) (\<lambda>color_in_val.
                Inr (Meter (by_place idx len INSTR_METER_MMI INSTR_METER_MHI INSTR_METER_HMI INSTR_METER_HHI)
                  (im\<lparr>im_idx := operand_of fidx, im_color_in_val := color_in_val\<rparr>))))
          | (None, Some fcin) \<Rightarrow>
              found (number32 idx) (\<lambda>idx_val. check (fixed fcin) (
                Inr (Meter (if is_h len then INSTR_METER_IHM else INSTR_METER_IMM)
                  (im\<lparr>im_idx_val := idx_val, im_color_in := operand_of fcin\<rparr>))))
          | (None, None) \<Rightarrow>
              found (number32 idx) (\<lambda>idx_val. found (number32 color_in) (\<lambda>color_in_val.
                Inr (Meter (if is_h len then INSTR_METER_IHI else INSTR_METER_IMI)
                  (im\<lparr>im_idx_val := idx_val, im_color_in_val := color_in_val\<rparr>)))))))))
      | _ \<Rightarrow> Inl TR_EINVAL)"

section \<open>Jumps\<close>

text \<open>Jumps come with the label they go to; the address is resolved later.\<close>

definition jmp_zero :: instr_jmp where
  "jmp_zero = \<lparr>jmp_ip = 0, jmp_a = no_operand, jmp_header_id = 0, jmp_action_id = 0, jmp_b = no_operand, jmp_b_val = 0\<rparr>"

definition instr_jmp_translate :: "string list \<Rightarrow> (instruction \<times> string) tr" where
  "instr_jmp_translate tokens = (case tokens of [_, label] \<Rightarrow> Inr (Jmp INSTR_JMP jmp_zero, label) | _ \<Rightarrow> Inl TR_EINVAL)"

definition jmp_header_translate :: "jmp_type \<Rightarrow> pspec \<Rightarrow> string list \<Rightarrow> (instruction \<times> string) tr" where
  "jmp_header_translate ty p tokens =
     (case tokens of
        [_, label, name] \<Rightarrow> found (header_parse p name) (\<lambda>h. Inr (Jmp ty (jmp_zero\<lparr>jmp_header_id := h_id h mod 256\<rparr>), label))
      | _ \<Rightarrow> Inl TR_EINVAL)"

definition instr_jmp_valid_translate :: "pspec \<Rightarrow> string list \<Rightarrow> (instruction \<times> string) tr" where
  "instr_jmp_valid_translate = jmp_header_translate INSTR_JMP_VALID"

definition instr_jmp_invalid_translate :: "pspec \<Rightarrow> string list \<Rightarrow> (instruction \<times> string) tr" where
  "instr_jmp_invalid_translate = jmp_header_translate INSTR_JMP_INVALID"

definition jmp_plain_translate :: "jmp_type \<Rightarrow> action_type option \<Rightarrow> string list \<Rightarrow> (instruction \<times> string) tr" where
  "jmp_plain_translate ty action tokens =
     check (action = None) (case tokens of [_, label] \<Rightarrow> Inr (Jmp ty jmp_zero, label) | _ \<Rightarrow> Inl TR_EINVAL)"

definition instr_jmp_hit_translate :: "action_type option \<Rightarrow> string list \<Rightarrow> (instruction \<times> string) tr" where
  "instr_jmp_hit_translate = jmp_plain_translate INSTR_JMP_HIT"

definition instr_jmp_miss_translate :: "action_type option \<Rightarrow> string list \<Rightarrow> (instruction \<times> string) tr" where
  "instr_jmp_miss_translate = jmp_plain_translate INSTR_JMP_MISS"

definition jmp_action_translate :: "jmp_type \<Rightarrow> pspec \<Rightarrow> action_type option \<Rightarrow> string list \<Rightarrow> (instruction \<times> string) tr" where
  "jmp_action_translate ty p action tokens =
     check (action = None) (case tokens of
       [_, label, name] \<Rightarrow> found (action_find p name) (\<lambda>a. Inr (Jmp ty (jmp_zero\<lparr>jmp_action_id := ac_id a mod 256\<rparr>), label))
     | _ \<Rightarrow> Inl TR_EINVAL)"

definition instr_jmp_action_hit_translate :: "pspec \<Rightarrow> action_type option \<Rightarrow> string list \<Rightarrow> (instruction \<times> string) tr" where
  "instr_jmp_action_hit_translate = jmp_action_translate INSTR_JMP_ACTION_HIT"

definition instr_jmp_action_miss_translate :: "pspec \<Rightarrow> action_type option \<Rightarrow> string list \<Rightarrow> (instruction \<times> string) tr" where
  "instr_jmp_action_miss_translate = jmp_action_translate INSTR_JMP_ACTION_MISS"

definition jmp_cmp_translate ::
  "pspec \<Rightarrow> action_type option \<Rightarrow> string list \<Rightarrow> jmp_type \<times> jmp_type \<times> jmp_type \<times> jmp_type \<Rightarrow> jmp_type \<Rightarrow> jmp_type \<Rightarrow> bool \<Rightarrow>
   (instruction \<times> string) tr" where
  "jmp_cmp_translate p action tokens types mi hi swap =
     (case tokens of
        [_, label, a, b] \<Rightarrow>
          found (struct_field_parse p action a) (\<lambda>fa. check (fixed fa) (
          case struct_field_parse p action b of
            Some fb \<Rightarrow>
              check (fixed fb) (case types of (mm, mh, hm, hh) \<Rightarrow>
                Inr (Jmp (by_place a b mm mh hm hh) (jmp_zero\<lparr>jmp_a := operand_of fa, jmp_b := operand_of fb\<rparr>), label))
          | None \<Rightarrow>
              found (number b) (\<lambda>b_val.
                Inr (Jmp (if is_h a then hi else mi)
                  (jmp_zero\<lparr>jmp_a := operand_of fa,
                    jmp_b_val := (if swap then imm_for a (f_n_bits (fst fa)) b_val else b_val)\<rparr>), label))))
      | _ \<Rightarrow> Inl TR_EINVAL)"

definition instr_jmp_eq_translate :: "pspec \<Rightarrow> action_type option \<Rightarrow> string list \<Rightarrow> (instruction \<times> string) tr" where
  "instr_jmp_eq_translate p action tokens =
     jmp_cmp_translate p action tokens (INSTR_JMP_EQ, INSTR_JMP_EQ_MH, INSTR_JMP_EQ_HM, INSTR_JMP_EQ_HH) INSTR_JMP_EQ_I INSTR_JMP_EQ_I True"

definition instr_jmp_neq_translate :: "pspec \<Rightarrow> action_type option \<Rightarrow> string list \<Rightarrow> (instruction \<times> string) tr" where
  "instr_jmp_neq_translate p action tokens =
     jmp_cmp_translate p action tokens (INSTR_JMP_NEQ, INSTR_JMP_NEQ_MH, INSTR_JMP_NEQ_HM, INSTR_JMP_NEQ_HH) INSTR_JMP_NEQ_I INSTR_JMP_NEQ_I True"

definition instr_jmp_lt_translate :: "pspec \<Rightarrow> action_type option \<Rightarrow> string list \<Rightarrow> (instruction \<times> string) tr" where
  "instr_jmp_lt_translate p action tokens =
     jmp_cmp_translate p action tokens (INSTR_JMP_LT, INSTR_JMP_LT_MH, INSTR_JMP_LT_HM, INSTR_JMP_LT_HH) INSTR_JMP_LT_MI INSTR_JMP_LT_HI False"

definition instr_jmp_gt_translate :: "pspec \<Rightarrow> action_type option \<Rightarrow> string list \<Rightarrow> (instruction \<times> string) tr" where
  "instr_jmp_gt_translate p action tokens =
     jmp_cmp_translate p action tokens (INSTR_JMP_GT, INSTR_JMP_GT_MH, INSTR_JMP_GT_HM, INSTR_JMP_GT_HH) INSTR_JMP_GT_MI INSTR_JMP_GT_HI False"

definition instr_return_translate :: "action_type option \<Rightarrow> string list \<Rightarrow> instruction tr" where
  "instr_return_translate action tokens = check (action \<noteq> None) (check (length tokens = 1) (Inr (Plain INSTR_RETURN)))"

section \<open>A line\<close>

definition RTE_SWX_INSTRUCTION_TOKENS_MAX :: nat where
  "RTE_SWX_INSTRUCTION_TOKENS_MAX = 16"

text \<open>The instruction of some tokens, with the label that a jump goes to.\<close>

definition instr_of_tokens :: "pspec \<Rightarrow> action_type option \<Rightarrow> string list \<Rightarrow> (instruction \<times> string) tr" where
  "instr_of_tokens p action ts =
     (let name = hd ts; plain = (\<lambda>r. bindR r (\<lambda>i. Inr (i, []))) in
      if name = ''rx'' then plain (instr_rx_translate p action ts)
      else if name = ''tx'' then plain (instr_tx_translate p ts)
      else if name = ''drop'' then plain (instr_drop_translate ts)
      else if name = ''mirror'' then plain (instr_mirror_translate p action ts)
      else if name = ''recirculate'' then plain (instr_recirculate_translate ts)
      else if name = ''recircid'' then plain (instr_recircid_translate p ts)
      else if name = ''extract'' then plain (instr_hdr_extract_translate p action ts)
      else if name = ''lookahead'' then plain (instr_hdr_lookahead_translate p action ts)
      else if name = ''emit'' then plain (instr_hdr_emit_translate p ts)
      else if name = ''validate'' then plain (instr_hdr_validate_translate p ts)
      else if name = ''invalidate'' then plain (instr_hdr_invalidate_translate p ts)
      else if name = ''mov'' then plain (instr_mov_translate p action ts)
      else if name = ''add'' then plain (instr_alu_add_translate p action ts)
      else if name = ''sub'' then plain (instr_alu_sub_translate p action ts)
      else if name = ''ckadd'' then plain (instr_alu_ckadd_translate p ts)
      else if name = ''cksub'' then plain (instr_alu_cksub_translate p ts)
      else if name = ''and'' then plain (instr_alu_and_translate p action ts)
      else if name = ''or'' then plain (instr_alu_or_translate p action ts)
      else if name = ''xor'' then plain (instr_alu_xor_translate p action ts)
      else if name = ''shl'' then plain (instr_alu_shl_translate p action ts)
      else if name = ''shr'' then plain (instr_alu_shr_translate p action ts)
      else if name = ''regprefetch'' then plain (instr_regprefetch_translate p action ts)
      else if name = ''regrd'' then plain (instr_regrd_translate p action ts)
      else if name = ''regwr'' then plain (instr_regwr_translate p action ts)
      else if name = ''regadd'' then plain (instr_regadd_translate p action ts)
      else if name = ''metprefetch'' then plain (instr_metprefetch_translate p action ts)
      else if name = ''meter'' then plain (instr_meter_translate p action ts)
      else if name = ''table'' then plain (instr_table_translate p action ts)
      else if name = ''learn'' then Inl TR_OTHER
      else if name = ''rearm'' then Inl TR_OTHER
      else if name = ''forget'' then Inl TR_OTHER
      else if name = ''extern'' then Inl TR_OTHER
      else if name = ''hash'' then plain (instr_hash_translate p action ts)
      else if name = ''jmp'' then instr_jmp_translate ts
      else if name = ''jmpv'' then instr_jmp_valid_translate p ts
      else if name = ''jmpnv'' then instr_jmp_invalid_translate p ts
      else if name = ''jmph'' then instr_jmp_hit_translate action ts
      else if name = ''jmpnh'' then instr_jmp_miss_translate action ts
      else if name = ''jmpa'' then instr_jmp_action_hit_translate p action ts
      else if name = ''jmpna'' then instr_jmp_action_miss_translate p action ts
      else if name = ''jmpeq'' then instr_jmp_eq_translate p action ts
      else if name = ''jmpneq'' then instr_jmp_neq_translate p action ts
      else if name = ''jmplt'' then instr_jmp_lt_translate p action ts
      else if name = ''jmpgt'' then instr_jmp_gt_translate p action ts
      else if name = ''return'' then plain (instr_return_translate action ts)
      else Inl TR_EINVAL)"

definition instr_translate :: "pspec \<Rightarrow> action_type option \<Rightarrow> string \<Rightarrow> line tr" where
  "instr_translate p action text =
     (let tokens = tokenize text in
      check (length tokens \<le> RTE_SWX_INSTRUCTION_TOKENS_MAX) (
      check (\<forall>t \<in> set tokens. check_name t) (
      check (tokens \<noteq> []) (
        let labelled = (2 \<le> length tokens \<and> tokens ! 1 = '':'') in
        check (\<not> labelled \<or> 2 < length tokens) (
        bindR (instr_of_tokens p action (if labelled then drop 2 tokens else tokens)) (\<lambda>(i, jmp_label).
          Inr (i, \<lparr>id_label = (if labelled then tokens ! 0 else []), id_jmp_label = jmp_label, id_n_users = 0, id_invalid = False\<rparr>)))))))"

section \<open>The text of a program or an action\<close>

definition RTE_SWX_INSTRUCTION_SIZE :: nat where
  "RTE_SWX_INSTRUCTION_SIZE = 256"

definition check_instruction :: "string \<Rightarrow> bool" where
  "check_instruction text \<longleftrightarrow> text \<noteq> [] \<and> length text < RTE_SWX_INSTRUCTION_SIZE"

fun translate_lines :: "pspec \<Rightarrow> action_type option \<Rightarrow> string list \<Rightarrow> line list tr" where
  "translate_lines p action [] = Inr []"
| "translate_lines p action (text # texts) =
     bindR (instr_translate p action text) (\<lambda>l. bindR (translate_lines p action texts) (\<lambda>ls. Inr (l # ls)))"

datatype prog_error = PROG_TRANSLATE tr_error | PROG_CONFIG cfg_error | PROG_EEXIST

definition args_of :: "action_type option \<Rightarrow> action_args option" where
  "args_of action = Option.bind action (\<lambda>a. map_option (\<lambda>st. \<lparr>a_st = st, a_args_endianness = ac_args_endianness a\<rparr>) (ac_st a))"

text \<open>\<open>instruction_config\<close> from the text, the instructions put at \<open>base\<close>.\<close>

definition program_config ::
  "pspec \<Rightarrow> action_type option \<Rightarrow> nat \<Rightarrow> string list \<Rightarrow> prog_error + instruction list \<times> action_args option" where
  "program_config p action base texts =
     (if texts = [] \<or> \<not> (\<forall>text \<in> set texts. check_instruction text) then Inl (PROG_TRANSLATE TR_EINVAL)
      else case translate_lines p action texts of
        Inl e \<Rightarrow> Inl (PROG_TRANSLATE e)
      | Inr ls \<Rightarrow> map_sum PROG_CONFIG id (instruction_config (action \<noteq> None) (ps_headers p) (args_of action) base ls))"

definition rte_swx_pipeline_action_config ::
  "pspec \<Rightarrow> nat \<Rightarrow> string \<Rightarrow> string option \<Rightarrow> string list \<Rightarrow> prog_error + pspec" where
  "rte_swx_pipeline_action_config p base name args_struct_type_name texts =
     (let einval = PROG_TRANSLATE TR_EINVAL in
      CHECK einval (check_name name) (
      CHECK PROG_EEXIST (action_find p name = None) (
      bindR (case args_struct_type_name of
               None \<Rightarrow> Inr None
             | Some st_name \<Rightarrow>
                 CHECK einval (check_name st_name) (
                 FOUND einval (struct_type_find p st_name) (\<lambda>st. CHECK einval (\<not> s_var_size st) (Inr (Some st))))) (\<lambda>st.
        let a = \<lparr>ac_name = name, ac_st = st, ac_args_endianness = (case st of None \<Rightarrow> [] | Some st \<Rightarrow> replicate (length (s_fields st)) False),
                 ac_instructions = [], ac_id = length (ps_actions p)\<rparr> in
        bindR (program_config p (Some a) base texts) (\<lambda>(is, args).
          Inr (p\<lparr>ps_actions := ps_actions p @
            [a\<lparr>ac_instructions := is, ac_args_endianness := (case args of None \<Rightarrow> [] | Some g \<Rightarrow> a_args_endianness g)\<rparr>]\<rparr>))))))"

end
