(* ===== verification/SwxTyping.thy ===== *)
theory SwxTyping
  imports SwxTranslate
begin

text \<open>
  Well-typed instructions: identifiers in range, operands inside the structs of the specification, and
  operand places that fit the byte orders for which the instruction type stands. The translation of
  a line only makes well-typed instructions.
\<close>

section \<open>Operands and places\<close>

text \<open>An operand is a whole number of bytes inside a struct.\<close>

definition operand_in :: "pspec \<Rightarrow> action_type option \<Rightarrow> instr_operand \<Rightarrow> bool" where
  "operand_in p action x \<longleftrightarrow>
     (case struct_of_id p action (op_struct_id x) of
        None \<Rightarrow> False
      | Some st \<Rightarrow> 0 < op_n_bits x \<and> op_n_bits x \<le> 64 \<and> op_n_bits x mod 8 = 0 \<and> 8 * op_offset x + op_n_bits x \<le> s_n_bits st)"

definition in_header :: "pspec \<Rightarrow> instr_operand \<Rightarrow> bool" where
  "in_header p x \<longleftrightarrow> op_struct_id x \<in> h_struct_id ` set (ps_headers p)"

text \<open>
  Where an operand lies by the type of its instruction: in a header (network byte order), in the meta-data
  or the action data (host byte order), in either, a whole header, or nowhere.
\<close>

datatype place = PM | PH | PAny | PWhole | PNone

definition place_ok :: "pspec \<Rightarrow> action_type option \<Rightarrow> place \<Rightarrow> instr_operand \<Rightarrow> bool" where
  "place_ok p action pl x =
     (case pl of
        PM \<Rightarrow> operand_in p action x \<and> \<not> in_header p x
      | PH \<Rightarrow> operand_in p action x \<and> in_header p x
      | PAny \<Rightarrow> operand_in p action x
      | PWhole \<Rightarrow> (\<exists>h \<in> set (ps_headers p). op_struct_id x = h_struct_id h \<and> op_n_bits x = h_id h)
      | PNone \<Rightarrow> True)"

primrec mov_places :: "mov_type \<Rightarrow> place \<times> place" where
  "mov_places INSTR_MOV = (PM, PM)"
  | "mov_places INSTR_MOV_MH = (PM, PH)"
  | "mov_places INSTR_MOV_HM = (PH, PM)"
  | "mov_places INSTR_MOV_HH = (PH, PH)"
  | "mov_places INSTR_MOV_I = (PAny, PNone)"

primrec alu_places :: "alu_type \<Rightarrow> place \<times> place" where
  "alu_places INSTR_ALU_ADD = (PM, PM)"
  | "alu_places INSTR_ALU_ADD_MH = (PM, PH)"
  | "alu_places INSTR_ALU_ADD_HM = (PH, PM)"
  | "alu_places INSTR_ALU_ADD_HH = (PH, PH)"
  | "alu_places INSTR_ALU_ADD_MI = (PM, PNone)"
  | "alu_places INSTR_ALU_ADD_HI = (PH, PNone)"
  | "alu_places INSTR_ALU_SUB = (PM, PM)"
  | "alu_places INSTR_ALU_SUB_MH = (PM, PH)"
  | "alu_places INSTR_ALU_SUB_HM = (PH, PM)"
  | "alu_places INSTR_ALU_SUB_HH = (PH, PH)"
  | "alu_places INSTR_ALU_SUB_MI = (PM, PNone)"
  | "alu_places INSTR_ALU_SUB_HI = (PH, PNone)"
  | "alu_places INSTR_ALU_CKADD_FIELD = (PH, PH)"
  | "alu_places INSTR_ALU_CKADD_STRUCT20 = (PH, PWhole)"
  | "alu_places INSTR_ALU_CKADD_STRUCT = (PH, PWhole)"
  | "alu_places INSTR_ALU_CKSUB_FIELD = (PH, PH)"
  | "alu_places INSTR_ALU_AND = (PM, PM)"
  | "alu_places INSTR_ALU_AND_MH = (PM, PH)"
  | "alu_places INSTR_ALU_AND_HM = (PH, PM)"
  | "alu_places INSTR_ALU_AND_HH = (PH, PH)"
  | "alu_places INSTR_ALU_AND_I = (PAny, PNone)"
  | "alu_places INSTR_ALU_OR = (PM, PM)"
  | "alu_places INSTR_ALU_OR_MH = (PM, PH)"
  | "alu_places INSTR_ALU_OR_HM = (PH, PM)"
  | "alu_places INSTR_ALU_OR_HH = (PH, PH)"
  | "alu_places INSTR_ALU_OR_I = (PAny, PNone)"
  | "alu_places INSTR_ALU_XOR = (PM, PM)"
  | "alu_places INSTR_ALU_XOR_MH = (PM, PH)"
  | "alu_places INSTR_ALU_XOR_HM = (PH, PM)"
  | "alu_places INSTR_ALU_XOR_HH = (PH, PH)"
  | "alu_places INSTR_ALU_XOR_I = (PAny, PNone)"
  | "alu_places INSTR_ALU_SHL = (PM, PM)"
  | "alu_places INSTR_ALU_SHL_MH = (PM, PH)"
  | "alu_places INSTR_ALU_SHL_HM = (PH, PM)"
  | "alu_places INSTR_ALU_SHL_HH = (PH, PH)"
  | "alu_places INSTR_ALU_SHL_MI = (PM, PNone)"
  | "alu_places INSTR_ALU_SHL_HI = (PH, PNone)"
  | "alu_places INSTR_ALU_SHR = (PM, PM)"
  | "alu_places INSTR_ALU_SHR_MH = (PM, PH)"
  | "alu_places INSTR_ALU_SHR_HM = (PH, PM)"
  | "alu_places INSTR_ALU_SHR_HH = (PH, PH)"
  | "alu_places INSTR_ALU_SHR_MI = (PM, PNone)"
  | "alu_places INSTR_ALU_SHR_HI = (PH, PNone)"

primrec jmp_places :: "jmp_type \<Rightarrow> place \<times> place" where
  "jmp_places INSTR_JMP = (PNone, PNone)"
  | "jmp_places INSTR_JMP_VALID = (PNone, PNone)"
  | "jmp_places INSTR_JMP_INVALID = (PNone, PNone)"
  | "jmp_places INSTR_JMP_HIT = (PNone, PNone)"
  | "jmp_places INSTR_JMP_MISS = (PNone, PNone)"
  | "jmp_places INSTR_JMP_ACTION_HIT = (PNone, PNone)"
  | "jmp_places INSTR_JMP_ACTION_MISS = (PNone, PNone)"
  | "jmp_places INSTR_JMP_EQ = (PM, PM)"
  | "jmp_places INSTR_JMP_EQ_MH = (PM, PH)"
  | "jmp_places INSTR_JMP_EQ_HM = (PH, PM)"
  | "jmp_places INSTR_JMP_EQ_HH = (PH, PH)"
  | "jmp_places INSTR_JMP_EQ_I = (PAny, PNone)"
  | "jmp_places INSTR_JMP_NEQ = (PM, PM)"
  | "jmp_places INSTR_JMP_NEQ_MH = (PM, PH)"
  | "jmp_places INSTR_JMP_NEQ_HM = (PH, PM)"
  | "jmp_places INSTR_JMP_NEQ_HH = (PH, PH)"
  | "jmp_places INSTR_JMP_NEQ_I = (PAny, PNone)"
  | "jmp_places INSTR_JMP_LT = (PM, PM)"
  | "jmp_places INSTR_JMP_LT_MH = (PM, PH)"
  | "jmp_places INSTR_JMP_LT_HM = (PH, PM)"
  | "jmp_places INSTR_JMP_LT_HH = (PH, PH)"
  | "jmp_places INSTR_JMP_LT_MI = (PM, PNone)"
  | "jmp_places INSTR_JMP_LT_HI = (PH, PNone)"
  | "jmp_places INSTR_JMP_GT = (PM, PM)"
  | "jmp_places INSTR_JMP_GT_MH = (PM, PH)"
  | "jmp_places INSTR_JMP_GT_HM = (PH, PM)"
  | "jmp_places INSTR_JMP_GT_HH = (PH, PH)"
  | "jmp_places INSTR_JMP_GT_MI = (PM, PNone)"
  | "jmp_places INSTR_JMP_GT_HI = (PH, PNone)"

primrec regarray_places :: "regarray_type \<Rightarrow> place \<times> place" where
  "regarray_places INSTR_REGPREFETCH_RH = (PH, PNone)"
  | "regarray_places INSTR_REGPREFETCH_RM = (PM, PNone)"
  | "regarray_places INSTR_REGPREFETCH_RI = (PNone, PNone)"
  | "regarray_places INSTR_REGRD_HRH = (PH, PH)"
  | "regarray_places INSTR_REGRD_HRM = (PM, PH)"
  | "regarray_places INSTR_REGRD_HRI = (PNone, PH)"
  | "regarray_places INSTR_REGRD_MRH = (PH, PM)"
  | "regarray_places INSTR_REGRD_MRM = (PM, PM)"
  | "regarray_places INSTR_REGRD_MRI = (PNone, PM)"
  | "regarray_places INSTR_REGWR_RHH = (PH, PH)"
  | "regarray_places INSTR_REGWR_RHM = (PH, PM)"
  | "regarray_places INSTR_REGWR_RHI = (PH, PNone)"
  | "regarray_places INSTR_REGWR_RMH = (PM, PH)"
  | "regarray_places INSTR_REGWR_RMM = (PM, PM)"
  | "regarray_places INSTR_REGWR_RMI = (PM, PNone)"
  | "regarray_places INSTR_REGWR_RIH = (PNone, PH)"
  | "regarray_places INSTR_REGWR_RIM = (PNone, PM)"
  | "regarray_places INSTR_REGWR_RII = (PNone, PNone)"
  | "regarray_places INSTR_REGADD_RHH = (PH, PH)"
  | "regarray_places INSTR_REGADD_RHM = (PH, PM)"
  | "regarray_places INSTR_REGADD_RHI = (PH, PNone)"
  | "regarray_places INSTR_REGADD_RMH = (PM, PH)"
  | "regarray_places INSTR_REGADD_RMM = (PM, PM)"
  | "regarray_places INSTR_REGADD_RMI = (PM, PNone)"
  | "regarray_places INSTR_REGADD_RIH = (PNone, PH)"
  | "regarray_places INSTR_REGADD_RIM = (PNone, PM)"
  | "regarray_places INSTR_REGADD_RII = (PNone, PNone)"

primrec meter_places :: "meter_type \<Rightarrow> place \<times> place \<times> place" where
  "meter_places INSTR_METPREFETCH_H = (PH, PNone, PNone)"
  | "meter_places INSTR_METPREFETCH_M = (PM, PNone, PNone)"
  | "meter_places INSTR_METPREFETCH_I = (PNone, PNone, PNone)"
  | "meter_places INSTR_METER_HHM = (PH, PH, PAny)"
  | "meter_places INSTR_METER_HHI = (PH, PH, PNone)"
  | "meter_places INSTR_METER_HMM = (PH, PM, PAny)"
  | "meter_places INSTR_METER_HMI = (PH, PM, PNone)"
  | "meter_places INSTR_METER_MHM = (PM, PH, PAny)"
  | "meter_places INSTR_METER_MHI = (PM, PH, PNone)"
  | "meter_places INSTR_METER_MMM = (PM, PM, PAny)"
  | "meter_places INSTR_METER_MMI = (PM, PM, PNone)"
  | "meter_places INSTR_METER_IHM = (PNone, PH, PAny)"
  | "meter_places INSTR_METER_IHI = (PNone, PH, PNone)"
  | "meter_places INSTR_METER_IMM = (PNone, PM, PAny)"
  | "meter_places INSTR_METER_IMI = (PNone, PM, PNone)"

section \<open>Instructions\<close>

definition header_typed :: "pspec \<Rightarrow> nat \<Rightarrow> nat \<Rightarrow> bool" where
  "header_typed p header_id struct_id \<longleftrightarrow> (\<exists>h \<in> set (ps_headers p). header_id = h_id h \<and> struct_id = h_struct_id h)"

definition meta_typed :: "pspec \<Rightarrow> nat \<Rightarrow> nat \<Rightarrow> bool" where
  "meta_typed p offset n_bits \<longleftrightarrow>
     (\<exists>st. ps_metadata_st p = Some st \<and> 0 < n_bits \<and> n_bits \<le> 64 \<and> n_bits mod 8 = 0 \<and> 8 * offset + n_bits \<le> s_n_bits st)"

definition io_typed :: "pspec \<Rightarrow> io_type \<Rightarrow> instr_io \<Rightarrow> bool" where
  "io_typed p ty io \<longleftrightarrow>
     (if ty \<in> {INSTR_RX, INSTR_TX, INSTR_RECIRCID} then meta_typed p (io_offset io) (io_n_bits io)
      else if ty = INSTR_TX_I then True
      else if ty \<in> {INSTR_HDR_EXTRACT, INSTR_HDR_LOOKAHEAD, INSTR_HDR_EMIT} then header_typed p (hdr_header_id io 0) (hdr_struct_id io 0)
      else ty = INSTR_HDR_EXTRACT_M \<and> header_typed p (hdr_header_id io 0) (hdr_struct_id io 0) \<and> meta_typed p (io_offset io) (io_n_bits io))"

definition instr_typed :: "pspec \<Rightarrow> action_type option \<Rightarrow> instruction \<Rightarrow> bool" where
  "instr_typed p action i =
     (case i of
        Io ty io \<Rightarrow> io_typed p ty io
      | Plain ty \<Rightarrow> ty = INSTR_RETURN \<longrightarrow> action \<noteq> None
      | Mirror dst src \<Rightarrow> place_ok p action PM dst \<and> place_ok p action PM src
      | Valid ty v \<Rightarrow> (\<exists>h \<in> set (ps_headers p). hv_header_id v = h_id h \<and> (ty = INSTR_HDR_VALIDATE \<longrightarrow> hv_struct_id v = h_struct_id h))
      | Mov ty ds \<Rightarrow> place_ok p None (fst (mov_places ty)) (ds_dst ds) \<and> place_ok p action (snd (mov_places ty)) (ds_src ds)
      | Dma _ _ \<Rightarrow> False
      | Alu ty ds \<Rightarrow> place_ok p None (fst (alu_places ty)) (ds_dst ds) \<and> place_ok p action (snd (alu_places ty)) (ds_src ds)
      | Regarray ty ra \<Rightarrow> ra_regarray_id ra < length (ps_regarrays p) \<and>
          place_ok p action (fst (regarray_places ty)) (ra_idx ra) \<and> place_ok p action (snd (regarray_places ty)) (ra_dstsrc ra)
      | Meter ty im \<Rightarrow> im_metarray_id im < length (ps_metarrays p) \<and>
          (case meter_places ty of (idx, len, color_in) \<Rightarrow>
             place_ok p action idx (im_idx im) \<and> place_ok p action len (im_length im) \<and> place_ok p action color_in (im_color_in im) \<and>
             (len \<noteq> PNone \<longrightarrow> place_ok p None PAny (im_color_out im)))
      | Table t \<Rightarrow> action = None \<and> t < length (ps_tables p)
      | HashFunc hf \<Rightarrow> hf_hash_func_id hf < length (ps_hash_funcs p) \<and> meta_typed p (hf_dst_offset hf) (hf_dst_n_bits hf) \<and>
          hf_src_struct_id hf < ps_n_structs p
      | Jmp ty ip \<Rightarrow> place_ok p action (fst (jmp_places ty)) (jmp_a ip) \<and> place_ok p action (snd (jmp_places ty)) (jmp_b ip) \<and>
          (ty \<in> {INSTR_JMP_VALID, INSTR_JMP_INVALID} \<longrightarrow> (\<exists>h \<in> set (ps_headers p). jmp_header_id ip = h_id h)) \<and>
          (ty \<in> {INSTR_JMP_ACTION_HIT, INSTR_JMP_ACTION_MISS} \<longrightarrow> jmp_action_id ip < length (ps_actions p)))"

text \<open>
  The specifications that the eight-bit identifiers of the instructions can address.
\<close>

definition pspec_small :: "pspec \<Rightarrow> bool" where
  "pspec_small p \<longleftrightarrow> length (ps_tables p) \<le> 256 \<and> length (ps_regarrays p) \<le> 256 \<and> length (ps_metarrays p) \<le> 256 \<and>
     length (ps_hash_funcs p) \<le> 256 \<and> length (ps_actions p) \<le> 256"

definition action_ok :: "action_type option \<Rightarrow> bool" where
  "action_ok action \<longleftrightarrow> (\<forall>a st. action = Some a \<longrightarrow> ac_st a = Some st \<longrightarrow> struct_ok st \<and> \<not> s_var_size st)"

section \<open>What the look-ups give is well-typed\<close>

lemma n_structs_small: "pspec_ok p \<Longrightarrow> ps_n_structs p \<le> 66"
  by (auto simp: pspec_ok_def n_headers_max_def)

lemma header_ids_small:
  assumes "pspec_ok p" and "h \<in> set (ps_headers p)"
  shows "h_id h < 64" and "h_struct_id h < 256"
proof -
  show "h_id h < 64" using header_id_less [OF assms] assms(1) by (simp add: pspec_ok_def n_headers_max_def)
  have "h_struct_id h < ps_n_structs p" using assms unfolding pspec_ok_def by blast
  then show "h_struct_id h < 256" using n_structs_small [OF assms(1)] by simp
qed

lemma header_parse_in: "header_parse p name = Some h \<Longrightarrow> h \<in> set (ps_headers p)"
  by (auto simp: header_parse_def bind_eq_Some_conv dest: header_find_in)

lemma field_bits:
  assumes "field_ok st f" and "f_n_bits f \<le> 64"
  shows "0 < f_n_bits f mod 256" and "f_n_bits f mod 256 \<le> 64" and "f_n_bits f mod 256 mod 8 = 0"
    and "8 * ((f_offset f div 8) mod 256) + f_n_bits f mod 256 \<le> s_n_bits st"
proof -
  have n: "f_n_bits f mod 256 = f_n_bits f" using assms(2) by simp
  show "0 < f_n_bits f mod 256" "f_n_bits f mod 256 \<le> 64" "f_n_bits f mod 256 mod 8 = 0"
    using assms by (simp_all only: n field_ok_def)
  have "8 * ((f_offset f div 8) mod 256) \<le> f_offset f"
    using mod_less_eq_dividend [of "f_offset f div 8" 256] by linarith
  then show "8 * ((f_offset f div 8) mod 256) + f_n_bits f mod 256 \<le> s_n_bits st"
    using assms(1) unfolding n field_ok_def by linarith
qed

lemma operand_of_in:
  assumes p: "pspec_ok p" and a: "action_ok action" and f: "struct_field_parse p action name = Some fs" and x: "fixed fs"
  shows "operand_in p action (operand_of fs)"
proof -
  obtain f sid where fs: "fs = (f, sid)" by fastforce
  from struct_field_parse_ok [OF p, of action name f sid] a f
  obtain st where st: "struct_of_id p action sid = Some st" "field_ok st f" "sid < ps_n_structs p"
    by (auto simp: fs action_ok_def)
  moreover from this have "sid < 256" using n_structs_small [OF p] by simp
  moreover have "f_n_bits f \<le> 64" using st(2) x by (auto simp: field_ok_def fixed_def fs)
  ultimately show ?thesis using field_bits [OF st(2)] by (simp add: operand_in_def operand_of_def fs)
qed

lemma operand_of_header:
  assumes p: "pspec_ok p" and f: "struct_field_parse p action name = Some fs"
  shows "in_header p (operand_of fs) \<longleftrightarrow> is_h name"
proof -
  obtain f sid where fs: "fs = (f, sid)" by fastforce
  have small: "h_struct_id h mod 256 = h_struct_id h" if "h \<in> set (ps_headers p)" for h
    using header_ids_small(2) [OF p that] by simp
  have md: "ps_metadata_struct_id p < 256 \<and> ps_metadata_struct_id p \<notin> h_struct_id ` set (ps_headers p)"
    if "ps_metadata_st p = Some st" for st
    using p that n_structs_small [OF p] by (auto simp: pspec_ok_def)
  have zero: "0 \<notin> h_struct_id ` set (ps_headers p)" using p by (auto simp: pspec_ok_def)
  have mdf: "\<exists>st. ps_metadata_st p = Some st" if "metadata_field_parse p name = Some f" for f
    using that by (auto simp: metadata_field_parse_def bind_eq_Some_conv)
  show ?thesis
  proof (cases "is_h name")
    case True
    then obtain h where "header_field_parse p name = Some (f, h)" "sid = h_struct_id h"
      using f by (auto simp: struct_field_parse_def is_h_def fs)
    then show ?thesis using True header_field_parse_in(1) small by (auto simp: in_header_def operand_of_def fs)
  next
    case False
    then have "name \<noteq> []" "hd name \<noteq> CHR ''h''" using f by (auto simp: struct_field_parse_def is_h_def)
    with f have "(\<exists>st. ps_metadata_st p = Some st \<and> sid = ps_metadata_struct_id p) \<or> sid = 0"
      using mdf by (auto simp: struct_field_parse_def fs bind_eq_Some_conv split: if_splits)
    then show ?thesis using False md zero by (auto simp: in_header_def operand_of_def fs)
  qed
qed

lemma operand_of_place:
  assumes "pspec_ok p" and "action_ok action" and "struct_field_parse p action name = Some fs" and "fixed fs"
  shows "place_ok p action PAny (operand_of fs)"
    and "is_h name \<Longrightarrow> place_ok p action PH (operand_of fs)"
    and "\<not> is_h name \<Longrightarrow> place_ok p action PM (operand_of fs)"
  using operand_of_in [OF assms] operand_of_header [OF assms(1,3)] by (simp_all add: place_ok_def)

lemma action_ok_None [simp]: "action_ok None"
  by (simp add: action_ok_def)

text \<open>A destination, which cannot be in the action data, is one also where the action data can be.\<close>

lemma struct_of_id_None: "struct_of_id p None i = Some st \<Longrightarrow> struct_of_id p action i = Some st"
  by (auto simp: struct_of_id_def split: if_splits)

lemma place_ok_None: "place_ok p None pl x \<Longrightarrow> place_ok p action pl x"
  by (auto simp: place_ok_def operand_in_def split: place.splits option.splits dest: struct_of_id_None [where action = action])

lemma meta_field_typed:
  assumes "pspec_ok p" and "metadata_field_parse p name = Some f"
  shows "meta_typed p ((f_offset f div 8) mod 256) (f_n_bits f mod 256)"
proof -
  from metadata_field_parse_ok [OF assms, of None] obtain st where "ps_metadata_st p = Some st" "field_ok st f" "f_n_bits f \<le> 64"
    by blast
  then show ?thesis using field_bits by (auto simp: meta_typed_def)
qed

lemma header_io_typed:
  assumes "pspec_ok p" and "header_parse p name = Some h"
  shows "header_typed p (h_id h mod 256) (h_struct_id h mod 256)"
  using header_ids_small [OF assms(1) header_parse_in [OF assms(2)]] header_parse_in [OF assms(2)] by (auto simp: header_typed_def)


lemma header_valid_typed:
  assumes "pspec_ok p" and "header_parse p name = Some h"
  shows "\<exists>g \<in> set (ps_headers p). h_id h mod 256 = h_id g" and "\<exists>g \<in> set (ps_headers p). h_id h mod 256 = h_id g \<and> h_struct_id h mod 256 = h_struct_id g"
  using header_ids_small [OF assms(1) header_parse_in [OF assms(2)]] header_parse_in [OF assms(2)] by auto

lemma prefixed_h: "prefixed CHR ''h'' name = Some rest \<Longrightarrow> is_h name"
  by (auto simp: prefixed_def is_h_def split: list.splits if_splits)

lemma header_operand:
  assumes p: "pspec_ok p" and f: "header_field_parse p name = Some (f, h)" and x: "\<not> f_var_size f"
  shows "place_ok p action PH (operand_of (f, h_struct_id h))"
proof -
  have h: "is_h name"
    using f by (cases "prefixed CHR ''h'' name") (auto simp: header_field_parse_def prefixed_h)
  then have "struct_field_parse p None name = Some (f, h_struct_id h)" using f by (simp add: struct_field_parse_def is_h_def)
  from operand_of_place(2) [OF p _ this _ h] x have "place_ok p None PH (operand_of (f, h_struct_id h))" by (simp add: fixed_def)
  then show ?thesis by (rule place_ok_None)
qed

lemma whole_header_typed:
  assumes "pspec_ok p" and "header_parse p name = Some h"
  shows "place_ok p action PWhole \<lparr>op_struct_id = h_struct_id h mod 256, op_n_bits = h_id h mod 256, op_offset = n\<rparr>"
  using header_ids_small [OF assms(1) header_parse_in [OF assms(2)]] header_parse_in [OF assms(2)] by (auto simp: place_ok_def)

lemma place_ok_PNone [simp]: "place_ok p action PNone x"
  by (simp add: place_ok_def)

section \<open>The translation is well-typed\<close>

lemmas tr_simps = CHECK_eq_Inr FOUND_eq_Inr bindR_eq_Inr

text \<open>The forms that several instructions share.\<close>

lemma dst_src_typed:
  assumes p: "pspec_ok p" and a: "action_ok action"
    and tr: "dst_src_translate p action tokens with_field with_number swap = Inr i"
  obtains (field) dst src ds where "i = with_field dst src ds" "place_ok p None (if is_h dst then PH else PM) (ds_dst ds)"
      "place_ok p action (if is_h src then PH else PM) (ds_src ds)"
    | (number) dst ds where "i = with_number dst ds" "place_ok p None (if is_h dst then PH else PM) (ds_dst ds)" "place_ok p None PAny (ds_dst ds)"
proof -
  from tr obtain t dst src where "tokens = [t, dst, src]"
    by (auto simp: dst_src_translate_def split: list.splits)
  with tr obtain fdst where d: "struct_field_parse p None dst = Some fdst" "fixed fdst"
    and r: "(case struct_field_parse p action src of
            Some fsrc \<Rightarrow>
              check (fixed fsrc) (Inr (with_field dst src \<lparr>ds_dst = operand_of fdst, ds_src = operand_of fsrc, ds_src_val = 0\<rparr>))
          | None \<Rightarrow>
              found (number src) (\<lambda>src_val.
                Inr (with_number dst \<lparr>ds_dst = operand_of fdst, ds_src = no_operand,
                  ds_src_val = (if swap then imm_for dst (f_n_bits (fst fdst)) src_val else src_val)\<rparr>))) = Inr i"
    by (auto simp: dst_src_translate_def tr_simps)
  note dp = operand_of_place [OF p action_ok_None d]
  show ?thesis
  proof (cases "struct_field_parse p action src")
    case None
    with r obtain v where "i = with_number dst \<lparr>ds_dst = operand_of fdst, ds_src = no_operand, ds_src_val = v\<rparr>"
      by (auto simp: tr_simps)
    then show ?thesis using dp by (intro number) auto
  next
    case (Some fsrc)
    with r have x: "fixed fsrc" and i: "i = with_field dst src \<lparr>ds_dst = operand_of fdst, ds_src = operand_of fsrc, ds_src_val = 0\<rparr>"
      by (auto simp: tr_simps)
    show ?thesis using operand_of_place [OF p a Some x] dp by (intro field [OF i]) auto
  qed
qed

lemma mov_typed:
  assumes "pspec_ok p" and "action_ok action" and "instr_mov_translate p action tokens = Inr i"
  shows "instr_typed p action i"
  using assms(3) unfolding instr_mov_translate_def
  by (rule dst_src_typed [OF assms(1,2)]) (auto simp: instr_typed_def by_place_def)

lemma alu_typed:
  assumes p: "pspec_ok p" and a: "action_ok action"
    and tr: "dst_src_translate p action tokens (\<lambda>dst src. Alu (by_place dst src mm mh hm hh)) (\<lambda>dst. Alu (if is_h dst then hi else mi)) False = Inr i \<or>
      dst_src_translate p action tokens (\<lambda>dst src. Alu (by_place dst src mm mh hm hh)) (\<lambda>dst. Alu imm) True = Inr i"
    and pl: "alu_places mm = (PM, PM)" "alu_places mh = (PM, PH)" "alu_places hm = (PH, PM)" "alu_places hh = (PH, PH)"
      "alu_places mi = (PM, PNone)" "alu_places hi = (PH, PNone)" "alu_places imm = (PAny, PNone)"
  shows "instr_typed p action i"
  using tr
proof
  assume "dst_src_translate p action tokens (\<lambda>dst src. Alu (by_place dst src mm mh hm hh)) (\<lambda>dst. Alu (if is_h dst then hi else mi)) False = Inr i"
  then show ?thesis
    by (rule dst_src_typed [OF p a]) (auto simp: instr_typed_def by_place_def pl split: if_splits)
next
  assume "dst_src_translate p action tokens (\<lambda>dst src. Alu (by_place dst src mm mh hm hh)) (\<lambda>dst. Alu imm) True = Inr i"
  then show ?thesis
    by (rule dst_src_typed [OF p a]) (auto simp: instr_typed_def by_place_def pl split: if_splits)
qed

text \<open>Lists of a given length, as the token lists that a function accepts.\<close>

lemma io_translate_typed:
  assumes p: "pspec_ok p"
  shows "instr_rx_translate p action tokens = Inr i \<Longrightarrow> instr_typed p action i"
    and "instr_tx_translate p tokens = Inr i \<Longrightarrow> instr_typed p action i"
    and "instr_recircid_translate p tokens = Inr i \<Longrightarrow> instr_typed p action i"
    and "instr_hdr_extract_translate p action tokens = Inr i \<Longrightarrow> instr_typed p action i"
    and "instr_hdr_lookahead_translate p action tokens = Inr i \<Longrightarrow> instr_typed p action i"
    and "instr_hdr_emit_translate p tokens = Inr i \<Longrightarrow> instr_typed p action i"
  by (auto simp: instr_rx_translate_def instr_tx_translate_def instr_recircid_translate_def instr_hdr_extract_translate_def
      instr_hdr_lookahead_translate_def instr_hdr_emit_translate_def tr_simps instr_typed_def io_typed_def io_field_def
      io_header_def io_zero_def meta_field_typed [OF p] header_io_typed [OF p]
      split: list.splits option.splits)

lemma plain_translate_typed:
  shows "instr_drop_translate tokens = Inr i \<Longrightarrow> instr_typed p action i"
    and "instr_recirculate_translate tokens = Inr i \<Longrightarrow> instr_typed p action i"
    and "instr_return_translate action tokens = Inr i \<Longrightarrow> instr_typed p action i"
  by (auto simp: instr_drop_translate_def instr_recirculate_translate_def instr_return_translate_def tr_simps instr_typed_def)

lemma valid_translate_typed:
  assumes p: "pspec_ok p"
  shows "instr_hdr_validate_translate p tokens = Inr i \<Longrightarrow> instr_typed p action i"
    and "instr_hdr_invalidate_translate p tokens = Inr i \<Longrightarrow> instr_typed p action i"
  using header_valid_typed [OF p]
  by (auto simp: instr_hdr_validate_translate_def instr_hdr_invalidate_translate_def tr_simps instr_typed_def split: list.splits)

lemma mirror_typed:
  assumes "pspec_ok p" and "action_ok action" and "instr_mirror_translate p action tokens = Inr i"
  shows "instr_typed p action i"
  using assms(3) operand_of_place(3) [OF assms(1,2)]
  by (auto simp: instr_mirror_translate_def tr_simps instr_typed_def split: list.splits)

lemma table_hash_typed:
  assumes p: "pspec_ok p" and a: "action_ok action" and small: "pspec_small p"
  shows "instr_table_translate p action tokens = Inr i \<Longrightarrow> instr_typed p action i"
proof -
  assume "instr_table_translate p action tokens = Inr i"
  then show ?thesis using small
    by (auto simp: instr_table_translate_def tr_simps instr_typed_def pspec_small_def dest!: name_index_less split: list.splits)
qed

lemma ck_typed:
  assumes p: "pspec_ok p"
  shows "instr_alu_ckadd_translate p tokens = Inr i \<Longrightarrow> instr_typed p action i"
    and "instr_alu_cksub_translate p tokens = Inr i \<Longrightarrow> instr_typed p action i"
  using header_operand [OF p] whole_header_typed [OF p]
  by (auto simp: instr_alu_ckadd_translate_def instr_alu_cksub_translate_def tr_simps instr_typed_def
      split: list.splits option.splits prod.splits)

lemma reg_typed:
  assumes p: "pspec_ok p" and a: "action_ok action" and small: "pspec_small p"
  shows "instr_regprefetch_translate p action tokens = Inr i \<Longrightarrow> instr_typed p action i"
    and "instr_regrd_translate p action tokens = Inr i \<Longrightarrow> instr_typed p action i"
    and "instr_regwr_translate p action tokens = Inr i \<Longrightarrow> instr_typed p action i"
    and "instr_regadd_translate p action tokens = Inr i \<Longrightarrow> instr_typed p action i"
proof -
  note op = operand_of_place [OF p a]
  note dst = operand_of_place [OF p action_ok_None, THEN place_ok_None]
  have r: "k mod 256 < length (ps_regarrays p)" "0 < length (ps_regarrays p)" if "name_index (ps_regarrays p) name = Some k" for name k
    using name_index_less [OF that] small by (auto simp: pspec_small_def)
  show "instr_typed p action i" if "instr_regprefetch_translate p action tokens = Inr i"
    using that op r by (auto simp: instr_regprefetch_translate_def tr_simps instr_typed_def ra_zero_def split: list.splits option.splits)
  show "instr_typed p action i" if "instr_regrd_translate p action tokens = Inr i"
    using that op dst r
    by (auto simp: instr_regrd_translate_def tr_simps instr_typed_def ra_zero_def by_place_def split: list.splits option.splits)
  show "instr_typed p action i" if "instr_regwr_translate p action tokens = Inr i"
    using that op r
    by (auto simp: instr_regwr_translate_def reg_src_translate_def tr_simps instr_typed_def ra_zero_def by_place_def
        split: list.splits option.splits)
  show "instr_typed p action i" if "instr_regadd_translate p action tokens = Inr i"
    using that op r
    by (auto simp: instr_regadd_translate_def reg_src_translate_def tr_simps instr_typed_def ra_zero_def by_place_def
        split: list.splits option.splits)
qed

lemma meter_mm_typed:
  assumes "im_metarray_id im < length (ps_metarrays p)" and "place_ok p action (if is_h idx then PH else PM) (im_idx im)"
    and "place_ok p action (if is_h len then PH else PM) (im_length im)" and "place_ok p action PAny (im_color_in im)"
    and "place_ok p None PAny (im_color_out im)"
  shows "instr_typed p action (Meter (by_place idx len INSTR_METER_MMM INSTR_METER_MHM INSTR_METER_HMM INSTR_METER_HHM) im)"
  using assms by (cases "is_h idx"; cases "is_h len") (simp_all add: instr_typed_def by_place_def)

lemma meter_typed:
  assumes p: "pspec_ok p" and a: "action_ok action" and small: "pspec_small p"
  shows "instr_metprefetch_translate p action tokens = Inr i \<Longrightarrow> instr_typed p action i"
    and "instr_meter_translate p action tokens = Inr i \<Longrightarrow> instr_typed p action i"
proof -
  note op = operand_of_place [OF p a]
  note dst = operand_of_place [OF p action_ok_None]
  have r: "k mod 256 < length (ps_metarrays p)" if "name_index (ps_metarrays p) name = Some k" for name k
    using name_index_less [OF that] small by (simp_all add: pspec_small_def)
  show "instr_typed p action i" if "instr_metprefetch_translate p action tokens = Inr i"
    using that op r by (auto simp: instr_metprefetch_translate_def tr_simps instr_typed_def im_zero_def split: list.splits option.splits)
  show "instr_typed p action i" if "instr_meter_translate p action tokens = Inr i"
  proof -
    from that obtain t arr idx len color_in color_out where ts: "tokens = [t, arr, idx, len, color_in, color_out]"
      by (simp add: instr_meter_translate_def split: list.splits)
    with that obtain m flength fcout where m: "name_index (ps_metarrays p) arr = Some m"
      and l: "struct_field_parse p action len = Some flength" "fixed flength"
      and o: "struct_field_parse p None color_out = Some fcout" "fixed fcout"
      by (auto simp: instr_meter_translate_def tr_simps)
    note l2 = operand_of_place [OF p a l] and o2 = operand_of_place(1) [OF p action_ok_None o]
    note tr = that [unfolded instr_meter_translate_def ts list.case m FOUND_simps l o CHECK_simps Let_def]
    show ?thesis
    proof (cases "struct_field_parse p action idx")
      case None
      show ?thesis
      proof (cases "struct_field_parse p action color_in")
        case N: None
        show ?thesis using tr r [OF m] l2 o2 unfolding None N
          by (cases "is_h len") (auto simp: tr_simps instr_typed_def im_zero_def)
      next
        case (Some fcin)
        show ?thesis using tr r [OF m] l2 o2 op(1) [OF Some] unfolding None Some
          by (cases "is_h len") (auto simp: tr_simps instr_typed_def im_zero_def)
      qed
    next
      case I: (Some fidx)
      show ?thesis
      proof (cases "struct_field_parse p action color_in")
        case None
        show ?thesis using tr r [OF m] l2 o2 op [OF I] unfolding I None
          by (cases "is_h len"; cases "is_h idx") (auto simp: tr_simps instr_typed_def im_zero_def by_place_def)
      next
        case (Some fcin)
        from tr have x: "fixed fidx" "fixed fcin"
          and i: "i = Meter (by_place idx len INSTR_METER_MMM INSTR_METER_MHM INSTR_METER_HMM INSTR_METER_HHM)
            (im_zero\<lparr>im_metarray_id := m mod 256, im_length := operand_of flength, im_color_out := operand_of fcout,
              im_idx := operand_of fidx, im_color_in := operand_of fcin\<rparr>)"
          unfolding I Some by (simp_all add: tr_simps)
        note fi = operand_of_place [OF p a I x(1)] and fc = operand_of_place(1) [OF p a Some x(2)]
        show ?thesis unfolding i 
        proof (rule meter_mm_typed)
          show "place_ok p action (if is_h idx then PH else PM) (im_idx (im_zero\<lparr>im_metarray_id := m mod 256, im_length := operand_of flength,
              im_color_out := operand_of fcout, im_idx := operand_of fidx, im_color_in := operand_of fcin\<rparr>))"
            using fi(2,3) by simp
          show "place_ok p action (if is_h len then PH else PM) (im_length (im_zero\<lparr>im_metarray_id := m mod 256, im_length := operand_of flength,
              im_color_out := operand_of fcout, im_idx := operand_of fidx, im_color_in := operand_of fcin\<rparr>))"
            using l2(2,3) by simp
        qed (use r [OF m] fc o2 in simp_all)
      qed
    qed
  qed
qed

lemma bit_offset_cut: "8 * ((n mod 256) div 8) \<le> (n::nat)"
  using mod_less_eq_dividend [of n 256] div_times_less_eq_dividend [of "n mod 256" 8] by linarith

lemma struct_id_cut:
  assumes p: "pspec_ok p" and a: "action_ok action" and that: "struct_field_parse p action name = Some (f, sid)"
  shows "sid mod 256 < ps_n_structs p"
proof -
  have "sid < ps_n_structs p" using struct_field_parse_ok(2) [OF p _ that] a unfolding action_ok_def by blast
  then show ?thesis using mod_less_eq_dividend [of sid 256] by linarith
qed

lemma hash_tokens:
  "instr_hash_translate p action tokens = Inr i \<Longrightarrow> \<exists>t name dst src_first src_last. tokens = [t, name, dst, src_first, src_last]"
  by (simp add: instr_hash_translate_def split: list.splits)

lemma hash_translate_Inr:
  assumes tr: "instr_hash_translate p action [t, name, dst, src_first, src_last] = Inr i"
  shows "\<exists>k fdst first sid hf. name_index (ps_hash_funcs p) name = Some k \<and> metadata_field_parse p dst = Some fdst \<and>
    struct_field_parse p action src_first = Some (first, sid) \<and> i = HashFunc hf \<and> hf_hash_func_id hf = k mod 256 \<and>
    hf_dst_offset hf = (f_offset fdst mod 256) div 8 \<and> hf_dst_n_bits hf = f_n_bits fdst mod 256 \<and> hf_src_struct_id hf = sid mod 256"
    using tr by (auto simp: instr_hash_translate_def tr_simps split: prod.splits)

lemma hash_dst_typed:
  assumes p: "pspec_ok p" and f: "metadata_field_parse p name = Some f"
  shows "meta_typed p ((f_offset f mod 256) div 8) (f_n_bits f mod 256)"
proof -
  from metadata_field_parse_ok [OF p f, of None] obtain st where st: "ps_metadata_st p = Some st" "field_ok st f" "f_n_bits f \<le> 64" by blast
  have n: "f_n_bits f mod 256 = f_n_bits f" using st(3) by simp
  have "f_offset f + f_n_bits f \<le> s_n_bits st" using st(2) unfolding field_ok_def by blast
  then have "8 * ((f_offset f mod 256) div 8) + f_n_bits f mod 256 \<le> s_n_bits st"
    unfolding n by (rule order_trans [OF add_right_mono [OF bit_offset_cut]])
  with field_bits(1-3) [OF st(2,3)] st(1) show ?thesis unfolding meta_typed_def by (intro exI [of _ st] conjI)
qed

lemma hash_typed:
  assumes p: "pspec_ok p" and a: "action_ok action" and small: "pspec_small p" and tr: "instr_hash_translate p action tokens = Inr i"
  shows "instr_typed p action i"
proof -
  from hash_tokens [OF tr] obtain t name dst src_first src_last where "tokens = [t, name, dst, src_first, src_last]" by blast
  with tr have "instr_hash_translate p action [t, name, dst, src_first, src_last] = Inr i" by simp
  from hash_translate_Inr [OF this] obtain k fdst first sid hf where
    h: "name_index (ps_hash_funcs p) name = Some k" "metadata_field_parse p dst = Some fdst"
    "struct_field_parse p action src_first = Some (first, sid)" "i = HashFunc hf" "hf_hash_func_id hf = k mod 256"
    "hf_dst_offset hf = (f_offset fdst mod 256) div 8" "hf_dst_n_bits hf = f_n_bits fdst mod 256" "hf_src_struct_id hf = sid mod 256"
    by blast
  have "k mod 256 < length (ps_hash_funcs p)" using name_index_less [OF h(1)] small by (simp add: pspec_small_def)
  then show ?thesis using hash_dst_typed [OF p h(2)] struct_id_cut [OF p a h(3)] by (simp add: instr_typed_def h(4-8))
qed

lemma jmp_typed:
  assumes p: "pspec_ok p" and a: "action_ok action" and small: "pspec_small p"
  shows "instr_jmp_translate tokens = Inr r \<Longrightarrow> instr_typed p action (fst r)"
    and "instr_jmp_valid_translate p tokens = Inr r \<Longrightarrow> instr_typed p action (fst r)"
    and "instr_jmp_invalid_translate p tokens = Inr r \<Longrightarrow> instr_typed p action (fst r)"
    and "instr_jmp_hit_translate action tokens = Inr r \<Longrightarrow> instr_typed p action (fst r)"
    and "instr_jmp_miss_translate action tokens = Inr r \<Longrightarrow> instr_typed p action (fst r)"
    and "instr_jmp_action_hit_translate p action tokens = Inr r \<Longrightarrow> instr_typed p action (fst r)"
    and "instr_jmp_action_miss_translate p action tokens = Inr r \<Longrightarrow> instr_typed p action (fst r)"
proof -
  have ac: "ac_id x mod 256 < length (ps_actions p)" if "action_find p name = Some x" for name x
  proof -
    have "ac_id x \<in> set (map ac_id (ps_actions p))" using that by (auto simp: action_find_def dest!: find_SomeD)
    moreover have "map ac_id (ps_actions p) = [0 ..< length (ps_actions p)]" using p unfolding pspec_ok_def by blast
    ultimately have "ac_id x < length (ps_actions p)" by (metis atLeastLessThan_iff set_upt)
    then show ?thesis using small by (simp add: pspec_small_def)
  qed
  show "instr_jmp_translate tokens = Inr r \<Longrightarrow> instr_typed p action (fst r)"
    by (auto simp: instr_jmp_translate_def instr_typed_def split: list.splits)
  show "instr_jmp_valid_translate p tokens = Inr r \<Longrightarrow> instr_typed p action (fst r)"
    "instr_jmp_invalid_translate p tokens = Inr r \<Longrightarrow> instr_typed p action (fst r)"
    using header_valid_typed(1) [OF p]
    by (auto simp: instr_jmp_valid_translate_def instr_jmp_invalid_translate_def jmp_header_translate_def tr_simps instr_typed_def jmp_zero_def
        split: list.splits)
  show "instr_jmp_hit_translate action tokens = Inr r \<Longrightarrow> instr_typed p action (fst r)"
    "instr_jmp_miss_translate action tokens = Inr r \<Longrightarrow> instr_typed p action (fst r)"
    by (auto simp: instr_jmp_hit_translate_def instr_jmp_miss_translate_def jmp_plain_translate_def tr_simps instr_typed_def split: list.splits)
  show "instr_jmp_action_hit_translate p action tokens = Inr r \<Longrightarrow> instr_typed p action (fst r)"
    "instr_jmp_action_miss_translate p action tokens = Inr r \<Longrightarrow> instr_typed p action (fst r)"
    using ac by (auto simp: instr_jmp_action_hit_translate_def instr_jmp_action_miss_translate_def jmp_action_translate_def tr_simps
        instr_typed_def jmp_zero_def split: list.splits)
qed

lemma jmp_cmp_typed:
  assumes p: "pspec_ok p" and a: "action_ok action"
    and tr: "jmp_cmp_translate p action tokens (mm, mh, hm, hh) mi hi swap = Inr r"
    and pl: "jmp_places mm = (PM, PM)" "jmp_places mh = (PM, PH)" "jmp_places hm = (PH, PM)" "jmp_places hh = (PH, PH)"
      "jmp_places mi \<in> {(PM, PNone), (PAny, PNone)}" "jmp_places hi \<in> {(PH, PNone), (PAny, PNone)}"
  shows "instr_typed p action (fst r)"
proof -
  note op = operand_of_place [OF p a]
  have ne: "ty \<notin> {INSTR_JMP_VALID, INSTR_JMP_INVALID}" "ty \<notin> {INSTR_JMP_ACTION_HIT, INSTR_JMP_ACTION_MISS}"
    if "fst (jmp_places ty) \<noteq> PNone" for ty
    using that by auto
  from tr pl op show ?thesis
    by (auto simp: jmp_cmp_translate_def tr_simps instr_typed_def by_place_def jmp_zero_def ne split: list.splits option.splits)
qed

lemma jmp_compare_typed:
  assumes p: "pspec_ok p" and a: "action_ok action"
  shows "instr_jmp_eq_translate p action tokens = Inr r \<Longrightarrow> instr_typed p action (fst r)"
    and "instr_jmp_neq_translate p action tokens = Inr r \<Longrightarrow> instr_typed p action (fst r)"
    and "instr_jmp_lt_translate p action tokens = Inr r \<Longrightarrow> instr_typed p action (fst r)"
    and "instr_jmp_gt_translate p action tokens = Inr r \<Longrightarrow> instr_typed p action (fst r)"
  unfolding instr_jmp_eq_translate_def instr_jmp_neq_translate_def instr_jmp_lt_translate_def instr_jmp_gt_translate_def
  by (erule jmp_cmp_typed [OF p a]; simp)+

lemma alu_ops_typed:
  assumes p: "pspec_ok p" and a: "action_ok action"
  shows "instr_alu_add_translate p action tokens = Inr i \<Longrightarrow> instr_typed p action i"
    and "instr_alu_sub_translate p action tokens = Inr i \<Longrightarrow> instr_typed p action i"
    and "instr_alu_shl_translate p action tokens = Inr i \<Longrightarrow> instr_typed p action i"
    and "instr_alu_shr_translate p action tokens = Inr i \<Longrightarrow> instr_typed p action i"
    and "instr_alu_and_translate p action tokens = Inr i \<Longrightarrow> instr_typed p action i"
    and "instr_alu_or_translate p action tokens = Inr i \<Longrightarrow> instr_typed p action i"
    and "instr_alu_xor_translate p action tokens = Inr i \<Longrightarrow> instr_typed p action i"
proof -
  note imm = alu_typed [OF p a disjI1, where imm = INSTR_ALU_AND_I]
    and swapped = alu_typed [OF p a disjI2, where mi = INSTR_ALU_ADD_MI and hi = INSTR_ALU_ADD_HI]
  show "instr_alu_add_translate p action tokens = Inr i \<Longrightarrow> instr_typed p action i"
    "instr_alu_sub_translate p action tokens = Inr i \<Longrightarrow> instr_typed p action i"
    "instr_alu_shl_translate p action tokens = Inr i \<Longrightarrow> instr_typed p action i"
    "instr_alu_shr_translate p action tokens = Inr i \<Longrightarrow> instr_typed p action i"
    unfolding instr_alu_add_translate_def instr_alu_sub_translate_def instr_alu_shl_translate_def instr_alu_shr_translate_def
    by (erule imm; simp)+
  show "instr_alu_and_translate p action tokens = Inr i \<Longrightarrow> instr_typed p action i"
    "instr_alu_or_translate p action tokens = Inr i \<Longrightarrow> instr_typed p action i"
    "instr_alu_xor_translate p action tokens = Inr i \<Longrightarrow> instr_typed p action i"
    unfolding instr_alu_and_translate_def instr_alu_or_translate_def instr_alu_xor_translate_def
    by (erule swapped; simp)+
qed

text \<open>Only jumps come with a label, which is a token of the line.\<close>

lemma jmp_labels:
  shows "instr_jmp_translate ts = Inr r \<Longrightarrow> snd r \<in> set ts"
    and "instr_jmp_valid_translate p ts = Inr r \<Longrightarrow> snd r \<in> set ts"
    and "instr_jmp_invalid_translate p ts = Inr r \<Longrightarrow> snd r \<in> set ts"
    and "instr_jmp_hit_translate action ts = Inr r \<Longrightarrow> snd r \<in> set ts"
    and "instr_jmp_miss_translate action ts = Inr r \<Longrightarrow> snd r \<in> set ts"
    and "instr_jmp_action_hit_translate p action ts = Inr r \<Longrightarrow> snd r \<in> set ts"
    and "instr_jmp_action_miss_translate p action ts = Inr r \<Longrightarrow> snd r \<in> set ts"
  by (auto simp: instr_jmp_translate_def instr_jmp_valid_translate_def instr_jmp_invalid_translate_def jmp_header_translate_def
      instr_jmp_hit_translate_def instr_jmp_miss_translate_def jmp_plain_translate_def instr_jmp_action_hit_translate_def
      instr_jmp_action_miss_translate_def jmp_action_translate_def tr_simps split: list.splits)

lemma jmp_cmp_label: "jmp_cmp_translate p action ts types mi hi swap = Inr r \<Longrightarrow> snd r \<in> set ts"
  by (cases types) (auto simp: jmp_cmp_translate_def tr_simps split: list.splits option.splits)

lemma jmp_compare_labels:
  shows "instr_jmp_eq_translate p action ts = Inr r \<Longrightarrow> snd r \<in> set ts"
    and "instr_jmp_neq_translate p action ts = Inr r \<Longrightarrow> snd r \<in> set ts"
    and "instr_jmp_lt_translate p action ts = Inr r \<Longrightarrow> snd r \<in> set ts"
    and "instr_jmp_gt_translate p action ts = Inr r \<Longrightarrow> snd r \<in> set ts"
  unfolding instr_jmp_eq_translate_def instr_jmp_neq_translate_def instr_jmp_lt_translate_def instr_jmp_gt_translate_def
  by (erule jmp_cmp_label)+

lemma if_Inr: "(if c then x else y) = Inr r \<Longrightarrow> (x = Inr r \<Longrightarrow> P) \<Longrightarrow> (y = Inr r \<Longrightarrow> P) \<Longrightarrow> P"
  by (simp split: if_splits)

lemma plain_Inr: "bindR x (\<lambda>i. Inr (i, [])) = Inr r \<Longrightarrow> (x = Inr (fst r) \<Longrightarrow> snd r = [] \<Longrightarrow> P) \<Longrightarrow> P"
  by (auto simp: bindR_eq_Inr)

lemma instr_of_tokens_typed:
  assumes p: "pspec_ok p" and a: "action_ok action" and small: "pspec_small p" and tr: "instr_of_tokens p action ts = Inr r"
  shows "instr_typed p action (fst r)"
  using tr unfolding instr_of_tokens_def Let_def
  by (elim if_Inr plain_Inr)
    (erule io_translate_typed [OF p] plain_translate_typed valid_translate_typed [OF p] mirror_typed [OF p a] mov_typed [OF p a]
      alu_ops_typed [OF p a] ck_typed [OF p] reg_typed [OF p a small] meter_typed [OF p a small] table_hash_typed [OF p a small]
      hash_typed [OF p a small] jmp_typed [OF p a small] jmp_compare_typed [OF p a] | simp)+

lemma not_jmp_translate:
  shows "instr_rx_translate p action ts = Inr i \<Longrightarrow> \<not> instruction_is_jmp i"
    and "instr_tx_translate p ts = Inr i \<Longrightarrow> \<not> instruction_is_jmp i"
    and "instr_drop_translate ts = Inr i \<Longrightarrow> \<not> instruction_is_jmp i"
    and "instr_mirror_translate p action ts = Inr i \<Longrightarrow> \<not> instruction_is_jmp i"
    and "instr_recirculate_translate ts = Inr i \<Longrightarrow> \<not> instruction_is_jmp i"
    and "instr_recircid_translate p ts = Inr i \<Longrightarrow> \<not> instruction_is_jmp i"
    and "instr_hdr_extract_translate p action ts = Inr i \<Longrightarrow> \<not> instruction_is_jmp i"
    and "instr_hdr_lookahead_translate p action ts = Inr i \<Longrightarrow> \<not> instruction_is_jmp i"
    and "instr_hdr_emit_translate p ts = Inr i \<Longrightarrow> \<not> instruction_is_jmp i"
    and "instr_hdr_validate_translate p ts = Inr i \<Longrightarrow> \<not> instruction_is_jmp i"
    and "instr_hdr_invalidate_translate p ts = Inr i \<Longrightarrow> \<not> instruction_is_jmp i"
    and "instr_table_translate p action ts = Inr i \<Longrightarrow> \<not> instruction_is_jmp i"
    and "instr_hash_translate p action ts = Inr i \<Longrightarrow> \<not> instruction_is_jmp i"
    and "instr_return_translate action ts = Inr i \<Longrightarrow> \<not> instruction_is_jmp i"
  by (auto simp: instr_rx_translate_def instr_tx_translate_def instr_drop_translate_def instr_mirror_translate_def
      instr_recirculate_translate_def instr_recircid_translate_def instr_hdr_extract_translate_def instr_hdr_lookahead_translate_def
      instr_hdr_emit_translate_def instr_hdr_validate_translate_def instr_hdr_invalidate_translate_def instr_table_translate_def
      instr_hash_translate_def instr_return_translate_def tr_simps instruction_is_jmp_def split: list.splits option.splits prod.splits)

lemma dst_src_not_jmp:
  assumes "dst_src_translate p action ts with_field with_number swap = Inr i"
    and "\<And>dst src ds. \<not> instruction_is_jmp (with_field dst src ds)" and "\<And>dst ds. \<not> instruction_is_jmp (with_number dst ds)"
  shows "\<not> instruction_is_jmp i"
  using assms by (auto simp: dst_src_translate_def tr_simps split: list.splits option.splits)

lemma arith_not_jmp:
  shows "instr_mov_translate p action ts = Inr i \<Longrightarrow> \<not> instruction_is_jmp i"
    and "instr_alu_add_translate p action ts = Inr i \<Longrightarrow> \<not> instruction_is_jmp i"
    and "instr_alu_sub_translate p action ts = Inr i \<Longrightarrow> \<not> instruction_is_jmp i"
    and "instr_alu_shl_translate p action ts = Inr i \<Longrightarrow> \<not> instruction_is_jmp i"
    and "instr_alu_shr_translate p action ts = Inr i \<Longrightarrow> \<not> instruction_is_jmp i"
    and "instr_alu_and_translate p action ts = Inr i \<Longrightarrow> \<not> instruction_is_jmp i"
    and "instr_alu_or_translate p action ts = Inr i \<Longrightarrow> \<not> instruction_is_jmp i"
    and "instr_alu_xor_translate p action ts = Inr i \<Longrightarrow> \<not> instruction_is_jmp i"
  unfolding instr_mov_translate_def instr_alu_add_translate_def instr_alu_sub_translate_def instr_alu_shl_translate_def
    instr_alu_shr_translate_def instr_alu_and_translate_def instr_alu_or_translate_def instr_alu_xor_translate_def
  by (erule dst_src_not_jmp; simp add: instruction_is_jmp_def)+

lemma array_not_jmp:
  shows "instr_alu_ckadd_translate p ts = Inr i \<Longrightarrow> \<not> instruction_is_jmp i"
    and "instr_alu_cksub_translate p ts = Inr i \<Longrightarrow> \<not> instruction_is_jmp i"
    and "instr_regprefetch_translate p action ts = Inr i \<Longrightarrow> \<not> instruction_is_jmp i"
    and "instr_regrd_translate p action ts = Inr i \<Longrightarrow> \<not> instruction_is_jmp i"
    and "instr_regwr_translate p action ts = Inr i \<Longrightarrow> \<not> instruction_is_jmp i"
    and "instr_regadd_translate p action ts = Inr i \<Longrightarrow> \<not> instruction_is_jmp i"
    and "instr_metprefetch_translate p action ts = Inr i \<Longrightarrow> \<not> instruction_is_jmp i"
    and "instr_meter_translate p action ts = Inr i \<Longrightarrow> \<not> instruction_is_jmp i"
  by (auto simp: instr_alu_ckadd_translate_def instr_alu_cksub_translate_def instr_regprefetch_translate_def instr_regrd_translate_def
      instr_regwr_translate_def instr_regadd_translate_def reg_src_translate_def instr_metprefetch_translate_def instr_meter_translate_def
      tr_simps instruction_is_jmp_def Let_def split: list.splits option.splits prod.splits)

lemma instr_of_tokens_label:
  assumes tr: "instr_of_tokens p action ts = Inr r" and jmp: "instruction_is_jmp (fst r)"
  shows "snd r \<in> set ts"
  using tr unfolding instr_of_tokens_def Let_def
  by (elim if_Inr plain_Inr)
    (erule jmp_labels jmp_compare_labels | use jmp in \<open>blast dest: not_jmp_translate arith_not_jmp array_not_jmp\<close> | simp)+

lemma typed_not_dma: "instr_typed p action i \<Longrightarrow> \<not> is_dma i"
  by (cases i) (auto simp: instr_typed_def is_dma_def)

lemma instr_translate_line:
  assumes p: "pspec_ok p" and a: "action_ok action" and small: "pspec_small p" and tr: "instr_translate p action text = Inr l"
  shows "instr_typed p action (fst l)" and "\<not> id_invalid (snd l)" and "instruction_is_jmp (fst l) \<Longrightarrow> id_jmp_label (snd l) \<noteq> []"
proof -
  let ?ts = "tokenize text"
  define us where "us = (if 2 \<le> length ?ts \<and> ?ts ! 1 = '':'' then drop 2 ?ts else ?ts)"
  have sub: "set us \<subseteq> set ?ts" by (auto simp: us_def dest: in_set_dropD)
  from tr obtain i lb where us: "instr_of_tokens p action us = Inr (i, lb)"
    and names: "\<forall>t \<in> set ?ts. check_name t" and l: "fst l = i" "id_jmp_label (snd l) = lb" "\<not> id_invalid (snd l)"
    unfolding instr_translate_def Let_def us_def by (auto simp: tr_simps)
  show "instr_typed p action (fst l)" using instr_of_tokens_typed [OF p a small us] l(1) by simp
  show "\<not> id_invalid (snd l)" by (rule l(3))
  show "id_jmp_label (snd l) \<noteq> []" if "instruction_is_jmp (fst l)"
  proof -
    have "lb \<in> set us" using instr_of_tokens_label [OF us] that l(1) by simp
    then show ?thesis using sub names l(2) by (auto simp: check_name_def)
  qed
qed

end
