(* ===== verification/SwxFuse.thy ===== *)
theory SwxFuse
  imports SwxIp SwxConfig
begin

text \<open>
  The optimiser does not change what a program does. A pass divides the lines into groups of consecutive
  lines and puts one instruction in the place of each; the locale \<open>fusion\<close> states what a pass has to
  show of its groups in the states that are \<open>good\<close>, and proves once that every step of the optimised program is a run of the original.
\<close>

section \<open>Lines and their positions\<close>

definition starts :: "'a list list \<Rightarrow> nat \<Rightarrow> nat" where
  "starts gs k = length (concat (take k gs))"

lemma starts_0 [simp]: "starts gs 0 = 0"
  by (simp add: starts_def)

lemma starts_Suc: "k < length gs \<Longrightarrow> starts gs (Suc k) = starts gs k + length (gs ! k)"
  by (simp add: starts_def take_Suc_conv_app_nth)

lemma starts_length [simp]: "starts gs (length gs) = length (concat gs)"
  by (simp add: starts_def)

lemma starts_split:
  assumes "k < length gs"
  shows "concat gs = concat (take k gs) @ gs ! k @ concat (drop (Suc k) gs)"
  using id_take_nth_drop [OF assms] by (metis concat.simps(2) concat_append)

lemma nth_starts:
  assumes "k < length gs" and "j < length (gs ! k)"
  shows "concat gs ! (starts gs k + j) = gs ! k ! j"
proof -
  have "(xs @ ys @ zs) ! (length xs + j) = ys ! j" if "j < length ys" for xs ys zs :: "'a list"
    using that by (simp add: nth_append)
  then show ?thesis using assms(2) unfolding starts_def starts_split [OF assms(1)] by blast
qed

lemma starts_bound: "k < length gs \<Longrightarrow> starts gs k + length (gs ! k) \<le> length (concat gs)"
  using arg_cong [OF starts_split, of k gs length] by (simp add: starts_def)

lemma label_find_Some:
  "label_find ds lb = Some k \<longleftrightarrow> k < length ds \<and> id_label (ds ! k) = lb \<and> (\<forall>j < k. id_label (ds ! j) \<noteq> lb)"
proof (induction ds arbitrary: k)
  case (Cons d ds)
  then show ?case by (cases k) (auto simp: less_Suc_eq_0_disj)
qed simp

lemma labels_unique_nth:
  "labels_unique ds \<longleftrightarrow> (\<forall>j < length ds. \<forall>i < j. id_label (ds ! i) \<noteq> [] \<longrightarrow> id_label (ds ! i) \<noteq> id_label (ds ! j))"
proof (induction ds)
  case (Cons d ds)
  have "(\<forall>j < Suc n. \<forall>i < j. P i j) \<longleftrightarrow> (\<forall>j < n. P 0 (Suc j)) \<and> (\<forall>j < n. \<forall>i < j. P (Suc i) (Suc j))" for n and P :: "nat \<Rightarrow> nat \<Rightarrow> bool"
    by (auto simp: less_Suc_eq_0_disj)
  from this [where n = "length ds" and P = "\<lambda>i j. id_label ((d # ds) ! i) \<noteq> [] \<longrightarrow> id_label ((d # ds) ! i) \<noteq> id_label ((d # ds) ! j)"]
  show ?case using Cons by (simp add: all_set_conv_all_nth) blast
qed simp

lemma label_find_unique:
  assumes "labels_unique ds" and "k < length ds" and "id_label (ds ! k) = lb" and "lb \<noteq> []"
  shows "label_find ds lb = Some k"
proof -
  have "id_label (ds ! j) \<noteq> lb" if "j < k" for j
    using assms that unfolding labels_unique_nth by metis
  then show ?thesis using assms(2,3) by (simp add: label_find_Some)
qed

lemma resolve_loop_Some:
  "resolve_loop base ds ls = Some is \<longleftrightarrow>
   length is = length ls \<and> (\<forall>i < length ls. resolve_line base ds (ls ! i) = Some (is ! i))"
proof (induction ls arbitrary: "is")
  case (Cons l ls)
  show ?case
  proof (cases "is")
    case Nil
    then show ?thesis by (auto split: option.split)
  next
    case (Cons i js)
    then show ?thesis using Cons.IH [of js]
      by (auto simp: less_Suc_eq_0_disj split: option.split)
  qed
qed auto

text \<open>
  What the label check leaves and the passes keep: no line is out, labels are unique, and a line that
  some jump names is marked as used.
\<close>

definition lines_ok :: "line list \<Rightarrow> bool" where
  "lines_ok ls \<longleftrightarrow>
     labels_unique (map snd ls) \<and> (\<forall>l \<in> set ls. \<not> id_invalid (snd l)) \<and>
     (\<forall>l \<in> set ls. instruction_is_jmp (fst l) \<longrightarrow> id_jmp_label (snd l) \<noteq> [] \<and>
        (\<forall>l' \<in> set ls. id_label (snd l') = id_jmp_label (snd l) \<longrightarrow> id_n_users (snd l') \<noteq> 0))"

lemma lines_ok_jmp:
  "lines_ok ls \<Longrightarrow> l \<in> set ls \<Longrightarrow> instruction_is_jmp (fst l) \<Longrightarrow> id_jmp_label (snd l) \<noteq> []"
  by (simp add: lines_ok_def)

section \<open>Programs in memory\<close>

definition place :: "nat \<Rightarrow> nat \<Rightarrow> instruction list \<Rightarrow> (nat \<Rightarrow> instruction option) \<Rightarrow> nat \<Rightarrow> instruction option" where
  "place b len is other a = (if b \<le> a \<and> a < b + len then aget is (a - b) else other a)"

definition remap :: "nat \<Rightarrow> 'a list list \<Rightarrow> nat \<Rightarrow> nat" where
  "remap b gs a = (if b \<le> a \<and> a \<le> b + length gs then b + starts gs (a - b) else a)"

text \<open>What a relocation must respect: the reception at the start and the starts of the actions.\<close>

definition relocates :: "(nat \<Rightarrow> nat) \<Rightarrow> (nat \<Rightarrow> instruction option) \<Rightarrow> swx \<Rightarrow> bool" where
  "relocates h code s \<longleftrightarrow>
     h 0 = 0 \<and> h (Suc 0) = Suc 0 \<and>
     (\<forall>io. code 0 = Some (Io INSTR_RX io) \<longleftrightarrow> sw_code s 0 = Some (Io INSTR_RX io)) \<and>
     (\<forall>a \<in> set (sw_action_instructions s). h a = a)"

text \<open>
  The number of emitted headers is far from the end of its 32 bits, so that eight more emissions do not
  wrap it.
\<close>

definition few_headers :: "swx \<Rightarrow> bool" where
  "few_headers s \<longleftrightarrow> unat (n_headers_out (sw_cur s)) + 8 < 4294967296"

lemma run_append: "rte_swx_pipeline_run (m + n) s = bindR (rte_swx_pipeline_run m s) (rte_swx_pipeline_run n)"
  by (induction m arbitrary: s) (auto simp: bindR_def split: sum.split)

lemma exec_keeps_code:
  assumes "instr_exec s = Inr s'"
  shows "sw_code s' = sw_code s \<and> sw_action_instructions s' = sw_action_instructions s"
proof -
  have keep: "sw_code (sw_set_cur s t) = sw_code s" "sw_action_instructions (sw_set_cur s t) = sw_action_instructions s" for s t
    by (simp_all add: sw_set_cur_def)
  have ep: "end_packet f s = Inr s' \<Longrightarrow> sw_code s' = sw_code s \<and> sw_action_instructions s' = sw_action_instructions s" for f
    by (auto simp: end_packet_def rx_exec_def Let_def split: option.splits instruction.splits io_type.splits)
  have th: "thread_exec f s = Inr s' \<Longrightarrow> sw_code s' = sw_code s \<and> sw_action_instructions s' = sw_action_instructions s" for f
    by (auto simp: thread_exec_def keep)
  have tb: "instr_table_exec n s = Inr s' \<Longrightarrow> sw_code s' = sw_code s \<and> sw_action_instructions s' = sw_action_instructions s" for n
    by (auto simp: instr_table_exec_def Let_def bindR_eq_Inr keep split: option.splits)
  have rg: "reg_exec ty ip s = Inr s' \<Longrightarrow> sw_code s' = sw_code s \<and> sw_action_instructions s' = sw_action_instructions s" for ty ip
    by (auto simp: reg_exec_def keep split: option.splits)
  have mt: "sw_meter_exec ty ip s = Inr s' \<Longrightarrow> sw_code s' = sw_code s \<and> sw_action_instructions s' = sw_action_instructions s" for ty ip
    by (auto simp: sw_meter_exec_def keep split: option.splits)
  have ha: "hash_exec ip s = Inr s' \<Longrightarrow> sw_code s' = sw_code s \<and> sw_action_instructions s' = sw_action_instructions s" for ip
    by (auto simp: hash_exec_def keep split: option.splits)
  have rx: "sw_code (rx_exec ip s) = sw_code s" "sw_action_instructions (rx_exec ip s) = sw_action_instructions s" for ip
    by (simp_all add: rx_exec_def)
  from assms obtain i where "exec_instruction i s = Inr s'" by (auto simp: instr_exec_def split: option.splits)
  then show ?thesis
    by (cases i) (auto simp: exec_instruction_def mirror_exec_def keep rx Let_def
        dest: ep th tb rg mt ha split: if_splits plain_type.splits)
qed

section \<open>The contract of a pass\<close>

locale fusion =
  fixes fuse :: "line list \<Rightarrow> line" and grouped :: "line list \<Rightarrow> bool" and good :: "swx \<Rightarrow> bool"
  assumes fuse_single: "fuse [l] = l"
    and fuse_data: "grouped g \<Longrightarrow> snd (fuse g) = snd (hd g)"
    and nonempty: "grouped g \<Longrightarrow> g \<noteq> []"
    and no_jmp: "grouped g \<Longrightarrow> 1 < length g \<Longrightarrow> l \<in> set g \<Longrightarrow> \<not> instruction_is_jmp (fst l)"
    and no_jmp_fuse: "grouped g \<Longrightarrow> 1 < length g \<Longrightarrow> \<not> instruction_is_jmp (fst (fuse g))"
    and no_rx: "grouped g \<Longrightarrow> 1 < length g \<Longrightarrow> \<not> is_rx (fst (hd g))"
    and quiet: "grouped g \<Longrightarrow> l \<in> set (tl g) \<Longrightarrow> id_n_users (snd l) = 0"
    and run_group: "grouped g \<Longrightarrow> 1 < length g \<Longrightarrow> good s \<Longrightarrow> relocates h code s \<Longrightarrow>
      h (t_ip (sw_cur s) + 1) = h (t_ip (sw_cur s)) + length g \<Longrightarrow>
      (\<And>j. j < length g \<Longrightarrow> code (h (t_ip (sw_cur s)) + j) = Some (fst (g ! j))) \<Longrightarrow>
      rte_swx_pipeline_run (length g) (reloc h code s) = map_sum id (reloc h code) (exec_instruction (fst (fuse g)) s)"
begin

lemma lines_ok_fuse:
  assumes "lines_ok (concat gs)" and "\<forall>g \<in> set gs. grouped g"
  shows "lines_ok (map fuse gs)"
proof -
  let ?f = "starts gs"
  have ne: "0 < length (gs ! k)" if "k < length gs" for k using that assms(2) nonempty by simp
  have at: "snd (fuse (gs ! k)) = snd (concat gs ! ?f k)" if "k < length gs" for k
    using that assms(2) fuse_data nth_starts [OF that ne [OF that]] ne [OF that] by (simp add: hd_conv_nth)
  have lt: "?f k < length (concat gs)" if "k < length gs" for k
    using ne [OF that] starts_bound [OF that] by linarith
  have "?f i < ?f (i + n)" if "0 < n" "i + n < length gs" for i n
    using that
  proof (induction n)
    case (Suc n)
    have "?f (i + n) < ?f (i + Suc n)" using ne [of "i + n"] Suc.prems by (simp add: starts_Suc)
    then show ?case using Suc by (cases "n = 0") auto
  qed simp
  then have mono: "?f i < ?f k" if "i < k" "k < length gs" for i k
    using that less_imp_add_positive by blast
  have u: "labels_unique (map snd (map fuse gs))"
    unfolding labels_unique_nth
  proof (intro allI impI)
    fix j i assume "j < length (map snd (map fuse gs))" "i < j" "id_label (map snd (map fuse gs) ! i) \<noteq> []"
    then show "id_label (map snd (map fuse gs) ! i) \<noteq> id_label (map snd (map fuse gs) ! j)"
      using assms(1) mono [of i j] lt [of i] lt [of j] unfolding lines_ok_def labels_unique_nth by (simp add: at)
  qed
  have sub: "\<exists>l' \<in> set (concat gs). snd l' = snd l" if "l \<in> set (map fuse gs)" for l
  proof -
    from that obtain g where g: "g \<in> set gs" "l = fuse g" by auto
    with assms(2) have "g \<noteq> []" "snd l = snd (hd g)" using nonempty fuse_data by auto
    then have "hd g \<in> set (concat gs)" using g(1) hd_in_set [of g] by (auto simp del: hd_in_set)
    then show ?thesis using \<open>snd l = snd (hd g)\<close> by (intro bexI [of _ "hd g"]) simp_all
  qed
  have jmp: "l \<in> set (concat gs)" if "l \<in> set (map fuse gs)" "instruction_is_jmp (fst l)" for l
  proof -
    from that obtain g where g: "g \<in> set gs" "l = fuse g" by auto
    then have "\<not> 1 < length g" using no_jmp_fuse that(2) assms(2) by blast
    moreover have "g \<noteq> []" using g assms(2) nonempty by blast
    ultimately have "g = [hd g]" by (cases g) auto
    then have "l = hd g" using fuse_single g(2) by metis
    then show ?thesis using g(1) hd_in_set [OF \<open>g \<noteq> []\<close>] by (auto simp del: hd_in_set)
  qed
  show ?thesis unfolding lines_ok_def
  proof (intro conjI ballI impI u)
    fix l assume "l \<in> set (map fuse gs)"
    then show "\<not> id_invalid (snd l)" using sub assms(1) by (metis lines_ok_def)
  next
    fix l assume "l \<in> set (map fuse gs)" "instruction_is_jmp (fst l)"
    then show "id_jmp_label (snd l) \<noteq> []" using jmp lines_ok_jmp [OF assms(1)] by blast
  next
    fix l l' assume "l \<in> set (map fuse gs)" "instruction_is_jmp (fst l)" "l' \<in> set (map fuse gs)"
      "id_label (snd l') = id_jmp_label (snd l)"
    then show "id_n_users (snd l') \<noteq> 0" using jmp sub assms(1) by (metis lines_ok_def)
  qed
qed

lemma label_find_fuse:
  assumes "lines_ok (concat gs)" and "\<forall>g \<in> set gs. grouped g" and "lb \<noteq> []"
    and "label_find (map snd (map fuse gs)) lb = Some k"
  shows "label_find (map snd (concat gs)) lb = Some (starts gs k)"
proof -
  from assms(4) have k: "k < length gs" "id_label (snd (fuse (gs ! k))) = lb" by (auto simp: label_find_Some)
  have ne: "0 < length (gs ! k)" using k(1) assms(2) nonempty by simp
  have "id_label (snd (concat gs ! starts gs k)) = lb"
    using k assms(2) fuse_data nth_starts [OF k(1) ne] ne by (simp add: hd_conv_nth)
  moreover have "starts gs k < length (concat gs)" using ne starts_bound [OF k(1)] by linarith
  ultimately show ?thesis using assms(1,3) by (intro label_find_unique) (simp_all add: lines_ok_def)
qed

text \<open>The resolved instructions of a group: the lines themselves, or the one line with its jump redirected.\<close>

lemma resolve_fuse:
  assumes ok: "lines_ok (concat gs)" and gs: "\<forall>g \<in> set gs. grouped g"
    and opt: "instr_jmp_resolve b (map fuse gs) = Some is'" and orig: "instr_jmp_resolve b (concat gs) = Some is"
    and k: "k < length gs"
  shows "1 < length (gs ! k) \<Longrightarrow> j < length (gs ! k) \<Longrightarrow> is ! (starts gs k + j) = fst (gs ! k ! j)"
    and "1 < length (gs ! k) \<Longrightarrow> is' ! k = fst (fuse (gs ! k))"
    and "length (gs ! k) = 1 \<Longrightarrow> is ! starts gs k = reloc_instr (remap b gs) (is' ! k)"
proof -
  have o: "resolve_line b (map snd (map fuse gs)) (fuse (gs ! k)) = Some (is' ! k)"
    using opt k by (auto simp: instr_jmp_resolve_def resolve_loop_Some)
  have r: "resolve_line b (map snd (concat gs)) (gs ! k ! j) = Some (is ! (starts gs k + j))" if "j < length (gs ! k)" for j
  proof -
    have "starts gs k + j < length (concat gs)" using that starts_bound [OF k] by linarith
    then show ?thesis using orig nth_starts [OF k that] unfolding instr_jmp_resolve_def resolve_loop_Some by metis
  qed
  have plain: "resolve_line b ds l = Some (fst l)" if "\<not> instruction_is_jmp (fst l)" for ds l
    using that by (cases l; cases "fst l") (auto simp: resolve_line_def instruction_is_jmp_def split: instruction.splits)
  have g: "grouped (gs ! k)" using gs k by simp
  show "is ! (starts gs k + j) = fst (gs ! k ! j)" if "1 < length (gs ! k)" "j < length (gs ! k)"
    using r [OF that(2)] plain [OF no_jmp [OF g that(1)]] that(2) by simp
  show "is' ! k = fst (fuse (gs ! k))" if "1 < length (gs ! k)"
    using o plain [OF no_jmp_fuse [OF g that]] by simp
  show "is ! starts gs k = reloc_instr (remap b gs) (is' ! k)" if one: "length (gs ! k) = 1"
  proof -
    obtain i d where id: "gs ! k = [(i, d)]" using one by (metis length_0_conv length_Suc_conv One_nat_def surj_pair)
    show ?thesis
    proof (cases "instruction_is_jmp i")
      case False
      then have "is' ! k = i" "is ! starts gs k = i"
        using o r [of 0] plain [of "(i, d)"] by (auto simp: id fuse_single)
      with False show ?thesis by (auto simp: reloc_instr_def instruction_is_jmp_def split: instruction.splits)
    next
      case True
      then obtain ty ip where i: "i = Jmp ty ip" by (auto simp: instruction_is_jmp_def split: instruction.splits)
      obtain j where j: "label_find (map snd (map fuse gs)) (id_jmp_label d) = Some j" "is' ! k = Jmp ty (ip\<lparr>jmp_ip := b + j\<rparr>)"
        using o by (auto simp: id fuse_single i resolve_line_def split: option.splits)
      have "(i, d) \<in> set (concat gs)" using k id by (metis UN_I list.set_intros(1) nth_mem set_concat)
      then have "id_jmp_label d \<noteq> []" using lines_ok_jmp [OF ok, of "(i, d)"] True by simp
      from label_find_fuse [OF ok gs this j(1)]
      have "is ! starts gs k = Jmp ty (ip\<lparr>jmp_ip := b + starts gs j\<rparr>)"
        using r [of 0] by (auto simp: id i resolve_line_def)
      moreover have "j < length gs" using j(1) by (simp add: label_find_Some)
      ultimately show ?thesis by (simp add: j(2) reloc_instr_def remap_def)
    qed
  qed
qed

text \<open>The lines before a pass resolve when the lines after it do.\<close>

lemma resolve_orig:
  assumes ok: "lines_ok (concat gs)" and gs: "\<forall>g \<in> set gs. grouped g" and opt: "instr_jmp_resolve b (map fuse gs) = Some is'"
  shows "\<exists>is. instr_jmp_resolve b (concat gs) = Some is"
proof -
  have "\<exists>i. resolve_line b (map snd (concat gs)) l = Some i" if "l \<in> set (concat gs)" for l
  proof (cases "instruction_is_jmp (fst l)")
    case False
    then show ?thesis by (cases l; cases "fst l") (auto simp: resolve_line_def instruction_is_jmp_def)
  next
    case True
    from that obtain g where g: "g \<in> set gs" "l \<in> set g" by auto
    then have "\<not> 1 < length g" using no_jmp True gs by blast
    with g(2) have "g = [l]" by (cases g; cases "tl g") auto
    with g(1) obtain k where k: "k < length gs" "gs ! k = [l]" by (metis in_set_conv_nth)
    have "resolve_line b (map snd (map fuse gs)) (fuse (gs ! k)) = Some (is' ! k)"
      using opt k(1) by (auto simp: instr_jmp_resolve_def resolve_loop_Some)
    with True obtain j where "label_find (map snd (map fuse gs)) (id_jmp_label (snd l)) = Some j"
      by (cases l; cases "fst l") (auto simp: k(2) fuse_single resolve_line_def instruction_is_jmp_def split: option.splits)
    from label_find_fuse [OF ok gs lines_ok_jmp [OF ok that True] this]
    show ?thesis using True by (cases l; cases "fst l") (auto simp: resolve_line_def instruction_is_jmp_def)
  qed
  then have "\<forall>k < length (concat gs). \<exists>i. resolve_line b (map snd (concat gs)) (concat gs ! k) = Some i"
    by (meson nth_mem)
  then obtain f where "\<forall>k < length (concat gs). resolve_line b (map snd (concat gs)) (concat gs ! k) = Some (f k)" by metis
  then show ?thesis
    by (intro exI [of _ "map f [0 ..< length (concat gs)]"]) (simp add: instr_jmp_resolve_def resolve_loop_Some)
qed

text \<open>
  One step of the program with the fused segment is a run of the program with the original segment, after
  relocation. The code around the segment does not jump into it, but for its start.
\<close>

lemma step_fuse:
  assumes ok: "lines_ok (concat gs)" and gs: "\<forall>g \<in> set gs. grouped g" and ne: "gs \<noteq> []"
    and opt: "instr_jmp_resolve b (map fuse gs) = Some is'" and orig: "instr_jmp_resolve b (concat gs) = Some is"
    and others: "\<forall>a i. other a = Some i \<longrightarrow> reloc_instr (remap b gs) i = i"
    and act: "\<And>a. a \<in> set (sw_action_instructions s) \<Longrightarrow> remap b gs a = a"
    and rx: "b \<noteq> 0 \<or> is_rx (fst (hd (concat gs)))"
    and code: "sw_code s = place b (length (concat gs)) is' other"
    and few: "good s" and run: "sw_code s (t_ip (sw_cur s)) = Some i"
  shows "\<exists>n > 0. rte_swx_pipeline_run n (reloc (remap b gs) (place b (length (concat gs)) is other) s) =
    map_sum id (reloc (remap b gs) (place b (length (concat gs)) is other)) (instr_exec s)"
proof -
  let ?h = "remap b gs" and ?code = "place b (length (concat gs)) is other" and ?a = "t_ip (sw_cur s)"
  have len: "length is = length (concat gs)" "length is' = length gs"
    using opt orig by (simp_all add: instr_jmp_resolve_def resolve_loop_Some)
  have nz: "0 < length (gs ! k)" if "k < length gs" for k using gs nonempty that by simp
  have conc: "concat gs \<noteq> []" using ne nz [of 0] by (cases gs) auto
  have first: "length (gs ! 0) = 1" if "b = 0"
  proof -
    have "hd (gs ! 0) = hd (concat gs)" using ne nz [of 0] by (cases gs) (auto simp: hd_append)
    moreover have "grouped (gs ! 0)" using ne gs by simp
    ultimately have "\<not> 1 < length (gs ! 0)" using rx that no_rx [of "gs ! 0"] by metis
    moreover have "0 < length (gs ! 0)" using nz [of 0] ne by simp
    ultimately show ?thesis by linarith
  qed
  have h01: "?h 0 = 0" "?h (Suc 0) = Suc 0"
    using ne first starts_Suc [of 0 gs] by (cases b; auto simp: remap_def)+
  have rx0: "?code 0 = Some (Io INSTR_RX io) \<longleftrightarrow> sw_code s 0 = Some (Io INSTR_RX io)" for io
  proof (cases "b = 0")
    case True
    have "is ! 0 = reloc_instr ?h (is' ! 0)" using resolve_fuse(3) [OF ok gs opt orig, of 0] ne first True by simp
    then have "is ! 0 = Io INSTR_RX io \<longleftrightarrow> is' ! 0 = Io INSTR_RX io" by (cases "is' ! 0") (auto simp: reloc_instr_def)
    then show ?thesis using True conc ne len by (simp add: code place_def)
  qed (simp add: code place_def)
  have rel: "relocates ?h ?code s" using h01 rx0 act by (simp add: relocates_def)
  show ?thesis
  proof (cases "b \<le> ?a \<and> ?a < b + length (concat gs)")
    case False
    have i: "other ?a = Some i" using run unfolding code place_def by (simp only: False if_False)
    have a: "?h ?a = ?a" "?h (?a + 1) = ?a + 1"
    proof -
      have le: "length gs \<le> length (concat gs)"
        unfolding length_concat by (rule order_trans [OF _ sum_list_mono [of gs "\<lambda>_. 1"]])
          (use gs nonempty in \<open>auto simp: sum_list_triv Suc_le_eq\<close>)
      show "?h ?a = ?a" "?h (?a + 1) = ?a + 1"
        using False le ne by (auto simp: remap_def not_le not_less le_less_Suc_eq dest: le_antisym)
    qed
    have "?code (?h ?a) = Some (reloc_instr ?h i)"
      unfolding a(1) others [rule_format, OF i] place_def using i by (simp only: False if_False)
    then have "instr_exec (reloc ?h ?code s) = map_sum id (reloc ?h ?code) (instr_exec s)"
      using exec_instruction_reloc [of ?h s ?code i] a h01 rx0 act run by (simp add: instr_exec_def)
    then show ?thesis by (intro exI [of _ 1]) (simp add: bindR_def split: sum.split)
  next
    case True
    define k where "k = ?a - b"
    have ka: "?a = b + k" using True by (simp add: k_def)
    have k: "k < length gs" "is' ! k = i" using run True len by (auto simp: code place_def k_def aget_def split: if_splits)
    have ha: "?h ?a = b + starts gs k" "?h (?a + 1) = b + starts gs (Suc k)" using k(1) by (simp_all add: ka remap_def)
    have at: "?code (?h ?a + j) = Some (is ! (starts gs k + j))" if "j < length (gs ! k)" for j
      using starts_bound [OF k(1)] that len by (simp add: place_def ha)
    show ?thesis
    proof (cases "1 < length (gs ! k)")
      case many: True
      have "rte_swx_pipeline_run (length (gs ! k)) (reloc ?h ?code s) =
          map_sum id (reloc ?h ?code) (exec_instruction (fst (fuse (gs ! k))) s)"
        using k(1) gs many few rel at resolve_fuse(1) [OF ok gs opt orig k(1) many] starts_Suc [OF k(1)] ha
        by (intro run_group) simp_all
      then show ?thesis
        using resolve_fuse(2) [OF ok gs opt orig k(1) many] k many run by (intro exI [of _ "length (gs ! k)"]) (auto simp: instr_exec_def)
    next
      case False
      then have one: "length (gs ! k) = 1" using nz [OF k(1)] by linarith
      have "?code (?h ?a) = Some (reloc_instr ?h i)"
        using at [of 0] one resolve_fuse(3) [OF ok gs opt orig k(1) one] k(2) by simp
      then have "instr_exec (reloc ?h ?code s) = map_sum id (reloc ?h ?code) (instr_exec s)"
        using exec_instruction_reloc [of ?h s ?code i] ha starts_Suc [OF k(1)] one h01 rx0 act run by (simp add: instr_exec_def)
      then show ?thesis by (intro exI [of _ 1]) (simp add: bindR_def split: sum.split)
    qed
  qed
qed

lemma run_fuse:
  assumes "lines_ok (concat gs)" and "\<forall>g \<in> set gs. grouped g" and "gs \<noteq> []"
    and "instr_jmp_resolve b (map fuse gs) = Some is'" and "instr_jmp_resolve b (concat gs) = Some is"
    and "\<forall>a i. other a = Some i \<longrightarrow> reloc_instr (remap b gs) i = i"
    and "\<And>a. a \<in> set (sw_action_instructions s) \<Longrightarrow> remap b gs a = a"
    and "b \<noteq> 0 \<or> is_rx (fst (hd (concat gs)))"
    and "sw_code s = place b (length (concat gs)) is' other"
    and "\<And>m u. m < n \<Longrightarrow> rte_swx_pipeline_run m s = Inr u \<Longrightarrow> good u"
    and "rte_swx_pipeline_run n s = Inr t"
  shows "\<exists>m \<ge> n. rte_swx_pipeline_run m (reloc (remap b gs) (place b (length (concat gs)) is other) s) =
    Inr (reloc (remap b gs) (place b (length (concat gs)) is other) t)"
  using assms(7,9-)
proof (induction n arbitrary: s)
  case 0
  then show ?case by (intro exI [of _ 0]) simp
next
  case (Suc n)
  let ?R = "reloc (remap b gs) (place b (length (concat gs)) is other)"
  from Suc.prems(4) obtain u where u: "instr_exec s = Inr u" "rte_swx_pipeline_run n u = Inr t"
    by (auto simp: bindR_eq_Inr)
  then obtain i where i: "sw_code s (t_ip (sw_cur s)) = Some i" by (auto simp: instr_exec_def split: option.splits)
  have "good s" using Suc.prems(3) [of 0 s] by simp
  from step_fuse [OF assms(1-6) Suc.prems(1) assms(8) Suc.prems(2) this i]
  obtain k where k: "0 < k" "rte_swx_pipeline_run k (?R s) = Inr (?R u)" using u(1) by auto
  have "\<exists>m \<ge> n. rte_swx_pipeline_run m (?R u) = Inr (?R t)"
  proof (rule Suc.IH)
    show "\<And>a. a \<in> set (sw_action_instructions u) \<Longrightarrow> remap b gs a = a" "sw_code u = place b (length (concat gs)) is' other"
      using exec_keeps_code [OF u(1)] Suc.prems(1,2) by auto
    show "good w" if "m < n" "rte_swx_pipeline_run m u = Inr w" for m w
      using Suc.prems(3) [of "Suc m" w] that u(1) by simp
  qed (rule u(2))
  then obtain m where m: "n \<le> m" "rte_swx_pipeline_run m (?R u) = Inr (?R t)" by blast
  then have "rte_swx_pipeline_run (k + m) (?R s) = Inr (?R t)" by (simp add: run_append k(2))
  moreover have "Suc n \<le> k + m" using k(1) m(1) by linarith
  ultimately show ?case by blast
qed

end

end
