(* ===== verification/SwxOptim.thy ===== *)
theory SwxOptim
  imports SwxFuse
begin

text \<open>
  The passes of the optimiser as fusions: the groups that their search loops find, and that the fused
  instruction does what the instructions of its group do one after the other.
\<close>

section \<open>Running a group\<close>

text \<open>Instructions with an \<open>instr_io\<close> that only work on the thread, one after the other.\<close>

lemma set_ips_foldl:
  "foldl (\<lambda>t b. io_exec ty t b) (set_ips a r t) bs = set_ips a r (foldl (\<lambda>t b. io_exec ty t b) t bs)"
  by (induction bs arbitrary: t) (simp_all add: ip_freeD [OF ip_free_io])

lemma foldl_bodies_set_ips [simp]:
  "foldl instr_hdr_extract_exec_body (set_ips a r t) bs = set_ips a r (foldl instr_hdr_extract_exec_body t bs)"
  "foldl instr_hdr_emit_exec_body (set_ips a r t) bs = set_ips a r (foldl instr_hdr_emit_exec_body t bs)"
  "instr_hdr_extract_exec_body (set_ips a r t) b = set_ips a r (instr_hdr_extract_exec_body t b)"
  "instr_hdr_emit_exec_body (set_ips a r t) b = set_ips a r (instr_hdr_emit_exec_body t b)"
  using set_ips_foldl [of INSTR_HDR_EXTRACT] set_ips_foldl [of INSTR_HDR_EMIT]
    ip_freeD [OF ip_free_io, of INSTR_HDR_EXTRACT] ip_freeD [OF ip_free_io, of INSTR_HDR_EMIT] by simp_all

lemma sw_set_cur_twice [simp]: "sw_set_cur (sw_set_cur u t) t' = sw_set_cur u t'"
  by (simp add: sw_set_cur_def)

lemma sw_set_cur_sel [simp]:
  "sw_code (sw_set_cur u t) = sw_code u" "sw_cur (sw_set_cur u t) = t"
  by (simp_all add: sw_set_cur_def)

lemma sw_set_cur_id [simp]: "sw_set_cur u (sw_cur u) = u"
  by (simp add: sw_set_cur_def set_cur_def cur_def)

lemma thread_ip_inc_set: "thread_ip_inc t = set_ips (t_ip t + 1) (t_ret t) t"
  by (simp add: thread_ip_inc_def set_ips_def)

lemma run_ios:
  assumes "ty = INSTR_HDR_EXTRACT \<or> ty = INSTR_HDR_EMIT"
    and "\<And>j. j < length bs \<Longrightarrow> sw_code u (t_ip (sw_cur u) + j) = Some (Io ty (bs ! j))"
  shows "rte_swx_pipeline_run (length bs) u =
    Inr (sw_set_cur u (set_ips (t_ip (sw_cur u) + length bs) (t_ret (sw_cur u)) (foldl (\<lambda>t b. io_exec ty t b) (sw_cur u) bs)))"
  using assms(2)
proof (induction bs arbitrary: u)
  case Nil
  then show ?case by simp
next
  case (Cons b bs)
  let ?t = "io_exec ty (sw_cur u) b"
  let ?u = "sw_set_cur u (set_ips (t_ip (sw_cur u) + 1) (t_ret (sw_cur u)) ?t)"
  have "sw_code u (t_ip (sw_cur u)) = Some (Io ty b)" using Cons.prems [of 0] by simp
  then have step: "instr_exec u = Inr ?u"
    using assms(1) ip_free_keeps [OF ip_free_io, of ty "sw_cur u" b]
    by (auto simp: instr_exec_def exec_instruction_def instruction_does_tx_def thread_exec_def thread_ip_inc_set)
  have "sw_code ?u (t_ip (sw_cur ?u) + j) = Some (Io ty (bs ! j))" if "j < length bs" for j
    using Cons.prems [of "Suc j"] that by simp
  from Cons.IH [OF this] show ?case by (simp add: step set_ips_foldl)
qed

text \<open>What the merges of a group build.\<close>

definition ins :: "nat \<Rightarrow> 'a list \<Rightarrow> (nat \<Rightarrow> 'a) \<Rightarrow> nat \<Rightarrow> 'a" where
  "ins k xs f = (\<lambda>i. if k \<le> i \<and> i < k + length xs then xs ! (i - k) else f i)"

lemma ins_Nil [simp]: "ins k [] f = f"
  by (auto simp: ins_def fun_eq_iff)

lemma ins_Cons: "ins k (x # xs) f = ins (k + 1) xs (f(k := x))"
proof
  fix i
  consider "i < k" | "i = k" | "k < i" by linarith
  then show "ins k (x # xs) f i = ins (k + 1) xs (f(k := x)) i"
  proof cases
    case 3
    then have "i - k = Suc (i - (k + 1))" by simp
    with 3 show ?thesis by (simp add: ins_def)
  qed (simp_all add: ins_def)
qed

lemma ins_nth: "j < length xs \<Longrightarrow> ins k xs f (k + j) = xs ! j"
  by (simp add: ins_def)

lemma ins_less: "i < k \<Longrightarrow> ins k xs f i = f i"
  by (simp add: ins_def)

definition io_hdrs :: "nat \<Rightarrow> instr_io list \<Rightarrow> instr_io \<Rightarrow> instr_io" where
  "io_hdrs k bs a =
     a\<lparr>hdr_header_id := ins k (map (\<lambda>b. hdr_header_id b 0) bs) (hdr_header_id a),
       hdr_struct_id := ins k (map (\<lambda>b. hdr_struct_id b 0) bs) (hdr_struct_id a),
       hdr_n_bytes := ins k (map (\<lambda>b. hdr_n_bytes b 0) bs) (hdr_n_bytes a)\<rparr>"

lemma merge_all_io:
  "merge_all io_merge k (Io ty a) (map (Io ty') bs) = Io ((io_type_inc ^^ length bs) ty) (io_hdrs k bs a)"
proof (induction bs arbitrary: k ty a)
  case Nil
  then show ?case by (simp add: io_hdrs_def)
next
  case (Cons b bs)
  define c where "c = a\<lparr>hdr_header_id := (hdr_header_id a)(k := hdr_header_id b 0),
      hdr_struct_id := (hdr_struct_id a)(k := hdr_struct_id b 0), hdr_n_bytes := (hdr_n_bytes a)(k := hdr_n_bytes b 0)\<rparr>"
  have "io_hdrs (k + 1) bs c = io_hdrs k (b # bs) a" by (simp add: io_hdrs_def c_def ins_Cons)
  with Cons.IH [of "k + 1" "io_type_inc ty" c] show ?case
    by (simp add: io_merge_def c_def funpow_swap1)
qed

text \<open>The fused body does what the bodies do one after the other.\<close>

lemma io_hdrs_sel [simp]:
  "hdr_header_id (io_hdrs k bs a) = ins k (map (\<lambda>b. hdr_header_id b 0) bs) (hdr_header_id a)"
  "hdr_struct_id (io_hdrs k bs a) = ins k (map (\<lambda>b. hdr_struct_id b 0) bs) (hdr_struct_id a)"
  "hdr_n_bytes (io_hdrs k bs a) = ins k (map (\<lambda>b. hdr_n_bytes b 0) bs) (hdr_n_bytes a)"
  by (simp_all add: io_hdrs_def)

lemma hdr_at_sel [simp]:
  "hdr_header_id (hdr_at a j) i = hdr_header_id a j" "hdr_struct_id (hdr_at a j) i = hdr_struct_id a j"
  "hdr_n_bytes (hdr_at a j) i = hdr_n_bytes a j"
  by (simp_all add: hdr_at_def)

lemma ins_map:
  assumes "j < length (a # bs)" and "g 0 = f a"
  shows "ins (Suc 0) (map f bs) g j = f ((a # bs) ! j)"
proof (cases j)
  case (Suc i)
  then show ?thesis using assms ins_nth [of i "map f bs" "Suc 0" g] by simp
qed (simp add: ins_less assms(2))

lemma io_hdrs_at:
  assumes "j < length (a # bs)"
  shows "hdr_header_id (hdr_at (io_hdrs 1 bs a) j) 0 = hdr_header_id ((a # bs) ! j) 0"
    "hdr_struct_id (hdr_at (io_hdrs 1 bs a) j) 0 = hdr_struct_id ((a # bs) ! j) 0"
    "hdr_n_bytes (hdr_at (io_hdrs 1 bs a) j) 0 = hdr_n_bytes ((a # bs) ! j) 0"
  unfolding hdr_at_sel io_hdrs_sel One_nat_def by (rule ins_map [OF assms]; rule refl)+

lemma extract_body_cong:
  assumes "hdr_header_id a 0 = hdr_header_id b 0" "hdr_struct_id a 0 = hdr_struct_id b 0" "hdr_n_bytes a 0 = hdr_n_bytes b 0"
  shows "instr_hdr_extract_exec_body t a = instr_hdr_extract_exec_body t b"
  using assms by (simp add: instr_hdr_extract_exec_body_def instr_hdr_extract_many_exec_def)

lemma emit_body_cong:
  assumes "hdr_header_id a 0 = hdr_header_id b 0" "hdr_struct_id a 0 = hdr_struct_id b 0" "hdr_n_bytes a 0 = hdr_n_bytes b 0"
  shows "instr_hdr_emit_exec_body t a = instr_hdr_emit_exec_body t b"
  using assms by (simp add: instr_hdr_emit_exec_body_def instr_hdr_emit_many_exec_def emit_round_def)

lemma foldl_nth: "(\<And>t j. j < length xs \<Longrightarrow> g t j = f t (xs ! j)) \<Longrightarrow> foldl g t [0 ..< length xs] = foldl f t xs"
proof (induction xs rule: rev_induct)
  case (snoc x xs)
  have "foldl g t [0 ..< length xs] = foldl f t xs" using snoc.prems by (intro snoc.IH) (simp add: nth_append)
  then show ?case using snoc.prems [of "length xs"] by simp
qed simp

lemma extract_fused:
  "instr_hdr_extract_many_exec t (io_hdrs 1 bs a) (length (a # bs)) = foldl (\<lambda>t b. instr_hdr_extract_exec_body t b) t (a # bs)"
  unfolding extract_many_foldl by (rule foldl_nth) (rule extract_body_cong; rule io_hdrs_at; assumption)

lemma emit_fused:
  assumes "unat (n_headers_out t) + length (a # bs) < 4294967296"
  shows "instr_hdr_emit_many_exec t (io_hdrs 1 bs a) (length (a # bs)) = foldl (\<lambda>t b. instr_hdr_emit_exec_body t b) t (a # bs)"
  unfolding emit_many_foldl [OF assms, THEN conjunct1]
  by (rule foldl_nth) (rule emit_body_cong; rule io_hdrs_at; assumption)

section \<open>Extraction\<close>

text \<open>The groups of a pass that fuses two to eight instructions of a kind.\<close>

definition many_group :: "(instruction \<Rightarrow> bool) \<Rightarrow> line list \<Rightarrow> bool" where
  "many_group kind g \<longleftrightarrow>
     length g = 1 \<or>
     (2 \<le> length g \<and> length g \<le> 8 \<and> (\<forall>l \<in> set g. kind (fst l)) \<and> (\<forall>l \<in> set (tl g). id_n_users (snd l) = 0))"

definition fuse_extract :: "line list \<Rightarrow> line" where
  "fuse_extract g = hd (extract_many_replace g)"

lemma ios_of:
  assumes "\<forall>i \<in> set is. \<exists>a. i = Io ty a"
  shows "\<exists>as. is = map (Io ty) as"
  using assms ex_map_conv by metis

lemma group_ios:
  assumes "\<forall>l \<in> set g. \<exists>a. fst l = Io ty a" and "g \<noteq> []"
  obtains a bs where "map fst g = map (Io ty) (a # bs)"
proof -
  have "\<forall>i \<in> set (map fst g). \<exists>a. i = Io ty a" using assms(1) by auto
  then obtain as where as: "map fst g = map (Io ty) as" using ios_of by blast
  with assms(2) obtain a bs where "as = a # bs" by (cases as) auto
  with as that show ?thesis by blast
qed

lemma is_extract_iff: "is_extract i \<longleftrightarrow> (\<exists>a. i = Io INSTR_HDR_EXTRACT a)"
  by (cases i) (auto simp: is_extract_def)

lemma is_emit_iff: "is_emit i \<longleftrightarrow> (\<exists>a. i = Io INSTR_HDR_EMIT a)"
  by (cases i) (auto simp: is_emit_def)

lemma is_tx_iff: "is_tx i \<longleftrightarrow> (\<exists>a. i = Io INSTR_TX a)"
  by (cases i) (auto simp: is_tx_def)

lemma extract_type_inc:
  assumes "n \<le> 7"
  shows "io_exec ((io_type_inc ^^ n) INSTR_HDR_EXTRACT) t a = instr_hdr_extract_many_exec t a (Suc n)"
    and "(io_type_inc ^^ n) INSTR_HDR_EXTRACT \<noteq> INSTR_RX"
    and "\<not> instruction_does_tx (Io ((io_type_inc ^^ n) INSTR_HDR_EXTRACT) a)"
proof -
  have "n < 8" using assms by simp
  then consider "n = 0" | "n = 1" | "n = 2" | "n = 3" | "n = 4" | "n = 5" | "n = 6" | "n = 7"
    using less_8_cases by blast
  then have "io_exec ((io_type_inc ^^ n) INSTR_HDR_EXTRACT) t a = instr_hdr_extract_many_exec t a (Suc n) \<and>
      (io_type_inc ^^ n) INSTR_HDR_EXTRACT \<noteq> INSTR_RX \<and>
      \<not> instruction_does_tx (Io ((io_type_inc ^^ n) INSTR_HDR_EXTRACT) a)"
    by cases (simp_all add: eval_nat_numeral instruction_does_tx_def instr_hdr_extract_exec_body_def
        instr_hdr_extract2_exec_body_def instr_hdr_extract3_exec_body_def instr_hdr_extract4_exec_body_def
        instr_hdr_extract5_exec_body_def instr_hdr_extract6_exec_body_def instr_hdr_extract7_exec_body_def
        instr_hdr_extract8_exec_body_def)
  then show "io_exec ((io_type_inc ^^ n) INSTR_HDR_EXTRACT) t a = instr_hdr_extract_many_exec t a (Suc n)"
    "(io_type_inc ^^ n) INSTR_HDR_EXTRACT \<noteq> INSTR_RX" "\<not> instruction_does_tx (Io ((io_type_inc ^^ n) INSTR_HDR_EXTRACT) a)"
    by simp_all
qed

lemma fst_fuse_extract: "g \<noteq> [] \<Longrightarrow> fst (fuse_extract g) = merge_all io_merge 1 (fst (hd g)) (map fst (tl g))"
  by (cases g) (auto simp: fuse_extract_def extract_many_replace_def)

lemma snd_fuse_extract: "g \<noteq> [] \<Longrightarrow> snd (fuse_extract g) = snd (hd g)"
  by (cases g) (auto simp: fuse_extract_def extract_many_replace_def)

lemma fuse_extract_io:
  assumes "map fst g = map (Io ty) (a # bs)"
  shows "fst (fuse_extract g) = Io ((io_type_inc ^^ length bs) ty) (io_hdrs 1 bs a)"
proof -
  from assms have "g \<noteq> []" by auto
  then have "fst (hd g) = Io ty a" "map fst (tl g) = map (Io ty) bs" using assms by (cases g; simp)+
  then show ?thesis using fst_fuse_extract [OF \<open>g \<noteq> []\<close>] by (simp add: merge_all_io)
qed

lemma run_extract_group:
  assumes g: "map fst g = map (Io INSTR_HDR_EXTRACT) (a # bs)" and n: "length g \<le> 8"
    and h: "h (t_ip (sw_cur s) + 1) = h (t_ip (sw_cur s)) + length g"
    and code: "\<And>j. j < length g \<Longrightarrow> code (h (t_ip (sw_cur s)) + j) = Some (fst (g ! j))"
  shows "rte_swx_pipeline_run (length g) (reloc h code s) = map_sum id (reloc h code) (exec_instruction (fst (fuse_extract g)) s)"
proof -
  let ?u = "reloc h code s" and ?t = "sw_cur s"
  have len: "length g = length (a # bs)" using g by (metis length_map)
  have "sw_code ?u (t_ip (sw_cur ?u) + j) = Some (Io INSTR_HDR_EXTRACT ((a # bs) ! j))" if "j < length (a # bs)" for j
    using code [of j] that len g by (metis nth_map reloc_sel(10) reloc_sel(1) pipe_map_sel(10) ip_map_sel(12))
  from run_ios [OF _ this]
  have "rte_swx_pipeline_run (length g) ?u = Inr (sw_set_cur ?u (set_ips (h (t_ip ?t) + length g) (h (t_ret ?t))
      (foldl (\<lambda>t b. instr_hdr_extract_exec_body t b) ?t (a # bs))))"
    unfolding len by (simp add: ip_map_def)
  also have "foldl (\<lambda>t b. instr_hdr_extract_exec_body t b) ?t (a # bs) =
      instr_hdr_extract_many_exec ?t (io_hdrs 1 bs a) (length (a # bs))" by (rule extract_fused [symmetric])
  finally have run: "rte_swx_pipeline_run (length g) ?u = Inr (sw_set_cur ?u (set_ips (h (t_ip ?t) + length g) (h (t_ret ?t))
      (instr_hdr_extract_many_exec ?t (io_hdrs 1 bs a) (length (a # bs)))))" .
  have "length bs \<le> 7" using n len by simp
  note ty = extract_type_inc [OF this]
  have "ip_free (\<lambda>t. instr_hdr_extract_many_exec t (io_hdrs 1 bs a) (length (a # bs)))" by (simp add: ip_free_def)
  note keep = ip_free_keeps [OF this, of ?t]
  show ?thesis using h keep unfolding run fuse_extract_io [OF g] exec_instruction_def
    by (simp add: ty thread_exec_def thread_ip_inc_set flip: reloc_upd(8)) (simp add: ip_map_def)
qed

lemma many_group_ne: "many_group kind g \<Longrightarrow> g \<noteq> []"
  by (auto simp: many_group_def)

lemma many_group_kind: "many_group kind g \<Longrightarrow> 1 < length g \<Longrightarrow> l \<in> set g \<Longrightarrow> kind (fst l)"
  by (auto simp: many_group_def)

lemma many_group_quiet: "many_group kind g \<Longrightarrow> l \<in> set (tl g) \<Longrightarrow> id_n_users (snd l) = 0"
  by (cases g) (auto simp: many_group_def)

lemma many_group_le: "many_group kind g \<Longrightarrow> length g \<le> 8"
  by (auto simp: many_group_def)

lemma extract_group_ios:
  assumes "many_group is_extract g" and "1 < length g"
  obtains a bs where "map fst g = map (Io INSTR_HDR_EXTRACT) (a # bs)"
proof (rule group_ios)
  show "\<forall>l \<in> set g. \<exists>a. fst l = Io INSTR_HDR_EXTRACT a"
    using many_group_kind [OF assms] by (simp add: is_extract_iff)
qed (use many_group_ne [OF assms(1)] in auto)

interpretation opt_extract: fusion fuse_extract "many_group is_extract" "\<lambda>_. True"
proof unfold_locales
  fix l show "fuse_extract [l] = l" by (cases l) (simp add: fuse_extract_def extract_many_replace_def)
next
  fix g assume g: "many_group is_extract g"
  show "g \<noteq> []" using many_group_ne [OF g] .
  show "snd (fuse_extract g) = snd (hd g)" using snd_fuse_extract [OF many_group_ne [OF g]] .
  show "id_n_users (snd l) = 0" if "l \<in> set (tl g)" for l using many_group_quiet [OF g that] .
  assume n: "1 < length g"
  show "\<not> instruction_is_jmp (fst l)" if "l \<in> set g" for l
    using many_group_kind [OF g n that] by (auto simp: is_extract_iff instruction_is_jmp_def)
  show "\<not> is_rx (fst (hd g))"
    using many_group_kind [OF g n hd_in_set [OF many_group_ne [OF g]]] by (auto simp: is_extract_iff is_rx_def)
  obtain a bs where ios: "map fst g = map (Io INSTR_HDR_EXTRACT) (a # bs)" by (rule extract_group_ios [OF g n])
  show "\<not> instruction_is_jmp (fst (fuse_extract g))"
    by (simp add: fuse_extract_io [OF ios] instruction_is_jmp_def)
  fix s :: swx and h code
  assume "h (t_ip (sw_cur s) + 1) = h (t_ip (sw_cur s)) + length g"
    and "\<And>j. j < length g \<Longrightarrow> code (h (t_ip (sw_cur s)) + j) = Some (fst (g ! j))"
  then show "rte_swx_pipeline_run (length g) (reloc h code s) =
      map_sum id (reloc h code) (exec_instruction (fst (fuse_extract g)) s)"
    by (rule run_extract_group [OF ios many_group_le [OF g]])
qed

text \<open>The search and the replacement find and fuse such groups.\<close>

lemma many_len_spec:
  "i \<le> 8 \<Longrightarrow> i \<le> many_len kind i ls \<and> many_len kind i ls \<le> 8 \<and> many_len kind i ls - i \<le> length ls \<and>
   (\<forall>l \<in> set (take (many_len kind i ls - i) ls). kind (fst l)) \<and>
   (\<forall>l \<in> set (take (many_len kind i ls - i) ls). i \<noteq> 0 \<longrightarrow> id_n_users (snd l) = 0) \<and>
   (\<forall>l \<in> set (tl (take (many_len kind i ls - i) ls)). id_n_users (snd l) = 0)"
proof (induction kind i ls rule: many_len.induct)
  case (2 kind i ins d ls)
  show ?case
  proof (cases "id_invalid d \<or> \<not> kind ins \<or> i = 8 \<or> (i \<noteq> 0 \<and> id_n_users d \<noteq> 0)")
    case True
    then have "many_len kind i ((ins, d) # ls) = i" by auto
    with 2(2) show ?thesis by simp
  next
    case False
    then have e: "many_len kind i ((ins, d) # ls) = many_len kind (i + 1) ls" "i + 1 \<le> 8" using 2(2) by auto
    have IH: "i + 1 \<le> many_len kind (i + 1) ls \<and> many_len kind (i + 1) ls \<le> 8 \<and> many_len kind (i + 1) ls - (i + 1) \<le> length ls \<and>
      (\<forall>l \<in> set (take (many_len kind (i + 1) ls - (i + 1)) ls). kind (fst l)) \<and>
      (\<forall>l \<in> set (take (many_len kind (i + 1) ls - (i + 1)) ls). i + 1 \<noteq> 0 \<longrightarrow> id_n_users (snd l) = 0) \<and>
      (\<forall>l \<in> set (tl (take (many_len kind (i + 1) ls - (i + 1)) ls)). id_n_users (snd l) = 0)"
      using 2(1) False e(2) by auto
    define m where "m = many_len kind (i + 1) ls - (i + 1)"
    have m: "many_len kind i ((ins, d) # ls) - i = Suc m" using e(1) IH unfolding m_def by linarith
    show ?thesis using IH False e unfolding m m_def [symmetric] by auto
  qed
qed simp

lemma many_group_search:
  assumes "2 \<le> many_len kind 0 ls"
  shows "many_group kind (take (many_len kind 0 ls) ls)" and "many_len kind 0 ls \<le> length ls"
  using many_len_spec [of 0 kind ls] assms by (auto simp: many_group_def)

lemma compact_append [simp]: "instr_compact (xs @ ys) = instr_compact xs @ instr_compact ys"
  by (simp add: instr_compact_def)

lemma compact_invalidated [simp]: "instr_compact (map invalidate_line ls) = []"
  by (auto simp: instr_compact_def invalidate_line_def filter_empty_conv split: prod.splits)

lemma invalidated [simp]: "id_invalid (snd (invalidate_line l))"
  by (cases l) (simp add: invalidate_line_def)

lemma compact_cons: "instr_compact (l # ls) = (if id_invalid (snd l) then instr_compact ls else l # instr_compact ls)"
  by (cases l) (simp add: instr_compact_def)

lemma compact_extract_replace:
  assumes "g \<noteq> []" and "\<not> id_invalid (snd (hd g))"
  shows "instr_compact (extract_many_replace g) = [fuse_extract g]"
proof -
  obtain i d rest where g: "g = (i, d) # rest" using assms(1) by (metis list.exhaust surj_pair)
  then show ?thesis using assms(2) by (simp add: fuse_extract_def extract_many_replace_def compact_cons)
qed

lemma extract_optimize_groups:
  assumes "\<forall>l \<in> set ls. \<not> id_invalid (snd l)"
  shows "\<exists>gs. concat gs = ls \<and> extract_many_optimize ls = map fuse_extract gs \<and> (\<forall>g \<in> set gs. many_group is_extract g)"
  using assms
proof (induction ls rule: extract_many_loop.induct)
  case 1
  show ?case by (intro exI [of _ "[]"]) (simp add: extract_many_optimize_def instr_compact_def)
next
  case (2 l ls)
  show ?case
  proof (cases "extract_many_search (l # ls)")
    case None
    from "2.IH"(1) [OF None] "2.prems" obtain gs where gs: "concat gs = ls" "extract_many_optimize ls = map fuse_extract gs"
      "\<forall>g \<in> set gs. many_group is_extract g" by auto
    have "extract_many_optimize (l # ls) = l # map fuse_extract gs"
      using None "2.prems" gs(2) by (simp add: extract_many_optimize_def compact_cons)
    moreover have "many_group is_extract [l]" by (simp add: many_group_def)
    ultimately show ?thesis using gs opt_extract.fuse_single by (intro exI [of _ "[l] # gs"]) simp
  next
    case (Some n)
    let ?g = "take n (l # ls)"
    have n: "n = many_len is_extract 0 (l # ls)" "2 \<le> n" using Some by (auto simp: extract_many_search_def Let_def split: if_splits)
    have g: "many_group is_extract ?g" using many_group_search(1) n by simp
    have "\<forall>x \<in> set (drop n (l # ls)). \<not> id_invalid (snd x)" using "2.prems" by (meson in_set_dropD)
    from "2.IH"(2) [OF Some this] obtain gs where gs: "concat gs = drop n (l # ls)"
      "extract_many_optimize (drop n (l # ls)) = map fuse_extract gs" "\<forall>g \<in> set gs. many_group is_extract g" by auto
    have "instr_compact (extract_many_replace ?g) = [fuse_extract ?g]"
      using n(2) "2.prems" by (intro compact_extract_replace) (auto simp: hd_take)
    then have "extract_many_optimize (l # ls) = map fuse_extract (?g # gs)"
      using Some gs(2) by (simp add: extract_many_optimize_def del: take_Cons' drop_Cons')
    then show ?thesis using gs g by (intro exI [of _ "?g # gs"]) simp
  qed
qed

section \<open>Emission and transmission\<close>

definition emit_group :: "line list \<Rightarrow> bool" where
  "emit_group g \<longleftrightarrow>
     length g = 1 \<or>
     (2 \<le> length g \<and> length g \<le> 9 \<and> (\<forall>l \<in> set (butlast g). is_emit (fst l)) \<and> is_tx (fst (last g)) \<and>
      (\<forall>l \<in> set (tl g). id_n_users (snd l) = 0))"

definition fuse_emit :: "line list \<Rightarrow> line" where
  "fuse_emit g = (if length g = 1 then hd g else hd (emit_many_tx_replace g))"

lemma clone_event_set_ips [simp]: "clone_event (set_cur p (set_ips a r t)) = clone_event (set_cur p t)"
  by (intro ext) (simp add: clone_event_def Let_def pkt_bytes_def)

lemma tx_body_set_ips:
  "instr_tx_exec_body (set_cur p (set_ips a r t)) c =
   set_cur (instr_tx_exec_body (set_cur p t) c) (set_ips a r (cur (instr_tx_exec_body (set_cur p t) c)))"
proof -
  have e: "emit_handler (set_ips a r t) = set_ips a r (emit_handler t)" by (simp add: ip_freeD)
  have u: "set_cur (p\<lparr>p_out := x\<rparr>) y = (set_cur p y)\<lparr>p_out := x\<rparr>" for p x y by (simp add: set_cur_def)
  have b: "pkt_bytes (set_ips a r t) = pkt_bytes t" for t by (simp add: pkt_bytes_def)
  show ?thesis
    by (cases "recirculate t") (simp_all add: instr_tx_exec_body_def Let_def mirroring_handler_out pkt_tx_def e u b)
qed

lemma end_packet_set_cur: "end_packet f (sw_set_cur u t) = end_packet (\<lambda>p. f (set_cur p t)) u"
  by (simp add: end_packet_def sw_set_cur_def Let_def split: option.split instruction.split io_type.split)

lemma end_packet_ip:
  "end_packet (\<lambda>p. instr_tx_exec_body p c) (sw_set_cur u (set_ips x (t_ret t) t)) =
   end_packet (\<lambda>p. instr_tx_exec_body p c) (sw_set_cur u t)"
proof -
  let ?q = "instr_tx_exec_body (set_cur (sw_pipe u) t) c"
  have "ip_free emit_handler" by simp
  then have r: "t_ret (cur ?q) = t_ret t"
    by (simp add: instr_tx_exec_body_def Let_def mirroring_handler_out pkt_tx_def ip_free_keeps)
  have "thread_ip_set (set_ips x (t_ret v) v) 0 = thread_ip_set v 0" for v
    by (cases v) (simp add: thread_ip_set_def set_ips_def)
  from this [of "cur ?q"] have "thread_ip_set (set_ips x (t_ret t) (cur ?q)) 0 = thread_ip_set (cur ?q) 0" by (simp only: r)
  then show ?thesis
    unfolding end_packet_set_cur unfolding tx_body_set_ips unfolding end_packet_def Let_def by (simp only: cur_set_cur set_cur_sel(6))
qed

lemma emit_type_inc:
  assumes "n \<le> 7"
  shows "tx_exec (io_type_inc ((io_type_inc ^^ n) INSTR_HDR_EMIT)) p a = emit_many_tx p a (Suc n)"
    and "io_type_inc ((io_type_inc ^^ n) INSTR_HDR_EMIT) \<noteq> INSTR_RX"
    and "instruction_does_tx (Io (io_type_inc ((io_type_inc ^^ n) INSTR_HDR_EMIT)) a)"
proof -
  have "n < 8" using assms by simp
  then consider "n = 0" | "n = 1" | "n = 2" | "n = 3" | "n = 4" | "n = 5" | "n = 6" | "n = 7"
    using less_8_cases by blast
  then have "tx_exec (io_type_inc ((io_type_inc ^^ n) INSTR_HDR_EMIT)) p a = emit_many_tx p a (Suc n) \<and>
      io_type_inc ((io_type_inc ^^ n) INSTR_HDR_EMIT) \<noteq> INSTR_RX \<and>
      instruction_does_tx (Io (io_type_inc ((io_type_inc ^^ n) INSTR_HDR_EMIT)) a)"
    by cases (simp_all add: eval_nat_numeral instruction_does_tx_def instr_hdr_emit_tx_exec_body_def
        instr_hdr_emit2_tx_exec_body_def instr_hdr_emit3_tx_exec_body_def instr_hdr_emit4_tx_exec_body_def
        instr_hdr_emit5_tx_exec_body_def instr_hdr_emit6_tx_exec_body_def instr_hdr_emit7_tx_exec_body_def
        instr_hdr_emit8_tx_exec_body_def)
  then show "tx_exec (io_type_inc ((io_type_inc ^^ n) INSTR_HDR_EMIT)) p a = emit_many_tx p a (Suc n)"
    "io_type_inc ((io_type_inc ^^ n) INSTR_HDR_EMIT) \<noteq> INSTR_RX"
    "instruction_does_tx (Io (io_type_inc ((io_type_inc ^^ n) INSTR_HDR_EMIT)) a)" by simp_all
qed

lemma fuse_emit_io:
  assumes es: "map fst (butlast g) = map (Io INSTR_HDR_EMIT) (a # bs)" and tx: "fst (last g) = Io INSTR_TX c"
  shows "fst (fuse_emit g) = Io (io_type_inc ((io_type_inc ^^ length bs) INSTR_HDR_EMIT))
     ((io_hdrs 1 bs a)\<lparr>io_offset := io_offset c, io_n_bits := io_n_bits c\<rparr>)"
proof -
  from es have "butlast g \<noteq> []" by auto
  then obtain l rest where g: "g = l # rest" "rest \<noteq> []" by (cases g) (auto split: if_splits)
  then have "fst l = Io INSTR_HDR_EMIT a" "map fst (butlast rest) = map (Io INSTR_HDR_EMIT) bs" "fst (last rest) = Io INSTR_TX c"
    using es tx by simp_all
  then show ?thesis using g
    by (cases l) (simp add: fuse_emit_def emit_many_tx_replace_def merge_all_io tx_merge_def)
qed

lemma run_emit_group:
  assumes es: "map fst (butlast g) = map (Io INSTR_HDR_EMIT) (a # bs)" and tx: "fst (last g) = Io INSTR_TX c"
    and n: "length g \<le> 9" and few: "few_headers s" and rel: "relocates h code s"
    and code: "\<And>j. j < length g \<Longrightarrow> code (h (t_ip (sw_cur s)) + j) = Some (fst (g ! j))"
  shows "rte_swx_pipeline_run (length g) (reloc h code s) = map_sum id (reloc h code) (exec_instruction (fst (fuse_emit g)) s)"
proof -
  let ?u = "reloc h code s" and ?t = "sw_cur s" and ?m = "io_hdrs 1 bs a"
  let ?mc = "?m\<lparr>io_offset := io_offset c, io_n_bits := io_n_bits c\<rparr>"
  have "g \<noteq> []" using es by auto
  then have len: "length g = length (a # bs) + 1" using es by (metis length_butlast length_map length_greater_0_conv Suc_pred' add.commute plus_1_eq_Suc)
  have nth: "fst (g ! j) = Io INSTR_HDR_EMIT ((a # bs) ! j)" if "j < length (a # bs)" for j
    using that es len by (metis nth_map nth_butlast length_map)
  have "sw_code ?u (t_ip (sw_cur ?u) + j) = Some (Io INSTR_HDR_EMIT ((a # bs) ! j))" if "j < length (a # bs)" for j
    using code [of j] nth [OF that] that len by simp
  from run_ios [OF _ this]
  have emits: "rte_swx_pipeline_run (length (a # bs)) ?u = Inr (sw_set_cur ?u (set_ips (h (t_ip ?t) + length (a # bs)) (h (t_ret ?t))
      (foldl (\<lambda>t b. instr_hdr_emit_exec_body t b) ?t (a # bs))))"
    by (simp add: ip_map_def)
  have "length bs \<le> 7" using n len by simp
  note ty = emit_type_inc [OF this]
  have "unat (n_headers_out ?t) + length (a # bs) < 4294967296" using few \<open>length bs \<le> 7\<close> by (simp add: few_headers_def)
  then have fuse: "foldl (\<lambda>t b. instr_hdr_emit_exec_body t b) ?t (a # bs) = instr_hdr_emit_many_exec ?t ?m (length (a # bs))"
    by (rule emit_fused [symmetric])
  define em where "em = (\<lambda>t. instr_hdr_emit_many_exec t ?m (length (a # bs)))"
  have free: "ip_free em" by (simp add: em_def ip_free_def)
  have last: "fst (g ! length (a # bs)) = Io INSTR_TX c"
    using tx len \<open>g \<noteq> []\<close> by (simp add: last_conv_nth)
  have "rte_swx_pipeline_run (length g) ?u = instr_exec (sw_set_cur ?u (set_ips (h (t_ip ?t) + length (a # bs)) (h (t_ret ?t)) (em ?t)))"
    unfolding len run_append emits fuse em_def by (simp add: bindR_def split: sum.split)
  also have "\<dots> = end_packet (\<lambda>p. instr_tx_exec_body p c) (sw_set_cur ?u (set_ips (h (t_ip ?t) + length (a # bs)) (h (t_ret ?t)) (em ?t)))"
    using code [of "length (a # bs)"] len last by (simp add: instr_exec_def exec_instruction_def instruction_does_tx_def)
  also have "\<dots> = end_packet (\<lambda>p. instr_tx_exec_body p c) (sw_set_cur ?u (ip_map h (em ?t)))"
  proof -
    let ?t' = "ip_map h (em ?t)" and ?x = "h (t_ip ?t) + length (a # bs)"
    have "t_ret ?t' = h (t_ret ?t)" using free by (simp add: ip_free_keeps)
    moreover have "set_ips x r ?t' = set_ips x r (em ?t)" for x r by (simp add: ip_map_def)
    ultimately show ?thesis using end_packet_ip [of c ?u ?x ?t'] by metis
  qed
  also have "\<dots> = end_packet (\<lambda>p. emit_many_tx p ?mc (length (a # bs))) ?u"
  proof -
    have "em (ip_map h ?t) = ip_map h (em ?t)" using free by (rule ip_map_free)
    moreover have "instr_hdr_emit_many_exec t ?mc k = instr_hdr_emit_many_exec t ?m k" for t k
    proof -
      have "emit_round t ?mc = emit_round t ?m" by (intro ext) (simp add: emit_round_def)
      then show ?thesis by (simp add: instr_hdr_emit_many_exec_def)
    qed
    moreover have "instr_tx_exec_body p ?mc = instr_tx_exec_body p c" for p by (simp add: instr_tx_exec_body_def)
    ultimately show ?thesis
      unfolding end_packet_set_cur by (simp add: end_packet_def emit_many_tx_def em_def del: pipe_map_set_cur)
  qed
  also have "\<dots> = map_sum id (reloc h code) (end_packet (\<lambda>p. emit_many_tx p ?mc (length (a # bs))) s)"
    using rel by (intro end_packet_reloc) (simp_all add: emit_many_tx_def relocates_def)
  also have "end_packet (\<lambda>p. emit_many_tx p ?mc (length (a # bs))) s = exec_instruction (fst (fuse_emit g)) s"
    unfolding fuse_emit_io [OF es tx] exec_instruction_def using ty by simp
  finally show ?thesis .
qed

lemma emit_group_ne: "emit_group g \<Longrightarrow> g \<noteq> []"
  by (auto simp: emit_group_def)

lemma emit_group_kind:
  "emit_group g \<Longrightarrow> 1 < length g \<Longrightarrow> l \<in> set g \<Longrightarrow> is_emit (fst l) \<or> is_tx (fst l)"
  by (cases g rule: rev_cases) (auto simp: emit_group_def)

lemma emit_group_quiet: "emit_group g \<Longrightarrow> l \<in> set (tl g) \<Longrightarrow> id_n_users (snd l) = 0"
  by (cases g) (auto simp: emit_group_def)

lemma emit_group_ios:
  assumes "emit_group g" and "1 < length g"
  obtains a bs c where "map fst (butlast g) = map (Io INSTR_HDR_EMIT) (a # bs)" and "fst (last g) = Io INSTR_TX c"
proof -
  have g: "2 \<le> length g" "\<forall>l \<in> set (butlast g). is_emit (fst l)" "is_tx (fst (last g))" using assms by (auto simp: emit_group_def)
  then have "butlast g \<noteq> []" by (cases g) auto
  moreover have "\<forall>l \<in> set (butlast g). \<exists>a. fst l = Io INSTR_HDR_EMIT a" using g(2) by (simp add: is_emit_iff)
  ultimately obtain a bs where "map fst (butlast g) = map (Io INSTR_HDR_EMIT) (a # bs)" using group_ios by metis
  moreover obtain c where "fst (last g) = Io INSTR_TX c" using g(3) by (auto simp: is_tx_iff)
  ultimately show ?thesis using that by blast
qed

lemma emit_group_hd: "emit_group g \<Longrightarrow> 1 < length g \<Longrightarrow> is_emit (fst (hd g))"
  by (cases g) (auto simp: emit_group_def split: if_splits)

lemma snd_fuse_emit: "g \<noteq> [] \<Longrightarrow> snd (fuse_emit g) = snd (hd g)"
  by (cases g) (auto simp: fuse_emit_def emit_many_tx_replace_def)

interpretation opt_emit: fusion fuse_emit emit_group few_headers
proof unfold_locales
  fix l show "fuse_emit [l] = l" by (simp add: fuse_emit_def)
next
  fix g assume g: "emit_group g"
  show "g \<noteq> []" using emit_group_ne [OF g] .
  show "snd (fuse_emit g) = snd (hd g)" using snd_fuse_emit [OF emit_group_ne [OF g]] .
  show "id_n_users (snd l) = 0" if "l \<in> set (tl g)" for l using emit_group_quiet [OF g that] .
  assume n: "1 < length g"
  show "\<not> instruction_is_jmp (fst l)" if "l \<in> set g" for l
    using emit_group_kind [OF g n that] by (auto simp: is_emit_iff is_tx_iff instruction_is_jmp_def)
  show "\<not> is_rx (fst (hd g))"
    using emit_group_hd [OF g n] by (auto simp: is_emit_iff is_rx_def)
  obtain a bs c where ios: "map fst (butlast g) = map (Io INSTR_HDR_EMIT) (a # bs)" "fst (last g) = Io INSTR_TX c"
    by (rule emit_group_ios [OF g n])
  show "\<not> instruction_is_jmp (fst (fuse_emit g))"
    by (simp add: fuse_emit_io [OF ios] instruction_is_jmp_def)
  have le: "length g \<le> 9" using g by (auto simp: emit_group_def)
  fix s :: swx and h code
  assume "few_headers s" "relocates h code s" and "\<And>j. j < length g \<Longrightarrow> code (h (t_ip (sw_cur s)) + j) = Some (fst (g ! j))"
  then show "rte_swx_pipeline_run (length g) (reloc h code s) =
      map_sum id (reloc h code) (exec_instruction (fst (fuse_emit g)) s)"
    by (rule run_emit_group [OF ios le])
qed

lemma emit_group_search:
  assumes "emit_many_tx_search ls = Some (Some n)"
  shows "emit_group (take n ls)" and "2 \<le> n" and "n \<le> length ls"
proof -
  let ?i = "many_len is_emit 0 ls"
  from assms obtain ins d where i: "?i \<noteq> 0" "aget ls ?i = Some (ins, d)" "is_tx ins" "id_n_users d = 0" "n = ?i + 1"
    by (auto simp: emit_many_tx_search_def Let_def split: if_splits option.splits prod.splits)
  then have l: "?i < length ls" "ls ! ?i = (ins, d)" by (auto simp: aget_Some_iff)
  note m = many_len_spec [of 0 is_emit ls, simplified]
  have t: "take n ls = take ?i ls @ [(ins, d)]" using i(5) l by (simp add: take_Suc_conv_app_nth)
  have "take ?i ls \<noteq> []" using i(1) l(1) by (cases ls) auto
  then have "tl (take n ls) = tl (take ?i ls) @ [(ins, d)]" using t by (simp add: tl_append2)
  then show "emit_group (take n ls)"
    using m i l(1) t by (auto simp: emit_group_def min_def)
  show "2 \<le> n" using i by simp
  show "n \<le> length ls" using i(5) l(1) by simp
qed

lemma compact_emit_replace:
  assumes "2 \<le> length g" and "\<not> id_invalid (snd (hd g))"
  shows "instr_compact (emit_many_tx_replace g) = [fuse_emit g]"
proof -
  obtain i d l rest where g: "g = (i, d) # l # rest" using assms(1) by (cases g; cases "tl g") auto
  then show ?thesis using assms(2) by (simp add: fuse_emit_def emit_many_tx_replace_def compact_cons)
qed

lemma emit_optimize_groups:
  assumes "emit_many_tx_optimize ls = Some ls'" and "\<forall>l \<in> set ls. \<not> id_invalid (snd l)"
  shows "\<exists>gs. concat gs = ls \<and> ls' = map fuse_emit gs \<and> (\<forall>g \<in> set gs. emit_group g)"
  using assms
proof (induction ls arbitrary: ls' rule: emit_many_tx_loop.induct)
  case 1
  then show ?case by (intro exI [of _ "[]"]) (simp add: emit_many_tx_optimize_def instr_compact_def)
next
  case (2 l ls)
  show ?case
  proof (cases "emit_many_tx_search (l # ls)")
    case None
    with "2.prems"(1) show ?thesis by (simp add: emit_many_tx_optimize_def)
  next
    case (Some r)
    show ?thesis
    proof (cases r)
      case None
      obtain ls2 where ls2: "emit_many_tx_loop ls = Some ls2" "ls' = l # instr_compact ls2"
        using "2.prems" Some None by (auto simp: emit_many_tx_optimize_def compact_cons)
      have "emit_many_tx_optimize ls = Some (instr_compact ls2)" by (simp add: emit_many_tx_optimize_def ls2(1))
      with "2.IH"(1) [OF Some None] "2.prems"(2) obtain gs where gs: "concat gs = ls" "instr_compact ls2 = map fuse_emit gs"
        "\<forall>g \<in> set gs. emit_group g" by auto
      have "emit_group [l]" by (simp add: emit_group_def)
      then show ?thesis using gs ls2(2) opt_emit.fuse_single by (intro exI [of _ "[l] # gs"]) simp
    next
      case n: (Some n)
      let ?g = "take n (l # ls)"
      note g = emit_group_search [OF Some [unfolded n]]
      obtain ls2 where ls2: "emit_many_tx_loop (drop n (l # ls)) = Some ls2"
        "ls' = instr_compact (emit_many_tx_replace ?g) @ instr_compact ls2"
        using "2.prems" Some n by (auto simp: emit_many_tx_optimize_def simp del: take_Cons' drop_Cons')
      have o: "emit_many_tx_optimize (drop n (l # ls)) = Some (instr_compact ls2)" by (simp add: emit_many_tx_optimize_def ls2(1))
      have "\<forall>x \<in> set (drop n (l # ls)). \<not> id_invalid (snd x)" using "2.prems"(2) by (meson in_set_dropD)
      from "2.IH"(2) [OF Some n o this] obtain gs where gs: "concat gs = drop n (l # ls)"
        "instr_compact ls2 = map fuse_emit gs" "\<forall>g \<in> set gs. emit_group g" by auto
      have "instr_compact (emit_many_tx_replace ?g) = [fuse_emit ?g]"
        using g(2,3) "2.prems"(2) by (intro compact_emit_replace) (auto simp: hd_take)
      then have "ls' = map fuse_emit (?g # gs)" using ls2(2) gs(2) by simp
      then show ?thesis using gs g(1) by (intro exI [of _ "?g # gs"]) simp
    qed
  qed
qed

end
