(* ===== verification/SwxOptimProps.thy ===== *)
theory SwxOptimProps
  imports SwxOptim
begin

text \<open>
  The whole optimiser: for a program without action arguments, what \<open>instruction_config\<close> puts in memory
  does what the same lines do without the optimiser. Behind it, the programs on which the configuration
  goes wrong.
\<close>

section \<open>From the label check to the passes\<close>

lemma label_check_Some:
  assumes "instr_label_check ls = Some ls2"
  shows "ls2 = map (\<lambda>(i, d). (i, d\<lparr>id_n_users := label_is_used (map snd ls) (id_label d)\<rparr>)) ls"
    and "labels_unique (map snd ls)"
  using assms by (auto simp: instr_label_check_def Let_def split: if_splits)

lemma label_check_fst:
  assumes "instr_label_check ls = Some ls2"
  shows "map fst ls2 = map fst ls" and "length ls2 = length ls"
  unfolding label_check_Some(1) [OF assms] by (auto simp: comp_def split_beta)

text \<open>A jump has a label to go to, as the translation of every jump puts one.\<close>

definition jumps_labelled :: "line list \<Rightarrow> bool" where
  "jumps_labelled ls \<longleftrightarrow> (\<forall>l \<in> set ls. instruction_is_jmp (fst l) \<longrightarrow> id_jmp_label (snd l) \<noteq> [])"

text \<open>The lines as the translation makes them: no line is out, and only the optimiser makes DMA instructions.\<close>

definition translated :: "line list \<Rightarrow> bool" where
  "translated ls \<longleftrightarrow> (\<forall>l \<in> set ls. \<not> id_invalid (snd l) \<and> \<not> is_dma (fst l)) \<and> jumps_labelled ls"

lemma label_is_used_pos:
  assumes "d \<in> set ds" and "id_jmp_label d = lb" and "lb \<noteq> []"
  shows "label_is_used ds lb \<noteq> 0"
  using assms by (auto simp: label_is_used_def filter_empty_conv)

lemma label_check_ok:
  assumes "instr_label_check ls = Some ls2" and "translated ls"
  shows "lines_ok ls2" and "\<forall>l \<in> set ls2. \<not> is_dma (fst l)"
proof -
  note ls2 = label_check_Some(1) [OF assms(1)]
  have lab: "map id_label (map snd ls2) = map id_label (map snd ls)"
    by (simp add: ls2 split_beta)
  have u: "labels_unique (map snd ls2)"
    using label_check_Some(2) [OF assms(1)] unfolding labels_unique_nth
    by (simp add: ls2 split_beta)
  show "lines_ok ls2"
    unfolding lines_ok_def
  proof (intro conjI ballI impI u)
    fix l assume "l \<in> set ls2"
    then show "\<not> id_invalid (snd l)" using assms(2) by (auto simp: ls2 translated_def)
  next
    fix l assume "l \<in> set ls2" "instruction_is_jmp (fst l)"
    then show "id_jmp_label (snd l) \<noteq> []" using assms(2) by (fastforce simp: ls2 translated_def jumps_labelled_def)
  next
    fix l l' assume l: "l \<in> set ls2" "instruction_is_jmp (fst l)" "l' \<in> set ls2" "id_label (snd l') = id_jmp_label (snd l)"
    from l(1) obtain i d where i: "(i, d) \<in> set ls" "fst l = i" "id_jmp_label (snd l) = id_jmp_label d" by (auto simp: ls2)
    then have "id_jmp_label d \<noteq> []" using assms(2) l(2) by (force simp: translated_def jumps_labelled_def)
    moreover have "id_n_users (snd l') = label_is_used (map snd ls) (id_label (snd l'))" using l(3) by (auto simp: ls2)
    moreover have "d \<in> set (map snd ls)" using i(1) by (metis image_eqI snd_conv list.set_map)
    ultimately show "id_n_users (snd l') \<noteq> 0" using label_is_used_pos l(4) i(3) by metis
  qed
  show "\<forall>l \<in> set ls2. \<not> is_dma (fst l)" using assms(2) by (auto simp: ls2 translated_def)
qed

lemma many_len_none: "list_all (\<lambda>l. \<not> kind (fst l)) ls \<Longrightarrow> many_len kind i ls = i"
  by (cases ls) auto

lemma dma_many_id:
  assumes "\<forall>l \<in> set ls. \<not> is_dma (fst l) \<and> \<not> id_invalid (snd l)"
  shows "dma_many_optimize ls = ls"
  using assms
proof (induction ls)
  case (Cons l ls)
  have "many_len is_dma 0 (l # ls) = 0" using Cons.prems by (intro many_len_none) (auto simp: list_all_iff)
  then have "dma_many_search (l # ls) = None" by (simp add: dma_many_search_def del: many_len.simps)
  then show ?case using Cons by (simp add: dma_many_optimize_def compact_cons)
qed (simp add: dma_many_optimize_def instr_compact_def)

lemma fuse_extract_not_dma:
  assumes "many_group is_extract g" and "\<forall>l \<in> set g. \<not> is_dma (fst l)"
  shows "\<not> is_dma (fst (fuse_extract g))"
proof (cases "1 < length g")
  case True
  then obtain a bs where "map fst g = map (Io INSTR_HDR_EXTRACT) (a # bs)" by (rule extract_group_ios [OF assms(1)])
  then show ?thesis by (simp add: fuse_extract_io is_dma_def)
next
  case False
  then have "g = [hd g]" using many_group_ne [OF assms(1)] by (cases g) auto
  then show ?thesis using opt_extract.fuse_single assms(2) by (metis list.set_intros(1))
qed

lemma fuse_emit_not_dma:
  assumes "emit_group g" and "\<forall>l \<in> set g. \<not> is_dma (fst l)"
  shows "\<not> is_dma (fst (fuse_emit g))"
proof (cases "1 < length g")
  case True
  then obtain a bs c where "map fst (butlast g) = map (Io INSTR_HDR_EMIT) (a # bs)" "fst (last g) = Io INSTR_TX c"
    by (rule emit_group_ios [OF assms(1)])
  then show ?thesis by (simp add: fuse_emit_io is_dma_def)
next
  case False
  then have "g = [hd g]" using emit_group_ne [OF assms(1)] by (cases g) auto
  then show ?thesis using opt_emit.fuse_single assms(2) by (metis list.set_intros(1))
qed

text \<open>Without action arguments the optimiser is two passes, each a fusion of groups.\<close>

lemma instr_optimize_groups:
  assumes opt: "instr_optimize hs None ls = Some (ls', a)" and ok: "lines_ok ls" and dma: "\<forall>l \<in> set ls. \<not> is_dma (fst l)"
  obtains gs gs2 where "concat gs = ls" "\<forall>g \<in> set gs. many_group is_extract g"
    "concat gs2 = map fuse_extract gs" "\<forall>g \<in> set gs2. emit_group g" "ls' = map fuse_emit gs2" "a = None"
    "lines_ok (map fuse_extract gs)"
proof -
  have "\<forall>l \<in> set ls. \<not> id_invalid (snd l)" using ok by (simp add: lines_ok_def)
  then obtain gs where gs: "concat gs = ls" "extract_many_optimize ls = map fuse_extract gs" "\<forall>g \<in> set gs. many_group is_extract g"
    using extract_optimize_groups by blast
  have ok2: "lines_ok (map fuse_extract gs)" using opt_extract.lines_ok_fuse ok gs(1,3) by simp
  have d2: "\<not> is_dma (fst l)" if "l \<in> set (map fuse_extract gs)" for l
    using that gs dma fuse_extract_not_dma by fastforce
  from opt obtain l2 where l2: "emit_many_tx_optimize (map fuse_extract gs) = Some l2" "ls' = dma_many_optimize l2" "a = None"
    by (auto simp: instr_optimize_def gs(2) validate_mov_all_optimize_def split: option.splits)
  from l2(1) ok2 obtain gs2 where gs2: "concat gs2 = map fuse_extract gs" "l2 = map fuse_emit gs2" "\<forall>g \<in> set gs2. emit_group g"
    using emit_optimize_groups by (meson lines_ok_def)
  have "lines_ok l2" using opt_emit.lines_ok_fuse ok2 gs2 by simp
  then have "\<forall>l \<in> set l2. \<not> id_invalid (snd l)" by (simp add: lines_ok_def)
  moreover have "\<not> is_dma (fst l)" if l: "l \<in> set l2" for l
  proof -
    from l gs2(2) obtain g where g: "g \<in> set gs2" "l = fuse_emit g" by auto
    then have "set g \<subseteq> set (map fuse_extract gs)" using gs2(1) by (metis UN_upper set_concat)
    then show ?thesis using g gs2(3) d2 fuse_emit_not_dma by blast
  qed
  ultimately have "dma_many_optimize l2 = l2" using dma_many_id by blast
  then show ?thesis using that gs gs2 l2 ok2 by blast
qed

section \<open>The optimised program in memory\<close>

text \<open>The reference: the lines checked and resolved, but not optimised.\<close>

definition instruction_config_plain :: "bool \<Rightarrow> nat \<Rightarrow> line list \<Rightarrow> instruction list option" where
  "instruction_config_plain action base ls =
     (case instr_label_check ls of
        None \<Rightarrow> None
      | Some ls \<Rightarrow> if instr_verify action (map fst ls) then instr_jmp_resolve base ls else None)"

text \<open>Addresses that a segment of \<open>len\<close> instructions at \<open>b\<close> does not hold, its start apart.\<close>

definition outside :: "nat \<Rightarrow> nat \<Rightarrow> nat \<Rightarrow> bool" where
  "outside b len a \<longleftrightarrow> a \<le> b \<or> b + len \<le> a"

definition jumps_outside :: "nat \<Rightarrow> nat \<Rightarrow> (nat \<Rightarrow> instruction option) \<Rightarrow> bool" where
  "jumps_outside b len code \<longleftrightarrow> (\<forall>a ty ip. code a = Some (Jmp ty ip) \<longrightarrow> outside b len (jmp_ip ip))"

definition threads_outside :: "nat \<Rightarrow> nat \<Rightarrow> swx \<Rightarrow> bool" where
  "threads_outside b len s \<longleftrightarrow>
     (\<forall>j. outside b len (t_ip (threads (sw_pipe s) j)) \<and> outside b len (t_ret (threads (sw_pipe s) j)))"

text \<open>Everything of a state but the program and the instruction pointers into it.\<close>

definition erase :: "swx \<Rightarrow> swx" where
  "erase s = reloc (\<lambda>_. 0) (\<lambda>_. None) s"

lemma reloc_reloc [simp]: "reloc h c (reloc k d s) = reloc (h \<circ> k) c s"
  by (simp add: reloc_def pipe_map_def ip_map_def)

lemma erase_reloc [simp]: "erase (reloc h c s) = erase s"
  by (simp add: erase_def comp_def)

lemma reloc_fixed:
  assumes "\<forall>j. h (t_ip (threads (sw_pipe s) j)) = t_ip (threads (sw_pipe s) j) \<and> h (t_ret (threads (sw_pipe s) j)) = t_ret (threads (sw_pipe s) j)"
  shows "reloc h c s = s\<lparr>sw_code := c\<rparr>"
  using assms by (simp add: reloc_def pipe_map_def ip_map_def)

lemma length_groups: "\<forall>g \<in> set gs. g \<noteq> [] \<Longrightarrow> length gs \<le> length (concat gs)"
  by (induction gs) (auto simp: Suc_le_eq add_strict_increasing)

lemma remap_outside:
  assumes "\<forall>g \<in> set gs. g \<noteq> []" and "outside b len a" and "length (concat gs) \<le> len"
  shows "remap b gs a = a"
proof -
  have le: "length gs \<le> length (concat gs)" using assms(1) by (rule length_groups)
  consider "a = b" | "a < b" | "b < a" "b + len \<le> a" using assms(2) unfolding outside_def by linarith
  then show ?thesis
  proof cases
    case 3
    show ?thesis
    proof (cases "a \<le> b + length gs")
      case True
      with 3 le assms(3) have "a = b + length gs" "length (concat gs) = length gs" by linarith+
      then show ?thesis by (simp add: remap_def)
    qed (simp add: remap_def)
  qed (simp_all add: remap_def)
qed

lemma place_shrink:
  assumes "length is \<le> k" and "k \<le> len"
  shows "place b len is other = place b k is (place b len [] other)"
  using assms by (auto simp: place_def aget_def fun_eq_iff)

lemma outside_mono: "outside b len a \<Longrightarrow> k \<le> len \<Longrightarrow> outside b k a"
  by (auto simp: outside_def)

text \<open>One pass, from states in which the threads are outside of the segment.\<close>

lemma reloc_others:
  assumes "jumps_outside b len other" and "\<forall>g \<in> set gs. g \<noteq> []" and "length (concat gs) \<le> len"
  shows "\<forall>a i. place b len [] other a = Some i \<longrightarrow> reloc_instr (remap b gs) i = i"
    and "\<forall>a i. other a = Some i \<longrightarrow> reloc_instr (remap b gs) i = i"
proof -
  show o: "\<forall>a i. other a = Some i \<longrightarrow> reloc_instr (remap b gs) i = i"
  proof (intro allI impI)
    fix a i assume "other a = Some i"
    then show "reloc_instr (remap b gs) i = i"
      using assms(1) remap_outside [OF assms(2) _ assms(3)] by (cases i) (auto simp: reloc_instr_def jumps_outside_def)
  qed
  then show "\<forall>a i. place b len [] other a = Some i \<longrightarrow> reloc_instr (remap b gs) i = i"
    by (simp add: place_def aget_def)
qed

lemma config_passes:
  assumes "instruction_config action hs None b ls = Inr (is', a)" and "translated ls"
  obtains lc gs gs2 is1 "is" where "instr_label_check ls = Some lc" "concat gs = lc" "length lc = length ls"
    "\<forall>g \<in> set gs. many_group is_extract g" "concat gs2 = map fuse_extract gs" "\<forall>g \<in> set gs2. emit_group g"
    "lines_ok lc" "lines_ok (map fuse_extract gs)" "instr_jmp_resolve b (map fuse_emit gs2) = Some is'"
    "instr_jmp_resolve b (map fuse_extract gs) = Some is1" "instr_jmp_resolve b lc = Some is"
    "instruction_config_plain action b ls = Some is" "action \<or> is_rx (fst (hd lc))" "lc \<noteq> []"
proof -
  from assms(1) obtain lc ls' where lc: "instr_label_check ls = Some lc" "instr_verify action (map fst lc)"
      "instr_optimize hs None lc = Some (ls', a)" "instr_jmp_resolve b ls' = Some is'" "ls \<noteq> []"
    by (auto simp: instruction_config_def split: if_splits option.splits)
  note ok = label_check_ok [OF lc(1) assms(2)]
  from instr_optimize_groups [OF lc(3) ok] obtain gs gs2 where g: "concat gs = lc" "\<forall>g \<in> set gs. many_group is_extract g"
    "concat gs2 = map fuse_extract gs" "\<forall>g \<in> set gs2. emit_group g" "ls' = map fuse_emit gs2" "lines_ok (map fuse_extract gs)"
    by metis
  obtain is1 where is1: "instr_jmp_resolve b (map fuse_extract gs) = Some is1"
    using opt_emit.resolve_orig [of gs2 b is'] g lc(4) by auto
  obtain "is" where "is": "instr_jmp_resolve b lc = Some is"
    using opt_extract.resolve_orig [OF _ g(2) is1] g(1) ok(1) by auto
  have ne: "lc \<noteq> []" using label_check_fst(2) [OF lc(1)] lc(5) by auto
  then have "action \<or> is_rx (fst (hd lc))" using lc(2) by (cases action) (auto simp: instr_verify_def hd_map)
  moreover have "instruction_config_plain action b ls = Some is" by (simp add: instruction_config_plain_def lc(1,2) "is")
  ultimately show ?thesis using that lc(1,4) g ok(1) is1 "is" ne label_check_fst(2) [OF lc(1)] by blast
qed

lemma resolve_length: "instr_jmp_resolve b ls = Some is \<Longrightarrow> length is = length ls"
  by (simp add: instr_jmp_resolve_def resolve_loop_Some)

lemma hd_rx_groups:
  assumes "\<forall>g \<in> set gs. many_group is_extract g" and "is_rx (fst (hd (concat gs)))" and "concat gs \<noteq> []"
  shows "is_rx (fst (hd (map fuse_extract gs)))"
proof -
  obtain g rest where gs: "gs = g # rest" using assms(3) by (cases gs) auto
  have g: "many_group is_extract g" "g \<noteq> []" using assms(1) many_group_ne by (auto simp: gs)
  then have rx: "is_rx (fst (hd g))" using assms(2) by (simp add: gs hd_append)
  then have "\<not> 1 < length g" using opt_extract.no_rx [OF g(1)] by blast
  then have "g = [hd g]" using g(2) by (cases g) auto
  then show ?thesis using opt_extract.fuse_single rx by (simp add: gs) metis
qed

text \<open>
  What the optimiser does to a program without action arguments cannot be observed. Take a pipeline
  whose memory holds, at \<open>b\<close>, the instructions that \<open>instruction_config\<close> makes of some lines, extractions
  and emissions fused; no other code jumps into the middle of them, and the threads are elsewhere. If it
  runs for \<open>n\<close> instructions, then the lines as they were written, put at the same place, run
  as well, for at least as many instructions, to a state that only differs in the code and the
  instruction pointers: the same packets sent, the same memory, tables, statistics, registers and meters.
\<close>

theorem optimised_program_runs_as_written:
  assumes cfg: "instruction_config action hs None b ls = Inr (is', a)" and tr: "translated ls" and base: "action \<longrightarrow> b \<noteq> 0"
    and jumps: "jumps_outside b (length ls) other"
    and acts: "\<forall>x \<in> set (sw_action_instructions s). outside b (length ls) x"
    and thr: "threads_outside b (length ls) s"
    and code: "sw_code s = place b (length ls) is' other"
    and few: "\<forall>m < n. \<forall>u. rte_swx_pipeline_run m s = Inr u \<longrightarrow> few_headers u"
    and run: "rte_swx_pipeline_run n s = Inr t"
  shows "\<exists>is m t'. instruction_config_plain action b ls = Some is \<and> n \<le> m \<and>
    rte_swx_pipeline_run m (s\<lparr>sw_code := place b (length ls) is other\<rparr>) = Inr t' \<and> erase t' = erase t"
proof -
  from cfg tr obtain lc gs gs2 is1 "is" where c: "concat gs = lc" "length lc = length ls"
    "\<forall>g \<in> set gs. many_group is_extract g" "concat gs2 = map fuse_extract gs" "\<forall>g \<in> set gs2. emit_group g"
    "lines_ok lc" "lines_ok (map fuse_extract gs)" "instr_jmp_resolve b (map fuse_emit gs2) = Some is'"
    "instr_jmp_resolve b (map fuse_extract gs) = Some is1" "instr_jmp_resolve b lc = Some is"
    "instruction_config_plain action b ls = Some is" "action \<or> is_rx (fst (hd lc))" "lc \<noteq> []"
    by (rule config_passes)
  let ?len = "length ls" and ?k = "length (concat gs2)" and ?o = "place b (length ls) [] other"
  have ne: "\<forall>g \<in> set gs. g \<noteq> []" "\<forall>g \<in> set gs2. g \<noteq> []" "gs \<noteq> []" "gs2 \<noteq> []"
    using c many_group_ne emit_group_ne by auto
  have k: "?k \<le> ?len" "length (concat gs) \<le> ?len" using c(1,2,4) length_groups [OF ne(1)] by simp_all
  note out1 = remap_outside [OF ne(2) _ k(1)] and out2 = remap_outside [OF ne(1) _ k(2)]
  have rx: "b \<noteq> 0 \<or> is_rx (fst (hd (concat gs)))" "b \<noteq> 0 \<or> is_rx (fst (hd (concat gs2)))"
    using c(1,4,12,13) base hd_rx_groups [OF c(3)] by auto
  let ?s1 = "s\<lparr>sw_code := place b ?len is1 other\<rparr>" and ?R1 = "reloc (remap b gs2) (place b ?k is1 ?o)"
  have p1: "place b ?k is1 ?o = place b ?len is1 other" "place b ?len is' other = place b ?k is' ?o"
    using place_shrink [of is1 ?k ?len b other] place_shrink [of is' ?k ?len b other] k(1) resolve_length [OF c(9)]
      resolve_length [OF c(8)] length_groups [OF ne(2)] by (simp_all add: c(4))
  have s1: "?R1 s = ?s1" using thr out1 by (subst reloc_fixed) (auto simp: threads_outside_def p1)
  have ex: "\<exists>m \<ge> n. rte_swx_pipeline_run m (?R1 s) = Inr (?R1 t)"
    by (rule opt_emit.run_fuse)
      (use c ne acts out1 rx few run code p1 reloc_others(1) [OF jumps ne(2) k(1)] in auto)
  then obtain m where m: "n \<le> m" "rte_swx_pipeline_run m ?s1 = Inr (?R1 t)" by (auto simp: s1)
  let ?R2 = "reloc (remap b gs) (place b (length (concat gs)) is other)"
  have ex2: "\<exists>m' \<ge> m. rte_swx_pipeline_run m' (?R2 ?s1) = Inr (?R2 (?R1 t))"
    by (rule opt_extract.run_fuse)
      (use c ne acts out2 rx m(2) reloc_others(2) [OF jumps ne(1) k(2)] in auto)
  then obtain m' where m': "m \<le> m'" "rte_swx_pipeline_run m' (?R2 ?s1) = Inr (?R2 (?R1 t))" by blast
  have "?R2 ?s1 = ?s1\<lparr>sw_code := place b (length (concat gs)) is other\<rparr>"
    using thr out2 by (subst reloc_fixed) (auto simp: threads_outside_def)
  then have "rte_swx_pipeline_run m' (s\<lparr>sw_code := place b ?len is other\<rparr>) = Inr (?R2 (?R1 t))"
    using m'(2) by (simp add: c(1,2))
  then show ?thesis using c(11) m(1) m'(1) by (intro exI [of _ "is"] exI [of _ m'] exI [of _ "?R2 (?R1 t)"]) simp
qed

end
