(* ===== verification/SwxL3.thy ===== *)
theory SwxL3
  imports SwxTyping SwxOptimProps
begin

text \<open>
  The switch program of the repository (P4/l3.spec, which the P4 compiler makes of P4/l3.p4): its
  types, headers and meta-data registered in the order of the file, and the text of its actions and of its
  pipeline, to be translated, optimised and resolved by the definitions of the other theories.
\<close>

section \<open>The specification\<close>

definition l3_types :: "pspec \<Rightarrow> spec_errno + pspec" where
  "l3_types p =
     bindR (rte_swx_pipeline_struct_type_register p ''ethernet_h'' [(''dst_addr'', 48), (''src_addr'', 48), (''ether_type'', 16)] False) (\<lambda>p.
     bindR (rte_swx_pipeline_struct_type_register p ''vlan_tag_h'' [(''pcp_cfi_vid'', 16), (''ether_type'', 16)] False) (\<lambda>p.
     bindR (rte_swx_pipeline_struct_type_register p ''ipv4_h'' [(''version_ihl'', 8), (''qos'', 8), (''total_len'', 16), (''identification'', 16), (''flags_frag_offset'', 16), (''ttl'', 8), (''protocol'', 8), (''hdr_checksum'', 16), (''src_addr'', 32), (''dst_addr'', 32)] False) (\<lambda>p.
     bindR (rte_swx_pipeline_struct_type_register p ''psa_ingress_output_metadata_t'' [(''class_of_service'', 8), (''clone'', 8), (''clone_session_id'', 16), (''drop'', 8), (''resubmit'', 8), (''multicast_group'', 32), (''egress_port'', 32)] False) (\<lambda>p.
     bindR (rte_swx_pipeline_struct_type_register p ''psa_egress_output_metadata_t'' [(''clone'', 8), (''clone_session_id'', 16), (''drop'', 8)] False) (\<lambda>p.
     bindR (rte_swx_pipeline_struct_type_register p ''psa_egress_deparser_input_metadata_t'' [(''egress_port'', 32)] False) (\<lambda>p.
     bindR (rte_swx_pipeline_struct_type_register p ''send_arg_t'' [(''port'', 32), (''class'', 32)] False) (\<lambda>p.
     bindR (rte_swx_pipeline_packet_header_register p ''ethernet'' ''ethernet_h'') (\<lambda>p.
     bindR (rte_swx_pipeline_packet_header_register p ''vlan_tag'' ''vlan_tag_h'') (\<lambda>p.
     bindR (rte_swx_pipeline_packet_header_register p ''ipv4'' ''ipv4_h'') (\<lambda>p.
     bindR (rte_swx_pipeline_struct_type_register p ''my_ingress_metadata_t'' [(''psa_ingress_input_metadata_ingress_port'', 32), (''psa_ingress_output_metadata_drop'', 8), (''psa_ingress_output_metadata_egress_port'', 32)] False) (\<lambda>p.
     rte_swx_pipeline_packet_metadata_register p ''my_ingress_metadata_t'')))))))))))"

definition l3_NoAction :: "string list" where
  "l3_NoAction =
     [''return'']"

definition l3_send :: "string list" where
  "l3_send =
     [''mov m.psa_ingress_output_metadata_egress_port t.port'',
      ''mov m.psa_ingress_output_metadata_drop 0'',
      ''mov h.ipv4.src_addr t.class'',
      ''return'']"

definition l3_drop_1 :: "string list" where
  "l3_drop_1 =
     [''mov m.psa_ingress_output_metadata_drop 1'',
      ''return'']"

definition l3_apply :: "string list" where
  "l3_apply =
     [''rx m.psa_ingress_input_metadata_ingress_port'',
      ''mov m.psa_ingress_output_metadata_drop 0x1'',
      ''extract h.ethernet'',
      ''jmpeq INGRESS_PARSER_PARSE_VLAN_TAG h.ethernet.ether_type 0x8100'',
      ''jmpeq INGRESS_PARSER_PARSE_IPV4 h.ethernet.ether_type 0x800'',
      ''jmp INGRESS_PARSER_ACCEPT'',
      ''INGRESS_PARSER_PARSE_VLAN_TAG : extract h.vlan_tag'',
      ''jmpeq INGRESS_PARSER_PARSE_IPV4 h.vlan_tag.ether_type 0x800'',
      ''jmp INGRESS_PARSER_ACCEPT'',
      ''INGRESS_PARSER_PARSE_IPV4 : extract h.ipv4'',
      ''INGRESS_PARSER_ACCEPT : table ipv4_host'',
      ''jmpneq LABEL_DROP m.psa_ingress_output_metadata_drop 0x0'',
      ''emit h.ethernet'',
      ''emit h.vlan_tag'',
      ''emit h.ipv4'',
      ''tx m.psa_ingress_output_metadata_egress_port'',
      ''LABEL_DROP : drop'']"

text \<open>What the registration leaves: the struct types, three headers and the meta-data.\<close>

definition ethernet_h :: struct_type where
  "ethernet_h = struct_type_of ''ethernet_h'' [(''dst_addr'', 48), (''src_addr'', 48), (''ether_type'', 16)] False"

definition vlan_tag_h :: struct_type where
  "vlan_tag_h = struct_type_of ''vlan_tag_h'' [(''pcp_cfi_vid'', 16), (''ether_type'', 16)] False"

definition ipv4_h :: struct_type where
  "ipv4_h = struct_type_of ''ipv4_h''
     [(''version_ihl'', 8), (''qos'', 8), (''total_len'', 16), (''identification'', 16), (''flags_frag_offset'', 16), (''ttl'', 8),
      (''protocol'', 8), (''hdr_checksum'', 16), (''src_addr'', 32), (''dst_addr'', 32)] False"

definition send_arg_t :: struct_type where
  "send_arg_t = struct_type_of ''send_arg_t'' [(''port'', 32), (''class'', 32)] False"

definition my_ingress_metadata_t :: struct_type where
  "my_ingress_metadata_t = struct_type_of ''my_ingress_metadata_t''
     [(''psa_ingress_input_metadata_ingress_port'', 32), (''psa_ingress_output_metadata_drop'', 8),
      (''psa_ingress_output_metadata_egress_port'', 32)] False"

definition h_ethernet :: header_type where
  "h_ethernet = \<lparr>h_name = ''ethernet'', h_st = ethernet_h, h_struct_id = 1, h_id = 0\<rparr>"

definition h_vlan_tag :: header_type where
  "h_vlan_tag = \<lparr>h_name = ''vlan_tag'', h_st = vlan_tag_h, h_struct_id = 2, h_id = 1\<rparr>"

definition h_ipv4 :: header_type where
  "h_ipv4 = \<lparr>h_name = ''ipv4'', h_st = ipv4_h, h_struct_id = 3, h_id = 2\<rparr>"

lemma l3_types_eq:
  "\<exists>p. l3_types pspec_init = Inr p \<and> ps_headers p = [h_ethernet, h_vlan_tag, h_ipv4] \<and>
    ps_metadata_st p = Some my_ingress_metadata_t \<and> ps_metadata_struct_id p = 4 \<and> ps_n_structs p = 5 \<and> ps_actions p = [] \<and>
    find (\<lambda>st. s_name st = ''send_arg_t'') (ps_struct_types p) = Some send_arg_t"
  by (simp add: l3_types_def rte_swx_pipeline_struct_type_register_def pspec_init_def check_name_def RTE_SWX_NAME_SIZE_def
      struct_type_find_def rte_swx_pipeline_packet_header_register_def header_find_def n_headers_max_def
      rte_swx_pipeline_packet_metadata_register_def struct_type_of_def Let_def h_ethernet_def h_vlan_tag_def h_ipv4_def ethernet_h_def
      vlan_tag_h_def ipv4_h_def my_ingress_metadata_t_def send_arg_t_def)

definition l3_pspec0 :: pspec where
  "l3_pspec0 = projr (l3_types pspec_init)\<lparr>ps_regarrays := [''reg_counter_0''], ps_tables := [''ipv4_host'']\<rparr>"

lemma l3_pspec0:
  "ps_headers l3_pspec0 = [h_ethernet, h_vlan_tag, h_ipv4]" "ps_metadata_st l3_pspec0 = Some my_ingress_metadata_t"
  "ps_metadata_struct_id l3_pspec0 = 4" "ps_n_structs l3_pspec0 = 5" "ps_actions l3_pspec0 = []"
  "ps_regarrays l3_pspec0 = [''reg_counter_0'']" "ps_tables l3_pspec0 = [''ipv4_host'']"
  "struct_type_find l3_pspec0 ''send_arg_t'' = Some send_arg_t"
  using l3_types_eq by (auto simp: l3_pspec0_def struct_type_find_def)

section \<open>Translation\<close>

definition opnd :: "nat \<Rightarrow> nat \<Rightarrow> nat \<Rightarrow> instr_operand" where
  "opnd s n off = \<lparr>op_struct_id = s, op_n_bits = n, op_offset = off\<rparr>"

text \<open>What the translation looks at in the specification.\<close>

definition l3_names :: "pspec \<Rightarrow> bool" where
  "l3_names p \<longleftrightarrow> ps_headers p = [h_ethernet, h_vlan_tag, h_ipv4] \<and> ps_metadata_st p = Some my_ingress_metadata_t \<and>
     ps_metadata_struct_id p = 4 \<and> ps_tables p = [''ipv4_host'']"

lemma l3_namesD:
  assumes "l3_names p"
  shows "ps_headers p = [h_ethernet, h_vlan_tag, h_ipv4]" "ps_metadata_st p = Some my_ingress_metadata_t"
    "ps_metadata_struct_id p = 4" "ps_tables p = [''ipv4_host'']"
  using assms by (simp_all add: l3_names_def)

lemmas l3_tokens = instr_translate_def tokenize.simps is_sep_def RTE_SWX_INSTRUCTION_TOKENS_MAX_def check_name_def
  RTE_SWX_NAME_SIZE_def instr_of_tokens_def Let_def

lemmas l3_fields = metadata_field_parse_def prefixed_def struct_type_field_find_def my_ingress_metadata_t_def struct_type_of_def
  header_parse_def header_find_def header_field_parse_def struct_field_parse_def action_field_parse_def h_ethernet_def h_vlan_tag_def h_ipv4_def
  ethernet_h_def vlan_tag_h_def ipv4_h_def send_arg_t_def

lemmas l3_instrs = instr_rx_translate_def instr_tx_translate_def instr_drop_translate_def instr_hdr_extract_translate_def
  instr_hdr_emit_translate_def instr_table_translate_def instr_return_translate_def instr_mov_translate_def dst_src_translate_def
  instr_jmp_translate_def instr_jmp_eq_translate_def instr_jmp_neq_translate_def jmp_cmp_translate_def by_place_def is_h_def fixed_def
  operand_of_def opnd_def io_field_def io_header_def io_zero_def imm_for_def number_def strtoull0_def digit_val_def is_space_def
  jmp_zero_def no_operand_def

definition l3_lines :: "line list" where
  "l3_lines =
     [(Io INSTR_RX (io_zero\<lparr>io_n_bits := 32\<rparr>), \<lparr>id_label = [], id_jmp_label = [], id_n_users = 0, id_invalid = False\<rparr>),
      (Mov INSTR_MOV_I \<lparr>ds_dst = opnd 4 8 4, ds_src = no_operand, ds_src_val = 1\<rparr>, \<lparr>id_label = [], id_jmp_label = [], id_n_users = 0, id_invalid = False\<rparr>),
      (Io INSTR_HDR_EXTRACT (io_header h_ethernet 14), \<lparr>id_label = [], id_jmp_label = [], id_n_users = 0, id_invalid = False\<rparr>),
      (Jmp INSTR_JMP_EQ_I (jmp_zero\<lparr>jmp_a := opnd 1 16 12, jmp_b_val := 129\<rparr>), \<lparr>id_label = [], id_jmp_label = ''INGRESS_PARSER_PARSE_VLAN_TAG'', id_n_users = 0, id_invalid = False\<rparr>),
      (Jmp INSTR_JMP_EQ_I (jmp_zero\<lparr>jmp_a := opnd 1 16 12, jmp_b_val := 8\<rparr>), \<lparr>id_label = [], id_jmp_label = ''INGRESS_PARSER_PARSE_IPV4'', id_n_users = 0, id_invalid = False\<rparr>),
      (Jmp INSTR_JMP jmp_zero, \<lparr>id_label = [], id_jmp_label = ''INGRESS_PARSER_ACCEPT'', id_n_users = 0, id_invalid = False\<rparr>),
      (Io INSTR_HDR_EXTRACT (io_header h_vlan_tag 4), \<lparr>id_label = ''INGRESS_PARSER_PARSE_VLAN_TAG'', id_jmp_label = [], id_n_users = 0, id_invalid = False\<rparr>),
      (Jmp INSTR_JMP_EQ_I (jmp_zero\<lparr>jmp_a := opnd 2 16 2, jmp_b_val := 8\<rparr>), \<lparr>id_label = [], id_jmp_label = ''INGRESS_PARSER_PARSE_IPV4'', id_n_users = 0, id_invalid = False\<rparr>),
      (Jmp INSTR_JMP jmp_zero, \<lparr>id_label = [], id_jmp_label = ''INGRESS_PARSER_ACCEPT'', id_n_users = 0, id_invalid = False\<rparr>),
      (Io INSTR_HDR_EXTRACT (io_header h_ipv4 20), \<lparr>id_label = ''INGRESS_PARSER_PARSE_IPV4'', id_jmp_label = [], id_n_users = 0, id_invalid = False\<rparr>),
      (Table 0, \<lparr>id_label = ''INGRESS_PARSER_ACCEPT'', id_jmp_label = [], id_n_users = 0, id_invalid = False\<rparr>),
      (Jmp INSTR_JMP_NEQ_I (jmp_zero\<lparr>jmp_a := opnd 4 8 4, jmp_b_val := 0\<rparr>), \<lparr>id_label = [], id_jmp_label = ''LABEL_DROP'', id_n_users = 0, id_invalid = False\<rparr>),
      (Io INSTR_HDR_EMIT (io_header h_ethernet 14), \<lparr>id_label = [], id_jmp_label = [], id_n_users = 0, id_invalid = False\<rparr>),
      (Io INSTR_HDR_EMIT (io_header h_vlan_tag 4), \<lparr>id_label = [], id_jmp_label = [], id_n_users = 0, id_invalid = False\<rparr>),
      (Io INSTR_HDR_EMIT (io_header h_ipv4 20), \<lparr>id_label = [], id_jmp_label = [], id_n_users = 0, id_invalid = False\<rparr>),
      (Io INSTR_TX (io_zero\<lparr>io_offset := 5, io_n_bits := 32\<rparr>), \<lparr>id_label = [], id_jmp_label = [], id_n_users = 0, id_invalid = False\<rparr>),
      (Plain INSTR_DROP, \<lparr>id_label = ''LABEL_DROP'', id_jmp_label = [], id_n_users = 0, id_invalid = False\<rparr>)]"

definition l3_send_lines :: "line list" where
  "l3_send_lines =
     [(Mov INSTR_MOV \<lparr>ds_dst = opnd 4 32 5, ds_src = opnd 0 32 0, ds_src_val = 0\<rparr>, \<lparr>id_label = [], id_jmp_label = [], id_n_users = 0, id_invalid = False\<rparr>),
      (Mov INSTR_MOV_I \<lparr>ds_dst = opnd 4 8 4, ds_src = no_operand, ds_src_val = 0\<rparr>, \<lparr>id_label = [], id_jmp_label = [], id_n_users = 0, id_invalid = False\<rparr>),
      (Mov INSTR_MOV_HM \<lparr>ds_dst = opnd 3 32 12, ds_src = opnd 0 32 4, ds_src_val = 0\<rparr>, \<lparr>id_label = [], id_jmp_label = [], id_n_users = 0, id_invalid = False\<rparr>),
      (Plain INSTR_RETURN, \<lparr>id_label = [], id_jmp_label = [], id_n_users = 0, id_invalid = False\<rparr>)]"

definition l3_drop_lines :: "line list" where
  "l3_drop_lines =
     [(Mov INSTR_MOV_I \<lparr>ds_dst = opnd 4 8 4, ds_src = no_operand, ds_src_val = 1\<rparr>, \<lparr>id_label = [], id_jmp_label = [], id_n_users = 0, id_invalid = False\<rparr>),
      (Plain INSTR_RETURN, \<lparr>id_label = [], id_jmp_label = [], id_n_users = 0, id_invalid = False\<rparr>)]"

lemma hton64_ether:
  "drop_bit 48 (hton64 33024) = 129" "drop_bit 48 (hton64 2048) = 8"
  by code_simp+

lemma l3_translate:
  assumes "l3_names p"
  shows "translate_lines p None l3_apply = Inr l3_lines"
  unfolding l3_apply_def l3_lines_def
  by (simp add: l3_tokens l3_fields l3_instrs l3_namesD [OF assms] hton64_ether)

lemma l3_send_translate:
  assumes "l3_names p" and "ac_st a = Some send_arg_t"
  shows "translate_lines p (Some a) l3_send = Inr l3_send_lines"
  unfolding l3_send_def l3_send_lines_def
  by (simp add: l3_tokens l3_fields l3_instrs l3_namesD [OF assms(1)] assms(2))

lemma l3_drop_translate:
  assumes "l3_names p"
  shows "translate_lines p (Some a) l3_drop_1 = Inr l3_drop_lines"
  unfolding l3_drop_1_def l3_drop_lines_def
  by (simp add: l3_tokens l3_fields l3_instrs l3_namesD [OF assms])

lemma l3_noaction_translate:
  "translate_lines p (Some a) l3_NoAction = Inr [(Plain INSTR_RETURN, \<lparr>id_label = [], id_jmp_label = [], id_n_users = 0, id_invalid = False\<rparr>)]"
  unfolding l3_NoAction_def by (simp add: l3_tokens l3_instrs)

section \<open>The instructions in memory\<close>

text \<open>The pipeline at address 0, with the three emissions and the transmission fused.\<close>

definition l3_code :: "instruction list" where
  "l3_code =
     [Io INSTR_RX (io_zero\<lparr>io_n_bits := 32\<rparr>),
      Mov INSTR_MOV_I \<lparr>ds_dst = opnd 4 8 4, ds_src = no_operand, ds_src_val = 1\<rparr>,
      Io INSTR_HDR_EXTRACT (io_header h_ethernet 14),
      Jmp INSTR_JMP_EQ_I (jmp_zero\<lparr>jmp_a := opnd 1 16 12, jmp_b_val := 129, jmp_ip := 6\<rparr>),
      Jmp INSTR_JMP_EQ_I (jmp_zero\<lparr>jmp_a := opnd 1 16 12, jmp_b_val := 8, jmp_ip := 9\<rparr>),
      Jmp INSTR_JMP (jmp_zero\<lparr>jmp_ip := 10\<rparr>),
      Io INSTR_HDR_EXTRACT (io_header h_vlan_tag 4),
      Jmp INSTR_JMP_EQ_I (jmp_zero\<lparr>jmp_a := opnd 2 16 2, jmp_b_val := 8, jmp_ip := 9\<rparr>),
      Jmp INSTR_JMP (jmp_zero\<lparr>jmp_ip := 10\<rparr>),
      Io INSTR_HDR_EXTRACT (io_header h_ipv4 20),
      Table 0,
      Jmp INSTR_JMP_NEQ_I (jmp_zero\<lparr>jmp_a := opnd 4 8 4, jmp_b_val := 0, jmp_ip := 13\<rparr>),
      Io INSTR_HDR_EMIT3_TX ((io_hdrs 1 [io_header h_vlan_tag 4, io_header h_ipv4 20] (io_header h_ethernet 14))\<lparr>io_offset := 5, io_n_bits := 32\<rparr>),
      Plain INSTR_DROP]"

text \<open>The same without the optimiser.\<close>

definition l3_code_plain :: "instruction list" where
  "l3_code_plain =
     [Io INSTR_RX (io_zero\<lparr>io_n_bits := 32\<rparr>),
      Mov INSTR_MOV_I \<lparr>ds_dst = opnd 4 8 4, ds_src = no_operand, ds_src_val = 1\<rparr>,
      Io INSTR_HDR_EXTRACT (io_header h_ethernet 14),
      Jmp INSTR_JMP_EQ_I (jmp_zero\<lparr>jmp_a := opnd 1 16 12, jmp_b_val := 129, jmp_ip := 6\<rparr>),
      Jmp INSTR_JMP_EQ_I (jmp_zero\<lparr>jmp_a := opnd 1 16 12, jmp_b_val := 8, jmp_ip := 9\<rparr>),
      Jmp INSTR_JMP (jmp_zero\<lparr>jmp_ip := 10\<rparr>),
      Io INSTR_HDR_EXTRACT (io_header h_vlan_tag 4),
      Jmp INSTR_JMP_EQ_I (jmp_zero\<lparr>jmp_a := opnd 2 16 2, jmp_b_val := 8, jmp_ip := 9\<rparr>),
      Jmp INSTR_JMP (jmp_zero\<lparr>jmp_ip := 10\<rparr>),
      Io INSTR_HDR_EXTRACT (io_header h_ipv4 20),
      Table 0,
      Jmp INSTR_JMP_NEQ_I (jmp_zero\<lparr>jmp_a := opnd 4 8 4, jmp_b_val := 0, jmp_ip := 16\<rparr>),
      Io INSTR_HDR_EMIT (io_header h_ethernet 14),
      Io INSTR_HDR_EMIT (io_header h_vlan_tag 4),
      Io INSTR_HDR_EMIT (io_header h_ipv4 20),
      Io INSTR_TX (io_zero\<lparr>io_offset := 5, io_n_bits := 32\<rparr>),
      Plain INSTR_DROP]"

definition l3_send_code :: "instruction list" where
  "l3_send_code =
     [Mov INSTR_MOV \<lparr>ds_dst = opnd 4 32 5, ds_src = opnd 0 32 0, ds_src_val = 0\<rparr>,
      Mov INSTR_MOV_I \<lparr>ds_dst = opnd 4 8 4, ds_src = no_operand, ds_src_val = 0\<rparr>,
      Mov INSTR_MOV_HM \<lparr>ds_dst = opnd 3 32 12, ds_src = opnd 0 32 4, ds_src_val = 0\<rparr>,
      Plain INSTR_RETURN]"

definition l3_drop_code :: "instruction list" where
  "l3_drop_code =
     [Mov INSTR_MOV_I \<lparr>ds_dst = opnd 4 8 4, ds_src = no_operand, ds_src_val = 1\<rparr>,
      Plain INSTR_RETURN]"

lemmas l3_config = instr_label_check_def label_is_used_def instr_verify_def is_rx_def instruction_is_tx_def is_jmp_uncond_def is_return_def
  instr_optimize_def extract_many_optimize_def extract_many_search_def is_extract_def extract_many_replace_def invalidate_line_def
  instr_compact_def emit_many_tx_optimize_def emit_many_tx_search_def is_emit_def is_tx_def emit_many_tx_replace_def tx_merge_def
  validate_mov_all_optimize_def dma_many_optimize_def dma_many_search_def is_dma_def instr_jmp_resolve_def resolve_line_def aget_def Let_def

lemma l3_label_check:
  "instr_label_check l3_lines = Some (map (\<lambda>(i, d). (i, d\<lparr>id_n_users := label_is_used (map snd l3_lines) (id_label d)\<rparr>)) l3_lines)"
  by (simp add: instr_label_check_def l3_lines_def Let_def)

lemma io_merge_emit3:
  "io_merge (Suc (Suc 0)) (io_merge (Suc 0) (Io INSTR_HDR_EMIT a) (Io INSTR_HDR_EMIT b)) (Io INSTR_HDR_EMIT c) = Io INSTR_HDR_EMIT2_TX (io_hdrs 1 [b, c] a)"
  using merge_all_io [of 1 INSTR_HDR_EMIT a INSTR_HDR_EMIT "[b, c]"] by (simp add: eval_nat_numeral)

lemma l3_instruction_config: "instruction_config False hs None 0 l3_lines = Inr (l3_code, None)"
  unfolding instruction_config_def l3_label_check
  by (simp add: l3_lines_def l3_code_def l3_config io_merge_emit3 io_zero_def)

lemma l3_plain: "instruction_config_plain False 0 l3_lines = Some l3_code_plain"
  unfolding instruction_config_plain_def l3_label_check
  by (simp add: l3_lines_def l3_code_plain_def l3_config)

end
