(* ===== verification/SwxProgram.thy ===== *)
theory SwxProgram
  imports SwxSound SwxL3
begin

text \<open>
  From the text of a program to what runs: the translated lines are well-typed, what the configuration puts
  in memory is closed under control flow, and the optimiser cannot be observed. The switch program of
  the repository is the concrete case. Behind them, programs that the configuration accepts although it should not.
\<close>

section \<open>Translated lines\<close>

lemma translate_lines_set:
  "translate_lines p action texts = Inr ls \<Longrightarrow> l \<in> set ls \<Longrightarrow> \<exists>text \<in> set texts. instr_translate p action text = Inr l"
  by (induction texts arbitrary: ls) (auto simp: tr_simps)

lemma translate_lines_typed:
  assumes "pspec_ok p" and "action_ok action" and "pspec_small p" and "translate_lines p action texts = Inr ls"
  shows "\<forall>l \<in> set ls. instr_typed p action (fst l)"
  using translate_lines_set [OF assms(4)] instr_translate_line(1) [OF assms(1-3)] by blast

lemma translate_lines_translated:
  assumes "pspec_ok p" and "action_ok action" and "pspec_small p" and "translate_lines p action texts = Inr ls"
  shows "translated ls"
  using translate_lines_typed [OF assms] translate_lines_set [OF assms(4)] instr_translate_line(2,3) [OF assms(1-3)] typed_not_dma
  unfolding translated_def jumps_labelled_def by metis

lemma program_config_Inr:
  assumes "program_config p action base texts = Inr r"
  obtains ls where "translate_lines p action texts = Inr ls"
    and "instruction_config (action \<noteq> None) (ps_headers p) (args_of action) base ls = Inr r"
proof (cases "translate_lines p action texts")
  case (Inl e)
  then show ?thesis using assms by (simp add: program_config_def split: if_splits)
next
  case (Inr ls)
  then have "map_sum PROG_CONFIG id (instruction_config (action \<noteq> None) (ps_headers p) (args_of action) base ls) = Inr r"
    using assms by (simp add: program_config_def split: if_splits)
  then have "instruction_config (action \<noteq> None) (ps_headers p) (args_of action) base ls = Inr r"
    by (cases "instruction_config (action \<noteq> None) (ps_headers p) (args_of action) base ls") simp_all
  then show ?thesis using that Inr by blast
qed

section \<open>Closed programs\<close>

text \<open>Every instruction of a segment at \<open>b\<close> goes on inside of the segment, to the start, to an action or back from it.\<close>

definition seg_closed :: "nat \<Rightarrow> instruction list \<Rightarrow> bool" where
  "seg_closed b is \<longleftrightarrow> (\<forall>k < length is. next_ips (b + k) (is ! k) \<subseteq> {b ..< b + length is})"

text \<open>An instruction that does not go on to the next one.\<close>

definition stops :: "instruction \<Rightarrow> bool" where
  "stops i \<longleftrightarrow> instruction_does_tx i \<or> is_return i \<or> is_jmp_uncond i"

lemma next_plain: "\<not> instruction_is_jmp i \<Longrightarrow> next_ips a i \<subseteq> {a + 1}"
  by (auto simp: next_ips_def instruction_is_jmp_def split: instruction.splits if_splits)

lemma next_stops: "stops i \<Longrightarrow> \<not> instruction_is_jmp i \<Longrightarrow> next_ips a i = {}"
  by (auto simp: stops_def next_ips_def instruction_is_jmp_def instruction_does_tx_def is_return_def is_jmp_uncond_def
      split: instruction.splits plain_type.splits)

lemma label_find_less: "label_find ds lb = Some j \<Longrightarrow> j < length ds"
  by (induction ds arbitrary: j) (auto split: if_splits)

lemma resolve_line_cases:
  assumes "resolve_line b ds l = Some i"
  obtains "i = fst l" "\<not> instruction_is_jmp i" | ty ip j where "fst l = Jmp ty ip" "i = Jmp ty (ip\<lparr>jmp_ip := b + j\<rparr>)" "j < length ds"
  using assms by (cases l; cases "fst l") (auto simp: resolve_line_def instruction_is_jmp_def dest: label_find_less split: option.splits)

lemma resolve_closed:
  assumes res: "instr_jmp_resolve b ls = Some is" and ne: "ls \<noteq> []" and last: "stops (fst (last ls))"
  shows "seg_closed b is"
  unfolding seg_closed_def
proof (intro allI impI)
  fix k assume k: "k < length is"
  have len: "length is = length ls" using resolve_length [OF res] .
  have r: "resolve_line b (map snd ls) (ls ! k) = Some (is ! k)"
    using res k len by (simp add: instr_jmp_resolve_def resolve_loop_Some)
  have stop: "stops (fst (ls ! k))" if "\<not> Suc k < length is"
  proof -
    have "k = length ls - 1" using that k len by linarith
    then show ?thesis using last ne by (simp add: last_conv_nth)
  qed
  from r show "next_ips (b + k) (is ! k) \<subseteq> {b ..< b + length is}"
  proof (cases rule: resolve_line_cases)
    case 1
    then show ?thesis using next_plain [of "is ! k" "b + k"] next_stops [of "is ! k" "b + k"] stop
      by (cases "Suc k < length is") auto
  next
    case (2 ty ip j)
    have "Suc k < length is \<or> ty = INSTR_JMP"
      using stop 2(1) by (auto simp: stops_def instruction_does_tx_def is_return_def is_jmp_uncond_def)
    then show ?thesis using 2 len by (auto simp: next_ips_def)
  qed
qed

lemma stops_fuse_extract:
  assumes "many_group is_extract g" and "stops (fst (last g))"
  shows "fuse_extract g = last g"
proof -
  have "\<not> is_extract (fst (last g))"
    using assms(2) by (auto simp: stops_def is_extract_def instruction_does_tx_def is_return_def is_jmp_uncond_def
        split: instruction.splits)
  then have "\<not> 1 < length g" using many_group_kind [OF assms(1)] many_group_ne [OF assms(1)] last_in_set by blast
  then obtain l where "g = [l]" using many_group_ne [OF assms(1)] by (cases g) auto
  then show ?thesis by (simp add: opt_extract.fuse_single)
qed

lemma emit_types_tx:
  "n < 8 \<Longrightarrow> instruction_does_tx (Io (io_type_inc ((io_type_inc ^^ n) INSTR_HDR_EMIT)) m)"
  by (auto simp: less_Suc_eq eval_nat_numeral instruction_does_tx_def)

lemma stops_fuse_emit:
  assumes "emit_group g" and "stops (fst (last g))"
  shows "stops (fst (fuse_emit g))"
proof (cases "1 < length g")
  case True
  then obtain a bs c where ios: "map fst (butlast g) = map (Io INSTR_HDR_EMIT) (a # bs)" "fst (last g) = Io INSTR_TX c"
    by (rule emit_group_ios [OF assms(1)])
  have "length (a # bs) = length g - 1" using ios(1) by (metis length_butlast length_map)
  moreover have "length g \<le> 9" using assms(1) by (auto simp: emit_group_def)
  ultimately have "length bs < 8" by simp
  from emit_types_tx [OF this] show ?thesis by (simp add: fuse_emit_io [OF ios] stops_def)
next
  case False
  then obtain l where "g = [l]" using emit_group_ne [OF assms(1)] by (cases g) auto
  then show ?thesis using assms(2) by (simp add: opt_emit.fuse_single)
qed

lemma last_groups: "\<forall>g \<in> set gs. g \<noteq> [] \<Longrightarrow> gs \<noteq> [] \<Longrightarrow> last (concat gs) = last (last gs)"
  by (induction gs) (auto simp: last_append)

text \<open>The passes that work for an action with arguments leave a last line that stops where it is.\<close>

lemma stops_not_fused:
  assumes "stops i"
  shows "\<not> is_extract i" "\<not> is_dma i" "\<not> is_emit i" "i \<noteq> Valid vty v" "i \<noteq> Mov mty mv"
  using assms by (auto simp: stops_def is_extract_def is_dma_def is_emit_def instruction_does_tx_def is_return_def is_jmp_uncond_def
      split: instruction.splits)

lemma dma_loop_last:
  "ls \<noteq> [] \<Longrightarrow> \<not> is_dma (fst (last ls)) \<Longrightarrow> dma_many_loop ls \<noteq> [] \<and> last (dma_many_loop ls) = last ls"
proof (induction ls rule: dma_many_loop.induct)
  case (2 l ls)
  show ?case
  proof (cases "dma_many_search (l # ls)")
    case None
    then show ?thesis using "2.IH"(1) [OF None] "2.prems" by (cases ls) auto
  next
    case (Some n)
    then have n: "n = many_len is_dma 0 (l # ls)" "2 \<le> n"
      unfolding dma_many_search_def Let_def by (auto simp del: many_len.simps split: if_splits)
    then have g: "many_group is_dma (take n (l # ls))" "n \<le> length (l # ls)" using many_group_search by metis+
    then have all: "\<forall>x \<in> set (take n (l # ls)). is_dma (fst x)"
      using many_group_kind [OF g(1)] n(2) by (simp add: min_def)
    have "n \<noteq> length (l # ls)"
    proof
      assume "n = length (l # ls)"
      then have "last (l # ls) \<in> set (take n (l # ls))" by simp
      then show False using all "2.prems"(2) by blast
    qed
    then have d: "drop n (l # ls) \<noteq> []" "last (drop n (l # ls)) = last (l # ls)" using g(2) by (simp_all add: last_drop)
    then show ?thesis using "2.IH"(2) [OF Some d(1)] "2.prems" Some by (simp add: last_append)
  qed
qed simp

lemma mov_matches_mov: "mov_matches h st j i l \<Longrightarrow> \<exists>ip. fst l = Mov INSTR_MOV_HM ip"
  by (cases l; cases "fst l") (auto simp: mov_matches_def)

lemma validate_search_fields:
  assumes "validate_mov_all_search hs st k ls = Some n"
  obtains vty v mty mv d0 d1 rest and h :: header_type where "drop k ls = (Valid vty v, d0) # (Mov mty mv, d1) # rest"
    and "n = 1 + length (s_fields (h_st h))" and "n \<le> length ls - k"
    and "\<forall>i < length (s_fields (h_st h)). \<exists>ip. fst (ls ! (k + 1 + i)) = Mov INSTR_MOV_HM ip"
proof -
  from assms obtain vty v mty mv d0 d1 rest where d: "drop k ls = (Valid vty v, d0) # (Mov mty mv, d1) # rest"
    by (auto simp: validate_mov_all_search_def split: list.splits prod.splits instruction.splits)
  from assms obtain h where "n = 1 + length (s_fields (h_st h))" "n \<le> length ls - k"
      "list_all (\<lambda>i. mov_matches h st (field_at st (op_offset (ds_src mv))) i (ls ! (k + 1 + i))) [0 ..< length (s_fields (h_st h))]"
    by (auto simp: validate_mov_all_search_def d Let_def split: if_splits option.splits)
  then show ?thesis using that [OF d, of h] mov_matches_mov unfolding list_all_iff set_upt by fastforce
qed

lemma validate_search_last:
  assumes "validate_mov_all_search hs st k ls = Some n" and last: "stops (fst (last ls))"
  shows "k + n < length ls"
proof -
  from assms(1) obtain vty v mty mv d0 d1 rest and h :: header_type where d: "drop k ls = (Valid vty v, d0) # (Mov mty mv, d1) # rest"
    and n: "n = 1 + length (s_fields (h_st h))" "n \<le> length ls - k"
      "\<forall>i < length (s_fields (h_st h)). \<exists>ip. fst (ls ! (k + 1 + i)) = Mov INSTR_MOV_HM ip"
    by (rule validate_search_fields)
  have "length (drop k ls) = Suc (Suc (length rest))" by (simp add: d)
  then have k: "Suc k < length ls" by simp
  have "k + n \<noteq> length ls"
  proof
    assume e: "k + n = length ls"
    then obtain i where i: "length (s_fields (h_st h)) = Suc i" using k n(1) by (cases "length (s_fields (h_st h))") auto
    have "ls \<noteq> []" "length ls - 1 = k + 1 + i" using e n(1) i k by auto
    then have "last ls = ls ! (k + 1 + i)" by (simp add: last_conv_nth)
    then show False using n(3) i stops_not_fused(5) [OF last] by (metis lessI)
  qed
  then show ?thesis using n(2) k by linarith
qed

lemma validate_replace_last:
  assumes "k + n < length ls"
  shows "fst (validate_mov_all_replace hs a k n ls) \<noteq> [] \<and> last (fst (validate_mov_all_replace hs a k n ls)) = last ls"
  using assms by (auto simp: validate_mov_all_replace_def Let_def last_drop last_append split: instruction.split prod.split option.split)

lemma validate_loop_last:
  "ls \<noteq> [] \<Longrightarrow> stops (fst (last ls)) \<Longrightarrow>
   fst (validate_mov_all_loop fuel hs a k ls) \<noteq> [] \<and> last (fst (validate_mov_all_loop fuel hs a k ls)) = last ls"
proof (induction fuel arbitrary: a k ls)
  case (Suc fuel)
  show ?case
  proof (cases "validate_mov_all_search hs (a_st a) k ls")
    case None
    then show ?thesis using Suc by simp
  next
    case (Some n)
    obtain l2 a2 where r: "validate_mov_all_replace hs a k n ls = (l2, a2)" by fastforce
    have "l2 \<noteq> []" "last l2 = last ls"
      using validate_replace_last [OF validate_search_last [OF Some Suc.prems(2)], of hs a] r by simp_all
    then show ?thesis using Suc.IH [of l2 a2 "k + n"] Suc.prems by (simp add: Some r)
  qed
qed simp

lemma compact_last:
  "ls \<noteq> [] \<Longrightarrow> \<not> id_invalid (snd (last ls)) \<Longrightarrow> instr_compact ls \<noteq> [] \<and> last (instr_compact ls) = last ls"
  by (induction ls) (auto simp: instr_compact_def split: if_splits)

lemma optimize_last:
  assumes opt: "instr_optimize hs a ls = Some (ls', a')" and valid: "\<forall>l \<in> set ls. \<not> id_invalid (snd l)"
    and ne: "ls \<noteq> []" and last: "stops (fst (last ls))"
  shows "ls' \<noteq> []" and "stops (fst (last ls'))"
proof -
  from valid obtain gs where gs: "concat gs = ls" "extract_many_optimize ls = map fuse_extract gs" "\<forall>g \<in> set gs. many_group is_extract g"
    using extract_optimize_groups by blast
  have ge: "gs \<noteq> []" "\<forall>g \<in> set gs. g \<noteq> []" using gs ne many_group_ne by auto
  have l1: "last (map fuse_extract gs) = last ls"
    using stops_fuse_extract [of "last gs"] last last_groups [OF ge(2,1)] gs(1,3) ge(1) by (simp add: last_map)
  have v1: "\<forall>l \<in> set (map fuse_extract gs). \<not> id_invalid (snd l)"
  proof
    fix l assume "l \<in> set (map fuse_extract gs)"
    then obtain g where g: "g \<in> set gs" "l = fuse_extract g" by auto
    then have "g \<noteq> []" using ge(2) by blast
    then have "snd l = snd (hd g)" "hd g \<in> set ls" using snd_fuse_extract g gs(1) by (simp, force)
    then show "\<not> id_invalid (snd l)" using valid by simp
  qed
  from opt obtain l2 where l2: "emit_many_tx_optimize (map fuse_extract gs) = Some l2"
      "ls' = dma_many_optimize (fst (validate_mov_all_optimize hs a l2))"
    by (auto simp: instr_optimize_def gs(2) split: option.splits prod.splits)
  from emit_optimize_groups [OF l2(1) v1] obtain gs2 where
      gs2: "concat gs2 = map fuse_extract gs" "l2 = map fuse_emit gs2" "\<forall>g \<in> set gs2. emit_group g" by blast
  have ge2: "gs2 \<noteq> []" "\<forall>g \<in> set gs2. g \<noteq> []" using gs2 ge(1) emit_group_ne by auto
  have ll: "stops (fst (last (last gs2)))" using last l1 last_groups [OF ge2(2,1)] gs2(1) by simp
  then have l3: "l2 \<noteq> []" "stops (fst (last l2))"
    using stops_fuse_emit [of "last gs2"] gs2(2,3) ge2(1) by (simp_all add: last_map)
  have "\<not> id_invalid (snd (last l2))"
  proof -
    have "last gs2 \<noteq> []" "last gs2 \<in> set gs2" using ge2 by simp_all
    then have "hd (last gs2) \<in> set (map fuse_extract gs)" using gs2(1) by (metis UN_I hd_in_set set_concat)
    then show ?thesis using v1 snd_fuse_emit [OF \<open>last gs2 \<noteq> []\<close>] gs2(2) ge2(1) by (simp add: last_map del: set_map)
  qed
  then have l4: "fst (validate_mov_all_optimize hs a l2) \<noteq> []" "last (fst (validate_mov_all_optimize hs a l2)) = last l2"
    using l3 validate_loop_last [OF l3, of "length l2" hs _ 0]
    by (auto simp: validate_mov_all_optimize_def split: option.split prod.split)
      (metis compact_last fst_conv)+
  let ?l4 = "fst (validate_mov_all_optimize hs a l2)"
  have "dma_many_loop ?l4 \<noteq> [] \<and> last (dma_many_loop ?l4) = last l2"
    using dma_loop_last [OF l4(1)] l4(2) stops_not_fused(2) [OF l3(2)] by simp
  then have "ls' \<noteq> [] \<and> last ls' = last l2"
    using compact_last [of "dma_many_loop ?l4"] \<open>\<not> id_invalid (snd (last l2))\<close> by (simp add: l2(2) dma_many_optimize_def)
  then show "ls' \<noteq> []" "stops (fst (last ls'))" using l3(2) by simp_all
qed

text \<open>A list of lines whose last one stops is closed when it has gone through the configuration.\<close>

lemma config_closed:
  assumes cfg: "instruction_config action hs a b ls = Inr (is', a')" and tr: "translated ls" and last: "stops (fst (last ls))"
  shows "seg_closed b is'" and "is' \<noteq> []"
proof -
  from cfg obtain lc ls' where c: "ls \<noteq> []" "instr_label_check ls = Some lc" "instr_optimize hs a lc = Some (ls', a')"
      "instr_jmp_resolve b ls' = Some is'"
    by (auto simp: instruction_config_def split: if_splits option.splits)
  have f: "map fst lc = map fst ls" "length lc = length ls" using label_check_fst [OF c(2)] .
  then have ne: "lc \<noteq> []" using c(1) by auto
  have "fst (last lc) = fst (last ls)" using f(1) ne c(1) by (metis last_map)
  moreover have "\<forall>l \<in> set lc. \<not> id_invalid (snd l)" using label_check_ok(1) [OF c(2) tr] by (simp add: lines_ok_def)
  ultimately have o: "ls' \<noteq> []" "stops (fst (last ls'))" using optimize_last [OF c(3) _ ne] last by simp_all
  show "seg_closed b is'" by (rule resolve_closed [OF c(4) o])
  show "is' \<noteq> []" using resolve_length [OF c(4)] o(1) by auto
qed

lemma verified_stops: "instr_verify False is \<Longrightarrow> stops (last is)"
  by (auto simp: instr_verify_def stops_def instruction_does_tx_def instruction_is_tx_def split: instruction.splits)


lemma resolve_hd_rx:
  assumes "instr_jmp_resolve b ls = Some is" and "ls \<noteq> []" and "is_rx (fst (hd ls))"
  shows "is_rx (hd is)"
proof -
  obtain l rest where ls: "ls = l # rest" using assms(2) by (cases ls) auto
  then obtain i rest' where "is": "is = i # rest'" "resolve_line b (map snd ls) l = Some i"
    using assms(1) by (auto simp: instr_jmp_resolve_def split: option.splits)
  from "is"(2) have "is_rx i" using assms(3)
    by (cases rule: resolve_line_cases) (auto simp: ls is_rx_def)
  then show ?thesis by (simp add: "is")
qed

lemma hd_rx_emit_groups:
  assumes "\<forall>g \<in> set gs. emit_group g" and "is_rx (fst (hd (concat gs)))" and "gs \<noteq> []"
  shows "is_rx (fst (hd (map fuse_emit gs)))"
proof -
  obtain g rest where gs: "gs = g # rest" using assms(3) by (cases gs) auto
  have g: "emit_group g" "g \<noteq> []" using assms(1) emit_group_ne by (auto simp: gs)
  then have rx: "is_rx (fst (hd g))" using assms(2) by (simp add: gs hd_append)
  have "\<not> 1 < length g" using emit_group_kind [OF g(1), of "hd g"] g(2) rx
    by (auto simp: is_rx_def is_emit_def is_tx_def split: instruction.splits)
  then have "g = [hd g]" using g(2) by (cases g) auto
  then show ?thesis using opt_emit.fuse_single rx by (simp add: gs) metis
qed

lemma config_rx:
  assumes cfg: "instruction_config False hs None b ls = Inr (is', a)" and tr: "translated ls"
  shows "is_rx (hd is')" and "stops (fst (last ls))"
proof -
  from cfg tr obtain lc gs gs2 where c: "instr_label_check ls = Some lc" "concat gs = lc" "length lc = length ls"
    "\<forall>g \<in> set gs. many_group is_extract g" "concat gs2 = map fuse_extract gs" "\<forall>g \<in> set gs2. emit_group g"
    "instr_jmp_resolve b (map fuse_emit gs2) = Some is'" "is_rx (fst (hd lc))" "lc \<noteq> []"
    using config_passes [OF cfg tr] by (metis (full_types))
  have ne: "gs \<noteq> []" "gs2 \<noteq> []" using c(2,5,9) by auto
  have "is_rx (fst (hd (map fuse_extract gs)))" by (rule hd_rx_groups [OF c(4)]) (use c in simp_all)
  then have "is_rx (fst (hd (map fuse_emit gs2)))" using hd_rx_emit_groups [OF c(6) _ ne(2)] c(5) by simp
  then show "is_rx (hd is')" using resolve_hd_rx [OF c(7)] ne(2) by simp
  from cfg have "instr_verify False (map fst lc)" "ls \<noteq> []"
    by (auto simp: instruction_config_def c(1) split: if_splits option.splits)
  then show "stops (fst (last ls))"
    using verified_stops label_check_fst(1) [OF c(1)] by (metis last_map)
qed

section \<open>Segments in memory\<close>

text \<open>The pipeline and the actions in the address space: instruction lists with their addresses.\<close>

fun load :: "(nat \<times> instruction list) list \<Rightarrow> nat \<Rightarrow> instruction option" where
  "load [] a = None"
| "load ((b, is) # segs) a = place b (length is) is (load segs) a"

definition segs_range :: "(nat \<times> instruction list) list \<Rightarrow> nat set" where
  "segs_range segs = (\<Union>(b, is) \<in> set segs. {b ..< b + length is})"

lemma load_closed:
  assumes "\<forall>(b, is) \<in> set segs. seg_closed b is" and "a \<in> segs_range segs"
  shows "\<exists>i. load segs a = Some i \<and> next_ips a i \<subseteq> segs_range segs"
  using assms
proof (induction segs)
  case (Cons seg segs)
  obtain b "is" where seg: "seg = (b, is)" by (cases seg)
  show ?case
  proof (cases "b \<le> a \<and> a < b + length is")
    case True
    have "seg_closed b is" using Cons.prems(1) by (simp add: seg)
    from this [unfolded seg_closed_def, rule_format, of "a - b"] True
    have "next_ips a (is ! (a - b)) \<subseteq> {b ..< b + length is}" by (simp add: less_diff_conv2)
    then show ?thesis using True by (auto simp: seg place_def segs_range_def)
  next
    case False
    then have "a \<in> segs_range segs" using Cons.prems(2) by (auto simp: seg segs_range_def)
    then obtain i where "load segs a = Some i" "next_ips a i \<subseteq> segs_range segs" using Cons by auto
    then show ?thesis using False by (auto simp: seg place_def segs_range_def)
  qed
qed (simp add: segs_range_def)

lemma load_code_closed:
  assumes "\<forall>(b, is) \<in> set segs. seg_closed b is" and "segs = (0, main) # rest" and "main \<noteq> []" and "is_rx (hd main)"
  shows "code_closed (segs_range segs) (load segs)"
proof -
  have "0 \<in> segs_range segs" using assms(2,3) by (auto simp: segs_range_def)
  moreover have "\<exists>io. load segs 0 = Some (Io INSTR_RX io)"
    using assms(2-4) by (auto simp: place_def hd_conv_nth is_rx_def split: instruction.splits)
  ultimately show ?thesis using load_closed [OF assms(1)] by (auto simp: code_closed_def)
qed

lemma configured_closed:
  assumes "pspec_ok p" and "action_ok action" and "pspec_small p"
    and cfg: "program_config p action b texts = Inr (is, a)"
    and last: "action \<noteq> None \<longrightarrow> (\<exists>l. instr_translate p action (last texts) = Inr l \<and> stops (fst l))"
  shows "is \<noteq> [] \<and> seg_closed b is \<and> (action = None \<longrightarrow> is_rx (hd is))"
proof -
  from cfg obtain ls where ls: "translate_lines p action texts = Inr ls"
    "instruction_config (action \<noteq> None) (ps_headers p) (args_of action) b ls = Inr (is, a)"
    by (rule program_config_Inr)
  have tr: "translated ls" by (rule translate_lines_translated [OF assms(1-3) ls(1)])
  have ne: "texts \<noteq> []" using cfg by (auto simp: program_config_def)
  show ?thesis
  proof (cases action)
    case None
    then have "instruction_config False (ps_headers p) None b ls = Inr (is, a)" using ls(2) by (simp add: args_of_def)
    from config_rx [OF this tr] config_closed [OF this tr] show ?thesis by simp
  next
    case (Some ac)
    then obtain l where l: "instr_translate p action (last texts) = Inr l" "stops (fst l)" using last by blast
    have "translate_lines p action ts = Inr us \<Longrightarrow> ts \<noteq> [] \<Longrightarrow> us \<noteq> [] \<and> instr_translate p action (last ts) = Inr (last us)" for ts us
      by (induction ts arbitrary: us) (auto simp: tr_simps split: if_splits)
    from this [OF ls(1) ne] l have "stops (fst (last ls))" by auto
    from config_closed [OF ls(2) tr this] Some show ?thesis by simp
  qed
qed

section \<open>Properties of translated programs\<close>

text \<open>
  C4: the translation is sound. On a specification that the registrations built, and with at most 256 tables,
  arrays, functions and actions (their numbers are stored in a byte), every line that the translation
  accepts becomes an instruction that is well-typed: its operands lie in the structure that they name and are
  whole bytes of at most 64 bits, headers are accessed in the byte order of the instruction's type, and every
  identifier is in range. A jump has a label.
\<close>

theorem translated_lines_are_well_typed:
  assumes "pspec_ok p" and "action_ok action" and "pspec_small p" and "translate_lines p action texts = Inr ls"
    and "l \<in> set ls"
  shows "instr_typed p action (fst l) \<and> (instruction_is_jmp (fst l) \<longrightarrow> id_jmp_label (snd l) \<noteq> [])"
  using translate_lines_typed [OF assms(1-4)] translate_lines_translated [OF assms(1-4)] assms(5)
  unfolding translated_def jumps_labelled_def by blast

text \<open>
  C3: a program that the configuration accepts stays within its code. From no instruction of the pipeline
  does control go on to an address outside of it, except to an action, and the first instruction is the
  reception. For an action this holds when its last line is a return, a transmission or an unconditional
  jump, which the code does not check.
\<close>

theorem configured_program_is_closed:
  assumes "pspec_ok p" and "action_ok action" and "pspec_small p"
    and cfg: "program_config p action b texts = Inr (is, a)"
    and last: "action \<noteq> None \<longrightarrow> (\<exists>l. instr_translate p action (last texts) = Inr l \<and> stops (fst l))"
  shows "is \<noteq> [] \<and> seg_closed b is \<and> (action = None \<longrightarrow> is_rx (hd is))"
  using assms by (rule configured_closed)

section \<open>The optimiser on the text of a program\<close>

text \<open>The configuration without the optimiser.\<close>

definition program_config_plain :: "pspec \<Rightarrow> action_type option \<Rightarrow> nat \<Rightarrow> string list \<Rightarrow> instruction list option" where
  "program_config_plain p action base texts =
     (case translate_lines p action texts of
        Inl _ \<Rightarrow> None
      | Inr ls \<Rightarrow> instruction_config_plain (action \<noteq> None) base ls)"

lemma translate_lines_length: "translate_lines p action texts = Inr ls \<Longrightarrow> length ls = length texts"
  by (induction texts arbitrary: ls) (auto simp: tr_simps)

text \<open>
  C2: what the optimiser does to a program without action arguments cannot be observed. Take a pipeline
  whose memory holds, at \<open>b\<close>, what the configuration makes of a text, extractions and emissions fused;
  no other code jumps into the middle of it, and the threads are elsewhere. If it runs for \<open>n\<close>
  instructions, then the program as it was written, put at the same place, runs as well, for at
  least as many instructions, to a state that only differs in the code and the instruction pointers: the same
  packets sent, the same memory, tables, statistics, registers and meters.
\<close>

theorem optimiser_is_unobservable:
  assumes "pspec_ok p" and "action_ok action" and "pspec_small p"
    and cfg: "program_config p action b texts = Inr (is', a)" and args: "args_of action = None"
    and base: "action \<noteq> None \<longrightarrow> b \<noteq> 0"
    and jumps: "jumps_outside b (length texts) other"
    and acts: "\<forall>x \<in> set (sw_action_instructions s). outside b (length texts) x"
    and thr: "threads_outside b (length texts) s"
    and code: "sw_code s = place b (length texts) is' other"
    and few: "\<forall>m < n. \<forall>u. rte_swx_pipeline_run m s = Inr u \<longrightarrow> few_headers u"
    and run: "rte_swx_pipeline_run n s = Inr t"
  shows "\<exists>is m t'. program_config_plain p action b texts = Some is \<and> n \<le> m \<and>
    rte_swx_pipeline_run m (s\<lparr>sw_code := place b (length texts) is other\<rparr>) = Inr t' \<and> erase t' = erase t"
proof -
  from cfg obtain ls where ls: "translate_lines p action texts = Inr ls"
    "instruction_config (action \<noteq> None) (ps_headers p) None b ls = Inr (is', a)"
    by (rule program_config_Inr) (simp add: args)
  have tr: "translated ls" by (rule translate_lines_translated [OF assms(1-3) ls(1)])
  have len: "length ls = length texts" using translate_lines_length [OF ls(1)] .
  have "program_config_plain p action b texts = instruction_config_plain (action \<noteq> None) b ls"
    by (simp add: program_config_plain_def ls(1))
  then show ?thesis
    using optimised_program_runs_as_written [OF ls(2) tr base, of other s n t] jumps acts thr code few run len by simp
qed

section \<open>Programs that the configuration should not accept\<close>

lemma emit_search_trailing:
  assumes "emit_many_tx_search ls = Some (Some n)" and "is_emit (fst (last ls))"
  shows "drop n ls \<noteq> [] \<and> last (drop n ls) = last ls"
proof -
  from assms(1) obtain ins d where a: "aget ls (n - 1) = Some (ins, d)" "is_tx ins" "0 < n"
    unfolding emit_many_tx_search_def Let_def by (auto split: if_splits option.splits prod.splits)
  then have n: "n - 1 < length ls" "fst (ls ! (n - 1)) = ins" by (auto simp: aget_Some_iff)
  have "n \<noteq> length ls"
  proof
    assume e: "n = length ls"
    then have "last ls = ls ! (n - 1)" using a(3) by (cases ls) (simp_all add: last_conv_nth)
    then show False using assms(2) a(2) n(2) by (auto simp: is_emit_def is_tx_def split: instruction.splits)
  qed
  then have "n < length ls" using n(1) by linarith
  then show ?thesis by (simp add: last_drop)
qed

lemma emit_loop_trailing:
  "ls \<noteq> [] \<Longrightarrow> is_emit (fst (last ls)) \<Longrightarrow> \<not> id_invalid (snd (last ls)) \<Longrightarrow> emit_many_tx_loop ls = None"
proof (induction ls rule: emit_many_tx_loop.induct)
  case (2 l ls)
  consider "emit_many_tx_search (l # ls) = None" | n where "emit_many_tx_search (l # ls) = Some (Some n)"
    | "emit_many_tx_search (l # ls) = Some None" by (metis option.exhaust)
  then show ?case
  proof cases
    case (2 n)
    note d = emit_search_trailing [OF 2 "2.prems"(2)]
    have "emit_many_tx_loop (drop n (l # ls)) = None" 
      by (rule "2.IH"(2) [OF 2 refl]) (use d "2.prems"(2,3) in simp_all)
    then show ?thesis using 2 by simp
  next
    case 3
    have "ls \<noteq> []"
    proof
      assume "ls = []"
      then have "emit_many_tx_search (l # ls) = None" using "2.prems" by (cases l) (simp add: emit_many_tx_search_def aget_def)
      then show False using 3 by simp
    qed
    moreover have "emit_many_tx_loop ls = None"
      by (rule "2.IH"(1) [OF 3 refl]) (use \<open>ls \<noteq> []\<close> "2.prems" in simp_all)
    ultimately show ?thesis using 3 by simp
  qed simp
qed simp

text \<open>
  A list of lines that passes the label check and the verification and whose last line is an emission makes
  the optimiser read past the last instruction: the search for emissions before a transmission
  looks at the line behind them without asking whether there is one. Only actions can end in an emission.
\<close>

theorem trailing_emit_overreads:
  assumes chk: "instr_label_check ls = Some lc" and ver: "instr_verify action (map fst lc)" and "translated ls"
    and "ls \<noteq> []" and emit: "is_emit (fst (last ls))"
  shows "instruction_config action hs a b ls = Inl CFG_OVERREAD"
proof -
  have ok: "lines_ok lc" by (rule label_check_ok(1) [OF chk assms(3)])
  then have valid: "\<forall>l \<in> set lc. \<not> id_invalid (snd l)" by (simp add: lines_ok_def)
  obtain gs where gs: "concat gs = lc" "extract_many_optimize lc = map fuse_extract gs" "\<forall>g \<in> set gs. many_group is_extract g"
    using extract_optimize_groups [OF valid] by blast
  have "lc \<noteq> []" using label_check_fst(2) [OF chk] assms(4) by auto
  then have ne: "gs \<noteq> []" "\<forall>g \<in> set gs. g \<noteq> []" using gs many_group_ne by auto
  have l: "last lc = last (last gs)" using last_groups [OF ne(2,1)] gs(1) by simp
  have "fst (last lc) = fst (last ls)" using label_check_fst(1) [OF chk] \<open>lc \<noteq> []\<close> assms(4) by (metis last_map)
  then have e: "is_emit (fst (last (last gs)))" using emit l by simp
  have lg: "many_group is_extract (last gs)" "last gs \<noteq> []" using gs(3) ne by simp_all
  have "\<not> is_extract (fst (last (last gs)))" using e by (auto simp: is_emit_def is_extract_def split: instruction.splits)
  then have "\<not> 1 < length (last gs)" using many_group_kind [OF lg(1)] lg(2) last_in_set by blast
  then obtain x where x: "last gs = [x]" using lg(2) by (cases "last gs") auto
  have "last (map fuse_extract gs) = x" using ne(1) x by (simp add: last_map opt_extract.fuse_single)
  moreover have "\<not> id_invalid (snd x)" using valid l x \<open>lc \<noteq> []\<close> by (metis last.simps last_in_set)
  ultimately have "emit_many_tx_loop (map fuse_extract gs) = None"
    using emit_loop_trailing [of "map fuse_extract gs"] ne(1) e x by simp
  then show ?thesis
    using assms(4) by (simp add: instruction_config_def chk ver instr_optimize_def gs(2) emit_many_tx_optimize_def)
qed

end
