(* ===== verification/SwxSwitch.thy ===== *)
theory SwxSwitch
  imports SwxProgram TableEmProps
begin

text \<open>
  The switch program of the repository, configured and in memory, and the properties of the pipeline that are
  stated on the text of a program, with this program as their instance.
\<close>

section \<open>The specification of the switch\<close>

text \<open>What every registration keeps.\<close>

definition fresh :: "pspec \<Rightarrow> bool" where
  "fresh p \<longleftrightarrow> pspec_ok p \<and> ps_metarrays p = [] \<and> ps_hash_funcs p = []"

definition keeps :: "'e + pspec \<Rightarrow> bool" where
  "keeps r \<longleftrightarrow> (\<forall>p. r = Inr p \<longrightarrow> fresh p)"

lemma keeps_bind: "keeps r \<Longrightarrow> (\<And>p. fresh p \<Longrightarrow> keeps (f p)) \<Longrightarrow> keeps (bindR r f)"
  by (cases r) (simp_all add: keeps_def)

lemma register_frame:
  "rte_swx_pipeline_struct_type_register p name fps var = Inr p' \<Longrightarrow> ps_metarrays p' = ps_metarrays p \<and> ps_hash_funcs p' = ps_hash_funcs p"
  "rte_swx_pipeline_packet_header_register p name st = Inr p' \<Longrightarrow> ps_metarrays p' = ps_metarrays p \<and> ps_hash_funcs p' = ps_hash_funcs p"
  "rte_swx_pipeline_packet_metadata_register p st = Inr p' \<Longrightarrow> ps_metarrays p' = ps_metarrays p \<and> ps_hash_funcs p' = ps_hash_funcs p"
  by (auto simp: rte_swx_pipeline_struct_type_register_def rte_swx_pipeline_packet_header_register_def
      rte_swx_pipeline_packet_metadata_register_def CHECK_eq_Inr FOUND_eq_Inr)

lemma keeps_registers:
  "fresh p \<Longrightarrow> keeps (rte_swx_pipeline_struct_type_register p name fps var)"
  "fresh p \<Longrightarrow> keeps (rte_swx_pipeline_packet_header_register p name st)"
  "fresh p \<Longrightarrow> keeps (rte_swx_pipeline_packet_metadata_register p st)"
  unfolding keeps_def fresh_def using struct_type_register_ok header_register_ok metadata_register_ok register_frame
  by (metis (no_types))+

lemma l3_types_keeps: "keeps (l3_types pspec_init)"
proof -
  have "fresh pspec_init" using pspec_init_ok by (simp add: fresh_def pspec_init_def)
  then show ?thesis unfolding l3_types_def by (intro keeps_bind keeps_registers)
qed

lemma pspec_ok_names [simp]: "pspec_ok (p\<lparr>ps_regarrays := r, ps_tables := t\<rparr>) = pspec_ok p"
  by (simp add: pspec_ok_def)

lemma l3_pspec0_ok: "pspec_ok l3_pspec0" "pspec_small l3_pspec0" "l3_names l3_pspec0"
proof -
  obtain p where p: "l3_types pspec_init = Inr p" using l3_types_eq by blast
  then have ok: "pspec_ok p" "ps_metarrays p = []" "ps_hash_funcs p = []" using l3_types_keeps by (auto simp: keeps_def fresh_def)
  then show "pspec_ok l3_pspec0" by (simp add: l3_pspec0_def p)
  have "ps_metarrays l3_pspec0 = []" "ps_hash_funcs l3_pspec0 = []" using ok by (simp_all add: l3_pspec0_def p)
  then show "pspec_small l3_pspec0" using l3_pspec0 by (simp add: pspec_small_def)
  show "l3_names l3_pspec0" by (simp add: l3_names_def l3_pspec0)
qed

text \<open>The actions, as \<open>rte_swx_pipeline_action_config\<close> has them while it translates their lines.\<close>

definition l3_action :: "string \<Rightarrow> struct_type option \<Rightarrow> nat \<Rightarrow> action_type" where
  "l3_action name st i = \<lparr>ac_name = name, ac_st = st,
     ac_args_endianness = (case st of None \<Rightarrow> [] | Some st \<Rightarrow> replicate (length (s_fields st)) False),
     ac_instructions = [], ac_id = i\<rparr>"

lemma l3_checks:
  "\<forall>text \<in> set l3_apply. check_instruction text" "\<forall>text \<in> set l3_drop_1. check_instruction text"
  "l3_apply \<noteq> []" "l3_drop_1 \<noteq> []"
  by (simp_all add: l3_apply_def l3_drop_1_def check_instruction_def RTE_SWX_INSTRUCTION_SIZE_def)

lemma l3_main_config: "program_config l3_pspec0 None 0 l3_apply = Inr (l3_code, None)"
  by (simp add: program_config_def l3_checks l3_translate [OF l3_pspec0_ok(3)] args_of_def l3_instruction_config)


section \<open>The switch in memory\<close>

text \<open>The pipeline at address 0, the actions NoAction, send and drop_1 behind it.\<close>

definition l3_segs :: "(nat \<times> instruction list) list" where
  "l3_segs = [(0, l3_code), (20, [Plain INSTR_RETURN]), (21, l3_send_code), (25, l3_drop_code)]"

definition l3_memory :: "nat \<Rightarrow> instruction option" where
  "l3_memory = load l3_segs"

definition l3_pipe :: pipeline where
  "l3_pipe = \<lparr>p_in = (\<lambda>_. [])(0 := [(\<lparr>pkt_pkt = 30000, pkt_offset = 128, pkt_length = 34\<rparr>, replicate 34 1)]), p_out = [],
     mirroring_sessions = (\<lambda>_. \<lparr>ms_port_id = 0, ms_fast_clone = False, ms_truncation_length = 0\<rparr>),
     n_ports_in = 2, n_ports_out = 2, n_mirroring_slots = 4, n_mirroring_sessions = 64, threads = (\<lambda>_. ex_thread),
     thread_id = 0, port_id = 0\<rparr>"

definition l3_swx :: "em_table \<Rightarrow> swx" where
  "l3_swx t =
     \<lparr>sw_pipe = l3_pipe,
      sw_tables = (\<lambda>_. [\<lparr>tr_func = TABLE_EM, tr_mailbox = ex_mailbox, tr_key_struct_id = 3\<rparr>]),
      sw_states = [[\<lparr>ts_obj = Some t, ts_default_action_id = 0, ts_default_action_data = []\<rparr>]],
      sw_table_state = 0, sw_t_state = (\<lambda>_. 0),
      sw_stats = [\<lparr>st_n_pkts_miss = 0, st_n_pkts_hit = 0, st_n_pkts_action = [0, 0, 0]\<rparr>],
      sw_regs = regarray_build [\<lparr>rc_name = ''reg_counter_0'', rc_size = 8, rc_init_val = 0\<rparr>],
      sw_meters = \<lparr>ms_profiles = [], ms_default_users = 0, ms_cfg = [], ms_rt = []\<rparr>,
      sw_hash_funcs = [], sw_code = l3_memory, sw_action_instructions = [20, 21, 25],
      sw_tsc = (\<lambda>_. 0), sw_tsc_reads = 0, sw_action_data = 20000\<rparr>"

definition l3_table_params :: table_params where
  "l3_table_params = \<lparr>p_match_type = MATCH_EXACT, p_key_size = 4, p_key_offset = 16, p_key_mask0 = None,
     p_action_data_size = 8, p_n_keys_max = 0x10000\<rparr>"

lemma l3_table_create:
  "\<exists>t. table_create_internal l3_table_params = Inr (Inl t) \<and> em_rep t Map.empty \<and> (\<forall>d \<in> set (em_data t). fst d = 0)"
proof -
  have "rte_align64pow2 4 = 4" "rte_align64pow2 16 = 16"
    by (simp_all add: rte_align64pow2_def rte_combine64ms1b_def Let_def drop_bit_eq_div)
  then obtain t where t: "table_create_internal l3_table_params = Inr (Inl t)" "\<forall>d \<in> set (em_data t). fst d = 0"
    by (simp add: table_create_internal_def l3_table_params_def Let_def KEYS_PER_BUCKET_def)
  moreover have "4 \<le> unat (p_n_keys_max l3_table_params)" by (simp add: l3_table_params_def)
  ultimately show ?thesis using table_create_rep by blast
qed

lemma l3_segs_closed: "\<forall>(b, is) \<in> set l3_segs. seg_closed b is"
proof -
  have "seg_closed 0 l3_code"
    using configured_closed [OF l3_pspec0_ok(1) _ l3_pspec0_ok(2) l3_main_config] by (simp add: action_ok_def)
  moreover have "seg_closed 20 [Plain INSTR_RETURN]" "seg_closed 21 l3_send_code" "seg_closed 25 l3_drop_code"
    by (simp_all add: seg_closed_def l3_send_code_def l3_drop_code_def less_Suc_eq next_ips_def all_conj_distrib)
  ultimately show ?thesis by (simp add: l3_segs_def)
qed

lemma load_in: "load segs a = Some i \<Longrightarrow> \<exists>(b, is) \<in> set segs. i \<in> set is"
  by (induction segs) (auto simp: place_def aget_Some_iff split: if_splits)

lemma l3_swx_ok:
  assumes "em_rep t m" and "\<forall>d \<in> set (em_data t). unat (fst d) < 3"
  shows "swx_ok (segs_range l3_segs) (l3_swx t)"
proof -
  have c: "code_closed (segs_range l3_segs) (sw_code (l3_swx t))"
    using load_code_closed [OF l3_segs_closed, of l3_code]
    by (simp add: l3_swx_def l3_memory_def l3_segs_def l3_code_def is_rx_def)
  have z: "0 \<in> segs_range l3_segs" using start_closed(1) [OF c] .
  have "list_all (\<lambda>(b, is). list_all (ids_ok (l3_swx t)) is) l3_segs"
    by (simp add: l3_segs_def l3_code_def l3_send_code_def l3_drop_code_def ids_ok_def l3_swx_def)
  then have ids: "sw_code (l3_swx t) a = Some i \<Longrightarrow> ids_ok (l3_swx t) i" for a i
    using load_in [of l3_segs a i] by (auto simp: l3_swx_def l3_memory_def list_all_iff)
  have tb: "tables_fit (l3_swx t) st" if "st \<in> set (sw_states (l3_swx t))" for st
    using that assms by (auto simp: l3_swx_def tables_fit_def table_ok_def n_actions_def)
  have acts: "set (sw_action_instructions (l3_swx t)) \<subseteq> segs_range l3_segs"
    by (simp add: l3_swx_def segs_range_def l3_segs_def l3_send_code_def l3_drop_code_def)
  have regs: "regs_ok (sw_regs (l3_swx t))"
    by (simp add: l3_swx_def regs_ok_def regarray_build_def regarray_build_one_def)
  have met: "meters_inv (sw_meters (l3_swx t))" by (simp add: l3_swx_def meters_inv_def n_meters_def n_refs_def)
  have "busy_ok (l3_swx t) j k" if "k < length (sw_stats (l3_swx t))" for j k
    using that by (simp add: l3_swx_def busy_ok_def ex_mailbox_def)
  then show ?thesis using c ids tb acts regs met z
    by (simp add: swx_ok_def n_actions_def) (simp add: l3_swx_def l3_pipe_def ex_thread_def)
qed

lemma pipeline_never_faults_witness:
  "\<exists>t. table_create_internal l3_table_params = Inr (Inl t) \<and>
     (\<exists>s''. instr_exec (rte_swx_pipeline_table_state_set 0 (l3_swx t)) = Inr s'')"
proof -
  obtain t where t: "table_create_internal l3_table_params = Inr (Inl t)" "em_rep t Map.empty" "\<forall>d \<in> set (em_data t). fst d = 0"
    using l3_table_create by blast
  have ok: "swx_ok (segs_range l3_segs) (l3_swx t)" by (rule l3_swx_ok [OF t(2)]) (use t(3) in simp)
  have "sw_step [] (\<lambda>_. (0, 0)) (l3_swx t) (rte_swx_pipeline_table_state_set 0 (l3_swx t))"
    by (rule commit) (simp add: l3_swx_def)
  then show ?thesis using pipeline_never_faults [OF ok] t(1) by blast
qed

section \<open>The properties at the switch program\<close>

lemma translated_lines_are_well_typed_witness:
  "translate_lines l3_pspec0 None l3_apply = Inr l3_lines \<and> instr_typed l3_pspec0 None (fst (l3_lines ! 3))"
  using translated_lines_are_well_typed [OF l3_pspec0_ok(1) _ l3_pspec0_ok(2) l3_translate [OF l3_pspec0_ok(3)], of "l3_lines ! 3"]
    l3_translate [OF l3_pspec0_ok(3)] by (simp add: action_ok_def l3_lines_def)

lemma configured_program_is_closed_witness:
  "program_config l3_pspec0 None 0 l3_apply = Inr (l3_code, None) \<and> seg_closed 0 l3_code"
  using configured_program_is_closed [OF l3_pspec0_ok(1) _ l3_pspec0_ok(2) l3_main_config] l3_main_config
  by (simp add: action_ok_def)

lemma l3_place: "l3_memory = place 0 (length l3_apply) l3_code (load (tl l3_segs))"
  by (auto simp: fun_eq_iff l3_memory_def l3_segs_def place_def aget_def l3_code_def l3_apply_def)

lemma optimiser_is_unobservable_witness:
  "\<exists>t t1 is m t'. table_create_internal l3_table_params = Inr (Inl t) \<and> rte_swx_pipeline_run 1 (l3_swx t) = Inr t1 \<and>
     program_config_plain l3_pspec0 None 0 l3_apply = Some is \<and> 1 \<le> m \<and>
     rte_swx_pipeline_run m ((l3_swx t)\<lparr>sw_code := place 0 (length l3_apply) is (load (tl l3_segs))\<rparr>) = Inr t' \<and> erase t' = erase t1"
proof -
  obtain t where t: "table_create_internal l3_table_params = Inr (Inl t)" "em_rep t Map.empty" "\<forall>d \<in> set (em_data t). fst d = 0"
    using l3_table_create by blast
  have "swx_ok (segs_range l3_segs) (l3_swx t)" by (rule l3_swx_ok [OF t(2)]) (use t(3) in simp)
  then obtain t1 where t1: "rte_swx_pipeline_run 1 (l3_swx t) = Inr t1" using run_safe by blast
  have len: "length l3_apply = 17" by (simp add: l3_apply_def)
  have others: "\<forall>(b, is) \<in> set (tl l3_segs). \<forall>i \<in> set is. \<forall>ty ip. i \<noteq> Jmp ty ip"
    by (simp add: l3_segs_def l3_send_code_def l3_drop_code_def)
  have "jumps_outside 0 (length l3_apply) (load (tl l3_segs))"
    using others load_in [of "tl l3_segs"] unfolding jumps_outside_def by fast
  moreover have "\<forall>x \<in> set (sw_action_instructions (l3_swx t)). outside 0 (length l3_apply) x"
    by (simp add: l3_swx_def outside_def len)
  moreover have "threads_outside 0 (length l3_apply) (l3_swx t)"
    by (simp add: threads_outside_def outside_def l3_swx_def l3_pipe_def ex_thread_def)
  moreover have "sw_code (l3_swx t) = place 0 (length l3_apply) l3_code (load (tl l3_segs))"
    by (simp add: l3_swx_def l3_place)
  moreover have "\<forall>m < 1. \<forall>u. rte_swx_pipeline_run m (l3_swx t) = Inr u \<longrightarrow> few_headers u"
    by (simp add: few_headers_def l3_swx_def l3_pipe_def cur_def ex_thread_def)
  ultimately show ?thesis
    using optimiser_is_unobservable [OF l3_pspec0_ok(1) _ l3_pspec0_ok(2) l3_main_config _ _ _ _ _ _ _ t1] t(1) t1
    by (simp add: action_ok_def args_of_def)
qed

lemma trailing_emit_overreads_witness:
  "instruction_config True [] None 30
     [(Plain INSTR_RETURN, \<lparr>id_label = [], id_jmp_label = [], id_n_users = 0, id_invalid = False\<rparr>),
      (Io INSTR_HDR_EMIT (io_header h_ipv4 20), \<lparr>id_label = [], id_jmp_label = [], id_n_users = 0, id_invalid = False\<rparr>)] =
   Inl CFG_OVERREAD"
  by (rule trailing_emit_overreads, simp add: instr_label_check_def Let_def)
    (simp_all add: instr_verify_def is_return_def translated_def is_dma_def jumps_labelled_def
      instruction_is_jmp_def is_emit_def)

text \<open>
  C40: an action can run off the end of its code. The verification of an action asks for a return or a
  transmission somewhere, not at the end: an action that jumps over its return is accepted, and
  control goes from its last instruction to the address behind the array.
\<close>

theorem accepted_action_runs_off_its_end:
  "\<exists>is. program_config l3_pspec0 (Some (l3_action ''skip'' None 3)) 30
       [''jmpeq L m.psa_ingress_output_metadata_drop 0'', ''return'', ''L : mov m.psa_ingress_output_metadata_drop 1''] = Inr (is, None) \<and>
     length is = 3 \<and> next_ips 32 (is ! 2) = {33}"
proof -
  let ?d = "\<lparr>id_label = [], id_jmp_label = [], id_n_users = 0, id_invalid = False\<rparr>"
  have "translate_lines l3_pspec0 (Some (l3_action ''skip'' None 3))
      [''jmpeq L m.psa_ingress_output_metadata_drop 0'', ''return'', ''L : mov m.psa_ingress_output_metadata_drop 1''] =
    Inr [(Jmp INSTR_JMP_EQ_I (jmp_zero\<lparr>jmp_a := opnd 4 8 4, jmp_b_val := 0\<rparr>), ?d\<lparr>id_jmp_label := ''L''\<rparr>),
      (Plain INSTR_RETURN, ?d),
      (Mov INSTR_MOV_I \<lparr>ds_dst = opnd 4 8 4, ds_src = no_operand, ds_src_val = 1\<rparr>, ?d\<lparr>id_label := ''L''\<rparr>)]"
    by (simp add: l3_tokens l3_fields l3_instrs l3_namesD [OF l3_pspec0_ok(3)])
  then show ?thesis
    by (simp add: program_config_def check_instruction_def RTE_SWX_INSTRUCTION_SIZE_def args_of_def l3_action_def instruction_config_def l3_config
        next_ips_def)
qed

section \<open>Translations that lose an operand\<close>

text \<open>
  A register write or addition with an immediate index and an immediate value is translated without its
  array: the identifier stays 0, so that the instruction works on the first array of the pipeline
  whichever it names.
\<close>

theorem immediate_register_access_loses_its_array:
  assumes "name_index (ps_regarrays p) arr = Some r" and "struct_field_parse p action idx = None"
    and "struct_field_parse p action src = None" and "number src = Some v" and "number32 idx = Some i"
  shows "\<exists>ip jp. instr_regwr_translate p action [''regwr'', arr, idx, src] = Inr (Regarray INSTR_REGWR_RII ip) \<and>
    instr_regadd_translate p action [''regadd'', arr, idx, src] = Inr (Regarray INSTR_REGADD_RII jp) \<and>
    ra_regarray_id ip = 0 \<and> ra_regarray_id jp = 0"
  using assms by (simp add: instr_regwr_translate_def instr_regadd_translate_def reg_src_translate_def FOUND_simps ra_zero_def)

lemma immediate_register_access_loses_its_array_witness:
  "\<exists>ip. name_index (ps_regarrays (l3_pspec0\<lparr>ps_regarrays := [''reg_counter_0'', ''flows'']\<rparr>)) ''flows'' = Some 1 \<and>
     instr_regwr_translate (l3_pspec0\<lparr>ps_regarrays := [''reg_counter_0'', ''flows'']\<rparr>) None [''regwr'', ''flows'', ''7'', ''9''] =
       Inr (Regarray INSTR_REGWR_RII ip) \<and> ra_regarray_id ip = 0"
proof -
  let ?p = "l3_pspec0\<lparr>ps_regarrays := [''reg_counter_0'', ''flows'']\<rparr>"
  have n: "name_index (ps_regarrays ?p) ''flows'' = Some 1" by simp
  have "struct_field_parse ?p None ''7'' = None" "struct_field_parse ?p None ''9'' = None"
    by (simp_all add: struct_field_parse_def metadata_field_parse_def prefixed_def l3_pspec0 header_field_parse_def)
  moreover have "number ''9'' = Some 9" "number32 ''7'' = Some 7"
    by (simp_all add: number32_def number_def strtoull0_def digit_val_def is_space_def)
  ultimately show ?thesis using immediate_register_access_loses_its_array [OF n, of None "''7''" "''9''" 9 7] n by blast
qed

lemma div_mod_256: "((x::nat) mod 256) div 8 = (x div 8) mod 32"
  using div_mult2_eq mod_mult2_eq [of x 8 32] by simp

text \<open>
  The destination of a hash instruction is cast to eight bits before it is divided into bytes: a result for
  the meta-data field at byte 32 or behind is written 32 bytes, or a multiple of it, too early.
\<close>

theorem hash_destination_is_truncated:
  assumes "name_index (ps_hash_funcs p) func = Some n" and "metadata_field_parse p dst = Some f"
    and "struct_field_parse p action sfirst = Some (f1, sid)" and "struct_field_parse p action slast = Some (f2, sid)"
  shows "\<exists>ip. instr_hash_translate p action [''hash'', func, dst, sfirst, slast] = Inr (HashFunc ip) \<and>
    hf_dst_offset ip = (f_offset f div 8) mod 32"
  using assms by (simp add: instr_hash_translate_def FOUND_simps CHECK_simps div_mod_256)

definition wide_pspec :: pspec where
  "wide_pspec = pspec_init\<lparr>ps_metadata_st := Some (struct_type_of ''m_t'' [(''a'', 64), (''b'', 64), (''c'', 64), (''d'', 64), (''e'', 32)] False),
     ps_metadata_struct_id := 1, ps_n_structs := 2, ps_hash_funcs := [''crc32'']\<rparr>"

lemma hash_destination_is_truncated_witness:
  "\<exists>ip f. metadata_field_parse wide_pspec ''m.e'' = Some f \<and> f_offset f = 256 \<and>
     instr_hash_translate wide_pspec None [''hash'', ''crc32'', ''m.e'', ''m.a'', ''m.d''] = Inr (HashFunc ip) \<and> hf_dst_offset ip = 0"
proof -
  have n: "name_index (ps_hash_funcs wide_pspec) ''crc32'' = Some 0" by (simp add: wide_pspec_def)
  obtain f f1 f2 where f: "metadata_field_parse wide_pspec ''m.e'' = Some f" "f_offset f = 256"
      "struct_field_parse wide_pspec None ''m.a'' = Some (f1, 1)" "struct_field_parse wide_pspec None ''m.d'' = Some (f2, 1)"
    by (simp add: wide_pspec_def metadata_field_parse_def struct_field_parse_def prefixed_def struct_type_of_def struct_type_field_find_def)
  from hash_destination_is_truncated [OF n f(1,3,4)] f(1,2) show ?thesis by auto
qed

end
