(* ===== verification/AppThread.thy ===== *)
theory AppThread
  imports Prelude "HOL-Library.Multiset"
begin

text \<open>
  The threads of the pipeline application (pipeline/thread.c and the pipeline objects of pipeline/obj.c): one control
  thread that enables and disables pipelines, and data plane threads that run the pipelines of their table in turn and
  poll their request queue every sixteenth round when their timer has expired. A request goes through a ring to
  the data plane thread and its response through another; before the data plane threads are launched the
  control thread writes their tables itself. Rings are queues of at most 63 messages
  (\<open>THREAD_MSGQ_SIZE\<close> of 64 without \<open>RING_F_EXACT_SZ\<close>), a pipeline is the address of its object, and the
  log of the data plane threads is left out.
\<close>

section \<open>Data\<close>

definition RTE_MAX_LCORE :: nat where "RTE_MAX_LCORE = 128"
definition THREAD_PIPELINES_MAX :: nat where "THREAD_PIPELINES_MAX = 256"
definition THREAD_MSGQ_SIZE :: nat where "THREAD_MSGQ_SIZE = 64"
definition THREAD_TIMER_PERIOD_MS :: u64 where "THREAD_TIMER_PERIOD_MS = 100"
definition NAME_SIZE :: nat where "NAME_SIZE = 64"

record pipeline_data =
  pd_p :: addr
  pd_timer_period :: u64
  pd_time_next :: u64

record thread_data =
  td_p :: "addr list"
  td_n_pipelines :: u32
  td_pipeline_data :: "pipeline_data list"
  td_timer_period :: u64
  td_time_next :: u64
  td_time_next_min :: u64

record pipeline =
  pl_name :: string
  pl_p :: addr
  pl_timer_period_ms :: u32
  pl_enabled :: bool
  pl_thread_id :: u32

datatype thread_msg_req = PIPELINE_ENABLE addr u32 | PIPELINE_DISABLE addr
type_synonym thread_msg_rsp = int

text \<open>
  Where the control thread is in \<open>thread_pipeline_enable\<close> or \<open>_disable\<close>: in no call, before the enqueue of a request,
  or waiting for the response. The pipeline of the call is a position of the list of pipelines.
\<close>

datatype ctl_pc = CIdle | CSend nat thread_msg_req nat | CRecv nat thread_msg_req nat

text \<open>
  Where a data plane thread is in \<open>thread_main\<close>: in round \<open>i\<close> before pipeline \<open>j\<close>, in \<open>thread_msg_handle\<close> with the time it
  read in this round, or there before the enqueue of a response.
\<close>

datatype dp_pc = DRun u32 u32 | DHandle u32 u64 | DReply u32 u64 thread_msg_rsp

record app =
  tsc_hz :: u64
  thr_enabled :: "nat \<Rightarrow> bool"
  thr_running :: "nat \<Rightarrow> bool"
  thread_data :: "nat \<Rightarrow> thread_data"
  msgq_req :: "nat \<Rightarrow> thread_msg_req list"
  msgq_rsp :: "nat \<Rightarrow> thread_msg_rsp list"
  a_pc :: "nat \<Rightarrow> dp_pc"
  pipeline_list :: "pipeline list"
  c_pc :: ctl_pc
  c_ret :: int
  a_log :: "(nat \<times> addr) list"

definition ring_full :: "'a list \<Rightarrow> bool" where
  "ring_full q \<longleftrightarrow> THREAD_MSGQ_SIZE - 1 \<le> length q"

section \<open>Pipeline objects\<close>

fun find_from :: "pipeline list \<Rightarrow> string \<Rightarrow> nat \<Rightarrow> nat option" where
  "find_from [] name i = None"
| "find_from (p # ps) name i = (if name = pl_name p then Some i else find_from ps name (i + 1))"

definition pipeline_find :: "pipeline list \<Rightarrow> string \<Rightarrow> nat option" where
  "pipeline_find ps name = find_from ps name 0"

text \<open>\<open>p\<close> is the object that \<open>rte_swx_pipeline_config\<close> made; \<open>strlcpy\<close> cuts the name.\<close>

definition pipeline_create :: "addr \<Rightarrow> string \<Rightarrow> pipeline list \<Rightarrow> pipeline list option" where
  "pipeline_create p name ps =
     (if pipeline_find ps name \<noteq> None then None
      else Some (ps @ [\<lparr>pl_name = take (NAME_SIZE - 1) name, pl_p = p, pl_timer_period_ms = 10, pl_enabled = False,
                        pl_thread_id = 0\<rparr>]))"

section \<open>The table of a data plane thread\<close>

text \<open>The rows below and \<open>thread_msg_handle_pipeline_enable\<close> write the same fields; the time is read in between.\<close>

definition row_add :: "u64 \<Rightarrow> u64 \<Rightarrow> addr \<Rightarrow> u32 \<Rightarrow> thread_data \<Rightarrow> thread_data option" where
  "row_add hz now p ms t =
     (let n = unat (td_n_pipelines t); period = hz * ucast ms div 1000 in
      case aset (td_p t) n p of None \<Rightarrow> None
      | Some ps \<Rightarrow> (case aset (td_pipeline_data t) n \<lparr>pd_p = p, pd_timer_period = period, pd_time_next = now + period\<rparr> of
          None \<Rightarrow> None
        | Some ds \<Rightarrow> Some (t\<lparr>td_p := ps, td_pipeline_data := ds, td_n_pipelines := td_n_pipelines t + 1\<rparr>)))"

text \<open>The loop that searches a pipeline from row \<open>i\<close> on and moves the last row into its place.\<close>

function row_del :: "addr \<Rightarrow> u32 \<Rightarrow> thread_data \<Rightarrow> (bool \<times> thread_data) option" where
  "row_del p i t =
     (if \<not> i < td_n_pipelines t then Some (False, t)
      else case aget (td_pipeline_data t) (unat i) of None \<Rightarrow> None
      | Some d \<Rightarrow>
          if pd_p d \<noteq> p then row_del p (i + 1) t
          else let l = td_n_pipelines t - 1 in
            if i < l then
              (case (aget (td_p t) (unat l), aget (td_pipeline_data t) (unat l)) of
                 (Some pl, Some dl) \<Rightarrow>
                   (case (aset (td_p t) (unat i) pl, aset (td_pipeline_data t) (unat i) dl) of
                      (Some ps, Some ds) \<Rightarrow> Some (True, t\<lparr>td_p := ps, td_pipeline_data := ds, td_n_pipelines := l\<rparr>)
                    | _ \<Rightarrow> None)
               | _ \<Rightarrow> None)
            else Some (True, t\<lparr>td_n_pipelines := l\<rparr>))"
  by pat_completeness auto
termination
proof (relation "measure (\<lambda>(p, i, t). unat (td_n_pipelines t) - unat i)")
  show "((p, i + 1, t), (p, i, t)) \<in> measure (\<lambda>(p, i, t). unat (td_n_pipelines t) - unat i)"
    if "\<not> \<not> i < td_n_pipelines t" for p i t
  proof -
    have "unat i < unat (td_n_pipelines t)" using that by (simp add: word_less_nat_alt)
    moreover have "unat (i + 1) = unat i + 1"
      using u32_plus_no_wrap [of i 1] unat_u32_less [of "td_n_pipelines t"] calculation by simp
    ultimately show ?thesis by simp
  qed
qed simp

declare row_del.simps [simp del]

section \<open>The data plane thread\<close>

definition thread_msg_handle_pipeline_enable ::
    "u64 \<Rightarrow> u64 \<Rightarrow> addr \<Rightarrow> u32 \<Rightarrow> thread_data \<Rightarrow> (thread_msg_rsp \<times> thread_data) option" where
  "thread_msg_handle_pipeline_enable hz now p ms t =
     (if of_nat THREAD_PIPELINES_MAX \<le> td_n_pipelines t then Some (-1, t)
      else map_option (Pair 0) (row_add hz now p ms t))"

definition thread_msg_handle_pipeline_disable :: "addr \<Rightarrow> thread_data \<Rightarrow> (thread_msg_rsp \<times> thread_data) option" where
  "thread_msg_handle_pipeline_disable p t = map_option (\<lambda>(_, t'). (0, t')) (row_del p 0 t)"

fun thread_msg_dispatch :: "u64 \<Rightarrow> u64 \<Rightarrow> thread_msg_req \<Rightarrow> thread_data \<Rightarrow> (thread_msg_rsp \<times> thread_data) option" where
  "thread_msg_dispatch hz now (PIPELINE_ENABLE p ms) t = thread_msg_handle_pipeline_enable hz now p ms t"
| "thread_msg_dispatch hz now (PIPELINE_DISABLE p) t = thread_msg_handle_pipeline_disable p t"

abbreviation upd_thread :: "nat \<Rightarrow> thread_data \<Rightarrow> dp_pc \<Rightarrow> app \<Rightarrow> app" where
  "upd_thread k t pc s \<equiv> s\<lparr>thread_data := (thread_data s)(k := t), a_pc := (a_pc s)(k := pc)\<rparr>"

text \<open>
  One step of \<open>thread_main\<close> on core \<open>k\<close>: one pipeline of the table runs, the timer is looked at, one request is taken
  and handled, or one response goes out. \<open>now\<close> is what \<open>rte_get_tsc_cycles\<close> returns if the step reads the clock.
\<close>

definition thread_main_step :: "u64 \<Rightarrow> nat \<Rightarrow> app \<Rightarrow> app option" where
  "thread_main_step now k s =
     (let t = thread_data s k in
      case a_pc s k of
        DRun i j \<Rightarrow>
          if j < td_n_pipelines t then
            (case aget (td_p t) (unat j) of None \<Rightarrow> None
             | Some p \<Rightarrow> Some (s\<lparr>a_log := a_log s @ [(k, p)], a_pc := (a_pc s)(k := DRun i (j + 1))\<rparr>))
          else if i AND 0xF = 0 then
            if now < td_time_next_min t then Some (s\<lparr>a_pc := (a_pc s)(k := DRun (i + 1) 0)\<rparr>)
            else if td_time_next t \<le> now then Some (s\<lparr>a_pc := (a_pc s)(k := DHandle i now)\<rparr>)
            else Some (upd_thread k (t\<lparr>td_time_next_min := td_time_next t\<rparr>) (DRun (i + 1) 0) s)
          else Some (s\<lparr>a_pc := (a_pc s)(k := DRun (i + 1) 0)\<rparr>)
      | DHandle i time \<Rightarrow>
          (case msgq_req s k of
             [] \<Rightarrow> Some (upd_thread k (t\<lparr>td_time_next := time + td_timer_period t,
                                         td_time_next_min := time + td_timer_period t\<rparr>) (DRun (i + 1) 0) s)
           | req # reqs \<Rightarrow>
               (case thread_msg_dispatch (tsc_hz s) now req t of None \<Rightarrow> None
                | Some (rsp, t') \<Rightarrow>
                    Some (upd_thread k t' (DReply i time rsp) (s\<lparr>msgq_req := (msgq_req s)(k := reqs)\<rparr>))))
      | DReply i time rsp \<Rightarrow>
          if ring_full (msgq_rsp s k) then Some s
          else Some (s\<lparr>msgq_rsp := (msgq_rsp s)(k := msgq_rsp s k @ [rsp]), a_pc := (a_pc s)(k := DHandle i time)\<rparr>))"

section \<open>The control thread\<close>

definition set_enabled :: "nat \<Rightarrow> u32 \<Rightarrow> app \<Rightarrow> app" where
  "set_enabled x tid s =
     s\<lparr>pipeline_list := (pipeline_list s)[x := (pipeline_list s ! x)\<lparr>pl_thread_id := tid, pl_enabled := True\<rparr>]\<rparr>"

definition set_disabled :: "nat \<Rightarrow> app \<Rightarrow> app" where
  "set_disabled x s = s\<lparr>pipeline_list := (pipeline_list s)[x := (pipeline_list s ! x)\<lparr>pl_enabled := False\<rparr>]\<rparr>"

abbreviation return :: "int \<Rightarrow> app \<Rightarrow> app option" where
  "return v s \<equiv> Some (s\<lparr>c_pc := CIdle, c_ret := v\<rparr>)"

text \<open>\<open>alloc\<close> says whether \<open>thread_msg_alloc\<close> gets its memory.\<close>

definition thread_pipeline_enable :: "bool \<Rightarrow> u64 \<Rightarrow> u32 \<Rightarrow> string \<Rightarrow> app \<Rightarrow> app option" where
  "thread_pipeline_enable alloc now thread_id name s =
     (case pipeline_find (pipeline_list s) name of
        None \<Rightarrow> return (-1) s
      | Some x \<Rightarrow>
          let p = pipeline_list s ! x; k = unat thread_id in
          if RTE_MAX_LCORE \<le> k then return (-1) s
          else if \<not> thr_enabled s k then return (-1) s
          else if \<not> thr_running s k then
            if of_nat THREAD_PIPELINES_MAX \<le> td_n_pipelines (thread_data s k) then return (-1) s
            else (case row_add (tsc_hz s) now (pl_p p) (pl_timer_period_ms p) (thread_data s k) of None \<Rightarrow> None
                  | Some t \<Rightarrow> return 0 (set_enabled x thread_id (s\<lparr>thread_data := (thread_data s)(k := t)\<rparr>)))
          else if \<not> alloc then return (-1) s
          else Some (s\<lparr>c_pc := CSend k (PIPELINE_ENABLE (pl_p p) (pl_timer_period_ms p)) x\<rparr>))"

definition thread_pipeline_disable :: "bool \<Rightarrow> u32 \<Rightarrow> string \<Rightarrow> app \<Rightarrow> app option" where
  "thread_pipeline_disable alloc thread_id name s =
     (case pipeline_find (pipeline_list s) name of
        None \<Rightarrow> return (-1) s
      | Some x \<Rightarrow>
          let p = pipeline_list s ! x; k = unat thread_id in
          if RTE_MAX_LCORE \<le> k then return (-1) s
          else if \<not> thr_enabled s k then return (-1) s
          else if \<not> pl_enabled p then return 0 s
          else if pl_thread_id p \<noteq> thread_id then return (-1) s
          else if \<not> thr_running s k then
            (case row_del (pl_p p) 0 (thread_data s k) of None \<Rightarrow> None
             | Some (found, t) \<Rightarrow>
                 return 0 ((if found then set_disabled x else (\<lambda>s. s)) (s\<lparr>thread_data := (thread_data s)(k := t)\<rparr>)))
          else if \<not> alloc then return (-1) s
          else Some (s\<lparr>c_pc := CSend k (PIPELINE_DISABLE (pl_p p)) x\<rparr>))"

text \<open>The rest of both calls: \<open>thread_msg_send_recv\<close> one attempt at a time, then the completion of the request.\<close>

definition request_completion :: "nat \<Rightarrow> thread_msg_req \<Rightarrow> nat \<Rightarrow> thread_msg_rsp \<Rightarrow> app \<Rightarrow> app" where
  "request_completion k req x status s =
     (if status \<noteq> 0 then s
      else case req of PIPELINE_ENABLE _ _ \<Rightarrow> set_enabled x (of_nat k) s | PIPELINE_DISABLE _ \<Rightarrow> set_disabled x s)"

definition thread_msg_send_recv :: "app \<Rightarrow> app option" where
  "thread_msg_send_recv s =
     (case c_pc s of
        CIdle \<Rightarrow> Some s
      | CSend k req x \<Rightarrow>
          if ring_full (msgq_req s k) then Some s
          else Some (s\<lparr>msgq_req := (msgq_req s)(k := msgq_req s k @ [req]), c_pc := CRecv k req x\<rparr>)
      | CRecv k req x \<Rightarrow>
          (case msgq_rsp s k of
             [] \<Rightarrow> Some s
           | rsp # rsps \<Rightarrow>
               return rsp (request_completion k req x rsp (s\<lparr>msgq_rsp := (msgq_rsp s)(k := rsps)\<rparr>))))"

section \<open>The application\<close>

definition zero_data :: pipeline_data where
  "zero_data = \<lparr>pd_p = 0, pd_timer_period = 0, pd_time_next = 0\<rparr>"

definition zero_thread :: thread_data where
  "zero_thread = \<lparr>td_p = replicate THREAD_PIPELINES_MAX 0, td_n_pipelines = 0,
     td_pipeline_data = replicate THREAD_PIPELINES_MAX zero_data,
     td_timer_period = 0, td_time_next = 0, td_time_next_min = 0\<rparr>"

text \<open>\<open>workers\<close> are the cores of \<open>RTE_LCORE_FOREACH_WORKER\<close>, and \<open>now\<close> the clock when each is initialised.\<close>

definition thread_init :: "u64 \<Rightarrow> (nat \<Rightarrow> u64) \<Rightarrow> nat list \<Rightarrow> app" where
  "thread_init hz now workers =
     \<lparr>tsc_hz = hz, thr_enabled = (\<lambda>k. k \<in> set workers), thr_running = (\<lambda>_. False),
      thread_data = (\<lambda>k. if k \<in> set workers then
         (let period = hz * THREAD_TIMER_PERIOD_MS div 1000 in
          zero_thread\<lparr>td_timer_period := period, td_time_next := now k + period, td_time_next_min := now k + period\<rparr>)
         else zero_thread),
      msgq_req = (\<lambda>_. []), msgq_rsp = (\<lambda>_. []), a_pc = (\<lambda>_. DRun 0 0), pipeline_list = [], c_pc = CIdle, c_ret = 0,
      a_log = []\<rparr>"

text \<open>
  What can happen next: the control thread launches the data plane threads (\<open>rte_eal_mp_remote_launch\<close> in \<open>main\<close>), makes a
  pipeline, calls enable or disable, or goes on in such a call; a data plane thread makes a step.
\<close>

datatype event =
    Launch
  | Create addr string
  | Enable bool u64 u32 string
  | Disable bool u32 string
  | Ctl
  | Dp u64 nat

fun app_next :: "event \<Rightarrow> app \<Rightarrow> app option" where
  "app_next Launch s = Some (s\<lparr>thr_running := thr_enabled s\<rparr>)"
| "app_next (Create p name) s =
     (case pipeline_create p name (pipeline_list s) of None \<Rightarrow> Some s | Some ps \<Rightarrow> Some (s\<lparr>pipeline_list := ps\<rparr>))"
| "app_next (Enable alloc now tid name) s = thread_pipeline_enable alloc now tid name s"
| "app_next (Disable alloc tid name) s = thread_pipeline_disable alloc tid name s"
| "app_next Ctl s = thread_msg_send_recv s"
| "app_next (Dp now k) s = thread_main_step now k s"

text \<open>The control thread is in one call at a time, an allocated object is a new one, and only launched threads run.\<close>

fun may_happen :: "event \<Rightarrow> app \<Rightarrow> bool" where
  "may_happen (Create p name) s \<longleftrightarrow> c_pc s = CIdle \<and> p \<notin> set (map pl_p (pipeline_list s))"
| "may_happen (Dp now k) s \<longleftrightarrow> thr_running s k"
| "may_happen Ctl s \<longleftrightarrow> c_pc s \<noteq> CIdle"
| "may_happen _ s \<longleftrightarrow> c_pc s = CIdle"

text \<open>The states that events allowed by \<open>A\<close> lead to.\<close>

inductive app_reach :: "(event \<Rightarrow> app \<Rightarrow> bool) \<Rightarrow> app \<Rightarrow> bool" for A where
  reach_init: "app_reach A (thread_init hz now workers)"
| reach_step: "app_reach A s \<Longrightarrow> may_happen e s \<Longrightarrow> A e s \<Longrightarrow> app_next e s = Some t \<Longrightarrow> app_reach A t"

text \<open>The caller that never enables a pipeline that is enabled.\<close>

fun no_double_enable :: "event \<Rightarrow> app \<Rightarrow> bool" where
  "no_double_enable (Enable alloc now tid name) s =
     (case pipeline_find (pipeline_list s) name of None \<Rightarrow> True | Some x \<Rightarrow> \<not> pl_enabled (pipeline_list s ! x))"
| "no_double_enable _ s = True"

section \<open>The rows of a table\<close>

definition rows :: "thread_data \<Rightarrow> addr list" where
  "rows t = take (unat (td_n_pipelines t)) (td_p t)"

text \<open>Both arrays hold the same pipelines, and there is a place for every row.\<close>

definition td_ok :: "thread_data \<Rightarrow> bool" where
  "td_ok t \<longleftrightarrow> length (td_p t) = THREAD_PIPELINES_MAX \<and> length (td_pipeline_data t) = THREAD_PIPELINES_MAX \<and>
     unat (td_n_pipelines t) \<le> THREAD_PIPELINES_MAX \<and>
     map pd_p (take (unat (td_n_pipelines t)) (td_pipeline_data t)) = rows t"

lemma length_rows: "td_ok t \<Longrightarrow> length (rows t) = unat (td_n_pipelines t)"
  by (simp add: rows_def td_ok_def)

lemma td_ok_nth:
  assumes "td_ok t" and "i < unat (td_n_pipelines t)"
  shows "td_p t ! i = rows t ! i" and "pd_p (td_pipeline_data t ! i) = rows t ! i"
    and "i < length (td_p t)" and "i < length (td_pipeline_data t)"
proof -
  show "i < length (td_p t)" "i < length (td_pipeline_data t)" using assms by (simp_all add: td_ok_def)
  show "td_p t ! i = rows t ! i" using assms by (simp add: rows_def)
  have "map pd_p (take (unat (td_n_pipelines t)) (td_pipeline_data t)) ! i = pd_p (td_pipeline_data t ! i)"
    using assms \<open>i < length (td_pipeline_data t)\<close> by simp
  then show "pd_p (td_pipeline_data t ! i) = rows t ! i" using assms(1) unfolding td_ok_def by metis
qed

lemma row_add_ok:
  assumes "td_ok t" and "unat (td_n_pipelines t) < THREAD_PIPELINES_MAX"
  shows "\<exists>t'. row_add hz now p ms t = Some t' \<and> td_ok t' \<and> rows t' = rows t @ [p] \<and>
     td_time_next t' = td_time_next t \<and> td_time_next_min t' = td_time_next_min t \<and> td_timer_period t' = td_timer_period t"
proof -
  have n: "unat (td_n_pipelines t + 1) = unat (td_n_pipelines t) + 1"
    using u32_plus_no_wrap [of "td_n_pipelines t" 1] assms(2) by (simp add: THREAD_PIPELINES_MAX_def)
  show ?thesis
    using assms
    by (auto simp: row_add_def Let_def td_ok_def rows_def n THREAD_PIPELINES_MAX_def take_Suc_conv_app_nth)
qed

lemma swap_last_mset:
  assumes "i < n" and "n = length xs"
  shows "mset (take (n - 1) (xs[i := xs ! (n - 1)])) = mset xs - {#xs ! i#}"
proof -
  obtain ys y where xs: "xs = ys @ [y]" using assms by (cases xs rule: rev_cases) auto
  show ?thesis
  proof (cases "i = n - 1")
    case True
    then show ?thesis using assms by (simp add: xs list_update_append)
  next
    case False
    then have i: "i < length ys" using assms by (simp add: xs)
    have "mset (ys[i := y]) = add_mset y (mset ys - {#ys ! i#})" by (rule mset_update [OF i])
    moreover have "ys ! i \<in># mset ys" using i by simp
    ultimately show ?thesis using assms i by (simp add: xs list_update_append nth_append)
  qed
qed

lemma take_swap: "m \<le> n \<Longrightarrow> j < n \<Longrightarrow> take m (xs[i := xs ! j]) = take m ((take n xs)[i := take n xs ! j])"
  by (simp add: take_update_swap min_def)

text \<open>The handler of a disable takes exactly one row of the pipeline out of the table, if there is one.\<close>

lemma row_del_ok:
  assumes "td_ok t" and "unat i \<le> unat (td_n_pipelines t)" and "p \<notin> set (take (unat i) (rows t))"
  shows "\<exists>b t'. row_del p i t = Some (b, t') \<and> td_ok t' \<and> mset (rows t') = mset (rows t) - {#p#} \<and>
     (b \<longleftrightarrow> p \<in> set (rows t)) \<and> td_time_next t' = td_time_next t \<and> td_time_next_min t' = td_time_next_min t \<and>
     td_timer_period t' = td_timer_period t"
  using assms
proof (induction p i t rule: row_del.induct)
  case (1 p i t)
  let ?n = "unat (td_n_pipelines t)"
  have len: "length (rows t) = ?n" using "1.prems"(1) by (rule length_rows)
  show ?case
  proof (cases "i < td_n_pipelines t")
    case False
    then have "unat i = ?n" using "1.prems"(2) by (simp add: word_less_nat_alt)
    then have "p \<notin> set (rows t)" using "1.prems"(3) len by simp
    then show ?thesis
      using False "1.prems"(1) by (subst row_del.simps) (auto simp: diff_single_trivial)
  next
    case True
    then have i: "unat i < ?n" by (simp add: word_less_nat_alt)
    note nth = td_ok_nth [OF "1.prems"(1)]
    show ?thesis
    proof (cases "rows t ! unat i = p")
      case False
      have i1: "unat (i + 1) = unat i + 1"
        using u32_plus_no_wrap [of i 1] unat_u32_less [of "td_n_pipelines t"] i by simp
      have step: "row_del p i t = row_del p (i + 1) t"
        using True i False nth by (subst row_del.simps) simp
      have "p \<notin> set (take (unat (i + 1)) (rows t))"
        using "1.prems"(3) False i len by (simp add: i1 take_Suc_conv_app_nth)
      then show ?thesis
        unfolding step
        by (intro "1.IH" [of "td_pipeline_data t ! unat i"])
           (use True i i1 nth False "1.prems"(1) in \<open>auto simp: aget_def\<close>)
    next
      case here: True
      let ?l = "td_n_pipelines t - 1"
      have n0: "td_n_pipelines t \<noteq> 0" using i by (auto simp: unat_gt_0 [symmetric])
      have l: "unat ?l = ?n - 1" by (rule unat_pred [OF n0])
      have mem: "p \<in> set (rows t)" using here i len nth_mem [of "unat i" "rows t"] by auto
      let ?ps = "if i < ?l then (td_p t)[unat i := td_p t ! (?n - 1)] else td_p t"
      let ?ds = "if i < ?l then (td_pipeline_data t)[unat i := td_pipeline_data t ! (?n - 1)] else td_pipeline_data t"
      let ?t = "t\<lparr>td_p := ?ps, td_pipeline_data := ?ds, td_n_pipelines := ?l\<rparr>"
      have ran: "row_del p i t = Some (True, ?t)"
        using True here i l nth(2-4) [OF i] nth(3-4) [of "?n - 1"] n0
        by (subst row_del.simps) (simp add: Let_def)
      have il: "\<not> i < ?l \<Longrightarrow> unat i = ?n - 1" using i l by (simp add: word_less_nat_alt)
      have ps: "take (?n - 1) ?ps = take (?n - 1) ((rows t)[unat i := rows t ! (?n - 1)])"
        using i il take_swap [of "?n - 1" ?n "?n - 1" "td_p t" "unat i"]
        by (cases "i < ?l") (simp_all add: rows_def min_def)
      have ds: "map pd_p (take (?n - 1) ?ds) = take (?n - 1) ((rows t)[unat i := rows t ! (?n - 1)])"
      proof -
        have m: "map pd_p (take ?n (td_pipeline_data t)) = rows t" using "1.prems"(1) by (simp add: td_ok_def)
        have "take (?n - 1) ?ds = take (?n - 1) ((take ?n (td_pipeline_data t))[unat i := take ?n (td_pipeline_data t) ! (?n - 1)])"
          using i il take_swap [of "?n - 1" ?n "?n - 1" "td_pipeline_data t" "unat i"]
          by (cases "i < ?l") (simp_all add: min_def)
        then show ?thesis
          using i nth(2) [of "?n - 1"] nth(4) [of "?n - 1"] by (simp add: take_map [symmetric] map_update m [unfolded take_map [symmetric]])
      qed
      have r: "rows ?t = take (?n - 1) ((rows t)[unat i := rows t ! (?n - 1)])"
        using ps by (simp add: rows_def l)
      have "td_ok ?t"
        unfolding td_ok_def r using ds "1.prems"(1) diff_le_self [of ?n 1]
        by (simp add: l td_ok_def del: diff_le_self)
      moreover have "mset (rows ?t) = mset (rows t) - {#p#}"
        unfolding r using swap_last_mset [OF i len [symmetric]] here by simp
      ultimately show ?thesis unfolding ran using mem by (intro exI [of _ True] exI [of _ ?t]) simp
    qed
  qed
qed

end
