(* ===== verification/AppProtocol.thy ===== *)
theory AppProtocol
  imports AppThread
begin

text \<open>
  The protocol between the control thread and the data plane threads (pipeline/thread.c): an invariant of every
  interleaving in which no pipeline is enabled twice, what happens without this restriction, and that a
  data plane thread answers every request in a bounded number of its steps.
\<close>

section \<open>The protocol\<close>

fun reply_of :: "dp_pc \<Rightarrow> thread_msg_rsp option" where
  "reply_of (DReply i m rsp) = Some rsp"
| "reply_of _ = None"

abbreviation is_reply :: "dp_pc \<Rightarrow> bool" where
  "is_reply pc \<equiv> reply_of pc \<noteq> None"

text \<open>No message is on its way to or from core \<open>k\<close>.\<close>

definition quiet :: "app \<Rightarrow> nat \<Rightarrow> bool" where
  "quiet s k \<longleftrightarrow> msgq_req s k = [] \<and> msgq_rsp s k = [] \<and> \<not> is_reply (a_pc s k)"

definition all_quiet :: "app \<Rightarrow> nat set \<Rightarrow> bool" where
  "all_quiet s K \<longleftrightarrow> (\<forall>k. k \<notin> K \<longrightarrow> quiet s k)"

fun req_fits :: "app \<Rightarrow> nat \<Rightarrow> nat \<Rightarrow> thread_msg_req \<Rightarrow> bool" where
  "req_fits s k x (PIPELINE_ENABLE p ms) \<longleftrightarrow> p = pl_p (pipeline_list s ! x) \<and> \<not> pl_enabled (pipeline_list s ! x)"
| "req_fits s k x (PIPELINE_DISABLE p) \<longleftrightarrow> p = pl_p (pipeline_list s ! x) \<and> pl_enabled (pipeline_list s ! x) \<and>
     unat (pl_thread_id (pipeline_list s ! x)) = k"

text \<open>The response that core \<open>k\<close> has made to the request in progress, if it has.\<close>

definition answer :: "app \<Rightarrow> nat \<Rightarrow> int option" where
  "answer s k =
     (case msgq_rsp s k of r # _ \<Rightarrow> Some r | [] \<Rightarrow> reply_of (a_pc s k))"

definition in_flight :: "app \<Rightarrow> nat \<Rightarrow> thread_msg_req \<Rightarrow> bool" where
  "in_flight s k req \<longleftrightarrow>
     (msgq_req s k = [req] \<and> msgq_rsp s k = [] \<and> \<not> is_reply (a_pc s k)) \<or>
     (msgq_req s k = [] \<and> msgq_rsp s k = [] \<and> is_reply (a_pc s k)) \<or>
     (msgq_req s k = [] \<and> (\<exists>r. msgq_rsp s k = [r]) \<and> \<not> is_reply (a_pc s k))"

text \<open>At most one message is on its way, and it belongs to the call of the control thread.\<close>

definition ctl_ok :: "app \<Rightarrow> bool" where
  "ctl_ok s = (case c_pc s of
      CIdle \<Rightarrow> all_quiet s {}
    | CSend k req x \<Rightarrow> all_quiet s {} \<and> thr_running s k \<and> k < RTE_MAX_LCORE \<and> x < length (pipeline_list s) \<and> req_fits s k x req
    | CRecv k req x \<Rightarrow> all_quiet s {k} \<and> in_flight s k req \<and>
        (answer s k = None \<longleftrightarrow> msgq_req s k \<noteq> []) \<and> answer s k \<in> {None, Some 0, Some (-1)} \<and>
        (\<forall>p. req = PIPELINE_DISABLE p \<longrightarrow> answer s k \<noteq> Some (-1)) \<and>
        thr_running s k \<and> k < RTE_MAX_LCORE \<and> x < length (pipeline_list s) \<and> req_fits s k x req)"

text \<open>The core on which a pipeline is to be found: the call in progress counts once the data plane thread has handled it.\<close>

definition core_of :: "app \<Rightarrow> nat \<Rightarrow> nat option" where
  "core_of s x =
     (let plain = (if pl_enabled (pipeline_list s ! x) then Some (unat (pl_thread_id (pipeline_list s ! x))) else None) in
      case c_pc s of
        CRecv k (PIPELINE_ENABLE _ _) y \<Rightarrow> if y = x \<and> answer s k = Some 0 then Some k else plain
      | CRecv k (PIPELINE_DISABLE _) y \<Rightarrow> if y = x \<and> answer s k = Some 0 then None else plain
      | _ \<Rightarrow> plain)"

definition threads_ok :: "app \<Rightarrow> bool" where
  "threads_ok s \<longleftrightarrow> (\<forall>k. td_ok (thread_data s k) \<and> td_time_next_min (thread_data s k) = td_time_next (thread_data s k) \<and>
     (\<forall>i j. a_pc s k = DRun i j \<longrightarrow> unat j \<le> unat (td_n_pipelines (thread_data s k))) \<and>
     (\<not> thr_running s k \<longrightarrow> a_pc s k = DRun 0 0) \<and> (thr_running s k \<longrightarrow> thr_enabled s k))"

definition placed :: "app \<Rightarrow> bool" where
  "placed s \<longleftrightarrow> distinct (map pl_p (pipeline_list s)) \<and>
     (\<forall>k. distinct (rows (thread_data s k)) \<and> set (rows (thread_data s k)) \<subseteq> set (map pl_p (pipeline_list s))) \<and>
     (\<forall>x < length (pipeline_list s). \<forall>k.
        pl_p (pipeline_list s ! x) \<in> set (rows (thread_data s k)) \<longleftrightarrow> core_of s x = Some k)"

definition app_inv :: "app \<Rightarrow> bool" where
  "app_inv s \<longleftrightarrow> threads_ok s \<and> ctl_ok s \<and> placed s"

lemma rows_zero_thread [simp]: "rows (zero_thread\<lparr>td_timer_period := a, td_time_next := b, td_time_next_min := c\<rparr>) = []"
  "rows zero_thread = []"
  by (simp_all add: rows_def zero_thread_def)

lemma app_inv_init: "app_inv (thread_init hz now workers)"
  by (auto simp: app_inv_def threads_ok_def ctl_ok_def placed_def thread_init_def quiet_def all_quiet_def Let_def td_ok_def
      zero_thread_def rows_def)

lemma find_from_Some:
  assumes "find_from ps name i = Some x"
  shows "i \<le> x \<and> x - i < length ps"
  using assms by (induction ps arbitrary: i) (fastforce split: if_splits)+

lemma pipeline_find_Some: "pipeline_find ps name = Some x \<Longrightarrow> x < length ps"
  using find_from_Some [of ps name 0 x] by (simp add: pipeline_find_def)

text \<open>How a change of the table of one core shows in the other parts of the invariant.\<close>

lemma threads_okD:
  assumes "threads_ok s"
  shows "td_ok (thread_data s k)" and "td_time_next_min (thread_data s k) = td_time_next (thread_data s k)"
    and "a_pc s k = DRun i j \<Longrightarrow> unat j \<le> unat (td_n_pipelines (thread_data s k))"
    and "\<not> thr_running s k \<Longrightarrow> a_pc s k = DRun 0 0" and "thr_running s k \<Longrightarrow> thr_enabled s k"
  using assms by (simp_all add: threads_ok_def)

lemma row_del_from_start:
  assumes "td_ok t"
  obtains b t' where "row_del p 0 t = Some (b, t')" and "td_ok t'" and "mset (rows t') = mset (rows t) - {#p#}"
    and "b \<longleftrightarrow> p \<in> set (rows t)" and "td_time_next t' = td_time_next t" and "td_time_next_min t' = td_time_next_min t"
    and "td_timer_period t' = td_timer_period t"
  using row_del_ok [of t 0 p] assms by auto

lemma set_rows_del:
  assumes "mset (rows t') = mset (rows t) - {#p#}" and "distinct (rows t)"
  shows "set (rows t') = set (rows t) - {p}" and "distinct (rows t')"
proof -
  have m: "mset (rows t') = mset (remove1 p (rows t))" by (simp add: assms(1))
  show "set (rows t') = set (rows t) - {p}" using mset_eq_setD [OF m] assms(2) by simp
  show "distinct (rows t')" using mset_eq_imp_distinct_iff [OF m] assms(2) by (simp add: distinct_remove1)
qed

text \<open>What an enable and a disable of pipeline \<open>x\<close> on core \<open>k\<close> do to the places of the pipelines.\<close>

lemma placed_enable:
  assumes "placed s" and "x < length (pipeline_list s)" and "core_of s x = None"
    and "pipeline_list s' = pipeline_list s \<or> pipeline_list s' =
       (pipeline_list s)[x := (pipeline_list s ! x)\<lparr>pl_thread_id := tid, pl_enabled := True\<rparr>]"
    and "\<And>k'. rows (thread_data s' k') =
       (if k' = k then rows (thread_data s k) @ [pl_p (pipeline_list s ! x)] else rows (thread_data s k'))"
    and "\<And>y. y < length (pipeline_list s) \<Longrightarrow> core_of s' y = (if y = x then Some k else core_of s y)"
  shows "placed s'"
proof -
  have ps: "map pl_p (pipeline_list s') = map pl_p (pipeline_list s)"
    using assms(2,4) by (auto simp: map_update list_update_same_conv)
  have len: "length (pipeline_list s') = length (pipeline_list s)" using assms(4) by auto
  have same: "pl_p (pipeline_list s' ! y) = pl_p (pipeline_list s ! y)" if "y < length (pipeline_list s)" for y
    using arg_cong [OF ps, of "\<lambda>l. l ! y"] that len by simp
  have d: "distinct (map pl_p (pipeline_list s))" using assms(1) by (simp add: placed_def)
  have new: "pl_p (pipeline_list s ! x) \<notin> set (rows (thread_data s k'))" for k'
    using assms(1-3) by (simp add: placed_def)
  have other: "pl_p (pipeline_list s ! y) \<noteq> pl_p (pipeline_list s ! x)"
    if "y < length (pipeline_list s)" "y \<noteq> x" for y
    using nth_eq_iff_index_eq [OF d, of y x] that assms(2) by simp
  show ?thesis
    unfolding placed_def ps len
    using assms(1,2,6) new other same by (simp add: placed_def assms(5))
qed

lemma placed_disable:
  assumes "placed s" and "x < length (pipeline_list s)" and "core_of s x = Some k"
    and "pipeline_list s' = pipeline_list s \<or> pipeline_list s' = (pipeline_list s)[x := (pipeline_list s ! x)\<lparr>pl_enabled := False\<rparr>]"
    and "mset (rows (thread_data s' k)) = mset (rows (thread_data s k)) - {#pl_p (pipeline_list s ! x)#}"
    and "\<And>k'. k' \<noteq> k \<Longrightarrow> rows (thread_data s' k') = rows (thread_data s k')"
    and "\<And>y. y < length (pipeline_list s) \<Longrightarrow> core_of s' y = (if y = x then None else core_of s y)"
  shows "placed s'"
proof -
  have ps: "map pl_p (pipeline_list s') = map pl_p (pipeline_list s)"
    using assms(2,4) by (auto simp: map_update list_update_same_conv)
  have len: "length (pipeline_list s') = length (pipeline_list s)" using assms(4) by auto
  have same: "pl_p (pipeline_list s' ! y) = pl_p (pipeline_list s ! y)" if "y < length (pipeline_list s)" for y
    using arg_cong [OF ps, of "\<lambda>l. l ! y"] that len by simp
  have d: "distinct (map pl_p (pipeline_list s))" using assms(1) by (simp add: placed_def)
  have other: "pl_p (pipeline_list s ! y) \<noteq> pl_p (pipeline_list s ! x)"
    if "y < length (pipeline_list s)" "y \<noteq> x" for y
    using nth_eq_iff_index_eq [OF d, of y x] that assms(2) by simp
  have dk: "distinct (rows (thread_data s k))" using assms(1) by (simp add: placed_def)
  note del = set_rows_del [OF assms(5) dk]
  have gone: "pl_p (pipeline_list s ! x) \<notin> set (rows (thread_data s' k'))" for k'
    using del(1) assms(1,2,3) assms(6) [of k'] by (cases "k' = k") (simp_all add: placed_def)
  have stays: "pl_p (pipeline_list s ! y) \<in> set (rows (thread_data s' k')) \<longleftrightarrow>
      pl_p (pipeline_list s ! y) \<in> set (rows (thread_data s k'))"
    if "y < length (pipeline_list s)" "y \<noteq> x" for y k'
    using del(1) other [OF that] assms(6) [of k'] by (cases "k' = k") auto
  have "distinct (rows (thread_data s' k'))" "set (rows (thread_data s' k')) \<subseteq> set (map pl_p (pipeline_list s))" for k'
    using assms(1) del assms(6) [of k'] by (cases "k' = k"; auto simp: placed_def)+
  then show ?thesis
    unfolding placed_def ps len
    using assms(1,7) gone stays same by (simp add: placed_def)
qed

lemma placed_same:
  assumes "placed s" and "map pl_p (pipeline_list s') = map pl_p (pipeline_list s)"
    and "\<And>k. rows (thread_data s' k) = rows (thread_data s k)"
    and "\<And>y. y < length (pipeline_list s) \<Longrightarrow> core_of s' y = core_of s y"
  shows "placed s'"
proof -
  have len: "length (pipeline_list s') = length (pipeline_list s)" using arg_cong [OF assms(2), of length] by simp
  have same: "pl_p (pipeline_list s' ! y) = pl_p (pipeline_list s ! y)" if "y < length (pipeline_list s)" for y
    using arg_cong [OF assms(2), of "\<lambda>l. l ! y"] that len by simp
  show ?thesis
    unfolding placed_def assms(2,3) len using assms(1,4) same by (simp add: placed_def)
qed

lemma core_of_simps [simp]:
  "core_of (s\<lparr>c_pc := CIdle\<rparr>) x =
     (if pl_enabled (pipeline_list s ! x) then Some (unat (pl_thread_id (pipeline_list s ! x))) else None)"
  "core_of (s\<lparr>c_pc := CSend k req y\<rparr>) x =
     (if pl_enabled (pipeline_list s ! x) then Some (unat (pl_thread_id (pipeline_list s ! x))) else None)"
  by (simp_all add: core_of_def)

lemma core_of_idle: "c_pc s = CIdle \<Longrightarrow> core_of s x =
     (if pl_enabled (pipeline_list s ! x) then Some (unat (pl_thread_id (pipeline_list s ! x))) else None)"
  by (simp add: core_of_def)

lemma threads_ok_more [simp]:
  "threads_ok (s\<lparr>c_pc := c\<rparr>) = threads_ok s" "threads_ok (s\<lparr>c_ret := v\<rparr>) = threads_ok s"
  "threads_ok (s\<lparr>pipeline_list := ps\<rparr>) = threads_ok s" "threads_ok (s\<lparr>msgq_req := q\<rparr>) = threads_ok s"
  "threads_ok (s\<lparr>msgq_rsp := q'\<rparr>) = threads_ok s"
  by (simp_all add: threads_ok_def)

lemma quiet_more [simp]:
  "quiet (s\<lparr>c_pc := c\<rparr>) = quiet s" "quiet (s\<lparr>c_ret := v\<rparr>) = quiet s" "quiet (s\<lparr>pipeline_list := ps\<rparr>) = quiet s"
  "quiet (s\<lparr>thr_running := r\<rparr>) = quiet s" "quiet (s\<lparr>thread_data := d\<rparr>) = quiet s"
  by (simp_all add: quiet_def fun_eq_iff)

lemma all_quiet_more [simp]:
  "all_quiet (s\<lparr>c_pc := c\<rparr>) = all_quiet s" "all_quiet (s\<lparr>c_ret := v\<rparr>) = all_quiet s"
  "all_quiet (s\<lparr>pipeline_list := ps\<rparr>) = all_quiet s" "all_quiet (s\<lparr>thr_running := r\<rparr>) = all_quiet s"
  "all_quiet (s\<lparr>thread_data := d\<rparr>) = all_quiet s"
  by (simp_all add: all_quiet_def fun_eq_iff)

lemma return_inv:
  assumes "app_inv s" and "c_pc s = CIdle"
  shows "app_inv (s\<lparr>c_pc := CIdle, c_ret := v\<rparr>)"
proof -
  have "ctl_ok (s\<lparr>c_pc := CIdle, c_ret := v\<rparr>)"
    using assms by (simp add: app_inv_def ctl_ok_def)
  moreover have "placed (s\<lparr>c_pc := CIdle, c_ret := v\<rparr>)"
    using assms by - (rule placed_same [of s], simp_all add: app_inv_def core_of_def)
  ultimately show ?thesis using assms by (simp add: app_inv_def)
qed

lemma threads_ok_table:
  assumes "threads_ok s" and "td_ok t" and "td_time_next t = td_time_next (thread_data s k)"
    and "td_time_next_min t = td_time_next_min (thread_data s k)" and "a_pc s k = DRun 0 0"
  shows "threads_ok (s\<lparr>thread_data := (thread_data s)(k := t)\<rparr>)"
  using assms by (simp add: threads_ok_def)

lemma Launch_inv: "app_inv s \<Longrightarrow> c_pc s = CIdle \<Longrightarrow> app_inv (s\<lparr>thr_running := thr_enabled s\<rparr>)"
proof -
  assume inv: "app_inv s" and idle: "c_pc s = CIdle"
  have "threads_ok (s\<lparr>thr_running := thr_enabled s\<rparr>)"
    using inv unfolding app_inv_def threads_ok_def by (simp, blast)
  moreover have "ctl_ok (s\<lparr>thr_running := thr_enabled s\<rparr>)"
    using inv idle by (simp add: app_inv_def ctl_ok_def)
  moreover have "placed (s\<lparr>thr_running := thr_enabled s\<rparr>)"
    using inv idle by - (rule placed_same [of s], simp_all add: app_inv_def core_of_def)
  ultimately show ?thesis by (simp add: app_inv_def)
qed

lemma Create_inv:
  assumes inv: "app_inv s" and idle: "c_pc s = CIdle" and "p \<notin> set (map pl_p (pipeline_list s))"
    and "pl_p o' = p" and "\<not> pl_enabled o'"
  shows "app_inv (s\<lparr>pipeline_list := pipeline_list s @ [o']\<rparr>)" (is "app_inv ?s")
proof -
  have "ctl_ok ?s" using inv idle by (simp add: app_inv_def ctl_ok_def)
  moreover have "placed ?s"
  proof -
    have pl: "placed s" using inv by (simp add: app_inv_def)
    then have r: "distinct (rows (thread_data s k))" "set (rows (thread_data s k)) \<subseteq> set (map pl_p (pipeline_list s))" for k
      by (simp_all add: placed_def)
    show ?thesis
      unfolding placed_def
    proof (intro conjI allI impI)
      show "distinct (map pl_p (pipeline_list ?s))" using pl assms(3,4) by (simp add: placed_def)
      show "distinct (rows (thread_data ?s k))" "set (rows (thread_data ?s k)) \<subseteq> set (map pl_p (pipeline_list ?s))" for k
        using r [of k] by auto
      fix x k
      assume x: "x < length (pipeline_list ?s)"
      show "pl_p (pipeline_list ?s ! x) \<in> set (rows (thread_data ?s k)) \<longleftrightarrow> core_of ?s x = Some k"
      proof (cases "x < length (pipeline_list s)")
        case True
        then show ?thesis using pl idle by (simp add: placed_def core_of_def nth_append)
      next
        case False
        then have "pipeline_list ?s ! x = o'" using x by (simp add: nth_append less_Suc_eq)
        moreover have "p \<notin> set (rows (thread_data s k))" using r(2) [of k] assms(3) by auto
        ultimately show ?thesis using assms(4,5) idle by (simp add: core_of_def)
      qed
    qed
  qed
  ultimately show ?thesis using inv by (simp add: app_inv_def)
qed

lemma idle_quiet: "app_inv s \<Longrightarrow> c_pc s = CIdle \<Longrightarrow> quiet s k"
  by (simp add: app_inv_def ctl_ok_def all_quiet_def)

lemma start_request_inv:
  assumes inv: "app_inv s" and idle: "c_pc s = CIdle" and "thr_running s k" and "k < RTE_MAX_LCORE"
    and "x < length (pipeline_list s)" and "req_fits s k x req"
  shows "app_inv (s\<lparr>c_pc := CSend k req x\<rparr>)"
proof -
  have "req_fits (s\<lparr>c_pc := CSend k req x\<rparr>) k x req" using assms(6) by (cases req) auto
  then have "ctl_ok (s\<lparr>c_pc := CSend k req x\<rparr>)"
    using assms by (simp add: app_inv_def ctl_ok_def)
  moreover have "placed (s\<lparr>c_pc := CSend k req x\<rparr>)"
    using inv idle by - (rule placed_same [of s], simp_all add: app_inv_def core_of_idle)
  ultimately show ?thesis using inv by (simp add: app_inv_def)
qed

lemma direct_enable_inv:
  assumes inv: "app_inv s" and idle: "c_pc s = CIdle" and off: "\<not> thr_running s (unat tid)"
    and x: "x < length (pipeline_list s)" and dis: "\<not> pl_enabled (pipeline_list s ! x)"
    and t: "td_ok t" "rows t = rows (thread_data s (unat tid)) @ [pl_p (pipeline_list s ! x)]"
    "td_time_next t = td_time_next (thread_data s (unat tid))" "td_time_next_min t = td_time_next_min (thread_data s (unat tid))"
  shows "app_inv (set_enabled x tid (s\<lparr>thread_data := (thread_data s)(unat tid := t)\<rparr>))" (is "app_inv ?s")
proof -
  have ok: "threads_ok s" "ctl_ok s" "placed s" using inv by (simp_all add: app_inv_def)
  have "threads_ok ?s"
    unfolding set_enabled_def using threads_ok_table [OF ok(1) t(1,3,4)] threads_okD(4) [OF ok(1) off] by simp
  moreover have "ctl_ok ?s" using ok(2) idle by (simp add: ctl_ok_def set_enabled_def)
  moreover have "placed ?s"
    using x dis idle t(2)
    by (intro placed_enable [OF ok(3) x, of ?s tid "unat tid"]) (simp_all add: set_enabled_def core_of_def nth_list_update)
  ultimately show ?thesis by (simp add: app_inv_def)
qed

lemma direct_disable_inv:
  assumes inv: "app_inv s" and idle: "c_pc s = CIdle" and off: "\<not> thr_running s k"
    and x: "x < length (pipeline_list s)" and en: "pl_enabled (pipeline_list s ! x)" "unat (pl_thread_id (pipeline_list s ! x)) = k"
    and t: "td_ok t" "mset (rows t) = mset (rows (thread_data s k)) - {#pl_p (pipeline_list s ! x)#}"
    "td_time_next t = td_time_next (thread_data s k)" "td_time_next_min t = td_time_next_min (thread_data s k)"
  shows "app_inv (set_disabled x (s\<lparr>thread_data := (thread_data s)(k := t)\<rparr>))" (is "app_inv ?s")
proof -
  have ok: "threads_ok s" "ctl_ok s" "placed s" using inv by (simp_all add: app_inv_def)
  have "threads_ok ?s"
    unfolding set_disabled_def using threads_ok_table [OF ok(1) t(1,3,4)] threads_okD(4) [OF ok(1) off] by simp
  moreover have "ctl_ok ?s" using ok(2) idle by (simp add: ctl_ok_def set_disabled_def)
  moreover have "placed ?s"
    using x en idle t(2)
    by (intro placed_disable [OF ok(3) x, of k ?s]) (simp_all add: set_disabled_def core_of_def nth_list_update)
  ultimately show ?thesis by (simp add: app_inv_def)
qed

lemma Enable_inv:
  assumes inv: "app_inv s" and idle: "c_pc s = CIdle" and nd: "no_double_enable (Enable alloc now tid name) s"
  shows "\<exists>t. thread_pipeline_enable alloc now tid name s = Some t \<and> app_inv t"
proof (cases "pipeline_find (pipeline_list s) name")
  case None
  then show ?thesis using return_inv [OF inv idle] by (simp add: thread_pipeline_enable_def)
next
  case (Some x)
  note x = pipeline_find_Some [OF Some]
  have dis: "\<not> pl_enabled (pipeline_list s ! x)" using nd Some by simp
  let ?t = "thread_data s (unat tid)"
  have tok: "td_ok ?t" using inv by (simp add: app_inv_def threads_ok_def)
  have of256: "of_nat THREAD_PIPELINES_MAX \<le> td_n_pipelines ?t \<longleftrightarrow> THREAD_PIPELINES_MAX \<le> unat (td_n_pipelines ?t)"
    by (simp add: word_le_nat_alt THREAD_PIPELINES_MAX_def)
  show ?thesis
  proof (cases "RTE_MAX_LCORE \<le> unat tid \<or> \<not> thr_enabled s (unat tid)")
    case True
    then show ?thesis using Some return_inv [OF inv idle] by (auto simp: thread_pipeline_enable_def Let_def)
  next
    case valid: False
    show ?thesis
    proof (cases "thr_running s (unat tid)")
      case running: True
      have "app_inv (s\<lparr>c_pc := CSend (unat tid) (PIPELINE_ENABLE (pl_p (pipeline_list s ! x)) (pl_timer_period_ms (pipeline_list s ! x))) x\<rparr>)"
        using start_request_inv [OF inv idle running _ x] valid dis by simp
      then show ?thesis
        using Some valid running return_inv [OF inv idle] by (auto simp: thread_pipeline_enable_def Let_def)
    next
      case off: False
      show ?thesis
      proof (cases "THREAD_PIPELINES_MAX \<le> unat (td_n_pipelines ?t)")
        case True
        then show ?thesis
          using Some valid off return_inv [OF inv idle] by (auto simp: thread_pipeline_enable_def Let_def of256)
      next
        case False
        then obtain t where t: "row_add (tsc_hz s) now (pl_p (pipeline_list s ! x)) (pl_timer_period_ms (pipeline_list s ! x)) ?t = Some t"
          "td_ok t" "rows t = rows ?t @ [pl_p (pipeline_list s ! x)]" "td_time_next t = td_time_next ?t"
          "td_time_next_min t = td_time_next_min ?t"
          using row_add_ok [OF tok] by (metis not_le_imp_less)
        let ?s = "set_enabled x tid (s\<lparr>thread_data := (thread_data s)(unat tid := t)\<rparr>)"
        have "app_inv ?s" by (rule direct_enable_inv [OF inv idle off x dis t(2-5)])
        moreover have "c_pc ?s = CIdle" using idle by (simp add: set_enabled_def)
        ultimately have "app_inv (?s\<lparr>c_pc := CIdle, c_ret := 0\<rparr>)" by (rule return_inv)
        then show ?thesis
          using Some valid off False t(1) by (simp add: thread_pipeline_enable_def Let_def of256)
      qed
    qed
  qed
qed

lemma Disable_inv:
  assumes inv: "app_inv s" and idle: "c_pc s = CIdle"
  shows "\<exists>t. thread_pipeline_disable alloc tid name s = Some t \<and> app_inv t"
proof (cases "pipeline_find (pipeline_list s) name")
  case None
  then show ?thesis using return_inv [OF inv idle] by (simp add: thread_pipeline_disable_def)
next
  case (Some x)
  note x = pipeline_find_Some [OF Some]
  let ?p = "pipeline_list s ! x" and ?t = "thread_data s (unat tid)"
  have tok: "td_ok ?t" using inv by (simp add: app_inv_def threads_ok_def)
  show ?thesis
  proof (cases "RTE_MAX_LCORE \<le> unat tid \<or> \<not> thr_enabled s (unat tid) \<or> \<not> pl_enabled ?p \<or> pl_thread_id ?p \<noteq> tid")
    case True
    then show ?thesis using Some return_inv [OF inv idle] by (auto simp: thread_pipeline_disable_def Let_def)
  next
    case valid: False
    show ?thesis
    proof (cases "thr_running s (unat tid)")
      case running: True
      have "app_inv (s\<lparr>c_pc := CSend (unat tid) (PIPELINE_DISABLE (pl_p ?p)) x\<rparr>)"
        using start_request_inv [OF inv idle running _ x] valid by simp
      then show ?thesis
        using Some valid running return_inv [OF inv idle] by (auto simp: thread_pipeline_disable_def Let_def)
    next
      case off: False
      obtain b t where t: "row_del (pl_p ?p) 0 ?t = Some (b, t)" "td_ok t" "mset (rows t) = mset (rows ?t) - {#pl_p ?p#}"
        "b \<longleftrightarrow> pl_p ?p \<in> set (rows ?t)" "td_time_next t = td_time_next ?t" "td_time_next_min t = td_time_next_min ?t"
        by (rule row_del_from_start [OF tok])
      have "core_of s x = Some (unat tid)" using valid idle by (simp add: core_of_idle)
      then have b: b using t(4) inv x by (simp add: app_inv_def placed_def)
      let ?s = "set_disabled x (s\<lparr>thread_data := (thread_data s)(unat tid := t)\<rparr>)"
      have "app_inv ?s" using valid by (intro direct_disable_inv [OF inv idle off x _ _ t(2,3,5,6)]) auto
      moreover have "c_pc ?s = CIdle" using idle by (simp add: set_disabled_def)
      ultimately have "app_inv (?s\<lparr>c_pc := CIdle, c_ret := 0\<rparr>)" by (rule return_inv)
      then show ?thesis
        using Some valid off t(1) b by (simp add: thread_pipeline_disable_def Let_def)
    qed
  qed
qed

text \<open>The control thread in a call.\<close>

lemma send_inv:
  assumes inv: "app_inv s" and c: "c_pc s = CSend k req x"
  shows "\<exists>t. thread_msg_send_recv s = Some t \<and> app_inv t \<and> c_pc t = CRecv k req x \<and> msgq_req t k = [req]"
proof -
  let ?s = "s\<lparr>msgq_req := (msgq_req s)(k := msgq_req s k @ [req]), c_pc := CRecv k req x\<rparr>"
  have ok: "threads_ok s" "ctl_ok s" "placed s" using inv by (simp_all add: app_inv_def)
  have q: "all_quiet s {}" "thr_running s k" "k < RTE_MAX_LCORE" "x < length (pipeline_list s)" "req_fits s k x req"
    using ok(2) by (simp_all add: ctl_ok_def c)
  have e: "msgq_req s k = []" "msgq_rsp s k = []" "\<not> is_reply (a_pc s k)"
    using q(1) by (simp_all add: all_quiet_def quiet_def)
  have no_answer: "answer ?s k = None"
    using e by (simp add: answer_def)
  have "all_quiet ?s {k}" using q(1) by (simp add: all_quiet_def quiet_def)
  moreover have "in_flight ?s k req" using e by (simp add: in_flight_def)
  moreover have "req_fits ?s k x req" using q(5) by (cases req) auto
  ultimately have "ctl_ok ?s" using q e no_answer by (simp add: ctl_ok_def)
  moreover have "placed ?s"
  proof (rule placed_same [OF ok(3)])
    show "core_of ?s y = core_of s y" for y
      using no_answer c by (cases req) (simp_all add: core_of_def)
  qed simp_all
  ultimately have "app_inv ?s" using ok(1) by (simp add: app_inv_def)
  then show ?thesis using e c by (simp add: thread_msg_send_recv_def ring_full_def THREAD_MSGQ_SIZE_def)
qed

lemma recv_inv:
  assumes inv: "app_inv s" and c: "c_pc s = CRecv k req x"
  shows "\<exists>t. thread_msg_send_recv s = Some t \<and> app_inv t"
proof (cases "msgq_rsp s k")
  case Nil
  then show ?thesis using c inv by (simp add: thread_msg_send_recv_def)
next
  case (Cons r rs)
  have ok: "threads_ok s" "ctl_ok s" "placed s" using inv by (simp_all add: app_inv_def)
  have q: "all_quiet s {k}" "in_flight s k req" "answer s k \<in> {None, Some 0, Some (-1)}" "k < RTE_MAX_LCORE"
     "x < length (pipeline_list s)" "req_fits s k x req"
    using ok(2) by (simp_all add: ctl_ok_def c) auto
  have a: "answer s k = Some r" using Cons by (simp add: answer_def)
  have rs: "rs = []" "msgq_req s k = []" "\<not> is_reply (a_pc s k)" using q(2) Cons by (auto simp: in_flight_def)
  let ?q = "s\<lparr>msgq_rsp := (msgq_rsp s)(k := rs)\<rparr>"
  let ?s = "request_completion k req x r ?q\<lparr>c_pc := CIdle, c_ret := r\<rparr>"
  have "all_quiet ?q {}" using q(1) rs by (auto simp: all_quiet_def quiet_def)
  moreover have "pipeline_list ?s = (if r \<noteq> 0 then pipeline_list s else case req of
      PIPELINE_ENABLE _ _ \<Rightarrow> (pipeline_list s)[x := (pipeline_list s ! x)\<lparr>pl_thread_id := of_nat k, pl_enabled := True\<rparr>]
    | PIPELINE_DISABLE _ \<Rightarrow> (pipeline_list s)[x := (pipeline_list s ! x)\<lparr>pl_enabled := False\<rparr>])"
    and eq: "?s = ?q\<lparr>c_pc := CIdle, c_ret := r, pipeline_list := pipeline_list ?s\<rparr>"
    by (simp_all add: request_completion_def set_enabled_def set_disabled_def split: thread_msg_req.splits)
  then have ps: "pipeline_list ?s = (if r \<noteq> 0 then pipeline_list s else case req of
      PIPELINE_ENABLE _ _ \<Rightarrow> (pipeline_list s)[x := (pipeline_list s ! x)\<lparr>pl_thread_id := of_nat k, pl_enabled := True\<rparr>]
    | PIPELINE_DISABLE _ \<Rightarrow> (pipeline_list s)[x := (pipeline_list s ! x)\<lparr>pl_enabled := False\<rparr>])" by blast
  ultimately have "ctl_ok ?s" by (subst eq) (simp add: ctl_ok_def)
  moreover have "threads_ok ?s" using ok(1) by (subst eq) simp
  moreover have "placed ?s"
  proof (rule placed_same [OF ok(3)])
    show "map pl_p (pipeline_list ?s) = map pl_p (pipeline_list s)"
      unfolding ps using q(5) by (simp add: map_update list_update_same_conv split: thread_msg_req.split)
    show "rows (thread_data ?s k') = rows (thread_data s k')" for k' by (subst eq) simp
    have k32: "unat (of_nat k :: u32) = k" using q(4) by (simp add: RTE_MAX_LCORE_def unat_of_nat)
    show "core_of ?s y = core_of s y" for y
      using q(3,5,6) a c k32 ps
      by (cases req; cases "y = x") (auto simp: core_of_def)
  qed
  ultimately have "app_inv ?s" by (simp add: app_inv_def)
  then show ?thesis using Cons c by (simp add: thread_msg_send_recv_def)
qed

text \<open>The data plane thread in a round, and with a request.\<close>

lemma req_fits_pipelines: "pipeline_list t = pipeline_list s \<Longrightarrow> req_fits t k x req = req_fits s k x req"
  by (cases req) simp_all

lemma core_of_cong:
  assumes "c_pc s' = c_pc s" and "pipeline_list s' = pipeline_list s" and "answer s' = answer s"
  shows "core_of s' = core_of s"
  by (rule ext) (simp only: core_of_def assms)

text \<open>A step of a thread that moves no message and leaves the rows alone.\<close>

lemma round_inv:
  assumes inv: "app_inv s" and run: "thr_running s k" and pc: "\<not> is_reply (a_pc s k)" "\<not> is_reply pc"
    and t: "td_ok t" "rows t = rows (thread_data s k)" "td_time_next_min t = td_time_next t"
    and j: "\<And>i j. pc = DRun i j \<Longrightarrow> unat j \<le> unat (td_n_pipelines t)"
    and s': "s' = s\<lparr>thread_data := (thread_data s)(k := t), a_pc := (a_pc s)(k := pc), a_log := l\<rparr>"
  shows "app_inv s'"
proof -
  have ok: "threads_ok s" "ctl_ok s" "placed s" using inv by (simp_all add: app_inv_def)
  have f [simp]: "thread_data s' = (thread_data s)(k := t)" "a_pc s' = (a_pc s)(k := pc)" "msgq_req s' = msgq_req s"
    "msgq_rsp s' = msgq_rsp s" "pipeline_list s' = pipeline_list s" "c_pc s' = c_pc s" "thr_running s' = thr_running s"
    "thr_enabled s' = thr_enabled s"
    by (simp_all add: s')
  have ans: "answer s' = answer s"
  proof
    show "answer s' k' = answer s k'" for k' using pc by (cases "k' = k") (simp_all add: answer_def split: list.split)
  qed
  have "quiet s' = quiet s" using pc by (simp add: quiet_def fun_eq_iff)
  then have q: "all_quiet s' K = all_quiet s K" for K by (simp add: all_quiet_def)
  have fl: "in_flight s' k' r = in_flight s k' r" for k' r using pc by (simp add: in_flight_def)
  have req: "req_fits s' k' x r = req_fits s k' x r" for k' x r by (rule req_fits_pipelines) simp
  have "threads_ok s'" using ok(1) run t(1,3) j by (simp add: threads_ok_def)
  moreover have "ctl_ok s'"
    using ok(2) by (simp add: ctl_ok_def ans q req fl split: ctl_pc.splits) auto
  moreover have "placed s'"
    by (rule placed_same [OF ok(3)]) (simp_all add: t(2) core_of_cong [of s' s] ans)
  ultimately show ?thesis by (simp add: app_inv_def)
qed

lemma handle_ok:
  assumes t: "td_ok t"
  shows "\<exists>rsp t'. thread_msg_dispatch hz now req t = Some (rsp, t') \<and> td_ok t' \<and>
     td_time_next t' = td_time_next t \<and> td_time_next_min t' = td_time_next_min t \<and>
     (case req of PIPELINE_ENABLE p _ \<Rightarrow> rsp = -1 \<and> t' = t \<or> rsp = 0 \<and> rows t' = rows t @ [p]
      | PIPELINE_DISABLE p \<Rightarrow> rsp = 0 \<and> mset (rows t') = mset (rows t) - {#p#})"
proof (cases req)
  case (PIPELINE_ENABLE p ms)
  show ?thesis
  proof (cases "of_nat THREAD_PIPELINES_MAX \<le> td_n_pipelines t")
    case True
    then show ?thesis using t by (simp add: PIPELINE_ENABLE thread_msg_handle_pipeline_enable_def)
  next
    case False
    then have "unat (td_n_pipelines t) < THREAD_PIPELINES_MAX" by (simp add: word_le_nat_alt THREAD_PIPELINES_MAX_def)
    then show ?thesis
      using row_add_ok [OF t, of hz now p ms] False
      by (auto simp: PIPELINE_ENABLE thread_msg_handle_pipeline_enable_def)
  qed
next
  case (PIPELINE_DISABLE p)
  show ?thesis
    by (rule row_del_from_start [OF t, of p]) (simp add: PIPELINE_DISABLE thread_msg_handle_pipeline_disable_def)
qed

lemma handle_inv:
  assumes inv: "app_inv s" and run: "thr_running s k" and pc: "a_pc s k = DHandle i m" and req: "msgq_req s k = req # reqs"
  shows "\<exists>t. thread_main_step now k s = Some t \<and> app_inv t \<and> (\<exists>rsp. a_pc t k = DReply i m rsp)"
proof -
  have ok: "threads_ok s" "ctl_ok s" "placed s" using inv by (simp_all add: app_inv_def)
  have notq: "\<not> quiet s k" using req by (simp add: quiet_def)
  have "\<not> all_quiet s {}" using notq by (auto simp: all_quiet_def)
  then obtain k1 r1 x where c1: "c_pc s = CRecv k1 r1 x" and q1: "all_quiet s {k1}" "in_flight s k1 r1"
    using ok(2) by (cases "c_pc s") (simp_all add: ctl_ok_def)
  have k1: "k1 = k" using q1(1) notq by (auto simp: all_quiet_def)
  have c: "c_pc s = CRecv k req x" using q1(2) req by (auto simp: k1 c1 in_flight_def)
  have q: "all_quiet s {k}" "in_flight s k req" "answer s k = None" "k < RTE_MAX_LCORE"
     "x < length (pipeline_list s)" "req_fits s k x req"
    using ok(2) req by (simp_all add: ctl_ok_def c)
  have e: "reqs = []" "msgq_rsp s k = []" using q(2) req by (auto simp: in_flight_def)
  let ?t = "thread_data s k"
  note tk = threads_okD [OF ok(1), of k]
  obtain rsp t' where d: "thread_msg_dispatch (tsc_hz s) now req ?t = Some (rsp, t')" "td_ok t'"
     "td_time_next t' = td_time_next ?t" "td_time_next_min t' = td_time_next_min ?t"
     "case req of PIPELINE_ENABLE p _ \<Rightarrow> rsp = -1 \<and> t' = ?t \<or> rsp = 0 \<and> rows t' = rows ?t @ [p]
      | PIPELINE_DISABLE p \<Rightarrow> rsp = 0 \<and> mset (rows t') = mset (rows ?t) - {#p#}"
    using handle_ok [OF tk(1), of "tsc_hz s" now req] by blast
  define s' where "s' = upd_thread k t' (DReply i m rsp) (s\<lparr>msgq_req := (msgq_req s)(k := [])\<rparr>)"
  have f [simp]: "thread_data s' = (thread_data s)(k := t')" "a_pc s' = (a_pc s)(k := DReply i m rsp)"
    "msgq_req s' = (msgq_req s)(k := [])" "msgq_rsp s' = msgq_rsp s" "pipeline_list s' = pipeline_list s"
    "c_pc s' = c_pc s" "thr_running s' = thr_running s" "thr_enabled s' = thr_enabled s"
    by (simp_all add: s'_def)
  have ran: "thread_main_step now k s = Some s'" by (simp add: thread_main_step_def pc req d(1) s'_def e)
  have ans: "answer s' k' = (if k' = k then Some rsp else answer s k')" for k'
    using e by (simp add: answer_def split: list.splits)
  have "threads_ok s'" using ok(1) d(2,3,4) run by (simp add: threads_ok_def)
  moreover have "ctl_ok s'"
  proof -
    have "all_quiet s' {k}" using q(1) by (simp add: all_quiet_def quiet_def)
    moreover have "req_fits s' k x req" using q(6) by (cases req) auto
    moreover have "rsp = 0 \<or> rsp = -1" "\<And>p. req = PIPELINE_DISABLE p \<Longrightarrow> rsp \<noteq> -1"
      using d(5) by (cases req; auto)+
    ultimately show ?thesis using c q e run by (simp add: ctl_ok_def ans in_flight_def) blast
  qed
  moreover have "placed s'"
  proof (cases req)
    case (PIPELINE_ENABLE p ms)
    have p: "p = pl_p (pipeline_list s ! x)" and off: "core_of s x = None"
      using q(3,6) c by (simp_all add: PIPELINE_ENABLE core_of_def)
    show ?thesis
    proof (cases "rsp = 0")
      case True
      then have "rows t' = rows ?t @ [pl_p (pipeline_list s ! x)]" using d(5) by (simp add: PIPELINE_ENABLE p)
      then show ?thesis
        using c True by (intro placed_enable [OF ok(3) q(5) off, of s' 0 k]) (simp_all add: ans core_of_def PIPELINE_ENABLE)
    next
      case False
      then have "t' = ?t" using d(5) by (simp add: PIPELINE_ENABLE)
      then show ?thesis
        using c False q(3) by - (rule placed_same [OF ok(3)], simp_all add: ans core_of_def PIPELINE_ENABLE)
    qed
  next
    case (PIPELINE_DISABLE p)
    have p: "p = pl_p (pipeline_list s ! x)" and on: "core_of s x = Some k"
      using q(3,6) c by (simp_all add: PIPELINE_DISABLE core_of_def)
    have "rsp = 0" and "mset (rows t') = mset (rows ?t) - {#pl_p (pipeline_list s ! x)#}"
      using d(5) by (simp_all add: PIPELINE_DISABLE p)
    then show ?thesis
      using c by (intro placed_disable [OF ok(3) q(5) on, of s']) (simp_all add: ans core_of_def PIPELINE_DISABLE)
  qed
  ultimately have "app_inv s'" by (simp add: app_inv_def)
  then show ?thesis using ran by simp
qed

lemma reply_inv:
  assumes inv: "app_inv s" and run: "thr_running s k" and pc: "a_pc s k = DReply i m rsp"
  shows "\<exists>t. thread_main_step now k s = Some t \<and> app_inv t \<and> msgq_rsp t k = [rsp]"
proof -
  have ok: "threads_ok s" "ctl_ok s" "placed s" using inv by (simp_all add: app_inv_def)
  have notq: "\<not> quiet s k" using pc by (simp add: quiet_def)
  then have "\<not> all_quiet s {}" by (auto simp: all_quiet_def)
  then obtain k1 req x where c1: "c_pc s = CRecv k1 req x" and q1: "all_quiet s {k1}" "in_flight s k1 req"
    using ok(2) by (cases "c_pc s") (simp_all add: ctl_ok_def)
  have k1: "k1 = k" using q1(1) notq by (auto simp: all_quiet_def)
  have e: "msgq_req s k = []" "msgq_rsp s k = []" using q1(2) pc by (auto simp: k1 in_flight_def)
  define s' where "s' = s\<lparr>msgq_rsp := (msgq_rsp s)(k := [rsp]), a_pc := (a_pc s)(k := DHandle i m)\<rparr>"
  have f [simp]: "thread_data s' = thread_data s" "a_pc s' = (a_pc s)(k := DHandle i m)"
    "msgq_req s' = msgq_req s" "msgq_rsp s' = (msgq_rsp s)(k := [rsp])" "pipeline_list s' = pipeline_list s"
    "c_pc s' = c_pc s" "thr_running s' = thr_running s" "thr_enabled s' = thr_enabled s"
    by (simp_all add: s'_def)
  have ran: "thread_main_step now k s = Some s'"
    by (simp add: thread_main_step_def pc e s'_def ring_full_def THREAD_MSGQ_SIZE_def)
  have ans: "answer s' = answer s"
  proof
    show "answer s' k' = answer s k'" for k' using e pc by (cases "k' = k") (simp_all add: answer_def split: list.split)
  qed
  have req: "req_fits s' k' y r = req_fits s k' y r" for k' y r by (rule req_fits_pipelines) simp
  have "all_quiet s' {k}" using q1(1) by (simp add: all_quiet_def quiet_def k1)
  moreover have "in_flight s' k req" using e by (simp add: in_flight_def)
  ultimately have "ctl_ok s'" using ok(2) e by (simp add: ctl_ok_def c1 k1 ans req)
  moreover have "threads_ok s'" using ok(1) run by (simp add: threads_ok_def)
  moreover have "placed s'"
    by (rule placed_same [OF ok(3)]) (simp_all add: core_of_cong [of s' s] ans)
  ultimately have "app_inv s'" by (simp add: app_inv_def)
  then show ?thesis using ran by simp
qed

lemma Dp_inv:
  assumes inv: "app_inv s" and run: "thr_running s k"
  shows "\<exists>t. thread_main_step now k s = Some t \<and> app_inv t"
proof (cases "a_pc s k")
  case (DReply i m rsp)
  then show ?thesis using reply_inv [OF inv run] by blast
next
  case (DHandle i m)
  have tk: "td_ok (thread_data s k)" using inv by (simp add: app_inv_def threads_ok_def)
  show ?thesis
  proof (cases "msgq_req s k")
    case Nil
    let ?t = "thread_data s k\<lparr>td_time_next := m + td_timer_period (thread_data s k),
                td_time_next_min := m + td_timer_period (thread_data s k)\<rparr>"
    have "app_inv (upd_thread k ?t (DRun (i + 1) 0) s)"
      by (rule round_inv [OF inv run, of "DRun (i + 1) 0" ?t _ "a_log s"])
         (use tk DHandle in \<open>simp_all add: td_ok_def rows_def\<close>)
    then show ?thesis by (simp add: thread_main_step_def DHandle Nil Let_def)
  next
    case (Cons req reqs)
    then show ?thesis using handle_inv [OF inv run DHandle] by blast
  qed
next
  case (DRun i j)
  have ok: "threads_ok s" using inv by (simp add: app_inv_def)
  note tk = threads_okD [OF ok, of k]
  have same: "app_inv (s\<lparr>a_pc := (a_pc s)(k := pc)\<rparr>)"
    if "\<not> is_reply pc" "\<And>i j. pc = DRun i j \<Longrightarrow> unat j \<le> unat (td_n_pipelines (thread_data s k))" for pc
    by (rule round_inv [OF inv run, of pc "thread_data s k" _ "a_log s"]) (use that tk DRun in simp_all)
  show ?thesis
  proof (cases "j < td_n_pipelines (thread_data s k)")
    case True
    then have j: "unat j < unat (td_n_pipelines (thread_data s k))" by (simp add: word_less_nat_alt)
    have j1: "unat (j + 1) = unat j + 1"
      using u32_plus_no_wrap [of j 1] unat_u32_less [of "td_n_pipelines (thread_data s k)"] j by simp
    have "app_inv (s\<lparr>a_log := a_log s @ [(k, td_p (thread_data s k) ! unat j)], a_pc := (a_pc s)(k := DRun i (j + 1))\<rparr>)"
      by (rule round_inv [OF inv run, of "DRun i (j + 1)" "thread_data s k" _ "a_log s @ [(k, td_p (thread_data s k) ! unat j)]"])
         (use tk DRun j j1 in simp_all)
    then show ?thesis using True td_ok_nth(3) [OF tk(1) j] by (simp add: thread_main_step_def DRun)
  next
    case False
    have "app_inv (s\<lparr>a_pc := (a_pc s)(k := DRun (i + 1) 0)\<rparr>)" and "app_inv (s\<lparr>a_pc := (a_pc s)(k := DHandle i now)\<rparr>)"
      by (rule same; simp)+
    then show ?thesis using False tk(2) by (auto simp: thread_main_step_def DRun Let_def)
  qed
qed

text \<open>No event faults, and every event keeps the invariant.\<close>

lemma app_next_inv:
  assumes "app_inv s" and "may_happen e s" and "no_double_enable e s"
  shows "\<exists>t. app_next e s = Some t \<and> app_inv t"
proof (cases e)
  case Launch
  then show ?thesis using assms Launch_inv by simp
next
  case (Create p name)
  then show ?thesis
    using assms Create_inv [of s p] by (auto simp: pipeline_create_def)
next
  case (Enable alloc now tid name)
  then show ?thesis using assms Enable_inv by simp
next
  case (Disable alloc tid name)
  then show ?thesis using assms Disable_inv by simp
next
  case Ctl
  then show ?thesis using assms send_inv [OF assms(1)] recv_inv [OF assms(1)] by (cases "c_pc s") auto
next
  case (Dp now k)
  then show ?thesis using assms Dp_inv by simp
qed

lemma app_reach_inv: "app_reach no_double_enable s \<Longrightarrow> app_inv s"
proof (induction rule: app_reach.induct)
  case (reach_init hz now workers)
  show ?case by (rule app_inv_init)
next
  case (reach_step s e t)
  then show ?case using app_next_inv [of s e] by auto
qed

section \<open>Responses arrive\<close>

text \<open>Consecutive steps of one data plane thread, with the readings of its clock.\<close>

fun dp_run :: "u64 list \<Rightarrow> nat \<Rightarrow> app \<Rightarrow> app option" where
  "dp_run [] k s = Some s"
| "dp_run (now # ts) k s = (case thread_main_step now k s of None \<Rightarrow> None | Some t \<Rightarrow> dp_run ts k t)"

text \<open>An upper bound of the steps until the thread has put its response on the ring.\<close>

definition rounds_left :: "u32 \<Rightarrow> nat" where
  "rounds_left i = (16 - unat i mod 16) mod 16"

definition todo :: "nat \<Rightarrow> app \<Rightarrow> nat" where
  "todo k s = (let n = unat (td_n_pipelines (thread_data s k)) in
     case a_pc s k of DReply _ _ _ \<Rightarrow> 1 | DHandle _ _ \<Rightarrow> 2 | DRun i j \<Rightarrow> n - unat j + 3 + rounds_left i * (n + 1))"

lemma todo_DRun: "a_pc s k = DRun i j \<Longrightarrow> todo k s =
    unat (td_n_pipelines (thread_data s k)) - unat j + 3 + rounds_left i * (unat (td_n_pipelines (thread_data s k)) + 1)"
  by (simp only: todo_def Let_def dp_pc.case)

lemma todo_DHandle: "a_pc s k = DHandle i m \<Longrightarrow> todo k s = 2"
  by (simp add: todo_def Let_def)

lemma low_bits_zero: "(i :: u32) AND 15 = 0 \<longleftrightarrow> rounds_left i = 0"
proof -
  have "i AND 15 = take_bit 4 i" by (simp add: take_bit_eq_mask mask_eq_exp_minus_1)
  then have "i AND 15 = 0 \<longleftrightarrow> unat (take_bit 4 i) = 0" by (simp only: unat_eq_0)
  also have "unat (take_bit 4 i) = take_bit 4 (unat i)" by (rule unsigned_take_bit_eq)
  also have "\<dots> = unat i mod 16" by (simp add: take_bit_eq_mod)
  finally show ?thesis by (simp add: rounds_left_def) presburger
qed

lemma rounds_left_step:
  assumes "rounds_left i \<noteq> 0"
  shows "rounds_left (i + 1) + 1 = rounds_left i"
proof -
  have d: "(16 :: nat) dvd 4294967296" by (rule dvdI [of _ _ 268435456]) simp
  have "unat (i + 1) = (unat i + 1) mod 4294967296" by (simp add: unat_word_ariths)
  then have m: "unat (i + 1) mod 16 = (if Suc (unat i mod 16) = 16 then 0 else Suc (unat i mod 16))"
    using mod_mod_cancel [OF d, of "unat i + 1"] by (simp only: mod_Suc Suc_eq_plus1 [symmetric])
  have "unat i mod 16 \<noteq> 0"
  proof
    assume "unat i mod 16 = 0"
    with assms show False unfolding rounds_left_def by simp
  qed
  moreover have "unat i mod 16 < 16" by simp
  ultimately show ?thesis unfolding rounds_left_def m by auto
qed

lemma rounds_left_le: "rounds_left i \<le> 15"
  by (simp add: rounds_left_def)

lemma step_to_answer:
  assumes inv: "app_inv s" and c: "c_pc s = CRecv k req x" and wait: "msgq_rsp s k = []"
    and now: "td_time_next (thread_data s k) \<le> now"
  shows "\<exists>t. thread_main_step now k s = Some t \<and> app_inv t \<and>
    (msgq_rsp t k \<noteq> [] \<or> (c_pc t = CRecv k req x \<and> todo k t < todo k s \<and> msgq_rsp t k = [] \<and>
       td_time_next (thread_data t k) = td_time_next (thread_data s k)))"
proof -
  have ok: "threads_ok s" "ctl_ok s" using inv by (simp_all add: app_inv_def)
  have run: "thr_running s k" and fl: "in_flight s k req" using ok(2) by (simp_all add: ctl_ok_def c)
  note tk = threads_okD [OF ok(1), of k]
  obtain t where t: "thread_main_step now k s = Some t" "app_inv t" using Dp_inv [OF inv run] by blast
  show ?thesis
  proof (cases "a_pc s k")
    case (DReply i m rsp)
    then show ?thesis using reply_inv [OF inv run DReply, of now] by auto
  next
    case (DHandle i m)
    then have "msgq_req s k = [req]" using fl wait by (auto simp: in_flight_def)
    then obtain rsp t' where d: "thread_msg_dispatch (tsc_hz s) now req (thread_data s k) = Some (rsp, t')"
        "td_time_next t' = td_time_next (thread_data s k)"
      and t': "t = upd_thread k t' (DReply i m rsp) (s\<lparr>msgq_req := (msgq_req s)(k := [])\<rparr>)"
      using handle_ok [OF tk(1), of "tsc_hz s" now req] t(1) \<open>msgq_req s k = [req]\<close>
      by (auto simp: thread_main_step_def DHandle)
    then show ?thesis using t DHandle c wait by (simp add: todo_def)
  next
    case (DRun i j)
    let ?n = "unat (td_n_pipelines (thread_data s k))"
    have jn: "unat j \<le> ?n" using tk(3) DRun by simp
    show ?thesis
    proof (cases "j < td_n_pipelines (thread_data s k)")
      case True
      then have j: "unat j < ?n" by (simp add: word_less_nat_alt)
      have j1: "unat (j + 1) = unat j + 1"
        using u32_plus_no_wrap [of j 1] unat_u32_less [of "td_n_pipelines (thread_data s k)"] j by simp
      have "t = s\<lparr>a_log := a_log s @ [(k, td_p (thread_data s k) ! unat j)], a_pc := (a_pc s)(k := DRun i (j + 1))\<rparr>"
        using t(1) True td_ok_nth(3) [OF tk(1) j] by (simp add: thread_main_step_def DRun)
      then have "todo k t = ?n - (unat j + 1) + 3 + rounds_left i * (?n + 1)" and "c_pc t = c_pc s" "msgq_rsp t k = []"
        "td_time_next (thread_data t k) = td_time_next (thread_data s k)"
        using todo_DRun [of t k i "j + 1"] j1 wait by simp_all
      moreover have "todo k s = ?n - unat j + 3 + rounds_left i * (?n + 1)" by (rule todo_DRun [of s k i j, OF DRun])
      moreover have "?n - (unat j + 1) < ?n - unat j" using j by linarith
      ultimately have "todo k t < todo k s" by linarith
      then show ?thesis using t c \<open>c_pc t = c_pc s\<close> \<open>msgq_rsp t k = []\<close> \<open>td_time_next (thread_data t k) = _\<close> by simp
    next
      case False
      then have jn': "unat j = ?n" using jn by (simp add: word_less_nat_alt)
      have s3: "todo k s = 3 + rounds_left i * (?n + 1)" using todo_DRun [of s k i j, OF DRun] jn' by linarith
      show ?thesis
      proof (cases "rounds_left i = 0")
        case True
        then have "t = s\<lparr>a_pc := (a_pc s)(k := DHandle i now)\<rparr>"
          using t(1) False tk(2) now leD [OF now] low_bits_zero [of i] by (simp add: thread_main_step_def DRun Let_def)
        then have "todo k t = 2" and "c_pc t = c_pc s" "msgq_rsp t k = []"
          "td_time_next (thread_data t k) = td_time_next (thread_data s k)"
          using todo_DHandle [of t k i now] wait by simp_all
        then show ?thesis using t c s3 by simp
      next
        case nz: False
        then have "t = s\<lparr>a_pc := (a_pc s)(k := DRun (i + 1) 0)\<rparr>"
          using t(1) False low_bits_zero [of i] by (simp add: thread_main_step_def DRun Let_def)
        then have t3: "todo k t = ?n + 3 + rounds_left (i + 1) * (?n + 1)" and u: "c_pc t = c_pc s" "msgq_rsp t k = []"
          "td_time_next (thread_data t k) = td_time_next (thread_data s k)"
          using todo_DRun [of t k "i + 1" 0] wait by simp_all
        have "rounds_left i * (?n + 1) = rounds_left (i + 1) * (?n + 1) + (?n + 1)"
          unfolding rounds_left_step [OF nz, symmetric] by (simp only: add_mult_distrib mult_1)
        then have "todo k t < todo k s" using s3 t3 by linarith
        then show ?thesis using t c u by simp
      qed
    qed
  qed
qed

lemma todo_bound:
  assumes "app_inv s"
  shows "todo k s \<le> 4114"
proof -
  let ?n = "unat (td_n_pipelines (thread_data s k))"
  have n: "?n \<le> 256"
    using assms by (simp add: app_inv_def threads_ok_def td_ok_def THREAD_PIPELINES_MAX_def)
  have r: "rounds_left i * (?n + 1) \<le> 15 * 257" for i
    using n by (intro mult_le_mono [OF rounds_left_le]) simp
  have "?n - unat j + 3 + rounds_left i * (?n + 1) \<le> 256 + 3 + 15 * 257" for i and j :: u32
    using n by (intro add_le_mono r) simp_all
  then show ?thesis by (simp only: todo_def Let_def split: dp_pc.split) simp
qed

lemma answered_in:
  assumes "app_inv s" and "c_pc s = CRecv k req x"
    and "\<forall>now \<in> set ts. td_time_next (thread_data s k) \<le> now" and "todo k s \<le> length ts"
  shows "\<exists>n t. n \<le> length ts \<and> dp_run (take n ts) k s = Some t \<and> msgq_rsp t k \<noteq> []"
  using assms
proof (induction ts arbitrary: s)
  case Nil
  then have "msgq_rsp s k \<noteq> []"
    using step_to_answer [OF Nil.prems(1,2), of "td_time_next (thread_data s k)"] 
    by (cases "a_pc s k") (auto simp: todo_def Let_def)
  then show ?case by simp
next
  case (Cons now ts)
  show ?case
  proof (cases "msgq_rsp s k = []")
    case False
    then show ?thesis by (intro exI [of _ 0]) simp
  next
    case True
    obtain t where t: "thread_main_step now k s = Some t" "app_inv t"
      "msgq_rsp t k \<noteq> [] \<or> (c_pc t = CRecv k req x \<and> todo k t < todo k s \<and> td_time_next (thread_data t k) = td_time_next (thread_data s k))"
      using step_to_answer [OF Cons.prems(1,2) True, of now] Cons.prems(3) by auto
    show ?thesis
    proof (cases "msgq_rsp t k = []")
      case False
      then show ?thesis using t(1) by (intro exI [of _ 1] exI [of _ t]) simp
    next
      case True
      then obtain n u where "n \<le> length ts" "dp_run (take n ts) k t = Some u" "msgq_rsp u k \<noteq> []"
        using Cons.IH [OF t(2)] t(3) Cons.prems(3,4) by auto
      then show ?thesis using t(1) by (intro exI [of _ "Suc n"] exI [of _ u]) simp
    qed
  qed
qed

section \<open>Properties\<close>

text \<open>A sequence of events, each of them possible when it happens.\<close>

fun app_runs :: "(event \<Rightarrow> app \<Rightarrow> bool) \<Rightarrow> event list \<Rightarrow> app \<Rightarrow> app option" where
  "app_runs A [] s = Some s"
| "app_runs A (e # es) s =
     (if may_happen e s \<and> A e s then (case app_next e s of None \<Rightarrow> None | Some t \<Rightarrow> app_runs A es t) else None)"

lemma app_runs_reach: "app_reach A s \<Longrightarrow> app_runs A es s = Some t \<Longrightarrow> app_reach A t"
  by (induction es arbitrary: s) (auto split: if_splits option.splits intro: reach_step)

text \<open>Two cores; a pipeline is made, the threads are launched and the pipeline is enabled on core 1, on core 2 as well, and
  disabled on core 2. Every request is followed by the steps that answer it.\<close>

definition demo_start :: app where
  "demo_start = thread_init 1000 (\<lambda>_. 0) [1, 2]"

definition demo_enable :: "event list" where
  "demo_enable = [Create 7 ''P'', Launch, Enable True 0 1 ''P'', Ctl, Dp 200 1, Dp 200 1, Dp 200 1, Ctl]"

definition demo_again :: "event list" where
  "demo_again = [Enable True 0 2 ''P'', Ctl, Dp 200 2, Dp 200 2, Dp 200 2, Ctl]"

definition demo_disable :: "event list" where
  "demo_disable = [Disable True 2 ''P'', Ctl, Dp 200 2, Dp 200 2, Ctl]"

lemma replicate_put: "(replicate 256 a)[0 := b] = b # replicate 255 a"
proof -
  have "replicate 256 a = a # replicate 255 a" by (simp only: replicate_Suc [symmetric]) simp
  then show ?thesis by simp
qed

lemmas demo_simps =
  demo_start_def demo_enable_def demo_again_def demo_disable_def thread_init_def pipeline_create_def pipeline_find_def
  thread_pipeline_enable_def thread_pipeline_disable_def thread_msg_send_recv_def thread_main_step_def RTE_MAX_LCORE_def
  NAME_SIZE_def ring_full_def THREAD_MSGQ_SIZE_def THREAD_TIMER_PERIOD_MS_def zero_thread_def
  thread_msg_handle_pipeline_enable_def thread_msg_handle_pipeline_disable_def row_add_def row_del.simps
  THREAD_PIPELINES_MAX_def request_completion_def set_enabled_def set_disabled_def Let_def rows_def replicate_put

lemma demo_reach: "app_reach A demo_start"
  unfolding demo_start_def by (rule reach_init)

text \<open>
  C7: when no pipeline is enabled twice, a pipeline is in the table of at most one data plane thread and
  there in one row, at any moment and in any interleaving; when the control thread is in no call, it is there exactly if
  it is marked as enabled, on the core it is marked with.
\<close>

theorem pipeline_runs_on_one_thread:
  assumes "app_reach no_double_enable s" and "x < length (pipeline_list s)"
  shows "distinct (rows (thread_data s k)) \<and>
    (pl_p (pipeline_list s ! x) \<in> set (rows (thread_data s k)) \<and> pl_p (pipeline_list s ! x) \<in> set (rows (thread_data s k')) \<longrightarrow>
       k = k') \<and>
    (c_pc s = CIdle \<longrightarrow> (pl_p (pipeline_list s ! x) \<in> set (rows (thread_data s k)) \<longleftrightarrow>
       pl_enabled (pipeline_list s ! x) \<and> unat (pl_thread_id (pipeline_list s ! x)) = k))"
proof -
  have p: "placed s" using app_reach_inv [OF assms(1)] by (simp add: app_inv_def)
  have i: "pl_p (pipeline_list s ! x) \<in> set (rows (thread_data s k)) \<longleftrightarrow> core_of s x = Some k" for k
    using p assms(2) by (simp add: placed_def)
  have d: "distinct (rows (thread_data s k))" using p by (simp add: placed_def)
  show ?thesis unfolding i using d core_of_idle [of s x] by auto
qed

lemma demo_enable_runs:
  "\<exists>s. app_runs no_double_enable demo_enable demo_start = Some s \<and> rows (thread_data s 1) = [7] \<and>
     length (pipeline_list s) = 1 \<and> pl_p (pipeline_list s ! 0) = 7 \<and> c_pc s = CIdle"
  by (simp add: demo_simps)

text \<open>
  C9: without this care of the caller the code does not check it: a pipeline that is enabled on two cores runs on
  both, and after it is disabled on the second one it still runs on the first although it is marked as disabled, and
  every further call of disable for it returns without an effect.
\<close>

theorem double_enable_keeps_running:
  "(\<exists>s. app_reach (\<lambda>_ _. True) s \<and> c_pc s = CIdle \<and> pipeline_find (pipeline_list s) ''P'' = Some 0 \<and>
      pl_p (pipeline_list s ! 0) \<in> set (rows (thread_data s 1)) \<and> pl_p (pipeline_list s ! 0) \<in> set (rows (thread_data s 2))) \<and>
   (\<exists>s. app_reach (\<lambda>_ _. True) s \<and> c_pc s = CIdle \<and> pipeline_find (pipeline_list s) ''P'' = Some 0 \<and>
      \<not> pl_enabled (pipeline_list s ! 0) \<and> pl_p (pipeline_list s ! 0) \<in> set (rows (thread_data s 1)) \<and>
      (\<forall>alloc tid. \<exists>v. thread_pipeline_disable alloc tid ''P'' s = Some (s\<lparr>c_pc := CIdle, c_ret := v\<rparr>)))"
proof (intro conjI)
  have "\<exists>s. app_runs (\<lambda>_ _. True) (demo_enable @ demo_again) demo_start = Some s \<and> c_pc s = CIdle \<and>
     pipeline_find (pipeline_list s) ''P'' = Some 0 \<and>
     pl_p (pipeline_list s ! 0) \<in> set (rows (thread_data s 1)) \<and> pl_p (pipeline_list s ! 0) \<in> set (rows (thread_data s 2))"
    by (simp add: demo_simps)
  then show "\<exists>s. app_reach (\<lambda>_ _. True) s \<and> c_pc s = CIdle \<and> pipeline_find (pipeline_list s) ''P'' = Some 0 \<and>
     pl_p (pipeline_list s ! 0) \<in> set (rows (thread_data s 1)) \<and> pl_p (pipeline_list s ! 0) \<in> set (rows (thread_data s 2))"
    using app_runs_reach [OF demo_reach] by blast
  have "\<exists>s. app_runs (\<lambda>_ _. True) (demo_enable @ demo_again @ demo_disable) demo_start = Some s \<and> c_pc s = CIdle \<and>
     pipeline_find (pipeline_list s) ''P'' = Some 0 \<and>
     \<not> pl_enabled (pipeline_list s ! 0) \<and> pl_p (pipeline_list s ! 0) \<in> set (rows (thread_data s 1))"
    by (simp add: demo_simps)
  moreover have "\<exists>v. thread_pipeline_disable alloc tid ''P'' s = Some (s\<lparr>c_pc := CIdle, c_ret := v\<rparr>)"
    if "pipeline_find (pipeline_list s) ''P'' = Some 0" "\<not> pl_enabled (pipeline_list s ! 0)" for s alloc tid
    using that by (auto simp: thread_pipeline_disable_def Let_def)
  ultimately show "\<exists>s. app_reach (\<lambda>_ _. True) s \<and> c_pc s = CIdle \<and> pipeline_find (pipeline_list s) ''P'' = Some 0 \<and>
     \<not> pl_enabled (pipeline_list s ! 0) \<and> pl_p (pipeline_list s ! 0) \<in> set (rows (thread_data s 1)) \<and>
     (\<forall>alloc tid. \<exists>v. thread_pipeline_disable alloc tid ''P'' s = Some (s\<lparr>c_pc := CIdle, c_ret := v\<rparr>))"
    using app_runs_reach [OF demo_reach] by blast
qed

text \<open>
  C8: a request is answered: once its clock has passed the end of the timer's period, the data plane thread puts the
  response on the ring within 4114 of its steps, whatever its table holds, so that the wait of the control thread ends.
\<close>

theorem request_is_answered:
  assumes "app_reach no_double_enable s" and "c_pc s = CRecv k req x" and "4114 \<le> length ts"
    and "\<forall>now \<in> set ts. td_time_next (thread_data s k) \<le> now"
  shows "\<exists>n t. n \<le> length ts \<and> dp_run (take n ts) k s = Some t \<and> msgq_rsp t k \<noteq> []"
  using answered_in [OF app_reach_inv [OF assms(1)] assms(2,4)] todo_bound [OF app_reach_inv [OF assms(1)], of k] assms(3)
  by simp

lemma pipeline_runs_on_one_thread_witness:
  "\<exists>s. app_runs no_double_enable demo_enable demo_start = Some s \<and> 7 \<in> set (rows (thread_data s 1)) \<and> pl_enabled (pipeline_list s ! 0)"
proof -
  obtain s where s: "app_runs no_double_enable demo_enable demo_start = Some s" "rows (thread_data s 1) = [7]"
    "length (pipeline_list s) = 1" "pl_p (pipeline_list s ! 0) = 7" "c_pc s = CIdle"
    using demo_enable_runs by blast
  then show ?thesis
    using pipeline_runs_on_one_thread [OF app_runs_reach [OF demo_reach s(1)], of 0 1 1] by simp
qed

lemma demo_request:
  "\<exists>s. app_runs no_double_enable (take 4 demo_enable) demo_start = Some s \<and> c_pc s = CRecv 1 (PIPELINE_ENABLE 7 10) 0 \<and>
     td_time_next (thread_data s 1) = 100"
  by (simp add: demo_simps)

lemma request_is_answered_witness:
  "\<exists>s n t. app_runs no_double_enable (take 4 demo_enable) demo_start = Some s \<and>
     dp_run (take n (replicate 4114 200)) 1 s = Some t \<and> msgq_rsp t 1 \<noteq> []"
proof -
  obtain s where s: "app_runs no_double_enable (take 4 demo_enable) demo_start = Some s"
    "c_pc s = CRecv 1 (PIPELINE_ENABLE 7 10) 0" "td_time_next (thread_data s 1) = 100"
    using demo_request by blast
  have "\<forall>now \<in> set (replicate 4114 (200 :: u64)). td_time_next (thread_data s 1) \<le> now" using s(3) by (simp add: in_set_replicate)
  then show ?thesis
    using request_is_answered [OF app_runs_reach [OF demo_reach s(1)] s(2), of "replicate 4114 200"] s(1)
    by (metis le_refl length_replicate)
qed

end
