(* ===== verification/AppConn.thy ===== *)
theory AppConn
  imports Prelude
begin

text \<open>
  The command connections of the pipeline application (pipeline/conn.c): one server socket, a group of client sockets, and
  one buffer in which the bytes of all clients are put together to lines, each of which is a command for
  the handler (\<open>cli_process\<close>). What the kernel returns for a system call is an argument, the handler is a
  parameter, and a C string ends at its first null character.
\<close>

section \<open>State\<close>

definition CONN_WELCOME_LEN_MAX :: nat where "CONN_WELCOME_LEN_MAX = 1024"
definition CONN_PROMPT_LEN_MAX :: nat where "CONN_PROMPT_LEN_MAX = 16"

definition MSG_CMD_TOO_LONG :: string where "MSG_CMD_TOO_LONG = ''Command too long.''"

record conn_params =
  p_welcome :: "string option"
  p_prompt :: "string option"
  p_buf_size :: nat
  p_msg_in_len_max :: nat
  p_msg_out_len_max :: nat

text \<open>
  \<open>cn_msg_in\<close> are the first \<open>msg_in_len\<close> bytes of the input buffer, \<open>cn_clients\<close> the sockets of \<open>fd_client_group\<close>, \<open>cn_cli\<close> is
  the state of the handler and \<open>cn_written\<close> what has been written to the sockets.
\<close>

record 'a conn =
  cn_welcome :: string
  cn_prompt :: string
  cn_buf_size :: nat
  cn_msg_in_len_max :: nat
  cn_msg_out_len_max :: nat
  cn_msg_in :: string
  cn_clients :: "nat list"
  cn_cli :: 'a
  cn_written :: "(nat \<times> string) list"

definition c_string :: "string \<Rightarrow> string" where
  "c_string s = takeWhile (\<lambda>c. c \<noteq> CHR 0x00) s"

text \<open>The arguments that \<open>conn_init\<close> checks, apart from the address and the handler; the sockets can be opened.\<close>

definition conn_init :: "conn_params \<Rightarrow> 'a \<Rightarrow> 'a conn option" where
  "conn_init p h =
     (case (p_welcome p, p_prompt p) of
        (Some w, Some pr) \<Rightarrow>
          if p_buf_size p = 0 \<or> p_msg_in_len_max p = 0 \<or> p_msg_out_len_max p = 0 then None
          else Some \<lparr>cn_welcome = take CONN_WELCOME_LEN_MAX (c_string w), cn_prompt = take CONN_PROMPT_LEN_MAX (c_string pr),
                 cn_buf_size = p_buf_size p, cn_msg_in_len_max = p_msg_in_len_max p, cn_msg_out_len_max = p_msg_out_len_max p,
                 cn_msg_in = [], cn_clients = [], cn_cli = h, cn_written = []\<rparr>
      | _ \<Rightarrow> None)"

section \<open>System calls\<close>

text \<open>\<open>wr\<close> says for the number of bytes written so far whether the next \<open>write\<close> succeeds.\<close>

type_synonym wr_result = "nat \<Rightarrow> bool"

definition conn_write :: "wr_result \<Rightarrow> nat \<Rightarrow> string \<Rightarrow> 'a conn \<Rightarrow> bool \<times> 'a conn" where
  "conn_write wr fd s c =
     (if wr (length (cn_written c)) then (True, c\<lparr>cn_written := cn_written c @ [(fd, s)]\<rparr>) else (False, c))"

datatype accept_result = AcceptAgain | AcceptError | AcceptFd nat
datatype read_result = ReadAgain | ReadError | ReadBytes string

section \<open>Clients\<close>

text \<open>\<open>ctl\<close> is the success of \<open>epoll_ctl\<close>; closing a socket takes it out of the group.\<close>

definition conn_close :: "nat \<Rightarrow> 'a conn \<Rightarrow> 'a conn" where
  "conn_close fd c = c\<lparr>cn_clients := filter (\<lambda>f. f \<noteq> fd) (cn_clients c)\<rparr>"

definition conn_poll_for_conn :: "wr_result \<Rightarrow> accept_result \<Rightarrow> bool \<Rightarrow> 'a conn \<Rightarrow> int \<times> 'a conn" where
  "conn_poll_for_conn wr acc ctl c =
     (case acc of
        AcceptAgain \<Rightarrow> (0, c)
      | AcceptError \<Rightarrow> (-1, c)
      | AcceptFd fd \<Rightarrow>
          if \<not> ctl then (-1, c)
          else let c = c\<lparr>cn_clients := cn_clients c @ [fd]\<rparr> in
            case conn_write wr fd (cn_welcome c) c of
              (False, c) \<Rightarrow> (-1, conn_close fd c)
            | (True, c) \<Rightarrow>
                (case conn_write wr fd (cn_prompt c) c of
                   (False, c) \<Rightarrow> (-1, conn_close fd c)
                 | (True, c) \<Rightarrow> (0, c)))"

section \<open>Commands\<close>

text \<open>The handler gets the line and its state, and returns its output and its new state.\<close>

type_synonym 'a handler = "string \<Rightarrow> 'a \<Rightarrow> string \<times> 'a"

text \<open>One byte of the input; the flag is False where \<open>data_event_handle\<close> returns with an error.\<close>

definition conn_byte :: "'a handler \<Rightarrow> wr_result \<Rightarrow> nat \<Rightarrow> char \<Rightarrow> 'a conn \<Rightarrow> bool \<times> 'a conn" where
  "conn_byte h wr fd ch c =
     (if ch = CHR 0x0A then
        (let (out, st) = h (c_string (cn_msg_in c)) (cn_cli c); c = c\<lparr>cn_cli := st\<rparr> in
         if c_string out \<noteq> [] then
           (case conn_write wr fd (c_string out) c of
              (False, c) \<Rightarrow> (False, c)
            | (True, c) \<Rightarrow> (True, c\<lparr>cn_msg_in := []\<rparr>))
         else (True, c\<lparr>cn_msg_in := []\<rparr>))
      else if length (cn_msg_in c) < cn_msg_in_len_max c then (True, c\<lparr>cn_msg_in := cn_msg_in c @ [ch]\<rparr>)
      else (case conn_write wr fd MSG_CMD_TOO_LONG c of
              (False, c) \<Rightarrow> (False, c)
            | (True, c) \<Rightarrow> (True, c\<lparr>cn_msg_in := []\<rparr>)))"

fun conn_bytes :: "'a handler \<Rightarrow> wr_result \<Rightarrow> nat \<Rightarrow> string \<Rightarrow> 'a conn \<Rightarrow> bool \<times> 'a conn" where
  "conn_bytes h wr fd [] c = (True, c)"
| "conn_bytes h wr fd (ch # chs) c =
     (case conn_byte h wr fd ch c of (False, c) \<Rightarrow> (False, c) | (True, c) \<Rightarrow> conn_bytes h wr fd chs c)"

text \<open>\<open>read\<close> returns at most \<open>buf_size\<close> bytes.\<close>

definition data_event_handle :: "'a handler \<Rightarrow> wr_result \<Rightarrow> read_result \<Rightarrow> nat \<Rightarrow> 'a conn \<Rightarrow> int \<times> 'a conn" where
  "data_event_handle h wr rd fd c =
     (case rd of
        ReadAgain \<Rightarrow> (0, c)
      | ReadError \<Rightarrow> (-1, c)
      | ReadBytes bs \<Rightarrow>
          if bs = [] then (0, c)
          else (case conn_bytes h wr fd (take (cn_buf_size c) bs) c of
                  (False, c) \<Rightarrow> (-1, c)
                | (True, c) \<Rightarrow>
                    (case conn_write wr fd (cn_prompt c) c of (False, c) \<Rightarrow> (-1, c) | (True, c) \<Rightarrow> (0, c))))"

definition control_event_handle :: "bool \<Rightarrow> bool \<Rightarrow> nat \<Rightarrow> 'a conn \<Rightarrow> int \<times> 'a conn" where
  "control_event_handle ctl cls fd c =
     (if \<not> ctl then (-1, c)
      else if \<not> cls then (-1, conn_close fd c)
      else (0, conn_close fd c))"

text \<open>
  What \<open>epoll_wait\<close> reports: nothing, an error, or one socket with input (and what \<open>read\<close> then returns) or with a control event (and
  whether its removal from the group and its closing succeed).
\<close>

datatype wait_result =
    WaitNone
  | WaitError
  | WaitEvent nat "read_result option" "(bool \<times> bool) option"

definition conn_poll_for_msg :: "'a handler \<Rightarrow> wr_result \<Rightarrow> wait_result \<Rightarrow> 'a conn \<Rightarrow> int \<times> 'a conn" where
  "conn_poll_for_msg h wr ev c =
     (case ev of
        WaitNone \<Rightarrow> (0, c)
      | WaitError \<Rightarrow> (-1, c)
      | WaitEvent fd rd ctl \<Rightarrow>
          let (status_data, c) = (case rd of None \<Rightarrow> (0, c) | Some r \<Rightarrow> data_event_handle h wr r fd c);
              (status_control, c) = (case ctl of None \<Rightarrow> (0, c) | Some (a, b) \<Rightarrow> control_event_handle a b fd c)
          in (if status_data \<noteq> 0 \<or> status_control \<noteq> 0 then -1 else 0, c))"

section \<open>Lines\<close>

text \<open>Input of several clients, as a sequence of what each \<open>read\<close> returned; it ends at the first error.\<close>

fun conn_inputs :: "'a handler \<Rightarrow> wr_result \<Rightarrow> (nat \<times> string) list \<Rightarrow> 'a conn \<Rightarrow> int \<times> 'a conn" where
  "conn_inputs h wr [] c = (0, c)"
| "conn_inputs h wr ((fd, bs) # ins) c =
     (case data_event_handle h wr (ReadBytes bs) fd c of (st, c) \<Rightarrow> if st \<noteq> 0 then (st, c) else conn_inputs h wr ins c)"

text \<open>The characters of a line that reaches the handler as it was sent.\<close>

definition plain :: "string \<Rightarrow> bool" where
  "plain l \<longleftrightarrow> CHR 0x0A \<notin> set l \<and> CHR 0x00 \<notin> set l"

abbreviation run_lines :: "'a handler \<Rightarrow> string list \<Rightarrow> 'a \<Rightarrow> 'a" where
  "run_lines h ls st \<equiv> fold (\<lambda>l st. snd (h l st)) ls st"

lemma c_string_plain: "plain l \<Longrightarrow> c_string l = l"
  by (auto simp: plain_def c_string_def takeWhile_eq_all_conv)

lemma conn_write_ok [simp]: "wr = (\<lambda>_. True) \<Longrightarrow> conn_write wr fd s c = (True, c\<lparr>cn_written := cn_written c @ [(fd, s)]\<rparr>)"
  by (simp add: conn_write_def)

lemma conn_bytes_append: "conn_bytes h wr fd (xs @ ys) c =
    (case conn_bytes h wr fd xs c of (False, c) \<Rightarrow> (False, c) | (True, c) \<Rightarrow> conn_bytes h wr fd ys c)"
  by (induction xs arbitrary: c) (auto split: prod.splits bool.splits)

text \<open>The part of the state that lines change.\<close>

definition after :: "'a conn \<Rightarrow> 'a \<Rightarrow> string \<Rightarrow> 'a conn \<Rightarrow> bool" where
  "after c st m c' \<longleftrightarrow> cn_cli c' = st \<and> cn_msg_in c' = m \<and> cn_msg_in_len_max c' = cn_msg_in_len_max c \<and>
     cn_buf_size c' = cn_buf_size c"

lemma conn_bytes_fill:
  assumes "CHR 0x0A \<notin> set l" and "length (cn_msg_in c) + length l \<le> cn_msg_in_len_max c"
  shows "conn_bytes h wr fd l c = (True, c\<lparr>cn_msg_in := cn_msg_in c @ l\<rparr>)"
  using assms by (induction l arbitrary: c) (auto simp: conn_byte_def)

lemma conn_byte_newline:
  assumes "wr = (\<lambda>_. True)"
  shows "\<exists>c'. conn_byte h wr fd (CHR 0x0A) c = (True, c') \<and> after c (snd (h (c_string (cn_msg_in c)) (cn_cli c))) [] c'"
  using assms by (simp add: conn_byte_def after_def Let_def split: prod.split)

section \<open>The lines of a stream\<close>

text \<open>Complete lines and a rest.\<close>

definition stream :: "string list \<Rightarrow> string \<Rightarrow> string" where
  "stream ls rest = concat (map (\<lambda>l. l @ [CHR 0x0A]) ls) @ rest"

text \<open>The lines of a sequence of bytes, and the rest, when \<open>cur\<close> has come since the last end of a line.\<close>

fun split_lines :: "string \<Rightarrow> string \<Rightarrow> string list \<times> string" where
  "split_lines cur [] = ([], cur)"
| "split_lines cur (ch # bs) =
     (if ch = CHR 0x0A then (case split_lines [] bs of (ls, r) \<Rightarrow> (cur # ls, r)) else split_lines (cur @ [ch]) bs)"

lemma split_lines_append:
  "split_lines cur (xs @ ys) = (case split_lines cur xs of (ls, r) \<Rightarrow> (case split_lines r ys of (ls', r') \<Rightarrow> (ls @ ls', r')))"
  by (induction cur xs rule: split_lines.induct) (auto split: prod.splits)

lemma split_lines_plain: "CHR 0x0A \<notin> set l \<Longrightarrow> split_lines cur l = ([], cur @ l)"
  by (induction l arbitrary: cur) auto

lemma split_lines_stream: "\<forall>l \<in> set ls. CHR 0x0A \<notin> set l \<Longrightarrow> CHR 0x0A \<notin> set rest \<Longrightarrow> split_lines [] (stream ls rest) = (ls, rest)"
  by (induction ls) (auto simp: stream_def split_lines_plain split_lines_append)

text \<open>What a buffer of \<open>m\<close> bytes holds of the bytes of a line: it is emptied by every byte that does not fit.\<close>

definition line_tail :: "nat \<Rightarrow> string \<Rightarrow> string" where
  "line_tail m l = drop (length l div (m + 1) * (m + 1)) l"

lemma line_tail_short: "length l \<le> m \<Longrightarrow> line_tail m l = l"
  by (simp add: line_tail_def)

lemma length_line_tail: "length (line_tail m l) = length l mod (m + 1)"
  unfolding line_tail_def length_drop by (rule minus_div_mult_eq_mod)

lemma line_tail_step: "line_tail m (l @ [ch]) = (if length (line_tail m l) < m then line_tail m l @ [ch] else [])"
proof -
  define n k where "n = length l" and "k = n div (m + 1)"
  have le: "k * (m + 1) \<le> n" unfolding k_def by (rule div_times_less_eq_dividend)
  have n: "k * (m + 1) + n mod (m + 1) = n" unfolding k_def by (rule div_mult_mod_eq)
  have lt: "n mod (m + 1) < m + 1" by simp
  show ?thesis
  proof (cases "n mod (m + 1) < m")
    case True
    have "(m + 1) * k \<le> n + 1" "n + 1 < (m + 1) * Suc k"
      using le n True unfolding mult_Suc_right mult.commute [of "m + 1"] by linarith+
    then have "(n + 1) div (m + 1) = k" by (rule div_nat_eqI)
    then have "line_tail m (l @ [ch]) = line_tail m l @ [ch]"
      using le by (simp only: line_tail_def length_append list.size n_def [symmetric] k_def [symmetric] drop_append)
        (simp add: n_def)
    then show ?thesis using True by (simp only: length_line_tail n_def [symmetric] if_True)
  next
    case False
    then have e: "n mod (m + 1) = m" using lt by linarith
    have "n + 1 = k * (m + 1) + m + 1" using n unfolding e by (rule arg_cong [OF sym, of _ _ "\<lambda>x. x + 1"])
    also have "\<dots> = (k + 1) * (m + 1)" by (simp only: distrib_right mult_1 add.assoc)
    finally have "n + 1 = (k + 1) * (m + 1)" .
    then have "(n + 1) div (m + 1) * (m + 1) = n + 1" by (simp only: nonzero_mult_div_cancel_right)
    then have "line_tail m (l @ [ch]) = []"
      by (simp only: line_tail_def length_append list.size n_def [symmetric]) (simp add: n_def)
    then show ?thesis using False by (simp only: length_line_tail n_def [symmetric] if_False)
  qed
qed

text \<open>The command that a line becomes: a C string, so it ends before a null byte.\<close>

definition command_of :: "nat \<Rightarrow> string \<Rightarrow> string" where
  "command_of m l = c_string (line_tail m l)"

lemma conn_bytes_lines:
  assumes "wr = (\<lambda>_. True)" and "cn_msg_in c = line_tail (cn_msg_in_len_max c) cur" and "split_lines cur bs = (ls, r)"
  shows "\<exists>c'. conn_bytes h wr fd bs c = (True, c') \<and>
     after c (run_lines h (map (command_of (cn_msg_in_len_max c)) ls) (cn_cli c)) (line_tail (cn_msg_in_len_max c) r) c'"
  using assms
proof (induction bs arbitrary: c cur ls)
  case Nil
  then show ?case by (simp add: after_def)
next
  case (Cons ch bs)
  let ?m = "cn_msg_in_len_max c"
  show ?case
  proof (cases "ch = CHR 0x0A")
    case True
    then obtain ls' where ls: "ls = cur # ls'" "split_lines [] bs = (ls', r)" using Cons.prems(3) by (auto split: prod.splits)
    from conn_byte_newline [OF Cons.prems(1)] obtain c1 where
      c1: "conn_byte h wr fd ch c = (True, c1)" "after c (snd (h (c_string (cn_msg_in c)) (cn_cli c))) [] c1" unfolding True by blast
    then have "cn_msg_in c1 = line_tail (cn_msg_in_len_max c1) []" "cn_msg_in_len_max c1 = ?m"
      by (simp_all add: after_def line_tail_def)
    from Cons.IH [OF Cons.prems(1) this(1) ls(2)] this(2) obtain c' where
      "conn_bytes h wr fd bs c1 = (True, c')" "after c1 (run_lines h (map (command_of ?m) ls') (cn_cli c1)) (line_tail ?m r) c'" by auto
    moreover have "c_string (cn_msg_in c) = command_of ?m cur" using Cons.prems(2) by (simp add: command_of_def)
    ultimately show ?thesis using c1 by (intro exI [of _ c']) (simp add: after_def ls(1))
  next
    case False
    then have sp: "split_lines (cur @ [ch]) bs = (ls, r)" using Cons.prems(3) by simp
    define c1 where "c1 = (if length (cn_msg_in c) < ?m then c\<lparr>cn_msg_in := cn_msg_in c @ [ch]\<rparr>
      else c\<lparr>cn_msg_in := [], cn_written := cn_written c @ [(fd, MSG_CMD_TOO_LONG)]\<rparr>)"
    have run: "conn_byte h wr fd ch c = (True, c1)" using False Cons.prems(1) by (simp add: conn_byte_def c1_def)
    have c1: "cn_msg_in_len_max c1 = ?m" "cn_cli c1 = cn_cli c" "cn_buf_size c1 = cn_buf_size c" by (simp_all add: c1_def)
    have "cn_msg_in c1 = line_tail (cn_msg_in_len_max c1) (cur @ [ch])"
      using Cons.prems(2) unfolding c1(1) line_tail_step by (simp add: c1_def)
    from Cons.IH [OF Cons.prems(1) this sp] run c1 show ?thesis by (auto simp: after_def)
  qed
qed

lemma conn_inputs_lines:
  assumes "wr = (\<lambda>_. True)" and "cn_msg_in c = line_tail (cn_msg_in_len_max c) cur"
    and "split_lines cur (concat (map snd ins)) = (ls, r)" and "\<forall>i \<in> set ins. length (snd i) \<le> cn_buf_size c"
  shows "\<exists>c'. conn_inputs h wr ins c = (0, c') \<and> cn_cli c' = run_lines h (map (command_of (cn_msg_in_len_max c)) ls) (cn_cli c) \<and>
     cn_msg_in c' = line_tail (cn_msg_in_len_max c) r"
  using assms
proof (induction ins arbitrary: c cur ls)
  case (Cons i ins)
  obtain fd bs where i: "i = (fd, bs)" by fastforce
  obtain l1 r1 where s1: "split_lines cur bs = (l1, r1)" by fastforce
  obtain l2 where s2: "split_lines r1 (concat (map snd ins)) = (l2, r)" "ls = l1 @ l2"
    using Cons.prems(3) s1 by (auto simp: i split_lines_append split: prod.splits)
  have t: "take (cn_buf_size c) bs = bs" using Cons.prems(4) by (simp add: i)
  from conn_bytes_lines [OF Cons.prems(1,2) s1] obtain c1 where
    c1: "conn_bytes h wr fd bs c = (True, c1)"
      "after c (run_lines h (map (command_of (cn_msg_in_len_max c)) l1) (cn_cli c)) (line_tail (cn_msg_in_len_max c) r1) c1" by blast
  have "\<exists>c2. data_event_handle h wr (ReadBytes bs) fd c = (0, c2) \<and> after c (cn_cli c1) (cn_msg_in c1) c2"
  proof (cases "bs = []")
    case True
    then show ?thesis using c1(1) by (simp add: data_event_handle_def after_def)
  next
    case False
    then show ?thesis using c1 t Cons.prems(1) by (simp add: data_event_handle_def after_def)
  qed
  then obtain c2 where c2: "data_event_handle h wr (ReadBytes bs) fd c = (0, c2)" "after c (cn_cli c1) (cn_msg_in c1) c2" by blast
  then have "cn_msg_in c2 = line_tail (cn_msg_in_len_max c2) r1" "\<forall>i \<in> set ins. length (snd i) \<le> cn_buf_size c2"
    using c1(2) Cons.prems(4) by (simp_all add: after_def)
  from Cons.IH [OF Cons.prems(1) this(1) s2(1) this(2)] show ?case
    using c1(2) c2 by (simp add: i s2(2) after_def)
qed simp

section \<open>Properties\<close>

text \<open>
  C10: As long as every \<open>write\<close> to a client succeeds: however the input is split over reads, and whichever clients it comes from,
  the handler gets one command per line, in the order of the lines, and what is left of an incomplete line waits in the buffer. A line of
  at most \<open>msg_in_len_max\<close> bytes that contains no null byte is the command itself. Of a longer one the command is what is left
  when pieces of \<open>msg_in_len_max + 1\<close> bytes are taken off its front, and a null byte cuts the command off. The buffer is
  common to all clients: bytes that two of them send between two line ends make up one line.
\<close>

theorem conn_executes_lines:
  assumes "cn_msg_in c = []" and "stream ls rest = concat (map snd ins)"
    and "\<forall>l \<in> set ls. CHR 0x0A \<notin> set l" and "CHR 0x0A \<notin> set rest"
    and "\<forall>i \<in> set ins. length (snd i) \<le> cn_buf_size c"
  shows "(\<exists>c'. conn_inputs h (\<lambda>_. True) ins c = (0, c') \<and>
      cn_cli c' = run_lines h (map (command_of (cn_msg_in_len_max c)) ls) (cn_cli c) \<and> cn_msg_in c' = line_tail (cn_msg_in_len_max c) rest) \<and>
    (\<forall>l. length l \<le> cn_msg_in_len_max c \<and> CHR 0x00 \<notin> set l \<longrightarrow> command_of (cn_msg_in_len_max c) l = l)"
proof -
  have "split_lines [] (concat (map snd ins)) = (ls, rest)" using split_lines_stream [OF assms(3,4)] assms(2) by simp
  moreover have "cn_msg_in c = line_tail (cn_msg_in_len_max c) []" using assms(1) by (simp add: line_tail_def)
  ultimately have "\<exists>c'. conn_inputs h (\<lambda>_. True) ins c = (0, c') \<and>
      cn_cli c' = run_lines h (map (command_of (cn_msg_in_len_max c)) ls) (cn_cli c) \<and> cn_msg_in c' = line_tail (cn_msg_in_len_max c) rest"
    using conn_inputs_lines [OF refl, of c "[]" ins ls rest h] assms(5) by blast
  moreover have "c_string l = l" if "CHR 0x00 \<notin> set l" for l using that by (auto simp: c_string_def takeWhile_eq_all_conv)
  ultimately show ?thesis by (simp add: command_of_def line_tail_short)
qed

text \<open>
  A line that is too long is not refused as a whole: the buffer is emptied where it is full, and what follows is
  a command of its own. Any command can be run as the tail of a long line.
\<close>

theorem overlong_line_runs_its_tail:
  assumes "cn_msg_in c = []" and "plain xs" and "length xs = cn_msg_in_len_max c" and "x \<noteq> CHR 0x0A"
    and "plain ys" and "length ys \<le> cn_msg_in_len_max c"
  shows "\<exists>c'. conn_bytes h (\<lambda>_. True) fd (xs @ [x] @ ys @ [CHR 0x0A]) c = (True, c') \<and>
     cn_cli c' = snd (h ys (cn_cli c)) \<and> cn_msg_in c' = []"
proof -
  let ?wr = "\<lambda>_. True"
  have 1: "conn_bytes h ?wr fd xs c = (True, c\<lparr>cn_msg_in := xs\<rparr>)"
    using conn_bytes_fill [of xs c h ?wr fd] assms by (simp add: plain_def)
  define c1 where "c1 = c\<lparr>cn_msg_in := [], cn_written := cn_written c @ [(fd, MSG_CMD_TOO_LONG)]\<rparr>"
  have 2: "conn_byte h ?wr fd x (c\<lparr>cn_msg_in := xs\<rparr>) = (True, c1)"
    using assms(3,4) by (simp add: conn_byte_def c1_def)
  have 3: "conn_bytes h ?wr fd ys c1 = (True, c1\<lparr>cn_msg_in := ys\<rparr>)"
    using conn_bytes_fill [of ys c1 h ?wr fd] assms(5,6) by (simp add: plain_def c1_def)
  obtain c' where 4: "conn_byte h ?wr fd (CHR 0x0A) (c1\<lparr>cn_msg_in := ys\<rparr>) = (True, c')"
     "after (c1\<lparr>cn_msg_in := ys\<rparr>) (snd (h ys (cn_cli c1))) [] c'"
    using conn_byte_newline [of ?wr h fd "c1\<lparr>cn_msg_in := ys\<rparr>"] c_string_plain [OF assms(5)] by auto
  have "conn_bytes h ?wr fd (xs @ [x] @ ys @ [CHR 0x0A]) c = (True, c')"
    by (simp add: conn_bytes_append 1 2 3 4)
  then show ?thesis using 4(2) by (simp add: after_def c1_def)
qed

text \<open>Concrete connections, with a handler that collects its lines.\<close>

definition demo_conn :: "string list conn" where
  "demo_conn = \<lparr>cn_welcome = ''Hi'', cn_prompt = ''> '', cn_buf_size = 16, cn_msg_in_len_max = 4, cn_msg_out_len_max = 16,
     cn_msg_in = [], cn_clients = [5, 6], cn_cli = [], cn_written = []\<rparr>"

definition collect :: "string list handler" where
  "collect l st = ([], st @ [l])"

lemma conn_executes_lines_witness:
  "\<exists>c'. conn_inputs collect (\<lambda>_. True) [(5, ''ab''), (6, ''c'' @ [CHR 0x0A] @ ''abcdefg'' @ [CHR 0x0A] @ ''d'')] demo_conn = (0, c') \<and>
     cn_cli c' = [''abc'', ''fg''] \<and> cn_msg_in c' = ''d''"
proof -
  let ?ins = "[(5 :: nat, ''ab''), (6, ''c'' @ [CHR 0x0A] @ ''abcdefg'' @ [CHR 0x0A] @ ''d'')]"
  have "cn_msg_in demo_conn = []" "stream [''abc'', ''abcdefg''] ''d'' = concat (map snd ?ins)"
    "\<forall>l \<in> set [''abc'', ''abcdefg'']. CHR 0x0A \<notin> set l" "CHR 0x0A \<notin> set ''d''" "\<forall>i \<in> set ?ins. length (snd i) \<le> cn_buf_size demo_conn"
    by (simp_all add: demo_conn_def stream_def)
  from conn_executes_lines [OF this, of collect] show ?thesis
    by (auto simp: demo_conn_def collect_def command_of_def line_tail_def c_string_def)
qed

lemma overlong_line_runs_its_tail_witness:
  "\<exists>c'. conn_bytes collect (\<lambda>_. True) 5 (''abcd'' @ [CHR ''e''] @ ''fg'' @ [CHR 0x0A]) demo_conn = (True, c') \<and> cn_cli c' = [''fg'']"
  using overlong_line_runs_its_tail [of demo_conn "''abcd''" "CHR ''e''" "''fg''" collect 5]
  by (auto simp: demo_conn_def plain_def collect_def)

end
