(* ===== verification/Sse.thy ===== *)
theory Sse
  imports Prelude
begin

text \<open>
  The vector instructions that the receive path of the driver uses, as functions on the 16 bytes of a register in the
  order in which they are stored. The names are those of the compiler's intrinsics; a constructor
  \<open>_mm_set\<close> gets its elements from the highest to the lowest, as in C.
\<close>

type_synonym m128 = "u8 list"

section \<open>Elements\<close>

definition le16 :: "u8 \<Rightarrow> u8 \<Rightarrow> u16" where
  "le16 a b = ucast a OR push_bit 8 (ucast b)"

definition le32 :: "u8 \<Rightarrow> u8 \<Rightarrow> u8 \<Rightarrow> u8 \<Rightarrow> u32" where
  "le32 a b c d = ucast a OR push_bit 8 (ucast b) OR push_bit 16 (ucast c) OR push_bit 24 (ucast d)"

definition le64 :: "u8 \<Rightarrow> u8 \<Rightarrow> u8 \<Rightarrow> u8 \<Rightarrow> u8 \<Rightarrow> u8 \<Rightarrow> u8 \<Rightarrow> u8 \<Rightarrow> u64" where
  "le64 a b c d e f g h = ucast (le32 a b c d) OR push_bit 32 (ucast (le32 e f g h))"

definition bytes16 :: "u16 \<Rightarrow> u8 list" where
  "bytes16 w = [ucast w, ucast (drop_bit 8 w)]"

definition bytes32 :: "u32 \<Rightarrow> u8 list" where
  "bytes32 w = [ucast w, ucast (drop_bit 8 w), ucast (drop_bit 16 w), ucast (drop_bit 24 w)]"

definition bytes64 :: "u64 \<Rightarrow> u8 list" where
  "bytes64 w = bytes32 (ucast w) @ bytes32 (ucast (drop_bit 32 w))"

fun lanes16 :: "u8 list \<Rightarrow> u16 list" where
  "lanes16 (a # b # xs) = le16 a b # lanes16 xs"
| "lanes16 _ = []"

fun lanes32 :: "u8 list \<Rightarrow> u32 list" where
  "lanes32 (a # b # c # d # xs) = le32 a b c d # lanes32 xs"
| "lanes32 _ = []"

fun lanes64 :: "u8 list \<Rightarrow> u64 list" where
  "lanes64 (a # b # c # d # e # f # g # h # xs) = le64 a b c d e f g h # lanes64 xs"
| "lanes64 _ = []"

definition of_lanes16 :: "u16 list \<Rightarrow> m128" where "of_lanes16 ws = concat (map bytes16 ws)"
definition of_lanes32 :: "u32 list \<Rightarrow> m128" where "of_lanes32 ws = concat (map bytes32 ws)"
definition of_lanes64 :: "u64 list \<Rightarrow> m128" where "of_lanes64 ws = concat (map bytes64 ws)"

section \<open>Constants\<close>

definition mm_set_epi8 :: "u8 list \<Rightarrow> m128" where "mm_set_epi8 bs = rev bs"
definition mm_set_epi16 :: "u16 list \<Rightarrow> m128" where "mm_set_epi16 ws = of_lanes16 (rev ws)"
definition mm_set_epi32 :: "u32 list \<Rightarrow> m128" where "mm_set_epi32 ws = of_lanes32 (rev ws)"
definition mm_set_epi64x :: "u64 \<Rightarrow> u64 \<Rightarrow> m128" where "mm_set_epi64x hi lo = of_lanes64 [lo, hi]"
definition mm_set1_epi32 :: "u32 \<Rightarrow> m128" where "mm_set1_epi32 w = of_lanes32 [w, w, w, w]"
definition mm_setzero_si128 :: m128 where "mm_setzero_si128 = replicate 16 0"

section \<open>Bitwise operations, shifts and sums\<close>

definition mm_and_si128 :: "m128 \<Rightarrow> m128 \<Rightarrow> m128" where "mm_and_si128 a b = map2 (AND) a b"
definition mm_or_si128 :: "m128 \<Rightarrow> m128 \<Rightarrow> m128" where "mm_or_si128 a b = map2 (OR) a b"
definition mm_xor_si128 :: "m128 \<Rightarrow> m128 \<Rightarrow> m128" where "mm_xor_si128 a b = map2 (XOR) a b"
definition mm_andnot_si128 :: "m128 \<Rightarrow> m128 \<Rightarrow> m128" where "mm_andnot_si128 a b = map2 (\<lambda>x y. NOT x AND y) a b"

definition mm_srli_epi16 :: "m128 \<Rightarrow> nat \<Rightarrow> m128" where "mm_srli_epi16 a n = of_lanes16 (map (drop_bit n) (lanes16 a))"
definition mm_slli_epi16 :: "m128 \<Rightarrow> nat \<Rightarrow> m128" where "mm_slli_epi16 a n = of_lanes16 (map (push_bit n) (lanes16 a))"
definition mm_srli_epi32 :: "m128 \<Rightarrow> nat \<Rightarrow> m128" where "mm_srli_epi32 a n = of_lanes32 (map (drop_bit n) (lanes32 a))"
definition mm_slli_epi32 :: "m128 \<Rightarrow> nat \<Rightarrow> m128" where "mm_slli_epi32 a n = of_lanes32 (map (push_bit n) (lanes32 a))"
definition mm_srli_si128 :: "m128 \<Rightarrow> nat \<Rightarrow> m128" where "mm_srli_si128 a n = drop n a @ replicate n 0"
definition mm_slli_si128 :: "m128 \<Rightarrow> nat \<Rightarrow> m128" where "mm_slli_si128 a n = take 16 (replicate n 0 @ a)"

definition mm_add_epi16 :: "m128 \<Rightarrow> m128 \<Rightarrow> m128" where
  "mm_add_epi16 a b = of_lanes16 (map2 (+) (lanes16 a) (lanes16 b))"
definition mm_add_epi64 :: "m128 \<Rightarrow> m128 \<Rightarrow> m128" where
  "mm_add_epi64 a b = of_lanes64 (map2 (+) (lanes64 a) (lanes64 b))"
definition mm_cmpeq_epi32 :: "m128 \<Rightarrow> m128 \<Rightarrow> m128" where
  "mm_cmpeq_epi32 a b = of_lanes32 (map2 (\<lambda>x y. if x = y then - 1 else 0) (lanes32 a) (lanes32 b))"

section \<open>Permutations\<close>

fun groups2 :: "'a list \<Rightarrow> 'a list list" where
  "groups2 (a # b # xs) = [a, b] # groups2 xs"
| "groups2 _ = []"

fun groups4 :: "'a list \<Rightarrow> 'a list list" where
  "groups4 (a # b # c # d # xs) = [a, b, c, d] # groups4 xs"
| "groups4 _ = []"

fun interleave :: "'a list \<Rightarrow> 'a list \<Rightarrow> 'a list" where
  "interleave (x # xs) (y # ys) = x # y # interleave xs ys"
| "interleave _ _ = []"

definition mm_unpacklo_epi16 :: "m128 \<Rightarrow> m128 \<Rightarrow> m128" where
  "mm_unpacklo_epi16 a b = concat (interleave (groups2 (take 8 a)) (groups2 (take 8 b)))"
definition mm_unpackhi_epi16 :: "m128 \<Rightarrow> m128 \<Rightarrow> m128" where
  "mm_unpackhi_epi16 a b = concat (interleave (groups2 (drop 8 a)) (groups2 (drop 8 b)))"
definition mm_unpacklo_epi32 :: "m128 \<Rightarrow> m128 \<Rightarrow> m128" where
  "mm_unpacklo_epi32 a b = concat (interleave (groups4 (take 8 a)) (groups4 (take 8 b)))"
definition mm_unpackhi_epi32 :: "m128 \<Rightarrow> m128 \<Rightarrow> m128" where
  "mm_unpackhi_epi32 a b = concat (interleave (groups4 (drop 8 a)) (groups4 (drop 8 b)))"
definition mm_unpackhi_epi64 :: "m128 \<Rightarrow> m128 \<Rightarrow> m128" where
  "mm_unpackhi_epi64 a b = drop 8 a @ drop 8 b"

definition mm_shuffle_epi8 :: "m128 \<Rightarrow> m128 \<Rightarrow> m128" where
  "mm_shuffle_epi8 a m = map (\<lambda>i. if bit i 7 then 0 else a ! unat (i AND 15)) m"

definition mm_blend_epi16 :: "m128 \<Rightarrow> m128 \<Rightarrow> nat \<Rightarrow> m128" where
  "mm_blend_epi16 a b imm =
     concat (map (\<lambda>(i, x, y). if bit imm i then y else x) (zip [0..<8] (zip (groups2 a) (groups2 b))))"

definition sat16 :: "u32 \<Rightarrow> u16" where
  "sat16 w = (if 32767 < sint w then 32767 else if sint w < - 32768 then - 32768 else ucast w)"

definition mm_packs_epi32 :: "m128 \<Rightarrow> m128 \<Rightarrow> m128" where
  "mm_packs_epi32 a b = of_lanes16 (map sat16 (lanes32 a @ lanes32 b))"

section \<open>Reading a register\<close>

definition mm_extract_epi32 :: "m128 \<Rightarrow> nat \<Rightarrow> u32" where "mm_extract_epi32 a i = lanes32 a ! i"
definition mm_cvtsi128_si64 :: "m128 \<Rightarrow> u64" where "mm_cvtsi128_si64 a = lanes64 a ! 0"
definition mm_cvtsi128_si32 :: "m128 \<Rightarrow> u32" where "mm_cvtsi128_si32 a = lanes32 a ! 0"

definition mm_movemask_epi8 :: "m128 \<Rightarrow> u32" where
  "mm_movemask_epi8 a = foldr (\<lambda>x m. push_bit 1 m OR (if bit x 7 then 1 else 0)) a 0"

definition popcountll :: "u64 \<Rightarrow> nat" where
  "popcountll w = length (filter (bit w) [0..<64])"

section \<open>Laws\<close>

lemma le16_bytes16 [simp]: "le16 (ucast w) (ucast (drop_bit 8 w)) = w"
  by (rule bit_word_eqI) (auto simp: le16_def bit_simps dest: bit_imp_le_length)

lemma lanes16_of_lanes16 [simp]: "lanes16 (of_lanes16 ws) = ws"
  by (induction ws) (simp_all add: of_lanes16_def bytes16_def)

lemma le32_bytes32 [simp]: "le32 (ucast w) (ucast (drop_bit 8 w)) (ucast (drop_bit 16 w)) (ucast (drop_bit 24 w)) = w"
proof (rule bit_word_eqI)
  fix n
  assume "n < LENGTH(32)"
  then consider "n < 8" | "8 \<le> n \<and> n < 16" | "16 \<le> n \<and> n < 24" | "24 \<le> n \<and> n < 32" by fastforce
  then show "bit (le32 (ucast w) (ucast (drop_bit 8 w)) (ucast (drop_bit 16 w)) (ucast (drop_bit 24 w))) n = bit w n"
    by cases (auto simp: le32_def bit_simps)
qed

lemma lanes32_of_lanes32 [simp]: "lanes32 (of_lanes32 ws) = ws"
  by (induction ws) (simp_all add: of_lanes32_def bytes32_def)

lemma bytes16_le16 [simp]: "bytes16 (le16 a b) = [a, b]"
  unfolding bytes16_def list.inject
  by (intro conjI refl; rule bit_word_eqI) (auto simp: le16_def bit_simps dest: bit_imp_le_length)

lemma bytes32_le32 [simp]: "bytes32 (le32 a b c d) = [a, b, c, d]"
  unfolding bytes32_def list.inject
  by (intro conjI refl; rule bit_word_eqI) (auto simp: le32_def bit_simps dest: bit_imp_le_length)

lemma length16:
  assumes "length (xs :: 'a list) = 16"
  obtains x0 x1 x2 x3 x4 x5 x6 x7 x8 x9 x10 x11 x12 x13 x14 x15
  where "xs = [x0, x1, x2, x3, x4, x5, x6, x7, x8, x9, x10, x11, x12, x13, x14, x15]"
  using assms by (auto simp: eval_nat_numeral length_Suc_conv)

section \<open>Registers given by their bytes\<close>

lemma mm_unpacklo_epi16_list [simp]:
  "mm_unpacklo_epi16 [a0, a1, a2, a3, a4, a5, a6, a7, a8, a9, a10, a11, a12, a13, a14, a15] [b0, b1, b2, b3, b4, b5, b6, b7, b8, b9, b10, b11, b12, b13, b14, b15] =
    [a0, a1, b0, b1, a2, a3, b2, b3, a4, a5, b4, b5, a6, a7, b6, b7]"
  by (simp add: mm_unpacklo_epi16_def numeral_eq_Suc)

lemma mm_unpackhi_epi16_list [simp]:
  "mm_unpackhi_epi16 [a0, a1, a2, a3, a4, a5, a6, a7, a8, a9, a10, a11, a12, a13, a14, a15] [b0, b1, b2, b3, b4, b5, b6, b7, b8, b9, b10, b11, b12, b13, b14, b15] =
    [a8, a9, b8, b9, a10, a11, b10, b11, a12, a13, b12, b13, a14, a15, b14, b15]"
  by (simp add: mm_unpackhi_epi16_def numeral_eq_Suc)

lemma mm_unpacklo_epi32_list [simp]:
  "mm_unpacklo_epi32 [a0, a1, a2, a3, a4, a5, a6, a7, a8, a9, a10, a11, a12, a13, a14, a15] [b0, b1, b2, b3, b4, b5, b6, b7, b8, b9, b10, b11, b12, b13, b14, b15] =
    [a0, a1, a2, a3, b0, b1, b2, b3, a4, a5, a6, a7, b4, b5, b6, b7]"
  by (simp add: mm_unpacklo_epi32_def numeral_eq_Suc)

lemma mm_unpackhi_epi32_list [simp]:
  "mm_unpackhi_epi32 [a0, a1, a2, a3, a4, a5, a6, a7, a8, a9, a10, a11, a12, a13, a14, a15] [b0, b1, b2, b3, b4, b5, b6, b7, b8, b9, b10, b11, b12, b13, b14, b15] =
    [a8, a9, a10, a11, b8, b9, b10, b11, a12, a13, a14, a15, b12, b13, b14, b15]"
  by (simp add: mm_unpackhi_epi32_def numeral_eq_Suc)

lemma mm_srli_si128_8_list [simp]:
  "mm_srli_si128 [a0, a1, a2, a3, a4, a5, a6, a7, a8, a9, a10, a11, a12, a13, a14, a15] 8 =
    [a8, a9, a10, a11, a12, a13, a14, a15, 0, 0, 0, 0, 0, 0, 0, 0]"
  by (simp add: mm_srli_si128_def numeral_eq_Suc)

lemma mm_slli_si128_8_list [simp]:
  "mm_slli_si128 [a0, a1, a2, a3, a4, a5, a6, a7, a8, a9, a10, a11, a12, a13, a14, a15] 8 =
    [0, 0, 0, 0, 0, 0, 0, 0, a0, a1, a2, a3, a4, a5, a6, a7]"
  by (simp add: mm_slli_si128_def numeral_eq_Suc)

lemma mm_slli_si128_6_list [simp]:
  "mm_slli_si128 [a0, a1, a2, a3, a4, a5, a6, a7, a8, a9, a10, a11, a12, a13, a14, a15] 6 =
    [0, 0, 0, 0, 0, 0, a0, a1, a2, a3, a4, a5, a6, a7, a8, a9]"
  by (simp add: mm_slli_si128_def numeral_eq_Suc)

lemma mm_slli_si128_4_list [simp]:
  "mm_slli_si128 [a0, a1, a2, a3, a4, a5, a6, a7, a8, a9, a10, a11, a12, a13, a14, a15] 4 =
    [0, 0, 0, 0, a0, a1, a2, a3, a4, a5, a6, a7, a8, a9, a10, a11]"
  by (simp add: mm_slli_si128_def numeral_eq_Suc)

lemma mm_slli_si128_2_list [simp]:
  "mm_slli_si128 [a0, a1, a2, a3, a4, a5, a6, a7, a8, a9, a10, a11, a12, a13, a14, a15] 2 =
    [0, 0, a0, a1, a2, a3, a4, a5, a6, a7, a8, a9, a10, a11, a12, a13]"
  by (simp add: mm_slli_si128_def numeral_eq_Suc)

lemma mm_blend_epi16_16_list [simp]:
  "mm_blend_epi16 [a0, a1, a2, a3, a4, a5, a6, a7, a8, a9, a10, a11, a12, a13, a14, a15] [b0, b1, b2, b3, b4, b5, b6, b7, b8, b9, b10, b11, b12, b13, b14, b15] 0x10 =
    [a0, a1, a2, a3, a4, a5, a6, a7, b8, b9, a10, a11, a12, a13, a14, a15]"
  by (simp add: mm_blend_epi16_def upt_rec bit_simps)

lemma lanes16_list [simp]:
  "lanes16 [a0, a1, a2, a3, a4, a5, a6, a7, a8, a9, a10, a11, a12, a13, a14, a15] =
    [le16 a0 a1, le16 a2 a3, le16 a4 a5, le16 a6 a7, le16 a8 a9, le16 a10 a11, le16 a12 a13, le16 a14 a15]"
  by simp

lemma lanes32_list [simp]:
  "lanes32 [a0, a1, a2, a3, a4, a5, a6, a7, a8, a9, a10, a11, a12, a13, a14, a15] =
    [le32 a0 a1 a2 a3, le32 a4 a5 a6 a7, le32 a8 a9 a10 a11, le32 a12 a13 a14 a15]"
  by simp

end
