(* ===== verification/IxgbeRxDesc.thy ===== *)
theory IxgbeRxDesc
  imports Sse
begin

text \<open>
  The receive descriptors of the ixgbe driver and what they become in a packet buffer: the scalar translation of
  drivers/net/ixgbe/ixgbe_rxtx.c (without IEEE 1588) and the vector translation of four descriptors at a time
  in ixgbe_rxtx_vec_sse.c, and that both agree but for the flags which the vector one leaves out. A descriptor
  is its 16 bytes in memory as the device writes it back.
\<close>

section \<open>Packet types\<close>

definition RTE_PTYPE_L2_ETHER :: u32 where "RTE_PTYPE_L2_ETHER = 0x1"
definition RTE_PTYPE_L3_IPV4 :: u32 where "RTE_PTYPE_L3_IPV4 = 0x10"
definition RTE_PTYPE_L3_IPV4_EXT :: u32 where "RTE_PTYPE_L3_IPV4_EXT = 0x30"
definition RTE_PTYPE_L3_IPV6 :: u32 where "RTE_PTYPE_L3_IPV6 = 0x40"
definition RTE_PTYPE_L3_IPV4_EXT_UNKNOWN :: u32 where "RTE_PTYPE_L3_IPV4_EXT_UNKNOWN = 0x90"
definition RTE_PTYPE_L3_IPV6_EXT :: u32 where "RTE_PTYPE_L3_IPV6_EXT = 0xc0"
definition RTE_PTYPE_L4_TCP :: u32 where "RTE_PTYPE_L4_TCP = 0x100"
definition RTE_PTYPE_L4_UDP :: u32 where "RTE_PTYPE_L4_UDP = 0x200"
definition RTE_PTYPE_L4_SCTP :: u32 where "RTE_PTYPE_L4_SCTP = 0x400"
definition RTE_PTYPE_TUNNEL_IP :: u32 where "RTE_PTYPE_TUNNEL_IP = 0x1000"
definition RTE_PTYPE_TUNNEL_GRE :: u32 where "RTE_PTYPE_TUNNEL_GRE = 0x2000"
definition RTE_PTYPE_TUNNEL_VXLAN :: u32 where "RTE_PTYPE_TUNNEL_VXLAN = 0x3000"
definition RTE_PTYPE_INNER_L2_ETHER :: u32 where "RTE_PTYPE_INNER_L2_ETHER = 0x10000"
definition RTE_PTYPE_INNER_L3_IPV4 :: u32 where "RTE_PTYPE_INNER_L3_IPV4 = 0x100000"
definition RTE_PTYPE_INNER_L3_IPV4_EXT :: u32 where "RTE_PTYPE_INNER_L3_IPV4_EXT = 0x200000"
definition RTE_PTYPE_INNER_L3_IPV6 :: u32 where "RTE_PTYPE_INNER_L3_IPV6 = 0x300000"
definition RTE_PTYPE_INNER_L3_IPV6_EXT :: u32 where "RTE_PTYPE_INNER_L3_IPV6_EXT = 0x500000"
definition RTE_PTYPE_INNER_L4_TCP :: u32 where "RTE_PTYPE_INNER_L4_TCP = 0x1000000"
definition RTE_PTYPE_INNER_L4_UDP :: u32 where "RTE_PTYPE_INNER_L4_UDP = 0x2000000"
definition RTE_PTYPE_INNER_L4_SCTP :: u32 where "RTE_PTYPE_INNER_L4_SCTP = 0x4000000"

definition ptype_entries :: "(nat \<times> u32) list" where
  "ptype_entries = [
    (0x0, RTE_PTYPE_L2_ETHER),
    (0x1, RTE_PTYPE_L2_ETHER OR RTE_PTYPE_L3_IPV4),
    (0x11, RTE_PTYPE_L2_ETHER OR RTE_PTYPE_L3_IPV4 OR RTE_PTYPE_L4_TCP),
    (0x21, RTE_PTYPE_L2_ETHER OR RTE_PTYPE_L3_IPV4 OR RTE_PTYPE_L4_UDP),
    (0x41, RTE_PTYPE_L2_ETHER OR RTE_PTYPE_L3_IPV4 OR RTE_PTYPE_L4_SCTP),
    (0x3, RTE_PTYPE_L2_ETHER OR RTE_PTYPE_L3_IPV4_EXT),
    (0x13, RTE_PTYPE_L2_ETHER OR RTE_PTYPE_L3_IPV4_EXT OR RTE_PTYPE_L4_TCP),
    (0x23, RTE_PTYPE_L2_ETHER OR RTE_PTYPE_L3_IPV4_EXT OR RTE_PTYPE_L4_UDP),
    (0x43, RTE_PTYPE_L2_ETHER OR RTE_PTYPE_L3_IPV4_EXT OR RTE_PTYPE_L4_SCTP),
    (0x4, RTE_PTYPE_L2_ETHER OR RTE_PTYPE_L3_IPV6),
    (0x14, RTE_PTYPE_L2_ETHER OR RTE_PTYPE_L3_IPV6 OR RTE_PTYPE_L4_TCP),
    (0x24, RTE_PTYPE_L2_ETHER OR RTE_PTYPE_L3_IPV6 OR RTE_PTYPE_L4_UDP),
    (0x44, RTE_PTYPE_L2_ETHER OR RTE_PTYPE_L3_IPV6 OR RTE_PTYPE_L4_SCTP),
    (0xc, RTE_PTYPE_L2_ETHER OR RTE_PTYPE_L3_IPV6_EXT),
    (0x1c, RTE_PTYPE_L2_ETHER OR RTE_PTYPE_L3_IPV6_EXT OR RTE_PTYPE_L4_TCP),
    (0x2c, RTE_PTYPE_L2_ETHER OR RTE_PTYPE_L3_IPV6_EXT OR RTE_PTYPE_L4_UDP),
    (0x4c, RTE_PTYPE_L2_ETHER OR RTE_PTYPE_L3_IPV6_EXT OR RTE_PTYPE_L4_SCTP),
    (0x5, RTE_PTYPE_L2_ETHER OR RTE_PTYPE_L3_IPV4 OR RTE_PTYPE_TUNNEL_IP OR RTE_PTYPE_INNER_L3_IPV6),
    (0x15, RTE_PTYPE_L2_ETHER OR RTE_PTYPE_L3_IPV4 OR RTE_PTYPE_TUNNEL_IP OR RTE_PTYPE_INNER_L3_IPV6 OR RTE_PTYPE_INNER_L4_TCP),
    (0x25, RTE_PTYPE_L2_ETHER OR RTE_PTYPE_L3_IPV4 OR RTE_PTYPE_TUNNEL_IP OR RTE_PTYPE_INNER_L3_IPV6 OR RTE_PTYPE_INNER_L4_UDP),
    (0x45, RTE_PTYPE_L2_ETHER OR RTE_PTYPE_L3_IPV4 OR RTE_PTYPE_TUNNEL_IP OR RTE_PTYPE_INNER_L3_IPV6 OR RTE_PTYPE_INNER_L4_SCTP),
    (0x7, RTE_PTYPE_L2_ETHER OR RTE_PTYPE_L3_IPV4_EXT OR RTE_PTYPE_TUNNEL_IP OR RTE_PTYPE_INNER_L3_IPV6),
    (0x17, RTE_PTYPE_L2_ETHER OR RTE_PTYPE_L3_IPV4_EXT OR RTE_PTYPE_TUNNEL_IP OR RTE_PTYPE_INNER_L3_IPV6 OR RTE_PTYPE_INNER_L4_TCP),
    (0x27, RTE_PTYPE_L2_ETHER OR RTE_PTYPE_L3_IPV4_EXT OR RTE_PTYPE_TUNNEL_IP OR RTE_PTYPE_INNER_L3_IPV6 OR RTE_PTYPE_INNER_L4_UDP),
    (0x47, RTE_PTYPE_L2_ETHER OR RTE_PTYPE_L3_IPV4_EXT OR RTE_PTYPE_TUNNEL_IP OR RTE_PTYPE_INNER_L3_IPV6 OR RTE_PTYPE_INNER_L4_SCTP),
    (0xd, RTE_PTYPE_L2_ETHER OR RTE_PTYPE_L3_IPV4 OR RTE_PTYPE_TUNNEL_IP OR RTE_PTYPE_INNER_L3_IPV6_EXT),
    (0x1d, RTE_PTYPE_L2_ETHER OR RTE_PTYPE_L3_IPV4 OR RTE_PTYPE_TUNNEL_IP OR RTE_PTYPE_INNER_L3_IPV6_EXT OR RTE_PTYPE_INNER_L4_TCP),
    (0x2d, RTE_PTYPE_L2_ETHER OR RTE_PTYPE_L3_IPV4 OR RTE_PTYPE_TUNNEL_IP OR RTE_PTYPE_INNER_L3_IPV6_EXT OR RTE_PTYPE_INNER_L4_UDP),
    (0x4d, RTE_PTYPE_L2_ETHER OR RTE_PTYPE_L3_IPV4 OR RTE_PTYPE_TUNNEL_IP OR RTE_PTYPE_INNER_L3_IPV6_EXT OR RTE_PTYPE_INNER_L4_SCTP),
    (0xf, RTE_PTYPE_L2_ETHER OR RTE_PTYPE_L3_IPV4_EXT OR RTE_PTYPE_TUNNEL_IP OR RTE_PTYPE_INNER_L3_IPV6_EXT),
    (0x1f, RTE_PTYPE_L2_ETHER OR RTE_PTYPE_L3_IPV4_EXT OR RTE_PTYPE_TUNNEL_IP OR RTE_PTYPE_INNER_L3_IPV6_EXT OR RTE_PTYPE_INNER_L4_TCP),
    (0x2f, RTE_PTYPE_L2_ETHER OR RTE_PTYPE_L3_IPV4_EXT OR RTE_PTYPE_TUNNEL_IP OR RTE_PTYPE_INNER_L3_IPV6_EXT OR RTE_PTYPE_INNER_L4_UDP),
    (0x4f, RTE_PTYPE_L2_ETHER OR RTE_PTYPE_L3_IPV4_EXT OR RTE_PTYPE_TUNNEL_IP OR RTE_PTYPE_INNER_L3_IPV6_EXT OR RTE_PTYPE_INNER_L4_SCTP)]"

definition ptype_entries_tn :: "(nat \<times> u32) list" where
  "ptype_entries_tn = [
    (0x0, RTE_PTYPE_L2_ETHER OR RTE_PTYPE_L3_IPV4_EXT_UNKNOWN OR RTE_PTYPE_TUNNEL_GRE OR RTE_PTYPE_INNER_L2_ETHER),
    (0x1, RTE_PTYPE_L2_ETHER OR RTE_PTYPE_L3_IPV4_EXT_UNKNOWN OR RTE_PTYPE_TUNNEL_GRE OR RTE_PTYPE_INNER_L2_ETHER OR RTE_PTYPE_INNER_L3_IPV4),
    (0x3, RTE_PTYPE_L2_ETHER OR RTE_PTYPE_L3_IPV4_EXT_UNKNOWN OR RTE_PTYPE_TUNNEL_GRE OR RTE_PTYPE_INNER_L2_ETHER OR RTE_PTYPE_INNER_L3_IPV4_EXT),
    (0x4, RTE_PTYPE_L2_ETHER OR RTE_PTYPE_L3_IPV4_EXT_UNKNOWN OR RTE_PTYPE_TUNNEL_GRE OR RTE_PTYPE_INNER_L2_ETHER OR RTE_PTYPE_INNER_L3_IPV6),
    (0x5, RTE_PTYPE_L2_ETHER OR RTE_PTYPE_L3_IPV4_EXT_UNKNOWN OR RTE_PTYPE_TUNNEL_GRE OR RTE_PTYPE_INNER_L2_ETHER OR RTE_PTYPE_INNER_L3_IPV4),
    (0xc, RTE_PTYPE_L2_ETHER OR RTE_PTYPE_L3_IPV4_EXT_UNKNOWN OR RTE_PTYPE_TUNNEL_GRE OR RTE_PTYPE_INNER_L2_ETHER OR RTE_PTYPE_INNER_L3_IPV6_EXT),
    (0xd, RTE_PTYPE_L2_ETHER OR RTE_PTYPE_L3_IPV4_EXT_UNKNOWN OR RTE_PTYPE_TUNNEL_GRE OR RTE_PTYPE_INNER_L2_ETHER OR RTE_PTYPE_INNER_L3_IPV4),
    (0x11, RTE_PTYPE_L2_ETHER OR RTE_PTYPE_L3_IPV4_EXT_UNKNOWN OR RTE_PTYPE_TUNNEL_GRE OR RTE_PTYPE_INNER_L2_ETHER OR RTE_PTYPE_INNER_L3_IPV4 OR RTE_PTYPE_INNER_L4_TCP),
    (0x14, RTE_PTYPE_L2_ETHER OR RTE_PTYPE_L3_IPV4_EXT_UNKNOWN OR RTE_PTYPE_TUNNEL_GRE OR RTE_PTYPE_INNER_L2_ETHER OR RTE_PTYPE_INNER_L3_IPV6 OR RTE_PTYPE_INNER_L4_TCP),
    (0x15, RTE_PTYPE_L2_ETHER OR RTE_PTYPE_L3_IPV4_EXT_UNKNOWN OR RTE_PTYPE_TUNNEL_GRE OR RTE_PTYPE_INNER_L2_ETHER OR RTE_PTYPE_INNER_L3_IPV4),
    (0x1c, RTE_PTYPE_L2_ETHER OR RTE_PTYPE_L3_IPV4_EXT_UNKNOWN OR RTE_PTYPE_TUNNEL_GRE OR RTE_PTYPE_INNER_L2_ETHER OR RTE_PTYPE_INNER_L3_IPV6_EXT OR RTE_PTYPE_INNER_L4_TCP),
    (0x1d, RTE_PTYPE_L2_ETHER OR RTE_PTYPE_L3_IPV4_EXT_UNKNOWN OR RTE_PTYPE_TUNNEL_GRE OR RTE_PTYPE_INNER_L2_ETHER OR RTE_PTYPE_INNER_L3_IPV4),
    (0x21, RTE_PTYPE_L2_ETHER OR RTE_PTYPE_L3_IPV4_EXT_UNKNOWN OR RTE_PTYPE_TUNNEL_GRE OR RTE_PTYPE_INNER_L2_ETHER OR RTE_PTYPE_INNER_L3_IPV4 OR RTE_PTYPE_INNER_L4_UDP),
    (0x24, RTE_PTYPE_L2_ETHER OR RTE_PTYPE_L3_IPV4_EXT_UNKNOWN OR RTE_PTYPE_TUNNEL_GRE OR RTE_PTYPE_INNER_L2_ETHER OR RTE_PTYPE_INNER_L3_IPV6 OR RTE_PTYPE_INNER_L4_UDP),
    (0x44, RTE_PTYPE_L2_ETHER OR RTE_PTYPE_L3_IPV4_EXT_UNKNOWN OR RTE_PTYPE_TUNNEL_GRE OR RTE_PTYPE_INNER_L2_ETHER OR RTE_PTYPE_INNER_L3_IPV6 OR RTE_PTYPE_INNER_L4_SCTP),
    (0x25, RTE_PTYPE_L2_ETHER OR RTE_PTYPE_L3_IPV4_EXT_UNKNOWN OR RTE_PTYPE_TUNNEL_GRE OR RTE_PTYPE_INNER_L2_ETHER OR RTE_PTYPE_INNER_L3_IPV4),
    (0x2c, RTE_PTYPE_L2_ETHER OR RTE_PTYPE_L3_IPV4_EXT_UNKNOWN OR RTE_PTYPE_TUNNEL_GRE OR RTE_PTYPE_INNER_L2_ETHER OR RTE_PTYPE_INNER_L3_IPV6_EXT OR RTE_PTYPE_INNER_L4_UDP),
    (0x4c, RTE_PTYPE_L2_ETHER OR RTE_PTYPE_L3_IPV4_EXT_UNKNOWN OR RTE_PTYPE_TUNNEL_GRE OR RTE_PTYPE_INNER_L2_ETHER OR RTE_PTYPE_INNER_L3_IPV6_EXT OR RTE_PTYPE_INNER_L4_SCTP),
    (0x2d, RTE_PTYPE_L2_ETHER OR RTE_PTYPE_L3_IPV4_EXT_UNKNOWN OR RTE_PTYPE_TUNNEL_GRE OR RTE_PTYPE_INNER_L2_ETHER OR RTE_PTYPE_INNER_L3_IPV4),
    (0x41, RTE_PTYPE_L2_ETHER OR RTE_PTYPE_L3_IPV4_EXT_UNKNOWN OR RTE_PTYPE_TUNNEL_GRE OR RTE_PTYPE_INNER_L2_ETHER OR RTE_PTYPE_INNER_L3_IPV4 OR RTE_PTYPE_INNER_L4_SCTP),
    (0x43, RTE_PTYPE_L2_ETHER OR RTE_PTYPE_L3_IPV4_EXT_UNKNOWN OR RTE_PTYPE_TUNNEL_GRE OR RTE_PTYPE_INNER_L2_ETHER OR RTE_PTYPE_INNER_L3_IPV4_EXT OR RTE_PTYPE_INNER_L4_SCTP),
    (0x13, RTE_PTYPE_L2_ETHER OR RTE_PTYPE_L3_IPV4_EXT_UNKNOWN OR RTE_PTYPE_TUNNEL_GRE OR RTE_PTYPE_INNER_L2_ETHER OR RTE_PTYPE_INNER_L3_IPV4_EXT OR RTE_PTYPE_INNER_L4_TCP),
    (0x23, RTE_PTYPE_L2_ETHER OR RTE_PTYPE_L3_IPV4_EXT_UNKNOWN OR RTE_PTYPE_TUNNEL_GRE OR RTE_PTYPE_INNER_L2_ETHER OR RTE_PTYPE_INNER_L3_IPV4_EXT OR RTE_PTYPE_INNER_L4_UDP),
    (0x80, RTE_PTYPE_L2_ETHER OR RTE_PTYPE_L3_IPV4_EXT_UNKNOWN OR RTE_PTYPE_L4_UDP OR RTE_PTYPE_TUNNEL_VXLAN OR RTE_PTYPE_INNER_L2_ETHER),
    (0x81, RTE_PTYPE_L2_ETHER OR RTE_PTYPE_L3_IPV4_EXT_UNKNOWN OR RTE_PTYPE_L4_UDP OR RTE_PTYPE_TUNNEL_VXLAN OR RTE_PTYPE_INNER_L2_ETHER OR RTE_PTYPE_INNER_L3_IPV4),
    (0x83, RTE_PTYPE_L2_ETHER OR RTE_PTYPE_L3_IPV4_EXT_UNKNOWN OR RTE_PTYPE_L4_UDP OR RTE_PTYPE_TUNNEL_VXLAN OR RTE_PTYPE_INNER_L2_ETHER OR RTE_PTYPE_INNER_L3_IPV4_EXT),
    (0x84, RTE_PTYPE_L2_ETHER OR RTE_PTYPE_L3_IPV4_EXT_UNKNOWN OR RTE_PTYPE_L4_UDP OR RTE_PTYPE_TUNNEL_VXLAN OR RTE_PTYPE_INNER_L2_ETHER OR RTE_PTYPE_INNER_L3_IPV6),
    (0x85, RTE_PTYPE_L2_ETHER OR RTE_PTYPE_L3_IPV4_EXT_UNKNOWN OR RTE_PTYPE_L4_UDP OR RTE_PTYPE_TUNNEL_VXLAN OR RTE_PTYPE_INNER_L2_ETHER OR RTE_PTYPE_INNER_L3_IPV4),
    (0x8c, RTE_PTYPE_L2_ETHER OR RTE_PTYPE_L3_IPV4_EXT_UNKNOWN OR RTE_PTYPE_L4_UDP OR RTE_PTYPE_TUNNEL_VXLAN OR RTE_PTYPE_INNER_L2_ETHER OR RTE_PTYPE_INNER_L3_IPV6_EXT),
    (0x8d, RTE_PTYPE_L2_ETHER OR RTE_PTYPE_L3_IPV4_EXT_UNKNOWN OR RTE_PTYPE_L4_UDP OR RTE_PTYPE_TUNNEL_VXLAN OR RTE_PTYPE_INNER_L2_ETHER OR RTE_PTYPE_INNER_L3_IPV4),
    (0x91, RTE_PTYPE_L2_ETHER OR RTE_PTYPE_L3_IPV4_EXT_UNKNOWN OR RTE_PTYPE_L4_UDP OR RTE_PTYPE_TUNNEL_VXLAN OR RTE_PTYPE_INNER_L2_ETHER OR RTE_PTYPE_INNER_L3_IPV4 OR RTE_PTYPE_INNER_L4_TCP),
    (0x94, RTE_PTYPE_L2_ETHER OR RTE_PTYPE_L3_IPV4_EXT_UNKNOWN OR RTE_PTYPE_L4_UDP OR RTE_PTYPE_TUNNEL_VXLAN OR RTE_PTYPE_INNER_L2_ETHER OR RTE_PTYPE_INNER_L3_IPV6 OR RTE_PTYPE_INNER_L4_TCP),
    (0x95, RTE_PTYPE_L2_ETHER OR RTE_PTYPE_L3_IPV4_EXT_UNKNOWN OR RTE_PTYPE_L4_UDP OR RTE_PTYPE_TUNNEL_VXLAN OR RTE_PTYPE_INNER_L2_ETHER OR RTE_PTYPE_INNER_L3_IPV4),
    (0x9c, RTE_PTYPE_L2_ETHER OR RTE_PTYPE_L3_IPV4_EXT_UNKNOWN OR RTE_PTYPE_L4_UDP OR RTE_PTYPE_TUNNEL_VXLAN OR RTE_PTYPE_INNER_L2_ETHER OR RTE_PTYPE_INNER_L3_IPV6_EXT OR RTE_PTYPE_INNER_L4_TCP),
    (0x9d, RTE_PTYPE_L2_ETHER OR RTE_PTYPE_L3_IPV4_EXT_UNKNOWN OR RTE_PTYPE_L4_UDP OR RTE_PTYPE_TUNNEL_VXLAN OR RTE_PTYPE_INNER_L2_ETHER OR RTE_PTYPE_INNER_L3_IPV4),
    (0xa1, RTE_PTYPE_L2_ETHER OR RTE_PTYPE_L3_IPV4_EXT_UNKNOWN OR RTE_PTYPE_L4_UDP OR RTE_PTYPE_TUNNEL_VXLAN OR RTE_PTYPE_INNER_L2_ETHER OR RTE_PTYPE_INNER_L3_IPV4 OR RTE_PTYPE_INNER_L4_UDP),
    (0xa4, RTE_PTYPE_L2_ETHER OR RTE_PTYPE_L3_IPV4_EXT_UNKNOWN OR RTE_PTYPE_L4_UDP OR RTE_PTYPE_TUNNEL_VXLAN OR RTE_PTYPE_INNER_L2_ETHER OR RTE_PTYPE_INNER_L3_IPV6 OR RTE_PTYPE_INNER_L4_UDP),
    (0xc4, RTE_PTYPE_L2_ETHER OR RTE_PTYPE_L3_IPV4_EXT_UNKNOWN OR RTE_PTYPE_L4_UDP OR RTE_PTYPE_TUNNEL_VXLAN OR RTE_PTYPE_INNER_L2_ETHER OR RTE_PTYPE_INNER_L3_IPV6 OR RTE_PTYPE_INNER_L4_SCTP),
    (0xa5, RTE_PTYPE_L2_ETHER OR RTE_PTYPE_L3_IPV4_EXT_UNKNOWN OR RTE_PTYPE_L4_UDP OR RTE_PTYPE_TUNNEL_VXLAN OR RTE_PTYPE_INNER_L2_ETHER OR RTE_PTYPE_INNER_L3_IPV4),
    (0xac, RTE_PTYPE_L2_ETHER OR RTE_PTYPE_L3_IPV4_EXT_UNKNOWN OR RTE_PTYPE_L4_UDP OR RTE_PTYPE_TUNNEL_VXLAN OR RTE_PTYPE_INNER_L2_ETHER OR RTE_PTYPE_INNER_L3_IPV6_EXT OR RTE_PTYPE_INNER_L4_UDP),
    (0xcc, RTE_PTYPE_L2_ETHER OR RTE_PTYPE_L3_IPV4_EXT_UNKNOWN OR RTE_PTYPE_L4_UDP OR RTE_PTYPE_TUNNEL_VXLAN OR RTE_PTYPE_INNER_L2_ETHER OR RTE_PTYPE_INNER_L3_IPV6_EXT OR RTE_PTYPE_INNER_L4_SCTP),
    (0xad, RTE_PTYPE_L2_ETHER OR RTE_PTYPE_L3_IPV4_EXT_UNKNOWN OR RTE_PTYPE_L4_UDP OR RTE_PTYPE_TUNNEL_VXLAN OR RTE_PTYPE_INNER_L2_ETHER OR RTE_PTYPE_INNER_L3_IPV4),
    (0xc1, RTE_PTYPE_L2_ETHER OR RTE_PTYPE_L3_IPV4_EXT_UNKNOWN OR RTE_PTYPE_L4_UDP OR RTE_PTYPE_TUNNEL_VXLAN OR RTE_PTYPE_INNER_L2_ETHER OR RTE_PTYPE_INNER_L3_IPV4 OR RTE_PTYPE_INNER_L4_SCTP),
    (0xc3, RTE_PTYPE_L2_ETHER OR RTE_PTYPE_L3_IPV4_EXT_UNKNOWN OR RTE_PTYPE_L4_UDP OR RTE_PTYPE_TUNNEL_VXLAN OR RTE_PTYPE_INNER_L2_ETHER OR RTE_PTYPE_INNER_L3_IPV4_EXT OR RTE_PTYPE_INNER_L4_SCTP),
    (0x93, RTE_PTYPE_L2_ETHER OR RTE_PTYPE_L3_IPV4_EXT_UNKNOWN OR RTE_PTYPE_L4_UDP OR RTE_PTYPE_TUNNEL_VXLAN OR RTE_PTYPE_INNER_L2_ETHER OR RTE_PTYPE_INNER_L3_IPV4_EXT OR RTE_PTYPE_INNER_L4_TCP),
    (0xa3, RTE_PTYPE_L2_ETHER OR RTE_PTYPE_L3_IPV4_EXT_UNKNOWN OR RTE_PTYPE_L4_UDP OR RTE_PTYPE_TUNNEL_VXLAN OR RTE_PTYPE_INNER_L2_ETHER OR RTE_PTYPE_INNER_L3_IPV4_EXT OR RTE_PTYPE_INNER_L4_UDP)]"

definition IXGBE_PACKET_TYPE_SHIFT :: nat where "IXGBE_PACKET_TYPE_SHIFT = 4"
definition IXGBE_PACKET_TYPE_MASK_82599 :: u32 where "IXGBE_PACKET_TYPE_MASK_82599 = 0x7F"
definition IXGBE_PACKET_TYPE_MASK_TUNNEL :: u32 where "IXGBE_PACKET_TYPE_MASK_TUNNEL = 0xFF"
definition IXGBE_PACKET_TYPE_TUNNEL_BIT :: u32 where "IXGBE_PACKET_TYPE_TUNNEL_BIT = 0x1000"
definition IXGBE_RXDADV_PKTTYPE_ETQF :: u32 where "IXGBE_RXDADV_PKTTYPE_ETQF = 0x8000"

text \<open>The entries without initialiser are 0, which is \<open>RTE_PTYPE_UNKNOWN\<close>.\<close>

definition ptype_table :: "u32 \<Rightarrow> u32" where
  "ptype_table i = (case map_of ptype_entries (unat i) of Some t \<Rightarrow> t | None \<Rightarrow> 0)"

definition ptype_table_tn :: "u32 \<Rightarrow> u32" where
  "ptype_table_tn i = (case map_of ptype_entries_tn (unat i) of Some t \<Rightarrow> t | None \<Rightarrow> 0)"

section \<open>One descriptor\<close>

definition IXGBE_RXDADV_STAT_DD :: u32 where "IXGBE_RXDADV_STAT_DD = 0x01"
definition IXGBE_RXD_STAT_EOP :: u32 where "IXGBE_RXD_STAT_EOP = 0x02"
definition IXGBE_RXD_STAT_VP :: u32 where "IXGBE_RXD_STAT_VP = 0x08"
definition IXGBE_RXD_STAT_OUTERIPCS :: u32 where "IXGBE_RXD_STAT_OUTERIPCS = 0x100"
definition IXGBE_RXD_STAT_SECP :: u32 where "IXGBE_RXD_STAT_SECP = 0x20000"
definition IXGBE_RXDADV_LNKSEC_ERROR_BAD_SIG :: u32 where "IXGBE_RXDADV_LNKSEC_ERROR_BAD_SIG = 0x18000000"
definition IXGBE_RXDADV_IPSEC_STATUS_SECP :: u32 where "IXGBE_RXDADV_IPSEC_STATUS_SECP = 0x20000"
definition IXGBE_RXDADV_IPSEC_ERROR_INVALID_PROTOCOL :: u32 where "IXGBE_RXDADV_IPSEC_ERROR_INVALID_PROTOCOL = 0x8000000"
definition IXGBE_RXDADV_IPSEC_ERROR_INVALID_LENGTH :: u32 where "IXGBE_RXDADV_IPSEC_ERROR_INVALID_LENGTH = 0x10000000"
definition IXGBE_RXDADV_IPSEC_ERROR_AUTH_FAILED :: u32 where "IXGBE_RXDADV_IPSEC_ERROR_AUTH_FAILED = 0x18000000"
definition IXGBE_RXDADV_IPSEC_ERROR_BIT_MASK :: u32 where "IXGBE_RXDADV_IPSEC_ERROR_BIT_MASK = 0x18000000"
definition IXGBE_RXDADV_ERR_OUTERIPER :: u32 where "IXGBE_RXDADV_ERR_OUTERIPER = 0x04000000"
definition IXGBE_RXDADV_ERR_TCPE :: u32 where "IXGBE_RXDADV_ERR_TCPE = 0x40000000"
definition IXGBE_RXDADV_ERR_IPE :: u32 where "IXGBE_RXDADV_ERR_IPE = 0x80000000"
definition IXGBE_RXDADV_PKTTYPE_UDP :: u16 where "IXGBE_RXDADV_PKTTYPE_UDP = 0x200"

definition RTE_MBUF_F_RX_RSS_HASH :: u64 where "RTE_MBUF_F_RX_RSS_HASH = 2"
definition RTE_MBUF_F_RX_FDIR :: u64 where "RTE_MBUF_F_RX_FDIR = 4"
definition RTE_MBUF_F_RX_L4_CKSUM_BAD :: u64 where "RTE_MBUF_F_RX_L4_CKSUM_BAD = 8"
definition RTE_MBUF_F_RX_IP_CKSUM_BAD :: u64 where "RTE_MBUF_F_RX_IP_CKSUM_BAD = 16"
definition RTE_MBUF_F_RX_OUTER_IP_CKSUM_BAD :: u64 where "RTE_MBUF_F_RX_OUTER_IP_CKSUM_BAD = 32"
definition RTE_MBUF_F_RX_IP_CKSUM_GOOD :: u64 where "RTE_MBUF_F_RX_IP_CKSUM_GOOD = 128"
definition RTE_MBUF_F_RX_L4_CKSUM_GOOD :: u64 where "RTE_MBUF_F_RX_L4_CKSUM_GOOD = 256"
definition RTE_MBUF_F_RX_SEC_OFFLOAD :: u64 where "RTE_MBUF_F_RX_SEC_OFFLOAD = 0x40000"
definition RTE_MBUF_F_RX_SEC_OFFLOAD_FAILED :: u64 where "RTE_MBUF_F_RX_SEC_OFFLOAD_FAILED = 0x80000"

lemmas rx_flag_defs =
  RTE_MBUF_F_RX_RSS_HASH_def RTE_MBUF_F_RX_FDIR_def RTE_MBUF_F_RX_L4_CKSUM_BAD_def RTE_MBUF_F_RX_IP_CKSUM_BAD_def
  RTE_MBUF_F_RX_OUTER_IP_CKSUM_BAD_def RTE_MBUF_F_RX_IP_CKSUM_GOOD_def RTE_MBUF_F_RX_L4_CKSUM_GOOD_def
  RTE_MBUF_F_RX_SEC_OFFLOAD_def RTE_MBUF_F_RX_SEC_OFFLOAD_FAILED_def

text \<open>The fields of a descriptor that is written back: packet information, hash, status and errors, length, VLAN tag.\<close>

definition wb_pkt_info :: "m128 \<Rightarrow> u32" where "wb_pkt_info d = lanes32 d ! 0"
definition wb_rss :: "m128 \<Rightarrow> u32" where "wb_rss d = lanes32 d ! 1"
definition wb_status_error :: "m128 \<Rightarrow> u32" where "wb_status_error d = lanes32 d ! 2"
definition wb_length :: "m128 \<Rightarrow> u16" where "wb_length d = lanes16 d ! 6"
definition wb_vlan :: "m128 \<Rightarrow> u16" where "wb_vlan d = lanes16 d ! 7"

definition ixgbe_rxd_pkt_info_to_pkt_type :: "u32 \<Rightarrow> u16 \<Rightarrow> u32" where
  "ixgbe_rxd_pkt_info_to_pkt_type pkt_info ptype_mask =
     (if pkt_info AND IXGBE_RXDADV_PKTTYPE_ETQF \<noteq> 0 then 0
      else
        let pkt_info = drop_bit IXGBE_PACKET_TYPE_SHIFT pkt_info AND ucast ptype_mask in
        if pkt_info AND IXGBE_PACKET_TYPE_TUNNEL_BIT \<noteq> 0 then ptype_table_tn (pkt_info AND IXGBE_PACKET_TYPE_MASK_TUNNEL)
        else ptype_table (pkt_info AND IXGBE_PACKET_TYPE_MASK_82599))"

definition ip_rss_types_map :: "u64 list" where
  "ip_rss_types_map =
     [0, RTE_MBUF_F_RX_RSS_HASH, RTE_MBUF_F_RX_RSS_HASH, RTE_MBUF_F_RX_RSS_HASH,
      0, RTE_MBUF_F_RX_RSS_HASH, 0, RTE_MBUF_F_RX_RSS_HASH,
      RTE_MBUF_F_RX_RSS_HASH, 0, 0, 0,
      0, 0, 0, RTE_MBUF_F_RX_FDIR]"

definition ixgbe_rxd_pkt_info_to_pkt_flags :: "u16 \<Rightarrow> u64" where
  "ixgbe_rxd_pkt_info_to_pkt_flags pkt_info = ip_rss_types_map ! unat (pkt_info AND 0xF)"

definition rx_desc_status_to_pkt_flags :: "u32 \<Rightarrow> u64 \<Rightarrow> u64" where
  "rx_desc_status_to_pkt_flags rx_status vlan_flags = (if rx_status AND IXGBE_RXD_STAT_VP \<noteq> 0 then vlan_flags else 0)"

definition error_to_pkt_flags_map :: "u64 list" where
  "error_to_pkt_flags_map =
     [RTE_MBUF_F_RX_IP_CKSUM_GOOD OR RTE_MBUF_F_RX_L4_CKSUM_GOOD,
      RTE_MBUF_F_RX_IP_CKSUM_GOOD OR RTE_MBUF_F_RX_L4_CKSUM_BAD,
      RTE_MBUF_F_RX_IP_CKSUM_BAD OR RTE_MBUF_F_RX_L4_CKSUM_GOOD,
      RTE_MBUF_F_RX_IP_CKSUM_BAD OR RTE_MBUF_F_RX_L4_CKSUM_BAD]"

definition rx_desc_error_to_pkt_flags :: "u32 \<Rightarrow> u16 \<Rightarrow> u8 \<Rightarrow> u64" where
  "rx_desc_error_to_pkt_flags rx_status pkt_info rx_udp_csum_zero_err =
     (let pkt_flags = error_to_pkt_flags_map ! unat (drop_bit 30 rx_status AND 3);
          pkt_flags = (if rx_status AND IXGBE_RXDADV_ERR_TCPE \<noteq> 0 \<and> pkt_info AND IXGBE_RXDADV_PKTTYPE_UDP \<noteq> 0 \<and>
              rx_udp_csum_zero_err \<noteq> 0 then pkt_flags AND NOT RTE_MBUF_F_RX_L4_CKSUM_BAD else pkt_flags);
          pkt_flags = (if rx_status AND IXGBE_RXD_STAT_OUTERIPCS \<noteq> 0 \<and> rx_status AND IXGBE_RXDADV_ERR_OUTERIPER \<noteq> 0
            then pkt_flags OR RTE_MBUF_F_RX_OUTER_IP_CKSUM_BAD else pkt_flags)
      in if rx_status AND IXGBE_RXD_STAT_SECP \<noteq> 0 then
           (let pkt_flags = pkt_flags OR RTE_MBUF_F_RX_SEC_OFFLOAD in
            if rx_status AND IXGBE_RXDADV_LNKSEC_ERROR_BAD_SIG \<noteq> 0 then pkt_flags OR RTE_MBUF_F_RX_SEC_OFFLOAD_FAILED
            else pkt_flags)
         else pkt_flags)"

text \<open>The flags that \<open>ixgbe_rx_scan_hw_ring\<close> puts together for a descriptor.\<close>

definition scan_flags :: "m128 \<Rightarrow> u64 \<Rightarrow> u8 \<Rightarrow> u64" where
  "scan_flags d vlan_flags rx_udp_csum_zero_err =
     rx_desc_status_to_pkt_flags (wb_status_error d) vlan_flags
     OR rx_desc_error_to_pkt_flags (wb_status_error d) (ucast (wb_pkt_info d)) rx_udp_csum_zero_err
     OR ixgbe_rxd_pkt_info_to_pkt_flags (ucast (wb_pkt_info d))"

section \<open>Four descriptors\<close>

definition rsstype_msk :: m128 where "rsstype_msk = mm_set_epi16 [0, 0, 0, 0, 0xF, 0xF, 0xF, 0xF]"
definition ol_flags_msk :: m128 where "ol_flags_msk = mm_set_epi16 [0, 0, 0, 0, 0xFF, 0xFF, 0xFF, 0xFF]"

definition rss_flags :: m128 where
  "rss_flags = (let R = ucast RTE_MBUF_F_RX_RSS_HASH in
     mm_set_epi8 [ucast RTE_MBUF_F_RX_FDIR, 0, 0, 0, 0, 0, 0, R, R, 0, R, 0, R, R, R, 0])"

definition vlan_csum_msk :: m128 where
  "vlan_csum_msk = (let E = ucast (drop_bit 16 (IXGBE_RXDADV_ERR_TCPE OR IXGBE_RXDADV_ERR_IPE)); V = ucast IXGBE_RXD_STAT_VP in
     mm_set_epi16 [E, E, E, E, V, V, V, V])"

definition vlan_csum_map_lo :: "u8 \<Rightarrow> m128" where
  "vlan_csum_map_lo vlan_flags =
     (let ipb = ucast RTE_MBUF_F_RX_IP_CKSUM_BAD; ipg = ucast RTE_MBUF_F_RX_IP_CKSUM_GOOD; l4b = ucast RTE_MBUF_F_RX_L4_CKSUM_BAD in
      mm_set_epi8
       [0, 0, 0, 0,
        vlan_flags OR ipb OR l4b, vlan_flags OR ipb, vlan_flags OR ipg OR l4b, vlan_flags OR ipg,
        0, 0, 0, 0,
        ipb OR l4b, ipb, ipg OR l4b, ipg])"

definition vlan_csum_map_hi :: m128 where
  "vlan_csum_map_hi = (let l4g = ucast (drop_bit 1 RTE_MBUF_F_RX_L4_CKSUM_GOOD) in
     mm_set_epi8 [0, 0, 0, 0, 0, l4g, 0, l4g, 0, 0, 0, 0, 0, l4g, 0, l4g])"

definition udp_hdr_p_msk :: "u16 \<Rightarrow> m128" where
  "udp_hdr_p_msk udp_p_flag = mm_set_epi16 [0, 0, 0, 0, udp_p_flag, udp_p_flag, udp_p_flag, udp_p_flag]"

definition udp_csum_bad_shuf :: m128 where
  "udp_csum_bad_shuf = mm_set_epi8 [0, 0, 0, 0, 0, 0, 0, 0, 0, 0, 0, 0, 0, 0, NOT (ucast RTE_MBUF_F_RX_L4_CKSUM_BAD), 0xFF]"

text \<open>The 16 bytes that go to the \<open>rearm_data\<close> of the four buffers.\<close>

definition desc_to_olflags_v :: "m128 \<Rightarrow> m128 \<Rightarrow> m128 \<Rightarrow> m128 \<Rightarrow> m128 \<Rightarrow> u8 \<Rightarrow> u16 \<Rightarrow> m128 list" where
  "desc_to_olflags_v d0 d1 d2 d3 mbuf_init vlan_flags udp_p_flag =
     (let ptype0 = mm_unpacklo_epi16 d0 d1;
          ptype1 = mm_unpacklo_epi16 d2 d3;
          vtag0 = mm_unpackhi_epi16 d0 d1;
          vtag1 = mm_unpackhi_epi16 d2 d3;
          ptype0 = mm_unpacklo_epi32 ptype0 ptype1;
          udp_csum_skip = mm_and_si128 ptype0 (udp_hdr_p_msk udp_p_flag);
          ptype0 = mm_and_si128 ptype0 rsstype_msk;
          ptype0 = mm_shuffle_epi8 rss_flags ptype0;
          vtag1 = mm_unpacklo_epi32 vtag0 vtag1;
          vtag1 = mm_and_si128 vtag1 vlan_csum_msk;
          csum = mm_srli_epi16 vtag1 14;
          csum = mm_srli_si128 csum 8;
          vtag1 = mm_or_si128 csum vtag1;
          vtag0 = mm_shuffle_epi8 vlan_csum_map_hi vtag1;
          vtag0 = mm_slli_epi16 vtag0 1;
          vtag1 = mm_shuffle_epi8 (vlan_csum_map_lo vlan_flags) vtag1;
          vtag1 = mm_and_si128 vtag1 ol_flags_msk;
          vtag1 = mm_or_si128 vtag0 vtag1;
          vtag1 = mm_or_si128 ptype0 vtag1;
          udp_csum_skip = mm_srli_epi16 udp_csum_skip 9;
          udp_csum_skip = mm_shuffle_epi8 udp_csum_bad_shuf udp_csum_skip;
          vtag1 = mm_and_si128 vtag1 udp_csum_skip
      in [mm_blend_epi16 mbuf_init (mm_slli_si128 vtag1 8) 0x10,
          mm_blend_epi16 mbuf_init (mm_slli_si128 vtag1 6) 0x10,
          mm_blend_epi16 mbuf_init (mm_slli_si128 vtag1 4) 0x10,
          mm_blend_epi16 mbuf_init (mm_slli_si128 vtag1 2) 0x10])"

text \<open>The low words of the four \<open>ol_flags\<close>, with the security flags of the descriptors.\<close>

definition desc_to_olflags_v_ipsec :: "m128 \<Rightarrow> m128 \<Rightarrow> m128 \<Rightarrow> m128 \<Rightarrow> u32 list \<Rightarrow> u32 list" where
  "desc_to_olflags_v_ipsec d0 d1 d2 d3 rearms =
     (let ipsec_sterr_msk = mm_set1_epi32 (IXGBE_RXDADV_IPSEC_STATUS_SECP OR IXGBE_RXDADV_IPSEC_ERROR_AUTH_FAILED);
          ipsec_proc_msk = mm_set1_epi32 IXGBE_RXDADV_IPSEC_STATUS_SECP;
          ipsec_err_flag = mm_set1_epi32 (ucast (RTE_MBUF_F_RX_SEC_OFFLOAD_FAILED OR RTE_MBUF_F_RX_SEC_OFFLOAD));
          ipsec_proc_flag = mm_set1_epi32 (ucast RTE_MBUF_F_RX_SEC_OFFLOAD);
          rearm = mm_set_epi32 (rev rearms);
          sterr = mm_set_epi32 [mm_extract_epi32 d3 2, mm_extract_epi32 d2 2, mm_extract_epi32 d1 2, mm_extract_epi32 d0 2];
          sterr = mm_and_si128 sterr ipsec_sterr_msk;
          tmp_e = mm_cmpeq_epi32 sterr ipsec_sterr_msk;
          tmp_p = mm_cmpeq_epi32 sterr ipsec_proc_msk;
          sterr = mm_or_si128 (mm_and_si128 tmp_e ipsec_err_flag) (mm_and_si128 tmp_p ipsec_proc_flag);
          rearm = mm_or_si128 rearm sterr
      in map (mm_extract_epi32 rearm) [0, 1, 2, 3])"

definition get_packet_type :: "nat \<Rightarrow> u32 \<Rightarrow> u32 \<Rightarrow> u32 \<Rightarrow> u32" where
  "get_packet_type index pkt_info etqf_check tunnel_check =
     (if etqf_check AND push_bit (index * 4) 2 \<noteq> 0 then 0
      else if tunnel_check AND push_bit (index * 4) 2 \<noteq> 0 then ptype_table_tn (pkt_info AND IXGBE_PACKET_TYPE_MASK_TUNNEL)
      else ptype_table (pkt_info AND IXGBE_PACKET_TYPE_MASK_82599))"

definition desc_to_ptype_v :: "m128 \<Rightarrow> m128 \<Rightarrow> m128 \<Rightarrow> m128 \<Rightarrow> u16 \<Rightarrow> u32 list" where
  "desc_to_ptype_v d0 d1 d2 d3 pkt_type_mask =
     (let etqf_mask = mm_set_epi64x 0x800000008000 0x800000008000;
          m = ucast pkt_type_mask;
          ptype_mask = mm_set_epi32 [m, m, m, m];
          tunnel_mask = mm_set_epi64x 0x100000001000 0x100000001000;
          ptype0 = mm_unpacklo_epi32 d0 d2;
          ptype1 = mm_unpacklo_epi32 d1 d3;
          ptype0 = mm_unpacklo_epi32 ptype0 ptype1;
          etqf_check = mm_movemask_epi8 (mm_and_si128 ptype0 etqf_mask);
          ptype0 = mm_and_si128 (mm_srli_epi32 ptype0 IXGBE_PACKET_TYPE_SHIFT) ptype_mask;
          tunnel_check = mm_movemask_epi8 (mm_slli_epi32 (mm_and_si128 ptype0 tunnel_mask) 3)
      in map (\<lambda>i. get_packet_type i (mm_extract_epi32 ptype0 i) etqf_check tunnel_check) [0, 1, 2, 3])"

text \<open>The fields behind \<open>rx_descriptor_fields1\<close>: packet type (to be filled in), lengths without CRC, VLAN tag and hash.\<close>

definition shuf_msk :: m128 where
  "shuf_msk = mm_set_epi8 [7, 6, 5, 4, 15, 14, 13, 12, 0xFF, 0xFF, 13, 12, 0xFF, 0xFF, 0xFF, 0xFF]"

definition crc_adjust :: "u8 \<Rightarrow> m128" where
  "crc_adjust crc_len = mm_set_epi16 [0, 0, 0, - ucast crc_len, 0, - ucast crc_len, 0, 0]"

definition desc_to_fields1 :: "m128 \<Rightarrow> u8 \<Rightarrow> m128" where
  "desc_to_fields1 d crc_len = mm_add_epi16 (mm_shuffle_epi8 d shuf_msk) (crc_adjust crc_len)"

text \<open>The states of the four descriptors: how many are done, and the flags of those that are not the end of a packet.\<close>

definition status_v :: "m128 \<Rightarrow> m128 \<Rightarrow> m128 \<Rightarrow> m128 \<Rightarrow> m128" where
  "status_v d0 d1 d2 d3 =
     (let sterr_tmp2 = mm_unpackhi_epi32 d3 d2; sterr_tmp1 = mm_unpackhi_epi32 d1 d0 in mm_unpacklo_epi32 sterr_tmp1 sterr_tmp2)"

definition count_done :: "m128 \<Rightarrow> nat" where
  "count_done staterr =
     (let dd_check = mm_set_epi64x 0x0000000100000001 0x0000000100000001;
          zero = mm_xor_si128 dd_check dd_check;
          staterr = mm_and_si128 staterr dd_check;
          staterr = mm_packs_epi32 staterr zero
      in popcountll (mm_cvtsi128_si64 staterr))"

definition eop_flags :: "m128 \<Rightarrow> u8 list" where
  "eop_flags staterr =
     (let eop_check = mm_set_epi64x 0x0000000200000002 0x0000000200000002;
          eop_shuf_mask = mm_set_epi8 [0xFF, 0xFF, 0xFF, 0xFF, 0xFF, 0xFF, 0xFF, 0xFF, 0xFF, 0xFF, 0xFF, 0xFF, 0x04, 0x0C, 0x00, 0x08];
          eop_bits = mm_andnot_si128 staterr eop_check;
          eop_bits = mm_shuffle_epi8 eop_bits eop_shuf_mask
      in bytes32 (mm_cvtsi128_si32 eop_bits))"

end
