(* ===== verification/IxgbeRxFlags.thy ===== *)
theory IxgbeRxFlags
  imports IxgbeRxDesc
begin

text \<open>
  The vector translation of four receive descriptors, taken apart into the work on one descriptor, and its agreement
  with the scalar translation: flags, packet types, lengths, VLAN tags, hashes, and the number of completed descriptors.
\<close>

section \<open>One element at a time\<close>

definition shuf8 :: "m128 \<Rightarrow> u8 \<Rightarrow> u8" where "shuf8 a i = (if bit i 7 then 0 else a ! unat (i AND 15))"
definition sr_lo :: "nat \<Rightarrow> u8 \<Rightarrow> u8 \<Rightarrow> u8" where "sr_lo n a b = ucast (drop_bit n (le16 a b))"
definition sr_hi :: "nat \<Rightarrow> u8 \<Rightarrow> u8 \<Rightarrow> u8" where "sr_hi n a b = ucast (drop_bit 8 (drop_bit n (le16 a b)))"
definition sl_lo :: "nat \<Rightarrow> u8 \<Rightarrow> u8 \<Rightarrow> u8" where "sl_lo n a b = ucast (push_bit n (le16 a b))"
definition sl_hi :: "nat \<Rightarrow> u8 \<Rightarrow> u8 \<Rightarrow> u8" where "sl_hi n a b = ucast (drop_bit 8 (push_bit n (le16 a b)))"

lemma mm_shuffle_shuf8: "mm_shuffle_epi8 a m = map (shuf8 a) m"
  by (simp add: mm_shuffle_epi8_def shuf8_def)

lemma mm_srli_list: "mm_srli_epi16 [a0,a1,a2,a3,a4,a5,a6,a7,a8,a9,a10,a11,a12,a13,a14,a15] n =
  [sr_lo n a0 a1, sr_hi n a0 a1, sr_lo n a2 a3, sr_hi n a2 a3, sr_lo n a4 a5, sr_hi n a4 a5, sr_lo n a6 a7, sr_hi n a6 a7,
   sr_lo n a8 a9, sr_hi n a8 a9, sr_lo n a10 a11, sr_hi n a10 a11, sr_lo n a12 a13, sr_hi n a12 a13, sr_lo n a14 a15, sr_hi n a14 a15]"
  by (simp add: mm_srli_epi16_def of_lanes16_def bytes16_def sr_lo_def sr_hi_def)

lemma mm_slli_list: "mm_slli_epi16 [a0,a1,a2,a3,a4,a5,a6,a7,a8,a9,a10,a11,a12,a13,a14,a15] n =
  [sl_lo n a0 a1, sl_hi n a0 a1, sl_lo n a2 a3, sl_hi n a2 a3, sl_lo n a4 a5, sl_hi n a4 a5, sl_lo n a6 a7, sl_hi n a6 a7,
   sl_lo n a8 a9, sl_hi n a8 a9, sl_lo n a10 a11, sl_hi n a10 a11, sl_lo n a12 a13, sl_hi n a12 a13, sl_lo n a14 a15, sl_hi n a14 a15]"
  by (simp add: mm_slli_epi16_def of_lanes16_def bytes16_def sl_lo_def sl_hi_def)

lemma masks:
  "rsstype_msk = [15,0,15,0,15,0,15,0,0,0,0,0,0,0,0,0]"
  "ol_flags_msk = [255,0,255,0,255,0,255,0,0,0,0,0,0,0,0,0]"
  "vlan_csum_msk = [8,0,8,0,8,0,8,0,0,192,0,192,0,192,0,192]"
  "udp_hdr_p_msk u = [ucast u, ucast (drop_bit 8 u), ucast u, ucast (drop_bit 8 u), ucast u, ucast (drop_bit 8 u),
     ucast u, ucast (drop_bit 8 u), 0,0,0,0,0,0,0,0]"
  by (simp_all add: rsstype_msk_def ol_flags_msk_def vlan_csum_msk_def udp_hdr_p_msk_def mm_set_epi16_def of_lanes16_def
      bytes16_def IXGBE_RXDADV_ERR_TCPE_def IXGBE_RXDADV_ERR_IPE_def IXGBE_RXD_STAT_VP_def)

text \<open>The two bytes of flags of one descriptor, from its bytes 0, 1, 8 and 11.\<close>

definition flags_lo :: "u8 \<Rightarrow> u16 \<Rightarrow> u8 \<Rightarrow> u8 \<Rightarrow> u8 \<Rightarrow> u8 \<Rightarrow> u8" where
  "flags_lo vf udp x0 x1 x8 x11 =
     (shuf8 rss_flags (x0 AND 15) OR
        sl_lo 1 (shuf8 vlan_csum_map_hi (sr_lo 14 0 (x11 AND 192) OR x8 AND 8)) (shuf8 vlan_csum_map_hi (sr_hi 14 0 (x11 AND 192))) OR
        shuf8 (vlan_csum_map_lo vf) (sr_lo 14 0 (x11 AND 192) OR x8 AND 8) AND 255) AND
     shuf8 udp_csum_bad_shuf (sr_lo 9 (x0 AND ucast udp) (x1 AND ucast (drop_bit 8 udp)))"

definition flags_hi :: "u8 \<Rightarrow> u16 \<Rightarrow> u8 \<Rightarrow> u8 \<Rightarrow> u8 \<Rightarrow> u8 \<Rightarrow> u8" where
  "flags_hi vf udp x0 x1 x8 x11 =
     (shuf8 rss_flags 0 OR
        sl_hi 1 (shuf8 vlan_csum_map_hi (sr_lo 14 0 (x11 AND 192) OR x8 AND 8)) (shuf8 vlan_csum_map_hi (sr_hi 14 0 (x11 AND 192)))) AND
     shuf8 udp_csum_bad_shuf (sr_hi 9 (x0 AND ucast udp) (x1 AND ucast (drop_bit 8 udp)))"

lemma desc_to_olflags_v_list:
  "desc_to_olflags_v [a0,a1,a2,a3,a4,a5,a6,a7,a8,a9,a10,a11,a12,a13,a14,a15] [b0,b1,b2,b3,b4,b5,b6,b7,b8,b9,b10,b11,b12,b13,b14,b15]
     [c0,c1,c2,c3,c4,c5,c6,c7,c8,c9,c10,c11,c12,c13,c14,c15] [d0,d1,d2,d3,d4,d5,d6,d7,d8,d9,d10,d11,d12,d13,d14,d15]
     [m0,m1,m2,m3,m4,m5,m6,m7,m8,m9,m10,m11,m12,m13,m14,m15] vf udp =
   [[m0,m1,m2,m3,m4,m5,m6,m7, flags_lo vf udp a0 a1 a8 a11, flags_hi vf udp a0 a1 a8 a11, m10,m11,m12,m13,m14,m15],
    [m0,m1,m2,m3,m4,m5,m6,m7, flags_lo vf udp b0 b1 b8 b11, flags_hi vf udp b0 b1 b8 b11, m10,m11,m12,m13,m14,m15],
    [m0,m1,m2,m3,m4,m5,m6,m7, flags_lo vf udp c0 c1 c8 c11, flags_hi vf udp c0 c1 c8 c11, m10,m11,m12,m13,m14,m15],
    [m0,m1,m2,m3,m4,m5,m6,m7, flags_lo vf udp d0 d1 d8 d11, flags_hi vf udp d0 d1 d8 d11, m10,m11,m12,m13,m14,m15]]"
  by (simp add: desc_to_olflags_v_def Let_def mm_and_si128_def mm_or_si128_def mm_shuffle_shuf8 masks mm_srli_list mm_slli_list
      flags_lo_def flags_hi_def)


lemma and_pow: "(x :: 'a :: len word) AND 2 ^ n = (if bit x n then 2 ^ n else 0)"
  by (rule bit_word_eqI) (auto simp: bit_simps)

lemmas and_bit8 = and_pow [of _ 3, simplified]  and_pow [of _ 1, simplified]

lemma and192: "(x :: u8) AND 192 = (if bit x 6 then 64 else 0) OR (if bit x 7 then 128 else 0)"
proof -
  have "x AND (2 ^ 6 OR 2 ^ 7) = (x AND 2 ^ 6) OR (x AND 2 ^ 7)" by (rule bit.conj_disj_distrib)
  then show ?thesis unfolding and_pow by simp
qed
lemma nibble: "\<exists>n < 16. (x :: u8) AND 15 = of_nat n"
proof -
  have "x AND 15 = take_bit 4 x" by (simp add: take_bit_eq_mask mask_eq_exp_minus_1)
  then have "unat (x AND 15) < 16" using take_bit_nat_less_exp [of 4 "unat x"] by (simp add: unsigned_take_bit_eq)
  then show ?thesis by (intro exI [of _ "unat (x AND 15)"]) simp
qed

text \<open>The bytes of the flags from the bits that the device sets.\<close>

lemma shift14:
  "sr_lo 14 0 (x AND 192) = (if bit x 6 then 1 else 0) OR (if bit x 7 then 2 else 0)" "sr_hi 14 0 (x AND 192) = 0"
  unfolding and192 by (auto simp: sr_lo_def sr_hi_def le16_def)

lemma rss_lane: "shuf8 rss_flags (x AND 15) = ucast (ip_rss_types_map ! unat (x AND 15))"
proof -
  obtain n where "n < 16" "x AND 15 = of_nat n" using nibble by blast
  moreover have "\<forall>n < 16. shuf8 rss_flags (of_nat n) = ucast (ip_rss_types_map ! unat (of_nat n :: u8))"
    by code_simp
  ultimately show ?thesis by simp
qed

lemma rss_cases: "ip_rss_types_map ! unat ((x :: u8) AND 15) \<in> {0, 2, 4}"
proof -
  obtain n where "n < 16" "x AND 15 = of_nat n" using nibble by blast
  moreover have "\<forall>n < 16. ip_rss_types_map ! unat (of_nat n :: u8) \<in> {0, 2, 4}"
    by code_simp
  ultimately show ?thesis by simp
qed


text \<open>The flags that the vector translation leaves out.\<close>

definition scalar_only_flags :: u64 where
  "scalar_only_flags = RTE_MBUF_F_RX_OUTER_IP_CKSUM_BAD OR RTE_MBUF_F_RX_SEC_OFFLOAD OR RTE_MBUF_F_RX_SEC_OFFLOAD_FAILED"

definition csum_flags :: "u8 \<Rightarrow> u8 \<Rightarrow> u8 \<Rightarrow> u64" where
  "csum_flags x1 x11 err =
     (let f = error_to_pkt_flags_map ! ((if bit x11 6 then 1 else 0) + (if bit x11 7 then 2 else 0)) in
      if bit x11 6 \<and> bit x1 1 \<and> err \<noteq> 0 then f AND NOT RTE_MBUF_F_RX_L4_CKSUM_BAD else f)"

lemma and3: "(x :: u32) AND 3 = (if bit x 0 then 1 else 0) OR (if bit x 1 then 2 else 0)"
proof -
  have "x AND (2 ^ 0 OR 2 ^ 1) = (x AND 2 ^ 0) OR (x AND 2 ^ 1)" by (rule bit.conj_disj_distrib)
  then show ?thesis unfolding and_pow by simp
qed

lemma status_bits:
  "le32 x8 x9 x10 x11 AND 8 = (if bit x8 3 then 8 else 0)"
  "le32 x8 x9 x10 x11 AND 0x40000000 = (if bit x11 6 then 0x40000000 else 0)"
  "le16 x0 x1 AND 512 = (if bit x1 1 then 512 else 0)"
  "drop_bit 30 (le32 x8 x9 x10 x11) AND 3 = (if bit x11 6 then 1 else 0) OR (if bit x11 7 then 2 else 0)"
  "ucast (le32 x0 x1 x2 x3) = le16 x0 x1"
  "le16 x0 x1 AND 15 = ucast (x0 AND 15)"
proof -
  show "le32 x8 x9 x10 x11 AND 8 = (if bit x8 3 then 8 else 0)"
    using and_pow [of "le32 x8 x9 x10 x11" 3] by (simp add: le32_def bit_simps)
  show "le32 x8 x9 x10 x11 AND 0x40000000 = (if bit x11 6 then 0x40000000 else 0)"
    using and_pow [of "le32 x8 x9 x10 x11" 30] bit_imp_le_length [of x8 30] by (auto simp: le32_def bit_simps dest: bit_imp_le_length)
  show "le16 x0 x1 AND 512 = (if bit x1 1 then 512 else 0)"
    using and_pow [of "le16 x0 x1" 9] by (auto simp: le16_def bit_simps dest: bit_imp_le_length)
  have b: "bit (le32 x8 x9 x10 x11) 30 = bit x11 6" "bit (le32 x8 x9 x10 x11) 31 = bit x11 7"
    by (auto simp: le32_def bit_simps dest: bit_imp_le_length)
  show "drop_bit 30 (le32 x8 x9 x10 x11) AND 3 = (if bit x11 6 then 1 else 0) OR (if bit x11 7 then 2 else 0)"
    unfolding and3 using b by (simp add: bit_drop_bit_eq)
  show "ucast (le32 x0 x1 x2 x3) = le16 x0 x1"
    by (rule bit_word_eqI) (auto simp: le32_def le16_def bit_simps)
  show "le16 x0 x1 AND 15 = ucast (x0 AND 15)"
  proof (rule bit_word_eqI)
    fix n
    have "bit (15 :: u8) n = (n < 4)" "bit (15 :: u16) n = (n < 4)"
      using bit_mask_iff [of 4 n, where 'a = u8] bit_mask_iff [of 4 n, where 'a = u16] by (auto simp: mask_eq_exp_minus_1)
    then show "bit (le16 x0 x1 AND 15) n = bit (ucast (x0 AND 15) :: u16) n"
      by (auto simp: le16_def bit_simps)
  qed
qed

lemma unat_ucast_u16: "unat (ucast (x :: u8) :: u16) = unat x"
  using unsigned_less [of x, where 'a = nat] by (simp add: unsigned_ucast_eq take_bit_nat_eq_self)

lemma rss_word: "ixgbe_rxd_pkt_info_to_pkt_flags (le16 x0 x1) = ip_rss_types_map ! unat (x0 AND 15)"
  by (simp add: ixgbe_rxd_pkt_info_to_pkt_flags_def status_bits unat_ucast_u16)

lemma scalar_only_absorb [simp]:
  "(f OR RTE_MBUF_F_RX_OUTER_IP_CKSUM_BAD) AND NOT scalar_only_flags = f AND NOT scalar_only_flags"
  "(f OR RTE_MBUF_F_RX_SEC_OFFLOAD) AND NOT scalar_only_flags = f AND NOT scalar_only_flags"
  "(f OR RTE_MBUF_F_RX_SEC_OFFLOAD_FAILED) AND NOT scalar_only_flags = f AND NOT scalar_only_flags"
  by (auto simp: scalar_only_flags_def bit_simps intro!: bit_word_eqI)

lemma error_map_disjoint:
  "i < 4 \<Longrightarrow> error_to_pkt_flags_map ! i AND NOT scalar_only_flags = error_to_pkt_flags_map ! i"
  "i < 4 \<Longrightarrow> (error_to_pkt_flags_map ! i AND NOT RTE_MBUF_F_RX_L4_CKSUM_BAD) AND NOT scalar_only_flags =
    error_to_pkt_flags_map ! i AND NOT RTE_MBUF_F_RX_L4_CKSUM_BAD"
  by (auto simp: numeral_eq_Suc less_Suc_eq error_to_pkt_flags_map_def scalar_only_flags_def rx_flag_defs)

lemma csum_index:
  "unat ((if p then 1 else 0) OR (if q then 2 else 0) :: u32) = (if p then 1 else 0) + (if q then 2 else 0)"
  by simp

lemma csum_word: "rx_desc_error_to_pkt_flags (le32 x8 x9 x10 x11) (le16 x0 x1) err AND NOT scalar_only_flags = csum_flags x1 x11 err"
proof -
  define i where "i = (if bit x11 6 then 1 else 0) + (if bit x11 7 then 2 else 0 :: nat)"
  have i: "i < 4" by (simp add: i_def)
  show ?thesis
    unfolding rx_desc_error_to_pkt_flags_def csum_flags_def status_bits csum_index IXGBE_RXDADV_ERR_TCPE_def
      IXGBE_RXDADV_PKTTYPE_UDP_def Let_def i_def [symmetric]
    by (simp add: error_map_disjoint [OF i])
qed

lemma lane_tables:
  "shuf8 vlan_csum_map_hi 0 = 128" "shuf8 vlan_csum_map_hi 1 = 0" "shuf8 vlan_csum_map_hi 2 = 128" "shuf8 vlan_csum_map_hi 3 = 0"
  "shuf8 vlan_csum_map_hi 8 = 128" "shuf8 vlan_csum_map_hi 9 = 0" "shuf8 vlan_csum_map_hi 10 = 128" "shuf8 vlan_csum_map_hi 11 = 0"
  "shuf8 (vlan_csum_map_lo vf) 0 = 128" "shuf8 (vlan_csum_map_lo vf) 1 = 136" "shuf8 (vlan_csum_map_lo vf) 2 = 16"
  "shuf8 (vlan_csum_map_lo vf) 3 = 24" "shuf8 (vlan_csum_map_lo vf) 8 = vf OR 128" "shuf8 (vlan_csum_map_lo vf) 9 = vf OR 136"
  "shuf8 (vlan_csum_map_lo vf) 10 = vf OR 16" "shuf8 (vlan_csum_map_lo vf) 11 = vf OR 24"
  "shuf8 udp_csum_bad_shuf 0 = 255" "shuf8 udp_csum_bad_shuf 1 = 247" "shuf8 rss_flags 0 = 0"
  by (simp_all add: shuf8_def vlan_csum_map_hi_def vlan_csum_map_lo_def udp_csum_bad_shuf_def rss_flags_def mm_set_epi8_def
      rx_flag_defs Let_def bit.conj_disj_distribs or.assoc bit_numeral_rec)

lemma lane_shifts:
  "sr_lo 9 0 0 = 0" "sr_lo 9 0 2 = 1" "sr_hi 9 0 0 = 0" "sr_hi 9 0 2 = 0"
  "sl_lo 1 128 128 = 0" "sl_lo 1 0 128 = 0" "sl_hi 1 128 128 = 1" "sl_hi 1 0 128 = 0"
  by (simp_all add: sr_lo_def sr_hi_def sl_lo_def sl_hi_def le16_def)

text \<open>The checksum flags alone, as the two shuffles find them.\<close>

definition csum_lo :: "bool \<Rightarrow> bool \<Rightarrow> u8" where
  "csum_lo p q = (if p \<and> q then 24 else if p then 136 else if q then 16 else 128)"

lemma csum_lane:
  "le16 (csum_lo (bit x11 6) (bit x11 7) AND (if bit x1 1 \<and> err \<noteq> 0 then 247 else 255)) (if bit x11 6 then 0 else 1) =
    ucast (csum_flags x1 x11 err)"
  by (cases "bit x11 6"; cases "bit x11 7"; cases "bit x1 1"; cases "err = 0")
    (simp_all add: csum_lo_def csum_flags_def error_to_pkt_flags_map_def rx_flag_defs le16_def Let_def)

lemma and_255: "(x :: u8) AND 255 = x"
proof -
  have "(255 :: u8) = - 1" by simp
  then show ?thesis by (metis and.right_neutral)
qed

lemma le16_or: "le16 (a OR b) h = ucast a OR le16 b h"
  by (simp add: le16_def unsigned_or_eq or.assoc)

lemma lane_flags:
  assumes "(vf :: u8) \<in> {0, 1, 65}"
  shows "le16 (flags_lo vf (if err = 0 then 0 else IXGBE_RXDADV_PKTTYPE_UDP) x0 x1 x8 x11)
      (flags_hi vf (if err = 0 then 0 else IXGBE_RXDADV_PKTTYPE_UDP) x0 x1 x8 x11) =
    ucast ((if bit x8 3 then ucast vf else 0) OR csum_flags x1 x11 err OR ip_rss_types_map ! unat (x0 AND 15))"
proof -
  define r where "r = ip_rss_types_map ! unat (x0 AND 15)"
  define v where "v = (if bit x8 3 then vf else 0)"
  define m where "m = (if bit x1 1 \<and> err \<noteq> 0 then 247 else 255 :: u8)"
  have r: "ucast r AND m = (ucast r :: u8)" "ucast (ucast r :: u8) = (ucast r :: u16)"
    using rss_cases [of x0] by (auto simp: r_def [symmetric] m_def)
  have v: "v AND m = v" "(if bit x8 3 then ucast vf else 0 :: u64) = ucast v" "ucast (ucast v :: u64) = (ucast v :: u16)"
    using assms by (auto simp: v_def m_def)
  have x1: "x1 AND 2 = (if bit x1 1 then 2 else 0)" and x8: "x8 AND 8 = (if bit x8 3 then 8 else 0)"
    using and_pow [of x1 1] and_pow [of x8 3] by simp_all
  have u: "ucast (if err = 0 then 0 else IXGBE_RXDADV_PKTTYPE_UDP) = (0 :: u8)"
      "x1 AND ucast (drop_bit 8 (if err = 0 then 0 else IXGBE_RXDADV_PKTTYPE_UDP)) = (if bit x1 1 \<and> err \<noteq> 0 then 2 else 0)"
    using x1 by (simp_all add: IXGBE_RXDADV_PKTTYPE_UDP_def)
  have m: "shuf8 udp_csum_bad_shuf (sr_lo 9 (x0 AND ucast (if err = 0 then 0 else IXGBE_RXDADV_PKTTYPE_UDP))
      (x1 AND ucast (drop_bit 8 (if err = 0 then 0 else IXGBE_RXDADV_PKTTYPE_UDP)))) = m"
    unfolding u m_def by (simp add: lane_shifts lane_tables)
  have m': "shuf8 udp_csum_bad_shuf (sr_hi 9 (x0 AND ucast (if err = 0 then 0 else IXGBE_RXDADV_PKTTYPE_UDP))
      (x1 AND ucast (drop_bit 8 (if err = 0 then 0 else IXGBE_RXDADV_PKTTYPE_UDP)))) = 255"
    unfolding u by (simp add: lane_shifts lane_tables)
  have hi: "flags_hi vf (if err = 0 then 0 else IXGBE_RXDADV_PKTTYPE_UDP) x0 x1 x8 x11 = (if bit x11 6 then 0 else 1)"
    unfolding flags_hi_def m' shift14 x8
    by (cases "bit x8 3"; cases "bit x11 6"; cases "bit x11 7") (simp_all add: lane_tables lane_shifts del: One_nat_def)
  have c: "sl_lo 1 (shuf8 vlan_csum_map_hi (sr_lo 14 0 (x11 AND 192) OR x8 AND 8)) (shuf8 vlan_csum_map_hi (sr_hi 14 0 (x11 AND 192))) OR
      shuf8 (vlan_csum_map_lo vf) (sr_lo 14 0 (x11 AND 192) OR x8 AND 8) AND 255 = v OR csum_lo (bit x11 6) (bit x11 7)"
    unfolding shift14 x8 v_def csum_lo_def
    by (cases "bit x8 3"; cases "bit x11 6"; cases "bit x11 7") (simp_all add: lane_tables lane_shifts and_255 del: One_nat_def)
  have "flags_lo vf (if err = 0 then 0 else IXGBE_RXDADV_PKTTYPE_UDP) x0 x1 x8 x11 =
      ucast r OR v OR (csum_lo (bit x11 6) (bit x11 7) AND m)"
    unfolding flags_lo_def m rss_lane r_def [symmetric] c by (simp add: bit.conj_disj_distrib2 r v)
  then show ?thesis
    unfolding hi r_def [symmetric]
    by (simp add: le16_or csum_lane [of x11 x1 err, folded m_def] unsigned_or_eq r v or.commute or.left_commute or.assoc)
qed

definition rearm_with_flags :: "m128 \<Rightarrow> u64 \<Rightarrow> m128" where
  "rearm_with_flags mbuf_init flags = take 8 mbuf_init @ bytes16 (ucast flags) @ drop 10 mbuf_init"

lemma lane_scan:
  assumes "(vf :: u8) \<in> {0, 1, 65}"
  shows "scan_flags [x0, x1, x2, x3, x4, x5, x6, x7, x8, x9, x10, x11, x12, x13, x14, x15] (ucast vf) err AND NOT scalar_only_flags =
    (if bit x8 3 then ucast vf else 0) OR csum_flags x1 x11 err OR ip_rss_types_map ! unat (x0 AND 15)"
proof -
  have v: "(if bit x8 3 then ucast vf else 0 :: u64) AND NOT scalar_only_flags = (if bit x8 3 then ucast vf else (0 :: u64))"
    using assms by (auto simp: scalar_only_flags_def rx_flag_defs)
  have r: "ip_rss_types_map ! unat (x0 AND 15) AND NOT scalar_only_flags = ip_rss_types_map ! unat (x0 AND 15)"
    using rss_cases [of x0] by (auto simp: scalar_only_flags_def rx_flag_defs)
  have s: "rx_desc_status_to_pkt_flags (le32 x8 x9 x10 x11) (ucast vf) = (if bit x8 3 then ucast vf else 0)"
    by (simp add: rx_desc_status_to_pkt_flags_def IXGBE_RXD_STAT_VP_def status_bits)
  show ?thesis
    by (simp add: scan_flags_def wb_status_error_def wb_pkt_info_def status_bits s rss_word bit.conj_disj_distrib2 csum_word r v)
qed

lemma vector_lane:
  assumes "(vf :: u8) \<in> {0, 1, 65}"
  shows "bytes16 (ucast (scan_flags [x0, x1, x2, x3, x4, x5, x6, x7, x8, x9, x10, x11, x12, x13, x14, x15] (ucast vf) err
      AND NOT scalar_only_flags)) =
    [flags_lo vf (if err = 0 then 0 else IXGBE_RXDADV_PKTTYPE_UDP) x0 x1 x8 x11,
     flags_hi vf (if err = 0 then 0 else IXGBE_RXDADV_PKTTYPE_UDP) x0 x1 x8 x11]"
  unfolding lane_scan [OF assms] lane_flags [OF assms, symmetric] by simp

theorem vector_flags_agree:
  assumes "length d0 = 16" "length d1 = 16" "length d2 = 16" "length d3 = 16" "length mbuf_init = 16" "(vf :: u8) \<in> {0, 1, 65}"
  shows "desc_to_olflags_v d0 d1 d2 d3 mbuf_init vf (if err = 0 then 0 else IXGBE_RXDADV_PKTTYPE_UDP) =
    map (\<lambda>d. rearm_with_flags mbuf_init (scan_flags d (ucast vf) err AND NOT scalar_only_flags)) [d0, d1, d2, d3]"
  using assms(1-5)
  by (elim length16) (simp add: desc_to_olflags_v_list rearm_with_flags_def vector_lane [OF assms(6)] numeral_eq_Suc)

section \<open>Completed descriptors and ends of packets\<close>

definition desc_done :: "m128 \<Rightarrow> bool" where "desc_done d \<longleftrightarrow> wb_status_error d AND IXGBE_RXDADV_STAT_DD \<noteq> 0"
definition desc_eop :: "m128 \<Rightarrow> bool" where "desc_eop d \<longleftrightarrow> wb_status_error d AND IXGBE_RXD_STAT_EOP \<noteq> 0"

lemma desc_bits:
  "desc_done [x0, x1, x2, x3, x4, x5, x6, x7, x8, x9, x10, x11, x12, x13, x14, x15] = bit x8 0"
  "desc_eop [x0, x1, x2, x3, x4, x5, x6, x7, x8, x9, x10, x11, x12, x13, x14, x15] = bit x8 1"
proof -
  show "desc_done [x0, x1, x2, x3, x4, x5, x6, x7, x8, x9, x10, x11, x12, x13, x14, x15] = bit x8 0"
    using and_pow [of "le32 x8 x9 x10 x11" 0] by (simp add: desc_done_def wb_status_error_def IXGBE_RXDADV_STAT_DD_def le32_def bit_simps)
  show "desc_eop [x0, x1, x2, x3, x4, x5, x6, x7, x8, x9, x10, x11, x12, x13, x14, x15] = bit x8 1"
    using and_pow [of "le32 x8 x9 x10 x11" 1] by (simp add: desc_eop_def wb_status_error_def IXGBE_RXD_STAT_EOP_def le32_def bit_simps)
qed

lemma status_v_list:
  "status_v [a0,a1,a2,a3,a4,a5,a6,a7,a8,a9,a10,a11,a12,a13,a14,a15] [b0,b1,b2,b3,b4,b5,b6,b7,b8,b9,b10,b11,b12,b13,b14,b15]
     [c0,c1,c2,c3,c4,c5,c6,c7,c8,c9,c10,c11,c12,c13,c14,c15] [d0,d1,d2,d3,d4,d5,d6,d7,d8,d9,d10,d11,d12,d13,d14,d15] =
   [b8,b9,b10,b11, d8,d9,d10,d11, a8,a9,a10,a11, c8,c9,c10,c11]"
  by (simp add: status_v_def Let_def)

lemma done_mask: "mm_set_epi64x 0x0000000100000001 0x0000000100000001 = [1,0,0,0,1,0,0,0,1,0,0,0,1,0,0,0]"
  by (simp add: mm_set_epi64x_def of_lanes64_def bytes64_def bytes32_def)

lemma eop_mask: "mm_set_epi64x 0x0000000200000002 0x0000000200000002 = [2,0,0,0,2,0,0,0,2,0,0,0,2,0,0,0]"
  by (simp add: mm_set_epi64x_def of_lanes64_def bytes64_def bytes32_def)

definition b01 :: "bool \<Rightarrow> u32" where "b01 b = (if b then 1 else 0)"

lemma le32_b01: "le32 (x AND 1) 0 0 0 = b01 (bit x 0)"
  using and_pow [of x 0] by (simp add: le32_def b01_def)

lemma sat16_bytes: "bytes16 (sat16 (b01 b)) = [of_bool b, 0]" "bytes16 (sat16 (le32 0 0 0 0)) = [0, 0]"
  by (simp_all add: sat16_def b01_def bytes16_def le32_def)

lemma popcount_of_bool:
  "popcountll (le64 (of_bool p) 0 (of_bool q) 0 (of_bool r) 0 (of_bool s) 0) = of_bool p + of_bool q + of_bool r + of_bool s"
  by (cases p; cases q; cases r; cases s) (simp_all add: popcountll_def le64_def le32_def upt_rec)

lemma count_done_list:
  "count_done [a0,a1,a2,a3,a4,a5,a6,a7,a8,a9,a10,a11,a12,a13,a14,a15] =
    of_bool (bit a0 0) + of_bool (bit a4 0) + of_bool (bit a8 0) + of_bool (bit a12 0)"
  by (simp add: count_done_def Let_def done_mask mm_and_si128_def mm_xor_si128_def mm_packs_epi32_def le32_b01 of_lanes16_def
      sat16_bytes popcount_of_bool mm_cvtsi128_si64_def)

text \<open>The status registers hold the descriptors in the order 1, 3, 0, 2, which the shuffle of the ends of packets undoes.\<close>

theorem count_done_bits:
  assumes "length d0 = 16" "length d1 = 16" "length d2 = 16" "length d3 = 16"
  shows "count_done (status_v d0 d1 d2 d3) = length (filter desc_done [d0, d1, d2, d3])"
  using assms by (elim length16) (simp add: status_v_list count_done_list desc_bits)

lemma eop_flags_list:
  "eop_flags [a0,a1,a2,a3,a4,a5,a6,a7,a8,a9,a10,a11,a12,a13,a14,a15] = [NOT a8 AND 2, NOT a0 AND 2, NOT a12 AND 2, NOT a4 AND 2]"
  by (simp add: eop_flags_def Let_def eop_mask mm_andnot_si128_def mm_shuffle_epi8_def mm_set_epi8_def mm_cvtsi128_si32_def)

theorem eop_flags_bits:
  assumes "length d0 = 16" "length d1 = 16" "length d2 = 16" "length d3 = 16"
  shows "eop_flags (status_v d0 d1 d2 d3) = map (\<lambda>d. if desc_eop d then 0 else 2) [d0, d1, d2, d3]"
proof -
  have "NOT x AND 2 = (if bit x 1 then 0 else 2 :: u8)" for x
    using and_pow [of "NOT x" 1] by (simp add: bit_not_iff)
  then show ?thesis
    using assms by (elim length16) (simp add: status_v_list eop_flags_list desc_bits)
qed

section \<open>Lengths, tags and hashes\<close>

lemma crc_adjust_list:
  "crc_adjust c = [0, 0, 0, 0] @ bytes16 (- ucast c) @ [0, 0] @ bytes16 (- ucast c) @ [0, 0, 0, 0, 0, 0]"
  by (simp add: crc_adjust_def mm_set_epi16_def of_lanes16_def bytes16_def)

lemma lanes16_bytes16: "lanes16 (bytes16 w @ xs) = w # lanes16 xs"
  by (simp add: bytes16_def)

lemma le16_zero: "le16 0 0 = 0" "bytes16 0 = [0, 0]"
  by (simp_all add: le16_def bytes16_def)

lemma bytes32_ucast16: "bytes32 (ucast (w :: u16)) = bytes16 w @ [0, 0]"
proof -
  have "ucast (ucast w :: u32) = (ucast w :: u8)" "ucast (drop_bit 8 (ucast w :: u32)) = (ucast (drop_bit 8 w) :: u8)"
    "ucast (drop_bit 16 (ucast w :: u32)) = (0 :: u8)" "ucast (drop_bit 24 (ucast w :: u32)) = (0 :: u8)"
    by (rule bit_word_eqI; auto simp: bit_simps dest: bit_imp_le_length)+
  then show ?thesis by (simp add: bytes32_def bytes16_def)
qed

theorem fields1_agree:
  assumes "length d = 16"
  shows "desc_to_fields1 d crc_len =
    bytes32 0 @ bytes32 (ucast (wb_length d - ucast crc_len)) @ bytes16 (wb_length d - ucast crc_len) @
    bytes16 (wb_vlan d) @ bytes32 (wb_rss d)"
  using assms
  by (elim length16)
    (simp add: desc_to_fields1_def crc_adjust_list mm_shuffle_epi8_def shuf_msk_def mm_set_epi8_def mm_add_epi16_def of_lanes16_def
      wb_length_def wb_vlan_def wb_rss_def lanes16_bytes16 le16_zero bytes32_ucast16 bytes32_ucast16 [of 0, simplified])

section \<open>Packet types\<close>

lemma movemask_Cons: "mm_movemask_epi8 (x # xs) = push_bit 1 (mm_movemask_epi8 xs) OR (if bit x 7 then 1 else 0)"
  by (simp add: mm_movemask_epi8_def)

lemma bit_shift_in: "bit (push_bit 1 (w :: u32) OR (if p then 1 else 0)) n = (if n = 0 then p else n < 32 \<and> bit w (n - 1))"
  by (cases n) (auto simp: bit_or_iff bit_push_bit_iff bit_1_iff possible_bit_def simp del: One_nat_def dest: bit_imp_le_length)

lemma bit_movemask: "length xs \<le> 32 \<Longrightarrow> n < length xs \<Longrightarrow> bit (mm_movemask_epi8 xs) n = bit (xs ! n) 7"
proof (induction xs arbitrary: n)
  case (Cons x xs)
  then show ?case unfolding movemask_Cons bit_shift_in by (cases n) auto
qed simp

lemma and_push: "n < 31 \<Longrightarrow> (w :: u32) AND push_bit n 2 \<noteq> 0 \<longleftrightarrow> bit w (Suc n)"
proof -
  assume n: "n < 31"
  have "push_bit n 2 = (2 ^ Suc n :: u32)" by (simp add: push_bit_eq_mult)
  moreover have "bit (2 ^ Suc n :: u32) (Suc n)" using n by (simp add: bit_exp_iff possible_bit_def del: power_Suc)
  then have "(2 ^ Suc n :: u32) \<noteq> 0" by auto
  ultimately show ?thesis by (simp only: and_pow split: if_split) simp
qed

lemma mm_and_lanes32:
  "length ws = length vs \<Longrightarrow> mm_and_si128 (of_lanes32 ws) (of_lanes32 vs) = of_lanes32 (map2 (AND) ws vs)"
  by (induction ws vs rule: list_induct2) (simp_all add: mm_and_si128_def of_lanes32_def bytes32_def unsigned_and_eq drop_bit_and)

lemma movemask_lanes32:
  "i < 4 \<Longrightarrow> mm_movemask_epi8 (of_lanes32 [w0, w1, w2, w3]) AND push_bit (i * 4) 2 \<noteq> 0 \<longleftrightarrow> bit ([w0, w1, w2, w3] ! i) 15"
  by (subst and_push, simp, subst bit_movemask)
    (auto simp: of_lanes32_def bytes32_def numeral_eq_Suc less_Suc_eq bit_simps)

theorem ptypes_agree:
  assumes "length d0 = 16" "length d1 = 16" "length d2 = 16" "length d3 = 16"
  shows "desc_to_ptype_v d0 d1 d2 d3 m = map (\<lambda>d. ixgbe_rxd_pkt_info_to_pkt_type (wb_pkt_info d) m) [d0, d1, d2, d3]"
proof -
  define w where "w i = lanes32 ([d0, d1, d2, d3] ! i) ! 0" for i
  have u: "mm_unpacklo_epi32 (mm_unpacklo_epi32 d0 d2) (mm_unpacklo_epi32 d1 d3) = of_lanes32 [w 0, w 1, w 2, w 3]"
    using assms by (elim length16) (simp add: w_def of_lanes32_def)
  have e: "mm_set_epi64x 0x800000008000 0x800000008000 = of_lanes32 [0x8000, 0x8000, 0x8000, 0x8000]"
    "mm_set_epi64x 0x100000001000 0x100000001000 = of_lanes32 [0x1000, 0x1000, 0x1000, 0x1000]"
    by (simp_all add: mm_set_epi64x_def of_lanes64_def bytes64_def bytes32_def of_lanes32_def)
  define v where "v i = drop_bit IXGBE_PACKET_TYPE_SHIFT (w i) AND ucast m" for i
  define E where "E = mm_movemask_epi8 (of_lanes32 [w 0 AND 0x8000, w 1 AND 0x8000, w 2 AND 0x8000, w 3 AND 0x8000])"
  define T where "T = mm_movemask_epi8 (of_lanes32 [push_bit 3 (v 0 AND 0x1000), push_bit 3 (v 1 AND 0x1000),
    push_bit 3 (v 2 AND 0x1000), push_bit 3 (v 3 AND 0x1000)])"
  have b: "bit (x AND 0x8000) 15 = (x AND 0x8000 \<noteq> 0)" "bit (push_bit 3 (x AND 0x1000)) 15 = (x AND 0x1000 \<noteq> 0)" for x :: u32
    using and_pow [of x 15] and_pow [of x 12] by (auto simp: bit_push_bit_iff bit_numeral_rec possible_bit_def)
  have i4: "i = 0 \<or> i = 1 \<or> i = 2 \<or> i = 3" if "i < 4" for i :: nat using that by auto
  have E: "E AND push_bit (i * 4) 2 \<noteq> 0 \<longleftrightarrow> w i AND 0x8000 \<noteq> 0" if "i < 4" for i
    unfolding E_def movemask_lanes32 [OF that] using i4 [OF that] b by auto
  have T: "T AND push_bit (i * 4) 2 \<noteq> 0 \<longleftrightarrow> v i AND 0x1000 \<noteq> 0" if "i < 4" for i
    unfolding T_def movemask_lanes32 [OF that] using i4 [OF that] b by auto
  have g: "get_packet_type i (v i) E T = ixgbe_rxd_pkt_info_to_pkt_type (w i) m" if "i < 4" for i
    unfolding get_packet_type_def E [OF that] T [OF that]
    by (simp add: ixgbe_rxd_pkt_info_to_pkt_type_def IXGBE_RXDADV_PKTTYPE_ETQF_def IXGBE_PACKET_TYPE_TUNNEL_BIT_def Let_def v_def)
  have r: "desc_to_ptype_v d0 d1 d2 d3 m = map (\<lambda>i. get_packet_type i (mm_extract_epi32 (of_lanes32 [v 0, v 1, v 2, v 3]) i) E T) [0, 1, 2, 3]"
    unfolding desc_to_ptype_v_def Let_def u e mm_srli_epi32_def mm_slli_epi32_def mm_set_epi32_def E_def T_def v_def
    by (simp add: mm_and_lanes32 del: push_bit_and)
  show ?thesis
    unfolding r by (simp add: mm_extract_epi32_def g [of 0] g [of "Suc 0"] g [of 2] g [of 3]) (simp add: w_def wb_pkt_info_def)
qed

section \<open>Security flags\<close>

text \<open>What the vector translation adds for one descriptor: only no error bit or both are recognised.\<close>

definition vec_sec_flags :: "m128 \<Rightarrow> u32" where
  "vec_sec_flags d =
     (let st = wb_status_error d AND (IXGBE_RXD_STAT_SECP OR IXGBE_RXDADV_LNKSEC_ERROR_BAD_SIG) in
      if st = IXGBE_RXD_STAT_SECP OR IXGBE_RXDADV_LNKSEC_ERROR_BAD_SIG
      then ucast (RTE_MBUF_F_RX_SEC_OFFLOAD_FAILED OR RTE_MBUF_F_RX_SEC_OFFLOAD)
      else if st = IXGBE_RXD_STAT_SECP then ucast RTE_MBUF_F_RX_SEC_OFFLOAD else 0)"

lemma mm_or_lanes32:
  "length ws = length vs \<Longrightarrow> mm_or_si128 (of_lanes32 ws) (of_lanes32 vs) = of_lanes32 (map2 (OR) ws vs)"
  by (induction ws vs rule: list_induct2) (simp_all add: mm_or_si128_def of_lanes32_def bytes32_def unsigned_or_eq drop_bit_or)

lemma mask_lane: "(if p then - 1 else 0) AND (f :: u32) = (if p then f else 0)"
  by simp

lemma ipsec_names:
  "IXGBE_RXDADV_IPSEC_STATUS_SECP = IXGBE_RXD_STAT_SECP" "IXGBE_RXDADV_IPSEC_ERROR_AUTH_FAILED = IXGBE_RXDADV_LNKSEC_ERROR_BAD_SIG"
  "IXGBE_RXDADV_IPSEC_ERROR_BIT_MASK = IXGBE_RXDADV_LNKSEC_ERROR_BAD_SIG"
  by (simp_all add: IXGBE_RXDADV_IPSEC_STATUS_SECP_def IXGBE_RXD_STAT_SECP_def IXGBE_RXDADV_IPSEC_ERROR_AUTH_FAILED_def
      IXGBE_RXDADV_IPSEC_ERROR_BIT_MASK_def IXGBE_RXDADV_LNKSEC_ERROR_BAD_SIG_def)

lemma ipsec_lanes:
  "desc_to_olflags_v_ipsec d0 d1 d2 d3 [r0, r1, r2, r3] =
    [r0 OR vec_sec_flags d0, r1 OR vec_sec_flags d1, r2 OR vec_sec_flags d2, r3 OR vec_sec_flags d3]"
proof -
  define S where "S = IXGBE_RXD_STAT_SECP OR IXGBE_RXDADV_LNKSEC_ERROR_BAD_SIG"
  define e where "e = (ucast (RTE_MBUF_F_RX_SEC_OFFLOAD_FAILED OR RTE_MBUF_F_RX_SEC_OFFLOAD) :: u32)"
  define p where "p = (ucast RTE_MBUF_F_RX_SEC_OFFLOAD :: u32)"
  have ne: "IXGBE_RXD_STAT_SECP \<noteq> S" by (simp add: S_def IXGBE_RXD_STAT_SECP_def IXGBE_RXDADV_LNKSEC_ERROR_BAD_SIG_def)
  have k: "((if x = S then - 1 else 0) AND e) OR ((if x = IXGBE_RXD_STAT_SECP then - 1 else 0) AND p) =
      (if x = S then e else if x = IXGBE_RXD_STAT_SECP then p else 0)" for x
    using ne by auto
  show ?thesis
    unfolding desc_to_olflags_v_ipsec_def Let_def vec_sec_flags_def ipsec_names S_def [symmetric] e_def [symmetric] p_def [symmetric]
      mm_set1_epi32_def mm_set_epi32_def mm_cmpeq_epi32_def
    by (simp add: mm_and_lanes32 mm_or_lanes32 mm_extract_epi32_def wb_status_error_def k)
qed

definition sec_errors_paired :: "m128 \<Rightarrow> bool" where
  "sec_errors_paired d \<longleftrightarrow> wb_status_error d AND IXGBE_RXDADV_LNKSEC_ERROR_BAD_SIG \<in> {0, IXGBE_RXDADV_LNKSEC_ERROR_BAD_SIG}"

lemma error_map_sec:
  fixes i
  defines "M \<equiv> RTE_MBUF_F_RX_SEC_OFFLOAD OR RTE_MBUF_F_RX_SEC_OFFLOAD_FAILED"
  assumes "i < 4"
  shows "error_to_pkt_flags_map ! i AND M = 0" "(error_to_pkt_flags_map ! i AND NOT RTE_MBUF_F_RX_L4_CKSUM_BAD) AND M = 0"
  using assms(2) by (auto simp: numeral_eq_Suc less_Suc_eq error_to_pkt_flags_map_def M_def rx_flag_defs)

lemma scalar_sec_flags:
  "rx_desc_error_to_pkt_flags st info err AND (RTE_MBUF_F_RX_SEC_OFFLOAD OR RTE_MBUF_F_RX_SEC_OFFLOAD_FAILED) =
    (if st AND IXGBE_RXD_STAT_SECP = 0 then 0
     else if st AND IXGBE_RXDADV_LNKSEC_ERROR_BAD_SIG = 0 then RTE_MBUF_F_RX_SEC_OFFLOAD
     else RTE_MBUF_F_RX_SEC_OFFLOAD OR RTE_MBUF_F_RX_SEC_OFFLOAD_FAILED)"
proof -
  define i where "i = unat (drop_bit 30 st AND 3)"
  have "unat (drop_bit 30 st AND 3) = (if bit (drop_bit 30 st) 0 then 1 else 0) + (if bit (drop_bit 30 st) 1 then 2 else 0)"
    unfolding and3 csum_index by simp
  then have i: "i < 4" unfolding i_def by simp
  let ?M = "RTE_MBUF_F_RX_SEC_OFFLOAD OR RTE_MBUF_F_RX_SEC_OFFLOAD_FAILED"
  have f: "RTE_MBUF_F_RX_OUTER_IP_CKSUM_BAD AND ?M = 0" "RTE_MBUF_F_RX_SEC_OFFLOAD AND ?M = RTE_MBUF_F_RX_SEC_OFFLOAD"
    "RTE_MBUF_F_RX_SEC_OFFLOAD_FAILED AND ?M = RTE_MBUF_F_RX_SEC_OFFLOAD_FAILED"
    by (simp_all add: rx_flag_defs)
  show ?thesis
    unfolding rx_desc_error_to_pkt_flags_def Let_def i_def [symmetric]
    by (auto simp: bit.conj_disj_distrib2 f error_map_sec [OF i])
qed

lemma sec_agree:
  assumes "sec_errors_paired d"
  shows "vec_sec_flags d = ucast (rx_desc_error_to_pkt_flags (wb_status_error d) info err
    AND (RTE_MBUF_F_RX_SEC_OFFLOAD OR RTE_MBUF_F_RX_SEC_OFFLOAD_FAILED))"
proof -
  let ?s = "wb_status_error d"
  have p: "?s AND IXGBE_RXD_STAT_SECP = 0 \<or> ?s AND IXGBE_RXD_STAT_SECP = IXGBE_RXD_STAT_SECP"
    using and_pow [of ?s 17] by (auto simp: IXGBE_RXD_STAT_SECP_def)
  have D: "?s AND (IXGBE_RXD_STAT_SECP OR IXGBE_RXDADV_LNKSEC_ERROR_BAD_SIG) =
      (?s AND IXGBE_RXD_STAT_SECP) OR (?s AND IXGBE_RXDADV_LNKSEC_ERROR_BAD_SIG)"
    by (rule bit.conj_disj_distrib)
  show ?thesis
    unfolding scalar_sec_flags vec_sec_flags_def Let_def D
    using p assms
    by (auto simp: sec_errors_paired_def rx_flag_defs IXGBE_RXD_STAT_SECP_def IXGBE_RXDADV_LNKSEC_ERROR_BAD_SIG_def)
qed

text \<open>An authentication error with one bit only: the vector translation does not say that the packet was processed.\<close>

text \<open>The error code of the security engine takes two bits of the status.\<close>

lemma ipsec_code_cases:
  "st AND IXGBE_RXDADV_IPSEC_ERROR_BIT_MASK \<in> {0, IXGBE_RXDADV_IPSEC_ERROR_INVALID_PROTOCOL, IXGBE_RXDADV_IPSEC_ERROR_INVALID_LENGTH,
     IXGBE_RXDADV_IPSEC_ERROR_AUTH_FAILED}"
proof -
  have "(0x18000000 :: u32) = 2 ^ 27 OR 2 ^ 28" by simp
  then have "st AND 0x18000000 = (st AND 2 ^ 27) OR (st AND 2 ^ 28)" by (simp only: bit.conj_disj_distrib)
  moreover have "st AND 2 ^ 27 = 0 \<or> st AND 2 ^ 27 = 2 ^ 27" "st AND 2 ^ 28 = 0 \<or> st AND 2 ^ 28 = 2 ^ 28"
    using and_pow [of st 27] and_pow [of st 28] by auto
  ultimately show ?thesis
    by (auto simp: IXGBE_RXDADV_IPSEC_ERROR_BIT_MASK_def IXGBE_RXDADV_IPSEC_ERROR_INVALID_PROTOCOL_def
        IXGBE_RXDADV_IPSEC_ERROR_INVALID_LENGTH_def IXGBE_RXDADV_IPSEC_ERROR_AUTH_FAILED_def)
qed

lemma ipsec_code_flags:
  fixes d info err
  defines "st \<equiv> wb_status_error d" and "M \<equiv> RTE_MBUF_F_RX_SEC_OFFLOAD OR RTE_MBUF_F_RX_SEC_OFFLOAD_FAILED"
  shows "if st AND IXGBE_RXDADV_IPSEC_STATUS_SECP \<noteq> 0 \<and>
        (st AND IXGBE_RXDADV_IPSEC_ERROR_BIT_MASK = IXGBE_RXDADV_IPSEC_ERROR_INVALID_PROTOCOL \<or>
         st AND IXGBE_RXDADV_IPSEC_ERROR_BIT_MASK = IXGBE_RXDADV_IPSEC_ERROR_INVALID_LENGTH)
      then vec_sec_flags d = 0 \<and> rx_desc_error_to_pkt_flags st info err AND M = M
      else vec_sec_flags d = ucast (rx_desc_error_to_pkt_flags st info err AND M)"
proof (cases "sec_errors_paired d")
  case True
  then have "st AND IXGBE_RXDADV_IPSEC_ERROR_BIT_MASK \<noteq> IXGBE_RXDADV_IPSEC_ERROR_INVALID_PROTOCOL"
    "st AND IXGBE_RXDADV_IPSEC_ERROR_BIT_MASK \<noteq> IXGBE_RXDADV_IPSEC_ERROR_INVALID_LENGTH"
    by (auto simp: sec_errors_paired_def st_def ipsec_names IXGBE_RXDADV_LNKSEC_ERROR_BAD_SIG_def
        IXGBE_RXDADV_IPSEC_ERROR_INVALID_PROTOCOL_def IXGBE_RXDADV_IPSEC_ERROR_INVALID_LENGTH_def)
  then show ?thesis using sec_agree [OF True, of info err] by (simp add: st_def M_def)
next
  case False
  have ne: "st AND IXGBE_RXDADV_LNKSEC_ERROR_BAD_SIG \<noteq> 0" "st AND IXGBE_RXDADV_LNKSEC_ERROR_BAD_SIG \<noteq> IXGBE_RXDADV_LNKSEC_ERROR_BAD_SIG"
    using False by (simp_all add: sec_errors_paired_def st_def)
  then have code: "st AND IXGBE_RXDADV_IPSEC_ERROR_BIT_MASK = IXGBE_RXDADV_IPSEC_ERROR_INVALID_PROTOCOL \<or>
      st AND IXGBE_RXDADV_IPSEC_ERROR_BIT_MASK = IXGBE_RXDADV_IPSEC_ERROR_INVALID_LENGTH"
    using ipsec_code_cases [of st] by (auto simp: ipsec_names)
  have p: "st AND IXGBE_RXD_STAT_SECP = 0 \<or> st AND IXGBE_RXD_STAT_SECP = IXGBE_RXD_STAT_SECP"
    using and_pow [of st 17] by (auto simp: IXGBE_RXD_STAT_SECP_def)
  have D: "st AND (IXGBE_RXD_STAT_SECP OR IXGBE_RXDADV_LNKSEC_ERROR_BAD_SIG) =
      (st AND IXGBE_RXD_STAT_SECP) OR (st AND IXGBE_RXDADV_LNKSEC_ERROR_BAD_SIG)"
    by (rule bit.conj_disj_distrib)
  have v: "vec_sec_flags d = 0"
    unfolding vec_sec_flags_def Let_def st_def [symmetric] D
    using p code by (auto simp: ipsec_names IXGBE_RXD_STAT_SECP_def IXGBE_RXDADV_LNKSEC_ERROR_BAD_SIG_def
        IXGBE_RXDADV_IPSEC_ERROR_INVALID_PROTOCOL_def IXGBE_RXDADV_IPSEC_ERROR_INVALID_LENGTH_def)
  show ?thesis using v code ne(1) by (simp add: ipsec_names M_def scalar_sec_flags)
qed

end
