(* ===== verification/IxgbeRx.thy ===== *)
theory IxgbeRx
  imports IxgbeTx IxgbeRxFlags
begin

text \<open>
  The receive queue of the ixgbe driver with vector instructions (ixgbe_rxtx_vec_sse.c, ixgbe_rxtx_vec_common.h,
  and the set up of the queue in ixgbe_rxtx.c): refilling the ring from the memory pool, receiving a burst of four
  descriptors at a time, joining the segments of scattered packets, and release. The buffers and pools are those of
  the transmit queue; the fields that only the receive path writes are in a second map. The device shares the ring and
  the tail register with the driver; it is a parameter that acts before each load of a descriptor, and the only
  hypothesis on it is that it writes descriptors back in the order of the ring up to the tail register.
\<close>

section \<open>Buffers, queue and device\<close>

record rx_meta =
  rm_buf_addr :: u64
  rm_port :: u16
  rm_ol_flags :: u64
  rm_packet_type :: u32
  rm_vlan_tci :: u16
  rm_hash :: u32

record rx_queue =
  rq_mb_pool :: nat
  rq_sw_ring :: "nat option list"
  rq_pkt_first_seg :: "nat option"
  rq_pkt_last_seg :: "nat option"
  rq_mbuf_initializer :: u64
  rq_nb_rx_desc :: u16
  rq_rx_tail :: u16
  rq_using_ipsec :: u8
  rq_rxrearm_nb :: u16
  rq_rxrearm_start :: u16
  rq_pkt_type_mask :: u16
  rq_port_id :: u16
  rq_crc_len :: u8
  rq_rx_udp_csum_zero_err :: u8
  rq_vlan_flags :: u64
  rq_fake_mbuf :: nat

text \<open>
  What driver and device share, and of the device its head and the log of what it has written back: the address that
  the descriptor held, and the descriptor.
\<close>

record rx_nic =
  rn_ring :: "m128 list"
  rn_rdt :: u16
  rn_head :: nat
  rn_log :: "(u64 \<times> m128) list"

record rx_state =
  rs_drv :: driver
  rs_meta :: "nat \<Rightarrow> rx_meta"
  rs_rxq :: rx_queue
  rs_nic :: rx_nic
  rs_alloc_failed :: u64

type_synonym device = "nat \<Rightarrow> rx_nic \<Rightarrow> rx_nic"

definition desc_addr :: "m128 \<Rightarrow> u64" where "desc_addr d = lanes64 d ! 0"

text \<open>
  The device owns the descriptors from its head up to the tail register, without the last. It goes on in the next buffer only when
  one is full, so a descriptor that does not end a packet has at least the length of a frame's checksum.
\<close>

definition full_desc :: "m128 \<Rightarrow> bool" where "full_desc d \<longleftrightarrow> desc_eop d \<or> 4 \<le> wb_length d"

inductive nic_step :: "nat \<Rightarrow> rx_nic \<Rightarrow> rx_nic \<Rightarrow> bool" for n where
  write_back: "rn_head c \<noteq> unat (rn_rdt c) \<Longrightarrow> length d = 16 \<Longrightarrow> desc_done d \<Longrightarrow> full_desc d \<Longrightarrow>
    nic_step n c (c\<lparr>rn_ring := (rn_ring c)[rn_head c := d], rn_head := (rn_head c + 1) mod n,
      rn_log := rn_log c @ [(desc_addr (rn_ring c ! rn_head c), d)]\<rparr>)"

definition device_ok :: "nat \<Rightarrow> device \<Rightarrow> bool" where
  "device_ok n dev \<longleftrightarrow> (\<forall>t c. (nic_step n)\<^sup>*\<^sup>* c (dev t c))"

section \<open>Stores into a buffer\<close>

definition rx_buf :: "rx_state \<Rightarrow> nat \<Rightarrow> mbuf \<times> rx_meta" where
  "rx_buf s m = (d_mbufs (rs_drv s) m, rs_meta s m)"

definition upd_buf :: "nat \<Rightarrow> (mbuf \<times> rx_meta \<Rightarrow> mbuf \<times> rx_meta) \<Rightarrow> rx_state \<Rightarrow> rx_state" where
  "upd_buf m f s =
     (let (b, e) = f (rx_buf s m) in
      s\<lparr>rs_drv := (rs_drv s)\<lparr>d_mbufs := (d_mbufs (rs_drv s))(m := b)\<rparr>, rs_meta := (rs_meta s)(m := e)\<rparr>)"

definition RTE_MBUF_F_NOT_DIRECT :: u64 where "RTE_MBUF_F_NOT_DIRECT = 0x6000000000000000"

text \<open>Sixteen bytes to \<open>rearm_data\<close>: data offset, reference count, number of segments, port and flags.\<close>

definition store_rearm :: "m128 \<Rightarrow> mbuf \<times> rx_meta \<Rightarrow> mbuf \<times> rx_meta" where
  "store_rearm b = (\<lambda>(m, e).
     let ol = le64 (b ! 8) (b ! 9) (b ! 10) (b ! 11) (b ! 12) (b ! 13) (b ! 14) (b ! 15) in
     (m\<lparr>mb_data_off := le16 (b ! 0) (b ! 1), mb_refcnt := le16 (b ! 2) (b ! 3), mb_nb_segs := le16 (b ! 4) (b ! 5),
        mb_direct := (ol AND RTE_MBUF_F_NOT_DIRECT = 0)\<rparr>,
      e\<lparr>rm_port := le16 (b ! 6) (b ! 7), rm_ol_flags := ol\<rparr>))"

text \<open>Sixteen bytes to \<open>rx_descriptor_fields1\<close>: packet type, both lengths, VLAN tag and hash.\<close>

definition store_fields1 :: "m128 \<Rightarrow> mbuf \<times> rx_meta \<Rightarrow> mbuf \<times> rx_meta" where
  "store_fields1 b = (\<lambda>(m, e).
     (m\<lparr>mb_pkt_len := le32 (b ! 4) (b ! 5) (b ! 6) (b ! 7), mb_data_len := le16 (b ! 8) (b ! 9)\<rparr>,
      e\<lparr>rm_packet_type := le32 (b ! 0) (b ! 1) (b ! 2) (b ! 3), rm_vlan_tci := le16 (b ! 10) (b ! 11),
        rm_hash := le32 (b ! 12) (b ! 13) (b ! 14) (b ! 15)\<rparr>))"

definition store_ptype :: "u32 \<Rightarrow> mbuf \<times> rx_meta \<Rightarrow> mbuf \<times> rx_meta" where
  "store_ptype t = (\<lambda>(m, e). (m, e\<lparr>rm_packet_type := t\<rparr>))"

text \<open>Four bytes to the low half of \<open>ol_flags\<close>.\<close>

definition store_ol_low :: "u32 \<Rightarrow> mbuf \<times> rx_meta \<Rightarrow> mbuf \<times> rx_meta" where
  "store_ol_low w = (\<lambda>(m, e). (m, e\<lparr>rm_ol_flags := (rm_ol_flags e AND NOT 0xFFFFFFFF) OR ucast w\<rparr>))"

definition load_ol_low :: "rx_state \<Rightarrow> nat \<Rightarrow> u32" where
  "load_ol_low s m = ucast (rm_ol_flags (snd (rx_buf s m)))"

fun upd_bufs :: "nat list \<Rightarrow> (mbuf \<times> rx_meta \<Rightarrow> mbuf \<times> rx_meta) list \<Rightarrow> rx_state \<Rightarrow> rx_state" where
  "upd_bufs (m # ms) (f # fs) s = upd_bufs ms fs (upd_buf m f s)"
| "upd_bufs _ _ s = s"

section \<open>Refilling the ring\<close>

definition RTE_IXGBE_RXQ_REARM_THRESH :: nat where "RTE_IXGBE_RXQ_REARM_THRESH = 32"
definition RTE_IXGBE_DESCS_PER_LOOP :: nat where "RTE_IXGBE_DESCS_PER_LOOP = 4"
definition RTE_PMD_IXGBE_RX_MAX_BURST :: nat where "RTE_PMD_IXGBE_RX_MAX_BURST = 32"
definition RTE_PKTMBUF_HEADROOM :: u64 where "RTE_PKTMBUF_HEADROOM = 128"

definition mempool_get_bulk :: "nat \<Rightarrow> nat \<Rightarrow> driver \<Rightarrow> (nat list \<times> driver) option" where
  "mempool_get_bulk pool k d =
     (if length (d_pools d pool) < k then None
      else Some (take k (d_pools d pool), d\<lparr>d_pools := (d_pools d)(pool := drop k (d_pools d pool))\<rparr>))"

text \<open>The descriptor for a buffer: its two address fields, doubled, moved by the headroom, and the header address cleared.\<close>

definition rearm_desc :: "u64 \<Rightarrow> u64 \<Rightarrow> m128" where
  "rearm_desc buf_addr buf_iova =
     (let vaddr = bytes64 buf_addr @ bytes64 buf_iova;
          dma_addr = mm_unpackhi_epi64 vaddr vaddr;
          dma_addr = mm_add_epi64 dma_addr (mm_set_epi64x RTE_PKTMBUF_HEADROOM RTE_PKTMBUF_HEADROOM)
      in mm_and_si128 dma_addr (mm_set_epi64x 0 (- 1)))"

definition awrite :: "'a list \<Rightarrow> nat \<Rightarrow> 'a list \<Rightarrow> 'a list option" where
  "awrite xs i ys = (if i + length ys \<le> length xs then Some (take i xs @ ys @ drop (i + length ys) xs) else None)"

definition set_ring :: "nat \<Rightarrow> m128 \<Rightarrow> rx_state \<Rightarrow> tx_fault + rx_state" where
  "set_ring i d s =
     (case aset (rn_ring (rs_nic s)) i d of
        None \<Rightarrow> Inl RingBounds
      | Some ring \<Rightarrow> Inr (s\<lparr>rs_nic := (rs_nic s)\<lparr>rn_ring := ring\<rparr>\<rparr>))"

definition set_sw_ring :: "nat \<Rightarrow> nat \<Rightarrow> rx_state \<Rightarrow> tx_fault + rx_state" where
  "set_sw_ring i m s =
     (case aset (rq_sw_ring (rs_rxq s)) i (Some m) of
        None \<Rightarrow> Inl RingBounds
      | Some sw \<Rightarrow> Inr (s\<lparr>rs_rxq := (rs_rxq s)\<lparr>rq_sw_ring := sw\<rparr>\<rparr>))"

fun rearm_zero :: "nat \<Rightarrow> nat \<Rightarrow> rx_state \<Rightarrow> tx_fault + rx_state" where
  "rearm_zero 0 i s = Inr s"
| "rearm_zero (Suc k) i s =
     bindR (set_sw_ring i (rq_fake_mbuf (rs_rxq s)) s) (\<lambda>s.
     bindR (set_ring i mm_setzero_si128 s) (rearm_zero k (i + 1)))"

text \<open>Two buffers per round.\<close>

fun rearm_loop :: "nat \<Rightarrow> nat \<Rightarrow> rx_state \<Rightarrow> tx_fault + rx_state" where
  "rearm_loop 0 i s = Inr s"
| "rearm_loop (Suc k) i s =
     (case (aget (rq_sw_ring (rs_rxq s)) i, aget (rq_sw_ring (rs_rxq s)) (i + 1)) of
        (Some (Some mb0), Some (Some mb1)) \<Rightarrow>
          (let dma_addr0 = rearm_desc (rm_buf_addr (rs_meta s mb0)) (mb_buf_iova (d_mbufs (rs_drv s) mb0));
               dma_addr1 = rearm_desc (rm_buf_addr (rs_meta s mb1)) (mb_buf_iova (d_mbufs (rs_drv s) mb1))
           in bindR (set_ring i dma_addr0 s) (\<lambda>s. bindR (set_ring (i + 1) dma_addr1 s) (rearm_loop k (i + 2))))
      | _ \<Rightarrow> Inl NullMbuf)"

definition ixgbe_rxq_rearm :: "rx_state \<Rightarrow> tx_fault + rx_state" where
  "ixgbe_rxq_rearm s =
     (let q = rs_rxq s; rxep = unat (rq_rxrearm_start q)
      in case mempool_get_bulk (rq_mb_pool q) RTE_IXGBE_RXQ_REARM_THRESH (rs_drv s) of
           None \<Rightarrow>
             bindR (if unat (rq_rxrearm_nb q) + RTE_IXGBE_RXQ_REARM_THRESH \<ge> unat (rq_nb_rx_desc q)
                    then rearm_zero RTE_IXGBE_DESCS_PER_LOOP rxep s else Inr s)
               (\<lambda>s. Inr (s\<lparr>rs_alloc_failed := rs_alloc_failed s + of_nat RTE_IXGBE_RXQ_REARM_THRESH\<rparr>))
         | Some (bufs, d) \<Rightarrow>
             (case awrite (rq_sw_ring q) rxep (map Some bufs) of
                None \<Rightarrow> Inl RingBounds
              | Some sw \<Rightarrow>
                  bindR (rearm_loop (RTE_IXGBE_RXQ_REARM_THRESH div 2) rxep (s\<lparr>rs_drv := d, rs_rxq := q\<lparr>rq_sw_ring := sw\<rparr>\<rparr>)) (\<lambda>s.
                    let q = rs_rxq s;
                        start = rq_rxrearm_start q + of_nat RTE_IXGBE_RXQ_REARM_THRESH;
                        start = (if start \<ge> rq_nb_rx_desc q then 0 else start);
                        q = q\<lparr>rq_rxrearm_start := start, rq_rxrearm_nb := rq_rxrearm_nb q - of_nat RTE_IXGBE_RXQ_REARM_THRESH\<rparr>;
                        rx_id = (if start = 0 then rq_nb_rx_desc q - 1 else start - 1)
                    in Inr (s\<lparr>rs_rxq := q, rs_nic := (rs_nic s)\<lparr>rn_rdt := rx_id\<rparr>\<rparr>))))"

section \<open>Receiving a burst\<close>

text \<open>A load of a descriptor; the device may have acted before it.\<close>

definition rx_load :: "device \<Rightarrow> nat \<Rightarrow> nat \<Rightarrow> rx_state \<Rightarrow> rx_state \<times> m128" where
  "rx_load dev t i s = (let nic = dev t (rs_nic s) in (s\<lparr>rs_nic := nic\<rparr>, rn_ring nic ! i))"

text \<open>Filling the four buffers from their descriptors.\<close>

definition fill_bufs :: "rx_queue \<Rightarrow> m128 \<Rightarrow> u8 \<Rightarrow> u16 \<Rightarrow> nat list \<Rightarrow> m128 \<Rightarrow> m128 \<Rightarrow> m128 \<Rightarrow> m128 \<Rightarrow> rx_state \<Rightarrow> rx_state" where
  "fill_bufs q mbuf_init vlan_flags udp_p_flag ms d0 d1 d2 d3 s =
     (let s = upd_bufs ms (map store_rearm (desc_to_olflags_v d0 d1 d2 d3 mbuf_init vlan_flags udp_p_flag)) s;
          s = (if rq_using_ipsec q \<noteq> 0
               then upd_bufs ms (map store_ol_low (desc_to_olflags_v_ipsec d0 d1 d2 d3 (map (load_ol_low s) ms))) s else s);
          s = upd_bufs (rev ms) (map (\<lambda>d. store_fields1 (desc_to_fields1 d (rq_crc_len q))) [d3, d2, d1, d0]) s
      in upd_bufs ms (map store_ptype (desc_to_ptype_v d0 d1 d2 d3 (rq_pkt_type_mask q))) s)"

text \<open>
  One round of the loop, at the offset \<open>pos\<close> from the tail: the descriptors are loaded from the last to the first; the four
  buffers, the four flags of split packets and the number of completed descriptors are returned.
\<close>

definition recv_group ::
  "device \<Rightarrow> m128 \<Rightarrow> u8 \<Rightarrow> u16 \<Rightarrow> nat \<Rightarrow> rx_state \<Rightarrow> tx_fault + rx_state \<times> nat list \<times> u8 list \<times> nat"
where
  "recv_group dev mbuf_init vlan_flags udp_p_flag pos s =
     (let q = rs_rxq s; i = unat (rq_rx_tail q) + pos
      in if length (rq_sw_ring q) < i + 4 \<or> length (rn_ring (rs_nic s)) < i + 4 then Inl RingBounds
         else
           (let (s, d3) = rx_load dev (pos + 1) (i + 3) s;
                (s, d2) = rx_load dev (pos + 2) (i + 2) s;
                (s, d1) = rx_load dev (pos + 3) (i + 1) s;
                (s, d0) = rx_load dev (pos + 4) i s
            in case those (take 4 (drop i (rq_sw_ring q))) of
                 None \<Rightarrow> Inl NullMbuf
               | Some ms \<Rightarrow>
                   Inr (fill_bufs q mbuf_init vlan_flags udp_p_flag ms d0 d1 d2 d3 s, ms,
                     eop_flags (status_v d0 d1 d2 d3), count_done (status_v d0 d1 d2 d3))))"

fun recv_loop ::
  "device \<Rightarrow> m128 \<Rightarrow> u8 \<Rightarrow> u16 \<Rightarrow> nat \<Rightarrow> nat \<Rightarrow> nat list \<Rightarrow> u8 list \<Rightarrow> nat \<Rightarrow> rx_state \<Rightarrow>
   tx_fault + rx_state \<times> nat list \<times> u8 list \<times> nat"
where
  "recv_loop dev mbuf_init vf udp 0 pos pkts split recd s = Inr (s, pkts, split, recd)"
| "recv_loop dev mbuf_init vf udp (Suc g) pos pkts split recd s =
     bindR (recv_group dev mbuf_init vf udp pos s) (\<lambda>(s, ms, es, var).
       if var \<noteq> RTE_IXGBE_DESCS_PER_LOOP then Inr (s, pkts @ ms, split @ es, recd + var)
       else recv_loop dev mbuf_init vf udp g (pos + RTE_IXGBE_DESCS_PER_LOOP) (pkts @ ms) (split @ es) (recd + var) s)"

text \<open>
  The contents written to the caller's array, the flags of split packets, and the number of packets. (The code writes
  the flags only where the caller asks for them.)
\<close>

definition recv_raw_pkts_vec :: "device \<Rightarrow> u16 \<Rightarrow> rx_state \<Rightarrow> tx_fault + rx_state \<times> nat list \<times> u8 list \<times> nat" where
  "recv_raw_pkts_vec dev nb_pkts s =
     (let nb_pkts = min nb_pkts (of_nat RTE_IXGBE_RXQ_REARM_THRESH);
          nb_pkts = nb_pkts AND NOT (of_nat RTE_IXGBE_DESCS_PER_LOOP - 1)
      in bindR (if unat (rq_rxrearm_nb (rs_rxq s)) > RTE_IXGBE_RXQ_REARM_THRESH then ixgbe_rxq_rearm s else Inr s) (\<lambda>s.
         let (s, d) = rx_load dev 0 (unat (rq_rx_tail (rs_rxq s))) s; q = rs_rxq s
         in if length (rn_ring (rs_nic s)) \<le> unat (rq_rx_tail q) then Inl RingBounds
            else if \<not> desc_done d then Inr (s, [], [], 0)
            else
              bindR (recv_loop dev (mm_set_epi64x 0 (rq_mbuf_initializer q)) (ucast (rq_vlan_flags q))
                  (if rq_rx_udp_csum_zero_err q = 0 then 0 else IXGBE_RXDADV_PKTTYPE_UDP)
                  (unat nb_pkts div RTE_IXGBE_DESCS_PER_LOOP) 0 [] [] 0 s) (\<lambda>(s, pkts, split, nb).
                let q = rs_rxq s;
                    tail = (rq_rx_tail q + of_nat nb) AND (rq_nb_rx_desc q - 1)
                in Inr (s\<lparr>rs_rxq := q\<lparr>rq_rx_tail := tail, rq_rxrearm_nb := rq_rxrearm_nb q + of_nat nb\<rparr>\<rparr>,
                     pkts, split, nb))))"

definition ixgbe_recv_pkts_vec :: "device \<Rightarrow> u16 \<Rightarrow> rx_state \<Rightarrow> tx_fault + rx_state \<times> nat list \<times> nat" where
  "ixgbe_recv_pkts_vec dev nb_pkts s =
     bindR (recv_raw_pkts_vec dev nb_pkts s) (\<lambda>(s, pkts, split, nb). Inr (s, pkts, nb))"

section \<open>Set up and release\<close>

text \<open>The memory of both rings is larger than the rings; the part behind their end is read by the bursts and made to look unfinished.\<close>

definition ixgbe_rxq_vec_setup_default :: "rx_state \<Rightarrow> rx_state" where
  "ixgbe_rxq_vec_setup_default s =
     (let q = rs_rxq s;
          b = bytes16 (ucast RTE_PKTMBUF_HEADROOM) @ bytes16 1 @ bytes16 1 @ bytes16 (rq_port_id q)
      in s\<lparr>rs_rxq := q\<lparr>rq_mbuf_initializer := le64 (b ! 0) (b ! 1) (b ! 2) (b ! 3) (b ! 4) (b ! 5) (b ! 6) (b ! 7)\<rparr>\<rparr>)"

definition zeroed_mbuf :: "mbuf \<Rightarrow> mbuf" where
  "zeroed_mbuf m = m\<lparr>mb_buf_iova := 0, mb_data_off := 0, mb_data_len := 0, mb_pkt_len := 0, mb_refcnt := 0, mb_next := None,
     mb_nb_segs := 0, mb_pool := 0, mb_direct := True\<rparr>"

definition zeroed_meta :: rx_meta where
  "zeroed_meta = \<lparr>rm_buf_addr = 0, rm_port = 0, rm_ol_flags = 0, rm_packet_type = 0, rm_vlan_tci = 0, rm_hash = 0\<rparr>"

definition ixgbe_reset_rx_queue :: "rx_state \<Rightarrow> tx_fault + rx_state" where
  "ixgbe_reset_rx_queue s =
     (let q = rs_rxq s; n = unat (rq_nb_rx_desc q)
      in case (awrite (rn_ring (rs_nic s)) 0 (replicate (n + RTE_PMD_IXGBE_RX_MAX_BURST) mm_setzero_si128),
               awrite (rq_sw_ring q) n (replicate RTE_PMD_IXGBE_RX_MAX_BURST (Some (rq_fake_mbuf q)))) of
           (Some ring, Some sw) \<Rightarrow>
             (let s = upd_buf (rq_fake_mbuf q) (\<lambda>(m, e). (zeroed_mbuf m, zeroed_meta)) s
              in bindR (rte_pktmbuf_free (rq_pkt_first_seg q) (rs_drv s)) (\<lambda>d.
                   Inr (s\<lparr>rs_drv := d, rs_nic := (rs_nic s)\<lparr>rn_ring := ring\<rparr>,
                     rs_rxq := q\<lparr>rq_sw_ring := sw, rq_rx_tail := 0, rq_pkt_first_seg := None, rq_pkt_last_seg := None,
                       rq_rxrearm_start := 0, rq_rxrearm_nb := 0\<rparr>\<rparr>)))
         | _ \<Rightarrow> Inl RingBounds)"

text \<open>One buffer per descriptor; \<open>False\<close> when the pool runs out.\<close>

fun alloc_rx_loop :: "nat \<Rightarrow> nat \<Rightarrow> rx_state \<Rightarrow> tx_fault + rx_state \<times> bool" where
  "alloc_rx_loop 0 i s = Inr (s, True)"
| "alloc_rx_loop (Suc k) i s =
     (case mempool_get_bulk (rq_mb_pool (rs_rxq s)) 1 (rs_drv s) of
        None \<Rightarrow> Inr (s, False)
      | Some (bufs, d) \<Rightarrow>
          (let m = hd bufs;
               s = upd_buf m (\<lambda>(b, e). (b\<lparr>mb_data_off := ucast RTE_PKTMBUF_HEADROOM\<rparr>, e\<lparr>rm_port := rq_port_id (rs_rxq s)\<rparr>)) (s\<lparr>rs_drv := d\<rparr>);
               dma_addr = mb_buf_iova (d_mbufs (rs_drv s) m) + RTE_PKTMBUF_HEADROOM
           in bindR (set_ring i (bytes64 dma_addr @ bytes64 0) s) (\<lambda>s.
              bindR (set_sw_ring i m s) (alloc_rx_loop k (i + 1)))))"

definition ixgbe_alloc_rx_queue_mbufs :: "rx_state \<Rightarrow> tx_fault + rx_state \<times> bool" where
  "ixgbe_alloc_rx_queue_mbufs s = alloc_rx_loop (unat (rq_nb_rx_desc (rs_rxq s))) 0 s"

text \<open>The start of the queue writes the head and the tail register; the log of the device begins there.\<close>

definition ixgbe_dev_rx_queue_start :: "rx_state \<Rightarrow> tx_fault + rx_state \<times> bool" where
  "ixgbe_dev_rx_queue_start s =
     bindR (ixgbe_alloc_rx_queue_mbufs s) (\<lambda>(s, ok).
       if ok then Inr (s\<lparr>rs_nic := (rs_nic s)\<lparr>rn_head := 0, rn_rdt := rq_nb_rx_desc (rs_rxq s) - 1, rn_log := []\<rparr>\<rparr>, True)
       else Inr (s, False))"

definition free_seg :: "nat option \<Rightarrow> rx_state \<Rightarrow> tx_fault + rx_state" where
  "free_seg mp s = bindR (rte_pktmbuf_free_seg mp (rs_drv s)) (\<lambda>d. Inr (s\<lparr>rs_drv := d\<rparr>))"

fun release_all :: "nat option list \<Rightarrow> rx_state \<Rightarrow> tx_fault + rx_state" where
  "release_all [] s = Inr s"
| "release_all (None # es) s = release_all es s"
| "release_all (Some m # es) s = bindR (free_seg (Some m) s) (release_all es)"

text \<open>The loop from the tail to the start of the rearm region; its first argument bounds the rounds.\<close>

fun release_from :: "nat \<Rightarrow> nat \<Rightarrow> rx_state \<Rightarrow> tx_fault + rx_state" where
  "release_from fuel i s =
     (let q = rs_rxq s in
      if i = unat (rq_rxrearm_start q) then Inr s
      else case fuel of
          0 \<Rightarrow> Inl Endless
        | Suc fuel \<Rightarrow>
            (case aget (rq_sw_ring q) i of
               None \<Rightarrow> Inl RingBounds
             | Some e \<Rightarrow>
                 bindR (case e of None \<Rightarrow> Inr s | Some m \<Rightarrow> free_seg (Some m) s)
                   (release_from fuel ((i + 1) mod unat (rq_nb_rx_desc q)))))"

definition ixgbe_rx_queue_release_mbufs_vec :: "rx_state \<Rightarrow> tx_fault + rx_state" where
  "ixgbe_rx_queue_release_mbufs_vec s =
     (let q = rs_rxq s; n = unat (rq_nb_rx_desc q)
      in if rq_sw_ring q = [] \<or> rq_rxrearm_nb q \<ge> rq_nb_rx_desc q then Inr s
         else
           bindR (if rq_rxrearm_nb q = 0 then release_all (take n (rq_sw_ring q)) s
                  else release_from n (unat (rq_rx_tail q)) s) (\<lambda>s.
             let q = rs_rxq s in
             case awrite (rq_sw_ring q) 0 (replicate n None) of
               None \<Rightarrow> Inl RingBounds
             | Some sw \<Rightarrow> Inr (s\<lparr>rs_rxq := q\<lparr>rq_rxrearm_nb := rq_nb_rx_desc q, rq_sw_ring := sw\<rparr>\<rparr>)))"

end
