(* ===== verification/IxgbeRxBuf.thy ===== *)
theory IxgbeRxBuf
  imports IxgbeRx
begin

text \<open>
  What the receive path stores into a packet buffer: the stores of a burst of four descriptors, with the translation of their
  flags, types, lengths, tags and hashes, come to one function of the descriptor, which is the scalar translation of ixgbe_rxtx.c
  but for the flags that the vector instructions leave out.
\<close>

section \<open>Stores\<close>

lemma rx_buf_upd_buf: "rx_buf (upd_buf m f s) x = (if x = m then f (rx_buf s m) else rx_buf s x)"
  by (auto simp: rx_buf_def upd_buf_def split: prod.splits)

lemma upd_buf_other [simp]:
  "rs_rxq (upd_buf m f s) = rs_rxq s" "rs_nic (upd_buf m f s) = rs_nic s" "rs_alloc_failed (upd_buf m f s) = rs_alloc_failed s"
  "d_pools (rs_drv (upd_buf m f s)) = d_pools (rs_drv s)"
  by (simp_all add: upd_buf_def split: prod.splits)

lemma upd_bufs_other [simp]:
  "rs_rxq (upd_bufs ms fs s) = rs_rxq s" "rs_nic (upd_bufs ms fs s) = rs_nic s" "rs_alloc_failed (upd_bufs ms fs s) = rs_alloc_failed s"
  "d_pools (rs_drv (upd_bufs ms fs s)) = d_pools (rs_drv s)"
  by (induction ms fs s rule: upd_bufs.induct) simp_all

lemma upd_bufs_frame: "m \<notin> set ms \<Longrightarrow> rx_buf (upd_bufs ms fs s) m = rx_buf s m"
  by (induction ms fs s rule: upd_bufs.induct) (auto simp: rx_buf_upd_buf)

lemma upd_bufs_once:
  "j < length ms \<Longrightarrow> length fs = length ms \<Longrightarrow> \<forall>i < length ms. i \<noteq> j \<longrightarrow> ms ! i \<noteq> ms ! j \<Longrightarrow>
   rx_buf (upd_bufs ms fs s) (ms ! j) = (fs ! j) (rx_buf s (ms ! j))"
proof (induction ms fs s arbitrary: j rule: upd_bufs.induct)
  case (1 m ms f fs s)
  show ?case
  proof (cases j)
    case 0
    have "m \<notin> set ms"
    proof
      assume "m \<in> set ms"
      then obtain i where "i < length ms" "ms ! i = m" by (auto simp: in_set_conv_nth)
      then show False using "1.prems"(3) 0 by (auto dest!: spec [of _ "Suc i"])
    qed
    then show ?thesis using 0 by (simp add: upd_bufs_frame rx_buf_upd_buf)
  next
    case (Suc j')
    have "m \<noteq> ms ! j'" using "1.prems" Suc by (auto dest!: spec [of _ 0])
    moreover have "rx_buf (upd_bufs ms fs (upd_buf m f s)) (ms ! j') = (fs ! j') (rx_buf (upd_buf m f s) (ms ! j'))"
      using "1.prems" Suc by (intro "1.IH") auto
    ultimately show ?thesis using Suc by (simp add: rx_buf_upd_buf)
  qed
qed auto

text \<open>A property of buffers that every store keeps.\<close>

lemma upd_bufs_keep:
  assumes "\<And>f x. f \<in> set fs \<Longrightarrow> P (f x) = P x"
  shows "P (rx_buf (upd_bufs ms fs s) m) = P (rx_buf s m)"
  using assms by (induction ms fs s rule: upd_bufs.induct) (auto simp: rx_buf_upd_buf)

section \<open>What a received descriptor makes of a buffer\<close>

definition rx_ol_flags :: "rx_queue \<Rightarrow> m128 \<Rightarrow> u64" where
  "rx_ol_flags q d = (scan_flags d (rq_vlan_flags q) (rq_rx_udp_csum_zero_err q) AND NOT scalar_only_flags) OR
     (if rq_using_ipsec q = 0 then 0 else ucast (vec_sec_flags d))"

definition rx_fields :: "rx_queue \<Rightarrow> m128 \<Rightarrow> mbuf \<times> rx_meta \<Rightarrow> mbuf \<times> rx_meta" where
  "rx_fields q d = (\<lambda>(b, e).
     (b\<lparr>mb_data_off := 128, mb_refcnt := 1, mb_nb_segs := 1, mb_direct := True,
        mb_pkt_len := ucast (wb_length d - ucast (rq_crc_len q)), mb_data_len := wb_length d - ucast (rq_crc_len q)\<rparr>,
      e\<lparr>rm_port := rq_port_id q, rm_ol_flags := rx_ol_flags q d,
        rm_packet_type := ixgbe_rxd_pkt_info_to_pkt_type (wb_pkt_info d) (rq_pkt_type_mask q),
        rm_vlan_tci := wb_vlan d, rm_hash := wb_rss d\<rparr>))"

definition initializer_bytes :: "u16 \<Rightarrow> m128" where
  "initializer_bytes port = bytes16 128 @ bytes16 1 @ bytes16 1 @ bytes16 port @ replicate 8 0"

definition queue_set_up :: "rx_queue \<Rightarrow> bool" where
  "queue_set_up q \<longleftrightarrow> mm_set_epi64x 0 (rq_mbuf_initializer q) = initializer_bytes (rq_port_id q) \<and> rq_vlan_flags q \<in> {0, 1, 65} \<and> rq_crc_len q \<in> {0, 4}"

lemma bytes64_le64 [simp]: "bytes64 (le64 a b c d e f g h) = [a, b, c, d, e, f, g, h]"
proof -
  have "ucast (le64 a b c d e f g h) = le32 a b c d" "ucast (drop_bit 32 (le64 a b c d e f g h)) = le32 e f g h"
    by (rule bit_word_eqI; auto simp: le64_def bit_simps dest: bit_imp_le_length)+
  then show ?thesis by (simp add: bytes64_def)
qed

lemma vec_setup_initializer:
  "mm_set_epi64x 0 (rq_mbuf_initializer (rs_rxq (ixgbe_rxq_vec_setup_default s))) = initializer_bytes (rq_port_id (rs_rxq s))"
proof -
  have "bytes64 0 = replicate 8 (0 :: u8)" by (simp add: bytes64_def bytes32_def numeral_eq_Suc)
  moreover have "bytes16 128 = [128, 0]" "bytes16 1 = [1, 0]" by (simp_all add: bytes16_def)
  moreover have "bytes16 (p :: u16) = [bytes16 p ! 0, bytes16 p ! 1]" for p by (simp add: bytes16_def)
  ultimately show ?thesis
    by (simp add: mm_set_epi64x_def of_lanes64_def ixgbe_rxq_vec_setup_default_def initializer_bytes_def Let_def
        RTE_PKTMBUF_HEADROOM_def bytes16_def)
qed

lemma csum_flags_cases: "csum_flags x1 x11 err \<in> {128, 384, 136, 272, 16, 24}"
  by (auto simp: csum_flags_def error_to_pkt_flags_map_def rx_flag_defs Let_def)

lemma flags_small:
  fixes err
  assumes "length d = 16" "(vf :: u64) \<in> {0, 1, 65}"
  defines "fl \<equiv> scan_flags d vf err AND NOT scalar_only_flags"
  shows "ucast (ucast fl :: u16) = fl" "fl AND RTE_MBUF_F_NOT_DIRECT = 0"
proof -
  define v where "v = (ucast vf :: u8)"
  have v: "v \<in> {0, 1, 65}" "vf = ucast v" using assms(2) by (auto simp: v_def)
  have "fl = (if bit (d ! 8) 3 then ucast v else 0) OR csum_flags (d ! 1) (d ! 11) err OR ip_rss_types_map ! unat (d ! 0 AND 15)"
    using assms(1) unfolding fl_def v(2) by (elim length16) (simp add: lane_scan [OF v(1)])
  then show "ucast (ucast fl :: u16) = fl" "fl AND RTE_MBUF_F_NOT_DIRECT = 0"
    using v(1) csum_flags_cases [of "d ! 1" "d ! 11" err] rss_cases [of "d ! 0"] by (auto simp: RTE_MBUF_F_NOT_DIRECT_def)
qed

lemma le64_ucast16: "le64 (ucast w) (ucast (drop_bit 8 w)) 0 0 0 0 0 0 = ucast (w :: u16)"
proof -
  have "ucast (ucast w :: u8) OR push_bit 8 (ucast (ucast (drop_bit 8 w) :: u8)) = (ucast w :: u32)"
    by (rule bit_word_eqI) (auto simp: bit_simps dest: bit_imp_le_length)
  moreover have "ucast (ucast w :: u32) = (ucast w :: u64)"
    by (rule bit_word_eqI) (auto simp: bit_simps dest: bit_imp_le_length)
  ultimately show ?thesis by (simp add: le64_def le32_def)
qed

lemma initializer_list:
  "initializer_bytes port = [128, 0, 1, 0, 1, 0, ucast port, ucast (drop_bit 8 port), 0, 0, 0, 0, 0, 0, 0, 0]"
proof -
  have "bytes16 128 = [128, 0]" "bytes16 1 = [1, 0]"
    by (simp_all add: bytes16_def)
  moreover have "replicate 8 (0 :: u8) = [0, 0, 0, 0, 0, 0, 0, 0]" by (simp add: numeral_eq_Suc)
  ultimately show ?thesis by (simp add: initializer_bytes_def bytes16_def)
qed

lemma store_rearm_flags:
  assumes "ucast (ucast fl :: u16) = fl" "fl AND RTE_MBUF_F_NOT_DIRECT = 0"
  shows "store_rearm (rearm_with_flags (initializer_bytes port) fl) (b, e) =
    (b\<lparr>mb_data_off := 128, mb_refcnt := 1, mb_nb_segs := 1, mb_direct := True\<rparr>, e\<lparr>rm_port := port, rm_ol_flags := fl\<rparr>)"
proof -
  have "rearm_with_flags (initializer_bytes port) fl =
      [128, 0, 1, 0, 1, 0, ucast port, ucast (drop_bit 8 port), ucast (ucast fl :: u16), ucast (drop_bit 8 (ucast fl :: u16)), 0, 0, 0, 0, 0, 0]"
    unfolding initializer_list rearm_with_flags_def bytes16_def by (simp add: take_Cons' drop_Cons')
  moreover have "le16 128 0 = 128" "le16 1 0 = 1" by (simp_all add: le16_def)
  ultimately show ?thesis
    using assms by (simp add: store_rearm_def le64_ucast16 Let_def)
qed

lemma store_fields1_desc:
  assumes "length d = 16"
  shows "store_fields1 (desc_to_fields1 d crc) (b, e) =
    (b\<lparr>mb_pkt_len := ucast (wb_length d - ucast crc), mb_data_len := wb_length d - ucast crc\<rparr>,
     e\<lparr>rm_packet_type := 0, rm_vlan_tci := wb_vlan d, rm_hash := wb_rss d\<rparr>)"
  unfolding fields1_agree [OF assms] store_fields1_def
  by (simp add: bytes32_def bytes16_def le32_bytes32 [of "ucast (w :: u16)" for w, simplified]) (simp add: le32_def)

definition group_fl :: "rx_queue \<Rightarrow> m128 \<Rightarrow> u64" where
  "group_fl q d = scan_flags d (rq_vlan_flags q) (rq_rx_udp_csum_zero_err q) AND NOT scalar_only_flags"

lemma fill_bufs_once:
  assumes q: "queue_set_up q" and ds: "\<forall>d \<in> set [d0, d1, d2, d3]. length d = 16" and ms: "length ms = 4"
    and j: "j < 4" "\<forall>i < 4. i \<noteq> j \<longrightarrow> ms ! i \<noteq> ms ! j"
  shows "rx_buf (fill_bufs q (mm_set_epi64x 0 (rq_mbuf_initializer q)) (ucast (rq_vlan_flags q))
      (if rq_rx_udp_csum_zero_err q = 0 then 0 else IXGBE_RXDADV_PKTTYPE_UDP) ms d0 d1 d2 d3 s) (ms ! j) =
    rx_fields q ([d0, d1, d2, d3] ! j) (rx_buf s (ms ! j))"
proof -
  let ?ds = "[d0, d1, d2, d3]"
  let ?d = "?ds ! j"
  have v: "ucast (rq_vlan_flags q) \<in> {0, 1, 65 :: u8}" "ucast (ucast (rq_vlan_flags q) :: u8) = rq_vlan_flags q"
    "rq_vlan_flags q \<in> {0, 1, 65}"
    using q by (auto simp: queue_set_up_def)
  have i16: "length (initializer_bytes (rq_port_id q)) = 16" by (simp add: initializer_list)
  have fl: "desc_to_olflags_v d0 d1 d2 d3 (initializer_bytes (rq_port_id q)) (ucast (rq_vlan_flags q))
      (if rq_rx_udp_csum_zero_err q = 0 then 0 else IXGBE_RXDADV_PKTTYPE_UDP) =
    map (\<lambda>d. rearm_with_flags (initializer_bytes (rq_port_id q)) (group_fl q d)) ?ds"
    using vector_flags_agree [OF _ _ _ _ i16 v(1), of d0 d1 d2 d3 "rq_rx_udp_csum_zero_err q"] ds v(2) by (simp add: group_fl_def)
  have pt: "desc_to_ptype_v d0 d1 d2 d3 (rq_pkt_type_mask q) =
      map (\<lambda>d. ixgbe_rxd_pkt_info_to_pkt_type (wb_pkt_info d) (rq_pkt_type_mask q)) ?ds"
    using ptypes_agree [of d0 d1 d2 d3] ds by simp
  have d16: "length ?d = 16" using j(1) ds by (auto simp: numeral_eq_Suc less_Suc_eq)
  have once: "rx_buf (upd_bufs ms fs s) (ms ! j) = (fs ! j) (rx_buf s (ms ! j))" if "length fs = 4" for fs s
    using upd_bufs_once [of j ms fs s] that ms j by simp
  have once_rev: "rx_buf (upd_bufs (rev ms) fs s) (ms ! j) = (fs ! (3 - j)) (rx_buf s (ms ! j))" if "length fs = 4" for fs s
  proof -
    have r: "rev ms ! (3 - j) = ms ! j" using ms j by (simp add: rev_nth)
    have "\<forall>i < length (rev ms). i \<noteq> 3 - j \<longrightarrow> rev ms ! i \<noteq> rev ms ! (3 - j)"
      unfolding r using ms j by (auto simp: rev_nth)
    then show ?thesis using upd_bufs_once [of "3 - j" "rev ms" fs s] that ms j r by simp
  qed
  have once_map: "rx_buf (upd_bufs ms (map f ?ds) s) (ms ! j) = f ?d (rx_buf s (ms ! j))" for f s
    using once [of "map f ?ds" s] nth_map [of j ?ds f] j(1) by simp
  define s1 where "s1 = upd_bufs ms (map (\<lambda>d. store_rearm (rearm_with_flags (initializer_bytes (rq_port_id q)) (group_fl q d))) ?ds) s"
  define s2 where "s2 = (if rq_using_ipsec q \<noteq> 0
               then upd_bufs ms (map store_ol_low (desc_to_olflags_v_ipsec d0 d1 d2 d3 (map (load_ol_low s1) ms))) s1 else s1)"
  define s3 where "s3 = upd_bufs (rev ms) (map (\<lambda>d. store_fields1 (desc_to_fields1 d (rq_crc_len q))) [d3, d2, d1, d0]) s2"
  obtain b e where be: "rx_buf s (ms ! j) = (b, e)" by fastforce
  have s1: "rx_buf s1 (ms ! j) = (b\<lparr>mb_data_off := 128, mb_refcnt := 1, mb_nb_segs := 1, mb_direct := True\<rparr>,
      e\<lparr>rm_port := rq_port_id q, rm_ol_flags := group_fl q ?d\<rparr>)"
    unfolding s1_def once_map be
    by (rule store_rearm_flags; unfold group_fl_def; rule flags_small [OF d16 v(3)])
  have s2: "rx_buf s2 (ms ! j) = (b\<lparr>mb_data_off := 128, mb_refcnt := 1, mb_nb_segs := 1, mb_direct := True\<rparr>,
      e\<lparr>rm_port := rq_port_id q, rm_ol_flags := rx_ol_flags q ?d\<rparr>)"
  proof (cases "rq_using_ipsec q = 0")
    case True
    then show ?thesis using s1 by (simp add: s2_def rx_ol_flags_def group_fl_def)
  next
    case False
    obtain m0 m1 m2 m3 where m: "ms = [m0, m1, m2, m3]" using ms by (auto simp: numeral_eq_Suc length_Suc_conv)
    have l: "desc_to_olflags_v_ipsec d0 d1 d2 d3 (map (load_ol_low s1) ms) =
        map (\<lambda>i. load_ol_low s1 (ms ! i) OR vec_sec_flags (?ds ! i)) [0, 1, 2, 3]"
      by (simp add: m ipsec_lanes numeral_eq_Suc)
    have lj: "(map store_ol_low (map (\<lambda>i. load_ol_low s1 (ms ! i) OR vec_sec_flags (?ds ! i)) [0, 1, 2, 3])) ! j =
        store_ol_low (load_ol_low s1 (ms ! j) OR vec_sec_flags ?d)"
      using j(1) by (auto simp: numeral_eq_Suc less_Suc_eq)
    have w: "(x AND NOT 0xFFFFFFFF) OR ucast (ucast x OR y :: u32) = x OR ucast y" for x :: u64 and y
    proof (rule bit_word_eqI)
      fix n
      have "bit (0xFFFFFFFF :: u64) n = (n < 32)"
        using bit_mask_iff [of 32 n, where 'a = u64] by (auto simp: mask_eq_exp_minus_1 possible_bit_def)
      then show "bit ((x AND NOT 0xFFFFFFFF) OR ucast (ucast x OR y :: u32)) n = bit (x OR ucast y) n" if "n < LENGTH(64)"
        using that by (auto simp: bit_simps dest: bit_imp_le_length)
    qed
    have "rx_buf s2 (ms ! j) = store_ol_low (load_ol_low s1 (ms ! j) OR vec_sec_flags ?d) (rx_buf s1 (ms ! j))"
      using once [of "map store_ol_low (map (\<lambda>i. load_ol_low s1 (ms ! i) OR vec_sec_flags (?ds ! i)) [0, 1, 2, 3])" s1] False
      unfolding lj s2_def l by simp
    then show ?thesis
      using False unfolding store_ol_low_def load_ol_low_def s1 by (simp add: w [simplified] rx_ol_flags_def group_fl_def)
  qed
  have r: "map (\<lambda>d. store_fields1 (desc_to_fields1 d (rq_crc_len q))) [d3, d2, d1, d0] ! (3 - j) =
      store_fields1 (desc_to_fields1 ?d (rq_crc_len q))"
    using j(1) by (auto simp: numeral_eq_Suc less_Suc_eq)
  have s3: "rx_buf s3 (ms ! j) = store_fields1 (desc_to_fields1 ?d (rq_crc_len q)) (rx_buf s2 (ms ! j))"
    unfolding s3_def using once_rev [of "map (\<lambda>d. store_fields1 (desc_to_fields1 d (rq_crc_len q))) [d3, d2, d1, d0]" s2] unfolding r by simp
  have F: "fill_bufs q (mm_set_epi64x 0 (rq_mbuf_initializer q)) (ucast (rq_vlan_flags q))
      (if rq_rx_udp_csum_zero_err q = 0 then 0 else IXGBE_RXDADV_PKTTYPE_UDP) ms d0 d1 d2 d3 s =
    upd_bufs ms (map (\<lambda>d. store_ptype (ixgbe_rxd_pkt_info_to_pkt_type (wb_pkt_info d) (rq_pkt_type_mask q))) ?ds) s3"
    using q fl pt unfolding fill_bufs_def Let_def queue_set_up_def s3_def s2_def s1_def by (simp add: o_def)
  show ?thesis
    unfolding F once_map s3 s2 store_fields1_desc [OF d16] be by (simp add: store_ptype_def rx_fields_def)
qed

end
