(* ===== verification/IxgbeRxRing.thy ===== *)
theory IxgbeRxRing
  imports IxgbeRxBuf
begin

text \<open>
  The invariant of the receive ring and what a burst reads from it. The device may write descriptors back before every load; a
  group of four loads, from the last descriptor to the first, sees a prefix of completed descriptors, each with the buffer that
  the device was given for it.
\<close>

section \<open>The invariant of the ring\<close>

text \<open>
  Descriptors are counted from the start of the queue: \<open>R\<close> of them have been received, the device has written back as many as
  its log is long, and those below \<open>armed_end\<close> hold a buffer. An index of the ring is such a number modulo its size.
\<close>

definition rx_n :: "rx_state \<Rightarrow> nat" where "rx_n s = unat (rq_nb_rx_desc (rs_rxq s))"

definition rx_done :: "rx_state \<Rightarrow> nat" where "rx_done s = length (rn_log (rs_nic s))"

definition armed_end :: "nat \<Rightarrow> rx_state \<Rightarrow> nat" where
  "armed_end R s = R + rx_n s - unat (rq_rxrearm_nb (rs_rxq s))"

definition ring_buf :: "rx_state \<Rightarrow> nat \<Rightarrow> nat" where
  "ring_buf s a = the (rq_sw_ring (rs_rxq s) ! (a mod rx_n s))"

definition ring_bufs :: "nat \<Rightarrow> rx_state \<Rightarrow> nat list" where
  "ring_bufs R s = map (ring_buf s) [R..<armed_end R s]"

definition rx_pool :: "rx_state \<Rightarrow> nat list" where
  "rx_pool s = d_pools (rs_drv s) (rq_mb_pool (rs_rxq s))"

definition buf_dma :: "rx_state \<Rightarrow> nat \<Rightarrow> u64" where
  "buf_dma s m = mb_buf_iova (d_mbufs (rs_drv s) m) + RTE_PKTMBUF_HEADROOM"

definition armed_desc :: "u64 \<Rightarrow> m128" where "armed_desc a = bytes64 a @ bytes64 0"

abbreviation rx_ring :: "rx_state \<Rightarrow> m128 list" where "rx_ring s \<equiv> rn_ring (rs_nic s)"
abbreviation rx_sw :: "rx_state \<Rightarrow> nat option list" where "rx_sw s \<equiv> rq_sw_ring (rs_rxq s)"
abbreviation rx_fake :: "rx_state \<Rightarrow> nat" where "rx_fake s \<equiv> rq_fake_mbuf (rs_rxq s)"
abbreviation rx_log :: "rx_state \<Rightarrow> (u64 \<times> m128) list" where "rx_log s \<equiv> rn_log (rs_nic s)"

definition rx_geom :: "rx_state \<Rightarrow> bool" where
  "rx_geom s \<longleftrightarrow> rx_n s \<in> {64, 128, 256, 512, 1024, 2048, 4096} \<and>
     rx_n s + 32 \<le> length (rx_ring s) \<and> rx_n s + 32 \<le> length (rx_sw s) \<and>
     (\<forall>d \<in> set (rx_ring s). length d = 16) \<and> (\<forall>i < rx_n s + 32. rx_sw s ! i \<noteq> None) \<and>
     (\<forall>i \<in> {rx_n s..<rx_n s + 32}. \<not> desc_done (rx_ring s ! i) \<and> rx_sw s ! i = Some (rx_fake s))"

definition rx_pos :: "nat \<Rightarrow> rx_state \<Rightarrow> bool" where
  "rx_pos R s \<longleftrightarrow> R \<le> rx_done s \<and> rx_done s < armed_end R s \<and> unat (rq_rxrearm_nb (rs_rxq s)) \<le> rx_n s \<and>
     32 dvd armed_end R s \<and> unat (rq_rx_tail (rs_rxq s)) = R mod rx_n s \<and>
     unat (rq_rxrearm_start (rs_rxq s)) = armed_end R s mod rx_n s \<and>
     rn_head (rs_nic s) = rx_done s mod rx_n s \<and> unat (rn_rdt (rs_nic s)) = (armed_end R s - 1) mod rx_n s"

definition rx_descs :: "nat \<Rightarrow> rx_state \<Rightarrow> bool" where
  "rx_descs R s \<longleftrightarrow>
     (\<forall>a. R \<le> a \<longrightarrow> a < rx_done s \<longrightarrow> rx_ring s ! (a mod rx_n s) = snd (rx_log s ! a) \<and> desc_done (snd (rx_log s ! a)) \<and>
        full_desc (snd (rx_log s ! a)) \<and> fst (rx_log s ! a) = buf_dma s (ring_buf s a)) \<and>
     (\<forall>a. rx_done s \<le> a \<longrightarrow> a < armed_end R s \<longrightarrow> rx_ring s ! (a mod rx_n s) = armed_desc (buf_dma s (ring_buf s a)))"

definition rx_own :: "nat \<Rightarrow> rx_state \<Rightarrow> bool" where
  "rx_own R s \<longleftrightarrow> distinct (rx_pool s @ ring_bufs R s) \<and> rx_fake s \<notin> set (rx_pool s @ ring_bufs R s)"

definition rx_inv :: "nat \<Rightarrow> rx_state \<Rightarrow> bool" where
  "rx_inv R s \<longleftrightarrow> queue_set_up (rs_rxq s) \<and> rx_geom s \<and> rx_pos R s \<and> rx_descs R s \<and> rx_own R s"

text \<open>
  What keeps a burst from reading the descriptors that were received but not refilled: either it cannot reach them, or the
  first four of them have been cleared.
\<close>

definition rx_guard :: "nat \<Rightarrow> rx_state \<Rightarrow> bool" where
  "rx_guard R s \<longleftrightarrow> R + 32 \<le> armed_end R s \<or>
     (\<forall>i < 4. \<not> desc_done (rx_ring s ! (armed_end R s mod rx_n s + i)) \<and> rx_sw s ! (armed_end R s mod rx_n s + i) = Some (rx_fake s))"

definition rx_ok :: "nat \<Rightarrow> rx_state \<Rightarrow> bool" where
  "rx_ok R s \<longleftrightarrow> rx_inv R s \<and> rx_guard R s"

section \<open>Arithmetic of the ring\<close>

lemma mod_neq: "a < b \<Longrightarrow> b < a + n \<Longrightarrow> a mod n \<noteq> b mod (n :: nat)"
proof
  assume "a < b" "b < a + n" "a mod n = b mod n"
  then have "n dvd b - a" by (metis mod_eq_dvd_iff_nat less_imp_le)
  then show False using \<open>a < b\<close> \<open>b < a + n\<close> by (auto dest: dvd_imp_le)
qed

lemma geom_n: "rx_geom s \<Longrightarrow> 64 \<le> rx_n s \<and> rx_n s \<le> 4096 \<and> 32 dvd rx_n s \<and> (\<exists>k. rx_n s = 2 ^ k)"
proof -
  assume "rx_geom s"
  then have n: "rx_n s \<in> {64, 128, 256, 512, 1024, 2048, 4096}" by (simp add: rx_geom_def)
  have "(64 :: nat) = 2 ^ 6" "(128 :: nat) = 2 ^ 7" "(256 :: nat) = 2 ^ 8" "(512 :: nat) = 2 ^ 9" "(1024 :: nat) = 2 ^ 10"
    "(2048 :: nat) = 2 ^ 11" "(4096 :: nat) = 2 ^ 12" by simp_all
  then have "rx_n s \<in> {2 ^ 6, 2 ^ 7, 2 ^ 8, 2 ^ 9, 2 ^ 10, 2 ^ 11, 2 ^ 12}" using n by simp
  then have "\<exists>k. rx_n s = 2 ^ k" by (elim insertE emptyE) blast+
  then show ?thesis using n by auto
qed

lemma block_mod:
  assumes "32 dvd (S :: nat)" "32 dvd n" "i < 32" "0 < n"
  shows "S mod n + i < n" "(S + i) mod n = S mod n + i"
proof -
  have "32 dvd S mod n" using assms by (simp add: dvd_mod)
  then obtain q where q: "S mod n = 32 * q" by auto
  obtain p where p: "n = 32 * p" using assms by auto
  have "32 * q < 32 * p" using q p assms by (metis mod_less_divisor)
  then show l: "S mod n + i < n" using q p assms by simp
  then show "(S + i) mod n = S mod n + i" by (metis mod_add_left_eq mod_less)
qed

lemma bytes64_length [simp]: "length (bytes64 w) = 8" by (simp add: bytes64_def bytes32_def)

lemma le64_bytes64:
  "le64 (ucast (ucast a :: u32)) (ucast (drop_bit 8 (ucast a :: u32))) (ucast (drop_bit 16 (ucast a :: u32)))
      (ucast (drop_bit 24 (ucast a :: u32))) (ucast (ucast (drop_bit 32 a) :: u32)) (ucast (drop_bit 8 (ucast (drop_bit 32 a) :: u32)))
      (ucast (drop_bit 16 (ucast (drop_bit 32 a) :: u32))) (ucast (drop_bit 24 (ucast (drop_bit 32 a) :: u32))) = a"
  unfolding le64_def le32_bytes32
  by (rule bit_word_eqI) (auto simp: bit_simps dest: bit_imp_le_length)

lemma lanes64_bytes64: "lanes64 (bytes64 w @ xs) = w # lanes64 xs"
  using le64_bytes64 [of w] by (simp add: bytes64_def bytes32_def)

lemma armed_desc_facts [simp]:
  "length (armed_desc a) = 16" "\<not> desc_done (armed_desc a)" "desc_addr (armed_desc a) = a"
proof -
  show "length (armed_desc a) = 16" by (simp add: armed_desc_def)
  show "\<not> desc_done (armed_desc a)"
    by (simp add: armed_desc_def desc_done_def wb_status_error_def bytes64_def bytes32_def le32_def)
  show "desc_addr (armed_desc a) = a"
    by (simp add: armed_desc_def desc_addr_def lanes64_bytes64)
qed

lemma rearm_desc_armed: "rearm_desc va iova = armed_desc (iova + RTE_PKTMBUF_HEADROOM)"
proof -
  have "(- 1 :: u64) = le64 255 255 255 255 255 255 255 255" by (simp add: le64_def le32_def)
  then have b: "bytes64 (- 1) = [255, 255, 255, 255, 255, 255, 255, 255]" "bytes64 0 = [0, 0, 0, 0, 0, 0, 0, 0]"
    by (simp_all only: bytes64_le64) (simp add: bytes64_def bytes32_def)
  obtain x0 x1 x2 x3 x4 x5 x6 x7 where x: "bytes64 (iova + RTE_PKTMBUF_HEADROOM) = [x0, x1, x2, x3, x4, x5, x6, x7]"
    by (simp add: bytes64_def bytes32_def)
  have "lanes64 (bytes64 iova @ bytes64 iova) = [iova, iova]"
    using lanes64_bytes64 [of iova "bytes64 iova"] lanes64_bytes64 [of iova "[]"] by simp
  moreover have "lanes64 (bytes64 h @ bytes64 h @ []) = [h, h]" for h
    using lanes64_bytes64 [of h "bytes64 h"] lanes64_bytes64 [of h "[]"] by simp
  ultimately show ?thesis
    by (simp add: rearm_desc_def Let_def mm_unpackhi_epi64_def mm_set_epi64x_def of_lanes64_def mm_add_epi64_def armed_desc_def
        mm_and_si128_def x b and_255)
qed

section \<open>Steps of the device\<close>

lemma rx_stateE: "s\<lparr>rs_nic := rs_nic s\<rparr> = (s :: rx_state)"
  by simp

lemma rx_ok_facts:
  assumes "rx_ok R s"
  shows "queue_set_up (rs_rxq s)" "rx_geom s" "rx_pos R s" "rx_descs R s" "rx_own R s" "rx_guard R s" "rx_inv R s"
  using assms by (auto simp: rx_ok_def rx_inv_def)

lemma nic_step_inv:
  assumes "rx_ok R s" "nic_step (rx_n s) (rs_nic s) c"
  defines "s' \<equiv> s\<lparr>rs_nic := c\<rparr>"
  shows "rx_ok R s' \<and> (\<exists>l. rx_log s' = rx_log s @ l)"
proof -
  note ok = rx_ok_facts [OF assms(1)]
  obtain d where d: "rn_head (rs_nic s) \<noteq> unat (rn_rdt (rs_nic s))" "length d = 16" "desc_done d" "full_desc d"
    and c: "c = (rs_nic s)\<lparr>rn_ring := (rx_ring s)[rn_head (rs_nic s) := d], rn_head := (rn_head (rs_nic s) + 1) mod rx_n s,
      rn_log := rx_log s @ [(desc_addr (rx_ring s ! rn_head (rs_nic s)), d)]\<rparr>"
    using assms(2) by (cases rule: nic_step.cases) auto
  define H where "H = rx_done s"
  define S where "S = armed_end R s"
  define n where "n = rx_n s"
  have n: "64 \<le> n" using geom_n [OF ok(2)] by (simp add: n_def)
  have pos: "R \<le> H" "H < S" "S \<le> R + n" "rn_head (rs_nic s) = H mod n" "unat (rn_rdt (rs_nic s)) = (S - 1) mod n" "32 dvd S"
    using ok(3) by (auto simp: rx_pos_def H_def S_def n_def armed_end_def)
  have HS: "H < S - 1" using d(1) pos by (cases "H = S - 1") auto
  have same [simp]: "rs_rxq s' = rs_rxq s" "rs_drv s' = rs_drv s" "rx_n s' = n" "armed_end R s' = S" "rx_pool s' = rx_pool s"
      "ring_bufs R s' = ring_bufs R s" "ring_buf s' = ring_buf s" "buf_dma s' = buf_dma s"
    by (simp_all add: s'_def rx_n_def armed_end_def S_def n_def rx_pool_def ring_bufs_def ring_buf_def buf_dma_def fun_eq_iff)
  have ring': "rx_ring s' = (rx_ring s)[H mod n := d]" and log': "rx_log s' = rx_log s @ [(desc_addr (rx_ring s ! (H mod n)), d)]"
    and H': "rx_done s' = Suc H" and head': "rn_head (rs_nic s') = (H mod n + 1) mod n" and rdt': "rn_rdt (rs_nic s') = rn_rdt (rs_nic s)"
    using c pos(4) by (simp_all add: s'_def rx_done_def H_def n_def)
  have Hn: "H mod n < n" using n by simp
  have len: "H mod n < length (rx_ring s)" using ok(2) Hn by (simp add: rx_geom_def n_def)
  have other: "rx_ring s' ! i = rx_ring s ! i" if "i \<noteq> H mod n" for i using that by (simp add: ring')
  have aH: "a mod n \<noteq> H mod n" if "R \<le> a" "a < S" "a \<noteq> H" for a
    using that pos mod_neq [of a H n] mod_neq [of H a n] by (cases "a < H") auto
  have addr: "desc_addr (rx_ring s ! (H mod n)) = buf_dma s (ring_buf s H)"
    using ok(4) pos HS by (simp add: rx_descs_def H_def S_def n_def)
  have geom: "rx_geom s'"
    using ok(2) d(2) len Hn by (auto simp: rx_geom_def ring' n_def [symmetric] nth_list_update dest!: set_update_subset_insert [THEN subsetD])
  have "rx_pos R s'"
    using ok(3) HS pos by (auto simp: rx_pos_def H' head' rdt' mod_simps S_def n_def H_def)
  moreover have "rx_descs R s'"
    unfolding rx_descs_def
  proof (intro conjI allI impI)
    fix a
    assume a: "R \<le> a" "a < rx_done s'"
    have "a = H \<or> a < H" using a H' by auto
    then show "rx_ring s' ! (a mod rx_n s') = snd (rx_log s' ! a)" "desc_done (snd (rx_log s' ! a))" "full_desc (snd (rx_log s' ! a))"
      "fst (rx_log s' ! a) = buf_dma s' (ring_buf s' a)"
      using ok(4) a d(3,4) addr aH [of a] pos HS len
      by (auto simp: rx_descs_def log' nth_append ring' H_def rx_done_def n_def S_def)
  next
    fix a
    assume "rx_done s' \<le> a" "a < armed_end R s'"
    then show "rx_ring s' ! (a mod rx_n s') = armed_desc (buf_dma s' (ring_buf s' a))"
      using ok(4) aH [of a] pos by (auto simp: rx_descs_def other H' H_def S_def n_def)
  qed
  moreover have "rx_own R s'" using ok(5) by (simp add: rx_own_def)
  moreover have "rx_guard R s'"
  proof (cases "R + 32 \<le> S")
    case False
    have "S mod n + i \<noteq> H mod n" if "i < 4" for i
      using mod_neq [of H "S + i" n] block_mod [of S n i] pos(6) geom_n [OF ok(2)] that False pos n by (auto simp: n_def)
    then show ?thesis using ok(6) False by (simp add: rx_guard_def other S_def [symmetric] n_def [symmetric])
  qed (simp add: rx_guard_def)
  ultimately show ?thesis using ok(1) geom by (simp add: rx_ok_def rx_inv_def log')
qed

text \<open>What a burst leaves alone while the device writes descriptors back.\<close>

definition rx_adv :: "nat \<Rightarrow> rx_state \<Rightarrow> rx_state \<Rightarrow> bool" where
  "rx_adv R s s' \<longleftrightarrow> rx_ok R s' \<and> s' = s\<lparr>rs_nic := rs_nic s'\<rparr> \<and> (\<exists>l. rx_log s' = rx_log s @ l)"

lemma rx_adv_refl: "rx_ok R s \<Longrightarrow> rx_adv R s s"
  by (simp add: rx_adv_def)

lemma rx_adv_trans:
  assumes "rx_adv R s t" "rx_adv R t u"
  shows "rx_adv R s u"
proof -
  obtain l l' where l: "rx_log t = rx_log s @ l" "rx_log u = rx_log t @ l'" using assms by (auto simp: rx_adv_def)
  have "u = s\<lparr>rs_nic := rs_nic u\<rparr>"
  proof -
    have "t = s\<lparr>rs_nic := rs_nic t\<rparr>" "u = t\<lparr>rs_nic := rs_nic u\<rparr>" using assms by (simp_all add: rx_adv_def)
    then show ?thesis by (metis rx_state.surjective rx_state.update_convs(4) rx_state.ext_inject)
  qed
  then show ?thesis using assms l by (simp add: rx_adv_def)
qed

lemma device_adv:
  assumes "rx_ok R s" "(nic_step (rx_n s))\<^sup>*\<^sup>* (rs_nic s) c"
  shows "rx_adv R s (s\<lparr>rs_nic := c\<rparr>)"
  using assms(2)
proof (induction rule: rtranclp_induct)
  case base
  then show ?case using assms(1) by (simp add: rx_adv_def)
next
  case (step b c)
  have ok: "rx_ok R (s\<lparr>rs_nic := b\<rparr>)" using step.IH by (simp add: rx_adv_def)
  have "nic_step (rx_n (s\<lparr>rs_nic := b\<rparr>)) (rs_nic (s\<lparr>rs_nic := b\<rparr>)) c" using step.hyps(2) by (simp add: rx_n_def)
  from nic_step_inv [OF ok this] have "rx_adv R (s\<lparr>rs_nic := b\<rparr>) (s\<lparr>rs_nic := c\<rparr>)" by (simp add: rx_adv_def)
  then show ?case using step.IH rx_adv_trans by blast
qed

lemma rx_load_adv:
  assumes "rx_ok R s" "device_ok (rx_n s) dev" "rx_load dev t i s = (s', d)"
  shows "rx_adv R s s'" "d = rx_ring s' ! i"
proof -
  have "(nic_step (rx_n s))\<^sup>*\<^sup>* (rs_nic s) (dev t (rs_nic s))" using assms(2) by (simp add: device_ok_def)
  from device_adv [OF assms(1) this] show "rx_adv R s s'" "d = rx_ring s' ! i"
    using assms(3) by (auto simp: rx_load_def Let_def)
qed

lemma rx_adv_same:
  assumes "rx_adv R s s'"
  shows "rx_ok R s'" "rs_rxq s' = rs_rxq s" "rs_drv s' = rs_drv s" "rx_buf s' = rx_buf s" "rx_n s' = rx_n s"
    "armed_end R s' = armed_end R s" "ring_buf s' = ring_buf s" "rx_done s \<le> rx_done s'"
    "a < rx_done s \<Longrightarrow> rx_log s' ! a = rx_log s ! a"
proof -
  obtain c where c: "s' = s\<lparr>rs_nic := c\<rparr>" using assms unfolding rx_adv_def by metis
  obtain l where l: "rx_log s' = rx_log s @ l" using assms by (auto simp: rx_adv_def)
  show "rx_ok R s'" using assms by (simp add: rx_adv_def)
  show "rs_rxq s' = rs_rxq s" "rs_drv s' = rs_drv s" "rx_buf s' = rx_buf s" "rx_n s' = rx_n s"
    "armed_end R s' = armed_end R s" "ring_buf s' = ring_buf s"
    by (simp_all add: c rx_buf_def rx_n_def armed_end_def ring_buf_def fun_eq_iff)
  show "rx_done s \<le> rx_done s'" "a < rx_done s \<Longrightarrow> rx_log s' ! a = rx_log s ! a"
    using l by (simp_all add: rx_done_def nth_append)
qed

section \<open>One load\<close>

text \<open>
  A descriptor of the group at the offset \<open>g\<close> shows as completed iff the device has written it back; then it is the one
  of the log, for the buffer of the ring. The other buffers of the group are of the ring or the fake one.
\<close>

lemma group_load:
  assumes ok: "rx_ok R s" and g: "g \<le> p" "p < g + 4" "g + 4 \<le> 32" "R + g \<le> rx_done s"
  shows "desc_done (rx_ring s ! (R mod rx_n s + p)) \<longleftrightarrow> R mod rx_n s + p < rx_n s \<and> R + p < rx_done s"
    "R mod rx_n s + p < rx_n s \<Longrightarrow> R + p < rx_done s \<Longrightarrow> rx_ring s ! (R mod rx_n s + p) = snd (rx_log s ! (R + p))"
    "rx_sw s ! (R mod rx_n s + p) =
      Some (if R mod rx_n s + p < rx_n s \<and> R + p < armed_end R s then ring_buf s (R + p) else rx_fake s)"
    "length (rx_ring s ! (R mod rx_n s + p)) = 16"
    "R mod rx_n s + p < length (rx_ring s)" "R mod rx_n s + p < length (rx_sw s)"
proof -
  note f = rx_ok_facts [OF ok]
  define n where "n = rx_n s"
  define S where "S = armed_end R s"
  have n: "64 \<le> n" "32 dvd n" using geom_n [OF f(2)] by (auto simp: n_def)
  have pos: "R \<le> rx_done s" "rx_done s < S" "32 dvd S" "S \<le> R + n" using f(3) by (auto simp: rx_pos_def S_def armed_end_def n_def)
  have Rn: "R mod n < n" using n by simp
  have p: "R mod n + p < n + 32" using Rn g by simp
  have len: "n + 32 \<le> length (rx_ring s)" "n + 32 \<le> length (rx_sw s)" using f(2) by (auto simp: rx_geom_def n_def)
  show l: "R mod rx_n s + p < length (rx_ring s)" "R mod rx_n s + p < length (rx_sw s)" using p len by (simp_all add: n_def)
  show "length (rx_ring s ! (R mod rx_n s + p)) = 16" using f(2) l nth_mem [OF l(1)] by (auto simp: rx_geom_def)
  have idx: "R mod n + p = (R + p) mod n" if "R mod n + p < n" using that by (metis mod_add_left_eq mod_less)
  have extra: "\<not> desc_done (rx_ring s ! (R mod n + p)) \<and> rx_sw s ! (R mod n + p) = Some (rx_fake s)" if "\<not> R mod n + p < n"
    using f(2) p that by (auto simp: rx_geom_def n_def)
  have stale: "\<not> desc_done (rx_ring s ! (R mod n + p)) \<and> rx_sw s ! (R mod n + p) = Some (rx_fake s)"
    if "R mod n + p < n" "S \<le> R + p"
  proof -
    have i: "R + p - S < 4" "R + p = S + (R + p - S)" using that g pos by auto
    have "(R + p) mod n = S mod n + (R + p - S)" using block_mod(2) [of S n "R + p - S"] i pos n by simp
    moreover have "\<not> R + 32 \<le> S" using that g by simp
    ultimately show ?thesis using f(6) i(1) idx [OF that(1)] by (simp add: rx_guard_def S_def n_def)
  qed
  have armed: "\<not> desc_done (rx_ring s ! (R mod n + p))" if "R mod n + p < n" "rx_done s \<le> R + p" "R + p < S"
    using f(4) that idx by (simp add: rx_descs_def S_def n_def)
  have fin: "rx_ring s ! (R mod n + p) = snd (rx_log s ! (R + p)) \<and> desc_done (rx_ring s ! (R mod n + p))"
    if "R mod n + p < n" "R + p < rx_done s"
    using f(4) that idx by (simp add: rx_descs_def n_def)
  show "desc_done (rx_ring s ! (R mod rx_n s + p)) \<longleftrightarrow> R mod rx_n s + p < rx_n s \<and> R + p < rx_done s"
    using extra stale armed fin pos unfolding n_def by (metis not_le)
  show "rx_ring s ! (R mod rx_n s + p) = snd (rx_log s ! (R + p))" if "R mod rx_n s + p < rx_n s" "R + p < rx_done s"
    using fin that by (simp add: n_def)
  have "rx_sw s ! (R mod n + p) = Some (ring_buf s (R + p))" if "R mod n + p < n" "R + p < S"
    using f(2) p that idx by (auto simp: rx_geom_def n_def ring_buf_def)
  then show "rx_sw s ! (R mod rx_n s + p) =
      Some (if R mod rx_n s + p < rx_n s \<and> R + p < armed_end R s then ring_buf s (R + p) else rx_fake s)"
    using extra stale by (cases "R mod n + p < n") (auto simp: n_def S_def not_less)
qed

section \<open>One group\<close>

lemma upd_bufs_iova:
  assumes "\<And>f x. f \<in> set fs \<Longrightarrow> mb_buf_iova (fst (f x)) = mb_buf_iova (fst x)"
  shows "mb_buf_iova (d_mbufs (rs_drv (upd_bufs ms fs s)) m) = mb_buf_iova (d_mbufs (rs_drv s) m)"
  using upd_bufs_keep [of fs "\<lambda>x. mb_buf_iova (fst x)" ms s m] assms by (simp add: rx_buf_def)

lemma store_iova [simp]:
  "mb_buf_iova (fst (store_rearm b x)) = mb_buf_iova (fst x)" "mb_buf_iova (fst (store_ol_low w x)) = mb_buf_iova (fst x)"
  "mb_buf_iova (fst (store_fields1 b x)) = mb_buf_iova (fst x)" "mb_buf_iova (fst (store_ptype t x)) = mb_buf_iova (fst x)"
  by (simp_all add: store_rearm_def store_ol_low_def store_fields1_def store_ptype_def Let_def split: prod.splits)

lemma fill_bufs_same [simp]:
  "rs_rxq (fill_bufs q mi vf udp ms d0 d1 d2 d3 s) = rs_rxq s" "rs_nic (fill_bufs q mi vf udp ms d0 d1 d2 d3 s) = rs_nic s"
  "rs_alloc_failed (fill_bufs q mi vf udp ms d0 d1 d2 d3 s) = rs_alloc_failed s"
  "d_pools (rs_drv (fill_bufs q mi vf udp ms d0 d1 d2 d3 s)) = d_pools (rs_drv s)"
  "mb_buf_iova (d_mbufs (rs_drv (fill_bufs q mi vf udp ms d0 d1 d2 d3 s)) m) = mb_buf_iova (d_mbufs (rs_drv s) m)"
proof -
  show "rs_rxq (fill_bufs q mi vf udp ms d0 d1 d2 d3 s) = rs_rxq s" "rs_nic (fill_bufs q mi vf udp ms d0 d1 d2 d3 s) = rs_nic s"
    "rs_alloc_failed (fill_bufs q mi vf udp ms d0 d1 d2 d3 s) = rs_alloc_failed s"
    "d_pools (rs_drv (fill_bufs q mi vf udp ms d0 d1 d2 d3 s)) = d_pools (rs_drv s)"
    by (simp_all add: fill_bufs_def Let_def)
  have i: "mb_buf_iova (d_mbufs (rs_drv (upd_bufs ms (map f xs) s)) m) = mb_buf_iova (d_mbufs (rs_drv s) m)"
    if "\<And>y x. mb_buf_iova (fst (f y x)) = mb_buf_iova (fst x)" for f :: "'z \<Rightarrow> mbuf \<times> rx_meta \<Rightarrow> mbuf \<times> rx_meta" and xs s ms
    by (rule upd_bufs_iova) (use that in auto)
  show "mb_buf_iova (d_mbufs (rs_drv (fill_bufs q mi vf udp ms d0 d1 d2 d3 s)) m) = mb_buf_iova (d_mbufs (rs_drv s) m)"
    unfolding fill_bufs_def Let_def by (simp only: i store_iova split: if_split) simp
qed

definition buf_link :: "mbuf \<Rightarrow> nat option \<times> nat" where "buf_link b = (mb_next b, mb_pool b)"

lemma store_link [simp]:
  "buf_link (fst (store_rearm b x)) = buf_link (fst x)" "buf_link (fst (store_ol_low w x)) = buf_link (fst x)"
  "buf_link (fst (store_fields1 b x)) = buf_link (fst x)" "buf_link (fst (store_ptype t x)) = buf_link (fst x)"
  by (simp_all add: buf_link_def store_rearm_def store_ol_low_def store_fields1_def store_ptype_def Let_def split: prod.splits)

lemma fill_bufs_link: "buf_link (d_mbufs (rs_drv (fill_bufs q mi vf udp ms d0 d1 d2 d3 s)) m) = buf_link (d_mbufs (rs_drv s) m)"
proof -
  have i: "buf_link (d_mbufs (rs_drv (upd_bufs ms (map f xs) s)) m) = buf_link (d_mbufs (rs_drv s) m)"
    if "\<And>y x. buf_link (fst (f y x)) = buf_link (fst x)" for f :: "'z \<Rightarrow> mbuf \<times> rx_meta \<Rightarrow> mbuf \<times> rx_meta" and xs s ms
    using upd_bufs_keep [of "map f xs" "\<lambda>x. buf_link (fst x)" ms s m] that by (auto simp: rx_buf_def)
  show ?thesis unfolding fill_bufs_def Let_def by (simp only: i store_link split: if_split) simp
qed

lemma fill_bufs_frame: "m \<notin> set ms \<Longrightarrow> rx_buf (fill_bufs q mi vf udp ms d0 d1 d2 d3 s) m = rx_buf s m"
  by (simp add: fill_bufs_def Let_def upd_bufs_frame)

lemma rx_ok_cong:
  assumes "rs_rxq s' = rs_rxq s" "rs_nic s' = rs_nic s" "d_pools (rs_drv s') = d_pools (rs_drv s)"
    "\<And>m. mb_buf_iova (d_mbufs (rs_drv s') m) = mb_buf_iova (d_mbufs (rs_drv s) m)"
  shows "rx_ok R s' = rx_ok R s" "ring_buf s' = ring_buf s" "rx_n s' = rx_n s" "armed_end R s' = armed_end R s" "rx_done s' = rx_done s"
    "buf_dma s' = buf_dma s"
proof -
  show "ring_buf s' = ring_buf s" "rx_n s' = rx_n s" "armed_end R s' = armed_end R s" "rx_done s' = rx_done s" "buf_dma s' = buf_dma s"
    using assms by (simp_all add: ring_buf_def fun_eq_iff rx_n_def armed_end_def rx_done_def buf_dma_def)
  then show "rx_ok R s' = rx_ok R s"
    using assms(1-3) by (simp add: rx_ok_def rx_inv_def rx_geom_def rx_pos_def rx_descs_def rx_own_def rx_guard_def rx_pool_def ring_bufs_def)
qed

text \<open>
  What a part of the burst has done from the offset \<open>pos\<close> on: the first \<open>k\<close> buffers of \<open>ms\<close> are those of the ring, filled from
  the descriptors of the log; buffers outside this part of the ring are untouched.
\<close>

definition delivers :: "nat \<Rightarrow> nat \<Rightarrow> rx_state \<Rightarrow> rx_state \<Rightarrow> nat list \<Rightarrow> u8 list \<Rightarrow> nat \<Rightarrow> bool" where
  "delivers R pos s s' ms es k \<longleftrightarrow>
     rx_ok R s' \<and> rs_rxq s' = rs_rxq s \<and> d_pools (rs_drv s') = d_pools (rs_drv s) \<and> (\<exists>l. rx_log s' = rx_log s @ l) \<and>
     k \<le> length ms \<and> length es = length ms \<and> R + pos + k \<le> rx_done s' \<and> R mod rx_n s + pos + k \<le> rx_n s \<and>
     (\<forall>j < k. ms ! j = ring_buf s (R + pos + j) \<and>
        rx_buf s' (ms ! j) = rx_fields (rs_rxq s) (snd (rx_log s' ! (R + pos + j))) (rx_buf s (ms ! j)) \<and>
        es ! j = (if desc_eop (snd (rx_log s' ! (R + pos + j))) then 0 else 2)) \<and>
     (\<forall>m. m \<notin> set ms \<longrightarrow> rx_buf s' m = rx_buf s m) \<and>
     set ms \<subseteq> insert (rx_fake s) (ring_buf s ` {R + pos..<armed_end R s}) \<and>
     (\<forall>m. buf_link (d_mbufs (rs_drv s') m) = buf_link (d_mbufs (rs_drv s) m))"

lemma count_prefix:
  assumes "\<And>j. j < 4 \<Longrightarrow> P ([d0, d1, d2, d3] ! j) \<longleftrightarrow> j < k" "k \<le> 4"
  shows "length (filter P [d0, d1, d2, d3]) = k"
proof -
  have "P d0 = (0 < k)" "P d1 = (1 < k)" "P d2 = (2 < k)" "P d3 = (3 < k)"
    using assms(1) [of 0] assms(1) [of 1] assms(1) [of 2] assms(1) [of 3] by simp_all
  then show ?thesis using assms(2) by (auto simp: numeral_eq_Suc le_Suc_eq)
qed

lemma ring_buf_real:
  assumes "rx_ok R s" "R \<le> a" "a < armed_end R s"
  shows "ring_buf s a \<noteq> rx_fake s"
proof -
  have "rx_fake s \<notin> set (ring_bufs R s)" using rx_ok_facts(5) [OF assms(1)] by (auto simp: rx_own_def)
  moreover have "ring_buf s a \<in> set (ring_bufs R s)" using assms by (simp add: ring_bufs_def)
  ultimately show ?thesis by auto
qed

lemma ring_buf_inj:
  assumes "rx_ok R s" "R \<le> a" "a < armed_end R s" "R \<le> b" "b < armed_end R s" "a \<noteq> b"
  shows "ring_buf s a \<noteq> ring_buf s b"
proof -
  have "distinct (ring_bufs R s)" using rx_ok_facts(5) [OF assms(1)] by (simp add: rx_own_def)
  then show ?thesis using assms by (auto simp: ring_bufs_def distinct_map inj_on_def)
qed

abbreviation burst_init :: "rx_queue \<Rightarrow> m128" where "burst_init q \<equiv> mm_set_epi64x 0 (rq_mbuf_initializer q)"
abbreviation burst_udp :: "rx_queue \<Rightarrow> u16" where
  "burst_udp q \<equiv> (if rq_rx_udp_csum_zero_err q = 0 then 0 else IXGBE_RXDADV_PKTTYPE_UDP)"

lemma those_take4:
  assumes "i + 4 \<le> length xs" "\<And>j. j < 4 \<Longrightarrow> xs ! (i + j) = Some (f j)"
  shows "those (take 4 (drop i xs)) = Some [f 0, f 1, f 2, f 3]"
proof -
  have "take 4 (drop i xs) = map Some [f 0, f 1, f 2, f 3]"
  proof (rule nth_equalityI)
    show "length (take 4 (drop i xs)) = length (map Some [f 0, f 1, f 2, f 3])" using assms(1) by simp
    fix j
    assume j: "j < length (take 4 (drop i xs))"
    then have "j = 0 \<or> j = 1 \<or> j = 2 \<or> j = 3" by auto
    then show "take 4 (drop i xs) ! j = map Some [f 0, f 1, f 2, f 3] ! j"
      using assms(1) assms(2) [of j] j by auto
  qed
  then show ?thesis by simp
qed

lemma recv_group_delivers:
  assumes ok: "rx_ok R s" and dev: "device_ok (rx_n s) dev"
    and pos: "pos + 4 \<le> 32" "R + pos \<le> rx_done s" "R mod rx_n s + pos \<le> rx_n s"
  shows "\<exists>s' ms es k. recv_group dev (burst_init (rs_rxq s)) (ucast (rq_vlan_flags (rs_rxq s))) (burst_udp (rs_rxq s)) pos s = Inr (s', ms, es, k) \<and>
    delivers R pos s s' ms es k \<and> length ms = 4 \<and> k \<le> 4 \<and>
    (R + pos < rx_done s \<longrightarrow> R mod rx_n s + pos < rx_n s \<longrightarrow> 0 < k)"
proof -
  define n where "n = rx_n s"
  define i where "i = R mod n + pos"
  obtain s3 d3 where l3: "rx_load dev (pos + 1) (i + 3) s = (s3, d3)" by fastforce
  obtain s2 d2 where l2: "rx_load dev (pos + 2) (i + 2) s3 = (s2, d2)" by fastforce
  obtain s1 d1 where l1: "rx_load dev (pos + 3) (i + 1) s2 = (s1, d1)" by fastforce
  obtain s0 d0 where l0: "rx_load dev (pos + 4) i s1 = (s0, d0)" by fastforce
  note a3 = rx_load_adv [OF ok dev l3]
  note e3 = rx_adv_same [OF a3(1)]
  have "device_ok (rx_n s3) dev" using dev e3 by simp
  note a2 = rx_load_adv [OF e3(1) this l2]
  note e2 = rx_adv_same [OF a2(1)]
  have "device_ok (rx_n s2) dev" using dev e3 e2 by simp
  note a1 = rx_load_adv [OF e2(1) this l1]
  note e1 = rx_adv_same [OF a1(1)]
  have "device_ok (rx_n s1) dev" using dev e3 e2 e1 by simp
  note a0 = rx_load_adv [OF e1(1) this l0]
  note e0 = rx_adv_same [OF a0(1)]
  have adv: "rx_adv R s s0" using a3(1) a2(1) a1(1) a0(1) rx_adv_trans by blast
  note e = rx_adv_same [OF adv]
  have n': "rx_n s3 = n" "rx_n s2 = n" "rx_n s1 = n" "rx_n s0 = n" using e3 e2 e1 e0 by (simp_all add: n_def)
  have H: "R + pos \<le> rx_done s3" "R + pos \<le> rx_done s2" "R + pos \<le> rx_done s1" "R + pos \<le> rx_done s0"
    using pos(2) e3(8) e2(8) e1(8) e0(8) by linarith+
  note g3 = group_load [OF e3(1) _ _ pos(1) H(1), of "pos + 3", unfolded n']
  note g2 = group_load [OF e2(1) _ _ pos(1) H(2), of "pos + 2", unfolded n']
  note g1 = group_load [OF e1(1) _ _ pos(1) H(3), of "pos + 1", unfolded n']
  note g0 = group_load [OF e0(1) _ _ pos(1) H(4), of "pos + j" for j, unfolded n']
  define P where "P j = desc_done ([d0, d1, d2, d3] ! j)" for j
  have P: "P 0 \<longleftrightarrow> i < n \<and> R + pos < rx_done s0" "P 1 \<longleftrightarrow> i + 1 < n \<and> R + pos + 1 < rx_done s1"
    "P 2 \<longleftrightarrow> i + 2 < n \<and> R + pos + 2 < rx_done s2" "P 3 \<longleftrightarrow> i + 3 < n \<and> R + pos + 3 < rx_done s3"
    using g3(1) g2(1) g1(1) g0(1) [of 0] a3(2) a2(2) a1(2) a0(2) by (simp_all add: P_def i_def add.assoc)
  define k where "k = (if \<not> P 0 then 0 else if \<not> P 1 then 1 else if \<not> P 2 then 2 else if \<not> P 3 then 3 else 4 :: nat)"
  have mono: "P 3 \<Longrightarrow> P 2" "P 2 \<Longrightarrow> P 1" "P 1 \<Longrightarrow> P 0" using P e2(8) e1(8) e0(8) by auto
  have j4: "j = 0 \<or> j = 1 \<or> j = 2 \<or> j = 3" if "j < 4" for j :: nat using that by auto
  have Pk: "P j \<longleftrightarrow> j < k" if "j < 4" for j using j4 [OF that] mono by (auto simp: k_def)
  have k4: "k \<le> 4" by (simp add: k_def)
  have count: "length (filter desc_done [d0, d1, d2, d3]) = k"
    by (rule count_prefix) (use Pk k4 in \<open>auto simp: P_def\<close>)
  have lens: "length d0 = 16" "length d1 = 16" "length d2 = 16" "length d3 = 16"
    using g3(4) g2(4) g1(4) g0(4) [of 0] a3(2) a2(2) a1(2) a0(2) by (simp_all add: i_def add.assoc)
  have log: "rx_log s0 ! a = rx_log s1 ! a" if "a < rx_done s1" for a using e0(9) that by simp
  have log2: "rx_log s0 ! a = rx_log s2 ! a" if "a < rx_done s2" for a using e1(9) [OF that] e1(8) log [of a] that by simp
  have log3: "rx_log s0 ! a = rx_log s3 ! a" if "a < rx_done s3" for a using e2(9) [OF that] e2(8) log2 [of a] that by simp
  have x0: "P 0 \<Longrightarrow> d0 = snd (rx_log s0 ! (R + pos))" using P(1) g0(2) [of 0] a0(2) by (simp add: i_def)
  have x1: "P 1 \<Longrightarrow> d1 = snd (rx_log s0 ! (R + pos + 1))"
    using P(2) g1(2) a1(2) log [of "R + pos + 1"] by (simp add: i_def add.assoc)
  have x2: "P 2 \<Longrightarrow> d2 = snd (rx_log s0 ! (R + pos + 2))"
    using P(3) g2(2) a2(2) log2 [of "R + pos + 2"] by (simp add: i_def add.assoc)
  have x3: "P 3 \<Longrightarrow> d3 = snd (rx_log s0 ! (R + pos + 3))"
    using P(4) g3(2) a3(2) log3 [of "R + pos + 3"] by (simp add: i_def add.assoc)
  have dj: "[d0, d1, d2, d3] ! j = snd (rx_log s0 ! (R + pos + j))" if "j < k" for j
  proof -
    have j: "j < 4" using that k4 by simp
    have Pj: "P j" using Pk [OF j] that by simp
    from j4 [OF j] show ?thesis
      by (elim disjE) (use Pj x0 x1 x2 x3 in simp_all)
  qed
  have rk: "R + pos + k \<le> rx_done s0" "i + k \<le> n" "R + pos + k \<le> armed_end R s"
  proof -
    have "k = 0 \<or> k = 1 \<and> P 0 \<or> k = 2 \<and> P 1 \<or> k = 3 \<and> P 2 \<or> k = 4 \<and> P 3" by (simp add: k_def)
    moreover have "i \<le> n" using pos(3) by (simp add: i_def n_def)
    ultimately have "R + pos + k \<le> rx_done s0 \<and> i + k \<le> n"
      unfolding P using H(4) e0(8) e1(8) e2(8) by (elim disjE conjE) linarith+
    then show "R + pos + k \<le> rx_done s0" "i + k \<le> n" by simp_all
    show "R + pos + k \<le> armed_end R s"
      using \<open>R + pos + k \<le> rx_done s0\<close> rx_ok_facts(3) [OF e(1)] e(6) by (simp add: rx_pos_def)
  qed
  define f where "f j = (if i + j < n \<and> R + pos + j < armed_end R s then ring_buf s (R + pos + j) else rx_fake s)" for j
  define ms where "ms = [f 0, f 1, f 2, f 3]"
  have msj: "ms ! j = f j" if "j < 4" for j using j4 [OF that] by (auto simp: ms_def)
  have sw: "rx_sw s ! (i + j) = Some (f j)" if "j < 4" for j
    using group_load(3) [OF ok _ _ pos(1,2), of "pos + j"] that by (simp add: f_def i_def n_def add.assoc)
  have i4: "i + 4 \<le> length (rx_sw s)" "i + 4 \<le> length (rx_ring s)"
    using group_load(5,6) [OF ok _ _ pos(1,2), of "pos + 3"] by (simp_all add: i_def n_def)
  define q where "q = rs_rxq s"
  define s' where "s' = fill_bufs q (burst_init q) (ucast (rq_vlan_flags q)) (burst_udp q) ms d0 d1 d2 d3 s0"
  define es where "es = eop_flags (status_v d0 d1 d2 d3)"
  have t: "unat (rq_rx_tail q) = R mod n" using rx_ok_facts(3) [OF ok] by (simp add: rx_pos_def q_def n_def)
  have eq: "recv_group dev (burst_init q) (ucast (rq_vlan_flags q)) (burst_udp q) pos s = Inr (s', ms, es, k)"
    using i4 l3 l2 l1 l0 those_take4 [OF i4(1) sw] count_done_bits [OF lens] count
    unfolding recv_group_def Let_def q_def [symmetric] t i_def [symmetric]
    by (simp add: q_def s'_def es_def ms_def)
  have es: "es = map (\<lambda>d. if desc_eop d then 0 else 2) [d0, d1, d2, d3]"
    unfolding es_def by (rule eop_flags_bits [OF lens])
  have buf: "ms ! j = ring_buf s (R + pos + j)" "rx_buf s' (ms ! j) = rx_fields q ([d0, d1, d2, d3] ! j) (rx_buf s (ms ! j))"
    if "j < k" for j
  proof -
    have j: "j < 4" "i + j < n" "R + pos + j < armed_end R s" using that k4 rk by auto
    then show "ms ! j = ring_buf s (R + pos + j)" by (simp add: msj f_def)
    have "ms ! x \<noteq> ms ! j" if "x < 4" "x \<noteq> j" for x
      using ring_buf_inj [OF ok, of "R + pos + j" "R + pos + x"] ring_buf_real [OF ok, of "R + pos + j"] that j by (auto simp: msj f_def)
    then show "rx_buf s' (ms ! j) = rx_fields q ([d0, d1, d2, d3] ! j) (rx_buf s (ms ! j))"
      unfolding s'_def using fill_bufs_once [of q d0 d1 d2 d3 ms j s0] rx_ok_facts(1) [OF ok] lens j(1) e(4)
      by (simp add: q_def ms_def)
  qed
  have c1: "rx_ok R s'" using rx_ok_cong(1) [of s' s0 R] e(1) by (simp add: s'_def)
  have c2: "rx_log s' = rx_log s0" "rx_done s' = rx_done s0" by (simp_all add: s'_def rx_done_def)
  have c3: "rx_buf s' m = rx_buf s m" if "m \<notin> set ms" for m
    using fill_bufs_frame [OF that] e(4) by (simp add: s'_def)
  have c8: "set ms \<subseteq> insert (rx_fake s) (ring_buf s ` {R + pos..<armed_end R s})"
    by (auto simp: ms_def f_def)
  have c4: "es ! j = (if desc_eop (snd (rx_log s0 ! (R + pos + j))) then 0 else 2)" if "j < k" for j
    unfolding es dj [OF that, symmetric] using that k4 by (intro nth_map) simp
  have c5: "rs_rxq s' = rs_rxq s" "d_pools (rs_drv s') = d_pools (rs_drv s)" "\<exists>l. rx_log s0 = rx_log s @ l"
    using e(2,3) adv by (simp_all add: s'_def rx_adv_def)
  have c6: "k \<le> length ms" "length es = length ms" "R mod rx_n s + pos + k \<le> rx_n s"
    using k4 rk(2) by (simp_all add: ms_def es i_def n_def)
  have c7: "ms ! j = ring_buf s (R + pos + j) \<and>
      rx_buf s' (ms ! j) = rx_fields (rs_rxq s) (snd (rx_log s0 ! (R + pos + j))) (rx_buf s (ms ! j)) \<and>
      es ! j = (if desc_eop (snd (rx_log s0 ! (R + pos + j))) then 0 else 2)" if "j < k" for j
    using buf [OF that] c4 [OF that] dj [OF that] by (simp add: q_def)
  have c9: "buf_link (d_mbufs (rs_drv s') m) = buf_link (d_mbufs (rs_drv s) m)" for m
    using e(3) by (simp add: s'_def fill_bufs_link)
  have "delivers R pos s s' ms es k"
    unfolding delivers_def c2 using c1 c3 c5 c6 c7 c8 c9 rk(1) by blast
  moreover have "0 < k" if "R + pos < rx_done s" "R mod rx_n s + pos < rx_n s"
    using that P(1) Pk [of 0] e(8) by (simp add: i_def n_def)
  ultimately show ?thesis using eq k4 unfolding q_def by (intro exI [of _ s'] exI [of _ ms] exI [of _ es] exI [of _ k]) (simp add: ms_def)
qed

section \<open>The groups of a burst\<close>

lemma delivers_nothing:
  "rx_ok R s \<Longrightarrow> R + pos \<le> rx_done s \<Longrightarrow> R mod rx_n s + pos \<le> rx_n s \<Longrightarrow> delivers R pos s s [] [] 0"
  by (simp add: delivers_def)

lemma deliversD:
  assumes "delivers R pos s s' ms es k"
  shows "rx_ok R s'" "rs_rxq s' = rs_rxq s" "d_pools (rs_drv s') = d_pools (rs_drv s)" "\<exists>l. rx_log s' = rx_log s @ l"
    "k \<le> length ms" "length es = length ms" "R + pos + k \<le> rx_done s'" "R mod rx_n s + pos + k \<le> rx_n s"
    "j < k \<Longrightarrow> ms ! j = ring_buf s (R + pos + j)"
    "j < k \<Longrightarrow> rx_buf s' (ms ! j) = rx_fields (rs_rxq s) (snd (rx_log s' ! (R + pos + j))) (rx_buf s (ms ! j))"
    "j < k \<Longrightarrow> es ! j = (if desc_eop (snd (rx_log s' ! (R + pos + j))) then 0 else 2)"
    "m \<notin> set ms \<Longrightarrow> rx_buf s' m = rx_buf s m"
    "set ms \<subseteq> insert (rx_fake s) (ring_buf s ` {R + pos..<armed_end R s})"
    "rx_n s' = rx_n s" "armed_end R s' = armed_end R s" "ring_buf s' = ring_buf s"
    "buf_link (d_mbufs (rs_drv s') m) = buf_link (d_mbufs (rs_drv s) m)"
  using assms by (auto simp: delivers_def rx_n_def armed_end_def ring_buf_def fun_eq_iff)

lemma delivers_step:
  assumes a: "delivers R pos s t ms es 4" "length ms = 4" and b: "delivers R (pos + 4) t u ms' es' k" and ok: "rx_ok R s"
  shows "delivers R pos s u (ms @ ms') (es @ es') (4 + k)"
proof -
  note A = deliversD [OF a(1)] and B = deliversD [OF b]
  obtain l where l: "rx_log u = rx_log t @ l" using B(4) by auto
  obtain l' where l': "rx_log t = rx_log s @ l'" using A(4) by auto
  have done_u: "R + (pos + 4) + k \<le> rx_done u" "rx_done u < armed_end R s"
    using B(7) rx_ok_facts(3) [OF B(1)] B(15) A(15) by (simp_all add: rx_pos_def)
  have log: "rx_log u ! x = rx_log t ! x" if "x < R + pos + 4" for x
    using A(7) that l by (simp add: rx_done_def nth_append)
  have first: "ms ! j \<notin> set ms'" if "j < 4" for j
  proof
    assume "ms ! j \<in> set ms'"
    then have "ms ! j \<in> insert (rx_fake s) (ring_buf s ` {R + (pos + 4)..<armed_end R s})"
      using subsetD [OF B(13)] A(2,15,16) by simp
    then have "ms ! j = rx_fake s \<or> (\<exists>x. R + pos + 4 \<le> x \<and> x < armed_end R s \<and> ms ! j = ring_buf s x)"
      by (auto simp: add.assoc)
    moreover have "ms ! j = ring_buf s (R + pos + j)" "R + pos + j < armed_end R s" using A(9) [OF that] done_u that by simp_all
    ultimately obtain x where "R + pos + 4 \<le> x" "x < armed_end R s" "ring_buf s (R + pos + j) = ring_buf s x"
      using ring_buf_real [OF ok, of "R + pos + j"] by auto
    then show False
      using that ring_buf_inj [OF ok, of "R + pos + j" x] by simp
  qed
  have second: "ms' ! j \<notin> set ms" if "j < k" for j
  proof
    assume "ms' ! j \<in> set ms"
    then obtain x where x: "x < 4" "ms ! x = ms' ! j" using a(2) by (auto simp: in_set_conv_nth)
    then show False
      using that A(9) [of x] A(16) B(9) [of j] ring_buf_inj [OF ok, of "R + pos + x" "R + pos + 4 + j"] done_u
      by (simp add: add.assoc)
  qed
  have each: "(ms @ ms') ! j = ring_buf s (R + pos + j) \<and>
      rx_buf u ((ms @ ms') ! j) = rx_fields (rs_rxq s) (snd (rx_log u ! (R + pos + j))) (rx_buf s ((ms @ ms') ! j)) \<and>
      (es @ es') ! j = (if desc_eop (snd (rx_log u ! (R + pos + j))) then 0 else 2)" if "j < 4 + k" for j
  proof (cases "j < 4")
    case True
    then show ?thesis
      using A(9,10,11) [of j] A(6) a(2) log [of "R + pos + j"] B(12) [OF first [OF True]] by (simp add: nth_append)
  next
    case False
    then have j: "j - 4 < k" "R + (pos + 4) + (j - 4) = R + pos + j" using that by auto
    then show ?thesis
      using B(9,10,11) [of "j - 4"] A(2,6,12,16) second [OF j(1)] a(2) False by (simp add: nth_append add.assoc)
  qed
  have "rx_buf u m = rx_buf s m" if "m \<notin> set (ms @ ms')" for m using A(12) B(12) that by simp
  moreover have "set (ms @ ms') \<subseteq> insert (rx_fake s) (ring_buf s ` {R + pos..<armed_end R s})"
  proof -
    have "ring_buf s ` {R + (pos + 4)..<armed_end R s} \<subseteq> ring_buf s ` {R + pos..<armed_end R s}" by (rule image_mono) auto
    then show ?thesis using A(13) B(13) A(2,15,16) by auto
  qed
  moreover have "R + pos + (4 + k) \<le> rx_done u" "R mod rx_n s + pos + (4 + k) \<le> rx_n s" "4 + k \<le> length (ms @ ms')"
    "length (es @ es') = length (ms @ ms')" "\<exists>l. rx_log u = rx_log s @ l"
    using done_u A(6,14) B(5,6,8) a(2) l l' by (simp_all add: add.assoc)
  ultimately show ?thesis
    unfolding delivers_def using each B(1) A(2,3,17) B(2,3,17) by (simp only: simp_thms) blast
qed

lemma recv_loop_delivers:
  assumes "rx_ok R s" "device_ok (rx_n s) dev" "pos + 4 * g \<le> 32" "R + pos \<le> rx_done s" "R mod rx_n s + pos \<le> rx_n s"
  shows "\<exists>s' ms es k. recv_loop dev (burst_init (rs_rxq s)) (ucast (rq_vlan_flags (rs_rxq s))) (burst_udp (rs_rxq s)) g pos pkts split recd s =
      Inr (s', pkts @ ms, split @ es, recd + k) \<and> delivers R pos s s' ms es k \<and> length ms \<le> 4 * g \<and>
    (0 < g \<longrightarrow> R + pos < rx_done s \<longrightarrow> R mod rx_n s + pos < rx_n s \<longrightarrow> 0 < k)"
  using assms
proof (induction g arbitrary: pos pkts split recd s)
  case 0
  then show ?case using delivers_nothing [of R s pos] by fastforce
next
  case (Suc g)
  have "pos + 4 \<le> 32" using Suc.prems(3) by simp
  from recv_group_delivers [OF Suc.prems(1,2) this Suc.prems(4,5)] obtain t ms es k where
    g: "recv_group dev (burst_init (rs_rxq s)) (ucast (rq_vlan_flags (rs_rxq s))) (burst_udp (rs_rxq s)) pos s = Inr (t, ms, es, k)"
      "delivers R pos s t ms es k" "length ms = 4" "k \<le> 4"
      "R + pos < rx_done s \<longrightarrow> R mod rx_n s + pos < rx_n s \<longrightarrow> 0 < k"
    by blast
  note D = deliversD [OF g(2)]
  show ?case
  proof (cases "k = 4")
    case False
    then show ?thesis using g by (auto simp: RTE_IXGBE_DESCS_PER_LOOP_def)
  next
    case True
    have "device_ok (rx_n t) dev" "pos + 4 + 4 * g \<le> 32" "R + (pos + 4) \<le> rx_done t" "R mod rx_n t + (pos + 4) \<le> rx_n t"
      using Suc.prems(2,3) D(7,8,14) True by (simp_all add: add.assoc)
    from Suc.IH [OF D(1) this, of "pkts @ ms" "split @ es" "recd + k"] obtain u ms' es' k' where
      l: "recv_loop dev (burst_init (rs_rxq t)) (ucast (rq_vlan_flags (rs_rxq t))) (burst_udp (rs_rxq t)) g (pos + 4) (pkts @ ms) (split @ es)
          (recd + k) t = Inr (u, (pkts @ ms) @ ms', (split @ es) @ es', recd + k + k')"
        "delivers R (pos + 4) t u ms' es' k'" "length ms' \<le> 4 * g" by blast
    have "delivers R pos s u (ms @ ms') (es @ es') (4 + k')"
      using delivers_step [OF _ g(3) l(2) Suc.prems(1)] g(2) True by simp
    moreover have "recv_loop dev (burst_init (rs_rxq s)) (ucast (rq_vlan_flags (rs_rxq s))) (burst_udp (rs_rxq s)) (Suc g) pos pkts split recd s =
        Inr (u, pkts @ ms @ ms', split @ es @ es', recd + (4 + k'))"
      using g(1) True l(1) D(2) by (simp add: RTE_IXGBE_DESCS_PER_LOOP_def add.assoc)
    ultimately show ?thesis using g(3) l(3) by (intro exI [of _ u] exI [of _ "ms @ ms'"] exI [of _ "es @ es'"] exI [of _ "4 + k'"]) auto
  qed
qed

end
