(* ===== verification/IxgbeRxBurst.thy ===== *)
theory IxgbeRxBurst
  imports IxgbeRxRing
begin

text \<open>
  Refilling the ring, with the branch that clears four descriptors when the pool is empty, and a whole call of the burst function.
\<close>

section \<open>Refilling\<close>

lemma rearm_loop_ok:
  "i + 2 * k \<le> length (rx_sw s) \<Longrightarrow> i + 2 * k \<le> length (rx_ring s) \<Longrightarrow> \<forall>j < 2 * k. rx_sw s ! (i + j) = Some (f j) \<Longrightarrow>
   \<exists>ring. rearm_loop k i s = Inr (s\<lparr>rs_nic := (rs_nic s)\<lparr>rn_ring := ring\<rparr>\<rparr>) \<and> length ring = length (rx_ring s) \<and>
     (\<forall>j < 2 * k. ring ! (i + j) = armed_desc (buf_dma s (f j))) \<and> (\<forall>x. x < i \<or> i + 2 * k \<le> x \<longrightarrow> ring ! x = rx_ring s ! x)"
proof (induction k arbitrary: i s f)
  case 0
  then show ?case by (intro exI [of _ "rx_ring s"]) simp
next
  case (Suc k)
  define ring1 where "ring1 = (rx_ring s)[i := armed_desc (buf_dma s (f 0)), i + 1 := armed_desc (buf_dma s (f 1))]"
  define s1 where "s1 = s\<lparr>rs_nic := (rs_nic s)\<lparr>rn_ring := ring1\<rparr>\<rparr>"
  have b0: "rx_sw s ! i = Some (f 0)" "rx_sw s ! (i + 1) = Some (f 1)"
    using Suc.prems(3) spec [OF Suc.prems(3), of 0] spec [OF Suc.prems(3), of 1] by simp_all
  have step: "rearm_loop (Suc k) i s = rearm_loop k (i + 2) s1"
    using b0 Suc.prems(1,2)
    by (simp add: aget_def aset_def set_ring_def Let_def rearm_desc_armed s1_def ring1_def buf_dma_def)
  have same: "rx_sw s1 = rx_sw s" "buf_dma s1 = buf_dma s" by (simp_all add: s1_def buf_dma_def fun_eq_iff)
  have "\<exists>ring. rearm_loop k (i + 2) s1 = Inr (s1\<lparr>rs_nic := (rs_nic s1)\<lparr>rn_ring := ring\<rparr>\<rparr>) \<and> length ring = length (rx_ring s1) \<and>
     (\<forall>j < 2 * k. ring ! (i + 2 + j) = armed_desc (buf_dma s1 (f (2 + j)))) \<and>
     (\<forall>x. x < i + 2 \<or> i + 2 + 2 * k \<le> x \<longrightarrow> ring ! x = rx_ring s1 ! x)"
  proof (rule Suc.IH)
    show "i + 2 + 2 * k \<le> length (rx_sw s1)" "i + 2 + 2 * k \<le> length (rx_ring s1)"
      using Suc.prems by (simp_all add: s1_def ring1_def)
    show "\<forall>j<2 * k. rx_sw s1 ! (i + 2 + j) = Some (f (2 + j))"
    proof (intro allI impI)
      fix j assume "j < 2 * k"
      then show "rx_sw s1 ! (i + 2 + j) = Some (f (2 + j))"
        using spec [OF Suc.prems(3), of "2 + j"] by (simp add: same add.assoc)
    qed
  qed
  then obtain ring where r: "rearm_loop k (i + 2) s1 = Inr (s1\<lparr>rs_nic := (rs_nic s1)\<lparr>rn_ring := ring\<rparr>\<rparr>)"
    "length ring = length (rx_ring s1)" "\<forall>j < 2 * k. ring ! (i + 2 + j) = armed_desc (buf_dma s1 (f (2 + j)))"
    "\<forall>x. x < i + 2 \<or> i + 2 + 2 * k \<le> x \<longrightarrow> ring ! x = rx_ring s1 ! x" by blast
  have "ring ! (i + j) = armed_desc (buf_dma s (f j))" if "j < 2 * Suc k" for j
  proof (cases "j < 2")
    case True
    then have "j = 0 \<or> j = 1" by auto
    then show ?thesis using r(4) Suc.prems(2) by (auto simp: s1_def ring1_def)
  next
    case False
    then obtain j' where "j = 2 + j'" by (metis le_add_diff_inverse not_less)
    then show ?thesis using r(3) that by (simp add: same add.assoc)
  qed
  moreover have "ring ! x = rx_ring s ! x" if "x < i \<or> i + 2 * Suc k \<le> x" for x
    using r(4) that by (auto simp: s1_def ring1_def)
  ultimately show ?case
    using step r(1,2) by (intro exI [of _ ring]) (simp add: s1_def ring1_def)
qed

lemma rearm_zero_ok:
  "i + k \<le> length (rx_sw s) \<Longrightarrow> i + k \<le> length (rx_ring s) \<Longrightarrow>
   \<exists>ring sw. rearm_zero k i s = Inr (s\<lparr>rs_rxq := (rs_rxq s)\<lparr>rq_sw_ring := sw\<rparr>, rs_nic := (rs_nic s)\<lparr>rn_ring := ring\<rparr>\<rparr>) \<and>
     length ring = length (rx_ring s) \<and> length sw = length (rx_sw s) \<and>
     (\<forall>j < k. ring ! (i + j) = mm_setzero_si128 \<and> sw ! (i + j) = Some (rx_fake s)) \<and>
     (\<forall>x. x < i \<or> i + k \<le> x \<longrightarrow> ring ! x = rx_ring s ! x \<and> sw ! x = rx_sw s ! x)"
proof (induction k arbitrary: i s)
  case 0
  then show ?case by (intro exI [of _ "rx_ring s"] exI [of _ "rx_sw s"]) simp
next
  case (Suc k)
  define s1 where "s1 = s\<lparr>rs_rxq := (rs_rxq s)\<lparr>rq_sw_ring := (rx_sw s)[i := Some (rx_fake s)]\<rparr>,
    rs_nic := (rs_nic s)\<lparr>rn_ring := (rx_ring s)[i := mm_setzero_si128]\<rparr>\<rparr>"
  have step: "rearm_zero (Suc k) i s = rearm_zero k (i + 1) s1"
    using Suc.prems by (simp add: set_sw_ring_def set_ring_def aset_def s1_def)
  have "i + 1 + k \<le> length (rx_sw s1)" "i + 1 + k \<le> length (rx_ring s1)" using Suc.prems by (simp_all add: s1_def)
  from Suc.IH [OF this] obtain ring sw where r:
    "rearm_zero k (i + 1) s1 = Inr (s1\<lparr>rs_rxq := (rs_rxq s1)\<lparr>rq_sw_ring := sw\<rparr>, rs_nic := (rs_nic s1)\<lparr>rn_ring := ring\<rparr>\<rparr>)"
    "length ring = length (rx_ring s1)" "length sw = length (rx_sw s1)"
    "\<forall>j < k. ring ! (i + 1 + j) = mm_setzero_si128 \<and> sw ! (i + 1 + j) = Some (rx_fake s1)"
    "\<forall>x. x < i + 1 \<or> i + 1 + k \<le> x \<longrightarrow> ring ! x = rx_ring s1 ! x \<and> sw ! x = rx_sw s1 ! x" by blast
  have "ring ! (i + j) = mm_setzero_si128 \<and> sw ! (i + j) = Some (rx_fake s)" if "j < Suc k" for j
  proof (cases j)
    case 0
    then show ?thesis using r(5) Suc.prems by (auto simp: s1_def)
  next
    case (Suc j')
    then show ?thesis using r(4) that by (simp add: s1_def)
  qed
  moreover have "ring ! x = rx_ring s ! x \<and> sw ! x = rx_sw s ! x" if "x < i \<or> i + Suc k \<le> x" for x
    using r(5) that by (auto simp: s1_def)
  ultimately show ?case
    using step r(1,2,3) by (intro exI [of _ ring] exI [of _ sw]) (simp add: s1_def)
qed

lemma setzero_facts: "\<not> desc_done mm_setzero_si128" "length mm_setzero_si128 = 16"
proof -
  have e: "mm_setzero_si128 = armed_desc 0"
    by (simp add: mm_setzero_si128_def armed_desc_def bytes64_def bytes32_def numeral_eq_Suc)
  show "\<not> desc_done mm_setzero_si128" "length mm_setzero_si128 = 16" unfolding e by (rule armed_desc_facts)+
qed

text \<open>What a refill changes: nothing that the device has written back, and no buffer.\<close>

lemma refill_zero:
  assumes inv: "rx_inv R s" and few: "armed_end R s \<le> R + 32"
  shows "\<exists>s'. rearm_zero 4 (armed_end R s mod rx_n s) s = Inr s' \<and> rx_ok R s' \<and> rx_log s' = rx_log s \<and> rs_drv s' = rs_drv s \<and>
    rs_meta s' = rs_meta s \<and> rx_n s' = rx_n s \<and> (\<exists>sw. rs_rxq s' = (rs_rxq s)\<lparr>rq_sw_ring := sw\<rparr>) \<and> ring_bufs R s' = ring_bufs R s"
proof -
  have set_up: "queue_set_up (rs_rxq s)" and geom: "rx_geom s" and pos: "rx_pos R s" and descs: "rx_descs R s" and own: "rx_own R s"
    using inv by (auto simp: rx_inv_def)
  define n where "n = rx_n s"
  define S where "S = armed_end R s"
  have n: "64 \<le> n" "32 dvd n" using geom_n [OF geom] by (auto simp: n_def)
  have p: "R \<le> rx_done s" "rx_done s < S" "32 dvd S" using pos by (auto simp: rx_pos_def S_def)
  have Sn: "S mod n + i < n" "(S + i) mod n = S mod n + i" if "i < 4" for i
    using block_mod [of S n i] p n that by auto
  have len: "n + 32 \<le> length (rx_ring s)" "n + 32 \<le> length (rx_sw s)" using geom by (auto simp: rx_geom_def n_def)
  have S4: "S mod n + 4 \<le> n" using Sn(1) [of 3] by simp
  then have "S mod n + 4 \<le> length (rx_sw s)" "S mod n + 4 \<le> length (rx_ring s)" using len by auto
  from rearm_zero_ok [OF this] obtain ring sw where z:
    "rearm_zero 4 (S mod n) s = Inr (s\<lparr>rs_rxq := (rs_rxq s)\<lparr>rq_sw_ring := sw\<rparr>, rs_nic := (rs_nic s)\<lparr>rn_ring := ring\<rparr>\<rparr>)"
    "length ring = length (rx_ring s)" "length sw = length (rx_sw s)"
    "\<forall>j < 4. ring ! (S mod n + j) = mm_setzero_si128 \<and> sw ! (S mod n + j) = Some (rx_fake s)"
    "\<forall>x. x < S mod n \<or> S mod n + 4 \<le> x \<longrightarrow> ring ! x = rx_ring s ! x \<and> sw ! x = rx_sw s ! x" by blast
  define s' where "s' = s\<lparr>rs_rxq := (rs_rxq s)\<lparr>rq_sw_ring := sw\<rparr>, rs_nic := (rs_nic s)\<lparr>rn_ring := ring\<rparr>\<rparr>"
  have [simp]: "rx_n s' = n" "rx_done s' = rx_done s" "armed_end R s' = S" "rx_pool s' = rx_pool s" "rx_fake s' = rx_fake s"
    "rx_ring s' = ring" "rx_sw s' = sw" "rx_log s' = rx_log s" "buf_dma s' = buf_dma s" "rs_drv s' = rs_drv s"
    "rn_head (rs_nic s') = rn_head (rs_nic s)" "rn_rdt (rs_nic s') = rn_rdt (rs_nic s)" "rq_rxrearm_nb (rs_rxq s') = rq_rxrearm_nb (rs_rxq s)"
    "rq_rx_tail (rs_rxq s') = rq_rx_tail (rs_rxq s)" "rq_rxrearm_start (rs_rxq s') = rq_rxrearm_start (rs_rxq s)"
    by (simp_all add: s'_def rx_n_def n_def rx_done_def armed_end_def S_def rx_pool_def buf_dma_def fun_eq_iff)
  have cases4: "x < S mod n \<or> S mod n + 4 \<le> x \<or> (\<exists>j < 4. x = S mod n + j)" for x
    by (cases "x < S mod n"; cases "S mod n + 4 \<le> x") (auto intro: exI [of _ "x - S mod n"])
  have off: "a mod n < S mod n \<or> S mod n + 4 \<le> a mod n" if "R \<le> a" "a < S" for a
  proof -
    have "a mod n \<noteq> S mod n + j" if "j < 4" for j
      using mod_neq [of a "S + j" n] Sn(2) [OF that] \<open>R \<le> a\<close> \<open>a < S\<close> few that n(1) by (simp add: S_def)
    then show ?thesis using cases4 [of "a mod n"] by auto
  qed
  have same: "ring ! (a mod n) = rx_ring s ! (a mod n)" "ring_buf s' a = ring_buf s a" if "R \<le> a" "a < S" for a
    using z(5) off [OF that] by (auto simp: ring_buf_def n_def [symmetric])
  have ringb: "ring_bufs R s' = ring_bufs R s" using same by (simp add: ring_bufs_def S_def [symmetric])
  have "\<forall>d \<in> set ring. length d = 16"
  proof
    fix d
    assume "d \<in> set ring"
    then obtain x where "x < length (rx_ring s)" "d = ring ! x" using z(2) by (auto simp: in_set_conv_nth)
    then show "length d = 16" using cases4 [of x] z(4,5) geom by (auto simp: rx_geom_def setzero_facts)
  qed
  moreover have "sw ! i \<noteq> None" if "i < n + 32" for i
    using cases4 [of i] z(4,5) geom that by (auto simp: rx_geom_def n_def)
  moreover have "ring ! i = rx_ring s ! i \<and> sw ! i = rx_sw s ! i" if "n \<le> i" for i using z(5) S4 that by auto
  ultimately have "rx_geom s'"
    using geom z(2,3) unfolding rx_geom_def by (simp add: n_def [symmetric])
  moreover have "rx_pos R s'" using pos by (simp add: rx_pos_def n_def S_def)
  moreover have "rx_descs R s'"
    using descs same p by (simp add: rx_descs_def n_def S_def)
  moreover have "rx_own R s'" using own ringb by (simp add: rx_own_def)
  moreover have "queue_set_up (rs_rxq s')" using set_up by (simp add: queue_set_up_def s'_def)
  moreover have "rx_guard R s'" using z(4) by (simp add: rx_guard_def setzero_facts)
  ultimately have "rx_ok R s'" by (simp add: rx_ok_def rx_inv_def)
  then show ?thesis using z(1) ringb by (intro exI [of _ s']) (auto simp: s'_def S_def n_def rx_n_def)
qed

lemma awrite_nth:
  assumes "i + length ys \<le> length xs"
  shows "\<exists>zs. awrite xs i ys = Some zs \<and> length zs = length xs \<and> (\<forall>j < length ys. zs ! (i + j) = ys ! j) \<and>
    (\<forall>x. x < i \<or> i + length ys \<le> x \<longrightarrow> x < length xs \<longrightarrow> zs ! x = xs ! x)"
proof (intro exI conjI allI impI)
  show "awrite xs i ys = Some (take i xs @ ys @ drop (i + length ys) xs)" using assms by (simp add: awrite_def)
qed (use assms in \<open>auto simp: nth_append min_def\<close>)

lemma unat_minus_32: "(32 :: nat) \<le> unat (x :: u16) \<Longrightarrow> unat (x - 32) = unat x - 32"
  by (subst unat_sub) (auto simp: word_le_nat_alt)

lemma refill_take:
  assumes inv: "rx_inv R s" and nb: "32 < unat (rq_rxrearm_nb (rs_rxq s))" and pool: "32 \<le> length (rx_pool s)"
  shows "\<exists>s'. ixgbe_rxq_rearm s = Inr s' \<and> rx_ok R s' \<and> rx_log s' = rx_log s \<and> rx_buf s' = rx_buf s \<and> rx_n s' = rx_n s \<and>
    rx_fake s' = rx_fake s \<and> rx_fields (rs_rxq s') = rx_fields (rs_rxq s) \<and>
    rx_pool s' = drop 32 (rx_pool s) \<and> ring_bufs R s' = ring_bufs R s @ take 32 (rx_pool s)"
proof -
  have set_up: "queue_set_up (rs_rxq s)" and geom: "rx_geom s" and pos: "rx_pos R s" and descs: "rx_descs R s" and own: "rx_own R s"
    using inv by (auto simp: rx_inv_def)
  define n where "n = rx_n s"
  define S where "S = armed_end R s"
  define q where "q = rs_rxq s"
  define bufs where "bufs = take 32 (rx_pool s)"
  have lb: "length bufs = 32" using pool by (simp add: bufs_def)
  have n: "64 \<le> n" "32 dvd n" "n \<le> 4096" using geom_n [OF geom] by (auto simp: n_def)
  have p: "R \<le> rx_done s" "rx_done s < S" "32 dvd S" "S + 32 < R + n" "unat (rq_rxrearm_start q) = S mod n"
      "unat (rq_rxrearm_nb q) \<le> n" "S + unat (rq_rxrearm_nb q) = R + n"
    using pos nb by (auto simp: rx_pos_def S_def n_def q_def armed_end_def)
  have Sn: "S mod n + i < n" "(S + i) mod n = S mod n + i" if "i < 32" for i
    using block_mod [of S n i] p n that by auto
  have S32: "S mod n + 32 \<le> n" using Sn(1) [of 31] by simp
  have len: "n + 32 \<le> length (rx_ring s)" "n + 32 \<le> length (rx_sw s)" using geom by (auto simp: rx_geom_def n_def)
  have "S mod n + length (map Some bufs) \<le> length (rq_sw_ring q)" using S32 len lb by (simp add: q_def)
  from awrite_nth [OF this] obtain sw where sw: "awrite (rq_sw_ring q) (S mod n) (map Some bufs) = Some sw"
    "length sw = length (rx_sw s)" "\<forall>j < 32. sw ! (S mod n + j) = Some (bufs ! j)"
    "\<forall>x. x < S mod n \<or> S mod n + 32 \<le> x \<longrightarrow> x < length (rx_sw s) \<longrightarrow> sw ! x = rx_sw s ! x"
    by (auto simp: lb q_def)
  define d where "d = (rs_drv s)\<lparr>d_pools := (d_pools (rs_drv s))(rq_mb_pool q := drop 32 (rx_pool s))\<rparr>"
  have get: "mempool_get_bulk (rq_mb_pool q) 32 (rs_drv s) = Some (bufs, d)"
    using pool by (simp add: mempool_get_bulk_def bufs_def d_def rx_pool_def q_def)
  define s1 where "s1 = s\<lparr>rs_drv := d, rs_rxq := q\<lparr>rq_sw_ring := sw\<rparr>\<rparr>"
  have dma1: "buf_dma s1 = buf_dma s" by (simp add: s1_def d_def buf_dma_def fun_eq_iff)
  have "S mod n + 2 * 16 \<le> length (rx_sw s1)" "S mod n + 2 * 16 \<le> length (rx_ring s1)"
    "\<forall>j < 2 * 16. rx_sw s1 ! (S mod n + j) = Some (bufs ! j)"
    using S32 len sw by (simp_all add: s1_def)
  from rearm_loop_ok [OF this] obtain ring where r: "rearm_loop 16 (S mod n) s1 = Inr (s1\<lparr>rs_nic := (rs_nic s1)\<lparr>rn_ring := ring\<rparr>\<rparr>)"
    "length ring = length (rx_ring s)" "\<forall>j < 32. ring ! (S mod n + j) = armed_desc (buf_dma s (bufs ! j))"
    "\<forall>x. x < S mod n \<or> S mod n + 32 \<le> x \<longrightarrow> ring ! x = rx_ring s ! x"
    by (auto simp: dma1) (auto simp: s1_def)
  define start where "start = (let st = rq_rxrearm_start q + 32 in if st \<ge> rq_nb_rx_desc q then 0 else st)"
  define rdt where "rdt = (if start = 0 then rq_nb_rx_desc q - 1 else start - 1)"
  define s' where "s' = s1\<lparr>rs_rxq := q\<lparr>rq_sw_ring := sw, rq_rxrearm_start := start, rq_rxrearm_nb := rq_rxrearm_nb q - 32\<rparr>,
    rs_nic := (rs_nic s)\<lparr>rn_ring := ring, rn_rdt := rdt\<rparr>\<rparr>"
  have run: "ixgbe_rxq_rearm s = Inr s'"
    using get sw(1) r(1) unfolding ixgbe_rxq_rearm_def q_def [symmetric] Let_def
    by (simp add: RTE_IXGBE_RXQ_REARM_THRESH_def p(5) s1_def s'_def start_def rdt_def Let_def)
  have nd: "unat (rq_nb_rx_desc q) = n" by (simp add: n_def rx_n_def q_def)
  have st32: "unat (rq_rxrearm_start q + 32) = S mod n + 32"
    using p(5) S32 n by (subst unat_add_lem [THEN iffD1]) simp_all
  have start: "unat start = (S + 32) mod n"
  proof (cases "S mod n + 32 = n")
    case True
    then have "(S + 32) mod n = 0" by (metis mod_add_left_eq mod_self)
    then show ?thesis using True st32 nd by (simp add: start_def Let_def word_le_nat_alt)
  next
    case False
    then have "(S + 32) mod n = S mod n + 32" using S32 by (metis le_neq_implies_less mod_add_left_eq mod_less)
    then show ?thesis using False S32 st32 nd by (simp add: start_def Let_def word_le_nat_alt)
  qed
  have rdt: "unat rdt = (S + 32 - 1) mod n"
  proof (cases "(S + 32) mod n = 0")
    case True
    then have "start = 0" using start by (simp add: unat_eq_zero)
    moreover have "(S + 31) mod n = n - 1"
    proof -
      obtain c where "S + 32 = n * c" using True by auto
      then have "S + 31 = n * (c - 1) + (n - 1)" using n by (cases c) auto
      then show ?thesis using n by (metis diff_less mod_less mod_mult_self4 less_le_trans zero_less_numeral zero_less_one)
    qed
    ultimately show ?thesis using nd n by (simp add: rdt_def unat_sub word_le_nat_alt add.commute)
  next
    case False
    then have "start \<noteq> 0" using start by auto
    then have "unat (start - 1) = unat start - 1"
      by (subst unat_sub) (auto simp: word_le_nat_alt unat_gt_0 Suc_le_eq)
    moreover have "(S + 32) mod n = (if Suc ((S + 31) mod n) = n then 0 else Suc ((S + 31) mod n))"
      using mod_Suc [of "S + 31" n] by (simp add: add.commute [of 32])
    then have "(S + 32) mod n - 1 = (S + 31) mod n"
      using False by (cases "Suc ((S + 31) mod n) = n") simp_all
    ultimately show ?thesis using start \<open>start \<noteq> 0\<close> by (simp add: rdt_def add.commute)
  qed
  have nb': "unat (rq_rxrearm_nb q - 32) = unat (rq_rxrearm_nb q) - 32" using nb by (simp add: unat_minus_32 q_def)
  have [simp]: "rx_n s' = n" "rx_done s' = rx_done s" "rx_fake s' = rx_fake s"
    "rx_ring s' = ring" "rx_sw s' = sw" "rx_log s' = rx_log s" "buf_dma s' = buf_dma s" "rx_buf s' = rx_buf s"
    "rn_head (rs_nic s') = rn_head (rs_nic s)" "rn_rdt (rs_nic s') = rdt" "rq_rxrearm_nb (rs_rxq s') = rq_rxrearm_nb q - 32"
    "rq_rx_tail (rs_rxq s') = rq_rx_tail q" "rq_rxrearm_start (rs_rxq s') = start" "rx_pool s' = drop 32 (rx_pool s)"
    by (simp_all add: s'_def s1_def d_def q_def rx_n_def n_def rx_done_def rx_pool_def buf_dma_def rx_buf_def fun_eq_iff)
  have S' [simp]: "armed_end R s' = S + 32" using p nb' nb by (simp add: armed_end_def q_def)
  have cases32: "x < S mod n \<or> S mod n + 32 \<le> x \<or> (\<exists>j < 32. x = S mod n + j)" for x
    by (cases "x < S mod n"; cases "S mod n + 32 \<le> x") (auto intro: exI [of _ "x - S mod n"])
  have off: "a mod n < S mod n \<or> S mod n + 32 \<le> a mod n" if "R \<le> a" "a < S" for a
  proof -
    have "a mod n \<noteq> S mod n + j" if "j < 32" for j
      using mod_neq [of a "S + j" n] Sn(2) [OF that] \<open>R \<le> a\<close> \<open>a < S\<close> p(4) that by simp
    then show ?thesis using cases32 [of "a mod n"] by auto
  qed
  have "a mod n < length (rx_sw s)" for a
    using len n mod_less_divisor [of n a] by linarith
  then have same: "ring ! (a mod n) = rx_ring s ! (a mod n)" "ring_buf s' a = ring_buf s a" if "R \<le> a" "a < S" for a
    using r(4) sw(4) off [OF that] by (auto simp: ring_buf_def n_def [symmetric])
  have new: "ring_buf s' (S + j) = bufs ! j" "ring ! ((S + j) mod n) = armed_desc (buf_dma s (bufs ! j))" if "j < 32" for j
    using that Sn(2) [OF that] sw(3) r(3) by (auto simp: ring_buf_def)
  have "map (ring_buf s') [S..<S + 32] = bufs"
    by (rule nth_equalityI) (simp_all add: lb new)
  moreover have "[R..<S + 32] = [R..<S] @ [S..<S + 32]" using p by (intro upt_add_eq_append) simp
  ultimately have ringb: "ring_bufs R s' = ring_bufs R s @ bufs"
    using same by (simp add: ring_bufs_def S_def [symmetric])
  have "\<forall>d \<in> set ring. length d = 16"
  proof
    fix d
    assume "d \<in> set ring"
    then obtain x where "x < length (rx_ring s)" "d = ring ! x" using r(2) by (auto simp: in_set_conv_nth)
    then show "length d = 16" using cases32 [of x] r(3,4) geom by (auto simp: rx_geom_def)
  qed
  moreover have "sw ! i \<noteq> None" if "i < n + 32" for i
    using cases32 [of i] sw(3,4) geom that len by (auto simp: rx_geom_def n_def)
  moreover have "ring ! i = rx_ring s ! i \<and> sw ! i = rx_sw s ! i" if "n \<le> i" "i < n + 32" for i
    using r(4) sw(4) S32 len that by auto
  ultimately have "rx_geom s'"
    using geom r(2) sw(2) unfolding rx_geom_def by (simp add: n_def [symmetric])
  moreover have "rx_pos R s'"
    using pos p nb' start rdt unfolding rx_pos_def by (simp add: n_def [symmetric] S_def [symmetric] q_def [symmetric])
  moreover have "rx_descs R s'"
    unfolding rx_descs_def
  proof (intro conjI allI impI)
    fix a
    assume "R \<le> a" "a < rx_done s'"
    then show "rx_ring s' ! (a mod rx_n s') = snd (rx_log s' ! a)" "desc_done (snd (rx_log s' ! a))" "full_desc (snd (rx_log s' ! a))"
      "fst (rx_log s' ! a) = buf_dma s' (ring_buf s' a)"
      using descs same [of a] p by (auto simp: rx_descs_def n_def)
  next
    fix a
    assume a: "rx_done s' \<le> a" "a < armed_end R s'"
    show "rx_ring s' ! (a mod rx_n s') = armed_desc (buf_dma s' (ring_buf s' a))"
    proof (cases "a < S")
      case True
      then show ?thesis using descs same [of a] p a by (auto simp: rx_descs_def n_def S_def)
    next
      case False
      then have "a = S + (a - S)" "a - S < 32" using a(2) by simp_all
      then show ?thesis using new [of "a - S"] by simp
    qed
  qed
  moreover have "rx_own R s'"
  proof -
    have "rx_pool s = bufs @ drop 32 (rx_pool s)" by (simp add: bufs_def)
    then have "mset (rx_pool s) = mset bufs + mset (drop 32 (rx_pool s))" by (metis mset_append)
    then have "mset (rx_pool s @ ring_bufs R s) = mset (drop 32 (rx_pool s) @ ring_bufs R s @ bufs)" by simp
    from mset_eq_imp_distinct_iff [OF this] mset_eq_setD [OF this] show ?thesis
      using own unfolding rx_own_def ringb by simp
  qed
  moreover have "queue_set_up (rs_rxq s')" using set_up by (simp add: queue_set_up_def s'_def q_def)
  moreover have "rx_guard R s'" using p by (simp add: rx_guard_def)
  ultimately have "rx_ok R s'" by (simp add: rx_ok_def rx_inv_def)
  moreover have "rx_fields (rs_rxq s') = rx_fields (rs_rxq s)"
    by (simp add: rx_fields_def rx_ol_flags_def fun_eq_iff s'_def q_def)
  ultimately show ?thesis using run ringb by (intro exI [of _ s']) (simp add: n_def bufs_def)
qed

text \<open>The fields of a queue that no call changes.\<close>

definition queue_const :: "rx_queue \<Rightarrow> rx_queue" where
  "queue_const q = q\<lparr>rq_sw_ring := [], rq_rx_tail := 0, rq_rxrearm_nb := 0, rq_rxrearm_start := 0\<rparr>"

lemma rearm_loop_const: "rearm_loop k i s = Inr s' \<Longrightarrow> rs_rxq s' = rs_rxq s"
  by (induction k i s rule: rearm_loop.induct)
    (auto simp: bindR_eq_Inr set_ring_def Let_def split: option.splits)

lemma rearm_zero_const: "rearm_zero k i s = Inr s' \<Longrightarrow> queue_const (rs_rxq s') = queue_const (rs_rxq s)"
  by (induction k i s rule: rearm_zero.induct)
    (auto simp: bindR_eq_Inr set_ring_def set_sw_ring_def queue_const_def split: option.splits)

lemma rearm_const: "ixgbe_rxq_rearm s = Inr s' \<Longrightarrow> queue_const (rs_rxq s') = queue_const (rs_rxq s)"
proof -
  assume run: "ixgbe_rxq_rearm s = Inr s'"
  let ?get = "mempool_get_bulk (rq_mb_pool (rs_rxq s)) RTE_IXGBE_RXQ_REARM_THRESH (rs_drv s)"
  show ?thesis
  proof (cases ?get)
    case None
    then obtain t where "(if unat (rq_nb_rx_desc (rs_rxq s)) \<le> unat (rq_rxrearm_nb (rs_rxq s)) + RTE_IXGBE_RXQ_REARM_THRESH
        then rearm_zero RTE_IXGBE_DESCS_PER_LOOP (unat (rq_rxrearm_start (rs_rxq s))) s else Inr s) = Inr t" "rs_rxq s' = rs_rxq t"
      using run None unfolding ixgbe_rxq_rearm_def Let_def by (simp only: option.case bindR_eq_Inr) auto
    then show ?thesis using rearm_zero_const by (auto split: if_splits)
  next
    case (Some p)
    obtain bufs d where p: "p = (bufs, d)" by fastforce
    obtain sw where sw: "awrite (rx_sw s) (unat (rq_rxrearm_start (rs_rxq s))) (map Some bufs) = Some sw"
      using run Some by (auto simp: ixgbe_rxq_rearm_def Let_def p split: option.splits)
    let ?s = "s\<lparr>rs_drv := d, rs_rxq := (rs_rxq s)\<lparr>rq_sw_ring := sw\<rparr>\<rparr>"
    obtain t where t: "rearm_loop (RTE_IXGBE_RXQ_REARM_THRESH div 2) (unat (rq_rxrearm_start (rs_rxq s))) ?s = Inr t"
      "queue_const (rs_rxq s') = queue_const (rs_rxq t)"
      using run Some sw by (auto simp: ixgbe_rxq_rearm_def Let_def p bindR_eq_Inr queue_const_def)
    show ?thesis using t(2) rearm_loop_const [OF t(1)] by (simp add: queue_const_def)
  qed
qed

lemma refill:
  assumes inv: "rx_inv R s"
  shows "\<exists>s' t. (if RTE_IXGBE_RXQ_REARM_THRESH < unat (rq_rxrearm_nb (rs_rxq s)) then ixgbe_rxq_rearm s else Inr s) = Inr s' \<and>
    rx_ok R s' \<and> rx_log s' = rx_log s \<and> rx_buf s' = rx_buf s \<and> rx_n s' = rx_n s \<and> rx_fake s' = rx_fake s \<and>
    rx_fields (rs_rxq s') = rx_fields (rs_rxq s) \<and> queue_const (rs_rxq s') = queue_const (rs_rxq s) \<and>
    rx_pool s = t @ rx_pool s' \<and> ring_bufs R s' = ring_bufs R s @ t"
proof -
  have geom: "rx_geom s" and pos: "rx_pos R s" using inv by (auto simp: rx_inv_def)
  have n: "64 \<le> rx_n s" using geom_n [OF geom] by simp
  have S: "armed_end R s + unat (rq_rxrearm_nb (rs_rxq s)) = R + rx_n s" "R < armed_end R s"
    using pos by (auto simp: rx_pos_def armed_end_def)
  show ?thesis
  proof (cases "32 < unat (rq_rxrearm_nb (rs_rxq s))")
    case False
    then have "rx_ok R s" using inv S n by (simp add: rx_ok_def rx_guard_def)
    then show ?thesis using False by (intro exI [of _ s] exI [of _ "[]"]) (simp add: RTE_IXGBE_RXQ_REARM_THRESH_def)
  next
    case nb: True
    show ?thesis
    proof (cases "32 \<le> length (rx_pool s)")
      case True
      from refill_take [OF inv nb this] obtain s' where s': "ixgbe_rxq_rearm s = Inr s'" "rx_ok R s'" "rx_log s' = rx_log s"
        "rx_buf s' = rx_buf s" "rx_n s' = rx_n s" "rx_fake s' = rx_fake s" "rx_fields (rs_rxq s') = rx_fields (rs_rxq s)"
        "rx_pool s' = drop 32 (rx_pool s)" "ring_bufs R s' = ring_bufs R s @ take 32 (rx_pool s)" by blast
      have "rx_pool s = take 32 (rx_pool s) @ rx_pool s'" by (simp add: s'(8))
      then show ?thesis
        using s' nb rearm_const [OF s'(1)] unfolding RTE_IXGBE_RXQ_REARM_THRESH_def
        by (intro exI [of _ s'] exI [of _ "take 32 (rx_pool s)"] conjI) simp_all
    next
      case False
      define fin where "fin s = (s :: rx_state)\<lparr>rs_alloc_failed := rs_alloc_failed s + of_nat RTE_IXGBE_RXQ_REARM_THRESH\<rparr>" for s
      have get: "mempool_get_bulk (rq_mb_pool (rs_rxq s)) RTE_IXGBE_RXQ_REARM_THRESH (rs_drv s) = None"
        using False by (simp add: mempool_get_bulk_def rx_pool_def RTE_IXGBE_RXQ_REARM_THRESH_def)
      have start: "unat (rq_rxrearm_start (rs_rxq s)) = armed_end R s mod rx_n s" using pos by (simp add: rx_pos_def)
      have fin_same: "rx_ok R (fin s) = rx_ok R s" "rx_log (fin s) = rx_log s" "rx_buf (fin s) = rx_buf s" "rx_n (fin s) = rx_n s"
        "rx_fake (fin s) = rx_fake s" "rs_rxq (fin s) = rs_rxq s" "rx_pool (fin s) = rx_pool s" "ring_bufs R (fin s) = ring_bufs R s" for s
        using rx_ok_cong(1) [of "fin s" s R]
        by (simp_all add: fin_def rx_buf_def rx_n_def rx_pool_def fun_eq_iff ring_bufs_def ring_buf_def armed_end_def)
      show ?thesis
      proof (cases "unat (rq_nb_rx_desc (rs_rxq s)) \<le> unat (rq_rxrearm_nb (rs_rxq s)) + 32")
        case True
        then have "armed_end R s \<le> R + 32" using S by (simp add: rx_n_def)
        from refill_zero [OF inv this] obtain s' sw where s': "rearm_zero 4 (armed_end R s mod rx_n s) s = Inr s'" "rx_ok R s'"
          "rx_log s' = rx_log s" "rs_drv s' = rs_drv s" "rs_meta s' = rs_meta s" "rx_n s' = rx_n s"
          "rs_rxq s' = (rs_rxq s)\<lparr>rq_sw_ring := sw\<rparr>" "ring_bufs R s' = ring_bufs R s" by blast
        have run: "ixgbe_rxq_rearm s = Inr (fin s')"
          using get True s'(1) start
          by (simp add: ixgbe_rxq_rearm_def Let_def RTE_IXGBE_RXQ_REARM_THRESH_def RTE_IXGBE_DESCS_PER_LOOP_def fin_def)
        have "rx_fields (rs_rxq s') = rx_fields (rs_rxq s)" "rx_fake s' = rx_fake s" "rx_pool s' = rx_pool s" "rx_buf s' = rx_buf s"
          using s' by (simp_all add: rx_fields_def rx_ol_flags_def fun_eq_iff rx_pool_def rx_buf_def)
        then show ?thesis
          using run s' nb fin_same [of s'] rearm_const [OF run] by (intro exI [of _ "fin s'"] exI [of _ "[]"]) (simp add: RTE_IXGBE_RXQ_REARM_THRESH_def)
      next
        case False
        have run: "ixgbe_rxq_rearm s = Inr (fin s)"
          using get False by (simp add: ixgbe_rxq_rearm_def Let_def RTE_IXGBE_RXQ_REARM_THRESH_def fin_def)
        have "rx_ok R s" using inv False S by (simp add: rx_ok_def rx_guard_def rx_n_def)
        then show ?thesis
          using run nb fin_same [of s] by (intro exI [of _ "fin s"] exI [of _ "[]"]) (simp add: RTE_IXGBE_RXQ_REARM_THRESH_def)
      qed
    qed
  qed
qed

section \<open>A call\<close>

lemma tail_wrap:
  assumes "unat (n :: u16) = 2 ^ k" "2 ^ k \<le> (4096 :: nat)" "unat t < 2 ^ k" "nb \<le> 32"
  shows "unat ((t + of_nat nb) AND (n - 1)) = (unat t + nb) mod 2 ^ k"
proof -
  have "n = of_nat (unat n)" by simp
  then have "n = 2 ^ k" unfolding assms(1) by simp
  then have "n - 1 = mask k" by (simp add: mask_eq_exp_minus_1)
  moreover have "unat (t + of_nat nb) = unat t + nb"
    using assms by (subst unat_add_lem [THEN iffD1]) (simp_all add: unat_of_nat)
  ultimately show ?thesis by (simp add: take_bit_eq_mask [symmetric] unsigned_take_bit_eq) (simp add: take_bit_eq_mod)
qed

lemma advance:
  assumes ok: "rx_ok R s" and nb: "R + nb \<le> rx_done s" "nb \<le> 32"
  defines "q \<equiv> rs_rxq s"
  defines "s' \<equiv> s\<lparr>rs_rxq := q\<lparr>rq_rx_tail := (rq_rx_tail q + of_nat nb) AND (rq_nb_rx_desc q - 1),
    rq_rxrearm_nb := rq_rxrearm_nb q + of_nat nb\<rparr>\<rparr>"
  shows "rx_inv (R + nb) s'" "ring_bufs R s = map (ring_buf s) [R..<R + nb] @ ring_bufs (R + nb) s'"
proof -
  note f = rx_ok_facts [OF ok]
  define n where "n = rx_n s"
  define S where "S = armed_end R s"
  obtain k where n: "64 \<le> n" "n \<le> 4096" "n = 2 ^ k" using geom_n [OF f(2)] by (auto simp: n_def)
  have p: "rx_done s < S" "unat (rq_rxrearm_nb q) \<le> n" "S + unat (rq_rxrearm_nb q) = R + n" "unat (rq_rx_tail q) = R mod n"
    using f(3) by (auto simp: rx_pos_def S_def n_def q_def armed_end_def)
  have tail: "unat ((rq_rx_tail q + of_nat nb) AND (rq_nb_rx_desc q - 1)) = (R + nb) mod n"
    using tail_wrap [of "rq_nb_rx_desc q" k "rq_rx_tail q" nb] n nb p(4) by (simp add: n_def rx_n_def q_def mod_simps)
  have nb': "unat (rq_rxrearm_nb q + of_nat nb) = unat (rq_rxrearm_nb q) + nb"
    using p n nb by (subst unat_add_lem [THEN iffD1]) (simp_all add: unat_of_nat)
  have [simp]: "rx_n s' = n" "rx_done s' = rx_done s" "rx_fake s' = rx_fake s"
    "rs_nic s' = rs_nic s" "rx_sw s' = rx_sw s" "buf_dma s' = buf_dma s" "ring_buf s' = ring_buf s"
    "rq_rxrearm_nb (rs_rxq s') = rq_rxrearm_nb q + of_nat nb" "rq_rx_tail (rs_rxq s') = (rq_rx_tail q + of_nat nb) AND (rq_nb_rx_desc q - 1)"
    "rq_rxrearm_start (rs_rxq s') = rq_rxrearm_start q" "rx_pool s' = rx_pool s"
    by (simp_all add: s'_def q_def rx_n_def n_def rx_done_def rx_pool_def buf_dma_def ring_buf_def fun_eq_iff)
  have S' [simp]: "armed_end (R + nb) s' = S" using p nb' by (simp add: armed_end_def)
  have "[R..<S] = [R..<R + nb] @ [R + nb..<S]" using upt_add_eq_append [of R "R + nb" "S - (R + nb)"] nb p by simp
  then show ringb: "ring_bufs R s = map (ring_buf s) [R..<R + nb] @ ring_bufs (R + nb) s'"
    by (simp add: ring_bufs_def S_def [symmetric])
  have "rx_geom s'" using f(2) by (simp add: rx_geom_def n_def)
  moreover have "rx_pos (R + nb) s'"
    unfolding rx_pos_def using f(3) nb p tail nb' by (simp add: rx_pos_def S_def n_def q_def)
  moreover have "rx_descs (R + nb) s'" using f(4) by (simp add: rx_descs_def S_def n_def)
  moreover have "rx_own (R + nb) s'" using f(5) unfolding rx_own_def ringb by auto
  moreover have "queue_set_up (rs_rxq s')" using f(1) by (simp add: queue_set_up_def s'_def q_def)
  ultimately show "rx_inv (R + nb) s'" by (simp add: rx_inv_def)
qed

text \<open>A packet and the entry of the device's log that it comes from.\<close>

definition packet_of :: "rx_state \<Rightarrow> rx_state \<Rightarrow> nat \<Rightarrow> u64 \<times> m128 \<Rightarrow> bool" where
  "packet_of s s' m x \<longleftrightarrow> buf_dma s' m = fst x \<and> rx_buf s' m = rx_fields (rs_rxq s) (snd x) (rx_buf s m)"

definition eop_flag :: "u64 \<times> m128 \<Rightarrow> u8" where "eop_flag x = (if desc_eop (snd x) then 0 else 2)"

lemma groups_bound:
  fixes nb :: u16
  defines "g \<equiv> unat (min nb 32 AND NOT (4 - 1)) div 4"
  shows "4 * g \<le> 32" "4 * g \<le> unat nb" "4 \<le> unat nb \<Longrightarrow> 0 < g"
proof -
  let ?m = "min nb 32"
  have m: "unat ?m = min (unat nb) 32" by (simp add: min_def word_le_nat_alt)
  have s: "Suc (Suc (i - 2)) = i" if "2 \<le> i" for i :: nat using that by simp
  have "?m AND NOT (4 - 1) = ?m AND NOT (mask 2)" by (simp add: mask_eq_exp_minus_1)
  also have "\<dots> = push_bit 2 (drop_bit 2 ?m)" by (rule bit_word_eqI) (auto simp: bit_simps s not_less)
  finally have "unat (?m AND NOT (4 - 1)) = unat (push_bit 2 (drop_bit 2 ?m))" by simp
  also have "\<dots> = unat ?m div 4 * 4"
  proof -
    define d where "d = drop_bit 2 ?m"
    have "unat d = drop_bit 2 (unat ?m)" unfolding d_def by (rule unat_drop_bit_eq)
    then have d: "unat d = unat ?m div 4" by (simp add: drop_bit_eq_div)
    have "unat (push_bit 2 d) = take_bit 16 (unat ?m div 4 * 4)"
      using d by (simp add: push_bit_eq_mult unat_word_ariths take_bit_eq_mod)
    then have "unat (push_bit 2 (drop_bit 2 ?m)) = take_bit 16 (unat ?m div 4 * 4)" unfolding d_def .
    also have "\<dots> = unat ?m div 4 * 4" using m by (intro take_bit_nat_eq_self) auto
    finally show ?thesis .
  qed
  finally have "g = unat ?m div 4" by (simp add: g_def)
  then show "4 * g \<le> 32" "4 * g \<le> unat nb" "4 \<le> unat nb \<Longrightarrow> 0 < g" using m by auto
qed

lemma recv_core:
  assumes inv: "rx_inv R s" and dev: "device_ok (rx_n s) dev"
  shows "\<exists>s' pkts split nb t l. recv_raw_pkts_vec dev nb_pkts s = Inr (s', pkts, split, nb) \<and>
    rx_inv (R + nb) s' \<and> nb \<le> 32 \<and> nb \<le> unat nb_pkts \<and> nb \<le> length pkts \<and> nb \<le> length split \<and> rx_log s' = rx_log s @ l \<and>
    list_all2 (packet_of s s') (take nb pkts) (take nb (drop R (rx_log s'))) \<and>
    take nb split = map eop_flag (take nb (drop R (rx_log s'))) \<and>
    (\<forall>x \<in> set (take nb (drop R (rx_log s'))). full_desc (snd x)) \<and>
    queue_const (rs_rxq s') = queue_const (rs_rxq s) \<and> rx_n s' = rx_n s \<and>
    (\<forall>m. buf_link (d_mbufs (rs_drv s') m) = buf_link (d_mbufs (rs_drv s) m)) \<and>
    rx_pool s = t @ rx_pool s' \<and> ring_bufs R s @ t = take nb pkts @ ring_bufs (R + nb) s' \<and>
    (\<forall>m. m \<notin> set (rx_pool s @ ring_bufs R s) \<longrightarrow> m \<noteq> rx_fake s \<longrightarrow> rx_buf s' m = rx_buf s m) \<and>
    (4 \<le> unat nb_pkts \<longrightarrow> R < rx_done s \<longrightarrow> 0 < nb)"
proof -
  from refill [OF inv] obtain a t where a: "(if RTE_IXGBE_RXQ_REARM_THRESH < unat (rq_rxrearm_nb (rs_rxq s)) then ixgbe_rxq_rearm s else Inr s) = Inr a"
    "rx_ok R a" "rx_log a = rx_log s" "rx_buf a = rx_buf s" "rx_n a = rx_n s" "rx_fake a = rx_fake s"
    "rx_fields (rs_rxq a) = rx_fields (rs_rxq s)" "rx_pool s = t @ rx_pool a" "ring_bufs R a = ring_bufs R s @ t"
    "queue_const (rs_rxq a) = queue_const (rs_rxq s)" by blast
  have link_a: "buf_link (d_mbufs (rs_drv a) m) = buf_link (d_mbufs (rs_drv s) m)" for m
    using fun_cong [OF a(4), of m] by (simp add: rx_buf_def)
  obtain b d where load: "rx_load dev 0 (unat (rq_rx_tail (rs_rxq a))) a = (b, d)" by fastforce
  have dev_a: "device_ok (rx_n a) dev" using dev a(5) by simp
  note adv = rx_load_adv [OF a(2) dev_a load]
  note B = rx_adv_same [OF adv(1)]
  note fb = rx_ok_facts [OF B(1)]
  have n: "64 \<le> rx_n b" using geom_n [OF fb(2)] by simp
  have p: "R \<le> rx_done b" "unat (rq_rx_tail (rs_rxq a)) = R mod rx_n b"
    using fb(3) B(2) by (auto simp: rx_pos_def)
  have Rn: "R mod rx_n b < rx_n b" using n by simp
  have bound: "\<not> length (rx_ring b) \<le> R mod rx_n b" using fb(2) Rn by (auto simp: rx_geom_def)
  obtain l1 where l1: "rx_log b = rx_log s @ l1" using adv(1) a(3) by (auto simp: rx_adv_def)
  have pool_b: "rx_pool b = rx_pool a" "ring_bufs R b = ring_bufs R a" "rx_buf b = rx_buf s"
    using B a(4) by (simp_all add: rx_pool_def ring_bufs_def)
  define g where "g = unat (min nb_pkts 32 AND NOT (4 - 1)) div 4"
  note G = groups_bound [of nb_pkts, folded g_def]
  have run: "recv_raw_pkts_vec dev nb_pkts s =
      (if \<not> desc_done d then Inr (b, [], [], 0)
       else bindR (recv_loop dev (burst_init (rs_rxq b)) (ucast (rq_vlan_flags (rs_rxq b))) (burst_udp (rs_rxq b)) g 0 [] [] 0 b) (\<lambda>(s, pkts, split, nb).
                let q = rs_rxq s;
                    tail = (rq_rx_tail q + of_nat nb) AND (rq_nb_rx_desc q - 1)
                in Inr (s\<lparr>rs_rxq := q\<lparr>rq_rx_tail := tail, rq_rxrearm_nb := rq_rxrearm_nb q + of_nat nb\<rparr>\<rparr>,
                     pkts, split, nb)))"
    unfolding recv_raw_pkts_vec_def Let_def a(1) bindR_Inr load prod.case
    using bound by (simp add: g_def RTE_IXGBE_RXQ_REARM_THRESH_def RTE_IXGBE_DESCS_PER_LOOP_def B(2) p(2))
  show ?thesis
  proof (cases "desc_done d")
    case False
    have "\<not> R < rx_done s"
    proof
      assume "R < rx_done s"
      then have "R < rx_done b" using l1 by (simp add: rx_done_def)
      then have "desc_done (rx_ring b ! (R mod rx_n b + 0))"
        using group_load(1) [OF B(1), of 0 0] p(1) Rn by simp
      then show False using False adv(2) p(2) by simp
    qed
    then show ?thesis
      using run False fb(7) l1 pool_b a(5,8,9,10) B(2,3,5) link_a
      by (intro exI [of _ b] exI [of _ "[]"] exI [of _ "0 :: nat"] exI [of _ t] exI [of _ l1]) simp
  next
    case True
    have "device_ok (rx_n b) dev" using dev_a B(5) by simp
    from recv_loop_delivers [OF B(1) this, of 0 g "[]" "[]" 0] G(1) p(1) Rn obtain c ms es k where
      l: "recv_loop dev (burst_init (rs_rxq b)) (ucast (rq_vlan_flags (rs_rxq b))) (burst_udp (rs_rxq b)) g 0 [] [] 0 b = Inr (c, ms, es, k)"
        "delivers R 0 b c ms es k" "length ms \<le> 4 * g" "0 < g \<longrightarrow> R < rx_done b \<longrightarrow> 0 < k"
      by auto
    note D = deliversD [OF l(2)]
    have k: "k \<le> 32" "k \<le> unat nb_pkts" using D(5) l(3) G(1,2) by linarith+
    have "R + k \<le> rx_done c" using D(7) by simp
    note A = advance [OF D(1) this k(1)]
    define s' where "s' = c\<lparr>rs_rxq := (rs_rxq c)\<lparr>rq_rx_tail := (rq_rx_tail (rs_rxq c) + of_nat k) AND (rq_nb_rx_desc (rs_rxq c) - 1),
      rq_rxrearm_nb := rq_rxrearm_nb (rs_rxq c) + of_nat k\<rparr>\<rparr>"
    have s': "rx_log s' = rx_log c" "rx_buf s' = rx_buf c" "rx_pool s' = rx_pool c" "buf_dma s' = buf_dma c"
      by (simp_all add: s'_def rx_buf_def rx_pool_def buf_dma_def fun_eq_iff)
    obtain l2 where l2: "rx_log c = rx_log b @ l2" using D(4) by blast
    have take_ms: "take k ms = map (ring_buf c) [R..<R + k]"
      by (rule nth_equalityI) (use D(5,9,16) in auto)
    have lk: "length (take k (drop R (rx_log c))) = k" using D(7) by (simp add: rx_done_def)
    have "packet_of s s' (ms ! j) (rx_log c ! (R + j))" if "j < k" for j
    proof -
      have "fst (rx_log c ! (R + j)) = buf_dma c (ring_buf c (R + j))"
        using rx_ok_facts(4) [OF D(1)] D(7) that by (simp add: rx_descs_def)
      then show ?thesis
        using D(9,10) [OF that] D(16) pool_b(3) B(2) a(7) by (simp add: packet_of_def s')
    qed
    then have "list_all2 (packet_of s s') (take k ms) (take k (drop R (rx_log s')))"
      using lk D(5) unfolding s' by (auto simp: list_all2_conv_all_nth rx_done_def)
    moreover have "\<forall>x \<in> set (take k (drop R (rx_log s'))). full_desc (snd x)"
    proof
      fix x
      assume "x \<in> set (take k (drop R (rx_log s')))"
      then obtain i where "i < k" "x = rx_log c ! (R + i)" using lk unfolding s' by (auto simp: in_set_conv_nth)
      then show "full_desc (snd x)" using rx_ok_facts(4) [OF D(1)] D(7) by (simp add: rx_descs_def)
    qed
    moreover have "take k es = map eop_flag (take k (drop R (rx_log s')))"
      using D(5,6,7,11) unfolding s' by (intro nth_equalityI) (auto simp: rx_done_def eop_flag_def)
    moreover have "rx_buf s' m = rx_buf s m" if "m \<notin> set (rx_pool s @ ring_bufs R s)" "m \<noteq> rx_fake s" for m
    proof -
      have "m \<notin> set (ring_bufs R b)" "m \<noteq> rx_fake b" using that a(6,8,9) pool_b B(2) by auto
      then have "m \<notin> set ms" using D(13) by (auto simp: ring_bufs_def)
      then show ?thesis using D(12) pool_b(3) s' by simp
    qed
    moreover have "rx_pool s = t @ rx_pool s'" using a(8) pool_b D(2,3) s'(3) by (simp add: rx_pool_def)
    moreover have "ring_bufs R s @ t = take k ms @ ring_bufs (R + k) s'"
      using A(2) a(9) pool_b(2) D(15,16) take_ms by (simp add: s'_def ring_bufs_def)
    moreover have "rx_inv (R + k) s'" using A(1) by (simp add: s'_def)
    moreover have "queue_const (rs_rxq s') = queue_const (rs_rxq s)"
      using a(10) B(2) D(2) by (simp add: s'_def queue_const_def)
    moreover have "rx_n s' = rx_n s" using a(5) B(5) D(14) by (simp add: s'_def rx_n_def)
    moreover have "buf_link (d_mbufs (rs_drv s') m) = buf_link (d_mbufs (rs_drv s) m)" for m
      using link_a B(3) D(17) by (simp add: s'_def)
    moreover have "4 \<le> unat nb_pkts \<longrightarrow> R < rx_done s \<longrightarrow> 0 < k"
      using G(3) l(4) l1 by (auto simp: rx_done_def)
    moreover have "recv_raw_pkts_vec dev nb_pkts s = Inr (s', ms, es, k)"
      using run True l(1) by (simp add: s'_def Let_def)
    ultimately show ?thesis
      using k D(5,6) l1 l2 s'(1)
      by (intro exI [of _ s'] exI [of _ ms] exI [of _ es] exI [of _ k] exI [of _ t] exI [of _ "l1 @ l2"]) simp
  qed
qed

end
