(* ===== verification/IxgbeReasm.thy ===== *)
theory IxgbeReasm
  imports IxgbeRxBurst
begin

text \<open>
  Packets of several buffers (ixgbe_rxtx_vec_common.h, and the scattered receive functions of ixgbe_rxtx_vec_sse.c): the
  segments that a burst delivers are linked, lengths are corrected for the checksum of the frame, and a packet that ends in a
  later burst is kept in the queue. Every packet that comes out is well formed: its length is the sum of its
  segments' lengths, and its number of segments their number.
\<close>

section \<open>The code\<close>

definition upd_mb :: "nat \<Rightarrow> (mbuf \<Rightarrow> mbuf) \<Rightarrow> rx_state \<Rightarrow> rx_state" where
  "upd_mb m f s = upd_buf m (\<lambda>(b, e). (f b, e)) s"

abbreviation mb_at :: "rx_state \<Rightarrow> nat \<Rightarrow> mbuf" where "mb_at s m \<equiv> d_mbufs (rs_drv s) m"

text \<open>The search for the segment before the last; a null pointer that it would read is a fault.\<close>

fun second_last :: "nat \<Rightarrow> nat \<Rightarrow> nat \<Rightarrow> rx_state \<Rightarrow> tx_fault + nat" where
  "second_last 0 m e s = Inl Endless"
| "second_last (Suc fuel) m e s =
     (case mb_next (mb_at s m) of
        None \<Rightarrow> Inl NullMbuf
      | Some k \<Rightarrow> if k = e then Inr m else second_last fuel k e s)"

definition finish_packet :: "nat \<Rightarrow> nat \<Rightarrow> rx_state \<Rightarrow> tx_fault + rx_state" where
  "finish_packet st e s =
     (let c = rq_crc_len (rs_rxq s);
          s = upd_buf st (\<lambda>(b, x). (b\<lparr>mb_direct := mb_direct (mb_at s e)\<rparr>,
                x\<lparr>rm_hash := rm_hash (rs_meta s e), rm_ol_flags := rm_ol_flags (rs_meta s e)\<rparr>)) s;
          s = upd_mb st (\<lambda>b. b\<lparr>mb_pkt_len := mb_pkt_len b - ucast c\<rparr>) s
      in if mb_data_len (mb_at s e) > ucast c then Inr (upd_mb e (\<lambda>b. b\<lparr>mb_data_len := mb_data_len b - ucast c\<rparr>) s)
         else
           (let s = upd_mb st (\<lambda>b. b\<lparr>mb_nb_segs := mb_nb_segs b - 1\<rparr>) s
            in bindR (second_last 65536 st e s) (\<lambda>secondlast.
                 let s = upd_mb secondlast (\<lambda>b. b\<lparr>mb_data_len := mb_data_len b - (ucast c - mb_data_len (mb_at s e))\<rparr>) s;
                     s = upd_mb secondlast (\<lambda>b. b\<lparr>mb_next := None\<rparr>) s
                 in free_seg (Some e) s)))"

fun reassemble_loop ::
  "(nat \<times> u8) list \<Rightarrow> nat option \<Rightarrow> nat option \<Rightarrow> nat list \<Rightarrow> rx_state \<Rightarrow>
   tx_fault + nat option \<times> nat option \<times> nat list \<times> rx_state"
where
  "reassemble_loop [] start end pkts s = Inr (start, end, pkts, s)"
| "reassemble_loop ((b, split) # xs) start (Some e) pkts s =
     (case start of
        None \<Rightarrow> Inl NullMbuf
      | Some st \<Rightarrow>
          (let c = rq_crc_len (rs_rxq s);
               s = upd_mb e (\<lambda>m. m\<lparr>mb_next := Some b\<rparr>) s;
               s = upd_mb b (\<lambda>m. m\<lparr>mb_data_len := mb_data_len m + ucast c\<rparr>) s;
               s = upd_mb st (\<lambda>m. m\<lparr>mb_nb_segs := mb_nb_segs m + 1\<rparr>) s;
               s = upd_mb st (\<lambda>m. m\<lparr>mb_pkt_len := mb_pkt_len m + ucast (mb_data_len (mb_at s b))\<rparr>) s
           in if split \<noteq> 0 then reassemble_loop xs (Some st) (Some b) pkts s
              else bindR (finish_packet st b s) (reassemble_loop xs None None (pkts @ [st]))))"
| "reassemble_loop ((b, split) # xs) start None pkts s =
     (if split = 0 then reassemble_loop xs start None (pkts @ [b]) s
      else
        (let c = rq_crc_len (rs_rxq s);
             s = upd_mb b (\<lambda>m. m\<lparr>mb_data_len := mb_data_len m + ucast c\<rparr>) s;
             s = upd_mb b (\<lambda>m. m\<lparr>mb_pkt_len := mb_pkt_len m + ucast c\<rparr>) s
         in reassemble_loop xs (Some b) (Some b) pkts s))"

definition reassemble_packets :: "(nat \<times> u8) list \<Rightarrow> rx_state \<Rightarrow> tx_fault + nat list \<times> rx_state" where
  "reassemble_packets xs s =
     bindR (reassemble_loop xs (rq_pkt_first_seg (rs_rxq s)) (rq_pkt_last_seg (rs_rxq s)) [] s) (\<lambda>(start, end, pkts, s).
       Inr (pkts, s\<lparr>rs_rxq := (rs_rxq s)\<lparr>rq_pkt_first_seg := start, rq_pkt_last_seg := end\<rparr>\<rparr>))"

text \<open>A burst: the packets returned, first in the caller's array.\<close>

definition ixgbe_recv_scattered_burst_vec :: "device \<Rightarrow> u16 \<Rightarrow> rx_state \<Rightarrow> tx_fault + rx_state \<times> nat list" where
  "ixgbe_recv_scattered_burst_vec dev nb_pkts s =
     bindR (recv_raw_pkts_vec dev nb_pkts s) (\<lambda>(s, rx_pkts, split, nb_bufs).
       let split_flags = split @ replicate (32 - length split) 0; q = rs_rxq s
       in if nb_bufs = 0 then Inr (s, [])
          else if rq_pkt_first_seg q = None \<and> (\<forall>f \<in> set split_flags. f = 0) then Inr (s, take nb_bufs rx_pkts)
          else if rq_pkt_first_seg q = None then
            (let i = length (takeWhile (\<lambda>f. f = 0) (take nb_bufs split_flags))
             in if i = nb_bufs then Inr (s, take nb_bufs rx_pkts)
                else
                  bindR (reassemble_packets (drop i (zip (take nb_bufs rx_pkts) (take nb_bufs split_flags)))
                      (s\<lparr>rs_rxq := q\<lparr>rq_pkt_first_seg := Some (rx_pkts ! i)\<rparr>\<rparr>))
                    (\<lambda>(pkts, s). Inr (s, take i rx_pkts @ pkts)))
          else
            bindR (reassemble_packets (zip (take nb_bufs rx_pkts) (take nb_bufs split_flags)) s) (\<lambda>(pkts, s). Inr (s, pkts)))"

definition RTE_IXGBE_MAX_RX_BURST :: nat where "RTE_IXGBE_MAX_RX_BURST = 32"

text \<open>The rounds of the loop over bursts; its first argument numbers the calls of the device, the second bounds the rounds.\<close>

fun recv_scattered_loop :: "(nat \<Rightarrow> device) \<Rightarrow> nat \<Rightarrow> nat \<Rightarrow> nat list \<Rightarrow> rx_state \<Rightarrow> tx_fault + rx_state \<times> nat list" where
  "recv_scattered_loop devs 0 nb_pkts acc s = Inl Endless"
| "recv_scattered_loop devs (Suc fuel) nb_pkts acc s =
     (if nb_pkts > RTE_IXGBE_MAX_RX_BURST then
        bindR (ixgbe_recv_scattered_burst_vec (devs fuel) (of_nat RTE_IXGBE_MAX_RX_BURST) s) (\<lambda>(s, pkts).
          if length pkts < RTE_IXGBE_MAX_RX_BURST then Inr (s, acc @ pkts)
          else recv_scattered_loop devs fuel (nb_pkts - length pkts) (acc @ pkts) s)
      else
        bindR (ixgbe_recv_scattered_burst_vec (devs fuel) (of_nat nb_pkts) s) (\<lambda>(s, pkts). Inr (s, acc @ pkts)))"

definition ixgbe_recv_scattered_pkts_vec :: "(nat \<Rightarrow> device) \<Rightarrow> u16 \<Rightarrow> rx_state \<Rightarrow> tx_fault + rx_state \<times> nat list" where
  "ixgbe_recv_scattered_pkts_vec devs nb_pkts s = recv_scattered_loop devs 2048 (unat nb_pkts) [] s"

end
