(* ===== verification/IxgbeSegs.thy ===== *)
theory IxgbeSegs
  imports IxgbeReasm "HOL-Library.Sublist"
begin

text \<open>
  The reassembly of packets: one buffer at a time, and the loop over the buffers of a burst. Every packet that comes out is well
  formed, the packet whose end has not come yet is kept, and no buffer is lost: a last segment that held only the
  checksum goes back to the pool.
\<close>

section \<open>Well-formed packets\<close>

lemma upd_mb_simps [simp]:
  "mb_at (upd_mb m f s) x = (if x = m then f (mb_at s m) else mb_at s x)"
  "rs_rxq (upd_mb m f s) = rs_rxq s" "rs_nic (upd_mb m f s) = rs_nic s" "d_pools (rs_drv (upd_mb m f s)) = d_pools (rs_drv s)"
  using rx_buf_upd_buf [of m "\<lambda>(b, e). (f b, e)" s x] by (auto simp: upd_mb_def rx_buf_def split: prod.splits)

definition seg_sum :: "rx_state \<Rightarrow> nat list \<Rightarrow> u32" where
  "seg_sum s p = sum_list (map (\<lambda>m. ucast (mb_data_len (mb_at s m))) p)"

definition chain :: "rx_state \<Rightarrow> nat list \<Rightarrow> bool" where
  "chain s p \<longleftrightarrow> (\<forall>i < length p. mb_next (mb_at s (p ! i)) = (if Suc i < length p then Some (p ! Suc i) else None))"

text \<open>What the library checks of a packet: the segments are linked, and the first has their number and the sum of their lengths.\<close>

definition wf_packet :: "rx_state \<Rightarrow> nat list \<Rightarrow> bool" where
  "wf_packet s p \<longleftrightarrow> p \<noteq> [] \<and> distinct p \<and> chain s p \<and> mb_nb_segs (mb_at s (hd p)) = of_nat (length p) \<and>
     mb_pkt_len (mb_at s (hd p)) = seg_sum s p"

definition seg_ready :: "rx_state \<Rightarrow> nat \<Rightarrow> bool" where
  "seg_ready s m \<longleftrightarrow> mb_refcnt (mb_at s m) = 1 \<and> mb_direct (mb_at s m)"

abbreviation crc16 :: "rx_state \<Rightarrow> u16" where "crc16 s \<equiv> ucast (rq_crc_len (rs_rxq s))"

text \<open>The packet whose end has not come yet: its segments still have the checksum's length.\<close>

definition open_ok :: "rx_state \<Rightarrow> nat list \<Rightarrow> bool" where
  "open_ok s p \<longleftrightarrow> wf_packet s p \<and> (\<forall>m \<in> set p. seg_ready s m \<and> crc16 s \<le> mb_data_len (mb_at s m))"

text \<open>A buffer as a burst delivers it, with its flag.\<close>

definition fresh_seg :: "rx_state \<Rightarrow> nat \<times> u8 \<Rightarrow> bool" where
  "fresh_seg s x = (let b = mb_at s (fst x) in
     mb_next b = None \<and> mb_nb_segs b = 1 \<and> seg_ready s (fst x) \<and> mb_pkt_len b = ucast (mb_data_len b) \<and>
     (snd x \<noteq> 0 \<longrightarrow> crc16 s \<le> mb_data_len b + crc16 s))"

lemma seg_sum_simps [simp]: "seg_sum s [] = 0" "seg_sum s (m # p) = ucast (mb_data_len (mb_at s m)) + seg_sum s p"
  "seg_sum s (p @ p') = seg_sum s p + seg_sum s p'"
  by (simp_all add: seg_sum_def)

lemma seg_sum_cong: "(\<And>m. m \<in> set p \<Longrightarrow> mb_data_len (mb_at s' m) = mb_data_len (mb_at s m)) \<Longrightarrow> seg_sum s' p = seg_sum s p"
  by (simp add: seg_sum_def cong: map_cong)

lemma chain_cong: "(\<And>m. m \<in> set p \<Longrightarrow> mb_next (mb_at s' m) = mb_next (mb_at s m)) \<Longrightarrow> chain s' p = chain s p"
  by (simp add: chain_def)

lemma wf_packet_cong: "(\<And>m. m \<in> set p \<Longrightarrow> mb_at s' m = mb_at s m) \<Longrightarrow> wf_packet s' p = wf_packet s p"
  using seg_sum_cong [of p s' s] chain_cong [of p s' s] by (auto simp: wf_packet_def)

lemma open_ok_cong:
  "(\<And>m. m \<in> set p \<Longrightarrow> mb_at s' m = mb_at s m) \<Longrightarrow> rq_crc_len (rs_rxq s') = rq_crc_len (rs_rxq s) \<Longrightarrow> open_ok s' p = open_ok s p"
  using wf_packet_cong [of p s' s] by (auto simp: open_ok_def seg_ready_def)

lemma fresh_seg_cong: "mb_at s' (fst x) = mb_at s (fst x) \<Longrightarrow> rq_crc_len (rs_rxq s') = rq_crc_len (rs_rxq s) \<Longrightarrow>
    fresh_seg s' x = fresh_seg s x"
  by (simp add: fresh_seg_def seg_ready_def)

lemma chain_snoc:
  assumes "chain s' xs" "xs \<noteq> []"
    and "\<And>m. m \<in> set xs \<Longrightarrow> m \<noteq> last xs \<Longrightarrow> mb_next (mb_at s m) = mb_next (mb_at s' m)"
    and "mb_next (mb_at s (last xs)) = Some e" "mb_next (mb_at s e) = None" "distinct xs"
  shows "chain s (xs @ [e])"
  unfolding chain_def
proof (intro allI impI)
  fix i
  assume i: "i < length (xs @ [e])"
  consider "Suc i < length xs" | "Suc i = length xs" | "i = length xs" using i by fastforce
  then show "mb_next (mb_at s ((xs @ [e]) ! i)) = (if Suc i < length (xs @ [e]) then Some ((xs @ [e]) ! Suc i) else None)"
  proof cases
    case 1
    then have "xs ! i \<noteq> last xs" using assms(2,6) by (simp add: last_conv_nth nth_eq_iff_index_eq)
    then show ?thesis using 1 assms(1,3) by (simp add: chain_def nth_append)
  next
    case 2
    then show ?thesis using assms(2,4) by (simp add: nth_append last_conv_nth flip: 2)
  qed (use assms(5) in simp)
qed

lemma chain_butlast: "chain s (xs @ [e]) \<Longrightarrow> xs \<noteq> [] \<Longrightarrow> mb_next (mb_at s (last xs)) = Some e \<and>
    (\<forall>i. Suc i < length xs \<longrightarrow> mb_next (mb_at s (xs ! i)) = Some (xs ! Suc i))"
  unfolding chain_def
proof (intro conjI allI impI)
  assume c: "\<forall>i<length (xs @ [e]). mb_next (mb_at s ((xs @ [e]) ! i)) = (if Suc i < length (xs @ [e]) then Some ((xs @ [e]) ! Suc i) else None)"
    and ne: "xs \<noteq> []"
  show "mb_next (mb_at s (last xs)) = Some e"
    using spec [OF c, of "length xs - 1"] ne by (simp add: nth_append last_conv_nth)
  fix i
  assume "Suc i < length xs"
  then show "mb_next (mb_at s (xs ! i)) = Some (xs ! Suc i)" using spec [OF c, of i] by (simp add: nth_append)
qed

lemma second_last_chain:
  "chain s (xs @ [e]) \<Longrightarrow> xs \<noteq> [] \<Longrightarrow> e \<notin> set xs \<Longrightarrow> length xs \<le> fuel \<Longrightarrow> second_last fuel (hd xs) e s = Inr (last xs)"
proof (induction xs arbitrary: fuel)
  case (Cons x xs)
  obtain fuel' where fuel: "fuel = Suc fuel'" using Cons.prems(4) by (cases fuel) auto
  show ?case
  proof (cases "xs = []")
    case True
    then show ?thesis using chain_butlast [OF Cons.prems(1)] fuel by simp
  next
    case False
    then obtain y ys where xs: "xs = y # ys" by (cases xs) auto
    have "mb_next (mb_at s x) = Some y" using chain_butlast [OF Cons.prems(1)] xs by (auto dest: spec [of _ 0])
    moreover have "chain s (xs @ [e])"
      unfolding chain_def
    proof (intro allI impI)
      fix i
      assume "i < length (xs @ [e])"
      then show "mb_next (mb_at s ((xs @ [e]) ! i)) = (if Suc i < length (xs @ [e]) then Some ((xs @ [e]) ! Suc i) else None)"
        using Cons.prems(1) unfolding chain_def by (auto dest: spec [of _ "Suc i"])
    qed
    ultimately show ?thesis using Cons.IH [of fuel'] Cons.prems fuel xs by auto
  qed
qed simp

section \<open>One segment\<close>

definition append_seg :: "nat \<Rightarrow> nat \<Rightarrow> nat \<Rightarrow> rx_state \<Rightarrow> rx_state" where
  "append_seg st e b s =
     (let c = rq_crc_len (rs_rxq s);
          s = upd_mb e (\<lambda>m. m\<lparr>mb_next := Some b\<rparr>) s;
          s = upd_mb b (\<lambda>m. m\<lparr>mb_data_len := mb_data_len m + ucast c\<rparr>) s;
          s = upd_mb st (\<lambda>m. m\<lparr>mb_nb_segs := mb_nb_segs m + 1\<rparr>) s
      in upd_mb st (\<lambda>m. m\<lparr>mb_pkt_len := mb_pkt_len m + ucast (mb_data_len (mb_at s b))\<rparr>) s)"

lemma append_seg_same [simp]:
  "rs_rxq (append_seg st e b s) = rs_rxq s" "rs_nic (append_seg st e b s) = rs_nic s"
  "d_pools (rs_drv (append_seg st e b s)) = d_pools (rs_drv s)"
  "x \<notin> {st, e, b} \<Longrightarrow> mb_at (append_seg st e b s) x = mb_at s x"
  "buf_dma (append_seg st e b s) x = buf_dma s x" "mb_pool (mb_at (append_seg st e b s) x) = mb_pool (mb_at s x)"
  by (auto simp: append_seg_def Let_def buf_dma_def)

lemma append_seg_wf:
  assumes o: "open_ok s p" and f: "fresh_seg s (b, f)" and b: "b \<notin> set p"
  defines "s' \<equiv> append_seg (hd p) (last p) b s"
  shows "wf_packet s' (p @ [b])" "\<forall>m \<in> set (p @ [b]). seg_ready s' m" "\<forall>m \<in> set p. crc16 s \<le> mb_data_len (mb_at s' m)"
    "mb_data_len (mb_at s' b) = mb_data_len (mb_at s b) + crc16 s"
proof -
  have wf: "wf_packet s p" using o by (simp add: open_ok_def)
  have p: "p \<noteq> []" "distinct p" using wf by (simp_all add: wf_packet_def)
  have ne: "b \<noteq> hd p" "b \<noteq> last p" using b p(1) by auto
  have dl: "mb_data_len (mb_at s' m) = mb_data_len (mb_at s m)" if "m \<in> set p" for m
    using b that by (auto simp: s'_def append_seg_def Let_def)
  show db: "mb_data_len (mb_at s' b) = mb_data_len (mb_at s b) + crc16 s"
    using ne by (auto simp: s'_def append_seg_def Let_def)
  show "\<forall>m \<in> set (p @ [b]). seg_ready s' m"
    using o f by (auto simp: open_ok_def fresh_seg_def Let_def seg_ready_def s'_def append_seg_def)
  show "\<forall>m \<in> set p. crc16 s \<le> mb_data_len (mb_at s' m)" using o dl by (simp add: open_ok_def)
  have "chain s' (p @ [b])"
  proof (rule chain_snoc)
    show "chain s p" using wf by (simp add: wf_packet_def)
    show "mb_next (mb_at s' (last p)) = Some b" using ne by (auto simp: s'_def append_seg_def Let_def)
    show "mb_next (mb_at s' b) = None" using ne f by (auto simp: s'_def append_seg_def Let_def fresh_seg_def)
    show "mb_next (mb_at s' m) = mb_next (mb_at s m)" if "m \<in> set p" "m \<noteq> last p" for m
      using b that by (auto simp: s'_def append_seg_def Let_def)
  qed (use p in auto)
  moreover have "mb_nb_segs (mb_at s' (hd p)) = of_nat (length (p @ [b]))"
    using wf ne by (auto simp: s'_def append_seg_def Let_def wf_packet_def)
  moreover have "mb_pkt_len (mb_at s' (hd p)) = seg_sum s' (p @ [b])"
  proof -
    have "mb_pkt_len (mb_at s' (hd p)) = mb_pkt_len (mb_at s (hd p)) + ucast (mb_data_len (mb_at s b) + crc16 s)"
      using ne by (auto simp: s'_def append_seg_def Let_def)
    then show ?thesis using wf seg_sum_cong [of p s' s] dl db by (simp add: wf_packet_def)
  qed
  ultimately show "wf_packet s' (p @ [b])" using p b by (simp add: wf_packet_def)
qed

section \<open>The last segment\<close>

lemma ucast_sub: "x \<le> y \<Longrightarrow> ucast (y - x :: u16) = (ucast y - ucast x :: u32)"
proof -
  assume "x \<le> y"
  then have "unat (y - x) = unat y - unat x" by (rule unat_sub)
  moreover have "unat (ucast z :: u32) = unat z" for z :: u16
    using unsigned_less [of z, where 'a = nat] by (simp add: unsigned_ucast_eq take_bit_nat_eq_self)
  moreover have "(ucast x :: u32) \<le> ucast y" using \<open>x \<le> y\<close> calculation(2) by (simp add: word_le_nat_alt)
  ultimately show ?thesis by (intro word_unat_eq_iff [THEN iffD2]) (simp add: unat_sub)
qed

lemma free_seg_ready:
  assumes "seg_ready s m"
  shows "\<exists>d. free_seg (Some m) s = Inr (s\<lparr>rs_drv := d\<rparr>) \<and> (\<forall>x. x \<noteq> m \<longrightarrow> d_mbufs d x = mb_at s x) \<and>
    mb_buf_iova (d_mbufs d m) = mb_buf_iova (mb_at s m) \<and> mb_pool (d_mbufs d m) = mb_pool (mb_at s m) \<and>
    mb_next (d_mbufs d m) = None \<and>
    d_pools d = (d_pools (rs_drv s))(mb_pool (mb_at s m) := m # d_pools (rs_drv s) (mb_pool (mb_at s m)))"
proof -
  define d where "d = (rs_drv s)\<lparr>d_mbufs := (d_mbufs (rs_drv s))(m := (mb_at s m)\<lparr>mb_next := None, mb_nb_segs := 1\<rparr>),
    d_pools := (d_pools (rs_drv s))(mb_pool (mb_at s m) := m # d_pools (rs_drv s) (mb_pool (mb_at s m)))\<rparr>"
  have "free_seg (Some m) s = Inr (s\<lparr>rs_drv := d\<rparr>)"
    using assms
    by (simp add: free_seg_def rte_pktmbuf_free_seg_def rte_pktmbuf_prefree_seg_def Let_def seg_ready_def mempool_put_def d_def)
  then show ?thesis by (intro exI [of _ d]) (simp add: d_def)
qed

text \<open>The packet takes the hash and the flags of its last segment, and its length loses the checksum.\<close>

definition trim_packet :: "nat \<Rightarrow> nat \<Rightarrow> rx_state \<Rightarrow> rx_state" where
  "trim_packet st e s = upd_mb st (\<lambda>b. b\<lparr>mb_pkt_len := mb_pkt_len b - ucast (rq_crc_len (rs_rxq s))\<rparr>)
     (upd_buf st (\<lambda>(b, x). (b\<lparr>mb_direct := mb_direct (mb_at s e)\<rparr>,
        x\<lparr>rm_hash := rm_hash (rs_meta s e), rm_ol_flags := rm_ol_flags (rs_meta s e)\<rparr>)) s)"

lemma trim_packet_same:
  assumes "mb_direct (mb_at s e)" "mb_direct (mb_at s st)"
  shows "mb_at (trim_packet st e s) x =
      (if x = st then (mb_at s st)\<lparr>mb_pkt_len := mb_pkt_len (mb_at s st) - ucast (rq_crc_len (rs_rxq s))\<rparr> else mb_at s x)"
    "rs_rxq (trim_packet st e s) = rs_rxq s" "rs_nic (trim_packet st e s) = rs_nic s"
    "d_pools (rs_drv (trim_packet st e s)) = d_pools (rs_drv s)"
proof -
  have "mb_at (upd_buf st (\<lambda>(b, x). (b\<lparr>mb_direct := mb_direct (mb_at s e)\<rparr>,
        x\<lparr>rm_hash := rm_hash (rs_meta s e), rm_ol_flags := rm_ol_flags (rs_meta s e)\<rparr>)) s) x = mb_at s x" for x
    using rx_buf_upd_buf [of st "\<lambda>(b, x). (b\<lparr>mb_direct := mb_direct (mb_at s e)\<rparr>,
        x\<lparr>rm_hash := rm_hash (rs_meta s e), rm_ol_flags := rm_ol_flags (rs_meta s e)\<rparr>)" s x] assms
    by (auto simp: rx_buf_def split: if_splits prod.splits)
  then show "mb_at (trim_packet st e s) x =
      (if x = st then (mb_at s st)\<lparr>mb_pkt_len := mb_pkt_len (mb_at s st) - ucast (rq_crc_len (rs_rxq s))\<rparr> else mb_at s x)"
    by (simp add: trim_packet_def)
qed (simp_all add: trim_packet_def)

text \<open>What the end of a packet leaves of its segments: they are well formed, and nothing else has changed.\<close>

definition finished :: "nat list \<Rightarrow> nat \<Rightarrow> rx_state \<Rightarrow> nat list \<Rightarrow> rx_state \<Rightarrow> bool" where
  "finished p e s p' s' \<longleftrightarrow> finish_packet (hd p) e s = Inr s' \<and> wf_packet s' p' \<and>
     rs_rxq s' = rs_rxq s \<and> rs_nic s' = rs_nic s \<and> (\<forall>x. x \<notin> set (p @ [e]) \<longrightarrow> mb_at s' x = mb_at s x) \<and>
     (\<forall>x. buf_dma s' x = buf_dma s x \<and> mb_pool (mb_at s' x) = mb_pool (mb_at s x))"

lemma ucast_crc: "ucast (crc16 s) = (ucast (rq_crc_len (rs_rxq s)) :: u32)"
  by (rule bit_word_eqI) (auto simp: bit_simps dest: bit_imp_le_length)

lemma finish_keeps_last:
  assumes wf: "wf_packet s (p @ [e])" and p: "p \<noteq> []" and ready: "\<forall>m \<in> set (p @ [e]). seg_ready s m"
    and long: "crc16 s < mb_data_len (mb_at s e)"
  shows "\<exists>s'. finished p e s (p @ [e]) s' \<and> d_pools (rs_drv s') = d_pools (rs_drv s)"
proof -
  define st where "st = hd p"
  have d: "distinct (p @ [e])" "chain s (p @ [e])" "mb_nb_segs (mb_at s st) = of_nat (length p) + 1"
    "mb_pkt_len (mb_at s st) = seg_sum s p + ucast (mb_data_len (mb_at s e))"
    using wf p by (auto simp: wf_packet_def st_def)
  have st: "st \<in> set p" "st \<noteq> e" "e \<notin> set p" using p d(1) by (auto simp: st_def)
  have "mb_direct (mb_at s e)" "mb_direct (mb_at s st)" using ready st by (auto simp: seg_ready_def)
  note s1 = trim_packet_same [OF this]
  define s' where "s' = upd_mb e (\<lambda>b. b\<lparr>mb_data_len := mb_data_len b - crc16 s\<rparr>) (trim_packet st e s)"
  have run: "finish_packet (hd p) e s = Inr s'"
    using long st unfolding finish_packet_def Let_def st_def [symmetric] trim_packet_def [symmetric] by (simp add: s'_def s1)
  have dl: "mb_data_len (mb_at s' m) = mb_data_len (mb_at s m)" if "m \<in> set p" for m
    using that st by (auto simp: s'_def s1(1))
  have "ucast (mb_data_len (mb_at s e) - crc16 s) = (ucast (mb_data_len (mb_at s e)) - ucast (rq_crc_len (rs_rxq s)) :: u32)"
    using ucast_sub [of "crc16 s" "mb_data_len (mb_at s e)"] long ucast_crc [of s] by simp
  then have "seg_sum s' (p @ [e]) = seg_sum s p + ucast (mb_data_len (mb_at s e)) - ucast (rq_crc_len (rs_rxq s))"
    using seg_sum_cong [of p s' s] dl st by (simp add: s'_def s1(1))
  then have "mb_pkt_len (mb_at s' st) = seg_sum s' (p @ [e])" using d(4) st by (simp add: s'_def s1(1))
  moreover have "chain s' (p @ [e])" using d(2) chain_cong [of "p @ [e]" s' s] by (simp add: s'_def s1(1))
  moreover have "mb_nb_segs (mb_at s' st) = of_nat (length (p @ [e]))" using d(3) st by (simp add: s'_def s1(1))
  ultimately have "wf_packet s' (p @ [e])" using d(1) p by (simp add: wf_packet_def st_def)
  moreover have "mb_at s' x = mb_at s x" if "x \<notin> set (p @ [e])" for x using that st by (auto simp: s'_def s1(1))
  ultimately show ?thesis
    using run by (intro exI [of _ s']) (simp add: finished_def buf_dma_def s'_def s1)
qed

lemma finish_drops_last:
  assumes wf: "wf_packet s (p @ [e])" and p: "p \<noteq> []" and ready: "\<forall>m \<in> set (p @ [e]). seg_ready s m"
    and len: "\<forall>m \<in> set p. crc16 s \<le> mb_data_len (mb_at s m)" and fuel: "length p \<le> 65536"
    and short: "\<not> crc16 s < mb_data_len (mb_at s e)"
  shows "\<exists>s'. finished p e s p s' \<and> mb_next (mb_at s' e) = None \<and>
    d_pools (rs_drv s') = (d_pools (rs_drv s))(mb_pool (mb_at s e) := e # d_pools (rs_drv s) (mb_pool (mb_at s e)))"
proof -
  define st where "st = hd p"
  define sl where "sl = last p"
  have d: "distinct (p @ [e])" "chain s (p @ [e])" "mb_nb_segs (mb_at s st) = of_nat (length p) + 1"
    "mb_pkt_len (mb_at s st) = seg_sum s p + ucast (mb_data_len (mb_at s e))"
    using wf p by (auto simp: wf_packet_def st_def)
  have st: "st \<in> set p" "st \<noteq> e" "e \<notin> set p" "sl \<in> set p" "sl \<noteq> e" using p d(1) by (auto simp: st_def sl_def)
  have "mb_direct (mb_at s e)" "mb_direct (mb_at s st)" using ready st by (auto simp: seg_ready_def)
  note s1 = trim_packet_same [OF this]
  define s2 where "s2 = upd_mb st (\<lambda>b. b\<lparr>mb_nb_segs := mb_nb_segs b - 1\<rparr>) (trim_packet st e s)"
  have s2: "mb_at s2 x = (if x = st then (mb_at s st)\<lparr>mb_pkt_len := mb_pkt_len (mb_at s st) - ucast (rq_crc_len (rs_rxq s)),
      mb_nb_segs := mb_nb_segs (mb_at s st) - 1\<rparr> else mb_at s x)" for x
    by (simp add: s2_def s1)
  have "chain s2 (p @ [e])" using d(2) chain_cong [of "p @ [e]" s2 s] by (simp add: s2)
  then have second: "second_last 65536 st e s2 = Inr sl"
    using second_last_chain [of s2 p e 65536] p st fuel by (simp add: st_def sl_def)
  define x where "x = crc16 s - mb_data_len (mb_at s e)"
  define s3 where "s3 = upd_mb sl (\<lambda>b. b\<lparr>mb_next := None\<rparr>) (upd_mb sl (\<lambda>b. b\<lparr>mb_data_len := mb_data_len b - x\<rparr>) s2)"
  have s3: "mb_at s3 m = (if m = sl then (mb_at s2 sl)\<lparr>mb_data_len := mb_data_len (mb_at s2 sl) - x, mb_next := None\<rparr> else mb_at s2 m)"
    "rs_rxq s3 = rs_rxq s" "rs_nic s3 = rs_nic s" "d_pools (rs_drv s3) = d_pools (rs_drv s)" for m
    by (simp_all add: s3_def s2_def s1)
  have e3: "mb_at s3 e = mb_at s e" using st by (simp add: s3(1) s2)
  have "seg_ready s3 e" using ready e3 by (simp add: seg_ready_def)
  from free_seg_ready [OF this] obtain dr where dr: "free_seg (Some e) s3 = Inr (s3\<lparr>rs_drv := dr\<rparr>)"
    "\<forall>m. m \<noteq> e \<longrightarrow> d_mbufs dr m = mb_at s3 m" "mb_buf_iova (d_mbufs dr e) = mb_buf_iova (mb_at s3 e)"
    "mb_pool (d_mbufs dr e) = mb_pool (mb_at s3 e)" "mb_next (d_mbufs dr e) = None"
    "d_pools dr = (d_pools (rs_drv s3))(mb_pool (mb_at s3 e) := e # d_pools (rs_drv s3) (mb_pool (mb_at s3 e)))" by blast
  define s' where "s' = s3\<lparr>rs_drv := dr\<rparr>"
  have se: "mb_data_len (mb_at s2 e) = mb_data_len (mb_at s e)" using st by (simp add: s2)
  have run: "finish_packet (hd p) e s = Inr s'"
    using short st second dr(1)
    unfolding finish_packet_def Let_def st_def [symmetric] trim_packet_def [symmetric] s2_def [symmetric]
    by (simp add: s1 s'_def s3_def x_def se)
  have at: "mb_at s' m = mb_at s3 m" if "m \<noteq> e" for m using dr(2) that by (simp add: s'_def)
  have "mb_pkt_len (mb_at s' st) = seg_sum s' p"
  proof -
    have xl: "x \<le> mb_data_len (mb_at s sl)"
    proof -
      have "x \<le> crc16 s" using short unfolding x_def by (simp add: word_le_nat_alt word_less_nat_alt unat_sub)
      then show ?thesis using len st(4) by (meson order_trans)
    qed
    have xe: "ucast x = (ucast (rq_crc_len (rs_rxq s)) - ucast (mb_data_len (mb_at s e)) :: u32)"
      using ucast_sub [of "mb_data_len (mb_at s e)" "crc16 s"] short ucast_crc [of s] by (simp add: x_def)
    have pl: "p = butlast p @ [sl]" using p by (simp add: sl_def)
    have "distinct (butlast p @ [sl])" using d(1) unfolding pl [symmetric] by simp
    then have "m \<noteq> sl \<and> m \<noteq> e" if "m \<in> set (butlast p)" for m using that st by (auto dest: in_set_butlastD)
    then have "seg_sum s' (butlast p) = seg_sum s (butlast p)" by (intro seg_sum_cong) (simp add: at s3(1) s2)
    moreover have "mb_data_len (mb_at s' sl) = mb_data_len (mb_at s sl) - x" using st by (simp add: at s3(1) s2)
    ultimately have "seg_sum s' (butlast p @ [sl]) = seg_sum s (butlast p @ [sl]) - ucast x" using ucast_sub [OF xl] by simp
    then have "seg_sum s' p = seg_sum s p - ucast x" unfolding pl [symmetric] .
    moreover have "mb_pkt_len (mb_at s' st) = mb_pkt_len (mb_at s st) - ucast (rq_crc_len (rs_rxq s))"
      using st by (auto simp: at s3(1) s2)
    ultimately show ?thesis by (simp add: d(4) xe)
  qed
  moreover have "mb_nb_segs (mb_at s' st) = of_nat (length p)" using st d(3) by (auto simp: at s3(1) s2)
  moreover have "chain s' p"
    unfolding chain_def
  proof (intro allI impI)
    fix i
    assume i: "i < length p"
    then have ne: "p ! i \<noteq> e" using st(3) by (metis nth_mem)
    show "mb_next (mb_at s' (p ! i)) = (if Suc i < length p then Some (p ! Suc i) else None)"
    proof (cases "Suc i < length p")
      case True
      then have "p ! i \<noteq> sl" using d(1) i p by (simp add: sl_def last_conv_nth nth_eq_iff_index_eq)
      then have "mb_next (mb_at s' (p ! i)) = mb_next (mb_at s (p ! i))" using ne by (auto simp: at s3(1) s2)
      then show ?thesis using chain_butlast [OF d(2) p] True by simp
    next
      case False
      then have "i = length p - 1" using i by simp
      then have "p ! i = sl" using p by (simp add: sl_def last_conv_nth)
      then show ?thesis using False ne by (simp add: at s3(1))
    qed
  qed
  ultimately have "wf_packet s' p" using d(1) p by (simp add: wf_packet_def st_def)
  moreover have "mb_at s' m = mb_at s m" if "m \<notin> set (p @ [e])" for m using that st by (auto simp: at s3(1) s2)
  moreover have "buf_dma s' m = buf_dma s m \<and> mb_pool (mb_at s' m) = mb_pool (mb_at s m)" for m
  proof (cases "m = e")
    case True
    then show ?thesis using dr(3,4) e3 by (simp add: buf_dma_def s'_def)
  qed (simp add: buf_dma_def at s3(1) s2)
  moreover have "rs_rxq s' = rs_rxq s" "rs_nic s' = rs_nic s" by (simp_all add: s'_def s3)
  ultimately have "finished p e s p s'" using run by (simp add: finished_def)
  then show ?thesis using dr(5,6) e3 by (intro exI [of _ s']) (simp add: s'_def s3(4))
qed

section \<open>The loop\<close>

text \<open>The pointers of the queue to its open packet.\<close>

definition last_seg :: "nat list \<Rightarrow> nat option" where "last_seg p = (if p = [] then None else Some (last p))"

text \<open>What the loop makes of an open packet \<open>p\<close> and new segments \<open>bs\<close>: packets \<open>ps\<close>, an open packet \<open>p'\<close> and freed buffers.\<close>

definition reassembled :: "nat list \<Rightarrow> nat list \<Rightarrow> rx_state \<Rightarrow> nat list list \<Rightarrow> nat list \<Rightarrow> nat list \<Rightarrow> rx_state \<Rightarrow> bool" where
  "reassembled p bs s ps p' freed s' \<longleftrightarrow>
     (\<forall>q \<in> set ps. wf_packet s' q) \<and> (p' = [] \<or> open_ok s' p') \<and>
     mset (concat ps @ p' @ freed) = mset (p @ bs) \<and> subseq (concat ps @ p') (p @ bs) \<and>
     length ps \<le> length bs \<and>
     (\<forall>x. x \<notin> set (p @ bs) \<longrightarrow> mb_at s' x = mb_at s x) \<and> (\<forall>x \<in> set freed. mb_next (mb_at s' x) = None) \<and>
     (\<forall>x. buf_dma s' x = buf_dma s x \<and> mb_pool (mb_at s' x) = mb_pool (mb_at s x)) \<and>
     rs_rxq s' = rs_rxq s \<and> rs_nic s' = rs_nic s \<and> rx_pool s' = freed @ rx_pool s"

text \<open>
  The reference: a sequence of segments is cut into packets behind every segment that ends a packet; when such a segment, which is
  not the only one of its packet, has nothing but the rest of the checksum, it is left out.
\<close>

fun cut_packets :: "nat list \<Rightarrow> (nat \<times> bool \<times> bool) list \<Rightarrow> nat list list \<times> nat list" where
  "cut_packets p [] = ([], p)"
| "cut_packets p ((b, ends, short) # xs) =
     (if ends then (case cut_packets [] xs of (ps, q) \<Rightarrow> ((if p \<noteq> [] \<and> short then p else p @ [b]) # ps, q))
      else cut_packets (p @ [b]) xs)"

text \<open>A buffer and its flag, as the reference sees them.\<close>

definition seg_info :: "rx_state \<Rightarrow> nat \<times> u8 \<Rightarrow> nat \<times> bool \<times> bool" where
  "seg_info s x = (fst x, snd x = 0, mb_data_len (mb_at s (fst x)) + crc16 s \<le> crc16 s)"

lemma seg_info_keep:
  assumes "reassembled p [b] s ps q freed t" "b \<notin> fst ` set xs" "set p \<inter> fst ` set xs = {}"
  shows "map (seg_info t) xs = map (seg_info s) xs"
proof (rule map_cong [OF refl])
  fix x
  assume "x \<in> set xs"
  then have "fst x \<notin> set (p @ [b])" using assms(2,3) by auto
  then have "mb_at t (fst x) = mb_at s (fst x)" "rs_rxq t = rs_rxq s" using assms(1) by (simp_all add: reassembled_def)
  then show "seg_info t x = seg_info s x" by (simp add: seg_info_def)
qed

lemma apfst_append_Nil [simp]: "apfst ((@) []) x = x"
  by (cases x) simp

lemma cut_singles:
  "\<forall>x \<in> set xs. snd x = 0 \<Longrightarrow>
   cut_packets [] (map (seg_info s) (xs @ ys)) = apfst ((@) (map (\<lambda>x. [fst x]) xs)) (cut_packets [] (map (seg_info s) ys))"
  by (cases "cut_packets [] (map (seg_info s) ys)"; induction xs) (auto simp: seg_info_def split: prod.split)

lemma reassembled_nothing: "p = [] \<or> open_ok s p \<Longrightarrow> reassembled p [] s [] p [] s"
  by (simp add: reassembled_def)

lemma reassembled_trans:
  assumes a: "reassembled p bs s ps q freed t" and b: "reassembled q bs' t ps' r freed' u" and d: "distinct (p @ bs @ bs')"
  shows "reassembled p (bs @ bs') s (ps @ ps') r (freed' @ freed) u"
proof -
  have m: "mset (concat ps @ q @ freed) = mset (p @ bs)" "mset (concat ps' @ r @ freed') = mset (q @ bs')"
    using a b by (simp_all add: reassembled_def)
  have d1: "distinct (concat ps @ q @ freed)" using d mset_eq_imp_distinct_iff [OF m(1)] by auto
  have s1: "set (concat ps @ q @ freed) = set (p @ bs)" using mset_eq_setD [OF m(1)] .
  have off: "x \<notin> set (q @ bs')" if "x \<in> set (concat ps @ freed)" for x
  proof -
    have "x \<in> set (p @ bs)" using that s1 by auto
    then have "x \<notin> set bs'" using d by auto
    moreover have "x \<notin> set q" using d1 that by auto
    ultimately show ?thesis by simp
  qed
  have keep: "mb_at u x = mb_at t x" if "x \<in> set (concat ps @ freed)" for x using b off [OF that] by (simp add: reassembled_def)
  have "wf_packet u x" if "x \<in> set ps" for x
    using a that wf_packet_cong [of x u t] keep by (auto simp: reassembled_def)
  moreover have "mset (concat (ps @ ps') @ r @ freed' @ freed) = mset (p @ bs @ bs')"
  proof -
    have "mset (concat (ps @ ps') @ r @ freed' @ freed) = mset (concat ps) + mset (concat ps' @ r @ freed') + mset freed" by simp
    also have "\<dots> = mset (concat ps @ q @ freed) + mset bs'" unfolding m(2) by simp
    finally show ?thesis unfolding m(1) by simp
  qed
  moreover have "subseq (concat (ps @ ps') @ r) (p @ bs @ bs')"
  proof -
    have "subseq (concat ps @ concat ps' @ r) (concat ps @ q @ bs')" using b by (simp add: reassembled_def subseq_append')
    moreover have "subseq ((concat ps @ q) @ bs') ((p @ bs) @ bs')"
      using a by (simp only: reassembled_def subseq_append simp_thms)
    ultimately show ?thesis using subseq_order.trans [of "concat ps @ concat ps' @ r"] by simp
  qed
  moreover have "mb_at u x = mb_at s x" if "x \<notin> set (p @ bs @ bs')" for x
  proof -
    have "x \<notin> set (p @ bs)" "x \<notin> set (q @ bs')" using that s1 by auto
    then show ?thesis using a b by (simp add: reassembled_def)
  qed
  moreover have "mb_next (mb_at u x) = None" if "x \<in> set (freed' @ freed)" for x
    using that a b keep by (auto simp: reassembled_def)
  ultimately show ?thesis using a b unfolding reassembled_def by auto
qed

text \<open>One buffer at a time.\<close>

lemma seg_alone:
  assumes "fresh_seg s (b, 0)"
  shows "reassembled [] [b] s [[b]] [] [] s"
  using assms by (simp add: reassembled_def wf_packet_def chain_def fresh_seg_def Let_def)

lemma seg_first:
  assumes "fresh_seg s (b, f)" "f \<noteq> 0"
  defines "s' \<equiv> upd_mb b (\<lambda>m. m\<lparr>mb_pkt_len := mb_pkt_len m + ucast (rq_crc_len (rs_rxq s))\<rparr>)
      (upd_mb b (\<lambda>m. m\<lparr>mb_data_len := mb_data_len m + ucast (rq_crc_len (rs_rxq s))\<rparr>) s)"
  shows "reassembled [] [b] s [] [b] [] s'"
proof -
  have crc: "ucast (crc16 s) = (ucast (rq_crc_len (rs_rxq s)) :: u32)"
    by (rule bit_word_eqI) (auto simp: bit_simps dest: bit_imp_le_length)
  define l where "l = mb_data_len (mb_at s b) + crc16 s"
  have "ucast (l - crc16 s) = (ucast l - ucast (crc16 s) :: u32)" using ucast_sub [of "crc16 s" l] assms(1,2) by (simp add: fresh_seg_def Let_def l_def)
  then have "ucast (mb_data_len (mb_at s b)) + ucast (rq_crc_len (rs_rxq s)) = (ucast (mb_data_len (mb_at s b) + crc16 s) :: u32)"
    unfolding crc by (simp add: l_def diff_eq_eq)
  then show ?thesis
    using assms(1,2) unfolding reassembled_def open_ok_def wf_packet_def
    by (simp add: s'_def chain_def fresh_seg_def Let_def seg_ready_def buf_dma_def rx_pool_def)
qed

lemma seg_next:
  assumes "open_ok s p" "fresh_seg s (b, f)" "f \<noteq> 0" "b \<notin> set p"
  shows "reassembled p [b] s [] (p @ [b]) [] (append_seg (hd p) (last p) b s)"
proof -
  note A = append_seg_wf [OF assms(1,2,4)]
  have p: "p \<noteq> []" using assms(1) by (simp add: open_ok_def wf_packet_def)
  have "open_ok (append_seg (hd p) (last p) b s) (p @ [b])"
    using A assms(2,3) by (auto simp: open_ok_def fresh_seg_def Let_def)
  moreover have "rx_pool (append_seg (hd p) (last p) b s) = rx_pool s" by (simp add: rx_pool_def)
  moreover have "mb_at (append_seg (hd p) (last p) b s) x = mb_at s x" if "x \<notin> set (p @ [b])" for x
    using that p by (intro append_seg_same(4)) auto
  ultimately show ?thesis unfolding reassembled_def by simp
qed

lemma seg_last:
  assumes "open_ok s p" "fresh_seg s (b, f)" "b \<notin> set p" "length p \<le> 65536" "mb_pool (mb_at s b) = rq_mb_pool (rs_rxq s)"
  shows "\<exists>s' q freed. finish_packet (hd p) b (append_seg (hd p) (last p) b s) = Inr s' \<and> reassembled p [b] s [q] [] freed s' \<and> hd q = hd p \<and>
    q = (if mb_data_len (mb_at s b) + crc16 s \<le> crc16 s then p else p @ [b])"
proof -
  define t where "t = append_seg (hd p) (last p) b s"
  note A = append_seg_wf [OF assms(1-3), folded t_def]
  have p: "p \<noteq> []" using assms(1) by (simp add: open_ok_def wf_packet_def)
  have c: "crc16 t = crc16 s" by (simp add: t_def)
  have sh: "(mb_data_len (mb_at s b) + crc16 s \<le> crc16 s) = (\<not> crc16 t < mb_data_len (mb_at t b))"
    unfolding c A(4) by (simp add: not_less)
  have len: "\<forall>m \<in> set p. crc16 t \<le> mb_data_len (mb_at t m)" using A(3) c by simp
  have pool: "mb_pool (mb_at t b) = rq_mb_pool (rs_rxq s)" using assms(5) by (simp add: t_def)
  have "mb_at t x = mb_at s x" if "x \<notin> set (p @ [b])" for x unfolding t_def using that p by (intro append_seg_same(4)) auto
  then have made: "reassembled p [b] s [q] [] freed s'"
    if "finished p b t q s'" "mset (q @ freed) = mset (p @ [b])" "subseq q (p @ [b])" "\<forall>x \<in> set freed. mb_next (mb_at s' x) = None"
      "rx_pool s' = freed @ rx_pool t" for s' q freed
    using that unfolding reassembled_def finished_def by (simp add: t_def rx_pool_def)
  show ?thesis
  proof (cases "crc16 t < mb_data_len (mb_at t b)")
    case True
    from finish_keeps_last [OF A(1) p A(2) this] obtain s' where f: "finished p b t (p @ [b]) s'" "d_pools (rs_drv s') = d_pools (rs_drv t)"
      by blast
    then have "reassembled p [b] s [p @ [b]] [] [] s'" by (intro made) (simp_all add: rx_pool_def finished_def)
    then show ?thesis using f(1) p True unfolding sh unfolding finished_def t_def by (intro exI [of _ s'] exI [of _ "p @ [b]"] exI [of _ "[]"]) simp
  next
    case False
    from finish_drops_last [OF A(1) p A(2) len assms(4) False] pool obtain s' where f: "finished p b t p s'" "mb_next (mb_at s' b) = None"
      "rx_pool s' = [b] @ rx_pool t" by (auto simp: rx_pool_def finished_def t_def)
    then have "reassembled p [b] s [p] [] [b] s'" by (intro made) (simp_all add: prefix_imp_subseq)
    then show ?thesis using f(1) False unfolding sh unfolding finished_def t_def by (intro exI [of _ s'] exI [of _ p] exI [of _ "[b]"]) simp
  qed
qed

definition first_seg_ok :: "nat list \<Rightarrow> (nat \<times> u8) list \<Rightarrow> nat option \<Rightarrow> nat list \<Rightarrow> nat option \<Rightarrow> bool" where
  "first_seg_ok p xs start q start' \<longleftrightarrow>
     (if q \<noteq> [] then start' = Some (hd q) else if p = [] \<and> (\<forall>x \<in> set xs. snd x = 0) then start' = start else start' = None)"

lemma fresh_keep:
  assumes "reassembled p [b] s ps q freed t" "b \<notin> fst ` set xs" "set p \<inter> fst ` set xs = {}"
    and "\<forall>x \<in> set xs. fresh_seg s x \<and> mb_pool (mb_at s (fst x)) = rq_mb_pool (rs_rxq s)"
  shows "\<forall>x \<in> set xs. fresh_seg t x \<and> mb_pool (mb_at t (fst x)) = rq_mb_pool (rs_rxq t)"
proof
  fix x
  assume x: "x \<in> set xs"
  then have "fst x \<notin> set (p @ [b])" using assms(2,3) by auto
  then have "mb_at t (fst x) = mb_at s (fst x)" "rs_rxq t = rs_rxq s" using assms(1) by (simp_all add: reassembled_def)
  then show "fresh_seg t x \<and> mb_pool (mb_at t (fst x)) = rq_mb_pool (rs_rxq t)"
    using assms(4) x fresh_seg_cong [of t x s] by simp
qed

lemma reassemble_loop_ok:
  "distinct (p @ map fst xs) \<Longrightarrow> p = [] \<or> open_ok s p \<and> start = Some (hd p) \<Longrightarrow>
   \<forall>x \<in> set xs. fresh_seg s x \<and> mb_pool (mb_at s (fst x)) = rq_mb_pool (rs_rxq s) \<Longrightarrow> length p + length xs \<le> 65536 \<Longrightarrow>
   \<exists>ps q freed s' start'. reassemble_loop xs start (last_seg p) pkts s = Inr (start', last_seg q, pkts @ map hd ps, s') \<and>
     reassembled p (map fst xs) s ps q freed s' \<and> first_seg_ok p xs start q start' \<and> cut_packets p (map (seg_info s) xs) = (ps, q)"
proof (induction xs arbitrary: p s start pkts)
  case Nil
  then show ?case
    using reassembled_nothing [of p s]
    by (intro exI [of _ "[]"] exI [of _ p] exI [of _ "[]"] exI [of _ s] exI [of _ start]) (auto simp: first_seg_ok_def)
next
  case (Cons x xs)
  obtain b f where x: "x = (b, f)" by fastforce
  have b: "b \<notin> set p" "b \<notin> fst ` set xs" "set p \<inter> fst ` set xs = {}" "distinct (map fst xs)" using Cons.prems(1) x by auto
  have fr: "fresh_seg s (b, f)" "mb_pool (mb_at s b) = rq_mb_pool (rs_rxq s)" using Cons.prems(3) x by auto
  have rest: "\<forall>x \<in> set xs. fresh_seg s x \<and> mb_pool (mb_at s (fst x)) = rq_mb_pool (rs_rxq s)" using Cons.prems(3) by simp
  have dist: "distinct (p @ [b] @ map fst xs)" using Cons.prems(1) x by simp
  have finish: ?case
    if step: "\<And>acc. reassemble_loop (x # xs) start (last_seg p) acc s = reassemble_loop xs start2 (last_seg q1) (acc @ map hd ps1) t"
      and r: "reassembled p [b] s ps1 q1 freed1 t" and q1: "q1 = [] \<or> start2 = Some (hd q1)" and len: "length q1 \<le> Suc (length p)"
      and start2: "q1 = [] \<Longrightarrow> start2 = (if p = [] \<and> f = 0 then start else None)" "q1 \<noteq> [] \<Longrightarrow> p \<noteq> [] \<or> f \<noteq> 0"
      and cut: "cut_packets p (map (seg_info s) (x # xs)) = apfst ((@) ps1) (cut_packets q1 (map (seg_info s) xs))"
    for start2 q1 ps1 freed1 t
  proof -
    have ms: "mset (concat ps1 @ q1 @ freed1) = mset (p @ [b])" using r by (simp add: reassembled_def)
    have m: "set (concat ps1 @ q1 @ freed1) = set (p @ [b])" using mset_eq_setD [OF ms] .
    have "distinct (p @ [b])" using dist by simp
    then have "distinct (concat ps1 @ q1 @ freed1)" using mset_eq_imp_distinct_iff [OF ms] by simp
    moreover have "set q1 \<subseteq> set (p @ [b])" using m by auto
    ultimately have "distinct (q1 @ map fst xs)" using b by auto
    moreover have "q1 = [] \<or> open_ok t q1 \<and> start2 = Some (hd q1)" using r q1 by (auto simp: reassembled_def)
    moreover have "length q1 + length xs \<le> 65536" using len Cons.prems(4) by simp
    ultimately obtain ps q freed s' start' where
      i: "reassemble_loop xs start2 (last_seg q1) (pkts @ map hd ps1) t = Inr (start', last_seg q, (pkts @ map hd ps1) @ map hd ps, s')"
        "reassembled q1 (map fst xs) t ps q freed s'" "first_seg_ok q1 xs start2 q start'"
        "cut_packets q1 (map (seg_info t) xs) = (ps, q)"
      using Cons.IH [of q1 t start2 "pkts @ map hd ps1"] fresh_keep [OF r b(2,3) rest] by blast
    have "reassembled p (map fst (x # xs)) s (ps1 @ ps) q (freed @ freed1) s'"
      using reassembled_trans [OF r i(2)] dist x by simp
    moreover have "first_seg_ok p (x # xs) start q start'"
      using i(3) start2 q1 r x by (auto simp: first_seg_ok_def reassembled_def split: if_splits)
    moreover have "cut_packets p (map (seg_info s) (x # xs)) = (ps1 @ ps, q)"
      using cut i(4) unfolding seg_info_keep [OF r b(2,3)] by simp
    ultimately show ?thesis
      using step [of pkts] i(1)
      by (intro exI [of _ "ps1 @ ps"] exI [of _ q] exI [of _ "freed @ freed1"] exI [of _ s'] exI [of _ start']) simp
  qed
  show ?case
  proof (cases "p = []")
    case p: True
    show ?thesis
    proof (cases "f = 0")
      case True
      show ?thesis
        by (rule finish [of start "[]" "[[b]]" s "[]"]) (use True p x fr seg_alone in \<open>simp_all add: last_seg_def seg_info_def split: prod.split\<close>)
    next
      case False
      define t where "t = upd_mb b (\<lambda>m. m\<lparr>mb_pkt_len := mb_pkt_len m + ucast (rq_crc_len (rs_rxq s))\<rparr>)
        (upd_mb b (\<lambda>m. m\<lparr>mb_data_len := mb_data_len m + ucast (rq_crc_len (rs_rxq s))\<rparr>) s)"
      have r: "reassembled p [b] s [] [b] [] t" using seg_first [OF fr(1) False] p by (simp add: t_def)
      show ?thesis
        by (rule finish [OF _ r, of "Some b"]) (use False p x in \<open>simp_all add: last_seg_def Let_def t_def seg_info_def split: prod.split\<close>)
    qed
  next
    case p: False
    then have o: "open_ok s p" "start = Some (hd p)" using Cons.prems(2) by simp_all
    show ?thesis
    proof (cases "f = 0")
      case True
      obtain t q freed where t: "finish_packet (hd p) b (append_seg (hd p) (last p) b s) = Inr t" "reassembled p [b] s [q] [] freed t" "hd q = hd p"
          "q = (if mb_data_len (mb_at s b) + crc16 s \<le> crc16 s then p else p @ [b])"
        using seg_last [OF o(1) fr(1) b(1) _ fr(2)] Cons.prems(4) by auto
      show ?thesis
        by (rule finish [of None "[]" "[q]", OF _ t(2)])
          (use True p x o t in \<open>simp_all add: last_seg_def append_seg_def Let_def seg_info_def split: prod.split\<close>)
    next
      case False
      show ?thesis
        by (rule finish [of start "p @ [b]" "[]", OF _ seg_next [OF o(1) fr(1) False b(1)]])
          (use False p x o in \<open>simp_all add: last_seg_def append_seg_def Let_def seg_info_def split: prod.split\<close>)
    qed
  qed
qed

end
