(* ===== verification/IxgbeScatter.thy ===== *)
theory IxgbeScatter
  imports IxgbeSegs
begin

text \<open>
  The scattered receive functions: a burst of buffers goes through the reassembly, with the packet that the queue kept from the
  last burst, and a call makes bursts until one comes back short. The invariant of the ring is extended by the open packet.
\<close>

section \<open>The invariant with an open packet\<close>

definition set_segs :: "nat option \<Rightarrow> nat option \<Rightarrow> rx_state \<Rightarrow> rx_state" where
  "set_segs f l s = s\<lparr>rs_rxq := (rs_rxq s)\<lparr>rq_pkt_first_seg := f, rq_pkt_last_seg := l\<rparr>\<rparr>"

definition first_seg :: "nat list \<Rightarrow> nat option" where "first_seg p = (if p = [] then None else Some (hd p))"

definition rx_seg_inv :: "nat \<Rightarrow> nat list \<Rightarrow> rx_state \<Rightarrow> bool" where
  "rx_seg_inv R p s \<longleftrightarrow> rx_inv R s \<and> rq_pkt_first_seg (rs_rxq s) = first_seg p \<and> rq_pkt_last_seg (rs_rxq s) = last_seg p \<and>
     (p = [] \<or> open_ok s p) \<and> distinct (p @ rx_pool s @ ring_bufs R s) \<and> rx_fake s \<notin> set p \<and>
     (\<forall>m \<in> set (rx_pool s @ ring_bufs R s). mb_next (mb_at s m) = None) \<and>
     (\<forall>m \<in> set (p @ rx_pool s @ ring_bufs R s). mb_pool (mb_at s m) = rq_mb_pool (rs_rxq s))"

lemma set_segs_simps [simp]:
  "rs_nic (set_segs f l s) = rs_nic s" "rs_drv (set_segs f l s) = rs_drv s" "rs_meta (set_segs f l s) = rs_meta s"
  "rq_crc_len (rs_rxq (set_segs f l s)) = rq_crc_len (rs_rxq s)" "rq_mb_pool (rs_rxq (set_segs f l s)) = rq_mb_pool (rs_rxq s)"
  "rq_pkt_first_seg (rs_rxq (set_segs f l s)) = f" "rq_pkt_last_seg (rs_rxq (set_segs f l s)) = l"
  "rx_fake (set_segs f l s) = rx_fake s" "rx_pool (set_segs f l s) = rx_pool s"
  "set_segs f l (set_segs f' l' s) = set_segs f l s"
  by (simp_all add: set_segs_def rx_pool_def)

lemma set_segs_same: "rq_pkt_first_seg (rs_rxq s) = f \<Longrightarrow> rq_pkt_last_seg (rs_rxq s) = l \<Longrightarrow> set_segs f l s = s"
  by (auto simp: set_segs_def)

text \<open>The invariant of the ring survives the reassembly, which only gives buffers back to the pool.\<close>

lemma rx_inv_segs:
  assumes inv: "rx_inv R s" and rxq: "rs_rxq s' = rs_rxq (set_segs f l s)" and nic: "rs_nic s' = rs_nic s"
    and dma: "\<forall>x. buf_dma s' x = buf_dma s x" and pool: "rx_pool s' = freed @ rx_pool s"
    and own: "distinct (freed @ rx_pool s @ ring_bufs R s)" "rx_fake s \<notin> set freed"
  shows "rx_inv R s'" "ring_bufs R s' = ring_bufs R s" "rx_n s' = rx_n s" "rx_fake s' = rx_fake s"
proof -
  have q: "rq_sw_ring (rs_rxq s') = rx_sw s" "rq_nb_rx_desc (rs_rxq s') = rq_nb_rx_desc (rs_rxq s)"
    "rq_rxrearm_nb (rs_rxq s') = rq_rxrearm_nb (rs_rxq s)" "rq_rxrearm_start (rs_rxq s') = rq_rxrearm_start (rs_rxq s)"
    "rq_rx_tail (rs_rxq s') = rq_rx_tail (rs_rxq s)" "queue_set_up (rs_rxq s') = queue_set_up (rs_rxq s)"
    unfolding rxq by (simp_all add: set_segs_def queue_set_up_def)
  show fake: "rx_fake s' = rx_fake s" unfolding rxq by simp
  have n: "rx_n s' = rx_n s" "armed_end R s' = armed_end R s" "ring_buf s' = ring_buf s" "rx_done s' = rx_done s" "buf_dma s' = buf_dma s"
    using q nic dma by (simp_all add: rx_n_def armed_end_def ring_buf_def fun_eq_iff rx_done_def)
  then show bufs: "ring_bufs R s' = ring_bufs R s" "rx_n s' = rx_n s" by (simp_all add: ring_bufs_def)
  have "rx_own R s'" using inv own bufs unfolding rx_own_def fake pool by (auto simp: rx_inv_def rx_own_def)
  then show "rx_inv R s'" using inv n q nic fake by (simp add: rx_inv_def rx_geom_def rx_pos_def rx_descs_def)
qed

lemma rx_seg_inv_reassembled:
  assumes inv: "rx_inv R s" and re: "reassembled p bs (set_segs f l s) ps q freed t"
    and dist: "distinct (p @ bs @ rx_pool s @ ring_bufs R s)" "rx_fake s \<notin> set (p @ bs)"
    and next_none: "\<forall>m \<in> set (rx_pool s @ ring_bufs R s). mb_next (mb_at s m) = None"
    and pool: "\<forall>m \<in> set (p @ bs @ rx_pool s @ ring_bufs R s). mb_pool (mb_at s m) = rq_mb_pool (rs_rxq s)"
  defines "s' \<equiv> set_segs (first_seg q) (last_seg q) t"
  shows "rx_seg_inv R q s'" "\<forall>x \<in> set ps. wf_packet s' x" "subseq (concat ps @ q) (p @ bs)"
    "mset (concat ps @ q @ rx_pool s') = mset (p @ bs @ rx_pool s)" "ring_bufs R s' = ring_bufs R s" "rx_n s' = rx_n s"
    "rs_nic s' = rs_nic s" "\<forall>x. x \<notin> set (p @ bs) \<longrightarrow> mb_at s' x = mb_at s x" "length ps \<le> length bs"
proof -
  note re = re [unfolded reassembled_def]
  have ms: "mset (concat ps @ q @ freed) = mset (p @ bs)" using re by blast
  have sub: "set (concat ps @ q @ freed) = set (p @ bs)" using mset_eq_setD [OF ms] .
  have "distinct (p @ bs)" using dist(1) by auto
  then have "distinct (concat ps @ q @ freed)" using mset_eq_imp_distinct_iff [OF ms] by simp
  then have d: "distinct (q @ freed @ rx_pool s @ ring_bufs R s)" "rx_fake s \<notin> set freed" "rx_fake s \<notin> set q" using dist sub by auto
  have rxq: "rs_rxq s' = rs_rxq (set_segs (first_seg q) (last_seg q) s)"
    using re by (simp add: s'_def set_segs_def)
  have nic: "rs_nic s' = rs_nic s" and pool': "rx_pool s' = freed @ rx_pool s" using re by (simp_all add: s'_def)
  have at: "mb_at s' = mb_at t" by (simp add: s'_def)
  have "\<forall>x. buf_dma s' x = buf_dma s x" using re by (simp add: buf_dma_def s'_def)
  note R = rx_inv_segs [OF inv rxq nic this pool' _ d(2)]
  have dr: "distinct (freed @ rx_pool s @ ring_bufs R s)" using d(1) by simp
  have "q = [] \<or> open_ok s' q"
    using re open_ok_cong [of q s' t] at by (auto simp: s'_def)
  moreover have "mb_next (mb_at s' m) = None" if m: "m \<in> set (rx_pool s' @ ring_bufs R s')" for m
  proof (cases "m \<in> set freed")
    case True
    then show ?thesis using re at by simp
  next
    case False
    then have "m \<in> set (rx_pool s @ ring_bufs R s)" using m R(2) [OF dr] pool' by simp
    moreover from this have "mb_at t m = mb_at s m" using dist(1) re by auto
    ultimately show ?thesis using next_none at by simp
  qed
  moreover have "mb_pool (mb_at s' m) = rq_mb_pool (rs_rxq s')" if "m \<in> set (q @ rx_pool s' @ ring_bufs R s')" for m
  proof -
    have "m \<in> set (p @ bs @ rx_pool s @ ring_bufs R s)" using that sub R(2) [OF dr] pool' by auto
    then show ?thesis using pool re unfolding rxq by (simp add: s'_def)
  qed
  ultimately show "rx_seg_inv R q s'"
    using R [OF dr] d pool' unfolding rx_seg_inv_def by (simp add: s'_def)
  show "\<forall>x \<in> set ps. wf_packet s' x" using re wf_packet_cong [of _ s' t] at by simp
  show "subseq (concat ps @ q) (p @ bs)" using re by blast
  show "mset (concat ps @ q @ rx_pool s') = mset (p @ bs @ rx_pool s)" using ms by (simp add: pool' ac_simps)
  show "ring_bufs R s' = ring_bufs R s" "rx_n s' = rx_n s" using R(2,3) [OF dr] by simp_all
  show "rs_nic s' = rs_nic s" by (rule nic)
  show "\<forall>x. x \<notin> set (p @ bs) \<longrightarrow> mb_at s' x = mb_at s x" using re at by simp
  show "length ps \<le> length bs" using re by blast
qed

section \<open>A burst\<close>

lemma received_fresh:
  assumes "packet_of s s' m x" "full_desc (snd x)" "queue_set_up (rs_rxq s)" "rq_crc_len (rs_rxq s') = rq_crc_len (rs_rxq s)"
    "mb_next (mb_at s' m) = None"
  shows "fresh_seg s' (m, eop_flag x)"
proof -
  have "mb_at s' m = fst (rx_fields (rs_rxq s) (snd x) (rx_buf s m))"
    using assms(1) by (auto simp: packet_of_def rx_buf_def dest: arg_cong [of _ _ fst])
  then have b: "mb_nb_segs (mb_at s' m) = 1" "seg_ready s' m" "mb_pkt_len (mb_at s' m) = ucast (mb_data_len (mb_at s' m))"
    "mb_data_len (mb_at s' m) = wb_length (snd x) - crc16 s'"
    using assms(4) by (simp_all add: rx_fields_def seg_ready_def split: prod.splits)
  have "crc16 s' \<in> {0, 4}" using assms(3,4) by (auto simp: queue_set_up_def)
  then have "crc16 s' \<le> 4" by auto
  then have "eop_flag x \<noteq> 0 \<longrightarrow> crc16 s' \<le> wb_length (snd x)"
    using assms(2) by (auto simp: eop_flag_def full_desc_def intro: order_trans split: if_splits)
  then show ?thesis using b assms(5) by (simp add: fresh_seg_def Let_def)
qed

lemma received_info:
  assumes "packet_of s s' m x" "rq_crc_len (rs_rxq s') = rq_crc_len (rs_rxq s)"
  shows "seg_info s' (m, eop_flag x) = (m, desc_eop (snd x), wb_length (snd x) \<le> crc16 s)"
proof -
  have "mb_at s' m = fst (rx_fields (rs_rxq s) (snd x) (rx_buf s m))"
    using assms(1) by (auto simp: packet_of_def rx_buf_def dest: arg_cong [of _ _ fst])
  then have "mb_data_len (mb_at s' m) = wb_length (snd x) - crc16 s"
    by (simp add: rx_fields_def split: prod.splits)
  then show ?thesis using assms(2) by (simp add: seg_info_def eop_flag_def)
qed

lemma seg_alone_all:
  "distinct (map fst xs) \<Longrightarrow> \<forall>x \<in> set xs. fresh_seg s x \<and> snd x = 0 \<Longrightarrow>
   reassembled [] (map fst xs) s (map (\<lambda>x. [fst x]) xs) [] [] s"
proof (induction xs)
  case (Cons x xs)
  have "reassembled [] [fst x] s [[fst x]] [] [] s" using Cons.prems by (cases x) (auto intro: seg_alone)
  from reassembled_trans [OF this Cons.IH] Cons.prems show ?case by simp
qed (simp add: reassembled_nothing)

lemma map_hd_singletons: "map hd (map (\<lambda>x. [fst x]) xs) = map fst xs"
  by simp

text \<open>The reassembly of one burst, as the code calls it: the buffers before the first open packet are packets already.\<close>

definition burst_packets :: "(nat \<times> u8) list \<Rightarrow> rx_state \<Rightarrow> tx_fault + nat list \<times> rx_state" where
  "burst_packets xs s =
     (if rq_pkt_first_seg (rs_rxq s) = None then
        (let i = length (takeWhile (\<lambda>x. snd x = 0) xs)
         in if i = length xs then Inr (map fst xs, s)
            else bindR (reassemble_packets (drop i xs) (s\<lparr>rs_rxq := (rs_rxq s)\<lparr>rq_pkt_first_seg := Some (fst (xs ! i))\<rparr>\<rparr>))
              (\<lambda>(pkts, s). Inr (map fst (take i xs) @ pkts, s)))
      else reassemble_packets xs s)"

lemma burst_packets_ok:
  assumes segs: "rq_pkt_first_seg (rs_rxq s) = first_seg p" "rq_pkt_last_seg (rs_rxq s) = last_seg p" "p = [] \<or> open_ok s p"
    and d: "distinct (p @ map fst xs)" and len: "length p + length xs \<le> 65536"
    and fr: "\<forall>x \<in> set xs. fresh_seg s x \<and> mb_pool (mb_at s (fst x)) = rq_mb_pool (rs_rxq s)"
  shows "\<exists>f l ps q freed t. burst_packets xs s = Inr (map hd ps, set_segs (first_seg q) (last_seg q) t) \<and>
    reassembled p (map fst xs) (set_segs f l s) ps q freed t \<and> cut_packets p (map (seg_info s) xs) = (ps, q)"
proof (cases "p = []")
  case False
  then have "rq_pkt_first_seg (rs_rxq s) = Some (hd p)" "open_ok s p" using segs by (simp_all add: first_seg_def)
  with reassemble_loop_ok [OF d _ fr len, of "Some (hd p)" "[]"] False obtain ps q freed t start' where
    r: "reassemble_loop xs (Some (hd p)) (last_seg p) [] s = Inr (start', last_seg q, map hd ps, t)"
      "reassembled p (map fst xs) s ps q freed t" "first_seg_ok p xs (Some (hd p)) q start'"
      "cut_packets p (map (seg_info s) xs) = (ps, q)" by auto
  have "start' = first_seg q" using r(3) False by (auto simp: first_seg_ok_def first_seg_def)
  then have "burst_packets xs s = Inr (map hd ps, set_segs (first_seg q) (last_seg q) t)"
    using r(1) segs(2) \<open>rq_pkt_first_seg (rs_rxq s) = Some (hd p)\<close>
    by (simp add: burst_packets_def reassemble_packets_def set_segs_def)
  moreover have "set_segs (rq_pkt_first_seg (rs_rxq s)) (rq_pkt_last_seg (rs_rxq s)) s = s" by (simp add: set_segs_same)
  ultimately show ?thesis using r(2,4) by metis
next
  case True
  define i where "i = length (takeWhile (\<lambda>x. snd x = 0) xs)"
  have none: "rq_pkt_first_seg (rs_rxq s) = None" "rq_pkt_last_seg (rs_rxq s) = None" "set_segs None None s = s"
    using segs True by (auto simp: first_seg_def last_seg_def set_segs_same)
  have take_i: "take i xs = takeWhile (\<lambda>x. snd x = 0) xs" by (simp add: i_def takeWhile_eq_take [symmetric])
  have su: "seg_info (set_segs g h s) = seg_info s" for g h by (simp add: seg_info_def fun_eq_iff)
  have z: "snd x = 0" if "x \<in> set (take i xs)" for x using that unfolding take_i by (auto dest: set_takeWhileD)
  show ?thesis
  proof (cases "i = length xs")
    case all: True
    then have "reassembled [] (map fst xs) s (map (\<lambda>x. [fst x]) xs) [] [] s"
      using seg_alone_all [of xs s] d fr z by simp
    moreover have "burst_packets xs s = Inr (map fst xs, s)" using all none(1) by (simp add: burst_packets_def i_def)
    moreover have "cut_packets [] (map (seg_info s) xs) = (map (\<lambda>x. [fst x]) xs, [])"
      using cut_singles [of xs s "[]"] z all by simp
    ultimately show ?thesis using True none(3) map_hd_singletons [of xs]
      by (intro exI [of _ None] exI [of _ "map (\<lambda>x. [fst x]) xs"] exI [of _ "[]"] exI [of _ s]) (auto simp: first_seg_def last_seg_def)
  next
    case False
    then have i: "i < length xs" using length_takeWhile_le [of "\<lambda>x. snd x = 0" xs] unfolding i_def by linarith
    have nz: "snd (xs ! i) \<noteq> 0" using i nth_length_takeWhile [of "\<lambda>x. snd x = 0" xs] by (simp add: i_def)
    define f where "f = Some (fst (xs ! i))"
    define u where "u = set_segs f None s"
    have u: "s\<lparr>rs_rxq := (rs_rxq s)\<lparr>rq_pkt_first_seg := f\<rparr>\<rparr> = u" using none(2) by (simp add: u_def set_segs_def)
    have fru: "\<forall>x \<in> set xs. fresh_seg u x \<and> mb_pool (mb_at u (fst x)) = rq_mb_pool (rs_rxq u)"
      using fr fresh_seg_cong [of u _ s] by (simp add: u_def)
    have ds: "distinct (map fst (take i xs) @ map fst (drop i xs))" using d by (simp add: map_append [symmetric] del: map_append)
    have a: "reassembled [] (map fst (take i xs)) u (map (\<lambda>x. [fst x]) (take i xs)) [] [] u"
      using seg_alone_all [of "take i xs" u] ds fru z by (auto dest: in_set_takeD)
    have "\<forall>x \<in> set (drop i xs). fresh_seg u x \<and> mb_pool (mb_at u (fst x)) = rq_mb_pool (rs_rxq u)"
      using fru by (auto dest: in_set_dropD)
    moreover have "length ([] :: nat list) + length (drop i xs) \<le> 65536" "distinct ([] @ map fst (drop i xs))" using len ds by auto
    moreover have "last_seg [] = None" by (simp add: last_seg_def)
    ultimately obtain ps q freed t start' where
      r: "reassemble_loop (drop i xs) f None [] u = Inr (start', last_seg q, map hd ps, t)"
        "reassembled [] (map fst (drop i xs)) u ps q freed t" "first_seg_ok [] (drop i xs) f q start'"
        "cut_packets [] (map (seg_info u) (drop i xs)) = (ps, q)"
      using reassemble_loop_ok [of "[]" "drop i xs" u f "[]"] unfolding append_Nil by metis
    have "xs ! i \<in> set (drop i xs)" using i by (metis Cons_nth_drop_Suc list.set_intros(1))
    then have start': "start' = first_seg q" using r(3) nz by (auto simp: first_seg_ok_def first_seg_def split: if_splits)
    have "reassemble_packets (drop i xs) u = Inr (map hd ps, set_segs (first_seg q) (last_seg q) t)"
      using r(1) start' by (simp add: reassemble_packets_def set_segs_def u_def)
    then have "burst_packets xs s = Inr (map hd (map (\<lambda>x. [fst x]) (take i xs) @ ps), set_segs (first_seg q) (last_seg q) t)"
      using False none(1) u map_hd_singletons [of "take i xs"]
      by (simp add: burst_packets_def i_def [symmetric] Let_def f_def del: map_map)
    moreover have "reassembled p (map fst xs) (set_segs f None s) (map (\<lambda>x. [fst x]) (take i xs) @ ps) q (freed @ []) t"
      using reassembled_trans [OF a r(2)] ds True by (simp add: u_def map_append [symmetric] del: map_append)
    moreover have "cut_packets p (map (seg_info s) xs) = (map (\<lambda>x. [fst x]) (take i xs) @ ps, q)"
    proof -
      have "cut_packets [] (map (seg_info s) (take i xs @ drop i xs)) = (map (\<lambda>x. [fst x]) (take i xs) @ ps, q)"
        using cut_singles [of "take i xs" s "drop i xs"] z r(4) unfolding u_def su by (simp del: append_take_drop_id)
      then show ?thesis using True by simp
    qed
    ultimately show ?thesis by blast
  qed
qed

lemma takeWhile_flags: "length ms = length fs \<Longrightarrow> length (takeWhile (\<lambda>x. snd x = 0) (zip ms fs)) = length (takeWhile (\<lambda>f. f = 0) fs)"
  by (induction ms fs rule: list_induct2) auto

lemma burst_vec_packets:
  assumes "recv_raw_pkts_vec dev nb_pkts s = Inr (s1, pkts, split, nb)" "nb \<le> length pkts" "nb \<le> length split"
  shows "ixgbe_recv_scattered_burst_vec dev nb_pkts s =
    bindR (burst_packets (zip (take nb pkts) (take nb split)) s1) (\<lambda>(pkts, s). Inr (s, pkts))"
proof (cases "nb = 0")
  case False
  define fl where "fl = split @ replicate (32 - length split) 0"
  have fl: "take nb fl = take nb split" using assms(3) by (simp add: fl_def)
  define xs where "xs = zip (take nb pkts) (take nb split)"
  have xs: "length xs = nb" "map fst xs = take nb pkts" using assms(2,3) by (simp_all add: xs_def)
  define i where "i = length (takeWhile (\<lambda>f. f = 0) (take nb split))"
  have i: "length (takeWhile (\<lambda>x. snd x = 0) xs) = i"
    using takeWhile_flags [of "take nb pkts" "take nb split"] assms(2,3) by (simp add: xs_def i_def)
  have hd_i: "fst (xs ! i) = pkts ! i" "map fst (take i xs) = take i pkts" if "i \<noteq> nb"
  proof -
    have "i \<le> nb" using length_takeWhile_le [of "\<lambda>f. f = 0" "take nb split"] assms(3) by (simp add: i_def)
    then have "i < nb" using that by simp
    then show "fst (xs ! i) = pkts ! i" "map fst (take i xs) = take i pkts"
      using assms(2,3) xs(2) by (simp_all add: xs_def take_map [symmetric] min_def)
  qed
  have run: "ixgbe_recv_scattered_burst_vec dev nb_pkts s =
     (if rq_pkt_first_seg (rs_rxq s1) = None \<and> (\<forall>f \<in> set fl. f = 0) then Inr (s1, take nb pkts)
      else if rq_pkt_first_seg (rs_rxq s1) = None then
        (if i = nb then Inr (s1, take nb pkts)
         else bindR (reassemble_packets (drop i xs) (s1\<lparr>rs_rxq := (rs_rxq s1)\<lparr>rq_pkt_first_seg := Some (pkts ! i)\<rparr>\<rparr>))
                    (\<lambda>(ps, s). Inr (s, take i pkts @ ps)))
      else bindR (reassemble_packets xs s1) (\<lambda>(pkts, s). Inr (s, pkts)))"
    using False unfolding ixgbe_recv_scattered_burst_vec_def assms(1) bindR_Inr prod.case Let_def fl_def [symmetric] fl i_def [symmetric]
      xs_def [symmetric] by simp
  have zero: "i = nb" if "\<forall>f \<in> set fl. f = 0"
  proof -
    have "set (take nb split) \<subseteq> set fl" unfolding fl [symmetric] by (rule set_take_subset)
    then have "\<forall>f \<in> set (take nb split). f = 0" using that by blast
    then have "takeWhile (\<lambda>f. f = 0) (take nb split) = take nb split" by (simp add: takeWhile_eq_all_conv)
    then have "i = length (take nb split)" unfolding i_def by (rule arg_cong)
    then show ?thesis using assms(3) by simp
  qed
  show ?thesis
    using zero hd_i unfolding run burst_packets_def xs_def [symmetric] i xs Let_def
    by (cases "reassemble_packets xs s1"; cases "reassemble_packets (drop i xs) (s1\<lparr>rs_rxq := (rs_rxq s1)\<lparr>rq_pkt_first_seg := Some (pkts ! i)\<rparr>\<rparr>)")
      (simp_all add: split_beta)
qed (use assms(1) in \<open>simp add: ixgbe_recv_scattered_burst_vec_def burst_packets_def reassemble_packets_def Let_def\<close>)

lemma queue_const_sel:
  assumes "queue_const q = queue_const q'"
  shows "rq_pkt_first_seg q = rq_pkt_first_seg q'" "rq_pkt_last_seg q = rq_pkt_last_seg q'" "rq_crc_len q = rq_crc_len q'"
    "rq_fake_mbuf q = rq_fake_mbuf q'" "rq_mb_pool q = rq_mb_pool q'"
  using arg_cong [OF assms, of rq_pkt_first_seg] arg_cong [OF assms, of rq_pkt_last_seg] arg_cong [OF assms, of rq_crc_len]
    arg_cong [OF assms, of rq_fake_mbuf] arg_cong [OF assms, of rq_mb_pool]
  by (simp_all add: queue_const_def)

lemma scattered_core:
  assumes inv: "rx_seg_inv R p s" and dev: "device_ok (rx_n s) dev" and len: "length p + 32 \<le> 65536"
  shows "\<exists>s' ps q nb. ixgbe_recv_scattered_burst_vec dev nb_pkts s = Inr (s', map hd ps) \<and> rx_seg_inv (R + nb) q s' \<and>
    nb \<le> 32 \<and> nb \<le> unat nb_pkts \<and> (\<forall>x \<in> set ps. wf_packet s' x) \<and>
    mset (concat ps @ q @ rx_pool s' @ ring_bufs (R + nb) s') = mset (p @ rx_pool s @ ring_bufs R s) \<and>
    (\<exists>bs. length bs = nb \<and> map (buf_dma s') bs = map fst (take nb (drop R (rx_log s'))) \<and> subseq (concat ps @ q) (p @ bs) \<and>
       cut_packets p (map (\<lambda>(b, x). (b, desc_eop (snd x), wb_length (snd x) \<le> crc16 s)) (zip bs (take nb (drop R (rx_log s'))))) = (ps, q)) \<and>
    rx_n s' = rx_n s \<and> length ps \<le> nb \<and>
    (\<forall>m. m \<notin> set (p @ rx_pool s @ ring_bufs R s) \<longrightarrow> m \<noteq> rx_fake s \<longrightarrow> mb_at s' m = mb_at s m) \<and> rx_fake s' = rx_fake s"
proof -
  note I = inv [unfolded rx_seg_inv_def]
  have inv0: "rx_inv R s" using I by blast
  from recv_core [OF inv0 dev, of nb_pkts] obtain s1 pkts split nb t where
    r: "recv_raw_pkts_vec dev nb_pkts s = Inr (s1, pkts, split, nb)" "rx_inv (R + nb) s1" "nb \<le> 32" "nb \<le> unat nb_pkts" "nb \<le> length pkts"
      "nb \<le> length split" "list_all2 (packet_of s s1) (take nb pkts) (take nb (drop R (rx_log s1)))"
      "take nb split = map eop_flag (take nb (drop R (rx_log s1)))" "\<forall>x \<in> set (take nb (drop R (rx_log s1))). full_desc (snd x)"
      "queue_const (rs_rxq s1) = queue_const (rs_rxq s)" "rx_n s1 = rx_n s" "\<forall>m. buf_link (mb_at s1 m) = buf_link (mb_at s m)"
      "rx_pool s = t @ rx_pool s1" "ring_bufs R s @ t = take nb pkts @ ring_bufs (R + nb) s1"
      "\<forall>m. m \<notin> set (rx_pool s @ ring_bufs R s) \<longrightarrow> m \<noteq> rx_fake s \<longrightarrow> rx_buf s1 m = rx_buf s m" by blast
  note q = queue_const_sel [OF r(10)]
  define bs where "bs = take nb pkts"
  define lg where "lg = take nb (drop R (rx_log s1))"
  have lens: "length bs = nb" "length lg = nb" using r(5,7) list_all2_lengthD [OF r(7)] by (simp_all add: bs_def lg_def)
  define xs where "xs = zip bs (take nb split)"
  have xs: "length xs = nb" "map fst xs = bs" "xs = zip bs (map eop_flag lg)" using r(6,8) lens by (simp_all add: xs_def lg_def)
  have own: "mset (p @ bs @ rx_pool s1 @ ring_bufs (R + nb) s1) = mset (p @ rx_pool s @ ring_bufs R s)"
  proof -
    have "mset (p @ rx_pool s @ ring_bufs R s) = mset p + mset (ring_bufs R s @ t) + mset (rx_pool s1)" by (simp add: r(13))
    then show ?thesis unfolding r(14) by (simp add: bs_def)
  qed
  have dist: "distinct (p @ bs @ rx_pool s1 @ ring_bufs (R + nb) s1)" using I mset_eq_imp_distinct_iff [OF own] by blast
  have mem: "set (p @ bs @ rx_pool s1 @ ring_bufs (R + nb) s1) = set (p @ rx_pool s @ ring_bufs R s)" using mset_eq_setD [OF own] .
  have link: "mb_next (mb_at s1 m) = mb_next (mb_at s m)" "mb_pool (mb_at s1 m) = mb_pool (mb_at s m)" for m
    using r(12) by (simp_all add: buf_link_def)
  have mem2: "set (bs @ rx_pool s1 @ ring_bufs (R + nb) s1) \<subseteq> set (rx_pool s @ ring_bufs R s)" using mem dist by auto
  have fake: "rx_fake s1 \<notin> set (p @ bs)"
    using I mem2 unfolding q(4) rx_inv_def rx_own_def by auto
  have next_none: "\<forall>m \<in> set (bs @ rx_pool s1 @ ring_bufs (R + nb) s1). mb_next (mb_at s1 m) = None" using I mem2 link(1) by auto
  have pool: "\<forall>m \<in> set (p @ bs @ rx_pool s1 @ ring_bufs (R + nb) s1). mb_pool (mb_at s1 m) = rq_mb_pool (rs_rxq s1)"
    using I unfolding mem link(2) q(5) by blast
  have open1: "p = [] \<or> open_ok s1 p"
  proof -
    have "rx_buf s1 m = rx_buf s m" if "m \<in> set p" for m
      using that I r(15) by (intro r(15) [rule_format]) auto
    then have "mb_at s1 m = mb_at s m" if "m \<in> set p" for m using that by (simp add: rx_buf_def)
    then show ?thesis using I open_ok_cong [of p s1 s] q(3) by blast
  qed
  have fresh: "fresh_seg s1 x \<and> mb_pool (mb_at s1 (fst x)) = rq_mb_pool (rs_rxq s1)" if x: "x \<in> set xs" for x
  proof -
    obtain i where i: "i < nb" "x = (bs ! i, eop_flag (lg ! i))" using x lens xs by (auto simp: in_set_conv_nth)
    have "packet_of s s1 (bs ! i) (lg ! i)" using r(7) i(1) lens by (auto simp: list_all2_conv_all_nth bs_def lg_def)
    moreover have "full_desc (snd (lg ! i))" using r(9) i(1) lens by (simp add: lg_def [symmetric])
    moreover have "bs ! i \<in> set bs" using i(1) lens by simp
    ultimately show ?thesis using received_fresh [of s s1 "bs ! i" "lg ! i"] inv0 q(3) next_none pool i(2) by (auto simp: rx_inv_def)
  qed
  have info: "map (seg_info s1) xs = map (\<lambda>(b, x). (b, desc_eop (snd x), wb_length (snd x) \<le> crc16 s)) (zip bs lg)"
  proof (rule nth_equalityI)
    show "length (map (seg_info s1) xs) = length (map (\<lambda>(b, x). (b, desc_eop (snd x), wb_length (snd x) \<le> crc16 s)) (zip bs lg))"
      using lens xs by simp
    fix i
    assume "i < length (map (seg_info s1) xs)"
    then have i: "i < nb" "xs ! i = (bs ! i, eop_flag (lg ! i))" using lens xs by simp_all
    have "packet_of s s1 (bs ! i) (lg ! i)" using r(7) i(1) lens by (auto simp: list_all2_conv_all_nth bs_def lg_def)
    from received_info [OF this q(3)] show "map (seg_info s1) xs ! i = map (\<lambda>(b, x). (b, desc_eop (snd x), wb_length (snd x) \<le> crc16 s)) (zip bs lg) ! i"
      using i lens xs by simp
  qed
  from fresh have fr: "\<forall>x \<in> set xs. fresh_seg s1 x \<and> mb_pool (mb_at s1 (fst x)) = rq_mb_pool (rs_rxq s1)" by blast
  have "rq_pkt_first_seg (rs_rxq s1) = first_seg p" "rq_pkt_last_seg (rs_rxq s1) = last_seg p" using I q by auto
  moreover have "distinct (p @ map fst xs)" "length p + length xs \<le> 65536" using dist xs len r(3) by auto
  ultimately obtain f l ps p' freed u where b: "burst_packets xs s1 = Inr (map hd ps, set_segs (first_seg p') (last_seg p') u)"
    "reassembled p bs (set_segs f l s1) ps p' freed u" "cut_packets p (map (seg_info s1) xs) = (ps, p')"
    using burst_packets_ok [OF _ _ open1 _ _ fr] xs(2) by metis
  define s' where "s' = set_segs (first_seg p') (last_seg p') u"
  have nn: "\<forall>m \<in> set (rx_pool s1 @ ring_bufs (R + nb) s1). mb_next (mb_at s1 m) = None" using next_none by auto
  note F = rx_seg_inv_reassembled [OF r(2) b(2) dist fake nn pool, folded s'_def]
  have run: "ixgbe_recv_scattered_burst_vec dev nb_pkts s = Inr (s', map hd ps)"
    using burst_vec_packets [OF r(1,5,6)] b(1) by (simp add: bs_def [symmetric] xs_def [symmetric] s'_def)
  have conserved: "mset (concat ps @ p' @ rx_pool s' @ ring_bufs (R + nb) s') = mset (p @ rx_pool s @ ring_bufs R s)"
  proof -
    have "mset (concat ps @ p' @ rx_pool s' @ ring_bufs (R + nb) s') = mset (concat ps @ p' @ rx_pool s') + mset (ring_bufs (R + nb) s1)"
      unfolding F(5) by simp
    also have "\<dots> = mset (p @ bs @ rx_pool s1 @ ring_bufs (R + nb) s1)" unfolding F(4) by simp
    finally show ?thesis unfolding own .
  qed
  have "buf_dma s' m = buf_dma s1 m" for m using b(2) by (simp add: reassembled_def s'_def buf_dma_def)
  then have dma: "map (buf_dma s') bs = map fst (take nb (drop R (rx_log s')))"
    using r(7) F(7) unfolding lg_def [symmetric] bs_def [symmetric]
    by (intro nth_equalityI) (auto simp: list_all2_conv_all_nth lens packet_of_def lg_def)
  have frame: "mb_at s' m = mb_at s m" if "m \<notin> set (p @ rx_pool s @ ring_bufs R s)" "m \<noteq> rx_fake s" for m
  proof -
    have "m \<notin> set (p @ bs)" using that(1) unfolding mem [symmetric] by auto
    then have "mb_at s' m = mb_at s1 m" using F(8) by blast
    moreover have "rx_buf s1 m = rx_buf s m" using that r(15) by auto
    ultimately show ?thesis by (simp add: rx_buf_def)
  qed
  have cut: "cut_packets p (map (\<lambda>(b, x). (b, desc_eop (snd x), wb_length (snd x) \<le> crc16 s)) (zip bs (take nb (drop R (rx_log s'))))) = (ps, p')"
    using b(3) F(7) unfolding info lg_def by simp
  have "rx_fake s' = rx_fake s" using b(2) q(4) by (simp add: s'_def reassembled_def)
  then show ?thesis
    using run F(1,2,3,6,9) conserved dma lens(1) r(3,4,11) frame cut
    by (intro exI [of _ s'] exI [of _ ps] exI [of _ p'] exI [of _ nb] conjI exI [of _ bs]) auto
qed

section \<open>A call\<close>

lemma scattered_open_bound:
  assumes "\<forall>x \<in> set ps. wf_packet s x" "subseq (concat ps @ q) (p @ bs)"
  shows "length ps + length q \<le> length p + length bs"
proof -
  have "length ps \<le> length (concat ps)"
    using assms(1)
  proof (induction ps)
    case (Cons x ps)
    then have "x \<noteq> []" by (simp add: wf_packet_def)
    then show ?case using Cons by (cases x) auto
  qed simp
  moreover have "length (concat ps @ q) \<le> length (p @ bs)" using assms(2) by (rule list_emb_length)
  ultimately show ?thesis by simp
qed

lemma scattered_loop_ok:
  "rx_seg_inv R p s \<Longrightarrow> \<forall>k. device_ok (rx_n s) (devs k) \<Longrightarrow> length p \<le> 65472 \<Longrightarrow> nb_pkts < 32 * fuel \<Longrightarrow> nb_pkts < 65536 \<Longrightarrow>
   \<exists>s' ps q R'. recv_scattered_loop devs fuel nb_pkts acc s = Inr (s', acc @ map hd ps) \<and> rx_seg_inv R' q s' \<and> R \<le> R' \<and>
     length ps \<le> nb_pkts \<and> (\<forall>x \<in> set ps. wf_packet s' x) \<and>
     mset (concat ps @ q @ rx_pool s' @ ring_bufs R' s') = mset (p @ rx_pool s @ ring_bufs R s) \<and>
     (\<forall>m. m \<notin> set (p @ rx_pool s @ ring_bufs R s) \<longrightarrow> m \<noteq> rx_fake s \<longrightarrow> mb_at s' m = mb_at s m)"
proof (induction fuel arbitrary: R p s nb_pkts acc)
  case (Suc fuel)
  define n where "n = min nb_pkts 32"
  have n: "unat (of_nat n :: u16) = n" unfolding n_def by (simp add: unat_of_nat)
  have dev: "device_ok (rx_n s) (devs fuel)" using Suc.prems(2) by simp
  from scattered_core [OF Suc.prems(1) dev, of "of_nat n"] Suc.prems(3) obtain s1 ps q nb bs where
    b: "ixgbe_recv_scattered_burst_vec (devs fuel) (of_nat n) s = Inr (s1, map hd ps)" "rx_seg_inv (R + nb) q s1"
      "nb \<le> n" "\<forall>x \<in> set ps. wf_packet s1 x"
      "mset (concat ps @ q @ rx_pool s1 @ ring_bufs (R + nb) s1) = mset (p @ rx_pool s @ ring_bufs R s)"
      "length bs = nb" "subseq (concat ps @ q) (p @ bs)" "rx_n s1 = rx_n s" "length ps \<le> nb"
      "\<forall>m. m \<notin> set (p @ rx_pool s @ ring_bufs R s) \<longrightarrow> m \<noteq> rx_fake s \<longrightarrow> mb_at s1 m = mb_at s m" "rx_fake s1 = rx_fake s"
    unfolding n by auto
  show ?case
  proof (cases "nb_pkts > 32 \<and> \<not> length ps < 32")
    case False
    then have "recv_scattered_loop devs (Suc fuel) nb_pkts acc s = Inr (s1, acc @ map hd ps)"
      using b(1) by (auto simp: RTE_IXGBE_MAX_RX_BURST_def n_def min_def)
    moreover have "length ps \<le> nb_pkts" using b(3,9) by (simp add: n_def)
    ultimately show ?thesis using b by (intro exI [of _ s1] exI [of _ ps] exI [of _ q] exI [of _ "R + nb"]) simp
  next
    case True
    then have run: "recv_scattered_loop devs (Suc fuel) nb_pkts acc s = recv_scattered_loop devs fuel (nb_pkts - length ps) (acc @ map hd ps) s1"
      using b(1) by (simp add: RTE_IXGBE_MAX_RX_BURST_def n_def)
    have len: "length q \<le> 65472"
      using scattered_open_bound [OF b(4,7)] b(3,6) True Suc.prems(3) by (simp add: n_def)
    have "nb_pkts - length ps \<le> nb_pkts - 32" using True by (intro diff_le_mono2) simp
    moreover have "nb_pkts - 32 < 32 * fuel" using True Suc.prems(4) by (cases fuel) auto
    ultimately have "nb_pkts - length ps < 32 * fuel" by (rule le_less_trans)
    moreover have "nb_pkts - length ps < 65536" using Suc.prems(5) by simp
    ultimately have this: "nb_pkts - length ps < 32 * fuel" "nb_pkts - length ps < 65536" by blast+
    from Suc.IH [OF b(2) _ len this, of "acc @ map hd ps"] Suc.prems(2) b(8) obtain s' ps' q' R' where
      c: "recv_scattered_loop devs fuel (nb_pkts - length ps) (acc @ map hd ps) s1 = Inr (s', (acc @ map hd ps) @ map hd ps')"
        "rx_seg_inv R' q' s'" "R + nb \<le> R'" "length ps' \<le> nb_pkts - length ps" "\<forall>x \<in> set ps'. wf_packet s' x"
        "mset (concat ps' @ q' @ rx_pool s' @ ring_bufs R' s') = mset (q @ rx_pool s1 @ ring_bufs (R + nb) s1)"
        "\<forall>m. m \<notin> set (q @ rx_pool s1 @ ring_bufs (R + nb) s1) \<longrightarrow> m \<noteq> rx_fake s1 \<longrightarrow> mb_at s' m = mb_at s1 m" by auto
    have mem: "set (concat ps @ q @ rx_pool s1 @ ring_bufs (R + nb) s1) = set (p @ rx_pool s @ ring_bufs R s)"
      using mset_eq_setD [OF b(5)] .
    have own: "rx_fake s \<notin> set (p @ rx_pool s @ ring_bufs R s)"
      using Suc.prems(1) by (auto simp: rx_seg_inv_def rx_inv_def rx_own_def)
    have "distinct (p @ rx_pool s @ ring_bufs R s)" using Suc.prems(1) by (simp add: rx_seg_inv_def)
    then have d: "distinct (concat ps @ q @ rx_pool s1 @ ring_bufs (R + nb) s1)" using mset_eq_imp_distinct_iff [OF b(5)] by blast
    have keep: "wf_packet s' x" if "x \<in> set ps" for x
    proof -
      have "mb_at s' m = mb_at s1 m" if "m \<in> set x" for m
      proof -
        have "m \<in> set (concat ps)" using that \<open>x \<in> set ps\<close> by auto
        then have "m \<notin> set (q @ rx_pool s1 @ ring_bufs (R + nb) s1)" "m \<noteq> rx_fake s1" using d mem own b(11) by auto
        then show ?thesis using c(7) by blast
      qed
      then show ?thesis using wf_packet_cong [of x s' s1] b(4) that by blast
    qed
    have "mset (concat (ps @ ps') @ q' @ rx_pool s' @ ring_bufs R' s') = mset (concat ps) + mset (concat ps' @ q' @ rx_pool s' @ ring_bufs R' s')"
      by simp
    also have "\<dots> = mset (concat ps @ q @ rx_pool s1 @ ring_bufs (R + nb) s1)" unfolding c(6) by simp
    finally have cons: "mset (concat (ps @ ps') @ q' @ rx_pool s' @ ring_bufs R' s') = mset (p @ rx_pool s @ ring_bufs R s)" unfolding b(5) .
    have frame: "mb_at s' m = mb_at s m" if "m \<notin> set (p @ rx_pool s @ ring_bufs R s)" "m \<noteq> rx_fake s" for m
    proof -
      have "m \<notin> set (q @ rx_pool s1 @ ring_bufs (R + nb) s1)" using that(1) mem by auto
      then show ?thesis using that b(10,11) c(7) by simp
    qed
    have "length (ps @ ps') \<le> nb_pkts" using c(4) b(3,9) unfolding n_def by simp linarith
    then show ?thesis
      unfolding run using c(1,2,3,5) keep cons frame
      by (intro exI [of _ s'] exI [of _ "ps @ ps'"] exI [of _ q'] exI [of _ R']) auto
  qed
qed simp

end
