(* ===== verification/IxgbeRxProps.thy ===== *)
theory IxgbeRxProps
  imports IxgbeRxBurst
begin

text \<open>
  The receive queue from its start on: the start establishes the invariant of the ring; a call never faults, keeps the
  invariant, and delivers the packets that the device wrote back, once and in order, in the buffers that the device was given,
  without touching a buffer that the application holds.
\<close>

section \<open>The start of the queue\<close>

text \<open>What the start leaves of a buffer as it was.\<close>

definition buf_kept :: "mbuf \<Rightarrow> u64 \<times> nat option \<times> nat \<times> u16 \<times> bool" where
  "buf_kept b = (mb_buf_iova b, mb_next b, mb_pool b, mb_refcnt b, mb_direct b)"

lemma buf_kept_iova: "buf_kept b = buf_kept b' \<Longrightarrow> mb_buf_iova b = mb_buf_iova b'"
  by (simp add: buf_kept_def)

lemma alloc_loop_ok:
  "i + k \<le> length (rx_sw s) \<Longrightarrow> i + k \<le> length (rx_ring s) \<Longrightarrow> k \<le> length (rx_pool s) \<Longrightarrow>
   \<exists>ring sw d meta. alloc_rx_loop k i s = Inr (s\<lparr>rs_drv := d, rs_meta := meta, rs_rxq := (rs_rxq s)\<lparr>rq_sw_ring := sw\<rparr>,
       rs_nic := (rs_nic s)\<lparr>rn_ring := ring\<rparr>\<rparr>, True) \<and>
     d_pools d (rq_mb_pool (rs_rxq s)) = drop k (rx_pool s) \<and> (\<forall>m. buf_kept (d_mbufs d m) = buf_kept (d_mbufs (rs_drv s) m)) \<and>
     length ring = length (rx_ring s) \<and> length sw = length (rx_sw s) \<and>
     (\<forall>j < k. ring ! (i + j) = armed_desc (buf_dma s (rx_pool s ! j)) \<and> sw ! (i + j) = Some (rx_pool s ! j)) \<and>
     (\<forall>x. x < i \<or> i + k \<le> x \<longrightarrow> ring ! x = rx_ring s ! x \<and> sw ! x = rx_sw s ! x)"
proof (induction k arbitrary: i s)
  case 0
  then show ?case
    by (intro exI [of _ "rx_ring s"] exI [of _ "rx_sw s"] exI [of _ "rs_drv s"] exI [of _ "rs_meta s"]) (simp add: rx_pool_def)
next
  case (Suc k)
  define m where "m = hd (rx_pool s)"
  define d where "d = (rs_drv s)\<lparr>d_pools := (d_pools (rs_drv s))(rq_mb_pool (rs_rxq s) := drop 1 (rx_pool s))\<rparr>"
  define f where "f = (\<lambda>(b :: mbuf, e :: rx_meta). (b\<lparr>mb_data_off := ucast RTE_PKTMBUF_HEADROOM\<rparr>, e\<lparr>rm_port := rq_port_id (rs_rxq s)\<rparr>))"
  define t where "t = upd_buf m f (s\<lparr>rs_drv := d\<rparr>)"
  define s1 where "s1 = t\<lparr>rs_nic := (rs_nic s)\<lparr>rn_ring := (rx_ring s)[i := armed_desc (buf_dma s m)]\<rparr>,
    rs_rxq := (rs_rxq s)\<lparr>rq_sw_ring := (rx_sw s)[i := Some m]\<rparr>\<rparr>"
  obtain p ps where pool: "rx_pool s = p # ps" using Suc.prems(3) by (cases "rx_pool s") auto
  have mp: "m = p" by (simp add: m_def pool)
  have get: "mempool_get_bulk (rq_mb_pool (rs_rxq s)) 1 (rs_drv s) = Some ([m], d)"
    using pool mp by (simp add: mempool_get_bulk_def rx_pool_def d_def)
  have kept: "buf_kept (d_mbufs (rs_drv t) x) = buf_kept (d_mbufs (rs_drv s) x)" for x
    by (simp add: t_def upd_buf_def f_def rx_buf_def d_def buf_kept_def)
  note iova = buf_kept_iova [OF kept]
  have tn: "rs_rxq t = rs_rxq s" "rs_nic t = rs_nic s" by (simp_all add: t_def)
  have dma: "bytes64 (mb_buf_iova (d_mbufs (rs_drv t) m) + RTE_PKTMBUF_HEADROOM) @ bytes64 0 = armed_desc (buf_dma s m)"
    by (simp add: iova armed_desc_def buf_dma_def)
  have step: "alloc_rx_loop (Suc k) i s = alloc_rx_loop k (i + 1) s1"
    using get Suc.prems dma tn
    by (simp add: Let_def t_def [symmetric] f_def [symmetric] set_ring_def set_sw_ring_def aset_def s1_def)
  have pool1: "rx_pool s1 = drop 1 (rx_pool s)" by (simp add: rx_pool_def s1_def t_def d_def)
  have same1: "buf_dma s1 = buf_dma s" "rx_sw s1 = (rx_sw s)[i := Some m]" "rx_ring s1 = (rx_ring s)[i := armed_desc (buf_dma s m)]"
    by (simp_all add: buf_dma_def fun_eq_iff s1_def iova)
  have "i + 1 + k \<le> length (rx_sw s1)" "i + 1 + k \<le> length (rx_ring s1)" "k \<le> length (rx_pool s1)"
    using Suc.prems by (simp_all add: same1 pool1)
  from Suc.IH [OF this] obtain ring sw d' meta where r: "alloc_rx_loop k (i + 1) s1 =
      Inr (s1\<lparr>rs_drv := d', rs_meta := meta, rs_rxq := (rs_rxq s1)\<lparr>rq_sw_ring := sw\<rparr>, rs_nic := (rs_nic s1)\<lparr>rn_ring := ring\<rparr>\<rparr>, True)"
    "d_pools d' (rq_mb_pool (rs_rxq s1)) = drop k (rx_pool s1)"
    "\<forall>m. buf_kept (d_mbufs d' m) = buf_kept (d_mbufs (rs_drv s1) m)"
    "length ring = length (rx_ring s1)" "length sw = length (rx_sw s1)"
    "\<forall>j < k. ring ! (i + 1 + j) = armed_desc (buf_dma s1 (rx_pool s1 ! j)) \<and> sw ! (i + 1 + j) = Some (rx_pool s1 ! j)"
    "\<forall>x. x < i + 1 \<or> i + 1 + k \<le> x \<longrightarrow> ring ! x = rx_ring s1 ! x \<and> sw ! x = rx_sw s1 ! x" by blast
  have each: "ring ! (i + j) = armed_desc (buf_dma s (rx_pool s ! j)) \<and> sw ! (i + j) = Some (rx_pool s ! j)" if "j < Suc k" for j
  proof (cases j)
    case 0
    then show ?thesis using r(7) Suc.prems by (simp add: same1 mp pool)
  next
    case (Suc j')
    then show ?thesis using r(6) that by (simp add: same1 pool1 pool)
  qed
  have rest: "ring ! x = rx_ring s ! x \<and> sw ! x = rx_sw s ! x" if "x < i \<or> i + Suc k \<le> x" for x
    using r(7) that by (auto simp: same1)
  have s1e: "s1\<lparr>rs_drv := d', rs_meta := meta, rs_rxq := (rs_rxq s1)\<lparr>rq_sw_ring := sw\<rparr>, rs_nic := (rs_nic s1)\<lparr>rn_ring := ring\<rparr>\<rparr> =
      s\<lparr>rs_drv := d', rs_meta := meta, rs_rxq := (rs_rxq s)\<lparr>rq_sw_ring := sw\<rparr>, rs_nic := (rs_nic s)\<lparr>rn_ring := ring\<rparr>\<rparr>"
    by (simp add: s1_def t_def upd_buf_def split: prod.splits)
  have "rq_mb_pool (rs_rxq s1) = rq_mb_pool (rs_rxq s)" by (simp add: s1_def)
  then have d': "d_pools d' (rq_mb_pool (rs_rxq s)) = drop (Suc k) (rx_pool s)" using r(2) by (simp add: pool1 drop_Suc drop_tl)
  have kept': "\<forall>m. buf_kept (d_mbufs d' m) = buf_kept (d_mbufs (rs_drv s) m)" using r(3) by (simp add: s1_def kept)
  have len: "length ring = length (rx_ring s)" "length sw = length (rx_sw s)" using r(4,5) by (simp_all add: same1)
  show ?case
    unfolding step r(1) s1e using each rest d' kept' len
    by (intro exI [of _ ring] exI [of _ sw] exI [of _ d'] exI [of _ meta]) simp
qed

definition queue_memory_ok :: "rx_state \<Rightarrow> bool" where
  "queue_memory_ok s \<longleftrightarrow> rx_n s \<in> {64, 128, 256, 512, 1024, 2048, 4096} \<and> rx_n s + 32 \<le> length (rx_ring s) \<and>
     rx_n s + 32 \<le> length (rx_sw s) \<and> (\<forall>d \<in> set (rx_ring s). length d = 16) \<and> rq_pkt_first_seg (rs_rxq s) = None \<and>
     rq_vlan_flags (rs_rxq s) \<in> {0, 1, 65} \<and> rq_crc_len (rs_rxq s) \<in> {0, 4} \<and> rx_n s \<le> length (rx_pool s) \<and> distinct (rx_pool s) \<and> rx_fake s \<notin> set (rx_pool s)"

definition rx_start :: "rx_state \<Rightarrow> tx_fault + rx_state \<times> bool" where
  "rx_start s = bindR (ixgbe_reset_rx_queue s) (\<lambda>s. ixgbe_dev_rx_queue_start (ixgbe_rxq_vec_setup_default s))"

lemma start_core:
  assumes "queue_memory_ok s"
  shows "\<exists>s'. rx_start s = Inr (s', True) \<and> rx_inv 0 s' \<and> rx_pool s' = drop (rx_n s) (rx_pool s) \<and>
    ring_bufs 0 s' = take (rx_n s) (rx_pool s) \<and> rx_log s' = [] \<and> rx_n s' = rx_n s \<and>
    rq_pkt_first_seg (rs_rxq s') = None \<and> rq_pkt_last_seg (rs_rxq s') = None \<and> rx_fake s' = rx_fake s \<and>
    rq_mb_pool (rs_rxq s') = rq_mb_pool (rs_rxq s) \<and>
    (\<forall>m. m \<noteq> rx_fake s \<longrightarrow> buf_kept (d_mbufs (rs_drv s') m) = buf_kept (d_mbufs (rs_drv s) m))"
proof -
  define n where "n = rx_n s"
  have n: "n \<in> {64, 128, 256, 512, 1024, 2048, 4096}" "64 \<le> n" "n \<le> 4096" "32 dvd n"
    using assms by (auto simp: queue_memory_ok_def n_def)
  have mem: "n + 32 \<le> length (rx_ring s)" "n + 32 \<le> length (rx_sw s)" "\<forall>d \<in> set (rx_ring s). length d = 16"
    "rq_pkt_first_seg (rs_rxq s) = None" "rq_vlan_flags (rs_rxq s) \<in> {0, 1, 65}" "n \<le> length (rx_pool s)" "distinct (rx_pool s)"
    "rx_fake s \<notin> set (rx_pool s)" "rq_crc_len (rs_rxq s) \<in> {0, 4}"
    using assms by (simp_all add: queue_memory_ok_def n_def)
  have "0 + length (replicate (n + 32) mm_setzero_si128) \<le> length (rx_ring s)" using mem(1) by simp
  from awrite_nth [OF this] obtain ring where ring: "awrite (rx_ring s) 0 (replicate (n + 32) mm_setzero_si128) = Some ring"
    "length ring = length (rx_ring s)" "\<forall>j < n + 32. ring ! j = mm_setzero_si128"
    "\<forall>x. n + 32 \<le> x \<longrightarrow> x < length (rx_ring s) \<longrightarrow> ring ! x = rx_ring s ! x" by auto
  have "n + length (replicate 32 (Some (rx_fake s))) \<le> length (rx_sw s)" using mem(2) by simp
  from awrite_nth [OF this] obtain sw where sw: "awrite (rx_sw s) n (replicate 32 (Some (rx_fake s))) = Some sw"
    "length sw = length (rx_sw s)" "\<forall>j < 32. sw ! (n + j) = Some (rx_fake s)" by auto
  define t where "t = upd_buf (rx_fake s) (\<lambda>(m, e). (zeroed_mbuf m, zeroed_meta)) s"
  define s1 where "s1 = t\<lparr>rs_nic := (rs_nic s)\<lparr>rn_ring := ring\<rparr>,
    rs_rxq := (rs_rxq s)\<lparr>rq_sw_ring := sw, rq_rx_tail := 0, rq_pkt_first_seg := None, rq_pkt_last_seg := None,
                       rq_rxrearm_start := 0, rq_rxrearm_nb := 0\<rparr>\<rparr>"
  define s2 where "s2 = ixgbe_rxq_vec_setup_default s1"
  have reset: "ixgbe_reset_rx_queue s = Inr s1"
    using ring(1) sw(1) mem(4)
    by (simp add: ixgbe_reset_rx_queue_def Let_def rx_n_def [symmetric] n_def [symmetric] RTE_PMD_IXGBE_RX_MAX_BURST_def
        rte_pktmbuf_free_def t_def [symmetric] s1_def) (simp add: t_def)
  have s2: "rx_ring s2 = ring" "rx_sw s2 = sw" "rx_pool s2 = rx_pool s" "rx_n s2 = n" "rx_fake s2 = rx_fake s"
    "rq_rx_tail (rs_rxq s2) = 0" "rq_rxrearm_start (rs_rxq s2) = 0" "rq_rxrearm_nb (rs_rxq s2) = 0"
    "rq_vlan_flags (rs_rxq s2) = rq_vlan_flags (rs_rxq s)" "rs_drv s2 = rs_drv t"
    by (simp_all add: s2_def s1_def ixgbe_rxq_vec_setup_default_def Let_def rx_pool_def rx_n_def n_def) (simp_all add: t_def)
  have "0 + n \<le> length (rx_sw s2)" "0 + n \<le> length (rx_ring s2)" "n \<le> length (rx_pool s2)"
    using mem ring(2) sw(2) by (simp_all add: s2)
  from alloc_loop_ok [OF this] obtain ring3 sw3 d meta where a: "alloc_rx_loop n 0 s2 = Inr (s2\<lparr>rs_drv := d, rs_meta := meta,
      rs_rxq := (rs_rxq s2)\<lparr>rq_sw_ring := sw3\<rparr>, rs_nic := (rs_nic s2)\<lparr>rn_ring := ring3\<rparr>\<rparr>, True)"
    "d_pools d (rq_mb_pool (rs_rxq s2)) = drop n (rx_pool s)" "\<forall>m. buf_kept (d_mbufs d m) = buf_kept (d_mbufs (rs_drv s2) m)"
    "length ring3 = length ring" "length sw3 = length sw"
    "\<forall>j < n. ring3 ! j = armed_desc (buf_dma s2 (rx_pool s ! j)) \<and> sw3 ! j = Some (rx_pool s ! j)"
    "\<forall>x. n \<le> x \<longrightarrow> ring3 ! x = ring ! x \<and> sw3 ! x = sw ! x"
    by (auto simp: s2)
  define s' where "s' = s2\<lparr>rs_drv := d, rs_meta := meta, rs_rxq := (rs_rxq s2)\<lparr>rq_sw_ring := sw3\<rparr>,
    rs_nic := (rs_nic s2)\<lparr>rn_ring := ring3, rn_head := 0, rn_rdt := rq_nb_rx_desc (rs_rxq s2) - 1, rn_log := []\<rparr>\<rparr>"
  have run: "rx_start s = Inr (s', True)"
    using a(1) s2(4) by (simp add: rx_start_def reset s2_def [symmetric] ixgbe_dev_rx_queue_start_def ixgbe_alloc_rx_queue_mbufs_def
        rx_n_def s'_def)
  have [simp]: "rx_ring s' = ring3" "rx_sw s' = sw3" "rx_pool s' = drop n (rx_pool s)" "rx_n s' = n" "rx_fake s' = rx_fake s"
    "rq_rx_tail (rs_rxq s') = 0" "rq_rxrearm_start (rs_rxq s') = 0" "rq_rxrearm_nb (rs_rxq s') = 0" "rx_log s' = []" "rx_done s' = 0"
    "rn_head (rs_nic s') = 0" "armed_end 0 s' = n" "buf_dma s' = buf_dma s2"
    using s2 a(2) buf_kept_iova [OF spec [OF a(3)]]
    by (simp_all add: s'_def rx_pool_def rx_n_def rx_done_def armed_end_def buf_dma_def fun_eq_iff)
  have rdt: "unat (rn_rdt (rs_nic s')) = n - 1"
  proof -
    have "unat (rq_nb_rx_desc (rs_rxq s2)) = n" using s2(4) by (simp add: rx_n_def)
    then show ?thesis using n(2) by (simp add: s'_def unat_sub word_le_nat_alt)
  qed
  have buf: "ring_buf s' j = rx_pool s ! j" if "j < n" for j using a(6) that by (simp add: ring_buf_def)
  have bufs: "ring_bufs 0 s' = take n (rx_pool s)"
    by (rule nth_equalityI) (use mem(6) buf in \<open>auto simp: ring_bufs_def\<close>)
  have "\<forall>d \<in> set ring3. length d = 16"
  proof
    fix d
    assume "d \<in> set ring3"
    then obtain x where x: "x < length ring3" "d = ring3 ! x" by (auto simp: in_set_conv_nth)
    show "length d = 16"
    proof (cases "x < n")
      case False
      then have "d = ring ! x" using a(7) x by simp
      then show ?thesis
        using x ring(2,3,4) a(4) mem(3) by (cases "x < n + 32") (auto simp: setzero_facts)
    qed (use a(6) x in simp)
  qed
  moreover have "sw3 ! i \<noteq> None" if "i < n + 32" for i
    using a(6,7) sw(3) that by (cases "i < n") (auto dest: spec [of _ "i - n"])
  moreover have "\<not> desc_done (ring3 ! i) \<and> sw3 ! i = Some (rx_fake s)" if "n \<le> i" "i < n + 32" for i
    using a(7) ring(3) sw(3) that by (auto simp: setzero_facts dest: spec [of _ "i - n"])
  ultimately have "rx_geom s'"
    using n(1) mem(1,2) ring(2) sw(2) a(4,5) by (simp add: rx_geom_def)
  moreover have "rx_pos 0 s'" using n rdt by (simp add: rx_pos_def)
  moreover have "rx_descs 0 s'" using a(6) buf by (simp add: rx_descs_def)
  moreover have "rx_own 0 s'"
  proof -
    have "distinct (drop n (rx_pool s) @ take n (rx_pool s))" "set (drop n (rx_pool s) @ take n (rx_pool s)) = set (rx_pool s)"
      using mem(7) by (metis append_take_drop_id distinct_append inf_commute, metis append_take_drop_id set_append sup_commute)
    then show ?thesis using mem(8) unfolding rx_own_def bufs by simp
  qed
  moreover have "queue_set_up (rs_rxq s')"
  proof -
    have "rq_mbuf_initializer (rs_rxq s') = rq_mbuf_initializer (rs_rxq s2)" "rq_port_id (rs_rxq s') = rq_port_id (rs_rxq s1)"
      "rq_vlan_flags (rs_rxq s') = rq_vlan_flags (rs_rxq s)" "rq_crc_len (rs_rxq s') = rq_crc_len (rs_rxq s)"
      using s2(9) by (simp_all add: s'_def) (simp_all add: s2_def s1_def ixgbe_rxq_vec_setup_default_def Let_def)
    then show ?thesis using mem(5,9) vec_setup_initializer [of s1] by (simp add: queue_set_up_def s2_def)
  qed
  ultimately have "rx_inv 0 s'" by (simp add: rx_inv_def)
  moreover have "rq_pkt_first_seg (rs_rxq s') = None \<and> rq_pkt_last_seg (rs_rxq s') = None \<and> rq_mb_pool (rs_rxq s') = rq_mb_pool (rs_rxq s)"
    by (simp add: s'_def) (simp add: s2_def s1_def ixgbe_rxq_vec_setup_default_def Let_def)
  moreover have "buf_kept (d_mbufs (rs_drv s') m) = buf_kept (d_mbufs (rs_drv s) m)" if "m \<noteq> rx_fake s" for m
    using a(3) that s2(10) by (simp add: s'_def t_def upd_buf_def split: prod.splits)
  ultimately show ?thesis using run bufs by (intro exI [of _ s']) (simp add: n_def)
qed

section \<open>Properties\<close>

text \<open>
  C24: The start of a receive queue (reset, set up of the vector instructions, one buffer per descriptor, the registers) on a queue
  with enough memory and buffers succeeds and establishes the invariant of the ring: every descriptor holds the
  address of a buffer of its own, taken from the pool, and the device may write back all but the last.
\<close>

theorem rx_queue_starts:
  assumes "queue_memory_ok s"
  shows "\<exists>s'. rx_start s = Inr (s', True) \<and> rx_inv 0 s' \<and> rx_log s' = [] \<and>
    ring_bufs 0 s' = take (rx_n s) (rx_pool s) \<and> rx_pool s' = drop (rx_n s) (rx_pool s)"
  using start_core [OF assms] by blast

text \<open>
  C5: A call of the vector receive function on a queue with the invariant, whatever the device does between the loads of the
  descriptors, does not fault, and keeps the invariant for as many more received descriptors as it returns packets; these packets
  are the next entries of the device's log, in order, each in the very buffer whose address the device was
  given, with the fields that the scalar translation of the descriptor computes.
\<close>

theorem receive_in_order:
  assumes "rx_inv R s" "device_ok (rx_n s) dev"
  shows "\<exists>s' pkts split nb. recv_raw_pkts_vec dev nb_pkts s = Inr (s', pkts, split, nb) \<and>
    rx_inv (R + nb) s' \<and> nb \<le> 32 \<and> nb \<le> unat nb_pkts \<and> nb \<le> length pkts \<and>
    list_all2 (packet_of s s') (take nb pkts) (take nb (drop R (rx_log s'))) \<and>
    take nb split = map eop_flag (take nb (drop R (rx_log s')))"
  using recv_core [OF assms, of nb_pkts] by blast

text \<open>
  C22: A call moves buffers only from the pool to the ring and from the ring to the caller: the buffers of the ring, with those it
  takes from the pool, are the packets it returns and the buffers of the ring afterwards, all different, and a buffer
  that is in neither (one the application holds) keeps its contents.
\<close>

theorem receive_owns_buffers:
  assumes "rx_inv R s" "device_ok (rx_n s) dev"
  shows "\<exists>s' pkts split nb t. recv_raw_pkts_vec dev nb_pkts s = Inr (s', pkts, split, nb) \<and>
    rx_pool s = t @ rx_pool s' \<and> ring_bufs R s @ t = take nb pkts @ ring_bufs (R + nb) s' \<and>
    distinct (take nb pkts @ ring_bufs (R + nb) s' @ rx_pool s') \<and>
    (\<forall>m. m \<notin> set (rx_pool s @ ring_bufs R s) \<longrightarrow> m \<noteq> rx_fake s \<longrightarrow> rx_buf s' m = rx_buf s m)"
proof -
  from recv_core [OF assms, of nb_pkts] obtain s' pkts split nb t where r: "recv_raw_pkts_vec dev nb_pkts s = Inr (s', pkts, split, nb)"
    "rx_pool s = t @ rx_pool s'" "ring_bufs R s @ t = take nb pkts @ ring_bufs (R + nb) s'"
    "\<forall>m. m \<notin> set (rx_pool s @ ring_bufs R s) \<longrightarrow> m \<noteq> rx_fake s \<longrightarrow> rx_buf s' m = rx_buf s m" by blast
  have "distinct (rx_pool s @ ring_bufs R s)" using assms(1) by (simp add: rx_inv_def rx_own_def)
  moreover have "mset (rx_pool s @ ring_bufs R s) = mset ((ring_bufs R s @ t) @ rx_pool s')" by (simp add: r(2))
  ultimately have "distinct ((ring_bufs R s @ t) @ rx_pool s')" using mset_eq_imp_distinct_iff by blast
  then have "distinct (take nb pkts @ ring_bufs (R + nb) s' @ rx_pool s')" unfolding r(3) by simp
  then show ?thesis using r by blast
qed

text \<open>
  C23: No packet waits for ever: when the device has written back a descriptor that was not yet received, a call for at least four
  packets returns one.
\<close>

theorem receive_progress:
  assumes "rx_inv R s" "device_ok (rx_n s) dev" "R < rx_done s" "4 \<le> unat nb_pkts"
  shows "\<exists>s' pkts split nb. recv_raw_pkts_vec dev nb_pkts s = Inr (s', pkts, split, nb) \<and> 0 < nb"
  using recv_core [OF assms(1,2), of nb_pkts] assms(3,4) by blast

text \<open>
  C26: What the vector instructions compute for four descriptors at a time, the flags and the packet types, is what the scalar functions
  compute for each of them, but for the flags that only these set (outer checksum, security); the rest of the sixteen
  bytes stored is the initialiser of the queue.
\<close>

theorem vector_translation_agrees:
  assumes "length d0 = 16" "length d1 = 16" "length d2 = 16" "length d3 = 16" "length mbuf_init = 16" "(vf :: u8) \<in> {0, 1, 65}"
  shows "desc_to_olflags_v d0 d1 d2 d3 mbuf_init vf (if err = 0 then 0 else IXGBE_RXDADV_PKTTYPE_UDP) =
      map (\<lambda>d. rearm_with_flags mbuf_init (scan_flags d (ucast vf) err AND NOT scalar_only_flags)) [d0, d1, d2, d3] \<and>
    desc_to_ptype_v d0 d1 d2 d3 m = map (\<lambda>d. ixgbe_rxd_pkt_info_to_pkt_type (wb_pkt_info d) m) [d0, d1, d2, d3]"
  using vector_flags_agree [OF assms] ptypes_agree [OF assms(1-4)] by blast

text \<open>
  C27: For any four descriptors, and each of the four packets: when the security engine processed the packet and reports the error
  code for an invalid protocol or for an invalid length, the vector instructions leave the packet's flags as they
  were, while the scalar functions mark it as processed and failed; in all other cases the vector instructions set the security
  flags of the scalar functions.
\<close>

theorem ipsec_error_code_is_lost:
  assumes "i < 4" and "length rearms = 4"
  shows "let st = wb_status_error ([d0, d1, d2, d3] ! i);
             code = st AND IXGBE_RXDADV_IPSEC_ERROR_BIT_MASK;
             M = RTE_MBUF_F_RX_SEC_OFFLOAD OR RTE_MBUF_F_RX_SEC_OFFLOAD_FAILED;
             scalar = rx_desc_error_to_pkt_flags st info err AND M;
             lane = desc_to_olflags_v_ipsec d0 d1 d2 d3 rearms ! i
         in if st AND IXGBE_RXDADV_IPSEC_STATUS_SECP \<noteq> 0 \<and>
              (code = IXGBE_RXDADV_IPSEC_ERROR_INVALID_PROTOCOL \<or> code = IXGBE_RXDADV_IPSEC_ERROR_INVALID_LENGTH)
            then lane = rearms ! i \<and> scalar = M
            else lane = rearms ! i OR ucast scalar"
proof -
  obtain r0 r1 r2 r3 where r: "rearms = [r0, r1, r2, r3]" using assms(2) by (auto simp: numeral_eq_Suc length_Suc_conv)
  have "desc_to_olflags_v_ipsec d0 d1 d2 d3 rearms ! i = rearms ! i OR vec_sec_flags ([d0, d1, d2, d3] ! i)"
    using assms(1) unfolding r ipsec_lanes by (auto simp: numeral_eq_Suc less_Suc_eq)
  then show ?thesis using ipsec_code_flags [of "[d0, d1, d2, d3] ! i" info err] by (auto simp: Let_def split: if_splits)
qed

section \<open>Witnesses\<close>

definition rx_ex_queue :: rx_queue where
  "rx_ex_queue = \<lparr>rq_mb_pool = 0, rq_sw_ring = replicate 96 None, rq_pkt_first_seg = None, rq_pkt_last_seg = None,
     rq_mbuf_initializer = 0, rq_nb_rx_desc = 64, rq_rx_tail = 0, rq_using_ipsec = 0, rq_rxrearm_nb = 0, rq_rxrearm_start = 0,
     rq_pkt_type_mask = 0x7F, rq_port_id = 3, rq_crc_len = 4, rq_rx_udp_csum_zero_err = 0, rq_vlan_flags = 65, rq_fake_mbuf = 0\<rparr>"

definition rx_ex_mbuf :: "nat \<Rightarrow> mbuf" where
  "rx_ex_mbuf i = \<lparr>mb_buf_iova = of_nat (i * 4096), mb_data_off = 128, mb_data_len = 0, mb_pkt_len = 0, mb_refcnt = 1, mb_next = None,
     mb_nb_segs = 1, mb_pool = 0, mb_direct = True, mb_payload = (\<lambda>_. 0)\<rparr>"

definition rx_ex_state :: rx_state where
  "rx_ex_state = \<lparr>rs_drv = ex_driver2\<lparr>d_mbufs := rx_ex_mbuf, d_pools := (\<lambda>_. [1..<201])\<rparr>, rs_meta = (\<lambda>_. zeroed_meta), rs_rxq = rx_ex_queue,
     rs_nic = \<lparr>rn_ring = replicate 96 mm_setzero_si128, rn_rdt = 0, rn_head = 0, rn_log = []\<rparr>, rs_alloc_failed = 0\<rparr>"

lemma rx_ex_memory: "queue_memory_ok (rx_ex_state)"
  by (simp add: queue_memory_ok_def rx_ex_state_def rx_ex_queue_def rx_n_def rx_pool_def setzero_facts)

text \<open>A device that writes back a packet of 64 bytes before every load while it owns a descriptor.\<close>

definition rx_ex_desc :: m128 where
  "rx_ex_desc = [0x11, 0, 0, 0, 1, 2, 3, 4, 3, 0, 0, 0, 64, 0, 0, 0]"

definition rx_ex_dev :: device where
  "rx_ex_dev t c = (if rn_head c = unat (rn_rdt c) then c
     else c\<lparr>rn_ring := (rn_ring c)[rn_head c := rx_ex_desc], rn_head := (rn_head c + 1) mod 64,
       rn_log := rn_log c @ [(desc_addr (rn_ring c ! rn_head c), rx_ex_desc)]\<rparr>)"

lemma rx_ex_dev_ok: "device_ok 64 rx_ex_dev"
proof -
  have "length rx_ex_desc = 16" "desc_done rx_ex_desc" "full_desc rx_ex_desc"
    by (simp_all add: rx_ex_desc_def desc_bits full_desc_def)
  then have "(nic_step 64)\<^sup>*\<^sup>* c (rx_ex_dev t c)" for t c
    using nic_step.intros [of c rx_ex_desc 64] unfolding rx_ex_dev_def by (auto intro!: r_into_rtranclp)
  then show ?thesis by (simp add: device_ok_def)
qed

definition rx_ex_after :: "rx_state \<Rightarrow> rx_state" where "rx_ex_after s = s\<lparr>rs_nic := rx_ex_dev 0 (rs_nic s)\<rparr>"

text \<open>After the start, and after the device has written back one packet.\<close>

lemma rx_ex_started:
  "\<exists>s. rx_start (rx_ex_state) = Inr (s, True) \<and> rx_inv 0 s \<and> rx_n s = 64 \<and>
    rx_inv 0 (rx_ex_after s) \<and> rx_n (rx_ex_after s) = 64 \<and> 0 < rx_done (rx_ex_after s)"
proof -
  have n0: "rx_n (rx_ex_state) = 64" by (simp add: rx_n_def rx_ex_state_def rx_ex_queue_def)
  from start_core [OF rx_ex_memory] n0 obtain s where s: "rx_start (rx_ex_state) = Inr (s, True)" "rx_inv 0 s"
    "rx_log s = []" "rx_n s = 64" by auto
  have p: "rx_done s < armed_end 0 s" "rn_head (rs_nic s) = 0" "unat (rn_rdt (rs_nic s)) = (armed_end 0 s - 1) mod 64"
    "32 dvd armed_end 0 s" "armed_end 0 s \<le> 64"
    using s by (auto simp: rx_inv_def rx_pos_def rx_done_def armed_end_def)
  have "32 \<le> armed_end 0 s" using p(1,4) by (auto dest: dvd_imp_le)
  then have "rx_ok 0 s" using s(2) by (simp add: rx_ok_def rx_guard_def)
  moreover have "(nic_step (rx_n s))\<^sup>*\<^sup>* (rs_nic s) (rx_ex_dev 0 (rs_nic s))"
    using rx_ex_dev_ok s(4) by (simp add: device_ok_def)
  ultimately have adv: "rx_adv 0 s (rx_ex_after s)" unfolding rx_ex_after_def by (rule device_adv)
  have "rn_head (rs_nic s) \<noteq> unat (rn_rdt (rs_nic s))" using p \<open>32 \<le> armed_end 0 s\<close> by simp
  then have "0 < rx_done (rx_ex_after s)" by (simp add: rx_ex_after_def rx_ex_dev_def rx_done_def)
  moreover have "rx_inv 0 (rx_ex_after s)" "rx_n (rx_ex_after s) = 64"
    using rx_adv_same(1,5) [OF adv] s(4) by (simp_all add: rx_ok_def)
  ultimately show ?thesis using s(1,2,4) by (intro exI [of _ s]) simp
qed

theorem rx_queue_starts_witness:
  "\<exists>s'. rx_start rx_ex_state = Inr (s', True) \<and> rx_inv 0 s' \<and> ring_bufs 0 s' = [1..<65]"
proof -
  have "rx_n rx_ex_state = 64" "rx_pool rx_ex_state = [1..<201]"
    by (simp_all add: rx_n_def rx_pool_def rx_ex_state_def rx_ex_queue_def)
  then show ?thesis using rx_queue_starts [OF rx_ex_memory] by (auto simp: take_upt)
qed

theorem receive_in_order_witness:
  "\<exists>s. rx_start rx_ex_state = Inr (s, True) \<and>
    (\<exists>s' pkts split nb. recv_raw_pkts_vec rx_ex_dev 8 s = Inr (s', pkts, split, nb) \<and> rx_inv nb s' \<and> nb \<le> 8 \<and>
      list_all2 (packet_of s s') (take nb pkts) (take nb (rx_log s')))"
proof -
  obtain s where s: "rx_start rx_ex_state = Inr (s, True)" "rx_inv 0 s" "rx_n s = 64" using rx_ex_started by blast
  have "device_ok (rx_n s) rx_ex_dev" using rx_ex_dev_ok s(3) by simp
  from receive_in_order [OF s(2) this, of 8] s(1) show ?thesis by (intro exI [of _ s]) auto
qed

theorem receive_owns_buffers_witness:
  "\<exists>s. rx_start rx_ex_state = Inr (s, True) \<and>
    (\<exists>s' pkts split nb t. recv_raw_pkts_vec rx_ex_dev 8 s = Inr (s', pkts, split, nb) \<and>
      ring_bufs 0 s @ t = take nb pkts @ ring_bufs nb s' \<and> distinct (take nb pkts @ ring_bufs nb s' @ rx_pool s'))"
proof -
  obtain s where s: "rx_start rx_ex_state = Inr (s, True)" "rx_inv 0 s" "rx_n s = 64" using rx_ex_started by blast
  have "device_ok (rx_n s) rx_ex_dev" using rx_ex_dev_ok s(3) by simp
  from receive_owns_buffers [OF s(2) this, of 8] obtain s' pkts split nb t where
    "recv_raw_pkts_vec rx_ex_dev 8 s = Inr (s', pkts, split, nb)" "ring_bufs 0 s @ t = take nb pkts @ ring_bufs (0 + nb) s'"
    "distinct (take nb pkts @ ring_bufs (0 + nb) s' @ rx_pool s')" by blast
  then show ?thesis using s(1) unfolding add_0 by blast
qed

theorem receive_progress_witness:
  "\<exists>s. rx_start rx_ex_state = Inr (s, True) \<and>
    (\<exists>s' pkts split nb. recv_raw_pkts_vec rx_ex_dev 8 (rx_ex_after s) = Inr (s', pkts, split, nb) \<and> 0 < nb)"
proof -
  obtain s where s: "rx_start rx_ex_state = Inr (s, True)" "rx_inv 0 (rx_ex_after s)" "rx_n (rx_ex_after s) = 64" "0 < rx_done (rx_ex_after s)"
    using rx_ex_started by blast
  have "device_ok (rx_n (rx_ex_after s)) rx_ex_dev" using rx_ex_dev_ok s(3) by simp
  from receive_progress [OF s(2) this s(4), of 8] s(1) show ?thesis by auto
qed

theorem vector_translation_agrees_witness:
  "desc_to_olflags_v rx_ex_desc rx_ex_desc rx_ex_desc rx_ex_desc (initializer_bytes 3) 65 IXGBE_RXDADV_PKTTYPE_UDP =
      replicate 4 (rearm_with_flags (initializer_bytes 3) (scan_flags rx_ex_desc 65 1 AND NOT scalar_only_flags)) \<and>
    desc_to_ptype_v rx_ex_desc rx_ex_desc rx_ex_desc rx_ex_desc 0x7F = replicate 4 (ixgbe_rxd_pkt_info_to_pkt_type 0x11 0x7F)"
proof -
  have l: "length rx_ex_desc = 16" "length (initializer_bytes 3) = 16" "wb_pkt_info rx_ex_desc = 0x11"
    by (simp_all add: rx_ex_desc_def initializer_list wb_pkt_info_def le32_def)
  have "65 \<in> {0, 1, 65 :: u8}" "ucast (65 :: u8) = (65 :: u64)" "(1 :: u8) \<noteq> 0" by simp_all
  with vector_translation_agrees [OF l(1,1,1,1,2) this(1), of 1 "0x7F"] l(3) show ?thesis
    by (simp add: eval_nat_numeral)
qed

theorem ipsec_error_code_is_lost_witness:
  "desc_to_olflags_v_ipsec (bytes64 0 @ bytes64 0x8020003) (bytes64 0 @ bytes64 0x10020003) (bytes64 0 @ bytes64 0x20003)
     (bytes64 0 @ bytes64 3) [1, 2, 3, 4] ! 0 = 1 \<and>
   rx_desc_error_to_pkt_flags 0x8020003 0 0 AND (RTE_MBUF_F_RX_SEC_OFFLOAD OR RTE_MBUF_F_RX_SEC_OFFLOAD_FAILED) =
     RTE_MBUF_F_RX_SEC_OFFLOAD OR RTE_MBUF_F_RX_SEC_OFFLOAD_FAILED"
proof -
  have "wb_status_error (bytes64 0 @ bytes64 0x8020003) = 0x8020003"
    by (simp add: wb_status_error_def bytes64_def bytes32_def le32_def)
  moreover have "(0 :: nat) < 4" "length [1 :: u32, 2, 3, 4] = 4" by simp_all
  ultimately show ?thesis
    using ipsec_error_code_is_lost [of 0 "[1, 2, 3, 4]" "bytes64 0 @ bytes64 0x8020003" "bytes64 0 @ bytes64 0x10020003"
        "bytes64 0 @ bytes64 0x20003" "bytes64 0 @ bytes64 3" 0 0]
    by (simp add: Let_def IXGBE_RXDADV_IPSEC_STATUS_SECP_def IXGBE_RXDADV_IPSEC_ERROR_BIT_MASK_def
        IXGBE_RXDADV_IPSEC_ERROR_INVALID_PROTOCOL_def)
qed

end
