(* ===== verification/IxgbeReasmProps.thy ===== *)
theory IxgbeReasmProps
  imports IxgbeScatter IxgbeRxProps
begin

text \<open>
  What the application gets from the scattered receive functions, from the start of the queue to its release: packets that are
  well formed, in the order of the device, with every buffer accounted for.
\<close>

section \<open>Release\<close>

definition rel_ok :: "rx_state \<Rightarrow> nat \<Rightarrow> bool" where
  "rel_ok s m \<longleftrightarrow> seg_ready s m \<and> mb_pool (mb_at s m) = rq_mb_pool (rs_rxq s)"

lemma release_all_ok:
  "distinct ms \<Longrightarrow> \<forall>m \<in> set ms. rel_ok s m \<Longrightarrow>
   \<exists>d. release_all (map Some ms) s = Inr (s\<lparr>rs_drv := d\<rparr>) \<and> d_pools d (rq_mb_pool (rs_rxq s)) = rev ms @ rx_pool s \<and>
     (\<forall>x. x \<notin> set ms \<longrightarrow> d_mbufs d x = mb_at s x)"
proof (induction ms arbitrary: s)
  case Nil
  then show ?case by (intro exI [of _ "rs_drv s"]) (simp add: rx_pool_def)
next
  case (Cons m ms)
  then have m: "seg_ready s m" "mb_pool (mb_at s m) = rq_mb_pool (rs_rxq s)" by (simp_all add: rel_ok_def)
  from free_seg_ready [OF m(1)] obtain d where d: "free_seg (Some m) s = Inr (s\<lparr>rs_drv := d\<rparr>)" "\<forall>x. x \<noteq> m \<longrightarrow> d_mbufs d x = mb_at s x"
    "d_pools d = (d_pools (rs_drv s))(mb_pool (mb_at s m) := m # d_pools (rs_drv s) (mb_pool (mb_at s m)))" by blast
  have "\<forall>x \<in> set ms. rel_ok (s\<lparr>rs_drv := d\<rparr>) x" using Cons.prems d(2) by (auto simp: rel_ok_def seg_ready_def)
  with Cons.IH [of "s\<lparr>rs_drv := d\<rparr>"] Cons.prems(1) obtain d' where
    d': "release_all (map Some ms) (s\<lparr>rs_drv := d\<rparr>) = Inr (s\<lparr>rs_drv := d'\<rparr>)"
      "d_pools d' (rq_mb_pool (rs_rxq s)) = rev ms @ rx_pool (s\<lparr>rs_drv := d\<rparr>)" "\<forall>x. x \<notin> set ms \<longrightarrow> d_mbufs d' x = d_mbufs d x" by auto
  then show ?case using d m by (intro exI [of _ d']) (simp add: rx_pool_def)
qed

lemma release_from_all:
  assumes "rx_geom s" "unat (rq_rxrearm_start (rs_rxq s)) = (a + k) mod rx_n s" "k < rx_n s" "k \<le> fuel"
  shows "release_from fuel (a mod rx_n s) s = release_all (map (Some \<circ> ring_buf s) [a..<a + k]) s"
  using assms
proof (induction k arbitrary: a s fuel)
  case 0
  then show ?case by (simp add: Let_def release_from.simps [of fuel])
next
  case (Suc k)
  define n where "n = rx_n s"
  have n: "0 < n" "n = unat (rq_nb_rx_desc (rs_rxq s))" using Suc.prems(3) by (simp_all add: n_def rx_n_def)
  obtain fuel' where f: "fuel = Suc fuel'" using Suc.prems(4) by (cases fuel) auto
  have ne: "a mod n \<noteq> (a + Suc k) mod n" using Suc.prems(3) by (intro mod_neq) (simp_all add: n_def)
  have lt: "a mod n < n" using n(1) by simp
  have sw: "rx_sw s ! (a mod n) \<noteq> None" "a mod n < length (rx_sw s)" using Suc.prems(1) lt by (auto simp: rx_geom_def n_def)
  then have at: "aget (rx_sw s) (a mod n) = Some (Some (ring_buf s a))" by (auto simp: aget_def ring_buf_def n_def)
  have step: "release_from fuel (a mod n) s = bindR (free_seg (Some (ring_buf s a)) s) (release_from fuel' (Suc a mod n))"
    using at ne Suc.prems(2) by (simp add: f Let_def n(2) [symmetric] n_def [symmetric] mod_Suc_eq)
  have rest: "release_from fuel' (Suc a mod n) t = release_all (map (Some \<circ> ring_buf s) [Suc a..<Suc a + k]) t"
    if "free_seg (Some (ring_buf s a)) s = Inr t" for t
  proof -
    have t: "rs_rxq t = rs_rxq s" "rs_nic t = rs_nic s" using that by (auto simp: free_seg_def bindR_eq_Inr)
    then have same: "rx_n t = n" "ring_buf t = ring_buf s" "rx_geom t" using Suc.prems(1)
      by (simp_all add: rx_n_def n_def ring_buf_def fun_eq_iff rx_geom_def)
    show ?thesis using Suc.IH [of t "Suc a" fuel'] Suc.prems t same by (simp add: f n_def o_def del: release_from.simps upt_Suc)
  qed
  have "[a..<a + Suc k] = a # [Suc a..<Suc a + k]" by (simp add: upt_conv_Cons)
  then have sp: "map (Some \<circ> ring_buf s) [a..<a + Suc k] = Some (ring_buf s a) # map (Some \<circ> ring_buf s) [Suc a..<Suc a + k]" by simp
  then show ?case
    unfolding n_def [symmetric] step sp using rest
    by (cases "free_seg (Some (ring_buf s a)) s") (simp_all del: release_from.simps upt_Suc)
qed

text \<open>Once round the ring, from any place.\<close>

lemma mset_round:
  fixes f :: "nat \<Rightarrow> 'a"
  assumes "0 < n" "\<And>a. f (a + n) = f a"
  shows "mset (map f [R..<R + n]) = mset (map f [0..<n])"
proof (induction R)
  case (Suc R)
  have "[R..<R + n] = R # [Suc R..<R + n]" "[Suc R..<Suc R + n] = [Suc R..<R + n] @ [R + n]"
    using assms(1) by (simp_all add: upt_conv_Cons)
  then have "mset (map f [Suc R..<Suc R + n]) = mset (map f [R..<R + n])" using assms(2) [of R] by simp
  then show ?case using Suc.IH by simp
qed simp

lemma release_core:
  assumes inv: "rx_inv R s" and ready: "\<forall>m \<in> set (ring_bufs R s). rel_ok s m"
  shows "\<exists>s'. ixgbe_rx_queue_release_mbufs_vec s = Inr s' \<and> mset (rx_pool s') = mset (rx_pool s @ ring_bufs R s) \<and>
    rq_rxrearm_nb (rs_rxq s') = rq_nb_rx_desc (rs_rxq s) \<and> (ring_bufs R s \<noteq> [] \<longrightarrow> (\<forall>i < rx_n s. rx_sw s' ! i = None)) \<and>
    (\<forall>m. m \<notin> set (ring_bufs R s) \<longrightarrow> mb_at s' m = mb_at s m)"
proof -
  define n where "n = rx_n s"
  define r where "r = unat (rq_rxrearm_nb (rs_rxq s))"
  have g: "rx_geom s" and pos: "rx_pos R s" and own: "rx_own R s" using inv by (simp_all add: rx_inv_def)
  have n: "0 < n" "n = unat (rq_nb_rx_desc (rs_rxq s))" "n \<le> length (rx_sw s)"
    using geom_n [OF g] g by (simp_all add: n_def rx_n_def rx_geom_def)
  have r: "r \<le> n" "armed_end R s = R + n - r" using pos by (simp_all add: rx_pos_def armed_end_def r_def n_def)
  have ne: "rx_sw s \<noteq> []" using n by auto
  have ge: "(rq_nb_rx_desc (rs_rxq s) \<le> rq_rxrearm_nb (rs_rxq s)) = (r = n)" using r(1) n(2) by (auto simp: word_le_nat_alt r_def)
  show ?thesis
  proof (cases "r = n")
    case True
    then have "rq_rxrearm_nb (rs_rxq s) = rq_nb_rx_desc (rs_rxq s)" using n(2) r_def by (simp add: word_unat_eq_iff)
    moreover have "ring_bufs R s = []" using True r(2) by (simp add: ring_bufs_def)
    ultimately show ?thesis by (intro exI [of _ s]) (simp add: ixgbe_rx_queue_release_mbufs_vec_def Let_def)
  next
    case False
    define ms where "ms = (if r = 0 then map (ring_buf s) [0..<n] else ring_bufs R s)"
    have sum: "R + n - r = R + (n - r)" using r(1) by simp
    have "mset ms = mset (ring_bufs R s)"
    proof (cases "r = 0")
      case True
      have "mset (map (ring_buf s) [R..<R + n]) = mset (map (ring_buf s) [0..<n])"
        using n(1) by (intro mset_round) (simp_all add: ring_buf_def n_def)
      then show ?thesis using True r(2) by (simp add: ms_def ring_bufs_def)
    qed (simp add: ms_def)
    then have ms: "mset ms = mset (ring_bufs R s)" .
    have "distinct ms" using own mset_eq_imp_distinct_iff [OF ms] by (simp add: rx_own_def)
    moreover have "\<forall>m \<in> set ms. rel_ok s m" using ready mset_eq_setD [OF ms] by simp
    ultimately obtain d where d: "release_all (map Some ms) s = Inr (s\<lparr>rs_drv := d\<rparr>)"
      "d_pools d (rq_mb_pool (rs_rxq s)) = rev ms @ rx_pool s" "\<forall>x. x \<notin> set ms \<longrightarrow> d_mbufs d x = mb_at s x"
      using release_all_ok by blast
    have loop: "(if rq_rxrearm_nb (rs_rxq s) = 0 then release_all (take n (rx_sw s)) s
       else release_from n (unat (rq_rx_tail (rs_rxq s))) s) = Inr (s\<lparr>rs_drv := d\<rparr>)"
    proof (cases "r = 0")
      case True
      then have "rq_rxrearm_nb (rs_rxq s) = 0" by (simp add: r_def unat_eq_0)
      moreover have "take n (rx_sw s) = map Some ms"
      proof (rule nth_equalityI)
        show "take n (rx_sw s) ! i = map Some ms ! i" if "i < length (take n (rx_sw s))" for i
        proof -
          have "i < n" "rx_sw s ! i \<noteq> None" using that n(3) g by (auto simp: rx_geom_def n_def)
          then show ?thesis using True by (auto simp: ms_def ring_buf_def n_def)
        qed
      qed (use True n(3) in \<open>simp add: ms_def\<close>)
      ultimately show ?thesis using d(1) by simp
    next
      case r0: False
      have "release_from n (R mod rx_n s) s = release_all (map (Some \<circ> ring_buf s) [R..<R + (n - r)]) s"
        using pos r0 False r by (intro release_from_all [OF g]) (simp_all add: rx_pos_def n_def)
      moreover have "rq_rxrearm_nb (rs_rxq s) \<noteq> 0" "unat (rq_rx_tail (rs_rxq s)) = R mod rx_n s"
        using r0 pos by (auto simp: r_def rx_pos_def)
      ultimately show ?thesis using d(1) r0 r(2) sum by (simp add: ms_def ring_bufs_def)
    qed
    have "0 + length (replicate n (None :: nat option)) \<le> length (rx_sw s)" using n(3) by simp
    from awrite_nth [OF this] obtain sw where sw: "awrite (rx_sw s) 0 (replicate n None) = Some sw" "\<forall>j < n. sw ! j = None" by auto
    define s' where "s' = s\<lparr>rs_drv := d, rs_rxq := (rs_rxq s)\<lparr>rq_rxrearm_nb := rq_nb_rx_desc (rs_rxq s), rq_sw_ring := sw\<rparr>\<rparr>"
    have "ixgbe_rx_queue_release_mbufs_vec s = Inr s'"
      using loop ne ge False sw(1) unfolding ixgbe_rx_queue_release_mbufs_vec_def Let_def n(2) [symmetric] by (simp add: s'_def)
    moreover have "mset (rx_pool s') = mset (rx_pool s @ ring_bufs R s)" using d(2) ms by (simp add: s'_def rx_pool_def)
    moreover have "\<forall>m. m \<notin> set (ring_bufs R s) \<longrightarrow> mb_at s' m = mb_at s m" using d(3) mset_eq_setD [OF ms] by (simp add: s'_def)
    ultimately show ?thesis using sw(2) by (intro exI [of _ s']) (simp add: s'_def n_def)
  qed
qed

section \<open>The start\<close>

lemma start_segs:
  assumes "queue_memory_ok s" "\<forall>m \<in> set (rx_pool s). rel_ok s m \<and> mb_next (mb_at s m) = None"
  shows "\<exists>s'. rx_start s = Inr (s', True) \<and> rx_seg_inv 0 [] s' \<and> rx_n s' = rx_n s \<and> (\<forall>m \<in> set (ring_bufs 0 s'). rel_ok s' m)"
proof -
  from start_core [OF assms(1)] obtain s' where s': "rx_start s = Inr (s', True)" "rx_inv 0 s'" "rx_pool s' = drop (rx_n s) (rx_pool s)"
    "ring_bufs 0 s' = take (rx_n s) (rx_pool s)" "rx_n s' = rx_n s" "rq_pkt_first_seg (rs_rxq s') = None"
    "rq_pkt_last_seg (rs_rxq s') = None" "rq_mb_pool (rs_rxq s') = rq_mb_pool (rs_rxq s)"
    "\<forall>m. m \<noteq> rx_fake s \<longrightarrow> buf_kept (mb_at s' m) = buf_kept (mb_at s m)" by blast
  have "rx_fake s \<notin> set (rx_pool s)" "distinct (rx_pool s)" using assms(1) by (simp_all add: queue_memory_ok_def)
  then have kept: "buf_kept (mb_at s' m) = buf_kept (mb_at s m)" if "m \<in> set (rx_pool s)" for m
    using that s'(9) by metis
  have ok: "rel_ok s' m \<and> mb_next (mb_at s' m) = None" if "m \<in> set (rx_pool s)" for m
    using kept [OF that] assms(2) that s'(8) by (auto simp: buf_kept_def rel_ok_def seg_ready_def)
  have sub: "set (rx_pool s') \<subseteq> set (rx_pool s)" "set (ring_bufs 0 s') \<subseteq> set (rx_pool s)"
    unfolding s'(3,4) by (rule set_drop_subset, rule set_take_subset)
  have "distinct (rx_pool s' @ ring_bufs 0 s')" using s'(2) by (simp add: rx_inv_def rx_own_def)
  then have "rx_seg_inv 0 [] s'"
    using s'(2,6,7) ok sub unfolding rx_seg_inv_def by (auto simp: first_seg_def last_seg_def rel_ok_def)
  then show ?thesis using s'(1,5) ok sub by blast
qed

section \<open>Properties\<close>

text \<open>
  C21: A burst of the scattered receive function returns the packets that the device's next write-backs make up, in their order: with the
  segments of the packet left open by the last burst in front, the buffers of these write-backs are cut into packets behind each
  write-back that ends a packet, and what follows the last of them remains open. A last segment, of a packet of several, that holds
  nothing but the rest of the checksum is left out. The packets are well formed (their segments are linked in order, the first segment
  counts them, and its length is the sum of theirs, without the checksum), and every other buffer, those left out among them, is in the pool or the ring.
\<close>

theorem scattered_burst_packets:
  assumes "rx_seg_inv R p s" "device_ok (rx_n s) dev" "length p \<le> 65504"
  shows "\<exists>s' ps q nb bs. ixgbe_recv_scattered_burst_vec dev nb_pkts s = Inr (s', map hd ps) \<and> rx_seg_inv (R + nb) q s' \<and>
    (\<forall>x \<in> set ps. wf_packet s' x) \<and> nb \<le> unat nb_pkts \<and> length bs = nb \<and>
    map (buf_dma s') bs = map fst (take nb (drop R (rx_log s'))) \<and>
    cut_packets p (map (\<lambda>(b, x). (b, desc_eop (snd x), wb_length (snd x) \<le> crc16 s)) (zip bs (take nb (drop R (rx_log s'))))) = (ps, q) \<and>
    mset (concat ps @ q @ rx_pool s' @ ring_bufs (R + nb) s') = mset (p @ rx_pool s @ ring_bufs R s)"
proof -
  have "length p + 32 \<le> 65536" using assms(3) by simp
  from scattered_core [OF assms(1,2) this, of nb_pkts] show ?thesis by blast
qed

text \<open>
  C6: A call of the scattered receive function for any number of packets returns at most as many, after at most 2048 bursts. All
  of them are well formed, whatever later bursts of the call did, and no buffer is lost or duplicated: the segments of
  the packets, those of the open packet, the pool and the ring are the buffers that the open packet, the pool and
  the ring had before, and the buffers of the application keep their contents.
\<close>

theorem scattered_receive_conserves:
  assumes "rx_seg_inv R p s" "\<forall>k. device_ok (rx_n s) (devs k)" "length p \<le> 65472"
  shows "\<exists>s' ps q R'. ixgbe_recv_scattered_pkts_vec devs nb_pkts s = Inr (s', map hd ps) \<and> rx_seg_inv R' q s' \<and> R \<le> R' \<and>
    length ps \<le> unat nb_pkts \<and> (\<forall>x \<in> set ps. wf_packet s' x) \<and>
    mset (concat ps @ q @ rx_pool s' @ ring_bufs R' s') = mset (p @ rx_pool s @ ring_bufs R s) \<and>
    (\<forall>m. m \<notin> set (p @ rx_pool s @ ring_bufs R s) \<longrightarrow> m \<noteq> rx_fake s \<longrightarrow> mb_at s' m = mb_at s m)"
proof -
  have "unat nb_pkts < 2 ^ LENGTH(16)" by (rule unsigned_less)
  then have "unat nb_pkts < 32 * 2048" "unat nb_pkts < 65536" by simp_all
  from scattered_loop_ok [OF assms this, of "[]"] show ?thesis by (simp add: ixgbe_recv_scattered_pkts_vec_def)
qed

text \<open>
  C25: The release of the queue gives every buffer of the ring back to its pool, each once, wherever the tail and the rearm start stand,
  clears the software ring, and marks the queue as empty.
\<close>

theorem release_returns_buffers:
  assumes "rx_inv R s" "\<forall>m \<in> set (ring_bufs R s). rel_ok s m"
  shows "\<exists>s'. ixgbe_rx_queue_release_mbufs_vec s = Inr s' \<and> mset (rx_pool s') = mset (rx_pool s @ ring_bufs R s) \<and>
    rq_rxrearm_nb (rs_rxq s') = rq_nb_rx_desc (rs_rxq s) \<and> (ring_bufs R s \<noteq> [] \<longrightarrow> (\<forall>i < rx_n s. rx_sw s' ! i = None)) \<and>
    (\<forall>m. m \<notin> set (ring_bufs R s) \<longrightarrow> mb_at s' m = mb_at s m)"
  by (rule release_core [OF assms])

section \<open>Witnesses\<close>

lemma rx_ex_segs:
  "\<exists>s. rx_start rx_ex_state = Inr (s, True) \<and> rx_seg_inv 0 [] s \<and> rx_n s = 64 \<and> (\<forall>m \<in> set (ring_bufs 0 s). rel_ok s m)"
proof -
  have "rel_ok rx_ex_state m \<and> mb_next (mb_at rx_ex_state m) = None" for m
    by (simp add: rel_ok_def seg_ready_def rx_ex_state_def rx_ex_mbuf_def rx_ex_queue_def)
  moreover have "rx_n rx_ex_state = 64" by (simp add: rx_n_def rx_ex_state_def rx_ex_queue_def)
  ultimately show ?thesis using start_segs [OF rx_ex_memory] by auto
qed

theorem scattered_burst_packets_witness:
  "\<exists>s. rx_start rx_ex_state = Inr (s, True) \<and>
    (\<exists>s' ps q nb bs. ixgbe_recv_scattered_burst_vec rx_ex_dev 8 s = Inr (s', map hd ps) \<and> rx_seg_inv nb q s' \<and> length bs = nb \<and>
      cut_packets [] (map (\<lambda>(b, x). (b, desc_eop (snd x), wb_length (snd x) \<le> crc16 s)) (zip bs (take nb (rx_log s')))) = (ps, q) \<and>
      list_all (wf_packet s') ps)"
proof -
  obtain s where s: "rx_start rx_ex_state = Inr (s, True)" "rx_seg_inv 0 [] s" "rx_n s = 64" using rx_ex_segs by blast
  have "device_ok (rx_n s) rx_ex_dev" using rx_ex_dev_ok s(3) by simp
  from scattered_burst_packets [OF s(2) this, of 8] obtain s' ps q nb bs where
    "ixgbe_recv_scattered_burst_vec rx_ex_dev 8 s = Inr (s', map hd ps)" "rx_seg_inv (0 + nb) q s'" "length bs = nb" "list_all (wf_packet s') ps"
    "cut_packets [] (map (\<lambda>(b, x). (b, desc_eop (snd x), wb_length (snd x) \<le> crc16 s)) (zip bs (take nb (drop 0 (rx_log s'))))) = (ps, q)"
    by (auto simp: list_all_iff)
  then show ?thesis using s(1) unfolding add_0 drop_0 by blast
qed

theorem scattered_receive_conserves_witness:
  "\<exists>s. rx_start rx_ex_state = Inr (s, True) \<and>
    (\<exists>s' ps q R'. ixgbe_recv_scattered_pkts_vec (\<lambda>_. rx_ex_dev) 100 s = Inr (s', map hd ps) \<and> rx_seg_inv R' q s' \<and>
      list_all (wf_packet s') ps \<and> mset (concat ps @ q @ rx_pool s' @ ring_bufs R' s') = mset (rx_pool s @ ring_bufs 0 s))"
proof -
  obtain s where s: "rx_start rx_ex_state = Inr (s, True)" "rx_seg_inv 0 [] s" "rx_n s = 64" using rx_ex_segs by blast
  have "\<forall>k :: nat. device_ok (rx_n s) rx_ex_dev" using rx_ex_dev_ok s(3) by simp
  from scattered_receive_conserves [OF s(2) this, of 100] obtain s' ps q R' where
    "ixgbe_recv_scattered_pkts_vec (\<lambda>_. rx_ex_dev) 100 s = Inr (s', map hd ps)" "rx_seg_inv R' q s'" "list_all (wf_packet s') ps"
    "mset (concat ps @ q @ rx_pool s' @ ring_bufs R' s') = mset (rx_pool s @ ring_bufs 0 s)"
    unfolding list_all_iff append_Nil by fastforce
  then show ?thesis using s(1) by blast
qed

theorem release_returns_buffers_witness:
  "\<exists>s. rx_start rx_ex_state = Inr (s, True) \<and>
    (\<exists>s'. ixgbe_rx_queue_release_mbufs_vec s = Inr s' \<and> mset (rx_pool s') = mset (rx_pool s @ ring_bufs 0 s))"
proof -
  obtain s where s: "rx_start rx_ex_state = Inr (s, True)" "rx_seg_inv 0 [] s" "\<forall>m \<in> set (ring_bufs 0 s). rel_ok s m"
    using rx_ex_segs by blast
  then have "rx_inv 0 s" by (simp add: rx_seg_inv_def)
  from release_returns_buffers [OF this s(3)] s(1) show ?thesis by blast
qed

end
