(* ===== verification/TableLearner.thy ===== *)
theory TableLearner
  imports TableEmMap
begin

text \<open>
  The learner table of lib/table/rte_swx_table_learner.c: buckets of four keys, each with its signature, its data and the time
  at which it expires, in units of 2 ^ 32 cycles. The data plane itself adds, updates, rearms and deletes keys, by way of the mailbox
  that its last lookup filled. The functions hash, table_keycpy and table_keycmp have the text of those of
  rte_swx_table_em.c and are taken from TableEm; the bytes of a bucket are lists, one place for each of its four keys.
\<close>

section \<open>Parameters\<close>

definition TABLE_KEYS_PER_BUCKET :: nat where "TABLE_KEYS_PER_BUCKET = 4"
definition RTE_SWX_TABLE_LEARNER_N_KEY_TIMEOUTS_MAX :: u32 where "RTE_SWX_TABLE_LEARNER_N_KEY_TIMEOUTS_MAX = 16"

record ln_params =
  lq_key_size :: u32
  lq_key_offset :: u32
  lq_key_mask0 :: "bytes option"
  lq_action_data_size :: u32
  lq_n_keys_max :: u32
  lq_key_timeout :: "u32 list option"
  lq_n_key_timeouts :: u32

record ln_config =
  lc_key_size :: u64
  lc_key_size_pow2 :: u64
  lc_key_size_log2 :: nat
  lc_key_offset :: u64
  lc_action_data_size :: u64
  lc_data_size_pow2 :: u64
  lc_data_size_log2 :: nat
  lc_n_buckets :: u64
  lc_bucket_mask :: u64
  lc_bucket_key_all_size :: u64
  lc_bucket_size :: u64
  lc_bucket_size_log2 :: nat
  lc_key_timeout :: "u64 list"
  lc_n_key_timeouts :: u32
  lc_total_size :: u64

record ln_bucket =
  lb_time :: "u32 list"
  lb_sig :: "u32 list"
  lb_key_timeout_id :: "u8 list"
  lb_key :: "key list"
  lb_data :: "(u64 \<times> bytes) list"

record ln_table =
  lt_params :: ln_config
  lt_key_mask0 :: key
  lt_buckets :: "ln_bucket list"

datatype ln_fault = NullBucket | LnBounds | TimeoutBounds | ParamBounds | LnOverlap

text \<open>\<open>hz\<close> is the frequency of the time stamp counter.\<close>

definition timeout_convert :: "u64 \<Rightarrow> u32 \<Rightarrow> u64" where
  "timeout_convert hz timeout_in_seconds =
     (let timeout_in_cycles = ucast timeout_in_seconds * hz
      in if drop_bit 32 timeout_in_cycles = 0 then push_bit 32 1 else timeout_in_cycles)"

definition ctzll :: "u64 \<Rightarrow> nat" where
  "ctzll x = length (takeWhile (\<lambda>i. \<not> bit x i) [0..<64])"

text \<open>The sizes of the structs: a bucket without its keys is a cache line, a table without its buckets five.\<close>

definition sizeof_table_bucket :: u64 where "sizeof_table_bucket = 64"
definition sizeof_table :: u64 where "sizeof_table = 320"

text \<open>\<open>Inr None\<close> is the error EINVAL.\<close>

definition table_params_get :: "u64 \<Rightarrow> ln_params option \<Rightarrow> ln_fault + ln_config option" where
  "table_params_get hz params =
     (case params of
        None \<Rightarrow> Inr None
      | Some q \<Rightarrow>
          if lq_key_size q = 0 \<or> lq_key_size q > 64 \<or> lq_n_keys_max q = 0 \<or> lq_n_keys_max q > push_bit 31 1
          then Inr None
          else case lq_key_timeout q of
            None \<Rightarrow> Inr None
          | Some ts \<Rightarrow>
              if lq_n_key_timeouts q = 0 \<or> lq_n_key_timeouts q > RTE_SWX_TABLE_LEARNER_N_KEY_TIMEOUTS_MAX then Inr None
              else if length ts < unat (lq_n_key_timeouts q) then Inl ParamBounds
              else if 0 \<in> set (take (unat (lq_n_key_timeouts q)) ts) then Inr None
              else
                (let key_size = ucast (lq_key_size q);
                     key_size_pow2 = rte_align64pow2 key_size;
                     key_size_pow2 = (if key_size_pow2 < 8 then 8 else key_size_pow2);
                     action_data_size = ucast (lq_action_data_size q);
                     data_size_pow2 = rte_align64pow2 (8 + action_data_size);
                     n_buckets = ucast (rte_align32pow2 (lq_n_keys_max q));
                     bucket_key_all_size = of_nat TABLE_KEYS_PER_BUCKET * key_size_pow2;
                     bucket_size = rte_align64pow2 (sizeof_table_bucket + bucket_key_all_size + of_nat TABLE_KEYS_PER_BUCKET * data_size_pow2);
                     tos = map (timeout_convert hz) (take (unat (lq_n_key_timeouts q)) ts);
                     n_key_timeouts = rte_align32pow2 (lq_n_key_timeouts q)
                 in if uint n_buckets * uint bucket_size + uint sizeof_table \<ge> 2 ^ 64 then Inl LnOverlap
                    else Inr (Some \<lparr>lc_key_size = key_size, lc_key_size_pow2 = key_size_pow2, lc_key_size_log2 = ctzll key_size_pow2,
                      lc_key_offset = ucast (lq_key_offset q), lc_action_data_size = action_data_size,
                      lc_data_size_pow2 = data_size_pow2, lc_data_size_log2 = ctzll data_size_pow2,
                      lc_n_buckets = n_buckets, lc_bucket_mask = n_buckets - 1, lc_bucket_key_all_size = bucket_key_all_size,
                      lc_bucket_size = bucket_size, lc_bucket_size_log2 = ctzll bucket_size,
                      lc_key_timeout = tos @ replicate (unat n_key_timeouts - length tos) (hd tos),
                      lc_n_key_timeouts = n_key_timeouts,
                      lc_total_size = sizeof_table + n_buckets * bucket_size\<rparr>)))"

definition learner_footprint_get :: "u64 \<Rightarrow> ln_params option \<Rightarrow> ln_fault + u64" where
  "learner_footprint_get hz params =
     bindR (table_params_get hz params) (\<lambda>p. Inr (case p of None \<Rightarrow> 0 | Some c \<Rightarrow> lc_total_size c))"

text \<open>The memory is zeroed. A mask given by the caller must have the size of the key.\<close>

definition zeroed_ln_bucket :: "ln_config \<Rightarrow> ln_bucket" where
  "zeroed_ln_bucket c = \<lparr>lb_time = replicate 4 0, lb_sig = replicate 4 0, lb_key_timeout_id = replicate 4 0,
     lb_key = replicate 4 (replicate (unat (lc_key_size_pow2 c) div 8) 0),
     lb_data = replicate 4 (0, replicate (unat (lc_data_size_pow2 c) - 8) 0)\<rparr>"

definition learner_create :: "u64 \<Rightarrow> ln_params option \<Rightarrow> ln_fault + ln_table option" where
  "learner_create hz params =
     bindR (table_params_get hz params) (\<lambda>p.
       case (p, params) of
         (Some c, Some q) \<Rightarrow>
           (let n = unat (lq_key_size q);
                mask = (case lq_key_mask0 q of None \<Rightarrow> replicate n 0xFF | Some bs \<Rightarrow> take n bs)
            in if length mask < n then Inl ParamBounds
               else Inr (Some \<lparr>lt_params = c, lt_key_mask0 = key_words 8 (mask @ replicate (64 - n) 0),
                  lt_buckets = replicate (unat (lc_n_buckets c)) (zeroed_ln_bucket c)\<rparr>))
       | _ \<Rightarrow> Inr None)"

text \<open>\<open>False\<close> is the error EINVAL.\<close>

definition learner_timeout_update :: "u64 \<Rightarrow> ln_table option \<Rightarrow> u32 \<Rightarrow> u32 \<Rightarrow> ln_table option \<times> bool" where
  "learner_timeout_update hz t key_timeout_id key_timeout =
     (case t of
        None \<Rightarrow> (t, False)
      | Some t' \<Rightarrow>
          if key_timeout_id \<ge> lc_n_key_timeouts (lt_params t') \<or> key_timeout = 0 then (t, False)
          else (Some (t'\<lparr>lt_params := (lt_params t')\<lparr>lc_key_timeout :=
                  (lc_key_timeout (lt_params t'))[unat key_timeout_id := timeout_convert hz key_timeout]\<rparr>\<rparr>), True))"

section \<open>Lookup\<close>

text \<open>The mailbox. The pointer to the key is kept by the caller: every operation gets the words that are there when it runs.\<close>

record ln_mailbox =
  lm_bucket :: "nat option"
  lm_input_sig :: u32
  lm_hit :: bool
  lm_bucket_key_pos :: nat
  lm_state :: int

abbreviation ln_ks :: "ln_table \<Rightarrow> u32" where "ln_ks t \<equiv> ucast (lc_key_size_pow2 (lt_params t))"

definition ln_hash :: "ln_table \<Rightarrow> key \<Rightarrow> u32" where "ln_hash t k = em_hash k (lt_key_mask0 t) (ln_ks t) 0"

definition ln_bucket_id :: "ln_table \<Rightarrow> key \<Rightarrow> nat" where
  "ln_bucket_id t k = unat (ucast (ln_hash t k) AND lc_bucket_mask (lt_params t))"

definition ln_hit :: "ln_table \<Rightarrow> ln_bucket \<Rightarrow> u64 \<Rightarrow> u32 \<Rightarrow> key \<Rightarrow> nat \<Rightarrow> bool" where
  "ln_hit t b input_time input_sig k i =
     (let time = push_bit 32 (ucast (lb_time b ! i)); sig = lb_sig b ! i; key = lb_key b ! i
      in time > input_time \<and> sig = input_sig \<and> keycmp key k (lt_key_mask0 t) (ln_ks t))"

text \<open>The answer of a step: \<open>None\<close> when the lookup is not complete, and otherwise the data on a hit.\<close>

definition learner_lookup :: "ln_table \<Rightarrow> ln_mailbox \<Rightarrow> u64 \<Rightarrow> key \<Rightarrow> ln_fault + ln_mailbox \<times> (u64 \<times> bytes) option option" where
  "learner_lookup t m input_time k =
     (if lm_state m = 0 then
        Inr (m\<lparr>lm_bucket := Some (ln_bucket_id t k), lm_input_sig := ln_hash t k OR 1, lm_state := 1\<rparr>, None)
      else if lm_state m = 1 then
        (case lm_bucket m of
           None \<Rightarrow> Inl NullBucket
         | Some bi \<Rightarrow>
             (case aget (lt_buckets t) bi of
                None \<Rightarrow> Inl LnBounds
              | Some b \<Rightarrow>
                  (case find (ln_hit t b input_time (lm_input_sig m) k) [0..<TABLE_KEYS_PER_BUCKET] of
                     Some i \<Rightarrow> Inr (m\<lparr>lm_hit := True, lm_bucket_key_pos := i, lm_state := 0\<rparr>, Some (Some (lb_data b ! i)))
                   | None \<Rightarrow> Inr (m\<lparr>lm_hit := False, lm_state := 0\<rparr>, Some None))))
      else Inr (m\<lparr>lm_hit := False, lm_state := 0\<rparr>, Some None))"

section \<open>Operations of the data plane\<close>

definition ln_expiry :: "u64 \<Rightarrow> u64 \<Rightarrow> u32" where
  "ln_expiry input_time key_timeout = ucast (drop_bit 32 (input_time + key_timeout))"

definition ln_put :: "ln_table \<Rightarrow> nat \<Rightarrow> ln_bucket \<Rightarrow> ln_table" where
  "ln_put t bi b = t\<lparr>lt_buckets := (lt_buckets t)[bi := b]\<rparr>"

definition ln_get :: "ln_table \<Rightarrow> ln_mailbox \<Rightarrow> ln_fault + nat \<times> ln_bucket" where
  "ln_get t m =
     (case lm_bucket m of
        None \<Rightarrow> Inl NullBucket
      | Some bi \<Rightarrow> (case aget (lt_buckets t) bi of None \<Rightarrow> Inl LnBounds | Some b \<Rightarrow> Inr (bi, b)))"

definition ln_timeout :: "ln_table \<Rightarrow> nat \<Rightarrow> ln_fault + u64" where
  "ln_timeout t i = (case aget (lc_key_timeout (lt_params t)) i of None \<Rightarrow> Inl TimeoutBounds | Some x \<Rightarrow> Inr x)"

definition learner_rearm :: "ln_table \<Rightarrow> ln_mailbox \<Rightarrow> u64 \<Rightarrow> ln_fault + ln_table" where
  "learner_rearm t m input_time =
     (if \<not> lm_hit m then Inr t
      else bindR (ln_get t m) (\<lambda>(bi, b).
        let pos = lm_bucket_key_pos m in
        bindR (ln_timeout t (unat (lb_key_timeout_id b ! pos))) (\<lambda>key_timeout.
          Inr (ln_put t bi (b\<lparr>lb_time := (lb_time b)[pos := ln_expiry input_time key_timeout]\<rparr>)))))"

definition learner_rearm_new :: "ln_table \<Rightarrow> ln_mailbox \<Rightarrow> u64 \<Rightarrow> u32 \<Rightarrow> ln_fault + ln_table" where
  "learner_rearm_new t m input_time key_timeout_id =
     (if \<not> lm_hit m then Inr t
      else bindR (ln_get t m) (\<lambda>(bi, b).
        let pos = lm_bucket_key_pos m; key_timeout_id = key_timeout_id AND (lc_n_key_timeouts (lt_params t) - 1) in
        bindR (ln_timeout t (unat key_timeout_id)) (\<lambda>key_timeout.
          Inr (ln_put t bi (b\<lparr>lb_time := (lb_time b)[pos := ln_expiry input_time key_timeout],
            lb_key_timeout_id := (lb_key_timeout_id b)[pos := ucast key_timeout_id]\<rparr>)))))"

text \<open>The data of a key: the bytes of the arguments when there are any and the caller gives them.\<close>

definition ln_data :: "ln_table \<Rightarrow> u64 \<Rightarrow> bytes option \<Rightarrow> u64 \<times> bytes \<Rightarrow> ln_fault + u64 \<times> bytes" where
  "ln_data t action_id action_data old =
     (let n = unat (lc_action_data_size (lt_params t)) in
      case action_data of
        Some ad \<Rightarrow> if n = 0 then Inr (action_id, snd old)
          else if length ad < n then Inl ParamBounds else Inr (action_id, take n ad @ drop n (snd old))
      | None \<Rightarrow> Inr (action_id, snd old))"

text \<open>\<open>False\<close> when the bucket is full.\<close>

definition learner_add ::
  "ln_table \<Rightarrow> ln_mailbox \<Rightarrow> u64 \<Rightarrow> key \<Rightarrow> u64 \<Rightarrow> bytes option \<Rightarrow> u32 \<Rightarrow> ln_fault + ln_table \<times> ln_mailbox \<times> bool"
where
  "learner_add t m input_time k action_id action_data key_timeout_id =
     (let key_timeout_id = key_timeout_id AND (lc_n_key_timeouts (lt_params t) - 1) in
      bindR (ln_timeout t (unat key_timeout_id)) (\<lambda>key_timeout.
      bindR (ln_get t m) (\<lambda>(bi, b).
        if lm_hit m then
          (let pos = lm_bucket_key_pos m in
           bindR (ln_data t action_id action_data (lb_data b ! pos)) (\<lambda>data.
             Inr (ln_put t bi (b\<lparr>lb_time := (lb_time b)[pos := ln_expiry input_time key_timeout],
                 lb_key_timeout_id := (lb_key_timeout_id b)[pos := ucast key_timeout_id],
                 lb_data := (lb_data b)[pos := data]\<rparr>), m, True)))
        else
          (case find (\<lambda>i. push_bit 32 (ucast (lb_time b ! i)) < input_time) [0..<TABLE_KEYS_PER_BUCKET] of
             None \<Rightarrow> Inr (t, m, False)
           | Some i \<Rightarrow>
               bindR (ln_data t action_id action_data (lb_data b ! i)) (\<lambda>data.
                 Inr (ln_put t bi (b\<lparr>lb_time := (lb_time b)[i := ln_expiry input_time key_timeout],
                     lb_sig := (lb_sig b)[i := lm_input_sig m],
                     lb_key_timeout_id := (lb_key_timeout_id b)[i := ucast key_timeout_id],
                     lb_key := (lb_key b)[i := keycpy k (lt_key_mask0 t) (ln_ks t)],
                     lb_data := (lb_data b)[i := data]\<rparr>),
                   m\<lparr>lm_hit := True, lm_bucket_key_pos := i\<rparr>, True))))))"

definition learner_delete :: "ln_table \<Rightarrow> ln_mailbox \<Rightarrow> ln_fault + ln_table \<times> ln_mailbox" where
  "learner_delete t m =
     (if lm_hit m then
        bindR (ln_get t m) (\<lambda>(bi, b).
          Inr (ln_put t bi (b\<lparr>lb_time := (lb_time b)[lm_bucket_key_pos m := 0]\<rparr>), m\<lparr>lm_hit := False\<rparr>))
      else Inr (t, m))"

end
