(* ===== verification/TableLearnerMap.thy ===== *)
theory TableLearnerMap
  imports TableLearner
begin

text \<open>
  The learner table as a map from keys to entries that expire. The invariant of the table, the effect of a change of one
  position on what every later lookup finds, and the refinement: a packet at a time (a lookup in two steps, and one operation of the
  data plane) does to the table what it does to the map.
\<close>

section \<open>What a lookup finds\<close>

definition mk :: "ln_table \<Rightarrow> key \<Rightarrow> key" where "mk t k = keycpy k (lt_key_mask0 t) (ln_ks t)"

definition ln_sig :: "ln_table \<Rightarrow> key \<Rightarrow> u32" where "ln_sig t k = ln_hash t k OR 1"

definition ln_bkt :: "ln_table \<Rightarrow> key \<Rightarrow> ln_bucket" where "ln_bkt t k = lt_buckets t ! ln_bucket_id t k"

definition ln_pos :: "ln_table \<Rightarrow> u64 \<Rightarrow> key \<Rightarrow> nat option" where
  "ln_pos t now k = find (ln_hit t (ln_bkt t k) now (ln_sig t k) k) [0..<TABLE_KEYS_PER_BUCKET]"

text \<open>An entry: the number of its timeout, its time of expiry, its action and data.\<close>

type_synonym ln_entry = "u8 \<times> u32 \<times> u64 \<times> bytes"

definition slot :: "ln_bucket \<Rightarrow> nat \<Rightarrow> ln_entry" where
  "slot b i = (lb_key_timeout_id b ! i, lb_time b ! i, lb_data b ! i)"

definition ln_entry :: "ln_table \<Rightarrow> u64 \<Rightarrow> key \<Rightarrow> ln_entry option" where
  "ln_entry t now k = map_option (slot (ln_bkt t k)) (ln_pos t now k)"

definition alive :: "u64 \<Rightarrow> ln_entry \<Rightarrow> bool" where
  "alive now e \<longleftrightarrow> now < push_bit 32 (ucast (fst (snd e)))"

definition bucket_ok :: "ln_table \<Rightarrow> ln_bucket \<Rightarrow> bool" where
  "bucket_ok t b \<longleftrightarrow> length (lb_time b) = 4 \<and> length (lb_sig b) = 4 \<and> length (lb_key_timeout_id b) = 4 \<and> length (lb_key b) = 4 \<and>
     length (lb_data b) = 4 \<and>
     (\<forall>i < 4. unat (lb_key_timeout_id b ! i) < unat (lc_n_key_timeouts (lt_params t)) \<and> length (lb_key b ! i) = unat (ln_ks t) div 8)"

definition ln_wf :: "ln_table \<Rightarrow> bool" where
  "ln_wf t \<longleftrightarrow> (let c = lt_params t in
     0 < lc_n_buckets c \<and> lc_bucket_mask c = lc_n_buckets c - 1 \<and> unat (lc_n_buckets c) = length (lt_buckets t) \<and>
     (\<forall>b \<in> set (lt_buckets t). bucket_ok t b) \<and>
     length (lc_key_timeout c) = unat (lc_n_key_timeouts c) \<and> 0 < lc_n_key_timeouts c \<and> lc_n_key_timeouts c \<le> 16 \<and>
     (\<forall>x \<in> set (lc_key_timeout c). push_bit 32 1 \<le> x))"

text \<open>No key is found at two positions.\<close>

definition ln_unique :: "ln_table \<Rightarrow> u64 \<Rightarrow> bool" where
  "ln_unique t now \<longleftrightarrow> (\<forall>k. \<forall>i < 4. \<forall>j < 4. ln_hit t (ln_bkt t k) now (ln_sig t k) k i \<longrightarrow> ln_hit t (ln_bkt t k) now (ln_sig t k) k j \<longrightarrow> i = j)"

lemma mk_idem [simp]: "mk t (mk t k) = mk t k"
  by (simp add: mk_def)

lemma hash_mk [simp]: "ln_hash t (mk t k) = ln_hash t k"
  by (simp add: ln_hash_def mk_def)

lemma same_key:
  assumes "mk t k = mk t k'"
  shows "ln_hash t k = ln_hash t k'" "ln_bucket_id t k = ln_bucket_id t k'" "ln_bkt t k = ln_bkt t k'" "ln_sig t k = ln_sig t k'"
  using hash_mk [of t k] hash_mk [of t k'] assms by (simp_all add: ln_bucket_id_def ln_bkt_def ln_sig_def)

lemma bucket_id_less: "ln_wf t \<Longrightarrow> ln_bucket_id t k < length (lt_buckets t)"
proof -
  assume wf: "ln_wf t"
  define n where "n = lc_n_buckets (lt_params t)"
  have n: "0 < n" "unat n = length (lt_buckets t)" "lc_bucket_mask (lt_params t) = n - 1" using wf by (simp_all add: ln_wf_def Let_def n_def)
  have "ucast (ln_hash t k) AND (n - 1) \<le> n - 1" by (rule word_and_le1)
  moreover have "n - 1 < n"
  proof -
    have "n \<noteq> 0" using n(1) by auto
    then show ?thesis using unat_minus_one [of n] by (simp add: word_less_nat_alt unat_gt_0)
  qed
  ultimately have "ucast (ln_hash t k) AND (n - 1) < n" by (rule le_less_trans)
  then show ?thesis using n by (simp add: ln_bucket_id_def word_less_nat_alt)
qed

lemma bkt_ok: "ln_wf t \<Longrightarrow> bucket_ok t (ln_bkt t k)"
  using bucket_id_less [of t k] by (simp add: ln_wf_def Let_def ln_bkt_def)

lemma hit_iff:
  assumes "bucket_ok t b" "i < 4"
  shows "ln_hit t b now sig k i \<longleftrightarrow> alive now (slot b i) \<and> lb_sig b ! i = sig \<and> lb_key b ! i = mk t k"
  using assms keycmp_keycpy [of "lb_key b ! i" "ln_ks t" k "lt_key_mask0 t"]
  by (auto simp: ln_hit_def Let_def alive_def slot_def mk_def bucket_ok_def)

lemma alive_later: "now \<le> now' \<Longrightarrow> alive now' e \<Longrightarrow> alive now e"
  by (auto simp: alive_def)

lemma pos_Some: "ln_pos t now k = Some i \<Longrightarrow> i < 4 \<and> ln_hit t (ln_bkt t k) now (ln_sig t k) k i"
  by (auto simp: ln_pos_def find_Some_iff TABLE_KEYS_PER_BUCKET_def)

lemma pos_None: "ln_pos t now k = None \<longleftrightarrow> (\<forall>i < 4. \<not> ln_hit t (ln_bkt t k) now (ln_sig t k) k i)"
  by (auto simp: ln_pos_def find_None_iff TABLE_KEYS_PER_BUCKET_def)

lemma find_unique:
  assumes "i < n" "\<And>j. j < n \<Longrightarrow> P j \<Longrightarrow> j = i"
  shows "find P [0..<n] = (if P i then Some i else None)"
proof (cases "P i")
  case True
  have "find P [0..<n] = Some i"
    unfolding find_Some_iff
  proof (intro exI conjI allI impI)
    show "i < length [0..<n]" "P ([0..<n] ! i)" "i = [0..<n] ! i" using assms(1) True by simp_all
    fix j
    assume j: "j < i"
    then have "j < n" "j \<noteq> i" using assms(1) by simp_all
    then have "\<not> P j" using assms(2) by blast
    then show "\<not> P ([0..<n] ! j)" using \<open>j < n\<close> by simp
  qed
  then show ?thesis using True by simp
next
  case False
  then have "find P [0..<n] = None" using assms(2) by (auto simp: find_None_iff)
  then show ?thesis using False by simp
qed

lemma find_cong_upt: "(\<And>j. j < n \<Longrightarrow> P j = Q j) \<Longrightarrow> find P [0..<n] = find Q [0..<n]"
  by (rule find_cong) auto

section \<open>A change of one position\<close>

lemma slot_update:
  assumes wf: "ln_wf t" and uniq: "ln_unique t now" and i: "i < 4"
    and same: "\<And>j. j < 4 \<Longrightarrow> j \<noteq> i \<Longrightarrow> slot b' j = slot (ln_bkt t k) j \<and> lb_sig b' ! j = lb_sig (ln_bkt t k) ! j \<and> lb_key b' ! j = lb_key (ln_bkt t k) ! j"
    and new: "lb_sig b' ! i = ln_sig t k" "lb_key b' ! i = mk t k" and ok: "bucket_ok t b'"
    and pos: "ln_pos t now k = Some i \<or> ln_pos t now k = None \<and> \<not> alive now (slot (ln_bkt t k) i)"
  defines "t' \<equiv> ln_put t (ln_bucket_id t k) b'"
  shows "ln_wf t'" "ln_unique t' now" "\<And>x. mk t' x = mk t x"
    "\<And>now' x. now \<le> now' \<Longrightarrow> ln_entry t' now' x =
      (if mk t x = mk t k then (if alive now' (slot b' i) then Some (slot b' i) else None) else ln_entry t now' x)"
proof -
  note id = bucket_id_less [OF wf, of k]
  have same_t: "lt_params t' = lt_params t" "lt_key_mask0 t' = lt_key_mask0 t" by (simp_all add: t'_def ln_put_def)
  then have h: "ln_hash t' = ln_hash t" "ln_bucket_id t' = ln_bucket_id t" "ln_sig t' = ln_sig t"
    by (simp_all add: ln_hash_def ln_bucket_id_def ln_sig_def fun_eq_iff)
  show mk: "mk t' x = mk t x" for x using same_t by (simp add: mk_def)
  have ok_t: "bucket_ok t' = bucket_ok t" using same_t by (simp add: bucket_ok_def fun_eq_iff)
  have "set (lt_buckets t') \<subseteq> insert b' (set (lt_buckets t))" by (auto simp: t'_def ln_put_def dest: set_update_subset_insert [THEN subsetD])
  then show wf': "ln_wf t'" using wf ok by (auto simp: ln_wf_def Let_def same_t ok_t) (auto simp: t'_def ln_put_def)
  have bkt: "ln_bkt t' x = (if ln_bucket_id t x = ln_bucket_id t k then b' else ln_bkt t x)" for x
  proof -
    have "lt_buckets t' = (lt_buckets t)[ln_bucket_id t k := b']" by (simp add: t'_def ln_put_def)
    then show ?thesis using id by (auto simp: ln_bkt_def h)
  qed
  define hit where "hit n x j \<longleftrightarrow> ln_hit t (ln_bkt t x) n (ln_sig t x) x j" for n x j
  define hit' where "hit' n x j \<longleftrightarrow> ln_hit t' (ln_bkt t' x) n (ln_sig t' x) x j" for n x j
  have hits: "hit n x j \<longleftrightarrow> alive n (slot (ln_bkt t x) j) \<and> lb_sig (ln_bkt t x) ! j = ln_sig t x \<and> lb_key (ln_bkt t x) ! j = mk t x"
    "hit' n x j \<longleftrightarrow> alive n (slot (ln_bkt t' x) j) \<and> lb_sig (ln_bkt t' x) ! j = ln_sig t x \<and> lb_key (ln_bkt t' x) ! j = mk t x" if "j < 4" for n x j
    unfolding hit_def hit'_def using that hit_iff [OF bkt_ok [OF wf] that] hit_iff [OF bkt_ok [OF wf'] that] by (simp_all add: h mk)
  have other: "hit' n x j = hit n x j" if "j < 4" "j \<noteq> i \<or> ln_bucket_id t x \<noteq> ln_bucket_id t k" for n x j
  proof (cases "ln_bucket_id t x = ln_bucket_id t k")
    case True
    then have "ln_bkt t x = ln_bkt t k" "ln_bkt t' x = b'" using bkt [of x] by (simp_all add: ln_bkt_def)
    then show ?thesis using same [of j] that True by (simp add: hits)
  next
    case False
    then show ?thesis using bkt [of x] that(1) by (simp add: hits)
  qed
  have at_i: "hit' n x i \<longleftrightarrow> alive n (slot b' i) \<and> mk t x = mk t k" if "ln_bucket_id t x = ln_bucket_id t k" for n x
  proof -
    have "ln_bkt t' x = b'" using bkt [of x] that by simp
    then have "hit' n x i \<longleftrightarrow> alive n (slot b' i) \<and> ln_sig t k = ln_sig t x \<and> mk t k = mk t x" using i new by (simp add: hits)
    then show ?thesis using same_key(4) [of t x k] by metis
  qed
  have not_i: "\<not> hit n x i" if "now \<le> n" "mk t x \<noteq> mk t k" "ln_bucket_id t x = ln_bucket_id t k" for n x
  proof
    assume hi: "hit n x i"
    have b: "ln_bkt t x = ln_bkt t k" using that(3) by (simp add: ln_bkt_def)
    from pos show False
    proof
      assume "ln_pos t now k = Some i"
      then have "hit now k i" using pos_Some by (simp add: hit_def)
      then show False using hi i that(2) b by (simp add: hits)
    next
      assume "ln_pos t now k = None \<and> \<not> alive now (slot (ln_bkt t k) i)"
      then show False using hi i b alive_later [OF that(1)] by (simp add: hits)
    qed
  qed
  have only: "j = i" if "mk t x = mk t k" "now \<le> n" "j < 4" "hit' n x j" for n x j
  proof (rule ccontr)
    assume "j \<noteq> i"
    then have "hit n x j" using that(3,4) other by simp
    then have "hit now k j" using that(1-3) same_key [OF that(1)] alive_later [OF that(2)] by (simp add: hits)
    from pos show False
    proof
      assume "ln_pos t now k = Some i"
      then have "hit now k i" using pos_Some by (simp add: hit_def)
      then show False using \<open>hit now k j\<close> \<open>j \<noteq> i\<close> uniq i that(3) by (auto simp: ln_unique_def hit_def)
    next
      assume "ln_pos t now k = None \<and> \<not> alive now (slot (ln_bkt t k) i)"
      then show False using \<open>hit now k j\<close> that(3) by (auto simp: pos_None hit_def)
    qed
  qed
  have frame: "hit' n x j = hit n x j" if "mk t x \<noteq> mk t k" "now \<le> n" "j < 4" for n x j
    
  proof (cases "j = i \<and> ln_bucket_id t x = ln_bucket_id t k")
    case True
    then show ?thesis using at_i [of x n] not_i [of n x] that(1,2) by simp
  next
    case False
    then show ?thesis using other [of j x n] that(3) by blast
  qed
  show "ln_unique t' now"
    unfolding ln_unique_def hit'_def [symmetric]
  proof (intro allI impI)
    fix x a c
    assume ac: "a < 4" "c < 4" "hit' now x a" "hit' now x c"
    show "a = c"
    proof (cases "mk t x = mk t k")
      case True
      then show ?thesis using only [OF True order_refl ac(1,3)] only [OF True order_refl ac(2,4)] by simp
    next
      case False
      then have "hit now x a" "hit now x c" using frame [OF False order_refl ac(1)] frame [OF False order_refl ac(2)] ac by simp_all
      then show ?thesis using ac uniq by (auto simp: ln_unique_def hit_def)
    qed
  qed
  fix n x
  assume n: "now \<le> n"
  have eta: "ln_hit t' (ln_bkt t' x) n (ln_sig t' x) x = hit' n x" "ln_hit t (ln_bkt t x) n (ln_sig t x) x = hit n x"
    by (simp_all add: hit'_def hit_def fun_eq_iff)
  show "ln_entry t' n x = (if mk t x = mk t k then (if alive n (slot b' i) then Some (slot b' i) else None) else ln_entry t n x)"
  proof (cases "mk t x = mk t k")
    case True
    then have "ln_pos t' n x = (if hit' n x i then Some i else None)"
      unfolding ln_pos_def eta TABLE_KEYS_PER_BUCKET_def using only [OF True n] i by (intro find_unique) auto
    then show ?thesis using True at_i [of x n] same_key(2) [OF True] bkt [of x] by (simp add: ln_entry_def)
  next
    case False
    then have "ln_pos t' n x = ln_pos t n x"
      unfolding ln_pos_def eta TABLE_KEYS_PER_BUCKET_def using frame [OF False n] by (intro find_cong_upt) auto
    moreover have "slot (ln_bkt t' x) j = slot (ln_bkt t x) j" if "ln_pos t n x = Some j" for j
    proof (cases "ln_bucket_id t x = ln_bucket_id t k")
      case b: True
      have "j < 4" "hit n x j" using pos_Some [OF that] by (simp_all add: hit_def)
      then have "j \<noteq> i" using not_i [OF n False b] by auto
      then show ?thesis using same [of j] \<open>j < 4\<close> bkt [of x] b by (simp add: ln_bkt_def)
    qed (use bkt [of x] in simp)
    ultimately show ?thesis using False by (auto simp: ln_entry_def split: option.splits intro: option.map_cong)
  qed
qed

section \<open>The operations\<close>

definition ln_after :: "ln_table \<Rightarrow> u64 \<Rightarrow> key \<Rightarrow> ln_mailbox \<Rightarrow> bool" where
  "ln_after t now k m \<longleftrightarrow> lm_state m = 0 \<and> lm_bucket m = Some (ln_bucket_id t k) \<and> lm_input_sig m = ln_sig t k \<and>
     (case ln_pos t now k of None \<Rightarrow> \<not> lm_hit m | Some i \<Rightarrow> lm_hit m \<and> lm_bucket_key_pos m = i)"

lemma lookup_steps:
  assumes "ln_wf t" "lm_state m = 0"
  shows "\<exists>m1 m2. learner_lookup t m now k = Inr (m1, None) \<and>
    learner_lookup t m1 now k = Inr (m2, Some (map_option (snd \<circ> snd) (ln_entry t now k))) \<and> ln_after t now k m2"
proof -
  have b: "aget (lt_buckets t) (ln_bucket_id t k) = Some (ln_bkt t k)"
    using bucket_id_less [OF assms(1), of k] by (simp add: aget_def ln_bkt_def)
  show ?thesis
    using assms(2) b
    by (cases "ln_pos t now k") (auto simp: learner_lookup_def ln_after_def ln_pos_def ln_sig_def ln_entry_def slot_def)
qed

definition changed :: "ln_table \<Rightarrow> u64 \<Rightarrow> key \<Rightarrow> ln_entry \<Rightarrow> ln_table \<Rightarrow> bool" where
  "changed t now k e t' \<longleftrightarrow> ln_wf t' \<and> ln_unique t' now \<and> lt_params t' = lt_params t \<and> lt_key_mask0 t' = lt_key_mask0 t \<and>
     (\<forall>now' x. now \<le> now' \<longrightarrow>
        ln_entry t' now' x = (if mk t x = mk t k then (if alive now' e then Some e else None) else ln_entry t now' x))"

lemma changed_slot:
  assumes "ln_wf t" "ln_unique t now" "i < 4"
    and "\<And>j. j < 4 \<Longrightarrow> j \<noteq> i \<Longrightarrow> slot b' j = slot (ln_bkt t k) j \<and> lb_sig b' ! j = lb_sig (ln_bkt t k) ! j \<and> lb_key b' ! j = lb_key (ln_bkt t k) ! j"
    and "lb_sig b' ! i = ln_sig t k" "lb_key b' ! i = mk t k" "bucket_ok t b'"
    and "ln_pos t now k = Some i \<or> ln_pos t now k = None \<and> \<not> alive now (slot (ln_bkt t k) i)"
    and "slot b' i = e"
  shows "changed t now k e (ln_put t (ln_bucket_id t k) b')"
proof -
  note U = slot_update [OF assms(1-8)]
  show ?thesis unfolding changed_def using U(1,2) U(4) assms(9) by (simp add: ln_put_def)
qed

text \<open>The number of the timeout, cut to the valid range.\<close>

definition tid_of :: "ln_table \<Rightarrow> u32 \<Rightarrow> u32" where "tid_of t i = i AND (lc_n_key_timeouts (lt_params t) - 1)"

definition timeout_of :: "ln_table \<Rightarrow> u8 \<Rightarrow> u64" where "timeout_of t i = lc_key_timeout (lt_params t) ! unat i"

lemma tid_facts:
  assumes "ln_wf t"
  shows "unat (tid_of t i) < unat (lc_n_key_timeouts (lt_params t))" "unat (ucast (tid_of t i) :: u8) = unat (tid_of t i)"
    "ln_timeout t (unat (tid_of t i)) = Inr (timeout_of t (ucast (tid_of t i)))"
proof -
  define n where "n = lc_n_key_timeouts (lt_params t)"
  have n: "0 < n" "n \<le> 16" "length (lc_key_timeout (lt_params t)) = unat n" using assms by (simp_all add: ln_wf_def Let_def n_def)
  have "n \<noteq> 0" using n(1) by auto
  then have "n - 1 < n" using unat_minus_one [of n] by (simp add: word_less_nat_alt unat_gt_0)
  then have "tid_of t i < n" unfolding tid_of_def n_def [symmetric] using word_and_le1 [of i "n - 1"] by (rule le_less_trans [rotated])
  then show lt: "unat (tid_of t i) < unat (lc_n_key_timeouts (lt_params t))" by (simp add: n_def word_less_nat_alt)
  have "unat n \<le> 16" using n(2) by (simp add: word_le_nat_alt)
  then have "unat (tid_of t i) < 256" using lt by (simp add: n_def)
  then show u: "unat (ucast (tid_of t i) :: u8) = unat (tid_of t i)" by (simp add: unsigned_ucast_eq take_bit_nat_eq_self)
  show "ln_timeout t (unat (tid_of t i)) = Inr (timeout_of t (ucast (tid_of t i)))"
    using lt n(3) by (simp add: ln_timeout_def aget_def n_def timeout_of_def u)
qed

lemma get_after:
  assumes "ln_wf t" "ln_after t now k m"
  shows "ln_get t m = Inr (ln_bucket_id t k, ln_bkt t k)"
  using assms bucket_id_less [of t k] by (simp add: ln_get_def ln_after_def aget_def ln_bkt_def)

lemma pos_facts:
  assumes "ln_wf t" "ln_pos t now k = Some i"
  shows "i < 4" "lb_sig (ln_bkt t k) ! i = ln_sig t k" "lb_key (ln_bkt t k) ! i = mk t k" "alive now (slot (ln_bkt t k) i)"
    "ln_timeout t (unat (lb_key_timeout_id (ln_bkt t k) ! i)) = Inr (timeout_of t (lb_key_timeout_id (ln_bkt t k) ! i))"
proof -
  have i: "i < 4" "ln_hit t (ln_bkt t k) now (ln_sig t k) k i" using pos_Some [OF assms(2)] by simp_all
  show "i < 4" by (rule i(1))
  show "lb_sig (ln_bkt t k) ! i = ln_sig t k" "lb_key (ln_bkt t k) ! i = mk t k" "alive now (slot (ln_bkt t k) i)"
    using i hit_iff [OF bkt_ok [OF assms(1)] i(1)] by simp_all
  show "ln_timeout t (unat (lb_key_timeout_id (ln_bkt t k) ! i)) = Inr (timeout_of t (lb_key_timeout_id (ln_bkt t k) ! i))"
    using bkt_ok [OF assms(1), of k] i(1) assms(1)
    by (simp add: ln_timeout_def aget_def timeout_of_def bucket_ok_def ln_wf_def Let_def)
qed

text \<open>The data that an update may leave behind: the action, and the bytes of the arguments.\<close>

definition data_ok :: "ln_table \<Rightarrow> u64 \<Rightarrow> bytes option \<Rightarrow> u64 \<times> bytes \<Rightarrow> bool" where
  "data_ok t action_id action_data d \<longleftrightarrow> fst d = action_id \<and>
     (\<forall>ad. action_data = Some ad \<longrightarrow> take (unat (lc_action_data_size (lt_params t))) (snd d) = take (unat (lc_action_data_size (lt_params t))) ad)"

definition args_ok :: "ln_table \<Rightarrow> bytes option \<Rightarrow> bool" where
  "args_ok t action_data \<longleftrightarrow> (\<forall>ad. action_data = Some ad \<longrightarrow> unat (lc_action_data_size (lt_params t)) \<le> length ad)"

lemma ln_data_ok:
  assumes "args_ok t action_data"
  shows "\<exists>d. ln_data t action_id action_data old = Inr d \<and> data_ok t action_id action_data d"
  using assms by (cases action_data) (auto simp: ln_data_def data_ok_def args_ok_def Let_def)

lemma add_hit:
  assumes wf: "ln_wf t" and u: "ln_unique t now" and m: "ln_after t now k m" and pos: "ln_pos t now k = Some i" and ad: "args_ok t action_data"
  shows "\<exists>t' d. learner_add t m now k action_id action_data tid = Inr (t', m, True) \<and> data_ok t action_id action_data d \<and>
    changed t now k (ucast (tid_of t tid), ln_expiry now (timeout_of t (ucast (tid_of t tid))), d) t'"
proof -
  note P = pos_facts [OF wf pos] and T = tid_facts [OF wf, of tid]
  define b where "b = ln_bkt t k"
  have ok: "bucket_ok t b" using bkt_ok [OF wf] by (simp add: b_def)
  obtain d where d: "ln_data t action_id action_data (lb_data b ! i) = Inr d" "data_ok t action_id action_data d" using ln_data_ok [OF ad] by blast
  define b' where "b' = b\<lparr>lb_time := (lb_time b)[i := ln_expiry now (timeout_of t (ucast (tid_of t tid)))],
    lb_key_timeout_id := (lb_key_timeout_id b)[i := ucast (tid_of t tid)], lb_data := (lb_data b)[i := d]\<rparr>"
  have ok': "bucket_ok t b'" using ok T(1,2) P(1) by (auto simp: bucket_ok_def b'_def nth_list_update)
  have run: "learner_add t m now k action_id action_data tid = Inr (ln_put t (ln_bucket_id t k) b', m, True)"
    using m pos d(1) T(3) get_after [OF wf m]
    by (simp add: learner_add_def ln_after_def Let_def tid_of_def [symmetric] b_def b'_def)
  have "changed t now k (ucast (tid_of t tid), ln_expiry now (timeout_of t (ucast (tid_of t tid))), d) (ln_put t (ln_bucket_id t k) b')"
    using ok P pos by (intro changed_slot [OF wf u P(1) _ _ _ ok']) (auto simp: b'_def slot_def bucket_ok_def b_def)
  then show ?thesis using run d(2) by blast
qed

lemma add_miss:
  assumes wf: "ln_wf t" and u: "ln_unique t now" and m: "ln_after t now k m" and pos: "ln_pos t now k = None" and ad: "args_ok t action_data"
  shows "(\<exists>t' m' d. learner_add t m now k action_id action_data tid = Inr (t', m', True) \<and> data_ok t action_id action_data d \<and> lm_state m' = 0 \<and>
      changed t now k (ucast (tid_of t tid), ln_expiry now (timeout_of t (ucast (tid_of t tid))), d) t') \<or>
    learner_add t m now k action_id action_data tid = Inr (t, m, False) \<and>
      (\<forall>i < 4. now \<le> push_bit 32 (ucast (lb_time (ln_bkt t k) ! i)))"
proof -
  note T = tid_facts [OF wf, of tid]
  define b where "b = ln_bkt t k"
  have ok: "bucket_ok t b" using bkt_ok [OF wf] by (simp add: b_def)
  define F where "F = find (\<lambda>i. push_bit 32 (ucast (lb_time b ! i)) < now) [0..<TABLE_KEYS_PER_BUCKET]"
  show ?thesis
  proof (cases F)
    case None
    then have F: "\<forall>i \<in> set [0..<4]. \<not> push_bit 32 (ucast (lb_time b ! i)) < now" unfolding F_def TABLE_KEYS_PER_BUCKET_def find_None_iff by blast
    have "\<forall>i < 4. now \<le> push_bit 32 (ucast (lb_time b ! i))"
    proof (intro allI impI)
      fix i :: nat
      assume "i < 4"
      then have "\<not> push_bit 32 (ucast (lb_time b ! i)) < now" using F by simp
      then show "now \<le> push_bit 32 (ucast (lb_time b ! i))" by simp
    qed
    moreover have "learner_add t m now k action_id action_data tid = Inr (t, m, False)"
      using m pos T(3) get_after [OF wf m] None
      by (simp add: learner_add_def ln_after_def Let_def tid_of_def [symmetric] b_def F_def)
    ultimately show ?thesis by (simp add: b_def)
  next
    case (Some i)
    then have i: "i < 4" "push_bit 32 (ucast (lb_time b ! i)) < now" by (auto simp: F_def find_Some_iff TABLE_KEYS_PER_BUCKET_def)
    obtain d where d: "ln_data t action_id action_data (lb_data b ! i) = Inr d" "data_ok t action_id action_data d" using ln_data_ok [OF ad] by blast
    define b' where "b' = b\<lparr>lb_time := (lb_time b)[i := ln_expiry now (timeout_of t (ucast (tid_of t tid)))],
      lb_sig := (lb_sig b)[i := lm_input_sig m], lb_key_timeout_id := (lb_key_timeout_id b)[i := ucast (tid_of t tid)],
      lb_key := (lb_key b)[i := keycpy k (lt_key_mask0 t) (ln_ks t)], lb_data := (lb_data b)[i := d]\<rparr>"
    have ok': "bucket_ok t b'" using ok T(1,2) i(1) by (auto simp: bucket_ok_def b'_def nth_list_update)
    have run: "learner_add t m now k action_id action_data tid =
        Inr (ln_put t (ln_bucket_id t k) b', m\<lparr>lm_hit := True, lm_bucket_key_pos := i\<rparr>, True)"
      using m pos d(1) T(3) get_after [OF wf m] Some
      by (simp add: learner_add_def ln_after_def Let_def tid_of_def [symmetric] b_def b'_def F_def)
    have "\<not> alive now (slot (ln_bkt t k) i)" using i(2) by (simp add: alive_def slot_def b_def)
    then have "changed t now k (ucast (tid_of t tid), ln_expiry now (timeout_of t (ucast (tid_of t tid))), d) (ln_put t (ln_bucket_id t k) b')"
      using ok i pos m by (intro changed_slot [OF wf u i(1) _ _ _ ok']) (auto simp: b'_def slot_def bucket_ok_def b_def ln_after_def mk_def)
    moreover have "lm_state (m\<lparr>lm_hit := True, lm_bucket_key_pos := i\<rparr>) = 0" using m by (simp add: ln_after_def)
    ultimately show ?thesis using run d(2) by blast
  qed
qed

lemma rearm_hit:
  assumes wf: "ln_wf t" and u: "ln_unique t now" and m: "ln_after t now k m" and pos: "ln_pos t now k = Some i"
  defines "b \<equiv> ln_bkt t k"
  shows "\<exists>t'. learner_rearm t m now = Inr t' \<and>
      changed t now k (lb_key_timeout_id b ! i, ln_expiry now (timeout_of t (lb_key_timeout_id b ! i)), lb_data b ! i) t'"
    "\<exists>t'. learner_rearm_new t m now tid = Inr t' \<and>
      changed t now k (ucast (tid_of t tid), ln_expiry now (timeout_of t (ucast (tid_of t tid))), lb_data b ! i) t'"
proof -
  note P = pos_facts [OF wf pos] and T = tid_facts [OF wf, of tid]
  have ok: "bucket_ok t b" using bkt_ok [OF wf] by (simp add: b_def)
  define b1 where "b1 = b\<lparr>lb_time := (lb_time b)[i := ln_expiry now (timeout_of t (lb_key_timeout_id b ! i))]\<rparr>"
  have ok1: "bucket_ok t b1" using ok P(1) by (auto simp: bucket_ok_def b1_def)
  have "learner_rearm t m now = Inr (ln_put t (ln_bucket_id t k) b1)"
    using m pos P(5) get_after [OF wf m] by (simp add: learner_rearm_def ln_after_def Let_def b_def b1_def)
  moreover have "changed t now k (lb_key_timeout_id b ! i, ln_expiry now (timeout_of t (lb_key_timeout_id b ! i)), lb_data b ! i)
      (ln_put t (ln_bucket_id t k) b1)"
    using ok P pos by (intro changed_slot [OF wf u P(1) _ _ _ ok1]) (auto simp: b1_def slot_def bucket_ok_def b_def)
  ultimately show "\<exists>t'. learner_rearm t m now = Inr t' \<and>
      changed t now k (lb_key_timeout_id b ! i, ln_expiry now (timeout_of t (lb_key_timeout_id b ! i)), lb_data b ! i) t'" by blast
  define b2 where "b2 = b\<lparr>lb_time := (lb_time b)[i := ln_expiry now (timeout_of t (ucast (tid_of t tid)))],
    lb_key_timeout_id := (lb_key_timeout_id b)[i := ucast (tid_of t tid)]\<rparr>"
  have ok2: "bucket_ok t b2" using ok T(1,2) P(1) by (auto simp: bucket_ok_def b2_def nth_list_update)
  have "learner_rearm_new t m now tid = Inr (ln_put t (ln_bucket_id t k) b2)"
    using m pos T(3) get_after [OF wf m] by (simp add: learner_rearm_new_def ln_after_def Let_def tid_of_def [symmetric] b_def b2_def)
  moreover have "changed t now k (ucast (tid_of t tid), ln_expiry now (timeout_of t (ucast (tid_of t tid))), lb_data b ! i)
      (ln_put t (ln_bucket_id t k) b2)"
    using ok P pos by (intro changed_slot [OF wf u P(1) _ _ _ ok2]) (auto simp: b2_def slot_def bucket_ok_def b_def)
  ultimately show "\<exists>t'. learner_rearm_new t m now tid = Inr t' \<and>
      changed t now k (ucast (tid_of t tid), ln_expiry now (timeout_of t (ucast (tid_of t tid))), lb_data b ! i) t'" by blast
qed

lemma delete_hit:
  assumes wf: "ln_wf t" and u: "ln_unique t now" and m: "ln_after t now k m" and pos: "ln_pos t now k = Some i"
  shows "\<exists>t' e. learner_delete t m = Inr (t', m\<lparr>lm_hit := False\<rparr>) \<and> changed t now k e t' \<and> (\<forall>n. \<not> alive n e)"
proof -
  note P = pos_facts [OF wf pos]
  define b where "b = ln_bkt t k"
  have ok: "bucket_ok t b" using bkt_ok [OF wf] by (simp add: b_def)
  define b1 where "b1 = b\<lparr>lb_time := (lb_time b)[i := 0]\<rparr>"
  have ok1: "bucket_ok t b1" using ok P(1) by (auto simp: bucket_ok_def b1_def)
  have "learner_delete t m = Inr (ln_put t (ln_bucket_id t k) b1, m\<lparr>lm_hit := False\<rparr>)"
    using m pos get_after [OF wf m] by (simp add: learner_delete_def ln_after_def b_def b1_def)
  moreover have "changed t now k (slot b1 i) (ln_put t (ln_bucket_id t k) b1)"
    using ok P pos by (intro changed_slot [OF wf u P(1) _ _ _ ok1]) (auto simp: b1_def slot_def bucket_ok_def b_def)
  moreover have "\<not> alive n (slot b1 i)" for n
    using ok P(1) by (simp add: alive_def slot_def b1_def bucket_ok_def)
  ultimately show ?thesis by blast
qed

lemma miss_ops:
  assumes "ln_after t now k m" "ln_pos t now k = None"
  shows "learner_rearm t m now' = Inr t" "learner_rearm_new t m now' tid = Inr t" "learner_delete t m = Inr (t, m)"
  using assms by (simp_all add: ln_after_def learner_rearm_def learner_rearm_new_def learner_delete_def)

section \<open>A packet\<close>

text \<open>
  A packet looks its key up, at its time, and then runs at most one operation of the data plane; the answer is the data found, and
  whether a key was refused for lack of space.
\<close>

datatype ln_op = Learn u64 "bytes option" u32 | Rearm | RearmNew u32 | Forget | Nothing

definition ln_do :: "ln_table \<Rightarrow> ln_mailbox \<Rightarrow> u64 \<Rightarrow> key \<Rightarrow> ln_op \<Rightarrow> ln_fault + ln_table \<times> ln_mailbox \<times> bool" where
  "ln_do t m now k op =
     (case op of
        Learn action_id action_data tid \<Rightarrow> learner_add t m now k action_id action_data tid
      | Rearm \<Rightarrow> bindR (learner_rearm t m now) (\<lambda>t. Inr (t, m, True))
      | RearmNew tid \<Rightarrow> bindR (learner_rearm_new t m now tid) (\<lambda>t. Inr (t, m, True))
      | Forget \<Rightarrow> bindR (learner_delete t m) (\<lambda>(t, m). Inr (t, m, True))
      | Nothing \<Rightarrow> Inr (t, m, True))"

definition ln_packet ::
  "ln_table \<Rightarrow> ln_mailbox \<Rightarrow> u64 \<times> key \<times> ln_op \<Rightarrow> ln_fault + ln_table \<times> ln_mailbox \<times> (u64 \<times> bytes) option \<times> bool"
where
  "ln_packet t m = (\<lambda>(now, k, op).
     bindR (learner_lookup t m now k) (\<lambda>(m, _).
     bindR (learner_lookup t m now k) (\<lambda>(m, r).
     bindR (ln_do t m now k op) (\<lambda>(t, m, ok). Inr (t, m, (case r of Some d \<Rightarrow> d | None \<Rightarrow> None), ok)))))"

fun ln_run ::
  "(u64 \<times> key \<times> ln_op) list \<Rightarrow> ln_table \<Rightarrow> ln_mailbox \<Rightarrow> ln_fault + ln_table \<times> ln_mailbox \<times> ((u64 \<times> bytes) option \<times> bool) list"
where
  "ln_run [] t m = Inr (t, m, [])"
| "ln_run (p # ps) t m =
     bindR (ln_packet t m p) (\<lambda>(t, m, r, ok). bindR (ln_run ps t m) (\<lambda>(t, m, rs). Inr (t, m, (r, ok) # rs)))"

text \<open>The same on a map from masked keys to entries; an entry that has expired is not seen.\<close>

definition view :: "(key \<Rightarrow> ln_entry option) \<Rightarrow> u64 \<Rightarrow> key \<Rightarrow> ln_entry option" where
  "view M now k = (case M k of Some e \<Rightarrow> if alive now e then Some e else None | None \<Rightarrow> None)"

definition spec_packet ::
  "ln_table \<Rightarrow> (key \<Rightarrow> ln_entry option) \<Rightarrow> u64 \<times> key \<times> ln_op \<Rightarrow> (u64 \<times> bytes) option \<times> bool \<Rightarrow> (key \<Rightarrow> ln_entry option) \<Rightarrow> bool"
where
  "spec_packet t M p r M' = (case p of (now, k, op) \<Rightarrow>
     (let k = mk t k; cur = view M now k; due = (\<lambda>i. ln_expiry now (timeout_of t i)) in
      fst r = map_option (snd \<circ> snd) cur \<and>
      (case op of
         Learn action_id action_data tid \<Rightarrow>
           (if snd r then \<exists>d. data_ok t action_id action_data d \<and> M' = M(k \<mapsto> (ucast (tid_of t tid), due (ucast (tid_of t tid)), d))
            else cur = None \<and> M' = M)
       | Rearm \<Rightarrow> snd r \<and> M' = (case cur of None \<Rightarrow> M | Some (i, _, d) \<Rightarrow> M(k \<mapsto> (i, due i, d)))
       | RearmNew tid \<Rightarrow> snd r \<and> M' = (case cur of None \<Rightarrow> M | Some (i, _, d) \<Rightarrow> M(k \<mapsto> (ucast (tid_of t tid), due (ucast (tid_of t tid)), d)))
       | Forget \<Rightarrow> snd r \<and> M' = (if cur = None then M else M(k := None))
       | Nothing \<Rightarrow> snd r \<and> M' = M)))"

fun spec_run ::
  "ln_table \<Rightarrow> (key \<Rightarrow> ln_entry option) \<Rightarrow> (u64 \<times> key \<times> ln_op) list \<Rightarrow> ((u64 \<times> bytes) option \<times> bool) list \<Rightarrow> (key \<Rightarrow> ln_entry option) \<Rightarrow> bool"
where
  "spec_run t M [] rs M' \<longleftrightarrow> rs = [] \<and> M' = M"
| "spec_run t M (p # ps) rs M' \<longleftrightarrow> (\<exists>r rs' M1. rs = r # rs' \<and> spec_packet t M p r M1 \<and> spec_run t M1 ps rs' M')"

text \<open>The map stands for what every lookup from now on finds.\<close>

definition ln_rel :: "ln_table \<Rightarrow> u64 \<Rightarrow> (key \<Rightarrow> ln_entry option) \<Rightarrow> bool" where
  "ln_rel t now M \<longleftrightarrow> ln_wf t \<and> ln_unique t now \<and> (\<forall>now' k. now \<le> now' \<longrightarrow> ln_entry t now' k = view M now' (mk t k))"

lemma unique_later: "ln_wf t \<Longrightarrow> now \<le> now' \<Longrightarrow> ln_unique t now \<Longrightarrow> ln_unique t now'"
  unfolding ln_unique_def using hit_iff [OF bkt_ok] alive_later by metis

lemma rel_later: "ln_rel t now M \<Longrightarrow> now \<le> now' \<Longrightarrow> ln_rel t now' M"
  using unique_later by (auto simp: ln_rel_def)

lemma view_upd:
  "view (M(k \<mapsto> e)) now k' = (if k' = k then (if alive now e then Some e else None) else view M now k')"
  "view (M(k := None)) now k' = (if k' = k then None else view M now k')"
  by (auto simp: view_def)

lemma rel_changed:
  assumes "ln_rel t now M" "changed t now k e t'"
  shows "ln_rel t' now (M(mk t k \<mapsto> e))" "(\<forall>n. \<not> alive n e) \<Longrightarrow> ln_rel t' now (M(mk t k := None))"
proof -
  have mk: "mk t' x = mk t x" for x using assms(2) by (simp add: changed_def mk_def)
  show "ln_rel t' now (M(mk t k \<mapsto> e))" "(\<forall>n. \<not> alive n e) \<Longrightarrow> ln_rel t' now (M(mk t k := None))"
    using assms unfolding ln_rel_def changed_def mk view_upd by simp_all
qed

definition op_ok :: "ln_table \<Rightarrow> ln_op \<Rightarrow> bool" where
  "op_ok t op \<longleftrightarrow> (case op of Learn _ action_data _ \<Rightarrow> args_ok t action_data | _ \<Rightarrow> True)"

lemma do_refines:
  assumes rel: "ln_rel t now M" and m: "ln_after t now k m" and op: "op_ok t op"
  shows "\<exists>t' m' ok M'. ln_do t m now k op = Inr (t', m', ok) \<and> lm_state m' = 0 \<and> lt_params t' = lt_params t \<and> lt_key_mask0 t' = lt_key_mask0 t \<and>
    ln_rel t' now M' \<and> spec_packet t M (now, k, op) (map_option (snd \<circ> snd) (ln_entry t now k), ok) M'"
proof -
  have wf: "ln_wf t" and u: "ln_unique t now" using rel by (simp_all add: ln_rel_def)
  have cur: "view M now (mk t k) = ln_entry t now k" using rel by (simp add: ln_rel_def)
  have st: "lm_state m = 0" using m by (simp add: ln_after_def)
  have same: "lt_params t' = lt_params t \<and> lt_key_mask0 t' = lt_key_mask0 t" if "changed t now k e t'" for t' e
    using that by (simp add: changed_def)
  note goal = spec_packet_def Let_def prod.case cur fst_conv snd_conv
  have learned: "spec_packet t M (now, k, op) (map_option (snd \<circ> snd) (ln_entry t now k), True)
      (M(mk t k \<mapsto> (ucast (tid_of t tid), ln_expiry now (timeout_of t (ucast (tid_of t tid))), d)))"
    if "op = Learn action_id action_data tid" "data_ok t action_id action_data d" for action_id action_data tid d
    unfolding goal that(1) ln_op.case if_True using that(2) by blast
  show ?thesis
  proof (cases "ln_pos t now k")
    case None
    then have none: "ln_entry t now k = None" by (simp add: ln_entry_def)
    show ?thesis
    proof (cases op)
      case (Learn action_id action_data tid)
      then have ad: "args_ok t action_data" using op by (simp add: op_ok_def)
      from add_miss [OF wf u m None ad, of action_id tid] show ?thesis
      proof
        assume "\<exists>t' m' d. learner_add t m now k action_id action_data tid = Inr (t', m', True) \<and> data_ok t action_id action_data d \<and> lm_state m' = 0 \<and>
            changed t now k (ucast (tid_of t tid), ln_expiry now (timeout_of t (ucast (tid_of t tid))), d) t'"
        then obtain t' m' d where a: "learner_add t m now k action_id action_data tid = Inr (t', m', True)" "data_ok t action_id action_data d"
          "lm_state m' = 0" "changed t now k (ucast (tid_of t tid), ln_expiry now (timeout_of t (ucast (tid_of t tid))), d) t'" by blast
        show ?thesis
          using a(1,3) same [OF a(4)] rel_changed(1) [OF rel a(4)] learned [OF Learn a(2)]
          by (intro exI [of _ t'] exI [of _ m'] exI [of _ True] exI conjI) (auto simp: ln_do_def Learn)
      next
        assume "learner_add t m now k action_id action_data tid = Inr (t, m, False) \<and>
            (\<forall>i < 4. now \<le> push_bit 32 (ucast (lb_time (ln_bkt t k) ! i)))"
        then show ?thesis
          using Learn rel st none unfolding goal by (intro exI [of _ t] exI [of _ m] exI [of _ False] exI [of _ M]) (simp add: ln_do_def)
      qed
    qed (use rel st none miss_ops [OF m None] in \<open>auto simp: goal ln_do_def\<close>)
  next
    case (Some i)
    define b where "b = ln_bkt t k"
    have some: "ln_entry t now k = Some (lb_key_timeout_id b ! i, lb_time b ! i, lb_data b ! i)"
      using Some by (simp add: ln_entry_def slot_def b_def)
    show ?thesis
    proof (cases op)
      case (Learn action_id action_data tid)
      then have ad: "args_ok t action_data" using op by (simp add: op_ok_def)
      from add_hit [OF wf u m Some ad, of action_id tid] obtain t' d where a:
        "learner_add t m now k action_id action_data tid = Inr (t', m, True)" "data_ok t action_id action_data d"
        "changed t now k (ucast (tid_of t tid), ln_expiry now (timeout_of t (ucast (tid_of t tid))), d) t'" by blast
      show ?thesis
        using a(1) st same [OF a(3)] rel_changed(1) [OF rel a(3)] learned [OF Learn a(2)]
        by (intro exI [of _ t'] exI [of _ m] exI [of _ True] exI conjI) (auto simp: ln_do_def Learn)
    next
      case Rearm
      from rearm_hit(1) [OF wf u m Some] obtain t' where a: "learner_rearm t m now = Inr t'"
        "changed t now k (lb_key_timeout_id b ! i, ln_expiry now (timeout_of t (lb_key_timeout_id b ! i)), lb_data b ! i) t'"
        unfolding b_def by blast
      show ?thesis
        using a(1) st same [OF a(2)] rel_changed(1) [OF rel a(2)] Rearm unfolding goal some
        by (intro exI [of _ t'] exI [of _ m] exI [of _ True] exI conjI) (auto simp: ln_do_def)
    next
      case (RearmNew tid)
      from rearm_hit(2) [OF wf u m Some, of tid] obtain t' where a: "learner_rearm_new t m now tid = Inr t'"
        "changed t now k (ucast (tid_of t tid), ln_expiry now (timeout_of t (ucast (tid_of t tid))), lb_data b ! i) t'"
        unfolding b_def by blast
      show ?thesis
        using a(1) st same [OF a(2)] rel_changed(1) [OF rel a(2)] RearmNew unfolding goal some
        by (intro exI [of _ t'] exI [of _ m] exI [of _ True] exI conjI) (auto simp: ln_do_def)
    next
      case Forget
      from delete_hit [OF wf u m Some] obtain t' e where a: "learner_delete t m = Inr (t', m\<lparr>lm_hit := False\<rparr>)" "changed t now k e t'"
        "\<forall>n. \<not> alive n e" by blast
      show ?thesis
        using a(1) st same [OF a(2)] rel_changed(2) [OF rel a(2,3)] Forget unfolding goal some
        by (intro exI [of _ t'] exI [of _ "m\<lparr>lm_hit := False\<rparr>"] exI [of _ True] exI conjI) (auto simp: ln_do_def)
    next
      case Nothing
      then show ?thesis
        using rel st unfolding goal by (intro exI [of _ t] exI [of _ m] exI [of _ True] exI [of _ M]) (simp add: ln_do_def)
    qed
  qed
qed

lemma packet_refines:
  assumes rel: "ln_rel t now0 M" and "now0 \<le> now" and st: "lm_state m = 0" and op: "op_ok t op"
  shows "\<exists>t' m' r M'. ln_packet t m (now, k, op) = Inr (t', m', r) \<and> lm_state m' = 0 \<and> lt_params t' = lt_params t \<and>
    lt_key_mask0 t' = lt_key_mask0 t \<and> ln_rel t' now M' \<and> spec_packet t M (now, k, op) r M'"
proof -
  have rel': "ln_rel t now M" using rel_later assms(1,2) .
  then have "ln_wf t" by (simp add: ln_rel_def)
  from lookup_steps [OF this st, of now k] obtain m1 m2 where l: "learner_lookup t m now k = Inr (m1, None)"
    "learner_lookup t m1 now k = Inr (m2, Some (map_option (snd \<circ> snd) (ln_entry t now k)))" "ln_after t now k m2" by blast
  from do_refines [OF rel' l(3) op] obtain t' m' ok M' where d: "ln_do t m2 now k op = Inr (t', m', ok)" "lm_state m' = 0"
    "lt_params t' = lt_params t" "lt_key_mask0 t' = lt_key_mask0 t" "ln_rel t' now M'"
    "spec_packet t M (now, k, op) (map_option (snd \<circ> snd) (ln_entry t now k), ok) M'" by blast
  have "ln_packet t m (now, k, op) = Inr (t', m', map_option (snd \<circ> snd) (ln_entry t now k), ok)"
    using l(1,2) d(1) by (simp add: ln_packet_def)
  then show ?thesis using d(2-6) by blast
qed

lemma spec_packet_cong:
  assumes "lt_params t' = lt_params t" "lt_key_mask0 t' = lt_key_mask0 t"
  shows "spec_packet t' = spec_packet t" "op_ok t' = op_ok t"
proof -
  have e: "mk t' = mk t" "timeout_of t' = timeout_of t" "tid_of t' = tid_of t" "data_ok t' = data_ok t" "args_ok t' = args_ok t"
    using assms by (simp_all add: mk_def timeout_of_def tid_of_def data_ok_def args_ok_def fun_eq_iff)
  show "spec_packet t' = spec_packet t" "op_ok t' = op_ok t" by (simp_all only: spec_packet_def [abs_def] op_ok_def [abs_def] e)
qed

lemma spec_run_cong: "spec_packet t' = spec_packet t \<Longrightarrow> spec_run t' M ps rs M' = spec_run t M ps rs M'"
  by (induction ps arbitrary: M rs) auto

lemma run_refines:
  "ln_rel t now M \<Longrightarrow> sorted_wrt (\<le>) (now # map fst ps) \<Longrightarrow> lm_state m = 0 \<Longrightarrow> \<forall>p \<in> set ps. op_ok t (snd (snd p)) \<Longrightarrow>
   \<exists>t' m' rs M'. ln_run ps t m = Inr (t', m', rs) \<and> lm_state m' = 0 \<and> lt_params t' = lt_params t \<and> lt_key_mask0 t' = lt_key_mask0 t \<and>
     spec_run t M ps rs M' \<and> ln_rel t' (last (now # map fst ps)) M'"
proof (induction ps arbitrary: t now M m)
  case (Cons p ps)
  obtain n k op where p: "p = (n, k, op)" by (cases p)
  from packet_refines [OF Cons.prems(1) _ Cons.prems(3), of n op k] Cons.prems(2,4) p obtain t1 m1 r M1 where
    a: "ln_packet t m p = Inr (t1, m1, r)" "lm_state m1 = 0" "lt_params t1 = lt_params t" "lt_key_mask0 t1 = lt_key_mask0 t"
      "ln_rel t1 n M1" "spec_packet t M p r M1" by auto
  note c = spec_packet_cong [OF a(3,4)]
  have s: "sorted_wrt (\<le>) (n # map fst ps)" "\<forall>p \<in> set ps. op_ok t1 (snd (snd p))" using Cons.prems(2,4) p c(2) by auto
  from Cons.IH [OF a(5) s(1) a(2) s(2)] obtain t' m' rs M' where
    b: "ln_run ps t1 m1 = Inr (t', m', rs)" "lm_state m' = 0" "lt_params t' = lt_params t1" "lt_key_mask0 t' = lt_key_mask0 t1"
      "spec_run t1 M1 ps rs M'" "ln_rel t' (last (n # map fst ps)) M'" by blast
  have "ln_run (p # ps) t m = Inr (t', m', r # rs)" using a(1) b(1) by (cases r) simp
  moreover have "spec_run t M (p # ps) (r # rs) M'" using a(6) b(5) spec_run_cong [OF c(1)] by auto
  moreover have "last (n # map fst ps) = last (now # map fst (p # ps))" by (simp add: p)
  ultimately show ?case using a(3,4) b(2,3,4,6) by metis
qed auto

section \<open>Creation\<close>

lemma timeout_convert_min: "push_bit 32 1 \<le> timeout_convert hz s"
proof (cases "drop_bit 32 (ucast s * hz) = 0")
  case False
  define x where "x = ucast s * hz"
  have "\<not> x < push_bit 32 1"
  proof
    assume "x < push_bit 32 1"
    then have "unat x < 2 ^ 32" by (simp add: word_less_nat_alt)
    moreover have "unat (drop_bit 32 x) = drop_bit 32 (unat x)" by (rule unat_drop_bit_eq)
    moreover have "drop_bit 32 (unat x) = unat x div 2 ^ 32" by (rule drop_bit_eq_div)
    ultimately have "unat (drop_bit 32 x) = 0" by simp
    then show False using False by (simp add: x_def unat_eq_0)
  qed
  then show ?thesis using False by (simp add: timeout_convert_def Let_def x_def)
qed (simp add: timeout_convert_def Let_def)

lemma create_facts:
  assumes "learner_create hz params = Inr (Some t)"
  shows "lt_buckets t = replicate (unat (lc_n_buckets (lt_params t))) (zeroed_ln_bucket (lt_params t))"
    "0 < lc_n_buckets (lt_params t)" "lc_bucket_mask (lt_params t) = lc_n_buckets (lt_params t) - 1"
    "length (lc_key_timeout (lt_params t)) = unat (lc_n_key_timeouts (lt_params t))"
    "0 < lc_n_key_timeouts (lt_params t)" "lc_n_key_timeouts (lt_params t) \<le> 16"
    "\<forall>x \<in> set (lc_key_timeout (lt_params t)). push_bit 32 1 \<le> x" "unat (ln_ks t) = unat (lc_key_size_pow2 (lt_params t))"
proof -
  obtain c where c: "table_params_get hz params = Inr (Some c)" "lt_params t = c"
    and b: "lt_buckets t = replicate (unat (lc_n_buckets c)) (zeroed_ln_bucket c)"
  proof -
    obtain p where p: "table_params_get hz params = Inr p" using assms by (auto simp: learner_create_def bindR_eq_Inr)
    then show ?thesis
      using assms that by (cases p; cases params) (auto simp: learner_create_def Let_def split: if_splits)
  qed
  from c(1) obtain q where pq: "params = Some q" by (auto simp: table_params_get_def split: option.splits)
  with c(1) obtain ts where ts: "lq_key_timeout q = Some ts" by (auto simp: table_params_get_def split: option.splits if_splits)
  note e = c(1) [unfolded table_params_get_def pq option.case ts]
  have q3: "\<not> (lq_key_size q = 0 \<or> lq_key_size q > 64 \<or> lq_n_keys_max q = 0 \<or> lq_n_keys_max q > push_bit 31 1)"
    using e by (rule contrapos_pn) simp
  note e = e [unfolded if_not_P [OF q3]]
  have q5: "\<not> (lq_n_key_timeouts q = 0 \<or> lq_n_key_timeouts q > RTE_SWX_TABLE_LEARNER_N_KEY_TIMEOUTS_MAX)"
    using e by (rule contrapos_pn) simp
  note e = e [unfolded if_not_P [OF q5]]
  have q7: "\<not> length ts < unat (lq_n_key_timeouts q)" using e by (rule contrapos_pn) simp
  note e = e [unfolded if_not_P [OF q7]]
  have q8: "0 \<notin> set (take (unat (lq_n_key_timeouts q)) ts)" using e by (rule contrapos_pn) simp
  note e = e [unfolded if_not_P [OF q8] Let_def]
  have q: "lq_n_keys_max q \<noteq> 0" "lq_n_keys_max q \<le> push_bit 31 1" "lq_n_key_timeouts q \<noteq> 0" "lq_n_key_timeouts q \<le> 16"
    "unat (lq_n_key_timeouts q) \<le> length ts" "lq_key_size q \<noteq> 0" "lq_key_size q \<le> 64"
    using q3 q5 q7 by (simp_all only: RTE_SWX_TABLE_LEARNER_N_KEY_TIMEOUTS_MAX_def de_Morgan_disj not_less simp_thms)
  define tos where "tos = map (timeout_convert hz) (take (unat (lq_n_key_timeouts q)) ts)"
  have l: "length tos = unat (lq_n_key_timeouts q)" using q(5) by (simp add: tos_def)
  note e = e [folded tos_def]
  have f: "lc_n_buckets c = ucast (rte_align32pow2 (lq_n_keys_max q))" "lc_bucket_mask c = lc_n_buckets c - 1"
    "lc_n_key_timeouts c = rte_align32pow2 (lq_n_key_timeouts q)"
    "lc_key_timeout c = tos @ replicate (unat (rte_align32pow2 (lq_n_key_timeouts q)) - length tos) (hd tos)"
    "lc_key_size_pow2 c = (if rte_align64pow2 (ucast (lq_key_size q)) < 8 then 8 else rte_align64pow2 (ucast (lq_key_size q)))"
    using e by (auto split: if_splits)
  show "lt_buckets t = replicate (unat (lc_n_buckets (lt_params t))) (zeroed_ln_bucket (lt_params t))" using b c(2) by simp
  show "lc_bucket_mask (lt_params t) = lc_n_buckets (lt_params t) - 1" using f(2) c(2) by simp
  have n: "0 < unat (lq_n_keys_max q)" "unat (lq_n_keys_max q) \<le> 2 ^ 31" using q(1,2) by (simp_all add: unat_gt_0 word_le_nat_alt)
  show "0 < lc_n_buckets (lt_params t)"
    using f(1) c(2) align32pow2_nonzero [OF n] by (simp add: word_less_nat_alt unat_ucast_u32 unat_gt_0)
  define m where "m = lq_n_key_timeouts q"
  have m: "0 < unat m" "unat m \<le> 2 ^ 31" "unat m \<le> 16" using q(3,4) by (simp_all add: unat_gt_0 word_le_nat_alt m_def)
  from align32pow2_round_up [OF m(1,2)] obtain e where pe: "unat (rte_align32pow2 m) = 2 ^ e" "unat m \<le> 2 ^ e" "2 ^ e < 2 * unat m" by metis
  have e16: "unat (rte_align32pow2 m) \<le> 16"
  proof (rule ccontr)
    assume "\<not> ?thesis"
    then have "(2 :: nat) ^ 4 < 2 ^ e" "(2 :: nat) ^ e < 2 ^ 5" using pe m(3) by simp_all
    then have "4 < e" "e < 5" by (meson power_less_imp_less_exp one_less_numeral_iff semiring_norm(76))+
    then show False by simp
  qed
  show "length (lc_key_timeout (lt_params t)) = unat (lc_n_key_timeouts (lt_params t))"
    using f(3,4) c(2) l pe(1,2) by (simp add: m_def)
  show "0 < lc_n_key_timeouts (lt_params t)" "lc_n_key_timeouts (lt_params t) \<le> 16"
    using pe(1) e16 f(3) c(2) by (simp_all add: word_less_nat_alt word_le_nat_alt m_def)
  have "tos \<noteq> []" using m(1) l by (auto simp: m_def)
  then have "hd tos \<in> set tos" by simp
  moreover have "push_bit 32 1 \<le> x" if "x \<in> set tos" for x using that timeout_convert_min by (auto simp: tos_def)
  ultimately show "\<forall>x \<in> set (lc_key_timeout (lt_params t)). push_bit 32 1 \<le> x" using f(4) c(2) by auto
  define z where "z = lq_key_size q"
  have z: "0 < unat z" "unat z \<le> 2 ^ 31" "unat z \<le> 64" using q(6,7) by (simp_all add: unat_gt_0 word_le_nat_alt z_def)
  from align32pow2_round_up [OF z(1,2)] have "unat (rte_align32pow2 z) < 2 * unat z" by metis
  then have "unat (lc_key_size_pow2 c) < 2 ^ 32"
    using f(5) align64_ucast [OF z(1,2)] z(3) unfolding z_def [symmetric] by (auto simp: unat_ucast_u32)
  then show "unat (ln_ks t) = unat (lc_key_size_pow2 (lt_params t))" using c(2) by (simp add: unsigned_ucast_eq take_bit_nat_eq_self)
qed

lemma create_rel:
  assumes "learner_create hz params = Inr (Some t)"
  shows "ln_rel t now (\<lambda>_. None)" "ln_bkt t k = zeroed_ln_bucket (lt_params t)" "ln_pos t now k = None"
proof -
  note F = create_facts [OF assms]
  have "bucket_ok t (zeroed_ln_bucket (lt_params t))"
    using F(5,8) by (simp add: bucket_ok_def zeroed_ln_bucket_def word_less_nat_alt)
  then have wf: "ln_wf t" using F by (simp add: ln_wf_def Let_def)
  have b: "ln_bkt t k = zeroed_ln_bucket (lt_params t)" for k
    using bucket_id_less [OF wf, of k] F(1) by (simp add: ln_bkt_def)
  have hit: "\<not> ln_hit t (ln_bkt t k) n (ln_sig t k) k i" if "i < 4" for n k i
    using hit_iff [OF bkt_ok [OF wf] that] that by (simp add: b zeroed_ln_bucket_def alive_def slot_def)
  then show "ln_pos t now k = None" by (simp add: pos_None)
  have "ln_entry t n k = None" for n k using hit by (simp add: ln_entry_def pos_None)
  then show "ln_rel t now (\<lambda>_. None)" using wf hit by (auto simp: ln_rel_def ln_unique_def view_def)
  show "ln_bkt t k = zeroed_ln_bucket (lt_params t)" by (rule b)
qed

end
