(* ===== verification/TableLearnerProps.thy ===== *)
theory TableLearnerProps
  imports TableLearnerMap
begin

text \<open>
  Properties of the learner table: packets one after another refine a map of entries that expire, a learned key is found until its
  time of expiry and no longer, a key is refused only when the four positions of its bucket are in use, and lookups of one key that
  are under way at the same time install it twice.
\<close>

section \<open>The specification\<close>

lemma spec_run_append:
  "spec_run t M (ps @ qs) rs M' \<longleftrightarrow> (\<exists>rs1 rs2 M1. rs = rs1 @ rs2 \<and> length rs1 = length ps \<and> spec_run t M ps rs1 M1 \<and> spec_run t M1 qs rs2 M')"
proof (induction ps arbitrary: M rs)
  case (Cons p ps)
  show ?case
  proof
    assume "spec_run t M ((p # ps) @ qs) rs M'"
    then obtain r rs' M1 where r: "rs = r # rs'" "spec_packet t M p r M1" "spec_run t M1 (ps @ qs) rs' M'" by auto
    from r(3) [unfolded Cons.IH] obtain rs1 rs2 M2 where "rs' = rs1 @ rs2" "length rs1 = length ps" "spec_run t M1 ps rs1 M2" "spec_run t M2 qs rs2 M'"
      by blast
    then show "\<exists>rs1 rs2 M1. rs = rs1 @ rs2 \<and> length rs1 = length (p # ps) \<and> spec_run t M (p # ps) rs1 M1 \<and> spec_run t M1 qs rs2 M'"
      using r(1,2) by (intro exI [of _ "r # rs1"] exI [of _ rs2] exI [of _ M2]) auto
  next
    assume "\<exists>rs1 rs2 M1. rs = rs1 @ rs2 \<and> length rs1 = length (p # ps) \<and> spec_run t M (p # ps) rs1 M1 \<and> spec_run t M1 qs rs2 M'"
    then obtain r rs1 rs2 M1 M2 where "rs = (r # rs1) @ rs2" "length rs1 = length ps" "spec_packet t M p r M1" "spec_run t M1 ps rs1 M2"
      "spec_run t M2 qs rs2 M'" by auto
    then show "spec_run t M ((p # ps) @ qs) rs M'" using Cons.IH by auto
  qed
qed auto

lemma spec_packet_other: "spec_packet t M p r M' \<Longrightarrow> mk t (fst (snd p)) \<noteq> x \<Longrightarrow> M' x = M x"
  by (cases p) (auto simp: spec_packet_def Let_def split: ln_op.splits if_splits option.splits)

lemma spec_run_other: "spec_run t M ps rs M' \<Longrightarrow> \<forall>p \<in> set ps. mk t (fst (snd p)) \<noteq> x \<Longrightarrow> M' x = M x"
proof (induction ps arbitrary: M rs)
  case (Cons p ps)
  then obtain r rs' M1 where "spec_packet t M p r M1" "spec_run t M1 ps rs' M'" by auto
  then show ?case using Cons.IH [of M1 rs'] Cons.prems(2) spec_packet_other [of t M p r M1 x] by simp
qed simp

lemma spec_packet_sees: "spec_packet t M (now, k, op) r M' \<Longrightarrow> fst r = map_option (snd \<circ> snd) (view M now (mk t k))"
  by (simp add: spec_packet_def Let_def)

section \<open>A key at two positions\<close>

lemma wf_put:
  assumes "ln_wf t" "bucket_ok t b"
  shows "ln_wf (ln_put t i b)"
proof -
  have "bucket_ok (ln_put t i b) = bucket_ok t" by (simp add: bucket_ok_def ln_put_def fun_eq_iff)
  then show ?thesis using assms set_update_subset_insert [of "lt_buckets t" i b] by (auto simp: ln_wf_def Let_def ln_put_def)
qed

lemma put_same [simp]:
  "mk (ln_put t i b) = mk t" "ln_sig (ln_put t i b) = ln_sig t" "ln_bucket_id (ln_put t i b) = ln_bucket_id t"
  "tid_of (ln_put t i b) = tid_of t" "timeout_of (ln_put t i b) = timeout_of t" "bucket_ok (ln_put t i b) = bucket_ok t"
  by (simp_all add: fun_eq_iff mk_def ln_sig_def ln_bucket_id_def ln_hash_def tid_of_def timeout_of_def bucket_ok_def ln_put_def)

lemma bkt_put: "ln_wf t \<Longrightarrow> ln_bkt (ln_put t (ln_bucket_id t k) b) k = b"
  using bucket_id_less [of t k] put_same(3) [of t] by (simp add: ln_bkt_def ln_put_def)

lemma add_at:
  assumes "ln_wf t" "lm_bucket m = Some (ln_bucket_id t k)" "lm_input_sig m = ln_sig t k" "\<not> lm_hit m"
    and "find (\<lambda>i. push_bit 32 (ucast (lb_time (ln_bkt t k) ! i)) < now) [0..<4] = Some i"
  defines "b \<equiv> ln_bkt t k"
  shows "learner_add t m now k a None tid = Inr (ln_put t (ln_bucket_id t k)
      (b\<lparr>lb_time := (lb_time b)[i := ln_expiry now (timeout_of t (ucast (tid_of t tid)))], lb_sig := (lb_sig b)[i := ln_sig t k],
         lb_key_timeout_id := (lb_key_timeout_id b)[i := ucast (tid_of t tid)], lb_key := (lb_key b)[i := mk t k],
         lb_data := (lb_data b)[i := (a, snd (lb_data b ! i))]\<rparr>), m\<lparr>lm_hit := True, lm_bucket_key_pos := i\<rparr>, True)"
proof -
  have "ln_get t m = Inr (ln_bucket_id t k, b)" using assms(1,2) bucket_id_less [of t k] by (simp add: ln_get_def aget_def ln_bkt_def b_def)
  then show ?thesis
    using assms(3-5) tid_facts(3) [OF assms(1), of tid]
    by (simp add: learner_add_def Let_def tid_of_def [symmetric] TABLE_KEYS_PER_BUCKET_def ln_data_def mk_def b_def)
qed

text \<open>Two lookups of one key, each by its mailbox, before either adds the key.\<close>

definition learn_twice ::
  "ln_table \<Rightarrow> ln_mailbox \<Rightarrow> ln_mailbox \<Rightarrow> u64 \<Rightarrow> key \<Rightarrow> u64 \<Rightarrow> u64 \<Rightarrow> u32 \<Rightarrow>
    ln_fault + ln_table \<times> (u64 \<times> bytes) option option \<times> (u64 \<times> bytes) option option \<times> bool \<times> bool"
where
  "learn_twice t m n now k a a' tid =
     bindR (learner_lookup t m now k) (\<lambda>(m, _). bindR (learner_lookup t n now k) (\<lambda>(n, _).
     bindR (learner_lookup t m now k) (\<lambda>(m, r). bindR (learner_lookup t n now k) (\<lambda>(n, r').
     bindR (learner_add t m now k a None tid) (\<lambda>(t, m, ok). bindR (learner_add t n now k a' None tid) (\<lambda>(t, n, ok').
       Inr (t, r, r', ok, ok')))))))"


lemma two_positions:
  assumes wf: "ln_wf t" and ok: "bucket_ok t b" and b: "ln_bkt t k = b"
    and i: "i < 4" "\<And>j. j < i \<Longrightarrow> \<not> alive now (slot b j)" "alive now (slot b i)" "lb_sig b ! i = ln_sig t k" "lb_key b ! i = mk t k"
  shows "ln_pos t now k = Some i"
proof -
  have "ln_hit t b now (ln_sig t k) k i" using hit_iff [OF ok i(1)] i(3-5) by simp
  moreover have "\<not> ln_hit t b now (ln_sig t k) k j" if "j < i" for j using hit_iff [OF ok, of j] i(1,2) that by simp
  ultimately show ?thesis
    using i(1) unfolding ln_pos_def find_Some_iff TABLE_KEYS_PER_BUCKET_def b by (intro exI [of _ i]) auto
qed

lemma installs_twice:
  assumes create: "learner_create hz params = Inr (Some t)" and st: "lm_state m = 0" "lm_state n = 0" "lm_state p = 0"
    and now: "0 < now" "now < push_bit 32 (ucast (ln_expiry now (timeout_of t (ucast (tid_of t tid)))))"
  shows "\<exists>t' t'' p' d d'. learn_twice t m n now k a a' tid = Inr (t', Some None, Some None, True, True) \<and> fst d = a \<and> fst d' = a' \<and>
    ln_run [(now, k, Forget), (now, k, Nothing)] t' p = Inr (t'', p', [(Some d, True), (Some d', True)])"
proof -
  define e where "e = ln_expiry now (timeout_of t (ucast (tid_of t tid)))"
  define c where "c = lt_params t"
  define bid where "bid = ln_bucket_id t k"
  define i8 where "i8 = (ucast (tid_of t tid) :: u8)"
  define z where "z = replicate (unat (lc_key_size_pow2 c) div 8) (0 :: u64)"
  define w where "w = ((0, replicate (unat (lc_data_size_pow2 c) - 8) 0) :: u64 \<times> bytes)"
  note R = create_rel [OF create]
  have wf: "ln_wf t" using R(1) by (simp add: ln_rel_def)
  define b0 where "b0 = \<lparr>lb_time = [0, 0, 0, 0], lb_sig = [0, 0, 0, 0], lb_key_timeout_id = [0, 0, 0, 0], lb_key = [z, z, z, z], lb_data = [w, w, w, w]\<rparr>"
  define b1 where "b1 = \<lparr>lb_time = [e, 0, 0, 0], lb_sig = [ln_sig t k, 0, 0, 0], lb_key_timeout_id = [i8, 0, 0, 0], lb_key = [mk t k, z, z, z],
    lb_data = [(a, snd w), w, w, w]\<rparr>"
  define b2 where "b2 = \<lparr>lb_time = [e, e, 0, 0], lb_sig = [ln_sig t k, ln_sig t k, 0, 0], lb_key_timeout_id = [i8, i8, 0, 0],
    lb_key = [mk t k, mk t k, z, z], lb_data = [(a, snd w), (a', snd w), w, w]\<rparr>"
  define b3 where "b3 = b2\<lparr>lb_time := [0, e, 0, 0]\<rparr>"
  have r4: "replicate 4 x = [x, x, x, x]" for x :: 'x by (simp add: eval_nat_numeral)
  have bk: "ln_bkt t k = b0" using R(2) [of k] by (simp add: zeroed_ln_bucket_def b0_def z_def w_def c_def r4)
  have ok0: "bucket_ok t b0" using bkt_ok [OF wf, of k] by (simp add: bk)
  have lm: "length (mk t k) = unat (ln_ks t) div 8" by (simp add: mk_def keycpy_def)
  have lt: "unat i8 < unat (lc_n_key_timeouts c)" using tid_facts(1,2) [OF wf, of tid] by (simp add: i8_def c_def)
  have all4: "(\<forall>i < 4. P i) \<longleftrightarrow> P 0 \<and> P 1 \<and> P 2 \<and> P (3 :: nat)" for P by (auto simp: eval_nat_numeral less_Suc_eq)
  have ok: "bucket_ok t b1" "bucket_ok t b2" "bucket_ok t b3"
    using ok0 lm lt unfolding bucket_ok_def all4 by (simp_all add: b0_def b1_def b2_def b3_def c_def)
  define t1 where "t1 = ln_put t bid b1"
  define t2 where "t2 = ln_put t1 bid b2"
  define t3 where "t3 = ln_put t2 bid b3"
  have wf123: "ln_wf t1" "ln_wf t2" "ln_wf t3" using wf ok by (simp_all add: t1_def t2_def t3_def wf_put)
  have bks: "ln_bkt t1 k = b1" "ln_bkt t2 k = b2" "ln_bkt t3 k = b3"
    using bkt_put [OF wf, of k b1] bkt_put [OF wf123(1), of k b2] bkt_put [OF wf123(2), of k b3]
    by (simp_all add: t1_def t2_def t3_def bid_def)
  have up: "[0..<4] = [0, 1, 2, 3 :: nat]" by code_simp
  have none: "ln_pos t now k = None" using R(3) .
  from lookup_steps [OF wf st(1), of now k] obtain m1 m2 where lm: "learner_lookup t m now k = Inr (m1, None)"
    "learner_lookup t m1 now k = Inr (m2, Some None)" "ln_after t now k m2" by (auto simp: ln_entry_def none)
  from lookup_steps [OF wf st(2), of now k] obtain n1 n2 where ln: "learner_lookup t n now k = Inr (n1, None)"
    "learner_lookup t n1 now k = Inr (n2, Some None)" "ln_after t now k n2" by (auto simp: ln_entry_def none)
  have a1: "learner_add t m2 now k a None tid = Inr (t1, m2\<lparr>lm_hit := True, lm_bucket_key_pos := 0\<rparr>, True)"
    using lm(3) none now(1) add_at [OF wf, of m2 k now 0 a tid]
    by (simp add: ln_after_def bk up b0_def t1_def b1_def bid_def e_def i8_def)
  have e: "\<not> push_bit 32 (ucast e) < now" using now(2) by (simp add: e_def)
  have a2: "learner_add t1 n2 now k a' None tid = Inr (t2, n2\<lparr>lm_hit := True, lm_bucket_key_pos := 1\<rparr>, True)"
    using ln(3) none now(1) e add_at [OF wf123(1), of n2 k now 1 a' tid]
    by (simp add: ln_after_def bks up b1_def t2_def b2_def bid_def e_def [symmetric] i8_def [symmetric]) (simp add: t1_def e_def i8_def)
  have tw: "learn_twice t m n now k a a' tid = Inr (t2, Some None, Some None, True, True)"
    using lm ln a1 a2 by (simp add: learn_twice_def)
  have al: "alive now (slot b2 0)" "alive now (slot b3 1)" "\<not> alive now (slot b3 0)"
    using now(2) by (simp_all add: alive_def slot_def b2_def b3_def e_def)
  have p2: "ln_pos t2 now k = Some 0"
    using al(1) by (intro two_positions [OF wf123(2) _ bks(2)]) (use ok in \<open>simp_all add: t1_def t2_def b2_def\<close>)
  have p3: "ln_pos t3 now k = Some 1"
    using al(2,3) by (intro two_positions [OF wf123(3) _ bks(3)]) (use ok in \<open>simp_all add: t1_def t2_def t3_def b2_def b3_def\<close>)
  from lookup_steps [OF wf123(2) st(3), of now k] obtain q1 q2 where q: "learner_lookup t2 p now k = Inr (q1, None)"
    "learner_lookup t2 q1 now k = Inr (q2, Some (Some (a, snd w)))" "ln_after t2 now k q2" by (auto simp: ln_entry_def p2 bks slot_def b2_def)
  have del: "learner_delete t2 q2 = Inr (t3, q2\<lparr>lm_hit := False\<rparr>)"
    using q(3) p2 get_after [OF wf123(2) q(3)] by (simp add: learner_delete_def ln_after_def bks t3_def b3_def b2_def bid_def) (simp add: t2_def t1_def)
  have "lm_state (q2\<lparr>lm_hit := False\<rparr>) = 0" using q(3) by (simp add: ln_after_def)
  from lookup_steps [OF wf123(3) this, of now k] obtain r1 r2 where r: "learner_lookup t3 (q2\<lparr>lm_hit := False\<rparr>) now k = Inr (r1, None)"
    "learner_lookup t3 r1 now k = Inr (r2, Some (Some (a', snd w)))" by (auto simp: ln_entry_def p3 bks slot_def b2_def b3_def)
  have "ln_run [(now, k, Forget), (now, k, Nothing)] t2 p = Inr (t3, r2, [(Some (a, snd w), True), (Some (a', snd w), True)])"
    using q(1,2) del r by (simp add: ln_packet_def ln_do_def)
  then show ?thesis
    using tw by (intro exI [of _ t2] exI [of _ t3] exI [of _ r2] exI [of _ "(a, snd w)"] exI [of _ "(a', snd w)"]) simp
qed


section \<open>An example\<close>

text \<open>One bucket, keys of eight bytes without data, one timeout of a second at 2 ^ 33 cycles a second.\<close>

definition ln_example :: ln_params where
  "ln_example = \<lparr>lq_key_size = 8, lq_key_offset = 0, lq_key_mask0 = None, lq_action_data_size = 0, lq_n_keys_max = 1,
     lq_key_timeout = Some [1], lq_n_key_timeouts = 1\<rparr>"

definition ln_example_table :: ln_table where
  "ln_example_table = \<lparr>lt_params = \<lparr>lc_key_size = 8, lc_key_size_pow2 = 8, lc_key_size_log2 = 3, lc_key_offset = 0,
       lc_action_data_size = 0, lc_data_size_pow2 = 8, lc_data_size_log2 = 3, lc_n_buckets = 1, lc_bucket_mask = 0,
       lc_bucket_key_all_size = 32, lc_bucket_size = 128, lc_bucket_size_log2 = 7, lc_key_timeout = [0x200000000],
       lc_n_key_timeouts = 1, lc_total_size = 448\<rparr>,
     lt_key_mask0 = [0xFFFFFFFFFFFFFFFF, 0, 0, 0, 0, 0, 0, 0],
     lt_buckets = [\<lparr>lb_time = [0, 0, 0, 0], lb_sig = [0, 0, 0, 0], lb_key_timeout_id = [0, 0, 0, 0],
       lb_key = [[0], [0], [0], [0]], lb_data = [(0, []), (0, []), (0, []), (0, [])]\<rparr>]\<rparr>"

definition ln_new :: ln_mailbox where
  "ln_new = \<lparr>lm_bucket = None, lm_input_sig = 0, lm_hit = False, lm_bucket_key_pos = 0, lm_state = 0\<rparr>"

lemma example_create: "learner_create (push_bit 33 1) (Some ln_example) = Inr (Some ln_example_table)"
  by code_simp

lemma example_state: "lm_state ln_new = 0"
  by (simp add: ln_new_def)

lemma learn_packet:
  assumes wf: "ln_wf t" and st: "lm_state m = 0" and key: "\<forall>i < 4. lb_key (ln_bkt t k) ! i \<noteq> mk t k"
    and free: "find (\<lambda>i. push_bit 32 (ucast (lb_time (ln_bkt t k) ! i)) < now) [0..<4] = r"
  defines "b \<equiv> ln_bkt t k"
  shows "\<exists>m'. lm_state m' = 0 \<and> ln_packet t m (now, k, Learn a None tid) =
     (case r of None \<Rightarrow> Inr (t, m', None, False)
      | Some i \<Rightarrow> Inr (ln_put t (ln_bucket_id t k)
          (b\<lparr>lb_time := (lb_time b)[i := ln_expiry now (timeout_of t (ucast (tid_of t tid)))], lb_sig := (lb_sig b)[i := ln_sig t k],
             lb_key_timeout_id := (lb_key_timeout_id b)[i := ucast (tid_of t tid)], lb_key := (lb_key b)[i := mk t k],
             lb_data := (lb_data b)[i := (a, snd (lb_data b ! i))]\<rparr>), m', None, True))"
proof -
  have none: "ln_pos t now k = None" using key hit_iff [OF bkt_ok [OF wf]] by (simp add: pos_None)
  from lookup_steps [OF wf st, of now k] obtain m1 m2 where l: "learner_lookup t m now k = Inr (m1, None)"
    "learner_lookup t m1 now k = Inr (m2, Some None)" "ln_after t now k m2" by (auto simp: ln_entry_def none)
  have m2: "lm_bucket m2 = Some (ln_bucket_id t k)" "lm_input_sig m2 = ln_sig t k" "\<not> lm_hit m2" "lm_state m2 = 0"
    using l(3) none by (simp_all add: ln_after_def)
  show ?thesis
  proof (cases r)
    case None
    then have "learner_add t m2 now k a None tid = Inr (t, m2, False)"
      using m2 free get_after [OF wf l(3)] tid_facts(3) [OF wf, of tid]
      by (simp add: learner_add_def Let_def tid_of_def [symmetric] TABLE_KEYS_PER_BUCKET_def)
    then show ?thesis using None l(1,2) m2(4) by (intro exI [of _ m2]) (simp add: ln_packet_def ln_do_def)
  next
    case (Some i)
    then show ?thesis
      using l(1,2) m2(4) add_at [OF wf m2(1-3) free [unfolded Some], of a tid]
      by (intro exI [of _ "m2\<lparr>lm_hit := True, lm_bucket_key_pos := i\<rparr>"]) (simp add: ln_packet_def ln_do_def b_def)
  qed
qed

text \<open>The example with another bucket.\<close>

definition with_bucket :: "ln_bucket \<Rightarrow> ln_table" where "with_bucket b = ln_put ln_example_table 0 b"

lemma with_bucket:
  "ln_bkt (with_bucket b) k = b" "mk (with_bucket b) k = [k ! 0]" "ln_put (with_bucket b) i b' = (if i = 0 then with_bucket b' else with_bucket b)"
  "ln_bucket_id (with_bucket b) k = 0" "tid_of (with_bucket b) j = 0" "timeout_of (with_bucket b) 0 = 0x200000000"
  "ln_expiry 1 0x200000000 = 2" "ln_sig (with_bucket b) = ln_sig ln_example_table"
proof -
  have id: "ln_bucket_id ln_example_table k = 0" for k by (simp add: ln_bucket_id_def ln_example_table_def)
  show "ln_bucket_id (with_bucket b) k = 0" by (simp add: with_bucket_def id)
  then show "ln_bkt (with_bucket b) k = b" by (simp add: ln_bkt_def) (simp add: with_bucket_def ln_put_def ln_example_table_def)
  have m1: "x AND 0xFFFFFFFFFFFFFFFF = x" for x :: u64
  proof -
    have "(0xFFFFFFFFFFFFFFFF :: u64) = - 1" by code_simp
    then show ?thesis by (simp only: and.right_neutral)
  qed
  show "mk (with_bucket b) k = [k ! 0]" by (simp add: with_bucket_def) (simp add: mk_def keycpy_def ln_example_table_def m1)
  show "ln_put (with_bucket b) i b' = (if i = 0 then with_bucket b' else with_bucket b)"
    by (cases i) (simp_all add: with_bucket_def ln_put_def ln_example_table_def)
  show "tid_of (with_bucket b) j = 0" by (simp add: with_bucket_def) (simp add: tid_of_def ln_example_table_def)
  show "timeout_of (with_bucket b) 0 = 0x200000000" by (simp add: with_bucket_def) (simp add: timeout_of_def ln_example_table_def)
  show "ln_expiry 1 0x200000000 = 2" by code_simp
  show "ln_sig (with_bucket b) = ln_sig ln_example_table" by (simp add: with_bucket_def)
qed

definition four_keys :: "u32 list \<Rightarrow> key list \<Rightarrow> u32 list \<Rightarrow> u64 list \<Rightarrow> ln_table" where
  "four_keys ts ks ss ds = with_bucket \<lparr>lb_time = ts, lb_sig = ss, lb_key_timeout_id = [0, 0, 0, 0], lb_key = ks, lb_data = map (\<lambda>a. (a, [])) ds\<rparr>"

lemma example_wf: "ln_wf ln_example_table"
  using create_rel(1) [OF example_create] by (simp add: ln_rel_def)

lemma four_keys_learn:
  assumes "length ts = 4" "length ks = 4" "length ss = 4" "length ds = 4" "\<forall>x \<in> set ks. length x = 1" "[x] \<notin> set ks" "lm_state m = 0"
    and "find (\<lambda>i. push_bit 32 (ucast (ts ! i)) < (1 :: u64)) [0..<4] = Some i"
  shows "\<exists>m'. lm_state m' = 0 \<and> ln_packet (four_keys ts ks ss ds) m (1, [x], Learn a None 0) =
    Inr (four_keys (ts[i := 2]) (ks[i := [x]]) (ss[i := ln_sig ln_example_table [x]]) (ds[i := a]), m', None, True)"
proof -
  have i: "i < 4" using assms(8) by (auto simp: find_Some_iff)
  have r4: "[0, 0, 0, 0] = replicate 4 (0 :: u8)" by (simp add: eval_nat_numeral)
  have ok: "bucket_ok ln_example_table \<lparr>lb_time = ts, lb_sig = ss, lb_key_timeout_id = [0, 0, 0, 0], lb_key = ks, lb_data = map (\<lambda>a. (a, [])) ds\<rparr>"
    using assms(1-5) unfolding r4 by (simp add: bucket_ok_def) (simp add: ln_example_table_def)
  have wf: "ln_wf (four_keys ts ks ss ds)" unfolding four_keys_def with_bucket_def by (rule wf_put [OF example_wf ok])
  have "\<forall>j < 4. ks ! j \<noteq> [x]" using assms(2,6) nth_mem by metis
  moreover have "([0, 0, 0, 0] :: u8 list)[i := 0] = [0, 0, 0, 0]" using i by (auto simp: less_Suc_eq eval_nat_numeral)
  ultimately show ?thesis
    using learn_packet [OF wf assms(7), of "[x]" 1 "Some i" a 0] assms(4,8) i
    by (simp add: four_keys_def with_bucket map_update)
qed

lemma example_four: "four_keys [0, 0, 0, 0] [[0], [0], [0], [0]] [0, 0, 0, 0] [0, 0, 0, 0] = ln_example_table"
  by (simp add: four_keys_def with_bucket_def ln_put_def ln_example_table_def)

lemma find4: "find P [0..<4] = (if P 0 then Some 0 else if P 1 then Some 1 else if P 2 then Some 2 else if P (3 :: nat) then Some 3 else None)"
proof -
  have "[0..<4] = [0, 1, 2, 3 :: nat]" by code_simp
  then show ?thesis by simp
qed

lemma update4: "[a, b, c, d][2 := x] = [a, b, x, d]" "[a, b, c, d][3 := x] = [a, b, c, x]"
  by (simp_all add: eval_nat_numeral)

text \<open>Four keys learned at time 1.\<close>

lemma example_full:
  "\<exists>t m ss ds rs. ln_run [(1, [1], Learn 5 None 0), (1, [2], Learn 5 None 0), (1, [3], Learn 5 None 0), (1, [4], Learn 5 None 0)]
     ln_example_table ln_new = Inr (t, m, rs) \<and> lm_state m = 0 \<and> t = four_keys [2, 2, 2, 2] [[1], [2], [3], [4]] ss ds \<and> length ss = 4 \<and> length ds = 4"
proof -
  let ?s = "\<lambda>x. ln_sig ln_example_table [x]"
  from four_keys_learn [of "[0, 0, 0, 0]" "[[0], [0], [0], [0]]" "[0, 0, 0, 0]" "[0, 0, 0, 0]" 1 ln_new 0 5, unfolded example_four]
  obtain m1 where 1: "lm_state m1 = 0" "ln_packet ln_example_table ln_new (1, [1], Learn 5 None 0) =
    Inr (four_keys [2, 0, 0, 0] [[1], [0], [0], [0]] [?s 1, 0, 0, 0] [5, 0, 0, 0], m1, None, True)" by (auto simp: find4 example_state)
  from four_keys_learn [of "[2, 0, 0, 0]" "[[1], [0], [0], [0]]" "[?s 1, 0, 0, 0]" "[5, 0, 0, 0]" 2 m1 1 5] 1(1)
  obtain m2 where 2: "lm_state m2 = 0" "ln_packet (four_keys [2, 0, 0, 0] [[1], [0], [0], [0]] [?s 1, 0, 0, 0] [5, 0, 0, 0]) m1 (1, [2], Learn 5 None 0) =
    Inr (four_keys [2, 2, 0, 0] [[1], [2], [0], [0]] [?s 1, ?s 2, 0, 0] [5, 5, 0, 0], m2, None, True)" by (auto simp: find4)
  from four_keys_learn [of "[2, 2, 0, 0]" "[[1], [2], [0], [0]]" "[?s 1, ?s 2, 0, 0]" "[5, 5, 0, 0]" 3 m2 2 5] 2(1)
  obtain m3 where 3: "lm_state m3 = 0" "ln_packet (four_keys [2, 2, 0, 0] [[1], [2], [0], [0]] [?s 1, ?s 2, 0, 0] [5, 5, 0, 0]) m2 (1, [3], Learn 5 None 0) =
    Inr (four_keys [2, 2, 2, 0] [[1], [2], [3], [0]] [?s 1, ?s 2, ?s 3, 0] [5, 5, 5, 0], m3, None, True)" by (auto simp: find4 update4)
  from four_keys_learn [of "[2, 2, 2, 0]" "[[1], [2], [3], [0]]" "[?s 1, ?s 2, ?s 3, 0]" "[5, 5, 5, 0]" 4 m3 3 5] 3(1)
  obtain m4 where "lm_state m4 = 0" "ln_packet (four_keys [2, 2, 2, 0] [[1], [2], [3], [0]] [?s 1, ?s 2, ?s 3, 0] [5, 5, 5, 0]) m3 (1, [4], Learn 5 None 0) =
    Inr (four_keys [2, 2, 2, 2] [[1], [2], [3], [4]] [?s 1, ?s 2, ?s 3, ?s 4] [5, 5, 5, 5], m4, None, True)" by (auto simp: find4 update4)
  then show ?thesis
    using 1(2) 2(2) 3(2) by simp (intro exI [of _ "[?s 1, ?s 2, ?s 3, ?s 4]"] exI [of _ "[5, 5, 5, 5]"], simp)
qed

lemma example_refused:
  assumes "lm_state m = 0" "t = four_keys [2, 2, 2, 2] [[1], [2], [3], [4]] ss ds" "length ss = 4" "length ds = 4"
  shows "\<exists>m'. ln_packet t m (2, [5], Learn 5 None 0) = Inr (t, m', None, False)"
proof -
  have all4: "(\<forall>i < 4. P i) \<longleftrightarrow> P 0 \<and> P 1 \<and> P 2 \<and> P (3 :: nat)" for P by (auto simp: eval_nat_numeral less_Suc_eq)
  have "bucket_ok ln_example_table \<lparr>lb_time = [2, 2, 2, 2], lb_sig = ss, lb_key_timeout_id = [0, 0, 0, 0], lb_key = [[1], [2], [3], [4]],
      lb_data = map (\<lambda>a. (a, [])) ds\<rparr>"
    using assms(3,4) unfolding bucket_ok_def all4 by (simp add: ln_example_table_def)
  then have "ln_wf t" unfolding assms(2) four_keys_def with_bucket_def by (rule wf_put [OF example_wf])
  moreover have "\<forall>i < 4. lb_key (ln_bkt t [5]) ! i \<noteq> mk t [5]" unfolding all4 by (simp add: assms(2) four_keys_def with_bucket)
  moreover have "find (\<lambda>i. push_bit 32 (ucast (lb_time (ln_bkt t [5]) ! i)) < (2 :: u64)) [0..<4] = None"
    by (simp add: find4 assms(2) four_keys_def with_bucket)
  ultimately show ?thesis using learn_packet [OF _ assms(1), of t "[5]" 2 None 5 0] by auto
qed

section \<open>The properties\<close>

text \<open>C16: On a table just created, any sequence of packets (each a lookup, in its two steps, followed by an addition, a rearm, a
deletion or nothing) at times that do not decrease runs without a fault, and it refines the map of entries that expire: every lookup
gives the live entry of its masked key, an addition sets that entry or is refused when there is none, a rearm moves its time of
expiry, a deletion removes it, and no other key changes. At the end the table holds the map for all later lookups.\<close>

theorem learner_refines_timed_map:
  assumes "learner_create hz params = Inr (Some t)" "sorted_wrt (\<le>) (map fst ps)" "lm_state m = 0" "\<forall>p \<in> set ps. op_ok t (snd (snd p))"
  shows "\<exists>t' m' rs M'. ln_run ps t m = Inr (t', m', rs) \<and> spec_run t (\<lambda>_. None) ps rs M' \<and> ln_rel t' (last (0 # map fst ps)) M'"
proof -
  have "sorted_wrt (\<le>) (0 # map fst ps)" using assms(2) by simp
  from run_refines [OF create_rel(1) [OF assms(1)] this assms(3,4)] show ?thesis by blast
qed

theorem learner_refines_timed_map_witness:
  "\<exists>t' m' rs M'. ln_run [(1, [7], Learn 5 None 0), (2, [7], Rearm), (3, [8], Forget)] ln_example_table ln_new = Inr (t', m', rs) \<and>
     spec_run ln_example_table (\<lambda>_. None) [(1, [7], Learn 5 None 0), (2, [7], Rearm), (3, [8], Forget)] rs M'"
proof -
  let ?ps = "[(1 :: u64, [7], Learn 5 None 0), (2, [7], Rearm), (3, [8], Forget)]"
  have "sorted_wrt (\<le>) (map fst ?ps)" "\<forall>p \<in> set ?ps. op_ok ln_example_table (snd (snd p))" by (simp_all add: op_ok_def args_ok_def)
  from learner_refines_timed_map [OF example_create this(1) example_state this(2)] show ?thesis by blast
qed

text \<open>C17: A key that was added is found, with its action and its arguments, by every later lookup before the time of expiry and by
none from then on, whatever packets with other keys come between.\<close>

theorem learned_key_lives_until_expiry:
  assumes "learner_create hz params = Inr (Some t)" "lm_state m = 0"
    and "sorted_wrt (\<le>) (map fst (before @ (now, k, Learn a ad tid) # between @ [(now', k', op)]))"
    and "\<forall>p \<in> set (before @ (now, k, Learn a ad tid) # between @ [(now', k', op)]). op_ok t (snd (snd p))"
    and "\<forall>p \<in> set between. mk t (fst (snd p)) \<noteq> mk t k" "mk t k' = mk t k"
    and "ln_run (before @ (now, k, Learn a ad tid) # between @ [(now', k', op)]) t m = Inr (t', m', rs)" "snd (rs ! length before)"
  shows "\<exists>d. data_ok t a ad d \<and>
    fst (last rs) = (if now' < push_bit 32 (ucast (ln_expiry now (timeout_of t (ucast (tid_of t tid))))) then Some d else None)"
proof -
  have "sorted_wrt (\<le>) (0 # map fst (before @ (now, k, Learn a ad tid) # between @ [(now', k', op)]))" using assms(3) by simp
  from run_refines [OF create_rel(1) [OF assms(1)] this assms(2,4)] assms(7) obtain M' where
    "spec_run t (\<lambda>_. None) (before @ (now, k, Learn a ad tid) # between @ [(now', k', op)]) rs M'" by auto
  from this [unfolded spec_run_append spec_run.simps] obtain rs1 r rs2 r' M1 M2 M3 where rs: "rs = rs1 @ r # rs2 @ [r']" "length rs1 = length before"
    "spec_packet t M1 (now, k, Learn a ad tid) r M2" "spec_run t M2 between rs2 M3" "spec_packet t M3 (now', k', op) r' M'" by blast
  have "snd r" using assms(8) rs(1,2) by (simp add: nth_append)
  then obtain d where d: "data_ok t a ad d" "M2 (mk t k) = Some (ucast (tid_of t tid), ln_expiry now (timeout_of t (ucast (tid_of t tid))), d)"
    using rs(3) by (auto simp: spec_packet_def Let_def)
  have "M3 (mk t k) = M2 (mk t k)" by (rule spec_run_other [OF rs(4) assms(5)])
  then have "fst r' = (if now' < push_bit 32 (ucast (ln_expiry now (timeout_of t (ucast (tid_of t tid))))) then Some d else None)"
    using spec_packet_sees [OF rs(5)] d(2) assms(6) by (simp add: view_def alive_def)
  then show ?thesis using d(1) rs(1) by (intro exI [of _ d]) simp
qed

theorem learned_key_lives_until_expiry_witness:
  "case ln_run [(1, [7], Learn 5 None 0), (2, [8], Nothing), (3, [7], Nothing)] ln_example_table ln_new of
     Inr (t', m', rs) \<Rightarrow> (case fst (last rs) of Some d \<Rightarrow> fst d = 5 | None \<Rightarrow> False)
   | Inl _ \<Rightarrow> False"
proof -
  let ?ps = "[] @ (1 :: u64, [7], Learn 5 None 0) # [(2, [8], Nothing)] @ [(3, [7], Nothing)]"
  have h: "sorted_wrt (\<le>) (map fst ?ps)" "\<forall>p \<in> set ?ps. op_ok ln_example_table (snd (snd p))" by (simp_all add: op_ok_def args_ok_def)
  then have "sorted_wrt (\<le>) (0 # map fst ?ps)" by simp
  from run_refines [OF create_rel(1) [OF example_create] this example_state h(2)] obtain t' m' rs where
    r: "ln_run ?ps ln_example_table ln_new = Inr (t', m', rs)" by blast
  from four_keys_learn [of "[0, 0, 0, 0]" "[[0], [0], [0], [0]]" "[0, 0, 0, 0]" "[0, 0, 0, 0]" 7 ln_new 0 5, unfolded example_four]
  obtain t1 m1 where "ln_packet ln_example_table ln_new (1, [7], Learn 5 None 0) = Inr (t1, m1, None, True)" by (auto simp: find4 example_state)
  then have acc: "snd (rs ! length [])" using r by (auto simp: bindR_eq_Inr)
  have k: "\<forall>p \<in> set [(2, [8], Nothing)]. mk ln_example_table (fst (snd p)) \<noteq> mk ln_example_table [7]" by code_simp
  have e: "(3 :: u64) < push_bit 32 (ucast (ln_expiry 1 (timeout_of ln_example_table (ucast (tid_of ln_example_table 0)))))" by code_simp
  from learned_key_lives_until_expiry [OF example_create example_state h k refl r acc] e obtain d where
    "data_ok ln_example_table 5 None d" "fst (last rs) = Some d" by auto
  then show ?thesis using r(1) by (simp add: data_ok_def)
qed

text \<open>C18: After any packets, an addition is refused only when its key is not in the table and each of the four positions of its bucket
is held by a time of expiry that is not before the current time; the table is then unchanged.\<close>

theorem learn_refused_only_when_full:
  assumes "learner_create hz params = Inr (Some t0)" "lm_state m0 = 0" "sorted_wrt (\<le>) (map fst ps @ [now])"
    and "\<forall>p \<in> set ps. op_ok t0 (snd (snd p))" "args_ok t0 ad"
    and "ln_run ps t0 m0 = Inr (t, m, rs)" "ln_packet t m (now, k, Learn a ad tid) = Inr (t', m', r, False)"
  shows "t' = t \<and> r = None \<and> ln_entry t now k = None \<and> (\<forall>i \<in> {0, 1, 2, 3}. now \<le> push_bit 32 (ucast (lb_time (ln_bkt t k) ! i)))"
proof -
  have "sorted_wrt (\<le>) (0 # map fst ps)" using assms(3) by (simp add: sorted_wrt_append)
  from run_refines [OF create_rel(1) [OF assms(1)] this assms(2,4)] assms(6) obtain M where
    r: "ln_rel t (last (0 # map fst ps)) M" "lm_state m = 0" "lt_params t = lt_params t0" by auto
  have "last (0 # map fst ps) \<le> now" using assms(3) by (cases ps rule: rev_cases) (simp_all add: sorted_wrt_append)
  from rel_later [OF r(1) this] have wf: "ln_wf t" "ln_unique t now" by (simp_all add: ln_rel_def)
  have ad: "args_ok t ad" using assms(5) r(3) by (simp add: args_ok_def)
  from lookup_steps [OF wf(1) r(2), of now k] obtain m1 m2 where l: "learner_lookup t m now k = Inr (m1, None)"
    "learner_lookup t m1 now k = Inr (m2, Some (map_option (snd \<circ> snd) (ln_entry t now k)))" "ln_after t now k m2" by blast
  have add: "learner_add t m2 now k a ad tid = Inr (t', m', False)" "r = map_option (snd \<circ> snd) (ln_entry t now k)"
    using assms(7) l(1,2) by (auto simp: ln_packet_def ln_do_def bindR_eq_Inr)
  have none: "ln_pos t now k = None"
  proof (rule ccontr)
    assume "ln_pos t now k \<noteq> None"
    then obtain i where "ln_pos t now k = Some i" by blast
    from add_hit [OF wf l(3) this ad, of a tid] show False using add(1) by auto
  qed
  from add_miss [OF wf l(3) none ad, of a tid] have "t' = t" "\<forall>i < 4. now \<le> push_bit 32 (ucast (lb_time (ln_bkt t k) ! i))" using add(1) by auto
  then show ?thesis using none add(2) by (simp add: ln_entry_def)
qed

theorem learn_refused_only_when_full_witness:
  "case ln_run [(1, [1], Learn 5 None 0), (1, [2], Learn 5 None 0), (1, [3], Learn 5 None 0), (1, [4], Learn 5 None 0)] ln_example_table ln_new of
     Inr (t, m, rs) \<Rightarrow> (case ln_packet t m (2, [5], Learn 5 None 0) of Inr (t', m', r, ok) \<Rightarrow> \<not> ok \<and> t' = t \<and> ln_entry t 2 [5] = None | Inl _ \<Rightarrow> False)
   | Inl _ \<Rightarrow> False"
proof -
  let ?ps = "[(1 :: u64, [1], Learn 5 None 0), (1, [2], Learn 5 None 0), (1, [3], Learn 5 None 0), (1, [4], Learn 5 None 0)]"
  from example_full obtain t m ss ds rs where f: "ln_run ?ps ln_example_table ln_new = Inr (t, m, rs)" "lm_state m = 0"
    "t = four_keys [2, 2, 2, 2] [[1], [2], [3], [4]] ss ds" "length ss = 4" "length ds = 4" by blast
  from example_refused [OF f(2-5)] obtain m' where p: "ln_packet t m (2, [5], Learn 5 None 0) = Inr (t, m', None, False)" by blast
  have h: "sorted_wrt (\<le>) (map fst ?ps @ [2])" "\<forall>p \<in> set ?ps. op_ok ln_example_table (snd (snd p))" "args_ok ln_example_table None"
    by (simp_all add: op_ok_def args_ok_def)
  from learn_refused_only_when_full [OF example_create example_state h f(1) p] show ?thesis using f(1) p by simp
qed

text \<open>C19: Two lookups of one key that are under way at once, each with its own mailbox, both miss on a new table, and both additions
are then accepted: the key is stored at two positions. A packet that deletes it afterwards removes the first one, and the next lookup
of the key still hits, with the action of the other.\<close>

theorem concurrent_misses_install_twice:
  assumes "learner_create hz params = Inr (Some t)" "lm_state m = 0" "lm_state n = 0" "lm_state p = 0"
    and "0 < now" "now < push_bit 32 (ucast (ln_expiry now (timeout_of t (ucast (tid_of t tid)))))"
  shows "\<exists>t' t'' p' d d'. learn_twice t m n now k a a' tid = Inr (t', Some None, Some None, True, True) \<and> fst d = a \<and> fst d' = a' \<and>
    ln_run [(now, k, Forget), (now, k, Nothing)] t' p = Inr (t'', p', [(Some d, True), (Some d', True)])"
  using installs_twice [OF assms] .

theorem concurrent_misses_install_twice_witness:
  "\<exists>t' t'' p' d d'. learn_twice ln_example_table ln_new ln_new 1 [7] 5 6 0 = Inr (t', Some None, Some None, True, True) \<and> fst d = 5 \<and> fst d' = 6 \<and>
    ln_run [(1, [7], Forget), (1, [7], Nothing)] t' ln_new = Inr (t'', p', [(Some d, True), (Some d', True)])"
proof -
  have "(0 :: u64) < 1" "(1 :: u64) < push_bit 32 (ucast (ln_expiry 1 (timeout_of ln_example_table (ucast (tid_of ln_example_table 0)))))"
    by code_simp+
  from concurrent_misses_install_twice [OF example_create example_state example_state example_state this] show ?thesis .
qed

end
