(* ===== verification/Spec2Isabelle.thy ===== *)
theory Spec2Isabelle
  imports TableEmProps IxgbeTx TokenRace SwxSwitch AppProtocol AppConn IxgbeReasmProps TableLearnerProps
begin

text \<open>
  Verification library of the DPDK P4 switch.

  The program. A P4 program is compiled to the instruction text of a software switch pipeline (P4/l3.p4 to
  P4/l3.spec). The pipeline library of DPDK (lib/pipeline/rte_swx_pipeline.c and
  rte_swx_pipeline_internal.h, paths below dpdk/dpdk-22.07) registers the program's types, headers, actions and
  tables, translates every line of text to an instruction, fuses instructions, resolves jumps and then
  interprets the instructions, one thread per packet in flight, up to 16 threads in rotation. The tables it looks
  up are those of lib/table/rte_swx_table_em.c, its meters those of lib/meter/rte_meter.h. An application
  (pipeline/) creates pipelines, gives them to data plane threads and takes commands from sockets. Packets arrive and leave
  through the ixgbe driver, which this repository changed (drivers/net/ixgbe/ixgbe_rxtx_vec_sse.c): every packet
  takes a token of its priority queue from text files, or is dropped when there is none; a second process
  (worker/worker.c) puts tokens back.

  Theories and code.

  Prelude: C integers as words, the outcome of an operation that may fault, named collections of rules.
  RteCommon: power-of-two helpers of lib/eal/include/rte_common.h.

  TokenFiles, TokenQueue, TokenRace: the text files of tokens, the worker and the file part of the driver's
  per-packet decision. TokenFiles has the conversions of \<open>fscanf\<close> and \<open>fprintf\<close>, TokenQueue the two
  programs one at a time and the conservation of tokens, TokenRace the two as processes that interleave at
  every file operation, since \<open>flock\<close> gets a \<open>FILE *\<close> where it needs a descriptor and excludes nobody; the steps
  of the driver for one packet, taken together (\<open>drv_handles\<close>), are \<open>take_token\<close>.

  IxgbeTx: the transmit queue of the driver, with packet buffers, reference counts, pools, the descriptor ring and
  the software ring; the per-packet decision, the burst, the release of sent buffers, and reset.

  Sse, IxgbeRxDesc, IxgbeRxFlags: the vector registers as lists of 16 bytes with the instructions that the driver
  uses, the translation of received descriptors to buffer fields by vector instructions (desc_to_olflags_v, desc_to_ptype_v
  and others) and by the scalar functions of ixgbe_rxtx.c, and their agreement. IxgbeRx, IxgbeRxBuf, IxgbeRxRing, IxgbeRxBurst,
  IxgbeRxProps: the receive queue (\<open>rx_queue\<close>), the device's side of the ring (\<open>rx_nic\<close>: descriptors,
  tail register, head, and a log of what it wrote back), the refill (ixgbe_rxq_rearm), a burst (\<open>recv_raw_pkts_vec\<close> for
  _recv_raw_pkts_vec), start and reset. IxgbeReasm, IxgbeSegs, IxgbeScatter, IxgbeReasmProps: reassembly of packets
  from several buffers (ixgbe_rxtx_vec_common.h), the scattered receive functions, and release; \<open>cut_packets\<close> is the reference:
  what packets a sequence of write-backs makes up.

  AppThread, AppProtocol, AppConn: pipeline objects and data plane threads of pipeline/obj.c and thread.c, the protocol
  of requests and responses between the control thread and the data plane threads as an interleaving of their steps,
  and the command connections of conn.c, with the lines of a byte stream (\<open>split_lines\<close>, \<open>line_tail\<close>) as their reference.

  RteMeter: the three markers of lib/meter/rte_meter.h on 64-bit words that wrap. SwxMeter: meter arrays and
  profiles of the pipeline and the meter instructions. SwxReg: register arrays.

  SwxThread, SwxField: a thread's state and the loads and stores of fields. SwxAlu, SwxCksum, SwxPacket:
  the instruction bodies (\<open>__instr_*_exec\<close>). SwxInstr: the instruction set as a datatype, one constructor per
  member of the C union, and the dispatch of bodies. SwxExec: the interpreter (\<open>instr_*_exec\<close> of
  rte_swx_pipeline.c with thread_yield, table lookups and the commit of new table states).
  SwxSpec: the specification of a pipeline and its registrations. SwxTranslate: \<open>instr_translate\<close>.
  SwxConfig: labels, the optimiser's passes and jump resolution (\<open>instruction_config\<close>). SwxL3: P4/l3.spec.

  SwxFuse, SwxIp, SwxOptim, SwxOptimProps: that the optimiser cannot be observed. SwxTyping: what the
  translation guarantees of an instruction. SwxSound: the interpreter's invariant. SwxProgram: the way from
  text to running code. SwxSwitch: all of it on the switch program of the repository.

  TableEm, TableEmMap, TableEmProps: the exact-match table, its representation invariant and the map it is.
  TableLearner, TableLearnerMap, TableLearnerProps: the learner table of lib/table/rte_swx_table_learner.c, whose keys the data
  plane adds and which expire. \<open>ln_table\<close> is its struct table, \<open>ln_mailbox\<close> the context of a lookup, and
  \<open>learner_f\<close> its function rte_swx_table_learner_f; a mapping from masked keys to entries with a time of expiry is what it implements
  (\<open>ln_rel\<close>, \<open>spec_packet\<close>), for packets one after another.

  What the lemmas show. For a data structure (exact-match table, transmit and receive ring, meter profiles, register
  arrays) an invariant that every operation keeps and the effect of each operation on an abstract
  value; for an instruction its effect on memory and what it leaves alone; for the interpreter that a pipeline
  made by the configuration never faults (\<open>pipeline_never_faults\<close> over the steps of \<open>sw_step\<close>), and for the
  optimiser that the fused program reaches what the plain one reaches. Where the code does something
  else than it means to, the theorem states what it does.

  For the receive queue, descriptors are counted from the start: \<open>rx_inv R s\<close> says that R of them have been received, that
  those between R and the length of the device's log are written back, and that the others up to \<open>armed_end\<close> hold the
  address of a buffer that is in no other place; a call delivers a further piece of the log. The device may write
  descriptors back before every single load (\<open>device_ok\<close>), so that the order in which the four descriptors of a group are
  loaded matters in the proofs as it does in the code.

  Interfaces as locales: \<open>fusion\<close> (what an optimiser pass has to promise, interpreted by every
  pass), and those of the tables, queues and byte orders in their theories; each is interpreted on the
  definitions of the code.

  Bounds and fuel. Loops that follow a structure are recursive on it. The others get a count of rounds that
  is proved sufficient: mirroring walks 64 slots because the slots in use are a 64-bit mask; a
  packet's segments are at most 65536 because \<open>nb_segs\<close> has 16 bits; the release of a transmit queue takes
  \<open>nb_tx_desc\<close> + 1 rounds at most; a bucket chain of the table has at most \<open>n_buckets_ext\<close> + 1
  buckets; the search for the segment before the last of a packet takes at most as many rounds as there are segments, and a
  call of the scattered receive function at most 2048 bursts, as each but the last returns 32 packets; the release of a receive
  queue goes once round the ring; the lookup in steps ends after three; the pass over fused moves takes at most as many rounds as
  there are lines. Running out is a fault of its own (\<open>Diverges\<close> or None), and the theorems show that it does
  not occur.

  Abstractions. Input ports are queues of packets and output ports logs of what was handed to them. Pools are
  lists of free buffers. Log messages and statistics that only count are unbounded numbers. A pointer to a
  meter profile is its name. The floating-point conversion of a meter's rates is an argument of the
  definitions that use it. Memory allocation succeeds. A thread sees a table entry's memory through a window of
  its address space. The clock is any sequence of times. The instructions of a pipeline are one function of
  addresses with the pipeline's own program at 0. Sizes of structs are sums of field sizes below 2 ^ 32. No
  extern object, selector or learner is registered. The network device is a parameter: any function on its side of the
  ring whose effect is a sequence of write-backs, in ring order, of completed descriptors into those that the driver gave
  it. A descriptor that does not end a packet reports at least four bytes. The table states a commit may select are all in
  memory from the beginning. The variable \<open>ret\<close> of the driver's \<open>vtx\<close> is never initialised: what it starts with is an argument, and the
  theorems on bursts hold for every value. The token files, the emulator's among them, exist when the two programs start. The checks of sizes in the
  creation of an exact-match table compare exact sums, without the wrap-around of the roundings in 32 bits. The read of one instruction behind the code in the optimiser's
  pass over emits is a fault of the configuration (\<open>CFG_OVERREAD\<close>), also where the memory behind is allocated. The
  number of bytes of a fused move is not cut to the 16 bits of its field. Theorems on connections that assume successful writes to the clients say so.

  Not modelled: the code generator that replaces the interpreter by compiled C; extern objects and functions;
  selectors, and the instructions of the pipeline that use a learner table (the table itself is modelled); the text format of the specification file and the command line interface; wildcard
  tables (a library this one only calls); the scalar receive and transmit loops of ixgbe_rxtx.c, the set up of queues and the
  configuration of the device, which are calls into ethdev and registers; the main program of the application and the parsers of
  its commands (pipeline/main.c, cli.c), which are glue around the library.
\<close>

end
